(* ===== verification/Prelude.thy ===== *)
theory Prelude
  imports Complex_Main
begin

text \<open>
  The vocabulary every component theory shares.

  \<^item> SQL tables are lists of rows in insertion (rowid) order. A \<open>SELECT\<close> is \<^const>\<open>filter\<close>,
    \<open>fetchone\<close> on a key is \<open>get_by\<close>, \<open>UPDATE .. WHERE\<close> is \<open>upd_where\<close>, \<open>DELETE .. WHERE\<close>
    is \<open>del_where\<close>, and the facts about them are collected in \<open>table_simps\<close>.
  \<^item> Python strings are \<^typ>\<open>string\<close>, read as the UTF-8 bytes of the text; \<open>py_strip\<close>,
    \<open>py_rstrip\<close>, \<open>py_lower\<close> and \<open>py_int\<close> are the string methods the sources use, exact on
    ASCII text.
  \<^item> Timestamps (\<open>REAL\<close> columns, \<open>time.time()\<close>) are \<^typ>\<open>real\<close>; every reading of the clock is an
    argument of the operation that makes it.
  \<^item> Four interfaces are stated as locales: a store whose operations keep an invariant
    (\<open>guarded_store\<close>), one whose operations never undo a fact (\<open>sealing_store\<close>), one where such a
    fact stops further wins (\<open>sealing_gate\<close>), and one where at most one operation of a history wins
    a slot (\<open>claim_once\<close>).
\<close>

named_theorems table_simps

type_synonym time = real

section \<open>Tables\<close>

definition upd_where :: "('r \<Rightarrow> bool) \<Rightarrow> ('r \<Rightarrow> 'r) \<Rightarrow> 'r list \<Rightarrow> 'r list" where
  "upd_where P f t = map (\<lambda>r. if P r then f r else r) t"

definition del_where :: "('r \<Rightarrow> bool) \<Rightarrow> 'r list \<Rightarrow> 'r list" where
  "del_where P t = filter (\<lambda>r. \<not> P r) t"

definition get_by :: "('r \<Rightarrow> 'k) \<Rightarrow> 'k \<Rightarrow> 'r list \<Rightarrow> 'r option" where
  "get_by key k t = find (\<lambda>r. key r = k) t"

definition count_where :: "('r \<Rightarrow> bool) \<Rightarrow> 'r list \<Rightarrow> nat" where
  "count_where P t = length (filter P t)"

definition first_where :: "('r \<Rightarrow> bool) \<Rightarrow> 'r list \<Rightarrow> 'r option" where
  "first_where P t = find P t"

text \<open>SQL's \<open>COALESCE(a, b)\<close> on nullable columns.\<close>

definition coalesce :: "'a option \<Rightarrow> 'a option \<Rightarrow> 'a option" where
  "coalesce a b = (case a of None \<Rightarrow> b | Some x \<Rightarrow> Some x)"

lemma coalesce_simps [simp]:
  "coalesce None b = b" "coalesce (Some x) b = Some x"
  by (simp_all add: coalesce_def)

lemma coalesce_eq_None [simp]: "coalesce a b = None \<longleftrightarrow> a = None \<and> b = None"
  by (cases a) auto

lemma upd_where_Nil [table_simps]: "upd_where P f [] = []"
  by (simp add: upd_where_def)

lemma upd_where_Cons [table_simps]:
  "upd_where P f (r # t) = (if P r then f r else r) # upd_where P f t"
  by (simp add: upd_where_def)

lemma upd_where_append [table_simps]: "upd_where P f (t @ u) = upd_where P f t @ upd_where P f u"
  by (simp add: upd_where_def)

lemma length_upd_where [table_simps]: "length (upd_where P f t) = length t"
  by (simp add: upd_where_def)

lemma set_upd_where [table_simps]:
  "set (upd_where P f t) = (\<lambda>r. if P r then f r else r) ` set t"
  by (simp add: upd_where_def)

lemma upd_where_hit: "r \<in> set t \<Longrightarrow> P r \<Longrightarrow> f r \<in> set (upd_where P f t)"
  by (auto simp: set_upd_where)

lemma upd_where_miss: "r \<in> set t \<Longrightarrow> \<not> P r \<Longrightarrow> r \<in> set (upd_where P f t)"
  by (auto simp: set_upd_where)

lemma map_upd_where [table_simps]:
  "(\<And>r. P r \<Longrightarrow> g (f r) = g r) \<Longrightarrow> map g (upd_where P f t) = map g t"
  by (auto simp: upd_where_def)

lemma list_all_upd_where:
  "list_all Q (upd_where P f t) \<longleftrightarrow> list_all (\<lambda>x. if P x then Q (f x) else Q x) t"
  by (simp add: upd_where_def list.pred_map comp_def if_distrib)

lemma upd_where_id: "(\<And>r. r \<in> set t \<Longrightarrow> \<not> P r) \<Longrightarrow> upd_where P f t = t"
  by (auto simp: upd_where_def intro: map_idI)

lemma del_where_Nil [table_simps]: "del_where P [] = []"
  by (simp add: del_where_def)

lemma del_where_Cons [table_simps]:
  "del_where P (r # t) = (if P r then del_where P t else r # del_where P t)"
  by (simp add: del_where_def)

lemma del_where_append [table_simps]: "del_where P (t @ u) = del_where P t @ del_where P u"
  by (simp add: del_where_def)

lemma set_del_where [table_simps]: "set (del_where P t) = {r \<in> set t. \<not> P r}"
  by (auto simp: del_where_def)

lemma del_where_id: "(\<And>r. r \<in> set t \<Longrightarrow> \<not> P r) \<Longrightarrow> del_where P t = t"
  by (simp add: del_where_def filter_id_conv)

lemma distinct_map_del_where [table_simps]:
  "distinct (map g t) \<Longrightarrow> distinct (map g (del_where P t))"
  by (simp add: del_where_def distinct_map_filter)

lemma count_where_upd_mono:
  "(\<And>r. P r \<Longrightarrow> Q (f r) \<Longrightarrow> Q r) \<Longrightarrow> count_where Q (upd_where P f t) \<le> count_where Q t"
  by (induction t) (auto simp: count_where_def upd_where_def)

lemma count_where_del: "count_where Q (del_where P t) \<le> count_where Q t"
  by (induction t) (auto simp: count_where_def del_where_def)

lemma count_where_append [table_simps]:
  "count_where Q (t @ u) = count_where Q t + count_where Q u"
  by (simp add: count_where_def)

lemma count_where_Cons [table_simps]:
  "count_where Q (r # t) = (if Q r then Suc (count_where Q t) else count_where Q t)"
  by (simp add: count_where_def)

lemma count_where_Nil [table_simps]: "count_where Q [] = 0"
  by (simp add: count_where_def)

lemma first_where_SomeD: "first_where P t = Some r \<Longrightarrow> r \<in> set t \<and> P r"
  by (auto simp: first_where_def find_Some_iff in_set_conv_nth)

lemma first_where_None: "first_where P t = None \<longleftrightarrow> (\<forall>r \<in> set t. \<not> P r)"
  by (auto simp: first_where_def find_None_iff)

lemma first_where_Nil [table_simps]: "first_where P [] = None"
  by (simp add: first_where_def)

lemma first_where_Cons [table_simps]:
  "first_where P (r # t) = (if P r then Some r else first_where P t)"
  by (simp add: first_where_def)

lemma first_where_append [table_simps]:
  "first_where P (t @ u) = (case first_where P t of None \<Rightarrow> first_where P u | Some r \<Rightarrow> Some r)"
  by (induction t) (auto simp: table_simps)

lemma get_by_SomeD: "get_by key k t = Some r \<Longrightarrow> r \<in> set t \<and> key r = k"
  by (auto simp: get_by_def find_Some_iff in_set_conv_nth)

lemma get_by_None: "get_by key k t = None \<longleftrightarrow> k \<notin> key ` set t"
  by (auto simp: get_by_def find_None_iff)

lemma get_by_Nil [table_simps]: "get_by key k [] = None"
  by (simp add: get_by_def)

lemma get_by_Cons [table_simps]:
  "get_by key k (r # t) = (if key r = k then Some r else get_by key k t)"
  by (simp add: get_by_def)

lemma get_by_append [table_simps]:
  "get_by key k (t @ u) = (case get_by key k t of None \<Rightarrow> get_by key k u | Some r \<Rightarrow> Some r)"
  by (induction t) (auto simp: table_simps)

lemma get_by_eq:
  "distinct (map key t) \<Longrightarrow> r \<in> set t \<Longrightarrow> get_by key (key r) t = Some r"
  by (induction t) (auto simp: table_simps image_iff)

lemma get_by_iff:
  "distinct (map key t) \<Longrightarrow> get_by key k t = Some r \<longleftrightarrow> r \<in> set t \<and> key r = k"
  using get_by_SomeD get_by_eq by fastforce

lemma get_by_upd_where [table_simps]:
  "(\<And>r. P r \<Longrightarrow> key (f r) = key r) \<Longrightarrow>
   get_by key k (upd_where P f t) = map_option (\<lambda>r. if P r then f r else r) (get_by key k t)"
  by (induction t) (auto simp: get_by_def upd_where_def)

lemma get_by_del_where:
  "distinct (map key t) \<Longrightarrow> get_by key k (del_where P t) =
     (case get_by key k t of None \<Rightarrow> None | Some r \<Rightarrow> if P r then None else Some r)"
proof (induction t)
  case Nil
  then show ?case by (simp add: table_simps)
next
  case (Cons r t)
  have "get_by key k (del_where P t) = None" if "key r = k"
    using that Cons.prems by (auto simp: get_by_None set_del_where)
  with Cons show ?case by (auto simp: table_simps)
qed

lemma distinct_key_inj:
  "distinct (map key t) \<Longrightarrow> r \<in> set t \<Longrightarrow> r' \<in> set t \<Longrightarrow> key r = key r' \<Longrightarrow> r = r'"
  by (metis get_by_eq option.inject)

lemma distinct_map_upd_single:
  assumes "distinct (map key t)" "distinct (map g t)" "v \<notin> g ` set t"
    and "\<And>r. key r = k \<Longrightarrow> g (f r) = v"
  shows "distinct (map g (upd_where (\<lambda>r. key r = k) f t))"
  using assms
proof (induction t)
  case Nil
  then show ?case by (simp add: table_simps)
next
  case (Cons r t)
  show ?case
  proof (cases "key r = k")
    case True
    with Cons.prems(1) have "upd_where (\<lambda>r. key r = k) f t = t"
      by (intro upd_where_id) (auto simp: image_iff)
    with True Cons.prems show ?thesis by (auto simp: table_simps)
  next
    case False
    with Cons show ?thesis by (auto simp: table_simps image_iff)
  qed
qed

section \<open>Python strings\<close>

definition py_space :: "char \<Rightarrow> bool" where
  "py_space c = (let n = (of_char c :: nat) in n = 32 \<or> (9 \<le> n \<and> n \<le> 13) \<or> (28 \<le> n \<and> n \<le> 31))"

definition py_lstrip :: "string \<Rightarrow> string" where
  "py_lstrip s = dropWhile py_space s"

definition py_rstrip :: "string \<Rightarrow> string" where
  "py_rstrip s = rev (dropWhile py_space (rev s))"

definition py_strip :: "string \<Rightarrow> string" where
  "py_strip s = py_rstrip (py_lstrip s)"

definition lower_char :: "char \<Rightarrow> char" where
  "lower_char c = (let n = (of_char c :: nat) in if 65 \<le> n \<and> n \<le> 90 then char_of (n + 32) else c)"

definition py_lower :: "string \<Rightarrow> string" where
  "py_lower s = map lower_char s"

definition starts_with :: "string \<Rightarrow> string \<Rightarrow> bool" where
  "starts_with p s \<longleftrightarrow> take (length p) s = p"

definition ends_with :: "string \<Rightarrow> string \<Rightarrow> bool" where
  "ends_with p s \<longleftrightarrow> starts_with (rev p) (rev s)"

definition is_digit :: "char \<Rightarrow> bool" where
  "is_digit c \<longleftrightarrow> (let n = (of_char c :: nat) in 48 \<le> n \<and> n \<le> 57)"

definition hex_digit :: "char \<Rightarrow> bool" where
  "hex_digit c \<longleftrightarrow> c \<in> set ''0123456789abcdef''"

text \<open>\<open>int(s)\<close>: optional sign, decimal digits with single underscores between them.\<close>

fun py_digits :: "bool \<Rightarrow> int \<Rightarrow> string \<Rightarrow> int option" where
  "py_digits seen acc [] = (if seen then Some acc else None)"
| "py_digits seen acc (c # cs) =
     (if is_digit c then py_digits True (10 * acc + (of_char c - 48)) cs
      else if c = CHR ''_'' \<and> seen then py_digits False acc cs else None)"

definition py_int :: "string \<Rightarrow> int option" where
  "py_int s = (case py_strip s of [] \<Rightarrow> None
     | c # cs \<Rightarrow> if c = CHR ''-'' then map_option uminus (py_digits False 0 cs)
                else if c = CHR ''+'' then py_digits False 0 cs
                else py_digits False 0 (c # cs))"

text \<open>\<open>str(n)\<close> of an integer.\<close>

fun show_nat :: "nat \<Rightarrow> string" where
  "show_nat n = (if n < 10 then [char_of (48 + n)] else show_nat (n div 10) @ [char_of (48 + n mod 10)])"

declare show_nat.simps [simp del]

definition show_int :: "int \<Rightarrow> string" where
  "show_int i = (if i < 0 then CHR ''-'' # show_nat (nat (- i)) else show_nat (nat i))"

lemmas py_str_defs = py_space_def py_lstrip_def py_rstrip_def py_strip_def lower_char_def
  py_lower_def starts_with_def ends_with_def is_digit_def hex_digit_def py_int_def

lemma dropWhile_hd: "dropWhile P xs \<noteq> [] \<Longrightarrow> \<not> P (hd (dropWhile P xs))"
  by (rule hd_dropWhile) simp

lemma py_lstrip_rstrip: "py_lstrip (py_rstrip (py_lstrip s)) = py_rstrip (py_lstrip s)"
proof (cases "py_lstrip s")
  case Nil
  show ?thesis unfolding Nil by (simp add: py_lstrip_def py_rstrip_def)
next
  case (Cons c cs)
  then have c: "\<not> py_space c"
    using dropWhile_hd [of py_space s] by (simp add: py_lstrip_def)
  have "dropWhile py_space (rev cs @ [c]) = dropWhile py_space (rev cs) @ [c]"
    using c by (induction "rev cs") (auto simp: dropWhile_append)
  with Cons c show ?thesis
    by (simp add: py_lstrip_def py_rstrip_def)
qed

lemma py_strip_idem: "py_strip (py_strip s) = py_strip s"
  by (simp add: py_strip_def py_lstrip_rstrip) (simp add: py_rstrip_def dropWhile_idem)

lemma starts_with_append [simp]: "starts_with p (p @ s)"
  by (simp add: starts_with_def)

lemma starts_with_iff: "starts_with p s \<longleftrightarrow> (\<exists>r. s = p @ r)"
  by (metis append_take_drop_id starts_with_append starts_with_def)

lemma ends_with_iff: "ends_with p s \<longleftrightarrow> (\<exists>r. s = r @ p)"
  unfolding ends_with_def starts_with_iff
  by (metis rev_append rev_rev_ident)

section \<open>Interfaces\<close>

text \<open>A store and its operations: every operation keeps the invariant, so every history does.\<close>

locale guarded_store =
  fixes step :: "'op \<Rightarrow> 's \<Rightarrow> 's" and inv :: "'s \<Rightarrow> bool"
  assumes step_inv: "inv s \<Longrightarrow> inv (step op s)"
begin

lemma run_inv: "inv s \<Longrightarrow> inv (fold step ops s)"
  by (induction ops arbitrary: s) (auto intro: step_inv)

end

text \<open>A store with facts no operation takes back.\<close>

locale sealing_store = guarded_store +
  fixes sealed :: "'k \<Rightarrow> 's \<Rightarrow> bool"
  assumes step_sealed: "inv s \<Longrightarrow> sealed k s \<Longrightarrow> sealed k (step op s)"
begin

lemma run_sealed: "inv s \<Longrightarrow> sealed k s \<Longrightarrow> sealed k (fold step ops s)"
  by (induction ops arbitrary: s) (auto intro: step_inv step_sealed)

lemma run_sealed_later:
  "inv s \<Longrightarrow> sealed k (fold step xs s) \<Longrightarrow> sealed k (fold step (xs @ ys) s)"
  using run_inv run_sealed by auto

end

text \<open>
  How many operations of a history win something: \<open>w op s\<close> says that \<open>op\<close>, run in state \<open>s\<close>,
  answers its caller with the win.
\<close>

fun wins_along :: "('op \<Rightarrow> 's \<Rightarrow> 's) \<Rightarrow> ('op \<Rightarrow> 's \<Rightarrow> bool) \<Rightarrow> 'op list \<Rightarrow> 's \<Rightarrow> nat" where
  "wins_along step w [] s = 0"
| "wins_along step w (op # ops) s = (if w op s then 1 else 0) + wins_along step w ops (step op s)"

text \<open>A gate: nobody wins once the fact is sealed.\<close>

locale sealing_gate = sealing_store step inv sealed
  for step :: "'op \<Rightarrow> 's \<Rightarrow> 's" and inv :: "'s \<Rightarrow> bool" and sealed :: "'k \<Rightarrow> 's \<Rightarrow> bool" +
  fixes wins :: "'k \<Rightarrow> 'op \<Rightarrow> 's \<Rightarrow> bool"
  assumes wins_free: "inv s \<Longrightarrow> wins k op s \<Longrightarrow> \<not> sealed k s"
begin

lemma no_win_sealed: "inv s \<Longrightarrow> sealed k s \<Longrightarrow> wins_along step (wins k) ops s = 0"
  by (induction ops arbitrary: s) (auto dest: wins_free intro: step_inv step_sealed)

end

text \<open>
  A slot at most one operation of any history wins: a win needs the slot free and takes it, and
  nothing frees a taken slot.
\<close>

locale claim_once = sealing_gate +
  assumes wins_seals: "inv s \<Longrightarrow> wins k op s \<Longrightarrow> sealed k (step op s)"
begin

lemma at_most_one_win: "inv s \<Longrightarrow> wins_along step (wins k) ops s \<le> 1"
proof (induction ops arbitrary: s)
  case Nil
  then show ?case by simp
next
  case (Cons op ops)
  show ?case
  proof (cases "wins k op s")
    case True
    with Cons.prems have "wins_along step (wins k) ops (step op s) = 0"
      by (intro no_win_sealed) (auto intro: step_inv wins_seals)
    with True show ?thesis by simp
  next
    case False
    with Cons show ?thesis by (simp add: step_inv)
  qed
qed

end

end
