(* ===== verification/Artifact_Quota.thy ===== *)
theory Artifact_Quota
  imports Prelude
begin

text \<open>
  \<open>compat/artifact_quota.py\<close>: the live-byte reservations of one-shot browser artifacts. The
  state is the \<open>reservations\<close> table; each operation is one transaction of the source
  (\<open>BEGIN IMMEDIATE\<close> .. \<open>commit\<close>, \<open>rollback\<close> on an exception, so a failing operation returns the
  table it was given). A fresh \<open>uuid4().hex\<close>, the clock and the environment are arguments.
\<close>

section \<open>State and operations\<close>

record reservation =
  res_token :: string
  res_principal :: string
  res_size :: int
  res_root :: "string option"
  res_artifact :: "string option"
  res_expires :: time

datatype quota_error = QuotaExceeded string | ReservationLost | QuotaIntegrity

definition PRINCIPAL_BYTES :: int where "PRINCIPAL_BYTES = 1073741824"
definition GLOBAL_BYTES :: int where "GLOBAL_BYTES = 4294967296"

text \<open>\<open>_limit\<close>: a positive integer of the environment, or the default.\<close>

definition env_limit :: "string option \<Rightarrow> int \<Rightarrow> int" where
  "env_limit env dflt = (case env of None \<Rightarrow> dflt
     | Some s \<Rightarrow> (case py_int s of None \<Rightarrow> dflt | Some v \<Rightarrow> if v > 0 then v else dflt))"

definition bytes_of :: "string \<Rightarrow> reservation list \<Rightarrow> int" where
  "bytes_of p t = sum_list (map res_size (filter (\<lambda>r. res_principal r = p) t))"

definition bytes_all :: "reservation list \<Rightarrow> int" where
  "bytes_all t = sum_list (map res_size t)"

definition q_expire :: "time \<Rightarrow> reservation list \<Rightarrow> reservation list" where
  "q_expire now t = del_where (\<lambda>r. res_expires r \<le> now) t"

definition q_reserve :: "string option \<Rightarrow> string option \<Rightarrow> time \<Rightarrow> string \<Rightarrow> string \<Rightarrow> int \<Rightarrow> real
    \<Rightarrow> reservation list \<Rightarrow> (quota_error + string) \<times> reservation list" where
  "q_reserve env_p env_g now fresh who n ttl t =
     (if who = [] \<or> n < 0
      then (Inl (QuotaExceeded ''artifact principal or size is invalid''), t)
      else let t1 = q_expire now t in
        if bytes_of who t1 + n > env_limit env_p PRINCIPAL_BYTES
           \<or> bytes_all t1 + n > env_limit env_g GLOBAL_BYTES
        then (Inl (QuotaExceeded ''artifact live-byte quota exceeded''), t)
        else if get_by res_token fresh t1 \<noteq> None then (Inl QuotaIntegrity, t)
        else (Inr fresh, t1 @ [\<lparr>res_token = fresh, res_principal = who, res_size = n,
                res_root = None, res_artifact = None,
                res_expires = now + max 3600 (ttl + 60)\<rparr>]))"

text \<open>
  \<open>finalize\<close> binds a pending reservation to the stored artifact; the unique index
  \<open>quota_artifact\<close> rejects a second row for the same artifact.
\<close>

definition q_finalize :: "string \<Rightarrow> string \<Rightarrow> string \<Rightarrow> time
    \<Rightarrow> reservation list \<Rightarrow> quota_error option \<times> reservation list" where
  "q_finalize tok sroot art expires t =
     (let hit = (\<lambda>r. res_token r = tok \<and> res_artifact r = None) in
      if count_where hit t \<noteq> 1 then (Some ReservationLost, t)
      else if first_where (\<lambda>r. res_root r = Some sroot \<and> res_artifact r = Some art) t \<noteq> None
      then (Some QuotaIntegrity, t)
      else (None, upd_where hit (\<lambda>r. r\<lparr>res_root := Some sroot, res_artifact := Some art,
              res_expires := expires\<rparr>) t))"

definition q_cancel :: "string \<Rightarrow> reservation list \<Rightarrow> reservation list" where
  "q_cancel tok t = del_where (\<lambda>r. res_token r = tok) t"

definition q_release :: "string \<Rightarrow> string \<Rightarrow> reservation list \<Rightarrow> reservation list" where
  "q_release sroot art t =
     del_where (\<lambda>r. res_root r = Some sroot \<and> res_artifact r = Some art) t"

datatype quota_op =
    Reserve "string option" "string option" time string string int real
  | Finalize string string string time
  | Cancel string
  | Release string string
  | Expire time

fun quota_step :: "quota_op \<Rightarrow> reservation list \<Rightarrow> reservation list" where
  "quota_step (Reserve ep eg now fresh p n ttl) t = snd (q_reserve ep eg now fresh p n ttl t)"
| "quota_step (Finalize tok sroot art e) t = snd (q_finalize tok sroot art e t)"
| "quota_step (Cancel tok) t = q_cancel tok t"
| "quota_step (Release sroot art) t = q_release sroot art t"
| "quota_step (Expire now) t = q_expire now t"

section \<open>Invariants\<close>

definition artifact_of :: "reservation \<Rightarrow> (string \<times> string) option" where
  "artifact_of r = (case (res_root r, res_artifact r) of
     (Some a, Some b) \<Rightarrow> Some (a, b) | _ \<Rightarrow> None)"

definition unique_artifacts :: "reservation list \<Rightarrow> bool" where
  "unique_artifacts t \<longleftrightarrow>
     (\<forall>r \<in> set t. \<forall>r' \<in> set t. \<forall>a.
        artifact_of r = Some a \<longrightarrow> artifact_of r' = Some a \<longrightarrow> r = r')"

definition quota_wf :: "reservation list \<Rightarrow> bool" where
  "quota_wf t \<longleftrightarrow> distinct (map res_token t) \<and> (\<forall>r \<in> set t. 0 \<le> res_size r) \<and> unique_artifacts t"

definition within_quota :: "int \<Rightarrow> int \<Rightarrow> reservation list \<Rightarrow> bool" where
  "within_quota pl gl t \<longleftrightarrow> (\<forall>p. bytes_of p t \<le> pl) \<and> bytes_all t \<le> gl"

lemma sum_sizes_filter_le:
  "\<forall>r \<in> set t. 0 \<le> res_size r \<Longrightarrow>
   sum_list (map res_size (filter P (filter Q t))) \<le> sum_list (map res_size (filter P t))"
  by (induction t) auto

lemma bytes_of_del_where:
  "\<forall>r \<in> set t. 0 \<le> res_size r \<Longrightarrow> bytes_of p (del_where Q t) \<le> bytes_of p t"
  unfolding bytes_of_def del_where_def by (rule sum_sizes_filter_le)

lemma bytes_all_del_where:
  "\<forall>r \<in> set t. 0 \<le> res_size r \<Longrightarrow> bytes_all (del_where Q t) \<le> bytes_all t"
  using sum_sizes_filter_le [of t "\<lambda>_. True" "\<lambda>r. \<not> Q r"] by (simp add: bytes_all_def del_where_def)

lemma bytes_of_upd_where:
  "(\<And>r. P r \<Longrightarrow> res_principal (f r) = res_principal r \<and> res_size (f r) = res_size r) \<Longrightarrow>
   bytes_of p (upd_where P f t) = bytes_of p t"
  by (induction t) (auto simp: bytes_of_def upd_where_def)

lemma bytes_all_upd_where:
  "(\<And>r. P r \<Longrightarrow> res_size (f r) = res_size r) \<Longrightarrow> bytes_all (upd_where P f t) = bytes_all t"
  by (induction t) (auto simp: bytes_all_def upd_where_def)

lemma bytes_append [table_simps]:
  "bytes_of p (t @ u) = bytes_of p t + bytes_of p u" "bytes_all (t @ u) = bytes_all t + bytes_all u"
  by (simp_all add: bytes_of_def bytes_all_def)

lemma bytes_Cons [table_simps]:
  "bytes_of p (r # t) = (if res_principal r = p then res_size r else 0) + bytes_of p t"
  "bytes_all (r # t) = res_size r + bytes_all t"
  "bytes_of p [] = 0" "bytes_all [] = 0"
  by (simp_all add: bytes_of_def bytes_all_def)

lemma quota_wf_del_where: "quota_wf t \<Longrightarrow> quota_wf (del_where P t)"
  by (simp add: quota_wf_def unique_artifacts_def table_simps)

lemma quota_wf_expire: "quota_wf t \<Longrightarrow> quota_wf (q_expire now t)"
  by (simp add: q_expire_def quota_wf_del_where)

lemma quota_wf_append:
  "quota_wf t \<Longrightarrow> get_by res_token (res_token r) t = None \<Longrightarrow> 0 \<le> res_size r \<Longrightarrow>
   artifact_of r = None \<Longrightarrow> quota_wf (t @ [r])"
  by (simp add: quota_wf_def unique_artifacts_def get_by_None)

lemma quota_wf_reserve: "quota_wf t \<Longrightarrow> quota_wf (snd (q_reserve ep eg now fresh p n ttl t))"
  by (auto simp: q_reserve_def Let_def artifact_of_def intro!: quota_wf_append quota_wf_expire)

lemma quota_wf_finalize:
  assumes wf: "quota_wf t"
  shows "quota_wf (snd (q_finalize tok sroot art e t))"
proof -
  define hit where "hit = (\<lambda>r :: reservation. res_token r = tok \<and> res_artifact r = None)"
  define f where "f = (\<lambda>r :: reservation. r\<lparr>res_root := Some sroot, res_artifact := Some art, res_expires := e\<rparr>)"
  have "quota_wf (upd_where hit f t)"
    if free: "\<forall>r \<in> set t. \<not> (res_root r = Some sroot \<and> res_artifact r = Some art)"
  proof -
    have "map res_token (upd_where hit f t) = map res_token t"
      by (intro map_upd_where) (simp add: f_def)
    moreover have "\<forall>r \<in> set t. artifact_of r \<noteq> Some (sroot, art)"
      using free by (auto simp: artifact_of_def split: option.splits)
    moreover have "artifact_of (f r) = Some (sroot, art)" for r
      by (simp add: f_def artifact_of_def)
    moreover have "hit r \<and> hit r' \<longrightarrow> r = r'" if "r \<in> set t" "r' \<in> set t" for r r'
      using wf that distinct_key_inj [of res_token t r r'] by (auto simp: hit_def quota_wf_def)
    moreover have "\<forall>r \<in> set t. 0 \<le> res_size (f r)"
      using wf by (simp add: quota_wf_def f_def)
    ultimately show ?thesis
      using wf by (auto simp: quota_wf_def unique_artifacts_def set_upd_where)
  qed
  then show ?thesis
    using wf by (auto simp: q_finalize_def Let_def first_where_None hit_def f_def)
qed

lemma quota_wf_step: "quota_wf t \<Longrightarrow> quota_wf (quota_step op t)"
  by (cases op) (auto simp: q_cancel_def q_release_def
      intro: quota_wf_reserve quota_wf_finalize quota_wf_expire quota_wf_del_where)

interpretation aq: guarded_store quota_step quota_wf
  by unfold_locales (rule quota_wf_step)

text \<open>Under fixed limits (the same environment at every \<open>reserve\<close>) the quota is an invariant too.\<close>

definition quota_env :: "string option \<Rightarrow> string option \<Rightarrow> quota_op \<Rightarrow> bool" where
  "quota_env ep eg op \<longleftrightarrow> (case op of Reserve p g _ _ _ _ _ \<Rightarrow> p = ep \<and> g = eg | _ \<Rightarrow> True)"

definition quota_run :: "string option \<Rightarrow> string option \<Rightarrow> quota_op \<Rightarrow> reservation list \<Rightarrow> reservation list" where
  "quota_run ep eg op t = (if quota_env ep eg op then quota_step op t else t)"

definition quota_inv :: "string option \<Rightarrow> string option \<Rightarrow> reservation list \<Rightarrow> bool" where
  "quota_inv ep eg t \<longleftrightarrow> quota_wf t
     \<and> within_quota (env_limit ep PRINCIPAL_BYTES) (env_limit eg GLOBAL_BYTES) t"

lemma env_limit_pos: "0 < d \<Longrightarrow> 0 < env_limit e d"
  by (auto simp: env_limit_def split: option.splits)

lemma within_quota_del_where:
  "quota_wf t \<Longrightarrow> within_quota pl gl t \<Longrightarrow> within_quota pl gl (del_where P t)"
  unfolding within_quota_def quota_wf_def
  by (meson bytes_all_del_where bytes_of_del_where order_trans)

lemma within_quota_expire:
  "quota_wf t \<Longrightarrow> within_quota pl gl t \<Longrightarrow> within_quota pl gl (q_expire now t)"
  by (simp add: q_expire_def within_quota_del_where)

lemma within_quota_reserve:
  assumes "quota_wf t"
    and "within_quota (env_limit ep PRINCIPAL_BYTES) (env_limit eg GLOBAL_BYTES) t"
  shows "within_quota (env_limit ep PRINCIPAL_BYTES) (env_limit eg GLOBAL_BYTES)
           (snd (q_reserve ep eg now fresh p n ttl t))"
  using assms within_quota_expire [OF assms, of now]
  by (auto simp: q_reserve_def Let_def within_quota_def table_simps)

lemma within_quota_finalize:
  "within_quota pl gl t \<Longrightarrow> within_quota pl gl (snd (q_finalize tok sroot art e t))"
  by (auto simp: q_finalize_def Let_def within_quota_def bytes_of_upd_where bytes_all_upd_where)

lemma quota_inv_run: "quota_inv ep eg t \<Longrightarrow> quota_inv ep eg (quota_run ep eg op t)"
proof (cases op)
  case (Reserve p g now fresh pr n ttl)
  then show "quota_inv ep eg t \<Longrightarrow> ?thesis"
    by (auto simp: quota_inv_def quota_run_def quota_env_def
        intro: quota_wf_reserve within_quota_reserve)
qed (auto simp: quota_inv_def quota_run_def quota_env_def q_cancel_def q_release_def
      intro: quota_wf_finalize within_quota_finalize quota_wf_del_where within_quota_del_where
        quota_wf_expire within_quota_expire)

interpretation aq_limits: guarded_store "quota_run ep eg" "quota_inv ep eg" for ep eg
  by unfold_locales (rule quota_inv_run)

section \<open>Properties\<close>

text \<open>
  Whatever uploads, finalisations, reads, cancellations and prunes happen, in any order, the
  live reservations of every principal and of the whole host stay within the configured byte
  limits, tokens stay unique and no artifact is bound to two reservations.
\<close>

theorem artifact_quota_never_exceeded:
  "(\<forall>p. bytes_of p (fold (quota_run ep eg) ops []) \<le> env_limit ep PRINCIPAL_BYTES)
   \<and> bytes_all (fold (quota_run ep eg) ops []) \<le> env_limit eg GLOBAL_BYTES
   \<and> distinct (map res_token (fold (quota_run ep eg) ops []))
   \<and> unique_artifacts (fold (quota_run ep eg) ops [])"
proof -
  have "0 \<le> env_limit ep PRINCIPAL_BYTES" "0 \<le> env_limit eg GLOBAL_BYTES"
    using env_limit_pos [of PRINCIPAL_BYTES ep] env_limit_pos [of GLOBAL_BYTES eg]
    by (simp_all add: PRINCIPAL_BYTES_def GLOBAL_BYTES_def)
  then have "quota_inv ep eg []"
    by (simp add: quota_inv_def quota_wf_def within_quota_def unique_artifacts_def table_simps)
  from aq_limits.run_inv [OF this, of ops] show ?thesis
    by (simp add: quota_inv_def within_quota_def quota_wf_def)
qed

lemma release_frees:
  assumes "quota_wf t" "r \<in> set t" "artifact_of r = Some (sroot, art)"
  shows "bytes_all (q_release sroot art t) = bytes_all t - res_size r"
proof -
  have "bytes_all (del_where (\<lambda>x. x = r) t) = bytes_all t - res_size r"
    if "distinct (map res_token t)" "r \<in> set t"
    using that
  proof (induction t)
    case Nil
    then show ?case by simp
  next
    case (Cons x t)
    show ?case
    proof (cases "x = r")
      case True
      with Cons.prems have "r \<notin> set t" by (auto simp: image_iff)
      then have "del_where (\<lambda>x. x = r) t = t" by (intro del_where_id) auto
      with True show ?thesis by (simp add: table_simps)
    next
      case False
      with Cons show ?thesis by (simp add: table_simps)
    qed
  qed
  moreover have "q_release sroot art t = del_where (\<lambda>x. x = r) t"
  proof -
    have "(res_root x = Some sroot \<and> res_artifact x = Some art) \<longleftrightarrow> x = r" if "x \<in> set t" for x
    proof
      assume "res_root x = Some sroot \<and> res_artifact x = Some art"
      then have "artifact_of x = artifact_of r" using assms(3) by (simp add: artifact_of_def)
      with assms that show "x = r" unfolding quota_wf_def unique_artifacts_def by metis
    qed (use assms(3) in \<open>auto simp: artifact_of_def split: option.splits\<close>)
    then show ?thesis unfolding q_release_def del_where_def by (intro filter_cong) auto
  qed
  ultimately show ?thesis using assms by (simp add: quota_wf_def)
qed

text \<open>
  The life of one upload: an accepted reservation occupies exactly its size, finalising keeps
  every byte accounted and binds the artifact, and the one-shot read that releases the artifact
  gives back exactly that size.
\<close>

theorem artifact_upload_roundtrip:
  assumes "quota_wf t" and "q_reserve ep eg now fresh p n ttl t = (Inr tok, t1)"
    and "q_finalize tok sroot art e t1 = (None, t2)"
  shows "bytes_all t1 = bytes_all (q_expire now t) + n \<and> bytes_all t2 = bytes_all t1
    \<and> bytes_all (q_release sroot art t2) = bytes_all (q_expire now t)"
proof -
  from assms(2) have t1: "tok = fresh" "t1 = q_expire now t @ [\<lparr>res_token = fresh, res_principal = p,
      res_size = n, res_root = None, res_artifact = None, res_expires = now + max 3600 (ttl + 60)\<rparr>]"
    by (auto simp: q_reserve_def Let_def split: if_splits)
  have wf1: "quota_wf t1" using quota_wf_reserve [OF assms(1)] assms(2) by (metis snd_conv)
  have wf2: "quota_wf t2" using quota_wf_finalize [OF wf1] assms(3) by (metis snd_conv)
  from assms(3) have t2: "t2 = upd_where (\<lambda>r. res_token r = tok \<and> res_artifact r = None)
      (\<lambda>r. r\<lparr>res_root := Some sroot, res_artifact := Some art, res_expires := e\<rparr>) t1"
    by (auto simp: q_finalize_def Let_def split: if_splits)
  have b2: "bytes_all t2 = bytes_all t1" by (simp add: t2 bytes_all_upd_where)
  have "\<exists>r \<in> set t2. artifact_of r = Some (sroot, art) \<and> res_size r = n"
    unfolding t2 t1 by (auto simp: table_simps artifact_of_def)
  then have "bytes_all (q_release sroot art t2) = bytes_all t2 - n"
    using release_frees [OF wf2] by blast
  with b2 show ?thesis by (simp add: t1 table_simps)
qed

theorem artifact_upload_roundtrip_witness:
  "\<exists>t1 t2. q_reserve None (Some ''5'') 10 ''t'' ''p'' 3 60 [] = (Inr ''t'', t1)
     \<and> q_finalize ''t'' ''/r'' ''a'' 99 t1 = (None, t2)
     \<and> bytes_all t1 = bytes_all (q_expire 10 []) + 3
     \<and> bytes_all (q_release ''/r'' ''a'' t2) = 0"
proof -
  let ?r = "\<lparr>res_token = ''t'', res_principal = ''p'', res_size = 3, res_root = None,
    res_artifact = None, res_expires = 10 + max 3600 (60 + 60)\<rparr>"
  have wf: "quota_wf []" by (simp add: quota_wf_def unique_artifacts_def)
  have 1: "q_reserve None (Some ''5'') 10 ''t'' ''p'' 3 60 [] = (Inr ''t'', [?r])"
    by (simp add: q_reserve_def q_expire_def table_simps env_limit_def py_str_defs
        PRINCIPAL_BYTES_def GLOBAL_BYTES_def)
  have 2: "q_finalize ''t'' ''/r'' ''a'' 99 [?r] = (None,
      [?r\<lparr>res_root := Some ''/r'', res_artifact := Some ''a'', res_expires := 99\<rparr>])"
    by (simp add: q_finalize_def table_simps)
  from artifact_upload_roundtrip [OF wf 1 2] 1 2 show ?thesis
    by (auto simp: q_expire_def table_simps)
qed

text \<open>
  A reservation that is refused (an invalid request, or one that would pass a limit) leaves
  the table as it was: not even the expiry sweep inside the failed transaction survives.
\<close>

theorem artifact_reserve_refused_no_effect:
  "q_reserve ep eg now fresh p n ttl t = (Inl err, t') \<Longrightarrow> t' = t"
  by (auto simp: q_reserve_def Let_def split: if_splits)

theorem artifact_reserve_refused_no_effect_witness:
  "q_reserve (Some ''2'') None 10 ''t'' ''p'' 3 60
     [\<lparr>res_token = ''o'', res_principal = ''q'', res_size = 1, res_root = None,
       res_artifact = None, res_expires = 5\<rparr>]
   = (Inl (QuotaExceeded ''artifact live-byte quota exceeded''),
     [\<lparr>res_token = ''o'', res_principal = ''q'', res_size = 1, res_root = None,
       res_artifact = None, res_expires = 5\<rparr>])"
proof -
  let ?t = "[\<lparr>res_token = ''o'', res_principal = ''q'', res_size = 1, res_root = None,
       res_artifact = None, res_expires = 5\<rparr>]"
  obtain err t' where r: "q_reserve (Some ''2'') None 10 ''t'' ''p'' 3 60 ?t = (Inl err, t')"
    and err: "err = QuotaExceeded ''artifact live-byte quota exceeded''"
    by (simp add: q_reserve_def q_expire_def table_simps env_limit_def py_str_defs
        PRINCIPAL_BYTES_def GLOBAL_BYTES_def)
  from artifact_reserve_refused_no_effect [OF r] r err show ?thesis by simp
qed

end
