(* ===== verification/Notification_Store.thy ===== *)
theory Notification_Store
  imports Prelude
begin

text \<open>
  \<open>compat/notification_store.py\<close>: the durable notification ledger. One record holds the tables
  \<open>events\<close>, \<open>deliveries\<close>, \<open>read_events\<close> and the single \<open>seq\<close> row. Every operation is one
  \<open>with LOCK, conn\<close> transaction; a uniqueness violation raises, rolls back and is the value
  \<open>Inl Integrity\<close>. The SHA-256 digest and the clock are arguments. A payload is kept as its
  JSON text, which nothing here inspects.
\<close>

section \<open>State\<close>

record event =
  ev_id :: string
  ev_owner :: string
  ev_run :: "string option"
  ev_sid :: "string option"
  ev_kind :: string
  ev_source :: string
  ev_created_seq :: int
  ev_change_seq :: int
  ev_payload :: string
  ev_created_at :: time
  ev_read_at :: "time option"

record delivery =
  dl_id :: string
  dl_event :: string
  dl_phase :: string
  dl_channel :: string
  dl_state :: string
  dl_attempt :: nat
  dl_claimed_by :: "string option"
  dl_token :: "string option"
  dl_updated :: time

record read_ack =
  ra_event :: string
  ra_reader :: string
  ra_seq :: int
  ra_at :: time

record notif_store =
  ns_events :: "event list"
  ns_deliveries :: "delivery list"
  ns_reads :: "read_ack list"
  ns_seq :: "int option"

datatype notif_error = Integrity

definition notif_empty :: notif_store where
  "notif_empty = \<lparr>ns_events = [], ns_deliveries = [], ns_reads = [], ns_seq = None\<rparr>"

definition PAGE_LIMIT :: nat where "PAGE_LIMIT = 100"

definition CLIENT_OUTCOMES :: "string list" where
  "CLIENT_OUTCOMES = [''shown'', ''failed'', ''unknown'']"

definition SERVER_OUTCOMES :: "string list" where
  "SERVER_OUTCOMES = [''enqueued'', ''sent'', ''failed'', ''unknown'']"

definition REPORT_OUTCOMES :: "string list" where
  "REPORT_OUTCOMES = CLIENT_OUTCOMES @ SERVER_OUTCOMES"

section \<open>Events\<close>

definition event_id_for :: "(string \<Rightarrow> string) \<Rightarrow> string \<Rightarrow> string option \<Rightarrow> string \<Rightarrow> string \<Rightarrow> string" where
  "event_id_for sha owner run kind source =
     take 32 (sha (owner @ CHR 0x00 # (case run of None \<Rightarrow> [] | Some r \<Rightarrow> r)
                   @ CHR 0x00 # kind @ CHR 0x00 # source))"

definition next_seq :: "notif_store \<Rightarrow> int \<times> notif_store" where
  "next_seq st = (let seq = (case ns_seq st of Some n \<Rightarrow> n | None \<Rightarrow> 1)
                  in (seq, st\<lparr>ns_seq := Some (seq + 1)\<rparr>))"

definition record_event :: "(string \<Rightarrow> string) \<Rightarrow> time \<Rightarrow> string \<Rightarrow> string option \<Rightarrow> string option
    \<Rightarrow> string \<Rightarrow> string \<Rightarrow> string \<Rightarrow> notif_store \<Rightarrow> (string \<times> bool) \<times> notif_store" where
  "record_event sha now owner run sid kind source payload st =
     (let eid = event_id_for sha owner run kind source in
      case get_by ev_id eid (ns_events st) of
        Some _ \<Rightarrow> ((eid, False), st)
      | None \<Rightarrow> (let (seq, st1) = next_seq st in
          ((eid, True), st1\<lparr>ns_events := ns_events st1 @
             [\<lparr>ev_id = eid, ev_owner = owner, ev_run = run, ev_sid = sid, ev_kind = kind,
               ev_source = source, ev_created_seq = seq, ev_change_seq = seq,
               ev_payload = payload, ev_created_at = now, ev_read_at = None\<rparr>]\<rparr>)))"

definition read_by :: "notif_store \<Rightarrow> event \<Rightarrow> nat" where
  "read_by st e = count_where (\<lambda>a. ra_event a = ev_id e) (ns_reads st)"

definition row_to_event :: "notif_store \<Rightarrow> event \<Rightarrow> event \<times> nat" where
  "row_to_event st e = (e, read_by st e)"

definition events_after :: "string \<Rightarrow> int \<Rightarrow> nat \<Rightarrow> notif_store \<Rightarrow> (event \<times> nat) list \<times> bool \<times> int" where
  "events_after owner after limit st =
     (let rows = take (limit + 1) (sort_key ev_change_seq
                   (filter (\<lambda>e. ev_owner e = owner \<and> ev_change_seq e > after) (ns_events st)));
          page = take limit rows
      in (map (row_to_event st) page, length rows > limit,
          if page = [] then after else Max (set (map ev_change_seq page))))"

definition head_seq :: "notif_store \<Rightarrow> int" where
  "head_seq st = (case ns_seq st of Some n \<Rightarrow> n - 1 | None \<Rightarrow> 0)"

definition get_event :: "string \<Rightarrow> string \<Rightarrow> notif_store \<Rightarrow> (event \<times> nat) option" where
  "get_event owner eid st =
     map_option (row_to_event st)
       (first_where (\<lambda>e. ev_owner e = owner \<and> ev_id e = eid) (ns_events st))"

definition is_read :: "string \<Rightarrow> notif_store \<Rightarrow> bool" where
  "is_read eid st \<longleftrightarrow> first_where (\<lambda>a. ra_event a = eid) (ns_reads st) \<noteq> None"

text \<open>\<open>mark_read\<close>: \<open>None\<close> for an event of another owner; a first ack re-stamps \<open>change_seq\<close>.\<close>

definition mark_read :: "time \<Rightarrow> string \<Rightarrow> string \<Rightarrow> string \<Rightarrow> notif_store
    \<Rightarrow> string option \<times> notif_store" where
  "mark_read now owner eid reader st =
     (case first_where (\<lambda>e. ev_owner e = owner \<and> ev_id e = eid) (ns_events st) of
        None \<Rightarrow> (None, st)
      | Some e \<Rightarrow>
          if first_where (\<lambda>a. ra_event a = eid \<and> ra_reader a = reader) (ns_reads st) \<noteq> None
          then (Some eid, st)
          else (let (seq, st1) = next_seq (st\<lparr>ns_reads := ns_reads st @
                    [\<lparr>ra_event = eid, ra_reader = reader, ra_seq = ev_created_seq e, ra_at = now\<rparr>]\<rparr>)
                in (Some eid, st1\<lparr>ns_events := upd_where (\<lambda>x. ev_id x = eid)
                      (\<lambda>x. x\<lparr>ev_read_at := coalesce (ev_read_at x) (Some now), ev_change_seq := seq\<rparr>)
                      (ns_events st1)\<rparr>)))"

section \<open>Deliveries\<close>

abbreviation in_slot :: "string \<Rightarrow> string \<Rightarrow> string \<Rightarrow> delivery \<Rightarrow> bool" where
  "in_slot eid phase channel d \<equiv> dl_event d = eid \<and> dl_phase d = phase \<and> dl_channel d = channel"

definition claim_delivery :: "time \<Rightarrow> string \<Rightarrow> string \<Rightarrow> string \<Rightarrow> string \<Rightarrow> string \<Rightarrow> string option
    \<Rightarrow> notif_store \<Rightarrow> (notif_error + string \<times> string) \<times> notif_store" where
  "claim_delivery now eid phase channel did device token st =
     (case first_where (in_slot eid phase channel) (ns_deliveries st) of
        None \<Rightarrow>
          if get_by dl_id did (ns_deliveries st) \<noteq> None then (Inl Integrity, st)
          else (Inr (''claimed'', did), st\<lparr>ns_deliveries := ns_deliveries st @
                 [\<lparr>dl_id = did, dl_event = eid, dl_phase = phase, dl_channel = channel,
                   dl_state = ''claimed'', dl_attempt = 0, dl_claimed_by = Some device,
                   dl_token = token, dl_updated = now\<rparr>]\<rparr>)
      | Some d \<Rightarrow>
          if dl_state d = ''pending''
          then (Inr (''claimed'', dl_id d), st\<lparr>ns_deliveries :=
                 upd_where (\<lambda>x. dl_id x = dl_id d)
                   (\<lambda>x. x\<lparr>dl_state := ''claimed'', dl_claimed_by := Some device,
                          dl_token := token, dl_updated := now\<rparr>) (ns_deliveries st)\<rparr>)
          else (Inr (''already_claimed'', dl_id d), st))"

definition show_token_for :: "string \<Rightarrow> notif_store \<Rightarrow> string option" where
  "show_token_for did st = Option.bind (get_by dl_id did (ns_deliveries st)) dl_token"

text \<open>\<open>INSERT OR IGNORE\<close>: a row that clashes with either unique index is dropped.\<close>

definition new_delivery :: "time \<Rightarrow> string \<Rightarrow> string \<Rightarrow> string \<Rightarrow> string \<Rightarrow> string
    \<Rightarrow> notif_store \<Rightarrow> notif_store" where
  "new_delivery now eid phase channel did state st =
     (if get_by dl_id did (ns_deliveries st) \<noteq> None
         \<or> first_where (in_slot eid phase channel) (ns_deliveries st) \<noteq> None then st
      else st\<lparr>ns_deliveries := ns_deliveries st @
             [\<lparr>dl_id = did, dl_event = eid, dl_phase = phase, dl_channel = channel,
               dl_state = state, dl_attempt = 0, dl_claimed_by = None, dl_token = None,
               dl_updated = now\<rparr>]\<rparr>)"

definition queue_delivery :: "time \<Rightarrow> string \<Rightarrow> string \<Rightarrow> string \<Rightarrow> string
    \<Rightarrow> notif_store \<Rightarrow> (notif_error + string \<times> string) \<times> notif_store" where
  "queue_delivery now eid phase channel did st =
     (case first_where (in_slot eid phase channel) (ns_deliveries st) of
        Some d \<Rightarrow> (Inr (if dl_state d = ''pending'' then ''queued''
                        else ''already_'' @ dl_state d, dl_id d), st)
      | None \<Rightarrow>
          if get_by dl_id did (ns_deliveries st) \<noteq> None then (Inl Integrity, st)
          else (Inr (''queued'', did), st\<lparr>ns_deliveries := ns_deliveries st @
                 [\<lparr>dl_id = did, dl_event = eid, dl_phase = phase, dl_channel = channel,
                   dl_state = ''pending'', dl_attempt = 0, dl_claimed_by = None,
                   dl_token = None, dl_updated = now\<rparr>]\<rparr>))"

text \<open>A falsy \<open>show_token\<close> column or argument is \<open>None\<close> or the empty string.\<close>

definition truthy :: "string option \<Rightarrow> bool" where
  "truthy s \<longleftrightarrow> (case s of None \<Rightarrow> False | Some t \<Rightarrow> t \<noteq> [])"

record report =
  rp_delivery :: string
  rp_outcome :: string
  rp_channel :: "string option"
  rp_event :: "string option"
  rp_owner :: "string option"
  rp_device :: "string option"
  rp_token :: "string option"

definition event_owner :: "notif_store \<Rightarrow> string \<Rightarrow> string option" where
  "event_owner st eid = map_option ev_owner (get_by ev_id eid (ns_events st))"

definition report_refused :: "report \<Rightarrow> delivery \<Rightarrow> notif_store \<Rightarrow> bool" where
  "report_refused rp d st \<longleftrightarrow>
     (rp_channel rp \<noteq> None \<and> Some (dl_channel d) \<noteq> rp_channel rp)
     \<or> (rp_event rp \<noteq> None \<and> Some (dl_event d) \<noteq> rp_event rp)
     \<or> (rp_owner rp \<noteq> None \<and> event_owner st (dl_event d) \<noteq> rp_owner rp)
     \<or> (rp_device rp \<noteq> None \<and> dl_claimed_by d \<noteq> rp_device rp)
     \<or> (dl_channel d = ''browser''
         \<and> (dl_state d = ''pending'' \<or> \<not> truthy (dl_token d)
            \<or> \<not> truthy (rp_token rp) \<or> rp_token rp \<noteq> dl_token d))"

definition note_delivery :: "time \<Rightarrow> report \<Rightarrow> notif_store \<Rightarrow> string option \<times> notif_store" where
  "note_delivery now rp st =
     (if rp_outcome rp \<notin> set REPORT_OUTCOMES then (None, st)
      else case get_by dl_id (rp_delivery rp) (ns_deliveries st) of
        None \<Rightarrow> (None, st)
      | Some d \<Rightarrow>
          if report_refused rp d st then (None, st)
          else (Some (dl_state d), st\<lparr>ns_deliveries :=
                 upd_where (\<lambda>x. dl_id x = rp_delivery rp)
                   (\<lambda>x. x\<lparr>dl_state := rp_outcome rp, dl_attempt := dl_attempt x + 1,
                          dl_updated := now\<rparr>) (ns_deliveries st)\<rparr>))"

definition delivery_state :: "string \<Rightarrow> string \<Rightarrow> string \<Rightarrow> notif_store \<Rightarrow> string option" where
  "delivery_state eid phase channel st =
     map_option dl_state (first_where (in_slot eid phase channel) (ns_deliveries st))"

definition sent_phases :: "string \<Rightarrow> notif_store \<Rightarrow> (string \<times> string \<times> string) list" where
  "sent_phases eid st = map (\<lambda>d. (dl_phase d, dl_channel d, dl_state d))
     (filter (\<lambda>d. dl_event d = eid) (ns_deliveries st))"

section \<open>Histories\<close>

datatype notif_op =
    RecordEvent time string "string option" "string option" string string string
  | MarkRead time string string string
  | ClaimDelivery time string string string string string "string option"
  | NewDelivery time string string string string string
  | QueueDelivery time string string string string
  | NoteDelivery time report

fun notif_step :: "(string \<Rightarrow> string) \<Rightarrow> notif_op \<Rightarrow> notif_store \<Rightarrow> notif_store" where
  "notif_step sha (RecordEvent now ow run sid kind src pl) st =
     snd (record_event sha now ow run sid kind src pl st)"
| "notif_step sha (MarkRead now ow eid reader) st = snd (mark_read now ow eid reader st)"
| "notif_step sha (ClaimDelivery now eid ph ch did dev tok) st =
     snd (claim_delivery now eid ph ch did dev tok st)"
| "notif_step sha (NewDelivery now eid ph ch did state) st =
     new_delivery now eid ph ch did state st"
| "notif_step sha (QueueDelivery now eid ph ch did) st = snd (queue_delivery now eid ph ch did st)"
| "notif_step sha (NoteDelivery now rp) st = snd (note_delivery now rp st)"

section \<open>Well-formedness\<close>

abbreviation slot_of :: "delivery \<Rightarrow> string \<times> string \<times> string" where
  "slot_of d \<equiv> (dl_event d, dl_phase d, dl_channel d)"

definition events_wf :: "notif_store \<Rightarrow> bool" where
  "events_wf st \<longleftrightarrow> distinct (map ev_id (ns_events st)) \<and> distinct (map ev_change_seq (ns_events st))
     \<and> (\<forall>e \<in> set (ns_events st). 1 \<le> ev_created_seq e \<and> ev_created_seq e \<le> ev_change_seq e
           \<and> ev_change_seq e \<le> head_seq st)
     \<and> 0 \<le> head_seq st"

definition deliveries_wf :: "notif_store \<Rightarrow> bool" where
  "deliveries_wf st \<longleftrightarrow>
     distinct (map dl_id (ns_deliveries st)) \<and> distinct (map slot_of (ns_deliveries st))"

definition reads_wf :: "notif_store \<Rightarrow> bool" where
  "reads_wf st \<longleftrightarrow> distinct (map (\<lambda>a. (ra_event a, ra_reader a)) (ns_reads st))"

definition notif_wf :: "notif_store \<Rightarrow> bool" where
  "notif_wf st \<longleftrightarrow> events_wf st \<and> deliveries_wf st \<and> reads_wf st"

lemmas notif_wf_defs = notif_wf_def events_wf_def deliveries_wf_def reads_wf_def

lemma notif_wf_empty: "notif_wf notif_empty"
  by (simp add: notif_wf_defs notif_empty_def head_seq_def)

lemma next_seq_head: "next_seq st = (head_seq st + 1, st\<lparr>ns_seq := Some (head_seq st + 2)\<rparr>)"
  by (simp add: next_seq_def head_seq_def split: option.splits)

lemma head_seq_upd [simp]: "head_seq (st\<lparr>ns_seq := Some n\<rparr>) = n - 1"
  "head_seq (st\<lparr>ns_events := es\<rparr>) = head_seq st" "head_seq (st\<lparr>ns_reads := rs\<rparr>) = head_seq st"
  "head_seq (st\<lparr>ns_deliveries := ds\<rparr>) = head_seq st"
  by (simp_all add: head_seq_def)

lemma first_where_slot:
  assumes "deliveries_wf st" "first_where (in_slot eid ph ch) (ns_deliveries st) = Some d"
    and "d' \<in> set (ns_deliveries st)" "in_slot eid ph ch d'"
  shows "d' = d"
proof -
  from first_where_SomeD [OF assms(2)] have "d \<in> set (ns_deliveries st)" "in_slot eid ph ch d"
    by auto
  with assms show ?thesis
    using distinct_key_inj [of slot_of "ns_deliveries st" d' d] by (simp add: deliveries_wf_def)
qed

lemma wf_record_event:
  assumes "notif_wf st"
  shows "notif_wf (snd (record_event sha now ow run sid kind src pl st))"
proof -
  have "ev_change_seq e < head_seq st + 1" if "e \<in> set (ns_events st)" for e
    using assms that by (auto simp: notif_wf_defs)
  then have "head_seq st + 1 \<notin> ev_change_seq ` set (ns_events st)" by fastforce
  with assms show ?thesis
    by (auto simp: record_event_def Let_def next_seq_head get_by_None notif_wf_defs
        split: option.splits)
qed

lemma wf_mark_read:
  assumes "notif_wf st"
  shows "notif_wf (snd (mark_read now ow eid reader st))"
proof -
  let ?f = "\<lambda>x. x\<lparr>ev_read_at := coalesce (ev_read_at x) (Some now), ev_change_seq := head_seq st + 1\<rparr>"
  let ?es = "upd_where (\<lambda>x. ev_id x = eid) ?f (ns_events st)"
  have lt: "ev_change_seq e < head_seq st + 1" if "e \<in> set (ns_events st)" for e
    using assms that by (auto simp: notif_wf_defs)
  then have "head_seq st + 1 \<notin> ev_change_seq ` set (ns_events st)" by fastforce
  then have "distinct (map ev_change_seq ?es)"
    using assms by (intro distinct_map_upd_single) (auto simp: notif_wf_defs)
  moreover have "map ev_id ?es = map ev_id (ns_events st)"
    by (rule map_upd_where) simp
  moreover have "\<forall>e \<in> set ?es. 1 \<le> ev_created_seq e \<and> ev_created_seq e \<le> ev_change_seq e
      \<and> ev_change_seq e \<le> head_seq st + 1"
    using assms lt by (fastforce simp: set_upd_where notif_wf_defs)
  ultimately show ?thesis
    using assms by (auto simp: mark_read_def Let_def next_seq_head first_where_None notif_wf_defs
        split: option.splits)
qed

lemma wf_deliveries_upd:
  "deliveries_wf st \<Longrightarrow> (\<And>d. P d \<Longrightarrow> dl_id (f d) = dl_id d \<and> slot_of (f d) = slot_of d) \<Longrightarrow>
   deliveries_wf (st\<lparr>ns_deliveries := upd_where P f (ns_deliveries st)\<rparr>)"
  by (simp add: deliveries_wf_def map_upd_where)

lemma wf_deliveries_append:
  "deliveries_wf st \<Longrightarrow> get_by dl_id (dl_id d) (ns_deliveries st) = None \<Longrightarrow>
   first_where (in_slot (dl_event d) (dl_phase d) (dl_channel d)) (ns_deliveries st) = None \<Longrightarrow>
   deliveries_wf (st\<lparr>ns_deliveries := ns_deliveries st @ [d]\<rparr>)"
  by (auto simp: deliveries_wf_def get_by_None first_where_None)

lemma notif_wf_deliveries:
  "notif_wf st \<Longrightarrow> deliveries_wf (st\<lparr>ns_deliveries := ds\<rparr>) \<Longrightarrow> notif_wf (st\<lparr>ns_deliveries := ds\<rparr>)"
  by (simp add: notif_wf_def events_wf_def reads_wf_def)

lemma wf_claim_delivery:
  "notif_wf st \<Longrightarrow> notif_wf (snd (claim_delivery now eid ph ch did dev tok st))"
  by (auto simp: claim_delivery_def split: option.splits intro!: notif_wf_deliveries
      wf_deliveries_append wf_deliveries_upd) (auto simp: notif_wf_def)

lemma wf_new_delivery: "notif_wf st \<Longrightarrow> notif_wf (new_delivery now eid ph ch did state st)"
  by (auto simp: new_delivery_def intro!: notif_wf_deliveries wf_deliveries_append)
    (auto simp: notif_wf_def)

lemma wf_queue_delivery: "notif_wf st \<Longrightarrow> notif_wf (snd (queue_delivery now eid ph ch did st))"
  by (auto simp: queue_delivery_def split: option.splits intro!: notif_wf_deliveries
      wf_deliveries_append) (auto simp: notif_wf_def)

lemma wf_note_delivery: "notif_wf st \<Longrightarrow> notif_wf (snd (note_delivery now rp st))"
  by (auto simp: note_delivery_def split: option.splits intro!: notif_wf_deliveries
      wf_deliveries_upd) (auto simp: notif_wf_def)

lemma notif_wf_step: "notif_wf st \<Longrightarrow> notif_wf (notif_step sha op st)"
  by (cases op) (auto intro: wf_record_event wf_mark_read wf_claim_delivery wf_new_delivery
      wf_queue_delivery wf_note_delivery)

section \<open>Exclusive slots\<close>

text \<open>A delivery slot is taken once its row has left \<open>pending\<close>; no operation returns it.\<close>

definition slot_taken :: "string \<times> string \<times> string \<Rightarrow> notif_store \<Rightarrow> bool" where
  "slot_taken k st \<longleftrightarrow> (\<exists>d \<in> set (ns_deliveries st). slot_of d = k \<and> dl_state d \<noteq> ''pending'')"

definition claim_wins :: "string \<times> string \<times> string \<Rightarrow> notif_op \<Rightarrow> notif_store \<Rightarrow> bool" where
  "claim_wins k op st \<longleftrightarrow> (case op of
     ClaimDelivery now eid ph ch did dev tok \<Rightarrow> k = (eid, ph, ch) \<and>
       (case fst (claim_delivery now eid ph ch did dev tok st) of
          Inr (verdict, _) \<Rightarrow> verdict = ''claimed'' | Inl _ \<Rightarrow> False)
   | _ \<Rightarrow> False)"

definition event_known :: "string \<Rightarrow> notif_store \<Rightarrow> bool" where
  "event_known eid st \<longleftrightarrow> get_by ev_id eid (ns_events st) \<noteq> None"

definition record_wins :: "(string \<Rightarrow> string) \<Rightarrow> string \<Rightarrow> notif_op \<Rightarrow> notif_store \<Rightarrow> bool" where
  "record_wins sha eid op st \<longleftrightarrow> (case op of
     RecordEvent now ow run sid kind src pl \<Rightarrow>
       fst (record_event sha now ow run sid kind src pl st) = (eid, True)
   | _ \<Rightarrow> False)"

lemma slot_taken_mono:
  assumes "slot_taken k st" and "\<And>d. d \<in> set (ns_deliveries st) \<Longrightarrow> dl_state d \<noteq> ''pending'' \<Longrightarrow>
    \<exists>d' \<in> set (ns_deliveries st'). slot_of d' = slot_of d \<and> dl_state d' \<noteq> ''pending''"
  shows "slot_taken k st'"
  using assms unfolding slot_taken_def by metis

lemma REPORT_OUTCOMES_not_pending: "''pending'' \<notin> set REPORT_OUTCOMES"
  by (simp add: REPORT_OUTCOMES_def CLIENT_OUTCOMES_def SERVER_OUTCOMES_def)

lemma upd_keeps_taken:
  assumes "d \<in> set t" "dl_state d \<noteq> ''pending''"
    and "\<And>x. P x \<Longrightarrow> slot_of (f x) = slot_of x \<and> dl_state (f x) \<noteq> ''pending''"
  shows "\<exists>d' \<in> set (upd_where P f t). dl_event d' = dl_event d \<and> dl_phase d' = dl_phase d
    \<and> dl_channel d' = dl_channel d \<and> dl_state d' \<noteq> ''pending''"
proof -
  have "(if P d then f d else d) \<in> set (upd_where P f t)"
    using assms(1) by (auto simp: set_upd_where)
  then show ?thesis using assms(2,3) by (intro bexI [where x = "if P d then f d else d"]) auto
qed

lemma slot_taken_step:
  assumes "slot_taken k st" shows "slot_taken k (notif_step sha op st)"
proof (rule slot_taken_mono [OF assms])
  fix d assume d: "d \<in> set (ns_deliveries st)" "dl_state d \<noteq> ''pending''"
  show "\<exists>d' \<in> set (ns_deliveries (notif_step sha op st)).
          slot_of d' = slot_of d \<and> dl_state d' \<noteq> ''pending''"
  proof (cases op)
    case (ClaimDelivery now eid ph ch did dev tok)
    with d show ?thesis
      by (auto simp: claim_delivery_def split: option.splits intro!: upd_keeps_taken)
  next
    case (NoteDelivery now rp)
    with d show ?thesis using REPORT_OUTCOMES_not_pending
      by (auto simp: note_delivery_def split: option.splits intro!: upd_keeps_taken)
  qed (use d in \<open>auto simp: record_event_def mark_read_def new_delivery_def queue_delivery_def
      Let_def next_seq_head split: option.splits\<close>)
qed

lemma event_known_step: "event_known eid st \<Longrightarrow> event_known eid (notif_step sha op st)"
  by (cases op) (auto simp: event_known_def record_event_def mark_read_def claim_delivery_def
      new_delivery_def queue_delivery_def note_delivery_def Let_def next_seq_head table_simps
      split: option.splits)

lemma claim_wins_free: "notif_wf st \<Longrightarrow> claim_wins k op st \<Longrightarrow> \<not> slot_taken k st"
  by (auto simp: claim_wins_def slot_taken_def claim_delivery_def first_where_None notif_wf_def
      split: notif_op.splits option.splits if_splits dest: first_where_slot)

lemma claim_wins_seals:
  assumes "claim_wins k op st" shows "slot_taken k (notif_step sha op st)"
proof (cases op)
  case (ClaimDelivery now eid ph ch did dev tok)
  note op = this
  show ?thesis
  proof (cases "first_where (in_slot eid ph ch) (ns_deliveries st)")
    case None
    with op assms show ?thesis
      by (auto simp: claim_wins_def slot_taken_def claim_delivery_def split: if_splits)
  next
    case (Some d)
    with op assms have d: "dl_state d = ''pending''" "slot_of d = k" "d \<in> set (ns_deliveries st)"
      by (auto simp: claim_wins_def claim_delivery_def dest: first_where_SomeD split: if_splits)
    with op Some show ?thesis
      using upd_where_hit [OF d(3), of "\<lambda>x. dl_id x = dl_id d" "\<lambda>x. x\<lparr>dl_state := ''claimed'',
        dl_claimed_by := Some dev, dl_token := tok, dl_updated := now\<rparr>"]
      by (auto simp: slot_taken_def claim_delivery_def intro: bexI [rotated])
  qed
qed (use assms in \<open>auto simp: claim_wins_def\<close>)

lemma record_wins_unknown: "record_wins sha eid op st \<Longrightarrow> \<not> event_known eid st"
  by (auto simp: record_wins_def event_known_def record_event_def Let_def next_seq_head
      split: notif_op.splits option.splits)

lemma event_recorded: "record_wins sha eid op st \<Longrightarrow> event_known eid (notif_step sha op st)"
  by (auto simp: record_wins_def event_known_def record_event_def Let_def next_seq_head table_simps
      split: notif_op.splits option.splits)

interpretation nc: claim_once "notif_step sha" notif_wf slot_taken claim_wins for sha
  by unfold_locales
    (auto intro: notif_wf_step slot_taken_step claim_wins_seals dest: claim_wins_free)

interpretation ne: claim_once "notif_step sha" notif_wf event_known "record_wins sha" for sha
  by unfold_locales
    (auto intro: notif_wf_step event_known_step event_recorded dest: record_wins_unknown)

section \<open>Paging\<close>

lemma strict_sort_key:
  fixes g :: "'a \<Rightarrow> int"
  assumes "distinct (map g t)"
  shows "sorted_wrt (\<lambda>x y. g x < g y) (sort_key g t)"
proof -
  have "distinct (map g (sort_key g t))"
    using assms by (metis distinct_map distinct_sort set_sort)
  moreover have "sorted (map g (sort_key g t))" by simp
  ultimately have "sorted_wrt (<) (map g (sort_key g t))"
    using strict_sorted_iff by blast
  then show ?thesis by (simp add: sorted_wrt_map)
qed

definition pending_for :: "string \<Rightarrow> int \<Rightarrow> notif_store \<Rightarrow> event set" where
  "pending_for owner c st =
     {e \<in> set (ns_events st). ev_owner e = owner \<and> c < ev_change_seq e}"

lemma page_split:
  fixes g :: "'a \<Rightarrow> int" and n :: nat
  assumes "sorted_wrt (\<lambda>x y. g x < g y) xs" and "\<forall>x \<in> set xs. a < g x"
  defines "cur \<equiv> (if take n xs = [] then a else Max (set (map g (take n xs))))"
  shows "x \<in> set (take n xs) \<Longrightarrow> g x \<le> cur" and "x \<in> set (drop n xs) \<Longrightarrow> cur < g x"
proof -
  show "x \<in> set (take n xs) \<Longrightarrow> g x \<le> cur" by (auto simp: cur_def)
  have lt: "\<forall>u \<in> set (take n xs). \<forall>v \<in> set (drop n xs). g u < g v"
    using assms(1) sorted_wrt_append by (metis append_take_drop_id)
  show "x \<in> set (drop n xs) \<Longrightarrow> cur < g x"
    using lt assms(2) by (auto simp: cur_def dest: in_set_dropD)
qed

lemma page_of_events:
  assumes wf: "events_wf st" and page: "events_after owner after limit st = (items, ovf, cur)"
  shows "set (map fst items) \<union> pending_for owner cur st = pending_for owner after st"
    and "set (map fst items) \<inter> pending_for owner cur st = {}"
    and "ovf \<longleftrightarrow> pending_for owner cur st \<noteq> {}"
    and "sorted_wrt (\<lambda>x y. ev_change_seq (fst x) < ev_change_seq (fst y)) items"
    and "after \<le> cur"
proof -
  define xs where "xs = sort_key ev_change_seq
    (filter (\<lambda>e. ev_owner e = owner \<and> ev_change_seq e > after) (ns_events st))"
  have sorted: "sorted_wrt (\<lambda>x y. ev_change_seq x < ev_change_seq y) xs"
    unfolding xs_def using wf by (intro strict_sort_key) (simp add: events_wf_def distinct_map_filter)
  have set_xs: "set xs = pending_for owner after st"
    by (auto simp: xs_def pending_for_def)
  then have gt: "\<forall>x \<in> set xs. after < ev_change_seq x" by (auto simp: pending_for_def)
  from page have it: "items = map (row_to_event st) (take limit xs)"
    and cur: "cur = (if take limit xs = [] then after else Max (set (map ev_change_seq (take limit xs))))"
    and ovf: "ovf \<longleftrightarrow> limit < length xs"
    by (auto simp: events_after_def Let_def xs_def [symmetric] min_def split: if_splits)
  have fst_it: "map fst items = take limit xs" by (simp add: it row_to_event_def comp_def)
  have lo: "ev_change_seq x \<le> cur" if "x \<in> set (take limit xs)" for x
    using page_split(1) [OF sorted gt that] cur by simp
  have hi: "cur < ev_change_seq x" if "x \<in> set (drop limit xs)" for x
    using page_split(2) [OF sorted gt that] cur by simp
  have un: "set xs = set (take limit xs) \<union> set (drop limit xs)"
    by (metis append_take_drop_id set_append)
  have "take limit xs \<noteq> [] \<longrightarrow> (\<exists>x \<in> set xs. ev_change_seq x \<le> cur)"
    using lo by (metis in_set_takeD list.set_intros(1) neq_Nil_conv)
  then show le: "after \<le> cur" using gt cur by (metis nle_le order_le_less_trans less_imp_le)
  have rest: "pending_for owner cur st = set (drop limit xs)"
  proof
    show "pending_for owner cur st \<subseteq> set (drop limit xs)"
    proof
      fix x assume x: "x \<in> pending_for owner cur st"
      then have "x \<in> set xs" using le unfolding set_xs by (simp add: pending_for_def)
      moreover have "x \<notin> set (take limit xs)" using x lo [of x] by (auto simp: pending_for_def)
      ultimately show "x \<in> set (drop limit xs)" using un by blast
    qed
    show "set (drop limit xs) \<subseteq> pending_for owner cur st"
    proof
      fix x assume x: "x \<in> set (drop limit xs)"
      then have "x \<in> pending_for owner after st" using un unfolding set_xs [symmetric] by blast
      then show "x \<in> pending_for owner cur st" using hi [OF x] by (simp add: pending_for_def)
    qed
  qed
  show "set (map fst items) \<union> pending_for owner cur st = pending_for owner after st"
    using rest fst_it un set_xs by simp
  show "set (map fst items) \<inter> pending_for owner cur st = {}"
    using rest fst_it lo hi by fastforce
  show "ovf \<longleftrightarrow> pending_for owner cur st \<noteq> {}"
    using rest ovf by auto
  show "sorted_wrt (\<lambda>x y. ev_change_seq (fst x) < ev_change_seq (fst y)) items"
    using sorted_wrt_take [OF sorted, of limit] by (simp add: it row_to_event_def sorted_wrt_map)
qed

section \<open>Properties\<close>

text \<open>
  Exactly-once display: over any history of the ledger, at most one claim of a delivery slot
  (event, phase, channel) is ever answered \<open>claimed\<close>.
\<close>

theorem notification_claimed_at_most_once:
  "wins_along (notif_step sha) (claim_wins (eid, phase, channel)) ops notif_empty \<le> 1"
  by (rule nc.at_most_one_win [OF notif_wf_empty])

text \<open>
  Producers are idempotent: over any history, at most one \<open>record_event\<close> answers that it
  created the event of a given id, and event ids and change numbers stay unique.
\<close>

theorem notification_event_recorded_once:
  "wins_along (notif_step sha) (record_wins sha eid) ops notif_empty \<le> 1
   \<and> distinct (map ev_id (ns_events (fold (notif_step sha) ops notif_empty)))
   \<and> distinct (map ev_change_seq (ns_events (fold (notif_step sha) ops notif_empty)))"
  using ne.at_most_one_win [OF notif_wf_empty] nc.run_inv [OF notif_wf_empty, of sha ops]
  by (simp add: notif_wf_defs)

text \<open>
  The incremental cursor loses nothing: in every reachable ledger a page and what lies beyond
  the returned cursor make up exactly what lay beyond the given cursor, without overlap, in order,
  and the overflow flag is set exactly when something remains.
\<close>

theorem notification_cursor_complete:
  "case events_after owner after limit (fold (notif_step sha) ops notif_empty) of
     (items, ovf, cur) \<Rightarrow>
       set (map fst items) \<union> pending_for owner cur (fold (notif_step sha) ops notif_empty)
         = pending_for owner after (fold (notif_step sha) ops notif_empty)
       \<and> set (map fst items) \<inter> pending_for owner cur (fold (notif_step sha) ops notif_empty) = {}
       \<and> ovf = (pending_for owner cur (fold (notif_step sha) ops notif_empty) \<noteq> {})
       \<and> sorted_wrt (\<lambda>x y. ev_change_seq (fst x) < ev_change_seq (fst y)) items"
proof -
  have wf: "events_wf (fold (notif_step sha) ops notif_empty)"
    using nc.run_inv [OF notif_wf_empty] by (simp add: notif_wf_def)
  show ?thesis
    using page_of_events [OF wf] by (auto split: prod.splits)
qed

lemma mark_read_fresh:
  assumes "first_where (\<lambda>e. ev_owner e = owner \<and> ev_id e = eid) (ns_events st) = Some e"
    and "first_where (\<lambda>a. ra_event a = eid \<and> ra_reader a = reader) (ns_reads st) = None"
  shows "mark_read now owner eid reader st = (Some eid, st\<lparr>
      ns_reads := ns_reads st @ [\<lparr>ra_event = eid, ra_reader = reader,
        ra_seq = ev_created_seq e, ra_at = now\<rparr>],
      ns_seq := Some (head_seq st + 2),
      ns_events := upd_where (\<lambda>x. ev_id x = eid) (\<lambda>x. x\<lparr>ev_read_at := coalesce (ev_read_at x)
        (Some now), ev_change_seq := head_seq st + 1\<rparr>) (ns_events st)\<rparr>)"
  using assms by (simp add: mark_read_def next_seq_head)

text \<open>
  A first read converges on every device: it re-stamps the event beyond every cursor a device
  can hold, leaves every other event alone, and acknowledging again changes nothing.
\<close>

theorem notification_read_observed:
  assumes "notif_wf st" and "e \<in> set (ns_events st)" and "ev_owner e = owner"
    and "first_where (\<lambda>a. ra_event a = ev_id e \<and> ra_reader a = reader) (ns_reads st) = None"
    and "mark_read now owner (ev_id e) reader st = (r, st')"
  shows "r = Some (ev_id e)
    \<and> (\<exists>e' \<in> pending_for owner (head_seq st) st'. ev_id e' = ev_id e \<and> ev_read_at e' \<noteq> None)
    \<and> {x \<in> set (ns_events st'). ev_id x \<noteq> ev_id e} = {x \<in> set (ns_events st). ev_id x \<noteq> ev_id e}
    \<and> mark_read later owner (ev_id e) reader st' = (Some (ev_id e), st')"
proof -
  let ?f = "\<lambda>x. x\<lparr>ev_read_at := coalesce (ev_read_at x) (Some now), ev_change_seq := head_seq st + 1\<rparr>"
  have f: "first_where (\<lambda>x. ev_owner x = owner \<and> ev_id x = ev_id e) (ns_events st) = Some e"
  proof (cases "first_where (\<lambda>x. ev_owner x = owner \<and> ev_id x = ev_id e) (ns_events st)")
    case None
    then show ?thesis using assms(2,3) by (auto simp: first_where_None)
  next
    case (Some e1)
    then have "e1 \<in> set (ns_events st)" "ev_id e1 = ev_id e" by (auto dest: first_where_SomeD)
    then have "e1 = e" using assms(1,2) by (intro distinct_key_inj [of ev_id "ns_events st"]) (auto simp: notif_wf_defs)
    with Some show ?thesis by simp
  qed
  note st' = assms(5) [unfolded mark_read_fresh [OF f assms(4)], THEN sym]
  have "?f e \<in> set (ns_events st')"
    using st' upd_where_hit [OF assms(2), of "\<lambda>x. ev_id x = ev_id e" ?f] by simp
  then have "?f e \<in> pending_for owner (head_seq st) st'"
    using assms(3) by (simp add: pending_for_def)
  then have 1: "\<exists>e' \<in> pending_for owner (head_seq st) st'. ev_id e' = ev_id e \<and> ev_read_at e' \<noteq> None"
    by (intro bexI) auto
  have 2: "{x \<in> set (ns_events st'). ev_id x \<noteq> ev_id e} = {x \<in> set (ns_events st). ev_id x \<noteq> ev_id e}"
    using st' by (auto simp: set_upd_where)
  have "first_where (\<lambda>x. ev_owner x = owner \<and> ev_id x = ev_id e) (ns_events st') \<noteq> None"
    using \<open>?f e \<in> set (ns_events st')\<close> assms(3) bexI [of _ "?f e"] by (simp add: first_where_None)
  moreover have "first_where (\<lambda>a. ra_event a = ev_id e \<and> ra_reader a = reader) (ns_reads st') \<noteq> None"
    using st' by (simp add: first_where_None)
  ultimately have "mark_read later owner (ev_id e) reader st' = (Some (ev_id e), st')"
    by (auto simp: mark_read_def)
  with 1 2 st' show ?thesis by simp
qed

theorem notification_read_observed_witness:
  "\<exists>st' (e :: event). mark_read 5 ''o'' (ev_id e) ''phone'' (snd (record_event (\<lambda>s. s) 1 ''o'' None None
      ''k'' ''s'' ''{}'' notif_empty)) = (Some (ev_id e), st')
    \<and> mark_read 6 ''o'' (ev_id e) ''phone'' st' = (Some (ev_id e), st')"
proof -
  define st where "st = snd (record_event (\<lambda>s. s) 1 ''o'' None None ''k'' ''s'' ''{}'' notif_empty)"
  define e where "e = hd (ns_events st)"
  have wf: "notif_wf st" unfolding st_def by (rule wf_record_event [OF notif_wf_empty])
  have ev: "e \<in> set (ns_events st)" "ev_owner e = ''o''"
    by (simp_all add: e_def st_def record_event_def next_seq_head notif_empty_def table_simps Let_def)
  have fresh: "first_where (\<lambda>a. ra_event a = ev_id e \<and> ra_reader a = ''phone'') (ns_reads st) = None"
    by (simp add: st_def record_event_def next_seq_head notif_empty_def table_simps Let_def)
  obtain r st' where m: "mark_read 5 ''o'' (ev_id e) ''phone'' st = (r, st')" by fastforce
  have "r = Some (ev_id e) \<and> mark_read 6 ''o'' (ev_id e) ''phone'' st' = (Some (ev_id e), st')"
    using notification_read_observed [OF wf ev fresh m, of 6] by simp
  with m have "mark_read 5 ''o'' (ev_id e) ''phone'' st = (Some (ev_id e), st')
      \<and> mark_read 6 ''o'' (ev_id e) ''phone'' st' = (Some (ev_id e), st')" by simp
  then show ?thesis unfolding st_def by blast
qed

text \<open>
  A browser delivery is finalised only by its claim owner: a report that changes a browser row
  presents the non-empty token minted by the claim, on a row that has been claimed, for the right
  event, owner and device when it names them; any other report changes nothing.
\<close>

theorem notification_browser_report_proved:
  assumes "notif_wf st" and "d \<in> set (ns_deliveries st)" and "dl_id d = rp_delivery rp"
    and "dl_channel d = ''browser''" and "note_delivery now rp st = (ans, st')" and "st' \<noteq> st"
  shows "ans = Some (dl_state d) \<and> dl_state d \<noteq> ''pending'' \<and> truthy (rp_token rp)
    \<and> rp_token rp = dl_token d
    \<and> rp_event rp \<in> {None, Some (dl_event d)}
    \<and> rp_owner rp \<in> {None, event_owner st (dl_event d)}
    \<and> rp_device rp \<in> {None, dl_claimed_by d}
    \<and> ns_events st' = ns_events st \<and> ns_reads st' = ns_reads st"
proof -
  have "get_by dl_id (rp_delivery rp) (ns_deliveries st) = Some d"
    using get_by_eq [of dl_id "ns_deliveries st" d] assms(1-3) by (simp add: notif_wf_defs)
  with assms(4-6) show ?thesis
    by (auto simp: note_delivery_def report_refused_def split: if_splits)
qed

theorem notification_browser_report_proved_witness:
  "\<exists>st st'. note_delivery 9 \<lparr>rp_delivery = ''d'', rp_outcome = ''shown'', rp_channel = None,
       rp_event = Some ''e'', rp_owner = None, rp_device = Some ''dev'', rp_token = Some ''tok''\<rparr> st
     = (Some ''claimed'', st') \<and> truthy (Some ''tok'') \<and> st' \<noteq> st"
proof -
  let ?rp = "\<lparr>rp_delivery = ''d'', rp_outcome = ''shown'', rp_channel = None,
       rp_event = Some ''e'', rp_owner = None, rp_device = Some ''dev'', rp_token = Some ''tok''\<rparr>"
  define st where "st = snd (claim_delivery 1 ''e'' ''p'' ''browser'' ''d'' ''dev'' (Some ''tok'') notif_empty)"
  have st: "st = \<lparr>ns_events = [], ns_deliveries = [\<lparr>dl_id = ''d'', dl_event = ''e'', dl_phase = ''p'',
      dl_channel = ''browser'', dl_state = ''claimed'', dl_attempt = 0, dl_claimed_by = Some ''dev'',
      dl_token = Some ''tok'', dl_updated = 1\<rparr>], ns_reads = [], ns_seq = None\<rparr>"
    by (simp add: st_def claim_delivery_def notif_empty_def table_simps)
  have wf: "notif_wf st" unfolding st_def by (rule wf_claim_delivery [OF notif_wf_empty])
  obtain ans st' where n: "note_delivery 9 ?rp st = (ans, st')" by fastforce
  have ne: "st' \<noteq> st"
    using n by (auto simp: st note_delivery_def report_refused_def truthy_def table_simps
        REPORT_OUTCOMES_def CLIENT_OUTCOMES_def)
  have "hd (ns_deliveries st) \<in> set (ns_deliveries st)" "dl_id (hd (ns_deliveries st)) = rp_delivery ?rp"
    "dl_channel (hd (ns_deliveries st)) = ''browser''" by (simp_all add: st)
  from notification_browser_report_proved [OF wf this n ne] n ne show ?thesis
    by (auto simp: st)
qed

end
