(* ===== verification/Url_Text.thy ===== *)
theory Url_Text
  imports Prelude
begin

text \<open>
  The parts of Python's \<open>urllib.parse\<close> the source uses, on the UTF-8 bytes of a text: percent encoding
  and decoding, splitting and joining, and \<open>parse_qs\<close> for one name.
\<close>

section \<open>Encoding\<close>

definition unreserved :: "char \<Rightarrow> bool" where
  "unreserved c \<longleftrightarrow> (let n = (of_char c :: nat) in (48 \<le> n \<and> n \<le> 57) \<or> (65 \<le> n \<and> n \<le> 90)
     \<or> (97 \<le> n \<and> n \<le> 122) \<or> c \<in> {CHR ''_'', CHR ''.'', CHR ''-'', CHR ''~''})"

definition hex_of :: "nat \<Rightarrow> char" where
  "hex_of n = (if n < 10 then char_of (48 + n) else char_of (55 + n))"

definition quote_char :: "char \<Rightarrow> string" where
  "quote_char c = (if unreserved c then [c]
     else [CHR ''%'', hex_of (of_char c div 16), hex_of (of_char c mod 16)])"

text \<open>\<open>urllib.parse.quote(s, safe="")\<close>\<close>

definition quote :: "string \<Rightarrow> string" where
  "quote s = concat (map quote_char s)"

fun join_with :: "char \<Rightarrow> string list \<Rightarrow> string" where
  "join_with c [] = []"
| "join_with c [p] = p"
| "join_with c (p # ps) = p @ c # join_with c ps"

section \<open>Decoding\<close>

definition is_hex :: "char \<Rightarrow> bool" where
  "is_hex c \<longleftrightarrow> (let n = (of_char c :: nat) in (48 \<le> n \<and> n \<le> 57) \<or> (65 \<le> n \<and> n \<le> 70) \<or> (97 \<le> n \<and> n \<le> 102))"

definition unhex :: "char \<Rightarrow> nat" where
  "unhex c = (let n = of_char c in if n < 58 then n - 48 else if n < 71 then n - 55 else n - 87)"

text \<open>An escape that is not two hexadecimal digits stays as it is.\<close>

fun unquote :: "string \<Rightarrow> string" where
  "unquote (c # h # l # s) = (if c = CHR ''%'' \<and> is_hex h \<and> is_hex l then char_of (16 * unhex h + unhex l) # unquote s
     else c # unquote (h # l # s))"
| "unquote s = s"

fun split_on :: "char \<Rightarrow> string \<Rightarrow> string list" where
  "split_on c [] = [[]]"
| "split_on c (d # s) = (if d = c then [] # split_on c s
     else (case split_on c s of [] \<Rightarrow> [[d]] | p # ps \<Rightarrow> (d # p) # ps))"

definition before :: "char \<Rightarrow> string \<Rightarrow> string" where
  "before c s = takeWhile (\<lambda>d. d \<noteq> c) s"

definition after :: "char \<Rightarrow> string \<Rightarrow> string" where
  "after c s = drop 1 (dropWhile (\<lambda>d. d \<noteq> c) s)"

definition plus_text :: "string \<Rightarrow> string" where
  "plus_text s = unquote (map (\<lambda>c. if c = CHR ''+'' then CHR '' '' else c) s)"

text \<open>\<open>parse_qs(query).get(name, [])\<close>: the values of a name, fields without a value left out.\<close>

definition query_values :: "string \<Rightarrow> string \<Rightarrow> string list" where
  "query_values name query = map (\<lambda>f. plus_text (after (CHR ''='') f))
     (filter (\<lambda>f. after (CHR ''='') f \<noteq> [] \<and> plus_text (before (CHR ''='') f) = name) (split_on (CHR ''&'') query))"

section \<open>Decoding undoes encoding\<close>

lemma hex_of_hex: "n < 16 \<Longrightarrow> is_hex (hex_of n)"
  by (auto simp: is_hex_def hex_of_def Let_def)

lemma unhex_hex_of: "n < 16 \<Longrightarrow> unhex (hex_of n) = n"
  by (simp add: unhex_def hex_of_def Let_def)

lemma of_char_less: "(of_char c :: nat) < 256"
  by (metis of_char_mod_256 mod_less_divisor zero_less_numeral)

lemma char_of_hex: "char_of (16 * (of_char c div 16) + of_char c mod (16::nat)) = c"
  by simp

lemma unquote_char: "unquote (quote_char c @ s) = c # unquote s"
proof (cases "unreserved c")
  case True
  moreover have "\<not> unreserved CHR ''%''" by (simp add: unreserved_def)
  ultimately have "c \<noteq> CHR ''%''" by blast
  with True show ?thesis
    by (cases "c # s" rule: unquote.cases) (auto simp: quote_char_def)
next
  case False
  have "of_char c div 16 < (16::nat)" using of_char_less [of c] by linarith
  with False show ?thesis
    by (simp add: quote_char_def unhex_hex_of char_of_hex hex_of_hex)
qed

lemma unquote_quote: "unquote (quote s) = s"
  by (induction s) (simp_all add: quote_def unquote_char)

lemma hex_of_unreserved: "n < 16 \<Longrightarrow> unreserved (hex_of n)"
  by (auto simp: unreserved_def hex_of_def Let_def)

lemma quote_chars: "c \<in> set (quote s) \<Longrightarrow> unreserved c \<or> c = CHR ''%''"
proof -
  have "unreserved (hex_of (of_char d div 16)) \<and> unreserved (hex_of (of_char d mod 16))" for d
    using of_char_less [of d] by (intro conjI hex_of_unreserved) linarith+
  then show "c \<in> set (quote s) \<Longrightarrow> ?thesis"
    by (auto simp: quote_def quote_char_def split: if_splits)
qed

lemma quote_clean: "CHR ''&'' \<notin> set (quote s)" "CHR ''='' \<notin> set (quote s)"
  using quote_chars [of "CHR ''&''" s] quote_chars [of "CHR ''=''" s] by (auto simp: unreserved_def)

lemma split_on_clean: "c \<notin> set p \<Longrightarrow> split_on c p = [p]"
  by (induction p) auto

lemma split_on_sep: "c \<notin> set p \<Longrightarrow> split_on c (p @ c # s) = p # split_on c s"
  by (induction p) auto

lemma split_on_join: "ps \<noteq> [] \<Longrightarrow> list_all (\<lambda>p. c \<notin> set p) ps \<Longrightarrow> split_on c (join_with c ps) = ps"
  by (induction c ps rule: join_with.induct) (auto simp: split_on_clean split_on_sep)

end
