(* ===== verification/Notification_Events.thy ===== *)
theory Notification_Events
  imports Notification_Store Url_Text
begin

text \<open>
  \<open>compat/notification_events.py\<close>: the policy over the notification ledger. \<open>deliver\<close> reads and
  writes the ledger in several transactions, so the operations other requests and processes make in
  between are an argument: \<open>oth i\<close> runs before its step \<open>i\<close>. A call of \<open>publish\<close> is an entry of
  \<open>nw_published\<close> with the slot it was made for; what the transport answers is an argument. The
  configured entry point of the links is an argument, strings are the UTF-8 bytes of the text.
\<close>

section \<open>Watchers\<close>

type_synonym watch_key = "string option \<times> string"

definition MAX_WATCHERS :: nat where "MAX_WATCHERS = 256"

text \<open>\<open>_trim_watchers\<close>: drop the first key of the dict until it fits.\<close>

fun trim_watchers :: "watch_key list \<Rightarrow> watch_key list" where
  "trim_watchers [] = []"
| "trim_watchers (k # ks) = (if length (k # ks) > MAX_WATCHERS then trim_watchers ks else k # ks)"

definition watch :: "watch_key \<Rightarrow> bool \<Rightarrow> watch_key list \<Rightarrow> watch_key list" where
  "watch k on ws = (if on then trim_watchers (removeAll k ws @ [k]) else removeAll k ws)"

definition unwatch_run :: "watch_key \<Rightarrow> watch_key list \<Rightarrow> watch_key list" where
  "unwatch_run k ws = removeAll k ws"

section \<open>Links\<close>

definition given :: "string option \<Rightarrow> bool" where
  "given v \<longleftrightarrow> v \<noteq> None \<and> v \<noteq> Some []"

definition link_fields :: "string option \<Rightarrow> string option \<Rightarrow> string option \<Rightarrow> string option
    \<Rightarrow> (string \<times> string) list" where
  "link_fields sid rid eid req = map (\<lambda>(k, v). (k, the v)) (filter (\<lambda>(k, v). given v)
     [(''session'', sid), (''run'', rid), (''event'', eid), (''request'', req)])"

definition run_link :: "string \<Rightarrow> string option \<Rightarrow> string option \<Rightarrow> string option \<Rightarrow> string option \<Rightarrow> string" where
  "run_link base sid rid eid req =
     (let parts = map (\<lambda>(k, v). k @ CHR ''='' # quote v) (link_fields sid rid eid req)
      in base @ ''/#/chat'' @ (if parts = [] then [] else CHR ''?'' # join_with CHR ''&'' parts))"

section \<open>Delivery\<close>

definition system_channel :: "bool \<Rightarrow> string" where
  "system_channel configured = (if configured then ''ntfy'' else ''browser'')"

definition delivery_id :: "(string \<Rightarrow> string) \<Rightarrow> string \<Rightarrow> string \<Rightarrow> string \<Rightarrow> string" where
  "delivery_id sha eid phase channel =
     take 24 (sha (eid @ CHR 0x00 # phase @ CHR 0x00 # channel))"

text \<open>What a call of \<open>publish\<close> answers: \<open>None\<close> when it raises.\<close>

datatype publisher = NoPublisher | Publisher "bool option"

definition ntfy_publish :: "bool \<Rightarrow> bool option \<Rightarrow> bool option" where
  "ntfy_publish configured accepted = (if configured then accepted else Some False)"

record push_request =
  pq_owner :: string
  pq_run :: "string option"
  pq_sid :: "string option"
  pq_kind :: string
  pq_source :: string
  pq_payload :: string
  pq_phase :: string
  pq_publish :: publisher
  pq_channel :: "string option"

text \<open>The settings, read when the channel is chosen and again by the ntfy publisher, and its answer.\<close>

record transport =
  tp_configured :: bool
  tp_still :: bool
  tp_accepted :: "bool option"

record notif_world =
  nw_store :: notif_store
  nw_published :: "(string \<times> string \<times> string) list"

type_synonym answer = "notif_error + string \<times> string"

definition others :: "(string \<Rightarrow> string) \<Rightarrow> notif_op list \<Rightarrow> notif_world \<Rightarrow> notif_world" where
  "others sha ops w = w\<lparr>nw_store := fold (notif_step sha) ops (nw_store w)\<rparr>"

definition channel_of :: "transport \<Rightarrow> push_request \<Rightarrow> string" where
  "channel_of tp rq = (case pq_channel rq of
     Some c \<Rightarrow> if c = [] then system_channel (tp_configured tp) else c
   | None \<Rightarrow> system_channel (tp_configured tp))"

definition publisher_of :: "transport \<Rightarrow> push_request \<Rightarrow> publisher" where
  "publisher_of tp rq =
     (if pq_publish rq = NoPublisher \<and> channel_of tp rq = ''ntfy'' \<and> pq_kind rq \<in> {''completed'', ''failed''}
      then Publisher (ntfy_publish (tp_still tp) (tp_accepted tp)) else pq_publish rq)"

definition parallel :: "string \<Rightarrow> string \<Rightarrow> bool" where
  "parallel c d \<longleftrightarrow> {c, d} = {''browser'', ''ntfy''}"

definition rerouted :: "string \<Rightarrow> string \<Rightarrow> notif_store \<Rightarrow> bool" where
  "rerouted eid channel st = list_ex (\<lambda>(phase, seen, state). seen \<noteq> ''none'' \<and> seen \<noteq> channel
     \<and> \<not> parallel seen channel) (sent_phases eid st)"

definition publish_outcome :: "publisher \<Rightarrow> string" where
  "publish_outcome p = (case p of
     NoPublisher \<Rightarrow> ''unknown''
   | Publisher None \<Rightarrow> ''unknown''
   | Publisher (Some ok) \<Rightarrow> if ok then ''enqueued'' else ''failed'')"

text \<open>Claim the slot, publish once, and note the outcome.\<close>

definition push_out :: "(string \<Rightarrow> string) \<Rightarrow> (nat \<Rightarrow> notif_op list) \<Rightarrow> time \<Rightarrow> string \<Rightarrow> string \<Rightarrow> string
    \<Rightarrow> publisher \<Rightarrow> notif_world \<Rightarrow> answer \<times> notif_world" where
  "push_out sha oth now eid phase channel p w =
     (let w1 = others sha (oth 4) w;
          (verdict, st) = claim_delivery now eid phase channel (delivery_id sha eid phase channel) ''server'' None
                            (nw_store w1);
          w2 = w1\<lparr>nw_store := st\<rparr>
      in case verdict of
           Inl e \<Rightarrow> (Inl e, w2)
         | Inr (v, assigned) \<Rightarrow>
             if v \<noteq> ''claimed'' then (Inr (eid, ''already_claimed''), w2)
             else
               let w3 = (if p = NoPublisher then w2 else w2\<lparr>nw_published := nw_published w2 @ [(eid, phase, channel)]\<rparr>);
                   w4 = others sha (oth 5) w3;
                   outcome = publish_outcome p
               in (Inr (eid, outcome), w4\<lparr>nw_store := snd (note_delivery now
                    \<lparr>rp_delivery = assigned, rp_outcome = outcome, rp_channel = Some channel, rp_event = None,
                     rp_owner = None, rp_device = None, rp_token = None\<rparr> (nw_store w4))\<rparr>))"

text \<open>The guards between the record and the claim: the verdict that ends the delivery, if any.\<close>

definition held_back :: "(string \<Rightarrow> string) \<Rightarrow> (nat \<Rightarrow> notif_op list) \<Rightarrow> string \<Rightarrow> string \<Rightarrow> string
    \<Rightarrow> notif_world \<Rightarrow> string option \<times> notif_world" where
  "held_back sha oth eid phase channel w =
     (let w1 = others sha (oth 1) w in
      if is_read eid (nw_store w1) then (Some ''suppressed_read'', w1)
      else let w2 = others sha (oth 2) w1;
               existing = delivery_state eid phase channel (nw_store w2)
           in case (case existing of Some s \<Rightarrow> if s = ''pending'' then None else Some s | None \<Rightarrow> None) of
                Some s \<Rightarrow> (Some (''already_'' @ s), w2)
              | None \<Rightarrow>
                  let w3 = others sha (oth 3) w2
                  in (if rerouted eid channel (nw_store w3) then Some ''already_claimed_other_channel'' else None, w3))"

definition deliver :: "(string \<Rightarrow> string) \<Rightarrow> (nat \<Rightarrow> notif_op list) \<Rightarrow> time \<Rightarrow> transport \<Rightarrow> push_request
    \<Rightarrow> notif_world \<Rightarrow> answer \<times> notif_world" where
  "deliver sha oth now tp rq w =
     (let w0 = others sha (oth 0) w;
          ((eid, created), st) = record_event sha now (pq_owner rq) (pq_run rq) (pq_sid rq) (pq_kind rq)
                                   (pq_source rq) (pq_payload rq) (nw_store w0);
          w1 = w0\<lparr>nw_store := st\<rparr>;
          channel = channel_of tp rq; phase = pq_phase rq; p = publisher_of tp rq
      in if pq_kind rq \<in> {''cancelled'', ''interrupted'', ''steer_ready''} then (Inr (eid, ''recorded''), w1)
         else case held_back sha oth eid phase channel w1 of
           (Some verdict, w2) \<Rightarrow> (Inr (eid, verdict), w2)
         | (None, w2) \<Rightarrow>
             if channel = ''browser'' \<and> p = NoPublisher
             then (let w3 = others sha (oth 4) w2;
                       (res, st') = queue_delivery now eid phase channel (delivery_id sha eid phase channel) (nw_store w3)
                   in (map_sum (\<lambda>e. e) (\<lambda>(verdict, assigned). (eid, verdict)) res, w3\<lparr>nw_store := st'\<rparr>))
             else push_out sha oth now eid phase channel p w2)"

section \<open>Reminders and the gate of the approval push\<close>

definition reminder_allowed :: "(string \<Rightarrow> string) \<Rightarrow> bool \<Rightarrow> string \<Rightarrow> string option \<Rightarrow> string \<Rightarrow> bool
    \<Rightarrow> notif_store \<Rightarrow> bool" where
  "reminder_allowed sha configured owner rid req pending st =
     (let eid = event_id_for sha owner rid ''approval_request'' req in
      if \<not> pending then False
      else if is_read eid st then False
      else delivery_state eid ''reminder'' (system_channel configured) st = None)"

definition PUBLISH_OK :: "string list" where
  "PUBLISH_OK = [''sent'', ''already_sent'', ''enqueued'', ''already_enqueued'', ''queued'']"

text \<open>
  \<open>approval_initial_hook\<close>: \<open>None\<close> when the gate does not handle the push. \<open>rq\<close> is the request the hook
  makes of the approval entry; its phase is the kind of push.
\<close>

definition approval_gate :: "(string \<Rightarrow> string) \<Rightarrow> (nat \<Rightarrow> notif_op list) \<Rightarrow> time \<Rightarrow> transport \<Rightarrow> bool \<Rightarrow> bool
    \<Rightarrow> push_request \<Rightarrow> notif_world \<Rightarrow> (notif_error + bool) option \<times> notif_world" where
  "approval_gate sha oth now tp live pending rq w =
     (if \<not> live then (None, w)
      else if pq_phase rq = ''reminder'' \<and>
        \<not> reminder_allowed sha (tp_configured tp) (pq_owner rq) (pq_run rq) (pq_source rq) pending (nw_store w)
      then (Some (Inr False), w)
      else let (res, w') = deliver sha oth now tp rq w
           in (Some (map_sum (\<lambda>e. e) (\<lambda>(eid, outcome). outcome \<in> set PUBLISH_OK) res), w'))"

definition approval_request :: "string option \<Rightarrow> string option \<Rightarrow> string option \<Rightarrow> string \<Rightarrow> string
    \<Rightarrow> bool option \<Rightarrow> push_request" where
  "approval_request owner rid sid req kind answer = \<lparr>
     pq_owner = (case owner of None \<Rightarrow> [] | Some ow \<Rightarrow> ow), pq_run = rid, pq_sid = sid,
     pq_kind = ''approval_request'', pq_source = req,
     pq_payload = (if kind = ''reminder'' then ''{\"summary\":\"reminder\"}'' else ''{\"summary\":\"approval\"}''),
     pq_phase = (if kind = ''reminder'' then ''reminder'' else ''initial''),
     pq_publish = Publisher answer, pq_channel = None\<rparr>"

section \<open>Terminal events and steer readiness\<close>

text \<open>\<open>terminal_event\<close>: the run is no longer watched, whatever the delivery does.\<close>

definition terminal_event :: "(string \<Rightarrow> string) \<Rightarrow> (nat \<Rightarrow> notif_op list) \<Rightarrow> time \<Rightarrow> transport
    \<Rightarrow> string \<Rightarrow> string \<Rightarrow> string option \<Rightarrow> string \<Rightarrow> string \<Rightarrow> watch_key list \<times> notif_world
    \<Rightarrow> answer option \<times> watch_key list \<times> notif_world" where
  "terminal_event sha oth now tp owner rid sid status payload s = (case s of (ws, w) \<Rightarrow>
     if status \<notin> {''completed'', ''failed'', ''cancelled'', ''interrupted''} then (None, ws, w)
     else let (res, w') = deliver sha oth now tp \<lparr>pq_owner = owner, pq_run = Some rid, pq_sid = sid,
                pq_kind = status, pq_source = ''terminal'', pq_payload = payload, pq_phase = ''initial'',
                pq_publish = NoPublisher, pq_channel = None\<rparr> w
          in (Some res, unwatch_run (Some owner, rid) ws, w'))"

definition steer_ready :: "(string \<Rightarrow> string) \<Rightarrow> (nat \<Rightarrow> notif_op list) \<Rightarrow> time \<Rightarrow> transport \<Rightarrow> bool
    \<Rightarrow> string \<Rightarrow> string \<Rightarrow> string option \<Rightarrow> watch_key list \<times> notif_world
    \<Rightarrow> answer option \<times> watch_key list \<times> notif_world" where
  "steer_ready sha oth now tp capability owner rid sid s = (case s of (ws, w) \<Rightarrow>
     if \<not> capability \<or> (Some owner, rid) \<notin> set ws then (None, ws, w)
     else let (res, w') = deliver sha oth now tp \<lparr>pq_owner = owner, pq_run = Some rid, pq_sid = sid,
                pq_kind = ''steer_ready'', pq_source = ''ready'', pq_payload = ''{}'', pq_phase = ''initial'',
                pq_publish = NoPublisher, pq_channel = Some ''none''\<rparr> w
          in (Some res, (case res of Inl _ \<Rightarrow> ws | Inr _ \<Rightarrow> unwatch_run (Some owner, rid) ws), w'))"

section \<open>Properties\<close>

text \<open>
  What every step keeps: the ledger well formed, each publish call of a distinct slot, and each of
  these slots taken.
\<close>

definition published_ok :: "notif_world \<Rightarrow> bool" where
  "published_ok w \<longleftrightarrow> notif_wf (nw_store w) \<and> distinct (nw_published w)
     \<and> (\<forall>k \<in> set (nw_published w). slot_taken k (nw_store w))"

lemma published_ok_step:
  "published_ok w \<Longrightarrow> published_ok (w\<lparr>nw_store := notif_step sha op (nw_store w)\<rparr>)"
  by (auto simp: published_ok_def intro: notif_wf_step slot_taken_step)

lemma published_ok_others: "published_ok w \<Longrightarrow> published_ok (others sha ops w)"
proof (induction ops arbitrary: w)
  case Nil
  then show ?case by (simp add: others_def)
next
  case (Cons op ops)
  from Cons.IH [OF published_ok_step [OF Cons.prems, of sha op]] show ?case by (simp add: others_def)
qed

lemma published_ok_record: "published_ok w \<Longrightarrow>
    published_ok (w\<lparr>nw_store := snd (record_event sha now ow rid sid kind src pl (nw_store w))\<rparr>)"
  using published_ok_step [of w sha "RecordEvent now ow rid sid kind src pl"] by simp

lemma published_ok_queue: "published_ok w \<Longrightarrow>
    published_ok (w\<lparr>nw_store := snd (queue_delivery now eid ph ch did (nw_store w))\<rparr>)"
  using published_ok_step [of w sha "QueueDelivery now eid ph ch did"] by simp

lemma published_ok_note: "published_ok w \<Longrightarrow>
    published_ok (w\<lparr>nw_store := snd (note_delivery now rp (nw_store w))\<rparr>)"
  using published_ok_step [of w sha "NoteDelivery now rp"] by simp

lemma published_ok_claim: "published_ok w \<Longrightarrow>
    published_ok (w\<lparr>nw_store := snd (claim_delivery now eid ph ch did dev tok (nw_store w))\<rparr>)"
  using published_ok_step [of w sha "ClaimDelivery now eid ph ch did dev tok"] by simp

lemma published_ok_won:
  assumes "published_ok w" "claim_delivery now eid ph ch did dev tok (nw_store w) = (Inr (''claimed'', a), st)"
  shows "published_ok (w\<lparr>nw_store := st, nw_published := nw_published w @ [(eid, ph, ch)]\<rparr>)"
proof -
  have win: "claim_wins (eid, ph, ch) (ClaimDelivery now eid ph ch did dev tok) (nw_store w)"
    using assms(2) by (simp add: claim_wins_def)
  then have "\<not> slot_taken (eid, ph, ch) (nw_store w)"
    using assms(1) by (intro claim_wins_free) (simp_all add: published_ok_def)
  moreover from claim_wins_seals [OF win] assms(2) have "slot_taken (eid, ph, ch) st" by simp
  moreover have "published_ok (w\<lparr>nw_store := st\<rparr>)"
    using published_ok_claim [OF assms(1), of now eid ph ch did dev tok] assms(2) by simp
  ultimately show ?thesis using assms(1) by (auto simp: published_ok_def)
qed

lemma published_ok_push_out:
  assumes "published_ok w" shows "published_ok (snd (push_out sha oth now eid ph ch p w))"
proof -
  define w1 where "w1 = others sha (oth 4) w"
  have ok1: "published_ok w1" unfolding w1_def by (rule published_ok_others [OF assms])
  obtain v st where c: "claim_delivery now eid ph ch (delivery_id sha eid ph ch) ''server'' None (nw_store w1) = (v, st)"
    by fastforce
  have ok2: "published_ok (w1\<lparr>nw_store := st\<rparr>)"
    using published_ok_claim [OF ok1, of now eid ph ch "delivery_id sha eid ph ch" "''server''" None] c by simp
  show ?thesis
  proof (cases "\<exists>a. v = Inr (''claimed'', a)")
    case True
    then obtain a where v: "v = Inr (''claimed'', a)" by blast
    have "published_ok (if p = NoPublisher then w1\<lparr>nw_store := st\<rparr>
        else w1\<lparr>nw_store := st, nw_published := nw_published w1 @ [(eid, ph, ch)]\<rparr>)"
      using ok2 published_ok_won [OF ok1] c v by simp
    then show ?thesis
      by (simp add: push_out_def w1_def [symmetric] c v Let_def published_ok_note published_ok_others split: if_splits)
  next
    case False
    with ok2 show ?thesis
      by (auto simp: push_out_def w1_def [symmetric] c Let_def split: sum.split)
  qed
qed

lemma published_ok_held:
  "published_ok w \<Longrightarrow> held_back sha oth eid ph ch w = (v, w') \<Longrightarrow> published_ok w'"
  by (auto simp: held_back_def Let_def published_ok_others split: if_splits option.splits)

lemma published_ok_deliver:
  assumes "published_ok w" shows "published_ok (snd (deliver sha oth now tp rq w))"
proof -
  define w0 where "w0 = others sha (oth 0) w"
  have ok0: "published_ok w0" unfolding w0_def by (rule published_ok_others [OF assms])
  obtain eid created st where r: "record_event sha now (pq_owner rq) (pq_run rq) (pq_sid rq) (pq_kind rq)
      (pq_source rq) (pq_payload rq) (nw_store w0) = ((eid, created), st)" by (metis prod.exhaust)
  have ok1: "published_ok (w0\<lparr>nw_store := st\<rparr>)"
    using published_ok_record [OF ok0, of sha now "pq_owner rq" "pq_run rq" "pq_sid rq" "pq_kind rq"
        "pq_source rq" "pq_payload rq"] r by simp
  obtain v w2 where h: "held_back sha oth eid (pq_phase rq) (channel_of tp rq) (w0\<lparr>nw_store := st\<rparr>) = (v, w2)"
    by fastforce
  have ok2: "published_ok w2" by (rule published_ok_held [OF ok1 h])
  show ?thesis
    using ok1 ok2
    by (auto simp: deliver_def w0_def [symmetric] r h Let_def published_ok_queue published_ok_others
        split: option.split prod.split intro!: published_ok_push_out)
      (metis published_ok_queue published_ok_others snd_conv)
qed

end
