(* ===== verification/Notification_Properties.thy ===== *)
theory Notification_Properties
  imports Notification_Events
begin

text \<open>
  What \<open>compat/notification_events.py\<close> promises over a history: one publish call per slot, none for an
  event that has been read, at most \<open>MAX_WATCHERS\<close> watched runs, and links whose fields can be read
  back. A history mixes deliveries of every origin with the operations of other clients of the ledger.
\<close>

section \<open>Histories\<close>

datatype policy_op =
    Ledger notif_op
  | Deliver "nat \<Rightarrow> notif_op list" time transport push_request
  | ApprovalGate "nat \<Rightarrow> notif_op list" time transport bool bool push_request
  | Terminal "nat \<Rightarrow> notif_op list" time transport string string "string option" string string
  | SteerReady "nat \<Rightarrow> notif_op list" time transport bool string string "string option"
  | Watch watch_key bool

type_synonym policy = "watch_key list \<times> notif_world"

fun policy_step :: "(string \<Rightarrow> string) \<Rightarrow> policy_op \<Rightarrow> policy \<Rightarrow> policy" where
  "policy_step sha (Ledger op) (ws, w) = (ws, others sha [op] w)"
| "policy_step sha (Deliver oth now tp rq) (ws, w) = (ws, snd (deliver sha oth now tp rq w))"
| "policy_step sha (ApprovalGate oth now tp live pending rq) (ws, w) =
     (ws, snd (approval_gate sha oth now tp live pending rq w))"
| "policy_step sha (Terminal oth now tp ow rid sid status pl) s =
     snd (terminal_event sha oth now tp ow rid sid status pl s)"
| "policy_step sha (SteerReady oth now tp cap ow rid sid) s =
     snd (steer_ready sha oth now tp cap ow rid sid s)"
| "policy_step sha (Watch k on) (ws, w) = (watch k on ws, w)"

definition policy_run :: "(string \<Rightarrow> string) \<Rightarrow> policy_op list \<Rightarrow> policy \<Rightarrow> policy" where
  "policy_run sha ops s = fold (policy_step sha) ops s"

definition policy_start :: policy where
  "policy_start = ([], \<lparr>nw_store = notif_empty, nw_published = []\<rparr>)"

text \<open>Every step that touches the ledger is one delivery, foreign operations, or nothing.\<close>

lemma gate_world: "snd (approval_gate sha oth now tp live pending rq w) \<in> {w, snd (deliver sha oth now tp rq w)}"
  by (auto simp: approval_gate_def split: prod.split)

lemma terminal_world:
  "\<exists>rq. snd (snd (terminal_event sha oth now tp ow rid sid status pl s)) \<in> {snd s, snd (deliver sha oth now tp rq (snd s))}"
  by (cases s) (auto simp: terminal_event_def split: prod.split, (metis snd_conv)+)

lemma ready_world:
  "\<exists>rq. snd (snd (steer_ready sha oth now tp cap ow rid sid s)) \<in> {snd s, snd (deliver sha oth now tp rq (snd s))}"
  by (cases s) (auto simp: steer_ready_def split: prod.split, (metis snd_conv)+)

lemma policy_step_world:
  obtains (idle) "snd (policy_step sha op s) = snd s"
  | (foreign) f where "snd (policy_step sha op s) = others sha [f] (snd s)"
  | (delivery) oth now tp rq where "snd (policy_step sha op s) = snd (deliver sha oth now tp rq (snd s))"
proof (cases s)
  case (Pair ws w)
  show thesis
  proof (cases op)
    case (Ledger f)
    then show ?thesis by (intro foreign) (simp add: Pair)
  next
    case (Deliver oth now tp rq)
    then show ?thesis by (intro delivery) (simp add: Pair)
  next
    case (ApprovalGate oth now tp live pending rq)
    then have "snd (policy_step sha op s) = snd s
        \<or> snd (policy_step sha op s) = snd (deliver sha oth now tp rq (snd s))"
      using gate_world [of sha oth now tp live pending rq w] by (auto simp: Pair)
    then show ?thesis using idle delivery by metis
  next
    case (Terminal oth now tp ow rid sid status pl)
    with terminal_world [of sha oth now tp ow rid sid status pl s] idle delivery [of oth now tp]
    show ?thesis by auto
  next
    case (SteerReady oth now tp cap ow rid sid)
    with ready_world [of sha oth now tp cap ow rid sid s] idle delivery [of oth now tp]
    show ?thesis by auto
  next
    case (Watch k on)
    then show ?thesis by (intro idle) (simp add: Pair)
  qed
qed

section \<open>Watched runs\<close>

lemma trim_watchers_suffix: "trim_watchers ws = drop (length ws - MAX_WATCHERS) ws"
proof (induction ws)
  case (Cons k ks)
  then show ?case by (cases "length ks < MAX_WATCHERS") (auto simp: Suc_diff_le)
qed simp

lemma removeAll_bounded: "length ws \<le> MAX_WATCHERS \<and> distinct ws \<Longrightarrow>
    length (removeAll k ws) \<le> MAX_WATCHERS \<and> distinct (removeAll k ws)"
  by (metis distinct_removeAll le_trans length_removeAll_less_eq)

lemma trim_bounded: "distinct ws \<Longrightarrow>
    length (trim_watchers ws) \<le> MAX_WATCHERS \<and> distinct (trim_watchers ws)"
  by (simp add: trim_watchers_suffix)

lemma watch_bounded: "length ws \<le> MAX_WATCHERS \<and> distinct ws \<Longrightarrow>
    length (watch k on ws) \<le> MAX_WATCHERS \<and> distinct (watch k on ws)"
  using trim_bounded [of "removeAll k ws @ [k]"] removeAll_bounded [of ws k]
  by (cases on) (simp_all add: watch_def distinct_removeAll)

section \<open>One publish call per slot\<close>

definition policy_ok :: "policy \<Rightarrow> bool" where
  "policy_ok s \<longleftrightarrow> published_ok (snd s) \<and> length (fst s) \<le> MAX_WATCHERS \<and> distinct (fst s)"

lemma watchers_step:
  assumes "length (fst s) \<le> MAX_WATCHERS \<and> distinct (fst s)"
  shows "length (fst (policy_step sha op s)) \<le> MAX_WATCHERS \<and> distinct (fst (policy_step sha op s))"
proof (cases s)
  case (Pair ws w)
  with assms show ?thesis
    by (cases op)
      (simp_all add: watch_bounded removeAll_bounded terminal_event_def steer_ready_def unwatch_run_def
        split: prod.split sum.split)
qed

lemma policy_ok_step: "policy_ok s \<Longrightarrow> policy_ok (policy_step sha op s)"
  using watchers_step [of s sha op]
  by (cases rule: policy_step_world [of sha op s])
    (simp_all add: policy_ok_def published_ok_others published_ok_deliver)

interpretation np: guarded_store "policy_step sha" policy_ok for sha
  by unfold_locales (rule policy_ok_step)

lemma policy_ok_start: "policy_ok policy_start"
  by (simp add: policy_ok_def policy_start_def published_ok_def notif_wf_empty)

text \<open>
  C2. Over any history that mixes deliveries, approval pushes, terminal events, steer notices and the
  operations other clients make on the ledger, in between the steps of a delivery too, the output is
  called at most once for each (event, phase, channel), and at most 256 runs are watched.
\<close>

theorem notification_pushed_at_most_once:
  "distinct (nw_published (snd (policy_run sha ops policy_start)))
   \<and> length (fst (policy_run sha ops policy_start)) \<le> MAX_WATCHERS"
  using np.run_inv [OF policy_ok_start, of sha ops]
  by (simp add: policy_run_def policy_ok_def published_ok_def)

section \<open>A read event is silent\<close>

text \<open>\<open>w'\<close> is reached from \<open>w\<close> and has published nothing more of the read event.\<close>

definition silent :: "string \<Rightarrow> notif_world \<Rightarrow> notif_world \<Rightarrow> bool" where
  "silent eid w w' \<longleftrightarrow> is_read eid (nw_store w') \<and>
     filter (\<lambda>k. fst k = eid) (nw_published w') = filter (\<lambda>k. fst k = eid) (nw_published w)"

lemma is_read_iff: "is_read eid st \<longleftrightarrow> (\<exists>a \<in> set (ns_reads st). ra_event a = eid)"
  by (simp add: is_read_def first_where_None)

lemma is_read_step: "is_read eid st \<Longrightarrow> is_read eid (notif_step sha op st)"
  by (cases op)
    (auto simp: is_read_iff record_event_def mark_read_def claim_delivery_def new_delivery_def
      queue_delivery_def note_delivery_def next_seq_def Let_def split: option.split if_split)

lemma is_read_others:
  assumes "is_read eid (nw_store w)" shows "is_read eid (nw_store (others sha ops w))"
proof -
  have "is_read eid st \<Longrightarrow> is_read eid (fold (notif_step sha) ops st)" for st
    by (induction ops arbitrary: st) (auto intro: is_read_step)
  with assms show ?thesis by (simp add: others_def)
qed

lemma published_others [simp]: "nw_published (others sha ops w) = nw_published w"
  by (simp add: others_def)

lemmas is_read_ops =
  is_read_step [where op = "RecordEvent now ow rid sid kind src pl" for now ow rid sid kind src pl, simplified]
  is_read_step [where op = "QueueDelivery now eid ph ch did" for now eid ph ch did, simplified]
  is_read_step [where op = "ClaimDelivery now eid ph ch did dev tok" for now eid ph ch did dev tok, simplified]
  is_read_step [where op = "NoteDelivery now rp" for now rp, simplified]

lemma silent_push_out:
  assumes "is_read eid (nw_store w)" "rid \<noteq> eid"
  shows "silent eid w (snd (push_out sha oth now rid ph ch p w))"
proof -
  obtain v st where c: "claim_delivery now rid ph ch (delivery_id sha rid ph ch) ''server'' None
      (nw_store (others sha (oth 4) w)) = (v, st)" by fastforce
  have "is_read eid st"
    using is_read_ops(3) [OF is_read_others [OF assms(1)]] c by (metis snd_conv)
  then show ?thesis
    using assms(2) is_read_ops(4) is_read_others
    by (auto simp: push_out_def c silent_def Let_def split: sum.split)
qed

lemma held_back_read:
  assumes "is_read eid (nw_store w)" "held_back sha oth rid ph ch w = (v, w')"
  shows "is_read eid (nw_store w') \<and> nw_published w' = nw_published w \<and> (rid = eid \<longrightarrow> v \<noteq> None)"
  using assms by (auto simp: held_back_def Let_def is_read_others split: if_splits option.splits)

lemma silent_deliver:
  assumes "is_read eid (nw_store w)" shows "silent eid w (snd (deliver sha oth now tp rq w))"
proof -
  obtain rid created st where r: "record_event sha now (pq_owner rq) (pq_run rq) (pq_sid rq) (pq_kind rq)
      (pq_source rq) (pq_payload rq) (nw_store (others sha (oth 0) w)) = ((rid, created), st)"
    by (metis prod.exhaust)
  have read: "is_read eid st"
    using is_read_ops(1) [OF is_read_others [OF assms]] r by (metis snd_conv)
  define w1 where "w1 = (others sha (oth 0) w)\<lparr>nw_store := st\<rparr>"
  obtain v w2 where h: "held_back sha oth rid (pq_phase rq) (channel_of tp rq) w1 = (v, w2)" by fastforce
  from held_back_read [OF _ h, of eid] read
  have w2: "is_read eid (nw_store w2)" "nw_published w2 = nw_published w" "rid = eid \<longrightarrow> v \<noteq> None"
    by (auto simp: w1_def)
  have push: "silent eid w2 (snd (push_out sha oth now rid ph ch p w2))" if "v = None" for ph ch p
    using that w2 by (intro silent_push_out) auto
  have queue: "is_read eid (snd (queue_delivery now rid ph ch did (nw_store (others sha (oth 4) w2))))" for ph ch did
    by (rule is_read_ops(2) [OF is_read_others [OF w2(1)]])
  show ?thesis
    using read w2 push queue
    by (auto simp: deliver_def r h w1_def [symmetric] Let_def silent_def split: option.split prod.split)
      (auto simp: w1_def, (metis snd_conv)+)
qed

lemma silent_step: "is_read eid (nw_store (snd s)) \<Longrightarrow> silent eid (snd s) (snd (policy_step sha op s))"
  using silent_deliver is_read_others
  by (cases rule: policy_step_world [of sha op s]) (auto simp: silent_def)

text \<open>
  Once some device has acknowledged an event as read, no later history, of whatever deliveries and
  reminders, pushes it again: the calls of the output made for it stay what they were.
\<close>

theorem notification_read_is_silent:
  "is_read eid (nw_store (snd s)) \<Longrightarrow>
   filter (\<lambda>k. fst k = eid) (nw_published (snd (policy_run sha ops s))) =
   filter (\<lambda>k. fst k = eid) (nw_published (snd s))"
proof (induction ops arbitrary: s)
  case Nil
  then show ?case by (simp add: policy_run_def)
next
  case (Cons op ops)
  from silent_step [OF Cons.prems] Cons.IH [of "policy_step sha op s"]
  show ?case by (auto simp: policy_run_def silent_def)
qed

theorem notification_read_is_silent_witness:
  "filter (\<lambda>k. fst k = ''e'') (nw_published (snd (policy_run (\<lambda>x. ''e'')
     [Deliver (\<lambda>i. []) 7 \<lparr>tp_configured = True, tp_still = True, tp_accepted = Some True\<rparr>
        \<lparr>pq_owner = ''o'', pq_run = Some ''r'', pq_sid = None, pq_kind = ''completed'', pq_source = ''terminal'',
         pq_payload = [], pq_phase = ''initial'', pq_publish = NoPublisher, pq_channel = None\<rparr>]
     ([], \<lparr>nw_store = notif_empty\<lparr>ns_reads := [\<lparr>ra_event = ''e'', ra_reader = ''d'', ra_seq = 1, ra_at = 5\<rparr>]\<rparr>,
           nw_published = []\<rparr>)))) = []"
  by (subst notification_read_is_silent)
    (simp_all add: is_read_def first_where_def notif_empty_def)

section \<open>Links\<close>

text \<open>The reader of a link: fields separated by \<open>&\<close>, each a name, \<open>=\<close> and a percent-encoded value.\<close>

definition read_field :: "string \<Rightarrow> string \<times> string" where
  "read_field p = (takeWhile (\<lambda>c. c \<noteq> CHR ''='') p, unquote (drop 1 (dropWhile (\<lambda>c. c \<noteq> CHR ''='') p)))"

definition read_link :: "string \<Rightarrow> string \<Rightarrow> (string \<times> string) list" where
  "read_link base l = (case drop (length base + length ''/#/chat'') l of
     [] \<Rightarrow> [] | c # query \<Rightarrow> map read_field (split_on CHR ''&'' query))"

lemma read_field_print: "CHR ''='' \<notin> set k \<Longrightarrow> read_field (k @ CHR ''='' # quote v) = (k, v)"
  by (simp add: read_field_def takeWhile_append dropWhile_append unquote_quote)

lemma link_field_names: "(k, v) \<in> set (link_fields sid rid eid req) \<Longrightarrow>
    k \<in> {''session'', ''run'', ''event'', ''request''}"
  by (auto simp: link_fields_def split: if_splits)

text \<open>
  A link names exactly the fields that were given, in order: reading it back gives the session,
  run, event and request it was made of, whatever characters they hold.
\<close>

theorem run_link_roundtrip:
  "read_link base (run_link base sid rid eid req) = link_fields sid rid eid req"
proof -
  define fs where "fs = link_fields sid rid eid req"
  define ps where "ps = map (\<lambda>(k, v). k @ CHR ''='' # quote v) fs"
  have names: "CHR ''='' \<notin> set k \<and> CHR ''&'' \<notin> set k" if "(k, v) \<in> set fs" for k v
    using link_field_names [OF that [unfolded fs_def]] by auto
  then have "list_all (\<lambda>p. CHR ''&'' \<notin> set p) ps"
    using quote_clean by (auto simp: ps_def list_all_iff)
  moreover have "map read_field ps = fs"
    unfolding ps_def map_map
    by (rule map_idI) (auto simp: read_field_print names)
  ultimately have "fs \<noteq> [] \<Longrightarrow> map read_field (split_on CHR ''&'' (join_with CHR ''&'' ps)) = fs"
    by (simp add: split_on_join ps_def)
  then show ?thesis
    by (simp add: read_link_def run_link_def fs_def [symmetric] ps_def [symmetric]) (simp add: ps_def)
qed

end
