(* ===== verification/Steer_Store.thy ===== *)
theory Steer_Store
  imports Prelude
begin

text \<open>
  \<open>compat/steer_store.py\<close>: the durable, run-scoped steer inbox. The record \<open>steer_store\<close> holds the
  tables \<open>runs\<close>, \<open>steers\<close>, \<open>batches\<close> and \<open>purged_keys\<close>; every operation is one
  \<open>with _LOCK, conn\<close> transaction and a uniqueness violation is \<open>Inl Integrity\<close> with the store
  unchanged. The digest, the clock and the caller's batch ids are arguments. \<open>ordered_ids\<close> is
  kept as the list its JSON column encodes.
\<close>

section \<open>State\<close>

datatype steer_state = Accepted | Staged | Delivered | NotDelivered | OutcomeUnknown

record run =
  rn_owner :: string
  rn_id :: string
  rn_orig :: "string option"
  rn_resolved :: "string option"
  rn_epoch :: "string option"
  rn_reason :: "string option"
  rn_closed :: "time option"
  rn_next :: int

record steer =
  sr_id :: string
  sr_owner :: string
  sr_run :: string
  sr_key :: string
  sr_digest :: string
  sr_input :: string
  sr_seq :: int
  sr_state :: steer_state
  sr_batch :: "string option"
  sr_row :: "string option"
  sr_error :: "string option"
  sr_created :: time
  sr_updated :: time

record steer_batch =
  sb_id :: string
  sb_owner :: string
  sb_run :: string
  sb_ids :: "string list"
  sb_state :: steer_state
  sb_row :: "string option"
  sb_created :: time

record purged =
  pk_owner :: string
  pk_run :: string
  pk_key :: string
  pk_at :: time

record steer_store =
  ss_runs :: "run list"
  ss_steers :: "steer list"
  ss_batches :: "steer_batch list"
  ss_purged :: "purged list"

datatype steer_error = Integrity

definition steer_empty :: steer_store where
  "steer_empty = \<lparr>ss_runs = [], ss_steers = [], ss_batches = [], ss_purged = []\<rparr>"

definition OUTSTANDING_LIMIT :: nat where "OUTSTANDING_LIMIT = 32"
definition RECEIPT_TTL_SECONDS :: time where "RECEIPT_TTL_SECONDS = 30 * 86400"
definition HANDOFF_ERROR :: string where "HANDOFF_ERROR = ''core_handoff''"

abbreviation of_run :: "string \<Rightarrow> string \<Rightarrow> steer \<Rightarrow> bool" where
  "of_run owner rid s \<equiv> sr_owner s = owner \<and> sr_run s = rid"

abbreviation run_key :: "run \<Rightarrow> string \<times> string" where
  "run_key r \<equiv> (rn_owner r, rn_id r)"

abbreviation steer_key :: "steer \<Rightarrow> string \<times> string \<times> string" where
  "steer_key s \<equiv> (sr_owner s, sr_run s, sr_key s)"

abbreviation purged_key :: "purged \<Rightarrow> string \<times> string \<times> string" where
  "purged_key p \<equiv> (pk_owner p, pk_run p, pk_key p)"

section \<open>Runs\<close>

definition derive_steer_id :: "(string \<Rightarrow> string) \<Rightarrow> string \<Rightarrow> string \<Rightarrow> string \<Rightarrow> string" where
  "derive_steer_id sha owner rid key =
     take 32 (sha (owner @ CHR 0x00 # rid @ CHR 0x00 # key))"

definition get_run :: "string \<Rightarrow> string \<Rightarrow> steer_store \<Rightarrow> run option" where
  "get_run owner rid st = get_by run_key (owner, rid) (ss_runs st)"

definition new_run :: "string \<Rightarrow> string \<Rightarrow> string option \<Rightarrow> string option \<Rightarrow> string option \<Rightarrow> run" where
  "new_run owner rid orig resolved epoch = \<lparr>rn_owner = owner, rn_id = rid, rn_orig = orig,
     rn_resolved = resolved, rn_epoch = epoch, rn_reason = None, rn_closed = None, rn_next = 1\<rparr>"

definition register_run :: "string \<Rightarrow> string \<Rightarrow> string option \<Rightarrow> string option \<Rightarrow> string option
    \<Rightarrow> steer_store \<Rightarrow> run option \<times> steer_store" where
  "register_run owner rid orig resolved epoch st =
     (let st' = (case get_run owner rid st of
          None \<Rightarrow> st\<lparr>ss_runs := ss_runs st @ [new_run owner rid orig resolved epoch]\<rparr>
        | Some _ \<Rightarrow> st\<lparr>ss_runs := upd_where (\<lambda>r. run_key r = (owner, rid))
            (\<lambda>r. r\<lparr>rn_resolved := coalesce resolved (rn_resolved r),
                   rn_epoch := coalesce epoch (rn_epoch r)\<rparr>) (ss_runs st)\<rparr>)
      in (get_run owner rid st', st'))"

definition seal_run :: "time \<Rightarrow> string \<Rightarrow> string \<Rightarrow> string \<Rightarrow> steer_store
    \<Rightarrow> (string \<times> string list) \<times> steer_store" where
  "seal_run now owner rid reason st =
     (let runs = (case get_run owner rid st of
          None \<Rightarrow> ss_runs st @ [(new_run owner rid None None None)
                    \<lparr>rn_reason := Some reason, rn_closed := Some now\<rparr>]
        | Some _ \<Rightarrow> upd_where (\<lambda>r. run_key r = (owner, rid))
            (\<lambda>r. r\<lparr>rn_reason := coalesce (rn_reason r) (Some reason),
                   rn_closed := coalesce (rn_closed r) (Some now)\<rparr>) (ss_runs st));
          hit = (\<lambda>s. of_run owner rid s \<and> sr_state s = Accepted)
      in ((reason, map sr_id (filter hit (ss_steers st))),
          st\<lparr>ss_runs := runs,
             ss_steers := upd_where hit (\<lambda>s. s\<lparr>sr_state := NotDelivered, sr_error := Some reason,
                            sr_updated := now\<rparr>) (ss_steers st)\<rparr>))"

section \<open>Admission\<close>

datatype admit_result =
    Admitted steer | Duplicate steer | Conflict steer | Closed run | QueueFull nat | Expired string

definition is_purged :: "string \<Rightarrow> string \<Rightarrow> string \<Rightarrow> steer_store \<Rightarrow> bool" where
  "is_purged owner rid key st \<longleftrightarrow> get_by purged_key (owner, rid, key) (ss_purged st) \<noteq> None"

definition outstanding :: "string \<Rightarrow> string \<Rightarrow> steer_store \<Rightarrow> nat" where
  "outstanding owner rid st =
     count_where (\<lambda>s. of_run owner rid s \<and> sr_state s \<in> {Accepted, Staged}) (ss_steers st)"

text \<open>The run row of an admission: its next number, and the runs with that number spent.\<close>

definition take_seq :: "string \<Rightarrow> string \<Rightarrow> string option \<Rightarrow> string option \<Rightarrow> string option
    \<Rightarrow> run list \<Rightarrow> int \<times> run list" where
  "take_seq owner rid orig resolved epoch runs =
     (case get_by run_key (owner, rid) runs of
        None \<Rightarrow> (1, runs @ [(new_run owner rid orig resolved epoch)\<lparr>rn_next := 2\<rparr>])
      | Some r \<Rightarrow> (rn_next r, upd_where (\<lambda>x. run_key x = (owner, rid))
                     (\<lambda>x. x\<lparr>rn_next := rn_next r + 1\<rparr>) runs))"

definition new_steer :: "(string \<Rightarrow> string) \<Rightarrow> time \<Rightarrow> string \<Rightarrow> string \<Rightarrow> string \<Rightarrow> string \<Rightarrow> int
    \<Rightarrow> steer_state \<Rightarrow> string option \<Rightarrow> steer" where
  "new_steer sha now owner rid key inp seq state err =
     \<lparr>sr_id = derive_steer_id sha owner rid key, sr_owner = owner, sr_run = rid, sr_key = key,
      sr_digest = sha inp, sr_input = inp, sr_seq = seq, sr_state = state, sr_batch = None,
      sr_row = None, sr_error = err, sr_created = now, sr_updated = now\<rparr>"

text \<open>The insert both admissions end in; a clash of derived ids raises.\<close>

definition insert_steer :: "steer \<Rightarrow> run list \<Rightarrow> steer_store \<Rightarrow> (steer_error + steer) \<times> steer_store" where
  "insert_steer s runs st =
     (if get_by sr_id (sr_id s) (ss_steers st) \<noteq> None then (Inl Integrity, st)
      else (Inr s, st\<lparr>ss_runs := runs, ss_steers := ss_steers st @ [s]\<rparr>))"

definition run_closed :: "string \<Rightarrow> string \<Rightarrow> steer_store \<Rightarrow> run option" where
  "run_closed owner rid st = (case get_run owner rid st of
     None \<Rightarrow> None | Some r \<Rightarrow> if rn_reason r \<noteq> None then Some r else None)"

definition admit :: "(string \<Rightarrow> string) \<Rightarrow> time \<Rightarrow> string \<Rightarrow> string \<Rightarrow> string \<Rightarrow> string
    \<Rightarrow> string option \<Rightarrow> string option \<Rightarrow> string option
    \<Rightarrow> steer_store \<Rightarrow> (steer_error + admit_result) \<times> steer_store" where
  "admit sha now owner rid key inp orig resolved epoch st =
     (if is_purged owner rid key st
      then (Inr (Expired (derive_steer_id sha owner rid key)), st)
      else case get_by steer_key (owner, rid, key) (ss_steers st) of
        Some hit \<Rightarrow> (Inr (if sr_digest hit \<noteq> sha inp then Conflict hit else Duplicate hit), st)
      | None \<Rightarrow>
          (case run_closed owner rid st of
             Some r \<Rightarrow> (Inr (Closed r), st)
           | None \<Rightarrow>
               if outstanding owner rid st \<ge> OUTSTANDING_LIMIT
               then (Inr (QueueFull (outstanding owner rid st)), st)
               else (let (seq, runs) = take_seq owner rid orig resolved epoch (ss_runs st);
                         (res, st') = insert_steer
                           (new_steer sha now owner rid key inp seq Accepted None) runs st
                     in (map_sum id Admitted res, st'))))"

datatype gate = GateOpen | GateExpired | GateClosed

definition handoff_gate :: "string \<Rightarrow> string \<Rightarrow> string \<Rightarrow> steer_store \<Rightarrow> gate" where
  "handoff_gate owner rid key st =
     (if is_purged owner rid key st then GateExpired
      else if run_closed owner rid st \<noteq> None then GateClosed else GateOpen)"

definition record_handoff :: "(string \<Rightarrow> string) \<Rightarrow> time \<Rightarrow> string \<Rightarrow> string \<Rightarrow> string \<Rightarrow> string
    \<Rightarrow> string option \<Rightarrow> string option \<Rightarrow> string option
    \<Rightarrow> steer_store \<Rightarrow> (steer_error + steer) \<times> steer_store" where
  "record_handoff sha now owner rid key inp orig resolved epoch st =
     (case get_by steer_key (owner, rid, key) (ss_steers st) of
        Some hit \<Rightarrow> (Inr hit, st)
      | None \<Rightarrow> (let (seq, runs) = take_seq owner rid orig resolved epoch (ss_runs st)
                in insert_steer (new_steer sha now owner rid key inp seq OutcomeUnknown
                     (Some HANDOFF_ERROR)) runs st))"

section \<open>Reads\<close>

definition list_steers :: "string \<Rightarrow> string \<Rightarrow> int \<Rightarrow> nat \<Rightarrow> steer_store \<Rightarrow> steer list \<times> bool" where
  "list_steers owner rid after limit st =
     (let rows = take (limit + 1) (sort_key sr_seq
                   (filter (\<lambda>s. of_run owner rid s \<and> sr_seq s > after) (ss_steers st)))
      in (take limit rows, length rows > limit))"

definition get_steer :: "string \<Rightarrow> string \<Rightarrow> string \<Rightarrow> steer_store \<Rightarrow> steer option" where
  "get_steer owner rid sid st =
     first_where (\<lambda>s. of_run owner rid s \<and> sr_id s = sid) (ss_steers st)"

definition staged_batches :: "steer_store \<Rightarrow> steer_batch list" where
  "staged_batches st = sort_key sb_created (filter (\<lambda>b. sb_state b = Staged) (ss_batches st))"

definition accepted_runs :: "steer_store \<Rightarrow> (string \<times> string) list" where
  "accepted_runs st = remdups (map (\<lambda>s. (sr_owner s, sr_run s))
     (filter (\<lambda>s. sr_state s = Accepted) (ss_steers st)))"

section \<open>Batches\<close>

definition accepted_of :: "string \<Rightarrow> string \<Rightarrow> steer_store \<Rightarrow> steer list" where
  "accepted_of owner rid st = sort_key sr_seq
     (filter (\<lambda>s. of_run owner rid s \<and> sr_state s = Accepted) (ss_steers st))"

definition claim_batch :: "time \<Rightarrow> string \<Rightarrow> string \<Rightarrow> string \<Rightarrow> steer_store
    \<Rightarrow> (steer_error + steer list option) \<times> steer_store" where
  "claim_batch now owner rid bid st =
     (case get_run owner rid st of
        None \<Rightarrow> (Inr None, st)
      | Some r \<Rightarrow>
          if rn_reason r \<noteq> None then (Inr None, st)
          else if accepted_of owner rid st = [] then (Inr None, st)
          else if get_by sb_id bid (ss_batches st) \<noteq> None then (Inl Integrity, st)
          else (Inr (Some (accepted_of owner rid st)), st\<lparr>
            ss_steers := upd_where (\<lambda>s. of_run owner rid s \<and> sr_state s = Accepted)
              (\<lambda>s. s\<lparr>sr_state := Staged, sr_batch := Some bid, sr_updated := now\<rparr>) (ss_steers st),
            ss_batches := ss_batches st @ [\<lparr>sb_id = bid, sb_owner = owner, sb_run = rid,
              sb_ids = map sr_id (accepted_of owner rid st), sb_state = Staged, sb_row = None,
              sb_created = now\<rparr>]\<rparr>))"

definition confirm_batch :: "time \<Rightarrow> string \<Rightarrow> string \<Rightarrow> steer_store \<Rightarrow> steer_store" where
  "confirm_batch now bid row st =
     (case get_by sb_id bid (ss_batches st) of
        None \<Rightarrow> st
      | Some b \<Rightarrow> if sb_state b = Delivered then st
          else st\<lparr>ss_batches := upd_where (\<lambda>x. sb_id x = bid)
                    (\<lambda>x. x\<lparr>sb_state := Delivered, sb_row := Some row\<rparr>) (ss_batches st),
                  ss_steers := upd_where (\<lambda>s. sr_batch s = Some bid)
                    (\<lambda>s. s\<lparr>sr_state := Delivered, sr_row := Some row, sr_error := None,
                           sr_updated := now\<rparr>) (ss_steers st)\<rparr>)"

definition mark_outcome_unknown :: "time \<Rightarrow> string \<Rightarrow> string \<Rightarrow> steer_store \<Rightarrow> steer_store" where
  "mark_outcome_unknown now bid reason st =
     (case get_by sb_id bid (ss_batches st) of
        None \<Rightarrow> st
      | Some b \<Rightarrow> if sb_state b = Delivered then st
          else st\<lparr>ss_batches := upd_where (\<lambda>x. sb_id x = bid)
                    (\<lambda>x. x\<lparr>sb_state := OutcomeUnknown\<rparr>) (ss_batches st),
                  ss_steers := upd_where (\<lambda>s. sr_batch s = Some bid)
                    (\<lambda>s. s\<lparr>sr_state := OutcomeUnknown, sr_error := Some reason,
                           sr_updated := now\<rparr>) (ss_steers st)\<rparr>)"

section \<open>Retention\<close>

text \<open>\<open>INSERT OR REPLACE\<close> into \<open>purged_keys\<close>: an older row of the key gives way.\<close>

definition purge_key :: "time \<Rightarrow> steer \<Rightarrow> purged list \<Rightarrow> purged list" where
  "purge_key stamp s t = del_where (\<lambda>p. purged_key p = steer_key s) t
     @ [\<lparr>pk_owner = sr_owner s, pk_run = sr_run s, pk_key = sr_key s, pk_at = stamp\<rparr>]"

definition prune_run :: "time \<Rightarrow> run \<Rightarrow> nat \<times> steer_store \<Rightarrow> nat \<times> steer_store" where
  "prune_run stamp r acc =
     (let (removed, st) = acc;
          rows = filter (of_run (rn_owner r) (rn_id r)) (ss_steers st)
      in (removed + length rows, st\<lparr>
            ss_purged := fold (purge_key stamp) rows (ss_purged st),
            ss_steers := del_where (of_run (rn_owner r) (rn_id r)) (ss_steers st),
            ss_batches := del_where (\<lambda>b. sb_owner b = rn_owner r \<and> sb_run b = rn_id r)
                            (ss_batches st)\<rparr>))"

definition expired_run :: "time \<Rightarrow> run \<Rightarrow> bool" where
  "expired_run cutoff r \<longleftrightarrow> rn_reason r \<noteq> None
     \<and> (case rn_closed r of None \<Rightarrow> False | Some c \<Rightarrow> c < cutoff)"

definition prune_expired :: "time \<Rightarrow> time \<Rightarrow> steer_store \<Rightarrow> nat \<times> steer_store" where
  "prune_expired now stamp st =
     fold (prune_run stamp) (filter (expired_run (now - RECEIPT_TTL_SECONDS)) (ss_runs st)) (0, st)"

section \<open>The wire receipt\<close>

record steer_receipt =
  rc_steer :: string
  rc_run :: string
  rc_seq :: int
  rc_state :: steer_state
  rc_key :: string
  rc_batch :: "string option"
  rc_row :: "string option"
  rc_error :: "string option"
  rc_epoch :: "string option"

definition present :: "string option \<Rightarrow> string option" where
  "present v = (case v of Some x \<Rightarrow> if x = [] then None else Some x | None \<Rightarrow> None)"

definition receipt_of :: "steer \<Rightarrow> string option \<Rightarrow> steer_receipt" where
  "receipt_of s epoch = \<lparr>rc_steer = sr_id s, rc_run = sr_run s, rc_seq = sr_seq s,
     rc_state = sr_state s, rc_key = sr_key s, rc_batch = present (sr_batch s),
     rc_row = present (sr_row s), rc_error = present (sr_error s), rc_epoch = epoch\<rparr>"

section \<open>Histories\<close>

datatype steer_op =
    RegisterRun string string "string option" "string option" "string option"
  | SealRun time string string string
  | Admit time string string string string "string option" "string option" "string option"
  | RecordHandoff time string string string string "string option" "string option" "string option"
  | ClaimBatch time string string string
  | ConfirmBatch time string string
  | MarkUnknown time string string
  | Prune time time

fun steer_step :: "(string \<Rightarrow> string) \<Rightarrow> steer_op \<Rightarrow> steer_store \<Rightarrow> steer_store" where
  "steer_step sha (RegisterRun ow rid og rs ep) st = snd (register_run ow rid og rs ep st)"
| "steer_step sha (SealRun now ow rid reason) st = snd (seal_run now ow rid reason st)"
| "steer_step sha (Admit now ow rid key inp og rs ep) st =
     snd (admit sha now ow rid key inp og rs ep st)"
| "steer_step sha (RecordHandoff now ow rid key inp og rs ep) st =
     snd (record_handoff sha now ow rid key inp og rs ep st)"
| "steer_step sha (ClaimBatch now ow rid bid) st = snd (claim_batch now ow rid bid st)"
| "steer_step sha (ConfirmBatch now bid row) st = confirm_batch now bid row st"
| "steer_step sha (MarkUnknown now bid reason) st = mark_outcome_unknown now bid reason st"
| "steer_step sha (Prune now stamp) st = snd (prune_expired now stamp st)"

section \<open>Well-formedness\<close>

definition keys_wf :: "steer_store \<Rightarrow> bool" where
  "keys_wf st \<longleftrightarrow> distinct (map sr_id (ss_steers st)) \<and> distinct (map steer_key (ss_steers st))
     \<and> distinct (map run_key (ss_runs st)) \<and> distinct (map sb_id (ss_batches st))"

definition seq_wf :: "steer_store \<Rightarrow> bool" where
  "seq_wf st \<longleftrightarrow> distinct (map (\<lambda>s. (sr_owner s, sr_run s, sr_seq s)) (ss_steers st))
     \<and> (\<forall>r \<in> set (ss_runs st). 1 \<le> rn_next r)
     \<and> (\<forall>s \<in> set (ss_steers st). 1 \<le> sr_seq s \<and>
          (\<exists>r \<in> set (ss_runs st). run_key r = (sr_owner s, sr_run s) \<and> sr_seq s < rn_next r))"

definition linked :: "steer_batch list \<Rightarrow> steer \<Rightarrow> bool" where
  "linked bs s \<longleftrightarrow> (case sr_batch s of
     None \<Rightarrow> sr_state s \<in> {Accepted, NotDelivered, OutcomeUnknown} \<and> sr_row s = None
   | Some b \<Rightarrow> \<exists>x \<in> set bs. sb_id x = b \<and> sb_owner x = sr_owner s \<and> sb_run x = sr_run s
               \<and> sb_state x = sr_state s \<and> sr_id s \<in> set (sb_ids x) \<and> sb_row x = sr_row s)"

definition batch_ok :: "steer_batch \<Rightarrow> bool" where
  "batch_ok b \<longleftrightarrow> sb_state b \<in> {Staged, Delivered, OutcomeUnknown}
     \<and> (sb_state b = Delivered \<longleftrightarrow> sb_row b \<noteq> None)"

definition link_wf :: "steer_store \<Rightarrow> bool" where
  "link_wf st \<longleftrightarrow> (\<forall>s \<in> set (ss_steers st). linked (ss_batches st) s)
     \<and> (\<forall>b \<in> set (ss_batches st). batch_ok b)"

lemma link_wf_upd:
  assumes "\<And>s. s \<in> set t \<Longrightarrow> P s \<Longrightarrow> linked (ss_batches st) (f s)"
    and "\<And>s. s \<in> set t \<Longrightarrow> \<not> P s \<Longrightarrow> linked (ss_batches st) s"
    and "\<forall>b \<in> set (ss_batches st). batch_ok b"
  shows "link_wf (st\<lparr>ss_steers := upd_where P f t\<rparr>)"
  using assms by (auto simp: link_wf_def set_upd_where)

definition closed_wf :: "steer_store \<Rightarrow> bool" where
  "closed_wf st \<longleftrightarrow> (\<forall>r \<in> set (ss_runs st). \<forall>s \<in> set (ss_steers st).
     rn_reason r \<noteq> None \<longrightarrow> run_key r = (sr_owner s, sr_run s) \<longrightarrow> sr_state s \<noteq> Accepted)"

definition fifo_wf :: "steer_store \<Rightarrow> bool" where
  "fifo_wf st \<longleftrightarrow> (\<forall>s \<in> set (ss_steers st). \<forall>s' \<in> set (ss_steers st).
     sr_owner s = sr_owner s' \<longrightarrow> sr_run s = sr_run s' \<longrightarrow> sr_batch s \<noteq> None \<longrightarrow>
     sr_state s' = Accepted \<longrightarrow> sr_seq s < sr_seq s')"

definition bound_wf :: "steer_store \<Rightarrow> bool" where
  "bound_wf st \<longleftrightarrow> (\<forall>owner rid. outstanding owner rid st \<le> OUTSTANDING_LIMIT)"

definition steer_wf :: "steer_store \<Rightarrow> bool" where
  "steer_wf st \<longleftrightarrow> keys_wf st \<and> seq_wf st \<and> link_wf st \<and> closed_wf st \<and> fifo_wf st \<and> bound_wf st"

lemmas steer_parts = keys_wf_def seq_wf_def link_wf_def closed_wf_def fifo_wf_def bound_wf_def
lemmas steer_wf_defs = steer_wf_def steer_parts

lemma steer_wf_empty: "steer_wf steer_empty"
  by (simp add: steer_wf_defs steer_empty_def outstanding_def count_where_def)

text \<open>The runs only grow: every run is still there, with a number at least as high.\<close>

definition runs_le :: "run list \<Rightarrow> run list \<Rightarrow> bool" where
  "runs_le rs rs' \<longleftrightarrow>
     (\<forall>r \<in> set rs. \<exists>r' \<in> set rs'. run_key r' = run_key r \<and> rn_next r \<le> rn_next r')"

lemma runs_leD: "runs_le rs rs' \<Longrightarrow> r \<in> set rs \<Longrightarrow>
   \<exists>r' \<in> set rs'. run_key r' = run_key r \<and> rn_next r \<le> rn_next r'"
  by (simp add: runs_le_def)

lemma runs_le_append: "runs_le rs (rs @ xs)"
  unfolding runs_le_def by (intro ballI) (rule bexI, auto)

lemma runs_le_upd:
  assumes "\<And>r. r \<in> set rs \<Longrightarrow> P r \<Longrightarrow> run_key (f r) = run_key r \<and> rn_next r \<le> rn_next (f r)"
  shows "runs_le rs (upd_where P f rs)"
  unfolding runs_le_def
proof
  fix r assume r: "r \<in> set rs"
  then have "(if P r then f r else r) \<in> set (upd_where P f rs)" by (simp add: set_upd_where)
  with assms [OF r] show "\<exists>r' \<in> set (upd_where P f rs). run_key r' = run_key r \<and> rn_next r \<le> rn_next r'"
    by (intro bexI [where x = "if P r then f r else r"]) auto
qed

text \<open>
  An update of some steers that keeps identity and numbering and only retires outstanding ones,
  with runs and batches changed in step, keeps well-formedness.
\<close>

lemma outstanding_upd_mono:
  assumes "\<And>s. P s \<Longrightarrow> sr_owner (f s) = sr_owner s \<and> sr_run (f s) = sr_run s
      \<and> (sr_state (f s) \<in> {Accepted, Staged} \<longrightarrow> sr_state s \<in> {Accepted, Staged})"
  shows "outstanding owner rid (st\<lparr>ss_steers := upd_where P f (ss_steers st)\<rparr>) \<le> outstanding owner rid st"
  unfolding outstanding_def using assms by (auto intro!: count_where_upd_mono)

lemma outstanding_cong:
  "ss_steers st' = ss_steers st \<Longrightarrow> outstanding owner rid st' = outstanding owner rid st"
  by (simp add: outstanding_def)

lemma steers_upd_wf:
  fixes f :: "steer \<Rightarrow> steer"
  assumes wf: "steer_wf st"
    and steers: "ss_steers st' = upd_where P f (ss_steers st)"
    and same: "\<And>s. P s \<Longrightarrow> sr_id (f s) = sr_id s \<and> steer_key (f s) = steer_key s \<and> sr_seq (f s) = sr_seq s"
    and retire: "\<And>s. s \<in> set (ss_steers st) \<Longrightarrow> P s \<Longrightarrow> sr_state (f s) \<noteq> Accepted
      \<and> (sr_state (f s) = Staged \<longrightarrow> sr_state s \<in> {Accepted, Staged})"
    and runs: "distinct (map run_key (ss_runs st'))" "\<forall>r \<in> set (ss_runs st'). 1 \<le> rn_next r"
      "runs_le (ss_runs st) (ss_runs st')"
    and closed: "closed_wf st'" and batches: "distinct (map sb_id (ss_batches st'))"
    and link: "link_wf st'"
    and fifo: "\<And>s s'. s \<in> set (ss_steers st) \<Longrightarrow> s' \<in> set (ss_steers st) \<Longrightarrow> P s \<Longrightarrow> \<not> P s' \<Longrightarrow>
      sr_owner s = sr_owner s' \<Longrightarrow> sr_run s = sr_run s' \<Longrightarrow> sr_batch (f s) \<noteq> None \<Longrightarrow>
      sr_state s' = Accepted \<Longrightarrow> sr_seq s < sr_seq s'"
  shows "steer_wf st'"
proof -
  have ids: "map sr_id (ss_steers st') = map sr_id (ss_steers st)"
    "map steer_key (ss_steers st') = map steer_key (ss_steers st)"
    "map (\<lambda>s. (sr_owner s, sr_run s, sr_seq s)) (ss_steers st')
       = map (\<lambda>s. (sr_owner s, sr_run s, sr_seq s)) (ss_steers st)"
    unfolding steers using same by (auto intro!: map_upd_where)
  then have "keys_wf st'" using wf runs(1) batches by (simp add: steer_wf_defs)
  moreover have "seq_wf st'"
  proof -
    have "1 \<le> sr_seq s \<and> (\<exists>r \<in> set (ss_runs st'). run_key r = (sr_owner s, sr_run s) \<and> sr_seq s < rn_next r)"
      if "s \<in> set (ss_steers st')" for s
    proof -
      from that steers obtain s0 where s0: "s0 \<in> set (ss_steers st)" "s = (if P s0 then f s0 else s0)"
        by (auto simp: set_upd_where)
      then have eq: "sr_owner s = sr_owner s0" "sr_run s = sr_run s0" "sr_seq s = sr_seq s0"
        using same by auto
      from wf s0(1) obtain r where "r \<in> set (ss_runs st)" "run_key r = (sr_owner s0, sr_run s0)"
        "sr_seq s0 < rn_next r" "1 \<le> sr_seq s0" by (auto simp: steer_wf_defs)
      with runs_leD [OF runs(3), of r] eq show ?thesis by fastforce
    qed
    then show ?thesis using wf ids runs(2) by (simp add: steer_wf_defs)
  qed
  moreover have "fifo_wf st'"
  proof -
    have "sr_seq u < sr_seq u'" if "u \<in> set (ss_steers st')" "u' \<in> set (ss_steers st')"
      "sr_owner u = sr_owner u'" "sr_run u = sr_run u'" "sr_batch u \<noteq> None" "sr_state u' = Accepted" for u u'
    proof -
      from that(1,2) steers obtain s s' where s: "s \<in> set (ss_steers st)" "u = (if P s then f s else s)"
        and s': "s' \<in> set (ss_steers st)" "u' = (if P s' then f s' else s')"
        by (auto simp: set_upd_where)
      from s' that(6) retire [of s'] have np: "\<not> P s'" "u' = s'" by (auto split: if_splits)
      show ?thesis
      proof (cases "P s")
        case True
        with fifo [OF s(1) s'(1) True np(1)] s(2) np that same [of s] show ?thesis by auto
      next
        case False
        with wf s s' np that show ?thesis by (simp add: steer_wf_defs)
      qed
    qed
    then show ?thesis unfolding fifo_wf_def by blast
  qed
  moreover have "bound_wf st'"
  proof -
    have "outstanding owner rid st' \<le> outstanding owner rid st" for owner rid
    proof -
      have "count_where (\<lambda>s. of_run owner rid s \<and> sr_state s \<in> {Accepted, Staged}) (upd_where P f t)
         \<le> count_where (\<lambda>s. of_run owner rid s \<and> sr_state s \<in> {Accepted, Staged}) t"
        if "set t \<subseteq> set (ss_steers st)" for t
        using that
      proof (induction t)
        case Nil
        then show ?case by (simp add: table_simps)
      next
        case (Cons s t)
        with retire [of s] same [of s] show ?case by (auto simp: table_simps)
      qed
      then show ?thesis by (simp add: outstanding_def steers)
    qed
    with wf show ?thesis unfolding steer_wf_def bound_wf_def by (meson order_trans)
  qed
  ultimately show ?thesis using closed link by (simp add: steer_wf_def)
qed

lemma accepted_unbatched:
  "link_wf st \<Longrightarrow> s \<in> set (ss_steers st) \<Longrightarrow> sr_state s = Accepted \<Longrightarrow>
   sr_batch s = None \<and> sr_row s = None"
  unfolding link_wf_def
proof (erule conjE)
  assume s: "s \<in> set (ss_steers st)" "sr_state s = Accepted"
    and linked: "\<forall>s \<in> set (ss_steers st). linked (ss_batches st) s"
    and states: "\<forall>b \<in> set (ss_batches st). batch_ok b"
  show ?thesis
  proof (cases "sr_batch s")
    case None
    with s linked show ?thesis by (auto simp: linked_def)
  next
    case (Some b)
    moreover have "linked (ss_batches st) s" using s linked by blast
    ultimately obtain x where "x \<in> set (ss_batches st)" "sb_state x = Accepted"
      using s by (auto simp: linked_def)
    with states show ?thesis by (auto simp: batch_ok_def)
  qed
qed

lemma linked_mono:
  "linked bs s \<Longrightarrow> (\<And>x. x \<in> set bs \<Longrightarrow> sr_batch s = Some (sb_id x) \<Longrightarrow> x \<in> set bs') \<Longrightarrow> linked bs' s"
  by (auto simp: linked_def split: option.splits)

lemma get_run_None: "get_run owner rid st = None \<longleftrightarrow> (owner, rid) \<notin> run_key ` set (ss_runs st)"
  by (simp add: get_run_def get_by_None)

lemma wf_register_run:
  assumes wf: "steer_wf st" shows "steer_wf (snd (register_run ow rid og rs ep st))"
proof -
  define runs where "runs = ss_runs (snd (register_run ow rid og rs ep st))"
  have st': "snd (register_run ow rid og rs ep st) = st\<lparr>ss_runs := runs\<rparr>"
    by (auto simp: register_run_def Let_def runs_def split: option.splits)
  have closed: "closed_wf (st\<lparr>ss_runs := runs\<rparr>)"
    using wf by (auto simp: register_run_def Let_def runs_def closed_wf_def steer_wf_def new_run_def
        set_upd_where split: option.splits)
  have keys: "distinct (map run_key runs)"
    using wf by (auto simp: register_run_def Let_def runs_def steer_wf_defs new_run_def
        get_run_None map_upd_where split: option.splits)
  have pos: "\<forall>r \<in> set runs. 1 \<le> rn_next r"
    using wf by (auto simp: register_run_def Let_def runs_def steer_wf_defs new_run_def
        set_upd_where split: option.splits)
  have mono: "runs_le (ss_runs st) runs"
    by (auto simp: register_run_def Let_def runs_def split: option.splits
        intro: runs_le_append runs_le_upd)
  show ?thesis unfolding st'
    by (rule steers_upd_wf [OF wf, of _ "\<lambda>_. False" id])
      (use wf keys pos mono closed in \<open>auto simp: upd_where_id steer_wf_defs\<close>)
qed

lemma wf_seal_run:
  assumes wf: "steer_wf st" shows "steer_wf (snd (seal_run now ow rid reason st))"
proof -
  let ?hit = "\<lambda>s. of_run ow rid s \<and> sr_state s = Accepted"
  let ?f = "\<lambda>s. s\<lparr>sr_state := NotDelivered, sr_error := Some reason, sr_updated := now\<rparr>"
  define runs where "runs = ss_runs (snd (seal_run now ow rid reason st))"
  have st': "snd (seal_run now ow rid reason st)
      = st\<lparr>ss_runs := runs, ss_steers := upd_where ?hit ?f (ss_steers st)\<rparr>" (is "_ = ?st'")
    by (auto simp: seal_run_def Let_def runs_def)
  have reasons: "\<exists>r0 \<in> set (ss_runs st). run_key r0 = run_key r \<and> rn_reason r0 \<noteq> None"
    if "r \<in> set runs" "rn_reason r \<noteq> None" "run_key r \<noteq> (ow, rid)" for r
    using that by (force simp: seal_run_def Let_def runs_def set_upd_where new_run_def
        split: option.splits)
  have closed: "closed_wf ?st'"
    unfolding closed_wf_def
  proof (intro ballI impI)
    fix r s assume r: "r \<in> set (ss_runs ?st')" "rn_reason r \<noteq> None"
      and s: "s \<in> set (ss_steers ?st')" "run_key r = (sr_owner s, sr_run s)"
    show "sr_state s \<noteq> Accepted"
    proof (cases "run_key r = (ow, rid)")
      case True
      with s have hit: "of_run ow rid s" by simp
      from s obtain s0 where "s0 \<in> set (ss_steers st)" "s = (if ?hit s0 then ?f s0 else s0)"
        by (auto simp: set_upd_where)
      with hit show ?thesis by (cases "?hit s0") auto
    next
      case False
      with reasons r obtain r0 where "r0 \<in> set (ss_runs st)" "run_key r0 = run_key r" "rn_reason r0 \<noteq> None"
        by auto
      with wf s False show ?thesis by (auto simp: steer_wf_def closed_wf_def set_upd_where)
    qed
  qed
  have keys: "distinct (map run_key runs)"
    using wf by (auto simp: seal_run_def Let_def runs_def steer_wf_defs new_run_def
        get_run_None map_upd_where split: option.splits)
  have pos: "\<forall>r \<in> set runs. 1 \<le> rn_next r"
    using wf by (auto simp: seal_run_def Let_def runs_def steer_wf_defs new_run_def
        set_upd_where split: option.splits)
  have mono: "runs_le (ss_runs st) runs"
    by (auto simp: seal_run_def Let_def runs_def split: option.splits
        intro: runs_le_append runs_le_upd)
  have link: "link_wf ?st'"
  proof -
    have "linked (ss_batches st) (?f s)" if "s \<in> set (ss_steers st)" "?hit s" for s
      using accepted_unbatched [of st s] that wf by (simp add: linked_def steer_wf_def)
    then have "link_wf ((st\<lparr>ss_runs := runs\<rparr>)\<lparr>ss_steers := upd_where ?hit ?f (ss_steers st)\<rparr>)"
      using wf by (intro link_wf_upd) (auto simp: steer_wf_def link_wf_def)
    then show ?thesis by simp
  qed
  have fifo: "sr_seq s < sr_seq s'" if "s \<in> set (ss_steers st)" "?hit s" "sr_batch (?f s) \<noteq> None" for s s'
    using that accepted_unbatched [of st s] wf by (simp add: steer_wf_def)
  show ?thesis unfolding st'
    by (rule steers_upd_wf [OF wf, of _ ?hit ?f])
      (use wf keys pos mono closed link fifo in \<open>auto simp: steer_wf_def keys_wf_def\<close>)
qed

lemma accepted_of_set:
  "set (accepted_of ow rid st) = {s \<in> set (ss_steers st). of_run ow rid s \<and> sr_state s = Accepted}"
  by (auto simp: accepted_of_def)

lemma wf_claim_batch:
  assumes wf: "steer_wf st" shows "steer_wf (snd (claim_batch now ow rid bid st))"
proof (cases "snd (claim_batch now ow rid bid st) = st")
  case True
  with wf show ?thesis by simp
next
  case False
  let ?hit = "\<lambda>s. of_run ow rid s \<and> sr_state s = Accepted"
  let ?f = "\<lambda>s. s\<lparr>sr_state := Staged, sr_batch := Some bid, sr_updated := now\<rparr>"
  define b where "b = \<lparr>sb_id = bid, sb_owner = ow, sb_run = rid, sb_ids = map sr_id (accepted_of ow rid st),
    sb_state = Staged, sb_row = None, sb_created = now\<rparr>"
  from False have st': "snd (claim_batch now ow rid bid st)
      = st\<lparr>ss_steers := upd_where ?hit ?f (ss_steers st), ss_batches := ss_batches st @ [b]\<rparr>" (is "_ = ?st'")
    and free: "bid \<notin> sb_id ` set (ss_batches st)"
    by (auto simp: claim_batch_def b_def get_by_None split: option.splits if_splits)
  have "linked (ss_batches st @ [b]) (?f s)" if "s \<in> set (ss_steers st)" "?hit s" for s
    using that accepted_unbatched [of st s] wf accepted_of_set [of ow rid st]
    by (auto simp: linked_def b_def steer_wf_def)
  moreover have "linked (ss_batches st @ [b]) s" if "s \<in> set (ss_steers st)" for s
    using that wf by (auto simp: steer_wf_def link_wf_def intro: linked_mono)
  ultimately have "link_wf ((st\<lparr>ss_batches := ss_batches st @ [b]\<rparr>)
      \<lparr>ss_steers := upd_where ?hit ?f (ss_steers st)\<rparr>)"
    using wf by (intro link_wf_upd) (auto simp: steer_wf_def link_wf_def b_def batch_ok_def)
  then have link: "link_wf ?st'" by (simp add: link_wf_def)
  have closed: "closed_wf ?st'"
    using wf by (auto simp: steer_wf_def closed_wf_def set_upd_where)
  show ?thesis unfolding st'
    by (rule steers_upd_wf [OF wf, of _ ?hit ?f])
      (use wf closed link free in \<open>auto simp: steer_wf_def keys_wf_def seq_wf_def b_def runs_le_def\<close>)
qed

text \<open>Both settlements of a batch move its row and its steers together.\<close>

lemma wf_settle:
  assumes wf: "steer_wf st" and b: "b \<in> set (ss_batches st)" "sb_id b = bid" "sb_state b \<noteq> Delivered"
    and g: "\<And>x. sb_id (g x) = sb_id x \<and> sb_owner (g x) = sb_owner x \<and> sb_run (g x) = sb_run x
        \<and> sb_ids (g x) = sb_ids x"
    and f: "\<And>s. sr_id (f s) = sr_id s \<and> steer_key (f s) = steer_key s \<and> sr_seq (f s) = sr_seq s
        \<and> sr_batch (f s) = sr_batch s"
    and stage: "\<And>x s. sb_state x \<noteq> Delivered \<Longrightarrow> sb_row x = None \<Longrightarrow> sr_row s = None \<Longrightarrow>
        sb_state (g x) \<in> {Delivered, OutcomeUnknown} \<and> (sb_state (g x) = Delivered \<longleftrightarrow> sb_row (g x) \<noteq> None)
        \<and> sr_state (f s) = sb_state (g x) \<and> sr_row (f s) = sb_row (g x)"
  shows "steer_wf (st\<lparr>ss_batches := upd_where (\<lambda>x. sb_id x = bid) g (ss_batches st),
      ss_steers := upd_where (\<lambda>s. sr_batch s = Some bid) f (ss_steers st)\<rparr>)" (is "steer_wf ?st'")
proof -
  have only: "x = b" if "x \<in> set (ss_batches st)" "sb_id x = bid" for x
    using wf b that distinct_key_inj [of sb_id "ss_batches st" x b] by (simp add: steer_wf_def keys_wf_def)
  have row: "sb_row b = None" using wf b by (auto simp: steer_wf_def link_wf_def batch_ok_def)
  have mem: "linked (ss_batches st) s" if "s \<in> set (ss_steers st)" for s
    using wf that by (simp add: steer_wf_def link_wf_def)
  have srow: "sr_row s = None \<and> sb_owner b = sr_owner s \<and> sb_run b = sr_run s \<and> sr_id s \<in> set (sb_ids b)"
    if "s \<in> set (ss_steers st)" "sr_batch s = Some bid" for s
    using mem [OF that(1)] that(2) only row by (force simp: linked_def)
  let ?bs = "upd_where (\<lambda>x. sb_id x = bid) g (ss_batches st)"
  have gb: "g b \<in> set ?bs" using b by (intro upd_where_hit) auto
  have linked1: "linked ?bs (f s)" if "s \<in> set (ss_steers st)" "sr_batch s = Some bid" for s
    using that srow [OF that] gb b stage [of b s] row f [of s] g [of b] by (auto simp: linked_def)
  have linked2: "linked ?bs s" if "s \<in> set (ss_steers st)" "sr_batch s \<noteq> Some bid" for s
    by (rule linked_mono [OF mem [OF that(1)]]) (use that(2) in \<open>auto intro: upd_where_miss\<close>)
  have states: "batch_ok x" if "x \<in> set ?bs" for x
  proof -
    from that obtain y where y: "y \<in> set (ss_batches st)" "x = (if sb_id y = bid then g y else y)"
      by (auto simp: set_upd_where)
    show ?thesis
    proof (cases "sb_id y = bid")
      case True
      then have "y = b" using only y(1) by simp
      with y(2) True stage [of b "undefined\<lparr>sr_row := None\<rparr>"] b row show ?thesis
        by (auto simp: batch_ok_def)
    next
      case False
      with y wf show ?thesis by (auto simp: steer_wf_def link_wf_def)
    qed
  qed
  have "linked ?bs s" if "s \<in> set (upd_where (\<lambda>s. sr_batch s = Some bid) f (ss_steers st))" for s
    using that linked1 linked2 unfolding set_upd_where by auto
  then have link: "link_wf ?st'"
    using states by (simp add: link_wf_def)
  have fstate: "sr_state (f s) \<noteq> Accepted" "sr_state (f s) \<noteq> Staged"
    if "s \<in> set (ss_steers st)" "sr_batch s = Some bid" for s
    using stage [of b s] srow [OF that] row b by auto
  have closed: "closed_wf ?st'"
    using wf fstate f by (fastforce simp: steer_wf_def closed_wf_def set_upd_where)
  show ?thesis
  proof (rule steers_upd_wf [OF wf, of _ "\<lambda>s. sr_batch s = Some bid" f])
    show "distinct (map sb_id (ss_batches ?st'))"
      using wf g by (simp add: steer_wf_def keys_wf_def map_upd_where)
    show "sr_seq s < sr_seq s'" if "s \<in> set (ss_steers st)" "s' \<in> set (ss_steers st)"
      "sr_batch s = Some bid" "sr_owner s = sr_owner s'" "sr_run s = sr_run s'" "sr_state s' = Accepted" for s s'
      using wf that by (auto simp: steer_wf_def fifo_wf_def)
  qed (use wf link closed f fstate in \<open>auto simp: steer_wf_def keys_wf_def seq_wf_def runs_le_def\<close>)
qed

lemma wf_confirm_batch:
  assumes "steer_wf st" shows "steer_wf (confirm_batch now bid row st)"
  by (auto simp: confirm_batch_def assms split: option.splits dest!: get_by_SomeD
      intro!: wf_settle [OF assms])

lemma wf_mark_unknown:
  assumes "steer_wf st" shows "steer_wf (mark_outcome_unknown now bid reason st)"
  by (auto simp: mark_outcome_unknown_def assms split: option.splits dest!: get_by_SomeD
      intro!: wf_settle [OF assms])

lemma take_seq_facts:
  assumes t: "take_seq ow rid og rs ep runs = (seq, runs')" and keys: "distinct (map run_key runs)"
    and pos: "\<forall>r \<in> set runs. 1 \<le> rn_next r"
  shows "distinct (map run_key runs')" and "\<forall>r \<in> set runs'. 1 \<le> rn_next r" and "1 \<le> seq"
    and "runs_le runs runs'"
    and "\<exists>r \<in> set runs'. run_key r = (ow, rid) \<and> seq < rn_next r"
    and "\<And>r. r \<in> set runs \<Longrightarrow> run_key r = (ow, rid) \<Longrightarrow> rn_next r \<le> seq"
    and "\<And>r. r \<in> set runs' \<Longrightarrow> rn_reason r \<noteq> None \<Longrightarrow>
      \<exists>r0 \<in> set runs. run_key r0 = run_key r \<and> rn_reason r0 \<noteq> None"
proof -
  have "distinct (map run_key runs') \<and> (\<forall>r \<in> set runs'. 1 \<le> rn_next r) \<and> 1 \<le> seq \<and> runs_le runs runs'
    \<and> (\<exists>r \<in> set runs'. run_key r = (ow, rid) \<and> seq < rn_next r)
    \<and> (\<forall>r \<in> set runs. run_key r = (ow, rid) \<longrightarrow> rn_next r \<le> seq)
    \<and> (\<forall>r \<in> set runs'. rn_reason r \<noteq> None \<longrightarrow> (\<exists>r0 \<in> set runs. run_key r0 = run_key r \<and> rn_reason r0 \<noteq> None))"
  proof (cases "get_by run_key (ow, rid) runs")
    case None
    with t have eq: "seq = 1" "runs' = runs @ [(new_run ow rid og rs ep)\<lparr>rn_next := 2\<rparr>]"
      by (auto simp: take_seq_def)
    have fresh: "(ow, rid) \<notin> run_key ` set runs" using None by (simp add: get_by_None)
    then have none: "run_key r \<noteq> (ow, rid)" if "r \<in> set runs" for r using that by (auto simp: image_iff)
    show ?thesis
      unfolding eq using keys pos fresh none runs_le_append by (auto simp: new_run_def)
  next
    case (Some r)
    then have r: "r \<in> set runs" "run_key r = (ow, rid)" by (auto dest: get_by_SomeD)
    then have only: "x = r" if "x \<in> set runs" "run_key x = (ow, rid)" for x
      using that keys distinct_key_inj [of run_key runs x r] by simp
    let ?f = "\<lambda>x. x\<lparr>rn_next := rn_next r + 1\<rparr>"
    from Some t have eq: "seq = rn_next r" "runs' = upd_where (\<lambda>x. run_key x = (ow, rid)) ?f runs"
      by (auto simp: take_seq_def)
    have "?f r \<in> set runs'" unfolding eq by (rule upd_where_hit [OF r(1)]) (simp add: r(2))
    then have "\<exists>r' \<in> set runs'. run_key r' = (ow, rid) \<and> seq < rn_next r'"
      using r(2) eq(1) by (intro bexI [where x = "?f r"]) auto
    moreover have "distinct (map run_key runs')" unfolding eq using keys by (simp add: map_upd_where)
    moreover have "\<forall>r \<in> set runs'. 1 \<le> rn_next r" unfolding eq using pos r by (auto simp: set_upd_where)
    moreover have "runs_le runs runs'"
      unfolding eq by (rule runs_le_upd) (use only in force)
    moreover have "\<forall>x \<in> set runs'. rn_reason x \<noteq> None \<longrightarrow>
        (\<exists>r0 \<in> set runs. run_key r0 = run_key x \<and> rn_reason r0 \<noteq> None)"
      unfolding eq set_upd_where by auto
    moreover have "\<forall>x \<in> set runs. run_key x = (ow, rid) \<longrightarrow> rn_next x \<le> seq"
      using only eq(1) by blast
    ultimately show ?thesis using pos r eq(1) by blast
  qed
  then show "distinct (map run_key runs')" "\<forall>r \<in> set runs'. 1 \<le> rn_next r" "1 \<le> seq" "runs_le runs runs'"
    "\<exists>r \<in> set runs'. run_key r = (ow, rid) \<and> seq < rn_next r"
    "\<And>r. r \<in> set runs \<Longrightarrow> run_key r = (ow, rid) \<Longrightarrow> rn_next r \<le> seq"
    "\<And>r. r \<in> set runs' \<Longrightarrow> rn_reason r \<noteq> None \<Longrightarrow>
      \<exists>r0 \<in> set runs. run_key r0 = run_key r \<and> rn_reason r0 \<noteq> None"
    by blast+
qed

lemma wf_insert_steer:
  assumes wf: "steer_wf st" and t: "take_seq ow rid og rs ep (ss_runs st) = (seq, runs)"
    and s: "s = new_steer sha now ow rid key inp seq state err"
    and new: "get_by steer_key (ow, rid, key) (ss_steers st) = None"
    and state: "state = OutcomeUnknown \<or> (state = Accepted \<and> run_closed ow rid st = None
      \<and> outstanding ow rid st < OUTSTANDING_LIMIT)"
  shows "steer_wf (snd (insert_steer s runs st))"
proof (cases "get_by sr_id (sr_id s) (ss_steers st)")
  case (Some x)
  with wf show ?thesis by (simp add: insert_steer_def)
next
  case None
  then have st': "snd (insert_steer s runs st) = st\<lparr>ss_runs := runs, ss_steers := ss_steers st @ [s]\<rparr>" (is "_ = ?st'")
    by (simp add: insert_steer_def)
  have fields: "sr_owner s = ow" "sr_run s = rid" "sr_key s = key" "sr_seq s = seq"
    "sr_state s = state" "sr_batch s = None" "sr_row s = None"
    by (simp_all add: s new_steer_def)
  have rk: "distinct (map run_key (ss_runs st))" "\<forall>r \<in> set (ss_runs st). 1 \<le> rn_next r"
    using wf by (auto simp: steer_wf_def keys_wf_def seq_wf_def)
  note facts = take_seq_facts [OF t rk]
  have less: "sr_seq u < seq" if "u \<in> set (ss_steers st)" "sr_owner u = ow" "sr_run u = rid" for u
  proof -
    from wf that obtain r where "r \<in> set (ss_runs st)" "run_key r = (ow, rid)" "sr_seq u < rn_next r"
      unfolding steer_wf_def seq_wf_def by metis
    with facts(6) [of r] show ?thesis by simp
  qed
  have "keys_wf ?st'"
    using wf None new facts(1) fields by (auto simp: steer_wf_def keys_wf_def get_by_None)
  moreover have "seq_wf ?st'"
  proof -
    have "\<exists>r \<in> set runs. run_key r = (sr_owner u, sr_run u) \<and> sr_seq u < rn_next r"
      if "u \<in> set (ss_steers st)" for u
    proof -
      from wf that obtain r where "r \<in> set (ss_runs st)" "run_key r = (sr_owner u, sr_run u)"
        "sr_seq u < rn_next r" unfolding steer_wf_def seq_wf_def by metis
      with runs_leD [OF facts(4), of r] show ?thesis by fastforce
    qed
    moreover have "(ow, rid, seq) \<notin> (\<lambda>u. (sr_owner u, sr_run u, sr_seq u)) ` set (ss_steers st)"
      using less by force
    ultimately show ?thesis
      using wf facts(2,3,5) fields by (auto simp: steer_wf_def seq_wf_def)
  qed
  moreover have "link_wf ?st'"
    using wf fields state by (auto simp: steer_wf_def link_wf_def linked_def)
  moreover have "closed_wf ?st'"
  proof -
    have "sr_state s \<noteq> Accepted" if "r \<in> set runs" "rn_reason r \<noteq> None" "run_key r = (ow, rid)" for r
    proof -
      note key = that(3)
      from facts(7) [OF that(1,2)] obtain r0 where r0: "r0 \<in> set (ss_runs st)" "run_key r0 = (ow, rid)"
        "rn_reason r0 \<noteq> None" unfolding key by blast
      then have "get_run ow rid st = Some r0"
        using get_by_eq [OF rk(1) r0(1)] by (simp add: get_run_def)
      with r0(3) state fields show ?thesis by (auto simp: run_closed_def)
    qed
    moreover have "sr_state u \<noteq> Accepted" if "r \<in> set runs" "rn_reason r \<noteq> None"
      "u \<in> set (ss_steers st)" "run_key r = (sr_owner u, sr_run u)" for r u
    proof -
      from facts(7) [OF that(1,2)] obtain r0 where "r0 \<in> set (ss_runs st)" "run_key r0 = run_key r"
        "rn_reason r0 \<noteq> None" by blast
      with wf that show ?thesis unfolding steer_wf_def closed_wf_def by metis
    qed
    ultimately show ?thesis using fields by (auto simp: closed_wf_def)
  qed
  moreover have "fifo_wf ?st'"
    using wf fields less accepted_unbatched [of st] by (auto simp: steer_wf_def fifo_wf_def)
  moreover have "bound_wf ?st'"
  proof -
    have "outstanding o2 r2 ?st' = outstanding o2 r2 st + (if state = Accepted \<and> o2 = ow \<and> r2 = rid then 1 else 0)"
      for o2 r2 using state fields by (auto simp: outstanding_def table_simps)
    then show ?thesis using wf state by (auto simp: steer_wf_def bound_wf_def)
  qed
  ultimately show ?thesis unfolding st' by (simp add: steer_wf_def)
qed

text \<open>An admission either answers from what is stored, unchanged, or inserts one numbered row.\<close>

lemma admit_cases:
  obtains (unchanged) "snd (admit sha now ow rid key inp og rs ep st) = st"
      "\<And>x. fst (admit sha now ow rid key inp og rs ep st) \<noteq> Inr (Admitted x)"
  | (inserted) seq runs where "take_seq ow rid og rs ep (ss_runs st) = (seq, runs)"
      "admit sha now ow rid key inp og rs ep st = apfst (map_sum id Admitted)
         (insert_steer (new_steer sha now ow rid key inp seq Accepted None) runs st)"
      "get_by steer_key (ow, rid, key) (ss_steers st) = None" "\<not> is_purged ow rid key st"
      "run_closed ow rid st = None" "outstanding ow rid st < OUTSTANDING_LIMIT"
proof (cases "is_purged ow rid key st \<or> get_by steer_key (ow, rid, key) (ss_steers st) \<noteq> None
    \<or> run_closed ow rid st \<noteq> None \<or> outstanding ow rid st \<ge> OUTSTANDING_LIMIT")
  case True
  then show thesis by (intro unchanged) (auto simp: admit_def split: option.splits)
next
  case False
  obtain seq runs where "take_seq ow rid og rs ep (ss_runs st) = (seq, runs)" by fastforce
  with False show thesis
    by (intro inserted) (auto simp: admit_def apfst_def map_prod_def split: prod.splits)
qed

lemma wf_admit: "steer_wf st \<Longrightarrow> steer_wf (snd (admit sha now ow rid key inp og rs ep st))"
  by (rule admit_cases [of sha now ow rid key inp og rs ep st]) (auto intro: wf_insert_steer)

lemma wf_record_handoff:
  "steer_wf st \<Longrightarrow> steer_wf (snd (record_handoff sha now ow rid key inp og rs ep st))"
  by (auto simp: record_handoff_def split: option.splits prod.splits intro: wf_insert_steer)

lemma prune_run_frame: "ss_runs (snd (prune_run stamp r acc)) = ss_runs (snd acc)"
  by (simp add: prune_run_def Let_def split: prod.splits)

lemma wf_prune_run:
  assumes wf: "steer_wf (snd acc)" shows "steer_wf (snd (prune_run stamp r acc))"
proof -
  obtain n st where acc: "acc = (n, st)" by fastforce
  let ?P = "of_run (rn_owner r) (rn_id r)"
  let ?Q = "\<lambda>b. sb_owner b = rn_owner r \<and> sb_run b = rn_id r"
  define st' where "st' = snd (prune_run stamp r acc)"
  have sets: "ss_runs st' = ss_runs st" "ss_steers st' = del_where ?P (ss_steers st)"
    "ss_batches st' = del_where ?Q (ss_batches st)"
    by (simp_all add: st'_def acc prune_run_def Let_def)
  have "linked (del_where ?Q (ss_batches st)) s" if "s \<in> set (ss_steers st)" "\<not> ?P s" for s
  proof -
    have "linked (ss_batches st) s" using wf that(1) by (simp add: acc steer_wf_def link_wf_def)
    with that(2) show ?thesis by (auto simp: linked_def set_del_where split: option.splits)
  qed
  then have "link_wf st'" using wf by (auto simp: acc steer_wf_def link_wf_def sets set_del_where)
  moreover have "keys_wf st'" using wf
    by (auto simp: acc steer_wf_def keys_wf_def sets intro: distinct_map_del_where)
  moreover have "seq_wf st'" using wf
    by (auto simp: acc steer_wf_def seq_wf_def sets set_del_where intro: distinct_map_del_where)
  moreover have "closed_wf st'" "fifo_wf st'" using wf
    by (auto simp: acc steer_wf_def closed_wf_def fifo_wf_def sets set_del_where)
  moreover have "bound_wf st'"
  proof -
    have "outstanding ow rid st' \<le> outstanding ow rid st" for ow rid
      by (simp add: outstanding_def sets count_where_del)
    then show ?thesis using wf unfolding acc steer_wf_def bound_wf_def snd_conv by (meson order_trans)
  qed
  ultimately show ?thesis by (simp add: steer_wf_def st'_def)
qed

lemma fold_prune_run:
  assumes "\<And>r acc. Q (snd acc) \<Longrightarrow> Q (snd (prune_run stamp r acc))" and "Q (snd acc)"
  shows "Q (snd (fold (prune_run stamp) rs acc))"
  using assms(2)
proof (induction rs arbitrary: acc)
  case Nil
  then show ?case by simp
next
  case (Cons r rs)
  from Cons.IH [OF assms(1) [OF Cons.prems]] show ?case by simp
qed

lemma wf_prune_expired: "steer_wf st \<Longrightarrow> steer_wf (snd (prune_expired now stamp st))"
  unfolding prune_expired_def by (rule fold_prune_run) (auto intro: wf_prune_run)

lemma steer_wf_step: "steer_wf st \<Longrightarrow> steer_wf (steer_step sha op st)"
  by (cases op) (auto intro: wf_register_run wf_seal_run wf_admit wf_record_handoff wf_claim_batch
      wf_confirm_batch wf_mark_unknown wf_prune_expired)

section \<open>Idempotent admission and sealed runs\<close>

text \<open>A key is spent once a receipt or its tombstone exists; a run is sealed once it has a reason.\<close>

definition key_spent :: "string \<times> string \<times> string \<Rightarrow> steer_store \<Rightarrow> bool" where
  "key_spent k st \<longleftrightarrow> k \<in> steer_key ` set (ss_steers st) \<or> k \<in> purged_key ` set (ss_purged st)"

definition admit_wins :: "(string \<Rightarrow> string) \<Rightarrow> string \<times> string \<times> string \<Rightarrow> steer_op \<Rightarrow> steer_store \<Rightarrow> bool" where
  "admit_wins sha k op st \<longleftrightarrow> (case op of
     Admit now ow rid key inp og rs ep \<Rightarrow> k = (ow, rid, key) \<and>
       (case fst (admit sha now ow rid key inp og rs ep st) of
          Inr (Admitted _) \<Rightarrow> True | _ \<Rightarrow> False)
   | _ \<Rightarrow> False)"

definition run_sealed :: "string \<times> string \<Rightarrow> steer_store \<Rightarrow> bool" where
  "run_sealed k st \<longleftrightarrow> (\<exists>r \<in> set (ss_runs st). run_key r = k \<and> rn_reason r \<noteq> None)"

definition run_wins :: "(string \<Rightarrow> string) \<Rightarrow> string \<times> string \<Rightarrow> steer_op \<Rightarrow> steer_store \<Rightarrow> bool" where
  "run_wins sha k op st \<longleftrightarrow> (case op of
     Admit now ow rid key inp og rs ep \<Rightarrow> k = (ow, rid) \<and>
       (case fst (admit sha now ow rid key inp og rs ep st) of
          Inr (Admitted _) \<Rightarrow> True | _ \<Rightarrow> False)
   | ClaimBatch now ow rid bid \<Rightarrow> k = (ow, rid) \<and>
       (case fst (claim_batch now ow rid bid st) of Inr (Some _) \<Rightarrow> True | _ \<Rightarrow> False)
   | _ \<Rightarrow> False)"

lemma purge_keys_set:
  "purged_key ` set (fold (purge_key stamp) rows t) = purged_key ` set t \<union> steer_key ` set rows"
proof (induction rows arbitrary: t)
  case Nil
  then show ?case by simp
next
  case (Cons s rows)
  have "purged_key ` set (purge_key stamp s t) = insert (steer_key s) (purged_key ` set t)"
    by (auto simp: purge_key_def set_del_where)
  with Cons show ?case by auto
qed

lemma prune_run_tables:
  "ss_steers (snd (prune_run stamp r (n, st))) = del_where (of_run (rn_owner r) (rn_id r)) (ss_steers st)"
  "ss_purged (snd (prune_run stamp r (n, st)))
     = fold (purge_key stamp) (filter (of_run (rn_owner r) (rn_id r)) (ss_steers st)) (ss_purged st)"
  by (simp_all add: prune_run_def Let_def)

lemma key_spent_prune:
  assumes "key_spent k (snd acc)" shows "key_spent k (snd (prune_run stamp r acc))"
proof -
  obtain n st where acc: "acc = (n, st)" by fastforce
  consider s where "s \<in> set (ss_steers st)" "k = steer_key s" | "k \<in> purged_key ` set (ss_purged st)"
    using assms by (auto simp: key_spent_def acc)
  then show ?thesis
  proof cases
    case 1
    show ?thesis
    proof (cases "of_run (rn_owner r) (rn_id r) s")
      case True
      with 1 have "k \<in> steer_key ` set (filter (of_run (rn_owner r) (rn_id r)) (ss_steers st))" by simp
      then show ?thesis unfolding acc key_spent_def prune_run_tables purge_keys_set by (intro disjI2 UnI2)
    next
      case False
      with 1 have "s \<in> set (del_where (of_run (rn_owner r) (rn_id r)) (ss_steers st))"
        by (simp add: set_del_where)
      with 1 show ?thesis unfolding acc key_spent_def prune_run_tables by (intro disjI1) (rule image_eqI)
    qed
  next
    case 2
    then show ?thesis unfolding acc key_spent_def prune_run_tables purge_keys_set by (intro disjI2 UnI1)
  qed
qed

lemma steer_keys_upd:
  assumes "\<And>s. P s \<Longrightarrow> steer_key (f s) = steer_key s"
  shows "steer_key ` set (upd_where P f t) = steer_key ` set t"
proof -
  have "map steer_key (upd_where P f t) = map steer_key t"
    by (rule map_upd_where) (rule assms)
  from arg_cong [OF this, of set] show ?thesis by simp
qed

lemma key_spent_mono:
  "key_spent k st \<Longrightarrow> steer_key ` set (ss_steers st) \<subseteq> steer_key ` set (ss_steers st') \<Longrightarrow>
   ss_purged st' = ss_purged st \<Longrightarrow> key_spent k st'"
  by (auto simp: key_spent_def)

lemma insert_steer_frame:
  "ss_purged (snd (insert_steer s runs st)) = ss_purged st"
  "steer_key ` set (ss_steers st) \<subseteq> steer_key ` set (ss_steers (snd (insert_steer s runs st)))"
  by (auto simp: insert_steer_def)

lemma key_spent_step:
  assumes "key_spent k st" shows "key_spent k (steer_step sha op st)"
proof (cases op)
  case (Prune now stamp)
  show ?thesis
    unfolding Prune prune_expired_def steer_step.simps
    by (rule fold_prune_run) (auto intro: key_spent_prune assms)
next
  case (Admit now ow rid key inp og rs ep)
  show ?thesis unfolding Admit steer_step.simps
    by (rule admit_cases [of sha now ow rid key inp og rs ep st])
      (simp_all add: assms insert_steer_frame key_spent_mono [OF assms])
next
  case (RecordHandoff now ow rid key inp og rs ep)
  then show ?thesis
    by (simp add: record_handoff_def assms insert_steer_frame key_spent_mono [OF assms]
        split: option.splits prod.splits)
qed (auto simp: register_run_def seal_run_def claim_batch_def confirm_batch_def mark_outcome_unknown_def
    Let_def steer_keys_upd assms split: option.splits intro!: key_spent_mono [OF assms])

lemma admit_wins_free: "admit_wins sha k op st \<Longrightarrow> \<not> key_spent k st"
proof -
  assume w: "admit_wins sha k op st"
  then obtain now ow rid key inp og rs ep x where op: "op = Admit now ow rid key inp og rs ep"
    "k = (ow, rid, key)" "fst (admit sha now ow rid key inp og rs ep st) = Inr (Admitted x)"
    by (auto simp: admit_wins_def split: steer_op.splits sum.splits admit_result.splits)
  show ?thesis
    by (rule admit_cases [of sha now ow rid key inp og rs ep st])
      (use op in \<open>auto simp: key_spent_def is_purged_def get_by_None\<close>)
qed

lemma admit_wins_seals: "admit_wins sha k op st \<Longrightarrow> key_spent k (steer_step sha op st)"
proof -
  assume w: "admit_wins sha k op st"
  then obtain now ow rid key inp og rs ep x where op: "op = Admit now ow rid key inp og rs ep"
    "k = (ow, rid, key)" "fst (admit sha now ow rid key inp og rs ep st) = Inr (Admitted x)"
    by (auto simp: admit_wins_def split: steer_op.splits sum.splits admit_result.splits)
  show ?thesis
    by (rule admit_cases [of sha now ow rid key inp og rs ep st])
      (use op in \<open>auto simp: key_spent_def insert_steer_def new_steer_def split: if_splits\<close>)
qed

interpretation sk: claim_once "steer_step sha" steer_wf key_spent "admit_wins sha" for sha
  by unfold_locales
    (auto intro: steer_wf_step key_spent_step admit_wins_seals dest: admit_wins_free)

lemma run_sealed_le:
  assumes "run_sealed k st"
    and "\<And>r. r \<in> set (ss_runs st) \<Longrightarrow> rn_reason r \<noteq> None \<Longrightarrow>
      \<exists>r' \<in> set (ss_runs st'). run_key r' = run_key r \<and> rn_reason r' \<noteq> None"
  shows "run_sealed k st'"
  using assms unfolding run_sealed_def by metis

lemma sealed_upd:
  assumes "r \<in> set rs" "rn_reason r \<noteq> None"
    and "\<And>r. P r \<Longrightarrow> run_key (f r) = run_key r \<and> (rn_reason r \<noteq> None \<longrightarrow> rn_reason (f r) \<noteq> None)"
  shows "\<exists>r' \<in> set (upd_where P f rs). run_key r' = run_key r \<and> rn_reason r' \<noteq> None"
proof -
  have "(if P r then f r else r) \<in> set (upd_where P f rs)" using assms(1) by (simp add: set_upd_where)
  then show ?thesis using assms(2) assms(3) [of r] by (intro bexI [where x = "if P r then f r else r"]) auto
qed

lemma take_seq_sealed:
  assumes "take_seq ow rid og rs ep runs = (seq, runs')" "r \<in> set runs" "rn_reason r \<noteq> None"
    and "distinct (map run_key runs)"
  shows "\<exists>r' \<in> set runs'. run_key r' = run_key r \<and> rn_reason r' \<noteq> None"
proof (cases "get_by run_key (ow, rid) runs")
  case None
  with assms show ?thesis by (auto simp: take_seq_def)
next
  case (Some x)
  with assms(1) have "runs' = upd_where (\<lambda>x. run_key x = (ow, rid)) (\<lambda>y. y\<lparr>rn_next := rn_next x + 1\<rparr>) runs"
    by (auto simp: take_seq_def)
  then show ?thesis using sealed_upd [OF assms(2,3)] by simp
qed

lemma fold_prune_runs: "ss_runs (snd (fold (prune_run stamp) rs acc)) = ss_runs (snd acc)"
  by (rule fold_prune_run [of "\<lambda>st. ss_runs st = ss_runs (snd acc)"]) (simp_all add: prune_run_frame)

lemma insert_steer_runs: "ss_runs (snd (insert_steer s runs st)) \<in> {runs, ss_runs st}"
  by (simp add: insert_steer_def)

lemma run_sealed_step:
  assumes wf: "steer_wf st" and sealed: "run_sealed k st"
  shows "run_sealed k (steer_step sha op st)"
proof (rule run_sealed_le [OF sealed])
  fix r assume r: "r \<in> set (ss_runs st)" "rn_reason r \<noteq> None"
  have rk: "distinct (map run_key (ss_runs st))" using wf by (simp add: steer_wf_def keys_wf_def)
  have ins: "\<exists>r' \<in> set (ss_runs (snd (insert_steer s runs st))). run_key r' = run_key r \<and> rn_reason r' \<noteq> None"
    if "take_seq ow rid og rs ep (ss_runs st) = (seq, runs)" for ow rid og rs ep seq runs s
    using take_seq_sealed [OF that r rk] r insert_steer_runs [of s runs st] by auto
  show "\<exists>r' \<in> set (ss_runs (steer_step sha op st)). run_key r' = run_key r \<and> rn_reason r' \<noteq> None"
  proof (cases op)
    case (Admit now ow rid key inp og rs ep)
    show ?thesis unfolding Admit steer_step.simps
      by (rule admit_cases [of sha now ow rid key inp og rs ep st]) (use r ins in auto)
  next
    case (RecordHandoff now ow rid key inp og rs ep)
    obtain seq runs where t: "take_seq ow rid og rs ep (ss_runs st) = (seq, runs)" by fastforce
    show ?thesis unfolding RecordHandoff
      using r ins [OF t] by (auto simp: record_handoff_def t split: option.splits)
  next
    case (SealRun now ow rid reason)
    with r show ?thesis
      using sealed_upd [OF r, of "\<lambda>r. run_key r = (ow, rid)" "\<lambda>r. r\<lparr>rn_reason := coalesce (rn_reason r)
        (Some reason), rn_closed := coalesce (rn_closed r) (Some now)\<rparr>"]
      by (auto simp: seal_run_def Let_def split: option.splits)
  next
    case (RegisterRun ow rid og rs ep)
    with r show ?thesis
      using sealed_upd [OF r, of "\<lambda>r. run_key r = (ow, rid)" "\<lambda>r. r\<lparr>rn_resolved := coalesce rs
        (rn_resolved r), rn_epoch := coalesce ep (rn_epoch r)\<rparr>"]
      by (auto simp: register_run_def Let_def split: option.splits)
  next
    case (Prune now stamp)
    with r show ?thesis by (auto simp: prune_expired_def fold_prune_runs)
  qed (use r in \<open>auto simp: claim_batch_def confirm_batch_def mark_outcome_unknown_def split: option.splits\<close>)
qed

lemma sealed_run_closed:
  assumes "steer_wf st" "run_sealed (ow, rid) st"
  shows "\<exists>r. get_run ow rid st = Some r \<and> rn_reason r \<noteq> None"
proof -
  from assms(2) obtain r where r: "r \<in> set (ss_runs st)" "run_key r = (ow, rid)" "rn_reason r \<noteq> None"
    by (auto simp: run_sealed_def)
  with assms(1) get_by_eq [of run_key "ss_runs st" r] show ?thesis
    by (simp add: steer_wf_def keys_wf_def get_run_def)
qed

lemma run_wins_free:
  assumes wf: "steer_wf st" and w: "run_wins sha k op st" shows "\<not> run_sealed k st"
proof
  assume sealed: "run_sealed k st"
  show False
  proof (cases op)
    case (Admit now ow rid key inp og rs ep)
    with w obtain x where k: "k = (ow, rid)"
      and adm: "fst (admit sha now ow rid key inp og rs ep st) = Inr (Admitted x)"
      by (auto simp: run_wins_def split: sum.splits admit_result.splits)
    obtain r where "get_run ow rid st = Some r" "rn_reason r \<noteq> None"
      using sealed_run_closed [OF wf] sealed k by blast
    then have "run_closed ow rid st = Some r" by (auto simp: run_closed_def)
    show False
      by (rule admit_cases [of sha now ow rid key inp og rs ep st]) (use adm \<open>run_closed ow rid st = Some r\<close> in auto)
  next
    case (ClaimBatch now ow rid bid)
    with w have k: "k = (ow, rid)" by (simp add: run_wins_def)
    obtain r where "get_run ow rid st = Some r" "rn_reason r \<noteq> None"
      using sealed_run_closed [OF wf] sealed k by blast
    with w ClaimBatch show False by (simp add: run_wins_def claim_batch_def)
  qed (use w in \<open>auto simp: run_wins_def\<close>)
qed

interpretation sr: sealing_gate "steer_step sha" steer_wf run_sealed "run_wins sha" for sha
  by unfold_locales (auto intro: run_sealed_step dest: run_wins_free)

section \<open>The life of a steer\<close>

text \<open>
  The states a steer may pass through: claimed into a batch or retired by the seal, then delivered
  on committed evidence or declared unknown, and an unknown batch whose row turns up is delivered.
\<close>

inductive steer_move :: "steer_state \<Rightarrow> steer_state \<Rightarrow> bool" where
  claim: "steer_move Accepted Staged"
| retire: "steer_move Accepted NotDelivered"
| confirm: "steer_move Staged Delivered"
| lose: "steer_move Staged OutcomeUnknown"
| late: "steer_move OutcomeUnknown Delivered"

code_pred steer_move .

inductive_cases from_delivered: "steer_move Delivered x"
inductive_cases from_not_delivered: "steer_move NotDelivered x"
inductive_simps steer_move_simps: "steer_move x y"

definition same_steer :: "steer \<Rightarrow> steer \<Rightarrow> bool" where
  "same_steer s s' \<longleftrightarrow> sr_id s' = sr_id s \<and> steer_key s' = steer_key s \<and> sr_seq s' = sr_seq s
     \<and> sr_input s' = sr_input s \<and> sr_digest s' = sr_digest s \<and> sr_created s' = sr_created s"

lemma settled_from:
  assumes wf: "steer_wf st" and b: "get_by sb_id bid (ss_batches st) = Some b" "sb_state b \<noteq> Delivered"
    and s: "s \<in> set (ss_steers st)" "sr_batch s = Some bid"
  shows "sr_state s \<in> {Staged, OutcomeUnknown}"
proof -
  from wf s obtain x where x: "x \<in> set (ss_batches st)" "sb_id x = bid" "sb_state x = sr_state s"
    by (force simp: steer_wf_def link_wf_def linked_def)
  from b have "b \<in> set (ss_batches st)" "sb_id b = bid" by (auto dest: get_by_SomeD)
  with x wf have "x = b" by (auto simp: steer_wf_def keys_wf_def intro: distinct_key_inj [of sb_id])
  with x b wf show ?thesis by (auto simp: steer_wf_def link_wf_def batch_ok_def)
qed

text \<open>Every row after an operation is a row from before, moved at most one step, or new.\<close>

lemma steer_step_rows:
  assumes wf: "steer_wf st" and s': "s' \<in> set (ss_steers (steer_step sha op st))"
  shows "(\<exists>s \<in> set (ss_steers st). same_steer s s' \<and> (s' = s \<or> steer_move\<^sup>=\<^sup>= (sr_state s) (sr_state s')))
    \<or> sr_id s' \<notin> sr_id ` set (ss_steers st)"
proof -
  have upd: ?thesis if "ss_steers (steer_step sha op st) = upd_where P f (ss_steers st)"
    "\<And>s. s \<in> set (ss_steers st) \<Longrightarrow> P s \<Longrightarrow> same_steer s (f s) \<and> steer_move\<^sup>=\<^sup>= (sr_state s) (sr_state (f s))" for P f
  proof -
    from that(1) s' obtain s where "s \<in> set (ss_steers st)" "s' = (if P s then f s else s)"
      by (auto simp: set_upd_where)
    with that(2) show ?thesis by (intro disjI1 bexI [where x = s]) (auto simp: same_steer_def)
  qed
  have old: ?thesis if "s' \<in> set (ss_steers st)"
    using that by (intro disjI1 bexI [where x = s']) (auto simp: same_steer_def)
  have ins: ?thesis if "s' \<in> set (ss_steers (snd (insert_steer x runs st)))" for x runs
    using that old by (auto simp: insert_steer_def get_by_None split: if_splits)
  have prune: "set (ss_steers (snd (fold (prune_run stamp) rs acc))) \<subseteq> set (ss_steers (snd acc))" for stamp rs acc
    by (rule fold_prune_run [of "\<lambda>x. set (ss_steers x) \<subseteq> set (ss_steers (snd acc))"])
      (auto simp: prune_run_def Let_def set_del_where split: prod.splits)
  show ?thesis
  proof (cases op)
    case (Admit now ow rid key inp og rs ep)
    show ?thesis
      by (rule admit_cases [of sha now ow rid key inp og rs ep st]) (use Admit s' old ins in auto)
  next
    case (RecordHandoff now ow rid key inp og rs ep)
    with s' old ins show ?thesis by (auto simp: record_handoff_def split: option.splits prod.splits)
  next
    case (SealRun now ow rid reason)
    have "ss_steers (steer_step sha op st) = upd_where (\<lambda>s. of_run ow rid s \<and> sr_state s = Accepted)
      (\<lambda>s. s\<lparr>sr_state := NotDelivered, sr_error := Some reason, sr_updated := now\<rparr>) (ss_steers st)"
      by (simp add: SealRun seal_run_def Let_def)
    then show ?thesis by (rule upd) (auto simp: same_steer_def steer_move_simps)
  next
    case (ClaimBatch now ow rid bid)
    show ?thesis
    proof (cases "ss_steers (steer_step sha op st) = ss_steers st")
      case True
      with s' old show ?thesis by simp
    next
      case False
      then have "ss_steers (steer_step sha op st) = upd_where (\<lambda>s. of_run ow rid s \<and> sr_state s = Accepted)
        (\<lambda>s. s\<lparr>sr_state := Staged, sr_batch := Some bid, sr_updated := now\<rparr>) (ss_steers st)"
        by (auto simp: ClaimBatch claim_batch_def split: option.splits if_splits)
      then show ?thesis by (rule upd) (auto simp: same_steer_def steer_move_simps)
    qed
  next
    case (ConfirmBatch now bid row)
    show ?thesis
    proof (cases "ss_steers (steer_step sha op st) = ss_steers st")
      case True
      with s' old show ?thesis by simp
    next
      case False
      then obtain b where b: "get_by sb_id bid (ss_batches st) = Some b" "sb_state b \<noteq> Delivered"
        using ConfirmBatch by (auto simp: confirm_batch_def split: option.splits if_splits)
      then have "ss_steers (steer_step sha op st) = upd_where (\<lambda>s. sr_batch s = Some bid)
        (\<lambda>s. s\<lparr>sr_state := Delivered, sr_row := Some row, sr_error := None, sr_updated := now\<rparr>) (ss_steers st)"
        by (simp add: ConfirmBatch confirm_batch_def)
      then show ?thesis
        by (rule upd) (auto simp: same_steer_def steer_move_simps dest: settled_from [OF wf b])
    qed
  next
    case (MarkUnknown now bid reason)
    show ?thesis
    proof (cases "ss_steers (steer_step sha op st) = ss_steers st")
      case True
      with s' old show ?thesis by simp
    next
      case False
      then obtain b where b: "get_by sb_id bid (ss_batches st) = Some b" "sb_state b \<noteq> Delivered"
        using MarkUnknown by (auto simp: mark_outcome_unknown_def split: option.splits if_splits)
      then have "ss_steers (steer_step sha op st) = upd_where (\<lambda>s. sr_batch s = Some bid)
        (\<lambda>s. s\<lparr>sr_state := OutcomeUnknown, sr_error := Some reason, sr_updated := now\<rparr>) (ss_steers st)"
        by (simp add: MarkUnknown mark_outcome_unknown_def)
      then show ?thesis
        by (rule upd) (auto simp: same_steer_def steer_move_simps dest: settled_from [OF wf b])
    qed
  next
    case (Prune now stamp)
    with s' prune [of stamp _ "(0, st)"] old show ?thesis by (auto simp: prune_expired_def)
  next
    case (RegisterRun ow rid og rs ep)
    with s' old show ?thesis by (auto simp: register_run_def Let_def split: option.splits)
  qed
qed

end
