(* ===== verification/Steer_Properties.thy ===== *)
theory Steer_Properties imports Steer_Store
begin

text \<open>
  What the steer inbox of \<open>Steer_Store\<close> promises, over the histories its operations produce: one
  admission per request key, silence of sealed runs, first-in-first-out batches, the life cycle of
  a steer, evidence behind every \<open>delivered\<close>, and retries answered after the purge.
\<close>

lemma fifo_wf_before:
  assumes "fifo_wf st" "u \<in> set (ss_steers st)" "s \<in> set (ss_steers st)" "sr_state s = Accepted"
    and "sr_owner u = sr_owner s" "sr_run u = sr_run s" "sr_batch u \<noteq> None"
  shows "sr_seq u < sr_seq s"
  using assms unfolding fifo_wf_def by blast

lemma coalesce_settled: "\<exists>y. coalesce a (Some x) = Some y"
  by (cases a) auto


definition steer_history :: "(string \<Rightarrow> string) \<Rightarrow> steer_op list \<Rightarrow> steer_store" where
  "steer_history sha ops = fold (steer_step sha) ops steer_empty"

lemma steer_history_wf: "steer_wf (steer_history sha ops)"
  unfolding steer_history_def by (rule sk.run_inv [OF steer_wf_empty])

text \<open>
  Retries never queue a steer twice: over any history of the inbox, seals, confirmations and
  the thirty-day purge included, at most one admission of a (scope, run, request) key is answered
  \<open>admitted\<close>.
\<close>

theorem steer_admitted_at_most_once:
  "wins_along (steer_step sha) (admit_wins sha (owner, rid, key)) ops steer_empty \<le> 1"
  by (rule sk.at_most_one_win [OF steer_wf_empty])

text \<open>
  C3. A sealed run is silent: after \<open>seal_run\<close>, whatever else happens, no steer of that run is
  ever admitted and no batch of it is ever claimed again.
\<close>

theorem steer_sealed_run_silent:
  "wins_along (steer_step sha) (run_wins sha (owner, rid)) later
     (snd (seal_run now owner rid reason (steer_history sha earlier))) = 0"
proof (rule sr.no_win_sealed)
  let ?st = "steer_history sha earlier"
  show "steer_wf (snd (seal_run now owner rid reason ?st))"
    by (rule wf_seal_run [OF steer_history_wf])
  show "run_sealed (owner, rid) (snd (seal_run now owner rid reason ?st))"
  proof (cases "get_run owner rid ?st")
    case None
    then show ?thesis by (simp add: run_sealed_def seal_run_def Let_def new_run_def)
  next
    case (Some r)
    then have r: "r \<in> set (ss_runs ?st)" "run_key r = (owner, rid)"
      by (auto simp: get_run_def dest: get_by_SomeD)
    have "run_key (r\<lparr>rn_reason := coalesce (rn_reason r) (Some reason),
        rn_closed := coalesce (rn_closed r) (Some now)\<rparr>) = (owner, rid)" using r(2) by simp
    with Some upd_where_hit [of r _ "\<lambda>r. run_key r = (owner, rid)" "\<lambda>r. r\<lparr>rn_reason := coalesce
        (rn_reason r) (Some reason), rn_closed := coalesce (rn_closed r) (Some now)\<rparr>", OF r]
    show ?thesis by (auto simp: run_sealed_def seal_run_def Let_def coalesce_settled intro!: bexI [rotated])
  qed
qed

text \<open>
  C4. A tool boundary takes everything, in order: a claimed batch is exactly the accepted steers of
  the run, strictly by sequence number, later than everything claimed before; it is recorded in
  that order and leaves nothing accepted behind.
\<close>

theorem steer_claim_fifo:
  assumes "steer_wf st" and "claim_batch now owner rid bid st = (Inr (Some items), st')"
  shows "set items = {s \<in> set (ss_steers st). of_run owner rid s \<and> sr_state s = Accepted}
    \<and> sorted_wrt (\<lambda>s s'. sr_seq s < sr_seq s') items
    \<and> (\<forall>s \<in> set items. \<forall>u \<in> set (ss_steers st). sr_batch u = None \<or> \<not> of_run owner rid u \<or> sr_seq u < sr_seq s)
    \<and> map_option sb_ids (get_by sb_id bid (ss_batches st')) = Some (map sr_id items)
    \<and> (\<forall>s \<in> set (ss_steers st'). \<not> (of_run owner rid s \<and> sr_state s = Accepted))"
proof -
  from assms(2) have items: "items = accepted_of owner rid st"
    and free: "get_by sb_id bid (ss_batches st) = None"
    and st': "st' = st\<lparr>ss_steers := upd_where (\<lambda>s. of_run owner rid s \<and> sr_state s = Accepted)
        (\<lambda>s. s\<lparr>sr_state := Staged, sr_batch := Some bid, sr_updated := now\<rparr>) (ss_steers st),
      ss_batches := ss_batches st @ [\<lparr>sb_id = bid, sb_owner = owner, sb_run = rid,
        sb_ids = map sr_id (accepted_of owner rid st), sb_state = Staged, sb_row = None, sb_created = now\<rparr>]\<rparr>"
    by (auto simp: claim_batch_def split: option.splits if_splits)
  have fifo: "fifo_wf st" using assms(1) by (simp add: steer_wf_def)
  have dist: "distinct (map (\<lambda>s. (sr_owner s, sr_run s, sr_seq s)) (ss_steers st))"
    using assms(1) by (simp add: steer_wf_def seq_wf_def)
  let ?F = "filter (\<lambda>s. of_run owner rid s \<and> sr_state s = Accepted) (ss_steers st)"
  have "distinct (map sr_seq ?F)"
  proof -
    have "inj_on (\<lambda>s. (sr_owner s, sr_run s, sr_seq s)) (set ?F)" "distinct ?F"
      using dist by (auto simp: distinct_map inj_on_def)
    then show ?thesis by (simp add: distinct_map inj_on_def)
  qed
  then have "sorted_wrt (<) (map sr_seq items)"
    unfolding items accepted_of_def strict_sorted_iff
    by (auto simp: distinct_map)
  then have sorted: "sorted_wrt (\<lambda>s s'. sr_seq s < sr_seq s') items" by (simp add: sorted_wrt_map)
  have later: "sr_batch u = None \<or> \<not> of_run owner rid u \<or> sr_seq u < sr_seq s"
    if "s \<in> set items" "u \<in> set (ss_steers st)" for s u
    using that fifo_wf_before [OF fifo, of u s]
    by (cases "sr_batch u") (auto simp: items accepted_of_set)
  have drained: "\<not> (of_run owner rid s \<and> sr_state s = Accepted)" if "s \<in> set (ss_steers st')" for s
  proof
    assume a: "of_run owner rid s \<and> sr_state s = Accepted"
    have "s \<in> (\<lambda>x. if of_run owner rid x \<and> sr_state x = Accepted then x\<lparr>sr_state := Staged,
        sr_batch := Some bid, sr_updated := now\<rparr> else x) ` set (ss_steers st)"
      using that unfolding st' by (simp add: set_upd_where)
    then obtain x where x: "s = (if of_run owner rid x \<and> sr_state x = Accepted then x\<lparr>sr_state := Staged,
        sr_batch := Some bid, sr_updated := now\<rparr> else x)" by (elim imageE)
    show False
    proof (cases "of_run owner rid x \<and> sr_state x = Accepted")
      case True
      with x have "sr_state s = Staged" by (simp only: if_True) simp
      with a show False by simp
    next
      case False
      then have "s = x" unfolding x by (rule if_not_P)
      with False a show False by (simp only:)
    qed
  qed
  show ?thesis
  proof (intro conjI ballI)
    show "set items = {s \<in> set (ss_steers st). of_run owner rid s \<and> sr_state s = Accepted}"
      unfolding items by (rule accepted_of_set)
    show "map_option sb_ids (get_by sb_id bid (ss_batches st')) = Some (map sr_id items)"
      using free by (simp add: items st' table_simps)
  qed (fact sorted, fact later, fact drained)
qed

theorem steer_claim_fifo_witness:
  "\<exists>items st'. claim_batch 3 ''o'' ''r'' ''b'' (steer_history (\<lambda>s. s)
       [Admit 1 ''o'' ''r'' ''k1'' ''x'' None None None, Admit 2 ''o'' ''r'' ''k2'' ''y'' None None None])
     = (Inr (Some items), st') \<and> map sr_input items = [''x'', ''y'']
     \<and> sorted_wrt (\<lambda>s s'. sr_seq s < sr_seq s') items"
proof -
  let ?a = "Admit 1 ''o'' ''r'' ''k1'' ''x'' None None None"
  let ?b = "Admit 2 ''o'' ''r'' ''k2'' ''y'' None None None"
  let ?row = "\<lambda>k x n t. \<lparr>sr_id = ''o'' @ CHR 0x00 # ''r'' @ CHR 0x00 # k, sr_owner = ''o'', sr_run = ''r'',
    sr_key = k, sr_digest = x, sr_input = x, sr_seq = n, sr_state = Accepted,
    sr_batch = None, sr_row = None, sr_error = None, sr_created = t, sr_updated = t\<rparr>"
  note ev = admit_def is_purged_def run_closed_def get_run_def outstanding_def OUTSTANDING_LIMIT_def
    take_seq_def new_run_def insert_steer_def new_steer_def derive_steer_id_def table_simps
  define s1 where "s1 = steer_step (\<lambda>s. s) ?a steer_empty"
  have s1: "ss_steers s1 = [?row ''k1'' ''x'' 1 1]" "ss_batches s1 = []" "ss_purged s1 = []"
    "ss_runs s1 = [\<lparr>rn_owner = ''o'', rn_id = ''r'', rn_orig = None, rn_resolved = None, rn_epoch = None,
      rn_reason = None, rn_closed = None, rn_next = 2\<rparr>]"
    by (simp_all add: s1_def steer_empty_def ev)
  define s2 where "s2 = steer_step (\<lambda>s. s) ?b s1"
  have "ss_runs s2 = [\<lparr>rn_owner = ''o'', rn_id = ''r'', rn_orig = None, rn_resolved = None, rn_epoch = None,
      rn_reason = None, rn_closed = None, rn_next = 3\<rparr>]"
    by (simp add: s2_def s1 ev)
  then obtain r where r: "get_run ''o'' ''r'' s2 = Some r" "rn_reason r = None"
    by (simp add: get_run_def table_simps)
  have s2: "ss_steers s2 = [?row ''k1'' ''x'' 1 1, ?row ''k2'' ''y'' 2 2]" "ss_batches s2 = []"
    by (simp_all add: s2_def s1 ev)
  have h: "steer_history (\<lambda>s. s) [?a, ?b] = s2"
    by (simp add: steer_history_def s1_def s2_def del: steer_step.simps)
  have i: "map sr_input (accepted_of ''o'' ''r'' s2) = [''x'', ''y'']"
    by (simp add: accepted_of_def s2)
  then have ne: "accepted_of ''o'' ''r'' s2 \<noteq> []" by auto
  have fr: "get_by sb_id ''b'' (ss_batches s2) = None" by (simp add: s2 table_simps)
  have "fst (claim_batch 3 ''o'' ''r'' ''b'' s2) = Inr (Some (accepted_of ''o'' ''r'' s2))"
    by (simp add: claim_batch_def r ne fr)
  then obtain st' where
    c: "claim_batch 3 ''o'' ''r'' ''b'' (steer_history (\<lambda>s. s) [?a, ?b])
      = (Inr (Some (accepted_of ''o'' ''r'' s2)), st')"
    unfolding h by (metis prod.collapse)
  from steer_claim_fifo [OF steer_history_wf c]
  have "sorted_wrt (\<lambda>s s'. sr_seq s < sr_seq s') (accepted_of ''o'' ''r'' s2)" by (elim conjE)
  with c i show ?thesis by (intro exI conjI)
qed

text \<open>
  One operation moves a steer at most one step of its life cycle and never touches its
  identity, text, number or creation time; a row that was not there before has a new id.
\<close>

theorem steer_lifecycle:
  assumes "s' \<in> set (ss_steers (steer_step sha op (steer_history sha ops)))"
  shows "(\<exists>s \<in> set (ss_steers (steer_history sha ops)).
      same_steer s s' \<and> (s' = s \<or> steer_move\<^sup>=\<^sup>= (sr_state s) (sr_state s')))
    \<or> sr_id s' \<notin> sr_id ` set (ss_steers (steer_history sha ops))"
  by (rule steer_step_rows [OF steer_history_wf assms])

theorem steer_lifecycle_witness:
  "\<exists>s s' :: steer. same_steer s s' \<and> sr_state s = Accepted \<and> sr_state s' = NotDelivered
     \<and> steer_move (sr_state s) (sr_state s')"
proof -
  let ?ops = "[Admit 1 ''o'' ''r'' ''k1'' ''x'' None None None]"
  let ?op = "SealRun 2 ''o'' ''r'' ''stop''"
  let ?s = "\<lparr>sr_id = ''o'' @ CHR 0x00 # ''r'' @ CHR 0x00 # ''k1'', sr_owner = ''o'', sr_run = ''r'',
    sr_key = ''k1'', sr_digest = ''x'', sr_input = ''x'', sr_seq = 1, sr_state = Accepted,
    sr_batch = None, sr_row = None, sr_error = None, sr_created = 1, sr_updated = 1\<rparr>"
  let ?s' = "?s\<lparr>sr_state := NotDelivered, sr_error := Some ''stop'', sr_updated := 2\<rparr>"
  have h: "ss_steers (steer_history (\<lambda>s. s) ?ops) = [?s]"
    by (simp add: steer_history_def steer_empty_def admit_def is_purged_def run_closed_def get_run_def
        outstanding_def OUTSTANDING_LIMIT_def take_seq_def new_run_def insert_steer_def new_steer_def
        derive_steer_id_def table_simps)
  have "?s' \<in> set (ss_steers (steer_step (\<lambda>s. s) ?op (steer_history (\<lambda>s. s) ?ops)))"
    by (simp add: seal_run_def Let_def h table_simps)
  from steer_lifecycle [OF this] have "same_steer ?s ?s' \<and> steer_move (sr_state ?s) (sr_state ?s')"
    unfolding h by (simp add: same_steer_def)
  then show ?thesis by (intro exI [of _ ?s] exI [of _ ?s']) simp
qed

text \<open>What a delivered steer rests on, against the table of batches.\<close>

definition evidenced :: "steer_batch list \<Rightarrow> steer \<Rightarrow> bool" where
  "evidenced bs s \<longleftrightarrow> (sr_state s = Delivered) = (sr_row s \<noteq> None)
     \<and> (sr_row s = None \<or> (\<exists>b \<in> set bs. sr_batch s = Some (sb_id b) \<and> sb_state b = Delivered
          \<and> sb_row b = sr_row s \<and> sr_id s \<in> set (sb_ids b)))"

text \<open>
  \<open>delivered\<close> rests on evidence: in every reachable inbox a steer is delivered exactly when the
  batch that holds it is confirmed with a history row, it then carries that row, and it is listed
  in that batch; and no run ever has more than 32 outstanding steers.
\<close>

theorem steer_delivered_has_evidence:
  "list_all (evidenced (ss_batches (steer_history sha ops))) (ss_steers (steer_history sha ops))
   \<and> outstanding owner rid (steer_history sha ops) \<le> 32"
proof -
  let ?st = "steer_history sha ops"
  have wf: "steer_wf ?st" by (rule steer_history_wf)
  have "(sr_state s = Delivered) = (sr_row s \<noteq> None)
      \<and> (sr_row s = None \<or> (\<exists>b \<in> set (ss_batches ?st). sr_batch s = Some (sb_id b)
        \<and> sb_state b = Delivered \<and> sb_row b = sr_row s \<and> sr_id s \<in> set (sb_ids b)))"
    if "s \<in> set (ss_steers ?st)" for s
  proof -
    have l: "linked (ss_batches ?st) s" using wf that by (simp add: steer_wf_def link_wf_def)
    show ?thesis
    proof (cases "sr_batch s")
      case None
      with l show ?thesis by (auto simp: linked_def)
    next
      case (Some b)
      with l obtain x where x: "x \<in> set (ss_batches ?st)" "sb_id x = b" "sb_state x = sr_state s"
        "sr_id s \<in> set (sb_ids x)" "sb_row x = sr_row s" by (auto simp: linked_def)
      moreover have "batch_ok x" using wf x(1) by (simp add: steer_wf_def link_wf_def)
      ultimately show ?thesis using Some by (auto simp: batch_ok_def)
    qed
  qed
  moreover have "outstanding owner rid ?st \<le> 32"
    using wf by (simp add: steer_wf_def bound_wf_def OUTSTANDING_LIMIT_def)
  ultimately show ?thesis by (simp add: list_all_iff evidenced_def)
qed

lemma fold_prune_keeps_purged:
  "k \<in> purged_key ` set (ss_purged (snd acc)) \<Longrightarrow>
   k \<in> purged_key ` set (ss_purged (snd (fold (prune_run stamp) rs acc)))"
proof (rule fold_prune_run [of "\<lambda>st. k \<in> purged_key ` set (ss_purged st)"])
  fix r and acc :: "nat \<times> steer_store"
  assume "k \<in> purged_key ` set (ss_purged (snd acc))"
  then show "k \<in> purged_key ` set (ss_purged (snd (prune_run stamp r acc)))"
    by (cases acc) (simp only: snd_conv prune_run_tables purge_keys_set Un_iff simp_thms)
qed

lemma fold_prune_purges:
  assumes "r \<in> set rs" "s \<in> set (ss_steers (snd acc))" "of_run (rn_owner r) (rn_id r) s"
  shows "steer_key s \<in> purged_key ` set (ss_purged (snd (fold (prune_run stamp) rs acc)))"
  using assms(1,2)
proof (induction rs arbitrary: acc)
  case Nil
  then show ?case by simp
next
  case (Cons x rs)
  obtain n st where acc: "acc = (n, st)" by fastforce
  show ?case
  proof (cases "of_run (rn_owner x) (rn_id x) s")
    case True
    with Cons.prems(2) have "s \<in> set (filter (of_run (rn_owner x) (rn_id x)) (ss_steers st))"
      by (simp add: acc)
    then have "steer_key s \<in> purged_key ` set (ss_purged (snd (prune_run stamp x acc)))"
      unfolding acc prune_run_tables purge_keys_set by (intro UnI2 imageI)
    then show ?thesis using fold_prune_keeps_purged by simp
  next
    case False
    then have "r \<noteq> x" using assms(3) by auto
    moreover have "s \<in> set (ss_steers (snd (prune_run stamp x acc)))"
      using False Cons.prems(2) by (simp add: acc prune_run_tables set_del_where)
    ultimately show ?thesis using Cons.IH [of "prune_run stamp x acc"] Cons.prems(1) by simp
  qed
qed

text \<open>
  A receipt the purge removed stays answered: once the steers of a run sealed more than thirty
  days ago are pruned, a retry of any of their keys is told \<open>expired\<close> and changes nothing.
\<close>

theorem steer_purged_key_expired:
  assumes "r \<in> set (ss_runs st)" and "expired_run (now - RECEIPT_TTL_SECONDS) r"
    and "s \<in> set (ss_steers st)" and "of_run (rn_owner r) (rn_id r) s"
    and "snd (prune_expired now stamp st) = st'"
  shows "admit sha later (sr_owner s) (sr_run s) (sr_key s) inp og rs ep st'
    = (Inr (Expired (derive_steer_id sha (sr_owner s) (sr_run s) (sr_key s))), st')"
proof -
  have "steer_key s \<in> purged_key ` set (ss_purged st')"
    using fold_prune_purges [of r "filter (expired_run (now - RECEIPT_TTL_SECONDS)) (ss_runs st)" s "(0, st)" stamp]
      assms by (simp add: prune_expired_def)
  then have "is_purged (sr_owner s) (sr_run s) (sr_key s) st'"
    by (simp add: is_purged_def get_by_None)
  then show ?thesis by (simp add: admit_def)
qed

theorem steer_purged_key_expired_witness:
  "\<exists>st'. admit (\<lambda>s. s) 9000000 ''o'' ''r'' ''k1'' ''x'' None None None st' = (Inr (Expired
     (derive_steer_id (\<lambda>s. s) ''o'' ''r'' ''k1'')), st') \<and> ss_purged st' \<noteq> []"
proof -
  let ?st = "steer_history (\<lambda>s. s) [Admit 1 ''o'' ''r'' ''k1'' ''x'' None None None, SealRun 2 ''o'' ''r'' ''stop'']"
  let ?r = "\<lparr>rn_owner = ''o'', rn_id = ''r'', rn_orig = None, rn_resolved = None, rn_epoch = None,
     rn_reason = Some ''stop'', rn_closed = Some 2, rn_next = 2\<rparr>"
  let ?s = "\<lparr>sr_id = ''o'' @ CHR 0x00 # ''r'' @ CHR 0x00 # ''k1'', sr_owner = ''o'', sr_run = ''r'',
    sr_key = ''k1'', sr_digest = ''x'', sr_input = ''x'', sr_seq = 1, sr_state = NotDelivered,
    sr_batch = None, sr_row = None, sr_error = Some ''stop'', sr_created = 1, sr_updated = 2\<rparr>"
  have h: "ss_steers ?st = [?s]" "ss_runs ?st = [?r]"
    by (simp_all add: steer_history_def steer_empty_def admit_def is_purged_def run_closed_def get_run_def
        outstanding_def OUTSTANDING_LIMIT_def take_seq_def new_run_def insert_steer_def new_steer_def
        derive_steer_id_def seal_run_def Let_def table_simps)
  have e: "expired_run (8000000 - RECEIPT_TTL_SECONDS) ?r"
    by (simp add: expired_run_def RECEIPT_TTL_SECONDS_def)
  have p: "?r \<in> set (ss_runs ?st)" "?s \<in> set (ss_steers ?st)" "of_run (rn_owner ?r) (rn_id ?r) ?s"
    by (simp_all add: h)
  note steer_purged_key_expired [OF p(1) e p(2,3) refl, of "\<lambda>s. s" 9000000 "''x''" None None None 7]
  moreover have "ss_purged (snd (prune_expired 8000000 7 ?st)) \<noteq> []"
    using e by (simp add: prune_expired_def h prune_run_def Let_def purge_key_def)
  ultimately show ?thesis by auto
qed

end
