(* ===== verification/Json.thy ===== *)
theory Json
  imports Prelude
begin

text \<open>
  JSON values as Python reads them: objects are association lists in the order of their keys, a missing
  key is \<^const>\<open>None\<close>, and \<open>truthy\<close> is Python's test of a value.
\<close>

datatype json = JNull | JBool bool | JInt int | JReal real | JStr string
  | JArr "json list" | JObj "(string \<times> json) list"

fun jget :: "string \<Rightarrow> json \<Rightarrow> json option" where
  "jget k (JObj kvs) = map_of kvs k"
| "jget k _ = None"

fun truthy :: "json \<Rightarrow> bool" where
  "truthy JNull = False"
| "truthy (JBool b) = b"
| "truthy (JInt i) = (i \<noteq> 0)"
| "truthy (JReal r) = (r \<noteq> 0)"
| "truthy (JStr s) = (s \<noteq> [])"
| "truthy (JArr xs) = (xs \<noteq> [])"
| "truthy (JObj kvs) = (kvs \<noteq> [])"

fun truthy_value :: "json option \<Rightarrow> bool" where
  "truthy_value None = False"
| "truthy_value (Some v) = truthy v"

text \<open>\<open>v.get(k) or d\<close>\<close>

definition jget_or :: "string \<Rightarrow> json \<Rightarrow> json \<Rightarrow> json" where
  "jget_or k d v = (case jget k v of None \<Rightarrow> d | Some x \<Rightarrow> if truthy x then x else d)"

text \<open>\<open>v.get(k)\<close> when that is a string, and as a value.\<close>

definition jstr :: "string \<Rightarrow> json \<Rightarrow> string option" where
  "jstr k v = (case jget k v of Some (JStr s) \<Rightarrow> Some s | _ \<Rightarrow> None)"

definition jval :: "string \<Rightarrow> json \<Rightarrow> json" where
  "jval k v = (case jget k v of None \<Rightarrow> JNull | Some x \<Rightarrow> x)"

end
