(* ===== verification/Session_DB.thy ===== *)
theory Session_DB
  imports Json
begin

text \<open>
  The part of the gateway's session database that the compat modules read with their own SQL: the
  tables \<open>sessions\<close>, \<open>messages\<close> and \<open>session_turn_leases\<close>, JSON columns as JSON values, SQLite's
  \<open>json_extract\<close>, and the recursive query over compression lineages that
  \<open>auto_wake_store._find_report\<close>, \<open>cron_delivery_store._write_once\<close> and \<open>self_wake\<close> share.
  The methods of \<open>SessionDB\<close> itself are not part of this repository: operations that call them
  take their answers as arguments. \<open>NULL\<close> is \<^const>\<open>None\<close>; a JSON column that is not \<open>NULL\<close> is well
  formed, as \<open>SessionDB\<close> writes it with \<open>json.dumps\<close>.
\<close>

section \<open>Values of columns\<close>

text \<open>\<open>v == 1\<close> in Python, where \<open>True\<close> and \<open>1.0\<close> equal \<open>1\<close>.\<close>

fun json_is_one :: "json \<Rightarrow> bool" where
  "json_is_one (JInt i) = (i = 1)"
| "json_is_one (JBool b) = b"
| "json_is_one (JReal r) = (r = 1)"
| "json_is_one _ = False"

datatype sqlv = SNull | SInt int | SReal real | SText string

fun sql_is_one :: "sqlv \<Rightarrow> bool" where
  "sql_is_one (SInt i) = (i = 1)"
| "sql_is_one (SReal r) = (r = 1)"
| "sql_is_one _ = False"

text \<open>\<open>json_extract\<close>: scalars become SQL values, containers the JSON text \<open>dumps\<close> renders.\<close>

fun sql_of_json :: "(json \<Rightarrow> string) \<Rightarrow> json option \<Rightarrow> sqlv" where
  "sql_of_json dumps None = SNull"
| "sql_of_json dumps (Some JNull) = SNull"
| "sql_of_json dumps (Some (JBool b)) = SInt (if b then 1 else 0)"
| "sql_of_json dumps (Some (JInt i)) = SInt i"
| "sql_of_json dumps (Some (JReal r)) = SReal r"
| "sql_of_json dumps (Some (JStr s)) = SText s"
| "sql_of_json dumps (Some v) = SText (dumps v)"

section \<open>Rows\<close>

record session =
  ses_id :: string
  ses_source :: "string option"
  ses_hidden :: bool
  ses_archived :: bool
  ses_ended_at :: "time option"
  ses_end_reason :: "string option"
  ses_parent :: "string option"

record message =
  msg_id :: int
  msg_session :: string
  msg_role :: string
  msg_kind :: "string option"
  msg_meta :: "json option"
  msg_content :: string
  msg_time :: time

record lease =
  lease_conversation :: string
  lease_expires :: time

record session_db =
  db_sessions :: "session list"
  db_messages :: "message list"
  db_leases :: "lease list"

definition METADATA_NS :: string where "METADATA_NS = ''hermes_app_cron''"
definition DISPLAY_KIND :: string where "DISPLAY_KIND = ''internal_notification''"

text \<open>\<open>json_extract(display_metadata, '$.hermes_app_cron.<field>')\<close>\<close>

definition cron_field :: "(json \<Rightarrow> string) \<Rightarrow> string \<Rightarrow> message \<Rightarrow> sqlv" where
  "cron_field dumps field m =
     sql_of_json dumps (Option.bind (Option.bind (msg_meta m) (jget METADATA_NS)) (jget field))"

section \<open>Compression lineages\<close>

text \<open>
  One step of the recursive query: the parent of a session, when that parent exists and was ended
  by compression.
\<close>

definition lineage_parent :: "session list \<Rightarrow> string \<Rightarrow> string option" where
  "lineage_parent ss x = Option.bind (get_by ses_id x ss) (\<lambda>s. Option.bind (ses_parent s) (\<lambda>p.
     Option.bind (get_by ses_id p ss) (\<lambda>q.
       if ses_end_reason q = Some ''compression'' then Some p else None)))"

text \<open>
  \<open>WITH RECURSIVE lineage(id) AS (SELECT ? UNION ...)\<close>: \<open>UNION\<close> drops an id already found, which
  also stops a cyclic ancestry. Every parent is a session, so one step per session is enough.
\<close>

fun lineage_walk :: "nat \<Rightarrow> session list \<Rightarrow> string list \<Rightarrow> string \<Rightarrow> string list" where
  "lineage_walk 0 ss seen x = seen"
| "lineage_walk (Suc n) ss seen x = (case lineage_parent ss x of None \<Rightarrow> seen
     | Some p \<Rightarrow> if p \<in> set seen then seen else lineage_walk n ss (seen @ [p]) p)"

definition lineage :: "session list \<Rightarrow> string \<Rightarrow> string list" where
  "lineage ss x = lineage_walk (Suc (length ss)) ss [x] x"

abbreviation ancestry :: "session list \<Rightarrow> (string \<times> string) set" where
  "ancestry ss \<equiv> {(a, b). lineage_parent ss a = Some b}"

lemma lineage_parent_known: "lineage_parent ss x = Some p \<Longrightarrow> p \<in> ses_id ` set ss"
  by (auto simp: lineage_parent_def split: Option.bind_splits if_splits dest!: get_by_SomeD)

text \<open>
  What the walk has found: distinct ids, all reachable, each one but the current with its parent
  already found.
\<close>

definition walked :: "session list \<Rightarrow> string \<Rightarrow> string list \<Rightarrow> string \<Rightarrow> bool" where
  "walked ss x0 seen x \<longleftrightarrow> distinct seen \<and> x0 \<in> set seen \<and> x \<in> set seen
     \<and> set seen \<subseteq> insert x0 (ses_id ` set ss) \<and> (\<forall>y \<in> set seen. (x0, y) \<in> (ancestry ss)\<^sup>*)
     \<and> (\<forall>y \<in> set seen. \<forall>z. y \<noteq> x \<longrightarrow> lineage_parent ss y = Some z \<longrightarrow> z \<in> set seen)"

lemma walked_length: "walked ss x0 seen x \<Longrightarrow> length seen \<le> Suc (length ss)"
proof -
  assume "walked ss x0 seen x"
  then have "distinct seen" and sub: "set seen \<subseteq> insert x0 (ses_id ` set ss)"
    by (simp_all add: walked_def)
  then have "length seen = card (set seen)" by (simp add: distinct_card)
  also have "\<dots> \<le> card (insert x0 (ses_id ` set ss))" using sub by (intro card_mono) auto
  also have "\<dots> \<le> Suc (card (ses_id ` set ss))" by (rule card_insert_le_m1) auto
  also have "card (ses_id ` set ss) \<le> length ss"
    by (metis card_length length_map set_map)
  finally show ?thesis by simp
qed

lemma walked_closed:
  assumes w: "walked ss x0 seen x" and last: "\<And>z. lineage_parent ss x = Some z \<Longrightarrow> z \<in> set seen"
  shows "set seen = {y. (x0, y) \<in> (ancestry ss)\<^sup>*}"
proof
  show "set seen \<subseteq> {y. (x0, y) \<in> (ancestry ss)\<^sup>*}" using w by (auto simp: walked_def)
  have "y \<in> set seen" if "(x0, y) \<in> (ancestry ss)\<^sup>*" for y
    using that
  proof induction
    case base
    then show ?case using w by (simp add: walked_def)
  next
    case (step y z)
    then have "lineage_parent ss y = Some z" "y \<in> set seen" by auto
    then show ?case using w last by (cases "y = x") (auto simp: walked_def)
  qed
  then show "{y. (x0, y) \<in> (ancestry ss)\<^sup>*} \<subseteq> set seen" by auto
qed

lemma walked_step:
  assumes w: "walked ss x0 seen x" and p: "lineage_parent ss x = Some p" and new: "p \<notin> set seen"
  shows "walked ss x0 (seen @ [p]) p"
proof -
  have "(x0, x) \<in> (ancestry ss)\<^sup>*" using w by (auto simp: walked_def)
  then have reach: "(x0, p) \<in> (ancestry ss)\<^sup>*" using p by (auto intro: rtrancl_into_rtrancl)
  have "z \<in> set (seen @ [p])" if "y \<in> set (seen @ [p])" "y \<noteq> p" "lineage_parent ss y = Some z" for y z
    using that w p by (cases "y = x") (auto simp: walked_def)
  then show ?thesis
    using w new reach lineage_parent_known [OF p] by (auto simp: walked_def)
qed

lemma lineage_walk_reaches:
  "walked ss x0 seen x \<Longrightarrow> Suc (length ss) < n + length seen \<Longrightarrow>
   set (lineage_walk n ss seen x) = {y. (x0, y) \<in> (ancestry ss)\<^sup>*}"
proof (induction n ss seen x rule: lineage_walk.induct)
  case (1 ss seen x)
  then show ?case using walked_length by fastforce
next
  case (2 n ss seen x)
  show ?case
  proof (cases "lineage_parent ss x")
    case None
    with walked_closed [OF 2(2)] show ?thesis by simp
  next
    case (Some p)
    show ?thesis
    proof (cases "p \<in> set seen")
      case True
      with walked_closed [OF 2(2)] Some show ?thesis by simp
    next
      case False
      with 2 Some walked_step [OF 2(2) Some False] show ?thesis by simp
    qed
  qed
qed

lemma lineage_set: "set (lineage ss x) = {y. (x, y) \<in> (ancestry ss)\<^sup>*}"
  unfolding lineage_def by (rule lineage_walk_reaches) (auto simp: walked_def)

lemma lineage_self: "x \<in> set (lineage ss x)"
  by (simp add: lineage_set)

section \<open>Property\<close>

text \<open>
  The lineage query is exact: it returns the session and precisely the ancestors reachable
  through parents that were ended by compression, whatever the table holds, cycles included.
\<close>

theorem lineage_is_compression_ancestry:
  "set (lineage ss x) = {y. (x, y) \<in> {(a, b). \<exists>s q. get_by ses_id a ss = Some s \<and>
     ses_parent s = Some b \<and> get_by ses_id b ss = Some q \<and>
     ses_end_reason q = Some ''compression''}\<^sup>*}"
proof -
  have "ancestry ss = {(a, b). \<exists>s q. get_by ses_id a ss = Some s \<and>
     ses_parent s = Some b \<and> get_by ses_id b ss = Some q \<and>
     ses_end_reason q = Some ''compression''}"
    by (auto simp: lineage_parent_def split: Option.bind_splits if_splits)
  then show ?thesis by (simp add: lineage_set)
qed

end
