(* ===== verification/Steer_Inbox.thy ===== *)
theory Steer_Inbox
  imports Steer_Properties Session_DB "HOL-Library.AList"
begin

text \<open>
  \<open>compat/steer_inbox.py\<close>: the live side of the steer inbox. The registry \<open>inbox\<close> binds agents to
  runs of adapters; admission, the seal, the injection at a tool boundary, the confirmation of a
  flushed row and the recovery after a restart call the operations of \<open>Steer_Store\<close>.

  Adapters and agents are object identities, numbers here; \<open>adapter_view\<close> is what the inbox reads
  of an adapter. What the core answers is an argument: the binding of a run to its admission, the
  generation fence, the native steer, and \<open>agent.prompt_builder\<close> as the record \<open>prompt_api\<close>. The
  run guard makes every operation on a run one step, so an operation here is a function of the
  store. A \<open>sw_handed\<close> entry records that the core took a text.
\<close>

section \<open>Registry\<close>

type_synonym adapter = nat
type_synonym agent = nat

text \<open>
  A status row is the text of its \<open>status\<close> field (\<open>None\<close>: no row). A missing attribute of the
  adapter is \<open>None\<close>.
\<close>

record adapter_view =
  av_agents :: "(string \<times> agent) list option"
  av_statuses :: "(string \<times> string option) list option"
  av_owners :: "(string \<times> string) list"
  av_stopping :: "string list"

record inbox =
  ib_epoch :: "string option"
  ib_agent_runs :: "(agent \<times> (adapter \<times> string)) list"
  ib_adapters :: "adapter list"
  ib_closed :: bool
  ib_hook :: bool
  ib_accepting :: "((adapter \<times> string) \<times> bool) list"

definition STEER_METADATA_FIELD :: string where "STEER_METADATA_FIELD = ''hermes_app_steer''"
definition STEER_METADATA_SCHEMA :: int where "STEER_METADATA_SCHEMA = 1"
definition TERMINAL :: "string list" where
  "TERMINAL = [''completed'', ''failed'', ''cancelled'', ''interrupted'']"
definition STEERABLE :: "string list" where
  "STEERABLE = [''running'', ''waiting_for_approval'']"

definition open_inbox :: "string option \<Rightarrow> inbox option \<Rightarrow> inbox" where
  "open_inbox epoch old = (case old of
     None \<Rightarrow> \<lparr>ib_epoch = epoch, ib_agent_runs = [], ib_adapters = [], ib_closed = False,
              ib_hook = False, ib_accepting = []\<rparr>
   | Some ib \<Rightarrow> ib\<lparr>ib_epoch := epoch, ib_closed := False\<rparr>)"

definition add_adapter :: "adapter \<Rightarrow> inbox \<Rightarrow> inbox" where
  "add_adapter a ib = (if a \<in> set (ib_adapters ib) then ib else ib\<lparr>ib_adapters := ib_adapters ib @ [a]\<rparr>)"

definition note_adapter :: "adapter \<Rightarrow> inbox \<Rightarrow> inbox" where
  "note_adapter a ib = (if ib_closed ib then ib else add_adapter a ib)"

definition bind_agent :: "adapter \<Rightarrow> string \<Rightarrow> agent option \<Rightarrow> inbox \<Rightarrow> inbox" where
  "bind_agent a rid ag ib = (case ag of
     None \<Rightarrow> ib
   | Some g \<Rightarrow> if ib_closed ib then ib
       else add_adapter a (ib\<lparr>ib_agent_runs := AList.update g (a, rid) (ib_agent_runs ib)\<rparr>))"

definition live_owner :: "adapter_view \<Rightarrow> string \<Rightarrow> string option" where
  "live_owner v rid = map_of (av_owners v) rid"

definition agents_of :: "adapter_view \<Rightarrow> (string \<times> agent) list" where
  "agents_of v = (case av_agents v of None \<Rightarrow> [] | Some m \<Rightarrow> m)"

fun scan_adapters :: "(adapter \<Rightarrow> adapter_view) \<Rightarrow> agent \<Rightarrow> adapter list \<Rightarrow> (adapter \<times> string) option" where
  "scan_adapters view g [] = None"
| "scan_adapters view g (a # as) = (case first_where (\<lambda>(r, c). c = g) (agents_of (view a)) of
     Some (r, _) \<Rightarrow> Some (a, r) | None \<Rightarrow> scan_adapters view g as)"

definition resolve_agent_run :: "(adapter \<Rightarrow> adapter_view) \<Rightarrow> agent \<Rightarrow> inbox
    \<Rightarrow> (adapter \<times> string \<times> string option) option \<times> inbox" where
  "resolve_agent_run view g ib =
     (if ib_closed ib then (None, ib)
      else case map_of (ib_agent_runs ib) g of
        Some (a, rid) \<Rightarrow> (Some (a, rid, live_owner (view a) rid), ib)
      | None \<Rightarrow> (case scan_adapters view g (ib_adapters ib) of
          None \<Rightarrow> (None, ib)
        | Some (a, rid) \<Rightarrow> (Some (a, rid, live_owner (view a) rid),
            ib\<lparr>ib_agent_runs := AList.update g (a, rid) (ib_agent_runs ib)\<rparr>)))"

text \<open>\<open>observe_status\<close>: whether the ready hook is called, and the registry after it.\<close>

definition observe_status :: "adapter \<Rightarrow> string \<Rightarrow> string \<Rightarrow> inbox \<Rightarrow> bool \<times> inbox" where
  "observe_status a rid status ib =
     (if \<not> ib_hook ib then (False, ib)
      else let now_accepting = status \<in> set STEERABLE;
               previous = (map_of (ib_accepting ib) (a, rid) = Some True)
           in (now_accepting \<and> \<not> previous,
               ib\<lparr>ib_accepting := AList.update (a, rid) now_accepting (ib_accepting ib)\<rparr>))"

section \<open>Decision tables\<close>

definition verdict :: "string \<Rightarrow> agent option \<Rightarrow> bool \<Rightarrow> string \<times> string" where
  "verdict status ag epoch_ok =
     (if \<not> epoch_ok then (''stale'', ''server_epoch'')
      else if status \<in> set TERMINAL then (''closed'', ''run_terminal'')
      else if status = ''stopping'' then (''closed'', ''run_stopping'')
      else if status = ''queued'' \<or> ag = None then (''not_ready'', ''run_not_bound'')
      else if status \<in> set STEERABLE then (''admit'', status)
      else (''closed'', ''run_state_unknown''))"

text \<open>An admission row of the core's authority, as far as the inbox reads it.\<close>

record admission =
  ad_status :: "string option"
  ad_target :: "string option"
  ad_generation :: int

definition status_text :: "string option \<Rightarrow> string" where
  "status_text s = (case s of None \<Rightarrow> [] | Some t \<Rightarrow> t)"

definition authority_verdict :: "adapter_view \<Rightarrow> string \<Rightarrow> admission \<Rightarrow> string option \<Rightarrow> bool
    \<Rightarrow> string \<times> string" where
  "authority_verdict v rid row status epoch_ok =
     (if \<not> epoch_ok then (''stale'', ''server_epoch'')
      else if status_text status \<in> set TERMINAL then (''closed'', ''run_terminal'')
      else if status_text status = ''stopping'' \<or> rid \<in> set (av_stopping v) then (''closed'', ''run_stopping'')
      else if ad_status row = Some ''started'' then (''admit'', ''running'')
      else if ad_status row = Some ''queued'' then (''not_ready'', ''run_queued'')
      else if ad_status row = Some ''terminal'' then (''closed'', ''run_terminal'')
      else (''closed'', ''run_state_unknown''))"

text \<open>
  What the core answers a native steer: \<open>au_known\<close> that it holds the session, \<open>au_fence\<close> that the
  generation check passes, then the answer of \<open>steer_agent\<close>: a \<open>RuntimeStoreError\<close>, a latch, or an
  agent, whose \<open>steer\<close> is not callable or answers the truth value given.
\<close>

datatype steer_answer = SteerRaises | Latched | Adopted "bool option"

record authority =
  au_known :: bool
  au_fence :: bool
  au_answer :: steer_answer

definition steer_through_authority :: "authority \<Rightarrow> bool" where
  "steer_through_authority au =
     (if \<not> au_known au \<or> \<not> au_fence au then False
      else case au_answer au of
        SteerRaises \<Rightarrow> False
      | Latched \<Rightarrow> True
      | Adopted None \<Rightarrow> False
      | Adopted (Some taken) \<Rightarrow> taken)"

datatype binding = BindRaises | Unbound | Bound authority admission

text \<open>
  \<open>synthetic\<close> is the answer of the installed resolver for this run id (\<open>None\<close>: no resolver or not
  its id), \<open>lookup\<close> that of the core's \<open>run_admission\<close>.
\<close>

definition authority_binding :: "binding option \<Rightarrow> bool \<Rightarrow> binding \<Rightarrow> binding" where
  "authority_binding synthetic has_authority lookup =
     (case synthetic of
        Some b \<Rightarrow> b
      | None \<Rightarrow> if has_authority then lookup else Unbound)"

section \<open>Admission\<close>

record steer_request =
  rq_owner :: "string option"
  rq_run :: string
  rq_status :: "string option"
  rq_agent :: "agent option"
  rq_session :: "string option"
  rq_input :: string
  rq_key :: string
  rq_epoch :: "string option"

datatype payload =
    Code string | ExpiredId string | Receipt steer_receipt | AcceptedReceipt steer_receipt "string option"

text \<open>An exception that leaves the inbox: a lookup of a missing field, or the store's.\<close>

datatype inbox_error = MissingField string | StoreError steer_error | BadValue

type_synonym answer = "inbox_error + string \<times> payload"

record steer_world =
  sw_store :: steer_store
  sw_handed :: "(string \<times> string \<times> string) list"

definition or_else :: "string option \<Rightarrow> string option \<Rightarrow> string option" where
  "or_else a b = (case present a of Some x \<Rightarrow> Some x | None \<Rightarrow> b)"

definition find_key :: "string \<Rightarrow> string \<Rightarrow> string \<Rightarrow> steer_store \<Rightarrow> steer option" where
  "find_key owner rid key st = get_by steer_key (owner, rid, key) (ss_steers st)"

definition duplicate :: "(string \<Rightarrow> string) \<Rightarrow> string option \<Rightarrow> string \<Rightarrow> string \<Rightarrow> string \<Rightarrow> string
    \<Rightarrow> steer_store \<Rightarrow> (string \<times> payload) option" where
  "duplicate sha epoch owner rid key inp st =
     (case find_key owner rid key st of
        None \<Rightarrow> None
      | Some hit \<Rightarrow> if sr_digest hit \<noteq> sha inp then Some (''conflict'', Code ''steer_identity_conflict'')
          else Some (''duplicate'', Receipt (receipt_of hit epoch)))"

text \<open>\<open>if owner_scope:\<close> guards the duplicate lookup, so an empty scope skips it.\<close>

definition known_answer :: "(string \<Rightarrow> string) \<Rightarrow> string option \<Rightarrow> steer_request \<Rightarrow> steer_store
    \<Rightarrow> (string \<times> payload) option" where
  "known_answer sha epoch rq st = (case present (rq_owner rq) of
     None \<Rightarrow> None
   | Some owner \<Rightarrow> duplicate sha epoch owner (rq_run rq) (rq_key rq) (rq_input rq) st)"

definition accepted_receipt :: "string option \<Rightarrow> steer \<Rightarrow> string option \<Rightarrow> payload" where
  "accepted_receipt epoch s sid = AcceptedReceipt ((receipt_of s epoch)\<lparr>rc_state := Accepted\<rparr>) sid"

definition live_status :: "adapter_view \<Rightarrow> steer_request \<Rightarrow> string option" where
  "live_status v rq = (case av_statuses v of
     None \<Rightarrow> rq_status rq
   | Some m \<Rightarrow> (case map_of m (rq_run rq) of None \<Rightarrow> rq_status rq | Some s \<Rightarrow> s))"

definition live_agent :: "adapter_view \<Rightarrow> steer_request \<Rightarrow> agent option" where
  "live_agent v rq = (case av_agents v of None \<Rightarrow> rq_agent rq | Some m \<Rightarrow> map_of m (rq_run rq))"

definition epoch_ok :: "string option \<Rightarrow> steer_request \<Rightarrow> bool" where
  "epoch_ok epoch rq \<longleftrightarrow> rq_epoch rq = None \<or> rq_epoch rq = epoch"

text \<open>The core takes the text, and the receipt row is written.\<close>

definition hand_over :: "(string \<Rightarrow> string) \<Rightarrow> time \<Rightarrow> string option \<Rightarrow> admission \<Rightarrow> string \<Rightarrow> steer_request
    \<Rightarrow> steer_world \<Rightarrow> answer \<times> steer_world" where
  "hand_over sha now epoch row owner rq w =
     (let sid = or_else (rq_session rq) (ad_target row);
          w' = w\<lparr>sw_handed := sw_handed w @ [(owner, rq_run rq, rq_key rq)]\<rparr>
      in case record_handoff sha now owner (rq_run rq) (rq_key rq) (rq_input rq) sid
                (or_else (ad_target row) sid) epoch (sw_store w) of
           (Inl e, st) \<Rightarrow> (Inl (StoreError e), w'\<lparr>sw_store := st\<rparr>)
         | (Inr s, st) \<Rightarrow> (Inr (''accepted'', accepted_receipt epoch s sid), w'\<lparr>sw_store := st\<rparr>))"

definition admit_via_authority :: "(string \<Rightarrow> string) \<Rightarrow> time \<Rightarrow> string option \<Rightarrow> adapter_view
    \<Rightarrow> authority \<Rightarrow> admission \<Rightarrow> steer_request \<Rightarrow> steer_world \<Rightarrow> answer \<times> steer_world" where
  "admit_via_authority sha now epoch v au row rq w =
     (let (kind, code) = authority_verdict v (rq_run rq) row (live_status v rq) (epoch_ok epoch rq)
      in case known_answer sha epoch rq (sw_store w) of
           Some known \<Rightarrow> (Inr known, w)
         | None \<Rightarrow>
             if kind \<noteq> ''admit'' then (Inr (kind, Code code), w)
             else case rq_owner rq of
               None \<Rightarrow> (Inr (''closed'', Code ''run_not_bound''), w)
             | Some owner \<Rightarrow> (case handoff_gate owner (rq_run rq) (rq_key rq) (sw_store w) of
                 GateExpired \<Rightarrow> (Inr (''expired'', ExpiredId (derive_steer_id sha owner (rq_run rq) (rq_key rq))), w)
               | GateClosed \<Rightarrow> (Inr (''closed'', Code ''run_sealed''), w)
               | GateOpen \<Rightarrow>
                   if \<not> steer_through_authority au
                   then (Inr (''closed'', Code ''run_not_accepting_steer''), w)
                   else hand_over sha now epoch row owner rq w))"

text \<open>
  The answer to a verdict of \<open>steer_store.admit\<close>. A purged key's verdict carries only its
  \<open>steer_id\<close>, and \<open>receipt_of\<close> reads \<open>run_id\<close> from it.
\<close>

fun answer_of :: "string option \<Rightarrow> string option \<Rightarrow> steer_error + admit_result \<Rightarrow> answer" where
  "answer_of epoch sid (Inl e) = Inl (StoreError e)"
| "answer_of epoch sid (Inr (Duplicate s)) = Inr (''duplicate'', Receipt (receipt_of s epoch))"
| "answer_of epoch sid (Inr (Conflict s)) = Inr (''conflict'', Code ''steer_identity_conflict'')"
| "answer_of epoch sid (Inr (Expired i)) = Inl (MissingField ''run_id'')"
| "answer_of epoch sid (Inr (QueueFull n)) = Inr (''queue_full'', Code ''steer_queue_full'')"
| "answer_of epoch sid (Inr (Closed r)) = Inr (''closed'', Code ''run_sealed'')"
| "answer_of epoch sid (Inr (Admitted s)) = Inr (''accepted'', accepted_receipt epoch s sid)"

text \<open>The live identity, read inside the guard: an agent without a status row is running.\<close>

definition legacy_verdict :: "string option \<Rightarrow> adapter_view \<Rightarrow> steer_request \<Rightarrow> string \<times> string" where
  "legacy_verdict epoch v rq =
     verdict (status_text (if live_status v rq = None \<and> live_agent v rq \<noteq> None
                then Some ''running'' else live_status v rq))
       (live_agent v rq) (epoch_ok epoch rq)"

definition admit_legacy :: "(string \<Rightarrow> string) \<Rightarrow> time \<Rightarrow> string option \<Rightarrow> adapter_view
    \<Rightarrow> steer_request \<Rightarrow> steer_world \<Rightarrow> answer \<times> steer_world" where
  "admit_legacy sha now epoch v rq w =
     (let (kind, code) = legacy_verdict epoch v rq
      in case known_answer sha epoch rq (sw_store w) of
           Some known \<Rightarrow> (Inr known, w)
         | None \<Rightarrow>
             if kind \<noteq> ''admit'' then (Inr (kind, Code code), w)
             else case rq_owner rq of
               None \<Rightarrow> (Inr (''closed'', Code ''run_not_bound''), w)
             | Some owner \<Rightarrow>
                 let st1 = snd (register_run owner (rq_run rq) (rq_session rq) (rq_session rq) epoch (sw_store w));
                     (res, st2) = admit sha now owner (rq_run rq) (rq_key rq) (rq_input rq)
                                    (rq_session rq) (rq_session rq) epoch st1
                 in (answer_of epoch (rq_session rq) res, w\<lparr>sw_store := st2\<rparr>))"

definition admit_request :: "(string \<Rightarrow> string) \<Rightarrow> time \<Rightarrow> string option \<Rightarrow> adapter_view \<Rightarrow> binding
    \<Rightarrow> steer_request \<Rightarrow> steer_world \<Rightarrow> answer \<times> steer_world" where
  "admit_request sha now epoch v b rq w =
     (case b of
        BindRaises \<Rightarrow> (Inr (''closed'', Code ''run_state_unknown''), w)
      | Bound au row \<Rightarrow> admit_via_authority sha now epoch v au row rq w
      | Unbound \<Rightarrow> admit_legacy sha now epoch v rq w)"

section \<open>Reads\<close>

record steer_listing =
  li_run :: string
  li_epoch :: "string option"
  li_accepting :: bool
  li_reason :: string
  li_revision :: int
  li_overflow :: bool
  li_steers :: "steer_receipt list"

definition listing_reason :: "run option \<Rightarrow> string \<Rightarrow> bool \<times> string" where
  "listing_reason run live =
     (if (case run of Some r \<Rightarrow> rn_reason r \<noteq> None | None \<Rightarrow> False) then (False, ''closed'')
      else if live \<in> set STEERABLE then (True, live)
      else if live = [] then (False, ''run_expired'')
      else if live = ''stopping'' then (False, ''run_stopping'')
      else (False, ''run_not_ready''))"

definition listing :: "string option \<Rightarrow> string \<Rightarrow> string option \<Rightarrow> string option \<Rightarrow> int \<Rightarrow> nat
    \<Rightarrow> steer_store \<Rightarrow> steer_listing" where
  "listing epoch rid owner status after limit st =
     (let (rows, overflow) = (case present owner of
            None \<Rightarrow> ([], False) | Some ow \<Rightarrow> list_steers ow rid after limit st);
          run = (case present owner of None \<Rightarrow> None | Some ow \<Rightarrow> get_run ow rid st);
          (accepting, reason) = listing_reason run (status_text status);
          shown = (if rows = [] then 0 else Max (set (map sr_seq rows)))
      in \<lparr>li_run = rid, li_epoch = epoch, li_accepting = accepting, li_reason = reason,
          li_revision = (case run of None \<Rightarrow> shown | Some r \<Rightarrow> max shown (rn_next r - 1)),
          li_overflow = overflow, li_steers = map (\<lambda>s. receipt_of s epoch) rows\<rparr>)"

definition receipt :: "string option \<Rightarrow> string option \<Rightarrow> string \<Rightarrow> string \<Rightarrow> steer_store
    \<Rightarrow> steer_receipt option" where
  "receipt epoch owner rid sid st = (case present owner of
     None \<Rightarrow> None
   | Some ow \<Rightarrow> map_option (\<lambda>s. receipt_of s epoch) (get_steer ow rid sid st))"

definition durable_run :: "string option \<Rightarrow> string \<Rightarrow> steer_store \<Rightarrow> bool" where
  "durable_run owner rid st = (case present owner of
     None \<Rightarrow> False | Some ow \<Rightarrow> get_run ow rid st \<noteq> None)"

section \<open>The seal\<close>

text \<open>The owner by the adapter, then by the bound agents of the very same run.\<close>

definition seal_owner :: "(adapter \<Rightarrow> adapter_view) \<Rightarrow> adapter \<Rightarrow> string \<Rightarrow> inbox \<Rightarrow> string option" where
  "seal_owner view a rid ib = (case live_owner (view a) rid of
     Some ow \<Rightarrow> Some ow
   | None \<Rightarrow> (case first_where (\<lambda>(g, ad, r). ad = a \<and> r = rid) (ib_agent_runs ib) of
       None \<Rightarrow> None
     | Some (g, ad, r) \<Rightarrow> live_owner (view ad) r))"

definition seal :: "(adapter \<Rightarrow> adapter_view) \<Rightarrow> time \<Rightarrow> adapter \<Rightarrow> string \<Rightarrow> string \<Rightarrow> inbox
    \<Rightarrow> steer_store \<Rightarrow> steer_store" where
  "seal view now a rid reason ib st = (case seal_owner view a rid ib of
     None \<Rightarrow> st | Some ow \<Rightarrow> snd (seal_run now ow rid reason st))"

section \<open>Injection at a tool boundary\<close>

text \<open>
  A message as the core keeps it. The calls of an assistant row are their ids (\<open>None\<close>: no usable
  id); \<open>cr_meta\<close> is \<open>display_metadata\<close>, \<^const>\<open>JNull\<close> when absent; \<open>cr_row\<close> is the row id a flush
  has given it.
\<close>

record chat_row =
  cr_role :: string
  cr_content :: string
  cr_calls :: "string option list"
  cr_call_id :: "string option"
  cr_kind :: "string option"
  cr_meta :: json
  cr_persisted :: bool
  cr_row :: "int option"

record prompt_api =
  pa_open :: string
  pa_close :: string
  pa_kind :: string
  pa_format :: "string \<Rightarrow> string"
  pa_user_row :: "string \<Rightarrow> chat_row"

fun join_lines :: "string list \<Rightarrow> string" where
  "join_lines [] = []"
| "join_lines [l] = l"
| "join_lines (l # ls) = l @ CHR 0x0A # join_lines ls"

text \<open>The rows behind the newest assistant row that calls tools, newest first.\<close>

fun split_tail :: "chat_row list \<Rightarrow> chat_row list \<Rightarrow> (chat_row \<times> chat_row list) option" where
  "split_tail tail [] = None"
| "split_tail tail (r # rs) = (if cr_role r = ''assistant'' \<and> cr_calls r \<noteq> [] then Some (r, tail)
     else split_tail (r # tail) rs)"

definition tail_tools_complete :: "chat_row list \<Rightarrow> bool" where
  "tail_tools_complete messages = (case split_tail [] (rev messages) of
     None \<Rightarrow> False
   | Some (a, tail) \<Rightarrow> tail \<noteq> [] \<and> list_all (\<lambda>r. cr_role r = ''tool'') tail
       \<and> (let wanted = filter (\<lambda>c. present c \<noteq> None) (cr_calls a)
          in wanted \<noteq> [] \<and> set wanted \<subseteq> set (map cr_call_id tail)))"

definition native_inner :: "prompt_api \<Rightarrow> string \<Rightarrow> string option" where
  "native_inner pb content =
     (let opener = pa_open pb @ [CHR 0x0A]; closer = CHR 0x0A # pa_close pb
      in if \<not> starts_with opener content \<or> \<not> ends_with closer content then None
         else Some (drop (length opener) (take (length content - length closer) content)))"

text \<open>Where the steer may go: behind a complete batch, into an unpersisted native row, or nowhere.\<close>

datatype boundary = Append | Merge chat_row string | Wait

definition boundary_of :: "prompt_api \<Rightarrow> chat_row list \<Rightarrow> boundary" where
  "boundary_of pb messages = (case rev messages of
     [] \<Rightarrow> Wait
   | tail # _ \<Rightarrow>
       if cr_role tail = ''tool'' then (if tail_tools_complete messages then Append else Wait)
       else if cr_role tail = ''user'' \<and> cr_kind tail = Some (pa_kind pb) \<and> \<not> cr_persisted tail
       then (case native_inner pb (cr_content tail) of None \<Rightarrow> Wait | Some inner \<Rightarrow> Merge tail inner)
       else Wait)"

definition steer_line :: "steer \<Rightarrow> string" where
  "steer_line s = CHR ''#'' # show_int (sr_seq s) @ '': '' @ sr_input s"

definition steer_meta :: "string \<Rightarrow> string \<Rightarrow> steer list \<Rightarrow> json" where
  "steer_meta rid bid items = JObj [(''schema'', JInt STEER_METADATA_SCHEMA), (''run_id'', JStr rid),
     (''batch_id'', JStr bid), (''items'', JArr (map (\<lambda>s. JObj [(''steer_id'', JStr (sr_id s)),
        (''sequence'', JInt (sr_seq s)), (''input'', JStr (sr_input s))]) items))]"

text \<open>\<open>dict(v or {})\<close>; other values than an object or a false one raise.\<close>

fun dict_or_empty :: "json \<Rightarrow> (string \<times> json) list option" where
  "dict_or_empty (JObj kvs) = Some kvs"
| "dict_or_empty JNull = Some []"
| "dict_or_empty (JBool b) = (if b then None else Some [])"
| "dict_or_empty (JInt i) = (if i = 0 then Some [] else None)"
| "dict_or_empty (JReal r) = (if r = 0 then Some [] else None)"
| "dict_or_empty (JStr s) = (if s = [] then Some [] else None)"
| "dict_or_empty (JArr xs) = (if xs = [] then Some [] else None)"

definition inject_row :: "prompt_api \<Rightarrow> string \<Rightarrow> string \<Rightarrow> steer list \<Rightarrow> boundary \<Rightarrow> chat_row list
    \<Rightarrow> inbox_error + chat_row list" where
  "inject_row pb rid bid items place messages =
     (case place of
        Wait \<Rightarrow> Inr messages
      | Append \<Rightarrow> Inr (messages @ [(pa_user_row pb (join_lines (map steer_line items)))
            \<lparr>cr_meta := JObj [(STEER_METADATA_FIELD, steer_meta rid bid items)]\<rparr>])
      | Merge row inner \<Rightarrow> (case dict_or_empty (cr_meta row) of
          None \<Rightarrow> Inl BadValue
        | Some kvs \<Rightarrow> Inr (butlast messages @ [row\<lparr>
              cr_content := py_lstrip (pa_format pb (inner @ CHR 0x0A # join_lines (map steer_line items))),
              cr_meta := JObj (AList.update STEER_METADATA_FIELD (steer_meta rid bid items) kvs)\<rparr>])))"

definition boundary_claim :: "prompt_api \<Rightarrow> time \<Rightarrow> string \<Rightarrow> string \<Rightarrow> string \<Rightarrow> int \<Rightarrow> chat_row list
    \<Rightarrow> steer_store \<Rightarrow> (inbox_error + chat_row list) \<times> steer_store" where
  "boundary_claim pb now owner rid bid num messages st =
     (case get_run owner rid st of
        None \<Rightarrow> (Inr messages, st)
      | Some run \<Rightarrow>
          if rn_reason run \<noteq> None then (Inr messages, st)
          else if num \<le> 0 \<or> messages = [] then (Inr messages, st)
          else if boundary_of pb messages = Wait then (Inr messages, st)
          else (case claim_batch now owner rid bid st of
              (Inl e, st') \<Rightarrow> (Inl (StoreError e), st')
            | (Inr None, st') \<Rightarrow> (Inr messages, st')
            | (Inr (Some items), st') \<Rightarrow>
                (inject_row pb rid bid items (boundary_of pb messages) messages, st')))"

definition on_tool_boundary :: "prompt_api \<Rightarrow> bool \<Rightarrow> (adapter \<Rightarrow> adapter_view) \<Rightarrow> time \<Rightarrow> string
    \<Rightarrow> agent \<Rightarrow> int \<Rightarrow> chat_row list \<Rightarrow> inbox \<times> steer_store
    \<Rightarrow> (inbox_error + chat_row list) \<times> inbox \<times> steer_store" where
  "on_tool_boundary pb capability view now bid g num messages w =
     (let (ib, st) = w in
      if \<not> capability \<or> ib_closed ib then (Inr messages, ib, st)
      else case resolve_agent_run view g ib of
        (None, ib') \<Rightarrow> (Inr messages, ib', st)
      | (Some (a, rid, owner), ib') \<Rightarrow>
          (case present (coalesce owner (live_owner (view a) rid)) of
             None \<Rightarrow> (Inr messages, ib', st)
           | Some ow \<Rightarrow> (let (res, st') = boundary_claim pb now ow rid bid num messages st
                        in (res, ib', st'))))"

section \<open>Confirmation of flushed rows\<close>

text \<open>\<open>int(v or 0)\<close>; \<^const>\<open>None\<close> when it raises.\<close>

fun int_or_zero :: "json option \<Rightarrow> int option" where
  "int_or_zero None = Some 0"
| "int_or_zero (Some JNull) = Some 0"
| "int_or_zero (Some (JBool b)) = Some (if b then 1 else 0)"
| "int_or_zero (Some (JInt i)) = Some i"
| "int_or_zero (Some (JReal r)) = Some (if r < 0 then \<lceil>r\<rceil> else \<lfloor>r\<rfloor>)"
| "int_or_zero (Some (JStr s)) = (if s = [] then Some 0 else py_int s)"
| "int_or_zero (Some (JArr xs)) = (if xs = [] then Some 0 else None)"
| "int_or_zero (Some (JObj kvs)) = (if kvs = [] then Some 0 else None)"

text \<open>The steer block of a row's metadata, when both are objects.\<close>

definition steer_block :: "json \<Rightarrow> (string \<times> json) list option" where
  "steer_block meta = (case jget STEER_METADATA_FIELD meta of Some (JObj kvs) \<Rightarrow> Some kvs | _ \<Rightarrow> None)"

text \<open>The batch a flushed row confirms: \<open>Inl\<close> when \<open>int(schema)\<close> raises.\<close>

definition flushed_batch :: "chat_row \<Rightarrow> inbox_error + (string \<times> string) option" where
  "flushed_batch r = (case steer_block (cr_meta r) of
     None \<Rightarrow> Inr None
   | Some kvs \<Rightarrow> (case int_or_zero (map_of kvs ''schema'') of
       None \<Rightarrow> Inl BadValue
     | Some n \<Rightarrow> if n \<noteq> STEER_METADATA_SCHEMA then Inr None
         else (case map_of kvs ''batch_id'' of
             Some (JStr bid) \<Rightarrow> if bid = [] then Inr None
                 else Inr (map_option (\<lambda>i. (bid, show_int i)) (cr_row r))
           | _ \<Rightarrow> Inr None)))"

fun confirm_flushed_rows :: "time \<Rightarrow> chat_row list \<Rightarrow> steer_store \<Rightarrow> inbox_error option \<times> steer_store" where
  "confirm_flushed_rows now [] st = (None, st)"
| "confirm_flushed_rows now (r # rs) st = (case flushed_batch r of
     Inl e \<Rightarrow> (Some e, st)
   | Inr None \<Rightarrow> confirm_flushed_rows now rs st
   | Inr (Some (bid, row)) \<Rightarrow> confirm_flushed_rows now rs (confirm_batch now bid row st))"

section \<open>Recovery\<close>

definition live_run_ids :: "(adapter \<Rightarrow> adapter_view) \<Rightarrow> inbox \<Rightarrow> string list" where
  "live_run_ids view ib = map (\<lambda>(g, a, rid). rid) (ib_agent_runs ib)
     @ concat (map (\<lambda>a. map fst (agents_of (view a))) (ib_adapters ib))"

text \<open>
  The scan of a session for the batch's row. \<open>Inl\<close> is the exception that the caller answers with
  \<^const>\<open>None\<close>, as it does when the read itself fails.
\<close>

fun scan_committed :: "string \<Rightarrow> message list \<Rightarrow> inbox_error + int option" where
  "scan_committed bid [] = Inr None"
| "scan_committed bid (m # ms) = (case Option.bind (msg_meta m) steer_block of
     None \<Rightarrow> scan_committed bid ms
   | Some kvs \<Rightarrow> if map_of kvs ''batch_id'' \<noteq> Some (JStr bid) then scan_committed bid ms
       else (case int_or_zero (map_of kvs ''schema'') of
           None \<Rightarrow> Inl BadValue
         | Some n \<Rightarrow> if n = STEER_METADATA_SCHEMA then Inr (Some (msg_id m)) else scan_committed bid ms))"

definition find_committed_batch :: "(string \<Rightarrow> message list option) \<Rightarrow> string \<Rightarrow> string \<Rightarrow> string
    \<Rightarrow> steer_store \<Rightarrow> int option" where
  "find_committed_batch messages owner rid bid st =
     (case present (case get_run owner rid st of None \<Rightarrow> None | Some r \<Rightarrow> or_else (rn_resolved r) (rn_orig r)) of
        None \<Rightarrow> None
      | Some sid \<Rightarrow> (case messages sid of
          None \<Rightarrow> None
        | Some ms \<Rightarrow> (case scan_committed bid ms of Inl _ \<Rightarrow> None | Inr found \<Rightarrow> found)))"

record repaired =
  rp_delivered :: nat
  rp_unknown :: nat
  rp_retired :: nat

definition retire_run :: "string list \<Rightarrow> time \<Rightarrow> string \<times> string \<Rightarrow> repaired \<times> steer_store
    \<Rightarrow> repaired \<times> steer_store" where
  "retire_run live now k acc = (case (k, acc) of ((owner, rid), (n, st)) \<Rightarrow>
     if rid \<in> set live then (n, st)
     else if run_closed owner rid st \<noteq> None then (n, st)
     else (n\<lparr>rp_retired := Suc (rp_retired n)\<rparr>, snd (seal_run now owner rid ''restart_stale_epoch'' st)))"

definition recover_batch :: "(string \<Rightarrow> message list option) \<Rightarrow> time \<Rightarrow> steer_batch
    \<Rightarrow> repaired \<times> steer_store \<Rightarrow> repaired \<times> steer_store" where
  "recover_batch messages now b acc = (case acc of (n, st) \<Rightarrow>
     (case find_committed_batch messages (sb_owner b) (sb_run b) (sb_id b) st of
        Some row \<Rightarrow> (n\<lparr>rp_delivered := Suc (rp_delivered n)\<rparr>, confirm_batch now (sb_id b) (show_int row) st)
      | None \<Rightarrow> (n\<lparr>rp_unknown := Suc (rp_unknown n)\<rparr>,
                 mark_outcome_unknown now (sb_id b) ''restart_unconfirmed'' st)))"

definition recover :: "string list \<Rightarrow> (string \<Rightarrow> message list option) \<Rightarrow> time \<Rightarrow> time \<Rightarrow> steer_store
    \<Rightarrow> repaired \<times> steer_store" where
  "recover live messages now stamp st =
     (let (n1, st1) = fold (retire_run live now) (accepted_runs st)
            (\<lparr>rp_delivered = 0, rp_unknown = 0, rp_retired = 0\<rparr>, st);
          (n2, st2) = fold (recover_batch messages now) (staged_batches st1) (n1, st1)
      in (n2, snd (prune_expired now stamp st2)))"

end
