(* ===== verification/Steer_Inbox_Properties.thy ===== *)
theory Steer_Inbox_Properties
  imports Steer_Inbox
begin

text \<open>
  What the live side of the steer inbox promises: the core is handed a steer once, a retry finds its
  receipt, what is injected at a tool boundary is what a later flush confirms, and a recovery leaves
  nothing half done.
\<close>

section \<open>The identity of a steer\<close>

text \<open>What no operation but the purge takes from a row.\<close>

definition ident :: "steer \<Rightarrow> string \<times> (string \<times> string \<times> string) \<times> int \<times> string" where
  "ident s = (sr_id s, steer_key s, sr_seq s, sr_digest s)"

definition op_key :: "steer_op \<Rightarrow> (string \<times> string \<times> string) list" where
  "op_key op = (case op of
     Admit now ow rid key inp og rs ep \<Rightarrow> [(ow, rid, key)]
   | RecordHandoff now ow rid key inp og rs ep \<Rightarrow> [(ow, rid, key)]
   | _ \<Rightarrow> [])"

definition is_prune :: "steer_op \<Rightarrow> bool" where
  "is_prune op = (case op of Prune _ _ \<Rightarrow> True | _ \<Rightarrow> False)"

definition minted :: "(string \<Rightarrow> string) \<Rightarrow> (string \<times> string \<times> string) list \<Rightarrow> steer list \<Rightarrow> bool" where
  "minted sha ks ss \<longleftrightarrow> (\<forall>s \<in> set ss. steer_key s \<in> set ks
     \<and> sr_id s = derive_steer_id sha (sr_owner s) (sr_run s) (sr_key s))"

text \<open>An operation's table of steers: the rows it had, possibly moved on, and rows it minted.\<close>

definition grown :: "(string \<Rightarrow> string) \<Rightarrow> (string \<times> string \<times> string) list \<Rightarrow> steer list \<Rightarrow> steer list \<Rightarrow> bool" where
  "grown sha ks old new \<longleftrightarrow> (\<exists>moved fresh. new = moved @ fresh \<and> map ident moved = map ident old
     \<and> minted sha ks fresh)"

lemma grownI: "map ident moved = map ident old \<Longrightarrow> minted sha ks fresh \<Longrightarrow> grown sha ks old (moved @ fresh)"
  by (auto simp: grown_def)

lemma grown_same: "grown sha ks t t"
  using grownI [of t t sha ks "[]"] by (simp add: minted_def)

lemma grown_upd:
  "(\<And>r. P r \<Longrightarrow> ident (f r) = ident r) \<Longrightarrow> grown sha ks t (upd_where P f t)"
  using grownI [of "upd_where P f t" t sha ks "[]"] by (simp add: minted_def map_upd_where)

lemma grown_insert:
  "grown sha [(ow, rid, key)] (ss_steers st)
     (ss_steers (snd (insert_steer (new_steer sha now ow rid key inp seq state err) runs st)))"
  using grownI [of "ss_steers st" "ss_steers st" sha _ "[new_steer sha now ow rid key inp seq state err]"]
  by (auto simp: insert_steer_def minted_def new_steer_def grown_same)

lemma grown_more: "grown sha ks old new \<Longrightarrow> set ks \<subseteq> set ks' \<Longrightarrow> grown sha ks' old new"
  by (fastforce simp: grown_def minted_def)

lemma grown_admit:
  "grown sha [(ow, rid, key)] (ss_steers st) (ss_steers (snd (admit sha now ow rid key inp og rs ep st)))"
  by (rule admit_cases [of sha now ow rid key inp og rs ep st]) (simp_all add: grown_same grown_insert)

lemma grown_record_handoff:
  "grown sha [(ow, rid, key)] (ss_steers st)
     (ss_steers (snd (record_handoff sha now ow rid key inp og rs ep st)))"
  by (auto simp: record_handoff_def grown_same grown_insert split: option.splits prod.splits)

lemma grown_step:
  assumes "\<not> is_prune op" shows "grown sha (op_key op) (ss_steers st) (ss_steers (steer_step sha op st))"
  using assms
  by (cases op) (auto simp: op_key_def is_prune_def grown_admit grown_record_handoff register_run_def
      seal_run_def claim_batch_def confirm_batch_def mark_outcome_unknown_def Let_def grown_same ident_def
      split: option.splits intro!: grown_upd)

lemma prune_steers: "set (ss_steers (snd (prune_expired now stamp st))) \<subseteq> set (ss_steers st)"
  unfolding prune_expired_def
  by (rule fold_prune_run [of "\<lambda>x. set (ss_steers x) \<subseteq> set (ss_steers st)"])
    (auto simp: prune_run_def Let_def set_del_where split: prod.splits)

lemma grown_minted:
  assumes "grown sha ks old new" "minted sha ks old" shows "minted sha ks new"
proof -
  from assms(1) obtain moved fresh where new: "new = moved @ fresh" "map ident moved = map ident old"
    "minted sha ks fresh" by (auto simp: grown_def)
  have "steer_key s \<in> set ks \<and> sr_id s = derive_steer_id sha (sr_owner s) (sr_run s) (sr_key s)"
    if "s \<in> set moved" for s
  proof -
    from that new(2) have "ident s \<in> ident ` set old" by (metis image_eqI image_set)
    then obtain s0 where "s0 \<in> set old" "ident s = ident s0" by auto
    with assms(2) show ?thesis by (auto simp: minted_def ident_def)
  qed
  with new show ?thesis by (auto simp: minted_def)
qed

lemma minted_step:
  assumes "minted sha ks (ss_steers st)" "set (op_key op) \<subseteq> set ks"
  shows "minted sha ks (ss_steers (steer_step sha op st))"
proof (cases "is_prune op")
  case True
  with assms prune_steers show ?thesis
    by (fastforce simp: is_prune_def minted_def split: steer_op.splits)
next
  case False
  with assms show ?thesis by (meson grown_minted grown_more grown_step)
qed

lemma minted_id_free:
  assumes "minted sha ks (ss_steers st)" "(ow, rid, key) \<in> set ks"
    and "inj_on (\<lambda>(p, r, k). derive_steer_id sha p r k) (set ks)"
    and "(ow, rid, key) \<notin> steer_key ` set (ss_steers st)"
  shows "get_by sr_id (derive_steer_id sha ow rid key) (ss_steers st) = None"
proof (rule ccontr)
  assume "get_by sr_id (derive_steer_id sha ow rid key) (ss_steers st) \<noteq> None"
  then obtain s where s: "s \<in> set (ss_steers st)" "sr_id s = derive_steer_id sha ow rid key"
    by (auto dest: get_by_SomeD)
  with assms(1) have "steer_key s \<in> set ks"
    "(\<lambda>(p, r, k). derive_steer_id sha p r k) (steer_key s) = (\<lambda>(p, r, k). derive_steer_id sha p r k) (ow, rid, key)"
    by (auto simp: minted_def)
  then have "steer_key s = (ow, rid, key)" using assms(2) by (intro inj_onD [OF assms(3)])
  with s assms(4) show False by force
qed

section \<open>Handing over to the core\<close>

text \<open>A request at the inbox, or any operation on its ledger in between.\<close>

datatype inbox_event =
    Request time "string option" adapter_view binding steer_request
  | Ledger steer_op

fun event_step :: "(string \<Rightarrow> string) \<Rightarrow> inbox_event \<Rightarrow> steer_world \<Rightarrow> steer_world" where
  "event_step sha (Request now epoch v b rq) w = snd (admit_request sha now epoch v b rq w)"
| "event_step sha (Ledger op) w = w\<lparr>sw_store := steer_step sha op (sw_store w)\<rparr>"

fun event_key :: "inbox_event \<Rightarrow> (string \<times> string \<times> string) list" where
  "event_key (Request now epoch v b rq) = (case rq_owner rq of
     None \<Rightarrow> [] | Some ow \<Rightarrow> [(ow, rq_run rq, rq_key rq)])"
| "event_key (Ledger op) = op_key op"

text \<open>An owner scope is absent or a nonempty name.\<close>

fun named :: "inbox_event \<Rightarrow> bool" where
  "named (Request now epoch v b rq) = (rq_owner rq \<noteq> Some [])"
| "named (Ledger op) = True"

definition start_world :: steer_world where
  "start_world = \<lparr>sw_store = steer_empty, sw_handed = []\<rparr>"

lemma known_answer_None:
  "known_answer sha epoch rq st = None \<Longrightarrow> rq_owner rq = Some ow \<Longrightarrow> ow \<noteq> [] \<Longrightarrow>
   (ow, rq_run rq, rq_key rq) \<notin> steer_key ` set (ss_steers st)"
  by (auto simp: known_answer_def present_def duplicate_def find_key_def get_by_None
      split: option.splits if_splits)

lemma gate_open: "handoff_gate ow rid key st = GateOpen \<Longrightarrow> \<not> is_purged ow rid key st \<and> run_closed ow rid st = None"
  by (auto simp: handoff_gate_def split: if_splits)

lemma hand_over_world:
  "\<exists>og rs. snd (hand_over sha now epoch row ow rq w) = \<lparr>
     sw_store = steer_step sha (RecordHandoff now ow (rq_run rq) (rq_key rq) (rq_input rq) og rs epoch) (sw_store w),
     sw_handed = sw_handed w @ [(ow, rq_run rq, rq_key rq)]\<rparr>"
proof (intro exI)
  let ?sid = "or_else (rq_session rq) (ad_target row)"
  show "snd (hand_over sha now epoch row ow rq w) = \<lparr>
     sw_store = steer_step sha (RecordHandoff now ow (rq_run rq) (rq_key rq) (rq_input rq) ?sid
       (or_else (ad_target row) ?sid) epoch) (sw_store w),
     sw_handed = sw_handed w @ [(ow, rq_run rq, rq_key rq)]\<rparr>"
    by (cases w) (simp add: hand_over_def Let_def split: prod.splits sum.splits)
qed

text \<open>A request leaves everything as it is, goes through the ledger's own operations, or is handed over.\<close>

lemma admit_request_cases:
  obtains (same) "snd (admit_request sha now epoch v b rq w) = w"
  | (legacy) ow where "rq_owner rq = Some ow"
      "snd (admit_request sha now epoch v b rq w) = w\<lparr>sw_store := steer_step sha
         (Admit now ow (rq_run rq) (rq_key rq) (rq_input rq) (rq_session rq) (rq_session rq) epoch)
         (steer_step sha (RegisterRun ow (rq_run rq) (rq_session rq) (rq_session rq) epoch) (sw_store w))\<rparr>"
  | (handed) ow og rs where "rq_owner rq = Some ow" "known_answer sha epoch rq (sw_store w) = None"
      "\<not> is_purged ow (rq_run rq) (rq_key rq) (sw_store w)"
      "snd (admit_request sha now epoch v b rq w) = \<lparr>
         sw_store = steer_step sha (RecordHandoff now ow (rq_run rq) (rq_key rq) (rq_input rq) og rs epoch) (sw_store w),
         sw_handed = sw_handed w @ [(ow, rq_run rq, rq_key rq)]\<rparr>"
proof (cases b)
  case BindRaises
  then show thesis by (intro same) (simp add: admit_request_def)
next
  case Unbound
  then have eq: "admit_request sha now epoch v b rq w = admit_legacy sha now epoch v rq w"
    by (simp add: admit_request_def)
  show thesis
  proof (cases "snd (admit_legacy sha now epoch v rq w) = w")
    case True
    with eq show thesis by (intro same) simp
  next
    case False
    then obtain ow where ow: "rq_owner rq = Some ow"
      by (auto simp: admit_legacy_def Let_def split: prod.splits option.splits if_splits)
    with False show thesis
      by (intro legacy [OF ow]) (auto simp: eq admit_legacy_def Let_def split: prod.splits option.splits if_splits)
  qed
next
  case (Bound au row)
  then have eq: "admit_request sha now epoch v b rq w = admit_via_authority sha now epoch v au row rq w"
    by (simp add: admit_request_def)
  show thesis
  proof (cases "snd (admit_via_authority sha now epoch v au row rq w) = w")
    case True
    with eq show thesis by (intro same) simp
  next
    case False
    then obtain ow where "rq_owner rq = Some ow" "known_answer sha epoch rq (sw_store w) = None"
      "handoff_gate ow (rq_run rq) (rq_key rq) (sw_store w) = GateOpen"
      "admit_via_authority sha now epoch v au row rq w = hand_over sha now epoch row ow rq w"
      by (auto simp: admit_via_authority_def Let_def split: prod.splits option.splits if_splits gate.splits)
    with hand_over_world [of sha now epoch row ow rq w] gate_open eq show thesis
      by (auto intro: handed)
  qed
qed

definition handed_ok :: "(string \<Rightarrow> string) \<Rightarrow> (string \<times> string \<times> string) list \<Rightarrow> steer_world \<Rightarrow> bool" where
  "handed_ok sha ks w \<longleftrightarrow> minted sha ks (ss_steers (sw_store w)) \<and> distinct (sw_handed w)
     \<and> (\<forall>k \<in> set (sw_handed w). key_spent k (sw_store w))"

lemma handed_ok_store:
  assumes "handed_ok sha ks w" "set (op_key op) \<subseteq> set ks"
  shows "handed_ok sha ks (w\<lparr>sw_store := steer_step sha op (sw_store w)\<rparr>)"
  using assms by (simp add: handed_ok_def minted_step key_spent_step)

lemma record_handoff_spends:
  assumes "get_by sr_id (derive_steer_id sha ow rid key) (ss_steers st) = None"
  shows "key_spent (ow, rid, key) (steer_step sha (RecordHandoff now ow rid key inp og rs ep) st)"
proof (cases "get_by steer_key (ow, rid, key) (ss_steers st)")
  case None
  with assms show ?thesis
    by (auto simp: record_handoff_def insert_steer_def new_steer_def key_spent_def split: prod.splits)
next
  case (Some s)
  then show ?thesis by (force simp: record_handoff_def key_spent_def dest: get_by_SomeD)
qed

lemma handed_ok_step:
  assumes ok: "handed_ok sha ks w" and ks: "set (event_key ev) \<subseteq> set ks" and ev: "named ev"
    and inj: "inj_on (\<lambda>(p, r, k). derive_steer_id sha p r k) (set ks)"
  shows "handed_ok sha ks (event_step sha ev w)"
proof (cases ev)
  case (Ledger op)
  with ok ks show ?thesis by (simp add: handed_ok_store)
next
  case (Request now epoch v b rq)
  show ?thesis
  proof (rule admit_request_cases [of sha now epoch v b rq w])
    assume "snd (admit_request sha now epoch v b rq w) = w"
    with ok Request show ?thesis by simp
  next
    fix ow :: string
    let ?reg = "RegisterRun ow (rq_run rq) (rq_session rq) (rq_session rq) epoch"
    let ?adm = "Admit now ow (rq_run rq) (rq_key rq) (rq_input rq) (rq_session rq) (rq_session rq) epoch"
    assume own: "rq_owner rq = Some ow" and res: "snd (admit_request sha now epoch v b rq w)
      = w\<lparr>sw_store := steer_step sha ?adm (steer_step sha ?reg (sw_store w))\<rparr>"
    have "handed_ok sha ks (w\<lparr>sw_store := steer_step sha ?reg (sw_store w)\<rparr>)"
      using ok by (rule handed_ok_store) (simp add: op_key_def)
    from handed_ok_store [OF this, of ?adm] ks own show ?thesis
      by (simp add: Request res op_key_def del: steer_step.simps)
  next
    fix ow :: string and og rs :: "string option"
    let ?k = "(ow, rq_run rq, rq_key rq)"
    let ?op = "RecordHandoff now ow (rq_run rq) (rq_key rq) (rq_input rq) og rs epoch"
    assume own: "rq_owner rq = Some ow" and new: "known_answer sha epoch rq (sw_store w) = None"
      and pur: "\<not> is_purged ow (rq_run rq) (rq_key rq) (sw_store w)"
      and res: "snd (admit_request sha now epoch v b rq w)
        = \<lparr>sw_store = steer_step sha ?op (sw_store w), sw_handed = sw_handed w @ [?k]\<rparr>"
    have k: "?k \<in> set ks" using ks own by (simp add: Request)
    have free: "?k \<notin> steer_key ` set (ss_steers (sw_store w))"
      by (rule known_answer_None [OF new own]) (use ev own in \<open>auto simp: Request\<close>)
    with pur have "\<not> key_spent ?k (sw_store w)" by (auto simp: key_spent_def is_purged_def get_by_None)
    then have "?k \<notin> set (sw_handed w)" using ok by (auto simp: handed_ok_def)
    moreover have "key_spent ?k (steer_step sha ?op (sw_store w))"
      using ok k inj free by (intro record_handoff_spends minted_id_free) (auto simp: handed_ok_def)
    ultimately show ?thesis
      using handed_ok_store [OF ok, of ?op] k by (simp add: Request res handed_ok_def op_key_def del: steer_step.simps)
  qed
qed

lemma handed_ok_run:
  assumes "handed_ok sha ks w" "set (concat (map event_key evs)) \<subseteq> set ks" "list_all named evs"
    and "inj_on (\<lambda>(p, r, k). derive_steer_id sha p r k) (set ks)"
  shows "handed_ok sha ks (fold (event_step sha) evs w)"
  using assms by (induction evs arbitrary: w) (simp_all add: handed_ok_step)

text \<open>
  C5. The core is handed a steer at most once: over any sequence of requests and ledger operations,
  purges included, no (scope, run, request) key reaches the core's native steer twice, and every
  key that did has a receipt or its tombstone. Only that the digests of the keys used do not
  collide is assumed, and that an owner scope is never the empty name.
\<close>

theorem core_handed_once:
  assumes "inj_on (\<lambda>(p, r, k). derive_steer_id sha p r k) (set (concat (map event_key evs)))"
    and "list_all named evs"
  shows "distinct (sw_handed (fold (event_step sha) evs start_world))
    \<and> set (sw_handed (fold (event_step sha) evs start_world))
        \<subseteq> {k. key_spent k (sw_store (fold (event_step sha) evs start_world))}"
proof -
  have "handed_ok sha (concat (map event_key evs)) start_world"
    by (simp add: handed_ok_def minted_def start_world_def steer_empty_def)
  from handed_ok_run [OF this order_refl assms(2,1)] show ?thesis
    by (auto simp: handed_ok_def)
qed

theorem core_handed_once_witness:
  "\<exists>evs. sw_handed (fold (event_step (\<lambda>s. s)) evs start_world) = [(''o'', ''r'', ''k'')]
     \<and> distinct (sw_handed (fold (event_step (\<lambda>s. s)) evs start_world)) \<and> length evs = 2"
proof -
  let ?rq = "\<lparr>rq_owner = Some ''o'', rq_run = ''r'', rq_status = Some ''running'', rq_agent = None,
    rq_session = Some ''s'', rq_input = ''x'', rq_key = ''k'', rq_epoch = None\<rparr>"
  let ?v = "\<lparr>av_agents = None, av_statuses = None, av_owners = [], av_stopping = []\<rparr>"
  let ?b = "Bound \<lparr>au_known = True, au_fence = True, au_answer = Latched\<rparr>
    \<lparr>ad_status = Some ''started'', ad_target = Some ''s'', ad_generation = 1\<rparr>"
  let ?evs = "[Request 1 (Some ''e'') ?v ?b ?rq, Request 2 (Some ''e'') ?v ?b ?rq]"
  note ev = admit_request_def admit_via_authority_def authority_verdict_def live_status_def epoch_ok_def
    status_text_def TERMINAL_def known_answer_def present_def duplicate_def find_key_def handoff_gate_def
    is_purged_def run_closed_def get_run_def steer_through_authority_def hand_over_def or_else_def
    record_handoff_def take_seq_def new_run_def insert_steer_def new_steer_def derive_steer_id_def
    table_simps Let_def start_world_def steer_empty_def
  have h: "sw_handed (fold (event_step (\<lambda>s. s)) ?evs start_world) = [(''o'', ''r'', ''k'')]"
    by (simp add: ev)
  have "distinct (sw_handed (fold (event_step (\<lambda>s. s)) ?evs start_world))"
    using core_handed_once [of "\<lambda>s. s" ?evs] by (simp del: event_step.simps fold.simps)
  with h show ?thesis by (intro exI [of _ ?evs]) simp
qed

section \<open>Retries\<close>

lemma get_by_ident:
  "map ident new = map ident old \<Longrightarrow> get_by steer_key k old = Some s \<Longrightarrow>
   \<exists>s'. get_by steer_key k new = Some s' \<and> ident s' = ident s"
proof (induction old arbitrary: new)
  case Nil
  then show ?case by (simp add: table_simps)
next
  case (Cons r old)
  then obtain r' new' where "new = r' # new'" "ident r' = ident r" "map ident new' = map ident old"
    by (cases new) auto
  moreover from this have "steer_key r' = steer_key r" by (simp add: ident_def)
  ultimately show ?case using Cons by (auto simp: table_simps split: if_splits)
qed

lemma find_key_step:
  assumes "find_key ow rid key st = Some s" "\<not> is_prune op"
  shows "\<exists>s'. find_key ow rid key (steer_step sha op st) = Some s' \<and> ident s' = ident s"
proof -
  from grown_step [OF assms(2), of sha st] obtain moved fresh where
    "ss_steers (steer_step sha op st) = moved @ fresh" "map ident moved = map ident (ss_steers st)"
    by (auto simp: grown_def)
  with assms(1) get_by_ident [of moved "ss_steers st" "(ow, rid, key)" s] show ?thesis
    by (auto simp: find_key_def table_simps)
qed

lemma find_key_run:
  assumes "find_key ow rid key st = Some s" "list_all (\<lambda>op. \<not> is_prune op) ops"
  shows "\<exists>s'. find_key ow rid key (fold (steer_step sha) ops st) = Some s' \<and> ident s' = ident s"
  using assms
proof (induction ops arbitrary: st s)
  case Nil
  then show ?case by simp
next
  case (Cons op ops)
  then obtain s1 where s1: "find_key ow rid key (steer_step sha op st) = Some s1" "ident s1 = ident s"
    using find_key_step [of ow rid key st s op sha] by auto
  with Cons.IH [OF s1(1)] Cons.prems show ?case by auto
qed

lemma known_answer_dup:
  assumes "find_key ow (rq_run rq) (rq_key rq) (sw_store w) = Some s" "sr_digest s = sha (rq_input rq)"
    and "rq_owner rq = Some ow" "ow \<noteq> []" "b \<noteq> BindRaises"
  shows "admit_request sha now epoch v b rq w = (Inr (''duplicate'', Receipt (receipt_of s epoch)), w)"
proof -
  have "known_answer sha epoch rq (sw_store w) = Some (''duplicate'', Receipt (receipt_of s epoch))"
    using assms by (simp add: known_answer_def present_def duplicate_def)
  with assms(5) show ?thesis
    by (cases b) (simp_all add: admit_request_def admit_legacy_def admit_via_authority_def split: prod.splits)
qed

lemma answer_accepted:
  "answer_of epoch sid res = Inr (''accepted'', p) \<Longrightarrow>
   \<exists>s. res = Inr (Admitted s) \<and> p = accepted_receipt epoch s sid"
  by (cases "(epoch, sid, res)" rule: answer_of.cases) auto

lemma insert_steer_finds:
  "get_by steer_key (steer_key s) (ss_steers st) = None \<Longrightarrow> insert_steer s runs st = (Inr x, st') \<Longrightarrow>
   x = s \<and> get_by steer_key (steer_key s) (ss_steers st') = Some s"
  by (auto simp: insert_steer_def table_simps split: if_splits)

lemma admit_finds:
  assumes "admit sha now ow rid key inp og rs ep st = (Inr (Admitted s), st')"
  shows "find_key ow rid key st' = Some s \<and> sr_digest s = sha inp"
proof (rule admit_cases [of sha now ow rid key inp og rs ep st])
  assume "\<And>x. fst (admit sha now ow rid key inp og rs ep st) \<noteq> Inr (Admitted x)"
  with assms show ?thesis by force
next
  fix seq runs
  let ?s = "new_steer sha now ow rid key inp seq Accepted None"
  have k: "steer_key ?s = (ow, rid, key)" by (simp add: new_steer_def)
  assume a: "admit sha now ow rid key inp og rs ep st = apfst (map_sum id Admitted) (insert_steer ?s runs st)"
    and "get_by steer_key (ow, rid, key) (ss_steers st) = None"
  moreover from a assms have "insert_steer ?s runs st = (Inr s, st')"
    by (cases "insert_steer ?s runs st") (auto simp: map_sum_def split: sum.splits)
  ultimately show ?thesis
    using insert_steer_finds [of ?s st runs s st'] unfolding k by (auto simp: find_key_def new_steer_def)
qed

lemma hand_over_finds:
  assumes "hand_over sha now epoch row ow rq w = (Inr (''accepted'', p), w')"
    and "known_answer sha epoch rq (sw_store w) = None" "rq_owner rq = Some ow" "ow \<noteq> []"
  shows "\<exists>s sid. find_key ow (rq_run rq) (rq_key rq) (sw_store w') = Some s \<and> sr_digest s = sha (rq_input rq)
    \<and> p = accepted_receipt epoch s sid"
proof -
  let ?sid = "or_else (rq_session rq) (ad_target row)"
  let ?rs = "or_else (ad_target row) ?sid"
  obtain seq runs where t: "take_seq ow (rq_run rq) ?sid ?rs epoch (ss_runs (sw_store w)) = (seq, runs)" by fastforce
  let ?s = "new_steer sha now ow (rq_run rq) (rq_key rq) (rq_input rq) seq OutcomeUnknown (Some HANDOFF_ERROR)"
  have k: "steer_key ?s = (ow, rq_run rq, rq_key rq)" by (simp add: new_steer_def)
  have none: "get_by steer_key (ow, rq_run rq, rq_key rq) (ss_steers (sw_store w)) = None"
    using known_answer_None [OF assms(2,3,4)] by (simp add: get_by_None)
  from assms(1) obtain s st where s: "insert_steer ?s runs (sw_store w) = (Inr s, st)" "sw_store w' = st"
    "p = accepted_receipt epoch s ?sid"
    by (auto simp: hand_over_def Let_def record_handoff_def none t split: prod.splits sum.splits)
  with insert_steer_finds [of ?s "sw_store w" runs s st] none show ?thesis
    unfolding k by (auto simp: find_key_def new_steer_def)
qed

lemma not_accepted:
  "fst (legacy_verdict epoch v rq) \<noteq> ''accepted''"
  "fst (authority_verdict v rid row status ok) \<noteq> ''accepted''"
  "known_answer sha epoch rq st \<noteq> Some (''accepted'', p)"
  by (auto simp: legacy_verdict_def verdict_def authority_verdict_def known_answer_def duplicate_def
      split: option.splits if_splits)

lemma accepted_finds:
  assumes acc: "admit_request sha now epoch v b rq w = (Inr (''accepted'', p), w')"
    and own: "rq_owner rq = Some ow" "ow \<noteq> []"
  shows "\<exists>s sid. find_key ow (rq_run rq) (rq_key rq) (sw_store w') = Some s \<and> sr_digest s = sha (rq_input rq)
    \<and> p = accepted_receipt epoch s sid"
proof (cases b)
  case BindRaises
  with acc show ?thesis by (simp add: admit_request_def)
next
  case (Bound au row)
  with acc have "known_answer sha epoch rq (sw_store w) = None"
    "hand_over sha now epoch row ow rq w = (Inr (''accepted'', p), w')"
    using not_accepted(2) [of v "rq_run rq" row "live_status v rq" "epoch_ok epoch rq"]
      not_accepted(3) [of sha epoch rq "sw_store w"]
    by (auto simp: admit_request_def admit_via_authority_def own(1) split: prod.splits option.splits if_splits gate.splits)
  then show ?thesis by (intro hand_over_finds [OF _ _ own])
next
  case Unbound
  let ?st = "snd (register_run ow (rq_run rq) (rq_session rq) (rq_session rq) epoch (sw_store w))"
  from Unbound acc obtain res st2 where
    a: "admit sha now ow (rq_run rq) (rq_key rq) (rq_input rq) (rq_session rq) (rq_session rq) epoch ?st = (res, st2)"
    "answer_of epoch (rq_session rq) res = Inr (''accepted'', p)" "sw_store w' = st2"
    using not_accepted(1) [of epoch v rq] not_accepted(3) [of sha epoch rq "sw_store w"]
    by (auto simp: admit_request_def admit_legacy_def own(1) Let_def split: prod.splits option.splits if_splits)
  from answer_accepted [OF a(2)] obtain s where "res = Inr (Admitted s)"
    "p = accepted_receipt epoch s (rq_session rq)" by blast
  with admit_finds a show ?thesis by blast
qed

text \<open>
  A lost answer can be asked for again: once a request was answered \<open>accepted\<close>, then whatever
  happens to the ledger short of the thirty-day purge, the same request, from any adapter state, run
  status or server epoch whose binding can be read, is answered \<open>duplicate\<close> with the steer id and the
  number of the first answer, and nothing is admitted or handed over again.
\<close>

theorem steer_retry_same_receipt:
  assumes "admit_request sha now epoch v b rq w = (Inr (''accepted'', AcceptedReceipt r sid), w')"
    and "rq_owner rq = Some ow" "ow \<noteq> []"
    and "list_all (\<lambda>op. \<not> is_prune op) ops"
    and "b' \<noteq> BindRaises" "rq_owner rq' = Some ow" "rq_run rq' = rq_run rq" "rq_key rq' = rq_key rq"
      "rq_input rq' = rq_input rq"
    and "w2 = w'\<lparr>sw_store := fold (steer_step sha) ops (sw_store w')\<rparr>"
  shows "\<exists>r'. admit_request sha now' epoch' v' b' rq' w2 = (Inr (''duplicate'', Receipt r'), w2)
    \<and> rc_steer r' = rc_steer r \<and> rc_seq r' = rc_seq r \<and> rc_key r' = rc_key r"
proof -
  from accepted_finds [OF assms(1-3)] obtain s where s: "find_key ow (rq_run rq) (rq_key rq) (sw_store w') = Some s"
    "sr_digest s = sha (rq_input rq)" "r = (receipt_of s epoch)\<lparr>rc_state := Accepted\<rparr>"
    by (auto simp: accepted_receipt_def)
  from find_key_run [OF s(1) assms(4)] obtain s' where
    s': "find_key ow (rq_run rq) (rq_key rq) (sw_store w2) = Some s'" "ident s' = ident s"
    using assms(10) by auto
  then have "admit_request sha now' epoch' v' b' rq' w2 = (Inr (''duplicate'', Receipt (receipt_of s' epoch')), w2)"
    using assms s(2) by (intro known_answer_dup) (auto simp: ident_def)
  with s s'(2) show ?thesis by (auto simp: receipt_of_def ident_def)
qed

theorem steer_retry_same_receipt_witness:
  "\<exists>b rq w w' r sid r'. admit_request (\<lambda>s. s) 1 None
       \<lparr>av_agents = None, av_statuses = None, av_owners = [], av_stopping = []\<rparr> b rq w
       = (Inr (''accepted'', AcceptedReceipt r sid), w')
     \<and> admit_request (\<lambda>s. s) 9 (Some ''later'')
       \<lparr>av_agents = None, av_statuses = None, av_owners = [], av_stopping = [''r'']\<rparr> b rq w'
       = (Inr (''duplicate'', Receipt r'), w') \<and> rc_steer r' = rc_steer r"
proof -
  let ?rq = "\<lparr>rq_owner = Some ''o'', rq_run = ''r'', rq_status = Some ''running'', rq_agent = Some 7,
    rq_session = Some ''s'', rq_input = ''x'', rq_key = ''k'', rq_epoch = None\<rparr>"
  let ?v = "\<lparr>av_agents = None, av_statuses = None, av_owners = [], av_stopping = []\<rparr>"
  let ?v' = "\<lparr>av_agents = None, av_statuses = None, av_owners = [], av_stopping = [''r'']\<rparr>"
  note ev = admit_request_def admit_legacy_def legacy_verdict_def live_status_def live_agent_def epoch_ok_def
    verdict_def status_text_def TERMINAL_def STEERABLE_def known_answer_def present_def duplicate_def find_key_def
    register_run_def admit_def outstanding_def OUTSTANDING_LIMIT_def accepted_receipt_def
    is_purged_def run_closed_def get_run_def take_seq_def new_run_def insert_steer_def new_steer_def
    table_simps Let_def start_world_def steer_empty_def
  have "\<exists>r sid w'. admit_request (\<lambda>s. s) 1 None ?v Unbound ?rq start_world
      = (Inr (''accepted'', AcceptedReceipt r sid), w')"
    by (simp add: ev)
  then obtain r sid w' where first: "admit_request (\<lambda>s. s) 1 None ?v Unbound ?rq start_world
      = (Inr (''accepted'', AcceptedReceipt r sid), w')" by blast
  have "\<exists>r'. admit_request (\<lambda>s. s) 9 (Some ''later'') ?v' Unbound ?rq w' = (Inr (''duplicate'', Receipt r'), w')
      \<and> rc_steer r' = rc_steer r \<and> rc_seq r' = rc_seq r \<and> rc_key r' = rc_key r"
    by (rule steer_retry_same_receipt [OF first, of "''o''" "[]"]) simp_all
  with first show ?thesis by blast
qed

end
