(* ===== verification/Steer_Injection.thy ===== *)
theory Steer_Injection
  imports Steer_Inbox_Properties
begin

text \<open>
  The injection of steers at a tool boundary, the confirmation of the flushed row, the recovery after
  a restart, and two edges of \<open>Steer_Inbox\<close>.
\<close>

section \<open>From the tool boundary to the flush\<close>

lemma claim_facts:
  assumes "claim_batch now ow rid bid st = (Inr (Some items), st')"
  shows "items = accepted_of ow rid st \<and> items \<noteq> [] \<and> get_by sb_id bid (ss_batches st) = None
    \<and> ss_steers st' = upd_where (\<lambda>s. of_run ow rid s \<and> sr_state s = Accepted)
        (\<lambda>s. s\<lparr>sr_state := Staged, sr_batch := Some bid, sr_updated := now\<rparr>) (ss_steers st)
    \<and> (\<exists>b. ss_batches st' = ss_batches st @ [b] \<and> sb_id b = bid \<and> sb_state b = Staged)"
  using assms by (auto simp: claim_batch_def split: option.splits if_splits)

lemma unbatched:
  assumes "steer_wf st" "get_by sb_id bid (ss_batches st) = None" "s \<in> set (ss_steers st)"
  shows "sr_batch s \<noteq> Some bid"
  using assms by (force simp: steer_wf_def link_wf_def linked_def get_by_None)

lemma claim_then_confirm:
  assumes wf: "steer_wf st" and claim: "claim_batch now ow rid bid st = (Inr (Some items), st')"
  shows "ss_steers (confirm_batch later bid row st') =
    upd_where (\<lambda>s. of_run ow rid s \<and> sr_state s = Accepted)
      (\<lambda>s. s\<lparr>sr_state := Delivered, sr_batch := Some bid, sr_row := Some row, sr_error := None,
             sr_updated := later\<rparr>) (ss_steers st)"
proof -
  note c = claim_facts [OF claim]
  from c obtain b where b: "ss_batches st' = ss_batches st @ [b]" "sb_id b = bid" "sb_state b = Staged" by blast
  have "get_by sb_id bid (ss_batches st') = Some b" using c b by (simp add: table_simps)
  then have "ss_steers (confirm_batch later bid row st') = upd_where (\<lambda>s. sr_batch s = Some bid)
      (\<lambda>s. s\<lparr>sr_state := Delivered, sr_row := Some row, sr_error := None, sr_updated := later\<rparr>) (ss_steers st')"
    using b by (simp add: confirm_batch_def)
  then show ?thesis
    using c unbatched [OF wf] by (auto simp: upd_where_def)
qed

lemma boundary_claim_claims:
  assumes "boundary_claim pb now ow rid bid num messages st = (Inr messages', st')" "st' \<noteq> st"
  shows "\<exists>items. claim_batch now ow rid bid st = (Inr (Some items), st')
    \<and> inject_row pb rid bid items (boundary_of pb messages) messages = Inr messages'
    \<and> boundary_of pb messages \<noteq> Wait"
  using assms by (auto simp: boundary_claim_def claim_batch_def split: option.splits if_splits sum.splits prod.splits)

lemma injected_block:
  assumes "inject_row pb rid bid items place messages = Inr messages'" "place \<noteq> Wait"
  shows "messages' \<noteq> [] \<and> jget STEER_METADATA_FIELD (cr_meta (last messages')) = Some (steer_meta rid bid items)"
  using assms by (auto simp: inject_row_def update_conv' split: boundary.splits option.splits)

lemma flushed_injected:
  assumes "jget STEER_METADATA_FIELD (cr_meta r) = Some (steer_meta rid bid items)" "bid \<noteq> []"
  shows "flushed_batch (r\<lparr>cr_row := Some i\<rparr>) = Inr (Some (bid, show_int i))"
  using assms by (simp add: flushed_batch_def steer_block_def steer_meta_def STEER_METADATA_SCHEMA_def)

text \<open>
  C6. What is injected is what the flush confirms: when a tool boundary claims a batch, the row it
  adds or extends carries the accepted steers of the run in their order; flushing that row, whatever
  row id it gets, delivers exactly those steers with that row id and leaves every other steer as it
  was.
\<close>

theorem steer_boundary_flush_roundtrip:
  assumes "steer_wf st" and "bid \<noteq> []"
    and "boundary_claim pb now ow rid bid num messages st = (Inr messages', st')" "st' \<noteq> st"
  shows "jget STEER_METADATA_FIELD (cr_meta (last messages')) = Some (steer_meta rid bid (accepted_of ow rid st))
    \<and> fst (confirm_flushed_rows later [(last messages')\<lparr>cr_row := Some i\<rparr>] st') = None
    \<and> ss_steers (snd (confirm_flushed_rows later [(last messages')\<lparr>cr_row := Some i\<rparr>] st')) =
      upd_where (\<lambda>s. of_run ow rid s \<and> sr_state s = Accepted)
        (\<lambda>s. s\<lparr>sr_state := Delivered, sr_batch := Some bid, sr_row := Some (show_int i), sr_error := None,
               sr_updated := later\<rparr>) (ss_steers st)"
proof -
  from boundary_claim_claims [OF assms(3,4)] obtain items where
    claim: "claim_batch now ow rid bid st = (Inr (Some items), st')"
    and inj: "inject_row pb rid bid items (boundary_of pb messages) messages = Inr messages'"
      "boundary_of pb messages \<noteq> Wait" by blast
  have items: "items = accepted_of ow rid st" using claim_facts [OF claim] by blast
  have block: "jget STEER_METADATA_FIELD (cr_meta (last messages')) = Some (steer_meta rid bid items)"
    using injected_block [OF inj] by blast
  have conf: "confirm_flushed_rows later [(last messages')\<lparr>cr_row := Some i\<rparr>] st'
      = (None, confirm_batch later bid (show_int i) st')"
    by (simp add: flushed_injected [OF block assms(2)])
  show ?thesis
    unfolding conf fst_conv snd_conv claim_then_confirm [OF assms(1) claim] using block by (simp add: items)
qed

theorem steer_boundary_flush_roundtrip_witness:
  "\<exists>pb messages messages' st st'. boundary_claim pb 3 ''o'' ''r'' ''b'' 1 messages st = (Inr messages', st')
     \<and> length messages' = 3 \<and> fst (confirm_flushed_rows 9 [(last messages')\<lparr>cr_row := Some 12\<rparr>] st') = None"
proof -
  let ?row = "\<lambda>role c calls call. \<lparr>cr_role = role, cr_content = c, cr_calls = calls, cr_call_id = call,
    cr_kind = None, cr_meta = JNull, cr_persisted = False, cr_row = None\<rparr>"
  let ?pb = "\<lparr>pa_open = ''['', pa_close = '']'', pa_kind = ''steer'', pa_format = (\<lambda>t. t),
    pa_user_row = (\<lambda>t. ?row ''user'' t [] None)\<rparr>"
  let ?ms = "[?row ''assistant'' '''' [Some ''c1''] None, ?row ''tool'' ''ok'' [] (Some ''c1'')]"
  define st where "st = steer_history (\<lambda>s. s) [Admit 1 ''o'' ''r'' ''k1'' ''x'' None None None]"
  note ev = steer_history_def steer_empty_def admit_def is_purged_def run_closed_def get_run_def
    outstanding_def OUTSTANDING_LIMIT_def take_seq_def new_run_def insert_steer_def new_steer_def
    derive_steer_id_def table_simps
  have wf: "steer_wf st" unfolding st_def by (rule steer_history_wf)
  have run: "get_run ''o'' ''r'' st = Some \<lparr>rn_owner = ''o'', rn_id = ''r'', rn_orig = None, rn_resolved = None,
      rn_epoch = None, rn_reason = None, rn_closed = None, rn_next = 2\<rparr>"
    by (simp add: st_def ev)
  have acc: "accepted_of ''o'' ''r'' st \<noteq> []" and free: "get_by sb_id ''b'' (ss_batches st) = None"
    by (simp_all add: st_def accepted_of_def ev)
  have place: "boundary_of ?pb ?ms = Append"
    by (auto simp: boundary_of_def tail_tools_complete_def present_def Let_def)
  have "boundary_claim ?pb 3 ''o'' ''r'' ''b'' 1 ?ms st = (Inr (?ms @ [(?row ''user'' (join_lines (map steer_line
      (accepted_of ''o'' ''r'' st))) [] None)\<lparr>cr_meta := JObj [(STEER_METADATA_FIELD,
        steer_meta ''r'' ''b'' (accepted_of ''o'' ''r'' st))]\<rparr>]),
      snd (claim_batch 3 ''o'' ''r'' ''b'' st))"
    using acc free by (simp add: boundary_claim_def run place claim_batch_def inject_row_def)
  then obtain messages' where c: "boundary_claim ?pb 3 ''o'' ''r'' ''b'' 1 ?ms st = (Inr messages',
      snd (claim_batch 3 ''o'' ''r'' ''b'' st))" "length messages' = 3" by simp
  have "length (ss_batches (snd (claim_batch 3 ''o'' ''r'' ''b'' st))) = Suc (length (ss_batches st))"
    using acc free by (simp add: claim_batch_def run)
  then have ne: "snd (claim_batch 3 ''o'' ''r'' ''b'' st) \<noteq> st" by auto
  have "fst (confirm_flushed_rows 9 [(last messages')\<lparr>cr_row := Some 12\<rparr>] (snd (claim_batch 3 ''o'' ''r'' ''b'' st))) = None"
    using steer_boundary_flush_roundtrip [OF wf _ c(1) ne, of 9 12] by simp
  with c show ?thesis by blast
qed

section \<open>Recovery\<close>

text \<open>A committed message of some session that carries the steer's batch.\<close>

definition committed :: "(string \<Rightarrow> message list option) \<Rightarrow> steer \<Rightarrow> bool" where
  "committed messages s \<longleftrightarrow> (\<exists>sid ms m kvs bid. messages sid = Some ms \<and> m \<in> set ms
     \<and> Option.bind (msg_meta m) steer_block = Some kvs \<and> map_of kvs ''batch_id'' = Some (JStr bid)
     \<and> sr_batch s = Some bid \<and> sr_row s = Some (show_int (msg_id m)))"

lemma scan_committed_sound:
  "scan_committed bid ms = Inr (Some i) \<Longrightarrow> \<exists>m kvs. m \<in> set ms \<and> msg_id m = i
     \<and> Option.bind (msg_meta m) steer_block = Some kvs \<and> map_of kvs ''batch_id'' = Some (JStr bid)"
proof (induction bid ms rule: scan_committed.induct)
  case (1 bid)
  then show ?case by simp
next
  case (2 bid m ms)
  then show ?case by (fastforce split: option.splits if_splits)
qed

lemma find_committed_sound:
  "find_committed_batch messages ow rid bid st = Some i \<Longrightarrow> \<exists>sid ms m kvs. messages sid = Some ms
     \<and> m \<in> set ms \<and> msg_id m = i \<and> Option.bind (msg_meta m) steer_block = Some kvs
     \<and> map_of kvs ''batch_id'' = Some (JStr bid)"
  using scan_committed_sound
  by (fastforce simp: find_committed_batch_def split: option.splits sum.splits)

text \<open>The rows a recovery step leaves: unchanged ones, retired ones, settled ones.\<close>

definition settled_by :: "(string \<Rightarrow> message list option) \<Rightarrow> steer list \<Rightarrow> steer \<Rightarrow> bool" where
  "settled_by messages old s \<longleftrightarrow>
     (sr_state s = Delivered \<longrightarrow> s \<in> set old \<or> committed messages s)
   \<and> (sr_state s = Accepted \<longrightarrow> s \<in> set old)"

lemma settled_by_seal:
  assumes "list_all (settled_by messages old) (ss_steers st)"
  shows "list_all (settled_by messages old) (ss_steers (snd (seal_run now ow rid reason st)))"
  using assms by (auto simp: seal_run_def Let_def list_all_iff set_upd_where settled_by_def)

lemma settled_by_unknown:
  assumes "list_all (settled_by messages old) (ss_steers st)"
  shows "list_all (settled_by messages old) (ss_steers (mark_outcome_unknown now bid reason st))"
  using assms by (auto simp: mark_outcome_unknown_def list_all_iff set_upd_where settled_by_def split: option.splits)

lemma settled_by_confirm:
  assumes "list_all (settled_by messages old) (ss_steers st)"
    and "find_committed_batch messages ow rid bid st = Some i"
  shows "list_all (settled_by messages old) (ss_steers (confirm_batch now bid (show_int i) st))"
proof -
  from find_committed_sound [OF assms(2)] obtain sid ms m kvs where
    "messages sid = Some ms" "m \<in> set ms" "msg_id m = i"
    "Option.bind (msg_meta m) steer_block = Some kvs" "map_of kvs ''batch_id'' = Some (JStr bid)" by blast
  then have "committed messages s" if "sr_batch s = Some bid" "sr_row s = Some (show_int i)" for s
    using that unfolding committed_def by blast
  with assms(1) show ?thesis
    by (auto simp: confirm_batch_def list_all_iff set_upd_where settled_by_def split: option.splits)
qed

text \<open>A phase keeps what each of its steps keeps.\<close>

lemma fold_keeps: "(\<And>x acc. Q (snd acc) \<Longrightarrow> Q (snd (f x acc))) \<Longrightarrow> Q (snd acc) \<Longrightarrow> Q (snd (fold f xs acc))"
  by (induction xs arbitrary: acc) auto

text \<open>A phase settles, for each item, what the item's own step settles and the others keep.\<close>

lemma fold_settles:
  assumes "\<And>x acc. I (snd acc) \<Longrightarrow> I (snd (f x acc))"
    and "\<And>x acc. I (snd acc) \<Longrightarrow> Q x (snd (f x acc))"
    and "\<And>x y acc. I (snd acc) \<Longrightarrow> Q x (snd acc) \<Longrightarrow> Q x (snd (f y acc))"
    and "I (snd acc)" "x \<in> set xs"
  shows "Q x (snd (fold f xs acc))"
  using assms(4,5)
proof (induction xs arbitrary: acc)
  case Nil
  then show ?case by simp
next
  case (Cons y ys)
  have keep: "I (snd acc) \<Longrightarrow> Q x (snd acc) \<Longrightarrow> Q x (snd (fold f zs acc))" for zs acc
    by (induction zs arbitrary: acc) (simp_all add: assms(1,3))
  show ?case
  proof (cases "x = y")
    case True
    with Cons.prems keep [of "f y acc" ys] assms(1,2) show ?thesis by simp
  next
    case False
    with Cons.prems Cons.IH [of "f y acc"] assms(1) show ?thesis by simp
  qed
qed

lemma retire_run_cases:
  obtains "snd (retire_run live now (ow, rid) acc) = snd acc" "rid \<in> set live \<or> run_closed ow rid (snd acc) \<noteq> None"
  | "snd (retire_run live now (ow, rid) acc) = snd (seal_run now ow rid ''restart_stale_epoch'' (snd acc))"
    "rid \<notin> set live"
proof (cases "rid \<in> set live \<or> run_closed ow rid (snd acc) \<noteq> None")
  case True
  then show thesis by (intro that(1)) (auto simp: retire_run_def split: prod.splits)
next
  case False
  then show thesis by (intro that(2)) (auto simp: retire_run_def split: prod.splits)
qed

lemma retire_run_wf: "steer_wf (snd acc) \<Longrightarrow> steer_wf (snd (retire_run live now k acc))"
  by (cases k, rule retire_run_cases [of live now "fst k" "snd k" acc]) (auto intro: wf_seal_run)

lemma retire_run_settled:
  "list_all (settled_by messages old) (ss_steers (snd acc)) \<Longrightarrow>
   list_all (settled_by messages old) (ss_steers (snd (retire_run live now k acc)))"
  by (cases k, rule retire_run_cases [of live now "fst k" "snd k" acc]) (auto intro: settled_by_seal)

text \<open>No accepted steer of the run, unless it lives.\<close>

definition drained :: "string list \<Rightarrow> string \<times> string \<Rightarrow> steer_store \<Rightarrow> bool" where
  "drained live k st \<longleftrightarrow> snd k \<in> set live
     \<or> list_all (\<lambda>s. (sr_owner s, sr_run s) = k \<longrightarrow> sr_state s \<noteq> Accepted) (ss_steers st)"

lemma seal_steers:
  "ss_steers (snd (seal_run now ow rid reason st)) = upd_where (\<lambda>s. of_run ow rid s \<and> sr_state s = Accepted)
     (\<lambda>s. s\<lparr>sr_state := NotDelivered, sr_error := Some reason, sr_updated := now\<rparr>) (ss_steers st)"
  by (simp add: seal_run_def Let_def)

lemma drained_seal: "drained live k st \<Longrightarrow> drained live k (snd (seal_run now ow rid reason st))"
  unfolding drained_def seal_steers list_all_upd_where
  by (auto simp: list_all_iff)

lemma seal_drains: "drained live (ow, rid) (snd (seal_run now ow rid reason st))"
  unfolding drained_def seal_steers list_all_upd_where
  by (auto simp: list_all_iff)

lemma closed_drained:
  assumes "steer_wf st" "run_closed ow rid st \<noteq> None" shows "drained live (ow, rid) st"
proof -
  from assms(2) obtain r where "get_run ow rid st = Some r" "rn_reason r \<noteq> None"
    by (auto simp: run_closed_def split: option.splits if_splits)
  then have "r \<in> set (ss_runs st)" "run_key r = (ow, rid)" "rn_reason r \<noteq> None"
    by (auto simp: get_run_def dest: get_by_SomeD)
  with assms(1) show ?thesis unfolding drained_def steer_wf_def closed_wf_def list_all_iff by metis
qed

lemma retire_run_drains:
  assumes "steer_wf (snd acc)" shows "drained live k (snd (retire_run live now k acc))"
proof (cases k)
  case (Pair ow rid)
  have live: "drained live (ow, rid) st" if "rid \<in> set live" for st using that by (simp add: drained_def)
  show ?thesis
  proof (rule retire_run_cases [of live now ow rid acc])
    assume eq: "snd (retire_run live now (ow, rid) acc) = snd acc"
      and "rid \<in> set live \<or> run_closed ow rid (snd acc) \<noteq> None"
    then show ?thesis unfolding Pair eq using live closed_drained [OF assms] by blast
  next
    assume eq: "snd (retire_run live now (ow, rid) acc) = snd (seal_run now ow rid ''restart_stale_epoch'' (snd acc))"
    show ?thesis unfolding Pair eq by (rule seal_drains)
  qed
qed

lemma retire_run_drained: "drained live k (snd acc) \<Longrightarrow> drained live k (snd (retire_run live now k' acc))"
  by (cases k', rule retire_run_cases [of live now "fst k'" "snd k'" acc]) (auto intro: drained_seal)

lemma recover_batch_snd:
  "snd (recover_batch messages now b acc) = (case find_committed_batch messages (sb_owner b) (sb_run b) (sb_id b) (snd acc) of
     Some row \<Rightarrow> confirm_batch now (sb_id b) (show_int row) (snd acc)
   | None \<Rightarrow> mark_outcome_unknown now (sb_id b) ''restart_unconfirmed'' (snd acc))"
  by (simp add: recover_batch_def split: prod.splits option.splits)

lemma recover_batch_wf: "steer_wf (snd acc) \<Longrightarrow> steer_wf (snd (recover_batch messages now b acc))"
  by (simp add: recover_batch_snd wf_confirm_batch wf_mark_unknown split: option.splits)

lemma recover_batch_settled:
  "list_all (settled_by messages old) (ss_steers (snd acc)) \<Longrightarrow>
   list_all (settled_by messages old) (ss_steers (snd (recover_batch messages now b acc)))"
  by (simp add: recover_batch_snd settled_by_confirm settled_by_unknown split: option.splits)

text \<open>No batch of this id is staged.\<close>

definition unstaged :: "string \<Rightarrow> steer_store \<Rightarrow> bool" where
  "unstaged bid st \<longleftrightarrow> list_all (\<lambda>b. sb_id b = bid \<longrightarrow> sb_state b \<noteq> Staged) (ss_batches st)"

lemma unstaged_upd:
  assumes "ss_batches st' = upd_where (\<lambda>x. sb_id x = bid') f (ss_batches st)"
    and "\<And>x. sb_id (f x) = sb_id x \<and> sb_state (f x) \<noteq> Staged"
  shows "unstaged bid st \<Longrightarrow> unstaged bid st'" "unstaged bid' st'"
  using assms(2) unfolding unstaged_def assms(1) list_all_upd_where by (auto simp: list_all_iff)

lemma settle_unstages:
  assumes wf: "steer_wf st"
  shows "unstaged bid (confirm_batch now bid row st)" "unstaged bid (mark_outcome_unknown now bid reason st)"
proof -
  have free: "unstaged bid st" if "get_by sb_id bid (ss_batches st) = None"
    using that by (auto simp: unstaged_def get_by_None list_all_iff)
  have ended: "unstaged bid st" if "get_by sb_id bid (ss_batches st) = Some b" "sb_state b = Delivered" for b
    using that wf get_by_iff [of sb_id "ss_batches st" bid b] distinct_key_inj [of sb_id "ss_batches st" b]
    by (fastforce simp: unstaged_def list_all_iff steer_wf_def keys_wf_def)
  show "unstaged bid (confirm_batch now bid row st)"
    by (auto simp: confirm_batch_def free ended split: option.split intro!: unstaged_upd(2) [of _ bid _ st])
  show "unstaged bid (mark_outcome_unknown now bid reason st)"
    by (auto simp: mark_outcome_unknown_def free ended split: option.split intro!: unstaged_upd(2) [of _ bid _ st])
qed

lemma settle_unstaged:
  assumes "unstaged bid st"
  shows "unstaged bid (confirm_batch now bid' row st)" "unstaged bid (mark_outcome_unknown now bid' reason st)"
  by (auto simp: confirm_batch_def mark_outcome_unknown_def assms split: option.split
      intro!: unstaged_upd(1) [OF _ _ assms, where bid' = bid'])

lemma staged_upd:
  "b \<in> set (upd_where P f t) \<Longrightarrow> sb_state b = Staged \<Longrightarrow> (\<And>x. sb_state (f x) \<noteq> Staged) \<Longrightarrow> b \<in> set t"
  by (auto simp: set_upd_where split: if_splits)

lemma settle_staged:
  assumes "b \<in> set (ss_batches (snd (recover_batch messages now b0 acc)))" "sb_state b = Staged"
  shows "b \<in> set (ss_batches (snd acc))"
  using assms(1)
  by (auto simp: recover_batch_snd confirm_batch_def mark_outcome_unknown_def
      split: option.splits if_splits dest!: staged_upd [OF _ assms(2)])


lemma staged_linked:
  assumes "steer_wf st" "s \<in> set (ss_steers st)" "sr_state s = Staged"
  shows "\<exists>b \<in> set (ss_batches st). sb_state b = Staged"
proof -
  have "linked (ss_batches st) s" using assms by (simp add: steer_wf_def link_wf_def)
  with assms(3) show ?thesis by (cases "sr_batch s") (auto simp: linked_def)
qed

lemma drained_upd:
  assumes "drained live k st" "ss_steers st' = upd_where P f (ss_steers st)"
    and "\<And>x. sr_state (f x) \<noteq> Accepted"
  shows "drained live k st'"
  using assms(1,3) unfolding drained_def assms(2) list_all_upd_where by (auto simp: list_all_iff)

lemma recover_batch_drained:
  assumes "drained live k (snd acc)" shows "drained live k (snd (recover_batch messages now b acc))"
  by (auto simp: recover_batch_snd confirm_batch_def mark_outcome_unknown_def assms split: option.split
      intro!: drained_upd [OF assms])

text \<open>What the phases of a recovery establish, before its final purge.\<close>

definition recovered :: "string list \<Rightarrow> (string \<Rightarrow> message list option) \<Rightarrow> steer list \<Rightarrow> steer_store \<Rightarrow> bool" where
  "recovered live messages old st \<longleftrightarrow>
     list_all (\<lambda>s. sr_state s \<noteq> Staged \<and> (sr_state s = Accepted \<longrightarrow> sr_run s \<in> set live)
       \<and> (sr_state s = Delivered \<longrightarrow> s \<in> set old \<or> committed messages s)) (ss_steers st)
   \<and> list_all (\<lambda>b. sb_state b \<noteq> Staged) (ss_batches st)"

lemma recovered_subset:
  "recovered live messages old st \<Longrightarrow> set (ss_steers st') \<subseteq> set (ss_steers st) \<Longrightarrow>
   set (ss_batches st') \<subseteq> set (ss_batches st) \<Longrightarrow> recovered live messages old st'"
  by (auto simp: recovered_def list_all_iff)

lemma prune_batches: "set (ss_batches (snd (prune_expired now stamp st))) \<subseteq> set (ss_batches st)"
  unfolding prune_expired_def
  by (rule fold_prune_run [of "\<lambda>x. set (ss_batches x) \<subseteq> set (ss_batches st)"])
    (auto simp: prune_run_def Let_def set_del_where split: prod.splits)

lemma phases_recover:
  assumes wf: "steer_wf st"
    and 1: "acc1 = fold (retire_run live now) (accepted_runs st) (n, st)"
    and 2: "acc2 = fold (recover_batch messages now) (staged_batches (snd acc1)) acc1"
  shows "recovered live messages (ss_steers st) (snd acc2)"
proof -
  let ?old = "ss_steers st"
  have "list_all (settled_by messages ?old) ?old" by (simp add: settled_by_def list_all_iff)
  then have set1: "list_all (settled_by messages ?old) (ss_steers (snd acc1))" and wf1: "steer_wf (snd acc1)"
    unfolding 1 using wf
    by (auto intro!: fold_keeps [where Q = "\<lambda>st. list_all (settled_by messages ?old) (ss_steers st)"]
        fold_keeps [where Q = steer_wf] retire_run_settled retire_run_wf)
  have set2: "list_all (settled_by messages ?old) (ss_steers (snd acc2))" and wf2: "steer_wf (snd acc2)"
    unfolding 2 using set1 wf1
    by (auto intro!: fold_keeps [where Q = "\<lambda>st. list_all (settled_by messages ?old) (ss_steers st)"]
        fold_keeps [where Q = steer_wf] recover_batch_settled recover_batch_wf)
  have dr1: "drained live k (snd acc1)" if "k \<in> set (accepted_runs st)" for k
    unfolding 1 using that wf
    by (intro fold_settles [where I = steer_wf and Q = "drained live"])
      (auto intro: retire_run_wf retire_run_drains retire_run_drained)
  then have dr2: "drained live k (snd acc2)" if "k \<in> set (accepted_runs st)" for k
    unfolding 2 using that
    by (intro fold_keeps [where Q = "drained live k"]) (auto intro: recover_batch_drained)
  have un: "unstaged (sb_id b) (snd acc2)" if "b \<in> set (staged_batches (snd acc1))" for b
    unfolding 2 using that wf1
    by (intro fold_settles [where I = steer_wf and Q = "\<lambda>b. unstaged (sb_id b)"])
      (auto intro: recover_batch_wf simp: recover_batch_snd settle_unstages settle_unstaged wf_confirm_batch
        wf_mark_unknown split: option.split)
  have old: "b \<in> set (ss_batches (snd acc1))" if "b \<in> set (ss_batches (snd acc2))" "sb_state b = Staged" for b
  proof -
    have "b \<in> set (ss_batches (snd acc2)) \<longrightarrow> b \<in> set (ss_batches (snd acc1))"
      unfolding 2
      by (rule fold_keeps [where Q = "\<lambda>st. b \<in> set (ss_batches st) \<longrightarrow> b \<in> set (ss_batches (snd acc1))"])
        (auto dest: settle_staged [OF _ that(2)])
    with that show ?thesis by blast
  qed
  have noB: "sb_state b \<noteq> Staged" if "b \<in> set (ss_batches (snd acc2))" for b
  proof
    assume "sb_state b = Staged"
    with old [OF that this] have "b \<in> set (staged_batches (snd acc1))" by (simp add: staged_batches_def)
    from un [OF this] that \<open>sb_state b = Staged\<close> show False by (simp add: unstaged_def list_all_iff)
  qed
  have "sr_state s \<noteq> Staged \<and> (sr_state s = Accepted \<longrightarrow> sr_run s \<in> set live)
      \<and> (sr_state s = Delivered \<longrightarrow> s \<in> set ?old \<or> committed messages s)" if s: "s \<in> set (ss_steers (snd acc2))" for s
  proof (intro conjI impI)
    show "sr_state s \<noteq> Staged" using staged_linked [OF wf2 s] noB by blast
    have sb: "settled_by messages ?old s" using set2 s by (simp add: list_all_iff)
    then show "sr_state s = Delivered \<Longrightarrow> s \<in> set ?old \<or> committed messages s" by (simp add: settled_by_def)
    assume acc: "sr_state s = Accepted"
    with sb have "s \<in> set ?old" by (simp add: settled_by_def)
    with acc have "(sr_owner s, sr_run s) \<in> set (accepted_runs st)" by (force simp: accepted_runs_def)
    from dr2 [OF this] acc s show "sr_run s \<in> set live" by (auto simp: drained_def list_all_iff)
  qed
  with noB show ?thesis by (simp add: recovered_def list_all_iff)
qed

text \<open>
  C7. A restart leaves nothing half done: after the recovery of any inbox, no steer and no batch is
  still staged, an accepted steer belongs to a run this process still drives, and a steer is
  delivered only if it was before or if a message read from its session carries its batch, the row
  id then being that message's.
\<close>

theorem steer_recovery_settles:
  "recovered live messages (ss_steers (steer_history sha ops))
     (snd (recover live messages now stamp (steer_history sha ops)))"
proof -
  let ?st = "steer_history sha ops"
  let ?z = "\<lparr>rp_delivered = 0, rp_unknown = 0, rp_retired = 0\<rparr>"
  define acc1 where "acc1 = fold (retire_run live now) (accepted_runs ?st) (?z, ?st)"
  define acc2 where "acc2 = fold (recover_batch messages now) (staged_batches (snd acc1)) acc1"
  have "snd (recover live messages now stamp ?st) = snd (prune_expired now stamp (snd acc2))"
    by (simp add: recover_def acc1_def acc2_def Let_def split: prod.splits)
  then show ?thesis
    using recovered_subset [OF phases_recover [OF steer_history_wf acc1_def acc2_def] prune_steers prune_batches]
    by simp
qed

section \<open>Edges\<close>

text \<open>The second lookup of the seal repeats the first.\<close>

lemma seal_owner_fallback: "seal_owner view a rid ib = live_owner (view a) rid"
  by (auto simp: seal_owner_def split: option.split dest!: first_where_SomeD)

text \<open>
  A purged key is answered on one path only: when a live run is asked again for a key the purge
  has removed, the authority path answers \<open>expired\<close> with the steer id, but the legacy path raises,
  because the verdict it renders as a receipt has no run id.
\<close>

theorem steer_purged_key_answers:
  assumes "rq_owner rq = Some ow" and "is_purged ow (rq_run rq) (rq_key rq) (sw_store w)"
    and "known_answer sha epoch rq (sw_store w) = None"
    and "fst (legacy_verdict epoch v rq) = ''admit''"
    and "fst (authority_verdict v (rq_run rq) row (live_status v rq) (epoch_ok epoch rq)) = ''admit''"
  shows "fst (admit_request sha now epoch v Unbound rq w) = Inl (MissingField ''run_id'')
    \<and> admit_request sha now epoch v (Bound au row) rq w
      = (Inr (''expired'', ExpiredId (derive_steer_id sha ow (rq_run rq) (rq_key rq))), w)"
proof -
  have "is_purged ow (rq_run rq) (rq_key rq)
      (snd (register_run ow (rq_run rq) (rq_session rq) (rq_session rq) epoch (sw_store w)))"
    using assms(2) by (auto simp: register_run_def is_purged_def Let_def split: option.splits)
  with assms have "fst (admit_request sha now epoch v Unbound rq w) = Inl (MissingField ''run_id'')"
    by (auto simp: admit_request_def admit_legacy_def admit_def Let_def split: prod.splits)
  moreover from assms have "admit_request sha now epoch v (Bound au row) rq w
      = (Inr (''expired'', ExpiredId (derive_steer_id sha ow (rq_run rq) (rq_key rq))), w)"
    by (auto simp: admit_request_def admit_via_authority_def handoff_gate_def split: prod.splits)
  ultimately show ?thesis by blast
qed

theorem steer_purged_key_answers_witness:
  "\<exists>w b rq v. fst (admit_request (\<lambda>s. s) 8000001 None v Unbound rq w) = Inl (MissingField ''run_id'')
     \<and> admit_request (\<lambda>s. s) 8000001 None v b rq w
       = (Inr (''expired'', ExpiredId (derive_steer_id (\<lambda>s. s) ''o'' ''r'' ''k'')), w)"
proof -
  let ?st = "steer_empty\<lparr>ss_purged := [\<lparr>pk_owner = ''o'', pk_run = ''r'', pk_key = ''k'', pk_at = 7\<rparr>]\<rparr>"
  let ?w = "\<lparr>sw_store = ?st, sw_handed = []\<rparr>"
  let ?rq = "\<lparr>rq_owner = Some ''o'', rq_run = ''r'', rq_status = Some ''running'', rq_agent = Some 7,
    rq_session = Some ''s'', rq_input = ''x'', rq_key = ''k'', rq_epoch = None\<rparr>"
  let ?v = "\<lparr>av_agents = None, av_statuses = None, av_owners = [], av_stopping = []\<rparr>"
  let ?row = "\<lparr>ad_status = Some ''started'', ad_target = Some ''s'', ad_generation = 1\<rparr>"
  let ?au = "\<lparr>au_known = True, au_fence = True, au_answer = Latched\<rparr>"
  have h: "rq_owner ?rq = Some ''o''" "is_purged ''o'' (rq_run ?rq) (rq_key ?rq) (sw_store ?w)"
    "known_answer (\<lambda>s. s) None ?rq (sw_store ?w) = None"
    "fst (legacy_verdict None ?v ?rq) = ''admit''"
    "fst (authority_verdict ?v (rq_run ?rq) ?row (live_status ?v ?rq) (epoch_ok None ?rq)) = ''admit''"
    by (simp_all add: is_purged_def table_simps known_answer_def present_def duplicate_def find_key_def
        steer_empty_def legacy_verdict_def verdict_def authority_verdict_def live_status_def live_agent_def
        status_text_def epoch_ok_def TERMINAL_def STEERABLE_def)
  from steer_purged_key_answers [OF h, where now = 8000001 and au = ?au] show ?thesis
    by (intro exI [of _ ?w] exI [of _ "Bound ?au ?row"] exI [of _ ?rq] exI [of _ ?v]) simp
qed

end
