(* ===== verification/Approval_Display.thy ===== *)
theory Approval_Display
  imports Session_DB
begin

text \<open>
  What \<open>compat/approval_inbox.py\<close> shows of an approval request: the choices offered, the credential
  mask over the command (the regular expression \<open>_REDACTION_RE\<close>, on ASCII text), the entry built from
  the core's data, and the payload with its deadline. The redactors of the core are arguments.
\<close>

section \<open>The credential mask\<close>

definition word_char :: "char \<Rightarrow> bool" where
  "word_char c \<longleftrightarrow> (let n = (of_char c :: nat) in
     (48 \<le> n \<and> n \<le> 57) \<or> (65 \<le> n \<and> n \<le> 90) \<or> (97 \<le> n \<and> n \<le> 122) \<or> n = 95)"

definition name_char :: "char \<Rightarrow> bool" where
  "name_char c \<longleftrightarrow> word_char c \<or> c = CHR ''.'' \<or> c = CHR ''-''"

definition secret_words :: "string list" where
  "secret_words = [''secret'', ''token'', ''password'', ''passwd'', ''apikey'', ''api_key'', ''api-key'',
     ''accesskey'', ''access_key'', ''access-key'']"

fun has_sub :: "string \<Rightarrow> string \<Rightarrow> bool" where
  "has_sub p [] = starts_with p []"
| "has_sub p (c # cs) = (starts_with p (c # cs) \<or> has_sub p cs)"

definition names_secret :: "string \<Rightarrow> bool" where
  "names_secret name = list_ex (\<lambda>w. has_sub w (py_lower name)) secret_words"

text \<open>
  Whether the expression matches from the first character on: the name runs to the first character
  outside \<open>[\w.-]\<close>, which must be \<open>=\<close> or \<open>:\<close> before something that is not space.
\<close>

definition credential_at :: "string \<Rightarrow> bool" where
  "credential_at s \<longleftrightarrow> names_secret (takeWhile name_char s) \<and>
     (case dropWhile name_char s of
        c # d # _ \<Rightarrow> (c = CHR ''='' \<or> c = CHR '':'') \<and> \<not> py_space d
      | _ \<Rightarrow> False)"

definition boundary_at :: "char option \<Rightarrow> char \<Rightarrow> bool" where
  "boundary_at prev c \<longleftrightarrow> word_char c \<noteq> (case prev of None \<Rightarrow> False | Some p \<Rightarrow> word_char p)"

definition REDACTION :: string where "REDACTION = ''***''"

text \<open>
  \<open>_REDACTION_RE.sub\<close>: a match swallows everything up to the next space, as all its parts are
  without space and the last is \<open>\S+\<close>; \<open>prev\<close> is the character before the text.
\<close>

function mask :: "char option \<Rightarrow> string \<Rightarrow> string" where
  "mask prev [] = []"
| "mask prev (c # cs) =
     (if boundary_at prev c \<and> credential_at (c # cs)
      then REDACTION @ mask (Some (last (c # takeWhile (\<lambda>x. \<not> py_space x) cs))) (dropWhile (\<lambda>x. \<not> py_space x) cs)
      else c # mask (Some c) cs)"
  by pat_completeness auto
termination by (relation "measure (\<lambda>(p, s). length s)") (auto simp: le_imp_less_Suc length_dropWhile_le)

text \<open>A credential assignment that stands at a word boundary.\<close>

fun leaks :: "char option \<Rightarrow> string \<Rightarrow> bool" where
  "leaks prev [] = False"
| "leaks prev (c # cs) = ((boundary_at prev c \<and> credential_at (c # cs)) \<or> leaks (Some c) cs)"

definition redact_command :: "(string \<Rightarrow> string) option \<Rightarrow> string option \<Rightarrow> string" where
  "redact_command core command =
     (let text = (case command of None \<Rightarrow> [] | Some c \<Rightarrow> c)
      in mask None (case core of None \<Rightarrow> text | Some f \<Rightarrow> f text))"

definition redact_text :: "(string \<Rightarrow> string) option \<Rightarrow> string option \<Rightarrow> string" where
  "redact_text api text =
     (let raw = py_strip (case text of None \<Rightarrow> [] | Some t \<Rightarrow> t)
      in take 300 (case api of None \<Rightarrow> raw | Some f \<Rightarrow> f raw))"

section \<open>The core's data and the display payload\<close>

text \<open>
  An approval's data as the registry reads it: \<open>dt_no_session\<close> and \<open>dt_no_permanent\<close> say that
  \<open>allow_session\<close>, \<open>allow_permanent\<close> are \<open>False\<close>; an absent or empty value is \<open>None\<close>.
\<close>

record approval_data =
  dt_request :: "string option"
  dt_smart :: bool
  dt_no_session :: bool
  dt_no_permanent :: bool
  dt_command :: "string option"
  dt_description :: "string option"
  dt_pattern :: "string option"
  dt_patterns :: "string list"

definition CHOICES_BASE :: "string list" where "CHOICES_BASE = [''once'', ''session'', ''deny'']"
definition CHOICES_ALWAYS :: "string list" where "CHOICES_ALWAYS = [''once'', ''session'', ''always'', ''deny'']"
definition CHOICES_DENY_ONLY :: "string list" where "CHOICES_DENY_ONLY = [''once'', ''deny'']"

definition choices_from_data :: "approval_data \<Rightarrow> string list" where
  "choices_from_data d = (if dt_smart d \<or> dt_no_session d then CHOICES_DENY_ONLY
     else if \<not> dt_no_permanent d then CHOICES_ALWAYS else CHOICES_BASE)"

record approval_payload =
  pl_request :: string
  pl_run :: string
  pl_session :: "string option"
  pl_epoch :: "string option"
  pl_choices :: "string list"
  pl_command :: string
  pl_description :: string
  pl_pattern :: string
  pl_patterns :: "string list"
  pl_smart :: bool

record approval_entry =
  en_payload :: approval_payload
  en_session_key :: string
  en_session_ok :: bool
  en_permanent_ok :: bool
  en_created_at :: time
  en_created :: time
  en_timeout :: int
  en_pending :: bool
  en_outcome :: "string option"
  en_resolved :: "time option"
  en_timer :: bool

definition request_of :: "approval_data \<Rightarrow> string" where
  "request_of d = (case dt_request d of None \<Rightarrow> [] | Some r \<Rightarrow> r)"

definition patterns_of :: "approval_data \<Rightarrow> string list" where
  "patterns_of d = filter (\<lambda>k. k \<noteq> [])
     (if dt_patterns d \<noteq> [] then dt_patterns d
      else case dt_pattern d of None \<Rightarrow> [] | Some p \<Rightarrow> [p])"

record redactors =
  rd_command :: "(string \<Rightarrow> string) option"
  rd_text :: "(string \<Rightarrow> string) option"

definition payload_from_data :: "redactors \<Rightarrow> approval_data \<Rightarrow> string option \<Rightarrow> string \<Rightarrow> string option
    \<Rightarrow> approval_payload" where
  "payload_from_data rd d epoch rid sid = \<lparr>
     pl_request = request_of d, pl_run = rid, pl_session = sid, pl_epoch = epoch,
     pl_choices = choices_from_data d, pl_command = redact_command (rd_command rd) (dt_command d),
     pl_description = redact_text (rd_text rd) (dt_description d),
     pl_pattern = (case dt_pattern d of Some p \<Rightarrow> p
        | None \<Rightarrow> (case patterns_of d of p # _ \<Rightarrow> p | [] \<Rightarrow> [])),
     pl_patterns = patterns_of d, pl_smart = dt_smart d\<rparr>"

definition entry_from_data :: "redactors \<Rightarrow> approval_data \<Rightarrow> string option \<Rightarrow> string \<Rightarrow> string option
    \<Rightarrow> string \<Rightarrow> int \<Rightarrow> time \<Rightarrow> time \<Rightarrow> approval_entry" where
  "entry_from_data rd d epoch rid sid skey timeout now now_mono = \<lparr>
     en_payload = payload_from_data rd d epoch rid sid, en_session_key = skey,
     en_session_ok = (\<not> dt_no_session d), en_permanent_ok = (\<not> dt_no_permanent d),
     en_created_at = now, en_created = now_mono, en_timeout = timeout,
     en_pending = True, en_outcome = None, en_resolved = None, en_timer = False\<rparr>"

text \<open>\<open>DEFAULT_TIMEOUT\<close>: the core's setting, or \<open>None\<close> when it cannot be read.\<close>

definition default_timeout :: "int option \<Rightarrow> int" where
  "default_timeout v = (case v of None \<Rightarrow> 300 | Some n \<Rightarrow> max n 0)"

record approval_view =
  vw_payload :: approval_payload
  vw_created :: time
  vw_expires :: time
  vw_remaining :: int

definition payload_for :: "time \<Rightarrow> approval_entry \<Rightarrow> approval_view" where
  "payload_for now_mono e = \<lparr>
     vw_payload = en_payload e, vw_created = en_created_at e,
     vw_expires = en_created_at e + of_int (en_timeout e),
     vw_remaining = max 0 \<lceil>en_created e + of_int (en_timeout e) - now_mono\<rceil>\<rparr>"

section \<open>Enrichment of the native event\<close>

definition opt_json :: "string option \<Rightarrow> json" where
  "opt_json v = (case v of None \<Rightarrow> JNull | Some s \<Rightarrow> JStr s)"

definition view_json :: "approval_view \<Rightarrow> (string \<times> json) list" where
  "view_json v = [
     (''session_id'', opt_json (pl_session (vw_payload v))), (''server_epoch'', opt_json (pl_epoch (vw_payload v))),
     (''created_at'', JReal (vw_created v)), (''expires_at'', JReal (vw_expires v)),
     (''remaining_seconds'', JInt (vw_remaining v)), (''deadline_estimated'', JBool True),
     (''pattern_keys'', JArr (map JStr (pl_patterns (vw_payload v))))]"

definition setdefault :: "string \<Rightarrow> json \<Rightarrow> (string \<times> json) list \<Rightarrow> (string \<times> json) list" where
  "setdefault k v d = (if map_of d k = None then d @ [(k, v)] else d)"

text \<open>
  \<open>enrich_event\<close> on the run's parked event (\<open>None\<close>: no event that is an object), for an entry the
  registry holds.
\<close>

definition enrich_event :: "time \<Rightarrow> string \<Rightarrow> string \<Rightarrow> approval_entry option
    \<Rightarrow> (string \<times> json) list option \<Rightarrow> (string \<times> json) list option" where
  "enrich_event now rid req entry event = (case (entry, event) of
     (Some e, Some ev) \<Rightarrow>
       if map_of ev ''request_id'' \<noteq> Some (JStr req) then event
       else Some (setdefault ''run_id'' (JStr rid) (fold (\<lambda>(k, v). setdefault k v) (view_json (payload_for now e)) ev))
   | _ \<Rightarrow> event)"

section \<open>The mask leaves no credential\<close>

abbreviation run_on :: "char \<Rightarrow> bool" where "run_on \<equiv> (\<lambda>x. \<not> py_space x)"

lemma mask_span:
  "takeWhile name_char (mask prev s) = takeWhile name_char s
     \<and> (\<exists>q. dropWhile name_char (mask prev s) = mask q (dropWhile name_char s))
   \<or> (\<exists>t. dropWhile name_char (mask prev s) = CHR ''*'' # t)"
proof (induction prev s rule: mask.induct)
  case (1 prev)
  then show ?case by simp
next
  case (2 prev c cs)
  show ?case
  proof (cases "boundary_at prev c \<and> credential_at (c # cs)")
    case True
    have "\<not> name_char CHR ''*''" by (simp add: name_char_def word_char_def)
    with True show ?thesis by (simp add: REDACTION_def)
  next
    case False
    show ?thesis
    proof (cases "name_char c")
      case True
      with False 2(2) [OF False] show ?thesis by auto
    next
      case nc: False
      then have "dropWhile name_char (mask prev (c # cs)) = mask prev (dropWhile name_char (c # cs))"
        using False by auto
      with nc False show ?thesis by (intro disjI1) auto
    qed
  qed
qed

lemma credential_no_name: "\<not> name_char c \<Longrightarrow> \<not> credential_at (c # cs)"
  by (simp add: credential_at_def names_secret_def secret_words_def py_lower_def starts_with_def)

text \<open>Masking a text never makes a credential at its start.\<close>

lemma credential_unmask:
  assumes "credential_at (mask prev s)" shows "credential_at s"
proof -
  from assms obtain c d t where m: "dropWhile name_char (mask prev s) = c # d # t"
    "c = CHR ''='' \<or> c = CHR '':''" "\<not> py_space d" "names_secret (takeWhile name_char (mask prev s))"
    by (auto simp: credential_at_def split: list.splits)
  from mask_span [of prev s] m(1,2) obtain q where
    span: "takeWhile name_char (mask prev s) = takeWhile name_char s"
    "mask q (dropWhile name_char s) = c # d # t" by auto
  obtain c' r where r: "dropWhile name_char s = c' # r" using span(2) by (cases "dropWhile name_char s") auto
  then have "\<not> name_char c'" by (metis hd_dropWhile list.distinct(1) list.sel(1))
  then have nc: "\<not> credential_at (c' # r)" by (rule credential_no_name)
  with r span(2) have c': "c' = c" and rest: "mask (Some c) r = d # t" by auto
  then obtain d' r' where d': "r = d' # r'" by (cases r) auto
  have "\<not> py_space d'"
  proof
    assume sp: "py_space d'"
    then have "\<not> name_char d'" by (auto simp: py_space_def name_char_def word_char_def Let_def)
    then have "mask (Some c) r = d' # mask (Some d') r'" by (simp add: d' credential_no_name)
    with rest m(3) sp show False by simp
  qed
  with m span r c' d' show ?thesis by (simp add: credential_at_def)
qed

lemma space_no_credential: "py_space c \<Longrightarrow> \<not> credential_at (c # cs)"
  by (intro credential_no_name) (auto simp: py_space_def name_char_def word_char_def Let_def)

lemma leaks_space: "s = [] \<or> py_space (hd s) \<Longrightarrow> leaks p s = leaks q s"
  by (cases s) (auto simp: space_no_credential)

lemma mask_starts_space:
  "s = [] \<or> py_space (hd s) \<Longrightarrow> mask p s = [] \<or> py_space (hd (mask p s))"
  by (cases s) (auto simp: space_no_credential)

lemma leaks_redaction:
  assumes "\<not> leaks q s" "s = [] \<or> py_space (hd s)" shows "\<not> leaks p (REDACTION @ s)"
proof -
  have star: "\<not> name_char CHR ''*''" by (simp add: name_char_def word_char_def)
  have "leaks (Some CHR ''*'') s = leaks q s"
    using assms(2) by (rule leaks_space)
  with assms(1) star show ?thesis by (simp add: REDACTION_def credential_no_name)
qed

lemma mask_clean: "\<not> leaks prev (mask prev s)"
proof (induction prev s rule: mask.induct)
  case (1 prev)
  then show ?case by simp
next
  case (2 prev c cs)
  show ?case
  proof (cases "boundary_at prev c \<and> credential_at (c # cs)")
    case True
    let ?q = "Some (last (c # takeWhile run_on cs))"
    have "dropWhile run_on cs = [] \<or> py_space (hd (dropWhile run_on cs))"
      using hd_dropWhile [of run_on cs] by auto
    from mask_starts_space [OF this, of ?q] 2(1) [OF True] leaks_redaction [of ?q _ prev] True
    show ?thesis by simp
  next
    case False
    have "\<not> (boundary_at prev c \<and> credential_at (c # mask (Some c) cs))"
    proof
      assume a: "boundary_at prev c \<and> credential_at (c # mask (Some c) cs)"
      with False have "mask prev (c # cs) = c # mask (Some c) cs" by auto
      with a credential_unmask [of prev "c # cs"] False show False by auto
    qed
    with False 2(2) [OF False] show ?thesis by auto
  qed
qed

text \<open>
  No credential assignment survives in the command an approval shows: whatever the command and
  whatever the core's own redactor made of it, the displayed text has no \<open>name=value\<close> or
  \<open>name:value\<close> left, at any word boundary, whose name speaks of a secret.
\<close>

theorem approval_command_masked: "\<not> leaks None (redact_command core command)"
  unfolding redact_command_def Let_def by (rule mask_clean)

end
