(* ===== verification/Approval_Inbox.thy ===== *)
theory Approval_Inbox
  imports Approval_Display "HOL-Library.AList"
begin

text \<open>
  \<open>compat/approval_inbox.py\<close>: the registry of pending approvals. A bucket per run of an adapter
  holds the entries of its requests in the order of the dict. The queue of the core for the run's
  session is an argument, as its readers are: the ids \<open>live\<close> of a snapshot, the \<open>gateway_entry\<close> list a
  capture chains its settle hook into, the data list an answer is checked against. Every clock
  reading is an argument. \<open>rg_emitted\<close> records the \<open>approval.resolved\<close> events and \<open>rg_tracked\<close> the
  requests counted as accepted, in order.
\<close>

section \<open>Registry\<close>

type_synonym run_ref = "nat \<times> string"

record bucket =
  bk_entries :: "(string \<times> approval_entry) list"
  bk_revision :: nat
  bk_degraded :: bool
  bk_session :: "string option"
  bk_seen :: time

record registry =
  rg_runs :: "(run_ref \<times> bucket) list"
  rg_epoch :: "string option"
  rg_metrics :: "(string \<times> nat) list"
  rg_emitted :: "(run_ref \<times> string \<times> string) list"
  rg_tracked :: "(run_ref \<times> string) list"

definition INBOX_MAX_PENDING :: nat where "INBOX_MAX_PENDING = 32"
definition INBOX_MAX_RUNS :: nat where "INBOX_MAX_RUNS = 64"
definition RESOLVED_TTL :: time where "RESOLVED_TTL = 900"

definition empty_registry :: "string option \<Rightarrow> registry" where
  "empty_registry epoch = \<lparr>rg_runs = [], rg_epoch = epoch, rg_metrics = [], rg_emitted = [], rg_tracked = []\<rparr>"

definition metric :: "string \<Rightarrow> registry \<Rightarrow> registry" where
  "metric name rg = rg\<lparr>rg_metrics :=
     AList.update name (Suc (case map_of (rg_metrics rg) name of None \<Rightarrow> 0 | Some n \<Rightarrow> n)) (rg_metrics rg)\<rparr>"

definition bucket_of :: "run_ref \<Rightarrow> registry \<Rightarrow> bucket option" where
  "bucket_of k rg = map_of (rg_runs rg) k"

definition entry_of :: "run_ref \<Rightarrow> string \<Rightarrow> registry \<Rightarrow> approval_entry option" where
  "entry_of k req rg = Option.bind (bucket_of k rg) (\<lambda>b. map_of (bk_entries b) req)"

definition put_bucket :: "run_ref \<Rightarrow> bucket \<Rightarrow> registry \<Rightarrow> registry" where
  "put_bucket k b rg = rg\<lparr>rg_runs := AList.update k b (rg_runs rg)\<rparr>"

text \<open>\<open>min(.., key=last_seen)\<close>: the first bucket seen longest ago.\<close>

fun oldest_run :: "(run_ref \<times> bucket) list \<Rightarrow> run_ref option" where
  "oldest_run [] = None"
| "oldest_run ((k, b) # xs) = (case oldest_run xs of
     None \<Rightarrow> Some k
   | Some k' \<Rightarrow> (case map_of xs k' of
       None \<Rightarrow> Some k
     | Some b' \<Rightarrow> if bk_seen b' < bk_seen b then Some k' else Some k))"

lemma oldest_run_mem: "oldest_run xs = Some k \<Longrightarrow> k \<in> fst ` set xs"
  by (induction xs arbitrary: k rule: oldest_run.induct) (auto split: option.splits if_splits)

lemma oldest_run_None: "oldest_run xs = None \<longleftrightarrow> xs = []"
  by (cases xs rule: oldest_run.cases) (auto split: option.splits)

lemma length_delete_less: "k \<in> fst ` set xs \<Longrightarrow> length (AList.delete k xs) < length xs"
  by (auto simp: AList.delete_eq intro: length_filter_less)

text \<open>The eviction loop of \<open>_bucket\<close>.\<close>

function evict :: "registry \<Rightarrow> registry" where
  "evict rg = (if length (rg_runs rg) \<le> INBOX_MAX_RUNS then rg
     else case oldest_run (rg_runs rg) of
       None \<Rightarrow> rg
     | Some k \<Rightarrow> evict (metric ''enqueue_dropped'' (rg\<lparr>rg_runs := AList.delete k (rg_runs rg)\<rparr>)))"
  by pat_completeness auto

termination
  by (relation "measure (\<lambda>rg. length (rg_runs rg))")
    (auto simp: metric_def dest!: oldest_run_mem intro: length_delete_less)

declare evict.simps [simp del]

definition new_bucket :: "string option \<Rightarrow> time \<Rightarrow> bucket" where
  "new_bucket sid now = \<lparr>bk_entries = [], bk_revision = 0, bk_degraded = False, bk_session = sid, bk_seen = now\<rparr>"

definition touch :: "string option \<Rightarrow> time \<Rightarrow> bucket \<Rightarrow> bucket" where
  "touch sid now b = b\<lparr>bk_seen := now,
     bk_session := (case bk_session b of Some s \<Rightarrow> if s = [] then (if sid = None then Some s else sid) else Some s
                    | None \<Rightarrow> sid)\<rparr>"

text \<open>
  \<open>_bucket(.., create=True)\<close>: the run's bucket, made if need be, and the registry. The caller goes on
  with the bucket it was given even when the eviction has already taken it out of the registry.
\<close>

definition open_bucket :: "run_ref \<Rightarrow> string option \<Rightarrow> time \<Rightarrow> registry \<Rightarrow> bucket \<times> registry" where
  "open_bucket k sid now rg = (case bucket_of k rg of
     Some b \<Rightarrow> (touch sid now b, put_bucket k (touch sid now b) rg)
   | None \<Rightarrow> (new_bucket sid now, evict (put_bucket k (new_bucket sid now) rg)))"

text \<open>A write to a bucket object: it reaches the registry only while the bucket is in it.\<close>

definition write_bucket :: "run_ref \<Rightarrow> bucket \<Rightarrow> registry \<Rightarrow> registry" where
  "write_bucket k b rg = (if bucket_of k rg = None then rg else put_bucket k b rg)"

section \<open>Settlement\<close>

definition resolve_entry :: "string \<Rightarrow> time \<Rightarrow> approval_entry \<Rightarrow> approval_entry" where
  "resolve_entry outcome now e = e\<lparr>en_pending := False, en_outcome := Some outcome,
     en_resolved := Some now, en_timer := False\<rparr>"

definition settle :: "run_ref \<Rightarrow> string \<Rightarrow> string \<Rightarrow> time \<Rightarrow> registry \<Rightarrow> bool \<times> registry" where
  "settle k req outcome now rg = (case bucket_of k rg of
     None \<Rightarrow> (False, rg)
   | Some b \<Rightarrow> (case map_of (bk_entries b) req of
       None \<Rightarrow> (False, rg)
     | Some e \<Rightarrow>
         if \<not> en_pending e then (False, rg)
         else (True, (put_bucket k (b\<lparr>bk_entries := AList.update req (resolve_entry outcome now e) (bk_entries b),
                        bk_revision := Suc (bk_revision b)\<rparr>) rg)
                \<lparr>rg_emitted := rg_emitted rg @ [(k, req, outcome)]\<rparr>)))"

definition settle_reason :: "string \<Rightarrow> string" where
  "settle_reason reason =
     (if reason = ''resolved'' then ''answered'' else if reason = ''timeout'' then ''timeout''
      else if reason = ''notify_failed'' then ''notify_failed'' else ''withdrawn'')"

text \<open>
  The hook a capture chains: the previous hook first, its exceptions dropped, then the settlement.
  \<open>previous\<close> is what the foreign hook does to its own state; \<open>None\<close> when there is none.
\<close>

definition settle_hook :: "run_ref \<Rightarrow> string \<Rightarrow> (string \<Rightarrow> 'f \<Rightarrow> 'f) option \<Rightarrow> string \<Rightarrow> time
    \<Rightarrow> 'f \<times> registry \<Rightarrow> 'f \<times> registry" where
  "settle_hook k req previous reason now w = (case w of (f, rg) \<Rightarrow>
     ((case previous of None \<Rightarrow> f | Some h \<Rightarrow> h reason f),
      snd (settle k req (settle_reason reason) now rg)))"

section \<open>Capture\<close>

text \<open>An entry of the core's queue and how many of our hooks its settle chain holds.\<close>

record gateway_entry =
  gw_data :: approval_data
  gw_hooks :: nat

datatype captured = NotOurs | Known approval_entry | Fresh approval_entry

definition capture_prior :: "run_ref \<Rightarrow> string \<Rightarrow> registry \<Rightarrow> approval_entry option" where
  "capture_prior k req rg = (case entry_of k req rg of
     Some e \<Rightarrow> if en_pending e then Some e else None | None \<Rightarrow> None)"

text \<open>
  Under the core's lock: find the entry and chain the hook. \<open>queue\<close> is \<open>None\<close> when the lookup raises.
\<close>

fun chain_hook :: "string \<Rightarrow> gateway_entry list \<Rightarrow> (approval_data \<times> gateway_entry list) option" where
  "chain_hook req [] = None"
| "chain_hook req (g # gs) = (if dt_request (gw_data g) = Some req
     then Some (gw_data g, g\<lparr>gw_hooks := Suc (gw_hooks g)\<rparr> # gs)
     else map_option (\<lambda>(d, gs'). (d, g # gs')) (chain_hook req gs))"

text \<open>Under the inbox lock again: the entry goes into its bucket, unless it is known or there is no room.\<close>

definition capture_store :: "run_ref \<Rightarrow> string \<Rightarrow> string option \<Rightarrow> time \<Rightarrow> approval_entry \<Rightarrow> registry
    \<Rightarrow> captured \<times> registry" where
  "capture_store k req sid now e rg =
     (let (b, rg1) = open_bucket k sid now rg;
          prior = map_of (bk_entries b) req
      in case (case prior of Some p \<Rightarrow> if en_pending p then Some p else None | None \<Rightarrow> None) of
           Some p \<Rightarrow> (Known p, rg1)
         | None \<Rightarrow>
             if length (bk_entries b) \<ge> INBOX_MAX_PENDING
             then (NotOurs, metric ''registry_dropped'' (write_bucket k (b\<lparr>bk_degraded := True\<rparr>) rg1))
             else (Fresh e, (metric ''registry_accepted'' (write_bucket k
                     (b\<lparr>bk_entries := AList.update req e (bk_entries b), bk_revision := Suc (bk_revision b)\<rparr>) rg1))
                   \<lparr>rg_tracked := rg_tracked rg1 @ [(k, req)]\<rparr>))"

definition note_dispatch :: "bool option \<Rightarrow> captured \<times> registry \<Rightarrow> captured \<times> registry" where
  "note_dispatch dispatch w = (case w of
     (Fresh e, rg) \<Rightarrow> (Fresh e, case dispatch of
        None \<Rightarrow> metric ''dispatch_none'' rg
      | Some ok \<Rightarrow> if ok then rg else metric ''dispatch_error'' rg)
   | _ \<Rightarrow> w)"

text \<open>
  \<open>capture\<close>: \<open>mk\<close> builds the entry of the data (\<open>entry_from_data\<close> with this run's arguments);
  \<open>dispatch\<close> is \<open>None\<close> without a dispatcher, else whether it returned normally.
\<close>

definition capture :: "run_ref \<Rightarrow> string \<Rightarrow> string option \<Rightarrow> time \<Rightarrow> (approval_data \<Rightarrow> approval_entry)
    \<Rightarrow> bool option \<Rightarrow> gateway_entry list option \<Rightarrow> registry
    \<Rightarrow> captured \<times> gateway_entry list option \<times> registry" where
  "capture k req sid now mk dispatch queue rg =
     (if req = [] then (NotOurs, queue, rg)
      else case capture_prior k req rg of
        Some p \<Rightarrow> (Known p, queue, metric ''capture_replay'' rg)
      | None \<Rightarrow> (case queue of
          None \<Rightarrow> (NotOurs, queue, metric ''capture_error'' rg)
        | Some q \<Rightarrow> (case chain_hook req q of
            None \<Rightarrow> (NotOurs, queue, metric ''capture_entry_missing'' rg)
          | Some (d, q') \<Rightarrow>
              (let (c, rg') = note_dispatch dispatch (capture_store k req sid now (mk d) rg)
               in (c, Some q', rg')))))"

section \<open>Reconciliation\<close>

text \<open>Pending entries whose id the core's queue no longer holds are settled, without an event.\<close>

definition settled_entry :: "approval_entry \<Rightarrow> approval_entry" where
  "settled_entry e = e\<lparr>en_pending := False, en_outcome := Some ''settled''\<rparr>"

definition gone :: "string list \<Rightarrow> string \<times> approval_entry \<Rightarrow> bool" where
  "gone live x \<longleftrightarrow> en_pending (snd x) \<and> fst x \<notin> set live"

definition reconcile_bucket :: "string list \<Rightarrow> bucket \<Rightarrow> bucket" where
  "reconcile_bucket live b = b\<lparr>
     bk_entries := upd_where (gone live) (\<lambda>(r, e). (r, settled_entry e)) (bk_entries b),
     bk_revision := bk_revision b + count_where (gone live) (bk_entries b)\<rparr>"

definition stale :: "time \<Rightarrow> approval_entry \<Rightarrow> bool" where
  "stale now e \<longleftrightarrow> \<not> en_pending e \<and> now - (case en_resolved e of
     Some t \<Rightarrow> if t = 0 then en_created e else t | None \<Rightarrow> en_created e) > RESOLVED_TTL"

definition drop_stale :: "time \<Rightarrow> bucket \<Rightarrow> bucket" where
  "drop_stale now b = b\<lparr>bk_entries := del_where (\<lambda>(r, e). stale now e) (bk_entries b)\<rparr>"

definition pending_views :: "time \<Rightarrow> string list \<Rightarrow> bucket \<Rightarrow> approval_view list" where
  "pending_views now live b = map (payload_for now) (filter en_pending
     (concat (map (\<lambda>r. case map_of (bk_entries b) r of None \<Rightarrow> [] | Some e \<Rightarrow> [e]) live)))"

record snapshot =
  sn_pending :: "approval_view list"
  sn_available :: bool
  sn_overflow :: bool
  sn_revision :: nat

definition snapshot :: "run_ref \<Rightarrow> string list \<Rightarrow> time \<Rightarrow> registry \<Rightarrow> snapshot \<times> registry" where
  "snapshot k live now rg = (case bucket_of k rg of
     None \<Rightarrow> (\<lparr>sn_pending = [], sn_available = (live = []),
               sn_overflow = (length live > INBOX_MAX_PENDING), sn_revision = 0\<rparr>, rg)
   | Some b0 \<Rightarrow>
       let b = reconcile_bucket live b0
       in (\<lparr>sn_pending = pending_views now live b,
            sn_available = list_all (\<lambda>r. map_of (bk_entries b) r \<noteq> None) live,
            sn_overflow = (length live > INBOX_MAX_PENDING \<or> bk_degraded b),
            sn_revision = bk_revision b\<rparr>, put_bucket k (drop_stale now b) rg))"

text \<open>
  \<open>after_responded\<close>: settle the answered request, reconcile, and name the earliest that still waits.
\<close>

definition after_responded :: "run_ref \<Rightarrow> string option \<Rightarrow> string option \<Rightarrow> string list \<Rightarrow> time \<Rightarrow> registry
    \<Rightarrow> approval_entry option \<times> registry" where
  "after_responded k req choice live now rg =
     (let rg1 = (case req of
            None \<Rightarrow> rg
          | Some r \<Rightarrow> if r = [] then rg else snd (settle k r (case choice of None \<Rightarrow> ''answered''
              | Some c \<Rightarrow> if c = [] then ''answered'' else c) now rg))
      in case bucket_of k rg1 of
           None \<Rightarrow> (None, rg1)
         | Some b0 \<Rightarrow>
             let b = reconcile_bucket live b0
             in (map_option snd (first_where (\<lambda>(r, e). en_pending e)
                   (concat (map (\<lambda>r. case map_of (bk_entries b) r of None \<Rightarrow> [] | Some e \<Rightarrow> [(r, e)]) live))),
                 put_bucket k (b\<lparr>bk_revision := Suc (bk_revision b)\<rparr>) rg1))"

definition pending_ids :: "bucket \<Rightarrow> string list" where
  "pending_ids b = map fst (filter (\<lambda>(r, e). en_pending e) (bk_entries b))"

definition settle_run :: "run_ref \<Rightarrow> string \<Rightarrow> time \<Rightarrow> registry \<Rightarrow> string list \<times> registry" where
  "settle_run k outcome now rg = (case bucket_of k rg of
     None \<Rightarrow> ([], rg)
   | Some b \<Rightarrow>
       let ids = pending_ids b;
           rg1 = put_bucket k (b\<lparr>bk_revision := bk_revision b + (if ids = [] then 0 else 1)\<rparr>) rg
       in (ids, fold (\<lambda>r s. snd (settle k r outcome now s)) ids rg1))"

definition prune :: "time \<Rightarrow> registry \<Rightarrow> registry" where
  "prune now rg = rg\<lparr>rg_runs := del_where (\<lambda>(k, b). bk_entries b = [] \<and> now - bk_seen b > RESOLVED_TTL)
     (map (\<lambda>(k, b). (k, drop_stale now b)) (rg_runs rg))\<rparr>"

section \<open>Answers\<close>

record answer_body =
  an_choice :: string
  an_request :: "string option"
  an_epoch :: "string option"
  an_all :: bool

datatype answer_action =
    Submit string string
  | Backfill string string
  | Passthrough
  | Refuse nat string

definition choice_alias :: "string \<Rightarrow> string" where
  "choice_alias c = (if c \<in> {''approve'', ''approved'', ''allow''} then ''once'' else c)"

definition epoch_stale :: "registry \<Rightarrow> string option \<Rightarrow> string option \<Rightarrow> bool" where
  "epoch_stale rg claimed epoch = (case (case claimed of None \<Rightarrow> epoch | Some c \<Rightarrow> Some c) of
     None \<Rightarrow> False
   | Some c \<Rightarrow> (case rg_epoch rg of None \<Rightarrow> False | Some e \<Rightarrow> e \<noteq> [] \<and> c \<noteq> e))"

definition shown_request :: "approval_data \<Rightarrow> string" where
  "shown_request d = (case dt_request d of None \<Rightarrow> ''None'' | Some r \<Rightarrow> r)"

definition classify_answer :: "answer_body \<Rightarrow> string option \<Rightarrow> approval_data list \<Rightarrow> registry \<Rightarrow> answer_action" where
  "classify_answer body epoch queue rg =
     (let choice = choice_alias (py_lower (py_strip (an_choice body)));
          req = (case an_request body of None \<Rightarrow> [] | Some r \<Rightarrow> py_strip r)
      in if epoch_stale rg (an_epoch body) epoch then Refuse 409 ''approval_epoch_stale''
         else if an_all body then Refuse 400 ''approval_scope_not_supported''
         else if req \<noteq> [] then (case first_where (\<lambda>d. dt_request d = Some req) queue of
             None \<Rightarrow> Passthrough
           | Some d \<Rightarrow> if choice \<notin> set (choices_from_data d) then Refuse 400 ''invalid_approval_choice''
               else Submit req choice)
         else (case queue of
             [] \<Rightarrow> Passthrough
           | [d] \<Rightarrow> Backfill (shown_request d) choice
           | _ \<Rightarrow> Refuse 409 ''approval_request_required''))"

end
