(* ===== verification/Approval_Properties.thy ===== *)
theory Approval_Properties
  imports Approval_Inbox
begin

text \<open>
  What the approval registry promises over the histories its operations produce: its bounds and the
  shape of its entries, one \<open>approval.resolved\<close> event for each request it took on, snapshots that
  list exactly what the core's queue still holds, and answers that name one exact request.
\<close>

section \<open>Association lists\<close>

lemma length_update: "length (AList.update k v xs) = (if map_of xs k = None then Suc (length xs) else length xs)"
  by (induction xs) auto

lemma set_update_cases: "x \<in> set (AList.update k v xs) \<Longrightarrow> x = (k, v) \<or> x \<in> set xs"
  by (induction xs) (auto split: if_splits)

lemma map_of_upd_snd:
  "map_of (upd_where (\<lambda>x. P x) (\<lambda>(r, e). (r, f e)) xs) r = map_option (\<lambda>e. if P (r, e) then f e else e) (map_of xs r)"
  by (induction xs) (auto simp: table_simps)

lemma keys_upd_snd: "map fst (upd_where P (\<lambda>(r, e). (r, f e)) xs) = map fst xs"
  by (rule map_upd_where) auto

section \<open>Well-formed registries\<close>

text \<open>An entry is filed under its own request and run, and is settled exactly when it has an outcome.\<close>

definition entry_wf :: "run_ref \<Rightarrow> string \<times> approval_entry \<Rightarrow> bool" where
  "entry_wf k x \<longleftrightarrow> pl_request (en_payload (snd x)) = fst x \<and> pl_run (en_payload (snd x)) = snd k
     \<and> (en_pending (snd x) \<longleftrightarrow> en_outcome (snd x) = None)
     \<and> pl_choices (en_payload (snd x)) \<in> {CHOICES_ALWAYS, CHOICES_BASE, CHOICES_DENY_ONLY}"

definition bucket_wf :: "run_ref \<Rightarrow> bucket \<Rightarrow> bool" where
  "bucket_wf k b \<longleftrightarrow> distinct (map fst (bk_entries b)) \<and> length (bk_entries b) \<le> INBOX_MAX_PENDING
     \<and> list_all (entry_wf k) (bk_entries b)"

definition runs_wf :: "registry \<Rightarrow> bool" where
  "runs_wf rg \<longleftrightarrow> distinct (map fst (rg_runs rg)) \<and> list_all (\<lambda>(k, b). bucket_wf k b) (rg_runs rg)"

definition registry_wf :: "registry \<Rightarrow> bool" where
  "registry_wf rg \<longleftrightarrow> runs_wf rg \<and> length (rg_runs rg) \<le> INBOX_MAX_RUNS"

lemma metric_runs [simp]: "rg_runs (metric name rg) = rg_runs rg" "bucket_of k (metric name rg) = bucket_of k rg"
  "rg_emitted (metric name rg) = rg_emitted rg" "rg_tracked (metric name rg) = rg_tracked rg"
  by (simp_all add: metric_def bucket_of_def)

lemma metric_wf [simp]: "registry_wf (metric name rg) = registry_wf rg" "runs_wf (metric name rg) = runs_wf rg"
  by (simp_all add: registry_wf_def runs_wf_def)

lemma bucket_of_put: "bucket_of k' (put_bucket k b rg) = (if k' = k then Some b else bucket_of k' rg)"
  by (simp add: bucket_of_def put_bucket_def update_conv')

lemma put_logs [simp]: "rg_emitted (put_bucket k b rg) = rg_emitted rg" "rg_tracked (put_bucket k b rg) = rg_tracked rg"
  by (simp_all add: put_bucket_def)

lemma runs_wf_put: "runs_wf rg \<Longrightarrow> bucket_wf k b \<Longrightarrow> runs_wf (put_bucket k b rg)"
  by (auto simp: runs_wf_def put_bucket_def list_all_iff dest: set_update_cases intro: distinct_update)

lemma registry_wf_put:
  "registry_wf rg \<Longrightarrow> bucket_of k rg = Some b0 \<Longrightarrow> bucket_wf k b \<Longrightarrow> registry_wf (put_bucket k b rg)"
  by (simp add: registry_wf_def runs_wf_put) (simp add: put_bucket_def bucket_of_def length_update)

lemma bucket_of_wf: "runs_wf rg \<Longrightarrow> bucket_of k rg = Some b \<Longrightarrow> bucket_wf k b"
  by (auto simp: runs_wf_def bucket_of_def list_all_iff dest: map_of_SomeD)

lemma evict_wf: "runs_wf rg \<Longrightarrow> registry_wf (evict rg)"
proof (induction rg rule: evict.induct)
  case (1 rg)
  show ?case
  proof (cases "length (rg_runs rg) \<le> INBOX_MAX_RUNS")
    case True
    with 1(2) show ?thesis by (simp add: evict.simps registry_wf_def)
  next
    case False
    then obtain k where k: "oldest_run (rg_runs rg) = Some k"
      using oldest_run_None [of "rg_runs rg"] by (cases "rg_runs rg") auto
    have "runs_wf (metric ''enqueue_dropped'' (rg\<lparr>rg_runs := AList.delete k (rg_runs rg)\<rparr>))"
      using 1(2) by (auto simp: runs_wf_def list_all_iff AList.delete_eq distinct_map_filter split: if_splits)
    from 1(1) [OF False k this] False k show ?thesis by (subst evict.simps) simp
  qed
qed

lemma evict_logs: "rg_emitted (evict rg) = rg_emitted rg \<and> rg_tracked (evict rg) = rg_tracked rg"
proof (induction rg rule: evict.induct)
  case (1 rg)
  then show ?case by (subst evict.simps, subst evict.simps) (auto split: option.split)
qed

text \<open>Eviction only forgets buckets.\<close>

lemma evict_bucket: "bucket_of k (evict rg) = Some b \<Longrightarrow> bucket_of k rg = Some b"
proof (induction rg rule: evict.induct)
  case (1 rg)
  show ?case
  proof (cases "length (rg_runs rg) \<le> INBOX_MAX_RUNS")
    case True
    with 1(2) show ?thesis by (simp add: evict.simps)
  next
    case False
    then obtain k' where k': "oldest_run (rg_runs rg) = Some k'"
      using oldest_run_None [of "rg_runs rg"] by (cases "rg_runs rg") auto
    have "bucket_of k (evict (metric ''enqueue_dropped'' (rg\<lparr>rg_runs := AList.delete k' (rg_runs rg)\<rparr>))) = Some b"
      using 1(2) False k' by (subst (asm) evict.simps) simp
    from 1(1) [OF False k' this] show ?thesis
      by (auto simp: bucket_of_def delete_conv' split: if_splits)
  qed
qed

lemma entry_wf_new: "dt_request d = Some req \<Longrightarrow> entry_wf k (req, entry_from_data rd d epoch (snd k) sid skey tm wall now)"
  by (simp add: entry_wf_def entry_from_data_def payload_from_data_def request_of_def choices_from_data_def)

lemma entry_wf_resolved: "entry_wf k (r, e) \<Longrightarrow> entry_wf k (r, resolve_entry outcome now e)"
  "entry_wf k (r, e) \<Longrightarrow> entry_wf k (r, settled_entry e)"
  by (auto simp: entry_wf_def resolve_entry_def settled_entry_def)

lemma bucket_wf_entries:
  assumes "bucket_wf k b" "distinct (map fst es)" "length es \<le> INBOX_MAX_PENDING" "list_all (entry_wf k) es"
    and "bk_entries b' = es"
  shows "bucket_wf k b'"
  using assms by (simp add: bucket_wf_def)

lemma bucket_wf_update:
  assumes "bucket_wf k b" "entry_wf k (req, e)" "length (AList.update req e (bk_entries b)) \<le> INBOX_MAX_PENDING"
    and "bk_entries b' = AList.update req e (bk_entries b)"
  shows "bucket_wf k b'"
  using assms by (auto simp: bucket_wf_def list_all_iff dest: set_update_cases intro: distinct_update)

lemma bucket_wf_cong: "bk_entries b' = bk_entries b \<Longrightarrow> bucket_wf k b \<Longrightarrow> bucket_wf k b'"
  by (simp add: bucket_wf_def)

lemma reconcile_entries:
  "bk_entries (reconcile_bucket live b) = upd_where (gone live) (\<lambda>(r, e). (r, settled_entry e)) (bk_entries b)"
  by (simp add: reconcile_bucket_def)

lemma bucket_wf_reconcile: "bucket_wf k b \<Longrightarrow> bucket_wf k (reconcile_bucket live b)"
  unfolding bucket_wf_def reconcile_entries keys_upd_snd length_upd_where list_all_upd_where
  by (auto simp: list_all_iff entry_wf_resolved)

lemma bucket_wf_drop: "bucket_wf k b \<Longrightarrow> bucket_wf k (drop_stale now b)"
  by (auto simp: bucket_wf_def drop_stale_def list_all_iff del_where_def distinct_map_filter
      intro: le_trans [OF length_filter_le])

section \<open>Histories\<close>

datatype approval_op =
    Capture run_ref string "string option" time redactors string int time "bool option" "gateway_entry list option"
  | Settle run_ref string string time
  | Snapshot run_ref "string list" time
  | Responded run_ref "string option" "string option" "string list" time
  | SettleRun run_ref string time
  | Prune time

text \<open>The capture as a producer calls it: the entry is built with the registry's epoch and this run.\<close>

definition capture_now :: "run_ref \<Rightarrow> string \<Rightarrow> string option \<Rightarrow> time \<Rightarrow> redactors \<Rightarrow> string \<Rightarrow> int \<Rightarrow> time
    \<Rightarrow> bool option \<Rightarrow> gateway_entry list option \<Rightarrow> registry
    \<Rightarrow> captured \<times> gateway_entry list option \<times> registry" where
  "capture_now k req sid now rd skey timeout wall dispatch queue rg =
     capture k req sid now (\<lambda>d. entry_from_data rd d (rg_epoch rg) (snd k) sid skey timeout wall now)
       dispatch queue rg"

fun approval_step :: "approval_op \<Rightarrow> registry \<Rightarrow> registry" where
  "approval_step (Capture k req sid now rd skey tm wall dispatch queue) rg =
     snd (snd (capture_now k req sid now rd skey tm wall dispatch queue rg))"
| "approval_step (Settle k req outcome now) rg = snd (settle k req outcome now rg)"
| "approval_step (Snapshot k live now) rg = snd (snapshot k live now rg)"
| "approval_step (Responded k req choice live now) rg = snd (after_responded k req choice live now rg)"
| "approval_step (SettleRun k outcome now) rg = snd (settle_run k outcome now rg)"
| "approval_step (Prune now) rg = prune now rg"

lemma chain_hook_data: "chain_hook req q = Some (d, q') \<Longrightarrow> dt_request d = Some req"
  by (induction q arbitrary: q') (auto split: if_splits)

lemma open_bucket_facts:
  assumes "registry_wf rg" "open_bucket k sid now rg = (b, rg1)"
  shows "registry_wf rg1 \<and> bucket_wf k b \<and> rg_emitted rg1 = rg_emitted rg \<and> rg_tracked rg1 = rg_tracked rg
    \<and> bk_entries b = (case bucket_of k rg of None \<Rightarrow> [] | Some b0 \<Rightarrow> bk_entries b0)
    \<and> (\<forall>k' b'. k' \<noteq> k \<longrightarrow> bucket_of k' rg1 = Some b' \<longrightarrow> bucket_of k' rg = Some b')
    \<and> (bucket_of k rg1 \<noteq> None \<longrightarrow> bucket_of k rg1 = Some b)"
proof (cases "bucket_of k rg")
  case None
  have wf: "bucket_wf k (new_bucket sid now)" by (simp add: bucket_wf_def new_bucket_def)
  from None assms(2) have b: "b = new_bucket sid now" "rg1 = evict (put_bucket k b rg)"
    by (auto simp: open_bucket_def)
  have "runs_wf (put_bucket k b rg)" using assms(1) wf by (simp add: b(1) registry_wf_def runs_wf_put)
  then have "registry_wf rg1" unfolding b(2) by (rule evict_wf)
  moreover have "bucket_of k' rg1 = Some b' \<Longrightarrow> bucket_of k' (put_bucket k b rg) = Some b'" for k' b'
    unfolding b(2) by (rule evict_bucket)
  ultimately show ?thesis
    using None wf evict_logs [of "put_bucket k b rg"] by (fastforce simp: b bucket_of_put new_bucket_def)
next
  case (Some b0)
  then have b: "b = touch sid now b0" "rg1 = put_bucket k b rg" using assms(2) by (auto simp: open_bucket_def)
  have "bk_entries b = bk_entries b0" by (simp add: b touch_def)
  moreover have "bucket_wf k b"
    using bucket_of_wf [OF _ Some] assms(1) by (intro bucket_wf_cong [of b b0]) (simp_all add: b touch_def registry_wf_def)
  ultimately show ?thesis
    using Some assms(1) registry_wf_put [OF assms(1) Some, of b] by (simp add: b(2) bucket_of_put)
qed

lemma write_bucket_wf: "registry_wf rg \<Longrightarrow> bucket_wf k b \<Longrightarrow> registry_wf (write_bucket k b rg)"
  by (auto simp: write_bucket_def intro: registry_wf_put)

lemma write_logs [simp]: "rg_emitted (write_bucket k b rg) = rg_emitted rg" "rg_tracked (write_bucket k b rg) = rg_tracked rg"
  by (simp_all add: write_bucket_def)

lemma registry_wf_log [simp]: "registry_wf (rg\<lparr>rg_tracked := t\<rparr>) = registry_wf rg" "registry_wf (rg\<lparr>rg_emitted := t'\<rparr>) = registry_wf rg"
  by (simp_all add: registry_wf_def runs_wf_def)

lemma capture_store_wf:
  assumes "registry_wf rg" "entry_wf k (req, e)" shows "registry_wf (snd (capture_store k req sid now e rg))"
proof -
  obtain b rg1 where o: "open_bucket k sid now rg = (b, rg1)" by fastforce
  note f = open_bucket_facts [OF assms(1) o]
  have deg: "bucket_wf k (b\<lparr>bk_degraded := True\<rparr>)" by (rule bucket_wf_cong [of _ b]) (use f in simp_all)
  have new: "bucket_wf k (b\<lparr>bk_entries := AList.update req e (bk_entries b), bk_revision := n\<rparr>)"
    if "length (bk_entries b) < INBOX_MAX_PENDING" for n
    by (rule bucket_wf_update [of k b req e]) (use f assms(2) that in \<open>auto simp: length_update\<close>)
  show ?thesis
    using f deg new by (auto simp: capture_store_def o Let_def write_bucket_wf split: option.split)
qed

lemma note_dispatch_snd: "registry_wf (snd (note_dispatch dispatch w)) = registry_wf (snd w)"
  "rg_emitted (snd (note_dispatch dispatch w)) = rg_emitted (snd w)"
  "rg_tracked (snd (note_dispatch dispatch w)) = rg_tracked (snd w)"
  "bucket_of k (snd (note_dispatch dispatch w)) = bucket_of k (snd w)"
  by (auto simp: note_dispatch_def split: prod.split captured.split option.split)

lemma capture_cases:
  obtains (quiet) "snd (snd (capture k req sid now mk dispatch queue rg)) = rg
      \<or> (\<exists>name. snd (snd (capture k req sid now mk dispatch queue rg)) = metric name rg)"
  | (store) d where "dt_request d = Some req" "capture_prior k req rg = None"
      "snd (snd (capture k req sid now mk dispatch queue rg))
        = snd (note_dispatch dispatch (capture_store k req sid now (mk d) rg))"
proof (cases "req = [] \<or> capture_prior k req rg \<noteq> None \<or> (\<forall>q. queue \<noteq> Some q) \<or> chain_hook req (the queue) = None")
  case True
  then show thesis by (intro quiet) (auto simp: capture_def split: option.split)
next
  case False
  then obtain q d q' where "queue = Some q" "chain_hook req q = Some (d, q')" by auto
  with False show thesis
    by (intro store [OF chain_hook_data]) (auto simp: capture_def Let_def split: prod.split)
qed

text \<open>The bucket after a settlement.\<close>

definition settled_bucket :: "string \<Rightarrow> approval_entry \<Rightarrow> bucket \<Rightarrow> bucket" where
  "settled_bucket req e b = b\<lparr>bk_entries := AList.update req e (bk_entries b), bk_revision := Suc (bk_revision b)\<rparr>"

lemma settle_cases:
  obtains (no) "settle k req outcome now rg = (False, rg)"
  | (yes) b e where "bucket_of k rg = Some b" "map_of (bk_entries b) req = Some e" "en_pending e"
      "settle k req outcome now rg = (True, (put_bucket k (settled_bucket req (resolve_entry outcome now e) b) rg)
         \<lparr>rg_emitted := rg_emitted rg @ [(k, req, outcome)]\<rparr>)"
proof (cases "\<exists>b e. bucket_of k rg = Some b \<and> map_of (bk_entries b) req = Some e \<and> en_pending e")
  case True
  then obtain b e where "bucket_of k rg = Some b" "map_of (bk_entries b) req = Some e" "en_pending e" by blast
  then show thesis by (intro yes [of b e]) (simp_all add: settle_def settled_bucket_def)
next
  case False
  then show thesis by (intro no) (auto simp: settle_def split: option.split)
qed

lemma settled_bucket_wf:
  assumes "bucket_wf k b" "map_of (bk_entries b) req = Some e"
  shows "bucket_wf k (settled_bucket req (resolve_entry outcome now e) b)"
proof (rule bucket_wf_update [OF assms(1)])
  have "entry_wf k (req, e)" using assms by (auto simp: bucket_wf_def list_all_iff dest: map_of_SomeD)
  then show "entry_wf k (req, resolve_entry outcome now e)" by (rule entry_wf_resolved)
qed (use assms in \<open>auto simp: settled_bucket_def length_update bucket_wf_def\<close>)

lemma settle_wf: "registry_wf rg \<Longrightarrow> registry_wf (snd (settle k req outcome now rg))"
proof (rule settle_cases [of k req outcome now rg])
  fix b e
  assume wf: "registry_wf rg" and b: "bucket_of k rg = Some b" "map_of (bk_entries b) req = Some e"
    and res: "settle k req outcome now rg = (True, (put_bucket k (settled_bucket req (resolve_entry outcome now e) b) rg)
         \<lparr>rg_emitted := rg_emitted rg @ [(k, req, outcome)]\<rparr>)"
  have "bucket_wf k b" using wf b(1) by (auto simp: registry_wf_def intro: bucket_of_wf)
  from registry_wf_put [OF wf b(1) settled_bucket_wf [OF this b(2)]] show ?thesis by (simp add: res)
qed simp

lemma settle_all_wf: "registry_wf rg \<Longrightarrow> registry_wf (fold (\<lambda>r s. snd (settle k r outcome now s)) ids rg)"
  by (induction ids arbitrary: rg) (simp_all add: settle_wf)

lemma snapshot_wf: "registry_wf rg \<Longrightarrow> registry_wf (snd (snapshot k live now rg))"
proof (cases "bucket_of k rg")
  case None
  then show "registry_wf rg \<Longrightarrow> ?thesis" by (simp add: snapshot_def)
next
  case (Some b)
  assume wf: "registry_wf rg"
  then have "bucket_wf k b" using Some by (auto simp: registry_wf_def intro: bucket_of_wf)
  then have "bucket_wf k (drop_stale now (reconcile_bucket live b))"
    by (intro bucket_wf_drop bucket_wf_reconcile)
  with wf Some show ?thesis by (simp add: snapshot_def Let_def registry_wf_put)
qed

lemma prune_wf:
  assumes "registry_wf rg" shows "registry_wf (prune now rg)"
proof -
  let ?xs = "map (\<lambda>(k, b). (k, drop_stale now b)) (rg_runs rg)"
  have "map fst ?xs = map fst (rg_runs rg)" by (simp add: comp_def split_def)
  then have "distinct (map fst ?xs)" using assms by (simp only: registry_wf_def runs_wf_def)
  moreover have "list_all (\<lambda>(k, b). bucket_wf k b) ?xs"
    using assms by (auto simp: registry_wf_def runs_wf_def list_all_iff intro: bucket_wf_drop)
  moreover have "length ?xs \<le> INBOX_MAX_RUNS" using assms by (simp add: registry_wf_def)
  moreover have "rg_runs (prune now rg) = del_where (\<lambda>(k, b). bk_entries b = [] \<and> now - bk_seen b > RESOLVED_TTL) ?xs"
    by (simp add: prune_def)
  ultimately show ?thesis
    unfolding registry_wf_def runs_wf_def del_where_def
    by (simp only: distinct_map_filter) (auto simp: list_all_iff intro: le_trans [OF length_filter_le])
qed

lemma approval_step_wf: "registry_wf rg \<Longrightarrow> registry_wf (approval_step op rg)"
proof (cases op)
  assume wf: "registry_wf rg"
  {
    case (Capture k req sid now rd skey tm wall dispatch queue)
    show ?thesis
      by (rule capture_cases [of k req sid now "\<lambda>d. entry_from_data rd d (rg_epoch rg) (snd k) sid skey tm wall now"
            dispatch queue rg])
        (auto simp: Capture capture_now_def wf note_dispatch_snd intro!: capture_store_wf entry_wf_new)
  next
    case (Settle k req outcome now)
    with wf show ?thesis by (simp add: settle_wf)
  next
    case (Snapshot k live now)
    with wf show ?thesis by (simp add: snapshot_wf)
  next
    case (Responded k req choice live now)
    define rg1 where "rg1 = (case req of None \<Rightarrow> rg | Some r \<Rightarrow> if r = [] then rg else
      snd (settle k r (case choice of None \<Rightarrow> ''answered'' | Some c \<Rightarrow> if c = [] then ''answered'' else c) now rg))"
    have wf1: "registry_wf rg1" using wf by (auto simp: rg1_def settle_wf split: option.split)
    have "registry_wf (put_bucket k ((reconcile_bucket live b)\<lparr>bk_revision := n\<rparr>) rg1)"
      if "bucket_of k rg1 = Some b" for b n
      using that wf1 by (intro registry_wf_put [OF wf1 that] bucket_wf_cong [OF _ bucket_wf_reconcile [OF bucket_of_wf]])
        (auto simp: registry_wf_def)
    with wf1 show ?thesis
      by (simp add: Responded after_responded_def rg1_def [symmetric] Let_def split: option.split)
  next
    case (SettleRun k outcome now)
    have "registry_wf (put_bucket k (b\<lparr>bk_revision := n\<rparr>) rg)" if "bucket_of k rg = Some b" for b n
      using that wf by (intro registry_wf_put [OF wf that] bucket_wf_cong [OF _ bucket_of_wf])
        (auto simp: registry_wf_def)
    with wf show ?thesis by (simp add: SettleRun settle_run_def Let_def settle_all_wf split: option.split)
  next
    case (Prune now)
    with wf show ?thesis by (simp add: prune_wf)
  }
qed

interpretation ap: guarded_store approval_step registry_wf
  by unfold_locales (rule approval_step_wf)

definition approval_history :: "string option \<Rightarrow> approval_op list \<Rightarrow> registry" where
  "approval_history epoch ops = fold approval_step ops (empty_registry epoch)"

lemma approval_history_wf: "registry_wf (approval_history epoch ops)"
  unfolding approval_history_def
  by (rule ap.run_inv) (simp add: registry_wf_def runs_wf_def empty_registry_def)

text \<open>
  C10. The registry keeps its shape and its bounds: in every history there are at most 64 runs and at
  most 32 requests in each, no run or request twice, every entry lies under its own run and request
  id, is settled exactly when it has an outcome, and offers one of the three lists of choices.
\<close>

theorem approval_registry_wf: "registry_wf (approval_history epoch ops)"
  by (rule approval_history_wf)

section \<open>Snapshots\<close>

definition pending_in :: "run_ref \<Rightarrow> string \<Rightarrow> registry \<Rightarrow> bool" where
  "pending_in k r rg \<longleftrightarrow> (case entry_of k r rg of None \<Rightarrow> False | Some e \<Rightarrow> en_pending e)"

lemma reconcile_lookup:
  "map_of (bk_entries (reconcile_bucket live b)) r =
     map_option (\<lambda>e. if en_pending e \<and> r \<notin> set live then settled_entry e else e) (map_of (bk_entries b) r)"
  by (simp add: reconcile_entries map_of_upd_snd gone_def)

lemma settled_entry_simps [simp]: "\<not> en_pending (settled_entry e)" "\<not> en_pending (resolve_entry outcome now e)"
  "en_payload (settled_entry e) = en_payload e"
  by (simp_all add: settled_entry_def resolve_entry_def)

lemma drop_stale_pending:
  assumes "distinct (map fst (bk_entries b))"
  shows "(case map_of (bk_entries (drop_stale now b)) r of None \<Rightarrow> False | Some e \<Rightarrow> en_pending e)
     = (case map_of (bk_entries b) r of None \<Rightarrow> False | Some e \<Rightarrow> en_pending e)"
proof -
  have "map_of (del_where (\<lambda>(r, e). stale now e) xs) r
      = (case map_of xs r of None \<Rightarrow> None | Some e \<Rightarrow> if stale now e then None else Some e)"
    if "distinct (map fst xs)" for xs
    using that
  proof (induction xs)
    case Nil
    then show ?case by (simp add: table_simps)
  next
    case (Cons x xs)
    then have "map_of xs (fst x) = None" by (simp add: map_of_eq_None_iff)
    with Cons show ?case by (cases x) (auto simp: table_simps split: option.split)
  qed
  then show ?thesis using assms by (auto simp: drop_stale_def stale_def split: option.split)
qed

lemma pending_views_requests:
  assumes "bucket_wf k b"
  shows "map (pl_request \<circ> vw_payload) (pending_views now live b)
    = filter (\<lambda>r. case map_of (bk_entries b) r of None \<Rightarrow> False | Some e \<Rightarrow> en_pending e) live"
proof -
  have own: "pl_request (en_payload e) = r" if "map_of (bk_entries b) r = Some e" for r e
    using that assms by (auto simp: bucket_wf_def list_all_iff entry_wf_def dest: map_of_SomeD)
  show ?thesis
    unfolding pending_views_def
    by (induction live) (auto simp: payload_for_def own split: option.split)
qed

text \<open>
  C8. A snapshot lists exactly what still waits: over any history, the payloads it returns are, in
  the order of the core's queue, those of the queued requests the registry holds as pending; it is
  available exactly when the registry knows every queued request; and afterwards the pending
  requests of the run are the ones listed and no other.
\<close>

theorem approval_snapshot_exact:
  "map (pl_request \<circ> vw_payload) (sn_pending (fst (snapshot k live now (approval_history epoch ops))))
     = filter (\<lambda>r. pending_in k r (approval_history epoch ops)) live
   \<and> sn_available (fst (snapshot k live now (approval_history epoch ops)))
     = (set live \<subseteq> {r. entry_of k r (approval_history epoch ops) \<noteq> None})
   \<and> {r. pending_in k r (snd (snapshot k live now (approval_history epoch ops)))}
     = {r \<in> set live. pending_in k r (approval_history epoch ops)}"
proof -
  let ?rg = "approval_history epoch ops"
  show ?thesis
  proof (cases "bucket_of k ?rg")
    case None
    then show ?thesis by (auto simp: snapshot_def pending_in_def entry_of_def)
  next
    case (Some b)
    let ?b = "reconcile_bucket live b"
    have wf: "bucket_wf k b"
      using approval_history_wf Some by (auto simp: registry_wf_def intro: bucket_of_wf)
    then have wf': "bucket_wf k ?b" by (rule bucket_wf_reconcile)
    have look: "(case map_of (bk_entries ?b) r of None \<Rightarrow> False | Some e \<Rightarrow> en_pending e)
        = (r \<in> set live \<and> pending_in k r ?rg)" for r
      by (auto simp: reconcile_lookup pending_in_def entry_of_def Some split: option.split)
    have snap: "snapshot k live now ?rg = (\<lparr>sn_pending = pending_views now live ?b,
        sn_available = list_all (\<lambda>r. map_of (bk_entries ?b) r \<noteq> None) live,
        sn_overflow = (length live > INBOX_MAX_PENDING \<or> bk_degraded ?b),
        sn_revision = bk_revision ?b\<rparr>, put_bucket k (drop_stale now ?b) ?rg)"
      by (simp add: snapshot_def Some Let_def)
    have 1: "map (pl_request \<circ> vw_payload) (pending_views now live ?b) = filter (\<lambda>r. pending_in k r ?rg) live"
      unfolding pending_views_requests [OF wf'] look by (rule filter_cong) auto
    have 2: "list_all (\<lambda>r. map_of (bk_entries ?b) r \<noteq> None) live = (set live \<subseteq> {r. entry_of k r ?rg \<noteq> None})"
      by (auto simp: list_all_iff reconcile_lookup entry_of_def Some)
    have 3: "pending_in k r (put_bucket k (drop_stale now ?b) ?rg) = (r \<in> set live \<and> pending_in k r ?rg)" for r
      using wf' drop_stale_pending [of ?b now r] look [of r]
      by (simp add: pending_in_def [of k r "put_bucket k (drop_stale now ?b) ?rg"] entry_of_def bucket_of_put bucket_wf_def)
    show ?thesis unfolding snap using 1 2 3 by simp
  qed
qed

section \<open>One event for each request\<close>

definition emitted_for :: "run_ref \<Rightarrow> string \<Rightarrow> registry \<Rightarrow> nat" where
  "emitted_for k r rg = count_where (\<lambda>(k', r', outcome). k' = k \<and> r' = r) (rg_emitted rg)"

definition tracked_for :: "run_ref \<Rightarrow> string \<Rightarrow> registry \<Rightarrow> nat" where
  "tracked_for k r rg = count_where (\<lambda>x. x = (k, r)) (rg_tracked rg)"

definition balanced :: "registry \<Rightarrow> bool" where
  "balanced rg \<longleftrightarrow> (\<forall>k r. emitted_for k r rg + (if pending_in k r rg then 1 else 0) \<le> tracked_for k r rg)"

lemma balancedD: "balanced rg \<Longrightarrow> emitted_for k r rg + (if pending_in k r rg then 1 else 0) \<le> tracked_for k r rg"
  unfolding balanced_def by blast

lemma balanced_shrink:
  assumes "balanced rg" "rg_emitted rg' = rg_emitted rg" "rg_tracked rg' = rg_tracked rg"
    and "\<And>k r. pending_in k r rg' \<Longrightarrow> pending_in k r rg"
  shows "balanced rg'"
  unfolding balanced_def
proof (intro allI)
  fix k r
  have "emitted_for k r rg + (if pending_in k r rg then 1 else 0) \<le> tracked_for k r rg"
    using assms(1) by (rule balancedD)
  then show "emitted_for k r rg' + (if pending_in k r rg' then 1 else 0) \<le> tracked_for k r rg'"
    using assms(2,3) assms(4) [of k r] by (auto simp: emitted_for_def tracked_for_def split: if_splits)
qed

lemma entry_of_put: "entry_of k' r (put_bucket k b rg) = (if k' = k then map_of (bk_entries b) r else entry_of k' r rg)"
  by (simp add: entry_of_def bucket_of_put)

lemma balanced_put:
  assumes "balanced rg"
    and "\<And>r. (case map_of (bk_entries b) r of None \<Rightarrow> False | Some e \<Rightarrow> en_pending e) \<Longrightarrow> pending_in k r rg"
  shows "balanced (put_bucket k b rg)"
  by (rule balanced_shrink [OF assms(1)]) (use assms(2) in \<open>auto simp: pending_in_def entry_of_put split: if_splits\<close>)

lemma balanced_settle: "balanced rg \<Longrightarrow> balanced (snd (settle k req outcome now rg))"
proof (rule settle_cases [of k req outcome now rg])
  fix b e
  assume bal: "balanced rg" and b: "bucket_of k rg = Some b" "map_of (bk_entries b) req = Some e" "en_pending e"
    and res: "settle k req outcome now rg = (True, (put_bucket k (settled_bucket req (resolve_entry outcome now e) b) rg)
         \<lparr>rg_emitted := rg_emitted rg @ [(k, req, outcome)]\<rparr>)"
  let ?rg = "snd (settle k req outcome now rg)"
  have p: "pending_in k' r ?rg = (pending_in k' r rg \<and> (k', r) \<noteq> (k, req))" for k' r
    using b by (auto simp: res pending_in_def entry_of_def bucket_of_def put_bucket_def settled_bucket_def update_conv')
  have em: "emitted_for k' r ?rg = emitted_for k' r rg + (if (k', r) = (k, req) then 1 else 0)" for k' r
    by (auto simp: res emitted_for_def table_simps)
  have tr: "tracked_for k' r ?rg = tracked_for k' r rg" for k' r by (simp add: res tracked_for_def)
  have now: "pending_in k req rg" using b by (simp add: pending_in_def entry_of_def)
  show ?thesis
    unfolding balanced_def
  proof (intro allI)
    fix k' r
    have "emitted_for k' r rg + (if pending_in k' r rg then 1 else 0) \<le> tracked_for k' r rg"
      using bal by (rule balancedD)
    then show "emitted_for k' r ?rg + (if pending_in k' r ?rg then 1 else 0) \<le> tracked_for k' r ?rg"
      unfolding p em tr using now by (cases "(k', r) = (k, req)") auto
  qed
qed simp

lemma balanced_reconcile:
  assumes "balanced rg" "bucket_of k rg = Some b" "bk_entries b' = bk_entries (reconcile_bucket live b)"
  shows "balanced (put_bucket k b' rg)"
  by (rule balanced_put [OF assms(1)])
    (auto simp: assms(2,3) reconcile_lookup pending_in_def entry_of_def split: option.splits if_splits)

lemma balanced_capture_store:
  assumes wf: "registry_wf rg" and bal: "balanced rg" and new: "capture_prior k req rg = None" and e: "en_pending e"
  shows "balanced (snd (capture_store k req sid now e rg))"
proof -
  obtain b rg1 where o: "open_bucket k sid now rg = (b, rg1)" by fastforce
  note f = open_bucket_facts [OF wf o]
  have np: "\<not> pending_in k req rg"
    using new by (auto simp: capture_prior_def pending_in_def split: option.splits if_splits)
  have look: "map_of (bk_entries b) r = entry_of k r rg" for r
    using f by (auto simp: entry_of_def split: option.split)
  have old: "pending_in k' r rg1 \<Longrightarrow> pending_in k' r rg" for k' r
  proof (cases "bucket_of k' rg1")
    case None
    then show "pending_in k' r rg1 \<Longrightarrow> ?thesis" by (simp add: pending_in_def entry_of_def)
  next
    case (Some b')
    have "map_of (bk_entries b') r = entry_of k' r rg"
    proof (cases "k' = k")
      case True
      with Some f look show ?thesis by auto
    next
      case False
      with Some f have "bucket_of k' rg = Some b'" by blast
      then show ?thesis by (simp add: entry_of_def)
    qed
    with Some show "pending_in k' r rg1 \<Longrightarrow> ?thesis" by (simp add: pending_in_def entry_of_def)
  qed
  have bal1: "balanced rg1" by (rule balanced_shrink [OF bal]) (use f old in auto)
  have none: "\<not> (\<exists>p. map_of (bk_entries b) req = Some p \<and> en_pending p)"
    using np look [of req] by (auto simp: pending_in_def)
  show ?thesis
  proof (cases "length (bk_entries b) \<ge> INBOX_MAX_PENDING")
    case True
    have "balanced (write_bucket k (b\<lparr>bk_degraded := True\<rparr>) rg1)"
    proof (cases "bucket_of k rg1")
      case None
      with bal1 show ?thesis by (simp add: write_bucket_def)
    next
      case (Some b1)
      with f have "b1 = b" by auto
      with bal1 Some show ?thesis
        by (auto simp: write_bucket_def pending_in_def entry_of_def intro!: balanced_put split: option.splits)
    qed
    then have "balanced (metric ''registry_dropped'' (write_bucket k (b\<lparr>bk_degraded := True\<rparr>) rg1))"
      by (rule balanced_shrink) (auto simp: pending_in_def entry_of_def)
    with True none show ?thesis by (auto simp: capture_store_def o Let_def split: option.split)
  next
    case False
    let ?b = "b\<lparr>bk_entries := AList.update req e (bk_entries b), bk_revision := Suc (bk_revision b)\<rparr>"
    let ?rg = "(metric ''registry_accepted'' (write_bucket k ?b rg1))\<lparr>rg_tracked := rg_tracked rg1 @ [(k, req)]\<rparr>"
    have res: "snd (capture_store k req sid now e rg) = ?rg"
      using False none by (auto simp: capture_store_def o Let_def split: option.split)
    have p: "pending_in k' r ?rg \<Longrightarrow> (k', r) \<noteq> (k, req) \<Longrightarrow> pending_in k' r rg1" for k' r
    proof (cases "bucket_of k rg1")
      case None
      then show "pending_in k' r ?rg \<Longrightarrow> ?thesis"
        by (simp add: pending_in_def entry_of_def bucket_of_def write_bucket_def metric_def)
    next
      case (Some b1)
      with f have "b1 = b" by auto
      with Some show "pending_in k' r ?rg \<Longrightarrow> (k', r) \<noteq> (k, req) \<Longrightarrow> ?thesis"
        by (auto simp: pending_in_def entry_of_def bucket_of_def write_bucket_def metric_def put_bucket_def update_conv'
            split: if_splits)
    qed
    have em: "emitted_for k' r ?rg = emitted_for k' r rg1" for k' r
      by (simp add: emitted_for_def write_bucket_def)
    have tr: "tracked_for k' r ?rg = tracked_for k' r rg1 + (if (k', r) = (k, req) then 1 else 0)" for k' r
      by (auto simp: tracked_for_def table_simps)
    have b1: "emitted_for k' r rg1 + (if pending_in k' r rg1 then 1 else 0) \<le> tracked_for k' r rg1" for k' r
      using bal1 by (rule balancedD)
    show ?thesis
      unfolding balanced_def res
    proof (intro allI)
      fix k' r
      show "emitted_for k' r ?rg + (if pending_in k' r ?rg then 1 else 0) \<le> tracked_for k' r ?rg"
        unfolding em tr using b1 [of k' r] p [of k' r] by (cases "(k', r) = (k, req)") (auto split: if_splits)
    qed
  qed
qed

lemma balanced_snapshot:
  assumes "registry_wf rg" "balanced rg" shows "balanced (snd (snapshot k live now rg))"
proof (cases "bucket_of k rg")
  case None
  with assms show ?thesis by (simp add: snapshot_def)
next
  case (Some b)
  let ?b = "reconcile_bucket live b"
  have "bucket_wf k ?b"
    using assms(1) Some by (auto simp: registry_wf_def intro: bucket_wf_reconcile bucket_of_wf)
  then have d: "distinct (map fst (bk_entries ?b))" by (simp add: bucket_wf_def)
  have "balanced (put_bucket k (drop_stale now ?b) rg)"
    by (rule balanced_put [OF assms(2)])
      (auto simp: drop_stale_pending [OF d] reconcile_lookup pending_in_def entry_of_def Some split: option.splits if_splits)
  with Some show ?thesis by (simp add: snapshot_def Let_def)
qed

lemma balanced_prune:
  assumes "registry_wf rg" "balanced rg" shows "balanced (prune now rg)"
proof (rule balanced_shrink [OF assms(2)])
  fix k r assume p: "pending_in k r (prune now rg)"
  let ?xs = "map (\<lambda>(k, b). (k, drop_stale now b)) (rg_runs rg)"
  from p obtain b' where b': "bucket_of k (prune now rg) = Some b'"
    "case map_of (bk_entries b') r of None \<Rightarrow> False | Some e \<Rightarrow> en_pending e"
    by (auto simp: pending_in_def entry_of_def split: option.splits Option.bind_splits)
  then have "(k, b') \<in> set ?xs" by (auto simp: bucket_of_def prune_def set_del_where dest!: map_of_SomeD)
  then obtain b where b: "(k, b) \<in> set (rg_runs rg)" "b' = drop_stale now b" by auto
  have wf: "distinct (map fst (rg_runs rg))" "bucket_wf k b"
    using assms(1) b(1) by (auto simp: registry_wf_def runs_wf_def list_all_iff)
  then have "bucket_of k rg = Some b" using b(1) by (simp add: bucket_of_def)
  with b'(2) wf(2) show "pending_in k r rg"
    by (simp add: b(2) drop_stale_pending bucket_wf_def pending_in_def entry_of_def)
qed (simp_all add: prune_def)

lemma balanced_settle_all:
  "balanced rg \<Longrightarrow> balanced (fold (\<lambda>r s. snd (settle k r outcome now s)) ids rg)"
  by (induction ids arbitrary: rg) (simp_all add: balanced_settle)

lemma balanced_note: "balanced (snd (note_dispatch dispatch w)) = balanced (snd w)"
  by (simp add: balanced_def emitted_for_def tracked_for_def pending_in_def entry_of_def note_dispatch_snd)

lemma balanced_metric [simp]: "balanced (metric name rg) = balanced rg"
  by (simp add: balanced_def emitted_for_def tracked_for_def pending_in_def entry_of_def)

lemma entry_from_data_pending: "en_pending (entry_from_data rd d epoch rid sid skey tm wall now)"
  by (simp add: entry_from_data_def)

lemma balanced_step:
  assumes wf: "registry_wf rg" and bal: "balanced rg" shows "balanced (approval_step op rg)"
proof (cases op)
  case (Capture k req sid now rd skey tm wall dispatch queue)
  show ?thesis
    by (rule capture_cases [of k req sid now "\<lambda>d. entry_from_data rd d (rg_epoch rg) (snd k) sid skey tm wall now"
          dispatch queue rg])
      (auto simp: Capture capture_now_def bal balanced_note entry_from_data_pending
        intro!: balanced_capture_store [OF wf bal])
next
  case (Settle k req outcome now)
  with bal show ?thesis by (simp add: balanced_settle)
next
  case (Snapshot k live now)
  with wf bal show ?thesis by (simp add: balanced_snapshot)
next
  case (Responded k req choice live now)
  define rg1 where "rg1 = (case req of None \<Rightarrow> rg | Some r \<Rightarrow> if r = [] then rg else
    snd (settle k r (case choice of None \<Rightarrow> ''answered'' | Some c \<Rightarrow> if c = [] then ''answered'' else c) now rg))"
  have bal1: "balanced rg1" using bal by (auto simp: rg1_def balanced_settle split: option.split)
  show ?thesis
    using bal1 by (simp add: Responded after_responded_def rg1_def [symmetric] Let_def split: option.split)
      (auto intro!: balanced_reconcile)
next
  case (SettleRun k outcome now)
  have "balanced (put_bucket k (b\<lparr>bk_revision := n\<rparr>) rg)" if "bucket_of k rg = Some b" for b n
    by (rule balanced_put [OF bal]) (simp add: pending_in_def entry_of_def that)
  with bal show ?thesis by (simp add: SettleRun settle_run_def Let_def balanced_settle_all split: option.split)
next
  case (Prune now)
  with wf bal show ?thesis by (simp add: balanced_prune)
qed

interpretation ab: guarded_store approval_step "\<lambda>rg. registry_wf rg \<and> balanced rg"
  by unfold_locales (simp add: approval_step_wf balanced_step)

text \<open>
  C9. A request is resolved once: over any history no request of a run has more
  \<open>approval.resolved\<close> events than the registry took it on, and while it waits it still owes one;
  so whoever settles it first - the answer, the timeout, the end of the run - is the only one heard.
\<close>

theorem approval_resolved_once:
  "emitted_for k r (approval_history epoch ops) + (if pending_in k r (approval_history epoch ops) then 1 else 0)
     \<le> tracked_for k r (approval_history epoch ops)"
proof -
  have "balanced (approval_history epoch ops)"
    unfolding approval_history_def
    by (rule ab.run_inv [THEN conjunct2])
      (simp add: registry_wf_def runs_wf_def balanced_def empty_registry_def emitted_for_def tracked_for_def
        pending_in_def entry_of_def bucket_of_def table_simps)
  then show ?thesis by (rule balancedD)
qed

section \<open>Answers\<close>

text \<open>The body names this request.\<close>

definition asked_for :: "answer_body \<Rightarrow> approval_data \<Rightarrow> bool" where
  "asked_for body d \<longleftrightarrow> dt_request d = map_option py_strip (an_request body) \<and> dt_request d \<noteq> None
     \<and> dt_request d \<noteq> Some []"

text \<open>What an answer may do, case by case.\<close>

definition answer_exact :: "answer_body \<Rightarrow> string option \<Rightarrow> approval_data list \<Rightarrow> registry \<Rightarrow> answer_action \<Rightarrow> bool" where
  "answer_exact body epoch queue rg act = (case act of
     Submit r c \<Rightarrow> \<not> epoch_stale rg (an_epoch body) epoch \<and> \<not> an_all body
       \<and> (case first_where (\<lambda>d. dt_request d = Some r) queue of
            None \<Rightarrow> False | Some d \<Rightarrow> c \<in> set (choices_from_data d))
   | Backfill r c \<Rightarrow> \<not> epoch_stale rg (an_epoch body) epoch \<and> \<not> an_all body
       \<and> map shown_request queue = [r] \<and> py_strip (case an_request body of None \<Rightarrow> [] | Some x \<Rightarrow> x) = []
   | Passthrough \<Rightarrow> \<not> an_all body
       \<and> first_where (asked_for body) queue = None
   | Refuse code name \<Rightarrow> code \<in> {400, 409})"

text \<open>
  An answer reaches one exact request: it is only submitted under the current epoch and never as
  resolve-all; with a request id that id is queued and its data offers the choice, so \<open>always\<close> is
  never submitted where it was not offered; without one the queue holds exactly one request; and
  it is passed through only when the queue does not hold the request it names.
\<close>

theorem approval_answer_exact: "answer_exact body epoch queue rg (classify_answer body epoch queue rg)"
proof -
  define c where "c = choice_alias (py_lower (py_strip (an_choice body)))"
  define r where "r = py_strip (case an_request body of None \<Rightarrow> [] | Some x \<Rightarrow> x)"
  have req: "(case an_request body of None \<Rightarrow> [] | Some x \<Rightarrow> py_strip x) = r"
    by (simp add: r_def py_strip_def py_lstrip_def py_rstrip_def split: option.split)
  have unnamed: "first_where (asked_for body) queue = None"
    if "r = [] \<or> first_where (\<lambda>d. dt_request d = Some r) queue = None"
    using that by (cases "an_request body") (auto simp: asked_for_def r_def first_where_None)
  note def = answer_exact_def classify_answer_def Let_def c_def [symmetric] req
  consider (stale) "epoch_stale rg (an_epoch body) epoch" | (all) "\<not> epoch_stale rg (an_epoch body) epoch" "an_all body"
    | (given) "\<not> epoch_stale rg (an_epoch body) epoch" "\<not> an_all body" "r \<noteq> []"
    | (open_) "\<not> epoch_stale rg (an_epoch body) epoch" "\<not> an_all body" "r = []" by blast
  then show ?thesis
  proof cases
    case given
    then show ?thesis
      using unnamed by (cases "first_where (\<lambda>d. dt_request d = Some r) queue") (simp_all add: def)
  next
    case open_
    show ?thesis
    proof (cases queue)
      case Nil
      with open_ unnamed show ?thesis by (simp add: def)
    next
      case (Cons d ds)
      with open_ show ?thesis by (cases ds) (simp_all add: def r_def [symmetric])
    qed
  qed (simp_all add: def)
qed

section \<open>A full bucket\<close>

text \<open>
  Answered requests use up the room of new ones: once a run's bucket holds 32 entries, all of them
  settled, a request that is really waiting in the core's queue is not taken on, and the next
  snapshot that does not drop the settled ones reports the run as not available, though nothing but
  this one request waits.
\<close>

theorem approval_settled_entries_block:
  assumes "bucket_of k rg = Some b" "INBOX_MAX_PENDING \<le> length (bk_entries b)"
    and "list_all (\<lambda>(r, e). \<not> en_pending e) (bk_entries b)"
    and "req \<noteq> []" "chain_hook req queue = Some (d, queue')" "map_of (bk_entries b) req = None"
  shows "fst (capture k req sid now mk dispatch (Some queue) rg) = NotOurs
    \<and> sn_available (fst (snapshot k [req] later (snd (snd (capture k req sid now mk dispatch (Some queue) rg))))) = False
    \<and> sn_pending (fst (snapshot k [req] later (snd (snd (capture k req sid now mk dispatch (Some queue) rg))))) = []"
proof -
  have np: "capture_prior k req rg = None"
    using assms(1,6) by (simp add: capture_prior_def entry_of_def)
  have full: "INBOX_MAX_PENDING \<le> length (bk_entries (touch sid now b))" "map_of (bk_entries (touch sid now b)) req = None"
    using assms by (simp_all add: touch_def)
  let ?b = "(touch sid now b)\<lparr>bk_degraded := True\<rparr>"
  let ?rg = "metric ''registry_dropped'' (write_bucket k ?b (put_bucket k (touch sid now b) rg))"
  have cap: "capture k req sid now mk dispatch (Some queue) rg = (NotOurs, Some queue', ?rg)"
    using assms full by (simp add: capture_def np capture_store_def open_bucket_def note_dispatch_def Let_def)
  have "bucket_of k ?rg = Some ?b" by (simp add: write_bucket_def bucket_of_put)
  moreover have "map_of (bk_entries (reconcile_bucket [req] ?b)) req = None"
    using full by (simp add: reconcile_lookup)
  ultimately show ?thesis
    unfolding cap by (simp add: snapshot_def Let_def pending_views_def)
qed

theorem approval_settled_entries_block_witness:
  "\<exists>k req queue rg mk. length (concat (map (bk_entries \<circ> snd) (rg_runs rg))) = 32
     \<and> fst (capture k req None 0 mk None (Some queue) rg) = NotOurs \<and> map (dt_request \<circ> gw_data) queue = [Some req]"
proof -
  let ?d = "\<lparr>dt_request = Some ''new'', dt_smart = False, dt_no_session = False, dt_no_permanent = False,
    dt_command = None, dt_description = None, dt_pattern = None, dt_patterns = []\<rparr>"
  let ?mk = "\<lambda>d. entry_from_data \<lparr>rd_command = None, rd_text = None\<rparr> d None ''r'' None ''r'' 300 1 1"
  let ?old = "\<lambda>n. (replicate (n::nat) CHR ''x'', resolve_entry ''once'' 2 (?mk ?d))"
  let ?b = "\<lparr>bk_entries = map ?old [0..<32], bk_revision = 64, bk_degraded = False, bk_session = None, bk_seen = 1\<rparr>"
  let ?rg = "(empty_registry None)\<lparr>rg_runs := [((1, ''r''), ?b)]\<rparr>"
  let ?q = "[\<lparr>gw_data = ?d, gw_hooks = 0\<rparr>]"
  have no: "map_of (bk_entries ?b) ''new'' = None"
  proof -
    have "replicate n CHR ''x'' \<noteq> ''new''" for n by (cases n) auto
    then have "''new'' \<notin> fst ` set (map ?old [0..<32])" by (force simp del: upt_rec_numeral)
    then show ?thesis by (simp only: bucket.simps map_of_eq_None_iff not_False_eq_True)
  qed
  have h: "bucket_of (1, ''r'') ?rg = Some ?b" "INBOX_MAX_PENDING \<le> length (bk_entries ?b)"
    "list_all (\<lambda>(r, e). \<not> en_pending e) (bk_entries ?b)" "''new'' \<noteq> []"
    "chain_hook ''new'' ?q = Some (?d, [\<lparr>gw_data = ?d, gw_hooks = 1\<rparr>])"
    by (simp_all add: bucket_of_def INBOX_MAX_PENDING_def list_all_iff)
  have "fst (capture (1, ''r'') ''new'' None 0 ?mk None (Some ?q) ?rg) = NotOurs"
    using approval_settled_entries_block [OF h no] by blast
  then show ?thesis
    by (intro exI [of _ "(1, ''r'')"] exI [of _ "''new''"] exI [of _ ?q] exI [of _ ?rg] exI [of _ ?mk]) simp
qed

end
