(* ===== verification/Auto_Wake.thy ===== *)
theory Auto_Wake
  imports Session_DB
begin

text \<open>
  \<open>compat/auto_wake.py\<close>: the constants of the auto-wake contract, the verified cron identity of a
  message row (\<open>provenance_of\<close>), and the comparison text of a report (\<open>report_body\<close>,
  \<open>normalized_report_body\<close>, \<open>is_ignored_report\<close>), with the regular expressions written out as the
  searches they perform. Text is UTF-8 bytes; the Chinese literals are their bytes. A byte of a
  non-ASCII character counts as a word character, as the ideographs around it do in Python.
\<close>

section \<open>Contract constants\<close>

definition CONTENT_PREFIX :: string where "CONTENT_PREFIX = ''[Cron report: ''"

definition CANONICAL_INPUT :: string where
  "CANONICAL_INPUT = [
    CHR 0xE8, CHR 0xAB, CHR 0x8B, CHR 0xE8, CHR 0xAE, CHR 0x80, CHR 0xE5, CHR 0x8F, CHR 0x96,
    CHR 0xE6, CHR 0x96, CHR 0xB0, CHR 0xE5, CHR 0x88, CHR 0xB0, CHR 0xE7, CHR 0x9A, CHR 0x84,
    CHR 0xE6, CHR 0x8E, CHR 0x92, CHR 0xE7, CHR 0xA8, CHR 0x8B, CHR 0xE5, CHR 0xA0, CHR 0xB1,
    CHR 0xE5, CHR 0x91, CHR 0x8A, CHR 0xE4, CHR 0xB8, CHR 0xA6, CHR 0xE7, CHR 0xB0, CHR 0xA1,
    CHR 0xE7, CHR 0x9F, CHR 0xAD, CHR 0xE5, CHR 0x9B, CHR 0x9E, CHR 0xE8, CHR 0xA6, CHR 0x86,
    CHR 0xE3, CHR 0x80, CHR 0x82]"

definition SESSION_WAKE_LIMIT :: nat where "SESSION_WAKE_LIMIT = 6"
definition PROFILE_WAKE_LIMIT :: nat where "PROFILE_WAKE_LIMIT = 12"
definition QUOTA_WINDOW_SECONDS :: time where "QUOTA_WINDOW_SECONDS = 3600"
definition BATCH_MAX :: nat where "BATCH_MAX = 10"

section \<open>Provenance\<close>

record provenance =
  pv_job :: string
  pv_execution :: string
  pv_key :: string

text \<open>\<open>isinstance(x, str) and x.strip()\<close>\<close>

fun filled_str :: "json option \<Rightarrow> string option" where
  "filled_str (Some (JStr s)) = (if py_strip s = [] then None else Some s)"
| "filled_str _ = None"

fun is_obj :: "json \<Rightarrow> bool" where
  "is_obj (JObj _) = True"
| "is_obj _ = False"

definition hex_key :: "string \<Rightarrow> bool" where
  "hex_key k \<longleftrightarrow> length k = 64 \<and> list_all hex_digit (py_lower k)"

definition provenance_of :: "string \<Rightarrow> string option \<Rightarrow> json option \<Rightarrow> provenance option" where
  "provenance_of role kind meta =
     (if (role, kind) \<noteq> (''user'', Some DISPLAY_KIND) then None
      else case Option.bind meta (jget METADATA_NS) of None \<Rightarrow> None
      | Some block \<Rightarrow>
          if \<not> is_obj block then None
          else (case jget ''schema'' block of None \<Rightarrow> None
          | Some sch \<Rightarrow>
              if \<not> json_is_one sch then None
              else (case (filled_str (jget ''job_id'' block), filled_str (jget ''execution_id'' block),
                          filled_str (jget ''delivery_key'' block)) of
                  (Some job, Some exec, Some key) \<Rightarrow>
                    if \<not> hex_key key then None
                    else Some \<lparr>pv_job = py_strip job, pv_execution = py_strip exec, pv_key = py_lower key\<rparr>
                | _ \<Rightarrow> None)))"

section \<open>The body of a report\<close>

abbreviation nl :: char where "nl \<equiv> CHR 0x0A"
abbreviation cr :: char where "cr \<equiv> CHR 0x0D"
abbreviation quote :: char where "quote \<equiv> CHR 0x22"

text \<open>What follows the first \<open>"]\n"\<close>.\<close>

fun after_close :: "string \<Rightarrow> string option" where
  "after_close (a # b # cs) = (if a = CHR '']'' \<and> b = nl then Some cs else after_close (b # cs))"
| "after_close _ = None"

text \<open>What follows \<open>-{6,}\n\<close> at the start of the text.\<close>

definition dashed :: "string \<Rightarrow> string option" where
  "dashed s = (let n = length (takeWhile (\<lambda>c. c = CHR ''-'') s) in
     case drop n s of c # r \<Rightarrow> if 6 \<le> n \<and> c = nl then Some r else None | [] \<Rightarrow> None)"

fun after_nl_dashed :: "string \<Rightarrow> string option" where
  "after_nl_dashed [] = None"
| "after_nl_dashed (c # cs) =
     (if c = nl then (case dashed cs of Some r \<Rightarrow> Some r | None \<Rightarrow> after_nl_dashed cs)
      else after_nl_dashed cs)"

text \<open>
  \<open>re.sub(r'(?s)^(.*?\n)?-{6,}\n', '', content, count=1)\<close>: the optional lazy group is tried first,
  so the text up to the first dashed line that follows a newline goes; failing that, a dashed first
  line goes.
\<close>

definition drop_header :: "string \<Rightarrow> string" where
  "drop_header s = (case after_nl_dashed s of Some r \<Rightarrow> r
     | None \<Rightarrow> (case dashed s of Some r \<Rightarrow> r | None \<Rightarrow> s))"

definition drop_prefix :: "string \<Rightarrow> string" where
  "drop_prefix s = (if starts_with CONTENT_PREFIX s
     then drop_header (case after_close s of Some r \<Rightarrow> r | None \<Rightarrow> s) else s)"

definition report_body :: "string \<Rightarrow> string" where
  "report_body content = py_strip (drop_prefix content)"

text \<open>\<open>content.replace("\r\n", "\n")\<close>\<close>

fun unix_lines :: "string \<Rightarrow> string" where
  "unix_lines (a # b # cs) = (if a = cr \<and> b = nl then nl # unix_lines cs else a # unix_lines (b # cs))"
| "unix_lines cs = cs"

text \<open>\<open>re.sub(WAKE_INPUT_RE, "", body).rstrip()\<close>\<close>

definition cut_wake :: "string \<Rightarrow> string option" where
  "cut_wake b = (if ends_with CANONICAL_INPUT b
     then Some (take (length b - length CANONICAL_INPUT) b) else None)"

definition drop_wake :: "string \<Rightarrow> string" where
  "drop_wake body = py_rstrip (case cut_wake (py_rstrip body) of Some p \<Rightarrow> p | None \<Rightarrow> body)"

text \<open>
  \<open>re.sub(CRON_FOOTER_RE, "", body).rstrip()\<close>: the footer names the reminder between quotes, so
  its quote is the last but one of the text.
\<close>

definition FOOTER_HEAD :: string where
  "FOOTER_HEAD = ''To stop or manage this job, send me a new message (e.g. '' @ [quote]"

definition FOOTER_NAME :: string where "FOOTER_NAME = ''stop reminder ''"

definition cut_footer :: "string \<Rightarrow> string option" where
  "cut_footer b = (let b = (if ends_with ''.'' b then butlast b else b) in
     if \<not> ends_with (quote # '')'') b then None
     else let r = rev (take (length b - 2) b);
              name = rev (takeWhile (\<lambda>c. c \<noteq> quote) r);
              h = rev (dropWhile (\<lambda>c. c \<noteq> quote) r)
          in if starts_with FOOTER_NAME name \<and> length FOOTER_NAME < length name \<and> ends_with FOOTER_HEAD h
             then Some (take (length h - length FOOTER_HEAD) h) else None)"

definition drop_footer :: "string \<Rightarrow> string" where
  "drop_footer body = py_rstrip (case cut_footer (py_rstrip body) of Some p \<Rightarrow> p | None \<Rightarrow> body)"

lemma length_py_rstrip: "length (py_rstrip s) \<le> length s"
  by (simp add: py_rstrip_def) (metis length_dropWhile_le length_rev)

lemma py_rstrip_prefix: "\<exists>t. s = py_rstrip s @ t"
proof -
  have "s = rev (takeWhile py_space (rev s) @ dropWhile py_space (rev s))" by simp
  then show ?thesis unfolding py_rstrip_def by (metis rev_append)
qed

lemma py_rstrip_shorter: "py_rstrip s \<noteq> s \<Longrightarrow> length (py_rstrip s) < length s"
  by (metis append_Nil2 length_append length_greater_0_conv less_add_same_cancel1 py_rstrip_prefix)

lemma cut_wake_shorter: "cut_wake b = Some p \<Longrightarrow> length p < length b"
  by (auto simp: cut_wake_def ends_with_iff CANONICAL_INPUT_def split: if_splits)

lemma cut_footer_shorter:
  assumes "cut_footer b = Some p"
  shows "length p < length b"
proof -
  define b' where "b' = (if ends_with ''.'' b then butlast b else b)"
  define h where "h = rev (dropWhile (\<lambda>c. c \<noteq> quote) (rev (take (length b' - 2) b')))"
  have "length h \<le> length b'"
    unfolding h_def by (simp del: rev_take) (metis (no_types, lifting) diff_le_self le_trans
        length_dropWhile_le length_rev length_take min.cobounded2)
  moreover have "length b' \<le> length b" by (simp add: b'_def)
  moreover have "p = take (length h - length FOOTER_HEAD) h" "ends_with FOOTER_HEAD h"
    using assms unfolding cut_footer_def Let_def b'_def [symmetric] h_def [symmetric]
    by (simp_all split: if_splits)
  ultimately show ?thesis by (auto simp: ends_with_iff FOOTER_HEAD_def)
qed

text \<open>The two suffixes wrap each other in any order and number: the loop runs until nothing changes.\<close>

function norm_loop :: "string \<Rightarrow> string" where
  "norm_loop body = (let b = drop_footer (drop_wake body) in
     if b = body then py_strip body else norm_loop b)"
  by auto

lemma drop_shorter:
  assumes "\<And>p. sfx (py_rstrip s) = Some p \<Longrightarrow> length p < length (py_rstrip s)"
    and "d = py_rstrip (case sfx (py_rstrip s) of Some p \<Rightarrow> p | None \<Rightarrow> s)" and "d \<noteq> s"
  shows "length d < length s"
proof (cases "sfx (py_rstrip s)")
  case None
  with assms show ?thesis by (simp add: py_rstrip_shorter)
next
  case (Some p)
  with assms(1) have "length p < length s" using length_py_rstrip [of s] by (simp add: order.strict_trans2)
  with Some assms(2) length_py_rstrip [of p] show ?thesis by simp
qed

lemma drop_wake_shorter: "drop_wake s \<noteq> s \<Longrightarrow> length (drop_wake s) < length s"
  by (rule drop_shorter [where sfx = cut_wake, OF cut_wake_shorter drop_wake_def])

lemma drop_footer_shorter: "drop_footer s \<noteq> s \<Longrightarrow> length (drop_footer s) < length s"
  by (rule drop_shorter [where sfx = cut_footer, OF cut_footer_shorter drop_footer_def])

lemma norm_loop_shorter:
  assumes "drop_footer (drop_wake s) \<noteq> s"
  shows "length (drop_footer (drop_wake s)) < length s"
proof (cases "drop_wake s = s")
  case True
  with assms drop_footer_shorter [of s] show ?thesis by simp
next
  case False
  then have "length (drop_wake s) < length s" by (rule drop_wake_shorter)
  moreover have "length (drop_footer (drop_wake s)) \<le> length (drop_wake s)"
    using drop_footer_shorter [of "drop_wake s"] by (cases "drop_footer (drop_wake s) = drop_wake s") auto
  ultimately show ?thesis by simp
qed

termination norm_loop
  by (relation "measure length") (auto simp: norm_loop_shorter)

declare norm_loop.simps [simp del]

definition normalized_report_body :: "string \<Rightarrow> string" where
  "normalized_report_body content = norm_loop (unix_lines (report_body content))"

section \<open>Reports that never wake\<close>

definition word_char :: "char \<Rightarrow> bool" where
  "word_char c = (let n = (of_char c :: nat) in (48 \<le> n \<and> n \<le> 57) \<or> (65 \<le> n \<and> n \<le> 90)
     \<or> (97 \<le> n \<and> n \<le> 122) \<or> n = 95 \<or> 128 \<le> n)"

text \<open>\<open>re.search(r"\bidle\b", s)\<close> on lower-case text; the first argument is the character before.\<close>

fun idle_word :: "char option \<Rightarrow> string \<Rightarrow> bool" where
  "idle_word prev [] = False"
| "idle_word prev (c # cs) = (
     (starts_with ''idle'' (c # cs) \<and> (case prev of None \<Rightarrow> True | Some p \<Rightarrow> \<not> word_char p)
        \<and> (case drop 4 (c # cs) of [] \<Rightarrow> True | d # _ \<Rightarrow> \<not> word_char d))
     \<or> idle_word (Some c) cs)"

fun has_infix :: "string \<Rightarrow> string \<Rightarrow> bool" where
  "has_infix p [] = (p = [])"
| "has_infix p (c # cs) = (starts_with p (c # cs) \<or> has_infix p cs)"

definition NOTHING_NEW :: "string list" where
  "NOTHING_NEW = [
     [CHR 0xE7, CHR 0x84, CHR 0xA1, CHR 0xE6, CHR 0x96, CHR 0xB0, CHR 0xE4, CHR 0xBA, CHR 0x8B,
      CHR 0xE9, CHR 0xA0, CHR 0x85],
     ''no new items'', ''no new work'', ''nothing pending'']"

text \<open>\<open>str.splitlines\<close>, up to empty lines, which the caller drops.\<close>

definition line_break :: "char \<Rightarrow> bool" where
  "line_break c = (let n = (of_char c :: nat) in (10 \<le> n \<and> n \<le> 13) \<or> (28 \<le> n \<and> n \<le> 30))"

fun py_lines :: "string \<Rightarrow> string \<Rightarrow> string list" where
  "py_lines acc [] = (if acc = [] then [] else [rev acc])"
| "py_lines acc (c # cs) = (if line_break c then rev acc # py_lines [] cs else py_lines (c # acc) cs)"

fun join_nl :: "string list \<Rightarrow> string" where
  "join_nl [] = []"
| "join_nl [l] = l"
| "join_nl (l # ls) = l @ nl # join_nl ls"

definition is_ignored_report :: "string \<Rightarrow> bool" where
  "is_ignored_report content = (let body = normalized_report_body content in
     if body = [] \<or> body = ''NO_REPLY'' \<or> body = ''HEARTBEAT_OK'' then True
     else let ls = filter (\<lambda>l. l \<noteq> []) (map py_strip (py_lines [] body))
       in if ls \<noteq> [] \<and> last ls = ''HEARTBEAT_OK''
          then let preface = py_lower (join_nl (butlast ls))
            in idle_word None preface \<and> list_ex (\<lambda>p. has_infix p preface) NOTHING_NEW
          else False)"

section \<open>Stability of the comparison text\<close>

text \<open>What the bridge and the alternation merge append behind a report.\<close>

datatype wrapper = WakeText nat | Footer nat string bool

fun wrap_text :: "wrapper \<Rightarrow> string" where
  "wrap_text (WakeText n) = replicate n nl @ CANONICAL_INPUT"
| "wrap_text (Footer n name dot) = replicate n nl @ FOOTER_HEAD @ FOOTER_NAME @ name @ [quote, CHR '')'']
     @ (if dot then ''.'' else [])"

fun wrapper_ok :: "wrapper \<Rightarrow> bool" where
  "wrapper_ok (WakeText n) = True"
| "wrapper_ok (Footer n name dot) = (name \<noteq> [] \<and> quote \<notin> set name \<and> nl \<notin> set name)"

definition plain_end :: "char \<Rightarrow> bool" where
  "plain_end c \<longleftrightarrow> \<not> py_space c \<and> c \<noteq> CHR ''-'' \<and> c \<noteq> CHR '']''"

lemma py_rstrip_Nil [simp]: "py_rstrip [] = []"
  by (simp add: py_rstrip_def)

lemma py_rstrip_snoc [simp]: "py_rstrip (s @ [c]) = (if py_space c then py_rstrip s else s @ [c])"
  by (simp add: py_rstrip_def)

lemma py_rstrip_fix: "s = [] \<or> \<not> py_space (last s) \<Longrightarrow> py_rstrip s = s"
  by (cases s rule: rev_cases) auto

lemma py_rstrip_last: "py_rstrip s \<noteq> [] \<Longrightarrow> \<not> py_space (last (py_rstrip s))"
  by (induction s rule: rev_induct) auto

lemma py_rstrip_idem [simp]: "py_rstrip (py_rstrip s) = py_rstrip s"
  by (rule py_rstrip_fix) (auto dest: py_rstrip_last)

lemma py_rstrip_newlines [simp]: "py_rstrip (s @ replicate n nl) = py_rstrip s"
  by (induction n) (simp_all add: replicate_append_same [symmetric] py_space_def flip: append_assoc)

lemma drop_wake_rstrip: "drop_wake (py_rstrip s) = drop_wake s"
  by (simp add: drop_wake_def split: option.split)

lemma drop_footer_rstrip: "drop_footer (py_rstrip s) = drop_footer s"
  by (simp add: drop_footer_def split: option.split)

lemma norm_loop_rstrip: "norm_loop (py_rstrip s) = norm_loop s"
proof -
  let ?b = "drop_footer (drop_wake s)"
  have a: "norm_loop s = (if ?b = s then py_strip s else norm_loop ?b)"
    by (simp add: norm_loop.simps [of s] Let_def)
  have b: "norm_loop (py_rstrip s) = (if ?b = py_rstrip s then py_strip (py_rstrip s) else norm_loop ?b)"
    by (simp add: norm_loop.simps [of "py_rstrip s"] drop_wake_rstrip Let_def)
  have r: "py_rstrip ?b = ?b" by (simp add: drop_footer_def)
  show ?thesis
  proof (cases "?b = s")
    case True
    with r have "py_rstrip s = s" by simp
    then show ?thesis by simp
  next
    case False
    with a b show ?thesis by auto
  qed
qed

lemma canonical_end: "CANONICAL_INPUT \<noteq> []" "last CANONICAL_INPUT = CHR 0x82" "hd CANONICAL_INPUT = CHR 0xE8"
  by (simp_all add: CANONICAL_INPUT_def)

lemma cut_wake_end: "cut_wake b = Some p \<Longrightarrow> b \<noteq> [] \<and> last b = CHR 0x82"
  using canonical_end by (auto simp: cut_wake_def ends_with_iff split: if_splits)

lemma cut_footer_end:
  assumes "cut_footer b = Some p" shows "b \<noteq> [] \<and> (last b = CHR ''.'' \<or> last b = CHR '')'')"
proof -
  let ?b = "if ends_with ''.'' b then butlast b else b"
  have "ends_with (quote # '')'') ?b"
    using assms by (simp add: cut_footer_def Let_def split: if_splits)
  then show ?thesis by (auto simp: ends_with_iff split: if_splits)
qed

lemma norm_loop_footer: "norm_loop (drop_footer y) = norm_loop y"
proof -
  define r where "r = py_rstrip y"
  have "norm_loop (drop_footer r) = norm_loop r"
  proof (cases "cut_footer r")
    case None
    then show ?thesis by (simp add: drop_footer_def r_def)
  next
    case (Some p)
    then have "cut_wake r = None"
      using cut_footer_end [of r] cut_wake_end [of r] by (cases "cut_wake r") auto
    then have w: "drop_wake r = r" by (simp add: drop_wake_def r_def)
    have "length (drop_footer r) < length r"
      using cut_footer_shorter [OF Some] length_py_rstrip [of p] Some by (simp add: drop_footer_def r_def)
    then have "drop_footer r \<noteq> r" by auto
    then show ?thesis by (simp add: norm_loop.simps [of r] w Let_def)
  qed
  then show ?thesis by (simp add: r_def drop_footer_rstrip norm_loop_rstrip)
qed

lemma norm_loop_wake: "norm_loop (drop_wake y) = norm_loop y"
proof -
  define r where "r = py_rstrip y"
  have "norm_loop (drop_wake r) = norm_loop r"
  proof (cases "cut_wake r")
    case None
    then show ?thesis by (simp add: drop_wake_def r_def)
  next
    case (Some p)
    have "length (drop_wake r) < length r"
      using cut_wake_shorter [OF Some] length_py_rstrip [of p] Some by (simp add: drop_wake_def r_def)
    moreover have "length (drop_footer (drop_wake r)) \<le> length (drop_wake r)"
      using drop_footer_shorter [of "drop_wake r"] by fastforce
    ultimately have "drop_footer (drop_wake r) \<noteq> r" by auto
    then have "norm_loop r = norm_loop (drop_footer (drop_wake r))"
      by (simp add: norm_loop.simps [of r] Let_def)
    then show ?thesis by (simp add: norm_loop_footer)
  qed
  then show ?thesis by (simp add: r_def drop_wake_rstrip norm_loop_rstrip)
qed

lemma wrap_text_last: "wrapper_ok w \<Longrightarrow> plain_end (last (wrap_text w)) \<and> wrap_text w \<noteq> []"
  by (cases w) (auto simp: plain_end_def canonical_end py_space_def)

lemma ends_with_snoc: "ends_with [c] (s @ [d]) \<longleftrightarrow> d = c"
  by (simp add: ends_with_def starts_with_def)

lemma ends_with_append [simp]: "ends_with p (s @ p)"
  by (simp add: ends_with_iff)

lemma cut_footer_wrap:
  assumes "name \<noteq> []" "quote \<notin> set name"
  shows "cut_footer (x @ FOOTER_HEAD @ FOOTER_NAME @ name @ [quote, CHR '')''] @ (if dot then ''.'' else []))
    = Some x"
proof -
  define n where "n = FOOTER_NAME @ name"
  define B where "B = x @ FOOTER_HEAD @ n @ [quote, CHR '')'']"
  obtain H where H: "FOOTER_HEAD = H @ [quote]" by (simp add: FOOTER_HEAD_def)
  have B_snoc: "B = (x @ FOOTER_HEAD @ n @ [quote]) @ [CHR '')'']" by (simp add: B_def)
  have nb: "\<not> ends_with ''.'' B" unfolding B_snoc ends_with_snoc by simp
  have dot: "(if ends_with ''.'' (B @ (if dot then ''.'' else [])) then butlast (B @ (if dot then ''.'' else []))
      else B @ (if dot then ''.'' else [])) = B"
    using nb by (auto simp: ends_with_snoc)
  have close: "ends_with (quote # '')'') B"
    unfolding B_def using ends_with_append [of "quote # '')''" "x @ FOOTER_HEAD @ n"] by simp
  have "take (length B - 2) B = x @ FOOTER_HEAD @ n" by (simp add: B_def)
  then have r: "rev (take (length B - 2) B) = rev n @ quote # rev H @ rev x" by (simp add: H)
  have q: "\<forall>c \<in> set (rev n). c \<noteq> quote" using assms by (auto simp: n_def FOOTER_NAME_def)
  then have t: "takeWhile (\<lambda>c. c \<noteq> quote) (rev n @ quote # z) = rev n"
    "dropWhile (\<lambda>c. c \<noteq> quote) (rev n @ quote # z) = quote # z" for z
    by (subst takeWhile_append2, force, simp, subst dropWhile_append2, force, simp)
  have h: "rev (quote # rev H @ rev x) = x @ FOOTER_HEAD" by (simp add: H)
  have "starts_with FOOTER_NAME n" "length FOOTER_NAME < length n" using assms(1) by (simp_all add: n_def)
  then have "cut_footer (B @ (if dot then ''.'' else [])) = Some x"
    unfolding cut_footer_def Let_def dot r t h using close by simp
  then show ?thesis by (simp add: B_def n_def)
qed

lemma norm_loop_wrap:
  assumes "wrapper_ok w"
  shows "norm_loop (x @ wrap_text w) = norm_loop x"
proof (cases w)
  case (WakeText n)
  have "py_rstrip (x @ wrap_text w) = x @ wrap_text w"
    using wrap_text_last [OF assms] by (intro py_rstrip_fix) (auto simp: plain_end_def)
  moreover have "cut_wake (x @ wrap_text w) = Some (x @ replicate n nl)"
    using ends_with_append [of CANONICAL_INPUT "x @ replicate n nl"] by (simp add: WakeText cut_wake_def)
  ultimately have "drop_wake (x @ wrap_text w) = py_rstrip x" by (simp add: drop_wake_def)
  then show ?thesis using norm_loop_wake [of "x @ wrap_text w"] by (simp add: norm_loop_rstrip)
next
  case (Footer n name dot)
  have "py_rstrip (x @ wrap_text w) = x @ wrap_text w"
    using wrap_text_last [OF assms] by (intro py_rstrip_fix) (auto simp: plain_end_def)
  moreover have "cut_footer (x @ wrap_text w) = Some (x @ replicate n nl)"
    using cut_footer_wrap [of name "x @ replicate n nl" dot] assms by (simp add: Footer)
  ultimately have "drop_footer (x @ wrap_text w) = py_rstrip x" by (simp add: drop_footer_def)
  then show ?thesis using norm_loop_footer [of "x @ wrap_text w"] by (simp add: norm_loop_rstrip)
qed

text \<open>A text that leaves every search of the header alone when it follows a plain end.\<close>

definition quiet :: "string \<Rightarrow> bool" where
  "quiet t \<longleftrightarrow> (\<exists>n b. t = replicate n nl @ b \<and> b \<noteq> [] \<and> nl \<notin> set b \<and> hd b \<noteq> CHR ''-'')
     \<and> hd t \<notin> set CONTENT_PREFIX \<and> \<not> py_space (last t)"

lemma quiet_wrap: "wrapper_ok w \<Longrightarrow> quiet (wrap_text w)"
proof (cases w)
  case (WakeText n)
  show ?thesis unfolding quiet_def WakeText wrap_text.simps
    by (rule conjI [OF exI [of _ n, OF exI [of _ CANONICAL_INPUT]]])
       (cases n; simp add: CANONICAL_INPUT_def CONTENT_PREFIX_def py_space_def)+
next
  case (Footer n name dot)
  assume "wrapper_ok w"
  then show ?thesis unfolding quiet_def Footer wrap_text.simps
    by (intro conjI exI [of _ n] exI [of _ "FOOTER_HEAD @ FOOTER_NAME @ name @ [quote, CHR '')''] @ (if dot then ''.'' else [])"])
       (cases n; auto simp: FOOTER_HEAD_def FOOTER_NAME_def CONTENT_PREFIX_def py_space_def)+
qed

lemma after_close_quiet: "quiet t \<Longrightarrow> after_close t = None"
proof -
  have b: "nl \<notin> set b \<Longrightarrow> after_close b = None" for b by (induction b rule: after_close.induct) auto
  have "nl \<notin> set b \<Longrightarrow> b \<noteq> [] \<Longrightarrow> after_close (replicate n nl @ b) = None" for n b
  proof (induction n)
    case (Suc n)
    then show ?case by (cases "replicate n nl @ b") auto
  qed (simp add: b)
  then show "quiet t \<Longrightarrow> after_close t = None" by (auto simp: quiet_def)
qed

lemma after_close_append:
  "c \<noteq> [] \<Longrightarrow> last c \<noteq> CHR '']'' \<Longrightarrow> after_close t = None \<Longrightarrow>
   after_close (c @ t) = map_option (\<lambda>r. r @ t) (after_close c)"
proof (induction c)
  case (Cons a c)
  show ?case
  proof (cases c)
    case Nil
    with Cons.prems show ?thesis by (cases t) auto
  next
    case c: (Cons b cs)
    with Cons.prems Cons.IH show ?thesis by auto
  qed
qed simp

lemma dashed_append:
  assumes "c \<noteq> []" "last c \<noteq> CHR ''-''"
  shows "dashed (c @ t) = map_option (\<lambda>r. r @ t) (dashed c)"
proof -
  have ex: "\<exists>x \<in> set c. x \<noteq> CHR ''-''" using assms last_in_set by blast
  then have tw: "takeWhile (\<lambda>c. c = CHR ''-'') (c @ t) = takeWhile (\<lambda>c. c = CHR ''-'') c"
    by (auto simp: takeWhile_append1)
  have lt: "length (takeWhile (\<lambda>c. c = CHR ''-'') c) < length c"
    using ex by (metis (full_types) length_takeWhile_le le_neq_implies_less takeWhile_eq_all_conv
        takeWhile_eq_take take_all order_refl)
  then have "drop (length (takeWhile (\<lambda>c. c = CHR ''-'') c)) c \<noteq> []" by simp
  then obtain d r where "drop (length (takeWhile (\<lambda>c. c = CHR ''-'') c)) c = d # r"
    by (meson neq_Nil_conv)
  moreover have "length (takeWhile (\<lambda>c. c = CHR ''-'') c) - length c = 0" using lt by simp
  ultimately show ?thesis by (simp add: dashed_def Let_def tw)
qed

lemma dashed_head: "b = [] \<or> hd b \<noteq> CHR ''-'' \<Longrightarrow> dashed b = None"
  by (cases b) (auto simp: dashed_def)

lemma after_nl_dashed_quiet: "quiet t \<Longrightarrow> after_nl_dashed t = None"
proof -
  have b: "nl \<notin> set b \<Longrightarrow> after_nl_dashed b = None" for b by (induction b) auto
  have "nl \<notin> set b \<Longrightarrow> b \<noteq> [] \<Longrightarrow> hd b \<noteq> CHR ''-'' \<Longrightarrow> after_nl_dashed (replicate n nl @ b) = None" for n b
  proof (induction n)
    case (Suc n)
    have "dashed (replicate n nl @ b) = None" using Suc.prems by (intro dashed_head) (cases n; auto)
    with Suc show ?case by simp
  qed (simp add: b)
  then show "quiet t \<Longrightarrow> after_nl_dashed t = None" by (auto simp: quiet_def)
qed

lemma after_nl_dashed_append:
  "c \<noteq> [] \<Longrightarrow> plain_end (last c) \<Longrightarrow> after_nl_dashed t = None \<Longrightarrow>
   after_nl_dashed (c @ t) = map_option (\<lambda>r. r @ t) (after_nl_dashed c)"
proof (induction c)
  case (Cons x c)
  show ?case
  proof (cases "c = []")
    case True
    with Cons.prems show ?thesis by (auto simp: plain_end_def py_space_def)
  next
    case False
    with Cons dashed_append [of c t] show ?thesis by (auto simp: plain_end_def split: option.splits)
  qed
qed simp

lemma dashed_Some: "dashed c = Some r \<Longrightarrow> \<exists>p. c = p @ nl # r"
proof -
  let ?n = "length (takeWhile (\<lambda>c. c = CHR ''-'') c)"
  assume "dashed c = Some r"
  then have "drop ?n c = nl # r" by (auto simp: dashed_def Let_def split: list.splits if_splits)
  then show ?thesis by (metis append_take_drop_id)
qed

lemma after_nl_dashed_Some: "after_nl_dashed c = Some r \<Longrightarrow> \<exists>p. c = p @ nl # r"
proof (induction c)
  case (Cons x c)
  show ?case
  proof (cases "x = nl \<and> dashed c \<noteq> None")
    case True
    then obtain r' where "dashed c = Some r'" by auto
    with True Cons.prems have "dashed c = Some r" by simp
    from dashed_Some [OF this] obtain p where "c = p @ nl # r" by blast
    then have "x # c = (x # p) @ nl # r" by simp
    then show ?thesis by blast
  next
    case False
    with Cons.prems have "after_nl_dashed c = Some r" by (auto split: if_splits)
    with Cons.IH obtain p where "c = p @ nl # r" by blast
    then have "x # c = (x # p) @ nl # r" by simp
    then show ?thesis by blast
  qed
qed simp

lemma after_close_Some: "after_close c = Some r \<Longrightarrow> \<exists>p. c = p @ nl # r"
proof (induction c rule: after_close.induct)
  case (1 a b cs)
  show ?case
  proof (cases "a = CHR '']'' \<and> b = nl")
    case True
    with 1 have "a # b # cs = [a] @ nl # r" by simp
    then show ?thesis by blast
  next
    case False
    with 1 obtain p where "b # cs = p @ nl # r" by auto
    then have "a # b # cs = (a # p) @ nl # r" by simp
    then show ?thesis by blast
  qed
qed simp_all

text \<open>Cutting behind a newline keeps a plain end.\<close>

lemma plain_suffix:
  assumes "plain_end (last (p @ nl # r))" shows "r \<noteq> [] \<and> plain_end (last r)"
  using assms by (cases r) (auto simp: plain_end_def py_space_def)

lemma drop_header_append:
  assumes c: "c \<noteq> []" "plain_end (last c)" and q: "quiet t"
  shows "drop_header (c @ t) = drop_header c @ t \<and> drop_header c \<noteq> [] \<and> plain_end (last (drop_header c))"
proof -
  have d: "dashed (c @ t) = map_option (\<lambda>r. r @ t) (dashed c)"
    using c by (intro dashed_append) (auto simp: plain_end_def)
  note n = after_nl_dashed_append [OF c after_nl_dashed_quiet [OF q]]
  show ?thesis
  proof (cases "after_nl_dashed c")
    case (Some r)
    with after_nl_dashed_Some [of c r] c plain_suffix [of _ r] n show ?thesis
      by (auto simp: drop_header_def)
  next
    case None
    show ?thesis
    proof (cases "dashed c")
      case None
      with \<open>after_nl_dashed c = None\<close> n d c show ?thesis by (simp add: drop_header_def)
    next
      case (Some r)
      with dashed_Some [of c r] c plain_suffix [of _ r] \<open>after_nl_dashed c = None\<close> n d show ?thesis
        by (auto simp: drop_header_def)
    qed
  qed
qed

lemma prefix_append:
  assumes "t \<noteq> []" "hd t \<notin> set p" "p \<noteq> []"
  shows "starts_with p (c @ t) = starts_with p c"
proof (cases "length p \<le> length c")
  case True
  then show ?thesis by (simp add: starts_with_def)
next
  case False
  obtain x t' where t: "t = x # t'" using assms(1) by (cases t) auto
  have "x \<in> set (take (length p) (c @ t))"
    using False by (simp add: t take_Cons' )
  moreover have "x \<notin> set p" using assms(2) by (simp add: t)
  ultimately have "take (length p) (c @ t) \<noteq> p" by metis
  then have "\<not> starts_with p (c @ t)" by (simp only: starts_with_def not_False_eq_True)
  moreover have "\<not> starts_with p c" using False by (auto simp: starts_with_def dest: arg_cong [of _ _ length])
  ultimately show ?thesis by simp
qed

lemma drop_prefix_append:
  assumes c: "c \<noteq> []" "plain_end (last c)" and q: "quiet t"
  shows "drop_prefix (c @ t) = drop_prefix c @ t \<and> drop_prefix c \<noteq> [] \<and> plain_end (last (drop_prefix c))"
proof -
  have "t \<noteq> []" using q by (auto simp: quiet_def)
  then have sw: "starts_with CONTENT_PREFIX (c @ t) = starts_with CONTENT_PREFIX c"
    using q by (intro prefix_append) (auto simp: quiet_def CONTENT_PREFIX_def)
  have ac: "after_close (c @ t) = map_option (\<lambda>r. r @ t) (after_close c)"
    using c after_close_quiet [OF q] by (intro after_close_append) (auto simp: plain_end_def)
  show ?thesis
  proof (cases "after_close c")
    case None
    with drop_header_append [OF c q] c ac show ?thesis by (simp add: drop_prefix_def sw)
  next
    case (Some r)
    with after_close_Some [OF this] c(2) plain_suffix [of _ r] have "r \<noteq> []" "plain_end (last r)" by auto
    with drop_header_append [OF this q] Some c ac show ?thesis by (simp add: drop_prefix_def sw)
  qed
qed

lemma unix_lines_none: "cr \<notin> set s \<or> nl \<notin> set s \<Longrightarrow> unix_lines s = s"
  by (induction s rule: unix_lines.induct) auto

lemma unix_lines_newlines: "nl \<notin> set b \<Longrightarrow> unix_lines (replicate n nl @ b) = replicate n nl @ b"
proof (induction n)
  case (Suc n)
  then show ?case by (cases "replicate n nl @ b") auto
qed (simp add: unix_lines_none)

lemma unix_lines_append:
  "v \<noteq> [] \<Longrightarrow> last v \<noteq> cr \<Longrightarrow> unix_lines (v @ t) = unix_lines v @ unix_lines t"
proof (induction "length v" arbitrary: v rule: less_induct)
  case less
  then obtain a v' where v: "v = a # v'" by (cases v) auto
  show ?case
  proof (cases v')
    case Nil
    with v less.prems show ?thesis by (cases t) auto
  next
    case (Cons b cs)
    show ?thesis
    proof (cases "a = cr \<and> b = nl \<and> cs = []")
      case True
      then show ?thesis by (simp add: v Cons)
    next
      case False
      with v Cons less.prems less.hyps [of "b # cs"] less.hyps [of cs] show ?thesis by auto
    qed
  qed
qed

lemma normalized_wrap:
  assumes c: "c \<noteq> []" "plain_end (last c)" and w: "wrapper_ok w"
  shows "normalized_report_body (c @ wrap_text w) = normalized_report_body c"
proof -
  let ?t = "wrap_text w"
  define u where "u = drop_prefix c"
  note q = quiet_wrap [OF w]
  have u: "drop_prefix (c @ ?t) = u @ ?t" "u \<noteq> []" "plain_end (last u)"
    using drop_prefix_append [OF c q] by (simp_all add: u_def)
  have ns: "\<not> (\<forall>x \<in> set u. py_space x)" using u(2,3) last_in_set [of u] by (auto simp: plain_end_def)
  then obtain v where v: "py_lstrip u = v" "v \<noteq> []" "last v = last u"
    by (metis dropWhile_eq_Nil_conv last_appendR py_lstrip_def takeWhile_dropWhile_id)
  have "py_lstrip (u @ ?t) = v @ ?t" using ns v(1) by (auto simp: py_lstrip_def dropWhile_append1)
  moreover have "py_rstrip (v @ ?t) = v @ ?t" "py_rstrip v = v"
    using wrap_text_last [OF w] v u(3) by (auto intro!: py_rstrip_fix simp: plain_end_def)
  ultimately have r: "report_body (c @ ?t) = v @ ?t" "report_body c = v"
    using v by (simp_all add: report_body_def py_strip_def u u_def [symmetric])
  have "last v \<noteq> cr" using v u(3) by (auto simp: plain_end_def py_space_def)
  then have "unix_lines (v @ ?t) = unix_lines v @ ?t"
    using unix_lines_append [OF v(2)] q by (auto simp: quiet_def unix_lines_newlines)
  then show ?thesis by (simp add: normalized_report_body_def r norm_loop_wrap [OF w])
qed

lemma normalized_wraps:
  assumes "c \<noteq> []" and "plain_end (last c)" and "list_all wrapper_ok ws"
  shows "normalized_report_body (c @ concat (map wrap_text ws)) = normalized_report_body c"
  using assms
proof (induction ws arbitrary: c)
  case (Cons w ws)
  have "normalized_report_body ((c @ wrap_text w) @ concat (map wrap_text ws))
      = normalized_report_body (c @ wrap_text w)"
    using Cons.prems wrap_text_last [of w] by (intro Cons.IH) auto
  with Cons.prems normalized_wrap [of c w] show ?case by simp
qed simp

section \<open>Properties\<close>

text \<open>
  The comparison text of a report is stable: however often the wake input and the cron footer
  are appended behind it, in any order, its normalized body and the decision to ignore it do not
  change.
\<close>

theorem normalized_report_body_stable:
  assumes "c \<noteq> []" and "plain_end (last c)" and "list_all wrapper_ok ws"
  shows "normalized_report_body (c @ concat (map wrap_text ws)) = normalized_report_body c
    \<and> is_ignored_report (c @ concat (map wrap_text ws)) = is_ignored_report c"
  using normalized_wraps [OF assms] by (simp add: is_ignored_report_def)

theorem normalized_report_body_stable_witness:
  "normalized_report_body (''NO_REPLY'' @ wrap_text (Footer 2 ''x'' True) @ wrap_text (WakeText 2))
     = normalized_report_body ''NO_REPLY''
   \<and> is_ignored_report (''NO_REPLY'' @ wrap_text (Footer 2 ''x'' True) @ wrap_text (WakeText 2))
     = is_ignored_report ''NO_REPLY''"
  using normalized_report_body_stable [of "''NO_REPLY''" "[Footer 2 ''x'' True, WakeText 2]"]
  by (simp add: plain_end_def py_space_def)

text \<open>
  A heartbeat stays silent however it is wrapped: the two sentinels and the empty report, with
  any wake texts and footers behind them, never qualify for a wake.
\<close>

theorem sentinel_ignored:
  assumes "list_all wrapper_ok ws"
  shows "is_ignored_report (''NO_REPLY'' @ concat (map wrap_text ws))
    \<and> is_ignored_report (''HEARTBEAT_OK'' @ concat (map wrap_text ws))"
proof -
  have n: "normalized_report_body c = c"
    if "c = ''NO_REPLY'' \<or> c = ''HEARTBEAT_OK''" for c
  proof -
    have r: "py_rstrip c = c" using that by (auto simp: py_str_defs)
    moreover have "cut_wake c = None"
      using cut_wake_end [of c] that by (cases "cut_wake c") auto
    moreover have "cut_footer c = None"
      using cut_footer_end [of c] that by (cases "cut_footer c") auto
    ultimately have "drop_footer (drop_wake c) = c" by (simp add: drop_footer_def drop_wake_def)
    moreover have "py_strip c = c" "unix_lines (report_body c) = c"
      using that by (auto simp: py_str_defs report_body_def drop_prefix_def CONTENT_PREFIX_def)
    ultimately show ?thesis by (simp add: normalized_report_body_def norm_loop.simps [of c])
  qed
  have e: "normalized_report_body (c @ concat (map wrap_text ws)) = c"
    if "c = ''NO_REPLY'' \<or> c = ''HEARTBEAT_OK''" for c
  proof -
    have "c \<noteq> []" "plain_end (last c)" using that by (auto simp: plain_end_def py_space_def)
    then show ?thesis using normalized_wraps [OF _ _ assms] n [OF that] by simp
  qed
  note n = e [OF disjI1, OF refl] and h = e [OF disjI2, OF refl]
  show ?thesis unfolding is_ignored_report_def Let_def n h by simp
qed

theorem sentinel_ignored_witness:
  "is_ignored_report (''NO_REPLY'' @ wrap_text (WakeText 1))"
  using sentinel_ignored [of "[WakeText 1]"] by simp

end
