(* ===== verification/Auto_Wake_Store.thy ===== *)
theory Auto_Wake_Store
  imports Auto_Wake "HOL-Library.Multiset" "HOL-Library.List_Lexorder" "HOL-Library.Char_ord"
begin

text \<open>
  \<open>compat/auto_wake_store.py\<close>: the wake ledger. Tables \<open>wake_batches\<close> and \<open>wake_consumption\<close>, the
  quota, the admission of a batch, the gate in front of the chat stream, the client reports, the
  release, and the invariant that ties a live batch to the keys it consumed. The operations that
  read a row and then write run their two halves as separate definitions, because another process
  on the same file can act in between.
\<close>

section \<open>Tables\<close>

datatype wake_state = Reserved | Dispatching | RunAccepted | Terminal | Uncertain | Released

record batch =
  wb_id :: string
  wb_session :: string
  wb_state :: wake_state
  wb_reason :: "string option"
  wb_run :: "string option"
  wb_input :: string
  wb_keys :: "string list"
  wb_created :: time
  wb_updated :: time
  wb_terminal :: "time option"
  wb_owner :: "string option"

datatype consumed_state = Consumed | Ignored

record consumption =
  wc_key :: string
  wc_batch :: "string option"
  wc_session :: string
  wc_message :: "int option"
  wc_order :: real
  wc_ignored :: bool
  wc_state :: consumed_state
  wc_created :: time
  wc_updated :: time

record wake_ledger =
  wl_batches :: "batch list"
  wl_rows :: "consumption list"

definition wake_empty :: wake_ledger where
  "wake_empty = \<lparr>wl_batches = [], wl_rows = []\<rparr>"

definition ADMIT_MAX_DELIVERY_IDS :: nat where "ADMIT_MAX_DELIVERY_IDS = 32"
definition CONTENT_COOLDOWN_SECONDS :: time where "CONTENT_COOLDOWN_SECONDS = 15 * 60"

section \<open>Quota\<close>

record wake_quota =
  q_session_used :: nat
  q_session_remaining :: nat
  q_profile_used :: nat
  q_profile_remaining :: nat

abbreviation spends :: "time \<Rightarrow> batch \<Rightarrow> bool" where
  "spends since b \<equiv> since < wb_created b \<and> wb_state b \<noteq> Released"

definition quota_of :: "wake_ledger \<Rightarrow> string \<Rightarrow> time \<Rightarrow> wake_quota" where
  "quota_of st session now = (let since = now - QUOTA_WINDOW_SECONDS;
       session_used = count_where (\<lambda>b. spends since b \<and> wb_session b = session) (wl_batches st);
       profile_used = count_where (spends since) (wl_batches st)
     in \<lparr>q_session_used = session_used, q_session_remaining = SESSION_WAKE_LIMIT - session_used,
         q_profile_used = profile_used, q_profile_remaining = PROFILE_WAKE_LIMIT - profile_used\<rparr>)"

section \<open>What an admission reads from the session database\<close>

text \<open>
  One admission sees one state of the session database: its tables, what \<open>get_session(resolved)\<close>
  returns, the lease key of the session (\<open>None\<close> when the mapper raises), and the rendering of a
  nested JSON value.
\<close>

record wake_env =
  we_db :: session_db
  we_session :: "session option"
  we_lease_key :: "string option"
  we_dumps :: "json \<Rightarrow> string"

definition find_report :: "wake_env \<Rightarrow> string \<Rightarrow> string \<Rightarrow> message option" where
  "find_report env resolved key = first_where (\<lambda>m. msg_session m \<in> set (lineage (db_sessions (we_db env)) resolved)
     \<and> msg_role m = ''user'' \<and> msg_kind m = Some DISPLAY_KIND
     \<and> cron_field (we_dumps env) ''delivery_key'' m = SText key) (db_messages (we_db env))"

definition session_busy :: "wake_env \<Rightarrow> time \<Rightarrow> bool" where
  "session_busy env now = (case we_lease_key env of None \<Rightarrow> True
     | Some k \<Rightarrow> list_ex (\<lambda>l. lease_conversation l = k \<and> now < lease_expires l) (db_leases (we_db env)))"

text \<open>\<open>" ".join(s.split())\<close>\<close>

fun py_words :: "string \<Rightarrow> string \<Rightarrow> string list" where
  "py_words acc [] = (if acc = [] then [] else [rev acc])"
| "py_words acc (c # cs) = (if py_space c then (if acc = [] then [] else [rev acc]) @ py_words [] cs
     else py_words (c # acc) cs)"

fun join_sp :: "string list \<Rightarrow> string" where
  "join_sp [] = []"
| "join_sp [w] = w"
| "join_sp (w # ws) = w @ CHR '' '' # join_sp ws"

definition source_text :: "string \<Rightarrow> string" where
  "source_text content = join_sp (py_words [] (normalized_report_body content))"

definition same_source_recent :: "wake_ledger \<Rightarrow> wake_env \<Rightarrow> string \<Rightarrow> message \<Rightarrow> time \<Rightarrow> bool" where
  "same_source_recent st env resolved m now = (case cron_field (we_dumps env) ''job_id'' m of
     SText job \<Rightarrow> job \<noteq> [] \<and> list_ex (\<lambda>c. wc_session c = resolved \<and> \<not> wc_ignored c \<and> wc_state c = Consumed
         \<and> now - CONTENT_COOLDOWN_SECONDS < wc_created c
         \<and> (case Option.bind (wc_message c) (\<lambda>i. get_by msg_id i (db_messages (we_db env))) of None \<Rightarrow> False
            | Some old \<Rightarrow> (case provenance_of (msg_role old) (msg_kind old) (msg_meta old) of None \<Rightarrow> False
                | Some p \<Rightarrow> pv_job p = job \<and> source_text (msg_content old) = source_text (msg_content m))))
         (wl_rows st)
   | _ \<Rightarrow> False)"

section \<open>Admission\<close>

datatype reject = AlreadyConsumed "string option" | UnknownProvenance | CausalSuspect | BatchOverflow

text \<open>The request's keys: trimmed, lower-cased, malformed ones dropped; a repeated key is an error.\<close>

fun clean_keys :: "string list \<Rightarrow> string list \<Rightarrow> string list option" where
  "clean_keys seen [] = Some (rev seen)"
| "clean_keys seen (raw # keys) = (let key = py_lower (py_strip raw) in
     if length key \<noteq> 64 \<or> \<not> list_all hex_digit key then clean_keys seen keys
     else if key \<in> set seen then None else clean_keys (key # seen) keys)"

definition session_refused :: "session \<Rightarrow> bool" where
  "session_refused s \<longleftrightarrow> ses_hidden s \<or> ses_archived s
     \<or> ses_source s = Some ''cron'' \<or> ses_source s = Some ''subagent''
     \<or> (ses_ended_at s \<noteq> None \<and> ses_end_reason s \<noteq> Some ''compression'')"

record admit_acc =
  ac_ledger :: wake_ledger
  ac_ignored :: "string list"
  ac_rejected :: "(string \<times> reject) list"
  ac_claims :: "(string \<times> int \<times> time) list"

definition ignore_row :: "string \<Rightarrow> string \<Rightarrow> int \<Rightarrow> time \<Rightarrow> consumption" where
  "ignore_row key resolved i now = \<lparr>wc_key = key, wc_batch = None, wc_session = resolved, wc_message = None,
     wc_order = of_int i, wc_ignored = True, wc_state = Ignored, wc_created = now, wc_updated = now\<rparr>"

definition claim_row :: "string \<Rightarrow> string \<Rightarrow> time \<Rightarrow> string \<times> int \<times> time \<Rightarrow> consumption" where
  "claim_row bid resolved now c = (case c of (key, i, stamp) \<Rightarrow>
     \<lparr>wc_key = key, wc_batch = Some bid, wc_session = resolved, wc_message = Some i, wc_order = stamp,
      wc_ignored = False, wc_state = Consumed, wc_created = now, wc_updated = now\<rparr>)"

definition ignore_key :: "string \<Rightarrow> string \<Rightarrow> int \<Rightarrow> time \<Rightarrow> admit_acc \<Rightarrow> admit_acc" where
  "ignore_key key resolved i now acc = acc\<lparr>
     ac_ledger := (ac_ledger acc)\<lparr>wl_rows := wl_rows (ac_ledger acc) @ [ignore_row key resolved i now]\<rparr>,
     ac_ignored := ac_ignored acc @ [key]\<rparr>"

definition reject_key :: "string \<Rightarrow> reject \<Rightarrow> admit_acc \<Rightarrow> admit_acc" where
  "reject_key key why acc = acc\<lparr>ac_rejected := ac_rejected acc @ [(key, why)]\<rparr>"

text \<open>A report produced inside an in-flight wake run of the session.\<close>

definition causal_suspect :: "wake_ledger \<Rightarrow> string \<Rightarrow> time \<Rightarrow> bool" where
  "causal_suspect st resolved stamp = list_ex (\<lambda>b. wb_session b = resolved
     \<and> wb_state b \<in> {Dispatching, RunAccepted} \<and> wb_created b < stamp
     \<and> (case wb_terminal b of None \<Rightarrow> True | Some t \<Rightarrow> stamp < t)) (wl_batches st)"

definition admit_key :: "wake_env \<Rightarrow> string \<Rightarrow> time \<Rightarrow> string \<Rightarrow> admit_acc \<Rightarrow> admit_acc" where
  "admit_key env resolved now key acc = (case get_by wc_key key (wl_rows (ac_ledger acc)) of
     Some prior \<Rightarrow>
       if wc_ignored prior then acc\<lparr>ac_ignored := ac_ignored acc @ [key]\<rparr>
       else reject_key key (AlreadyConsumed (wc_batch prior)) acc
   | None \<Rightarrow> (case find_report env resolved key of
       None \<Rightarrow> reject_key key UnknownProvenance acc
     | Some m \<Rightarrow>
         if \<not> sql_is_one (cron_field (we_dumps env) ''schema'' m) then reject_key key UnknownProvenance acc
         else if is_ignored_report (msg_content m) then ignore_key key resolved (msg_id m) now acc
         else if causal_suspect (ac_ledger acc) resolved (msg_time m) then reject_key key CausalSuspect acc
         else if same_source_recent (ac_ledger acc) env resolved m now
           then ignore_key key resolved (msg_id m) now acc
         else acc\<lparr>ac_claims := ac_claims acc @ [(key, msg_id m, msg_time m)]\<rparr>))"

datatype wake_admission =
    AdmitError string
  | AdmitBusy
  | QuotaExceeded wake_quota
  | AdmitEmpty "string list" "(string \<times> reject) list" wake_quota
  | Admitted string "(string \<times> int) list" "string list" "(string \<times> reject) list" wake_quota
  | AdmitRaises

definition new_batch :: "string \<Rightarrow> string \<Rightarrow> string list \<Rightarrow> time \<Rightarrow> string option \<Rightarrow> batch" where
  "new_batch bid resolved keys now owner = \<lparr>wb_id = bid, wb_session = resolved, wb_state = Reserved,
     wb_reason = None, wb_run = None, wb_input = CANONICAL_INPUT, wb_keys = sort keys, wb_created = now,
     wb_updated = now, wb_terminal = None, wb_owner = owner\<rparr>"

definition admit :: "wake_env \<Rightarrow> time \<Rightarrow> string \<Rightarrow> string \<Rightarrow> string list \<Rightarrow> string option \<Rightarrow> wake_ledger
    \<Rightarrow> wake_admission \<times> wake_ledger" where
  "admit env now bid resolved keys owner st = (case clean_keys [] keys of
     None \<Rightarrow> (AdmitError ''duplicate_key_in_request'', st)
   | Some cleaned \<Rightarrow>
       if cleaned = [] then (AdmitError ''no_valid_keys'', st)
       else if ADMIT_MAX_DELIVERY_IDS < length cleaned then (AdmitError ''too_many_keys'', st)
       else (case we_session env of None \<Rightarrow> (AdmitError ''session_not_found'', st)
       | Some session \<Rightarrow>
           if session_refused session then (AdmitError ''session_not_allowed'', st)
           else if session_busy env now then (AdmitBusy, st)
           else let quota = quota_of st resolved now in
             if q_session_remaining quota = 0 \<or> q_profile_remaining quota = 0 then (QuotaExceeded quota, st)
             else let acc = fold (admit_key env resolved now) cleaned
                        \<lparr>ac_ledger = st, ac_ignored = [], ac_rejected = [], ac_claims = []\<rparr>;
                      claims = take BATCH_MAX (ac_claims acc);
                      rejected = ac_rejected acc
                        @ map (\<lambda>c. (fst c, BatchOverflow)) (drop BATCH_MAX (ac_claims acc));
                      st1 = ac_ledger acc
               in if claims = [] then (AdmitEmpty (ac_ignored acc) rejected quota, st1)
                  else if get_by wb_id bid (wl_batches st1) \<noteq> None then (AdmitRaises, st)
                  else let st2 = \<lparr>wl_batches = wl_batches st1 @ [new_batch bid resolved (map fst claims) now owner],
                           wl_rows = wl_rows st1 @ map (claim_row bid resolved now) claims\<rparr>
                    in (Admitted bid (map (\<lambda>(k, i, _). (k, i)) claims) (ac_ignored acc) rejected
                          (quota_of st2 resolved now), st2)))"

section \<open>Receipts\<close>

record wake_receipt =
  wr_batch :: string
  wr_session :: string
  wr_state :: wake_state
  wr_reason :: "string option"
  wr_run :: "string option"
  wr_input :: string
  wr_keys :: "string list"
  wr_rows :: "(string \<times> consumed_state \<times> bool \<times> int option) list"
  wr_created :: time
  wr_terminal :: "time option"

definition batch_view :: "wake_ledger \<Rightarrow> string \<Rightarrow> wake_receipt option" where
  "batch_view st bid = map_option (\<lambda>b. \<lparr>wr_batch = bid, wr_session = wb_session b, wr_state = wb_state b,
       wr_reason = wb_reason b, wr_run = wb_run b, wr_input = wb_input b, wr_keys = wb_keys b,
       wr_rows = map (\<lambda>c. (wc_key c, wc_state c, wc_ignored c, wc_message c))
         (sort_key wc_order (filter (\<lambda>c. wc_batch c = Some bid) (wl_rows st))),
       wr_created = wb_created b, wr_terminal = wb_terminal b\<rparr>) (get_by wb_id bid (wl_batches st))"

datatype wake_answer =
    WakeOk "wake_receipt option"
  | WakeError string
  | WakeConflict "wake_state option"

definition receipt :: "string \<Rightarrow> string \<Rightarrow> time \<Rightarrow> wake_ledger \<Rightarrow> wake_answer \<times> wake_quota option" where
  "receipt bid resolved now st = (case batch_view st bid of None \<Rightarrow> (WakeError ''batch_not_found'', None)
     | Some v \<Rightarrow> if wr_session v \<noteq> resolved then (WakeError ''batch_not_found'', None)
         else (WakeOk (Some v), Some (quota_of st resolved now)))"

definition ledger_state_for :: "string \<Rightarrow> wake_ledger \<Rightarrow> (consumed_state \<times> string option) option" where
  "ledger_state_for key st = map_option (\<lambda>c. (wc_state c, wc_batch c)) (get_by wc_key key (wl_rows st))"

section \<open>The gate and the reports\<close>

datatype gate_code = BatchUnknown | BatchForeign | CanonicalMismatch | InFlight | WakeConsumed | WakeReleased

text \<open>
  A compare-and-set on one batch: the rows changed (0 or 1, the id is the key) and the new ledger.
\<close>

definition batch_cas :: "string \<Rightarrow> (batch \<Rightarrow> bool) \<Rightarrow> (batch \<Rightarrow> batch) \<Rightarrow> wake_ledger \<Rightarrow> nat \<times> wake_ledger" where
  "batch_cas bid P f st = (count_where (\<lambda>b. wb_id b = bid \<and> P b) (wl_batches st),
     st\<lparr>wl_batches := upd_where (\<lambda>b. wb_id b = bid \<and> P b) f (wl_batches st)\<rparr>)"

definition gate_read :: "string \<Rightarrow> string \<Rightarrow> string option \<Rightarrow> wake_ledger
    \<Rightarrow> (gate_code \<times> wake_receipt option) option" where
  "gate_read bid resolved input st = (case get_by wb_id bid (wl_batches st) of
     None \<Rightarrow> Some (BatchUnknown, None)
   | Some b \<Rightarrow>
       if wb_session b \<noteq> resolved then Some (BatchForeign, None)
       else case wb_state b of
         Reserved \<Rightarrow> if input \<noteq> Some (wb_input b) then Some (CanonicalMismatch, None) else None
       | Dispatching \<Rightarrow> Some (InFlight, batch_view st bid)
       | RunAccepted \<Rightarrow> Some (InFlight, batch_view st bid)
       | Terminal \<Rightarrow> Some (WakeConsumed, batch_view st bid)
       | Uncertain \<Rightarrow> Some (WakeConsumed, batch_view st bid)
       | Released \<Rightarrow> Some (WakeReleased, batch_view st bid))"

definition gate_write :: "time \<Rightarrow> string \<Rightarrow> wake_ledger \<Rightarrow> (gate_code \<times> wake_receipt option) option \<times> wake_ledger" where
  "gate_write now bid st = (case batch_cas bid (\<lambda>b. wb_state b = Reserved)
       (\<lambda>b. b\<lparr>wb_state := Dispatching, wb_updated := now\<rparr>) st of
     (n, st') \<Rightarrow> (if n \<noteq> 1 then Some (InFlight, batch_view st' bid) else None, st'))"

definition gate_dispatch :: "time \<Rightarrow> string \<Rightarrow> string \<Rightarrow> string option \<Rightarrow> wake_ledger
    \<Rightarrow> (gate_code \<times> wake_receipt option) option \<times> wake_ledger" where
  "gate_dispatch now bid resolved input st = (case gate_read bid resolved input st of
     Some err \<Rightarrow> (Some err, st) | None \<Rightarrow> gate_write now bid st)"

definition dispatch_failed :: "time \<Rightarrow> string \<Rightarrow> wake_ledger \<Rightarrow> wake_ledger" where
  "dispatch_failed now bid st = snd (batch_cas bid (\<lambda>b. wb_state b = Dispatching \<and> wb_run b = None)
     (\<lambda>b. b\<lparr>wb_state := Reserved, wb_updated := now\<rparr>) st)"

definition report_read :: "string \<Rightarrow> string \<Rightarrow> string \<Rightarrow> string option \<Rightarrow> wake_ledger \<Rightarrow> wake_answer option" where
  "report_read bid resolved state run st = (case get_by wb_id bid (wl_batches st) of
     None \<Rightarrow> Some (WakeError ''batch_not_found'')
   | Some b \<Rightarrow>
       if wb_session b \<noteq> resolved then Some (WakeError ''batch_not_found'')
       else if state = ''accepted'' then
         (case run of None \<Rightarrow> Some (WakeError ''run_id_required'')
          | Some r \<Rightarrow>
            if py_strip r = [] then Some (WakeError ''run_id_required'')
            else if wb_state b = RunAccepted \<and> wb_run b = Some (py_strip r) then Some (WakeOk (batch_view st bid))
            else if wb_state b \<noteq> Dispatching then Some (WakeConflict (Some (wb_state b)))
            else None)
       else if state = ''terminal'' \<or> state = ''uncertain'' then
         (if wb_state b \<notin> {Dispatching, RunAccepted} then Some (WakeConflict (Some (wb_state b))) else None)
       else Some (WakeError ''unknown_state''))"

definition report_cas :: "time \<Rightarrow> string \<Rightarrow> string \<Rightarrow> string \<Rightarrow> string option \<Rightarrow> wake_ledger \<Rightarrow> nat \<times> wake_ledger" where
  "report_cas now bid resolved state run st =
     (if state = ''accepted'' then
        batch_cas bid (\<lambda>b. wb_session b = resolved \<and> wb_state b = Dispatching)
          (\<lambda>b. b\<lparr>wb_state := RunAccepted, wb_run := map_option py_strip run, wb_updated := now\<rparr>) st
      else if state = ''terminal'' then
        batch_cas bid (\<lambda>b. wb_session b = resolved \<and> wb_state b \<in> {Dispatching, RunAccepted})
          (\<lambda>b. b\<lparr>wb_state := Terminal, wb_updated := now, wb_terminal := Some now\<rparr>) st
      else
        batch_cas bid (\<lambda>b. wb_session b = resolved \<and> wb_state b \<in> {Dispatching, RunAccepted})
          (\<lambda>b. b\<lparr>wb_state := Uncertain, wb_updated := now, wb_terminal := Some now,
                 wb_reason := Some ''uncertain-consumed''\<rparr>) st)"

definition report_write :: "time \<Rightarrow> string \<Rightarrow> string \<Rightarrow> string \<Rightarrow> string option \<Rightarrow> wake_ledger
    \<Rightarrow> wake_answer \<times> wake_ledger" where
  "report_write now bid resolved state run st = (case report_cas now bid resolved state run st of
     (n, st') \<Rightarrow> if n \<noteq> 1 then (WakeConflict (map_option wb_state (get_by wb_id bid (wl_batches st))), st)
                else (WakeOk (batch_view st' bid), st'))"

definition report :: "time \<Rightarrow> string \<Rightarrow> string \<Rightarrow> string \<Rightarrow> string option \<Rightarrow> wake_ledger
    \<Rightarrow> wake_answer \<times> wake_ledger" where
  "report now bid resolved state run st = (case report_read bid resolved state run st of
     Some a \<Rightarrow> (a, st) | None \<Rightarrow> report_write now bid resolved state run st)"

definition release_read :: "string \<Rightarrow> string \<Rightarrow> wake_ledger \<Rightarrow> wake_answer option" where
  "release_read bid resolved st = (case get_by wb_id bid (wl_batches st) of
     None \<Rightarrow> Some (WakeError ''batch_not_found'')
   | Some b \<Rightarrow> if wb_session b \<noteq> resolved then Some (WakeError ''batch_not_found'')
       else if wb_state b \<noteq> Reserved \<or> wb_run b \<noteq> None then Some (WakeConflict (Some (wb_state b)))
       else None)"

text \<open>Both writes go by the batch id alone: nothing of what was read is checked again.\<close>

definition release_write :: "time \<Rightarrow> time \<Rightarrow> string \<Rightarrow> wake_ledger \<Rightarrow> wake_ledger" where
  "release_write t1 t2 bid st = st\<lparr>wl_rows := del_where (\<lambda>c. wc_batch c = Some bid) (wl_rows st),
     wl_batches := upd_where (\<lambda>b. wb_id b = bid)
       (\<lambda>b. b\<lparr>wb_state := Released, wb_updated := t1, wb_terminal := Some t2, wb_reason := Some ''released''\<rparr>)
       (wl_batches st)\<rparr>"

definition release :: "time \<Rightarrow> time \<Rightarrow> string \<Rightarrow> string \<Rightarrow> wake_ledger \<Rightarrow> wake_answer \<times> wake_ledger" where
  "release t1 t2 bid resolved st = (case release_read bid resolved st of
     Some a \<Rightarrow> (a, st)
   | None \<Rightarrow> (let st' = release_write t1 t2 bid st in (WakeOk (batch_view st' bid), st')))"

section \<open>Histories\<close>

datatype wake_op =
    Admit wake_env time string string "string list" "string option"
  | Gate time string string "string option"
  | DispatchFailed time string
  | Report time string string string "string option"
  | Release time time string string

fun wake_step :: "wake_op \<Rightarrow> wake_ledger \<Rightarrow> wake_ledger" where
  "wake_step (Admit env now bid resolved keys owner) st = snd (admit env now bid resolved keys owner st)"
| "wake_step (Gate now bid resolved input) st = snd (gate_dispatch now bid resolved input st)"
| "wake_step (DispatchFailed now bid) st = dispatch_failed now bid st"
| "wake_step (Report now bid resolved state run) st = snd (report now bid resolved state run st)"
| "wake_step (Release t1 t2 bid resolved) st = snd (release t1 t2 bid resolved st)"

end
