(* ===== verification/Wake_Ledger.thy ===== *)
theory Wake_Ledger
  imports Auto_Wake_Store
begin

text \<open>
  What the wake ledger of \<open>Auto_Wake_Store\<close> promises: the invariant between live batches and
  consumed keys, the life cycle of a batch, the sliding-window limits, that no report is woken on
  twice, and that a release gives everything back.
\<close>

section \<open>The invariant\<close>

definition batch_shape :: "batch \<Rightarrow> bool" where
  "batch_shape b \<longleftrightarrow> distinct (wb_keys b) \<and> 1 \<le> length (wb_keys b) \<and> length (wb_keys b) \<le> BATCH_MAX
     \<and> wb_input b = CANONICAL_INPUT
     \<and> (wb_state b \<in> {Reserved, Dispatching, Released} \<longrightarrow> wb_run b = None)
     \<and> (wb_state b = RunAccepted \<longrightarrow> wb_run b \<noteq> None)"

definition row_linked :: "batch list \<Rightarrow> consumption \<Rightarrow> bool" where
  "row_linked bs c \<longleftrightarrow> (case wc_batch c of None \<Rightarrow> wc_ignored c
     | Some i \<Rightarrow> \<not> wc_ignored c \<and> wc_state c = Consumed
         \<and> (\<exists>b \<in> set bs. wb_id b = i \<and> wb_state b \<noteq> Released \<and> wc_key c \<in> set (wb_keys b)))"

definition keys_held :: "consumption list \<Rightarrow> batch \<Rightarrow> bool" where
  "keys_held rows b \<longleftrightarrow> wb_state b = Released \<or>
     (\<forall>k \<in> set (wb_keys b). \<exists>c \<in> set rows. wc_key c = k \<and> wc_batch c = Some (wb_id b))"

definition wake_wf :: "wake_ledger \<Rightarrow> bool" where
  "wake_wf st \<longleftrightarrow> distinct (map wb_id (wl_batches st)) \<and> distinct (map wc_key (wl_rows st))
     \<and> (\<forall>b \<in> set (wl_batches st). batch_shape b \<and> keys_held (wl_rows st) b)
     \<and> (\<forall>c \<in> set (wl_rows st). row_linked (wl_batches st) c)"

lemma wake_wf_empty: "wake_wf wake_empty"
  by (simp add: wake_wf_def wake_empty_def)

lemma row_live:
  assumes "wake_wf st" "c \<in> set (wl_rows st)" "wc_batch c = Some i"
  shows "\<not> wc_ignored c \<and> wc_state c = Consumed \<and>
    (\<exists>b \<in> set (wl_batches st). wb_id b = i \<and> wb_state b \<noteq> Released \<and> wc_key c \<in> set (wb_keys b))"
proof -
  have "row_linked (wl_batches st) c" using assms(1,2) by (simp add: wake_wf_def)
  then show ?thesis by (simp add: row_linked_def assms(3))
qed

text \<open>Two live batches never hold the same key.\<close>

lemma one_live_batch:
  assumes "wake_wf st" "b \<in> set (wl_batches st)" "b' \<in> set (wl_batches st)"
    and "k \<in> set (wb_keys b)" "k \<in> set (wb_keys b')" "wb_state b \<noteq> Released" "wb_state b' \<noteq> Released"
  shows "b = b'"
proof -
  have d: "distinct (map wb_id (wl_batches st))" "distinct (map wc_key (wl_rows st))"
    using assms(1) by (simp_all add: wake_wf_def)
  from assms obtain c where c: "c \<in> set (wl_rows st)" "wc_key c = k" "wc_batch c = Some (wb_id b)"
    unfolding wake_wf_def keys_held_def by blast
  from assms obtain c' where c': "c' \<in> set (wl_rows st)" "wc_key c' = k" "wc_batch c' = Some (wb_id b')"
    unfolding wake_wf_def keys_held_def by blast
  have "c = c'" using distinct_key_inj [OF d(2) c(1) c'(1)] c c' by simp
  then have "wb_id b = wb_id b'" using c c' by simp
  then show ?thesis using distinct_key_inj [OF d(1) assms(2,3)] by simp
qed

section \<open>Compare-and-set\<close>

definition same_batch :: "batch \<Rightarrow> batch \<Rightarrow> bool" where
  "same_batch b b' \<longleftrightarrow> wb_id b' = wb_id b \<and> wb_session b' = wb_session b \<and> wb_input b' = wb_input b
     \<and> wb_keys b' = wb_keys b \<and> wb_created b' = wb_created b \<and> wb_owner b' = wb_owner b"

lemma wf_upd:
  assumes wf: "wake_wf st"
    and same: "\<And>b. same_batch b (f b)"
    and live: "\<And>b. b \<in> set (wl_batches st) \<Longrightarrow> P b \<Longrightarrow> wb_state b \<noteq> Released \<and> wb_state (f b) \<noteq> Released"
    and shape: "\<And>b. b \<in> set (wl_batches st) \<Longrightarrow> P b \<Longrightarrow> batch_shape b \<Longrightarrow> batch_shape (f b)"
  shows "wake_wf (st\<lparr>wl_batches := upd_where P f (wl_batches st)\<rparr>)"
proof -
  have ids: "map wb_id (upd_where P f (wl_batches st)) = map wb_id (wl_batches st)"
    using same by (intro map_upd_where) (simp add: same_batch_def)
  have "row_linked (upd_where P f (wl_batches st)) c" if cr: "c \<in> set (wl_rows st)" for c
  proof (cases "wc_batch c")
    case None
    then show ?thesis using wf cr by (auto simp: wake_wf_def row_linked_def)
  next
    case (Some i)
    then obtain b where b: "b \<in> set (wl_batches st)" "wb_id b = i" "wb_state b \<noteq> Released"
      "wc_key c \<in> set (wb_keys b)" and c: "\<not> wc_ignored c" "wc_state c = Consumed"
      using row_live [OF wf cr Some] by blast
    define b' where "b' = (if P b then f b else b)"
    have "b' \<in> set (upd_where P f (wl_batches st))" using b(1) by (auto simp: b'_def set_upd_where)
    moreover have "wb_id b' = i" "wb_state b' \<noteq> Released" "wc_key c \<in> set (wb_keys b')"
      using b live [of b] same [of b] by (auto simp: b'_def same_batch_def)
    ultimately show ?thesis using Some c by (auto simp: row_linked_def)
  qed
  moreover have "batch_shape b' \<and> keys_held (wl_rows st) b'" if b': "b' \<in> set (upd_where P f (wl_batches st))" for b'
  proof -
    from b' obtain b where b: "b \<in> set (wl_batches st)" "b' = (if P b then f b else b)"
      by (auto simp: set_upd_where)
    then have "batch_shape b" "keys_held (wl_rows st) b" using wf by (auto simp: wake_wf_def)
    then show ?thesis
      using b shape [of b] live [of b] same [of b] by (auto simp: keys_held_def same_batch_def split: if_splits)
  qed
  ultimately show ?thesis using wf ids by (simp add: wake_wf_def)
qed

lemma batch_cas_snd: "snd (batch_cas bid P f st) = st\<lparr>wl_batches := upd_where (\<lambda>b. wb_id b = bid \<and> P b) f (wl_batches st)\<rparr>"
  by (simp add: batch_cas_def)

lemma wf_dispatch_failed: "wake_wf st \<Longrightarrow> wake_wf (dispatch_failed now bid st)"
  unfolding dispatch_failed_def batch_cas_snd
  by (rule wf_upd) (auto simp: same_batch_def batch_shape_def)

lemma gate_dispatch_snd: "snd (gate_dispatch now bid resolved input st) = st \<or>
   snd (gate_dispatch now bid resolved input st) = st\<lparr>wl_batches := upd_where
     (\<lambda>b. wb_id b = bid \<and> wb_state b = Reserved) (\<lambda>b. b\<lparr>wb_state := Dispatching, wb_updated := now\<rparr>) (wl_batches st)\<rparr>"
  by (simp add: gate_dispatch_def gate_write_def batch_cas_def split: option.split)

lemma wf_gate_dispatch: "wake_wf st \<Longrightarrow> wake_wf (snd (gate_dispatch now bid resolved input st))"
  using gate_dispatch_snd [of now bid resolved input st]
  by (elim disjE) (auto simp: same_batch_def batch_shape_def intro!: wf_upd)

text \<open>What a report that gets through writes.\<close>

lemma report_snd:
  obtains "snd (report now bid resolved state run st) = st"
  | r where "state = ''accepted''" "run = Some r" "snd (report now bid resolved state run st) = st\<lparr>wl_batches := upd_where
      (\<lambda>b. wb_id b = bid \<and> wb_session b = resolved \<and> wb_state b = Dispatching)
      (\<lambda>b. b\<lparr>wb_state := RunAccepted, wb_run := Some (py_strip r), wb_updated := now\<rparr>) (wl_batches st)\<rparr>"
  | "snd (report now bid resolved state run st) = st\<lparr>wl_batches := upd_where
      (\<lambda>b. wb_id b = bid \<and> wb_session b = resolved \<and> wb_state b \<in> {Dispatching, RunAccepted})
      (\<lambda>b. b\<lparr>wb_state := Terminal, wb_updated := now, wb_terminal := Some now\<rparr>) (wl_batches st)\<rparr>"
  | "snd (report now bid resolved state run st) = st\<lparr>wl_batches := upd_where
      (\<lambda>b. wb_id b = bid \<and> wb_session b = resolved \<and> wb_state b \<in> {Dispatching, RunAccepted})
      (\<lambda>b. b\<lparr>wb_state := Uncertain, wb_updated := now, wb_terminal := Some now,
        wb_reason := Some ''uncertain-consumed''\<rparr>) (wl_batches st)\<rparr>"
proof (cases "report_read bid resolved state run st")
  case (Some a)
  then show ?thesis using that(1) by (simp add: report_def)
next
  case None
  then have s: "snd (report now bid resolved state run st) = st
      \<or> snd (report now bid resolved state run st) = snd (report_cas now bid resolved state run st)"
    by (auto simp: report_def report_write_def split: prod.splits)
  show ?thesis
  proof (cases "state = ''accepted''")
    case True
    with None obtain r where "run = Some r" by (auto simp: report_read_def split: option.splits if_splits)
    with s True that(1,2) show ?thesis by (auto simp: report_cas_def batch_cas_snd)
  next
    case False
    with s that(1,3,4) show ?thesis
      by (cases "state = ''terminal''") (auto simp: report_cas_def batch_cas_snd)
  qed
qed

lemma wf_report: "wake_wf st \<Longrightarrow> wake_wf (snd (report now bid resolved state run st))"
  by (rule report_snd [of now bid resolved state run st])
     (auto simp: same_batch_def batch_shape_def intro!: wf_upd)

lemma release_snd:
  obtains "snd (release t1 t2 bid resolved st) = st"
  | b where "get_by wb_id bid (wl_batches st) = Some b" "wb_state b = Reserved" "wb_session b = resolved" "wb_run b = None"
      "snd (release t1 t2 bid resolved st) = release_write t1 t2 bid st"
proof (cases "release_read bid resolved st")
  case (Some a)
  then show ?thesis using that(1) by (simp add: release_def)
next
  case None
  then show ?thesis
    by (auto simp: release_def Let_def release_read_def split: option.splits if_splits intro: that(2))
qed

lemma wf_release_write:
  assumes wf: "wake_wf st" and b: "get_by wb_id bid (wl_batches st) = Some b" "wb_run b = None"
  shows "wake_wf (release_write t1 t2 bid st)"
proof -
  let ?f = "\<lambda>b. b\<lparr>wb_state := Released, wb_updated := t1, wb_terminal := Some t2, wb_reason := Some ''released''\<rparr>"
  let ?bs = "upd_where (\<lambda>b. wb_id b = bid) ?f (wl_batches st)"
  let ?rows = "del_where (\<lambda>c. wc_batch c = Some bid) (wl_rows st)"
  have only: "x = b" if "x \<in> set (wl_batches st)" "wb_id x = bid" for x
    using wf that get_by_SomeD [OF b(1)] distinct_key_inj [of wb_id "wl_batches st" x b] by (simp add: wake_wf_def)
  have ids: "map wb_id ?bs = map wb_id (wl_batches st)" by (intro map_upd_where) simp
  have "row_linked ?bs c" if c: "c \<in> set (wl_rows st)" "wc_batch c \<noteq> Some bid" for c
  proof (cases "wc_batch c")
    case None
    then show ?thesis using wf c by (auto simp: wake_wf_def row_linked_def)
  next
    case (Some i)
    then obtain x where x: "x \<in> set (wl_batches st)" "wb_id x = i" "wb_state x \<noteq> Released"
      "wc_key c \<in> set (wb_keys x)" "\<not> wc_ignored c" "wc_state c = Consumed"
      using row_live [OF wf c(1) Some] by blast
    then have "x \<in> set ?bs" using Some c(2) by (intro upd_where_miss) auto
    with x Some show ?thesis by (auto simp: row_linked_def)
  qed
  moreover have "batch_shape y \<and> keys_held ?rows y" if y: "y \<in> set ?bs" for y
  proof -
    from y obtain x where x: "x \<in> set (wl_batches st)" "y = (if wb_id x = bid then ?f x else x)"
      by (auto simp: set_upd_where)
    then have shape: "batch_shape x" and held: "keys_held (wl_rows st) x" using wf by (auto simp: wake_wf_def)
    show ?thesis
    proof (cases "wb_id x = bid")
      case True
      then have "wb_run x = None" using only x(1) b(2) by simp
      then show ?thesis using True x shape by (simp add: batch_shape_def keys_held_def)
    next
      case False
      then have "y = x" using x by simp
      moreover have "keys_held ?rows x"
        using held False unfolding keys_held_def set_del_where by fastforce
      ultimately show ?thesis using shape by simp
    qed
  qed
  ultimately show ?thesis
    using wf ids by (auto simp: wake_wf_def release_write_def set_del_where distinct_map_del_where)
qed

lemma wf_release: "wake_wf st \<Longrightarrow> wake_wf (snd (release t1 t2 bid resolved st))"
  by (rule release_snd [of t1 t2 bid resolved st]) (auto intro: wf_release_write)

section \<open>What an admission does\<close>

lemma clean_keys_distinct:
  "clean_keys seen keys = Some ks \<Longrightarrow> distinct seen \<Longrightarrow> distinct ks"
  by (induction keys arbitrary: seen) (auto simp: Let_def split: if_splits)

text \<open>The state of the scan after the keys \<open>seen\<close>.\<close>

definition scanned :: "wake_ledger \<Rightarrow> string list \<Rightarrow> admit_acc \<Rightarrow> bool" where
  "scanned st seen acc \<longleftrightarrow> (\<exists>ign. ac_ledger acc = st\<lparr>wl_rows := wl_rows st @ ign\<rparr>
       \<and> (\<forall>c \<in> set ign. wc_batch c = None \<and> wc_ignored c))
     \<and> distinct (map wc_key (wl_rows (ac_ledger acc)))
     \<and> distinct (map fst (ac_claims acc)) \<and> fst ` set (ac_claims acc) \<subseteq> set seen
     \<and> wc_key ` set (wl_rows (ac_ledger acc)) \<inter> fst ` set (ac_claims acc) = {}
     \<and> mset seen = mset (ac_ignored acc) + mset (map fst (ac_rejected acc)) + mset (map fst (ac_claims acc))"

lemma scanned_reject: "scanned st seen acc \<Longrightarrow> scanned st (seen @ [k]) (reject_key k why acc)"
  by (auto simp: scanned_def reject_key_def)

lemma scanned_old: "scanned st seen acc \<Longrightarrow> scanned st (seen @ [k]) (acc\<lparr>ac_ignored := ac_ignored acc @ [k]\<rparr>)"
  by (auto simp: scanned_def)

lemma scanned_ignore:
  assumes s: "scanned st seen acc" and k: "k \<notin> set seen" "get_by wc_key k (wl_rows (ac_ledger acc)) = None"
  shows "scanned st (seen @ [k]) (ignore_key k resolved i now acc)"
proof -
  from s obtain ign where ign: "ac_ledger acc = st\<lparr>wl_rows := wl_rows st @ ign\<rparr>"
    "\<forall>c \<in> set ign. wc_batch c = None \<and> wc_ignored c" by (auto simp: scanned_def)
  let ?r = "ignore_row k resolved i now"
  have "\<exists>ign. (ac_ledger acc)\<lparr>wl_rows := wl_rows (ac_ledger acc) @ [?r]\<rparr> = st\<lparr>wl_rows := wl_rows st @ ign\<rparr>
       \<and> (\<forall>c \<in> set ign. wc_batch c = None \<and> wc_ignored c)"
    using ign by (intro exI [of _ "ign @ [?r]"]) (auto simp: ignore_row_def)
  moreover have "k \<notin> wc_key ` set (wl_rows (ac_ledger acc))" using k(2) by (simp add: get_by_None)
  moreover have "k \<notin> fst ` set (ac_claims acc)" using s k(1) by (auto simp: scanned_def)
  moreover have "wc_key ?r = k" by (simp add: ignore_row_def)
  ultimately show ?thesis
    using s unfolding scanned_def ignore_key_def by auto
qed

lemma scanned_claim:
  assumes s: "scanned st seen acc" and k: "k \<notin> set seen" "get_by wc_key k (wl_rows (ac_ledger acc)) = None"
  shows "scanned st (seen @ [k]) (acc\<lparr>ac_claims := ac_claims acc @ [(k, i, t)]\<rparr>)"
proof -
  have "k \<notin> wc_key ` set (wl_rows (ac_ledger acc))" using k(2) by (simp add: get_by_None)
  moreover have "k \<notin> fst ` set (ac_claims acc)" using s k(1) by (auto simp: scanned_def)
  ultimately show ?thesis
    using s unfolding scanned_def by auto
qed

lemma scanned_step:
  assumes s: "scanned st seen acc" and k: "k \<notin> set seen"
  shows "scanned st (seen @ [k]) (admit_key env resolved now k acc)"
proof (cases "get_by wc_key k (wl_rows (ac_ledger acc))")
  case None
  then show ?thesis
    using scanned_reject [OF s] scanned_ignore [OF s k] scanned_claim [OF s k]
    by (simp add: admit_key_def split: option.split)
next
  case (Some c)
  then show ?thesis using scanned_reject [OF s] scanned_old [OF s] by (simp add: admit_key_def)
qed

lemma scanned_fold:
  "scanned st seen acc \<Longrightarrow> distinct (seen @ ks) \<Longrightarrow>
   scanned st (seen @ ks) (fold (admit_key env resolved now) ks acc)"
proof (induction ks arbitrary: seen acc)
  case (Cons k ks)
  from Cons.prems have "scanned st (seen @ [k]) (admit_key env resolved now k acc)"
    by (intro scanned_step) auto
  from Cons.IH [OF this] Cons.prems show ?case by simp
qed simp

text \<open>The three kinds of admission.\<close>

lemma wake_admit_cases:
  assumes wf: "wake_wf st" and a: "admit env now bid resolved keys owner st = (r, st')"
  obtains (unchanged) "st' = st" "\<And>b ac ig rj q. r \<noteq> Admitted b ac ig rj q" "\<And>ig rj q. r \<noteq> AdmitEmpty ig rj q"
  | (emptied) ks acc where "clean_keys [] keys = Some ks" "scanned st ks acc" "ac_claims acc = []"
      "st' = ac_ledger acc" "r = AdmitEmpty (ac_ignored acc) (ac_rejected acc) (quota_of st resolved now)"
  | (admitted) ks acc claims where "clean_keys [] keys = Some ks" "scanned st ks acc"
      "claims = take BATCH_MAX (ac_claims acc)" "claims \<noteq> []" "get_by wb_id bid (wl_batches st) = None"
      "q_session_used (quota_of st resolved now) < SESSION_WAKE_LIMIT"
      "q_profile_used (quota_of st resolved now) < PROFILE_WAKE_LIMIT"
      "st' = \<lparr>wl_batches = wl_batches st @ [new_batch bid resolved (map fst claims) now owner],
         wl_rows = wl_rows (ac_ledger acc) @ map (claim_row bid resolved now) claims\<rparr>"
      "r = Admitted bid (map (\<lambda>(k, i, _). (k, i)) claims) (ac_ignored acc)
         (ac_rejected acc @ map (\<lambda>c. (fst c, BatchOverflow)) (drop BATCH_MAX (ac_claims acc)))
         (quota_of st' resolved now)"
proof (cases "\<exists>ks s. clean_keys [] keys = Some ks \<and> ks \<noteq> [] \<and> length ks \<le> ADMIT_MAX_DELIVERY_IDS
    \<and> we_session env = Some s \<and> \<not> session_refused s \<and> \<not> session_busy env now
    \<and> q_session_remaining (quota_of st resolved now) \<noteq> 0 \<and> q_profile_remaining (quota_of st resolved now) \<noteq> 0")
  case False
  then have "st' = st \<and> (\<forall>b ac ig rj q. r \<noteq> Admitted b ac ig rj q) \<and> (\<forall>ig rj q. r \<noteq> AdmitEmpty ig rj q)"
    using a by (auto simp: admit_def Let_def split: option.splits if_splits)
  then show ?thesis using unchanged by blast
next
  case True
  then obtain ks s where ks: "clean_keys [] keys = Some ks" "ks \<noteq> []" "length ks \<le> ADMIT_MAX_DELIVERY_IDS"
    "we_session env = Some s" "\<not> session_refused s" "\<not> session_busy env now"
    "q_session_remaining (quota_of st resolved now) \<noteq> 0" "q_profile_remaining (quota_of st resolved now) \<noteq> 0"
    by blast
  define acc where "acc = fold (admit_key env resolved now) ks
    \<lparr>ac_ledger = st, ac_ignored = [], ac_rejected = [], ac_claims = []\<rparr>"
  have "scanned st [] \<lparr>ac_ledger = st, ac_ignored = [], ac_rejected = [], ac_claims = []\<rparr>"
    using wf by (auto simp: scanned_def wake_wf_def intro: exI [of _ "[]"])
  from scanned_fold [OF this, of ks] have sc: "scanned st ks acc"
    using clean_keys_distinct [OF ks(1)] by (simp add: acc_def)
  then have bs: "wl_batches (ac_ledger acc) = wl_batches st" by (auto simp: scanned_def)
  define claims where "claims = take BATCH_MAX (ac_claims acc)"
  have body: "admit env now bid resolved keys owner st = (if claims = [] then (AdmitEmpty (ac_ignored acc) (ac_rejected acc
        @ map (\<lambda>c. (fst c, BatchOverflow)) (drop BATCH_MAX (ac_claims acc))) (quota_of st resolved now), ac_ledger acc)
      else if get_by wb_id bid (wl_batches st) \<noteq> None then (AdmitRaises, st)
      else let st2 = \<lparr>wl_batches = wl_batches st @ [new_batch bid resolved (map fst claims) now owner],
          wl_rows = wl_rows (ac_ledger acc) @ map (claim_row bid resolved now) claims\<rparr>
        in (Admitted bid (map (\<lambda>(k, i, _). (k, i)) claims) (ac_ignored acc)
          (ac_rejected acc @ map (\<lambda>c. (fst c, BatchOverflow)) (drop BATCH_MAX (ac_claims acc)))
          (quota_of st2 resolved now), st2))"
    using leD [OF ks(3)] unfolding admit_def
    by (simp add: ks Let_def acc_def [symmetric] claims_def [symmetric] bs del: take_eq_Nil take_eq_Nil2)
  note body = trans [OF a [symmetric] body]
  have q: "q_session_used (quota_of st resolved now) < SESSION_WAKE_LIMIT"
    "q_profile_used (quota_of st resolved now) < PROFILE_WAKE_LIMIT"
    using ks(7,8) by (simp_all add: quota_of_def Let_def)
  show ?thesis
  proof (cases "claims = []")
    case True
    then have "ac_claims acc = []" by (simp add: claims_def BATCH_MAX_def)
    with True body show ?thesis by (intro emptied [OF ks(1) sc]) auto
  next
    case False
    show ?thesis
    proof (cases "get_by wb_id bid (wl_batches st)")
      case None
      with False body show ?thesis
        by (intro admitted [OF ks(1) sc claims_def False None q]) (simp_all add: Let_def)
    next
      case (Some b)
      with False body show ?thesis by (intro unchanged) auto
    qed
  qed
qed

lemma keys_held_mono: "keys_held rows b \<Longrightarrow> set rows \<subseteq> set rows' \<Longrightarrow> keys_held rows' b"
  unfolding keys_held_def by blast

lemma wf_scanned:
  assumes wf: "wake_wf st" and sc: "scanned st ks acc"
  shows "wake_wf (ac_ledger acc) \<and> wl_batches (ac_ledger acc) = wl_batches st"
proof -
  from sc obtain ign where ign: "ac_ledger acc = st\<lparr>wl_rows := wl_rows st @ ign\<rparr>"
    "\<forall>c \<in> set ign. wc_batch c = None \<and> wc_ignored c" by (auto simp: scanned_def)
  have "distinct (map wc_key (wl_rows (ac_ledger acc)))" using sc by (simp add: scanned_def)
  moreover have "row_linked (wl_batches st) c" if "c \<in> set (wl_rows st @ ign)" for c
    using that wf ign(2) by (auto simp: wake_wf_def row_linked_def split: option.split)
  moreover have "keys_held (wl_rows st @ ign) b" if "b \<in> set (wl_batches st)" for b
    using wf that keys_held_mono [of "wl_rows st" b "wl_rows st @ ign"] by (simp add: wake_wf_def)
  ultimately show ?thesis using wf by (auto simp: wake_wf_def ign(1))
qed

lemma claim_row_simps [simp]:
  "wc_key (claim_row bid ses t c) = fst c" "wc_batch (claim_row bid ses t c) = Some bid"
  "\<not> wc_ignored (claim_row bid ses t c)" "wc_state (claim_row bid ses t c) = Consumed"
  by (auto simp: claim_row_def split: prod.splits)

lemma new_batch_simps [simp]:
  "wb_id (new_batch bid ses ks t ow) = bid" "wb_session (new_batch bid ses ks t ow) = ses"
  "wb_state (new_batch bid ses ks t ow) = Reserved" "set (wb_keys (new_batch bid ses ks t ow)) = set ks"
  "wb_created (new_batch bid ses ks t ow) = t"
  by (simp_all add: new_batch_def)

lemma wf_admit_new:
  assumes wf: "wake_wf st" and sc: "scanned st ks acc" and cl: "claims = take BATCH_MAX (ac_claims acc)"
    and ne: "claims \<noteq> []" and free: "get_by wb_id bid (wl_batches st) = None"
  shows "wake_wf \<lparr>wl_batches = wl_batches st @ [new_batch bid ses (map fst claims) t ow],
    wl_rows = wl_rows (ac_ledger acc) @ map (claim_row bid ses t) claims\<rparr>"
proof -
  let ?L = "ac_ledger acc" and ?b = "new_batch bid ses (map fst claims) t ow"
  have wl: "wake_wf ?L" and bs: "wl_batches ?L = wl_batches st" using wf_scanned [OF wf sc] by auto
  have sub: "set claims \<subseteq> set (ac_claims acc)" using cl set_take_subset by metis
  have dc: "distinct (map fst claims)"
    using sc by (simp add: scanned_def cl flip: take_map)
  have shape: "batch_shape ?b"
    using dc ne cl by (auto simp: batch_shape_def new_batch_def BATCH_MAX_def Suc_le_eq)
  have "distinct (map wb_id (wl_batches st @ [?b]))"
    using wf free by (auto simp: wake_wf_def get_by_None)
  moreover have "distinct (map wc_key (wl_rows ?L @ map (claim_row bid ses t) claims))"
  proof -
    have "fst ` set claims \<subseteq> fst ` set (ac_claims acc)" using sub by (rule image_mono)
    moreover have "wc_key ` set (wl_rows ?L) \<inter> fst ` set (ac_claims acc) = {}" using sc by (simp add: scanned_def)
    ultimately have "wc_key ` set (wl_rows ?L) \<inter> fst ` set claims = {}" by blast
    moreover have "wc_key \<circ> claim_row bid ses t = fst" by (simp add: fun_eq_iff)
    ultimately show ?thesis using sc dc by (simp add: scanned_def image_image)
  qed
  moreover have "batch_shape b \<and> keys_held (wl_rows ?L @ map (claim_row bid ses t) claims) b"
    if "b \<in> set (wl_batches st @ [?b])" for b
  proof (cases "b = ?b")
    case True
    have "\<exists>c \<in> set (wl_rows ?L @ map (claim_row bid ses t) claims). wc_key c = k \<and> wc_batch c = Some bid"
      if "k \<in> fst ` set claims" for k
    proof -
      from that obtain x where "x \<in> set claims" "k = fst x" by auto
      then show ?thesis by (intro bexI [of _ "claim_row bid ses t x"]) auto
    qed
    then have "keys_held (wl_rows ?L @ map (claim_row bid ses t) claims) ?b"
      unfolding keys_held_def new_batch_simps set_map by blast
    then show ?thesis using True shape by simp
  next
    case False
    then have "batch_shape b \<and> keys_held (wl_rows ?L) b" using that wl bs by (auto simp: wake_wf_def)
    then show ?thesis using keys_held_mono [of "wl_rows ?L" b] by auto
  qed
  moreover have "row_linked (wl_batches st @ [?b]) c"
    if c: "c \<in> set (wl_rows ?L @ map (claim_row bid ses t) claims)" for c
  proof (cases "c \<in> set (wl_rows ?L)")
    case True
    then have "row_linked (wl_batches st) c" using wl bs by (simp add: wake_wf_def)
    then show ?thesis by (auto simp: row_linked_def split: option.splits)
  next
    case False
    with c obtain x where x: "x \<in> set claims" "c = claim_row bid ses t x" by auto
    then show ?thesis by (auto simp: row_linked_def)
  qed
  ultimately show ?thesis by (simp add: wake_wf_def)
qed

lemma wf_wake_admit:
  assumes "wake_wf st" shows "wake_wf (snd (admit env now bid resolved keys owner st))"
proof -
  obtain r st' where a: "admit env now bid resolved keys owner st = (r, st')" by fastforce
  show ?thesis
  proof (rule wake_admit_cases [OF assms a])
    assume "st' = st" then show ?thesis using a assms by simp
  next
    fix ks acc assume "scanned st ks acc" "st' = ac_ledger acc"
    then show ?thesis using a wf_scanned [OF assms] by simp
  next
    fix ks acc claims
    assume "scanned st ks acc" "claims = take BATCH_MAX (ac_claims acc)" "claims \<noteq> []"
      "get_by wb_id bid (wl_batches st) = None"
      "st' = \<lparr>wl_batches = wl_batches st @ [new_batch bid resolved (map fst claims) now owner],
         wl_rows = wl_rows (ac_ledger acc) @ map (claim_row bid resolved now) claims\<rparr>"
    then show ?thesis using a wf_admit_new [OF assms] by simp
  qed
qed

lemma wf_step: "wake_wf st \<Longrightarrow> wake_wf (wake_step op st)"
  by (cases op) (auto intro: wf_wake_admit wf_gate_dispatch wf_dispatch_failed wf_report wf_release)

section \<open>The life of a batch\<close>

inductive wake_move :: "wake_state \<Rightarrow> wake_state \<Rightarrow> bool" where
  dispatch: "wake_move Reserved Dispatching"
| revert: "wake_move Dispatching Reserved"
| start: "wake_move Dispatching RunAccepted"
| finish: "s = Dispatching \<or> s = RunAccepted \<Longrightarrow> wake_move s Terminal"
| doubt: "s = Dispatching \<or> s = RunAccepted \<Longrightarrow> wake_move s Uncertain"
| give_back: "wake_move Reserved Released"

code_pred wake_move .

inductive_simps wake_move_simps: "wake_move x y"

definition wake_next :: "batch \<Rightarrow> batch \<Rightarrow> bool" where
  "wake_next b b' \<longleftrightarrow> same_batch b b' \<and> (b' = b \<or> wake_move (wb_state b) (wb_state b'))"

lemma upd_next:
  assumes "b' \<in> set (upd_where P f bs)" "\<And>b. b \<in> set bs \<Longrightarrow> P b \<Longrightarrow> same_batch b (f b) \<and> wake_move (wb_state b) (wb_state (f b))"
  shows "\<exists>b \<in> set bs. wake_next b b'"
proof -
  from assms(1) obtain b where "b \<in> set bs" "b' = (if P b then f b else b)" by (auto simp: set_upd_where)
  then show ?thesis using assms(2) [of b]
    by (intro bexI [of _ b]) (auto simp: wake_next_def same_batch_def split: if_splits)
qed

lemma refl_next: "b \<in> set bs \<Longrightarrow> \<exists>x \<in> set bs. wake_next x b"
  by (intro bexI [of _ b]) (simp_all add: wake_next_def same_batch_def)

text \<open>Every row of the next ledger is a new reservation or comes from a row by at most one move.\<close>

lemma wake_step_rows:
  assumes wf: "wake_wf st" and b': "b' \<in> set (wl_batches (wake_step op st))"
  shows "(\<exists>b \<in> set (wl_batches st). wake_next b b')
    \<or> (wb_id b' \<notin> wb_id ` set (wl_batches st) \<and> wb_state b' = Reserved
       \<and> (\<exists>env now bid resolved keys owner. op = Admit env now bid resolved keys owner \<and> wb_created b' = now))"
proof (cases op)
  case (Admit env now bid resolved keys owner)
  obtain r st' where a: "admit env now bid resolved keys owner st = (r, st')" by fastforce
  show ?thesis
  proof (rule wake_admit_cases [OF wf a])
    assume "st' = st" then show ?thesis using a b' Admit refl_next by simp
  next
    fix ks acc assume "scanned st ks acc" "st' = ac_ledger acc"
    then show ?thesis using a b' Admit wf_scanned [OF wf] refl_next by simp
  next
    fix ks acc claims
    assume "get_by wb_id bid (wl_batches st) = None"
      "st' = \<lparr>wl_batches = wl_batches st @ [new_batch bid resolved (map fst claims) now owner],
         wl_rows = wl_rows (ac_ledger acc) @ map (claim_row bid resolved now) claims\<rparr>"
    then show ?thesis using a b' Admit refl_next by (auto simp: get_by_None)
  qed
next
  case (Gate now bid resolved input)
  with b' gate_dispatch_snd [of now bid resolved input st] show ?thesis
    by (intro disjI1) (auto simp: same_batch_def wake_move_simps intro: refl_next upd_next)
next
  case (DispatchFailed now bid)
  with b' show ?thesis
    by (intro disjI1) (auto simp: dispatch_failed_def batch_cas_snd same_batch_def wake_move_simps intro!: upd_next)
next
  case (Report now bid resolved state run)
  have "\<exists>b \<in> set (wl_batches st). wake_next b b'"
    by (rule report_snd [of now bid resolved state run st], insert b', unfold Report wake_step.simps)
       (auto simp: same_batch_def wake_move_simps intro: refl_next upd_next)
  then show ?thesis ..
next
  case (Release t1 t2 bid resolved)
  show ?thesis
  proof (rule release_snd [of t1 t2 bid resolved st])
    assume "snd (release t1 t2 bid resolved st) = st"
    then show ?thesis using b' Release refl_next by simp
  next
    fix b
    assume b: "get_by wb_id bid (wl_batches st) = Some b" "wb_state b = Reserved"
      "snd (release t1 t2 bid resolved st) = release_write t1 t2 bid st"
    have "wb_state x = Reserved" if "x \<in> set (wl_batches st)" "wb_id x = bid" for x
      using wf that get_by_SomeD [OF b(1)] b(2) distinct_key_inj [of wb_id "wl_batches st" x b]
      by (auto simp: wake_wf_def)
    then show ?thesis using b' b(3) unfolding Release wake_step.simps
      by (intro disjI1) (auto simp: release_write_def same_batch_def wake_move_simps intro!: upd_next)
  qed
qed

end
