(* ===== verification/Wake_Properties.thy ===== *)
theory Wake_Properties
  imports Wake_Ledger
begin

text \<open>
  The promises of the wake ledger over its histories: life cycle, at most one run per report,
  sliding-window limits, full accounting of a request, and release as the inverse of admission;
  and what happens when a release commits after another process has dispatched the batch.
\<close>

definition wake_history :: "wake_op list \<Rightarrow> wake_ledger" where
  "wake_history ops = fold wake_step ops wake_empty"

section \<open>A worked example\<close>

text \<open>One session \<open>s\<close> with one cron report, and the request for its key.\<close>

definition demo_key :: string where "demo_key = replicate 64 (CHR ''a'')"

definition demo_session :: session where
  "demo_session = \<lparr>ses_id = ''s'', ses_source = Some ''api'', ses_hidden = False, ses_archived = False,
     ses_ended_at = None, ses_end_reason = None, ses_parent = None\<rparr>"

definition demo_report :: message where
  "demo_report = \<lparr>msg_id = 7, msg_session = ''s'', msg_role = ''user'', msg_kind = Some DISPLAY_KIND,
     msg_meta = Some (JObj [(METADATA_NS, JObj [(''schema'', JInt 1), (''job_id'', JStr ''j''),
       (''execution_id'', JStr ''e''), (''delivery_key'', JStr demo_key)])]), msg_content = ''x'', msg_time = 50\<rparr>"

definition demo_env :: wake_env where
  "demo_env = \<lparr>we_db = \<lparr>db_sessions = [demo_session], db_messages = [demo_report], db_leases = []\<rparr>,
     we_session = Some demo_session, we_lease_key = Some ''s'', we_dumps = (\<lambda>_. [])\<rparr>"

lemma demo_plain: "is_ignored_report ''x'' = False"
proof -
  have "cut_wake ''x'' = None" by (simp add: cut_wake_def ends_with_def starts_with_def CANONICAL_INPUT_def)
  moreover have "cut_footer ''x'' = None" by (simp add: cut_footer_def ends_with_def starts_with_def)
  ultimately have "drop_footer (drop_wake ''x'') = ''x''"
    by (simp add: drop_footer_def drop_wake_def py_str_defs)
  then have "normalized_report_body ''x'' = ''x''"
    by (simp add: normalized_report_body_def norm_loop.simps [of "''x''"] py_str_defs report_body_def
        drop_prefix_def CONTENT_PREFIX_def)
  then show ?thesis by (simp add: is_ignored_report_def line_break_def py_str_defs)
qed

lemma demo_admit_answer:
  "\<exists>q st. admit demo_env 100 ''wb_1'' ''s'' [demo_key] who wake_empty = (Admitted ''wb_1'' [(demo_key, 7)] [] [] q, st)
     \<and> wl_batches st = [new_batch ''wb_1'' ''s'' [demo_key] 100 who]"
proof -
  have k: "py_lower (py_strip demo_key) = demo_key" "length demo_key = 64" "list_all hex_digit demo_key"
    by (simp_all add: demo_key_def py_strip_def py_lstrip_def py_rstrip_def py_lower_def py_space_def lower_char_def
        map_replicate list_all_iff hex_digit_def dropWhile_replicate)
  then have clean: "clean_keys [] [demo_key] = Some [demo_key]" by (simp add: Let_def)
  have f: "find_report demo_env ''s'' demo_key = Some demo_report"
    by (simp add: find_report_def demo_env_def demo_report_def cron_field_def lineage_self METADATA_NS_def table_simps)
  have key: "admit_key demo_env ''s'' 100 demo_key \<lparr>ac_ledger = wake_empty, ac_ignored = [], ac_rejected = [], ac_claims = []\<rparr>
     = \<lparr>ac_ledger = wake_empty, ac_ignored = [], ac_rejected = [], ac_claims = [(demo_key, 7, 50)]\<rparr>"
    unfolding admit_key_def
    by (simp add: f wake_empty_def table_simps causal_suspect_def same_source_recent_def)
       (simp add: demo_report_def demo_env_def cron_field_def METADATA_NS_def demo_plain)
  have "admit demo_env 100 ''wb_1'' ''s'' [demo_key] who wake_empty
    = (Admitted ''wb_1'' [(demo_key, 7)] [] []
        (quota_of \<lparr>wl_batches = [new_batch ''wb_1'' ''s'' [demo_key] 100 who],
          wl_rows = [claim_row ''wb_1'' ''s'' 100 (demo_key, 7, 50)]\<rparr> ''s'' 100),
       \<lparr>wl_batches = [new_batch ''wb_1'' ''s'' [demo_key] 100 who],
          wl_rows = [claim_row ''wb_1'' ''s'' 100 (demo_key, 7, 50)]\<rparr>)"
    unfolding admit_def clean option.case
    by (simp add: key ADMIT_MAX_DELIVERY_IDS_def demo_env_def demo_session_def session_refused_def session_busy_def
        quota_of_def SESSION_WAKE_LIMIT_def PROFILE_WAKE_LIMIT_def BATCH_MAX_def Let_def wake_empty_def table_simps
        key [unfolded demo_env_def demo_session_def wake_empty_def])
  then show ?thesis by simp
qed

lemma step_keeps_ids:
  assumes "wake_wf st"
  shows "wb_id ` set (wl_batches st) \<subseteq> wb_id ` set (wl_batches (wake_step op st))"
proof -
  have upd: "wb_id ` set (upd_where P f bs) = wb_id ` set bs" if "\<And>b. wb_id (f b) = wb_id b"
    for P and f :: "batch \<Rightarrow> batch" and bs
    unfolding set_upd_where image_image by (rule image_cong) (auto simp: that)
  show ?thesis
  proof (cases op)
    case (Admit env now bid resolved keys owner)
    obtain r st' where a: "admit env now bid resolved keys owner st = (r, st')" by fastforce
    have "wl_batches st' = wl_batches st \<or> (\<exists>b. wl_batches st' = wl_batches st @ [b])"
      by (rule wake_admit_cases [OF assms a]) (auto dest: wf_scanned [OF assms])
    then show ?thesis using a Admit by auto
  next
    case (Gate now bid resolved input)
    with gate_dispatch_snd [of now bid resolved input st] show ?thesis by (auto simp: upd)
  next
    case (DispatchFailed now bid)
    then show ?thesis by (simp add: dispatch_failed_def batch_cas_snd upd)
  next
    case (Report now bid resolved state run)
    show ?thesis unfolding Report wake_step.simps
      by (rule report_snd [of now bid resolved state run st]) (auto simp: upd)
  next
    case (Release t1 t2 bid resolved)
    show ?thesis unfolding Release wake_step.simps
      by (rule release_snd [of t1 t2 bid resolved st]) (auto simp: upd release_write_def)
  qed
qed

lemma step_next:
  assumes wf: "wake_wf st" and b: "b \<in> set (wl_batches st)"
  shows "\<exists>b' \<in> set (wl_batches (wake_step op st)). wake_next b b'"
proof -
  from b step_keeps_ids [OF wf] obtain b' where b': "b' \<in> set (wl_batches (wake_step op st))" "wb_id b' = wb_id b"
    by (metis (mono_tags, opaque_lifting) image_iff subset_iff)
  with wake_step_rows [OF wf b'(1)] b obtain x where x: "x \<in> set (wl_batches st)" "wake_next x b'"
    by (metis image_eqI)
  then have "wb_id x = wb_id b" using b' by (simp add: wake_next_def same_batch_def)
  then have "x = b" using wf x b distinct_key_inj [of wb_id "wl_batches st"] by (simp add: wake_wf_def)
  then show ?thesis using b' x by blast
qed

lemma step_next_same:
  assumes wf: "wake_wf st" and b: "b \<in> set (wl_batches st)"
    and b': "b' \<in> set (wl_batches (wake_step op st))" "wb_id b' = wb_id b"
  shows "wake_next b b'"
proof -
  from wake_step_rows [OF wf b'(1)] b b'(2) obtain x where x: "x \<in> set (wl_batches st)" "wake_next x b'"
    by (metis image_eqI)
  then have "wb_id x = wb_id b" using b' by (simp add: wake_next_def same_batch_def)
  then have "x = b" using wf x b distinct_key_inj [of wb_id "wl_batches st"] by (simp add: wake_wf_def)
  then show ?thesis using x by simp
qed

section \<open>One run per report\<close>

abbreviation spent :: "wake_state \<Rightarrow> bool" where
  "spent s \<equiv> s \<in> {RunAccepted, Terminal, Uncertain}"

text \<open>A run was started, or may have been, for the report \<open>k\<close>.\<close>

definition settled :: "string \<Rightarrow> wake_ledger \<Rightarrow> bool" where
  "settled k st \<longleftrightarrow> (\<exists>b \<in> set (wl_batches st). k \<in> set (wb_keys b) \<and> spent (wb_state b))"

definition run_accepted :: "string \<Rightarrow> wake_op \<Rightarrow> wake_ledger \<Rightarrow> bool" where
  "run_accepted k op st \<longleftrightarrow> (\<exists>b \<in> set (wl_batches st). \<exists>b' \<in> set (wl_batches (wake_step op st)).
     wb_id b' = wb_id b \<and> k \<in> set (wb_keys b) \<and> wb_state b = Dispatching \<and> wb_state b' = RunAccepted)"

text \<open>The gate lets a chat stream for a batch with \<open>k\<close> through.\<close>

definition gate_opens :: "string \<Rightarrow> wake_op \<Rightarrow> wake_ledger \<Rightarrow> bool" where
  "gate_opens k op st = (case op of
     Gate now bid resolved input \<Rightarrow> fst (gate_dispatch now bid resolved input st) = None
       \<and> list_ex (\<lambda>b. wb_id b = bid \<and> k \<in> set (wb_keys b)) (wl_batches st)
   | _ \<Rightarrow> False)"

lemma spent_moves: "spent s \<Longrightarrow> wake_move s s' \<Longrightarrow> spent s'"
  by (auto simp: wake_move_simps)

lemma settled_step:
  assumes "wake_wf st" "settled k st" shows "settled k (wake_step op st)"
proof -
  from assms(2) obtain b where b: "b \<in> set (wl_batches st)" "k \<in> set (wb_keys b)" "spent (wb_state b)"
    by (auto simp: settled_def)
  from step_next [OF assms(1) b(1)] obtain b' where b': "b' \<in> set (wl_batches (wake_step op st))" "wake_next b b'"
    by blast
  then have "k \<in> set (wb_keys b')" "spent (wb_state b')"
    using b spent_moves [of "wb_state b" "wb_state b'"] by (auto simp: wake_next_def same_batch_def)
  with b' show ?thesis unfolding settled_def by blast
qed

lemma gate_reserved:
  assumes "wake_wf st" "fst (gate_dispatch now bid resolved input st) = None" "b \<in> set (wl_batches st)" "wb_id b = bid"
  shows "wb_state b = Reserved"
proof -
  have "gate_read bid resolved input st = None"
    using assms(2) by (auto simp: gate_dispatch_def split: option.splits)
  moreover have "get_by wb_id bid (wl_batches st) = Some b"
    using assms by (auto simp: wake_wf_def intro: get_by_eq)
  ultimately show ?thesis by (simp add: gate_read_def split: if_splits wake_state.splits)
qed

lemma settled_blocks:
  assumes "wake_wf st" "settled k st" "b \<in> set (wl_batches st)" "k \<in> set (wb_keys b)" "wb_state b \<in> {Reserved, Dispatching}"
  shows False
proof -
  from assms(2) obtain x where x: "x \<in> set (wl_batches st)" "k \<in> set (wb_keys x)" "spent (wb_state x)"
    by (auto simp: settled_def)
  have "b = x" by (rule one_live_batch [OF assms(1,3) x(1) assms(4) x(2)]) (use assms(5) x(3) in auto)
  with assms(5) x(3) show False by auto
qed

interpretation wr: claim_once wake_step wake_wf settled run_accepted
proof
  fix st op k
  show "wake_wf st \<Longrightarrow> wake_wf (wake_step op st)" by (rule wf_step)
  show "wake_wf st \<Longrightarrow> settled k st \<Longrightarrow> settled k (wake_step op st)" by (rule settled_step)
  show "wake_wf st \<Longrightarrow> run_accepted k op st \<Longrightarrow> \<not> settled k st"
    using settled_blocks unfolding run_accepted_def by blast
  show "settled k (wake_step op st)" if wf: "wake_wf st" and w: "run_accepted k op st"
  proof -
    from w obtain b b' where b: "b \<in> set (wl_batches st)" "b' \<in> set (wl_batches (wake_step op st))"
      "wb_id b' = wb_id b" "k \<in> set (wb_keys b)" "wb_state b' = RunAccepted" by (auto simp: run_accepted_def)
    then have "wb_keys b' = wb_keys b"
      using step_next_same [OF wf b(1,2,3)] by (simp add: wake_next_def same_batch_def)
    with b show ?thesis unfolding settled_def by (intro bexI [of _ b']) auto
  qed
qed

interpretation wg: sealing_gate wake_step wake_wf settled gate_opens
proof
  fix st op k
  show "\<not> settled k st" if wf: "wake_wf st" and g: "gate_opens k op st"
  proof
    assume "settled k st"
    from g obtain now bid resolved input b where "fst (gate_dispatch now bid resolved input st) = None"
      "b \<in> set (wl_batches st)" "wb_id b = bid" "k \<in> set (wb_keys b)"
      by (auto simp: gate_opens_def list_ex_iff split: wake_op.splits)
    with gate_reserved [OF wf] settled_blocks [OF wf \<open>settled k st\<close>] show False by blast
  qed
qed




section \<open>The limits\<close>

definition in_window :: "time \<Rightarrow> (string \<Rightarrow> bool) \<Rightarrow> wake_ledger \<Rightarrow> nat" where
  "in_window t S st = count_where (\<lambda>b. (spends (t - QUOTA_WINDOW_SECONDS) b \<and> wb_created b \<le> t) \<and> S (wb_session b))
     (wl_batches st)"

lemma count_where_mono: "(\<And>b. P b \<Longrightarrow> Q b) \<Longrightarrow> count_where P t \<le> count_where Q t"
  by (induction t) (auto simp: table_simps)

lemma in_window_upd:
  assumes "\<And>b. same_batch b (f b)" "\<And>b. P b \<Longrightarrow> wb_state (f b) \<noteq> Released \<Longrightarrow> wb_state b \<noteq> Released"
  shows "in_window t S (st\<lparr>wl_batches := upd_where P f (wl_batches st)\<rparr>) \<le> in_window t S st"
  using assms unfolding in_window_def
  by (simp, intro count_where_upd_mono) (auto simp: same_batch_def)

lemma in_window_step:
  assumes wf: "wake_wf st" and notadmit: "\<And>env now bid resolved keys owner. op \<noteq> Admit env now bid resolved keys owner"
  shows "in_window t S (wake_step op st) \<le> in_window t S st"
proof (cases op)
  case (Gate now bid resolved input)
  with gate_dispatch_snd [of now bid resolved input st] show ?thesis
    by (elim disjE) (auto simp: same_batch_def intro!: in_window_upd)
next
  case (DispatchFailed now bid)
  then show ?thesis by (auto simp: dispatch_failed_def batch_cas_snd same_batch_def intro!: in_window_upd)
next
  case (Report now bid resolved state run)
  show ?thesis unfolding Report wake_step.simps
    by (rule report_snd [of now bid resolved state run st]) (auto simp: same_batch_def intro!: in_window_upd)
next
  case (Release t1 t2 bid resolved)
  have "in_window t S (release_write t1 t2 bid st) \<le> in_window t S st"
    using in_window_upd [of "\<lambda>b. b\<lparr>wb_state := Released, wb_updated := t1, wb_terminal := Some t2,
        wb_reason := Some ''released''\<rparr>" "\<lambda>b. wb_id b = bid" t S st]
    by (simp add: same_batch_def release_write_def in_window_def)
  then show ?thesis unfolding Release wake_step.simps
    using release_snd [of t1 t2 bid resolved st] by (metis order_refl)
qed (use notadmit in auto)

lemma in_window_bound:
  assumes used: "\<And>env now bid ses keys owner st. wake_wf st \<Longrightarrow>
      q_session_used (quota_of st ses now) < SESSION_WAKE_LIMIT \<Longrightarrow>
      q_profile_used (quota_of st ses now) < PROFILE_WAKE_LIMIT \<Longrightarrow> S ses \<Longrightarrow>
      count_where (\<lambda>b. spends (now - QUOTA_WINDOW_SECONDS) b \<and> S (wb_session b)) (wl_batches st) < bound"
  shows "in_window t S (wake_history ops) \<le> bound"
proof (induction ops rule: rev_induct)
  case Nil
  then show ?case by (simp add: wake_history_def wake_empty_def in_window_def table_simps)
next
  case (snoc op ops)
  let ?st = "wake_history ops"
  have wf: "wake_wf ?st" unfolding wake_history_def by (rule wr.run_inv [OF wake_wf_empty])
  have h: "wake_history (ops @ [op]) = wake_step op ?st" by (simp add: wake_history_def)
  show ?case
  proof (cases op)
    case (Admit env now bid resolved keys owner)
    obtain r st' where a: "admit env now bid resolved keys owner ?st = (r, st')" by fastforce
    show ?thesis
    proof (rule wake_admit_cases [OF wf a])
      assume "st' = ?st" then show ?thesis using a h Admit snoc by simp
    next
      fix ks acc assume "scanned ?st ks acc" "st' = ac_ledger acc"
      then show ?thesis using a h Admit snoc wf_scanned [OF wf] by (simp add: in_window_def)
    next
      fix ks acc claims
      assume q: "q_session_used (quota_of ?st resolved now) < SESSION_WAKE_LIMIT"
          "q_profile_used (quota_of ?st resolved now) < PROFILE_WAKE_LIMIT"
        and st': "st' = \<lparr>wl_batches = wl_batches ?st @ [new_batch bid resolved (map fst claims) now owner],
           wl_rows = wl_rows (ac_ledger acc) @ map (claim_row bid resolved now) claims\<rparr>"
      have step: "in_window t S (wake_step op ?st) = in_window t S ?st
          + (if t - QUOTA_WINDOW_SECONDS < now \<and> now \<le> t \<and> S resolved then 1 else 0)"
        using a by (simp add: Admit st' in_window_def table_simps)
      show ?thesis
      proof (cases "t - QUOTA_WINDOW_SECONDS < now \<and> now \<le> t \<and> S resolved")
        case False
        then show ?thesis using step [unfolded if_not_P [OF False]] snoc h by simp
      next
        case True
        have "in_window t S ?st \<le> count_where (\<lambda>b. spends (now - QUOTA_WINDOW_SECONDS) b \<and> S (wb_session b)) (wl_batches ?st)"
          unfolding in_window_def using True by (intro count_where_mono) auto
        also have "\<dots> < bound" using used [OF wf q] True by simp
        finally show ?thesis using step True h by simp
      qed
    qed
  qed (use in_window_step [OF wf, of op t S] snoc h in auto)
qed

text \<open>
  C12. The wake limits hold in every sliding hour: whatever the history and its clock readings, the
  batches of one session that were created in an hour and not released number at most six, and
  those of the whole profile at most twelve.
\<close>

theorem wake_rate_limited:
  "count_where (\<lambda>b. wb_session b = session \<and> wb_state b \<noteq> Released \<and> t - 3600 < wb_created b \<and> wb_created b \<le> t)
     (wl_batches (wake_history ops)) \<le> 6
   \<and> count_where (\<lambda>b. wb_state b \<noteq> Released \<and> t - 3600 < wb_created b \<and> wb_created b \<le> t)
     (wl_batches (wake_history ops)) \<le> 12"
proof -
  have "in_window t (\<lambda>s. s = session) (wake_history ops) \<le> SESSION_WAKE_LIMIT"
    by (rule in_window_bound) (simp add: quota_of_def Let_def)
  moreover have "in_window t (\<lambda>s. True) (wake_history ops) \<le> PROFILE_WAKE_LIMIT"
    by (rule in_window_bound) (simp add: quota_of_def Let_def)
  moreover have "count_where (\<lambda>b. wb_session b = session \<and> wb_state b \<noteq> Released \<and> t - 3600 < wb_created b \<and> wb_created b \<le> t)
     (wl_batches (wake_history ops)) \<le> in_window t (\<lambda>s. s = session) (wake_history ops)"
    "count_where (\<lambda>b. wb_state b \<noteq> Released \<and> t - 3600 < wb_created b \<and> wb_created b \<le> t)
     (wl_batches (wake_history ops)) \<le> in_window t (\<lambda>s. True) (wake_history ops)"
    unfolding in_window_def by (rule count_where_mono; simp add: QUOTA_WINDOW_SECONDS_def)+
  ultimately show ?thesis by (simp add: SESSION_WAKE_LIMIT_def PROFILE_WAKE_LIMIT_def)
qed

section \<open>Requests and releases\<close>

lemma mset_split: "mset (map f (take n xs)) + mset (map f (drop n xs)) = mset (map f xs)"
  by (metis append_take_drop_id map_append mset_append)

text \<open>
  An admission answers for every key: the usable keys of the request are, counted exactly, the
  accepted, the ignored and the rejected ones; at most ten are accepted; and afterwards the ledger
  shows each accepted key consumed by the new batch, which is reserved and holds just these keys.
\<close>

theorem wake_admit_accounts_every_key:
  assumes "admit env now bid resolved keys owner (wake_history ops) = (Admitted b ac ig rj q, st')"
  shows "(\<exists>ks. clean_keys [] keys = Some ks \<and> mset ks = mset (map fst ac) + mset ig + mset (map fst rj))
    \<and> b = bid \<and> length ac \<le> 10
    \<and> list_all (\<lambda>k. ledger_state_for k st' = Some (Consumed, Some bid)) (map fst ac)
    \<and> map_option (\<lambda>x. (wb_state x, set (wb_keys x))) (get_by wb_id bid (wl_batches st'))
        = Some (Reserved, fst ` set ac)"
proof -
  let ?st = "wake_history ops"
  have wf: "wake_wf ?st" unfolding wake_history_def by (rule wr.run_inv [OF wake_wf_empty])
  show ?thesis
  proof (rule wake_admit_cases [OF wf assms])
    fix ks acc claims
    assume ks: "clean_keys [] keys = Some ks" and sc: "scanned ?st ks acc"
      and cl: "claims = take BATCH_MAX (ac_claims acc)" and ne: "claims \<noteq> []"
      and free: "get_by wb_id bid (wl_batches ?st) = None"
      and st': "st' = \<lparr>wl_batches = wl_batches ?st @ [new_batch bid resolved (map fst claims) now owner],
         wl_rows = wl_rows (ac_ledger acc) @ map (claim_row bid resolved now) claims\<rparr>"
      and r: "Admitted b ac ig rj q = Admitted bid (map (\<lambda>(k, i, _). (k, i)) claims) (ac_ignored acc)
         (ac_rejected acc @ map (\<lambda>c. (fst c, BatchOverflow)) (drop BATCH_MAX (ac_claims acc)))
         (quota_of st' resolved now)"
    have ac: "map fst ac = map fst claims" using r by (auto simp: case_prod_beta)
    have rj: "map fst rj = map fst (ac_rejected acc) @ map fst (drop BATCH_MAX (ac_claims acc))"
      using r by auto
    have "mset ks = mset (ac_ignored acc) + mset (map fst (ac_rejected acc)) + mset (map fst (ac_claims acc))"
      using sc by (simp add: scanned_def)
    moreover have "mset (map fst (ac_claims acc)) = mset (map fst claims) + mset (map fst (drop BATCH_MAX (ac_claims acc)))"
      unfolding cl by (rule mset_split [symmetric])
    ultimately have m: "mset ks = mset (map fst ac) + mset ig + mset (map fst rj)"
      using r unfolding ac rj mset_append by (simp add: union_ac)
    have wf': "wake_wf st'" unfolding st' by (rule wf_admit_new [OF wf sc cl ne free])
    have "ledger_state_for k st' = Some (Consumed, Some bid)" if "k \<in> set (map fst ac)" for k
    proof -
      from that obtain c where c: "c \<in> set claims" "k = fst c" unfolding ac by auto
      have "get_by wc_key (wc_key (claim_row bid resolved now c)) (wl_rows st') = Some (claim_row bid resolved now c)"
        using wf' c(1) by (intro get_by_eq) (auto simp: wake_wf_def st')
      then show ?thesis using c(2) by (simp add: ledger_state_for_def)
    qed
    moreover have "get_by wb_id bid (wl_batches st') = Some (new_batch bid resolved (map fst claims) now owner)"
      using free by (simp add: st' table_simps)
    moreover have "fst ` set ac = fst ` set claims" using arg_cong [OF ac, of set] by simp
    moreover have "length ac \<le> 10" using r by (auto simp: cl BATCH_MAX_def)
    moreover have "b = bid" using r by simp
    ultimately show ?thesis using ks m by (auto simp: list_all_iff)
  qed blast+
qed

theorem wake_admit_accounts_every_key_witness:
  "\<exists>q st ks. admit demo_env 100 ''wb_1'' ''s'' [demo_key] None wake_empty = (Admitted ''wb_1'' [(demo_key, 7)] [] [] q, st)
    \<and> clean_keys [] [demo_key] = Some ks \<and> mset ks = {#demo_key#}
    \<and> ledger_state_for demo_key st = Some (Consumed, Some ''wb_1'')"
proof -
  obtain q st where a: "admit demo_env 100 ''wb_1'' ''s'' [demo_key] None wake_empty
      = (Admitted ''wb_1'' [(demo_key, 7)] [] [] q, st)"
    using demo_admit_answer [of None] by blast
  then have "admit demo_env 100 ''wb_1'' ''s'' [demo_key] None (wake_history [])
      = (Admitted ''wb_1'' [(demo_key, 7)] [] [] q, st)" by (simp add: wake_history_def)
  from wake_admit_accounts_every_key [OF this] a show ?thesis by auto
qed

lemma admit_then_release:
  assumes wf: "wake_wf st" and a: "admit env now bid resolved keys owner st = (Admitted b ac ig rj q, st1)"
    and rel: "release t1 t2 bid resolved st1 = (ans, st2)"
  shows "\<exists>acc x. scanned st x acc \<and> wl_rows st2 = wl_rows (ac_ledger acc) \<and> set (map fst ac) \<subseteq> fst ` set (ac_claims acc)
    \<and> (\<exists>z. wb_state z = Released \<and> wl_batches st2 = wl_batches st @ [z])"
proof (rule wake_admit_cases [OF wf a])
  fix ks acc claims
  assume sc: "scanned st ks acc" and cl: "claims = take BATCH_MAX (ac_claims acc)"
    and free: "get_by wb_id bid (wl_batches st) = None"
    and st1: "st1 = \<lparr>wl_batches = wl_batches st @ [new_batch bid resolved (map fst claims) now owner],
         wl_rows = wl_rows (ac_ledger acc) @ map (claim_row bid resolved now) claims\<rparr>"
    and r: "Admitted b ac ig rj q = Admitted bid (map (\<lambda>(k, i, _). (k, i)) claims) (ac_ignored acc)
         (ac_rejected acc @ map (\<lambda>c. (fst c, BatchOverflow)) (drop BATCH_MAX (ac_claims acc)))
         (quota_of st1 resolved now)"
  have old: "wc_batch c \<noteq> Some bid" if "c \<in> set (wl_rows (ac_ledger acc))" for c
  proof
    assume "wc_batch c = Some bid"
    with row_live [of "ac_ledger acc" c bid] wf_scanned [OF wf sc] that free show False
      by (auto simp: get_by_None)
  qed
  have "release_read bid resolved st1 = None"
    using free by (simp add: release_read_def st1 table_simps) (simp add: new_batch_def)
  then have st2: "st2 = release_write t1 t2 bid st1" using rel by (simp add: release_def Let_def)
  have "upd_where (\<lambda>b. wb_id b = bid) f (wl_batches st) = wl_batches st" for f
    using free by (intro upd_where_id) (auto simp: get_by_None)
  moreover have "del_where (\<lambda>c. wc_batch c = Some bid) (wl_rows (ac_ledger acc)) = wl_rows (ac_ledger acc)"
    using old by (intro del_where_id) auto
  moreover have "del_where (\<lambda>c. wc_batch c = Some bid) (map (claim_row bid resolved now) cs) = []" for cs
    by (induction cs) (simp_all add: table_simps)
  ultimately have "wl_rows st2 = wl_rows (ac_ledger acc)"
    "\<exists>z. wb_state z = Released \<and> wl_batches st2 = wl_batches st @ [z]"
    by (simp_all add: st2 st1 release_write_def table_simps)
  moreover have "map fst ac = map fst claims" using r by (auto simp: case_prod_beta)
  then have "set (map fst ac) \<subseteq> fst ` set (ac_claims acc)"
    using set_take_subset [of BATCH_MAX "ac_claims acc"] by (simp add: cl image_mono)
  ultimately show ?thesis using sc by blast
qed blast+

text \<open>
  A release gives everything back: releasing a freshly admitted batch frees every accepted key
  again and restores the quota of every session at every time to what it was before the admission.
\<close>

theorem wake_release_returns_claim:
  assumes "admit env now bid resolved keys owner (wake_history ops) = (Admitted b ac ig rj q, st1)"
    and "release t1 t2 bid resolved st1 = (ans, st2)"
  shows "list_all (\<lambda>k. ledger_state_for k st2 = None) (map fst ac)
    \<and> quota_of st2 = quota_of (wake_history ops)"
proof -
  let ?st = "wake_history ops"
  have wf: "wake_wf ?st" unfolding wake_history_def by (rule wr.run_inv [OF wake_wf_empty])
  obtain acc x z where sc: "scanned ?st x acc" and rows: "wl_rows st2 = wl_rows (ac_ledger acc)"
    and ac: "set (map fst ac) \<subseteq> fst ` set (ac_claims acc)"
    and z: "wb_state z = Released" "wl_batches st2 = wl_batches ?st @ [z]"
    using admit_then_release [OF wf assms] by blast
  have "wc_key ` set (wl_rows (ac_ledger acc)) \<inter> fst ` set (ac_claims acc) = {}"
    using sc by (simp add: scanned_def)
  then have "ledger_state_for k st2 = None" if "k \<in> set (map fst ac)" for k
  proof -
    have "k \<in> fst ` set (ac_claims acc)" using that ac by blast
    then have "k \<notin> wc_key ` set (wl_rows st2)" using \<open>_ = {}\<close> rows by auto
    then have "get_by wc_key k (wl_rows st2) = None" by (simp only: get_by_None not_False_eq_True)
    then show ?thesis by (simp add: ledger_state_for_def)
  qed
  moreover have "quota_of st2 = quota_of ?st"
    by (intro ext) (simp add: quota_of_def Let_def z table_simps)
  ultimately show ?thesis by (simp add: list_all_iff)
qed

theorem wake_release_returns_claim_witness:
  "\<exists>q st1 ans st2. admit demo_env 100 ''wb_1'' ''s'' [demo_key] None wake_empty = (Admitted ''wb_1'' [(demo_key, 7)] [] [] q, st1)
    \<and> release 101 102 ''wb_1'' ''s'' st1 = (ans, st2) \<and> ledger_state_for demo_key st2 = None
    \<and> q_profile_used (quota_of st2 ''s'' 103) = 0"
proof -
  obtain q st1 where a: "admit demo_env 100 ''wb_1'' ''s'' [demo_key] None wake_empty
      = (Admitted ''wb_1'' [(demo_key, 7)] [] [] q, st1)"
    using demo_admit_answer [of None] by blast
  obtain ans st2 where r: "release 101 102 ''wb_1'' ''s'' st1 = (ans, st2)" by fastforce
  from a have "admit demo_env 100 ''wb_1'' ''s'' [demo_key] None (wake_history [])
      = (Admitted ''wb_1'' [(demo_key, 7)] [] [] q, st1)" by (simp add: wake_history_def)
  from wake_release_returns_claim [OF this r] have "ledger_state_for demo_key st2 = None"
    "quota_of st2 = quota_of wake_empty" by (simp_all add: wake_history_def)
  moreover from this(2) have "q_profile_used (quota_of st2 ''s'' 103) = 0"
    by (simp only:) (simp add: quota_of_def Let_def wake_empty_def table_simps)
  ultimately show ?thesis using a r by blast
qed

section \<open>A release that commits late\<close>

text \<open>
  \<open>release\<close> checks the batch and then deletes and updates by its id alone. When the check of one
  process and its writes have a dispatch of another between them, the writes release a batch whose
  run has started: its keys become free again although the run goes on.
\<close>

theorem late_release_frees_running_batch:
  assumes b: "get_by wb_id bid (wl_batches (wake_history ops)) = Some b" "k \<in> set (wb_keys b)"
    and checked: "release_read bid resolved (wake_history ops) = None"
    and gate: "gate_dispatch now bid resolved input (wake_history ops) = (None, st1)"
    and run: "report now' bid resolved ''accepted'' (Some r) st1 = (WakeOk v, st2)"
  shows "settled k st2 \<and> ledger_state_for k (release_write t1 t2 bid st2) = None"
proof
  let ?st = "wake_history ops"
  have wf: "wake_wf ?st" unfolding wake_history_def by (rule wr.run_inv [OF wake_wf_empty])
  have id: "wb_id b = bid" and mem: "b \<in> set (wl_batches ?st)" using get_by_SomeD [OF b(1)] by auto
  have st1: "st1 = ?st\<lparr>wl_batches := upd_where (\<lambda>b. wb_id b = bid \<and> wb_state b = Reserved)
      (\<lambda>b. b\<lparr>wb_state := Dispatching, wb_updated := now\<rparr>) (wl_batches ?st)\<rparr>"
    using gate by (auto simp: gate_dispatch_def gate_write_def batch_cas_def split: option.splits)
  have res: "wb_state b = Reserved" by (rule gate_reserved [OF wf _ mem id, of now resolved input]) (simp add: gate)
  have b1: "get_by wb_id bid (wl_batches st1) = Some (b\<lparr>wb_state := Dispatching, wb_updated := now\<rparr>)"
    using b(1) id res by (simp add: st1 get_by_upd_where)
  have "report_read bid resolved ''accepted'' (Some r) st1 = None"
    using run b1 by (auto simp: report_def report_read_def split: if_splits)
  with run have st2: "st2 = st1\<lparr>wl_batches := upd_where (\<lambda>b. wb_id b = bid \<and> wb_session b = resolved \<and> wb_state b = Dispatching)
      (\<lambda>b. b\<lparr>wb_state := RunAccepted, wb_run := Some (py_strip r), wb_updated := now'\<rparr>) (wl_batches st1)\<rparr>"
    by (auto simp: report_def report_write_def report_cas_def batch_cas_def split: if_splits)
  have ses: "wb_session b = resolved"
    using checked b(1) by (auto simp: release_read_def split: if_splits)
  have "get_by wb_id bid (wl_batches st2) = Some (b\<lparr>wb_state := RunAccepted, wb_updated := now', wb_run := Some (py_strip r)\<rparr>)"
    using b1 id ses by (simp add: st2 get_by_upd_where)
  note b2 = get_by_SomeD [OF this]
  show "settled k st2" unfolding settled_def by (rule bexI [OF _ b2 [THEN conjunct1]]) (simp add: b(2))
  have wf2: "wake_wf st2" using wf_report [OF wf_gate_dispatch [OF wf, of now bid resolved input], of now' bid resolved "''accepted''" "Some r"]
    by (simp add: gate run)
  have "\<exists>x \<in> set (wl_batches st2). wb_id x = bid \<and> k \<in> set (wb_keys x) \<and> wb_state x \<noteq> Released"
    by (intro bexI [OF _ b2 [THEN conjunct1]]) (simp add: b(2) id)
  then obtain c where c: "c \<in> set (wl_rows st2)" "wc_key c = k" "wc_batch c = Some bid"
    using wf2 unfolding wake_wf_def keys_held_def by blast
  have "c' = c" if "c' \<in> set (wl_rows st2)" "wc_key c' = k" for c'
  proof (rule distinct_key_inj [of wc_key "wl_rows st2"])
    show "distinct (map wc_key (wl_rows st2))" using wf2 by (simp add: wake_wf_def)
    show "wc_key c' = wc_key c" unfolding c(2) that(2) ..
  qed (fact that(1), fact c(1))
  then have "k \<notin> wc_key ` {c' \<in> set (wl_rows st2). wc_batch c' \<noteq> Some bid}" using c(3) by blast
  then show "ledger_state_for k (release_write t1 t2 bid st2) = None"
    by (simp add: ledger_state_for_def release_write_def get_by_None set_del_where)
qed

theorem late_release_frees_running_batch_witness:
  "\<exists>st2. settled demo_key st2 \<and> ledger_state_for demo_key (release_write 104 105 ''wb_1'' st2) = None"
proof -
  let ?ops = "[Admit demo_env 100 ''wb_1'' ''s'' [demo_key] None]"
  let ?b = "new_batch ''wb_1'' ''s'' [demo_key] 100 None"
  obtain q st where "admit demo_env 100 ''wb_1'' ''s'' [demo_key] None (wake_history [])
      = (Admitted ''wb_1'' [(demo_key, 7)] [] [] q, st)" and bs: "wl_batches st = [?b]"
    using demo_admit_answer [of None] by (auto simp: wake_history_def)
  then have "wake_history ?ops = st" by (simp add: wake_history_def)
  then have h: "wl_batches (wake_history ?ops) = [?b]" by (simp add: bs)
  have nb: "wb_run ?b = None" "wb_input ?b = CANONICAL_INPUT" by (simp_all add: new_batch_def)
  have g: "get_by wb_id ''wb_1'' (wl_batches (wake_history ?ops)) = Some ?b" "demo_key \<in> set (wb_keys ?b)"
    by (simp_all add: h table_simps)
  have r: "release_read ''wb_1'' ''s'' (wake_history ?ops) = None" by (simp add: release_read_def g nb)
  define st1 where "st1 = (wake_history ?ops)\<lparr>wl_batches := [?b\<lparr>wb_state := Dispatching, wb_updated := 102\<rparr>]\<rparr>"
  have d: "gate_dispatch 102 ''wb_1'' ''s'' (Some CANONICAL_INPUT) (wake_history ?ops) = (None, st1)"
    by (simp add: gate_dispatch_def gate_read_def g nb gate_write_def batch_cas_def h table_simps st1_def)
  have "fst (report 103 ''wb_1'' ''s'' ''accepted'' (Some ''run'') st1)
      = WakeOk (batch_view (snd (report 103 ''wb_1'' ''s'' ''accepted'' (Some ''run'') st1)) ''wb_1'')"
    by (simp add: report_def report_read_def report_write_def report_cas_def batch_cas_def st1_def table_simps py_str_defs)
  then obtain v st2 where "report 103 ''wb_1'' ''s'' ''accepted'' (Some ''run'') st1 = (WakeOk v, st2)"
    by (metis prod.collapse)
  from late_release_frees_running_batch [OF g r d this] show ?thesis by blast
qed

end
