(* ===== verification/Cron_Bridge.thy ===== *)
theory Cron_Bridge
  imports Auto_Wake
begin

text \<open>
  The tables of \<open>cron_bridge.db\<close> (\<open>cron_delivery_store.open_bridge\<close> and
  \<open>self_wake.ensure_bridge_schema\<close>), the self-wake policy read from the profile's configuration
  (\<open>self_wake.settings\<close>), the enable generation, and the two writes the delivery transaction is
  made of: the receipt upsert (\<open>_receipt\<close>) and the intent hook (\<open>_self_wake_intent\<close>,
  \<open>on_delivered\<close>). The \<open>meta\<close> rows are typed fields; the configuration is the parsed YAML value.
\<close>

section \<open>Tables\<close>

record pending =
  pd_key :: string
  pd_home :: string
  pd_session :: string
  pd_identity :: json
  pd_content :: string
  pd_attempts :: nat
  pd_next :: time
  pd_created :: time
  pd_updated :: time

datatype receipt_status = Queued | Arrived | Failed

record bridge_receipt =
  rc_key :: string
  rc_home :: string
  rc_execution :: string
  rc_status :: receipt_status
  rc_row :: "int option"
  rc_error :: "string option"
  rc_digest :: "string option"
  rc_session :: string
  rc_created :: time
  rc_updated :: time

datatype intent_state = Shadow | Pending | Watching | Done | Void

record intent =
  in_key :: string
  in_home :: string
  in_session :: string
  in_row :: "int option"
  in_generation :: int
  in_cutoff :: time
  in_reason :: string
  in_batch :: "string option"
  in_owner :: "string option"
  in_state :: intent_state
  in_detail :: "string option"
  in_attempts :: nat
  in_next :: time
  in_created :: time
  in_updated :: time

record bridge =
  br_pending :: "pending list"
  br_receipts :: "bridge_receipt list"
  br_intents :: "intent list"
  br_generation :: "(int \<times> time) option"
  br_seek :: "(int \<times> time \<times> int) option"

definition bridge_empty :: bridge where
  "bridge_empty = \<lparr>br_pending = [], br_receipts = [], br_intents = [], br_generation = None, br_seek = None\<rparr>"

section \<open>Policy\<close>

datatype mode = Off | ShadowMode | On

record wake_params =
  chain_limit :: int
  cooldown_seconds :: real

definition default_params :: wake_params where
  "default_params = \<lparr>chain_limit = 3, cooldown_seconds = 60\<rparr>"

text \<open>The flag: a Boolean, or the word \<open>shadow\<close>; anything else is malformed.\<close>

fun flag_mode :: "json option \<Rightarrow> mode option" where
  "flag_mode None = Some Off"
| "flag_mode (Some (JBool b)) = Some (if b then On else Off)"
| "flag_mode (Some (JStr s)) = (if py_lower (py_strip s) = ''shadow'' then Some ShadowMode else None)"
| "flag_mode (Some _) = None"

fun limit_of :: "json option \<Rightarrow> int option" where
  "limit_of None = Some 3"
| "limit_of (Some (JInt i)) = (if 1 \<le> i \<and> i \<le> 12 then Some i else None)"
| "limit_of (Some _) = None"

fun cooldown_of :: "json option \<Rightarrow> real option" where
  "cooldown_of None = Some 60"
| "cooldown_of (Some (JInt i)) = (if 0 \<le> i \<and> i \<le> 3600 then Some (of_int i) else None)"
| "cooldown_of (Some (JReal r)) = (if 0 \<le> r \<and> r \<le> 3600 then Some r else None)"
| "cooldown_of (Some _) = None"

definition settings :: "json option \<Rightarrow> mode \<times> wake_params \<times> string option" where
  "settings cfg = (case cfg of
     None \<Rightarrow> (Off, default_params, Some ''config unreadable or cross-profile'')
   | Some c \<Rightarrow> (case jget ''wake'' c of
       None \<Rightarrow> (Off, default_params, None)
     | Some JNull \<Rightarrow> (Off, default_params, None)
     | Some block \<Rightarrow>
         if \<not> is_obj block then (Off, default_params, Some ''wake block malformed'')
         else (case flag_mode (jget ''selfwake'' block) of
           None \<Rightarrow> (Off, default_params, Some ''wake.selfwake malformed'')
         | Some m \<Rightarrow> (case limit_of (jget ''selfwake_chain_limit'' block) of
             None \<Rightarrow> (Off, default_params, Some ''wake.selfwake_chain_limit malformed'')
           | Some l \<Rightarrow> (case cooldown_of (jget ''selfwake_cooldown_seconds'' block) of
               None \<Rightarrow> (Off, default_params, Some ''wake.selfwake_cooldown_seconds malformed'')
             | Some cool \<Rightarrow> (m, \<lparr>chain_limit = l, cooldown_seconds = cool\<rparr>, None))))))"

section \<open>Generation\<close>

text \<open>One enable generation; a restart keeps it, and its cutoff, as it finds it.\<close>

definition generation_cutoff :: "time \<Rightarrow> bridge \<Rightarrow> (int \<times> time) \<times> bridge" where
  "generation_cutoff now br = (case br_generation br of
     Some g \<Rightarrow> (g, br) | None \<Rightarrow> ((1, now), br\<lparr>br_generation := Some (1, now)\<rparr>))"

definition bump_generation :: "time \<Rightarrow> bridge \<Rightarrow> (int \<times> time) \<times> bridge" where
  "bump_generation now br = (case generation_cutoff now br of
     ((gen, _), br') \<Rightarrow> ((gen + 1, now), br'\<lparr>br_generation := Some (gen + 1, now)\<rparr>))"

definition reconcile_seek :: "int \<Rightarrow> time \<Rightarrow> bridge \<Rightarrow> time \<times> int" where
  "reconcile_seek gen cutoff br = (case br_seek br of
     Some (g, ts, mid) \<Rightarrow> if g = gen \<and> cutoff \<le> ts then (ts, mid) else (cutoff, 0)
   | None \<Rightarrow> (cutoff, 0))"

section \<open>The intent hook\<close>

definition new_intent :: "string \<Rightarrow> string \<Rightarrow> string \<Rightarrow> int option \<Rightarrow> int \<Rightarrow> time \<Rightarrow> string \<Rightarrow> mode \<Rightarrow> time \<Rightarrow> intent" where
  "new_intent key home session row gen cutoff reason m now = \<lparr>in_key = key, in_home = home, in_session = session,
     in_row = row, in_generation = gen, in_cutoff = cutoff, in_reason = reason, in_batch = None, in_owner = None,
     in_state = (if m = ShadowMode then Shadow else Pending), in_detail = None, in_attempts = 0, in_next = now,
     in_created = now, in_updated = now\<rparr>"

definition on_delivered :: "json option \<Rightarrow> time \<Rightarrow> string \<Rightarrow> string \<Rightarrow> string \<Rightarrow> int option \<Rightarrow> string \<Rightarrow> bridge
    \<Rightarrow> intent_state option \<times> bridge" where
  "on_delivered cfg now home session key row reason br = (case settings cfg of (m, _, _) \<Rightarrow>
     if m = Off then (None, br)
     else case generation_cutoff now br of ((gen, cutoff), br1) \<Rightarrow>
       (case get_by in_key key (br_intents br1) of
          Some i \<Rightarrow> (Some (in_state i), br1)
        | None \<Rightarrow> let i = new_intent key home session row gen cutoff reason m now
            in (Some (in_state i), br1\<lparr>br_intents := br_intents br1 @ [i]\<rparr>)))"

text \<open>
  The hook of the delivery transaction, given the configuration it reads; \<^const>\<open>None\<close> stands for
  a hook that raises before it wrote anything. Then the receipt commits with the tag
  \<open>intent-failed\<close>, unless it already carries an error.
\<close>

definition self_wake_intent :: "json option option \<Rightarrow> time \<Rightarrow> string \<Rightarrow> string \<Rightarrow> string \<Rightarrow> int option \<Rightarrow> string
    \<Rightarrow> bridge \<Rightarrow> bridge" where
  "self_wake_intent hook now home session key row reason br = (case hook of
     Some cfg \<Rightarrow> snd (on_delivered cfg now home session key row reason br)
   | None \<Rightarrow> br\<lparr>br_receipts := upd_where (\<lambda>r. rc_key r = key)
       (\<lambda>r. r\<lparr>rc_error := coalesce (rc_error r) (Some ''intent-failed''), rc_updated := now\<rparr>) (br_receipts br)\<rparr>)"

section \<open>Receipts\<close>

text \<open>A committed receipt keeps its status; row id and digest are kept when the new ones are missing.\<close>

definition put_receipt :: "time \<Rightarrow> string \<Rightarrow> string \<Rightarrow> string \<Rightarrow> string \<Rightarrow> receipt_status \<Rightarrow> int option
    \<Rightarrow> string option \<Rightarrow> string option \<Rightarrow> bridge \<Rightarrow> bridge" where
  "put_receipt now key home execution session status row err digest br =
     br\<lparr>br_receipts := (case get_by rc_key key (br_receipts br) of
       None \<Rightarrow> br_receipts br @ [\<lparr>rc_key = key, rc_home = home, rc_execution = execution, rc_status = status,
         rc_row = row, rc_error = err, rc_digest = digest, rc_session = session, rc_created = now, rc_updated = now\<rparr>]
     | Some _ \<Rightarrow> upd_where (\<lambda>r. rc_key r = key)
         (\<lambda>r. r\<lparr>rc_status := (if rc_status r = Arrived then Arrived else status),
                rc_row := coalesce row (rc_row r), rc_error := err,
                rc_digest := coalesce digest (rc_digest r), rc_updated := now\<rparr>) (br_receipts br))\<rparr>"

text \<open>The latest receipt of one execution.\<close>

definition receipt_for :: "string \<Rightarrow> bridge \<Rightarrow> bridge_receipt option" where
  "receipt_for execution br = (case rev (sort_key rc_updated (filter (\<lambda>r. rc_execution r = execution) (br_receipts br))) of
     [] \<Rightarrow> None | r # _ \<Rightarrow> Some r)"

definition drop_pending :: "string \<Rightarrow> bridge \<Rightarrow> bridge" where
  "drop_pending key br = br\<lparr>br_pending := del_where (\<lambda>p. pd_key p = key) (br_pending br)\<rparr>"

end
