(* ===== verification/Cron_Delivery.thy ===== *)
theory Cron_Delivery
  imports Cron_Bridge
begin

text \<open>
  \<open>compat/cron_delivery_store.py\<close>: one report through spool, session database and receipt
  (\<open>deliver\<close>, \<open>_attempt\<close>, \<open>_write_once\<close>) and the bounded retry pass (\<open>drain_home\<close>). The session
  database is the state the writer changes. What its methods do is in the arguments: the session a
  target resolves to, the error one attempt runs into, the id of an inserted row. The digest
  \<open>sha\<close> and the rendering of JSON values are parameters.
\<close>

definition REPORT_MAX_BYTES :: nat where "REPORT_MAX_BYTES = 32768"
definition DRAIN_MAX_ATTEMPTS :: nat where "DRAIN_MAX_ATTEMPTS = 24"
definition DRAIN_BACKOFF_BASE :: time where "DRAIN_BACKOFF_BASE = 30"
definition DRAIN_BACKOFF_CAP :: time where "DRAIN_BACKOFF_CAP = 900"
definition RESOLVE_RETRIES :: nat where "RESOLVE_RETRIES = 3"

section \<open>Identity and content\<close>

definition delivery_key :: "(string \<Rightarrow> string) \<Rightarrow> string \<Rightarrow> string \<Rightarrow> string \<Rightarrow> string \<Rightarrow> string" where
  "delivery_key sha home job execution session =
     sha (home @ ''|'' @ job @ ''|'' @ execution @ ''|'' @ session)"

definition identity_error :: "json \<Rightarrow> string option" where
  "identity_error identity =
     (if \<not> is_obj identity then Some ''missing_delivery_identity''
      else if filled_str (jget ''job_id'' identity) = None then Some ''missing_job_id''
      else if filled_str (jget ''execution_id'' identity) = None then Some ''missing_execution_id''
      else None)"

text \<open>The text of a string field (the callers have checked that it is one).\<close>

fun str_field :: "json option \<Rightarrow> string" where
  "str_field (Some (JStr s)) = s"
| "str_field _ = []"

fun render :: "(json \<Rightarrow> string) \<Rightarrow> json \<Rightarrow> string" where
  "render dumps (JStr s) = s"
| "render dumps v = dumps v"

text \<open>\<open>CONTENT_PREFIX.format(name=identity.get("name") or identity.get("job_id")) + content\<close>\<close>

definition report_text :: "(json \<Rightarrow> string) \<Rightarrow> json \<Rightarrow> string \<Rightarrow> string" where
  "report_text dumps identity content = (let name = (case jget ''name'' identity of
       Some v \<Rightarrow> if truthy v then render dumps v else str_field (jget ''job_id'' identity)
     | None \<Rightarrow> str_field (jget ''job_id'' identity))
     in CONTENT_PREFIX @ name @ '']'' @ [nl] @ content)"

definition report_meta :: "(string \<Rightarrow> string) \<Rightarrow> json \<Rightarrow> string \<Rightarrow> string \<Rightarrow> string \<Rightarrow> json" where
  "report_meta sha identity key original content = JObj [(METADATA_NS, JObj [
     (''schema'', JInt 1), (''job_id'', JStr (str_field (jget ''job_id'' identity))),
     (''execution_id'', JStr (str_field (jget ''execution_id'' identity))), (''delivery_key'', JStr key),
     (''original_session_id'', JStr original), (''digest'', JStr (sha content))])]"

section \<open>One write\<close>

text \<open>What one attempt runs into besides the policy checks of the writer.\<close>

datatype fault = NoFault | NoDatabase string | TurnLost | ClosedParent | BusyDatabase | BadDatabase

record attempt_env =
  ae_fault :: fault
  ae_target :: string
  ae_now :: time
  ae_row_id :: int

datatype written = Inserted int | Existing int | Permanent string | Faulted fault

definition existing_report :: "(json \<Rightarrow> string) \<Rightarrow> string \<Rightarrow> string \<Rightarrow> session_db \<Rightarrow> message option" where
  "existing_report dumps target key db = first_where (\<lambda>m. msg_session m \<in> set (lineage (db_sessions db) target)
     \<and> msg_kind m = Some DISPLAY_KIND \<and> cron_field dumps ''delivery_key'' m = SText key) (db_messages db)"

text \<open>\<open>stored and stored.get("digest") != report_digest(content)\<close>\<close>

definition digest_conflict :: "string \<Rightarrow> message \<Rightarrow> bool" where
  "digest_conflict digest m = (case Option.bind (msg_meta m) (jget METADATA_NS) of
     Some stored \<Rightarrow> is_obj stored \<and> truthy stored \<and> jget ''digest'' stored \<noteq> Some (JStr digest)
   | None \<Rightarrow> False)"

definition target_refused :: "session option \<Rightarrow> string option" where
  "target_refused s = (case s of
     None \<Rightarrow> Some ''target_missing''
   | Some s \<Rightarrow>
       if ses_source s = Some ''cron'' \<or> ses_source s = Some ''subagent'' then Some ''target_wrong_source''
       else if ses_hidden s then Some ''target_hidden''
       else if ses_archived s then Some ''target_archived''
       else if ses_ended_at s \<noteq> None \<and> ses_end_reason s \<noteq> Some ''compression''
         then Some (''target_ended:'' @ (case ses_end_reason s of None \<Rightarrow> ''unknown''
            | Some r \<Rightarrow> if r = [] then ''unknown'' else r))
       else None)"

definition report_row :: "(string \<Rightarrow> string) \<Rightarrow> (json \<Rightarrow> string) \<Rightarrow> attempt_env \<Rightarrow> string \<Rightarrow> string \<Rightarrow> json \<Rightarrow> string \<Rightarrow> message" where
  "report_row sha dumps env original content identity key = \<lparr>msg_id = ae_row_id env, msg_session = ae_target env,
     msg_role = ''user'', msg_kind = Some DISPLAY_KIND,
     msg_meta = Some (report_meta sha identity key original content),
     msg_content = report_text dumps identity content, msg_time = ae_now env\<rparr>"

definition write_once :: "(string \<Rightarrow> string) \<Rightarrow> (json \<Rightarrow> string) \<Rightarrow> attempt_env \<Rightarrow> string \<Rightarrow> string \<Rightarrow> json \<Rightarrow> string
    \<Rightarrow> session_db \<Rightarrow> written \<times> session_db" where
  "write_once sha dumps env original content identity key db =
     (if ae_fault env = BusyDatabase \<or> ae_fault env = BadDatabase then (Faulted (ae_fault env), db)
      else case existing_report dumps (ae_target env) key db of
        Some m \<Rightarrow> (if digest_conflict (sha content) m then Permanent ''delivery_conflict'' else Existing (msg_id m), db)
      | None \<Rightarrow> (case target_refused (get_by ses_id (ae_target env) (db_sessions db)) of
          Some why \<Rightarrow> (Permanent why, db)
        | None \<Rightarrow>
            if ae_fault env = TurnLost \<or> ae_fault env = ClosedParent then (Faulted (ae_fault env), db)
            else (Inserted (ae_row_id env),
              db\<lparr>db_messages := db_messages db @ [report_row sha dumps env original content identity key]\<rparr>)))"

section \<open>Bounded attempts\<close>

datatype outcome = Delivered int | Dedup int | QueuedFor string | Error string | PermanentError string

fun attempt :: "(string \<Rightarrow> string) \<Rightarrow> (json \<Rightarrow> string) \<Rightarrow> nat \<Rightarrow> (nat \<Rightarrow> attempt_env) \<Rightarrow> string \<Rightarrow> string \<Rightarrow> json \<Rightarrow> string
    \<Rightarrow> session_db \<Rightarrow> outcome \<times> session_db" where
  "attempt sha dumps 0 env original content identity key db = (Error ''target_closed'', db)"
| "attempt sha dumps (Suc n) env original content identity key db = (case ae_fault (env n) of
     NoDatabase name \<Rightarrow> (Error (''db_unavailable:'' @ name), db)
   | _ \<Rightarrow> (case write_once sha dumps (env n) original content identity key db of
       (Inserted i, db') \<Rightarrow> (Delivered i, db')
     | (Existing i, db') \<Rightarrow> (Dedup i, db')
     | (Permanent why, db') \<Rightarrow> (PermanentError why, db')
     | (Faulted TurnLost, db') \<Rightarrow> (QueuedFor ''active_turn_lease'', db')
     | (Faulted ClosedParent, db') \<Rightarrow> attempt sha dumps n env original content identity key db'
     | (Faulted BusyDatabase, db') \<Rightarrow> (QueuedFor ''db_busy'', db')
     | (Faulted f, db') \<Rightarrow> (QueuedFor ''db_io'', db')))"

section \<open>Delivery\<close>

text \<open>
  The answer of \<open>deliver\<close>: the writer is not reviewed, the report is refused, the receipt already
  knows the row (\<open>dedup\<close>), or the outcome of the attempt, with the receipt key when it is queued.
  The environment of one call: whether the reviewed writer is installed, the clock, the attempts
  (numbered down from the retry limit), and the self-wake hook.
\<close>

record call_env =
  ce_bound :: bool
  ce_now :: time
  ce_attempts :: "nat \<Rightarrow> attempt_env"
  ce_hook :: "json option option"

record world =
  wo_bridge :: bridge
  wo_db :: session_db

datatype delivery =
    Unavailable
  | Refused string
  | Known "int option"
  | Answer outcome
  | AnswerQueued outcome string

definition refuse_report :: "json \<Rightarrow> string \<Rightarrow> bool \<Rightarrow> string option" where
  "refuse_report identity content media = (case identity_error identity of
     Some e \<Rightarrow> Some e
   | None \<Rightarrow>
       if py_strip content = [] then Some ''empty_report''
       else if media \<or> has_infix ''MEDIA:'' content then Some ''media_unsupported''
       else if REPORT_MAX_BYTES < length content then Some ''report_too_large''
       else None)"

definition spool :: "time \<Rightarrow> string \<Rightarrow> string \<Rightarrow> string \<Rightarrow> json \<Rightarrow> string \<Rightarrow> bridge \<Rightarrow> bridge" where
  "spool now key home session identity content br = (case get_by pd_key key (br_pending br) of
     Some _ \<Rightarrow> br
   | None \<Rightarrow> br\<lparr>br_pending := br_pending br @ [\<lparr>pd_key = key, pd_home = home, pd_session = session,
       pd_identity = identity, pd_content = content, pd_attempts = 0, pd_next = now, pd_created = now, pd_updated = now\<rparr>]\<rparr>)"

definition postpone :: "time \<Rightarrow> string \<Rightarrow> bridge \<Rightarrow> bridge" where
  "postpone now key br = br\<lparr>br_pending := upd_where (\<lambda>p. pd_key p = key)
     (\<lambda>p. p\<lparr>pd_next := now + DRAIN_BACKOFF_BASE, pd_updated := now\<rparr>) (br_pending br)\<rparr>"

text \<open>The bridge transaction after the attempt of a direct delivery.\<close>

definition settle_direct :: "(string \<Rightarrow> string) \<Rightarrow> call_env \<Rightarrow> string \<Rightarrow> string \<Rightarrow> string \<Rightarrow> string \<Rightarrow> string \<Rightarrow> outcome
    \<Rightarrow> bridge \<Rightarrow> bridge" where
  "settle_direct sha env home execution session key content out br = (let now = ce_now env in case out of
     Delivered row \<Rightarrow> self_wake_intent (ce_hook env) now home session key (Some row) ''delivered-direct''
         (put_receipt now key home execution session Arrived (Some row) None (Some (sha content)) (drop_pending key br))
   | Dedup row \<Rightarrow> put_receipt now key home execution session Arrived (Some row) None (Some (sha content)) (drop_pending key br)
   | PermanentError e \<Rightarrow> drop_pending key (put_receipt now key home execution session Failed None (Some e) None br)
   | _ \<Rightarrow> postpone now key (put_receipt now key home execution session Queued None None None br))"

definition deliver :: "(string \<Rightarrow> string) \<Rightarrow> (json \<Rightarrow> string) \<Rightarrow> call_env \<Rightarrow> string \<Rightarrow> string \<Rightarrow> string \<Rightarrow> json \<Rightarrow> bool
    \<Rightarrow> world \<Rightarrow> delivery \<times> world" where
  "deliver sha dumps env home session content identity media w =
     (if \<not> ce_bound env then (Unavailable, w)
      else case refuse_report identity content media of
        Some e \<Rightarrow> (Refused e, w)
      | None \<Rightarrow>
          let job = py_strip (str_field (jget ''job_id'' identity));
              execution = py_strip (str_field (jget ''execution_id'' identity));
              key = delivery_key sha home job execution session;
              br = spool (ce_now env) key home session identity content (wo_bridge w)
          in case get_by rc_key key (br_receipts br) of
               Some r \<Rightarrow>
                 if rc_status r = Arrived \<and> rc_digest r = Some (sha content)
                 then (Known (rc_row r), w\<lparr>wo_bridge := drop_pending key br\<rparr>)
                 else (case attempt sha dumps RESOLVE_RETRIES (ce_attempts env) session content identity key (wo_db w) of
                   (out, db) \<Rightarrow> ((case out of QueuedFor _ \<Rightarrow> AnswerQueued out key | Error _ \<Rightarrow> AnswerQueued out key | _ \<Rightarrow> Answer out),
                     \<lparr>wo_bridge = settle_direct sha env home execution session key content out br, wo_db = db\<rparr>))
             | None \<Rightarrow> (case attempt sha dumps RESOLVE_RETRIES (ce_attempts env) session content identity key (wo_db w) of
                   (out, db) \<Rightarrow> ((case out of QueuedFor _ \<Rightarrow> AnswerQueued out key | Error _ \<Rightarrow> AnswerQueued out key | _ \<Rightarrow> Answer out),
                     \<lparr>wo_bridge = settle_direct sha env home execution session key content out br, wo_db = db\<rparr>)))"

section \<open>The retry pass\<close>

definition backoff :: "nat \<Rightarrow> time" where
  "backoff attempts = min DRAIN_BACKOFF_CAP (DRAIN_BACKOFF_BASE * 2 ^ min attempts 5)"

definition due_rows :: "time \<Rightarrow> bridge \<Rightarrow> pending list" where
  "due_rows now br = take 32 (sort_key pd_next
     (filter (\<lambda>p. pd_next p \<le> now \<and> pd_attempts p < DRAIN_MAX_ATTEMPTS) (br_pending br)))"

definition settle_drain :: "(string \<Rightarrow> string) \<Rightarrow> call_env \<Rightarrow> pending \<Rightarrow> outcome \<Rightarrow> bridge \<Rightarrow> bridge" where
  "settle_drain sha env p out br = (let now = ce_now env; key = pd_key p;
       execution = str_field (jget ''execution_id'' (pd_identity p)) in case out of
     Delivered row \<Rightarrow> self_wake_intent (ce_hook env) now (pd_home p) (pd_session p) key (Some row) ''delivered-drainer''
         (put_receipt now key (pd_home p) execution (pd_session p) Arrived (Some row) None (Some (sha (pd_content p)))
           (drop_pending key br))
   | Dedup row \<Rightarrow> put_receipt now key (pd_home p) execution (pd_session p) Arrived (Some row) None
         (Some (sha (pd_content p))) (drop_pending key br)
   | PermanentError e \<Rightarrow> put_receipt now key (pd_home p) execution (pd_session p) Failed None (Some e) None (drop_pending key br)
   | _ \<Rightarrow> let attempts = pd_attempts p + 1 in
       if DRAIN_MAX_ATTEMPTS \<le> attempts
       then put_receipt now key (pd_home p) execution (pd_session p) Failed None (Some ''retry_exhausted'') None (drop_pending key br)
       else br\<lparr>br_pending := upd_where (\<lambda>q. pd_key q = key)
         (\<lambda>q. q\<lparr>pd_attempts := attempts, pd_next := now + backoff attempts, pd_updated := now\<rparr>) (br_pending br)\<rparr>)"

definition drain_row :: "(string \<Rightarrow> string) \<Rightarrow> (json \<Rightarrow> string) \<Rightarrow> call_env \<Rightarrow> pending \<Rightarrow> world \<Rightarrow> outcome \<times> world" where
  "drain_row sha dumps env p w = (case attempt sha dumps RESOLVE_RETRIES (ce_attempts env) (pd_session p)
       (pd_content p) (pd_identity p) (pd_key p) (wo_db w) of
     (out, db) \<Rightarrow> (out, \<lparr>wo_bridge = settle_drain sha env p out (wo_bridge w), wo_db = db\<rparr>))"

text \<open>One environment per row of the pass; the summary counts delivered, deduped, queued and failed.\<close>

record drain_summary =
  ds_delivered :: nat
  ds_deduped :: nat
  ds_queued :: nat
  ds_failed :: nat

definition count_outcome :: "pending \<Rightarrow> outcome \<Rightarrow> drain_summary \<Rightarrow> drain_summary" where
  "count_outcome p out s = (case out of
     Delivered _ \<Rightarrow> s\<lparr>ds_delivered := ds_delivered s + 1\<rparr>
   | Dedup _ \<Rightarrow> s\<lparr>ds_deduped := ds_deduped s + 1\<rparr>
   | PermanentError _ \<Rightarrow> s\<lparr>ds_failed := ds_failed s + 1\<rparr>
   | _ \<Rightarrow> if DRAIN_MAX_ATTEMPTS \<le> pd_attempts p + 1 then s\<lparr>ds_failed := ds_failed s + 1\<rparr>
          else s\<lparr>ds_queued := ds_queued s + 1\<rparr>)"

fun drain_rows :: "(string \<Rightarrow> string) \<Rightarrow> (json \<Rightarrow> string) \<Rightarrow> (string \<Rightarrow> call_env) \<Rightarrow> pending list \<Rightarrow> drain_summary \<Rightarrow> world
    \<Rightarrow> drain_summary \<times> world" where
  "drain_rows sha dumps env [] s w = (s, w)"
| "drain_rows sha dumps env (p # ps) s w = (case drain_row sha dumps (env (pd_key p)) p w of
     (out, w') \<Rightarrow> drain_rows sha dumps env ps (count_outcome p out s) w')"

definition drain_home :: "(string \<Rightarrow> string) \<Rightarrow> (json \<Rightarrow> string) \<Rightarrow> bool \<Rightarrow> time \<Rightarrow> (string \<Rightarrow> call_env) \<Rightarrow> world
    \<Rightarrow> drain_summary option \<times> world" where
  "drain_home sha dumps bound now env w = (if \<not> bound then (None, w)
     else case drain_rows sha dumps env (due_rows now (wo_bridge w))
         \<lparr>ds_delivered = 0, ds_deduped = 0, ds_queued = 0, ds_failed = 0\<rparr> w of (s, w') \<Rightarrow> (Some s, w'))"

text \<open>The read-only progress boundary: pending rows, due rows, and the age of the oldest due one.\<close>

definition pending_health :: "time \<Rightarrow> bridge \<Rightarrow> nat \<times> nat \<times> int" where
  "pending_health now br = (let due = count_where (\<lambda>p. pd_next p \<le> now) (br_pending br);
       oldest = (case map pd_next (br_pending br) of [] \<Rightarrow> 0 | t # ts \<Rightarrow> fold min ts t)
     in (length (br_pending br), due, if due \<noteq> 0 \<and> oldest \<noteq> 0 then max 0 \<lfloor>now - oldest\<rfloor> else 0))"

end
