(* ===== verification/Cron_Properties.thy ===== *)
theory Cron_Properties
  imports Cron_Delivery
begin

text \<open>
  What the cron bridge promises over its histories of deliveries, retry passes and foreign changes
  of the session database: no accepted report is lost, a committed receipt is final, retries are
  bounded and end loudly, a repeated delivery returns the old row, and what the writer writes is
  what the wake reader verifies.
\<close>

section \<open>Keys and receipts\<close>

definition spooled :: "string \<Rightarrow> bridge \<Rightarrow> bool" where
  "spooled k br \<longleftrightarrow> k \<in> pd_key ` set (br_pending br)"

definition status_of :: "string \<Rightarrow> bridge \<Rightarrow> receipt_status option" where
  "status_of k br = map_option rc_status (get_by rc_key k (br_receipts br))"

text \<open>The bridge still answers for a report: it is in the spool, or its receipt is final.\<close>

definition accounted :: "string \<Rightarrow> bridge \<Rightarrow> bool" where
  "accounted k br \<longleftrightarrow> spooled k br \<or> status_of k br = Some Arrived \<or> status_of k br = Some Failed"

lemma spooled_put [simp]: "spooled k (put_receipt now key ho ex se st ro er di br) = spooled k br"
  by (simp add: spooled_def put_receipt_def)

lemma status_put [simp]: "status_of k (put_receipt now key ho ex se st ro er di br)
   = (if k = key then Some (if status_of key br = Some Arrived then Arrived else st) else status_of k br)"
proof (cases "get_by rc_key key (br_receipts br)")
  case None
  then show ?thesis by (auto simp: status_of_def put_receipt_def table_simps split: option.split)
next
  case (Some r)
  then have "rc_key r = key" by (auto dest: get_by_SomeD)
  with Some show ?thesis
    by (auto simp: status_of_def put_receipt_def get_by_upd_where option.map_comp
        intro!: option.map_cong dest: get_by_SomeD)
qed

lemma hook_frame [simp]:
  "br_pending (self_wake_intent hook now ho se key ro re br) = br_pending br"
  "status_of k (self_wake_intent hook now ho se key ro re br) = status_of k br"
proof -
  show "br_pending (self_wake_intent hook now ho se key ro re br) = br_pending br"
    by (auto simp: self_wake_intent_def on_delivered_def generation_cutoff_def Let_def split: option.splits prod.splits)
  show "status_of k (self_wake_intent hook now ho se key ro re br) = status_of k br"
  proof (cases hook)
    case None
    then show ?thesis
      by (auto simp: self_wake_intent_def status_of_def get_by_upd_where option.map_comp intro!: option.map_cong)
  next
    case (Some cfg)
    then show ?thesis
      by (auto simp: self_wake_intent_def status_of_def on_delivered_def generation_cutoff_def Let_def
          split: option.splits prod.splits)
  qed
qed

lemma spooled_hook [simp]: "spooled k (self_wake_intent hook now ho se key ro re br) = spooled k br"
  by (simp add: spooled_def)

lemma drop_pending_frame [simp]:
  "spooled k (drop_pending key br) \<longleftrightarrow> spooled k br \<and> k \<noteq> key"
  "status_of k (drop_pending key br) = status_of k br"
  by (auto simp: spooled_def drop_pending_def set_del_where status_of_def)

lemma spool_frame [simp]:
  "spooled k (spool now key ho se idy co br) \<longleftrightarrow> spooled k br \<or> k = key"
  "status_of k (spool now key ho se idy co br) = status_of k br"
  by (auto simp: spooled_def spool_def status_of_def split: option.split dest: get_by_SomeD)

lemma spooled_upd: "(\<And>p. pd_key (f p) = pd_key p) \<Longrightarrow>
   spooled k (br\<lparr>br_pending := upd_where P f (br_pending br)\<rparr>) = spooled k br"
proof -
  assume k: "\<And>p. pd_key (f p) = pd_key p"
  have "pd_key ` set (upd_where P f (br_pending br)) = pd_key ` set (br_pending br)"
    unfolding set_upd_where image_image by (rule image_cong) (auto simp: k)
  then show ?thesis by (simp add: spooled_def)
qed

lemma postpone_frame [simp]:
  "spooled k (postpone now key br) = spooled k br" "status_of k (postpone now key br) = status_of k br"
  by (simp_all add: postpone_def spooled_upd) (simp add: status_of_def)

text \<open>What the two settlements do to spool and receipts.\<close>

lemma settle_direct_frame:
  "spooled k (settle_direct sha env ho ex se key co out br)
     = (spooled k br \<and> (k \<noteq> key \<or> (\<exists>x. out = QueuedFor x \<or> out = Error x)))"
  "status_of k (settle_direct sha env ho ex se key co out br)
     = (if k \<noteq> key then status_of k br
        else if status_of key br = Some Arrived then Some Arrived
        else case out of Delivered _ \<Rightarrow> Some Arrived | Dedup _ \<Rightarrow> Some Arrived | PermanentError _ \<Rightarrow> Some Failed
          | _ \<Rightarrow> Some Queued)"
  by (auto simp: settle_direct_def Let_def split: outcome.split)

lemma settle_drain_frame:
  "spooled k (settle_drain sha env p out br) = (spooled k br \<and>
     (k \<noteq> pd_key p \<or> ((\<exists>x. out = QueuedFor x \<or> out = Error x) \<and> pd_attempts p + 1 < DRAIN_MAX_ATTEMPTS)))"
  "status_of k (settle_drain sha env p out br)
     = (if k \<noteq> pd_key p then status_of k br
        else if status_of k br = Some Arrived then Some Arrived
        else case out of Delivered _ \<Rightarrow> Some Arrived | Dedup _ \<Rightarrow> Some Arrived | PermanentError _ \<Rightarrow> Some Failed
          | _ \<Rightarrow> if pd_attempts p + 1 < DRAIN_MAX_ATTEMPTS then status_of k br else Some Failed)"
proof -
  show "spooled k (settle_drain sha env p out br) = (spooled k br \<and>
     (k \<noteq> pd_key p \<or> ((\<exists>x. out = QueuedFor x \<or> out = Error x) \<and> pd_attempts p + 1 < DRAIN_MAX_ATTEMPTS)))"
    by (auto simp: settle_drain_def Let_def spooled_upd split: outcome.split)
  have s: "status_of j (br\<lparr>br_pending := x\<rparr>) = status_of j br" for j x by (simp add: status_of_def)
  show "status_of k (settle_drain sha env p out br)
     = (if k \<noteq> pd_key p then status_of k br
        else if status_of k br = Some Arrived then Some Arrived
        else case out of Delivered _ \<Rightarrow> Some Arrived | Dedup _ \<Rightarrow> Some Arrived | PermanentError _ \<Rightarrow> Some Failed
          | _ \<Rightarrow> if pd_attempts p + 1 < DRAIN_MAX_ATTEMPTS then status_of k br else Some Failed)"
    by (auto simp: settle_drain_def Let_def s split: outcome.split)
qed

lemma accounted_direct:
  "accounted k br \<or> k = key \<Longrightarrow> spooled key br \<Longrightarrow> accounted k (settle_direct sha env ho ex se key co out br)"
  by (auto simp: accounted_def settle_direct_frame split: outcome.splits)

lemma accounted_drain: "accounted k br \<Longrightarrow> accounted k (settle_drain sha env p out br)"
  by (auto simp: accounted_def settle_drain_frame split: outcome.splits if_splits)

section \<open>Histories\<close>

datatype cron_op =
    Deliver call_env string string string json bool
  | Drain bool time "string \<Rightarrow> call_env"
  | Foreign session_db

fun cron_step :: "(string \<Rightarrow> string) \<Rightarrow> (json \<Rightarrow> string) \<Rightarrow> cron_op \<Rightarrow> world \<Rightarrow> world" where
  "cron_step sha dumps (Deliver env home session content identity media) w
     = snd (deliver sha dumps env home session content identity media w)"
| "cron_step sha dumps (Drain bound now env) w = snd (drain_home sha dumps bound now env w)"
| "cron_step sha dumps (Foreign db) w = w\<lparr>wo_db := db\<rparr>"

definition bridge_wf :: "world \<Rightarrow> bool" where
  "bridge_wf w \<longleftrightarrow> distinct (map pd_key (br_pending (wo_bridge w)))
     \<and> (\<forall>p \<in> set (br_pending (wo_bridge w)). pd_attempts p < DRAIN_MAX_ATTEMPTS)"

lemma deliver_bridge:
  obtains "wo_bridge (snd (deliver sha dumps env home session content identity media w)) = wo_bridge w"
    "fst (deliver sha dumps env home session content identity media w) = Unavailable \<or>
      (\<exists>e. fst (deliver sha dumps env home session content identity media w) = Refused e)"
  | key br where "key = delivery_key sha home (py_strip (str_field (jget ''job_id'' identity)))
        (py_strip (str_field (jget ''execution_id'' identity))) session"
      "br = spool (ce_now env) key home session identity content (wo_bridge w)"
      "status_of key br = Some Arrived"
      "wo_bridge (snd (deliver sha dumps env home session content identity media w)) = drop_pending key br"
  | key br ex out where "key = delivery_key sha home (py_strip (str_field (jget ''job_id'' identity)))
        (py_strip (str_field (jget ''execution_id'' identity))) session"
      "br = spool (ce_now env) key home session identity content (wo_bridge w)"
      "wo_bridge (snd (deliver sha dumps env home session content identity media w))
        = settle_direct sha env home ex session key content out br"
proof (cases "ce_bound env \<and> refuse_report identity content media = None")
  case False
  then show ?thesis by (intro that(1)) (auto simp: deliver_def split: option.split)
next
  case True
  define key where "key = delivery_key sha home (py_strip (str_field (jget ''job_id'' identity)))
        (py_strip (str_field (jget ''execution_id'' identity))) session"
  define br where "br = spool (ce_now env) key home session identity content (wo_bridge w)"
  obtain out db where at: "attempt sha dumps RESOLVE_RETRIES (ce_attempts env) session content identity key (wo_db w) = (out, db)"
    by fastforce
  show ?thesis
  proof (cases "\<exists>r. get_by rc_key key (br_receipts br) = Some r \<and> rc_status r = Arrived \<and> rc_digest r = Some (sha content)")
    case a: True
    then obtain r where r: "get_by rc_key key (br_receipts br) = Some r" "rc_status r = Arrived"
      "rc_digest r = Some (sha content)" by blast
    have "wo_bridge (snd (deliver sha dumps env home session content identity media w)) = drop_pending key br"
      using True r unfolding deliver_def Let_def key_def [symmetric] br_def [symmetric] by simp
    then show ?thesis using that(2) [OF key_def br_def] r by (simp add: status_of_def)
  next
    case b: False
    have "wo_bridge (snd (deliver sha dumps env home session content identity media w))
        = settle_direct sha env home (py_strip (str_field (jget ''execution_id'' identity))) session key content out br"
      using True b at unfolding deliver_def Let_def key_def [symmetric] br_def [symmetric]
      by (auto split: option.split)
    then show ?thesis by (rule that(3) [OF key_def br_def])
  qed
qed

lemma drain_rows_bridge:
  assumes "\<And>p out br. p \<in> set ps \<Longrightarrow> P br \<Longrightarrow> P (settle_drain sha (env (pd_key p)) p out br)" "P (wo_bridge w)"
  shows "P (wo_bridge (snd (drain_rows sha dumps env ps s w)))"
  using assms
proof (induction ps arbitrary: s w)
  case (Cons p ps)
  obtain out db where "attempt sha dumps RESOLVE_RETRIES (ce_attempts (env (pd_key p))) (pd_session p)
       (pd_content p) (pd_identity p) (pd_key p) (wo_db w) = (out, db)" by fastforce
  with Cons show ?case by (simp add: drain_row_def)
qed simp

lemma drain_bridge:
  assumes "\<And>p out br. p \<in> set (due_rows now (wo_bridge w)) \<Longrightarrow> P br \<Longrightarrow> P (settle_drain sha (env (pd_key p)) p out br)"
    and "P (wo_bridge w)"
  shows "P (wo_bridge (snd (drain_home sha dumps bound now env w)))"
  using drain_rows_bridge [of "due_rows now (wo_bridge w)" P sha env w dumps
      "\<lparr>ds_delivered = 0, ds_deduped = 0, ds_queued = 0, ds_failed = 0\<rparr>"] assms
  by (simp add: drain_home_def split: prod.split) (metis snd_conv)

lemma accounted_step: "accounted k (wo_bridge w) \<Longrightarrow> accounted k (wo_bridge (cron_step sha dumps op w))"
proof (cases op)
  case (Deliver env home session content identity media)
  assume a: "accounted k (wo_bridge w)"
  show ?thesis unfolding Deliver cron_step.simps
  proof (rule deliver_bridge [of sha dumps env home session content identity media w], goal_cases)
    case 1
    then show ?case using a by simp
  next
    case (2 key br)
    then show ?case using a by (auto simp: accounted_def)
  next
    case (3 key br ex out)
    have "accounted k br" "spooled key br" using a 3(2) by (auto simp: accounted_def)
    then show ?case unfolding 3(3) by (intro accounted_direct) auto
  qed
next
  case (Drain bound now env)
  assume "accounted k (wo_bridge w)"
  then show ?thesis unfolding Drain cron_step.simps
    by (intro drain_bridge [of now w "accounted k"] accounted_drain)
qed simp

lemma arrived_step: "status_of k (wo_bridge w) = Some Arrived \<Longrightarrow>
  status_of k (wo_bridge (cron_step sha dumps op w)) = Some Arrived"
proof (cases op)
  case (Deliver env home session content identity media)
  assume a: "status_of k (wo_bridge w) = Some Arrived"
  show ?thesis unfolding Deliver cron_step.simps
    by (rule deliver_bridge [of sha dumps env home session content identity media w])
       (use a in \<open>auto simp: settle_direct_frame\<close>)
next
  case (Drain bound now env)
  assume "status_of k (wo_bridge w) = Some Arrived"
  then show ?thesis unfolding Drain cron_step.simps
    by (intro drain_bridge [of now w "\<lambda>br. status_of k br = Some Arrived"]) (auto simp: settle_drain_frame)
qed simp

section \<open>The spool\<close>

definition spool_ok :: "bridge \<Rightarrow> bool" where
  "spool_ok br \<longleftrightarrow> distinct (map pd_key (br_pending br)) \<and> (\<forall>p \<in> set (br_pending br). pd_attempts p < DRAIN_MAX_ATTEMPTS)"

lemma pending_put [simp]: "br_pending (put_receipt now key ho ex se st ro er di br) = br_pending br"
  by (simp add: put_receipt_def)

lemma spool_ok_cong: "br_pending br' = br_pending br \<Longrightarrow> spool_ok br \<Longrightarrow> spool_ok br'"
  by (simp add: spool_ok_def)

lemma spool_ok_drop: "spool_ok br \<Longrightarrow> spool_ok (drop_pending key br)"
  by (simp add: spool_ok_def drop_pending_def distinct_map_del_where set_del_where)

lemma spool_ok_upd:
  assumes "spool_ok br" "\<And>p. pd_key (f p) = pd_key p"
    "\<And>p. pd_attempts p < DRAIN_MAX_ATTEMPTS \<Longrightarrow> pd_attempts (f p) < DRAIN_MAX_ATTEMPTS"
  shows "spool_ok (br\<lparr>br_pending := upd_where P f (br_pending br)\<rparr>)"
proof -
  have "map pd_key (upd_where P f (br_pending br)) = map pd_key (br_pending br)"
    using assms(2) by (intro map_upd_where)
  then show ?thesis using assms by (auto simp: spool_ok_def set_upd_where)
qed

lemma spool_ok_postpone: "spool_ok br \<Longrightarrow> spool_ok (postpone now key br)"
  unfolding postpone_def by (rule spool_ok_upd) auto

lemma spool_ok_spool: "spool_ok br \<Longrightarrow> spool_ok (spool now key ho se idy co br)"
  by (auto simp: spool_ok_def spool_def DRAIN_MAX_ATTEMPTS_def get_by_None split: option.split)

lemma spool_ok_direct: "spool_ok br \<Longrightarrow> spool_ok (settle_direct sha env ho ex se key co out br)"
  by (auto simp: settle_direct_def Let_def intro!: spool_ok_postpone spool_ok_drop
      intro: spool_ok_cong split: outcome.split)

lemma spool_ok_drain: "spool_ok br \<Longrightarrow> spool_ok (settle_drain sha env p out br)"
  by (auto simp: settle_drain_def Let_def intro!: spool_ok_upd spool_ok_drop
      intro: spool_ok_cong split: outcome.split)

lemma spool_ok_step: "spool_ok (wo_bridge w) \<Longrightarrow> spool_ok (wo_bridge (cron_step sha dumps op w))"
proof (cases op)
  case (Deliver env home session content identity media)
  assume "spool_ok (wo_bridge w)"
  then show ?thesis unfolding Deliver cron_step.simps
    by (rule_tac deliver_bridge [of sha dumps env home session content identity media w])
       (auto intro: spool_ok_direct spool_ok_drop spool_ok_spool)
next
  case (Drain bound now env)
  assume "spool_ok (wo_bridge w)"
  then show ?thesis unfolding Drain cron_step.simps
    by (intro drain_bridge [of now w spool_ok] spool_ok_drain)
qed simp

interpretation ca: sealing_store "cron_step sha dumps" "\<lambda>w. spool_ok (wo_bridge w)" "\<lambda>k w. accounted k (wo_bridge w)"
  for sha dumps
  by unfold_locales (auto intro: spool_ok_step accounted_step)

interpretation cf: sealing_store "cron_step sha dumps" "\<lambda>w. spool_ok (wo_bridge w)"
    "\<lambda>k w. status_of k (wo_bridge w) = Some Arrived"
  for sha dumps
  by unfold_locales (auto intro: arrived_step)

definition cron_history :: "(string \<Rightarrow> string) \<Rightarrow> (json \<Rightarrow> string) \<Rightarrow> session_db \<Rightarrow> cron_op list \<Rightarrow> world" where
  "cron_history sha dumps db ops = fold (cron_step sha dumps) ops \<lparr>wo_bridge = bridge_empty, wo_db = db\<rparr>"

lemma spool_ok_history: "spool_ok (wo_bridge (cron_history sha dumps db ops))"
  unfolding cron_history_def by (rule ca.run_inv) (simp add: spool_ok_def bridge_empty_def)

abbreviation key_of :: "(string \<Rightarrow> string) \<Rightarrow> string \<Rightarrow> string \<Rightarrow> json \<Rightarrow> string" where
  "key_of sha home session identity \<equiv> delivery_key sha home (py_strip (str_field (jget ''job_id'' identity)))
     (py_strip (str_field (jget ''execution_id'' identity))) session"

section \<open>Properties\<close>

lemma deliver_accounted:
  assumes "ce_bound env" and "refuse_report identity content media = None"
  shows "accounted (key_of sha home session identity) (wo_bridge (fold (cron_step sha dumps) later
    (snd (deliver sha dumps env home session content identity media (cron_history sha dumps db earlier)))))"
proof (rule ca.run_sealed)
  let ?w = "cron_history sha dumps db earlier"
  let ?d = "deliver sha dumps env home session content identity media ?w"
  show "spool_ok (wo_bridge (snd ?d))"
    using spool_ok_step [OF spool_ok_history, of sha dumps "Deliver env home session content identity media"] by simp
  show "accounted (key_of sha home session identity) (wo_bridge (snd ?d))"
  proof (rule deliver_bridge [of sha dumps env home session content identity media ?w])
    assume "fst ?d = Unavailable \<or> (\<exists>e. fst ?d = Refused e)"
    then show ?thesis using assms
      by (auto simp: deliver_def Let_def split: option.splits prod.splits outcome.splits if_splits)
  next
    fix key br
    assume "key = key_of sha home session identity" "status_of key br = Some Arrived"
      "wo_bridge (snd ?d) = drop_pending key br"
    then show ?thesis by (simp add: accounted_def)
  next
    fix key br ex out
    assume "key = key_of sha home session identity"
      "br = spool (ce_now env) key home session identity content (wo_bridge ?w)"
      "wo_bridge (snd ?d) = settle_direct sha env home ex session key content out br"
    then show ?thesis by (simp add: accounted_direct)
  qed
qed


definition demo_identity :: json where
  "demo_identity = JObj [(''job_id'', JStr ''j''), (''execution_id'', JStr ''e'')]"

lemma demo_accepted: "refuse_report demo_identity ''x'' False = None"
  by (simp add: refuse_report_def identity_error_def demo_identity_def py_str_defs REPORT_MAX_BYTES_def)


text \<open>
  A delivered receipt is final: after an answer \<open>delivered\<close> the receipt says so through every
  later history, and the report has left the spool by then.
\<close>

theorem cron_delivered_is_final:
  assumes "deliver sha dumps env home session content identity media (cron_history sha dumps db earlier)
    = (Answer (Delivered i), w)"
  shows "status_of (key_of sha home session identity) (wo_bridge (fold (cron_step sha dumps) later w)) = Some Arrived
    \<and> \<not> spooled (key_of sha home session identity) (wo_bridge w)"
proof
  let ?key = "key_of sha home session identity"
  let ?W = "cron_history sha dumps db earlier"
  obtain out db' where at: "attempt sha dumps RESOLVE_RETRIES (ce_attempts env) session content identity ?key
      (wo_db ?W) = (out, db')" by fastforce
  have b: "wo_bridge w = settle_direct sha env home (py_strip (str_field (jget ''execution_id'' identity))) session
      ?key content (Delivered i) (spool (ce_now env) ?key home session identity content (wo_bridge ?W))"
    using assms at by (auto simp: deliver_def Let_def split: option.splits if_splits outcome.splits)
  show "\<not> spooled ?key (wo_bridge w)" by (simp add: b settle_direct_frame)
  show "status_of ?key (wo_bridge (fold (cron_step sha dumps) later w)) = Some Arrived"
  proof (rule cf.run_sealed)
    show "spool_ok (wo_bridge w)"
      using spool_ok_step [OF spool_ok_history [of sha dumps db earlier], of sha dumps "Deliver env home session content identity media"]
      by (simp add: assms)
    show "status_of ?key (wo_bridge w) = Some Arrived" by (simp add: b settle_direct_frame)
  qed
qed

definition demo_attempt :: attempt_env where
  "demo_attempt = \<lparr>ae_fault = NoFault, ae_target = ''s'', ae_now = 1, ae_row_id = 7\<rparr>"

definition demo_db :: session_db where
  "demo_db = \<lparr>db_sessions = [\<lparr>ses_id = ''s'', ses_source = Some ''api'', ses_hidden = False, ses_archived = False,
     ses_ended_at = None, ses_end_reason = None, ses_parent = None\<rparr>], db_messages = [], db_leases = []\<rparr>"

lemma demo_delivered:
  "attempt sha dumps (Suc n) (\<lambda>_. demo_attempt) ''s'' ''x'' demo_identity key demo_db
   = (Delivered 7, demo_db\<lparr>db_messages := [report_row sha dumps demo_attempt ''s'' ''x'' demo_identity key]\<rparr>)"
  by (simp add: write_once_def demo_attempt_def demo_db_def existing_report_def target_refused_def table_simps)

theorem cron_delivered_is_final_witness:
  "\<exists>env w. deliver (\<lambda>s. s) (\<lambda>_. []) env ''h'' ''s'' ''x'' demo_identity False (cron_history (\<lambda>s. s) (\<lambda>_. []) demo_db [])
     = (Answer (Delivered 7), w)
   \<and> status_of (key_of (\<lambda>s. s) ''h'' ''s'' demo_identity)
       (wo_bridge (fold (cron_step (\<lambda>s. s) (\<lambda>_. [])) [Drain True 5 (\<lambda>_. env)] w)) = Some Arrived"
proof -
  let ?env = "\<lparr>ce_bound = True, ce_now = 1, ce_attempts = (\<lambda>_. demo_attempt), ce_hook = None\<rparr>"
  obtain w where d: "deliver (\<lambda>s. s) (\<lambda>_. []) ?env ''h'' ''s'' ''x'' demo_identity False
      (cron_history (\<lambda>s. s) (\<lambda>_. []) demo_db []) = (Answer (Delivered 7), w)"
    using demo_delivered [of "\<lambda>s. s" "\<lambda>_. []" 2] demo_accepted
    by (simp add: deliver_def Let_def cron_history_def bridge_empty_def spool_def RESOLVE_RETRIES_def numeral_3_eq_3
        table_simps del: attempt.simps)
  from cron_delivered_is_final [OF this] d show ?thesis by blast
qed

section \<open>Retries\<close>

lemma hook_pending: "br_pending (self_wake_intent hook now ho se key ro re br) = br_pending br"
  by simp

text \<open>Settling one row of a pass leaves every other spooled row alone.\<close>

lemma settle_drain_other:
  assumes "spool_ok br" "k \<noteq> pd_key p"
  shows "get_by pd_key k (br_pending (settle_drain sha env p out br)) = get_by pd_key k (br_pending br)"
proof -
  have d: "distinct (map pd_key (br_pending br))" using assms(1) by (simp add: spool_ok_def)
  have drop: "get_by pd_key k (br_pending (drop_pending (pd_key p) br)) = get_by pd_key k (br_pending br)"
    using assms(2) d by (auto simp: drop_pending_def get_by_del_where split: option.split dest: get_by_SomeD)
  show ?thesis
    using drop assms(2)
    by (auto simp: settle_drain_def Let_def get_by_upd_where split: outcome.split
        intro!: option.map_ident_strong dest: get_by_SomeD)
qed

definition retried :: "time \<Rightarrow> pending \<Rightarrow> bridge \<Rightarrow> bool" where
  "retried now p br \<longleftrightarrow> (\<exists>q. get_by pd_key (pd_key p) (br_pending br) = Some q \<and> pd_attempts q = pd_attempts p + 1
     \<and> pd_attempts q < 24 \<and> now + 60 \<le> pd_next q \<and> pd_next q \<le> now + 900 \<and> pd_content q = pd_content p)"

text \<open>A row of the pass ends with a final receipt, or waits for a later try.\<close>

definition advanced :: "time \<Rightarrow> pending \<Rightarrow> bridge \<Rightarrow> bool" where
  "advanced now p br \<longleftrightarrow> (\<not> spooled (pd_key p) br \<and> (status_of (pd_key p) br = Some Arrived \<or> status_of (pd_key p) br = Some Failed))
     \<or> retried now p br"

lemma backoff_bounds: "60 \<le> backoff (Suc n)" "backoff n \<le> 900"
proof -
  have "(2::real) ^ 1 \<le> 2 ^ min (Suc n) 5" by (rule power_increasing) auto
  then have "60 \<le> (30::real) * 2 ^ min (Suc n) 5" by simp
  then show "60 \<le> backoff (Suc n)" by (simp add: backoff_def DRAIN_BACKOFF_CAP_def DRAIN_BACKOFF_BASE_def)
  show "backoff n \<le> 900" by (simp add: backoff_def DRAIN_BACKOFF_CAP_def)
qed

lemma advanced_settle:
  assumes ok: "spool_ok br" and p: "get_by pd_key (pd_key p) (br_pending br) = Some p"
  shows "advanced (ce_now env) p (settle_drain sha env p out br)"
proof (cases "(\<exists>x. out = QueuedFor x \<or> out = Error x) \<and> pd_attempts p + 1 < DRAIN_MAX_ATTEMPTS")
  case False
  then have "\<not> spooled (pd_key p) (settle_drain sha env p out br)" by (simp add: settle_drain_frame)
  moreover have "status_of (pd_key p) (settle_drain sha env p out br) \<in> {Some Arrived, Some Failed}"
    using False by (auto simp: settle_drain_frame split: outcome.splits)
  ultimately show ?thesis by (auto simp: advanced_def)
next
  case True
  then have "br_pending (settle_drain sha env p out br) = upd_where (\<lambda>q. pd_key q = pd_key p)
      (\<lambda>q. q\<lparr>pd_attempts := pd_attempts p + 1, pd_next := ce_now env + backoff (pd_attempts p + 1), pd_updated := ce_now env\<rparr>)
      (br_pending br)"
    by (auto simp: settle_drain_def Let_def)
  then have "get_by pd_key (pd_key p) (br_pending (settle_drain sha env p out br)) =
      Some (p\<lparr>pd_attempts := pd_attempts p + 1, pd_next := ce_now env + backoff (pd_attempts p + 1), pd_updated := ce_now env\<rparr>)"
    using p by (simp add: get_by_upd_where)
  moreover have "pd_attempts p + 1 < 24" using True by (simp add: DRAIN_MAX_ATTEMPTS_def)
  ultimately show ?thesis
    using backoff_bounds [of "pd_attempts p"] backoff_bounds(2) [of "Suc (pd_attempts p)"]
    by (auto simp: advanced_def retried_def)
qed

lemma advanced_other:
  assumes "spool_ok br" "pd_key p \<noteq> pd_key p'" "advanced now p br"
  shows "advanced now p (settle_drain sha env p' out br)"
  using assms settle_drain_other [OF assms(1,2), of sha env out]
  by (simp add: advanced_def retried_def settle_drain_frame)

lemma drain_rows_cons: "snd (drain_rows sha dumps env (p # ps) s w) =
  snd (drain_rows sha dumps env ps (count_outcome p (fst (drain_row sha dumps (env (pd_key p)) p w)) s)
    (snd (drain_row sha dumps (env (pd_key p)) p w)))"
  by (simp split: prod.split)

lemma drain_row_bridge: "\<exists>out. wo_bridge (snd (drain_row sha dumps env p w)) = settle_drain sha env p out (wo_bridge w)"
  by (simp add: drain_row_def split: prod.split) blast

lemma drain_rows_keeps_advanced:
  "spool_ok (wo_bridge w) \<Longrightarrow> pd_key p \<notin> pd_key ` set ps \<Longrightarrow> advanced now p (wo_bridge w) \<Longrightarrow>
   advanced now p (wo_bridge (snd (drain_rows sha dumps env ps s w)))"
proof (induction ps arbitrary: s w)
  case (Cons x ps)
  let ?w = "snd (drain_row sha dumps (env (pd_key x)) x w)"
  obtain out where b: "wo_bridge ?w = settle_drain sha (env (pd_key x)) x out (wo_bridge w)"
    using drain_row_bridge by blast
  have "spool_ok (wo_bridge ?w)" "advanced now p (wo_bridge ?w)"
    using Cons.prems by (auto simp: b intro: spool_ok_drain advanced_other)
  then show ?case unfolding drain_rows_cons using Cons by simp
qed simp

lemma drain_rows_advance:
  assumes "spool_ok (wo_bridge w)" "distinct (map pd_key ps)" "p \<in> set ps"
    and "\<And>q. q \<in> set ps \<Longrightarrow> get_by pd_key (pd_key q) (br_pending (wo_bridge w)) = Some q"
  shows "advanced (ce_now (env (pd_key p))) p (wo_bridge (snd (drain_rows sha dumps env ps s w)))"
  using assms
proof (induction ps arbitrary: s w)
  case (Cons x ps)
  let ?w = "snd (drain_row sha dumps (env (pd_key x)) x w)"
  obtain out where b: "wo_bridge ?w = settle_drain sha (env (pd_key x)) x out (wo_bridge w)"
    using drain_row_bridge by blast
  have ok: "spool_ok (wo_bridge ?w)" using Cons.prems(1) by (simp add: b spool_ok_drain)
  show ?case
  proof (cases "p = x")
    case True
    have "advanced (ce_now (env (pd_key x))) x (wo_bridge ?w)"
      unfolding b by (rule advanced_settle) (use Cons.prems in auto)
    then show ?thesis unfolding drain_rows_cons True
      using Cons.prems ok by (intro drain_rows_keeps_advanced) auto
  next
    case False
    then have "p \<in> set ps" using Cons.prems by auto
    moreover have "get_by pd_key (pd_key q) (br_pending (wo_bridge ?w)) = Some q" if "q \<in> set ps" for q
      using Cons.prems that unfolding b
      by (subst settle_drain_other) (auto simp: image_iff)
    ultimately show ?thesis unfolding drain_rows_cons using Cons ok by simp
  qed
qed simp

text \<open>
  C15. Retries are bounded and end loudly: a retry pass takes every due row either out of the spool,
  with a final receipt, or to its next attempt, at least one and at most fifteen minutes later;
  no row ever has more than 23 failed attempts behind it, and the pass selects at most 32 rows.
\<close>

theorem cron_retry_bounded:
  assumes "p \<in> set (due_rows now (wo_bridge (cron_history sha dumps db ops)))"
    and "drain_home sha dumps True now env (cron_history sha dumps db ops) = (Some s, w)"
  shows "advanced (ce_now (env (pd_key p))) p (wo_bridge w) \<and> pd_attempts p \<le> 23
    \<and> length (due_rows now (wo_bridge (cron_history sha dumps db ops))) \<le> 32"
proof -
  let ?w = "cron_history sha dumps db ops"
  have ok: "spool_ok (wo_bridge ?w)" by (rule spool_ok_history)
  then have d: "distinct (map pd_key (br_pending (wo_bridge ?w)))" by (simp add: spool_ok_def)
  have sub: "set (due_rows now (wo_bridge ?w)) \<subseteq> set (br_pending (wo_bridge ?w))"
    by (auto simp: due_rows_def dest: in_set_takeD)
  have "distinct (map pd_key (due_rows now (wo_bridge ?w)))"
    unfolding due_rows_def take_map [symmetric]
    by (intro distinct_take) (use d in \<open>simp add: distinct_map inj_on_def\<close>)
  moreover have "get_by pd_key (pd_key q) (br_pending (wo_bridge ?w)) = Some q"
    if "q \<in> set (due_rows now (wo_bridge ?w))" for q
    using that sub d by (intro get_by_eq) auto
  ultimately have "advanced (ce_now (env (pd_key p))) p (wo_bridge (snd (drain_rows sha dumps env
      (due_rows now (wo_bridge ?w)) \<lparr>ds_delivered = 0, ds_deduped = 0, ds_queued = 0, ds_failed = 0\<rparr> ?w)))"
    by (intro drain_rows_advance ok assms(1))
  moreover have "pd_attempts p < 24"
    using ok sub assms(1) by (auto simp: spool_ok_def DRAIN_MAX_ATTEMPTS_def)
  ultimately show ?thesis using assms(2)
    by (auto simp: drain_home_def due_rows_def split: prod.splits)
qed

lemma drain_home_answers: "\<exists>s w'. drain_home sha dumps True now env w = (Some s, w')"
  by (simp add: drain_home_def split_beta)

theorem cron_retry_bounded_witness:
  "\<exists>p s w db ops. drain_home (\<lambda>s. s) (\<lambda>_. []) True 40 (\<lambda>_. \<lparr>ce_bound = True, ce_now = 41,
       ce_attempts = (\<lambda>_. demo_attempt\<lparr>ae_fault := BusyDatabase\<rparr>), ce_hook = None\<rparr>)
       (cron_history (\<lambda>s. s) (\<lambda>_. []) db ops) = (Some s, w)
     \<and> p \<in> set (due_rows 40 (wo_bridge (cron_history (\<lambda>s. s) (\<lambda>_. []) db ops)))
     \<and> advanced 41 p (wo_bridge w)"
proof -
  let ?env = "\<lparr>ce_bound = True, ce_now = 1, ce_attempts = (\<lambda>_. demo_attempt\<lparr>ae_fault := BusyDatabase\<rparr>), ce_hook = None\<rparr>"
  let ?drain = "\<lambda>_. \<lparr>ce_bound = True, ce_now = 41, ce_attempts = (\<lambda>_. demo_attempt\<lparr>ae_fault := BusyDatabase\<rparr>), ce_hook = None\<rparr>"
  let ?ops = "[Deliver ?env ''h'' ''s'' ''x'' demo_identity False]"
  let ?h = "cron_history (\<lambda>s. s) (\<lambda>_. []) demo_db ?ops"
  let ?k = "key_of (\<lambda>s. s) ''h'' ''s'' demo_identity"
  let ?p = "\<lparr>pd_key = ?k, pd_home = ''h'', pd_session = ''s'', pd_identity = demo_identity, pd_content = ''x'',
    pd_attempts = 0, pd_next = 31, pd_created = 1, pd_updated = 1\<rparr>"
  have at: "attempt sha dumps RESOLVE_RETRIES (\<lambda>_. demo_attempt\<lparr>ae_fault := BusyDatabase\<rparr>) ses co idy key db
      = (QueuedFor ''db_busy'', db)" for sha dumps ses co idy key db
    by (simp add: RESOLVE_RETRIES_def numeral_3_eq_3 write_once_def demo_attempt_def)
  have "br_pending (wo_bridge ?h) = [?p]"
    using demo_accepted
    by (simp add: cron_history_def deliver_def Let_def at bridge_empty_def spool_def settle_direct_def postpone_def
        DRAIN_BACKOFF_BASE_def table_simps)
  then have p: "?p \<in> set (due_rows 40 (wo_bridge ?h))"
    by (simp add: due_rows_def DRAIN_MAX_ATTEMPTS_def)
  obtain s w where d: "drain_home (\<lambda>s. s) (\<lambda>_. []) True 40 ?drain ?h = (Some s, w)"
    using drain_home_answers by blast
  have "advanced 41 ?p (wo_bridge w)" using cron_retry_bounded [OF p d] by simp
  with p d show ?thesis by blast
qed

section \<open>Replays\<close>

lemma write_inserted:
  assumes "write_once sha dumps env original content identity key db = (Inserted i, db')"
  shows "i = ae_row_id env \<and> db' = db\<lparr>db_messages := db_messages db @ [report_row sha dumps env original content identity key]\<rparr>"
  using assms by (auto simp: write_once_def split: if_splits option.splits)

lemma attempt_inserted:
  "attempt sha dumps n env original content identity key db = (Delivered i, db') \<Longrightarrow>
   \<exists>m. i = ae_row_id (env m) \<and> db' = db\<lparr>db_messages := db_messages db @ [report_row sha dumps (env m) original content identity key]\<rparr>"
proof (induction n)
  case (Suc n)
  obtain r db1 where w: "write_once sha dumps (env n) original content identity key db = (r, db1)" by fastforce
  show ?case
  proof (cases r)
    case (Inserted j)
    with Suc.prems w write_inserted [of sha dumps "env n" original content identity key db j db1] show ?thesis
      by (auto split: fault.splits)
  next
    case (Faulted f)
    have "db1 = db" using w Faulted by (auto simp: write_once_def split: if_splits option.splits)
    with Faulted Suc w show ?thesis by (auto split: fault.splits)
  qed (use Suc.prems w in \<open>auto split: fault.splits\<close>)
qed simp

lemma report_row_field:
  "cron_field dumps ''delivery_key'' (report_row sha dumps' env original content identity key) = SText key"
  "digest_conflict (sha content) (report_row sha dumps' env original content identity key) = False"
  by (simp_all add: cron_field_def report_row_def report_meta_def METADATA_NS_def digest_conflict_def)

lemma first_where_snoc: "(\<And>m. m \<in> set ms \<Longrightarrow> \<not> P m) \<Longrightarrow> P x \<Longrightarrow> first_where P (ms @ [x]) = Some x"
  by (induction ms) (auto simp: table_simps)

text \<open>
  A crash between the commit of a report and its receipt never writes it twice: a replay under
  the same key, whatever happened to the sessions since, returns the old row and changes nothing,
  as long as the session the target now resolves to descends by compression from the old one.
\<close>

theorem cron_replay_returns_old_row:
  assumes "attempt sha dumps n env original content identity key db = (Delivered i, db1)"
    and "list_all (\<lambda>m. cron_field dumps ''delivery_key'' m \<noteq> SText key) (db_messages db)"
    and "db2 = db1\<lparr>db_sessions := ss\<rparr>"
    and "msg_session (last (db_messages db1)) \<in> set (lineage ss (ae_target (env' n')))"
    and "ae_fault (env' n') \<in> {NoFault, TurnLost, ClosedParent}"
  shows "attempt sha dumps (Suc n') env' original content identity key db2 = (Dedup i, db2)"
proof -
  obtain m where i: "i = ae_row_id (env m)" and db1: "db1 = db\<lparr>db_messages := db_messages db
      @ [report_row sha dumps (env m) original content identity key]\<rparr>"
    using attempt_inserted [OF assms(1)] by blast
  let ?r = "report_row sha dumps (env m) original content identity key"
  have r: "msg_session ?r = ae_target (env m)" "msg_kind ?r = Some DISPLAY_KIND" "msg_id ?r = i"
    by (simp_all add: report_row_def i)
  have "existing_report dumps (ae_target (env' n')) key db2 = Some ?r"
    unfolding existing_report_def assms(3) db1
    using assms(2,4) by (simp, intro first_where_snoc) (auto simp: list_all_iff report_row_field db1 r)
  then have "write_once sha dumps (env' n') original content identity key db2 = (Existing i, db2)"
    using assms(5) by (auto simp: write_once_def report_row_field r)
  then show ?thesis using assms(5) by auto
qed

theorem cron_replay_returns_old_row_witness:
  "\<exists>db1. attempt (\<lambda>s. s) (\<lambda>_. []) 3 (\<lambda>_. demo_attempt) ''s'' ''x'' demo_identity ''k'' demo_db = (Delivered 7, db1)
     \<and> attempt (\<lambda>s. s) (\<lambda>_. []) 1 (\<lambda>_. demo_attempt\<lparr>ae_fault := TurnLost\<rparr>) ''s'' ''x'' demo_identity ''k''
         (db1\<lparr>db_sessions := []\<rparr>) = (Dedup 7, db1\<lparr>db_sessions := []\<rparr>)"
proof -
  let ?db1 = "demo_db\<lparr>db_messages := [report_row (\<lambda>s. s) (\<lambda>_. []) demo_attempt ''s'' ''x'' demo_identity ''k'']\<rparr>"
  have a: "attempt (\<lambda>s. s) (\<lambda>_. []) (Suc 2) (\<lambda>_. demo_attempt) ''s'' ''x'' demo_identity ''k'' demo_db = (Delivered 7, ?db1)"
    by (rule demo_delivered)
  have "attempt (\<lambda>s. s) (\<lambda>_. []) (Suc 0) (\<lambda>_. demo_attempt\<lparr>ae_fault := TurnLost\<rparr>) ''s'' ''x'' demo_identity ''k''
      (?db1\<lparr>db_sessions := []\<rparr>) = (Dedup 7, ?db1\<lparr>db_sessions := []\<rparr>)"
    by (rule cron_replay_returns_old_row [OF a])
       (simp_all add: demo_db_def demo_attempt_def report_row_def lineage_self)
  with a show ?thesis by (intro exI [of _ ?db1]) (simp del: attempt.simps add: numeral_3_eq_3 numeral_2_eq_2)
qed

text \<open>
  What the writer writes, the reader verifies: the row of a delivered report carries a
  provenance that \<open>provenance_of\<close> accepts, with the trimmed identity and the delivery key, whatever
  else the caller's identity contained, provided the digest is 64 lower-case hexadecimal digits.
\<close>

theorem cron_written_report_verified:
  assumes "attempt sha dumps n env original content identity key db = (Delivered i, db1)"
    and "identity_error identity = None" and "hex_key key" and "py_lower key = key"
  shows "(let m = last (db_messages db1) in msg_id m = i \<and>
    provenance_of (msg_role m) (msg_kind m) (msg_meta m) = Some \<lparr>
      pv_job = py_strip (str_field (jget ''job_id'' identity)),
      pv_execution = py_strip (str_field (jget ''execution_id'' identity)), pv_key = key\<rparr>)"
proof -
  obtain m where i: "i = ae_row_id (env m)" and db1: "db1 = db\<lparr>db_messages := db_messages db
      @ [report_row sha dumps (env m) original content identity key]\<rparr>"
    using attempt_inserted [OF assms(1)] by blast
  have f: "\<exists>s. x = Some (JStr s) \<and> py_strip s \<noteq> []" if "filled_str x \<noteq> None" for x
    using that by (cases x rule: filled_str.cases) (auto split: if_splits)
  obtain job ex where "jget ''job_id'' identity = Some (JStr job)" "py_strip job \<noteq> []"
    "jget ''execution_id'' identity = Some (JStr ex)" "py_strip ex \<noteq> []"
    using assms(2) f [of "jget ''job_id'' identity"] f [of "jget ''execution_id'' identity"]
    by (auto simp: identity_error_def split: if_splits)
  moreover have "py_strip key \<noteq> []"
  proof -
    obtain c where c: "c \<in> set key" "hex_digit c"
      using assms(3,4) by (cases key) (auto simp: hex_key_def)
    then have "\<not> py_space c" by (auto simp: hex_digit_def py_space_def)
    then have "\<not> (\<forall>x \<in> set (py_lstrip key). py_space x)" using c(1)
      by (auto simp: py_lstrip_def) (metis UnE set_append set_takeWhileD takeWhile_dropWhile_id)
    then show ?thesis by (auto simp: py_strip_def py_rstrip_def)
  qed
  ultimately show ?thesis
    using assms(3,4) by (simp add: Let_def i db1 report_row_def provenance_of_def report_meta_def METADATA_NS_def)
qed

theorem cron_written_report_verified_witness:
  "\<exists>db1. attempt (\<lambda>s. s) (\<lambda>_. []) 3 (\<lambda>_. demo_attempt) ''s'' ''x'' demo_identity (replicate 64 (CHR ''a'')) demo_db = (Delivered 7, db1)
    \<and> provenance_of ''user'' (Some DISPLAY_KIND) (msg_meta (last (db_messages db1)))
      = Some \<lparr>pv_job = ''j'', pv_execution = ''e'', pv_key = replicate 64 (CHR ''a'')\<rparr>"
proof -
  let ?k = "replicate 64 (CHR ''a'')"
  let ?db1 = "demo_db\<lparr>db_messages := [report_row (\<lambda>s. s) (\<lambda>_. []) demo_attempt ''s'' ''x'' demo_identity ?k]\<rparr>"
  have a: "attempt (\<lambda>s. s) (\<lambda>_. []) (Suc 2) (\<lambda>_. demo_attempt) ''s'' ''x'' demo_identity ?k demo_db = (Delivered 7, ?db1)"
    by (rule demo_delivered)
  have e: "identity_error demo_identity = None" by (simp add: identity_error_def demo_identity_def py_str_defs)
  have h: "hex_key ?k" "py_lower ?k = ?k"
    by (simp_all add: hex_key_def py_lower_def lower_char_def hex_digit_def list_all_iff)
  from cron_written_report_verified [OF a e h] have
    "provenance_of ''user'' (Some DISPLAY_KIND) (msg_meta (last (db_messages ?db1)))
      = Some \<lparr>pv_job = ''j'', pv_execution = ''e'', pv_key = ?k\<rparr>"
    by (simp add: Let_def report_row_def demo_identity_def py_str_defs)
  with a show ?thesis by (intro exI [of _ ?db1]) (simp del: attempt.simps add: numeral_3_eq_3 numeral_2_eq_2)
qed

end
