(* ===== verification/Ledger_Retention.thy ===== *)
theory Ledger_Retention
  imports Notification_Store Wake_Properties Cron_Bridge
begin

text \<open>
  \<open>compat/ledger_retention.py\<close>: the bounded archive of expired terminal rows, one transaction per
  database. An archive is the table \<open>retention_archive\<close> of that database, its payload the archived
  row. A database file that does not exist is \<^const>\<open>None\<close>.
\<close>

definition TTL_SECONDS :: time where "TTL_SECONDS = 90 * 86400"
definition BATCH :: nat where "BATCH = 100"

datatype archive_row =
    EventRow event | DeliveryRow delivery | ReadRow read_ack
  | BatchRow batch | ConsumptionRow consumption | ReceiptRow bridge_receipt

record archived =
  ar_table :: string
  ar_key :: string
  ar_at :: time
  ar_row :: archive_row

text \<open>\<open>INSERT OR IGNORE\<close> on the key (table, record key).\<close>

definition archive_one :: "string \<Rightarrow> time \<Rightarrow> string \<times> archive_row \<Rightarrow> archived list \<Rightarrow> archived list" where
  "archive_one table now kr arch = (if list_ex (\<lambda>e. ar_table e = table \<and> ar_key e = fst kr) arch then arch
     else arch @ [\<lparr>ar_table = table, ar_key = fst kr, ar_at = now, ar_row = snd kr\<rparr>])"

definition archive :: "string \<Rightarrow> time \<Rightarrow> (string \<times> archive_row) list \<Rightarrow> archived list \<Rightarrow> archived list" where
  "archive table now rows arch = fold (archive_one table now) rows arch"

section \<open>The three passes\<close>

definition event_expired :: "time \<Rightarrow> notif_store \<Rightarrow> event \<Rightarrow> bool" where
  "event_expired cutoff st e = ((case ev_read_at e of None \<Rightarrow> False | Some t \<Rightarrow> t < cutoff)
     \<and> \<not> list_ex (\<lambda>d. dl_event d = ev_id e \<and> dl_state d \<notin> {''shown'', ''sent'', ''failed'', ''unknown''}) (ns_deliveries st))"

definition prune_notification :: "time \<Rightarrow> time \<Rightarrow> notif_store \<times> archived list \<Rightarrow> nat \<times> notif_store \<times> archived list" where
  "prune_notification cutoff now db = (case db of (st, arch) \<Rightarrow>
     let rows = take BATCH (filter (event_expired cutoff st) (ns_events st));
         ids = map ev_id rows;
         arch1 = archive ''deliveries'' now (map (\<lambda>d. (dl_id d, DeliveryRow d))
           (filter (\<lambda>d. dl_event d \<in> set ids) (ns_deliveries st))) arch;
         arch2 = archive ''read_events'' now (map (\<lambda>a. (ra_event a @ '':'' @ ra_reader a, ReadRow a))
           (filter (\<lambda>a. ra_event a \<in> set ids) (ns_reads st))) arch1;
         arch3 = archive ''events'' now (map (\<lambda>e. (ev_id e, EventRow e)) rows) arch2
     in (length rows,
         st\<lparr>ns_deliveries := del_where (\<lambda>d. dl_event d \<in> set ids) (ns_deliveries st),
            ns_reads := del_where (\<lambda>a. ra_event a \<in> set ids) (ns_reads st),
            ns_events := del_where (\<lambda>e. ev_id e \<in> set ids) (ns_events st)\<rparr>, arch3))"

definition batch_expired :: "time \<Rightarrow> batch \<Rightarrow> bool" where
  "batch_expired cutoff b = (wb_state b \<in> {Terminal, Uncertain, Released}
     \<and> (case wb_terminal b of None \<Rightarrow> False | Some t \<Rightarrow> t < cutoff))"

definition prune_wake :: "time \<Rightarrow> time \<Rightarrow> wake_ledger \<times> archived list \<Rightarrow> nat \<times> wake_ledger \<times> archived list" where
  "prune_wake cutoff now db = (case db of (st, arch) \<Rightarrow>
     let rows = take BATCH (filter (batch_expired cutoff) (wl_batches st));
         ids = map wb_id rows;
         gone = (\<lambda>c. case wc_batch c of None \<Rightarrow> False | Some i \<Rightarrow> i \<in> set ids);
         arch1 = archive ''wake_consumption'' now (map (\<lambda>c. (wc_key c, ConsumptionRow c)) (filter gone (wl_rows st))) arch;
         arch2 = archive ''wake_batches'' now (map (\<lambda>b. (wb_id b, BatchRow b)) rows) arch1
     in (length rows,
         \<lparr>wl_batches = del_where (\<lambda>b. wb_id b \<in> set ids) (wl_batches st), wl_rows = del_where gone (wl_rows st)\<rparr>, arch2))"

definition prune_cron :: "time \<Rightarrow> time \<Rightarrow> bridge \<times> archived list \<Rightarrow> nat \<times> bridge \<times> archived list" where
  "prune_cron cutoff now db = (case db of (br, arch) \<Rightarrow>
     let rows = take BATCH (filter (\<lambda>r. rc_status r \<in> {Arrived, Failed} \<and> rc_updated r < cutoff
           \<and> \<not> list_ex (\<lambda>p. pd_key p = rc_key r) (br_pending br)) (br_receipts br));
         ids = map rc_key rows;
         arch1 = archive ''receipts'' now (map (\<lambda>r. (rc_key r, ReceiptRow r)) rows) arch
     in (length rows, br\<lparr>br_receipts := del_where (\<lambda>r. rc_key r \<in> set ids) (br_receipts br)\<rparr>, arch1))"

record home_dbs =
  hd_notification :: "(notif_store \<times> archived list) option"
  hd_wake :: "(wake_ledger \<times> archived list) option"
  hd_cron :: "(bridge \<times> archived list) option"

definition prune_file :: "('a \<Rightarrow> nat \<times> 'a) \<Rightarrow> 'a option \<Rightarrow> nat \<times> 'a option" where
  "prune_file prune file = (case file of None \<Rightarrow> (0, None) | Some db \<Rightarrow> apsnd Some (prune db))"

definition prune_home :: "time \<Rightarrow> home_dbs \<Rightarrow> (nat \<times> nat \<times> nat) \<times> home_dbs" where
  "prune_home now h = (let cutoff = now - TTL_SECONDS;
       (n, f1) = prune_file (prune_notification cutoff now) (hd_notification h);
       (w, f2) = prune_file (prune_wake cutoff now) (hd_wake h);
       (c, f3) = prune_file (prune_cron cutoff now) (hd_cron h)
     in ((n, w, c), \<lparr>hd_notification = f1, hd_wake = f2, hd_cron = f3\<rparr>))"

section \<open>The archive\<close>

definition filed :: "archived list \<Rightarrow> string \<Rightarrow> string \<Rightarrow> bool" where
  "filed arch table key \<longleftrightarrow> (\<exists>e \<in> set arch. ar_table e = table \<and> ar_key e = key)"

text \<open>The row itself is in the archive.\<close>

definition kept :: "archived list \<Rightarrow> string \<Rightarrow> string \<Rightarrow> archive_row \<Rightarrow> bool" where
  "kept arch table key row \<longleftrightarrow> (\<exists>e \<in> set arch. ar_table e = table \<and> ar_key e = key \<and> ar_row e = row)"

lemma archive_one_filed: "filed (archive_one table now kr arch) t k \<longleftrightarrow> filed arch t k \<or> (t = table \<and> k = fst kr)"
  by (auto simp: archive_one_def filed_def list_ex_iff)

lemma archive_one_keeps: "kept arch t k r \<Longrightarrow> kept (archive_one table now kr arch) t k r"
  by (auto simp: archive_one_def kept_def)

lemma archive_keeps: "kept arch t k r \<Longrightarrow> kept (archive table now rows arch) t k r"
  unfolding archive_def by (induction rows arbitrary: arch) (auto intro: archive_one_keeps)

lemma archive_filed: "filed (archive table now rows arch) t k \<longleftrightarrow> filed arch t k \<or> (t = table \<and> k \<in> fst ` set rows)"
  unfolding archive_def by (induction rows arbitrary: arch) (auto simp: archive_one_filed)

lemma archive_new:
  "(k, r) \<in> set rows \<Longrightarrow> distinct (map fst rows) \<Longrightarrow> \<not> filed arch table k \<Longrightarrow> kept (archive table now rows arch) table k r"
proof (induction rows arbitrary: arch)
  case (Cons x rows)
  show ?case
  proof (cases "x = (k, r)")
    case True
    then have "kept (archive_one table now x arch) table k r"
      using Cons.prems(3) by (auto simp: archive_one_def kept_def filed_def list_ex_iff)
    then show ?thesis using archive_keeps by (simp add: archive_def)
  next
    case False
    then have "(k, r) \<in> set rows" "fst x \<noteq> k" using Cons.prems by (auto simp: image_iff)
    then show ?thesis using Cons.prems Cons.IH [of "archive_one table now x arch"]
      by (simp add: archive_def archive_one_filed)
  qed
qed simp

section \<open>The wake ledger\<close>

lemma prune_wake_live:
  assumes p: "prune_wake cutoff now (st, arch) = (n, st', arch')" and d: "distinct (map wb_id (wl_batches st))"
    and b: "b \<in> set (wl_batches st)" "\<not> batch_expired cutoff b"
  shows "b \<in> set (wl_batches st')"
proof -
  have "wb_id b \<notin> wb_id ` set (take BATCH (filter (batch_expired cutoff) (wl_batches st)))"
  proof
    assume "wb_id b \<in> wb_id ` set (take BATCH (filter (batch_expired cutoff) (wl_batches st)))"
    then obtain x where x: "x \<in> set (take BATCH (filter (batch_expired cutoff) (wl_batches st)))" "wb_id x = wb_id b"
      by (metis imageE)
    then have "x \<in> set (wl_batches st)" "batch_expired cutoff x" by (auto dest: in_set_takeD)
    with distinct_key_inj [OF d _ b(1) x(2)] b(2) show False by simp
  qed
  then show ?thesis using p b(1) by (auto simp: prune_wake_def Let_def set_del_where)
qed

lemma wf_prune_wake:
  assumes wf: "wake_wf st" and p: "prune_wake cutoff now (st, arch) = (n, st', arch')"
  shows "wake_wf st'"
proof -
  let ?ids = "set (map wb_id (take BATCH (filter (batch_expired cutoff) (wl_batches st))))"
  let ?gone = "\<lambda>c. case wc_batch c of None \<Rightarrow> False | Some i \<Rightarrow> i \<in> ?ids"
  have st': "st' = \<lparr>wl_batches = del_where (\<lambda>b. wb_id b \<in> ?ids) (wl_batches st), wl_rows = del_where ?gone (wl_rows st)\<rparr>"
    using p unfolding prune_wake_def Let_def prod.case prod.inject by (elim conjE) (rule sym)
  have "keys_held (del_where ?gone (wl_rows st)) b" if "b \<in> set (wl_batches st)" "wb_id b \<notin> ?ids" for b
  proof -
    have "keys_held (wl_rows st) b" using wf that by (simp add: wake_wf_def)
    then show ?thesis using that(2) unfolding keys_held_def set_del_where by fastforce
  qed
  moreover have "row_linked (del_where (\<lambda>b. wb_id b \<in> ?ids) (wl_batches st)) c"
    if "c \<in> set (wl_rows st)" "\<not> ?gone c" for c
  proof -
    have "row_linked (wl_batches st) c" using wf that by (simp add: wake_wf_def)
    then show ?thesis using that(2) by (auto simp: row_linked_def set_del_where split: option.splits)
  qed
  ultimately show ?thesis
    using wf by (auto simp: wake_wf_def st' set_del_where distinct_map_del_where)
qed

section \<open>Properties\<close>


lemma demo_terminal:
  "\<exists>b. wl_batches (wake_history [Admit demo_env 100 ''wb_1'' ''s'' [demo_key] None,
      Gate 102 ''wb_1'' ''s'' (Some CANONICAL_INPUT), Report 103 ''wb_1'' ''s'' ''terminal'' None]) = [b]
    \<and> wb_state b = Terminal \<and> wb_terminal b = Some 103 \<and> demo_key \<in> set (wb_keys b)"
proof -
  let ?b = "new_batch ''wb_1'' ''s'' [demo_key] 100 None"
  obtain q st where a: "admit demo_env 100 ''wb_1'' ''s'' [demo_key] None wake_empty
      = (Admitted ''wb_1'' [(demo_key, 7)] [] [] q, st)" and bs: "wl_batches st = [?b]"
    using demo_admit_answer by blast
  have nb: "wb_run ?b = None" "wb_input ?b = CANONICAL_INPUT" by (simp_all add: new_batch_def)
  define st1 where "st1 = snd (gate_dispatch 102 ''wb_1'' ''s'' (Some CANONICAL_INPUT) st)"
  have st1: "wl_batches st1 = [?b\<lparr>wb_state := Dispatching, wb_updated := 102\<rparr>]"
    by (simp add: st1_def gate_dispatch_def gate_read_def bs nb gate_write_def batch_cas_def table_simps)
  have "wl_batches (snd (report 103 ''wb_1'' ''s'' ''terminal'' None st1))
      = [?b\<lparr>wb_state := Terminal, wb_updated := 103, wb_terminal := Some 103\<rparr>]"
    by (simp add: report_def report_read_def report_write_def report_cas_def batch_cas_def st1 table_simps)
  then show ?thesis by (simp add: wake_history_def a st1_def [symmetric])
qed


text \<open>
  Consumption lasts as long as its batch: when the batch of a settled report is archived, its
  key is unknown to the ledger again, so the report can be admitted and run a second time.
\<close>

theorem retention_forgets_consumption:
  assumes "get_by wb_id bid (wl_batches (wake_history ops)) = Some b" and "batch_expired cutoff b" and "spent (wb_state b)"
    and "length (wl_batches (wake_history ops)) \<le> 100" and "k \<in> set (wb_keys b)"
  shows "map_option fst (ledger_state_for k (wake_history ops)) = Some Consumed
    \<and> ledger_state_for k (fst (snd (prune_wake cutoff now (wake_history ops, arch)))) = None"
proof
  let ?st = "wake_history ops"
  have wf: "wake_wf ?st" unfolding wake_history_def by (rule wr.run_inv [OF wake_wf_empty])
  have b: "b \<in> set (wl_batches ?st)" "wb_id b = bid" using get_by_SomeD [OF assms(1)] by auto
  have "keys_held (wl_rows ?st) b" using wf b(1) by (simp add: wake_wf_def)
  then obtain c where c: "c \<in> set (wl_rows ?st)" "wc_key c = k" "wc_batch c = Some bid"
    using assms(3,5) b(2) unfolding keys_held_def by auto
  have d: "distinct (map wc_key (wl_rows ?st))" using wf by (simp add: wake_wf_def)
  have "get_by wc_key k (wl_rows ?st) = Some c" using get_by_eq [OF d c(1)] c(2) by simp
  moreover have "wc_state c = Consumed" using row_live [OF wf c(1,3)] by simp
  ultimately show "map_option fst (ledger_state_for k ?st) = Some Consumed" by (simp add: ledger_state_for_def)
  have "take BATCH (filter (batch_expired cutoff) (wl_batches ?st)) = filter (batch_expired cutoff) (wl_batches ?st)"
    using assms(4) by (simp add: BATCH_def) (metis length_filter_le order_trans)
  then have "bid \<in> set (map wb_id (take BATCH (filter (batch_expired cutoff) (wl_batches ?st))))"
    using b assms(2) by force
  moreover have "c' = c" if "c' \<in> set (wl_rows ?st)" "wc_key c' = k" for c'
    by (rule distinct_key_inj [OF d that(1) c(1)]) (simp add: that(2) c(2))
  ultimately have "k \<notin> wc_key ` set (wl_rows (fst (snd (prune_wake cutoff now (?st, arch)))))"
    using c(3) by (auto simp: prune_wake_def Let_def set_del_where)
  then show "ledger_state_for k (fst (snd (prune_wake cutoff now (?st, arch)))) = None"
    by (simp add: ledger_state_for_def get_by_None)
qed

theorem retention_forgets_consumption_witness:
  "ledger_state_for demo_key (fst (snd (prune_wake 1000 2000 (wake_history [Admit demo_env 100 ''wb_1'' ''s'' [demo_key] None,
      Gate 102 ''wb_1'' ''s'' (Some CANONICAL_INPUT), Report 103 ''wb_1'' ''s'' ''terminal'' None], [])))) = None"
proof -
  let ?ops = "[Admit demo_env 100 ''wb_1'' ''s'' [demo_key] None,
      Gate 102 ''wb_1'' ''s'' (Some CANONICAL_INPUT), Report 103 ''wb_1'' ''s'' ''terminal'' None]"
  obtain b where b: "wl_batches (wake_history ?ops) = [b]" "wb_state b = Terminal" "wb_terminal b = Some 103"
    "demo_key \<in> set (wb_keys b)"
    using demo_terminal by blast
  have g: "get_by wb_id (wb_id b) (wl_batches (wake_history ?ops)) = Some b" by (simp add: b(1) table_simps)
  have e: "batch_expired 1000 b" "spent (wb_state b)" by (simp_all add: batch_expired_def b)
  have l: "length (wl_batches (wake_history ?ops)) \<le> 100" by (simp add: b(1))
  from retention_forgets_consumption [OF g e l b(4), of 2000 "[]"] show ?thesis by (rule conjunct2)
qed

end
