(* ===== verification/Cross_Outbox.thy ===== *)
theory Cross_Outbox
  imports Prelude
begin

text \<open>
  \<open>compat/crosssource.py\<close>, class \<open>Outbox\<close>: the spool of app messages aimed at a Discord session. Rows
  are listed in rowid order; \<open>ORDER BY created_at\<close> is a stable sort of them. The random part of a
  row id is an argument, and an id that is taken already fails the insertion (PRIMARY KEY).
\<close>

section \<open>Rows\<close>

datatype out_status = Pending | Delivered | Failed | Merged | StaleDropped

record out_row =
  or_id :: string
  or_session :: string
  or_key :: string
  or_platform :: string
  or_text :: string
  or_status :: out_status
  or_attempts :: nat
  or_error :: "string option"
  or_message :: "string option"
  or_trigger :: "string option"
  or_created :: time
  or_updated :: time

definition MAX_ATTEMPTS :: nat where "MAX_ATTEMPTS = 3"
definition DEDUP_WINDOW_SECONDS :: time where "DEDUP_WINDOW_SECONDS = 60"
definition DRAIN_MAX_AGE_SECONDS :: time where "DRAIN_MAX_AGE_SECONDS = 24 * 3600"

definition UNDELIVERED :: "out_status list" where "UNDELIVERED = [Pending, Failed]"

section \<open>Operations\<close>

definition oldest :: "(out_row \<Rightarrow> bool) \<Rightarrow> out_row list \<Rightarrow> out_row option" where
  "oldest P t = (case sort_key or_created (filter P t) of [] \<Rightarrow> None | r # _ \<Rightarrow> Some r)"

text \<open>The row a resend folds into, if any.\<close>

definition fold_target :: "time \<Rightarrow> string \<Rightarrow> string \<Rightarrow> out_row list \<Rightarrow> out_row option" where
  "fold_target now sid msg t =
     (case oldest (\<lambda>r. or_session r = sid \<and> or_text r = msg \<and> or_status r \<in> set UNDELIVERED
             \<and> or_updated r \<ge> now - DRAIN_MAX_AGE_SECONDS) t of
        Some r \<Rightarrow> Some r
      | None \<Rightarrow> oldest (\<lambda>r. or_session r = sid \<and> or_text r = msg \<and> or_status r = Delivered
             \<and> or_created r \<ge> now - DEDUP_WINDOW_SECONDS) t)"

definition new_row :: "time \<Rightarrow> string \<Rightarrow> string \<Rightarrow> string \<Rightarrow> string \<Rightarrow> string \<Rightarrow> out_row" where
  "new_row now rid sid key plat msg = \<lparr>or_id = rid, or_session = sid, or_key = key, or_platform = plat,
     or_text = msg, or_status = Pending, or_attempts = 0, or_error = None, or_message = None, or_trigger = None,
     or_created = now, or_updated = now\<rparr>"

text \<open>\<open>enqueue\<close>: \<open>None\<close> when the insertion fails.\<close>

definition enqueue :: "time \<Rightarrow> string \<Rightarrow> string \<Rightarrow> string \<Rightarrow> string \<Rightarrow> string \<Rightarrow> out_row list
    \<Rightarrow> (string \<times> bool) option \<times> out_row list" where
  "enqueue now uuid sid key plat msg t = (case fold_target now sid msg t of
     Some r \<Rightarrow> (Some (or_id r, True), t)
   | None \<Rightarrow> let rid = ''xsrc_'' @ uuid in
       if rid \<in> or_id ` set t then (None, t)
       else (Some (rid, False), t @ [new_row now rid sid key plat msg]))"

definition record_row :: "time \<Rightarrow> string \<Rightarrow> nat \<Rightarrow> out_status \<Rightarrow> string option \<Rightarrow> string option
    \<Rightarrow> out_row list \<Rightarrow> out_row list" where
  "record_row now rid att status err trigger t = upd_where (\<lambda>r. or_id r = rid)
     (\<lambda>r. r\<lparr>or_attempts := att, or_status := status, or_error := err, or_message := None,
            or_trigger := trigger, or_updated := now\<rparr>) t"

definition get_row :: "string \<Rightarrow> out_row list \<Rightarrow> out_row option" where
  "get_row rid t = get_by or_id rid t"

definition undelivered :: "out_row list \<Rightarrow> out_row list" where
  "undelivered t = sort_key or_created (filter (\<lambda>r. or_status r \<in> set UNDELIVERED) t)"

section \<open>Histories\<close>

datatype out_op =
    Enqueue time string string string string string
  | RecordRow time string nat out_status "string option" "string option"

fun out_step :: "out_op \<Rightarrow> out_row list \<Rightarrow> out_row list" where
  "out_step (Enqueue now uuid sid key plat msg) t = snd (enqueue now uuid sid key plat msg t)"
| "out_step (RecordRow now rid att status err trigger) t = record_row now rid att status err trigger t"

text \<open>What a row says of its message, which no operation changes.\<close>

definition message_of :: "out_row \<Rightarrow> string \<times> string \<times> string \<times> string \<times> string \<times> time" where
  "message_of r = (or_id r, or_session r, or_key r, or_platform r, or_text r, or_created r)"

definition outbox_wf :: "out_row list \<Rightarrow> bool" where
  "outbox_wf t \<longleftrightarrow> distinct (map or_id t)"

definition kept :: "string \<times> string \<times> string \<times> string \<times> string \<times> time \<Rightarrow> out_row list \<Rightarrow> bool" where
  "kept m t \<longleftrightarrow> m \<in> message_of ` set t"

lemma record_row_messages: "map message_of (record_row now rid att status err trigger t) = map message_of t"
  unfolding record_row_def by (rule map_upd_where) (simp add: message_of_def)

lemma record_row_ids: "map or_id (record_row now rid att status err trigger t) = map or_id t"
  unfolding record_row_def by (rule map_upd_where) simp

lemma enqueue_cases:
  obtains (merged) r where "fold_target now sid msg t = Some r" "enqueue now uuid sid key plat msg t = (Some (or_id r, True), t)"
  | (clash) "fold_target now sid msg t = None" "''xsrc_'' @ uuid \<in> or_id ` set t" "enqueue now uuid sid key plat msg t = (None, t)"
  | (fresh) "fold_target now sid msg t = None" "''xsrc_'' @ uuid \<notin> or_id ` set t"
      "enqueue now uuid sid key plat msg t =
        (Some (''xsrc_'' @ uuid, False), t @ [new_row now (''xsrc_'' @ uuid) sid key plat msg])"
  by (cases "fold_target now sid msg t"; cases "''xsrc_'' @ uuid \<in> or_id ` set t") (auto simp: enqueue_def Let_def)

lemma enqueue_wf: "outbox_wf t \<Longrightarrow> outbox_wf (snd (enqueue now uuid sid key plat msg t))"
  by (cases rule: enqueue_cases [of now sid msg t uuid key plat]) (auto simp: outbox_wf_def new_row_def)

lemma enqueue_keeps: "kept m t \<Longrightarrow> kept m (snd (enqueue now uuid sid key plat msg t))"
  by (cases rule: enqueue_cases [of now sid msg t uuid key plat]) (auto simp: kept_def)

lemma record_row_wf: "outbox_wf t \<Longrightarrow> outbox_wf (record_row now rid att status err trigger t)"
  by (simp add: outbox_wf_def record_row_ids)

lemma record_row_keeps: "kept m (record_row now rid att status err trigger t) \<longleftrightarrow> kept m t"
  unfolding kept_def set_map [symmetric] record_row_messages ..

lemma out_step_wf: "outbox_wf t \<Longrightarrow> outbox_wf (out_step op t)"
  by (cases op) (simp_all add: enqueue_wf record_row_wf)

lemma out_step_keeps: "kept m t \<Longrightarrow> kept m (out_step op t)"
  by (cases op) (simp_all add: enqueue_keeps record_row_keeps)

interpretation ob: sealing_store out_step outbox_wf kept
  by unfold_locales (simp_all add: out_step_wf out_step_keeps)

lemma set_oldest:
  assumes "oldest P t = Some r" shows "r \<in> set t \<and> P r"
proof -
  from assms obtain rs where rs: "sort_key or_created (filter P t) = r # rs"
    unfolding oldest_def by (cases "sort_key or_created (filter P t)") auto
  have "r \<in> set (sort_key or_created (filter P t))" unfolding rs by simp
  then show ?thesis by simp
qed

lemma oldest_None: "oldest P t = None \<longleftrightarrow> (\<forall>r \<in> set t. \<not> P r)"
  unfolding oldest_def
  by (metis (mono_tags, lifting) filter_False filter_empty_conv length_0_conv length_sort list.case(1) list.case(2)
      list.exhaust option.distinct(1) sort_key_simps(1))

lemma oldest_least:
  assumes "oldest P t = Some r" "r' \<in> set t" "P r'" shows "or_created r \<le> or_created r'"
proof -
  from assms(1) obtain rs where rs: "sort_key or_created (filter P t) = r # rs"
    unfolding oldest_def by (cases "sort_key or_created (filter P t)") auto
  have "sorted (map or_created (r # rs))" using sorted_sort_key [of or_created "filter P t"] rs by simp
  moreover have "r' \<in> set (r # rs)" using assms(2,3) rs by (metis (mono_tags, lifting) mem_Collect_eq set_filter set_sort)
  ultimately show ?thesis by auto
qed

lemma fold_target_row: "fold_target now sid msg t = Some r \<Longrightarrow>
    r \<in> set t \<and> or_session r = sid \<and> or_text r = msg \<and> or_status r \<in> {Pending, Failed, Delivered}"
  by (auto simp: fold_target_def UNDELIVERED_def split: option.splits dest: set_oldest)

lemma get_row_of: "outbox_wf t \<Longrightarrow> r \<in> set t \<Longrightarrow> get_row (or_id r) t = Some r"
  by (simp add: get_row_def get_by_eq outbox_wf_def)

lemma get_row_record: "get_row rid' (record_row now rid att status err trigger t) =
    map_option (\<lambda>r. if or_id r = rid then r\<lparr>or_attempts := att, or_status := status, or_error := err,
       or_message := None, or_trigger := trigger, or_updated := now\<rparr> else r) (get_row rid' t)"
  unfolding get_row_def record_row_def by (rule get_by_upd_where) simp

end
