(* ===== verification/Cross_Bridge.thy ===== *)
theory Cross_Bridge
  imports Cross_Outbox
begin

text \<open>
  \<open>compat/crosssource.py\<close>, class \<open>Bridge\<close>: a spooled message is handed to the core's plugin injection,
  at most \<open>MAX_ATTEMPTS\<close> times for one delivery. What the core answers (the state of the route, each
  call of \<open>inject_message\<close>) and the readings of the clock are arguments. Every call of
  \<open>inject_message\<close> is an entry of \<open>bw_calls\<close>. Between two steps of a delivery other tasks write the
  spool: \<open>oth i\<close> are their operations before step \<open>i\<close>.
\<close>

section \<open>What the core answers\<close>

datatype inject = NoContext | Raises | Answers bool

record route_entry =
  re_origin :: bool
  re_suspended :: bool

text \<open>The authority: no getter, no authority or store, a check that raises, or an entry and whether it has an envelope.\<close>

datatype authority_view = Unchecked | NoAuthority | CheckRaises | View "route_entry option" bool

definition NO_ENVELOPE :: string where "NO_ENVELOPE = ''no_route_envelope''"
definition NO_ROUTE :: string where "NO_ROUTE = ''route_not_found''"

definition route_refusal :: "route_entry option \<Rightarrow> bool \<Rightarrow> string option" where
  "route_refusal entry envelope = (case entry of
     None \<Rightarrow> Some NO_ROUTE
   | Some e \<Rightarrow> if \<not> re_origin e \<or> re_suspended e then Some NO_ROUTE
              else if envelope then None else Some NO_ENVELOPE)"

fun refusal :: "authority_view \<Rightarrow> string option" where
  "refusal (View entry envelope) = route_refusal entry envelope"
| "refusal _ = None"

text \<open>\<open>_trigger\<close>: \<open>None\<close> when the turn is scheduled.\<close>

fun trigger_error :: "inject \<Rightarrow> string option" where
  "trigger_error NoContext = Some ''plugin_context_missing''"
| "trigger_error Raises = Some ''inject_error''"
| "trigger_error (Answers ok) = (if ok then None else Some ''inject_refused'')"

section \<open>One delivery\<close>

text \<open>The retired mark: two line feeds and the bracketed text of the old bridge, in UTF-8.\<close>

definition LEGACY_MARK :: string where
  "LEGACY_MARK = [CHR 0x0A, CHR 0x0A, CHR ''['', CHR 0xE7, CHR 0xB6, CHR 0x93] @ '' Hermes App '' @
     [CHR 0xE4, CHR 0xBB, CHR 0xA3, CHR 0xE7, CHR 0x99, CHR 0xBC, CHR '']'']"

definition remove_suffix :: "string \<Rightarrow> string \<Rightarrow> string" where
  "remove_suffix p s = (if p \<noteq> [] \<and> ends_with p s then take (length s - length p) s else s)"

record inject_call =
  ic_row :: string
  ic_key :: string
  ic_text :: string
  ic_answer :: inject

record bridge_world =
  bw_rows :: "out_row list"
  bw_calls :: "inject_call list"

definition meanwhile :: "out_op list \<Rightarrow> bridge_world \<Rightarrow> bridge_world" where
  "meanwhile ops w = w\<lparr>bw_rows := fold out_step ops (bw_rows w)\<rparr>"

definition call_core :: "string \<Rightarrow> string \<Rightarrow> string \<Rightarrow> inject \<Rightarrow> bridge_world \<Rightarrow> bridge_world" where
  "call_core rid key msg ans w = (if ans = NoContext then w
     else w\<lparr>bw_calls := bw_calls w @ [\<lparr>ic_row = rid, ic_key = key, ic_text = msg, ic_answer = ans\<rparr>]\<rparr>)"

definition write_row :: "time \<Rightarrow> string \<Rightarrow> nat \<Rightarrow> out_status \<Rightarrow> string option \<Rightarrow> string option
    \<Rightarrow> bridge_world \<Rightarrow> bridge_world" where
  "write_row now rid att status err trigger w =
     w\<lparr>bw_rows := record_row now rid att status err trigger (bw_rows w)\<rparr>"

text \<open>What a delivery meets: the core, the clock and the other tasks, by step.\<close>

record delivery_env =
  de_view :: authority_view
  de_inject :: "nat \<Rightarrow> inject"
  de_now :: "nat \<Rightarrow> time"
  de_other :: "nat \<Rightarrow> out_op list"

text \<open>The attempts: the outcome is the last error and whether a turn was started.\<close>

fun run_attempts :: "delivery_env \<Rightarrow> string \<Rightarrow> string \<Rightarrow> string \<Rightarrow> nat list \<Rightarrow> nat \<Rightarrow> string option
    \<Rightarrow> bridge_world \<Rightarrow> (string option \<times> bool) \<times> bridge_world" where
  "run_attempts env rid key msg [] att err w = ((err, False), w)"
| "run_attempts env rid key msg (k # ks) att err w =
     (let w1 = call_core rid key msg (de_inject env k) (meanwhile (de_other env (2 * k)) w);
          w2 = meanwhile (de_other env (2 * k + 1)) w1
      in case trigger_error (de_inject env k) of
           None \<Rightarrow> ((None, True), write_row (de_now env k) rid (Suc att) Delivered None (Some ''injected'') w2)
         | Some e \<Rightarrow> run_attempts env rid key msg ks (Suc att) (Some e)
             (write_row (de_now env k) rid (Suc att) (if k = MAX_ATTEMPTS then Failed else Pending) (Some e) None w2))"

text \<open>\<open>_run\<close> under the lock of the row; \<open>None\<close> when there is no such row (the code raises).\<close>

definition run_row :: "delivery_env \<Rightarrow> string \<Rightarrow> bridge_world
    \<Rightarrow> (string option \<times> bool) option \<times> bridge_world" where
  "run_row env rid w =
     (let w0 = meanwhile (de_other env 0) w
      in case get_row rid (bw_rows w0) of
           None \<Rightarrow> (None, w0)
         | Some r \<Rightarrow>
             if or_status r = Delivered then (Some (None, False), w0)
             else let w1 = meanwhile (de_other env 1) w0
                  in case refusal (de_view env) of
                       Some e \<Rightarrow> (Some (Some e, False),
                                 write_row (de_now env 0) rid (Suc (or_attempts r)) Failed (Some e) None w1)
                     | None \<Rightarrow> map_prod Some (\<lambda>x. x)
                         (run_attempts env rid (or_key r) (remove_suffix LEGACY_MARK (or_text r))
                            [1..<Suc MAX_ATTEMPTS] (or_attempts r) None w1))"

definition deliver :: "delivery_env \<Rightarrow> time \<Rightarrow> string \<Rightarrow> string \<Rightarrow> string \<Rightarrow> string \<Rightarrow> string \<Rightarrow> bridge_world
    \<Rightarrow> (string \<times> string option \<times> bool) option \<times> bridge_world" where
  "deliver env now uuid sid key plat msg w =
     (let (res, t) = enqueue now uuid sid key plat msg (bw_rows w); w1 = w\<lparr>bw_rows := t\<rparr>
      in case res of
           None \<Rightarrow> (None, w1)
         | Some (rid, merged) \<Rightarrow> (let (out, w2) = run_row env rid w1
             in (map_option (\<lambda>(err, injected). (rid, err, injected)) out, w2)))"

section \<open>The drain\<close>

type_synonym heads = "((string \<times> string) \<times> string) list"

definition age_error :: "time \<Rightarrow> string" where
  "age_error age = ''age:'' @ show_int \<lfloor>age\<rfloor> @ ''s''"

text \<open>The first pass: too old a row is dropped, a duplicate is merged into the oldest of its text.\<close>

fun drain_mark :: "time \<Rightarrow> (nat \<Rightarrow> time) \<Rightarrow> out_row list \<Rightarrow> heads \<Rightarrow> bridge_world \<Rightarrow> heads \<times> bridge_world" where
  "drain_mark now clock [] heads w = (heads, w)"
| "drain_mark now clock (r # rs) heads w =
     (if now - or_created r > DRAIN_MAX_AGE_SECONDS
      then drain_mark now clock rs heads (write_row (clock (length rs)) (or_id r) (or_attempts r) StaleDropped
             (Some (age_error (now - or_created r))) None w)
      else case map_of heads (or_session r, or_text r) of
             None \<Rightarrow> drain_mark now clock rs (heads @ [((or_session r, or_text r), or_id r)]) w
           | Some head \<Rightarrow> drain_mark now clock rs heads
               (if head = or_id r then w
                else write_row (clock (length rs)) (or_id r) (or_attempts r) Merged
                       (Some (''merged_into:'' @ head)) None w))"

fun drain_run :: "(string \<Rightarrow> delivery_env) \<Rightarrow> string list \<Rightarrow> bridge_world
    \<Rightarrow> (string \<times> string option) list \<times> bridge_world" where
  "drain_run envs [] w = ([], w)"
| "drain_run envs (rid # rids) w =
     (let (out, w1) = run_row (envs rid) rid w
      in case out of
           None \<Rightarrow> ([], w1)
         | Some (err, injected) \<Rightarrow> map_prod (\<lambda>res. (rid, err) # res) (\<lambda>x. x) (drain_run envs rids w1))"

definition drain :: "time \<Rightarrow> (nat \<Rightarrow> time) \<Rightarrow> (string \<Rightarrow> delivery_env) \<Rightarrow> bridge_world
    \<Rightarrow> (string \<times> string option) list \<times> bridge_world" where
  "drain now clock envs w =
     (let (heads, w1) = drain_mark now clock (undelivered (bw_rows w)) [] w
      in drain_run envs (map snd heads) w1)"

section \<open>One delivery: exactly what the core is asked\<close>

definition new_calls :: "bridge_world \<Rightarrow> bridge_world \<Rightarrow> inject_call list" where
  "new_calls w w' = drop (length (bw_calls w)) (bw_calls w')"

definition accepted :: "inject_call \<Rightarrow> bool" where
  "accepted c \<longleftrightarrow> ic_answer c = Answers True"

lemma meanwhile_calls [simp]: "bw_calls (meanwhile ops w) = bw_calls w"
  by (simp add: meanwhile_def)

lemma write_row_calls [simp]: "bw_calls (write_row now rid att st err tr w) = bw_calls w"
  by (simp add: write_row_def)

definition asked :: "string \<Rightarrow> string \<Rightarrow> string \<Rightarrow> nat \<Rightarrow> bool \<Rightarrow> inject_call list \<Rightarrow> bool" where
  "asked rid key msg n injected cs \<longleftrightarrow> length cs \<le> n
     \<and> list_all (\<lambda>c. ic_row c = rid \<and> ic_key c = key \<and> ic_text c = msg) cs
     \<and> list_all (\<lambda>c. \<not> accepted c) (butlast cs)
     \<and> (injected \<longleftrightarrow> cs \<noteq> [] \<and> accepted (last cs))"

lemma asked_none: "asked rid key msg n False []"
  by (simp add: asked_def)

lemma asked_more:
  "asked rid key msg n injected cs \<Longrightarrow> ic_row c = rid \<and> ic_key c = key \<and> ic_text c = msg \<and> \<not> accepted c \<Longrightarrow>
   asked rid key msg (Suc n) injected (c # cs)"
  by (auto simp: asked_def)

lemma asked_Suc: "asked rid key msg n injected cs \<Longrightarrow> asked rid key msg (Suc n) injected cs"
  by (auto simp: asked_def)

lemma run_attempts_asks:
  assumes "run_attempts env rid key msg ks att err w = ((err', injected), w')"
  shows "\<exists>cs. bw_calls w' = bw_calls w @ cs \<and> asked rid key msg (length ks) injected cs
    \<and> (injected \<longrightarrow> err' = None) \<and> (\<not> injected \<and> ks \<noteq> [] \<longrightarrow> err' \<noteq> None)"
  using assms
proof (induction ks arbitrary: att err w)
  case Nil
  then show ?case by (auto simp: asked_none)
next
  case (Cons k ks)
  show ?case
  proof (cases "trigger_error (de_inject env k)")
    case None
    then have ans: "de_inject env k = Answers True" by (cases "de_inject env k") (auto split: if_splits)
    from Cons.prems None show ?thesis
      by (auto simp: Let_def call_core_def ans asked_def accepted_def)
  next
    case (Some e)
    define w1 where "w1 = write_row (de_now env k) rid (Suc att) (if k = MAX_ATTEMPTS then Failed else Pending)
      (Some e) None (meanwhile (de_other env (2 * k + 1)) (call_core rid key msg (de_inject env k)
        (meanwhile (de_other env (2 * k)) w)))"
    from Cons.prems Some have run: "run_attempts env rid key msg ks (Suc att) (Some e) w1 = ((err', injected), w')"
      by (simp add: Let_def w1_def)
    from Cons.IH [OF run] obtain cs where cs: "bw_calls w' = bw_calls w1 @ cs"
      "asked rid key msg (length ks) injected cs" "injected \<longrightarrow> err' = None"
      "\<not> injected \<and> ks \<noteq> [] \<longrightarrow> err' \<noteq> None" by blast
    have last_err: "ks = [] \<Longrightarrow> err' = Some e" using run by auto
    define c where "c = \<lparr>ic_row = rid, ic_key = key, ic_text = msg, ic_answer = de_inject env k\<rparr>"
    have nacc: "\<not> accepted c" using Some by (auto simp: accepted_def c_def)
    have calls: "bw_calls w1 = bw_calls w @ (if de_inject env k = NoContext then [] else [c])"
      by (simp add: w1_def call_core_def c_def)
    have "asked rid key msg (length (k # ks)) injected ((if de_inject env k = NoContext then [] else [c]) @ cs)"
      using cs(2) nacc by (auto simp: c_def intro: asked_more asked_Suc)
    with cs calls last_err show ?thesis by (metis append.assoc option.distinct(1))
  qed
qed

end
