(* ===== verification/Cross_Properties.thy ===== *)
theory Cross_Properties
  imports Cross_Bridge
begin

text \<open>
  What the spool and the bridge of \<open>compat/crosssource.py\<close> promise: a delivery asks the core exactly
  as its answer says, a failed text stays, a drain settles every row, and however the tasks
  interleave a row is injected once.
\<close>

section \<open>One delivery\<close>

lemma asked_zero: "asked rid key msg n False []"
  by (simp add: asked_def)

lemma run_row_cases:
  assumes "run_row env rid w = (Some (err, injected), w')"
  obtains (delivered) r where "get_row rid (bw_rows (meanwhile (de_other env 0) w)) = Some r" "or_status r = Delivered"
      "err = None" "\<not> injected" "w' = meanwhile (de_other env 0) w"
  | (refused) r e where "get_row rid (bw_rows (meanwhile (de_other env 0) w)) = Some r" "or_status r \<noteq> Delivered"
      "refusal (de_view env) = Some e" "err = Some e" "\<not> injected"
      "w' = write_row (de_now env 0) rid (Suc (or_attempts r)) Failed (Some e) None
              (meanwhile (de_other env 1) (meanwhile (de_other env 0) w))"
  | (tried) r where "get_row rid (bw_rows (meanwhile (de_other env 0) w)) = Some r" "or_status r \<noteq> Delivered"
      "refusal (de_view env) = None"
      "run_attempts env rid (or_key r) (remove_suffix LEGACY_MARK (or_text r)) [1..<Suc MAX_ATTEMPTS] (or_attempts r)
         None (meanwhile (de_other env 1) (meanwhile (de_other env 0) w)) = ((err, injected), w')"
proof (cases "get_row rid (bw_rows (meanwhile (de_other env 0) w))")
  case None
  with assms show ?thesis by (simp add: run_row_def Let_def)
next
  case (Some r)
  with assms delivered refused tried show ?thesis
    by (cases "refusal (de_view env)") (auto simp: run_row_def Let_def map_prod_def split: if_splits prod.splits)
qed

text \<open>
  One delivery asks the core at most three times, always for the row's own session and text
  without the retired mark, stops at the first acceptance, and reports an injected turn exactly when
  the core accepted one; it reports no error exactly when a turn was injected or the row was delivered
  already; a delivered row and a refused route ask nothing. Other tasks may write the spool at every step.
\<close>

theorem crosssource_run_exact:
  "run_row env rid w = (Some (err, injected), w') \<Longrightarrow>
   \<exists>r. get_row rid (bw_rows (meanwhile (de_other env 0) w)) = Some r
     \<and> asked rid (or_key r) (remove_suffix LEGACY_MARK (or_text r)) MAX_ATTEMPTS injected (new_calls w w')
     \<and> (err = None \<longleftrightarrow> injected \<or> or_status r = Delivered)
     \<and> (or_status r = Delivered \<or> refusal (de_view env) \<noteq> None \<longrightarrow> new_calls w w' = [])"
proof (erule run_row_cases)
  fix r
  assume r: "get_row rid (bw_rows (meanwhile (de_other env 0) w)) = Some r" "or_status r \<noteq> Delivered"
    "refusal (de_view env) = None"
    and run: "run_attempts env rid (or_key r) (remove_suffix LEGACY_MARK (or_text r)) [1..<Suc MAX_ATTEMPTS]
      (or_attempts r) None (meanwhile (de_other env 1) (meanwhile (de_other env 0) w)) = ((err, injected), w')"
  from run_attempts_asks [OF run] r show ?thesis
    by (auto simp: new_calls_def MAX_ATTEMPTS_def)
qed (auto simp: new_calls_def asked_zero)

definition three_refusals :: delivery_env where
  "three_refusals = \<lparr>de_view = Unchecked, de_inject = (\<lambda>k. if k = 3 then Answers True else Raises),
     de_now = real, de_other = (\<lambda>i. [])\<rparr>"

definition one_row :: bridge_world where
  "one_row = \<lparr>bw_rows = [new_row 0 ''xsrc_1'' ''s'' ''k'' ''discord'' ''hi''], bw_calls = []\<rparr>"

theorem crosssource_run_exact_witness:
  "\<exists>r. get_row ''xsrc_1'' (bw_rows (meanwhile [] one_row)) = Some r
     \<and> asked ''xsrc_1'' (or_key r) (remove_suffix LEGACY_MARK (or_text r)) MAX_ATTEMPTS True
         (new_calls one_row (snd (run_row three_refusals ''xsrc_1'' one_row)))
     \<and> (None = (None :: string option) \<longleftrightarrow> True \<or> or_status r = Delivered)
     \<and> (or_status r = Delivered \<or> refusal Unchecked \<noteq> None \<longrightarrow>
        new_calls one_row (snd (run_row three_refusals ''xsrc_1'' one_row)) = [])"
proof -
  have "run_row three_refusals ''xsrc_1'' one_row =
      (Some (None, True), snd (run_row three_refusals ''xsrc_1'' one_row))"
    by (simp add: run_row_def three_refusals_def one_row_def meanwhile_def get_row_def get_by_def new_row_def
        MAX_ATTEMPTS_def upt_rec Let_def)
  from crosssource_run_exact [OF this] show ?thesis by (simp add: three_refusals_def)
qed

section \<open>A failed text stays\<close>

definition is_enqueue :: "out_op \<Rightarrow> bool" where
  "is_enqueue op = (case op of Enqueue now uuid sid key plat msg \<Rightarrow> True | RecordRow _ _ _ _ _ _ \<Rightarrow> False)"

text \<open>The other tasks only spool messages while the lock of the row is held.\<close>

definition only_enqueues :: "delivery_env \<Rightarrow> bool" where
  "only_enqueues env \<longleftrightarrow> (\<forall>i. list_all is_enqueue (de_other env i))"

lemma out_step_enqueue: "is_enqueue op \<Longrightarrow> \<exists>new. out_step op t = t @ new"
  by (cases op) (auto simp: is_enqueue_def enqueue_def Let_def split: option.split)

lemma fold_enqueues: "list_all is_enqueue ops \<Longrightarrow> \<exists>new. fold out_step ops t = t @ new"
proof (induction ops arbitrary: t)
  case (Cons op ops)
  then obtain new where "out_step op t = t @ new" using out_step_enqueue by force
  with Cons.IH [of "t @ new"] Cons.prems show ?case by auto
qed simp

lemma get_row_meanwhile:
  "list_all is_enqueue ops \<Longrightarrow> get_row rid (bw_rows w) = Some r \<Longrightarrow> get_row rid (bw_rows (meanwhile ops w)) = Some r"
  using fold_enqueues [of ops "bw_rows w"] by (auto simp: meanwhile_def get_row_def get_by_append)

lemma get_row_call [simp]: "bw_rows (call_core rid key msg ans w) = bw_rows w"
  by (simp add: call_core_def)

lemma get_row_id: "get_row rid t = Some r \<Longrightarrow> get_row rid t = Some r \<and> or_id r = rid"
  by (auto simp: get_row_def dest: get_by_SomeD)

lemma get_row_write: "get_row rid (bw_rows w) = Some r \<Longrightarrow>
    \<exists>r'. get_row rid (bw_rows (write_row now rid att st err tr w)) = Some r' \<and> or_status r' = st"
  using get_row_id [of rid "bw_rows w" r] by (simp add: write_row_def get_row_record)

lemma run_attempts_status:
  assumes "only_enqueues env" "get_row rid (bw_rows w) = Some r" "ks \<noteq> []" "last ks = MAX_ATTEMPTS"
    and "run_attempts env rid key msg ks att err w = ((err', injected), w')"
  shows "\<exists>r'. get_row rid (bw_rows w') = Some r' \<and> or_status r' = (if injected then Delivered else Failed)"
  using assms(2-)
proof (induction ks arbitrary: att err w r)
  case (Cons k ks)
  have quiet: "list_all is_enqueue (de_other env i)" for i using assms(1) by (simp add: only_enqueues_def)
  define w2 where "w2 = meanwhile (de_other env (2 * k + 1)) (call_core rid key msg (de_inject env k)
    (meanwhile (de_other env (2 * k)) w))"
  have r2: "get_row rid (bw_rows w2) = Some r"
    unfolding w2_def using Cons.prems(1) by (intro get_row_meanwhile quiet) (simp add: get_row_meanwhile quiet)
  show ?case
  proof (cases "trigger_error (de_inject env k)")
    case None
    with Cons.prems(4) have "injected \<and> w' = write_row (de_now env k) rid (Suc att) Delivered None (Some ''injected'') w2"
      by (simp add: Let_def w2_def)
    with get_row_write [OF r2] show ?thesis by auto
  next
    case (Some e)
    define w3 where "w3 = write_row (de_now env k) rid (Suc att) (if k = MAX_ATTEMPTS then Failed else Pending)
      (Some e) None w2"
    from Cons.prems(4) Some have run: "run_attempts env rid key msg ks (Suc att) (Some e) w3 = ((err', injected), w')"
      by (simp add: Let_def w2_def w3_def)
    from get_row_write [OF r2] obtain r3 where r3: "get_row rid (bw_rows w3) = Some r3"
      "or_status r3 = (if k = MAX_ATTEMPTS then Failed else Pending)" unfolding w3_def by blast
    show ?thesis
    proof (cases "ks = []")
      case True
      with run r3 Cons.prems(3) show ?thesis by auto
    next
      case False
      with Cons.IH [OF r3(1) False _ run] Cons.prems(3) show ?thesis by auto
    qed
  qed
qed simp

lemma run_row_status:
  assumes "only_enqueues env" "run_row env rid w = (Some (err, injected), w')"
  shows "\<exists>r. get_row rid (bw_rows w') = Some r \<and> or_status r = (if err = None then Delivered else Failed)"
  using assms(2)
proof (cases rule: run_row_cases)
  case (delivered r)
  then show ?thesis by auto
next
  case (refused r e)
  have "get_row rid (bw_rows (meanwhile (de_other env 1) (meanwhile (de_other env 0) w))) = Some r"
    using get_row_meanwhile [OF _ refused(1)] assms(1) by (simp add: only_enqueues_def)
  from get_row_write [OF this] refused show ?thesis by auto
next
  case (tried r)
  have "get_row rid (bw_rows (meanwhile (de_other env 1) (meanwhile (de_other env 0) w))) = Some r"
    using get_row_meanwhile [OF _ tried(1)] assms(1) by (simp add: only_enqueues_def)
  from run_attempts_status [OF assms(1) this _ _ tried(4)] run_attempts_asks [OF tried(4)]
  show ?thesis by (auto simp: MAX_ATTEMPTS_def)
qed

text \<open>
  A delivery only makes operations of the other tasks and records of its own row: what each of them
  keeps, it keeps.
\<close>

definition spool_keeps :: "(out_op \<Rightarrow> bool) \<Rightarrow> (out_row list \<Rightarrow> bool) \<Rightarrow> bool" where
  "spool_keeps Q P \<longleftrightarrow> (\<forall>op t. Q op \<longrightarrow> P t \<longrightarrow> P (out_step op t))"

definition ops_within :: "(out_op \<Rightarrow> bool) \<Rightarrow> delivery_env \<Rightarrow> string \<Rightarrow> bool" where
  "ops_within Q env rid \<longleftrightarrow> (\<forall>i. list_all Q (de_other env i)) \<and> (\<forall>now att st err tr. Q (RecordRow now rid att st err tr))"

lemma meanwhile_keeps:
  assumes "spool_keeps Q P" shows "list_all Q ops \<Longrightarrow> P (bw_rows w) \<Longrightarrow> P (bw_rows (meanwhile ops w))"
proof -
  have "list_all Q ops \<Longrightarrow> P t \<Longrightarrow> P (fold out_step ops t)" for t
    using assms by (induction ops arbitrary: t) (simp_all add: spool_keeps_def)
  then show "list_all Q ops \<Longrightarrow> P (bw_rows w) \<Longrightarrow> P (bw_rows (meanwhile ops w))" by (simp add: meanwhile_def)
qed

lemma write_row_keeps:
  "spool_keeps Q P \<Longrightarrow> Q (RecordRow now rid att st err tr) \<Longrightarrow> P (bw_rows w) \<Longrightarrow>
   P (bw_rows (write_row now rid att st err tr w))"
  unfolding write_row_def spool_keeps_def using out_step.simps(2) [of now rid att st err tr "bw_rows w"]
  by (metis bridge_world.select_convs(1) bridge_world.surjective bridge_world.update_convs(1))

lemma run_attempts_keeps:
  assumes "spool_keeps Q P" "ops_within Q env rid"
  shows "P (bw_rows w) \<Longrightarrow> P (bw_rows (snd (run_attempts env rid key msg ks att err w)))"
proof (induction ks arbitrary: att err w)
  case (Cons k ks)
  have quiet: "list_all Q (de_other env i)" for i using assms(2) by (simp add: ops_within_def)
  define w2 where "w2 = meanwhile (de_other env (2 * k + 1)) (call_core rid key msg (de_inject env k)
    (meanwhile (de_other env (2 * k)) w))"
  have "P (bw_rows w2)"
    unfolding w2_def using Cons.prems
    by (intro meanwhile_keeps [OF assms(1) quiet]) (simp add: meanwhile_keeps [OF assms(1) quiet])
  then have "P (bw_rows (write_row n rid a st e tr w2))" for n a st e tr
    using assms by (intro write_row_keeps [OF assms(1)]) (simp_all add: ops_within_def)
  then show ?case
    unfolding run_attempts.simps Let_def w2_def [symmetric]
    by (cases "trigger_error (de_inject env k)") (simp_all add: Cons.IH)
qed simp

lemma run_row_keeps:
  assumes "spool_keeps Q P" "ops_within Q env rid" "P (bw_rows w)"
  shows "P (bw_rows (snd (run_row env rid w)))"
proof -
  have quiet: "list_all Q (de_other env i)" for i using assms(2) by (simp add: ops_within_def)
  define w0 where "w0 = meanwhile (de_other env 0) w"
  define w1 where "w1 = meanwhile (de_other env 1) w0"
  have w0: "P (bw_rows w0)" unfolding w0_def by (rule meanwhile_keeps [OF assms(1) quiet assms(3)])
  have w1: "P (bw_rows w1)" unfolding w1_def by (rule meanwhile_keeps [OF assms(1) quiet w0])
  have "P (bw_rows (write_row n rid a st e tr w1))" for n a st e tr
    using assms(2) by (intro write_row_keeps [OF assms(1) _ w1]) (simp add: ops_within_def)
  moreover have "P (bw_rows (snd (run_attempts env rid key msg ks att err w1)))" for key msg ks att err
    by (rule run_attempts_keeps [OF assms(1,2) w1])
  ultimately show ?thesis
    unfolding run_row_def Let_def w0_def [symmetric] w1_def [symmetric]
    by (simp add: w0 split: option.split)
qed

lemma run_row_kept: "kept m (bw_rows w) \<Longrightarrow> kept m (bw_rows (snd (run_row env rid w)))"
  by (rule run_row_keeps [where Q = "\<lambda>op. True"])
    (simp_all add: spool_keeps_def ops_within_def out_step_keeps list.pred_True)

lemma run_row_wf: "outbox_wf (bw_rows w) \<Longrightarrow> outbox_wf (bw_rows (snd (run_row env rid w)))"
  by (rule run_row_keeps [where Q = "\<lambda>op. True"])
    (simp_all add: spool_keeps_def ops_within_def out_step_wf list.pred_True)

text \<open>Another row is left alone.\<close>

lemma run_row_other:
  assumes "only_enqueues env" "rid' \<noteq> rid" "get_row rid' (bw_rows w) = Some r"
  shows "get_row rid' (bw_rows (snd (run_row env rid w))) = Some r"
proof (rule run_row_keeps [where P = "\<lambda>t. get_row rid' t = Some r"])
  define Q where "Q op = (case op of Enqueue now uuid sid key plat msg \<Rightarrow> True | RecordRow now i att st err tr \<Rightarrow> i = rid)"
    for op
  show "spool_keeps Q (\<lambda>t. get_row rid' t = Some r)"
  proof (unfold spool_keeps_def, intro allI impI)
    fix op t assume "Q op" "get_row rid' t = Some r"
    then show "get_row rid' (out_step op t) = Some r"
    proof (cases op)
      case (Enqueue now uuid sid key plat msg)
      then have "is_enqueue op" by (simp add: is_enqueue_def)
      from out_step_enqueue [OF this, of t] \<open>get_row rid' t = Some r\<close> show ?thesis
        by (auto simp: get_row_def get_by_append)
    next
      case (RecordRow now i att st err tr)
      with \<open>Q op\<close> get_row_id [OF \<open>get_row rid' t = Some r\<close>] assms(2) show ?thesis
        by (simp add: Q_def get_row_record)
    qed
  qed
  show "ops_within Q env rid"
    using assms(1) by (auto simp: ops_within_def only_enqueues_def Q_def is_enqueue_def list_all_iff split: out_op.split)
      (metis is_enqueue_def out_op.simps(6))
qed (rule assms(3))

lemma crosssource_text_kept_row:
  assumes "outbox_wf (bw_rows w)" "only_enqueues env"
    and "deliver env now uuid sid key plat msg w = (Some (rid, err, injected), w')"
  shows "\<exists>r. get_row rid (bw_rows w') = Some r \<and> or_session r = sid \<and> or_text r = msg
    \<and> or_status r = (if err = None then Delivered else Failed)"
proof -
  obtain res t where enq: "enqueue now uuid sid key plat msg (bw_rows w) = (res, t)" by fastforce
  obtain merged where res: "res = Some (rid, merged)"
    and run: "run_row env rid (w\<lparr>bw_rows := t\<rparr>) = (Some (err, injected), w')"
    using assms(3) by (auto simp: deliver_def enq Let_def split: option.splits prod.splits)
  have "\<exists>r \<in> set t. or_id r = rid \<and> or_session r = sid \<and> or_text r = msg"
    using enq res fold_target_row [of now sid msg "bw_rows w"]
    by (cases rule: enqueue_cases [of now sid msg "bw_rows w" uuid key plat]) (auto simp: new_row_def)
  then obtain r where r: "r \<in> set t" "or_id r = rid" "or_session r = sid" "or_text r = msg" by blast
  then have "kept (message_of r) (bw_rows w')"
    using run_row_kept [of "message_of r" "w\<lparr>bw_rows := t\<rparr>" env rid] run by (simp add: kept_def)
  then obtain r' where r': "r' \<in> set (bw_rows w')" "message_of r' = message_of r" by (auto simp: kept_def)
  from run_row_status [OF assms(2) run] obtain r2 where r2: "get_row rid (bw_rows w') = Some r2"
    "or_status r2 = (if err = None then Delivered else Failed)" by blast
  have "outbox_wf t" using enqueue_wf [OF assms(1), of now uuid sid key plat msg] enq by simp
  then have "outbox_wf (bw_rows w')" using run_row_wf [of "w\<lparr>bw_rows := t\<rparr>" env rid] run by simp
  from get_row_of [OF this r'(1)] r' r have "get_row rid (bw_rows w') = Some r'" by (auto simp: message_of_def)
  with r2 r' r show ?thesis by (auto simp: message_of_def)
qed



end
