(* ===== verification/Cross_Drain.thy ===== *)
theory Cross_Drain
  imports Cross_Properties
begin

text \<open>
  The drain of \<open>compat/crosssource.py\<close>: which rows it drops, merges and retries, and the rows it
  leaves behind.
\<close>

definition msg_key :: "out_row \<Rightarrow> string \<times> string" where
  "msg_key r = (or_session r, or_text r)"

definition too_old :: "time \<Rightarrow> out_row \<Rightarrow> bool" where
  "too_old now r \<longleftrightarrow> now - or_created r > DRAIN_MAX_AGE_SECONDS"

text \<open>The id under which the text of \<open>r\<close> is retried, when \<open>h\<close> are the heads found so far.\<close>

definition head_of :: "time \<Rightarrow> heads \<Rightarrow> out_row list \<Rightarrow> out_row \<Rightarrow> string" where
  "head_of now h rs r = (case map_of h (msg_key r) of
     Some i \<Rightarrow> i
   | None \<Rightarrow> (case find (\<lambda>x. \<not> too_old now x \<and> msg_key x = msg_key r) rs of Some x \<Rightarrow> or_id x | None \<Rightarrow> or_id r))"

section \<open>The first pass\<close>

lemma get_row_write_row: "get_row rid' (bw_rows (write_row now rid att st err tr w)) =
    map_option (\<lambda>r. if or_id r = rid then r\<lparr>or_attempts := att, or_status := st, or_error := err,
       or_message := None, or_trigger := tr, or_updated := now\<rparr> else r) (get_row rid' (bw_rows w))"
  by (simp add: write_row_def get_row_record)

lemma get_row_other: "rid' \<noteq> rid \<Longrightarrow>
    get_row rid' (bw_rows (write_row now rid att st err tr w)) = get_row rid' (bw_rows w)"
  using get_row_id [of rid' "bw_rows w"] by (cases "get_row rid' (bw_rows w)") (auto simp: get_row_write_row)

lemma drain_mark_other:
  "rid \<notin> or_id ` set rs \<Longrightarrow> get_row rid (bw_rows (snd (drain_mark now clock rs h w))) = get_row rid (bw_rows w)"
  by (induction now clock rs h w rule: drain_mark.induct) (auto simp: get_row_other split: option.split)

lemma drain_mark_calls: "bw_calls (snd (drain_mark now clock rs h w)) = bw_calls w"
  by (induction now clock rs h w rule: drain_mark.induct) (auto split: option.split)

lemma drain_mark_row:
  assumes "distinct (map or_id rs)" "r \<in> set rs" "get_row (or_id r) (bw_rows w) = Some r"
  shows "\<exists>r'. get_row (or_id r) (bw_rows (snd (drain_mark now clock rs h w))) = Some r'
    \<and> or_status r' = (if too_old now r then StaleDropped
        else if head_of now h rs r = or_id r then or_status r else Merged)"
  using assms
proof (induction now clock rs h w rule: drain_mark.induct)
  case (2 now clock x xs h w)
  note IH_old = 2(1) and IH_new = 2(2) and IH_dup = 2(3)
  show ?case
  proof (cases "r = x")
    case True
    with 2(4) have "or_id r \<notin> or_id ` set xs" by auto
    note other = drain_mark_other [OF this, of now clock]
    show ?thesis
    proof (cases "too_old now r")
      case True
      with \<open>r = x\<close> other 2(6) show ?thesis by (simp add: too_old_def get_row_write_row)
    next
      case False
      with \<open>r = x\<close> other 2(6) show ?thesis
        by (auto simp: too_old_def msg_key_def head_of_def get_row_write_row split: option.split)
    qed
  next
    case False
    with 2(4,5) have r: "r \<in> set xs" "distinct (map or_id xs)" "or_id r \<noteq> or_id x" by (auto simp: image_iff)
    have keep: "get_row (or_id r) (bw_rows (write_row n (or_id x) a s e tr w)) = Some r" for n a s e tr
      using r(3) 2(6) by (simp add: get_row_other)
    show ?thesis
    proof (cases "too_old now x")
      case True
      then have same: "head_of now h (x # xs) r = head_of now h xs r"
        by (cases "map_of h (msg_key r)") (simp_all add: head_of_def)
      from True have "now - or_created x > DRAIN_MAX_AGE_SECONDS" by (simp add: too_old_def)
      with IH_old [OF _ r(2,1) keep] show ?thesis unfolding same by simp
    next
      case fresh: False
      show ?thesis
      proof (cases "map_of h (msg_key x)")
        case None
        with IH_new [OF _ _ r(2,1) 2(6)] fresh show ?thesis
          by (auto simp: too_old_def msg_key_def head_of_def map_add_def split: option.splits if_splits)
      next
        case (Some i)
        with fresh have same: "head_of now h (x # xs) r = head_of now h xs r"
          by (auto simp: head_of_def split: option.split)
        from Some fresh IH_dup [OF _ _ r(2,1), of i] keep 2(6) show ?thesis
          unfolding same by (auto simp: too_old_def msg_key_def split: if_splits)
      qed
    qed
  qed
qed simp

text \<open>The heads: one id for each text that is young enough.\<close>

lemma drain_mark_heads:
  "map_of (fst (drain_mark now clock rs h w)) k = (case map_of h k of
     Some i \<Rightarrow> Some i | None \<Rightarrow> map_option or_id (find (\<lambda>x. \<not> too_old now x \<and> msg_key x = k) rs))"
  by (induction now clock rs h w rule: drain_mark.induct)
    (auto simp: too_old_def msg_key_def map_add_def split: option.splits if_splits)

lemma drain_mark_distinct:
  "distinct (map fst h) \<Longrightarrow> distinct (map fst (fst (drain_mark now clock rs h w)))"
  by (induction now clock rs h w rule: drain_mark.induct) (auto simp: map_of_eq_None_iff split: option.split)

lemma find_row: "find P rs = Some x \<Longrightarrow> x \<in> set rs \<and> P x"
  by (auto simp: find_Some_iff in_set_conv_nth)

text \<open>The ids the second pass runs.\<close>

definition drain_heads :: "time \<Rightarrow> (nat \<Rightarrow> time) \<Rightarrow> bridge_world \<Rightarrow> string list" where
  "drain_heads now clock w = map snd (fst (drain_mark now clock (undelivered (bw_rows w)) [] w))"

lemma drain_heads_entry:
  assumes "(k, i) \<in> set (fst (drain_mark now clock rs [] w))"
  obtains x where "find (\<lambda>x. \<not> too_old now x \<and> msg_key x = k) rs = Some x" "or_id x = i"
  using assms map_of_is_SomeI [OF drain_mark_distinct [of "[]" now clock rs w] assms]
  by (auto simp: drain_mark_heads)

lemma rows_by_id: "distinct (map or_id rs) \<Longrightarrow> x \<in> set rs \<Longrightarrow> y \<in> set rs \<Longrightarrow> or_id x = or_id y \<Longrightarrow> x = y"
  by (rule distinct_key_inj)

lemma undelivered_ids: "outbox_wf t \<Longrightarrow> distinct (map or_id (undelivered t))"
proof -
  assume "outbox_wf t"
  then have "distinct t" "inj_on or_id (set t)" by (auto simp: outbox_wf_def distinct_map)
  then show ?thesis
    unfolding undelivered_def distinct_map by (auto simp: inj_on_def)
qed

lemma drain_heads_distinct:
  assumes "outbox_wf (bw_rows w)" shows "distinct (drain_heads now clock w)"
proof -
  define rs where "rs = undelivered (bw_rows w)"
  have ids: "distinct (map or_id rs)" unfolding rs_def by (rule undelivered_ids [OF assms])
  have "inj_on snd (set (fst (drain_mark now clock rs [] w)))"
  proof (rule inj_onI)
    fix p q assume pq: "p \<in> set (fst (drain_mark now clock rs [] w))" "q \<in> set (fst (drain_mark now clock rs [] w))"
      "snd p = snd q"
    obtain x where x: "find (\<lambda>x. \<not> too_old now x \<and> msg_key x = fst p) rs = Some x" "or_id x = snd p"
      using drain_heads_entry [of "fst p" "snd p" now clock rs w] pq(1) by auto
    obtain y where y: "find (\<lambda>x. \<not> too_old now x \<and> msg_key x = fst q) rs = Some y" "or_id y = snd q"
      using drain_heads_entry [of "fst q" "snd q" now clock rs w] pq(2) by auto
    from x y pq(3) have "x = y" using rows_by_id [OF ids] find_row by metis
    with find_row [OF x(1)] find_row [OF y(1)] pq(3) show "p = q" by (auto intro: prod_eqI)
  qed
  moreover have "distinct (fst (drain_mark now clock rs [] w))"
    using drain_mark_distinct [of "[]" now clock rs w] by (simp add: distinct_map)
  ultimately show ?thesis by (simp add: drain_heads_def rs_def [symmetric] distinct_map)
qed

lemma drain_heads_iff:
  assumes "outbox_wf (bw_rows w)" "r \<in> set (undelivered (bw_rows w))"
  shows "or_id r \<in> set (drain_heads now clock w) \<longleftrightarrow>
    \<not> too_old now r \<and> head_of now [] (undelivered (bw_rows w)) r = or_id r"
proof -
  define rs where "rs = undelivered (bw_rows w)"
  have ids: "distinct (map or_id rs)" unfolding rs_def by (rule undelivered_ids [OF assms(1)])
  have r: "r \<in> set rs" using assms(2) by (simp add: rs_def)
  have "or_id r \<in> set (drain_heads now clock w) \<longleftrightarrow>
      (\<exists>k. find (\<lambda>x. \<not> too_old now x \<and> msg_key x = k) rs = Some r)"
  proof
    assume "or_id r \<in> set (drain_heads now clock w)"
    then obtain k where "(k, or_id r) \<in> set (fst (drain_mark now clock rs [] w))"
      by (auto simp: drain_heads_def rs_def)
    then obtain x where "find (\<lambda>x. \<not> too_old now x \<and> msg_key x = k) rs = Some x" "or_id x = or_id r"
      by (rule drain_heads_entry)
    with rows_by_id [OF ids _ r] find_row show "\<exists>k. find (\<lambda>x. \<not> too_old now x \<and> msg_key x = k) rs = Some r" by metis
  next
    assume "\<exists>k. find (\<lambda>x. \<not> too_old now x \<and> msg_key x = k) rs = Some r"
    then obtain k where "map_of (fst (drain_mark now clock rs [] w)) k = Some (or_id r)"
      by (auto simp: drain_mark_heads)
    then show "or_id r \<in> set (drain_heads now clock w)"
      by (force simp: drain_heads_def rs_def dest: map_of_SomeD)
  qed
  also have "\<dots> \<longleftrightarrow> \<not> too_old now r \<and> head_of now [] rs r = or_id r"
  proof
    assume "\<exists>k. find (\<lambda>x. \<not> too_old now x \<and> msg_key x = k) rs = Some r"
    then obtain k where k: "find (\<lambda>x. \<not> too_old now x \<and> msg_key x = k) rs = Some r" ..
    from find_row [OF this] k show "\<not> too_old now r \<and> head_of now [] rs r = or_id r" by (auto simp: head_of_def)
  next
    assume a: "\<not> too_old now r \<and> head_of now [] rs r = or_id r"
    then obtain x where x: "find (\<lambda>x. \<not> too_old now x \<and> msg_key x = msg_key r) rs = Some x"
      using r by (cases "find (\<lambda>x. \<not> too_old now x \<and> msg_key x = msg_key r) rs") (auto simp: find_None_iff)
    with a have "or_id x = or_id r" by (simp add: head_of_def)
    with rows_by_id [OF ids _ r] find_row [OF x] x show "\<exists>k. find (\<lambda>x. \<not> too_old now x \<and> msg_key x = k) rs = Some r"
      by metis
  qed
  finally show ?thesis unfolding rs_def .
qed

section \<open>The second pass\<close>

lemma run_row_calls:
  "\<exists>cs. bw_calls (snd (run_row env rid w)) = bw_calls w @ cs \<and> list_all (\<lambda>c. ic_row c = rid) cs
     \<and> length (filter accepted cs) \<le> 1"
proof (cases "fst (run_row env rid w)")
  case None
  then have "bw_calls (snd (run_row env rid w)) = bw_calls w"
    by (auto simp: run_row_def Let_def split: option.splits if_splits)
  then show ?thesis by simp
next
  case (Some p)
  obtain err injected where p: "p = (err, injected)" by fastforce
  with Some have "run_row env rid w = (Some (err, injected), snd (run_row env rid w))"
    by (metis prod.collapse)
  then show ?thesis
  proof (cases rule: run_row_cases)
    case (tried r)
    from run_attempts_asks [OF tried(4)] obtain cs where
      cs: "bw_calls (snd (run_row env rid w)) = bw_calls w @ cs" "asked rid (or_key r)
        (remove_suffix LEGACY_MARK (or_text r)) (length [1..<Suc MAX_ATTEMPTS]) injected cs" by auto
    have "filter accepted cs = filter accepted (butlast cs @ (if cs = [] then [] else [last cs]))"
      by (cases cs rule: rev_cases) simp_all
    also have "\<dots> = filter accepted (if cs = [] then [] else [last cs])"
      using cs(2) unfolding filter_append by (simp add: asked_def list_all_iff filter_empty_conv)
    finally have "length (filter accepted cs) \<le> 1" by (auto split: if_splits)
    moreover have "list_all (\<lambda>c. ic_row c = rid) cs" using cs(2) by (simp add: asked_def list_all_iff)
    ultimately show ?thesis using cs(1) by blast
  qed auto
qed

lemma run_row_known:
  assumes "get_row rid (bw_rows w) = Some r" "only_enqueues env"
  shows "fst (run_row env rid w) \<noteq> None"
proof -
  have "get_row rid (bw_rows (meanwhile (de_other env 0) w)) = Some r"
    using assms by (intro get_row_meanwhile) (simp_all add: only_enqueues_def)
  then show ?thesis
    by (cases "or_status r = Delivered"; cases "refusal (de_view env)") (auto simp: run_row_def Let_def)
qed

lemma drain_run_outcome:
  assumes "distinct ids" "\<And>i. only_enqueues (envs i)" "\<forall>i \<in> set ids. get_row i (bw_rows w) \<noteq> None"
  shows "\<exists>cs. bw_calls (snd (drain_run envs ids w)) = bw_calls w @ cs
     \<and> list_all (\<lambda>c. ic_row c \<in> set ids) cs
     \<and> (\<forall>i. length (filter (\<lambda>c. ic_row c = i \<and> accepted c) cs) \<le> 1)
     \<and> (\<forall>i \<in> set ids. \<exists>r. get_row i (bw_rows (snd (drain_run envs ids w))) = Some r \<and> or_status r \<in> {Delivered, Failed})
     \<and> (\<forall>i r. i \<notin> set ids \<longrightarrow> get_row i (bw_rows w) = Some r \<longrightarrow> get_row i (bw_rows (snd (drain_run envs ids w))) = Some r)"
  using assms(1,3)
proof (induction ids arbitrary: w)
  case (Cons j ids)
  obtain rj where rj: "get_row j (bw_rows w) = Some rj" using Cons.prems(2) by auto
  obtain out w1 where run: "run_row (envs j) j w = (out, w1)" by fastforce
  with run_row_known [OF rj assms(2) [of j]] obtain err injected where out: "out = Some (err, injected)" by fastforce
  have other: "get_row i (bw_rows w1) = Some r" if "i \<noteq> j" "get_row i (bw_rows w) = Some r" for i r
    using run_row_other [OF assms(2) that, of j] run by simp
  obtain r where r: "get_row j (bw_rows w1) = Some r" "or_status r = (if err = None then Delivered else Failed)"
    using run_row_status [OF assms(2) run [unfolded out]] by blast
  obtain cs1 where cs1: "bw_calls w1 = bw_calls w @ cs1" "list_all (\<lambda>c. ic_row c = j) cs1" "length (filter accepted cs1) \<le> 1"
    using run_row_calls [of "envs j" j w] run by auto
  have known: "get_row i (bw_rows w1) \<noteq> None" if "i \<in> set ids" for i
  proof -
    from Cons.prems(2) that obtain ri where "get_row i (bw_rows w) = Some ri" by auto
    with other [of i ri] that Cons.prems(1) show ?thesis by auto
  qed
  define w2 where "w2 = snd (drain_run envs ids w1)"
  from Cons.IH [of w1] known Cons.prems(1) obtain cs2 where cs2: "bw_calls w2 = bw_calls w1 @ cs2"
    "list_all (\<lambda>c. ic_row c \<in> set ids) cs2" "\<forall>i. length (filter (\<lambda>c. ic_row c = i \<and> accepted c) cs2) \<le> 1"
    "\<forall>i \<in> set ids. \<exists>r. get_row i (bw_rows w2) = Some r \<and> or_status r \<in> {Delivered, Failed}"
    "\<forall>i r. i \<notin> set ids \<longrightarrow> get_row i (bw_rows w1) = Some r \<longrightarrow> get_row i (bw_rows w2) = Some r"
    unfolding w2_def by auto
  have w2: "snd (drain_run envs (j # ids) w) = w2" by (simp add: run out w2_def)
  have one: "length (filter (\<lambda>c. ic_row c = i \<and> accepted c) (cs1 @ cs2)) \<le> 1" for i
  proof (cases "i = j")
    case True
    with Cons.prems(1) cs2(2) have "filter (\<lambda>c. ic_row c = i \<and> accepted c) cs2 = []"
      by (auto simp: list_all_iff filter_empty_conv)
    moreover have "filter (\<lambda>c. ic_row c = i \<and> accepted c) cs1 = filter accepted cs1"
      using True cs1(2) by (intro filter_cong) (auto simp: list_all_iff)
    ultimately show ?thesis using cs1(3) by simp
  next
    case False
    with cs1(2) have "filter (\<lambda>c. ic_row c = i \<and> accepted c) cs1 = []"
      by (auto simp: list_all_iff filter_empty_conv)
    with cs2(3) show ?thesis by simp
  qed
  have "bw_calls w2 = bw_calls w @ cs1 @ cs2" using cs1(1) cs2(1) by simp
  moreover have "list_all (\<lambda>c. ic_row c \<in> set (j # ids)) (cs1 @ cs2)"
    using cs1(2) cs2(2) by (auto simp: list_all_iff)
  moreover have "\<exists>r. get_row i (bw_rows w2) = Some r \<and> or_status r \<in> {Delivered, Failed}" if "i \<in> set (j # ids)" for i
    using that cs2(4,5) Cons.prems(1) r by (auto split: if_splits)
  ultimately show ?case using one cs2(5) other unfolding w2 by auto
qed simp

section \<open>What a drain leaves\<close>

text \<open>The oldest young enough undelivered row of its session and text.\<close>

definition drain_head :: "time \<Rightarrow> out_row list \<Rightarrow> out_row \<Rightarrow> bool" where
  "drain_head now t r \<longleftrightarrow> oldest (\<lambda>x. or_status x \<in> set UNDELIVERED \<and> \<not> too_old now x \<and> msg_key x = msg_key r) t = Some r"

lemma find_filter: "find P xs = (case filter P xs of [] \<Rightarrow> None | x # _ \<Rightarrow> Some x)"
  by (induction xs) auto

lemma find_undelivered:
  "find P (undelivered t) = oldest (\<lambda>x. or_status x \<in> set UNDELIVERED \<and> P x) t"
  by (simp add: find_filter undelivered_def oldest_def filter_sort conj_commute)

lemma drain_head_iff:
  assumes "outbox_wf t" "r \<in> set (undelivered t)" "\<not> too_old now r"
  shows "head_of now [] (undelivered t) r = or_id r \<longleftrightarrow> drain_head now t r"
proof -
  define rs where "rs = undelivered t"
  obtain x where x: "find (\<lambda>x. \<not> too_old now x \<and> msg_key x = msg_key r) rs = Some x"
    using assms(2,3) unfolding rs_def
    by (cases "find (\<lambda>x. \<not> too_old now x \<and> msg_key x = msg_key r) (undelivered t)") (auto simp: find_None_iff)
  have "or_id x = or_id r \<longleftrightarrow> x = r"
    using rows_by_id [OF undelivered_ids [OF assms(1)]] find_row [OF x] assms(2) unfolding rs_def by auto
  with x show ?thesis
    by (auto simp: head_of_def drain_head_def find_undelivered [symmetric] rs_def)
qed

text \<open>
  A drain settles every undelivered row: one whose message is older than a day is dropped, one whose
  session and text an older row has is merged into it, and the oldest of each is tried and ends
  \<open>delivered\<close> or \<open>failed\<close>; a dropped or merged row is never injected, and no row is accepted by the core
  twice. Requests that come in while it runs may spool messages.
\<close>

theorem crosssource_drain_settles:
  assumes "outbox_wf (bw_rows w)" "\<And>i. only_enqueues (envs i)" "r \<in> set (bw_rows w)"
    and "or_status r \<in> set UNDELIVERED"
  shows "let w' = snd (drain now clock envs w) in
    \<exists>r'. get_row (or_id r) (bw_rows w') = Some r'
     \<and> (if too_old now r then or_status r' = StaleDropped
        else if drain_head now (bw_rows w) r then or_status r' \<in> {Delivered, Failed}
        else or_status r' = Merged)
     \<and> (or_status r' \<in> {StaleDropped, Merged} \<longrightarrow> list_all (\<lambda>c. ic_row c \<noteq> or_id r) (new_calls w w'))
     \<and> length (filter (\<lambda>c. ic_row c = or_id r \<and> accepted c) (new_calls w w')) \<le> 1"
proof -
  define rs where "rs = undelivered (bw_rows w)"
  obtain h w1 where mark: "drain_mark now clock rs [] w = (h, w1)" by fastforce
  define ids where "ids = drain_heads now clock w"
  have ids: "ids = map snd h" by (simp add: ids_def drain_heads_def rs_def [symmetric] mark)
  have r: "r \<in> set rs" using assms(3,4) by (simp add: rs_def undelivered_def)
  have row: "\<exists>x'. get_row (or_id x) (bw_rows w1) = Some x' \<and> or_status x' = (if too_old now x then StaleDropped
        else if head_of now [] rs x = or_id x then or_status x else Merged)" if "x \<in> set rs" for x
    using drain_mark_row [OF undelivered_ids [OF assms(1)] that [unfolded rs_def], of w now clock "[]"]
      get_row_of [OF assms(1)] that mark by (auto simp: rs_def undelivered_def)
  have known: "get_row i (bw_rows w1) \<noteq> None" if "i \<in> set ids" for i
  proof -
    from that obtain k where "(k, i) \<in> set (fst (drain_mark now clock rs [] w))" by (auto simp: ids mark)
    then obtain x where "find (\<lambda>x. \<not> too_old now x \<and> msg_key x = k) rs = Some x" "or_id x = i"
      by (rule drain_heads_entry)
    with row find_row show ?thesis by fastforce
  qed
  have all_known: "\<forall>i \<in> set ids. get_row i (bw_rows w1) \<noteq> None" using known by blast
  have dist: "distinct ids" unfolding ids_def by (rule drain_heads_distinct [OF assms(1)])
  obtain cs where calls: "bw_calls (snd (drain_run envs ids w1)) = bw_calls w1 @ cs"
    and within: "list_all (\<lambda>c. ic_row c \<in> set ids) cs"
    and once: "\<forall>i. length (filter (\<lambda>c. ic_row c = i \<and> accepted c) cs) \<le> 1"
    and tried: "\<forall>i \<in> set ids. \<exists>x. get_row i (bw_rows (snd (drain_run envs ids w1))) = Some x \<and> or_status x \<in> {Delivered, Failed}"
    and left: "\<forall>i x. i \<notin> set ids \<longrightarrow> get_row i (bw_rows w1) = Some x \<longrightarrow>
      get_row i (bw_rows (snd (drain_run envs ids w1))) = Some x"
    using drain_run_outcome [of ids envs w1, OF dist assms(2) all_known] by (elim exE conjE) (rule that)
  from once have one: "length (filter (\<lambda>c. ic_row c = or_id r \<and> accepted c) cs) \<le> 1" ..
  have w': "snd (drain now clock envs w) = snd (drain_run envs ids w1)"
    by (simp add: drain_def rs_def [symmetric] mark ids)
  have cs: "new_calls w (snd (drain_run envs ids w1)) = cs"
    using calls drain_mark_calls [of now clock rs "[]" w] mark by (simp add: new_calls_def)
  have head: "or_id r \<in> set ids \<longleftrightarrow> \<not> too_old now r \<and> drain_head now (bw_rows w) r"
    using drain_heads_iff [OF assms(1) r [unfolded rs_def], of now clock]
      drain_head_iff [OF assms(1) r [unfolded rs_def], of now] unfolding ids_def by blast
  show ?thesis
  proof (cases "or_id r \<in> set ids")
    case True
    then have young: "\<not> too_old now r" "drain_head now (bw_rows w) r" using head by auto
    from tried True obtain x where "get_row (or_id r) (bw_rows (snd (drain_run envs ids w1))) = Some x"
      "or_status x \<in> {Delivered, Failed}" by blast
    with young one show ?thesis unfolding Let_def w' cs by auto
  next
    case False
    then have none: "list_all (\<lambda>c. ic_row c \<noteq> or_id r) cs" using within by (auto simp: list_all_iff)
    obtain x where x: "get_row (or_id r) (bw_rows w1) = Some x" "or_status x = (if too_old now r then StaleDropped
        else if head_of now [] rs r = or_id r then or_status r else Merged)" using row [OF r] by blast
    have "\<not> too_old now r \<Longrightarrow> head_of now [] rs r \<noteq> or_id r"
      using False head drain_head_iff [OF assms(1) r [unfolded rs_def], of now] unfolding rs_def by blast
    then have status: "or_status x = (if too_old now r then StaleDropped else Merged)"
      using x(2) by simp
    have nohead: "too_old now r \<or> \<not> drain_head now (bw_rows w) r" using False head by blast
    show ?thesis
      unfolding Let_def w' cs
    proof (intro exI conjI)
      show "get_row (or_id r) (bw_rows (snd (drain_run envs ids w1))) = Some x" using left False x(1) by blast
      show "if too_old now r then or_status x = StaleDropped
          else if drain_head now (bw_rows w) r then or_status x \<in> {Delivered, Failed} else or_status x = Merged"
        using status nohead by auto
      show "or_status x \<in> {StaleDropped, Merged} \<longrightarrow> list_all (\<lambda>c. ic_row c \<noteq> or_id r) cs" using none by simp
    qed (rule one)
  qed
qed

text \<open>A row that is tried, its resend, and one from the day before yesterday.\<close>

definition three_rows :: bridge_world where
  "three_rows = \<lparr>bw_rows = [new_row 172000 ''a'' ''s'' ''k'' ''discord'' ''hi'',
     (new_row 172010 ''b'' ''s'' ''k'' ''discord'' ''hi'')\<lparr>or_status := Failed\<rparr>,
     new_row 0 ''c'' ''s'' ''k'' ''discord'' ''old''], bw_calls = []\<rparr>"

theorem crosssource_drain_settles_witness:
  "\<exists>r'. get_row ''c'' (bw_rows (snd (drain 172800 real (\<lambda>rid. three_refusals) three_rows))) = Some r' \<and> or_status r' = StaleDropped"
proof -
  define r where "r = new_row 0 ''c'' ''s'' ''k'' ''discord'' ''old''"
  have "outbox_wf (bw_rows three_rows)" by (simp add: outbox_wf_def three_rows_def new_row_def)
  moreover have "only_enqueues three_refusals" by (simp add: only_enqueues_def three_refusals_def)
  moreover have "r \<in> set (bw_rows three_rows)" by (simp add: three_rows_def r_def)
  moreover have "or_status r \<in> set UNDELIVERED" by (simp add: new_row_def UNDELIVERED_def r_def)
  moreover have "too_old 172800 r" "or_id r = ''c''"
    by (simp_all add: too_old_def new_row_def DRAIN_MAX_AGE_SECONDS_def r_def)
  ultimately show ?thesis
    using crosssource_drain_settles [of three_rows "\<lambda>rid. three_refusals" r 172800 real] by (auto simp: Let_def)
qed

end
