(* ===== verification/Cross_Tasks.thy ===== *)
theory Cross_Tasks
  imports Cross_Bridge
begin

text \<open>
  The deliveries of \<open>compat/crosssource.py\<close> as interleaved tasks: \<open>_run\<close> cut where it awaits, so that
  requests, other deliveries, the marks of a drain and a restart of the gateway can come in between. The
  lock of a row is the flight listed for it.
\<close>

datatype phase = Checking | Refused string | Trying nat | Answered nat inject

record flight =
  fl_row :: string
  fl_attempts :: nat
  fl_key :: string
  fl_text :: string
  fl_phase :: phase

record task_world =
  tw_rows :: "out_row list"
  tw_flights :: "flight list"
  tw_calls :: "inject_call list"
  tw_marks :: "string list"
  tw_restarts :: nat

definition flight_of :: "string \<Rightarrow> task_world \<Rightarrow> flight option" where
  "flight_of rid w = get_by fl_row rid (tw_flights w)"

definition set_phase :: "string \<Rightarrow> phase \<Rightarrow> task_world \<Rightarrow> task_world" where
  "set_phase rid ph w = w\<lparr>tw_flights := upd_where (\<lambda>f. fl_row f = rid) (\<lambda>f. f\<lparr>fl_phase := ph\<rparr>) (tw_flights w)\<rparr>"

definition finish :: "string \<Rightarrow> task_world \<Rightarrow> task_world" where
  "finish rid w = w\<lparr>tw_flights := del_where (\<lambda>f. fl_row f = rid) (tw_flights w)\<rparr>"

datatype task_op =
    TEnqueue time string string string string string
  | TMark time string nat bool "string option"
  | TBegin string
  | TCheck string authority_view
  | TInject string inject
  | TWrite string time
  | TRestart

definition task_begin :: "string \<Rightarrow> task_world \<Rightarrow> task_world" where
  "task_begin rid w = (case get_row rid (tw_rows w) of
     None \<Rightarrow> w
   | Some r \<Rightarrow> if or_status r = Delivered \<or> flight_of rid w \<noteq> None then w
              else w\<lparr>tw_flights := tw_flights w @ [\<lparr>fl_row = rid, fl_attempts = or_attempts r, fl_key = or_key r,
                fl_text = remove_suffix LEGACY_MARK (or_text r), fl_phase = Checking\<rparr>]\<rparr>)"

definition task_check :: "string \<Rightarrow> authority_view \<Rightarrow> task_world \<Rightarrow> task_world" where
  "task_check rid view w = (case flight_of rid w of
     Some f \<Rightarrow> if fl_phase f \<noteq> Checking then w
       else set_phase rid (case refusal view of Some e \<Rightarrow> Refused e | None \<Rightarrow> Trying 1) w
   | None \<Rightarrow> w)"

definition task_inject :: "string \<Rightarrow> inject \<Rightarrow> task_world \<Rightarrow> task_world" where
  "task_inject rid ans w = (case flight_of rid w of
     Some f \<Rightarrow> (case fl_phase f of
       Trying k \<Rightarrow> (set_phase rid (Answered k ans) w)\<lparr>tw_calls := tw_calls w @ (if ans = NoContext then []
          else [\<lparr>ic_row = rid, ic_key = fl_key f, ic_text = fl_text f, ic_answer = ans\<rparr>])\<rparr>
     | _ \<Rightarrow> w)
   | None \<Rightarrow> w)"

definition task_write :: "string \<Rightarrow> time \<Rightarrow> task_world \<Rightarrow> task_world" where
  "task_write rid now w = (case flight_of rid w of
     Some f \<Rightarrow> (case fl_phase f of
       Refused e \<Rightarrow> finish rid (w\<lparr>tw_rows := record_row now rid (Suc (fl_attempts f)) Failed (Some e) None (tw_rows w)\<rparr>)
     | Answered k ans \<Rightarrow> (case trigger_error ans of
         None \<Rightarrow> finish rid (w\<lparr>tw_rows := record_row now rid (fl_attempts f + k) Delivered None (Some ''injected'') (tw_rows w)\<rparr>)
       | Some e \<Rightarrow>
           let w1 = w\<lparr>tw_rows := record_row now rid (fl_attempts f + k) (if k = MAX_ATTEMPTS then Failed else Pending)
                        (Some e) None (tw_rows w)\<rparr>
           in if k = MAX_ATTEMPTS then finish rid w1 else set_phase rid (Trying (Suc k)) w1)
     | _ \<Rightarrow> w)
   | None \<Rightarrow> w)"

fun task_step :: "task_op \<Rightarrow> task_world \<Rightarrow> task_world" where
  "task_step (TEnqueue now uuid sid key plat msg) w =
     w\<lparr>tw_rows := snd (enqueue now uuid sid key plat msg (tw_rows w))\<rparr>"
| "task_step (TMark now rid att stale err) w =
     w\<lparr>tw_rows := record_row now rid att (if stale then StaleDropped else Merged) err None (tw_rows w),
       tw_marks := tw_marks w @ [rid]\<rparr>"
| "task_step (TBegin rid) w = task_begin rid w"
| "task_step (TCheck rid view) w = task_check rid view w"
| "task_step (TInject rid ans) w = task_inject rid ans w"
| "task_step (TWrite rid now) w = task_write rid now w"
| "task_step TRestart w = w\<lparr>tw_flights := [], tw_restarts := Suc (tw_restarts w)\<rparr>"

definition task_start :: "out_row list \<Rightarrow> task_world" where
  "task_start t = \<lparr>tw_rows = t, tw_flights = [], tw_calls = [], tw_marks = [], tw_restarts = 0\<rparr>"

section \<open>What is owed for a row\<close>

definition accepts :: "string \<Rightarrow> task_world \<Rightarrow> nat" where
  "accepts rid w = count_where (\<lambda>c. ic_row c = rid \<and> accepted c) (tw_calls w)"

text \<open>An acceptance that is written down, or still to be.\<close>

definition settled_row :: "string \<Rightarrow> out_row list \<Rightarrow> bool" where
  "settled_row rid t \<longleftrightarrow> (\<exists>r \<in> set t. or_id r = rid \<and> or_status r = Delivered)"

definition in_hand :: "string \<Rightarrow> task_world \<Rightarrow> bool" where
  "in_hand rid w \<longleftrightarrow> (\<exists>f \<in> set (tw_flights w). fl_row f = rid \<and> (\<exists>k. fl_phase f = Answered k (Answers True)))"

definition owed :: "string \<Rightarrow> task_world \<Rightarrow> nat" where
  "owed rid w = (if settled_row rid (tw_rows w) \<or> in_hand rid w then 1 else 0)"

definition tasks_ok :: "task_world \<Rightarrow> bool" where
  "tasks_ok w \<longleftrightarrow> outbox_wf (tw_rows w) \<and> distinct (map fl_row (tw_flights w))
     \<and> (\<forall>f \<in> set (tw_flights w). fl_row f \<in> or_id ` set (tw_rows w) \<and> \<not> settled_row (fl_row f) (tw_rows w))
     \<and> (\<forall>rid. accepts rid w \<le> count_list (tw_marks w) rid + tw_restarts w + owed rid w)"

lemma task_record_settled:
  "settled_row rid' (record_row now rid att st err tr t) \<longleftrightarrow>
     (if rid' = rid then st = Delivered \<and> rid \<in> or_id ` set t else settled_row rid' t)"
proof -
  have eq: "settled_row rid' (record_row now rid att st err tr t) \<longleftrightarrow> (\<exists>r \<in> set t. or_id r = rid'
      \<and> (if or_id r = rid then st else or_status r) = Delivered)"
    unfolding settled_row_def record_row_def set_upd_where bex_simps by (rule bex_cong) auto
  show ?thesis
    unfolding eq unfolding settled_row_def by (cases "rid' = rid") (auto simp: image_iff)
qed

lemma record_row_id_set: "or_id ` set (record_row now rid att st err tr t) = or_id ` set t"
  by (metis list.set_map record_row_ids)

lemma settled_enqueue: "settled_row rid (snd (enqueue now uuid sid key plat msg t)) \<longleftrightarrow> settled_row rid t"
  by (cases rule: enqueue_cases [of now sid msg t uuid key plat]) (auto simp: settled_row_def new_row_def)

lemma enqueue_ids: "rid \<in> or_id ` set t \<Longrightarrow> rid \<in> or_id ` set (snd (enqueue now uuid sid key plat msg t))"
  by (cases rule: enqueue_cases [of now sid msg t uuid key plat]) auto

lemma flight_ofD: "flight_of rid w = Some f \<Longrightarrow> f \<in> set (tw_flights w) \<and> fl_row f = rid"
  unfolding flight_of_def by (rule get_by_SomeD)

lemma phase_rows: "map fl_row (upd_where (\<lambda>f. fl_row f = rid) (\<lambda>f. f\<lparr>fl_phase := ph\<rparr>) fs) = map fl_row fs"
  by (rule map_upd_where) simp

lemma set_phase_flight: "f \<in> set (tw_flights (set_phase rid ph w)) \<longleftrightarrow>
    (\<exists>g \<in> set (tw_flights w). f = (if fl_row g = rid then g\<lparr>fl_phase := ph\<rparr> else g))"
  by (auto simp: set_phase_def set_upd_where intro: rev_image_eqI)

lemma phase_row: "fl_row (if c then g\<lparr>fl_phase := ph\<rparr> else g) = fl_row g"
  by simp

lemma phase_keep: "g \<in> set (tw_flights w) \<Longrightarrow> fl_row g \<noteq> rid \<Longrightarrow> g \<in> set (tw_flights (set_phase rid ph w))"
  by (auto simp: set_phase_flight)

lemma phase_new: "g \<in> set (tw_flights w) \<Longrightarrow> fl_row g = rid \<Longrightarrow>
    g\<lparr>fl_phase := ph\<rparr> \<in> set (tw_flights (set_phase rid ph w))"
  by (auto simp: set_phase_flight)

lemma set_phase_simps [simp]:
  "tw_rows (set_phase rid ph w) = tw_rows w" "tw_calls (set_phase rid ph w) = tw_calls w"
  "tw_marks (set_phase rid ph w) = tw_marks w" "tw_restarts (set_phase rid ph w) = tw_restarts w"
  by (simp_all add: set_phase_def)

lemma finish_simps [simp]:
  "tw_rows (finish rid w) = tw_rows w" "tw_calls (finish rid w) = tw_calls w"
  "tw_marks (finish rid w) = tw_marks w" "tw_restarts (finish rid w) = tw_restarts w"
  "set (tw_flights (finish rid w)) = {f \<in> set (tw_flights w). fl_row f \<noteq> rid}"
  by (auto simp: finish_def set_del_where)

section \<open>Every step\<close>

lemma tasks_okI:
  assumes "outbox_wf (tw_rows w)" "distinct (map fl_row (tw_flights w))"
    and "\<And>f. f \<in> set (tw_flights w) \<Longrightarrow> fl_row f \<in> or_id ` set (tw_rows w) \<and> \<not> settled_row (fl_row f) (tw_rows w)"
    and "\<And>rid. accepts rid w \<le> count_list (tw_marks w) rid + tw_restarts w + owed rid w"
  shows "tasks_ok w"
  using assms by (auto simp: tasks_ok_def)

lemma tasks_okD:
  assumes "tasks_ok w"
  shows "outbox_wf (tw_rows w)" "distinct (map fl_row (tw_flights w))"
    "f \<in> set (tw_flights w) \<Longrightarrow> fl_row f \<in> or_id ` set (tw_rows w)"
    "f \<in> set (tw_flights w) \<Longrightarrow> \<not> settled_row (fl_row f) (tw_rows w)"
    "accepts rid w \<le> count_list (tw_marks w) rid + tw_restarts w + owed rid w"
  using assms by (auto simp: tasks_ok_def)

lemma one_flight: "tasks_ok w \<Longrightarrow> f \<in> set (tw_flights w) \<Longrightarrow> g \<in> set (tw_flights w) \<Longrightarrow> fl_row f = fl_row g \<Longrightarrow> f = g"
  by (metis distinct_key_inj tasks_okD(2))

lemma not_in_hand:
  assumes "tasks_ok w" "f \<in> set (tw_flights w)" "fl_row f = rid" "\<forall>k. fl_phase f \<noteq> Answered k (Answers True)"
  shows "\<not> in_hand rid w"
proof
  assume "in_hand rid w"
  then obtain g k where g: "g \<in> set (tw_flights w)" "fl_row g = rid" "fl_phase g = Answered k (Answers True)"
    unfolding in_hand_def by blast
  from one_flight [OF assms(1,2) g(1)] assms(3) g(2) have "f = g" by simp
  with assms(4) g(3) show False by blast
qed

lemma owed_free:
  assumes "tasks_ok w" "f \<in> set (tw_flights w)" "fl_row f = rid" "\<forall>k. fl_phase f \<noteq> Answered k (Answers True)"
  shows "owed rid w = 0"
  using not_in_hand [OF assms] tasks_okD(4) [OF assms(1,2)] assms(3) by (simp add: owed_def)

lemma accepts_same: "tw_calls w' = tw_calls w \<Longrightarrow> accepts rid w' = accepts rid w"
  by (simp add: accepts_def)

lemma owed_enqueue: "owed rid (w\<lparr>tw_rows := snd (enqueue now uuid sid key plat msg (tw_rows w))\<rparr>) = owed rid w"
  by (simp add: owed_def settled_enqueue in_hand_def)

lemma ok_enqueue:
  assumes "tasks_ok w"
  shows "tasks_ok (w\<lparr>tw_rows := snd (enqueue now uuid sid key plat msg (tw_rows w))\<rparr>)" (is "tasks_ok ?w")
proof (rule tasks_okI)
  fix rid
  show "accepts rid ?w \<le> count_list (tw_marks ?w) rid + tw_restarts ?w + owed rid ?w"
    using tasks_okD(5) [OF assms, of rid] by (simp add: owed_enqueue accepts_def)
next
  fix f assume "f \<in> set (tw_flights ?w)"
  then have "fl_row f \<in> or_id ` set (tw_rows w)" "\<not> settled_row (fl_row f) (tw_rows w)"
    using tasks_okD(3,4) [OF assms] by simp_all
  then show "fl_row f \<in> or_id ` set (tw_rows ?w) \<and> \<not> settled_row (fl_row f) (tw_rows ?w)"
    by (simp add: enqueue_ids settled_enqueue)
qed (simp_all add: enqueue_wf tasks_okD [OF assms])

lemma owed_le: "owed rid w \<le> 1"
  by (simp add: owed_def)

text \<open>A record other than \<open>delivered\<close> on \<open>rid\<close>, with the flights given.\<close>

lemma owed_other:
  assumes "rid' \<noteq> rid" "\<And>f. f \<in> set (tw_flights w') \<and> fl_row f = rid' \<longleftrightarrow> f \<in> set (tw_flights w) \<and> fl_row f = rid'"
    and "settled_row rid' (tw_rows w') \<longleftrightarrow> settled_row rid' (tw_rows w)"
  shows "owed rid' w' = owed rid' w"
  using assms(2,3) unfolding owed_def in_hand_def by metis

lemma ok_mark:
  assumes "tasks_ok w" "st \<noteq> Delivered"
  shows "tasks_ok (w\<lparr>tw_rows := record_row now rid att st err tr (tw_rows w), tw_marks := tw_marks w @ [rid]\<rparr>)"
    (is "tasks_ok ?w")
proof (rule tasks_okI)
  fix rid'
  have "accepts rid' ?w = accepts rid' w" by (rule accepts_same) simp
  moreover have "rid' \<noteq> rid \<Longrightarrow> owed rid' ?w = owed rid' w"
    by (rule owed_other) (simp_all add: task_record_settled)
  ultimately show "accepts rid' ?w \<le> count_list (tw_marks ?w) rid' + tw_restarts ?w + owed rid' ?w"
    using tasks_okD(5) [OF assms(1), of rid'] owed_le [of rid' w] by (cases "rid' = rid") auto
qed (use assms in \<open>auto simp: record_row_wf task_record_settled record_row_id_set dest: tasks_okD\<close>)

lemma ok_restart: "tasks_ok w \<Longrightarrow> tasks_ok (w\<lparr>tw_flights := [], tw_restarts := Suc (tw_restarts w)\<rparr>)"
proof (rule tasks_okI)
  fix rid assume "tasks_ok w"
  from tasks_okD(5) [OF this, of rid] owed_le [of rid w]
  show "accepts rid (w\<lparr>tw_flights := [], tw_restarts := Suc (tw_restarts w)\<rparr>)
      \<le> count_list (tw_marks (w\<lparr>tw_flights := [], tw_restarts := Suc (tw_restarts w)\<rparr>)) rid
        + tw_restarts (w\<lparr>tw_flights := [], tw_restarts := Suc (tw_restarts w)\<rparr>)
        + owed rid (w\<lparr>tw_flights := [], tw_restarts := Suc (tw_restarts w)\<rparr>)"
    by (simp add: accepts_def)
qed (auto dest: tasks_okD)

lemma ok_begin: "tasks_ok w \<Longrightarrow> tasks_ok (task_begin rid w)"
proof -
  assume ok: "tasks_ok w"
  show ?thesis
  proof (cases "\<exists>r. get_row rid (tw_rows w) = Some r \<and> or_status r \<noteq> Delivered \<and> flight_of rid w = None")
    case False
    then have "task_begin rid w = w" by (auto simp: task_begin_def split: option.split)
    with ok show ?thesis by simp
  next
    case True
    then obtain r where r: "get_row rid (tw_rows w) = Some r" "or_status r \<noteq> Delivered" "flight_of rid w = None" by blast
    define f where "f = \<lparr>fl_row = rid, fl_attempts = or_attempts r, fl_key = or_key r,
      fl_text = remove_suffix LEGACY_MARK (or_text r), fl_phase = Checking\<rparr>"
    have w': "task_begin rid w = w\<lparr>tw_flights := tw_flights w @ [f]\<rparr>"
      using r by (simp add: task_begin_def f_def)
    have row: "r \<in> set (tw_rows w)" "or_id r = rid" using r(1) unfolding get_row_def by (auto dest: get_by_SomeD)
    have unsettled: "\<not> settled_row rid (tw_rows w)"
      using r(2) row tasks_okD(1) [OF ok] unfolding settled_row_def outbox_wf_def by (metis distinct_key_inj)
    have new: "rid \<notin> fl_row ` set (tw_flights w)" using r(3) unfolding flight_of_def get_by_None .
    have hand: "in_hand rid' (w\<lparr>tw_flights := tw_flights w @ [f]\<rparr>) \<longleftrightarrow> in_hand rid' w" for rid'
      by (auto simp: in_hand_def f_def)
    show ?thesis
      unfolding w'
    proof (rule tasks_okI)
      fix rid'
      show "accepts rid' (w\<lparr>tw_flights := tw_flights w @ [f]\<rparr>)
          \<le> count_list (tw_marks (w\<lparr>tw_flights := tw_flights w @ [f]\<rparr>)) rid' + tw_restarts (w\<lparr>tw_flights := tw_flights w @ [f]\<rparr>)
            + owed rid' (w\<lparr>tw_flights := tw_flights w @ [f]\<rparr>)"
        using tasks_okD(5) [OF ok, of rid'] by (simp add: owed_def hand accepts_def)
    qed (use tasks_okD [OF ok] unsettled row new in \<open>auto simp: f_def\<close>)
  qed
qed

text \<open>A flight changes its phase, and at most one acceptance is added to the calls.\<close>

lemma ok_phase:
  assumes "tasks_ok w" "f \<in> set (tw_flights w)" "fl_row f = rid" "\<forall>k. fl_phase f \<noteq> Answered k (Answers True)"
  shows "tasks_ok (set_phase rid ph w)"
proof (rule tasks_okI)
  fix rid'
  have "in_hand rid' (set_phase rid ph w)" if hand: "in_hand rid' w"
  proof -
    from hand not_in_hand [OF assms] have "rid' \<noteq> rid" by blast
    with hand show ?thesis unfolding in_hand_def using phase_keep by fastforce
  qed
  then show "accepts rid' (set_phase rid ph w)
      \<le> count_list (tw_marks (set_phase rid ph w)) rid' + tw_restarts (set_phase rid ph w) + owed rid' (set_phase rid ph w)"
    using tasks_okD(5) [OF assms(1), of rid'] by (auto simp: accepts_def owed_def split: if_splits)
next
  show "distinct (map fl_row (tw_flights (set_phase rid ph w)))"
    using tasks_okD(2) [OF assms(1)] by (simp add: set_phase_def phase_rows)
qed (use tasks_okD [OF assms(1)] in \<open>auto simp: set_phase_flight phase_row\<close>)

lemma ok_inject: assumes "tasks_ok w" shows "tasks_ok (task_inject rid ans w)"
proof (cases "\<exists>f k. flight_of rid w = Some f \<and> fl_phase f = Trying k")
  case False
  then have "task_inject rid ans w = w" by (auto simp: task_inject_def split: option.split phase.split)
  with assms show ?thesis by simp
next
  case True
  then obtain f k where f: "flight_of rid w = Some f" "fl_phase f = Trying k" by blast
  from flight_ofD [OF f(1)] have fin: "f \<in> set (tw_flights w)" "fl_row f = rid" by simp_all
  define w1 where "w1 = set_phase rid (Answered k ans) w"
  define cs where "cs = (if ans = NoContext then []
    else [\<lparr>ic_row = rid, ic_key = fl_key f, ic_text = fl_text f, ic_answer = ans\<rparr>])"
  have w': "task_inject rid ans w = w1\<lparr>tw_calls := tw_calls w @ cs\<rparr>"
    using f by (simp add: task_inject_def w1_def cs_def)
  have ok1: "tasks_ok w1" unfolding w1_def by (rule ok_phase [OF assms fin]) (simp add: f(2))
  have free: "owed rid w = 0"
    by (rule owed_free [OF assms fin]) (simp add: f(2))
  show ?thesis
    unfolding w'
  proof (rule tasks_okI)
    fix rid'
    have owed: "owed rid' (w1\<lparr>tw_calls := tw_calls w @ cs\<rparr>) = owed rid' w1" by (simp add: owed_def in_hand_def)
    have calls: "accepts rid' (w1\<lparr>tw_calls := tw_calls w @ cs\<rparr>) =
        accepts rid' w + (if rid' = rid \<and> ans = Answers True then 1 else 0)"
      by (auto simp: accepts_def count_where_def cs_def accepted_def)
    have hand: "owed rid w1 = 1" if "ans = Answers True"
      using phase_new [OF fin, of "Answered k ans"] that fin(2) unfolding owed_def in_hand_def w1_def by force
    have le: "accepts rid' w \<le> count_list (tw_marks w) rid' + tw_restarts w + owed rid' w1"
      using tasks_okD(5) [OF ok1, of rid'] by (simp add: accepts_def w1_def)
    show "accepts rid' (w1\<lparr>tw_calls := tw_calls w @ cs\<rparr>) \<le> count_list (tw_marks (w1\<lparr>tw_calls := tw_calls w @ cs\<rparr>)) rid'
        + tw_restarts (w1\<lparr>tw_calls := tw_calls w @ cs\<rparr>) + owed rid' (w1\<lparr>tw_calls := tw_calls w @ cs\<rparr>)"
      unfolding owed calls using le hand free tasks_okD(5) [OF assms, of rid'] by (auto simp: w1_def)
  qed (use tasks_okD [OF ok1] in simp_all)
qed

lemma ok_check: assumes "tasks_ok w" shows "tasks_ok (task_check rid view w)"
proof (cases "flight_of rid w")
  case (Some f)
  with flight_ofD [OF Some] assms show ?thesis
    by (auto simp: task_check_def intro!: ok_phase)
qed (simp add: task_check_def assms)

text \<open>The end of a flight with its record.\<close>

lemma ok_finish:
  assumes "tasks_ok w" "f \<in> set (tw_flights w)" "fl_row f = rid"
    and "st = Delivered \<or> (\<forall>k. fl_phase f \<noteq> Answered k (Answers True))"
  shows "tasks_ok (finish rid (w\<lparr>tw_rows := record_row now rid att st err tr (tw_rows w)\<rparr>))" (is "tasks_ok ?w")
proof (rule tasks_okI)
  fix rid'
  have id: "rid \<in> or_id ` set (tw_rows w)" using tasks_okD(3) [OF assms(1,2)] assms(3) by simp
  have "owed rid' w \<le> owed rid' ?w"
  proof (cases "rid' = rid")
    case True
    show ?thesis
    proof (cases "st = Delivered")
      case True
      with id \<open>rid' = rid\<close> show ?thesis using owed_le [of rid w] by (simp add: owed_def task_record_settled)
    next
      case False
      with assms(4) have "owed rid w = 0" using owed_free [OF assms(1-3)] by simp
      with True show ?thesis by simp
    qed
  next
    case False
    then show ?thesis by (auto simp: owed_def task_record_settled in_hand_def)
  qed
  with tasks_okD(5) [OF assms(1), of rid']
  show "accepts rid' ?w \<le> count_list (tw_marks ?w) rid' + tw_restarts ?w + owed rid' ?w"
    by (simp add: accepts_def)
next
  show "distinct (map fl_row (tw_flights ?w))"
    using tasks_okD(2) [OF assms(1)] by (simp add: finish_def distinct_map_del_where)
qed (use tasks_okD [OF assms(1)] in \<open>auto simp: record_row_wf task_record_settled record_row_id_set\<close>)

text \<open>A record between two attempts.\<close>

lemma ok_record:
  assumes "tasks_ok w" "f \<in> set (tw_flights w)" "fl_row f = rid" "st \<noteq> Delivered"
  shows "tasks_ok (w\<lparr>tw_rows := record_row now rid att st err tr (tw_rows w)\<rparr>)" (is "tasks_ok ?w")
proof (rule tasks_okI)
  fix rid'
  have "owed rid' ?w = owed rid' w"
    using tasks_okD(4) [OF assms(1,2)] assms(3,4) by (auto simp: owed_def task_record_settled in_hand_def)
  with tasks_okD(5) [OF assms(1), of rid']
  show "accepts rid' ?w \<le> count_list (tw_marks ?w) rid' + tw_restarts ?w + owed rid' ?w"
    by (simp add: accepts_def)
qed (use tasks_okD [OF assms(1)] assms(4) in \<open>auto simp: record_row_wf task_record_settled record_row_id_set\<close>)

lemma trigger_error_None: "trigger_error ans = None \<longleftrightarrow> ans = Answers True"
  by (cases ans) auto

lemma ok_write: assumes "tasks_ok w" shows "tasks_ok (task_write rid now w)"
proof (cases "flight_of rid w")
  case None
  with assms show ?thesis by (simp add: task_write_def)
next
  case (Some f)
  from flight_ofD [OF Some] have f: "f \<in> set (tw_flights w)" "fl_row f = rid" by simp_all
  show ?thesis
  proof (cases "fl_phase f")
    case (Refused e)
    with Some f assms show ?thesis by (simp add: task_write_def ok_finish)
  next
    case (Answered k ans)
    show ?thesis
    proof (cases "trigger_error ans")
      case None
      with Some f assms Answered show ?thesis by (simp add: task_write_def ok_finish)
    next
      case (Some e)
      then have ans: "ans \<noteq> Answers True" by auto
      show ?thesis
      proof (cases "k = MAX_ATTEMPTS")
        case True
        with \<open>flight_of rid w = Some f\<close> f assms Answered Some ans show ?thesis
          by (simp add: task_write_def ok_finish)
      next
        case False
        have "tasks_ok (w\<lparr>tw_rows := record_row now rid (fl_attempts f + k) Pending (Some e) None (tw_rows w)\<rparr>)"
          by (rule ok_record [OF assms f]) simp
        then have "tasks_ok (set_phase rid (Trying (Suc k))
            (w\<lparr>tw_rows := record_row now rid (fl_attempts f + k) Pending (Some e) None (tw_rows w)\<rparr>))"
          using f Answered ans by (intro ok_phase [where f = f]) auto
        with \<open>flight_of rid w = Some f\<close> Answered Some False show ?thesis by (simp add: task_write_def Let_def)
      qed
    qed
  qed (use Some assms in \<open>simp_all add: task_write_def\<close>)
qed

lemma tasks_ok_step: "tasks_ok w \<Longrightarrow> tasks_ok (task_step op w)"
  by (cases op) (simp_all add: ok_enqueue ok_mark ok_begin ok_check ok_inject ok_write ok_restart)

interpretation tk: guarded_store task_step tasks_ok
  by unfold_locales (rule tasks_ok_step)

lemma tasks_ok_start: "outbox_wf t \<Longrightarrow> tasks_ok (task_start t)"
  by (simp add: tasks_ok_def task_start_def accepts_def count_where_def)

text \<open>
  C23. However requests, retries and drains interleave, the core accepts one message at most once, and
  once more for each mark a drain puts on its row while it is delivered or in hand and for each restart
  of the gateway: with no restart and no mark every message starts at most one turn.
\<close>

theorem crosssource_injected_once:
  "accepts rid (fold task_step ops (task_start [])) \<le>
     Suc (count_list (tw_marks (fold task_step ops (task_start []))) rid + tw_restarts (fold task_step ops (task_start [])))"
proof -
  have "tasks_ok (fold task_step ops (task_start []))"
    by (rule tk.run_inv) (simp add: tasks_ok_start outbox_wf_def)
  from tasks_okD(5) [OF this, of rid] owed_le [of rid "fold task_step ops (task_start [])"] show ?thesis by simp
qed

end
