(* ===== verification/Synthetic_Runs.thy ===== *)
theory Synthetic_Runs
  imports Json
begin

text \<open>
  \<open>compat/crosssource.py\<close>, class \<open>SyntheticRuns\<close>: the run ids the stream route hands out, in the order of
  the dict, and the status a run is reported with. The random id, the clock and what the core knows of an
  admission are arguments.
\<close>

section \<open>The registry\<close>

record run_entry =
  re_session :: string
  re_key :: string
  re_admission :: "string option"
  re_terminal :: "string option"
  re_issued :: time
  re_expires :: "time option"

type_synonym run_table = "(string \<times> run_entry) list"

definition SYNTHETIC_RUNS_CAP :: nat where "SYNTHETIC_RUNS_CAP = 256"
definition SYNTHETIC_GRACE_SECONDS :: time where "SYNTHETIC_GRACE_SECONDS = 300"
definition SYNTHETIC_MAX_AGE_SECONDS :: time where "SYNTHETIC_MAX_AGE_SECONDS = 24 * 3600"

definition forgotten :: "time \<Rightarrow> run_entry \<Rightarrow> bool" where
  "forgotten now e \<longleftrightarrow> now - re_issued e \<ge> SYNTHETIC_MAX_AGE_SECONDS
     \<or> (case re_expires e of None \<Rightarrow> False | Some x \<Rightarrow> now \<ge> x)"

definition prune :: "time \<Rightarrow> run_table \<Rightarrow> run_table" where
  "prune now es = filter (\<lambda>(k, e). \<not> forgotten now e) es"

definition released :: "string \<times> run_entry \<Rightarrow> bool" where
  "released ke \<longleftrightarrow> re_expires (snd ke) \<noteq> None"

text \<open>The entry that makes room: the first released one, else the first.\<close>

definition drop_one :: "run_table \<Rightarrow> run_table" where
  "drop_one es = (case find released es of
     Some (k, e) \<Rightarrow> filter (\<lambda>p. fst p \<noteq> k) es
   | None \<Rightarrow> drop 1 es)"

lemma drop_one_shorter: "es \<noteq> [] \<Longrightarrow> length (drop_one es) < length es"
proof (cases "find released es")
  case (Some p)
  then have "p \<in> set es" by (auto simp: find_Some_iff in_set_conv_nth)
  then have "length (filter (\<lambda>q. fst q \<noteq> fst p) es) < length es"
    by (intro length_filter_less) auto
  with Some show ?thesis by (cases p) (simp add: drop_one_def)
qed (simp add: drop_one_def)

function make_room :: "run_table \<Rightarrow> run_table" where
  "make_room es = (if length es \<ge> SYNTHETIC_RUNS_CAP then make_room (drop_one es) else es)"
  by pat_completeness auto
termination
  by (relation "measure length") (auto simp: SYNTHETIC_RUNS_CAP_def intro!: drop_one_shorter)

declare make_room.simps [simp del]

text \<open>Assignment to a key of the dict.\<close>

definition put_run :: "string \<Rightarrow> run_entry \<Rightarrow> run_table \<Rightarrow> run_table" where
  "put_run k e es = (if k \<in> fst ` set es then map (\<lambda>(k', e'). (k', if k' = k then e else e')) es else es @ [(k, e)])"

definition issue :: "time \<Rightarrow> string \<Rightarrow> string \<Rightarrow> string \<Rightarrow> run_table \<Rightarrow> string \<times> run_table" where
  "issue now uuid sid key es = (let rid = ''run_'' @ uuid
     in (rid, put_run rid \<lparr>re_session = sid, re_key = key, re_admission = None, re_terminal = None,
                re_issued = now, re_expires = None\<rparr> (make_room (prune now es))))"

definition alter_run :: "string \<Rightarrow> (run_entry \<Rightarrow> run_entry) \<Rightarrow> run_table \<Rightarrow> run_table" where
  "alter_run k f es = map (\<lambda>(k', e). (k', if k' = k then f e else e)) es"

definition bind_run :: "string \<Rightarrow> string option \<Rightarrow> run_table \<Rightarrow> run_table" where
  "bind_run rid aid es = (if aid = None \<or> aid = Some [] then es
     else alter_run rid (\<lambda>e. e\<lparr>re_admission := aid\<rparr>) es)"

definition TERMINAL_STATUS :: "(string \<times> string) list" where
  "TERMINAL_STATUS = [(''run.completed'', ''completed''), (''run.failed'', ''failed''),
     (''run.cancelled'', ''cancelled''), (''run.interrupted'', ''interrupted'')]"

definition release_run :: "time \<Rightarrow> string \<Rightarrow> string option \<Rightarrow> run_table \<Rightarrow> run_table" where
  "release_run now rid ended es = alter_run rid (\<lambda>e. e\<lparr>
     re_terminal := (case ended of None \<Rightarrow> None | Some n \<Rightarrow> map_of TERMINAL_STATUS n),
     re_expires := Some (now + SYNTHETIC_GRACE_SECONDS)\<rparr>) es"

definition entry_of :: "time \<Rightarrow> string \<Rightarrow> run_table \<Rightarrow> run_entry option \<times> run_table" where
  "entry_of now rid es = (let es' = prune now es in (map_of es' rid, es'))"

section \<open>The status of a run\<close>

datatype adm_status = Queued | Started | Unknown | Terminal

record admission =
  ad_id :: string
  ad_status :: adm_status
  ad_outcome :: "string option"
  ad_generation :: int

text \<open>A saved result: its flags, its text and the status the core's \<open>terminal_run_status\<close> gives it.\<close>

record saved_result =
  sv_interrupted :: bool
  sv_failed :: bool
  sv_final :: string
  sv_status :: string

record run_status =
  st_run :: string
  st_status :: "string option"
  st_session :: string
  st_admission :: "string option"
  st_generation :: "int option"
  st_output :: string
  st_controls :: "string list"

fun base_status :: "admission \<Rightarrow> string option" where
  "base_status row = (case ad_status row of
     Queued \<Rightarrow> Some ''queued'' | Started \<Rightarrow> Some ''running'' | Unknown \<Rightarrow> Some ''unknown'' | Terminal \<Rightarrow> ad_outcome row)"

definition ended_status :: "admission \<Rightarrow> saved_result option \<Rightarrow> string option" where
  "ended_status row saved =
     (if (\<exists>v. saved = Some v \<and> sv_interrupted v) \<or> ad_outcome row = Some ''interrupted'' then Some ''cancelled''
      else if \<exists>v. saved = Some v \<and> sv_failed v then Some ''failed''
      else case saved of
             Some v \<Rightarrow> if ad_outcome row = Some ''completed'' then Some (sv_status v) else ad_outcome row
           | None \<Rightarrow> ad_outcome row)"

text \<open>\<open>controls\<close>: the kinds of the prompts that wait in the live session, if there is one.\<close>

definition projection :: "admission \<Rightarrow> saved_result option \<Rightarrow> string list option \<Rightarrow> string \<Rightarrow> string \<Rightarrow> run_status" where
  "projection row saved controls rid sid =
     (let saved = (if ad_status row = Terminal then saved else None);
          status = (if ad_status row = Terminal then ended_status row saved else base_status row);
          pending = (if ad_status row = Started then (case controls of None \<Rightarrow> [] | Some cs \<Rightarrow> cs) else [])
      in \<lparr>st_run = rid, st_status = (if ''approval'' \<in> set pending then Some ''waiting_for_approval'' else status),
          st_session = sid, st_admission = Some (ad_id row), st_generation = Some (ad_generation row),
          st_output = (case saved of None \<Rightarrow> [] | Some v \<Rightarrow> sv_final v), st_controls = pending\<rparr>)"

text \<open>What the authority answers: none, an exception, or its admissions by id and those pending.\<close>

record authority =
  au_by_id :: "string \<Rightarrow> admission option"
  au_pending :: "admission list"
  au_saved :: "string \<Rightarrow> saved_result option"
  au_controls :: "string \<Rightarrow> string list option"

datatype authority_answer = Absent | Raising | Live authority

definition admission_for :: "authority \<Rightarrow> run_entry \<Rightarrow> admission option" where
  "admission_for au e = (case re_admission e of
     Some aid \<Rightarrow> au_by_id au aid
   | None \<Rightarrow> (case filter (\<lambda>r. ad_status r = Started) (au_pending au) of
       r # _ \<Rightarrow> Some r
     | [] \<Rightarrow> if au_pending au = [] then None else Some (List.last (au_pending au))))"

definition ended_run :: "string \<Rightarrow> run_entry \<Rightarrow> run_status" where
  "ended_run rid e = \<lparr>st_run = rid,
     st_status = Some (case re_terminal e of Some s \<Rightarrow> s | None \<Rightarrow> ''completed''), st_session = re_session e,
     st_admission = re_admission e, st_generation = None, st_output = [], st_controls = []\<rparr>"

text \<open>\<open>resolve\<close>: the status and the admission a steer binds through.\<close>

definition resolve :: "time \<Rightarrow> authority_answer \<Rightarrow> string \<Rightarrow> run_table
    \<Rightarrow> (run_status \<times> admission option) option \<times> run_table" where
  "resolve now answer rid es = (let (found, es') = entry_of now rid es
     in (map_option (\<lambda>e. case answer of
            Live au \<Rightarrow> (case admission_for au e of
                Some row \<Rightarrow> (projection row (au_saved au (ad_id row)) (au_controls au (ad_id row)) rid (re_session e), Some row)
              | None \<Rightarrow> (ended_run rid e, None))
          | _ \<Rightarrow> (ended_run rid e, None)) found, es'))"

definition steerable :: "run_status \<times> admission option \<Rightarrow> bool" where
  "steerable r \<longleftrightarrow> snd r \<noteq> None \<and> st_status (fst r) = Some ''running''"

section \<open>Histories\<close>

datatype run_op = Issue time string string string | Bind string "string option" | Release time string "string option"
  | Entry time string

fun run_step :: "run_op \<Rightarrow> run_table \<Rightarrow> run_table" where
  "run_step (Issue now uuid sid key) es = snd (issue now uuid sid key es)"
| "run_step (Bind rid aid) es = bind_run rid aid es"
| "run_step (Release now rid ended) es = release_run now rid ended es"
| "run_step (Entry now rid) es = snd (entry_of now rid es)"

definition ended_ok :: "run_entry \<Rightarrow> bool" where
  "ended_ok e \<longleftrightarrow> (case re_terminal e of None \<Rightarrow> True
     | Some s \<Rightarrow> s \<in> {''completed'', ''failed'', ''cancelled'', ''interrupted''})"

definition runs_ok :: "run_table \<Rightarrow> bool" where
  "runs_ok es \<longleftrightarrow> distinct (map fst es) \<and> length es \<le> SYNTHETIC_RUNS_CAP \<and> list_all (\<lambda>p. ended_ok (snd p)) es"

section \<open>Making room\<close>

lemma set_drop_one: "set (drop_one es) \<subseteq> set es"
  by (auto simp: drop_one_def dest: in_set_dropD split: option.split)

lemma distinct_drop_one: "distinct (map fst es) \<Longrightarrow> distinct (map fst (drop_one es))"
  by (auto simp: drop_one_def distinct_map_filter drop_map [symmetric] distinct_drop split: option.split)

text \<open>While a released id is remembered no open stream is forgotten.\<close>

lemma drop_one_open:
  assumes "distinct (map fst es)" "p \<in> set es" "p \<notin> set (drop_one es)" "\<not> released p"
  shows "\<forall>q \<in> set es. \<not> released q"
proof (cases "find released es")
  case None
  then show ?thesis unfolding find_None_iff by blast
next
  case (Some q)
  then have q: "q \<in> set es" "released q" by (auto simp: find_Some_iff in_set_conv_nth)
  from assms(3) Some have "fst p = fst q" using assms(2) by (cases q) (simp add: drop_one_def)
  with assms(1,2) q(1) have "p = q" by (meson distinct_map inj_on_def)
  with assms(4) q(2) show ?thesis by simp
qed

lemma make_room_ok:
  "distinct (map fst es) \<Longrightarrow> distinct (map fst (make_room es)) \<and> length (make_room es) < SYNTHETIC_RUNS_CAP
     \<and> set (make_room es) \<subseteq> set es
     \<and> ((\<exists>p \<in> set es. p \<notin> set (make_room es) \<and> \<not> released p) \<longrightarrow> (\<forall>q \<in> set (make_room es). \<not> released q))"
proof (induction es rule: make_room.induct)
  case (1 es)
  show ?case
  proof (cases "length es \<ge> SYNTHETIC_RUNS_CAP")
    case True
    then have eq: "make_room es = make_room (drop_one es)" by (simp add: make_room.simps [of es])
    from 1(1) [OF True distinct_drop_one [OF 1(2)]]
    have IH: "distinct (map fst (make_room (drop_one es)))" "length (make_room (drop_one es)) < SYNTHETIC_RUNS_CAP"
      "set (make_room (drop_one es)) \<subseteq> set (drop_one es)"
      "(\<exists>p \<in> set (drop_one es). p \<notin> set (make_room (drop_one es)) \<and> \<not> released p) \<longrightarrow>
       (\<forall>q \<in> set (make_room (drop_one es)). \<not> released q)" by simp_all
    have "\<forall>q \<in> set (make_room es). \<not> released q" if p: "p \<in> set es" "p \<notin> set (make_room es)" "\<not> released p" for p
    proof (cases "p \<in> set (drop_one es)")
      case True
      with p IH(4) show ?thesis unfolding eq by blast
    next
      case False
      from drop_one_open [OF 1(2) p(1) False p(3)] IH(3) set_drop_one show ?thesis unfolding eq by blast
    qed
    with IH(1-3) set_drop_one [of es] show ?thesis unfolding eq by blast
  next
    case False
    then have "make_room es = es" by (simp add: make_room.simps [of es])
    with 1(2) False show ?thesis by simp
  qed
qed

lemma put_run_keys: "map fst (put_run k e es) = (if k \<in> fst ` set es then map fst es else map fst es @ [k])"
  by (auto simp: put_run_def)

lemma alter_run_keys: "map fst (alter_run k f es) = map fst es"
  by (auto simp: alter_run_def)

lemma runs_ok_prune: "runs_ok es \<Longrightarrow> runs_ok (prune now es)"
  by (auto simp: runs_ok_def prune_def distinct_map_filter list_all_iff intro: le_trans [OF length_filter_le])

lemma runs_ok_put:
  assumes "distinct (map fst es)" "length es < SYNTHETIC_RUNS_CAP" "list_all (\<lambda>p. ended_ok (snd p)) es" "ended_ok e"
  shows "runs_ok (put_run k e es)"
proof -
  have "length (put_run k e es) \<le> SYNTHETIC_RUNS_CAP" using assms(2) by (auto simp: put_run_def)
  moreover have "list_all (\<lambda>p. ended_ok (snd p)) (put_run k e es)"
    using assms(3,4) by (auto simp: put_run_def list_all_iff)
  ultimately show ?thesis using assms(1) by (auto simp: runs_ok_def put_run_keys)
qed

lemma runs_ok_alter: "runs_ok es \<Longrightarrow> (\<And>e. ended_ok e \<Longrightarrow> ended_ok (f e)) \<Longrightarrow> runs_ok (alter_run k f es)"
  by (simp add: runs_ok_def alter_run_keys) (auto simp: alter_run_def list_all_iff)

lemma runs_ok_issue:
  assumes "runs_ok es" shows "runs_ok (snd (issue now uuid sid key es))"
proof -
  from runs_ok_prune [OF assms, of now] have p: "distinct (map fst (prune now es))"
    "list_all (\<lambda>p. ended_ok (snd p)) (prune now es)" by (simp_all add: runs_ok_def)
  have "list_all (\<lambda>p. ended_ok (snd p)) (make_room (prune now es))"
    using make_room_ok [OF p(1)] p(2) by (auto simp: list_all_iff)
  with make_room_ok [OF p(1)] show ?thesis
    by (auto simp: issue_def Let_def ended_ok_def intro!: runs_ok_put)
qed

lemma ended_ok_release: "ended_ok (e\<lparr>re_terminal := (case ended of None \<Rightarrow> None | Some n \<Rightarrow> map_of TERMINAL_STATUS n), re_expires := x\<rparr>)"
  by (auto simp: ended_ok_def TERMINAL_STATUS_def split: option.split if_splits)

lemma runs_ok_release: "runs_ok es \<Longrightarrow> runs_ok (release_run now rid ended es)"
  unfolding release_run_def by (rule runs_ok_alter) (auto simp: ended_ok_release)

lemma runs_ok_step: "runs_ok es \<Longrightarrow> runs_ok (run_step op es)"
  by (cases op)
    (auto simp: runs_ok_issue bind_run_def runs_ok_release entry_of_def Let_def ended_ok_def
      intro!: runs_ok_alter runs_ok_prune)

interpretation sr: guarded_store run_step runs_ok
  by unfold_locales (rule runs_ok_step)

text \<open>
  C24. Whatever the requests do, at most 256 run ids are remembered, each once. Making room for a new one
  ends, leaves fewer than 256, keeps only what was there, and forgets an open stream only when no
  released id is left.
\<close>

theorem synthetic_runs_bounded:
  "runs_ok (fold run_step ops [])
   \<and> length (make_room (fold run_step ops [])) < SYNTHETIC_RUNS_CAP
   \<and> set (make_room (fold run_step ops [])) \<subseteq> set (fold run_step ops [])
   \<and> (filter (\<lambda>p. p \<notin> set (make_room (fold run_step ops [])) \<and> \<not> released p) (fold run_step ops []) = []
        \<or> filter released (make_room (fold run_step ops [])) = [])"
proof -
  have ok: "runs_ok (fold run_step ops [])"
    by (rule sr.run_inv) (simp add: runs_ok_def)
  then have "distinct (map fst (fold run_step ops []))" by (simp add: runs_ok_def)
  from make_room_ok [OF this] ok show ?thesis unfolding filter_empty_conv by blast
qed

section \<open>What an id answers\<close>

lemma prune_lookup: "distinct (map fst es) \<Longrightarrow>
    map_of (prune now es) rid = (case map_of es rid of None \<Rightarrow> None | Some e \<Rightarrow> if forgotten now e then None else Some e)"
proof (induction es)
  case (Cons p es)
  obtain k e where p: "p = (k, e)" by (cases p)
  have "forgotten now e \<Longrightarrow> map_of (prune now es) k = None"
    using Cons.prems p by (auto simp: map_of_eq_None_iff prune_def)
  with Cons p show ?case by (auto simp: prune_def)
qed (simp add: prune_def)

lemma alter_lookup: "map_of (alter_run k f es) rid = map_option (\<lambda>e. if rid = k then f e else e) (map_of es rid)"
  by (induction es) (auto simp: alter_run_def)

text \<open>
  A released id keeps answering: for five minutes after the end of its stream, and not past a day
  after it was issued, it resolves to a status, and to nothing afterwards; without an admission the
  status is the one the stream ended with.
\<close>

theorem synthetic_run_grace:
  assumes "runs_ok es" "map_of es rid = Some e"
  shows "fst (resolve later answer rid (release_run now rid ended es)) \<noteq> None \<longleftrightarrow>
    later < now + SYNTHETIC_GRACE_SECONDS \<and> later < re_issued e + SYNTHETIC_MAX_AGE_SECONDS"
proof -
  have "runs_ok (release_run now rid ended es)" using assms(1) by (rule runs_ok_release)
  then have dist: "distinct (map fst (release_run now rid ended es))" by (simp add: runs_ok_def)
  have "map_of (release_run now rid ended es) rid = Some (e\<lparr>
      re_terminal := (case ended of None \<Rightarrow> None | Some n \<Rightarrow> map_of TERMINAL_STATUS n),
      re_expires := Some (now + SYNTHETIC_GRACE_SECONDS)\<rparr>)"
    using assms(2) by (simp add: release_run_def alter_lookup)
  with prune_lookup [OF dist, of later rid]
  show ?thesis by (auto simp: resolve_def entry_of_def Let_def forgotten_def)
qed

definition one_run :: run_table where
  "one_run = [(''run_a'', \<lparr>re_session = ''s'', re_key = ''k'', re_admission = None, re_terminal = None,
     re_issued = 0, re_expires = None\<rparr>)]"

theorem synthetic_run_grace_witness:
  "fst (resolve 299 Absent ''run_a'' (release_run 0 ''run_a'' None one_run)) \<noteq> None \<longleftrightarrow>
    (299 :: real) < 0 + SYNTHETIC_GRACE_SECONDS \<and> (299 :: real) < 0 + SYNTHETIC_MAX_AGE_SECONDS"
  using synthetic_run_grace [of one_run "''run_a''" "\<lparr>re_session = ''s'', re_key = ''k'', re_admission = None,
      re_terminal = None, re_issued = 0, re_expires = None\<rparr>" 299 Absent 0 None]
  by (simp add: one_run_def runs_ok_def SYNTHETIC_RUNS_CAP_def ended_ok_def)

text \<open>What the core says of its admissions: an ended one did not end as running.\<close>

definition outcomes_end :: "authority_answer \<Rightarrow> bool" where
  "outcomes_end answer = (case answer of
     Live au \<Rightarrow> (\<forall>r. (r \<in> set (au_pending au) \<or> (\<exists>aid. au_by_id au aid = Some r)) \<longrightarrow>
         ad_outcome r \<notin> {Some ''running'', Some ''waiting_for_approval''})
       \<and> (\<forall>aid v. au_saved au aid = Some v \<longrightarrow> sv_status v \<notin> {''running'', ''waiting_for_approval''})
   | _ \<Rightarrow> True)"

lemma admission_for_known: "admission_for au e = Some row \<Longrightarrow>
    row \<in> set (au_pending au) \<or> (\<exists>aid. au_by_id au aid = Some row)"
proof (cases "re_admission e")
  case None
  assume a: "admission_for au e = Some row"
  show ?thesis
  proof (cases "filter (\<lambda>r. ad_status r = Started) (au_pending au)")
    case Nil
    with a None show ?thesis by (auto simp: admission_for_def split: if_splits)
  next
    case (Cons r rs)
    have "r \<in> set (filter (\<lambda>r. ad_status r = Started) (au_pending au))" unfolding Cons by simp
    then have "r \<in> set (au_pending au)" by simp
    with a None Cons show ?thesis by (auto simp: admission_for_def)
  qed
qed (auto simp: admission_for_def)

lemma projection_live:
  assumes "st_status (projection row saved controls rid sid) \<in> {Some ''running'', Some ''waiting_for_approval''}"
    and "ad_outcome row \<notin> {Some ''running'', Some ''waiting_for_approval''}"
    and "\<forall>v. saved = Some v \<longrightarrow> sv_status v \<notin> {''running'', ''waiting_for_approval''}"
  shows "ad_status row = Started"
  using assms by (cases "ad_status row")
    (auto simp: projection_def ended_status_def Let_def split: if_splits option.splits)

text \<open>
  A run id reads as running or waiting for an approval only when the core has a started admission
  for it, and then a steer binds through exactly that admission; a steer is taken exactly while it reads
  as running.
\<close>

theorem synthetic_status_backed:
  assumes "fst (resolve now answer rid (fold run_step ops [])) = Some (st, bound)" "outcomes_end answer"
    and "st_status st \<in> {Some ''running'', Some ''waiting_for_approval''}"
  shows "\<exists>row. bound = Some row \<and> ad_status row = Started \<and> st_admission st = Some (ad_id row)
    \<and> (steerable (st, bound) \<longleftrightarrow> st_status st = Some ''running'')"
proof -
  define es where "es = prune now (fold run_step ops [])"
  have "runs_ok es" unfolding es_def by (intro runs_ok_prune sr.run_inv) (simp add: runs_ok_def)
  from assms(1) obtain e where e: "map_of es rid = Some e"
    by (auto simp: resolve_def entry_of_def Let_def es_def)
  then have "(rid, e) \<in> set es" by (rule map_of_SomeD)
  with \<open>runs_ok es\<close> have ended: "ended_ok e" by (auto simp: runs_ok_def list_all_iff)
  have no: "st_status (ended_run rid e) \<notin> {Some ''running'', Some ''waiting_for_approval''}"
    using ended by (auto simp: ended_run_def ended_ok_def split: option.splits)
  obtain au where au: "answer = Live au"
    using assms(1,3) e no by (cases answer) (auto simp: resolve_def entry_of_def Let_def es_def)
  obtain row where row: "admission_for au e = Some row"
    using assms(1,3) e no au by (cases "admission_for au e") (auto simp: resolve_def entry_of_def Let_def es_def)
  from assms(1) e au row have st: "bound = Some row"
    "st = projection row (au_saved au (ad_id row)) (au_controls au (ad_id row)) rid (re_session e)"
    by (auto simp: resolve_def entry_of_def Let_def es_def)
  have "ad_outcome row \<notin> {Some ''running'', Some ''waiting_for_approval''}"
    "\<forall>v. au_saved au (ad_id row) = Some v \<longrightarrow> sv_status v \<notin> {''running'', ''waiting_for_approval''}"
    using assms(2) au admission_for_known [OF row] unfolding outcomes_end_def by auto
  from projection_live [OF _ this] assms(3) st(2) have "ad_status row = Started" by blast
  with st show ?thesis by (auto simp: steerable_def projection_def Let_def)
qed

definition started_row :: admission where
  "started_row = \<lparr>ad_id = ''a'', ad_status = Started, ad_outcome = None, ad_generation = 1\<rparr>"

definition one_turn :: authority where
  "one_turn = \<lparr>au_by_id = (\<lambda>aid. None), au_pending = [started_row], au_saved = (\<lambda>aid. None),
     au_controls = (\<lambda>aid. Some [''approval''])\<rparr>"

theorem synthetic_status_backed_witness:
  "\<exists>row. Some started_row = Some row \<and> ad_status row = Started
    \<and> st_admission (projection started_row None (Some [''approval'']) ''run_1'' ''s'') = Some (ad_id row)
    \<and> (steerable (projection started_row None (Some [''approval'']) ''run_1'' ''s'', Some started_row) \<longleftrightarrow>
        st_status (projection started_row None (Some [''approval'']) ''run_1'' ''s'') = Some ''running'')"
proof (rule synthetic_status_backed [where ops = "[Issue 0 ''1'' ''s'' ''k'']" and now = 5 and rid = "''run_1''"])
  show "fst (resolve 5 (Live one_turn) ''run_1'' (fold run_step [Issue 0 ''1'' ''s'' ''k''] [])) =
      Some (projection started_row None (Some [''approval'']) ''run_1'' ''s'', Some started_row)"
    by (simp add: resolve_def entry_of_def Let_def issue_def put_run_def make_room.simps prune_def forgotten_def
        SYNTHETIC_RUNS_CAP_def SYNTHETIC_MAX_AGE_SECONDS_def admission_for_def one_turn_def started_row_def)
  show "outcomes_end (Live one_turn)" by (simp add: outcomes_end_def one_turn_def started_row_def)
  show "st_status (projection started_row None (Some [''approval'']) ''run_1'' ''s'')
      \<in> {Some ''running'', Some ''waiting_for_approval''}"
    by (simp add: projection_def started_row_def Let_def)
qed

end
