(* ===== verification/Turn_Follow.thy ===== *)
theory Turn_Follow
  imports Json
begin

text \<open>
  \<open>compat/crosssource.py\<close>, class \<open>Follow\<close>: the live projection of one injected turn. The frames are JSON
  objects from the session's event stream; \<open>parse\<close> is \<open>json.loads\<close> (\<^const>\<open>None\<close> when it raises). The loop reads
  the clock, waits for the next frame or a time limit, and acts; what it meets in one round is an argument.
\<close>

definition object_or_empty :: "string \<Rightarrow> json \<Rightarrow> json" where
  "object_or_empty k v = jget_or k (JObj []) v"

fun elements :: "json \<Rightarrow> json list" where
  "elements (JArr xs) = xs"
| "elements _ = []"

fun is_object :: "json \<Rightarrow> bool" where
  "is_object (JObj kvs) = True"
| "is_object _ = False"

section \<open>Which admission is ours\<close>

definition ours :: "(string \<Rightarrow> json option) \<Rightarrow> string \<Rightarrow> string \<Rightarrow> json \<Rightarrow> bool" where
  "ours parse key msg pending =
     ((case jget_or ''input_id'' (JStr []) pending of
         JStr s \<Rightarrow> (case parse s of
             Some (JArr (p # q # k # xs)) \<Rightarrow> p = JStr ''plugin'' \<and> k = JStr key
           | _ \<Rightarrow> False)
       | _ \<Rightarrow> False)
      \<and> (case jstr ''text'' pending of None \<Rightarrow> True | Some s \<Rightarrow> s = [] \<or> s = msg))"

definition sequence_of :: "json \<Rightarrow> int" where
  "sequence_of pending = (case jget ''sequence'' pending of Some (JInt i) \<Rightarrow> i | _ \<Rightarrow> 0)"

text \<open>The candidates are a dict from admission ids to sequence numbers.\<close>

type_synonym candidates = "(json \<times> int) list"

definition put_candidate :: "json \<Rightarrow> int \<Rightarrow> candidates \<Rightarrow> candidates" where
  "put_candidate k v cs = (if k \<in> fst ` set cs then map (\<lambda>(k', v'). (k', if k' = k then v else v')) cs else cs @ [(k, v)])"

fun note_pending :: "(string \<Rightarrow> json option) \<Rightarrow> string \<Rightarrow> string \<Rightarrow> json list \<Rightarrow> candidates \<Rightarrow> candidates" where
  "note_pending parse key msg [] cs = cs"
| "note_pending parse key msg (p # ps) cs = note_pending parse key msg ps
     (if is_object p \<and> ours parse key msg p then put_candidate (jval ''admission_id'' p) (sequence_of p) cs else cs)"

text \<open>\<open>max(candidates, key=candidates.get)\<close>: the first of the greatest.\<close>

fun newest :: "candidates \<Rightarrow> json \<times> int \<Rightarrow> json" where
  "newest [] best = fst best"
| "newest (c # cs) best = newest cs (if snd c > snd best then c else best)"

section \<open>The frames passed on\<close>

definition terminal_name :: "json \<Rightarrow> string" where
  "terminal_name payload = (let status = jstr ''status'' payload in
     if status = Some ''complete'' then ''run.completed''
     else if status = Some ''interrupted'' then ''run.interrupted''
     else if status = Some ''error'' then ''run.failed''
     else if jstr ''outcome'' payload = Some ''cancelled'' then ''run.cancelled'' else ''run.completed'')"

type_synonym event = "string \<times> json"

definition tool_name :: "json \<Rightarrow> json" where
  "tool_name payload = jget_or ''tool_name'' (jval ''name'' payload) payload"

definition failure_text :: "json \<Rightarrow> json" where
  "failure_text payload = jget_or ''failure_reason'' (jget_or ''warning''
     (jget_or ''message'' (JStr ''turn failed'')
        (case jget ''error_surface'' payload of Some (JObj kvs) \<Rightarrow> JObj kvs | _ \<Rightarrow> JObj [])) payload) payload"

definition completion :: "string \<Rightarrow> json \<Rightarrow> event list" where
  "completion mid payload =
     [(''assistant.completed'', JObj [(''message_id'', JStr mid),
        (''content'', JStr (case jstr ''text'' payload of None \<Rightarrow> [] | Some s \<Rightarrow> s))]),
      (terminal_name payload, JObj ([(''message_id'', JStr mid), (''messages'', JArr []), (''usage'', JObj []),
        (''runtime'', JObj [])] @ (if terminal_name payload = ''run.failed'' then [(''error'', failure_text payload)] else [])))]"

text \<open>What a frame of the followed admission becomes.\<close>

definition pass_on :: "string \<Rightarrow> bool \<Rightarrow> string \<Rightarrow> json \<Rightarrow> event list" where
  "pass_on mid started kind payload =
     (if kind = ''message.start'' \<and> \<not> started then
        [(''message.started'', JObj [(''message'', JObj [(''id'', JStr mid), (''role'', JStr ''assistant'')])])]
      else if kind = ''message.delta'' then
        (case jstr ''text'' payload of
           Some (c # cs) \<Rightarrow> [(''assistant.delta'', JObj [(''message_id'', JStr mid), (''delta'', JStr (c # cs))])]
         | _ \<Rightarrow> [])
      else if kind = ''tool.start'' then
        [(''tool.started'', JObj [(''message_id'', JStr mid), (''tool_name'', tool_name payload),
           (''preview'', jval ''context'' payload), (''args'', jval ''args'' payload)])]
      else if kind = ''tool.complete'' then
        [(if truthy (jval ''is_error'' payload) then ''tool.failed'' else ''tool.completed'',
          JObj [(''message_id'', JStr mid), (''tool_name'', tool_name payload), (''preview'', JNull),
           (''args'', jval ''args'' payload)])]
      else if kind = ''message.complete'' then completion mid payload
      else [])"

section \<open>The loop\<close>

record follow =
  fo_target :: json
  fo_candidates :: candidates
  fo_started :: bool
  fo_last :: time
  fo_ended :: "string option"

text \<open>One round: the clock at its top, the frame the queue gave in time, and the clock after it.\<close>

record round =
  ro_now :: time
  ro_frame :: "json option"
  ro_after :: time

record follow_params =
  fp_key :: string
  fp_text :: string
  fp_mid :: string
  fp_deadline :: time
  fp_idle :: "time option"
  fp_keepalive :: time

datatype follow_out = Keepalive | Event event

definition time_left :: "follow_params \<Rightarrow> time \<Rightarrow> follow \<Rightarrow> time option" where
  "time_left p now f = (if fo_target f = JNull then Some (fp_deadline p - now)
     else (case fp_idle p of None \<Rightarrow> None | Some idle \<Rightarrow> Some (fo_last f + idle - now)))"

text \<open>\<open>_next\<close>, when no frame came: whether the time limit is up rather than a keepalive tick.\<close>

definition limit_up :: "follow_params \<Rightarrow> time option \<Rightarrow> bool" where
  "limit_up p left = (case left of None \<Rightarrow> False | Some t \<Rightarrow> t \<le> min (fp_keepalive p) (max t 0))"

definition frame_admission :: "json \<Rightarrow> json" where
  "frame_admission params = jget_or ''admission_id''
     (jval ''admission_id'' (object_or_empty ''payload'' params)) params"

definition follow_frame :: "(string \<Rightarrow> json option) \<Rightarrow> follow_params \<Rightarrow> json \<Rightarrow> time \<Rightarrow> follow \<Rightarrow> follow_out list \<times> follow" where
  "follow_frame parse p params after f =
     (let kind = (case jstr ''type'' params of None \<Rightarrow> [] | Some k \<Rightarrow> k); payload = object_or_empty ''payload'' params
      in if kind = ''session.info'' \<and> \<not> fo_started f then
           (let cs = note_pending parse (fp_key p) (fp_text p) (elements (jval ''pending'' payload)) (fo_candidates f)
            in ([], f\<lparr>fo_candidates := cs, fo_target := (case cs of [] \<Rightarrow> fo_target f | c # r \<Rightarrow> newest r c)\<rparr>))
         else if fo_target f = JNull \<or> frame_admission params \<noteq> fo_target f then ([], f)
         else (map Event (pass_on (fp_mid p) (fo_started f) kind payload),
               f\<lparr>fo_last := after, fo_started := fo_started f \<or> kind = ''message.start'',
                 fo_ended := (if kind = ''message.complete'' then Some (terminal_name payload) else None)\<rparr>))"

definition follow_round :: "(string \<Rightarrow> json option) \<Rightarrow> follow_params \<Rightarrow> round \<Rightarrow> follow \<Rightarrow> follow_out list \<times> follow" where
  "follow_round parse p r f = (case ro_frame r of
     Some params \<Rightarrow> follow_frame parse p params (ro_after r) f
   | None \<Rightarrow> if limit_up p (time_left p (ro_now r) f)
            then ([], f\<lparr>fo_ended := Some (if fo_target f = JNull then ''admission_not_seen'' else ''idle_timeout'')\<rparr>)
            else ([Keepalive], f))"

fun follow_rounds :: "(string \<Rightarrow> json option) \<Rightarrow> follow_params \<Rightarrow> round list \<Rightarrow> follow \<Rightarrow> follow_out list \<times> follow" where
  "follow_rounds parse p [] f = ([], f)"
| "follow_rounds parse p (r # rs) f = (let (out, f1) = follow_round parse p r f
     in if fo_ended f1 \<noteq> None then (out, f1)
        else map_prod (\<lambda>more. out @ more) (\<lambda>x. x) (follow_rounds parse p rs f1))"

definition follow_start :: "time \<Rightarrow> follow" where
  "follow_start now = \<lparr>fo_target = JNull, fo_candidates = [], fo_started = False, fo_last = now, fo_ended = None\<rparr>"

text \<open>\<open>frames\<close>: without a live session the follow ends at once.\<close>

definition frames :: "(string \<Rightarrow> json option) \<Rightarrow> follow_params \<Rightarrow> bool \<Rightarrow> time \<Rightarrow> round list \<Rightarrow> follow_out list \<times> follow" where
  "frames parse p attached now rs = (if \<not> attached then ([], (follow_start now)\<lparr>fo_ended := Some ''no_live_session''\<rparr>)
     else follow_rounds parse p rs (follow_start now))"

end
