(* ===== verification/Follow_Properties.thy ===== *)
theory Follow_Properties
  imports Turn_Follow
begin

text \<open>
  What a client of the stream route sees of an injected turn: only frames of its own admission, in an
  order the app can render, and one end.
\<close>

section \<open>The shape of a stream\<close>

fun out_name :: "follow_out \<Rightarrow> string list" where
  "out_name Keepalive = []"
| "out_name (Event e) = [fst e]"

definition names :: "follow_out list \<Rightarrow> string list" where
  "names out = concat (map out_name out)"

definition PROGRESS :: "string set" where
  "PROGRESS = {''message.started'', ''assistant.delta'', ''tool.started'', ''tool.completed'', ''tool.failed''}"

definition RUN_ENDS :: "string list" where
  "RUN_ENDS = [''run.completed'', ''run.interrupted'', ''run.failed'', ''run.cancelled'']"

definition ending :: "string option \<Rightarrow> string list" where
  "ending e = (case e of None \<Rightarrow> [] | Some n \<Rightarrow> if n \<in> set RUN_ENDS then [''assistant.completed'', n] else [])"

lemma names_simps [simp]:
  "names [] = []" "names (x # xs) = out_name x @ names xs" "names (xs @ ys) = names xs @ names ys"
  by (simp_all add: names_def)

lemma terminal_name_ends: "terminal_name payload \<in> set RUN_ENDS"
  by (simp add: terminal_name_def RUN_ENDS_def Let_def)

definition progress_step :: "string list \<Rightarrow> follow \<Rightarrow> follow \<Rightarrow> bool" where
  "progress_step ns f f1 \<longleftrightarrow> (if fo_ended f1 = None
     then set ns \<subseteq> PROGRESS \<and> count_list ns ''message.started'' + (if fo_started f then 1 else 0) \<le> (if fo_started f1 then 1 else 0)
     else ns = ending (fo_ended f1))"

lemma pass_on_progress:
  assumes "kind \<noteq> ''message.complete''"
  shows "set (map fst (pass_on mid started kind payload)) \<subseteq> PROGRESS
    \<and> count_list (map fst (pass_on mid started kind payload)) ''message.started'' =
        (if kind = ''message.start'' \<and> \<not> started then 1 else 0)"
  using assms by (auto simp: pass_on_def PROGRESS_def split: option.split list.split)

lemma names_events: "names (map Event es) = map fst es"
  by (induction es) auto

lemma follow_round_progress:
  assumes "follow_round parse p r f = (out, f1)" "fo_ended f = None"
  shows "progress_step (names out) f f1"
proof (cases "ro_frame r")
  case None
  with assms show ?thesis
    by (auto simp: follow_round_def progress_step_def ending_def RUN_ENDS_def split: if_splits)
next
  case (Some params)
  define kind where "kind = (case jstr ''type'' params of None \<Rightarrow> [] | Some k \<Rightarrow> k)"
  define payload where "payload = object_or_empty ''payload'' params"
  have frame: "follow_frame parse p params (ro_after r) f = (out, f1)" using assms(1) Some by (simp add: follow_round_def)
  show ?thesis
  proof (cases "(kind = ''session.info'' \<and> \<not> fo_started f) \<or> fo_target f = JNull \<or> frame_admission params \<noteq> fo_target f")
    case True
    with frame assms(2) show ?thesis
      by (auto simp: follow_frame_def kind_def [symmetric] Let_def progress_step_def split: if_splits)
  next
    case False
    with frame have out: "out = map Event (pass_on (fp_mid p) (fo_started f) kind payload)"
      and f1: "f1 = f\<lparr>fo_last := ro_after r, fo_started := fo_started f \<or> kind = ''message.start'',
                 fo_ended := (if kind = ''message.complete'' then Some (terminal_name payload) else None)\<rparr>"
      by (auto simp: follow_frame_def kind_def [symmetric] payload_def [symmetric] Let_def)
    show ?thesis
    proof (cases "kind = ''message.complete''")
      case True
      then show ?thesis
        using terminal_name_ends [of payload]
        by (simp add: out f1 names_events progress_step_def ending_def pass_on_def completion_def)
    next
      case False
      from pass_on_progress [OF this, of "fp_mid p" "fo_started f" payload] False show ?thesis
        by (auto simp: out f1 names_events progress_step_def)
    qed
  qed
qed

lemma follow_rounds_shape:
  assumes "fo_ended f = None" "follow_rounds parse p rs f = (out, f')"
  shows "\<exists>pre. set pre \<subseteq> PROGRESS \<and> names out = pre @ ending (fo_ended f')
    \<and> count_list pre ''message.started'' \<le> (if fo_started f then 0 else 1)"
  using assms
proof (induction rs arbitrary: f out)
  case Nil
  then show ?case by (auto simp: ending_def)
next
  case (Cons r rs)
  obtain o1 f1 where r: "follow_round parse p r f = (o1, f1)" by fastforce
  from follow_round_progress [OF r Cons.prems(1)] have step: "progress_step (names o1) f f1" .
  show ?case
  proof (cases "fo_ended f1")
    case (Some n)
    with Cons.prems(2) r have "out = o1" "f' = f1" by simp_all
    with step Some show ?thesis by (intro exI [of _ "[]"]) (auto simp: progress_step_def)
  next
    case None
    obtain o2 where rs: "follow_rounds parse p rs f1 = (o2, f')" and out: "out = o1 @ o2"
      using Cons.prems(2) r None by (auto simp: map_prod_def split: prod.splits)
    from Cons.IH [OF None rs] obtain pre where "set pre \<subseteq> PROGRESS" "names o2 = pre @ ending (fo_ended f')"
      "count_list pre ''message.started'' \<le> (if fo_started f1 then 0 else 1)" by blast
    with step None show ?thesis
      by (intro exI [of _ "names o1 @ pre"]) (auto simp: progress_step_def out split: if_splits)
  qed
qed

text \<open>
  C25. Whatever frames, pauses and clock readings a follow meets, its client sees progress events with at
  most one \<open>message.started\<close>, and then nothing, or exactly \<open>assistant.completed\<close> and one \<open>run.*\<close> event,
  the latter exactly when the follow ends with that event and not for a limit or a missing session.
\<close>

theorem follow_stream_shape:
  "\<exists>pre. set pre \<subseteq> PROGRESS \<and> count_list pre ''message.started'' \<le> 1
    \<and> names (fst (frames parse p attached now rs)) = pre @ ending (fo_ended (snd (frames parse p attached now rs)))"
proof (cases attached)
  case True
  obtain out f' where r: "follow_rounds parse p rs (follow_start now) = (out, f')" by fastforce
  from follow_rounds_shape [OF _ r] obtain pre where "set pre \<subseteq> PROGRESS" "names out = pre @ ending (fo_ended f')"
    "count_list pre ''message.started'' \<le> 1" by (auto simp: follow_start_def)
  with r True show ?thesis by (auto simp: frames_def)
next
  case False
  then show ?thesis by (auto simp: frames_def follow_start_def ending_def RUN_ENDS_def)
qed

section \<open>Only our own admission\<close>

text \<open>The admissions that some \<open>session.info\<close> among the frames names as this injection.\<close>

definition named_ours :: "(string \<Rightarrow> json option) \<Rightarrow> follow_params \<Rightarrow> json list \<Rightarrow> json set" where
  "named_ours parse p ps = {a. \<exists>params \<in> set ps. jstr ''type'' params = Some ''session.info''
     \<and> (\<exists>pending \<in> set (elements (jval ''pending'' (object_or_empty ''payload'' params))).
          is_object pending \<and> ours parse (fp_key p) (fp_text p) pending \<and> jval ''admission_id'' pending = a)}"

definition frames_of :: "round list \<Rightarrow> json list" where
  "frames_of rs = List.map_filter ro_frame rs"

definition passed :: "(string \<Rightarrow> json option) \<Rightarrow> follow_params \<Rightarrow> json list \<Rightarrow> event \<Rightarrow> bool" where
  "passed parse p ps e \<longleftrightarrow> (\<exists>params \<in> set ps. frame_admission params \<in> named_ours parse p ps
     \<and> (\<exists>started. e \<in> set (pass_on (fp_mid p) started (case jstr ''type'' params of None \<Rightarrow> [] | Some k \<Rightarrow> k)
                           (object_or_empty ''payload'' params))))"

lemma put_candidate_keys: "fst ` set (put_candidate k v cs) = insert k (fst ` set cs)"
  by (force simp: put_candidate_def image_iff)

lemma note_pending_keys: "fst ` set (note_pending parse key msg ps cs) =
    fst ` set cs \<union> {a. \<exists>q \<in> set ps. is_object q \<and> ours parse key msg q \<and> jval ''admission_id'' q = a}"
  by (induction parse key msg ps cs rule: note_pending.induct) (auto simp: put_candidate_keys)

lemma newest_mem: "newest cs c \<in> fst ` set (c # cs)"
proof (induction cs arbitrary: c)
  case (Cons d cs)
  have "newest (d # cs) c \<in> fst ` set ((if snd d > snd c then d else c) # cs)"
    using Cons.IH by simp
  moreover have "fst ` set ((if snd d > snd c then d else c) # cs) \<subseteq> fst ` set (c # d # cs)" by auto
  ultimately show ?case by blast
qed simp

text \<open>What the follow knows comes from the frames it has seen.\<close>

definition well_named :: "(string \<Rightarrow> json option) \<Rightarrow> follow_params \<Rightarrow> json list \<Rightarrow> follow \<Rightarrow> bool" where
  "well_named parse p ps f \<longleftrightarrow> fst ` set (fo_candidates f) \<subseteq> named_ours parse p ps
     \<and> (fo_target f = JNull \<or> fo_target f \<in> named_ours parse p ps)"

lemma named_ours_mono: "set ps \<subseteq> set qs \<Longrightarrow> named_ours parse p ps \<subseteq> named_ours parse p qs"
  unfolding named_ours_def by blast

lemma follow_round_named:
  assumes "well_named parse p ps f" "follow_round parse p r f = (out, f1)" "set_option (ro_frame r) \<subseteq> set ps"
  shows "well_named parse p ps f1 \<and> (\<forall>e. Event e \<in> set out \<longrightarrow> passed parse p ps e)"
proof (cases "ro_frame r")
  case None
  with assms(2) have "fo_candidates f1 = fo_candidates f \<and> fo_target f1 = fo_target f \<and> (\<forall>e. Event e \<notin> set out)"
    by (auto simp: follow_round_def split: if_splits)
  with assms(1) show ?thesis by (simp add: well_named_def)
next
  case (Some params)
  with assms(3) have in_ps: "params \<in> set ps" by simp
  define kind where "kind = (case jstr ''type'' params of None \<Rightarrow> [] | Some k \<Rightarrow> k)"
  define payload where "payload = object_or_empty ''payload'' params"
  have frame: "follow_frame parse p params (ro_after r) f = (out, f1)" using assms(2) Some by (simp add: follow_round_def)
  show ?thesis
  proof (cases "kind = ''session.info'' \<and> \<not> fo_started f")
    case True
    define cs where "cs = note_pending parse (fp_key p) (fp_text p) (elements (jval ''pending'' payload)) (fo_candidates f)"
    from True frame have out: "out = []" and f1: "f1 = f\<lparr>fo_candidates := cs,
        fo_target := (case cs of [] \<Rightarrow> fo_target f | c # r \<Rightarrow> newest r c)\<rparr>"
      by (auto simp: follow_frame_def kind_def [symmetric] payload_def [symmetric] cs_def [symmetric] Let_def)
    have info: "jstr ''type'' params = Some ''session.info''" using True by (auto simp: kind_def split: option.splits)
    have "fst ` set cs \<subseteq> named_ours parse p ps"
      using assms(1) in_ps info unfolding cs_def note_pending_keys well_named_def payload_def
      by (auto simp: named_ours_def)
    moreover have "cs = c # r \<Longrightarrow> newest r c \<in> fst ` set cs" for c r
      using newest_mem [of r c] by simp
    ultimately show ?thesis using assms(1) out f1 by (auto simp: well_named_def split: list.split)
  next
    case False
    show ?thesis
    proof (cases "fo_target f = JNull \<or> frame_admission params \<noteq> fo_target f")
      case True
      with False frame assms(1) show ?thesis
        by (auto simp: follow_frame_def kind_def [symmetric] Let_def)
    next
      case own: False
      with False frame have out: "out = map Event (pass_on (fp_mid p) (fo_started f) kind payload)"
        and f1: "fo_candidates f1 = fo_candidates f" "fo_target f1 = fo_target f"
        by (auto simp: follow_frame_def kind_def [symmetric] payload_def [symmetric] Let_def)
      from own assms(1) have "frame_admission params \<in> named_ours parse p ps" by (auto simp: well_named_def)
      with in_ps out have "\<forall>e. Event e \<in> set out \<longrightarrow> passed parse p ps e"
        unfolding passed_def kind_def payload_def by auto
      with f1 assms(1) show ?thesis by (simp add: well_named_def)
    qed
  qed
qed

lemma follow_rounds_named:
  assumes "well_named parse p ps f" "set (frames_of rs) \<subseteq> set ps" "Event e \<in> set (fst (follow_rounds parse p rs f))"
  shows "passed parse p ps e"
  using assms
proof (induction rs arbitrary: f)
  case (Cons r rs)
  obtain o1 f1 where r: "follow_round parse p r f = (o1, f1)" by fastforce
  from Cons.prems(2) have "set_option (ro_frame r) \<subseteq> set ps" "set (frames_of rs) \<subseteq> set ps"
    by (auto simp: frames_of_def List.map_filter_def split: if_splits)
  with follow_round_named [OF Cons.prems(1) r]
  have f1: "well_named parse p ps f1" and o1: "Event e \<in> set o1 \<Longrightarrow> passed parse p ps e" by blast+
  have "Event e \<in> set o1 \<or> Event e \<in> set (fst (follow_rounds parse p rs f1))"
    using Cons.prems(3) r by (simp split: if_splits)
  with o1 Cons.IH [OF f1 \<open>set (frames_of rs) \<subseteq> set ps\<close>] show ?case by blast
qed simp

text \<open>
  A client is only ever shown frames of its own turn: each event comes from a frame whose admission
  some \<open>session.info\<close> of the same stream named with this plugin's identity on the session key and, where
  it gives one, the text that was sent.
\<close>

theorem follow_only_ours:
  "Event e \<in> set (fst (frames parse p attached now rs)) \<Longrightarrow> passed parse p (frames_of rs) e"
  using follow_rounds_named [of parse p "frames_of rs" "follow_start now" rs e]
  by (auto simp: frames_def follow_start_def well_named_def split: if_splits)

text \<open>The list \<open>["plugin", "hermes-app-compat", "k", "1"]\<close>, its pending entry and the first frame of its turn.\<close>

definition sample_parse :: "string \<Rightarrow> json option" where
  "sample_parse s = Some (JArr [JStr ''plugin'', JStr ''hermes-app-compat'', JStr ''k'', JStr ''1''])"

definition sample_rounds :: "round list" where
  "sample_rounds = [
     \<lparr>ro_now = 0, ro_frame = Some (JObj [(''type'', JStr ''session.info''), (''payload'', JObj [(''pending'', JArr
        [JObj [(''input_id'', JStr ''x''), (''admission_id'', JStr ''a''), (''sequence'', JInt 3)]])])]), ro_after = 0\<rparr>,
     \<lparr>ro_now = 1, ro_frame = Some (JObj [(''type'', JStr ''message.start''), (''admission_id'', JStr ''a'')]), ro_after = 1\<rparr>]"

definition sample_params :: follow_params where
  "sample_params = \<lparr>fp_key = ''k'', fp_text = ''hi'', fp_mid = ''m'', fp_deadline = 30, fp_idle = None, fp_keepalive = 10\<rparr>"

theorem follow_only_ours_witness:
  "passed sample_parse sample_params (frames_of sample_rounds)
     (''message.started'', JObj [(''message'', JObj [(''id'', JStr ''m''), (''role'', JStr ''assistant'')])])"
proof (rule follow_only_ours)
  show "Event (''message.started'', JObj [(''message'', JObj [(''id'', JStr ''m''), (''role'', JStr ''assistant'')])])
      \<in> set (fst (frames sample_parse sample_params True 0 sample_rounds))"
    by (simp add: frames_def sample_rounds_def follow_start_def follow_round_def follow_frame_def jstr_def jval_def
        object_or_empty_def jget_or_def sample_parse_def ours_def sample_params_def sequence_of_def put_candidate_def
        frame_admission_def pass_on_def Let_def)
qed

end
