(* ===== verification/Cross_Routes.thy ===== *)
theory Cross_Routes
  imports Cross_Properties Synthetic_Runs Follow_Properties
begin

text \<open>
  The routes of \<open>compat/crosssource.py\<close>: which chat requests are bridged, what they answer, and the
  life of a synthetic run id around a stream. What the HTTP layer has checked or read (authorization, the
  session, the body, whether the gateway drains) is an argument; so is whether the client stays.
\<close>

section \<open>Which requests are bridged\<close>

record chat_session =
  cs_id :: string
  cs_source :: "string option"
  cs_key :: "string option"

definition PLATFORMS :: "string list" where "PLATFORMS = [''discord'']"

definition foreign :: "chat_session \<Rightarrow> bool" where
  "foreign s \<longleftrightarrow> (case cs_source s of None \<Rightarrow> False | Some p \<Rightarrow> p \<in> set PLATFORMS)
     \<and> (case cs_key s of None \<Rightarrow> False | Some k \<Rightarrow> py_strip k \<noteq> [])"

record chat_request =
  rq_auth_error :: bool
  rq_session :: "chat_session option"
  rq_body :: "json option"
  rq_draining :: bool

datatype routed = Native | AuthError | DrainAnswer | Refuse nat string | Bridged chat_session string

definition message_field :: "json \<Rightarrow> json" where
  "message_field body = jget_or ''message'' (jval ''input'' body) body"

definition route :: "chat_request \<Rightarrow> routed" where
  "route rq = (if rq_auth_error rq then AuthError
     else case rq_session rq of
       None \<Rightarrow> Native
     | Some s \<Rightarrow> if \<not> foreign s then Native
         else case rq_body rq of
           Some (JObj kvs) \<Rightarrow>
             if truthy (jval ''wake_batch'' (JObj kvs)) then Native
             else if rq_draining rq then DrainAnswer
             else (case message_field (JObj kvs) of
                     JStr raw \<Rightarrow> if py_strip raw = [] then Refuse 400 ''missing_message'' else Bridged s raw
                   | _ \<Rightarrow> Refuse 415 ''crosssource_text_only'')
         | _ \<Rightarrow> Native)"

section \<open>The chat route\<close>

definition source_of :: "chat_session \<Rightarrow> string" where
  "source_of s = (case cs_source s of None \<Rightarrow> [] | Some p \<Rightarrow> p)"

definition key_of :: "chat_session \<Rightarrow> string" where
  "key_of s = (case cs_key s of None \<Rightarrow> [] | Some k \<Rightarrow> k)"

datatype chat_reply = ChatNative | ChatRouted routed | Queued string | Unavailable string string | ChatRaised

definition chat :: "delivery_env \<Rightarrow> time \<Rightarrow> string \<Rightarrow> chat_request \<Rightarrow> bridge_world \<Rightarrow> chat_reply \<times> bridge_world" where
  "chat env now uuid rq w = (case route rq of
     Native \<Rightarrow> (ChatNative, w)
   | Bridged s raw \<Rightarrow> (case deliver env now uuid (cs_id s) (key_of s) (source_of s) raw w of
         (None, w') \<Rightarrow> (ChatRaised, w')
       | (Some (rid, Some e, injected), w') \<Rightarrow> (Unavailable rid e, w')
       | (Some (rid, None, injected), w') \<Rightarrow> (Queued rid, w'))
   | r \<Rightarrow> (ChatRouted r, w))"

section \<open>The stream route\<close>

text \<open>
  The follow set up before the delivery, if it could be, with the rounds it meets until it ends or the
  client leaves (\<open>su_left\<close>), and the clock at the two ends of the run id.
\<close>

record stream_setup =
  su_follow :: "follow_params option"
  su_attached :: bool
  su_start :: time
  su_rounds :: "round list"
  su_prepared :: bool
  su_left :: bool
  su_issued :: time
  su_released :: time
  su_uuid :: string

datatype stream_reply = StreamNative | StreamRouted routed | StreamUnavailable string string | StreamRaised
  | Streamed "string list"

definition stream_follow :: "(string \<Rightarrow> json option) \<Rightarrow> stream_setup \<Rightarrow> bool \<Rightarrow> (follow_out list \<times> follow) option" where
  "stream_follow parse su injected = (if \<not> injected then None
     else map_option (\<lambda>p. frames parse p (su_attached su) (su_start su) (su_rounds su)) (su_follow su))"

definition run_end :: "string option \<Rightarrow> bool" where
  "run_end e = (case e of None \<Rightarrow> False | Some n \<Rightarrow> starts_with ''run.'' n)"

definition stream_names :: "(follow_out list \<times> follow) option \<Rightarrow> bool \<Rightarrow> string list" where
  "stream_names fo left = ''run.started'' # (case fo of None \<Rightarrow> [] | Some (out, f) \<Rightarrow> names out) @
     (if left then [] else if (case fo of None \<Rightarrow> False | Some (out, f) \<Rightarrow> run_end (fo_ended f)) then [''done'']
      else [''run.queued'', ''done''])"

definition target_of :: "follow \<Rightarrow> string option" where
  "target_of f = (case fo_target f of JStr s \<Rightarrow> Some s | _ \<Rightarrow> None)"

definition close_stream :: "stream_setup \<Rightarrow> string \<Rightarrow> (follow_out list \<times> follow) option \<Rightarrow> run_table \<Rightarrow> run_table" where
  "close_stream su rid fo es = (case fo of
     None \<Rightarrow> release_run (su_released su) rid None es
   | Some (out, f) \<Rightarrow> release_run (su_released su) rid (if su_left su then None else fo_ended f)
                      (bind_run rid (target_of f) es))"

definition stream :: "(string \<Rightarrow> json option) \<Rightarrow> stream_setup \<Rightarrow> delivery_env \<Rightarrow> time \<Rightarrow> string \<Rightarrow> chat_request
    \<Rightarrow> bridge_world \<times> run_table \<Rightarrow> stream_reply \<times> bridge_world \<times> run_table" where
  "stream parse su env now uuid rq s = (case s of (w, es) \<Rightarrow> case route rq of
     Native \<Rightarrow> (StreamNative, w, es)
   | Bridged sn raw \<Rightarrow> (case deliver env now uuid (cs_id sn) (key_of sn) (source_of sn) raw w of
         (None, w') \<Rightarrow> (StreamRaised, w', es)
       | (Some (rid, Some e, injected), w') \<Rightarrow> (StreamUnavailable rid e, w', es)
       | (Some (rid, None, injected), w') \<Rightarrow>
           let (run, es1) = issue (su_issued su) (su_uuid su) (cs_id sn) (key_of sn) es
           in if \<not> su_prepared su then (StreamRaised, w', release_run (su_released su) run None es1)
              else let fo = stream_follow parse su injected
                   in (Streamed (stream_names fo (su_left su)), w', close_stream su run fo es1))
   | r \<Rightarrow> (StreamRouted r, w, es))"

text \<open>\<open>GET /v1/runs/{id}\<close>: a status, the native route, or the authorization error.\<close>

datatype run_reply = RunNative | RunAuthError | RunStatus run_status

definition get_run :: "time \<Rightarrow> authority_answer \<Rightarrow> bool \<Rightarrow> string \<Rightarrow> run_table \<Rightarrow> run_reply \<times> run_table" where
  "get_run now answer auth_error rid es = (let (found, es') = resolve now answer rid es
     in (case found of None \<Rightarrow> RunNative
         | Some (st, bound) \<Rightarrow> if auth_error then RunAuthError else RunStatus st, es'))"

section \<open>Properties\<close>

lemma run_end_ends: "n \<in> set RUN_ENDS \<Longrightarrow> run_end (Some n)"
  by (auto simp: RUN_ENDS_def run_end_def starts_with_def)

definition known_end :: "string option \<Rightarrow> bool" where
  "known_end e \<longleftrightarrow> e \<in> {None, Some ''no_live_session'', Some ''admission_not_seen'', Some ''idle_timeout''} \<union> Some ` set RUN_ENDS"

lemma round_ended: "known_end (fo_ended f) \<Longrightarrow> known_end (fo_ended (snd (follow_round parse p r f)))"
  using terminal_name_ends
  by (cases "ro_frame r") (simp_all add: follow_round_def follow_frame_def Let_def known_end_def)

lemma rounds_ended: "known_end (fo_ended f) \<Longrightarrow> known_end (fo_ended (snd (follow_rounds parse p rs f)))"
proof (induction rs arbitrary: f)
  case (Cons r rs)
  obtain o1 f1 where r: "follow_round parse p r f = (o1, f1)" by fastforce
  with round_ended [OF Cons.prems, of parse p r] have "known_end (fo_ended f1)" by simp
  with r Cons.IH [OF this] show ?case by (cases "follow_rounds parse p rs f1") auto
qed simp

lemma frames_ended: "known_end (fo_ended (snd (frames parse p attached now rs)))"
  using rounds_ended [of "follow_start now" parse p rs]
  by (auto simp: frames_def follow_start_def known_end_def)

lemma run_end_iff: "run_end (fo_ended (snd (frames parse p attached now rs))) \<longleftrightarrow>
    ending (fo_ended (snd (frames parse p attached now rs))) \<noteq> []"
  using frames_ended [of parse p attached now rs]
  by (auto simp: known_end_def ending_def run_end_def RUN_ENDS_def starts_with_def)

text \<open>
  A stream that a client reads to its end starts with \<open>run.started\<close>, ends with \<open>done\<close>, and in between
  shows either the whole turn with exactly one closing pair or, when the turn was not seen to end, the
  \<open>run.queued\<close> handoff; it never shows both. (\<open>pre\<close> are the progress events.)
\<close>

theorem stream_one_ending:
  "\<exists>pre. set pre \<subseteq> PROGRESS \<and>
    (stream_names (stream_follow parse su injected) False = ''run.started'' # pre @ [''run.queued'', ''done'']
     \<or> (\<exists>n \<in> set RUN_ENDS. stream_names (stream_follow parse su injected) False =
          ''run.started'' # pre @ [''assistant.completed'', n, ''done'']))"
proof (cases "stream_follow parse su injected")
  case None
  then show ?thesis by (intro exI [of _ "[]"]) (simp add: stream_names_def)
next
  case (Some fo)
  then obtain p where fr: "fo = frames parse p (su_attached su) (su_start su) (su_rounds su)"
    by (auto simp: stream_follow_def split: if_splits)
  obtain out f where fo: "fo = (out, f)" by fastforce
  from follow_stream_shape [of parse p "su_attached su" "su_start su" "su_rounds su"] fr fo
  obtain pre where pre: "set pre \<subseteq> PROGRESS" "names out = pre @ ending (fo_ended f)" by (metis fst_conv snd_conv)
  have "run_end (fo_ended f) \<longleftrightarrow> ending (fo_ended f) \<noteq> []"
    using run_end_iff [of parse p "su_attached su" "su_start su" "su_rounds su"] fr fo by (metis snd_conv)
  with pre Some fo show ?thesis
    by (intro exI [of _ pre]) (auto simp: stream_names_def ending_def split: option.splits if_splits)
qed

lemma release_lookup: "map_of es k \<noteq> None \<Longrightarrow>
    \<exists>e. map_of (release_run now k ended es) k = Some e \<and> re_expires e = Some (now + SYNTHETIC_GRACE_SECONDS)"
  by (auto simp: release_run_def alter_lookup)

text \<open>
  A stream never leaves a run id open: whatever the follow meets, the head fails or the client leaves,
  the id that was issued is released when the request is over; and when the delivery failed none is issued
  and the message is kept as \<open>failed\<close> under the id of the answer.
\<close>

theorem stream_settles_run:
  assumes "outbox_wf (bw_rows w)" "only_enqueues env" "runs_ok es"
    and "stream parse su env now uuid rq (w, es) = (reply, w', es')"
  shows "case reply of
      Streamed ns \<Rightarrow> (\<exists>e. map_of es' (''run_'' @ su_uuid su) = Some e \<and> re_expires e = Some (su_released su + SYNTHETIC_GRACE_SECONDS))
    | StreamUnavailable rid err \<Rightarrow> es' = es \<and> (\<exists>r. get_row rid (bw_rows w') = Some r \<and> or_status r = Failed
         \<and> (\<exists>s. route rq = Bridged s (or_text r) \<and> or_session r = cs_id s))
    | _ \<Rightarrow> True"
proof (cases reply)
  case (Streamed ns)
  with assms(4) obtain s raw where "route rq = Bridged s raw"
    by (auto simp: stream_def split: routed.splits option.splits)
  with assms(4) Streamed obtain run es1 fo where iss: "issue (su_issued su) (su_uuid su) (cs_id s) (key_of s) es = (run, es1)"
    and es': "es' = close_stream su run fo es1"
    by (auto simp: stream_def Let_def split: prod.splits option.splits if_splits)
  have run: "run = ''run_'' @ su_uuid su" "run \<in> fst ` set es1"
    using iss put_run_keys [of run _ "make_room (prune (su_issued su) es)"]
    by (auto simp: issue_def Let_def simp flip: set_map)
  then obtain e1 where "map_of es1 run = Some e1" by (metis map_of_eq_None_iff not_None_eq)
  then have b: "map_of (bind_run run (target_of f) es1) run \<noteq> None" for f
    by (simp add: bind_run_def alter_lookup)
  have "\<exists>e. map_of es' run = Some e \<and> re_expires e = Some (su_released su + SYNTHETIC_GRACE_SECONDS)"
  proof (cases fo)
    case None
    with release_lookup [of es1 run] \<open>map_of es1 run = Some e1\<close> show ?thesis by (simp add: es' close_stream_def)
  next
    case (Some p)
    then show ?thesis unfolding es' close_stream_def
      by (cases p) (simp add: release_lookup [OF b])
  qed
  with run(1) Streamed show ?thesis by simp
next
  case (StreamUnavailable rid err)
  with assms(4) obtain s raw where rt: "route rq = Bridged s raw"
    by (auto simp: stream_def split: routed.splits option.splits)
  with assms(4) StreamUnavailable obtain injected where
    "deliver env now uuid (cs_id s) (key_of s) (source_of s) raw w = (Some (rid, Some err, injected), w')" "es' = es"
    by (auto simp: stream_def Let_def split: prod.splits option.splits if_splits)
  with crosssource_text_kept_row [OF assms(1,2) this(1)] rt StreamUnavailable show ?thesis by auto
qed (use assms in simp_all)

definition no_route :: delivery_env where
  "no_route = \<lparr>de_view = View None False, de_inject = (\<lambda>k. NoContext), de_now = real, de_other = (\<lambda>i. [])\<rparr>"

definition sample_request :: chat_request where
  "sample_request = \<lparr>rq_auth_error = False,
     rq_session = Some \<lparr>cs_id = ''s'', cs_source = Some ''discord'', cs_key = Some ''k''\<rparr>,
     rq_body = Some (JObj [(''message'', JStr ''hi'')]), rq_draining = False\<rparr>"

definition sample_stream :: stream_setup where
  "sample_stream = \<lparr>su_follow = None, su_attached = False, su_start = 0, su_rounds = [], su_prepared = True,
     su_left = False, su_issued = 0, su_released = 1, su_uuid = ''u''\<rparr>"

definition empty_bridge :: bridge_world where
  "empty_bridge = \<lparr>bw_rows = [], bw_calls = []\<rparr>"

theorem stream_settles_run_witness:
  "let w' = fst (snd (stream (\<lambda>s. None) sample_stream no_route 5 ''1'' sample_request (empty_bridge, []))) in
   ([] :: run_table) = [] \<and> (\<exists>r. get_row ''xsrc_1'' (bw_rows w') = Some r \<and> or_status r = Failed
     \<and> (\<exists>s. route sample_request = Bridged s (or_text r) \<and> or_session r = cs_id s))"
proof -
  have run: "stream (\<lambda>s. None) sample_stream no_route 5 ''1'' sample_request (empty_bridge, []) =
      (StreamUnavailable ''xsrc_1'' ''route_not_found'',
       fst (snd (stream (\<lambda>s. None) sample_stream no_route 5 ''1'' sample_request (empty_bridge, []))), [])"
    by (simp add: stream_def sample_request_def route_def foreign_def PLATFORMS_def py_str_defs message_field_def
        jget_or_def jval_def deliver_def enqueue_def fold_target_def oldest_def empty_bridge_def run_row_def no_route_def
        meanwhile_def get_row_def get_by_def new_row_def route_refusal_def NO_ROUTE_def Let_def)
  from stream_settles_run [OF _ _ _ run] show ?thesis
    by (simp add: outbox_wf_def empty_bridge_def only_enqueues_def no_route_def runs_ok_def Let_def)
qed

end
