(* ===== verification/Bridge_Tickets.thy ===== *)
theory Bridge_Tickets
  imports Url_Text
begin

text \<open>
  \<open>compat/wsbridge.py\<close>: who may open a bridge connection. The store of single-use tickets, the check of
  an upgrade request, and the connection that answers \<open>POST /bridge/ticket\<close> before the WebSocket
  library sees it. The SHA-256 digest and the random ticket are arguments; \<open>compare_digest\<close> is equality.
\<close>

section \<open>Tickets\<close>

definition TICKET_TTL :: time where "TICKET_TTL = 60"

type_synonym ticket_store = "(string \<times> time) list"

definition prune_tickets :: "time \<Rightarrow> ticket_store \<Rightarrow> ticket_store" where
  "prune_tickets now es = filter (\<lambda>(d, limit). now < limit) es"

definition put_ticket :: "string \<Rightarrow> time \<Rightarrow> ticket_store \<Rightarrow> ticket_store" where
  "put_ticket d limit es = (if d \<in> fst ` set es then map (\<lambda>(k, x). (k, if k = d then limit else x)) es else es @ [(d, limit)])"

text \<open>The clock is read to prune and again for the limit.\<close>

definition mint :: "(string \<Rightarrow> string) \<Rightarrow> time \<Rightarrow> time \<Rightarrow> string \<Rightarrow> ticket_store \<Rightarrow> string \<times> ticket_store" where
  "mint sha now now' ticket es = (ticket, put_ticket (sha ticket) (now' + TICKET_TTL) (prune_tickets now es))"

definition redeem :: "(string \<Rightarrow> string) \<Rightarrow> time \<Rightarrow> string \<Rightarrow> ticket_store \<Rightarrow> bool \<times> ticket_store" where
  "redeem sha now ticket es = (let es' = prune_tickets now es
     in if sha ticket \<in> fst ` set es' then (True, filter (\<lambda>(d, limit). d \<noteq> sha ticket) es') else (False, es'))"

definition live :: "time \<Rightarrow> ticket_store \<Rightarrow> nat \<times> ticket_store" where
  "live now es = (let es' = prune_tickets now es in (length es', es'))"

section \<open>Authorization\<close>

definition BRIDGE_PATH :: string where "BRIDGE_PATH = ''/api/bridge/ws''"

text \<open>\<open>scheme, _, token = authorization.partition(" ")\<close>\<close>

definition bearer_ok :: "string \<Rightarrow> string \<Rightarrow> bool" where
  "bearer_ok key authorization \<longleftrightarrow> py_lower (before (CHR '' '') authorization) = ''bearer'' \<and> key \<noteq> []
     \<and> py_strip (after (CHR '' '') authorization) = key"

datatype upgrade = NotFound | Accept | Unauthorized

text \<open>\<open>authorize\<close>: the path with its query, and the Authorization header, empty when there is none.\<close>

definition authorize :: "(string \<Rightarrow> string) \<Rightarrow> string \<Rightarrow> time \<Rightarrow> string \<Rightarrow> string \<Rightarrow> ticket_store \<Rightarrow> upgrade \<times> ticket_store" where
  "authorize sha key now path header es =
     (if before (CHR ''?'') path \<noteq> BRIDGE_PATH then (NotFound, es)
      else if bearer_ok key header then (Accept, es)
      else case query_values ''ticket'' (after (CHR ''?'') path) of
             [t] \<Rightarrow> (let (ok, es') = redeem sha now t es in (if ok then Accept else Unauthorized, es'))
           | _ \<Rightarrow> (Unauthorized, es))"

section \<open>The ticket request\<close>

definition CRLF :: string where "CRLF = [CHR 0x0D, CHR 0x0A]"

text \<open>\<open>head.split(b"\r\n")\<close>\<close>

fun split_crlf :: "string \<Rightarrow> string list" where
  "split_crlf (c # d # s) = (if [c, d] = CRLF then [] # split_crlf s
     else (case split_crlf (d # s) of [] \<Rightarrow> [[c]] | l # ls \<Rightarrow> (c # l) # ls))"
| "split_crlf s = [s]"

text \<open>\<open>\S\<close> of a bytes pattern, and \<open>bytes.strip\<close>.\<close>

definition non_space :: "char \<Rightarrow> bool" where
  "non_space c \<longleftrightarrow> (let n = (of_char c :: nat) in \<not> (n = 32 \<or> (9 \<le> n \<and> n \<le> 13)))"

definition bytes_strip :: "string \<Rightarrow> string" where
  "bytes_strip s = rev (dropWhile (\<lambda>c. \<not> non_space c) (rev (dropWhile (\<lambda>c. \<not> non_space c) s)))"

definition authorization_of :: "string \<Rightarrow> string" where
  "authorization_of head = (case map (\<lambda>l. bytes_strip (after (CHR '':'') l))
       (filter (\<lambda>l. py_lower (bytes_strip (before (CHR '':'') l)) = ''authorization'') (drop 1 (split_crlf head))) of
     [v] \<Rightarrow> v | _ \<Rightarrow> [])"

datatype ticket_answer = Ticket string | TicketRefused

definition answer_ticket_request :: "(string \<Rightarrow> string) \<Rightarrow> string \<Rightarrow> time \<Rightarrow> time \<Rightarrow> string \<Rightarrow> string \<Rightarrow> ticket_store
    \<Rightarrow> ticket_answer \<times> ticket_store" where
  "answer_ticket_request sha key now now' fresh head es =
     (if \<not> bearer_ok key (authorization_of head) then (TicketRefused, es)
      else let (t, es') = mint sha now now' fresh es in (Ticket t, es'))"

section \<open>The connection that sniffs\<close>

definition TICKET_REQUEST_MAX :: nat where "TICKET_REQUEST_MAX = 16 * 1024"

text \<open>
  \<open>TICKET_LINE\<close>, after the method and its space: the run of non-space characters ends with the path,
  and the version and the end of the line follow.
\<close>

definition ticket_target :: "string \<Rightarrow> bool" where
  "ticket_target s \<longleftrightarrow> ends_with ''/bridge/ticket'' (takeWhile non_space s)
     \<and> (starts_with ('' HTTP/1.0'' @ CRLF) (dropWhile non_space s) \<or> starts_with ('' HTTP/1.1'' @ CRLF) (dropWhile non_space s))"

definition ticket_line :: "string \<Rightarrow> bool" where
  "ticket_line head \<longleftrightarrow> (starts_with ''POST '' head \<and> ticket_target (drop 5 head))
     \<or> (starts_with ''GET '' head \<and> ticket_target (drop 4 head))"

definition TICKET_PARTIALS :: "string list" where
  "TICKET_PARTIALS = [''POST '', ''GET ''] @ map (\<lambda>i. take i ''POST'') [1..<4] @ map (\<lambda>i. take i ''GET'') [1..<3]"

fun has_crlf :: "string \<Rightarrow> bool" where
  "has_crlf (c # d # s) \<longleftrightarrow> [c, d] = CRLF \<or> has_crlf (d # s)"
| "has_crlf s \<longleftrightarrow> False"

fun has_end :: "string \<Rightarrow> bool" where
  "has_end [] \<longleftrightarrow> False"
| "has_end (c # s) \<longleftrightarrow> starts_with (CRLF @ CRLF) (c # s) \<or> has_end s"

record sniffer =
  sn_sniffed :: string
  sn_sniffing :: bool
  sn_answered :: "string option"
  sn_forwarded :: string

definition sniffer_start :: sniffer where
  "sniffer_start = \<lparr>sn_sniffed = [], sn_sniffing = True, sn_answered = None, sn_forwarded = []\<rparr>"

definition settled :: "string \<Rightarrow> bool" where
  "settled head = (if has_crlf head then \<not> ticket_line head
     else if length head > TICKET_REQUEST_MAX then True
     else \<not> list_ex (\<lambda>p. starts_with p head) TICKET_PARTIALS)"

text \<open>\<open>data_received\<close>; \<open>sn_forwarded\<close> is what the WebSocket library has got, \<open>sn_answered\<close> the head answered.\<close>

definition data_received :: "sniffer \<Rightarrow> string \<Rightarrow> sniffer" where
  "data_received s data =
     (if sn_answered s \<noteq> None then s
      else if \<not> sn_sniffing s then s\<lparr>sn_forwarded := sn_forwarded s @ data\<rparr>
      else let head = sn_sniffed s @ data
           in if settled head then s\<lparr>sn_sniffing := False, sn_sniffed := [], sn_forwarded := sn_forwarded s @ head\<rparr>
              else if has_end head then s\<lparr>sn_sniffing := False, sn_sniffed := [], sn_answered := Some head\<rparr>
              else s\<lparr>sn_sniffed := head\<rparr>)"

section \<open>Redaction of log lines\<close>

text \<open>\<open>_TICKET_IN_URL\<close>: the value of a ticket parameter, up to the next \<open>&\<close> or space, is replaced.\<close>

definition value_char :: "char \<Rightarrow> bool" where
  "value_char c \<longleftrightarrow> c \<noteq> CHR ''&'' \<and> non_space c"

function redact_ticket :: "string \<Rightarrow> string" where
  "redact_ticket [] = []"
| "redact_ticket (c # s) =
     (if (c = CHR ''?'' \<or> c = CHR ''&'') \<and> starts_with ''ticket='' s \<and> takeWhile value_char (drop 7 s) \<noteq> []
      then c # ''ticket=<redacted>'' @ redact_ticket (dropWhile value_char (drop 7 s))
      else c # redact_ticket s)"
  by pat_completeness auto
termination
  by (relation "measure length") (auto intro!: le_imp_less_Suc order_trans [OF length_dropWhile_le])

end
