(* ===== verification/Bridge_Ticket_Properties.thy ===== *)
theory Bridge_Ticket_Properties
  imports Bridge_Tickets
begin

text \<open>
  A ticket opens one connection within its minute, the sniffing connection decides alike however the
  bytes of a request are cut, and a log line shows no ticket.
\<close>

section \<open>One connection for each ticket\<close>

datatype gate_op = Mint time time string | Upgrade time string string | Live time

fun gate_step :: "(string \<Rightarrow> string) \<Rightarrow> string \<Rightarrow> gate_op \<Rightarrow> ticket_store \<Rightarrow> ticket_store" where
  "gate_step sha key (Mint now now' t) es = snd (mint sha now now' t es)"
| "gate_step sha key (Upgrade now path header) es = snd (authorize sha key now path header es)"
| "gate_step sha key (Live now) es = snd (live now es)"

text \<open>An upgrade that is accepted for its ticket, of digest \<open>d\<close>.\<close>

definition by_ticket :: "(string \<Rightarrow> string) \<Rightarrow> string \<Rightarrow> string \<Rightarrow> gate_op \<Rightarrow> ticket_store \<Rightarrow> bool" where
  "by_ticket sha key d op es = (case op of
     Upgrade now path header \<Rightarrow> fst (authorize sha key now path header es) = Accept \<and> \<not> bearer_ok key header
       \<and> map sha (query_values ''ticket'' (after (CHR ''?'') path)) = [d]
   | _ \<Rightarrow> False)"

definition mints :: "(string \<Rightarrow> string) \<Rightarrow> string \<Rightarrow> gate_op list \<Rightarrow> nat" where
  "mints sha d ops = length (filter (\<lambda>op. case op of Mint now now' t \<Rightarrow> sha t = d | _ \<Rightarrow> False) ops)"

lemma keys_prune: "fst ` set (prune_tickets now es) \<subseteq> fst ` set es"
  by (auto simp: prune_tickets_def)

lemma keys_put: "fst ` set (put_ticket d limit es) = insert d (fst ` set es)"
  by (force simp: put_ticket_def image_iff)

lemma redeem_keys: "fst ` set (snd (redeem sha now t es)) \<subseteq> fst ` set es"
  "fst (redeem sha now t es) \<Longrightarrow> sha t \<in> fst ` set es"
  "fst (redeem sha now t es) \<Longrightarrow> sha t \<notin> fst ` set (snd (redeem sha now t es))"
  using keys_prune [of now es] by (auto simp: redeem_def Let_def split: if_splits)

lemma authorize_cases:
  obtains (kept) "snd (authorize sha key now path header es) = es" "\<not> by_ticket sha key d (Upgrade now path header) es"
  | (redeemed) t where "query_values ''ticket'' (after (CHR ''?'') path) = [t]"
      "snd (authorize sha key now path header es) = snd (redeem sha now t es)"
      "by_ticket sha key d (Upgrade now path header) es \<longleftrightarrow> fst (redeem sha now t es) \<and> sha t = d"
proof (cases "before (CHR ''?'') path \<noteq> BRIDGE_PATH \<or> bearer_ok key header \<or> length (query_values ''ticket'' (after (CHR ''?'') path)) \<noteq> 1")
  case True
  then show ?thesis
    by (intro kept) (auto simp: authorize_def by_ticket_def split: list.split if_splits)
next
  case False
  then obtain t where t: "query_values ''ticket'' (after (CHR ''?'') path) = [t]" by (auto simp: length_Suc_conv)
  with False show ?thesis
    by (intro redeemed [OF t]) (auto simp: authorize_def by_ticket_def Let_def split: prod.split if_splits)
qed

lemma by_ticket_none [simp]: "\<not> by_ticket sha key d (Mint now now' t) es" "\<not> by_ticket sha key d (Live now) es"
  by (simp_all add: by_ticket_def)

lemma mints_Cons: "mints sha d (op # ops) =
    (case op of Mint now now' t \<Rightarrow> if sha t = d then Suc (mints sha d ops) else mints sha d ops | _ \<Rightarrow> mints sha d ops)"
  by (cases op) (simp_all add: mints_def)

lemma tickets_owed:
  "wins_along (gate_step sha key) (by_ticket sha key d) ops es \<le> mints sha d ops + (if d \<in> fst ` set es then 1 else 0)"
proof (induction ops arbitrary: es)
  case (Cons op ops)
  have IH: "wins_along (gate_step sha key) (by_ticket sha key d) ops (gate_step sha key op es)
      \<le> mints sha d ops + (if d \<in> fst ` set (gate_step sha key op es) then 1 else 0)" by (rule Cons.IH)
  show ?case
  proof (cases op)
    case (Mint now now' t)
    then show ?thesis using IH keys_prune [of now es]
      by (auto simp: mints_Cons mint_def keys_put split: if_splits)
  next
    case (Live now)
    then show ?thesis using IH keys_prune [of now es]
      by (auto simp: mints_Cons live_def Let_def split: if_splits)
  next
    case (Upgrade now path header)
    then have m: "mints sha d (op # ops) = mints sha d ops" by (simp add: mints_Cons)
    show ?thesis
    proof (cases rule: authorize_cases [of sha key now path header es d])
      case kept
      with IH Upgrade m show ?thesis by simp
    next
      case (redeemed t)
      with IH Upgrade m redeem_keys [of sha now t es] show ?thesis by (auto split: if_splits)
    qed
  qed
qed (simp add: mints_def)

text \<open>
  C27. A ticket opens at most one connection each time it was minted: over any history of mints, upgrades
  and liveness counts the upgrades accepted for a ticket, without the key, are at most its mints.
\<close>

theorem ticket_opens_once:
  "wins_along (gate_step sha key) (by_ticket sha key d) ops [] \<le> mints sha d ops"
  using tickets_owed [of sha key d ops "[]"] by simp

lemma limits_step:
  assumes "(d, limit) \<in> set (gate_step sha key op es)" "(d, limit) \<notin> set es"
  shows "\<exists>now now' t. op = Mint now now' t \<and> sha t = d \<and> limit = now' + TICKET_TTL"
proof (cases op)
  case (Mint now now' t)
  with assms show ?thesis
    by (auto simp: mint_def put_ticket_def prune_tickets_def split: if_splits)
next
  case (Live now)
  with assms show ?thesis by (auto simp: live_def prune_tickets_def Let_def)
next
  case (Upgrade now path header)
  with assms show ?thesis
    by (cases rule: authorize_cases [of sha key now path header es d])
      (auto simp: redeem_def prune_tickets_def Let_def split: if_splits)
qed

text \<open>
  An upgrade is accepted exactly for the bridge path, with the key or with a single ticket that is
  live: one that was minted less than a minute before, by an answered ticket request.
\<close>

theorem upgrade_accepted_exactly:
  "fst (authorize sha key now path header (fold (gate_step sha key) ops [])) = Accept \<longleftrightarrow>
     before (CHR ''?'') path = BRIDGE_PATH \<and> (bearer_ok key header \<or>
       (\<exists>t limit. query_values ''ticket'' (after (CHR ''?'') path) = [t]
          \<and> (sha t, limit) \<in> set (fold (gate_step sha key) ops []) \<and> now < limit
          \<and> (\<exists>m m' t'. Mint m m' t' \<in> set ops \<and> sha t' = sha t \<and> limit = m' + TICKET_TTL)))"
proof -
  have minted: "(d, limit) \<in> set (fold (gate_step sha key) ops es) \<Longrightarrow> (d, limit) \<notin> set es \<Longrightarrow>
      \<exists>m m' t'. Mint m m' t' \<in> set ops \<and> sha t' = d \<and> limit = m' + TICKET_TTL" for d limit es
  proof (induction ops arbitrary: es)
    case (Cons op ops)
    show ?case
    proof (cases "(d, limit) \<in> set (gate_step sha key op es)")
      case True
      with limits_step [OF True] Cons.prems show ?thesis by auto
    next
      case False
      with Cons.IH [OF _ False] Cons.prems show ?thesis by auto
    qed
  qed simp
  have live: "fst (redeem sha now t es) \<longleftrightarrow> (\<exists>limit. (sha t, limit) \<in> set es \<and> now < limit)" for t es
    by (force simp: redeem_def prune_tickets_def Let_def)
  define es where "es = fold (gate_step sha key) ops []"
  show ?thesis
    unfolding es_def [symmetric]
    using minted [of _ _ "[]"] unfolding es_def [symmetric]
    by (auto simp: authorize_def Let_def live split: list.split prod.split) (use live in \<open>metis fst_conv\<close>)+
qed

section \<open>However a request is cut\<close>

lemma has_crlf_append: "has_crlf p \<Longrightarrow> has_crlf (p @ s)"
  by (induction p rule: has_crlf.induct) auto

lemma has_crlf_Cons: "c \<noteq> CHR 0x0D \<Longrightarrow> has_crlf (c # s) \<longleftrightarrow> has_crlf s"
  by (cases s) (auto simp: CRLF_def)

lemma has_crlf_skip: "CHR 0x0D \<notin> set p \<Longrightarrow> has_crlf (p @ s) \<longleftrightarrow> has_crlf s"
  by (induction p) (auto simp: has_crlf_Cons)

lemma has_crlf_CR: "has_crlf s \<Longrightarrow> CHR 0x0D \<in> set s"
  by (induction s rule: has_crlf.induct) (auto simp: CRLF_def)

lemma has_end_append: "has_end p \<Longrightarrow> has_end (p @ s)"
proof (induction p)
  case (Cons c p)
  then show ?case by (auto simp: starts_with_iff) (metis append_Cons append_assoc)
qed simp

lemma has_end_crlf: "has_end s \<Longrightarrow> has_crlf s"
proof (induction s)
  case (Cons c s)
  then show ?case by (cases s) (auto simp: starts_with_iff CRLF_def)
qed simp

text \<open>A fixed text that only ends with the end of the line is found in the part that has the line.\<close>

lemma starts_line:
  assumes "CHR 0x0D \<notin> set w" "has_crlf v"
  shows "starts_with (w @ CRLF) (v @ s) \<longleftrightarrow> starts_with (w @ CRLF) v"
proof
  assume a: "starts_with (w @ CRLF) (v @ s)"
  have "length (w @ CRLF) \<le> length v"
  proof (rule ccontr)
    assume "\<not> length (w @ CRLF) \<le> length v"
    then have le: "length v \<le> Suc (length w)" by (simp add: CRLF_def)
    from a have "w @ CRLF = take (length w + 2) (v @ s)" by (simp add: starts_with_def CRLF_def)
    then have "take (length v) (w @ CRLF) = v" using le by (simp add: CRLF_def)
    moreover have "take (length v) (w @ CRLF) = take (length v) (w @ [CHR 0x0D])"
      using le by (cases "length v = Suc (length w)") (auto simp: CRLF_def)
    ultimately have v: "v = take (length v) (w @ [CHR 0x0D])" by simp
    have "has_crlf (w @ [CHR 0x0D])"
      using has_crlf_append [of v "drop (length v) (w @ [CHR 0x0D])"] assms(2) v by (metis append_take_drop_id)
    then show False using assms(1) by (simp add: has_crlf_skip)
  qed
  with a show "starts_with (w @ CRLF) v" by (simp add: starts_with_def)
next
  assume "starts_with (w @ CRLF) v"
  then show "starts_with (w @ CRLF) (v @ s)" by (auto simp: starts_with_iff)
qed

lemma starts_plain:
  assumes "CHR 0x0D \<notin> set q" "CHR 0x0D \<in> set p"
  shows "starts_with q (p @ s) \<longleftrightarrow> starts_with q p"
proof
  assume a: "starts_with q (p @ s)"
  have "length q \<le> length p"
  proof (rule ccontr)
    assume "\<not> length q \<le> length p"
    with a have "q = p @ take (length q - length p) s" by (simp add: starts_with_def)
    with assms show False by (metis UnCI set_append)
  qed
  with a show "starts_with q p" by (simp add: starts_with_def)
next
  assume "starts_with q p"
  then show "starts_with q (p @ s)" by (auto simp: starts_with_iff)
qed

lemma target_append: "has_crlf u \<Longrightarrow> ticket_target (u @ s) \<longleftrightarrow> ticket_target u"
proof -
  assume u: "has_crlf u"
  have cr: "\<not> non_space (CHR 0x0D)" by (simp add: non_space_def)
  with has_crlf_CR [OF u] have tw: "takeWhile non_space (u @ s) = takeWhile non_space u"
    and dw: "dropWhile non_space (u @ s) = dropWhile non_space u @ s" by (auto intro: takeWhile_append1 dropWhile_append1)
  have "CHR 0x0D \<notin> set (takeWhile non_space u)" using cr set_takeWhileD by metis
  then have "has_crlf (dropWhile non_space u)"
    using u has_crlf_skip [of "takeWhile non_space u" "dropWhile non_space u"] by simp
  then have "starts_with (w @ CRLF) (dropWhile non_space u @ s) \<longleftrightarrow> starts_with (w @ CRLF) (dropWhile non_space u)"
    if "CHR 0x0D \<notin> set w" for w using that by (intro starts_line)
  from this [of "'' HTTP/1.0''"] this [of "'' HTTP/1.1''"] show ?thesis
    unfolding ticket_target_def tw dw by simp
qed

lemma line_append: "has_crlf p \<Longrightarrow> ticket_line (p @ s) \<longleftrightarrow> ticket_line p"
proof -
  assume p: "has_crlf p"
  have part: "starts_with q (p @ s) \<and> ticket_target (drop n (p @ s)) \<longleftrightarrow>
      starts_with q p \<and> ticket_target (drop n p)" if q: "CHR 0x0D \<notin> set q" "length q = n" for q n
  proof (cases "starts_with q p")
    case True
    then obtain r where r: "p = q @ r" by (auto simp: starts_with_iff)
    with p q(1) have "has_crlf r" by (simp add: has_crlf_skip)
    with True r q(2) show ?thesis by (auto simp: target_append)
  next
    case False
    with starts_plain [OF q(1) has_crlf_CR [OF p]] show ?thesis by simp
  qed
  from part [of "''POST ''" 5] part [of "''GET ''" 4] show ?thesis by (simp add: ticket_line_def)
qed

lemma partial_iff: "list_ex (\<lambda>p. starts_with p head) TICKET_PARTIALS \<longleftrightarrow> (\<exists>r. head = CHR ''P'' # r \<or> head = CHR ''G'' # r)"
  by (cases head) (auto simp: TICKET_PARTIALS_def starts_with_def upt_rec)

lemma line_partial: "ticket_line head \<Longrightarrow> \<exists>r. head = CHR ''P'' # r \<or> head = CHR ''G'' # r"
  by (auto simp: ticket_line_def starts_with_iff)

lemma settled_append:
  assumes "p \<noteq> []" "length (p @ s) \<le> TICKET_REQUEST_MAX" "settled p"
  shows "settled (p @ s)"
proof (cases "has_crlf p")
  case True
  with assms(3) show ?thesis by (simp add: settled_def has_crlf_append line_append)
next
  case False
  with assms have "\<nexists>r. p = CHR ''P'' # r \<or> p = CHR ''G'' # r" by (auto simp: settled_def partial_iff)
  with assms(1) have no: "\<nexists>r. p @ s = CHR ''P'' # r \<or> p @ s = CHR ''G'' # r" by (cases p) auto
  with line_partial [of "p @ s"] show ?thesis by (auto simp: settled_def partial_iff)
qed

lemma end_not_settled:
  assumes "has_end p" "\<not> settled p" shows "\<not> settled (p @ s)"
  using assms has_end_crlf [OF assms(1)] by (simp add: settled_def has_crlf_append line_append)

definition sniffed_as :: "string \<Rightarrow> sniffer \<Rightarrow> bool" where
  "sniffed_as whole s \<longleftrightarrow>
     (if whole \<noteq> [] \<and> settled whole then sn_forwarded s = whole \<and> \<not> sn_sniffing s \<and> sn_answered s = None
      else if has_end whole then sn_forwarded s = [] \<and> sn_answered s \<noteq> None
      else s = sniffer_start\<lparr>sn_sniffed := whole\<rparr>)"

lemma sniffed_step:
  assumes "sniffed_as whole s" "data \<noteq> []" "length (whole @ data) \<le> TICKET_REQUEST_MAX"
  shows "sniffed_as (whole @ data) (data_received s data)"
proof (cases "whole \<noteq> [] \<and> settled whole")
  case True
  with settled_append [of whole data] assms show ?thesis by (simp add: sniffed_as_def data_received_def)
next
  case unsettled: False
  show ?thesis
  proof (cases "has_end whole")
    case True
    with unsettled have "\<not> settled whole" by auto
    with True unsettled assms end_not_settled [of whole data] show ?thesis
      by (auto simp: sniffed_as_def data_received_def has_end_append)
  next
    case False
    with unsettled assms(1) have "s = sniffer_start\<lparr>sn_sniffed := whole\<rparr>" by (auto simp: sniffed_as_def)
    with assms(2) show ?thesis
      by (simp add: sniffed_as_def data_received_def sniffer_start_def Let_def)
  qed
qed

lemma sniffed_run:
  "[] \<notin> set cs \<Longrightarrow> length (concat cs) \<le> TICKET_REQUEST_MAX \<Longrightarrow>
   sniffed_as (concat cs) (fold (\<lambda>d s. data_received s d) cs sniffer_start)"
proof (induction cs rule: rev_induct)
  case Nil
  then show ?case by (simp add: sniffed_as_def sniffer_start_def)
next
  case (snoc d cs)
  then show ?case by (auto intro!: sniffed_step)
qed

text \<open>
  However the network cuts the bytes of a request of at most 16 KiB, the connection decides as if they
  came at once: either all of them reach the WebSocket library, in order and unchanged, or none does and
  the request is answered as a ticket request, or none does yet.
\<close>

theorem ticket_sniff_chunking:
  assumes "[] \<notin> set cs" "cs \<noteq> []" "length (concat cs) \<le> TICKET_REQUEST_MAX"
  shows "let s = fold (\<lambda>d s. data_received s d) cs sniffer_start; t = data_received sniffer_start (concat cs) in
    sn_forwarded s = sn_forwarded t \<and> (sn_answered s = None \<longleftrightarrow> sn_answered t = None)
    \<and> sn_forwarded s \<in> {[], concat cs} \<and> (sn_forwarded s = [] \<or> sn_answered s = None)"
proof -
  have ne: "concat cs \<noteq> []" using assms(1,2) by (cases cs) auto
  have "sniffed_as (concat cs) (fold (\<lambda>d s. data_received s d) cs sniffer_start)"
    by (rule sniffed_run [OF assms(1,3)])
  moreover have "sniffed_as (concat cs) (data_received sniffer_start (concat cs))"
    using sniffed_run [of "[concat cs]"] ne assms(3) by simp
  ultimately show ?thesis
    using ne by (auto simp: sniffed_as_def Let_def sniffer_start_def split: if_splits)
qed

theorem ticket_sniff_chunking_witness:
  "let s = fold (\<lambda>d s. data_received s d) [''PO'', ''ST /bridge''] sniffer_start;
       t = data_received sniffer_start (concat [''PO'', ''ST /bridge'']) in
    sn_forwarded s = sn_forwarded t \<and> (sn_answered s = None \<longleftrightarrow> sn_answered t = None)
    \<and> sn_forwarded s \<in> {[], concat [''PO'', ''ST /bridge'']} \<and> (sn_forwarded s = [] \<or> sn_answered s = None)"
  by (rule ticket_sniff_chunking) (simp_all add: TICKET_REQUEST_MAX_def)

section \<open>No ticket in the log\<close>

text \<open>The ticket values a reader of a line can see.\<close>

definition mark_char :: "char \<Rightarrow> bool" where
  "mark_char c \<longleftrightarrow> c = CHR ''?'' \<or> c = CHR ''&''"

fun exposed :: "string \<Rightarrow> string list" where
  "exposed [] = []"
| "exposed (c # s) = (if mark_char c \<and> starts_with ''ticket='' s then [takeWhile value_char (drop 7 s)] else []) @ exposed s"

lemma redact_plain: "\<not> mark_char c \<Longrightarrow> redact_ticket (c # s) = c # redact_ticket s"
  by (simp add: mark_char_def)

lemma redact_text: "\<forall>c \<in> set u. \<not> mark_char c \<Longrightarrow> redact_ticket (u @ s) = u @ redact_ticket s"
  by (induction u) (auto simp: mark_char_def)

lemma redact_first: "takeWhile value_char s = [] \<Longrightarrow> takeWhile value_char (redact_ticket s) = []"
  by (cases s) (auto split: if_splits)

lemma redact_starts: "\<forall>c \<in> set t. \<not> mark_char c \<Longrightarrow> starts_with t (redact_ticket s) \<Longrightarrow> starts_with t s"
proof (induction t arbitrary: s)
  case (Cons a t)
  show ?case
  proof (cases s)
    case (Cons c r)
    with Cons.prems have "c = a" by (auto simp: starts_with_iff split: if_splits)
    with Cons.prems Cons have "starts_with t (redact_ticket r)"
      using redact_plain [of a r] by (auto simp: starts_with_iff)
    with Cons.IH [of r] Cons.prems \<open>c = a\<close> Cons show ?thesis by (auto simp: starts_with_iff)
  qed (use Cons.prems in \<open>simp add: starts_with_def\<close>)
qed (simp add: starts_with_def)

lemma exposed_text: "\<forall>c \<in> set u. \<not> mark_char c \<Longrightarrow> exposed (u @ s) = exposed s"
  by (induction u) auto

lemma first_after: "takeWhile value_char (dropWhile value_char s) = []"
  by (induction s) auto

text \<open>
  A request line that goes into the log shows no ticket: every value a reader can take for one is
  empty or the placeholder.
\<close>

theorem log_line_redacted:
  "set (exposed (redact_ticket line)) \<subseteq> {[], ''<redacted>''}"
proof (induction line rule: redact_ticket.induct)
  case (2 c s)
  show ?case
  proof (cases "mark_char c \<and> starts_with ''ticket='' s \<and> takeWhile value_char (drop 7 s) \<noteq> []")
    case True
    define r where "r = redact_ticket (dropWhile value_char (drop 7 s))"
    have "takeWhile value_char r = []" unfolding r_def by (rule redact_first [OF first_after])
    moreover have "\<forall>c \<in> set ''<redacted>''. value_char c" by (simp add: value_char_def non_space_def)
    ultimately have v: "takeWhile value_char (''<redacted>'' @ r) = ''<redacted>''"
      by (subst takeWhile_append2) auto
    have t: "exposed (''ticket=<redacted>'' @ r) = exposed r" by (rule exposed_text) (simp add: mark_char_def)
    have red: "redact_ticket (c # s) = c # ''ticket=<redacted>'' @ r" using True by (simp add: r_def mark_char_def)
    have "exposed (c # ''ticket=<redacted>'' @ r) = ''<redacted>'' # exposed r"
      using True v t by (simp add: starts_with_def)
    with 2(1) True red show ?thesis by (auto simp: r_def mark_char_def)
  next
    case False
    then have red: "redact_ticket (c # s) = c # redact_ticket s" by (auto simp: mark_char_def)
    have empty: "takeWhile value_char (drop 7 (redact_ticket s)) = []"
      if m: "mark_char c" "starts_with ''ticket='' (redact_ticket s)"
    proof -
      have plain: "\<forall>c \<in> set ''ticket=''. \<not> mark_char c" by (simp add: mark_char_def)
      from redact_starts [OF plain m(2)] obtain r where r: "s = ''ticket='' @ r" by (auto simp: starts_with_iff)
      with False m(1) have "takeWhile value_char r = []" by (auto simp: starts_with_iff)
      then have "takeWhile value_char (redact_ticket r) = []" by (rule redact_first)
      with redact_text [OF plain, of r] r show ?thesis by simp
    qed
    from 2(2) False have "set (exposed (redact_ticket s)) \<subseteq> {[], ''<redacted>''}" by (auto simp: mark_char_def)
    with empty red show ?thesis by auto
  qed
qed simp

end
