(* ===== verification/Bridge_Link.thy ===== *)
theory Bridge_Link
  imports Json
begin

text \<open>
  \<open>compat/wsbridge.py\<close>: one app connection and the upstream connection it owns (\<open>AppLink\<close>), and what a
  bridge lets it write. The JSON parser, the answers of the gateway, the source and thread of a session and
  the live rows are arguments. The requests of a link run one after the other in its worker, so each is one
  step; a step reads \<open>lk_ready\<close> at the end of its wait for the upstream.
\<close>

section \<open>Constants\<close>

definition WRITE_METHODS :: "string list" where
  "WRITE_METHODS = [''prompt.submit'', ''session.steer'', ''session.interrupt'', ''approval.respond'', ''clarify.respond'']"

definition LIVENESS_METHOD :: string where "LIVENESS_METHOD = ''session.liveness''"

definition ALLOWED_METHODS :: "string list" where
  "ALLOWED_METHODS = [''session.resume'', ''prompt.submit'', ''session.steer'', ''session.interrupt'',
     ''approval.respond'', ''clarify.respond'', ''session.create'', ''session.liveness'']"

definition HTTP_OWNED_SOURCES :: "string list" where "HTTP_OWNED_SOURCES = [''api_server'', ''bot_room'']"
definition GENERATION_METHODS :: "string list" where "GENERATION_METHODS = [''session.steer'', ''session.interrupt'']"
definition RESERVED_PARAMS :: "string list" where "RESERVED_PARAMS = [''_timeout'']"

definition METHOD_NOT_FOUND :: int where "METHOD_NOT_FOUND = -32601"
definition INVALID_PARAMS :: int where "INVALID_PARAMS = -32602"
definition INVALID_REQUEST :: int where "INVALID_REQUEST = -32600"
definition PARSE_ERROR :: int where "PARSE_ERROR = -32700"
definition REFUSED :: int where "REFUSED = 4001"
definition UPSTREAM :: int where "UPSTREAM = -32000"

section \<open>Which sessions may be written\<close>

definition may_write :: "string list option \<Rightarrow> string option \<Rightarrow> string option \<Rightarrow> bool" where
  "may_write test_ids source thread = (case source of
     None \<Rightarrow> False
   | Some s \<Rightarrow> s \<noteq> [] \<and> s \<notin> set HTTP_OWNED_SOURCES
       \<and> (case test_ids of None \<Rightarrow> True
          | Some ids \<Rightarrow> (case thread of None \<Rightarrow> False | Some t \<Rightarrow> t \<in> set ids)))"

section \<open>Frames\<close>

definition error_frame :: "json \<Rightarrow> int \<Rightarrow> string \<Rightarrow> json \<Rightarrow> json" where
  "error_frame rid code message data = JObj [(''jsonrpc'', JStr ''2.0''), (''id'', rid),
     (''error'', JObj [(''code'', JInt code), (''message'', JStr message),
        (''data'', if truthy data then data else JObj [(''reason'', JStr message)])])]"

definition result_frame :: "json \<Rightarrow> json \<Rightarrow> json" where
  "result_frame rid result = JObj [(''jsonrpc'', JStr ''2.0''), (''id'', rid), (''result'', result)]"

definition field_error :: "json \<Rightarrow> string \<Rightarrow> json" where
  "field_error rid field = error_frame rid INVALID_PARAMS ''invalid_params''
     (JObj [(''reason'', JStr ''invalid_params''), (''field'', JStr field)])"

section \<open>The link\<close>

datatype rpc_answer = Result json | RpcError "int option" string json | Lost | TimedOut

record rpc_call =
  rc_method :: string
  rc_params :: json
  rc_source :: "string option"
  rc_thread :: "string option"
  rc_open :: bool
  rc_answer :: rpc_answer

datatype sent = Reply json | Resumed string json | ResumeFailed string "int option" string json | Upstream string

record link =
  lk_ready :: bool
  lk_lane :: bool
  lk_aliases :: "(string \<times> string) list"
  lk_attached :: "string list"
  lk_created :: "string list"
  lk_was_ready :: bool
  lk_calls :: "rpc_call list"
  lk_open :: "string list"
  lk_sent :: "sent list"

text \<open>
  \<open>lk_lane\<close>: the worker of the requests runs. \<open>lk_calls\<close>: the requests passed on, with the source and thread
  the target had and whether the connection knew it; \<open>lk_open\<close>: the sessions resumed or created on the
  present upstream connection; \<open>lk_sent\<close>: the frames the app got.
\<close>

definition link_start :: link where
  "link_start = \<lparr>lk_ready = False, lk_lane = True, lk_aliases = [], lk_attached = [], lk_created = [],
     lk_was_ready = False, lk_calls = [], lk_open = [], lk_sent = []\<rparr>"

definition send :: "sent \<Rightarrow> link \<Rightarrow> link" where
  "send f l = l\<lparr>lk_sent := lk_sent l @ [f]\<rparr>"

definition put_key :: "string \<Rightarrow> 'v \<Rightarrow> (string \<times> 'v) list \<Rightarrow> (string \<times> 'v) list" where
  "put_key k v kvs = (if k \<in> fst ` set kvs then map (\<lambda>(k', v'). (k', if k' = k then v else v')) kvs else kvs @ [(k, v)])"

definition add_new :: "'a \<Rightarrow> 'a list \<Rightarrow> 'a list" where
  "add_new x xs = (if x \<in> set xs then xs else xs @ [x])"

fun is_jint :: "json \<Rightarrow> bool" where
  "is_jint (JInt i) = True"
| "is_jint _ = False"

section \<open>One request\<close>

text \<open>The checks of \<open>call\<close>: the error frame, or the parameters to pass on. \<open>may\<close> is \<open>may_write\<close> now.\<close>

definition check_call :: "(string \<Rightarrow> bool) \<Rightarrow> link \<Rightarrow> json \<Rightarrow> string \<Rightarrow> json \<Rightarrow> json + json" where
  "check_call may l rid meth params = (case params of
     JObj kvs \<Rightarrow>
       if set (map fst kvs) \<inter> set RESERVED_PARAMS \<noteq> {} then Inl (error_frame rid INVALID_PARAMS ''invalid_params'' JNull)
       else if meth \<in> set GENERATION_METHODS \<and> \<not> is_jint (jval ''execution_generation'' params)
         then Inl (field_error rid ''execution_generation'')
       else if meth = ''session.create'' then Inr params
       else (case jval ''session_id'' params of
           JStr sid \<Rightarrow>
             if sid = [] then Inl (field_error rid ''session_id'')
             else if meth = ''session.resume'' then Inr params
             else (case map_of (lk_aliases l) sid of
                 None \<Rightarrow> Inl (error_frame rid REFUSED ''permission_denied''
                     (JObj [(''reason'', JStr ''permission_denied''), (''detail'', JStr ''resume_required'')]))
               | Some target \<Rightarrow>
                   if meth \<in> set WRITE_METHODS \<and> target \<notin> set (lk_created l) \<and> \<not> may target
                   then Inl (error_frame rid REFUSED ''session_not_allowlisted'' JNull)
                   else Inr (JObj (put_key ''session_id'' (JStr target) kvs)))
         | _ \<Rightarrow> Inl (field_error rid ''session_id''))
   | _ \<Rightarrow> Inl (error_frame rid INVALID_PARAMS ''invalid_params'' JNull))"

text \<open>The id a resume or create has answered with, else the one that was asked for.\<close>

definition answered_id :: "json \<Rightarrow> json \<Rightarrow> string option" where
  "answered_id params result = (case result of
     JObj kvs \<Rightarrow> (case jget_or ''session_id'' (jval ''session_id'' params) result of
         JStr s \<Rightarrow> if s = [] then None else Some s
       | _ \<Rightarrow> None)
   | _ \<Rightarrow> None)"

definition target_of :: "json \<Rightarrow> string" where
  "target_of params = (case jstr ''session_id'' params of None \<Rightarrow> [] | Some t \<Rightarrow> t)"

definition attach :: "string \<Rightarrow> json \<Rightarrow> string \<Rightarrow> link \<Rightarrow> link" where
  "attach meth params sid l =
     (let l1 = (if meth = ''session.resume''
                then l\<lparr>lk_aliases := put_key (target_of params) sid (lk_aliases l)\<rparr>
                else l\<lparr>lk_created := add_new sid (lk_created l)\<rparr>)
      in l1\<lparr>lk_aliases := put_key sid sid (lk_aliases l1), lk_attached := add_new sid (lk_attached l1),
            lk_open := add_new sid (lk_open l1)\<rparr>)"

definition rpc_reply :: "json \<Rightarrow> rpc_answer \<Rightarrow> json" where
  "rpc_reply rid answer = (case answer of
     Result r \<Rightarrow> result_frame rid r
   | RpcError code message data \<Rightarrow> error_frame rid (case code of None \<Rightarrow> UPSTREAM | Some c \<Rightarrow> c) message data
   | Lost \<Rightarrow> error_frame rid UPSTREAM ''upstream_disconnected''
       (JObj [(''reason'', JStr ''upstream_disconnected''), (''outcome'', JStr ''unknown'')])
   | TimedOut \<Rightarrow> error_frame rid UPSTREAM ''upstream_timeout''
       (JObj [(''reason'', JStr ''upstream_timeout''), (''outcome'', JStr ''unknown'')]))"

text \<open>What the state database says of a session at the time of a request, and the configured threads.\<close>

record bridge_view =
  bv_source :: "string \<Rightarrow> string option"
  bv_thread :: "string \<Rightarrow> string option"
  bv_threads :: "string list option"

definition call :: "bridge_view \<Rightarrow> rpc_answer \<Rightarrow> json \<Rightarrow> string \<Rightarrow> json \<Rightarrow> link \<Rightarrow> json \<times> link" where
  "call bv answer rid meth params l =
     (case check_call (\<lambda>t. may_write (bv_threads bv) (bv_source bv t) (bv_thread bv t)) l rid meth params of
     Inl err \<Rightarrow> (err, l)
   | Inr ps \<Rightarrow>
       if \<not> lk_ready l then (error_frame rid UPSTREAM ''upstream_unavailable'' JNull, l)
       else let l1 = l\<lparr>lk_calls := lk_calls l @ [\<lparr>rc_method = meth, rc_params = ps, rc_source = bv_source bv (target_of ps),
                       rc_thread = bv_thread bv (target_of ps), rc_open = (target_of ps \<in> set (lk_open l)), rc_answer = answer\<rparr>]\<rparr>
            in (rpc_reply rid answer,
                case answer of
                  Result r \<Rightarrow> if meth \<in> {''session.resume'', ''session.create''}
                    then (case answered_id ps r of None \<Rightarrow> l1 | Some sid \<Rightarrow> attach meth ps sid l1) else l1
                | _ \<Rightarrow> l1))"

text \<open>
  \<open>request\<close>: a meth that is a list or an object cannot be looked up in the set (the code raises), and
  the exception ends the worker.
\<close>

definition request :: "bridge_view \<Rightarrow> rpc_answer \<Rightarrow> json option \<Rightarrow> link \<Rightarrow> link" where
  "request bv answer raw l = (case raw of
     None \<Rightarrow> send (Reply (error_frame JNull PARSE_ERROR ''parse_error'' JNull)) l
   | Some (JObj kvs) \<Rightarrow>
       (let rid = jval ''id'' (JObj kvs) in case jval ''method'' (JObj kvs) of
          JArr xs \<Rightarrow> l\<lparr>lk_lane := False\<rparr>
        | JObj ms \<Rightarrow> l\<lparr>lk_lane := False\<rparr>
        | m \<Rightarrow> (case m of
            JStr meth \<Rightarrow>
              if meth \<notin> set ALLOWED_METHODS
              then (if rid = JNull then l else send (Reply (error_frame rid METHOD_NOT_FOUND ''method_not_found'' JNull)) l)
              else if rid = JNull then l
              else let params = (case jget ''params'' (JObj kvs) of None \<Rightarrow> JObj [] | Some v \<Rightarrow> v);
                       (reply, l1) = call bv answer rid meth params l
                   in send (Reply reply) l1
          | _ \<Rightarrow> if rid = JNull then l else send (Reply (error_frame rid METHOD_NOT_FOUND ''method_not_found'' JNull)) l))
   | Some v \<Rightarrow> send (Reply (error_frame JNull INVALID_REQUEST ''invalid_request'' JNull)) l)"

section \<open>Liveness\<close>

definition liveness_frame :: "json option \<Rightarrow> bool" where
  "liveness_frame raw = (case raw of
     Some (JObj kvs) \<Rightarrow> jval ''method'' (JObj kvs) = JStr LIVENESS_METHOD \<and> jval ''id'' (JObj kvs) \<noteq> JNull
   | _ \<Rightarrow> False)"

text \<open>The live rows, or the error of reading them.\<close>

datatype live_rows = Rows "json list" | RowsError "int option" string json | RowsFailed

definition liveness :: "live_rows \<Rightarrow> json \<Rightarrow> json \<Rightarrow> link \<Rightarrow> json" where
  "liveness rows rid params l = (case params of
     JObj kvs \<Rightarrow>
       (case jval ''session_id'' params of
          JStr sid \<Rightarrow>
            if sid = [] \<or> set (map fst kvs) \<noteq> {''session_id''} then field_error rid ''session_id''
            else let target = (case map_of (lk_aliases l) sid of None \<Rightarrow> sid | Some t \<Rightarrow> t)
                 in (case rows of
                       RowsError code message data \<Rightarrow> error_frame rid (case code of None \<Rightarrow> UPSTREAM | Some c \<Rightarrow> c) message data
                     | RowsFailed \<Rightarrow> error_frame rid UPSTREAM ''upstream_unavailable'' JNull
                     | Rows rs \<Rightarrow> (let row = find (\<lambda>r. jval ''id'' r = JStr target) rs
                         in result_frame rid (JObj [(''session_id'', JStr target), (''listed'', JBool (row \<noteq> None)),
                              (''status'', case row of None \<Rightarrow> JNull | Some r \<Rightarrow> jval ''status'' r)])))
        | _ \<Rightarrow> field_error rid ''session_id'')
   | _ \<Rightarrow> field_error rid ''session_id'')"

section \<open>The upstream\<close>

text \<open>\<open>resume_again\<close>; the flag is whether the connection is still there.\<close>

definition resume_again :: "string \<Rightarrow> rpc_answer \<Rightarrow> link \<Rightarrow> bool \<times> link" where
  "resume_again sid answer l = (case answer of
     Result r \<Rightarrow> (True, send (Resumed sid r) (l\<lparr>lk_open := add_new sid (lk_open l)\<rparr>))
   | RpcError code message data \<Rightarrow>
       (True, send (ResumeFailed sid code message data) (l\<lparr>lk_attached := remove1 sid (lk_attached l)\<rparr>))
   | _ \<Rightarrow> (False, l))"

fun replay :: "(string \<Rightarrow> rpc_answer) \<Rightarrow> string list \<Rightarrow> link \<Rightarrow> bool \<times> link" where
  "replay answer [] l = (True, l)"
| "replay answer (sid # sids) l = (let (ok, l1) = resume_again sid (answer sid) l
     in if ok then replay answer sids l1 else (False, l1))"

text \<open>A connection that was dialed: the sessions are replayed, then requests may use it.\<close>

definition connect :: "(string \<Rightarrow> rpc_answer) \<Rightarrow> link \<Rightarrow> link" where
  "connect answer l = (case replay answer (lk_attached l) (l\<lparr>lk_open := [], lk_ready := False\<rparr>) of
     (True, l1) \<Rightarrow> (if lk_was_ready l1 then send (Upstream ''ready'') else (\<lambda>x. x)) (l1\<lparr>lk_ready := True, lk_was_ready := True\<rparr>)
   | (False, l1) \<Rightarrow> l1)"

definition drop_upstream :: "link \<Rightarrow> link" where
  "drop_upstream l = (if lk_ready l then send (Upstream ''reconnecting'') (l\<lparr>lk_ready := False\<rparr>) else l)"

text \<open>\<open>pump\<close>: a replay gap of an attached session is resumed afresh.\<close>

definition replay_gap :: "string \<Rightarrow> rpc_answer \<Rightarrow> link \<Rightarrow> link" where
  "replay_gap sid answer l = (if lk_ready l \<and> sid \<in> set (lk_attached l) then snd (resume_again sid answer l) else l)"

text \<open>The wait before the next try: the delays in order, then the last one again.\<close>

definition reconnect_delay :: "time list \<Rightarrow> nat \<Rightarrow> time" where
  "reconnect_delay delays attempt = delays ! min attempt (length delays - 1)"

section \<open>Histories\<close>

datatype link_op = Receive "json option" bridge_view rpc_answer | Connect "string \<Rightarrow> rpc_answer" | Drop
  | Gap string rpc_answer

fun link_step :: "link_op \<Rightarrow> link \<Rightarrow> link" where
  "link_step (Receive raw bv answer) l = (if liveness_frame raw \<or> \<not> lk_lane l then l else request bv answer raw l)"
| "link_step (Connect answer) l = connect answer l"
| "link_step Drop l = drop_upstream l"
| "link_step (Gap sid answer) l = replay_gap sid answer l"

end
