(* ===== verification/Bridge_Link_Properties.thy ===== *)
theory Bridge_Link_Properties
  imports Bridge_Link
begin

text \<open>
  What a bridge link lets through: writes reach only sessions that are the bridge's to write, and no
  request uses a session its connection has not resumed.
\<close>

section \<open>Requests and their effects\<close>

text \<open>The session a call has opened, by its answer.\<close>

definition opened :: "rpc_call \<Rightarrow> string option" where
  "opened c = (case rc_answer c of Result r \<Rightarrow> answered_id (rc_params c) r | _ \<Rightarrow> None)"

definition made :: "rpc_call list \<Rightarrow> string set" where
  "made cs = {t. \<exists>c \<in> set cs. rc_method c = ''session.create'' \<and> opened c = Some t}"

definition known :: "rpc_call list \<Rightarrow> string set" where
  "known cs = {t. \<exists>c \<in> set cs. rc_method c \<in> {''session.create'', ''session.resume''} \<and> opened c = Some t}"

text \<open>A call after \<open>pre\<close> may be passed on.\<close>

definition guarded :: "string list option \<Rightarrow> rpc_call list \<Rightarrow> rpc_call \<Rightarrow> bool" where
  "guarded threads pre c \<longleftrightarrow> rc_method c \<in> set ALLOWED_METHODS
     \<and> (rc_method c \<notin> {''session.create'', ''session.resume''} \<longrightarrow> target_of (rc_params c) \<in> known pre)
     \<and> (rc_method c \<in> set WRITE_METHODS \<longrightarrow>
          target_of (rc_params c) \<in> made pre \<or> may_write threads (rc_source c) (rc_thread c))"

text \<open>The parts of a link a request may change, one passed-on call at most.\<close>

lemma send_simps [simp]:
  "lk_ready (send f l) = lk_ready l" "lk_lane (send f l) = lk_lane l" "lk_aliases (send f l) = lk_aliases l"
  "lk_attached (send f l) = lk_attached l" "lk_created (send f l) = lk_created l" "lk_calls (send f l) = lk_calls l"
  "lk_open (send f l) = lk_open l" "lk_was_ready (send f l) = lk_was_ready l" "lk_sent (send f l) = lk_sent l @ [f]"
  by (simp_all add: send_def)

lemma put_key_set: "(a, t) \<in> set (put_key k v kvs) \<Longrightarrow> (a = k \<and> t = v) \<or> (a, t) \<in> set kvs"
  by (auto simp: put_key_def split: if_splits)

lemma jstr_put: "jstr k (JObj (put_key k (JStr t) kvs)) = Some t"
proof (cases "k \<in> fst ` set kvs")
  case True
  then have "map_of (map (\<lambda>(k', v'). (k', if k' = k then JStr t else v')) kvs) k = Some (JStr t)"
    by (induction kvs) auto
  with True show ?thesis by (simp add: jstr_def put_key_def)
next
  case False
  then have "map_of kvs k = None" by (auto simp: map_of_eq_None_iff)
  with False show ?thesis by (simp add: jstr_def put_key_def map_add_def)
qed

lemma alias_target: "map_of al k = Some t \<Longrightarrow> t \<in> snd ` set al"
  by (force dest: map_of_SomeD)

lemma check_call_passes:
  assumes "check_call may l rid meth params = Inr ps" "meth \<noteq> ''session.create''" "meth \<noteq> ''session.resume''"
  shows "target_of ps \<in> snd ` set (lk_aliases l)
    \<and> (meth \<in> set WRITE_METHODS \<longrightarrow> target_of ps \<in> set (lk_created l) \<or> may (target_of ps))"
  using assms
  by (auto simp: check_call_def target_of_def jstr_put split: json.splits if_splits option.splits dest: alias_target)

lemma attach_simps:
  "lk_calls (attach meth ps sid l) = lk_calls l" "lk_ready (attach meth ps sid l) = lk_ready l"
  "lk_sent (attach meth ps sid l) = lk_sent l" "lk_lane (attach meth ps sid l) = lk_lane l"
  "set (lk_open (attach meth ps sid l)) = insert sid (set (lk_open l))"
  "set (lk_attached (attach meth ps sid l)) = insert sid (set (lk_attached l))"
  "set (lk_created (attach meth ps sid l)) = (if meth = ''session.resume'' then set (lk_created l) else insert sid (set (lk_created l)))"
  by (auto simp: attach_def Let_def add_new_def)

lemma put_key_values: "snd ` set (put_key k v kvs) \<subseteq> insert v (snd ` set kvs)"
  by (auto simp: put_key_def split: if_splits)

lemma attach_aliases: "snd ` set (lk_aliases (attach meth ps sid l)) \<subseteq> insert sid (snd ` set (lk_aliases l))"
proof (cases "meth = ''session.resume''")
  case True
  have "snd ` set (lk_aliases (attach meth ps sid l)) \<subseteq> insert sid (snd ` set (put_key (target_of ps) sid (lk_aliases l)))"
    using put_key_values [of sid sid "put_key (target_of ps) sid (lk_aliases l)"] True by (simp add: attach_def)
  with put_key_values [of "target_of ps" sid "lk_aliases l"] show ?thesis by blast
next
  case False
  then show ?thesis using put_key_values [of sid sid "lk_aliases l"] by (simp add: attach_def Let_def)
qed

text \<open>A request changes nothing but the frames sent, or passes one checked call on.\<close>

definition same_link :: "link \<Rightarrow> link \<Rightarrow> bool" where
  "same_link l l' \<longleftrightarrow> lk_calls l' = lk_calls l \<and> lk_aliases l' = lk_aliases l \<and> lk_created l' = lk_created l
     \<and> lk_attached l' = lk_attached l \<and> lk_open l' = lk_open l \<and> lk_ready l' = lk_ready l
     \<and> set (lk_sent l) \<subseteq> set (lk_sent l')"

lemma same_link_simps [simp]: "same_link l l" "same_link l (send f l)" "same_link l (l\<lparr>lk_lane := b\<rparr>)"
  by (auto simp: same_link_def)

definition passed_call :: "bridge_view \<Rightarrow> rpc_answer \<Rightarrow> string \<Rightarrow> json \<Rightarrow> link \<Rightarrow> rpc_call" where
  "passed_call bv answer meth ps l = \<lparr>rc_method = meth, rc_params = ps, rc_source = bv_source bv (target_of ps),
     rc_thread = bv_thread bv (target_of ps), rc_open = (target_of ps \<in> set (lk_open l)), rc_answer = answer\<rparr>"

definition after_call :: "rpc_call \<Rightarrow> link \<Rightarrow> link" where
  "after_call c l = (let l1 = l\<lparr>lk_calls := lk_calls l @ [c]\<rparr>
     in if rc_method c \<in> {''session.resume'', ''session.create''}
        then (case opened c of None \<Rightarrow> l1 | Some sid \<Rightarrow> attach (rc_method c) (rc_params c) sid l1) else l1)"

lemma call_cases:
  obtains (refused) "snd (call bv answer rid meth params l) = l"
  | (passed) ps where "lk_ready l"
      "check_call (\<lambda>t. may_write (bv_threads bv) (bv_source bv t) (bv_thread bv t)) l rid meth params = Inr ps"
      "snd (call bv answer rid meth params l) = after_call (passed_call bv answer meth ps l) l"
proof (cases "check_call (\<lambda>t. may_write (bv_threads bv) (bv_source bv t) (bv_thread bv t)) l rid meth params")
  case (Inl err)
  then show ?thesis by (intro refused) (simp add: call_def)
next
  case (Inr ps)
  show ?thesis
  proof (cases "lk_ready l")
    case True
    with Inr show ?thesis
      by (intro passed [of ps])
        (auto simp: call_def after_call_def passed_call_def opened_def Let_def split: rpc_answer.split option.split)
  next
    case False
    with Inr show ?thesis by (intro refused) (simp add: call_def)
  qed
qed

lemma request_cases:
  obtains (quiet) "same_link l (request bv answer raw l)"
  | (passed) rid meth params ps reply where "meth \<in> set ALLOWED_METHODS" "lk_ready l"
      "check_call (\<lambda>t. may_write (bv_threads bv) (bv_source bv t) (bv_thread bv t)) l rid meth params = Inr ps"
      "request bv answer raw l = send (Reply reply) (after_call (passed_call bv answer meth ps l) l)"
      "liveness_frame raw \<or> meth \<noteq> LIVENESS_METHOD"
proof (cases "\<exists>kvs meth. raw = Some (JObj kvs) \<and> jval ''method'' (JObj kvs) = JStr meth
    \<and> meth \<in> set ALLOWED_METHODS \<and> jval ''id'' (JObj kvs) \<noteq> JNull")
  case False
  then have "same_link l (request bv answer raw l)"
    by (auto simp: request_def Let_def split: option.split json.split)
  then show ?thesis by (rule quiet)
next
  case True
  then obtain kvs meth where k: "raw = Some (JObj kvs)" "jval ''method'' (JObj kvs) = JStr meth"
    "meth \<in> set ALLOWED_METHODS" "jval ''id'' (JObj kvs) \<noteq> JNull" by blast
  define params where "params = (case jget ''params'' (JObj kvs) of None \<Rightarrow> JObj [] | Some v \<Rightarrow> v)"
  obtain reply l1 where c: "call bv answer (jval ''id'' (JObj kvs)) meth params l = (reply, l1)" by fastforce
  have req: "request bv answer raw l = send (Reply reply) l1"
    using k c unfolding params_def by (simp add: request_def Let_def)
  have live: "liveness_frame raw \<or> meth \<noteq> LIVENESS_METHOD" using k by (simp add: liveness_frame_def)
  show ?thesis
  proof (cases rule: call_cases [of bv answer "jval ''id'' (JObj kvs)" meth params l])
    case refused
    with c req show ?thesis by (intro quiet) simp
  next
    case (passed ps)
    with c req k live that(2) show ?thesis by auto
  qed
qed

section \<open>Writes\<close>

lemma split_snoc: "xs @ [y] = pre @ c # post \<longleftrightarrow> (post = [] \<and> pre = xs \<and> c = y) \<or> (\<exists>post'. post = post' @ [y] \<and> xs = pre @ c # post')"
  by (cases post rule: rev_cases) auto

definition link_ok :: "string list option \<Rightarrow> link \<Rightarrow> bool" where
  "link_ok threads l \<longleftrightarrow> snd ` set (lk_aliases l) \<subseteq> known (lk_calls l) \<and> set (lk_created l) \<subseteq> made (lk_calls l)
     \<and> (\<forall>pre c post. lk_calls l = pre @ c # post \<longrightarrow> guarded threads pre c)"

lemma known_snoc: "known (cs @ [c]) = known cs \<union> (if rc_method c \<in> {''session.create'', ''session.resume''} then set_option (opened c) else {})"
  by (auto simp: known_def)

lemma made_snoc: "made (cs @ [c]) = made cs \<union> (if rc_method c = ''session.create'' then set_option (opened c) else {})"
  by (auto simp: made_def)

lemma link_ok_same: "same_link l l' \<Longrightarrow> link_ok threads l \<Longrightarrow> link_ok threads l'"
  by (simp add: same_link_def link_ok_def)

lemma after_call_calls: "lk_calls (after_call c l) = lk_calls l @ [c]"
  by (auto simp: after_call_def Let_def attach_simps split: option.split)

lemma after_call_aliases: "snd ` set (lk_aliases (after_call c l)) \<subseteq> known (lk_calls l @ [c]) \<union> snd ` set (lk_aliases l)"
proof (cases "rc_method c \<in> {''session.resume'', ''session.create''} \<and> opened c \<noteq> None")
  case True
  then obtain sid where sid: "opened c = Some sid" by auto
  with True have "sid \<in> known (lk_calls l @ [c])" by (auto simp: known_snoc)
  with attach_aliases [of "rc_method c" "rc_params c" sid "l\<lparr>lk_calls := lk_calls l @ [c]\<rparr>"] sid True show ?thesis
    by (auto simp: after_call_def Let_def)
next
  case False
  then show ?thesis by (auto simp: after_call_def Let_def split: option.split)
qed

lemma after_call_created: "set (lk_created (after_call c l)) \<subseteq> made (lk_calls l @ [c]) \<union> set (lk_created l)"
  by (auto simp: after_call_def Let_def made_snoc attach_simps split: option.splits if_splits)

lemma link_ok_passed:
  assumes "link_ok (bv_threads bv) l" "meth \<in> set ALLOWED_METHODS"
    "check_call (\<lambda>t. may_write (bv_threads bv) (bv_source bv t) (bv_thread bv t)) l rid meth params = Inr ps"
  shows "link_ok (bv_threads bv) (send (Reply reply) (after_call (passed_call bv answer meth ps l) l))"
proof -
  define c where "c = passed_call bv answer meth ps l"
  have al: "snd ` set (lk_aliases l) \<subseteq> known (lk_calls l)" and cr: "set (lk_created l) \<subseteq> made (lk_calls l)"
    using assms(1) by (simp_all add: link_ok_def)
  have "guarded (bv_threads bv) (lk_calls l) c"
    unfolding guarded_def
  proof (intro conjI impI)
    show "rc_method c \<in> set ALLOWED_METHODS" using assms(2) by (simp add: c_def passed_call_def)
  next
    assume "rc_method c \<notin> {''session.create'', ''session.resume''}"
    with check_call_passes [OF assms(3)] al show "target_of (rc_params c) \<in> known (lk_calls l)"
      by (auto simp: c_def passed_call_def)
  next
    assume w: "rc_method c \<in> set WRITE_METHODS"
    then have "rc_method c \<noteq> ''session.create'' \<and> rc_method c \<noteq> ''session.resume''" by (auto simp: WRITE_METHODS_def)
    with check_call_passes [OF assms(3)] cr w
    show "target_of (rc_params c) \<in> made (lk_calls l) \<or> may_write (bv_threads bv) (rc_source c) (rc_thread c)"
      by (auto simp: c_def passed_call_def)
  qed
  moreover have k: "known (lk_calls l) \<subseteq> known (lk_calls l @ [c])" and m: "made (lk_calls l) \<subseteq> made (lk_calls l @ [c])"
    by (simp_all add: known_snoc made_snoc)
  have "snd ` set (lk_aliases (after_call c l)) \<subseteq> known (lk_calls l @ [c])"
    by (rule subset_trans [OF after_call_aliases]) (use al k in simp)
  moreover have "set (lk_created (after_call c l)) \<subseteq> made (lk_calls l @ [c])"
    by (rule subset_trans [OF after_call_created]) (use cr m in simp)
  ultimately show ?thesis
    using assms(1) unfolding c_def [symmetric] by (auto simp: link_ok_def after_call_calls split_snoc)
qed

lemma resume_again_same: "lk_calls (snd (resume_again sid a l)) = lk_calls l"
  "lk_aliases (snd (resume_again sid a l)) = lk_aliases l" "lk_created (snd (resume_again sid a l)) = lk_created l"
  "set (lk_sent l) \<subseteq> set (lk_sent (snd (resume_again sid a l)))" "set (lk_open l) \<subseteq> set (lk_open (snd (resume_again sid a l)))"
  by (auto simp: resume_again_def add_new_def split: rpc_answer.split)

lemma replay_same: "lk_calls (snd (replay a sids l)) = lk_calls l \<and> lk_aliases (snd (replay a sids l)) = lk_aliases l
    \<and> lk_created (snd (replay a sids l)) = lk_created l \<and> set (lk_sent l) \<subseteq> set (lk_sent (snd (replay a sids l)))
    \<and> set (lk_open l) \<subseteq> set (lk_open (snd (replay a sids l)))"
proof (induction sids arbitrary: l)
  case (Cons sid sids)
  obtain ok l1 where r: "resume_again sid (a sid) l = (ok, l1)" by fastforce
  with resume_again_same [where sid = sid and a = "a sid" and l = l] Cons.IH [of l1] show ?case by auto
qed simp

lemma connect_same: "lk_calls (connect a l) = lk_calls l" "lk_aliases (connect a l) = lk_aliases l"
  "lk_created (connect a l) = lk_created l" "set (lk_sent l) \<subseteq> set (lk_sent (connect a l))"
  using replay_same [of a "lk_attached l" "l\<lparr>lk_open := [], lk_ready := False\<rparr>"]
  by (auto simp: connect_def split: prod.split bool.split)

lemma other_steps_same:
  "lk_calls (drop_upstream l) = lk_calls l" "lk_aliases (drop_upstream l) = lk_aliases l" "lk_created (drop_upstream l) = lk_created l"
  "lk_calls (replay_gap sid a l) = lk_calls l" "lk_aliases (replay_gap sid a l) = lk_aliases l"
  "lk_created (replay_gap sid a l) = lk_created l"
  by (simp_all add: drop_upstream_def replay_gap_def resume_again_same)

text \<open>The state database may change between requests; the configured threads do not.\<close>

fun with_threads :: "string list option \<Rightarrow> link_op \<Rightarrow> bool" where
  "with_threads threads (Receive raw bv answer) \<longleftrightarrow> bv_threads bv = threads"
| "with_threads threads op \<longleftrightarrow> True"

lemma link_ok_step: "link_ok threads l \<Longrightarrow> with_threads threads op \<Longrightarrow> link_ok threads (link_step op l)"
proof (cases op)
  case (Receive raw bv answer)
  assume ok: "link_ok threads l" and "with_threads threads op"
  with Receive have th: "bv_threads bv = threads" by simp
  show ?thesis
  proof (cases rule: request_cases [of l bv answer raw])
    case quiet
    with ok Receive link_ok_same show ?thesis by auto
  next
    case (passed rid meth params ps reply)
    from link_ok_passed [of bv l meth rid params ps reply answer] ok th passed Receive show ?thesis by auto
  qed
qed (simp_all add: link_ok_def connect_same other_steps_same)

lemma link_ok_run: "list_all (with_threads threads) ops \<Longrightarrow> link_ok threads (fold link_step ops link_start)"
proof (induction ops rule: rev_induct)
  case Nil
  then show ?case by (simp add: link_ok_def link_start_def)
next
  case (snoc op ops)
  then show ?case by (simp add: link_ok_step)
qed

text \<open>
  C26. Whatever an app sends and whatever happens to the upstream, every request passed on to the gateway is
  of an allowed method, addresses a session that an earlier resume or create of this link opened (the id the
  answer names, the one asked for where it names none), and a write reaches only a session this link
  created or one whose source, at that moment, is foreign and whose thread is allowed.
\<close>

theorem bridge_write_guard:
  "list_all (with_threads threads) ops \<Longrightarrow>
   lk_calls (fold link_step ops link_start) = pre @ c # post \<Longrightarrow> guarded threads pre c"
  using link_ok_run [of threads ops] by (simp add: link_ok_def)

definition view_example :: bridge_view where
  "view_example = \<lparr>bv_source = (\<lambda>t. Some ''telegram''), bv_thread = (\<lambda>t. Some t), bv_threads = Some [''root'']\<rparr>"

definition frame_example :: "string \<Rightarrow> string \<Rightarrow> json option" where
  "frame_example meth sid = Some (JObj [(''id'', JInt 1), (''method'', JStr meth), (''params'', JObj [(''session_id'', JStr sid)])])"

definition history_example :: "link_op list" where
  "history_example = [Connect (\<lambda>sid. Lost),
     Receive (frame_example ''prompt.submit'' ''tip'') view_example (Result (JObj [])),
     Receive (frame_example ''session.resume'' ''tip'') view_example (Result (JObj [(''session_id'', JStr ''root'')])),
     Receive (frame_example ''prompt.submit'' ''tip'') view_example (Result (JObj []))]"

definition calls_example :: "rpc_call list" where
  "calls_example = lk_calls (fold link_step history_example link_start)"

lemma two_long: "length xs = 2 \<Longrightarrow> xs = [xs ! 0] @ xs ! 1 # []"
  by (cases xs; cases "tl xs") auto

lemma calls_example_shape: "calls_example = [calls_example ! 0] @ calls_example ! 1 # []"
  by (rule two_long) code_simp

theorem bridge_write_guard_witness: "guarded (Some [''root'']) [calls_example ! 0] (calls_example ! 1)"
proof (rule bridge_write_guard)
  show "list_all (with_threads (Some [''root''])) history_example" by (simp add: history_example_def view_example_def)
  show "lk_calls (fold link_step history_example link_start) = [calls_example ! 0] @ calls_example ! 1 # []"
    using calls_example_shape unfolding calls_example_def .
qed

section \<open>Resumed before use\<close>

text \<open>The sessions the app was told could not be resumed again.\<close>

definition told :: "link \<Rightarrow> string set" where
  "told l = {t. \<exists>code m d. ResumeFailed t code m d \<in> set (lk_sent l)}"

definition used_ok :: "link \<Rightarrow> rpc_call \<Rightarrow> bool" where
  "used_ok l c \<longleftrightarrow> rc_method c \<in> {''session.create'', ''session.resume''} \<or> rc_open c \<or> target_of (rc_params c) \<in> told l"

definition resume_ok :: "link \<Rightarrow> bool" where
  "resume_ok l \<longleftrightarrow> snd ` set (lk_aliases l) \<subseteq> set (lk_attached l) \<union> told l
     \<and> (lk_ready l \<longrightarrow> snd ` set (lk_aliases l) \<subseteq> set (lk_open l) \<union> told l)
     \<and> (\<forall>c \<in> set (lk_calls l). used_ok l c)"

lemma told_mono: "set (lk_sent l) \<subseteq> set (lk_sent l') \<Longrightarrow> told l \<subseteq> told l'"
  by (auto simp: told_def)

lemma used_ok_mono: "set (lk_sent l) \<subseteq> set (lk_sent l') \<Longrightarrow> used_ok l c \<Longrightarrow> used_ok l' c"
  using told_mono [of l l'] by (auto simp: used_ok_def)

lemma resume_ok_same: "same_link l l' \<Longrightarrow> resume_ok l \<Longrightarrow> resume_ok l'"
proof -
  assume same: "same_link l l'" and ok: "resume_ok l"
  from same have sent: "set (lk_sent l) \<subseteq> set (lk_sent l')" by (simp add: same_link_def)
  from same ok told_mono [OF sent] used_ok_mono [OF sent] show "resume_ok l'"
    by (simp add: resume_ok_def same_link_def) (meson Un_mono dual_order.trans subset_refl)
qed

lemma told_send [simp]: "told l \<subseteq> told (send f l)"
  by (rule told_mono) auto

lemma resume_again_kept:
  "set (lk_attached l) \<subseteq> set (lk_attached (snd (resume_again sid a l))) \<union> told (snd (resume_again sid a l))"
  "fst (resume_again sid a l) \<Longrightarrow> sid \<in> set (lk_open (snd (resume_again sid a l))) \<union> told (snd (resume_again sid a l))"
  "lk_ready (snd (resume_again sid a l)) = lk_ready l"
  by (auto simp: resume_again_def told_def add_new_def send_def split: rpc_answer.split)
    (metis in_set_remove1)

lemma replay_kept:
  "set (lk_attached l) \<subseteq> set (lk_attached (snd (replay a sids l))) \<union> told (snd (replay a sids l))
    \<and> (fst (replay a sids l) \<longrightarrow> set sids \<subseteq> set (lk_open (snd (replay a sids l))) \<union> told (snd (replay a sids l)))
    \<and> lk_ready (snd (replay a sids l)) = lk_ready l"
proof (induction sids arbitrary: l)
  case (Cons sid sids)
  obtain ok l1 where r: "resume_again sid (a sid) l = (ok, l1)" by fastforce
  note kept = resume_again_kept [where sid = sid and a = "a sid" and l = l, unfolded r snd_conv fst_conv]
  show ?case
  proof (cases ok)
    case True
    have o: "set (lk_open l1) \<subseteq> set (lk_open (snd (replay a sids l1)))" using replay_same [of a sids l1] by simp
    have "told l1 \<subseteq> told (snd (replay a sids l1))" using replay_same [of a sids l1] by (intro told_mono) simp
    with o True r kept Cons.IH [of l1] show ?thesis by auto
  next
    case False
    with r kept show ?thesis by auto
  qed
qed simp

lemma resume_ok_carry:
  assumes "resume_ok l" "lk_calls l' = lk_calls l" "lk_aliases l' = lk_aliases l" "set (lk_sent l) \<subseteq> set (lk_sent l')"
    "set (lk_attached l) \<subseteq> set (lk_attached l') \<union> told l'"
    "lk_ready l' \<Longrightarrow> snd ` set (lk_aliases l) \<subseteq> set (lk_open l') \<union> told l'"
  shows "resume_ok l'"
proof -
  have "snd ` set (lk_aliases l) \<subseteq> set (lk_attached l) \<union> told l" using assms(1) by (simp add: resume_ok_def)
  then have "snd ` set (lk_aliases l') \<subseteq> set (lk_attached l') \<union> told l'"
    using assms(5) told_mono [OF assms(4)] unfolding assms(3) by blast
  moreover have "\<forall>c \<in> set (lk_calls l'). used_ok l' c"
    using assms(1) used_ok_mono [OF assms(4)] unfolding assms(2) by (simp add: resume_ok_def)
  ultimately show ?thesis using assms(3,6) by (simp add: resume_ok_def)
qed

lemma connect_kept: "resume_ok l \<Longrightarrow> resume_ok (connect a l)"
proof (rule resume_ok_carry)
  assume ok: "resume_ok l"
  define l0 where "l0 = l\<lparr>lk_open := [], lk_ready := False\<rparr>"
  obtain kept l1 where r: "replay a (lk_attached l) l0 = (kept, l1)" by fastforce
  note same = replay_same [of a "lk_attached l" l0, unfolded r snd_conv]
  note rep = replay_kept [of l0 a "lk_attached l", unfolded r snd_conv fst_conv]
  have c: "connect a l = (if kept then (if lk_was_ready l1 then send (Upstream ''ready'') else (\<lambda>x. x))
      (l1\<lparr>lk_ready := True, lk_was_ready := True\<rparr>) else l1)"
    using r by (simp add: connect_def l0_def)
  show calls: "lk_calls (connect a l) = lk_calls l" "lk_aliases (connect a l) = lk_aliases l"
    "set (lk_sent l) \<subseteq> set (lk_sent (connect a l))" by (rule connect_same)+
  have sent: "told l1 \<subseteq> told (connect a l)" by (rule told_mono) (auto simp: c)
  have parts: "lk_attached (connect a l) = lk_attached l1" "lk_open (connect a l) = lk_open l1" by (simp_all add: c)
  from rep have att: "set (lk_attached l) \<subseteq> set (lk_attached l1) \<union> told l1" by (simp add: l0_def)
  with sent parts show "set (lk_attached l) \<subseteq> set (lk_attached (connect a l)) \<union> told (connect a l)" by auto
  assume "lk_ready (connect a l)"
  then have kept using c rep by (cases kept) (auto simp: l0_def)
  with rep have opened: "set (lk_attached l) \<subseteq> set (lk_open l1) \<union> told l1" by simp
  have "told l \<subseteq> told l1" using same by (intro told_mono) (simp add: l0_def)
  with ok opened sent show "snd ` set (lk_aliases l) \<subseteq> set (lk_open (connect a l)) \<union> told (connect a l)"
    unfolding parts resume_ok_def by blast
qed

lemma drop_kept: "resume_ok l \<Longrightarrow> resume_ok (drop_upstream l)"
proof (erule resume_ok_carry)
  have "told l \<subseteq> told (drop_upstream l)" by (rule told_mono) (auto simp: drop_upstream_def)
  then show "set (lk_attached l) \<subseteq> set (lk_attached (drop_upstream l)) \<union> told (drop_upstream l)"
    by (auto simp: drop_upstream_def)
qed (auto simp: drop_upstream_def split: if_splits)

lemma gap_kept: "resume_ok l \<Longrightarrow> resume_ok (replay_gap sid a l)"
proof (cases "lk_ready l \<and> sid \<in> set (lk_attached l)")
  case True
  assume ok: "resume_ok l"
  define l' where "l' = snd (resume_again sid a l)"
  have g: "replay_gap sid a l = l'" using True by (simp add: replay_gap_def l'_def)
  note same = resume_again_same [where sid = sid and a = a and l = l, folded l'_def]
  have "told l \<subseteq> told l'" using same(4) by (rule told_mono)
  with ok True same(5) have "snd ` set (lk_aliases l) \<subseteq> set (lk_open l') \<union> told l'"
    unfolding resume_ok_def by blast
  then show ?thesis unfolding g
    using resume_ok_carry [OF ok same(1,2,4)] resume_again_kept(1) [of l sid a, folded l'_def] by blast
next
  case False
  then have "replay_gap sid a l = l" by (auto simp: replay_gap_def)
  then show "resume_ok l \<Longrightarrow> ?thesis" by simp
qed

lemma after_call_opened:
  "set (lk_attached l) \<subseteq> set (lk_attached (after_call c l)) \<and> set (lk_open l) \<subseteq> set (lk_open (after_call c l))
   \<and> lk_ready (after_call c l) = lk_ready l \<and> lk_sent (after_call c l) = lk_sent l
   \<and> snd ` set (lk_aliases (after_call c l))
       \<subseteq> (set (lk_attached (after_call c l)) \<inter> set (lk_open (after_call c l))) \<union> snd ` set (lk_aliases l)"
proof (cases "rc_method c \<in> {''session.resume'', ''session.create''} \<and> opened c \<noteq> None")
  case True
  then obtain sid where "opened c = Some sid" by auto
  with True attach_aliases [of "rc_method c" "rc_params c" sid "l\<lparr>lk_calls := lk_calls l @ [c]\<rparr>"] show ?thesis
    by (auto simp: after_call_def Let_def attach_simps)
next
  case False
  then show ?thesis by (auto simp: after_call_def Let_def split: option.split)
qed

lemma grown_cover:
  "X \<subseteq> (A' \<inter> B') \<union> Y \<Longrightarrow> Y \<subseteq> (A \<union> T) \<inter> (B \<union> T) \<Longrightarrow> A \<subseteq> A' \<Longrightarrow> B \<subseteq> B' \<Longrightarrow> T \<subseteq> T' \<Longrightarrow> X \<subseteq> (A' \<union> T') \<inter> (B' \<union> T')"
  by blast

lemma passed_kept:
  assumes "resume_ok l" "lk_ready l" "used_ok l c"
  shows "resume_ok (send f (after_call c l))"
proof -
  define l' where "l' = send f (after_call c l)"
  note o = after_call_opened [of l c]
  have sent: "set (lk_sent l) \<subseteq> set (lk_sent l')" using o by (auto simp: l'_def)
  note told = told_mono [OF sent]
  have al: "snd ` set (lk_aliases l) \<subseteq> (set (lk_attached l) \<union> told l) \<inter> (set (lk_open l) \<union> told l)"
    using assms(1,2) by (simp add: resume_ok_def)
  have "\<forall>d \<in> set (lk_calls l'). used_ok l' d"
    using assms(1,3) used_ok_mono [OF sent] by (auto simp: l'_def after_call_calls resume_ok_def)
  moreover have "snd ` set (lk_aliases l') \<subseteq> (set (lk_attached l') \<union> told l') \<inter> (set (lk_open l') \<union> told l')"
    by (rule grown_cover [OF _ al _ _ told]) (use o in \<open>simp_all add: l'_def\<close>)
  ultimately show ?thesis unfolding l'_def [symmetric] by (simp add: resume_ok_def)
qed

lemma resume_ok_step: "resume_ok l \<Longrightarrow> resume_ok (link_step op l)"
proof (cases op)
  case (Receive raw bv answer)
  assume ok: "resume_ok l"
  show ?thesis
  proof (cases rule: request_cases [of l bv answer raw])
    case quiet
    with ok Receive resume_ok_same show ?thesis by auto
  next
    case (passed rid meth params ps reply)
    have "snd ` set (lk_aliases l) \<subseteq> set (lk_open l) \<union> told l" using ok passed(2) by (simp add: resume_ok_def)
    with check_call_passes [OF passed(3)] have "used_ok l (passed_call bv answer meth ps l)"
      unfolding used_ok_def passed_call_def by (simp; blast)
    from passed_kept [OF ok passed(2) this] passed Receive ok show ?thesis by simp
  qed
qed (simp_all add: connect_kept drop_kept gap_kept)

interpretation bl: guarded_store link_step resume_ok
  by unfold_locales (rule resume_ok_step)

lemma resume_ok_run: "resume_ok (fold link_step ops link_start)"
  by (rule bl.run_inv) (simp add: resume_ok_def link_start_def)

text \<open>
  Whatever happens to the upstream, every request passed on, apart from a create or a resume, addresses a
  session that the upstream connection it goes out on has resumed or created, or one the app was told could
  not be resumed again: the sessions of a link are replayed before a new connection is used.
\<close>

theorem bridge_resumed_before_use:
  "c \<in> set (lk_calls (fold link_step ops link_start)) \<Longrightarrow>
   rc_method c \<in> {''session.create'', ''session.resume''} \<or> rc_open c
     \<or> target_of (rc_params c) \<in> told (fold link_step ops link_start)"
  using resume_ok_run [of ops] by (simp add: resume_ok_def used_ok_def)

theorem bridge_resumed_before_use_witness: "rc_open (calls_example ! 1)"
proof -
  have "calls_example ! 1 \<in> set (lk_calls (fold link_step history_example link_start))"
    using calls_example_shape unfolding calls_example_def by (metis Un_iff list.set_intros(1) set_append)
  moreover have "rc_method (calls_example ! 1) = ''prompt.submit''" by code_simp
  moreover have "told (fold link_step history_example link_start) = {}"
  proof -
    have "list_all (\<lambda>f. case f of ResumeFailed t code m d \<Rightarrow> False | _ \<Rightarrow> True) (lk_sent (fold link_step history_example link_start))"
      by code_simp
    then show ?thesis by (auto simp: told_def list_all_iff)
  qed
  ultimately show ?thesis using bridge_resumed_before_use [of "calls_example ! 1" history_example] by auto
qed

section \<open>The worker\<close>

definition reply_count :: "link \<Rightarrow> nat" where
  "reply_count l = length (filter (\<lambda>f. case f of Reply j \<Rightarrow> True | _ \<Rightarrow> False) (lk_sent l))"

fun unhashable :: "json \<Rightarrow> bool" where
  "unhashable (JArr xs) = True"
| "unhashable (JObj kvs) = True"
| "unhashable _ = False"

lemma resume_again_lane: "lk_lane (snd (resume_again sid a l)) = lk_lane l"
  "reply_count (snd (resume_again sid a l)) = reply_count l"
  by (simp_all add: resume_again_def reply_count_def send_def split: rpc_answer.split)

lemma replay_lane: "lk_lane (snd (replay a sids l)) = lk_lane l \<and> reply_count (snd (replay a sids l)) = reply_count l"
proof (induction sids arbitrary: l)
  case (Cons sid sids)
  obtain ok l1 where r: "resume_again sid (a sid) l = (ok, l1)" by fastforce
  with resume_again_lane [where sid = sid and a = "a sid" and l = l] Cons.IH [of l1] show ?case by simp
qed simp

lemma connect_lane: "lk_lane (connect a l) = lk_lane l" "reply_count (connect a l) = reply_count l"
proof -
  obtain kept l1 where r: "replay a (lk_attached l) (l\<lparr>lk_open := [], lk_ready := False\<rparr>) = (kept, l1)" by fastforce
  with replay_lane [of a "lk_attached l" "l\<lparr>lk_open := [], lk_ready := False\<rparr>"]
  have "lk_lane l1 = lk_lane l" "reply_count l1 = reply_count l" by (simp_all add: reply_count_def)
  with r show "lk_lane (connect a l) = lk_lane l" "reply_count (connect a l) = reply_count l"
    by (auto simp: connect_def reply_count_def split: bool.split)
qed

lemma dead_lane_step:
  "\<not> lk_lane l \<Longrightarrow> \<not> lk_lane (link_step op l) \<and> lk_calls (link_step op l) = lk_calls l \<and> reply_count (link_step op l) = reply_count l"
proof (cases op)
  case Drop
  then show "\<not> lk_lane l \<Longrightarrow> ?thesis" by (simp add: drop_upstream_def reply_count_def)
qed (simp_all add: connect_lane connect_same resume_again_lane resume_again_same replay_gap_def)

lemma dead_lane_run: "\<not> lk_lane l \<Longrightarrow> lk_calls (fold link_step ops l) = lk_calls l \<and> reply_count (fold link_step ops l) = reply_count l"
proof (induction ops arbitrary: l)
  case (Cons op ops)
  from dead_lane_step [OF Cons.prems, of op] Cons.IH [of "link_step op l"] show ?case by simp
qed simp

text \<open>
  A frame whose method is a list or an object is never answered and ends the worker of the link: whatever
  is sent after it, no request is passed on or answered again.
\<close>

theorem bridge_lane_death:
  "unhashable (jval ''method'' (JObj kvs)) \<Longrightarrow>
   (\<lambda>l'. (lk_calls l', reply_count l')) (fold link_step ops (link_step (Receive (Some (JObj kvs)) bv answer) l))
     = (lk_calls l, reply_count l)"
proof -
  assume u: "unhashable (jval ''method'' (JObj kvs))"
  define l1 where "l1 = link_step (Receive (Some (JObj kvs)) bv answer) l"
  from u have "\<not> lk_lane l1 \<and> lk_calls l1 = lk_calls l \<and> reply_count l1 = reply_count l"
    unfolding l1_def
    by (cases "jval ''method'' (JObj kvs)") (simp_all add: liveness_frame_def request_def reply_count_def)
  with dead_lane_run [of l1 ops] show ?thesis by (simp add: l1_def)
qed

theorem bridge_lane_death_witness:
  "reply_count (fold link_step history_example
     (link_step (Receive (Some (JObj [(''id'', JInt 1), (''method'', JArr [])])) view_example Lost) link_start)) = 0"
proof -
  have "unhashable (jval ''method'' (JObj [(''id'', JInt 1), (''method'', JArr [])]))" by code_simp
  from bridge_lane_death [OF this, of history_example view_example Lost link_start] show ?thesis
    by (simp add: reply_count_def link_start_def)
qed

end
