(* ===== verification/Utf8_Text.thy ===== *)
theory Utf8_Text
  imports Prelude
begin

text \<open>
  Texts as lists of code points, their UTF-8 bytes, Python's strict decoder, and the cut of a text at a
  number of bytes that \<open>compat/ntfy_notify.py\<close> (\<open>utf8_cut\<close>) and \<open>compat/compat.py\<close> share. A text with
  a lone surrogate has no encoding: the code raises there.
\<close>

type_synonym utext = "nat list"
type_synonym bytes = "nat list"

definition uni :: "string \<Rightarrow> utext" where
  "uni s = map of_char s"

definition scalar :: "nat \<Rightarrow> bool" where
  "scalar c \<longleftrightarrow> c < 0xD800 \<or> (0xE000 \<le> c \<and> c < 0x110000)"

text \<open>Whitespace of Python's \<open>str.split\<close> and \<open>str.strip\<close>.\<close>

definition uspace :: "nat \<Rightarrow> bool" where
  "uspace c \<longleftrightarrow> (9 \<le> c \<and> c \<le> 13) \<or> (28 \<le> c \<and> c \<le> 32) \<or> c \<in> {0x85, 0xA0, 0x1680, 0x2028, 0x2029, 0x202F, 0x205F, 0x3000}
     \<or> (0x2000 \<le> c \<and> c \<le> 0x200A)"

definition ustrip :: "utext \<Rightarrow> utext" where
  "ustrip s = rev (dropWhile uspace (rev (dropWhile uspace s)))"

section \<open>Encoding\<close>

definition enc_char :: "nat \<Rightarrow> bytes" where
  "enc_char c = (if c < 0x80 then [c]
     else if c < 0x800 then [0xC0 + c div 64, 0x80 + c mod 64]
     else if c < 0x10000 then [0xE0 + c div 4096, 0x80 + c div 64 mod 64, 0x80 + c mod 64]
     else [0xF0 + c div 262144, 0x80 + c div 4096 mod 64, 0x80 + c div 64 mod 64, 0x80 + c mod 64])"

definition utf8 :: "utext \<Rightarrow> bytes" where
  "utf8 s = concat (map enc_char s)"

definition encode :: "utext \<Rightarrow> bytes option" where
  "encode s = (if list_all scalar s then Some (utf8 s) else None)"

lemma utf8_simps [simp]: "utf8 [] = []" "utf8 (c # s) = enc_char c @ utf8 s" "utf8 (s @ t) = utf8 s @ utf8 t"
  by (simp_all add: utf8_def)

lemma enc_char_length: "0 < length (enc_char c)" "length (enc_char c) \<le> 4"
  by (simp_all add: enc_char_def)

lemma utf8_ascii: "list_all (\<lambda>c. c < 128) s \<Longrightarrow> utf8 s = s"
  by (induction s) (auto simp: enc_char_def)

section \<open>Decoding\<close>

definition cont :: "nat \<Rightarrow> bool" where
  "cont b \<longleftrightarrow> 0x80 \<le> b \<and> b < 0xC0"

text \<open>One character off the front: no overlong forms, no surrogates, nothing above the last code point.\<close>

fun dec_char :: "bytes \<Rightarrow> (nat \<times> bytes) option" where
  "dec_char [] = None"
| "dec_char (b # bs) =
    (if b < 0x80 then Some (b, bs)
     else if 0xC2 \<le> b \<and> b < 0xE0 then
       (case bs of x # r \<Rightarrow> if cont x then Some ((b - 0xC0) * 64 + (x - 0x80), r) else None | _ \<Rightarrow> None)
     else if 0xE0 \<le> b \<and> b < 0xF0 then
       (case bs of x # y # r \<Rightarrow>
          let c = (b - 0xE0) * 4096 + (x - 0x80) * 64 + (y - 0x80)
          in if cont x \<and> cont y \<and> 0x800 \<le> c \<and> scalar c then Some (c, r) else None
        | _ \<Rightarrow> None)
     else if 0xF0 \<le> b \<and> b < 0xF5 then
       (case bs of x # y # z # r \<Rightarrow>
          let c = (b - 0xF0) * 262144 + (x - 0x80) * 4096 + (y - 0x80) * 64 + (z - 0x80)
          in if cont x \<and> cont y \<and> cont z \<and> 0x10000 \<le> c \<and> scalar c then Some (c, r) else None
        | _ \<Rightarrow> None)
     else None)"

lemma dec_char_shorter: "dec_char bs = Some (c, r) \<Longrightarrow> length r < length bs"
  by (cases bs) (auto simp: Let_def split: if_splits list.splits)

function decode :: "bytes \<Rightarrow> utext option" where
  "decode bs = (if bs = [] then Some [] else case dec_char bs of
     None \<Rightarrow> None
   | Some (c, r) \<Rightarrow> map_option (\<lambda>s. c # s) (decode r))"
  by pat_completeness auto
termination
  by (relation "measure length") (auto dest: dec_char_shorter)

declare decode.simps [simp del]

lemma decode_Nil [simp]: "decode [] = Some []"
  by (simp add: decode.simps)

lemma digits: "(x :: nat) = x div 64 * 64 + x mod 64"
  by simp

text \<open>The four shapes of an encoded character.\<close>

lemma enc_char_cases:
  assumes "scalar c"
  obtains (one) "c < 0x80" "enc_char c = [c]"
  | (two) q m where "2 \<le> q" "q < 32" "m < 64" "c = q * 64 + m" "enc_char c = [0xC0 + q, 0x80 + m]"
  | (three) q m n where "q < 16" "m < 64" "n < 64" "c = q * 4096 + m * 64 + n" "0x800 \<le> c"
      "enc_char c = [0xE0 + q, 0x80 + m, 0x80 + n]"
  | (four) q m n k where "q < 5" "m < 64" "n < 64" "k < 64" "c = q * 262144 + m * 4096 + n * 64 + k" "0x10000 \<le> c"
      "enc_char c = [0xF0 + q, 0x80 + m, 0x80 + n, 0x80 + k]"
proof -
  consider "c < 0x80" | "0x80 \<le> c" "c < 0x800" | "0x800 \<le> c" "c < 0x10000" | "0x10000 \<le> c" "c < 0x110000"
    using assms by (force simp: scalar_def)
  then show ?thesis
  proof cases
    case 1
    then show ?thesis by (intro one) (simp_all add: enc_char_def)
  next
    case 2
    have "2 \<le> c div 64" "c div 64 < 32" "c mod 64 < 64" "c = c div 64 * 64 + c mod 64" using 2 by auto
    then show ?thesis by (rule two) (use 2 in \<open>simp add: enc_char_def\<close>)
  next
    case 3
    have "c div 4096 < 16" "c div 64 mod 64 < 64" "c mod 64 < 64"
      using 3 by linarith+
    moreover have "c div 4096 = c div 64 div 64" using div_mult2_eq [of c 64 64] by simp
    with digits [of c] digits [of "c div 64"] have "c = c div 4096 * 4096 + c div 64 mod 64 * 64 + c mod 64" by linarith
    ultimately show ?thesis using 3(1) by (rule three) (use 3 in \<open>simp add: enc_char_def\<close>)
  next
    case 4
    have "c div 262144 < 5" "c div 4096 mod 64 < 64" "c div 64 mod 64 < 64" "c mod 64 < 64"
      using 4 by linarith+
    moreover have "c div 4096 = c div 64 div 64" "c div 262144 = c div 4096 div 64"
      using div_mult2_eq [of c 64 64] div_mult2_eq [of c 4096 64] by simp_all
    with digits [of c] digits [of "c div 64"] digits [of "c div 4096"] have "c = c div 262144 * 262144 + c div 4096 mod 64 * 4096 + c div 64 mod 64 * 64 + c mod 64" by linarith
    ultimately show ?thesis using 4(1) by (rule four) (use 4 in \<open>simp add: enc_char_def\<close>)
  qed
qed

lemma dec_enc: "scalar c \<Longrightarrow> dec_char (enc_char c @ r) = Some (c, r)"
proof -
  assume s: "scalar c"
  from s show ?thesis
  proof (cases rule: enc_char_cases)
    case (three q m n)
    from three(1-3) have "dec_char (enc_char c @ r)
        = (let d = q * 4096 + m * 64 + n in if 0x800 \<le> d \<and> scalar d then Some (d, r) else None)"
      unfolding three(6) by (simp add: cont_def)
    with three(4,5) s show ?thesis by (simp add: Let_def)
  next
    case (four q m n k)
    from four(1-4) have "dec_char (enc_char c @ r)
        = (let d = q * 262144 + m * 4096 + n * 64 + k in if 0x10000 \<le> d \<and> scalar d then Some (d, r) else None)"
      unfolding four(7) by (simp add: cont_def)
    with four(5,6) s show ?thesis by (simp add: Let_def)
  qed (simp_all add: cont_def)
qed

lemma dec_char_partial:
  "q < 32 \<Longrightarrow> dec_char [0xC0 + q] = None" "q < 16 \<Longrightarrow> dec_char [0xE0 + q] = None" "q < 16 \<Longrightarrow> dec_char [0xE0 + q, x] = None"
  "q < 5 \<Longrightarrow> dec_char [0xF0 + q] = None" "q < 5 \<Longrightarrow> dec_char [0xF0 + q, x] = None" "q < 5 \<Longrightarrow> dec_char [0xF0 + q, x, y] = None"
  by simp_all

lemma dec_part: "scalar c \<Longrightarrow> n < length (enc_char c) \<Longrightarrow> dec_char (take n (enc_char c)) = None"
proof -
  assume n: "n < length (enc_char c)"
  have n4: "n = 0 \<or> n = 1 \<or> n = 2 \<or> n = 3" using n enc_char_length(2) [of c] by linarith
  assume "scalar c"
  then show ?thesis
  proof (cases rule: enc_char_cases)
    case one
    with n show ?thesis by simp
  next
    case (two q m)
    then have "n < 2" using n by simp
    with n4 two show ?thesis by (auto simp del: dec_char.simps(2) simp: dec_char_partial)
  next
    case (three q m n')
    then have "n < 3" using n by simp
    with n4 three show ?thesis by (auto simp del: dec_char.simps(2) simp: dec_char_partial)
  next
    case (four q m n' k)
    with n4 show ?thesis by (auto simp del: dec_char.simps(2) simp: dec_char_partial)
  qed
qed

lemma decode_utf8: "list_all scalar s \<Longrightarrow> decode (utf8 s) = Some s"
proof (induction s)
  case (Cons c s)
  have "enc_char c @ utf8 s \<noteq> []" using enc_char_length(1) [of c] by auto
  with Cons show ?case by (simp add: decode.simps [of "enc_char c @ utf8 s"] dec_enc)
qed simp

section \<open>The cut at a number of bytes\<close>

text \<open>\<open>while True: try: return cut.decode("utf-8") except: cut = cut[:-1]\<close>\<close>

function trim :: "bytes \<Rightarrow> utext" where
  "trim bs = (case decode bs of Some s \<Rightarrow> s | None \<Rightarrow> trim (butlast bs))"
  by pat_completeness auto
termination
proof (relation "measure length")
  fix bs
  assume "decode bs = None"
  then have "bs \<noteq> []" by auto
  then show "(butlast bs, bs) \<in> measure length" by simp
qed simp

declare trim.simps [simp del]

definition utf8_cut :: "utext \<Rightarrow> nat \<Rightarrow> utext option" where
  "utf8_cut s cap = (case encode s of
     None \<Rightarrow> None
   | Some raw \<Rightarrow> Some (if length raw \<le> cap then s else trim (take cap raw)))"

text \<open>The longest part of a text from its front that fits.\<close>

fun fitting :: "nat \<Rightarrow> utext \<Rightarrow> utext" where
  "fitting n [] = []"
| "fitting n (c # s) = (if length (enc_char c) \<le> n then c # fitting (n - length (enc_char c)) s else [])"

lemma fitting_length: "length (utf8 (fitting n s)) \<le> n"
  by (induction n s rule: fitting.induct) auto

lemma fitting_split: "\<exists>r. s = fitting n s @ r \<and> (r = [] \<or> n < length (utf8 (fitting n s @ [hd r])))"
proof (induction n s rule: fitting.induct)
  case (2 n c s)
  show ?case
  proof (cases "length (enc_char c) \<le> n")
    case True
    with 2 obtain r where "s = fitting (n - length (enc_char c)) s @ r"
      "r = [] \<or> n - length (enc_char c) < length (utf8 (fitting (n - length (enc_char c)) s @ [hd r]))" by blast
    with True show ?thesis by (intro exI [of _ r]) auto
  qed auto
qed simp

lemma fitting_all: "length (utf8 s) \<le> n \<Longrightarrow> fitting n s = s"
  by (induction n s rule: fitting.induct) auto

lemma fitting_less: "length (utf8 (fitting (Suc n) s)) \<noteq> Suc n \<Longrightarrow> fitting n s = fitting (Suc n) s"
proof (induction s arbitrary: n)
  case (Cons c s)
  show ?case
  proof (cases "length (enc_char c) \<le> n")
    case True
    then obtain k where k: "Suc n - length (enc_char c) = Suc k" "n - length (enc_char c) = k" by (metis Suc_diff_le)
    with Cons True show ?thesis by auto
  next
    case False
    moreover have "utf8 (fitting 0 s) = []" using fitting_length [of 0 s] by simp
    ultimately show ?thesis using Cons.prems by (cases "length (enc_char c) = Suc n") auto
  qed
qed simp

lemma decode_take:
  "list_all scalar s \<Longrightarrow> n \<le> length (utf8 s)
    \<Longrightarrow> decode (take n (utf8 s)) = (if length (utf8 (fitting n s)) = n then Some (fitting n s) else None)"
proof (induction n s rule: fitting.induct)
  case (2 n c s)
  show ?case
  proof (cases "length (enc_char c) \<le> n")
    case True
    then have t: "take n (utf8 (c # s)) = enc_char c @ take (n - length (enc_char c)) (utf8 s)" by simp
    have "enc_char c @ take (n - length (enc_char c)) (utf8 s) \<noteq> []" using enc_char_length(1) [of c] by auto
    with 2 True show ?thesis unfolding t by (subst decode.simps) (auto simp: dec_enc)
  next
    case False
    then have t: "take n (utf8 (c # s)) = take n (enc_char c)" by simp
    show ?thesis
    proof (cases "n = 0")
      case False
      with enc_char_length(1) [of c] have "take n (enc_char c) \<noteq> []" by (cases "enc_char c"; cases n) auto
      with dec_part [of c n] 2(2) \<open>\<not> length (enc_char c) \<le> n\<close> False show ?thesis
        unfolding t by (subst decode.simps) simp
    qed (use enc_char_length(1) [of c] in simp)
  qed
qed simp

lemma trim_take: "list_all scalar s \<Longrightarrow> n \<le> length (utf8 s) \<Longrightarrow> trim (take n (utf8 s)) = fitting n s"
proof (induction n)
  case 0
  then show ?case by (subst trim.simps) (use enc_char_length(1) in \<open>cases s; fastforce\<close>)
next
  case (Suc n)
  show ?case
  proof (cases "length (utf8 (fitting (Suc n) s)) = Suc n")
    case True
    with Suc.prems show ?thesis by (subst trim.simps) (simp add: decode_take)
  next
    case False
    have "butlast (take (Suc n) (utf8 s)) = take n (utf8 s)" using Suc.prems(2) by (simp add: butlast_take)
    with False Suc fitting_less [OF False] show ?thesis by (subst trim.simps) (simp add: decode_take)
  qed
qed

lemma utf8_cut_fitting: "list_all scalar s \<Longrightarrow> utf8_cut s cap = Some (fitting cap s)"
  by (simp add: utf8_cut_def encode_def fitting_all trim_take)

text \<open>
  A text that is cut at a number of bytes keeps its longest part, from the front, whose encoding fits:
  no character is split and none is lost needlessly. Only a text with a lone surrogate has no result.
\<close>

theorem utf8_cut_longest:
  "if list_all scalar s
   then \<exists>p r. utf8_cut s cap = Some p \<and> s = p @ r \<and> length (utf8 p) \<le> cap
     \<and> (r = [] \<or> cap < length (utf8 (p @ [hd r])))
   else utf8_cut s cap = None"
proof (cases "list_all scalar s")
  case True
  with fitting_split [of s cap] fitting_length [of cap s] show ?thesis by (auto simp: utf8_cut_fitting)
qed (simp add: utf8_cut_def encode_def)

end
