(* ===== verification/Push_Transport.thy ===== *)
theory Push_Transport
  imports Utf8_Text
begin

text \<open>
  \<open>compat/ntfy_notify.py\<close>: the bounded queue of push notifications and what goes into it; and
  \<open>scheme_link\<close> of \<open>compat/notification_events.py\<close>, which makes the link a push carries. The sending
  worker takes jobs off the front; what the hub answers is an argument. A call that raises is \<^const>\<open>None\<close>.
\<close>

section \<open>Links\<close>

definition till :: "(nat \<Rightarrow> bool) \<Rightarrow> utext \<Rightarrow> utext" where
  "till p s = takeWhile (\<lambda>c. \<not> p c) s"

definition from_first :: "(nat \<Rightarrow> bool) \<Rightarrow> utext \<Rightarrow> utext" where
  "from_first p s = dropWhile (\<lambda>c. \<not> p c) s"

definition COLON :: nat where "COLON = 58"
definition SLASH :: nat where "SLASH = 47"
definition QUERY :: nat where "QUERY = 63"
definition HASH :: nat where "HASH = 35"

definition ascii_letter :: "nat \<Rightarrow> bool" where
  "ascii_letter c \<longleftrightarrow> (65 \<le> c \<and> c \<le> 90) \<or> (97 \<le> c \<and> c \<le> 122)"

text \<open>Letters, digits, \<open>+\<close>, \<open>-\<close> and \<open>.\<close>\<close>

definition scheme_char :: "nat \<Rightarrow> bool" where
  "scheme_char c \<longleftrightarrow> ascii_letter c \<or> (48 \<le> c \<and> c \<le> 57) \<or> c \<in> {43, 45, 46}"

definition lower_ascii :: "nat \<Rightarrow> nat" where
  "lower_ascii c = (if 65 \<le> c \<and> c \<le> 90 then c + 32 else c)"

text \<open>
  \<open>urllib.parse.urlsplit\<close>: scheme, netloc, path, query and fragment; \<^const>\<open>None\<close> for a bad netloc.
  Leading control characters and spaces go first, tabs and line ends everywhere. Whether a netloc with both
  brackets, or with characters beyond ASCII, is good is an argument.
\<close>

record url_parts =
  up_scheme :: utext
  up_netloc :: utext
  up_path :: utext
  up_query :: utext
  up_fragment :: utext

definition clean_url :: "utext \<Rightarrow> utext" where
  "clean_url u = filter (\<lambda>c. c \<notin> {9, 10, 13}) (dropWhile (\<lambda>c. c \<le> 32) u)"

definition split_scheme :: "utext \<Rightarrow> utext \<times> utext" where
  "split_scheme u = (let s = till (\<lambda>c. c = COLON) u in
     if COLON \<in> set u \<and> s \<noteq> [] \<and> ascii_letter (hd s) \<and> list_all scheme_char s
     then (map lower_ascii s, drop (length s + 1) u) else ([], u))"

definition split_netloc :: "utext \<Rightarrow> utext \<times> utext" where
  "split_netloc u = (if take 2 u = [SLASH, SLASH]
     then (till (\<lambda>c. c \<in> {SLASH, QUERY, HASH}) (drop 2 u), from_first (\<lambda>c. c \<in> {SLASH, QUERY, HASH}) (drop 2 u)) else ([], u))"

definition urlsplit :: "(utext \<Rightarrow> bool) \<Rightarrow> utext \<Rightarrow> url_parts option" where
  "urlsplit special_ok u0 =
     (let (scheme, u1) = split_scheme (clean_url u0);
          (netloc, u2) = split_netloc u1;
          bare = till (\<lambda>c. c = HASH) u2
      in if (91 \<in> set netloc) \<noteq> (93 \<in> set netloc) then None
         else if (91 \<in> set netloc \<or> \<not> list_all (\<lambda>c. c < 128) netloc) \<and> \<not> special_ok netloc then None
         else Some \<lparr>up_scheme = scheme, up_netloc = netloc, up_path = till (\<lambda>c. c = QUERY) bare,
                up_query = drop 1 (from_first (\<lambda>c. c = QUERY) bare), up_fragment = drop 1 (from_first (\<lambda>c. c = HASH) u2)\<rparr>)"

text \<open>\<open>urlunsplit(("hermes", "link", path, query, fragment))\<close> for a path that starts with a slash.\<close>

definition hermes_url :: "utext \<Rightarrow> utext \<Rightarrow> utext \<Rightarrow> utext" where
  "hermes_url path query fragment =
     uni ''hermes://link'' @ path @ (if query = [] then [] else QUERY # query) @ (if fragment = [] then [] else HASH # fragment)"

definition scheme_link :: "(utext \<Rightarrow> bool) \<Rightarrow> utext \<Rightarrow> utext option" where
  "scheme_link special_ok url = (case urlsplit special_ok url of
     None \<Rightarrow> None
   | Some p \<Rightarrow> if up_scheme p \<noteq> uni ''https'' \<or> up_netloc p = [] then None
       else Some (hermes_url (if up_path p = [] then [SLASH] else up_path p) (up_query p) (up_fragment p)))"

section \<open>The queue\<close>

definition TITLE_CAP :: nat where "TITLE_CAP = 120"
definition TITLE_BYTES :: nat where "TITLE_BYTES = 120"
definition BODY_BYTES :: nat where "BODY_BYTES = 1900"
definition QUEUE_CAP :: nat where "QUEUE_CAP = 128"
definition ECHO_TAG :: string where "ECHO_TAG = ''hermes-agent''"

definition priority_level :: "string \<Rightarrow> int" where
  "priority_level p = (if p = ''urgent'' then 5 else if p = ''high'' then 4 else 3)"

record job =
  jb_json :: bool
  jb_server :: string
  jb_topic :: string
  jb_title :: utext
  jb_message :: utext
  jb_priority :: string
  jb_tags :: "string list"
  jb_click :: "utext option"

definition safe_tags :: "string list \<Rightarrow> string list" where
  "safe_tags tags = ECHO_TAG # filter (\<lambda>t. t \<noteq> [] \<and> t \<noteq> ECHO_TAG) tags"

text \<open>\<open>_ensure_worker\<close> and \<open>put_nowait\<close>; \<open>up\<close> is whether the worker could be started.\<close>

definition put_job :: "bool \<Rightarrow> job \<Rightarrow> job list \<Rightarrow> bool \<times> job list" where
  "put_job up j q = (if up \<and> length q < QUEUE_CAP then (True, q @ [j]) else (False, q))"

definition publish :: "bool \<Rightarrow> string \<Rightarrow> string \<Rightarrow> utext \<Rightarrow> utext \<Rightarrow> string \<Rightarrow> string list \<Rightarrow> job list \<Rightarrow> job list option" where
  "publish up server topic title message priority tags q =
     (if server = [] \<or> topic = [] then Some q
      else case utf8_cut message BODY_BYTES of
        None \<Rightarrow> None
      | Some m \<Rightarrow> Some (snd (put_job up \<lparr>jb_json = False, jb_server = server, jb_topic = topic,
            jb_title = take TITLE_CAP (filter (\<lambda>c. c < 128) title), jb_message = m, jb_priority = priority,
            jb_tags = safe_tags tags, jb_click = None\<rparr> q)))"

text \<open>The link to send and the one to show, when the scheme of the app is enabled; an absent link is empty.\<close>

definition click_targets :: "(utext \<Rightarrow> bool) \<Rightarrow> bool \<Rightarrow> utext \<Rightarrow> utext \<times> utext option" where
  "click_targets special_ok enabled click =
     (if click = [] \<or> \<not> enabled then (click, None)
      else case scheme_link special_ok click of None \<Rightarrow> (click, None) | Some s \<Rightarrow> (s, Some click))"

definition with_link :: "utext \<Rightarrow> utext option \<Rightarrow> utext option" where
  "with_link message fallback = (case fallback of
     None \<Rightarrow> utf8_cut message BODY_BYTES
   | Some url \<Rightarrow> (case encode (10 # url) of
       None \<Rightarrow> None
     | Some raw \<Rightarrow> (case utf8_cut message (BODY_BYTES - length raw) of
         None \<Rightarrow> None
       | Some m \<Rightarrow> utf8_cut (m @ 10 # url) BODY_BYTES)))"

definition publish_json :: "(utext \<Rightarrow> bool) \<Rightarrow> bool \<Rightarrow> bool \<Rightarrow> string \<Rightarrow> string \<Rightarrow> utext \<Rightarrow> utext \<Rightarrow> string \<Rightarrow> string list
    \<Rightarrow> utext \<Rightarrow> job list \<Rightarrow> (bool \<times> job list) option" where
  "publish_json special_ok enabled up server topic title message priority tags click q =
     (if server = [] \<or> topic = [] then Some (False, q)
      else case utf8_cut title TITLE_BYTES of
        None \<Rightarrow> None
      | Some t \<Rightarrow> (let (link, fallback) = click_targets special_ok enabled click in
          case with_link message fallback of
            None \<Rightarrow> None
          | Some m \<Rightarrow> Some (put_job up \<lparr>jb_json = True, jb_server = server, jb_topic = topic, jb_title = t,
              jb_message = m, jb_priority = priority, jb_tags = safe_tags tags,
              jb_click = (if link = [] then None else Some link)\<rparr> q)))"

section \<open>Sending\<close>

text \<open>
  The request of a job: the server alone and a JSON body, or the topic in the address and headers, the
  priority as a number. \<open>click[:1024]\<close> is cut by characters.
\<close>

record request =
  rq_url :: string
  rq_title :: utext
  rq_body :: utext
  rq_priority :: int
  rq_tags :: "string list"
  rq_click :: "utext option"

definition send_request :: "(string \<Rightarrow> string) \<Rightarrow> job \<Rightarrow> request" where
  "send_request quote j = \<lparr>rq_url = (if jb_json j then jb_server j else jb_server j @ ''/'' @ quote (jb_topic j)),
     rq_title = jb_title j, rq_body = jb_message j, rq_priority = priority_level (jb_priority j), rq_tags = jb_tags j,
     rq_click = map_option (take 1024) (jb_click j)\<rparr>"

definition take_job :: "job list \<Rightarrow> job list" where
  "take_job q = drop 1 q"

section \<open>What is in the queue\<close>

datatype push_op =
    Publish bool string string utext utext string "string list"
  | PublishJson "utext \<Rightarrow> bool" bool bool string string utext utext string "string list" utext
  | Take

fun push_step :: "push_op \<Rightarrow> job list \<Rightarrow> job list" where
  "push_step (Publish up server topic title message priority tags) q =
     (case publish up server topic title message priority tags q of None \<Rightarrow> q | Some q' \<Rightarrow> q')"
| "push_step (PublishJson ok enabled up server topic title message priority tags click) q =
     (case publish_json ok enabled up server topic title message priority tags click q of None \<Rightarrow> q | Some (a, q') \<Rightarrow> q')"
| "push_step Take q = take_job q"

definition good_job :: "job \<Rightarrow> bool" where
  "good_job j \<longleftrightarrow> jb_server j \<noteq> [] \<and> jb_topic j \<noteq> []
     \<and> list_all scalar (jb_message j) \<and> length (utf8 (jb_message j)) \<le> BODY_BYTES
     \<and> length (utf8 (jb_title j)) \<le> TITLE_BYTES \<and> (jb_json j \<or> list_all (\<lambda>c. c < 128) (jb_title j))
     \<and> filter (\<lambda>t. t = ECHO_TAG) (jb_tags j) = [ECHO_TAG]"

definition good_queue :: "job list \<Rightarrow> bool" where
  "good_queue q \<longleftrightarrow> length q \<le> QUEUE_CAP \<and> list_all good_job q"

lemma utf8_cut_some: "utf8_cut s n = Some t \<Longrightarrow> list_all scalar t \<and> length (utf8 t) \<le> n \<and> (\<exists>r. s = t @ r)"
proof -
  assume cut: "utf8_cut s n = Some t"
  then have "list_all scalar s" by (auto simp: utf8_cut_def encode_def split: if_splits option.splits)
  with cut have t: "t = fitting n s" "list_all scalar s" by (simp_all add: utf8_cut_fitting)
  with fitting_split [of s n] fitting_length [of n s] show ?thesis by (metis list_all_append)
qed

lemma with_link_ok: "with_link m f = Some b \<Longrightarrow> list_all scalar b \<and> length (utf8 b) \<le> BODY_BYTES"
  by (auto simp: with_link_def dest: utf8_cut_some split: option.splits)

lemma safe_tags_echo: "filter (\<lambda>t. t = ECHO_TAG) (safe_tags tags) = [ECHO_TAG]"
  by (auto simp: safe_tags_def filter_empty_conv)

lemma ascii_title: "length (utf8 (take n (filter (\<lambda>c. c < 128) s))) \<le> n \<and> list_all (\<lambda>c. c < 128) (take n (filter (\<lambda>c. c < 128) s))"
proof -
  have a: "list_all (\<lambda>c. c < 128) (take n (filter (\<lambda>c. c < 128) s))"
    by (auto simp: list_all_iff dest: in_set_takeD)
  then show ?thesis by (simp add: utf8_ascii)
qed

lemma put_job_good: "good_queue q \<Longrightarrow> good_job j \<Longrightarrow> good_queue (snd (put_job up j q))"
  by (auto simp: put_job_def good_queue_def)

lemma publish_good: "good_queue q \<Longrightarrow> publish up server topic title message priority tags q = Some q' \<Longrightarrow> good_queue q'"
  using ascii_title [of TITLE_CAP title] safe_tags_echo [of tags]
  by (auto simp: publish_def TITLE_CAP_def TITLE_BYTES_def good_job_def dest: utf8_cut_some split: if_splits option.splits
      intro!: put_job_good)

lemma publish_json_good:
  "good_queue q \<Longrightarrow> publish_json ok enabled up server topic title message priority tags click q = Some (a, q') \<Longrightarrow> good_queue q'"
proof -
  assume q: "good_queue q" and p: "publish_json ok enabled up server topic title message priority tags click q = Some (a, q')"
  show ?thesis
  proof (cases "server = [] \<or> topic = []")
    case True
    with p q show ?thesis by (auto simp: publish_json_def)
  next
    case False
    with p obtain t where t: "utf8_cut title TITLE_BYTES = Some t" by (auto simp: publish_json_def split: option.splits)
    obtain link fallback where l: "click_targets ok enabled click = (link, fallback)" by fastforce
    with p False t obtain m where m: "with_link message fallback = Some m"
      by (auto simp: publish_json_def split: option.splits)
    define j where "j = \<lparr>jb_json = True, jb_server = server, jb_topic = topic, jb_title = t,
      jb_message = m, jb_priority = priority, jb_tags = safe_tags tags, jb_click = (if link = [] then None else Some link)\<rparr>"
    have "q' = snd (put_job up j q)" using p False t l m by (auto simp: publish_json_def j_def)
    moreover have "good_job j"
      using False utf8_cut_some [OF t] with_link_ok [OF m] safe_tags_echo [of tags] by (auto simp: good_job_def j_def)
    ultimately show ?thesis using put_job_good [OF q] by simp
  qed
qed

interpretation pq: guarded_store push_step good_queue
proof
  fix q op
  assume q: "good_queue q"
  show "good_queue (push_step op q)"
  proof (cases op)
    case Take
    with q show ?thesis by (auto simp: take_job_def good_queue_def list_all_iff dest: in_set_dropD)
  qed (use q in \<open>auto split: option.split dest: publish_good publish_json_good\<close>)
qed

text \<open>
  Whatever is published and sent, the queue holds at most 128 jobs, and the body of each is at most 1900
  bytes of whole characters, its title at most 120 bytes (ASCII where it goes into a header), and the echo
  tag is on it exactly once.
\<close>

theorem push_queue_bounded: "good_queue (fold push_step ops [])"
  by (rule pq.run_inv) (simp add: good_queue_def)

section \<open>The link in the body\<close>

text \<open>
  With a fallback link of fewer than 1900 bytes the body is as much of the message as there is room for,
  a line end, and the whole link.
\<close>

theorem push_link_kept:
  "list_all scalar (message @ url) \<Longrightarrow> length (utf8 url) < BODY_BYTES \<Longrightarrow>
   with_link message (Some url) = Some (fitting (BODY_BYTES - 1 - length (utf8 url)) message @ 10 # url)"
proof -
  assume s: "list_all scalar (message @ url)" and u: "length (utf8 url) < BODY_BYTES"
  define m where "m = fitting (BODY_BYTES - 1 - length (utf8 url)) message"
  have nl: "utf8 (10 # url) = 10 # utf8 url" "scalar 10" by (simp_all add: enc_char_def scalar_def)
  have e: "encode (10 # url) = Some (10 # utf8 url)" using s nl by (simp add: encode_def del: utf8_simps)
  have "utf8_cut message (BODY_BYTES - length (10 # utf8 url)) = Some m"
    using s by (simp add: utf8_cut_fitting m_def)
  moreover have "length (utf8 (m @ 10 # url)) \<le> BODY_BYTES"
    using u fitting_length [of "BODY_BYTES - 1 - length (utf8 url)" message] by (simp add: m_def enc_char_def)
  moreover have "list_all scalar (m @ 10 # url)"
    using s nl(2) fitting_split [of message "BODY_BYTES - 1 - length (utf8 url)"] m_def by (metis list_all_append list.pred_inject(2))
  ultimately show ?thesis using e by (simp add: with_link_def utf8_cut_fitting fitting_all m_def)
qed

theorem push_link_kept_witness:
  "with_link (uni ''done'') (Some (uni ''https://h/'')) = Some (uni ''done'' @ 10 # uni ''https://h/'')"
  using push_link_kept [of "uni ''done''" "uni ''https://h/''"]
  by (simp add: uni_def scalar_def BODY_BYTES_def enc_char_def)

end
