(* ===== verification/Push_Link.thy ===== *)
theory Push_Link
  imports Push_Transport Notification_Events
begin

text \<open>
  The link of a notification (\<open>run_link\<close>) under the scheme of the app (\<open>scheme_link\<close>): path, query and
  fragment go over verbatim.
\<close>

definition link_char :: "nat \<Rightarrow> bool" where
  "link_char c \<longleftrightarrow> 32 < c"

definition host_char :: "nat \<Rightarrow> bool" where
  "host_char c \<longleftrightarrow> 32 < c \<and> c < 128 \<and> c \<notin> {SLASH, QUERY, HASH, 91, 93}"

definition path_char :: "nat \<Rightarrow> bool" where
  "path_char c \<longleftrightarrow> 32 < c \<and> c \<notin> {QUERY, HASH}"

lemma clean_id: "list_all link_char u \<Longrightarrow> clean_url u = u"
proof -
  assume u: "list_all link_char u"
  then have "dropWhile (\<lambda>c. c \<le> 32) u = u" by (cases u) (auto simp: link_char_def)
  moreover have "filter (\<lambda>c. c \<notin> {9, 10, 13}) u = u" using u by (induction u) (auto simp: link_char_def)
  ultimately show ?thesis by (simp add: clean_url_def)
qed

lemma https_scheme: "split_scheme (uni ''https://'' @ u) = (uni ''https'', SLASH # SLASH # u)"
  by (simp add: split_scheme_def uni_def till_def COLON_def SLASH_def scheme_char_def ascii_letter_def lower_ascii_def Let_def)

lemma till_append: "list_all (\<lambda>c. \<not> p c) s \<Longrightarrow> t = [] \<or> p (hd t) \<Longrightarrow> till p (s @ t) = s \<and> from_first p (s @ t) = t"
  by (induction s) (cases t; auto simp: till_def from_first_def)+

definition tail_ok :: "nat \<Rightarrow> utext \<Rightarrow> bool" where
  "tail_ok c t \<longleftrightarrow> t = [] \<or> (hd t = c \<and> tl t \<noteq> [])"

lemma urlsplit_https:
  assumes "list_all host_char host" "list_all path_char path" "path = [] \<or> hd path = SLASH"
    "tail_ok HASH f" "list_all link_char f"
  shows "urlsplit ok (uni ''https://'' @ host @ path @ f)
    = Some \<lparr>up_scheme = uni ''https'', up_netloc = host, up_path = path, up_query = [], up_fragment = drop 1 f\<rparr>"
proof -
  define rest where "rest = path @ f"
  have "list_all link_char (uni ''https://'' @ host @ rest)"
    using assms by (auto simp: rest_def uni_def link_char_def host_char_def path_char_def list_all_iff)
  then have c: "clean_url (uni ''https://'' @ host @ rest) = uni ''https://'' @ host @ rest" by (rule clean_id)
  have h: "list_all (\<lambda>c. c \<notin> {SLASH, QUERY, HASH}) host" using assms(1) by (simp add: host_char_def list_all_iff)
  have r: "rest = [] \<or> hd rest \<in> {SLASH, QUERY, HASH}"
    using assms(3,4) by (cases path) (auto simp: rest_def tail_ok_def)
  have n: "split_netloc (SLASH # SLASH # host @ rest) = (host, rest)"
    using till_append [of "\<lambda>c. c \<in> {SLASH, QUERY, HASH}" host rest] h r by (simp add: split_netloc_def)
  have p1: "list_all (\<lambda>c. c \<noteq> HASH) path" and p2: "list_all (\<lambda>c. c \<noteq> QUERY) path"
    using assms(2) by (auto simp: path_char_def list_all_iff)
  have f: "till (\<lambda>c. c = HASH) rest = path" "from_first (\<lambda>c. c = HASH) rest = f"
    using till_append [of "\<lambda>c. c = HASH" path f] p1 assms(4) by (auto simp: rest_def tail_ok_def)
  have q: "till (\<lambda>c. c = QUERY) path = path" "from_first (\<lambda>c. c = QUERY) path = []"
    using till_append [of "\<lambda>c. c = QUERY" path "[]"] p2 by simp_all
  have b: "91 \<notin> set host" "93 \<notin> set host" "list_all (\<lambda>c. c < 128) host"
    using assms(1) by (auto simp: host_char_def list_all_iff)
  show ?thesis
    unfolding rest_def [symmetric] urlsplit_def c https_scheme Let_def prod.case n f q using b by simp
qed

lemma scheme_link_https:
  assumes "host \<noteq> []" "list_all host_char host" "list_all path_char path" "path = [] \<or> hd path = SLASH"
    "tail_ok HASH f" "list_all link_char f"
  shows "scheme_link ok (uni ''https://'' @ host @ path @ f)
    = Some (uni ''hermes://link'' @ (if path = [] then [SLASH] else path) @ f)"
proof -
  have "(if drop 1 f = [] then [] else HASH # drop 1 f) = f"
    using assms(5) by (cases f) (auto simp: tail_ok_def)
  with assms(1) urlsplit_https [OF assms(2-6), of ok] show ?thesis
    by (simp only: scheme_link_def hermes_url_def option.case url_parts.simps if_False) simp
qed

lemma uni_append [simp]: "uni (s @ t) = uni s @ uni t"
  by (simp add: uni_def)

lemma hex_link: "n < 16 \<Longrightarrow> link_char (of_char (hex_of n))"
  by (simp add: hex_of_def link_char_def)

lemma quote_link: "list_all link_char (uni (quote s))"
proof -
  have h: "(of_char c :: nat) div 16 < 16" for c :: char using of_char_less [of c] by linarith
  have "link_char (of_char d)" if "d \<in> set (quote_char c)" for c d
  proof (cases "unreserved c")
    case True
    with that show ?thesis by (auto simp: quote_char_def unreserved_def link_char_def Let_def)
  next
    case False
    have "link_char (of_char (CHR ''%''))" by (simp add: link_char_def)
    with False that hex_link [OF h [of c]] hex_link [of "of_char c mod 16"] show ?thesis by (auto simp: quote_char_def)
  qed
  then show ?thesis by (auto simp: quote_def uni_def list_all_iff)
qed

lemma join_link: "link_char (of_char c) \<Longrightarrow> list_all (\<lambda>p. list_all link_char (uni p)) ps \<Longrightarrow> list_all link_char (uni (join_with c ps))"
  by (induction c ps rule: join_with.induct) (auto simp: uni_def)

lemma link_fields_keys: "(k, v) \<in> set (link_fields sid rid eid req) \<Longrightarrow> list_all link_char (uni k)"
  by (auto simp: link_fields_def uni_def link_char_def split: if_splits option.splits)

text \<open>
  The link an app opens from a push is the run link of the event with \<open>hermes://link\<close> in place of the
  https origin: the path of the entry, the session, run, event and request stay as they are.
\<close>

theorem push_click_same_link:
  assumes "host \<noteq> []" "list_all host_char (uni host)" "list_all path_char (uni base)" "base = [] \<or> hd base = CHR ''/''"
  shows "scheme_link ok (uni (run_link (''https://'' @ host @ base) sid rid eid req))
    = Some (uni (run_link (''hermes://link'' @ base) sid rid eid req))"
proof -
  define parts where "parts = map (\<lambda>(k, v). k @ CHR ''='' # quote v) (link_fields sid rid eid req)"
  define f where "f = uni (''#/chat'' @ (if parts = [] then [] else CHR ''?'' # join_with CHR ''&'' parts))"
  have run: "run_link b sid rid eid req = b @ ''/'' @ ''#/chat'' @ (if parts = [] then [] else CHR ''?'' # join_with CHR ''&'' parts)" for b
    by (simp add: run_link_def parts_def Let_def)
  have "list_all (\<lambda>p. list_all link_char (uni p)) parts"
    using link_fields_keys [of _ _ sid rid eid req] quote_link
    by (auto simp: parts_def list_all_iff uni_def link_char_def)
  then have fl: "list_all link_char f" using join_link [of "CHR ''&''" parts] by (simp add: f_def uni_def link_char_def)
  have ft: "tail_ok HASH f" by (simp add: f_def uni_def tail_ok_def HASH_def)
  have p: "list_all path_char (uni base @ [SLASH])" "uni base @ [SLASH] = [] \<or> hd (uni base @ [SLASH]) = SLASH"
    using assms(3,4) by (cases base; simp add: path_char_def SLASH_def QUERY_def HASH_def uni_def)+
  have "uni ''/'' = [SLASH]" by (simp add: uni_def SLASH_def)
  then have u: "uni (run_link (''https://'' @ host @ base) sid rid eid req) = uni ''https://'' @ uni host @ (uni base @ [SLASH]) @ f"
    "uni (run_link (''hermes://link'' @ base) sid rid eid req) = uni ''hermes://link'' @ (uni base @ [SLASH]) @ f"
    unfolding run f_def by (simp_all add: uni_def)
  have "uni host \<noteq> []" using assms(1) by (simp add: uni_def)
  from scheme_link_https [OF this assms(2) p ft fl, of ok] show ?thesis unfolding u by simp
qed

theorem push_click_same_link_witness:
  "scheme_link (\<lambda>_. False) (uni (run_link (''https://'' @ ''h.ts.net'' @ ''/app'') (Some ''s 1'') (Some ''r'') None None))
    = Some (uni (run_link (''hermes://link'' @ ''/app'') (Some ''s 1'') (Some ''r'') None None))"
  by (rule push_click_same_link)
    (simp_all add: uni_def host_char_def path_char_def SLASH_def QUERY_def HASH_def)

end
