(* ===== verification/Approval_Push.thy ===== *)
theory Approval_Push
  imports Push_Transport
begin

text \<open>
  \<open>compat/approval_push.py\<close>: the push for a pending approval, at once and again near its deadline. A card
  is what the module reads of a registry entry; what the notification ledger, the settings, the core's queue
  and the timers answer is an argument. A call that raises is \<^const>\<open>None\<close>.
\<close>

section \<open>Texts\<close>

datatype lang = ZhTW | En

definition REMINDER_LEAD_CAP :: time where "REMINDER_LEAD_CAP = 60"
definition SUMMARY_CHARS :: nat where "SUMMARY_CHARS = 60"
definition DESCRIPTION_CAPS :: "nat list" where "DESCRIPTION_CAPS = [160, 80, 40, 0]"
definition RUN_ID_SHORT_CHARS :: nat where "RUN_ID_SHORT_CHARS = 8"

definition TITLE :: "lang \<Rightarrow> utext" where
  "TITLE l = (case l of ZhTW \<Rightarrow> uni ''Hermes '' @ [0x5F85, 0x6838, 0x51C6, 0xFF5C] | En \<Rightarrow> uni ''Hermes approval | '')"

definition TITLE_REMINDER :: "lang \<Rightarrow> utext" where
  "TITLE_REMINDER l = (case l of ZhTW \<Rightarrow> uni ''Hermes '' @ [0x6838, 0x51C6, 0x5373, 0x5C07, 0x903E, 0x6642, 0xFF5C]
     | En \<Rightarrow> uni ''Hermes approval expiring | '')"

definition TITLE_BAR :: "lang \<Rightarrow> utext" where
  "TITLE_BAR l = (case l of ZhTW \<Rightarrow> [0xFF5C] | En \<Rightarrow> uni '' | '')"

definition choice_label :: "lang \<Rightarrow> utext \<Rightarrow> utext" where
  "choice_label l c =
     (if c = uni ''once'' then (case l of ZhTW \<Rightarrow> [0x5141, 0x8A31, 0x4E00, 0x6B21] | En \<Rightarrow> uni ''Allow once'')
      else if c = uni ''session'' then (case l of ZhTW \<Rightarrow> [0x672C, 0x6B21, 0x5C0D, 0x8A71, 0x90FD, 0x5141, 0x8A31]
        | En \<Rightarrow> uni ''Allow for this conversation'')
      else if c = uni ''always'' then (case l of ZhTW \<Rightarrow> [0x4E00, 0x5F8B, 0x5141, 0x8A31] | En \<Rightarrow> uni ''Always allow'')
      else if c = uni ''deny'' then (case l of ZhTW \<Rightarrow> [0x62D2, 0x7D55] | En \<Rightarrow> uni ''Deny'')
      else c)"

fun joined :: "utext \<Rightarrow> utext list \<Rightarrow> utext" where
  "joined sep [] = []"
| "joined sep [p] = p"
| "joined sep (p # ps) = p @ sep @ joined sep ps"

definition choices_line :: "lang \<Rightarrow> utext list \<Rightarrow> utext" where
  "choices_line l cs = (let names = map (choice_label l) cs in case l of
     ZhTW \<Rightarrow> [0x53EF, 0x9078, 0xFF1A] @ joined [0x3001] names
   | En \<Rightarrow> uni ''Choices: '' @ joined (uni '', '') names)"

definition remaining_line :: "lang \<Rightarrow> int \<Rightarrow> utext" where
  "remaining_line l n = (case l of ZhTW \<Rightarrow> [0x7D04, 0x5269] @ uni '' '' @ uni (show_int n) @ uni '' '' @ [0x79D2]
     | En \<Rightarrow> uni ''About '' @ uni (show_int n) @ uni '' seconds left'')"

definition policy_line :: "lang \<Rightarrow> utext" where
  "policy_line l = (case l of ZhTW \<Rightarrow> [0x672A, 0x56DE, 0x8986, 0x5C07, 0x4E0D, 0x57F7, 0x884C, 0x6B64, 0x52D5, 0x4F5C]
     | En \<Rightarrow> uni ''This action will not run without a response'')"

definition open_line :: "lang \<Rightarrow> utext" where
  "open_line l = (case l of ZhTW \<Rightarrow> [0x6253, 0x958B] @ uni '' Hermes App '' @ [0x6838, 0x51C6]
     | En \<Rightarrow> uni ''Open Hermes App to respond'')"

function uwords :: "utext \<Rightarrow> utext list" where
  "uwords [] = []"
| "uwords (c # s) = (if uspace c then uwords s
     else (c # takeWhile (\<lambda>d. \<not> uspace d) s) # uwords (dropWhile (\<lambda>d. \<not> uspace d) s))"
  by pat_completeness auto
termination
  by (relation "measure length") (auto intro: le_imp_less_Suc length_dropWhile_le)

definition sanitize_inline :: "utext \<Rightarrow> nat \<Rightarrow> utext" where
  "sanitize_inline s cap = take cap (joined (uni '' '') (uwords s))"

definition normalize_locale :: "utext \<Rightarrow> lang" where
  "normalize_locale v = (if take 2 (map lower_ascii (dropWhile uspace v)) = uni ''en'' then En else ZhTW)"

definition reminder_delay :: "time option \<Rightarrow> time option" where
  "reminder_delay timeout = (case timeout of
     None \<Rightarrow> None
   | Some t \<Rightarrow> if t \<le> 0 then None else Some (max 0 (t - min REMINDER_LEAD_CAP (t / 2))))"

definition run_short :: "utext \<Rightarrow> utext" where
  "run_short rid = (let t = (if take 4 rid = uni ''run_'' then drop 4 rid else rid);
      s = take RUN_ID_SHORT_CHARS t in if s = [] then uni ''?'' else s)"

section \<open>One notification\<close>

record card =
  cd_run :: utext
  cd_description :: utext
  cd_pattern :: utext
  cd_choices :: "utext list"
  cd_created :: time
  cd_timeout :: time

text \<open>Python's \<open>int(x)\<close> of a float.\<close>

definition trunc_int :: "time \<Rightarrow> int" where
  "trunc_int x = (if 0 \<le> x then \<lfloor>x\<rfloor> else \<lceil>x\<rceil>)"

definition summary_of :: "card \<Rightarrow> utext" where
  "summary_of c = (let s = sanitize_inline (if cd_description c \<noteq> [] then cd_description c else cd_pattern c) SUMMARY_CHARS
     in if s = [] then uni ''action'' else s)"

definition title_of :: "lang \<Rightarrow> bool \<Rightarrow> card \<Rightarrow> utext" where
  "title_of l initial c = (if initial then TITLE l else TITLE_REMINDER l) @ summary_of c @ TITLE_BAR l @ run_short (cd_run c)"

definition tail_of :: "lang \<Rightarrow> time \<Rightarrow> card \<Rightarrow> utext" where
  "tail_of l now c = joined [10] [choices_line l (cd_choices c),
     remaining_line l (max 0 (trunc_int (cd_created c + cd_timeout c - now) + 1)), policy_line l, open_line l]"

definition body_with :: "lang \<Rightarrow> time \<Rightarrow> card \<Rightarrow> nat \<Rightarrow> utext" where
  "body_with l now c cap = (let cut = sanitize_inline (cd_description c) cap
     in joined [10] ([summary_of c] @ (if cut = [] then [] else [cut]) @ [tail_of l now c]))"

text \<open>The first body that fits, else the last one; encoding one that has a lone surrogate raises.\<close>

fun choose_body :: "(nat \<Rightarrow> utext) \<Rightarrow> nat list \<Rightarrow> utext option" where
  "choose_body f [] = None"
| "choose_body f (cap # caps) = (case encode (f cap) of
     None \<Rightarrow> None
   | Some raw \<Rightarrow> if length raw \<le> BODY_BYTES \<or> caps = [] then Some (f cap) else choose_body f caps)"

definition compose :: "lang \<Rightarrow> bool \<Rightarrow> time \<Rightarrow> card \<Rightarrow> (utext \<times> utext) option" where
  "compose l initial now c = (case choose_body (body_with l now c) DESCRIPTION_CAPS of
     None \<Rightarrow> None
   | Some body \<Rightarrow> (case (utf8_cut (title_of l initial c) TITLE_BYTES, utf8_cut body BODY_BYTES) of
       (Some t, Some b) \<Rightarrow> Some (t, b)
     | _ \<Rightarrow> None))"

section \<open>The dispatcher\<close>

record push_metrics =
  pm_enqueued :: nat
  pm_dropped :: nat
  pm_dropped_config :: nat
  pm_dropped_queue :: nat
  pm_dispatch_error :: nat
  pm_send_success :: nat
  pm_send_fail :: nat

record push_center =
  pc_queue :: "job list"
  pc_metrics :: push_metrics

text \<open>
  What a publication meets: the answer of the notification ledger, if there is one, with whether it called
  the publication it was given; the settings (server, topic, locale), the clock, the link (empty when making
  it failed), and the transport.
\<close>

datatype gate = NoGate | NotHandled | Handled bool bool

record push_env =
  pe_gate :: gate
  pe_settings :: "(string \<times> string \<times> utext) option"
  pe_now :: time
  pe_link :: utext
  pe_special :: "utext \<Rightarrow> bool"
  pe_scheme :: bool
  pe_up :: bool

definition bump_dropped_config :: "push_metrics \<Rightarrow> push_metrics" where
  "bump_dropped_config m = m\<lparr>pm_dropped := pm_dropped m + 1, pm_dropped_config := pm_dropped_config m + 1\<rparr>"

definition bump_accepted :: "bool \<Rightarrow> push_metrics \<Rightarrow> push_metrics" where
  "bump_accepted accepted m = (if accepted then m\<lparr>pm_enqueued := pm_enqueued m + 1\<rparr>
     else m\<lparr>pm_dropped := pm_dropped m + 1, pm_dropped_queue := pm_dropped_queue m + 1\<rparr>)"

definition publish_plain :: "push_env \<Rightarrow> bool \<Rightarrow> card \<Rightarrow> push_center \<Rightarrow> (bool \<times> push_center) option" where
  "publish_plain e initial c pc = (case pe_settings e of
     None \<Rightarrow> Some (False, pc\<lparr>pc_metrics := bump_dropped_config (pc_metrics pc)\<rparr>)
   | Some (server, topic, loc) \<Rightarrow> (case compose (normalize_locale loc) initial (pe_now e) c of
       None \<Rightarrow> None
     | Some (title, body) \<Rightarrow>
         (case publish_json (pe_special e) (pe_scheme e) (pe_up e) server topic title body ''high'' [''warning''] (pe_link e)
             (pc_queue pc) of
           None \<Rightarrow> None
         | Some (accepted, q) \<Rightarrow>
             Some (accepted, pc\<lparr>pc_queue := q, pc_metrics := bump_accepted accepted (pc_metrics pc)\<rparr>))))"

definition publish_card :: "push_env \<Rightarrow> bool \<Rightarrow> card \<Rightarrow> push_center \<Rightarrow> (bool \<times> push_center) option" where
  "publish_card e initial c pc = (case pe_gate e of
     Handled ok called \<Rightarrow> Some (ok, if called then (case publish_plain e initial c pc of None \<Rightarrow> pc | Some (_, pc') \<Rightarrow> pc') else pc)
   | _ \<Rightarrow> publish_plain e initial c pc)"

definition on_result :: "bool \<Rightarrow> push_center \<Rightarrow> push_center" where
  "on_result ok pc = pc\<lparr>pc_metrics := (if ok then (pc_metrics pc)\<lparr>pm_send_success := pm_send_success (pc_metrics pc) + 1\<rparr>
     else (pc_metrics pc)\<lparr>pm_send_fail := pm_send_fail (pc_metrics pc) + 1\<rparr>)\<rparr>"

text \<open>A card under dispatch: which phases were pushed, the timers that were started, and the registry's own flags.\<close>

record tracked =
  tr_card :: card
  tr_initial :: bool
  tr_reminder :: bool
  tr_timers :: "time list"
  tr_pending :: bool
  tr_center :: push_center

definition dispatch :: "bool \<Rightarrow> time option \<Rightarrow> push_env \<Rightarrow> tracked \<Rightarrow> tracked" where
  "dispatch shut timeout e t =
     (if shut \<or> tr_initial t then t
      else case publish_card e True (tr_card t) (tr_center t) of
        None \<Rightarrow> t\<lparr>tr_center := (tr_center t)\<lparr>pc_metrics := (pc_metrics (tr_center t))
            \<lparr>pm_dispatch_error := pm_dispatch_error (pc_metrics (tr_center t)) + 1\<rparr>\<rparr>\<rparr>
      | Some (ok, pc) \<Rightarrow> t\<lparr>tr_initial := ok, tr_center := pc,
            tr_timers := tr_timers t @ (case reminder_delay timeout of None \<Rightarrow> [] | Some d \<Rightarrow> [d])\<rparr>)"

text \<open>A fired timer: \<open>queued\<close> is \<^const>\<open>None\<close> when reading the queue of the core raises; \<open>now\<close> is the first clock reading.\<close>

definition fire :: "bool \<Rightarrow> bool option \<Rightarrow> bool \<Rightarrow> time \<Rightarrow> push_env \<Rightarrow> tracked \<Rightarrow> tracked" where
  "fire shut queued running now e t =
     (if \<not> tr_pending t \<or> shut \<or> queued \<noteq> Some True \<or> \<not> running then t
      else if cd_created (tr_card t) + cd_timeout (tr_card t) - now < 1 \<or> tr_reminder t then t
      else case publish_card e False (tr_card t) (tr_center t) of
        None \<Rightarrow> t
      | Some (ok, pc) \<Rightarrow> t\<lparr>tr_reminder := ok, tr_center := pc\<rparr>)"

section \<open>What a body keeps\<close>

lemma body_frame:
  "\<exists>mid. body_with l now c cap = summary_of c @ mid @ 10 # tail_of l now c"
proof (cases "sanitize_inline (cd_description c) cap")
  case Nil
  then show ?thesis by (intro exI [of _ "[]"]) (simp add: body_with_def Let_def)
next
  case (Cons d ds)
  then show ?thesis by (intro exI [of _ "10 # d # ds"]) (simp add: body_with_def Let_def)
qed

lemma body_zero: "body_with l now c 0 = summary_of c @ 10 # tail_of l now c"
  by (simp add: body_with_def sanitize_inline_def)

lemma choose_body_frame:
  "choose_body f caps = Some b \<Longrightarrow> \<exists>cap \<in> set caps. b = f cap \<and> list_all scalar b \<and> (length (utf8 b) \<le> BODY_BYTES \<or> cap = last caps)"
proof (induction f caps rule: choose_body.induct)
  case (2 f cap caps)
  then obtain raw where r: "encode (f cap) = Some raw" by (auto split: option.splits)
  then have "list_all scalar (f cap)" "raw = utf8 (f cap)" by (auto simp: encode_def split: if_splits)
  with 2 r show ?case by (auto split: if_splits)
qed simp

text \<open>
  A composed notification keeps its title within 120 and its body within 1900 bytes, and when the summary
  and the lines with the choices and the seconds left fit into that, the body starts with the summary and ends
  with those lines, however long the description is.
\<close>

theorem approval_push_keeps_tail:
  assumes "compose l initial now c = Some (t, b)"
    "length (utf8 (summary_of c @ 10 # tail_of l now c)) \<le> BODY_BYTES"
  shows "length (utf8 t) \<le> TITLE_BYTES \<and> length (utf8 b) \<le> BODY_BYTES
    \<and> (\<exists>mid. b = summary_of c @ mid @ 10 # tail_of l now c)"
proof -
  from assms(1) obtain b0 where b0: "choose_body (body_with l now c) DESCRIPTION_CAPS = Some b0"
    and t: "utf8_cut (title_of l initial c) TITLE_BYTES = Some t" and b: "utf8_cut b0 BODY_BYTES = Some b"
    by (auto simp: compose_def split: option.splits prod.splits)
  from choose_body_frame [OF b0] obtain cap where cap: "b0 = body_with l now c cap" "list_all scalar b0"
    "length (utf8 b0) \<le> BODY_BYTES \<or> cap = 0" by (auto simp: DESCRIPTION_CAPS_def)
  then have fits: "length (utf8 b0) \<le> BODY_BYTES" using assms(2) body_zero [of l now c] by auto
  then have "b = b0" using b cap(2) by (simp add: utf8_cut_fitting fitting_all)
  with fits cap(1) body_frame [of l now c cap] utf8_cut_some [OF t] show ?thesis by blast
qed

definition card_example :: card where
  "card_example = \<lparr>cd_run = uni ''run_1'', cd_description = uni ''delete  it'', cd_pattern = [], cd_choices = [uni ''once''],
     cd_created = 0, cd_timeout = 30\<rparr>"

lemma show_31: "show_int 31 = ''31''"
  by code_simp

lemma tail_example: "tail_of En 0 card_example = uni (''Choices: Allow once'' @ [CHR 0x0A] @ ''About 31 seconds left'' @ [CHR 0x0A]
    @ ''This action will not run without a response'' @ [CHR 0x0A] @ ''Open Hermes App to respond'')"
  by (simp add: tail_of_def card_example_def trunc_int_def choices_line_def choice_label_def remaining_line_def policy_line_def
      open_line_def uni_def show_31)

lemma summary_example: "summary_of card_example = uni ''delete it''"
  by (simp add: summary_of_def sanitize_inline_def card_example_def uni_def uspace_def SUMMARY_CHARS_def)

theorem approval_push_keeps_tail_witness:
  "\<exists>t b mid. compose En True 0 card_example = Some (t, b) \<and> b = uni ''delete it'' @ mid @ 10 # tail_of En 0 card_example"
proof -
  have fits: "length (utf8 (summary_of card_example @ 10 # tail_of En 0 card_example)) \<le> BODY_BYTES"
    unfolding summary_example tail_example by (simp add: uni_def enc_char_def BODY_BYTES_def)
  have "sanitize_inline (cd_description card_example) 160 = uni ''delete it''"
    by (simp add: sanitize_inline_def card_example_def uni_def uspace_def)
  then have body: "body_with En 0 card_example 160 = uni ''delete it'' @ 10 # uni ''delete it'' @ 10 # tail_of En 0 card_example"
    by (simp add: body_with_def summary_example uni_def)
  have "encode (body_with En 0 card_example 160) \<noteq> None"
    unfolding body tail_example by (simp add: encode_def uni_def scalar_def)
  moreover have "list_all scalar (title_of En True card_example)"
    unfolding title_of_def summary_example by (simp add: TITLE_def TITLE_BAR_def run_short_def RUN_ID_SHORT_CHARS_def card_example_def uni_def scalar_def)
  moreover have "list_all scalar (body_with En 0 card_example 160)" "length (utf8 (body_with En 0 card_example 160)) \<le> BODY_BYTES"
    unfolding body tail_example by (simp_all add: uni_def scalar_def enc_char_def BODY_BYTES_def)
  ultimately have "compose En True 0 card_example \<noteq> None"
    unfolding compose_def DESCRIPTION_CAPS_def by (auto simp: utf8_cut_fitting encode_def)
  then obtain t b where "compose En True 0 card_example = Some (t, b)" by auto
  with approval_push_keeps_tail [OF this fits] summary_example show ?thesis by auto
qed

section \<open>At most one of each\<close>

datatype card_op = Dispatch bool "time option" push_env | Fire bool "bool option" bool time push_env | Settle

fun card_step :: "card_op \<Rightarrow> tracked \<Rightarrow> tracked" where
  "card_step (Dispatch shut timeout e) t = dispatch shut timeout e t"
| "card_step (Fire shut queued running now e) t = fire shut queued running now e t"
| "card_step Settle t = t\<lparr>tr_pending := False\<rparr>"

fun pushed :: "bool \<Rightarrow> tracked \<Rightarrow> bool" where
  "pushed True t \<longleftrightarrow> tr_initial t"
| "pushed False t \<longleftrightarrow> tr_reminder t"

text \<open>A step that publishes the first notification (\<open>True\<close>) or the reminder with success.\<close>

fun publishes :: "bool \<Rightarrow> card_op \<Rightarrow> tracked \<Rightarrow> bool" where
  "publishes True (Dispatch shut timeout e) t \<longleftrightarrow> \<not> shut \<and> \<not> tr_initial t
     \<and> (\<exists>pc. publish_card e True (tr_card t) (tr_center t) = Some (True, pc))"
| "publishes False (Fire shut queued running now e) t \<longleftrightarrow> tr_pending t \<and> \<not> shut \<and> queued = Some True \<and> running
     \<and> 1 \<le> cd_created (tr_card t) + cd_timeout (tr_card t) - now \<and> \<not> tr_reminder t
     \<and> (\<exists>pc. publish_card e False (tr_card t) (tr_center t) = Some (True, pc))"
| "publishes _ _ t \<longleftrightarrow> False"

lemma pushed_kept: "pushed phase t \<Longrightarrow> pushed phase (card_step op t)"
  by (cases phase; cases op) (auto simp: dispatch_def fire_def split: option.split)

lemma publishes_free: "publishes phase op t \<Longrightarrow> \<not> pushed phase t"
  by (cases phase; cases op) auto

lemma publishes_pushed: "publishes phase op t \<Longrightarrow> pushed phase (card_step op t)"
  by (cases phase; cases op) (auto simp: dispatch_def fire_def)

interpretation cp: claim_once card_step "\<lambda>_. True" pushed publishes
  by unfold_locales (auto simp: pushed_kept publishes_pushed dest: publishes_free)

text \<open>
  Over any history of dispatches, fired timers and settlements the first notification of a card and its
  reminder are each published with success at most once; a reminder only for a pending card the core still
  queues, with at least a second left.
\<close>

theorem approval_push_once: "wins_along card_step (publishes phase) ops t \<le> 1"
  by (rule cp.at_most_one_win) simp

end
