(* ===== verification/Viewer_Push.thy ===== *)
theory Viewer_Push
  imports Push_Transport
begin

text \<open>
  The push unit of \<open>compat/compat.py\<close>: one state per streamed turn, which wakes the phone for an approval,
  a reply or a failure once the viewer has gone. Transitions are scheduled on the loop of the run, so a
  history runs them in any order. Whether the approval dispatcher or the notification ledger owns an exit,
  the redaction of the core and the clock are arguments. An exception inside a transition keeps what was
  written before it.
\<close>

section \<open>Texts\<close>

definition PUSH_PREVIEW_CHARS :: nat where "PUSH_PREVIEW_CHARS = 400"
definition PUSH_DETAIL_CHARS :: nat where "PUSH_DETAIL_CHARS = 300"
definition PUSH_RETENTION_SECONDS :: time where "PUSH_RETENTION_SECONDS = 900"
definition PUSH_MAX_STATES :: nat where "PUSH_MAX_STATES = 64"

definition PUSH_FALLBACK_REPLY :: utext where
  "PUSH_FALLBACK_REPLY = [0x4EFB, 0x52D9, 0x5B8C, 0x6210, 0xFF0C, 0x6253, 0x958B] @ uni '' App '' @ [0x770B, 0x7D50, 0x679C]"
definition PUSH_FALLBACK_FAILED :: utext where
  "PUSH_FALLBACK_FAILED = [0x4EFB, 0x52D9, 0x5931, 0x6557, 0xFF0C, 0x6253, 0x958B] @ uni '' App '' @ [0x770B, 0x7D30, 0x7BC0]"
definition PUSH_FALLBACK_APPROVAL :: utext where
  "PUSH_FALLBACK_APPROVAL = [0x9AD8, 0x98A8, 0x96AA, 0x6307, 0x4EE4]"
definition ATTACHMENT :: utext where
  "ATTACHMENT = uni ''['' @ [0x9644, 0x4EF6] @ uni '']''"

text \<open>
  \<open>PUSH_DATA_URL_RE.sub\<close>: an image with a data address, or a base64 data address, becomes the placeholder.
  A match at the front of a text is given by what follows it.
\<close>

definition image_match :: "utext \<Rightarrow> utext option" where
  "image_match s = (if take 2 s \<noteq> uni ''!['' then None
     else let r = dropWhile (\<lambda>c. c \<noteq> 93) (drop 2 s)
          in if take 7 r \<noteq> uni ''](data:'' then None
             else (case dropWhile (\<lambda>c. c \<noteq> 41) (drop 7 r) of [] \<Rightarrow> None | c # z \<Rightarrow> Some z))"

definition mime_char :: "nat \<Rightarrow> bool" where
  "mime_char c \<longleftrightarrow> ascii_letter c \<or> (48 \<le> c \<and> c \<le> 57) \<or> c \<in> {43, 45, 46, 47, 95}"

definition base64_char :: "nat \<Rightarrow> bool" where
  "base64_char c \<longleftrightarrow> ascii_letter c \<or> (48 \<le> c \<and> c \<le> 57) \<or> c \<in> {43, 47, 61}"

definition data_match :: "utext \<Rightarrow> utext option" where
  "data_match s = (if take 5 s \<noteq> uni ''data:'' then None
     else let r = drop 5 s; t = dropWhile mime_char r
          in if takeWhile mime_char r = [] \<or> take 8 t \<noteq> uni '';base64,'' \<or> takeWhile base64_char (drop 8 t) = [] then None
             else Some (dropWhile base64_char (drop 8 t)))"

lemma image_match_shorter: "image_match s = Some r \<Longrightarrow> length r < length s"
proof -
  assume m: "image_match s = Some r"
  define u where "u = dropWhile (\<lambda>c. c \<noteq> 93) (drop 2 s)"
  from m obtain c where d: "dropWhile (\<lambda>c. c \<noteq> 41) (drop 7 u) = c # r"
    by (auto simp: image_match_def u_def Let_def split: if_splits list.splits)
  have "length (dropWhile (\<lambda>c. c \<noteq> 41) (drop 7 u)) \<le> length (drop 7 u)" by (rule length_dropWhile_le)
  moreover have "length u \<le> length (drop 2 s)" unfolding u_def by (rule length_dropWhile_le)
  ultimately show ?thesis using d by simp
qed

lemma data_match_shorter: "data_match s = Some r \<Longrightarrow> length r < length s"
proof -
  assume m: "data_match s = Some r"
  define t where "t = dropWhile mime_char (drop 5 s)"
  from m have r: "r = dropWhile base64_char (drop 8 t)" and s: "take 5 s = uni ''data:''"
    by (auto simp: data_match_def t_def Let_def split: if_splits)
  have "length r \<le> length t" unfolding r using length_dropWhile_le [of base64_char "drop 8 t"] by simp
  moreover have "length t \<le> length s - 5" unfolding t_def using length_dropWhile_le [of mime_char "drop 5 s"] by simp
  moreover have "5 \<le> length s" using arg_cong [OF s, of length] by (simp add: uni_def)
  ultimately show ?thesis by linarith
qed

function strip_data :: "utext \<Rightarrow> utext" where
  "strip_data [] = []"
| "strip_data (c # s) = (case image_match (c # s) of
     Some r \<Rightarrow> ATTACHMENT @ strip_data r
   | None \<Rightarrow> (case data_match (c # s) of
       Some r \<Rightarrow> ATTACHMENT @ strip_data r
     | None \<Rightarrow> c # strip_data s))"
  by pat_completeness auto
termination
  by (relation "measure length") (auto dest: image_match_shorter data_match_shorter)

definition push_preview :: "utext option \<Rightarrow> utext option" where
  "push_preview text = (case text of
     None \<Rightarrow> Some PUSH_FALLBACK_REPLY
   | Some s \<Rightarrow> if ustrip s = [] then Some PUSH_FALLBACK_REPLY
       else let cleaned = ustrip (strip_data s)
            in if cleaned = [] then Some PUSH_FALLBACK_REPLY else utf8_cut (take PUSH_PREVIEW_CHARS cleaned) BODY_BYTES)"

definition push_detail :: "utext \<Rightarrow> utext \<Rightarrow> utext option" where
  "push_detail text fallback = map_option (\<lambda>t. if t = [] then fallback else t)
     (utf8_cut (take PUSH_DETAIL_CHARS (ustrip text)) BODY_BYTES)"

section \<open>The exits\<close>

datatype kind = Approval | Completed | Failed | Cancelled

record push_call =
  ca_title :: utext
  ca_message :: utext
  ca_priority :: string
  ca_tag :: string

text \<open>
  \<open>_push_publish\<close>: no call, a call, or an exception (from cutting a text with a lone surrogate, also inside
  \<open>publish\<close>). \<open>ledger\<close> is whether the notification ledger owns the terminal pushes.
\<close>

datatype exit = Silent | Calls push_call | Raises

definition call_exit :: "string \<Rightarrow> utext option \<Rightarrow> string \<Rightarrow> string \<Rightarrow> exit" where
  "call_exit title message priority mark = (case message of
     None \<Rightarrow> Raises
   | Some m \<Rightarrow> if list_all scalar m
       then Calls \<lparr>ca_title = uni title, ca_message = m, ca_priority = priority, ca_tag = mark\<rparr> else Raises)"

definition push_publish :: "bool \<Rightarrow> kind \<Rightarrow> utext \<Rightarrow> exit" where
  "push_publish ledger k text = (if ledger \<and> k \<in> {Completed, Failed} then Silent else case k of
     Approval \<Rightarrow> call_exit ''Hermes: approval needed''
       (map_option (\<lambda>d. [0x7B49, 0x4F60, 0x6838, 0x51C6, 0xFF1A] @ d @ [0xA, 0x6253, 0x958B] @ uni '' Hermes App '' @ [0x6309, 0x6309, 0x9215])
         (push_detail text PUSH_FALLBACK_APPROVAL)) ''high'' ''warning''
   | Completed \<Rightarrow> call_exit ''Hermes: reply ready'' (Some (if text = [] then PUSH_FALLBACK_REPLY else text)) ''default'' ''dart''
   | Failed \<Rightarrow> call_exit ''Hermes: run failed'' (push_detail text PUSH_FALLBACK_FAILED) ''high'' ''x''
   | Cancelled \<Rightarrow> Silent)"

section \<open>The state of a turn\<close>

record viewer =
  vw_detached :: bool
  vw_closing :: bool
  vw_released :: bool
  vw_pending :: "utext option"
  vw_texts :: "(utext \<times> utext) list"
  vw_pushed :: "utext list"
  vw_seq :: nat
  vw_terminal :: "(kind \<times> utext) option"
  vw_terminal_pushed :: bool
  vw_acked :: bool
  vw_discard :: bool
  vw_expires :: time

definition viewer_start :: "time \<Rightarrow> viewer" where
  "viewer_start now = \<lparr>vw_detached = False, vw_closing = False, vw_released = False, vw_pending = None, vw_texts = [],
     vw_pushed = [], vw_seq = 0, vw_terminal = None, vw_terminal_pushed = False, vw_acked = False, vw_discard = False,
     vw_expires = now + PUSH_RETENTION_SECONDS\<rparr>"

text \<open>The slots a push can use once: an approval request, and the end of the turn.\<close>

datatype slot = RequestSlot utext | EndSlot

text \<open>A transition: the state, the exits taken with their slots, and whether it ended with an exception.\<close>

type_synonym outcome = "viewer \<times> (slot \<times> push_call) list \<times> bool"

definition take_exit :: "slot \<Rightarrow> exit \<Rightarrow> viewer \<Rightarrow> outcome" where
  "take_exit s e v = (case e of Silent \<Rightarrow> (v, [], False) | Calls c \<Rightarrow> (v, [(s, c)], False) | Raises \<Rightarrow> (v, [], True))"

definition push_pending :: "bool \<Rightarrow> bool \<Rightarrow> viewer \<Rightarrow> outcome" where
  "push_pending handed ledger v = (case vw_pending v of
     None \<Rightarrow> (v, [], False)
   | Some rid \<Rightarrow> if rid \<in> set (vw_pushed v) then (v, [], False)
       else let v1 = v\<lparr>vw_pushed := vw_pushed v @ [rid]\<rparr>
            in if handed then (v1, [], False)
               else take_exit (RequestSlot rid)
                 (push_publish ledger Approval (case map_of (vw_texts v) rid of None \<Rightarrow> PUSH_FALLBACK_APPROVAL | Some t \<Rightarrow> t)) v1)"

definition push_end :: "bool \<Rightarrow> viewer \<Rightarrow> outcome" where
  "push_end ledger v = (case vw_terminal v of
     None \<Rightarrow> (v, [], False)
   | Some (k, t) \<Rightarrow> if vw_acked v \<or> vw_terminal_pushed v \<or> k = Cancelled then (v, [], False)
       else take_exit EndSlot (push_publish ledger k t) (v\<lparr>vw_terminal_pushed := True\<rparr>))"

definition push_detach :: "bool \<Rightarrow> bool \<Rightarrow> viewer \<Rightarrow> outcome" where
  "push_detach handed ledger v =
     (if vw_detached v \<or> vw_closing v then (v, [], False)
      else let (v1, calls, raised) = push_pending handed ledger (v\<lparr>vw_detached := True, vw_discard := True\<rparr>)
           in if raised then (v1, calls, True)
              else let (v2, calls2, raised2) = push_end ledger v1 in (v2, calls @ calls2, raised2))"

text \<open>
  What a status write says: the approval of its fields (request id and description, the command or the
  fallback where there is none), whether the last event was the request itself, the output and the error.
\<close>

record status_write =
  st_status :: string
  st_approval :: "(utext option \<times> utext) option"
  st_requested :: bool
  st_output :: "utext option"
  st_error :: utext

definition gen_id :: "nat \<Rightarrow> utext" where
  "gen_id n = uni ''gen-'' @ uni (show_int (int n))"

definition put_text :: "utext \<Rightarrow> utext \<Rightarrow> (utext \<times> utext) list \<Rightarrow> (utext \<times> utext) list" where
  "put_text rid t ts = (if rid \<in> fst ` set ts then map (\<lambda>(k, x). (k, if k = rid then t else x)) ts else ts @ [(rid, t)])"

definition note_approval :: "(utext \<Rightarrow> utext option) \<Rightarrow> utext option \<Rightarrow> utext \<Rightarrow> viewer \<Rightarrow> viewer" where
  "note_approval redact given desc v =
     (let v1 = (if given = None then v\<lparr>vw_seq := vw_seq v + 1\<rparr> else v);
          rid = (case given of None \<Rightarrow> gen_id (vw_seq v1) | Some r \<Rightarrow> r);
          t = (case redact desc of None \<Rightarrow> desc | Some d \<Rightarrow> d)
      in v1\<lparr>vw_texts := put_text rid (take PUSH_DETAIL_CHARS t) (vw_texts v1), vw_pending := Some rid\<rparr>)"

text \<open>The end a terminal status sets, if none is set; \<^const>\<open>None\<close> when making the preview raises.\<close>

definition end_of :: "status_write \<Rightarrow> (kind \<times> utext) option" where
  "end_of w = (if st_status w = ''completed'' then map_option (\<lambda>t. (Completed, t)) (push_preview (st_output w))
     else if st_status w = ''failed'' then Some (Failed, take PUSH_DETAIL_CHARS (st_error w))
     else Some (Cancelled, []))"

definition status_waiting :: "(utext \<Rightarrow> utext option) \<Rightarrow> bool \<Rightarrow> bool \<Rightarrow> utext option \<Rightarrow> utext \<Rightarrow> viewer \<Rightarrow> outcome" where
  "status_waiting redact handed ledger given desc v = (let v1 = note_approval redact given desc v
     in if vw_detached v1 then push_pending handed ledger v1 else (v1, [], False))"

definition status_running :: "bool \<Rightarrow> viewer \<Rightarrow> outcome" where
  "status_running requested v = (if requested then v else v\<lparr>vw_pending := None\<rparr>, [], False)"

definition status_ended :: "bool \<Rightarrow> status_write \<Rightarrow> viewer \<Rightarrow> outcome" where
  "status_ended ledger w v =
     (if vw_terminal v = None \<and> end_of w = None then (v\<lparr>vw_pending := None\<rparr>, [], True)
      else let v1 = v\<lparr>vw_pending := None, vw_terminal := (if vw_terminal v = None then end_of w else vw_terminal v)\<rparr>
           in if vw_detached v1 then push_end ledger v1 else (v1, [], False))"

definition push_status :: "(utext \<Rightarrow> utext option) \<Rightarrow> bool \<Rightarrow> bool \<Rightarrow> time \<Rightarrow> status_write \<Rightarrow> viewer \<Rightarrow> outcome" where
  "push_status redact handed ledger now w v0 =
     (if vw_closing v0 then (v0, [], False)
      else let v = v0\<lparr>vw_expires := now + PUSH_RETENTION_SECONDS\<rparr> in
        case (st_status w = ''waiting_for_approval'', st_approval w) of
          (True, Some (given, desc)) \<Rightarrow> status_waiting redact handed ledger given desc v
        | _ \<Rightarrow> if st_status w = ''running'' then status_running (st_requested w) v
            else if st_status w \<in> {''completed'', ''failed'', ''cancelled'', ''interrupted''} then status_ended ledger w v
            else (v, [], False))"

text \<open>\<open>PUSH_TERMINAL_FRAME_RE\<close> on the first 64 bytes of a write.\<close>

definition terminal_frame :: "bytes \<Rightarrow> bool" where
  "terminal_frame data =
     (let s = take 64 data;
          digits = takeWhile (\<lambda>c. 48 \<le> c \<and> c \<le> 57) (drop 4 s);
          r = drop (4 + length digits) s;
          body = (\<lambda>x. take 20 x = uni ''event: run.completed'' \<and> take 1 (drop 20 x) = [10]
                    \<or> take 17 x = uni ''event: run.failed'' \<and> take 1 (drop 17 x) = [10])
      in body s \<or> (take 4 s = uni ''id: '' \<and> digits \<noteq> [] \<and> take 1 r = [10] \<and> body (drop 1 r)))"

definition wants_ack :: "bytes \<Rightarrow> viewer \<Rightarrow> bool" where
  "wants_ack data v \<longleftrightarrow> vw_terminal v \<noteq> None \<and> \<not> vw_acked v \<and> terminal_frame data"

section \<open>The registry\<close>

text \<open>
  States are objects: closures of a stream keep theirs after the registry has forgotten it. A key is an
  adapter and a run.
\<close>

type_synonym run_key = "nat \<times> string"

record pushes =
  pu_closed :: bool
  pu_objs :: "viewer list"
  pu_runs :: "(run_key \<times> nat) list"

definition pushes_start :: pushes where
  "pushes_start = \<lparr>pu_closed = False, pu_objs = [], pu_runs = []\<rparr>"

definition alter_obj :: "nat \<Rightarrow> (viewer \<Rightarrow> viewer) \<Rightarrow> pushes \<Rightarrow> pushes" where
  "alter_obj h f r = (if h < length (pu_objs r) then r\<lparr>pu_objs := (pu_objs r)[h := f (pu_objs r ! h)]\<rparr> else r)"

definition push_release :: "nat \<Rightarrow> pushes \<Rightarrow> pushes" where
  "push_release h r = alter_obj h (\<lambda>v. v\<lparr>vw_released := True\<rparr>) (r\<lparr>pu_runs := filter (\<lambda>(k, x). x \<noteq> h) (pu_runs r)\<rparr>)"

definition expiry :: "pushes \<Rightarrow> nat \<Rightarrow> time" where
  "expiry r h = vw_expires (pu_objs r ! h)"

text \<open>\<open>min(..., key=...)\<close>: the first of the least.\<close>

fun first_least :: "('a \<Rightarrow> time) \<Rightarrow> 'a list \<Rightarrow> 'a" where
  "first_least f [x] = x"
| "first_least f (x # y # ys) = (let m = first_least f (y # ys) in if f m < f x then m else x)"
| "first_least f [] = undefined"

lemma first_least_in: "xs \<noteq> [] \<Longrightarrow> first_least f xs \<in> set xs \<and> (\<forall>x \<in> set xs. f (first_least f xs) \<le> f x)"
  by (induction f xs rule: first_least.induct) (auto simp: Let_def)

definition oldest :: "pushes \<Rightarrow> nat" where
  "oldest r = first_least (expiry r) (map snd (pu_runs r))"

lemma release_runs: "pu_runs (push_release h r) = filter (\<lambda>(k, x). x \<noteq> h) (pu_runs r)"
  by (simp add: push_release_def alter_obj_def)

function drop_over :: "pushes \<Rightarrow> pushes" where
  "drop_over r = (if PUSH_MAX_STATES < length (pu_runs r) then drop_over (push_release (oldest r) r) else r)"
  by pat_completeness auto
termination
proof (relation "measure (\<lambda>r. length (pu_runs r))")
  fix r :: pushes
  assume "PUSH_MAX_STATES < length (pu_runs r)"
  then have "pu_runs r \<noteq> []" by auto
  then have "oldest r \<in> set (map snd (pu_runs r))" unfolding oldest_def by (intro first_least_in [THEN conjunct1]) simp
  then show "(push_release (oldest r) r, r) \<in> measure (\<lambda>r. length (pu_runs r))"
    by (force simp: release_runs intro: length_filter_less)
qed simp

declare drop_over.simps [simp del]

definition push_prune :: "time \<Rightarrow> pushes \<Rightarrow> pushes" where
  "push_prune now r = drop_over (fold push_release (filter (\<lambda>h. expiry r h < now) (map snd (pu_runs r))) r)"

definition put_run :: "run_key \<Rightarrow> nat \<Rightarrow> (run_key \<times> nat) list \<Rightarrow> (run_key \<times> nat) list" where
  "put_run k h runs = (if k \<in> fst ` set runs then map (\<lambda>(k', x). (k', if k' = k then h else x)) runs else runs @ [(k, h)])"

text \<open>\<open>register\<close>, when push is configured; the clock is read for the state and again to prune.\<close>

definition register :: "run_key \<Rightarrow> bool \<Rightarrow> time \<Rightarrow> time \<Rightarrow> pushes \<Rightarrow> pushes" where
  "register k configured now now' r = (if pu_closed r \<or> \<not> configured then r
     else push_prune now' (r\<lparr>pu_objs := pu_objs r @ [viewer_start now], pu_runs := put_run k (length (pu_objs r)) (pu_runs r)\<rparr>))"

text \<open>A scheduled transition, when its turn comes.\<close>

definition guarded :: "(viewer \<Rightarrow> outcome) \<Rightarrow> bool \<Rightarrow> viewer \<Rightarrow> outcome" where
  "guarded transition shut v = (if shut \<or> vw_released v then (v, [], False) else transition v)"

definition close_viewer :: "viewer \<Rightarrow> viewer" where
  "close_viewer v = v\<lparr>vw_closing := True\<rparr>"

text \<open>
  \<open>drain\<close>: a failed write of the stream leaves the turn running (its detach is scheduled); every other end of
  the stream closes the state.
\<close>

definition drain_detaches :: "bool \<Rightarrow> string \<Rightarrow> bool" where
  "drain_detaches shield message \<longleftrightarrow> \<not> shield \<and> message = ''SSE client disconnected''"

definition stop_run :: "run_key \<Rightarrow> nat \<Rightarrow> pushes \<Rightarrow> pushes" where
  "stop_run k http r = (case map_of (pu_runs r) k of
     None \<Rightarrow> r | Some h \<Rightarrow> if http < 300 then alter_obj h close_viewer r else r)"

definition interrupt_runs :: "nat \<Rightarrow> pushes \<Rightarrow> pushes" where
  "interrupt_runs adapter r = fold (\<lambda>(k, h) r. if fst k = adapter \<and> vw_terminal (pu_objs r ! h) = None then alter_obj h close_viewer r else r)
     (pu_runs r) r"

definition close_all :: "pushes \<Rightarrow> pushes" where
  "close_all r = fold (\<lambda>(k, h). alter_obj h (\<lambda>v. v\<lparr>vw_released := True\<rparr>)) (pu_runs r) (r\<lparr>pu_closed := True, pu_runs := []\<rparr>)"

section \<open>One push per slot\<close>

datatype view_op =
    Detach bool bool
  | Status "utext \<Rightarrow> utext option" bool bool time status_write
  | Ack | Close | Release

fun view_outcome :: "view_op \<Rightarrow> viewer \<Rightarrow> outcome" where
  "view_outcome (Detach handed ledger) v = guarded (push_detach handed ledger) False v"
| "view_outcome (Status redact handed ledger now w) v = guarded (push_status redact handed ledger now w) False v"
| "view_outcome Ack v = guarded (\<lambda>v. (v\<lparr>vw_acked := True\<rparr>, [], False)) False v"
| "view_outcome Close v = (close_viewer v, [], False)"
| "view_outcome Release v = (v\<lparr>vw_released := True\<rparr>, [], False)"

definition view_step :: "view_op \<Rightarrow> viewer \<Rightarrow> viewer" where
  "view_step op v = fst (view_outcome op v)"

definition view_calls :: "view_op \<Rightarrow> viewer \<Rightarrow> (slot \<times> push_call) list" where
  "view_calls op v = fst (snd (view_outcome op v))"

fun slot_taken :: "slot \<Rightarrow> viewer \<Rightarrow> bool" where
  "slot_taken (RequestSlot rid) v \<longleftrightarrow> rid \<in> set (vw_pushed v)"
| "slot_taken EndSlot v \<longleftrightarrow> vw_terminal_pushed v"

definition calls_slot :: "slot \<Rightarrow> view_op \<Rightarrow> viewer \<Rightarrow> bool" where
  "calls_slot s op v \<longleftrightarrow> s \<in> fst ` set (view_calls op v)"

text \<open>What every transition keeps: taken slots, the flags of the end of a viewer; and what a call needs.\<close>

definition fair :: "viewer \<Rightarrow> outcome \<Rightarrow> bool" where
  "fair v out \<longleftrightarrow> (\<forall>s. slot_taken s v \<longrightarrow> slot_taken s (fst out))
     \<and> vw_closing (fst out) = vw_closing v \<and> vw_released (fst out) = vw_released v \<and> vw_acked (fst out) = vw_acked v
     \<and> (vw_detached v \<longrightarrow> vw_detached (fst out))
     \<and> (\<forall>s \<in> fst ` set (fst (snd out)). \<not> slot_taken s v \<and> slot_taken s (fst out) \<and> (s = EndSlot \<longrightarrow> \<not> vw_acked v))"

lemma fair_same: "(\<And>s. slot_taken s v' = slot_taken s v) \<Longrightarrow> vw_closing v' = vw_closing v \<Longrightarrow> vw_released v' = vw_released v
   \<Longrightarrow> vw_acked v' = vw_acked v \<Longrightarrow> (vw_detached v \<longrightarrow> vw_detached v') \<Longrightarrow> fair v (v', [], b)"
  by (simp add: fair_def)

lemma fair_shift: "fair v' out \<Longrightarrow> (\<And>s. slot_taken s v' = slot_taken s v) \<Longrightarrow> vw_closing v' = vw_closing v \<Longrightarrow> vw_released v' = vw_released v
   \<Longrightarrow> vw_acked v' = vw_acked v \<Longrightarrow> (vw_detached v \<longrightarrow> vw_detached v') \<Longrightarrow> fair v out"
  by (simp add: fair_def)

lemma push_pending_fair: "fair v (push_pending handed ledger v)"
proof (cases "vw_pending v")
  case (Some rid)
  have "slot_taken s (v\<lparr>vw_pushed := vw_pushed v @ [rid]\<rparr>) \<longleftrightarrow> slot_taken s v \<or> s = RequestSlot rid" for s by (cases s) auto
  with Some show ?thesis
    by (auto simp: push_pending_def take_exit_def fair_def Let_def split: exit.split)
qed (simp add: push_pending_def fair_def)

lemma push_end_fair: "fair v (push_end ledger v)"
proof -
  have "slot_taken s (v\<lparr>vw_terminal_pushed := True\<rparr>) \<longleftrightarrow> slot_taken s v \<or> s = EndSlot" for s by (cases s) auto
  then show ?thesis
    by (auto simp: push_end_def take_exit_def fair_def split: exit.split option.split)
qed

lemma fair_then: "fair v (v1, cs1, b1) \<Longrightarrow> fair v1 (v2, cs2, b2) \<Longrightarrow> fair v (v2, cs1 @ cs2, b2)"
  by (fastforce simp: fair_def)

lemma push_detach_fair: "fair v (push_detach handed ledger v)"
proof (cases "vw_detached v \<or> vw_closing v")
  case True
  then show ?thesis by (simp add: push_detach_def fair_def)
next
  case False
  define v0 where "v0 = v\<lparr>vw_detached := True, vw_discard := True\<rparr>"
  have s0: "slot_taken s v0 = slot_taken s v" for s by (cases s) (simp_all add: v0_def)
  obtain v1 cs1 b1 where p: "push_pending handed ledger v0 = (v1, cs1, b1)" by (metis prod_cases3)
  obtain v2 cs2 b2 where e: "push_end ledger v1 = (v2, cs2, b2)" by (metis prod_cases3)
  have f1: "fair v0 (v1, cs1, b1)" using push_pending_fair [of v0 handed ledger] p by simp
  have f2: "fair v1 (v2, cs2, b2)" using push_end_fair [of v1 ledger] e by simp
  have "fair v0 (push_detach handed ledger v)"
    using False p e f1 fair_then [OF f1 f2] by (cases b1) (simp_all add: push_detach_def v0_def)
  then show ?thesis by (rule fair_shift) (simp_all add: s0, simp_all add: v0_def)
qed

lemma note_approval_flags:
  "slot_taken s (note_approval redact given desc v) = slot_taken s v"
  "vw_closing (note_approval redact given desc v) = vw_closing v" "vw_released (note_approval redact given desc v) = vw_released v"
  "vw_acked (note_approval redact given desc v) = vw_acked v" "vw_detached (note_approval redact given desc v) = vw_detached v"
  by (cases s; simp add: note_approval_def Let_def)+

lemma status_waiting_fair: "fair v (status_waiting redact handed ledger given desc v)"
proof -
  define v1 where "v1 = note_approval redact given desc v"
  have "fair v (push_pending handed ledger v1)"
    by (rule fair_shift [OF push_pending_fair]) (simp_all add: v1_def note_approval_flags)
  moreover have "fair v (v1, [], False)" by (rule fair_same) (simp_all add: v1_def note_approval_flags)
  ultimately show ?thesis by (simp add: status_waiting_def v1_def [symmetric] Let_def)
qed

lemma taken_fields:
  "slot_taken s (v\<lparr>vw_pending := p\<rparr>) = slot_taken s v" "slot_taken s (v\<lparr>vw_terminal := e\<rparr>) = slot_taken s v"
  "slot_taken s (v\<lparr>vw_expires := x\<rparr>) = slot_taken s v" "slot_taken s (v\<lparr>vw_pending := p, vw_terminal := e\<rparr>) = slot_taken s v"
  by (cases s; simp)+

lemma status_ended_fair: "fair v (status_ended ledger w v)"
proof -
  define v1 where "v1 = v\<lparr>vw_pending := None, vw_terminal := (if vw_terminal v = None then end_of w else vw_terminal v)\<rparr>"
  have "fair v (push_end ledger v1)"
    by (rule fair_shift [OF push_end_fair]) (simp_all add: v1_def taken_fields)
  moreover have "fair v (v1, [], False)" by (rule fair_same) (simp_all add: v1_def taken_fields)
  moreover have "fair v (v\<lparr>vw_pending := None\<rparr>, [], True)" by (rule fair_same) (simp_all add: taken_fields)
  ultimately show ?thesis by (simp add: status_ended_def v1_def [symmetric] Let_def)
qed

lemma push_status_fair: "fair v (push_status redact handed ledger now w v)"
proof (cases "vw_closing v")
  case True
  then show ?thesis by (simp add: push_status_def fair_def)
next
  case False
  define v1 where "v1 = v\<lparr>vw_expires := now + PUSH_RETENTION_SECONDS\<rparr>"
  have "fair v1 (status_running (st_requested w) v1)"
    unfolding status_running_def by (rule fair_same) (simp_all add: taken_fields)
  moreover have "fair v1 (v1, [], False)" by (simp add: fair_def)
  ultimately have "fair v1 (push_status redact handed ledger now w v)"
    using False status_ended_fair [of v1] status_waiting_fair [of v1]
    by (simp add: push_status_def v1_def [symmetric] Let_def split: option.split bool.split)
  then show ?thesis by (rule fair_shift) (simp_all add: v1_def taken_fields)
qed

lemma guarded_fair: "fair v (t v) \<Longrightarrow> fair v (guarded t False v)"
  by (simp add: guarded_def fair_def)

lemma view_fair: "op \<notin> {Ack, Close, Release} \<Longrightarrow> fair v (view_outcome op v)"
  by (cases op) (simp_all add: guarded_fair push_detach_fair push_status_fair)

lemma flag_steps:
  "view_calls Ack v = []" "view_calls Close v = []" "view_calls Release v = []"
  "view_step Close v = v\<lparr>vw_closing := True\<rparr>" "view_step Release v = v\<lparr>vw_released := True\<rparr>"
  "view_step Ack v = (if vw_released v then v else v\<lparr>vw_acked := True\<rparr>)"
  by (simp_all add: view_calls_def view_step_def guarded_def close_viewer_def)

lemma taken_flags [simp]:
  "slot_taken s (v\<lparr>vw_closing := b\<rparr>) = slot_taken s v" "slot_taken s (v\<lparr>vw_released := b\<rparr>) = slot_taken s v"
  "slot_taken s (v\<lparr>vw_acked := b\<rparr>) = slot_taken s v"
  by (cases s; simp)+

lemma view_step_keeps: "slot_taken s v \<Longrightarrow> slot_taken s (view_step op v)"
proof (cases "op \<in> {Ack, Close, Release}")
  case False
  with view_fair [OF this, of v] show "slot_taken s v \<Longrightarrow> ?thesis" by (simp add: fair_def view_step_def)
qed (auto simp: flag_steps)

lemma calls_slot_free: "calls_slot s op v \<Longrightarrow> \<not> slot_taken s v \<and> slot_taken s (view_step op v) \<and> (s = EndSlot \<longrightarrow> \<not> vw_acked v)"
proof (cases "op \<in> {Ack, Close, Release}")
  case False
  with view_fair [OF this, of v] show "calls_slot s op v \<Longrightarrow> ?thesis"
    unfolding fair_def view_step_def view_calls_def calls_slot_def by blast
qed (auto simp: flag_steps calls_slot_def)

interpretation vp: claim_once view_step "\<lambda>_. True" slot_taken calls_slot
  by unfold_locales (auto simp: view_step_keeps dest: calls_slot_free)

text \<open>
  Whatever statuses a turn goes through and whenever its viewer goes, each of its approval requests and
  its end are pushed by this unit at most once.
\<close>

theorem viewer_pushed_once: "wins_along view_step (calls_slot s) ops v \<le> 1"
  by (rule vp.at_most_one_win) simp

section \<open>Only when the viewer has gone\<close>

lemma attached_no_calls:
  "\<not> vw_detached v \<Longrightarrow> fst (snd (push_status redact handed ledger now w v)) = []"
  "vw_closing v \<Longrightarrow> fst (snd (push_status redact handed ledger now w v)) = []"
  "vw_closing v \<Longrightarrow> fst (snd (push_detach handed ledger v)) = []"
  by (simp_all add: push_status_def push_detach_def status_waiting_def status_running_def status_ended_def
      note_approval_flags Let_def split: option.split bool.split)

lemma status_detached: "vw_detached (fst (push_status redact handed ledger now w v)) = vw_detached v"
proof -
  have "vw_detached (fst (push_pending handed ledger x)) = vw_detached x" for x
    by (simp add: push_pending_def take_exit_def Let_def split: option.split exit.split)
  moreover have "vw_detached (fst (push_end ledger x)) = vw_detached x" for x
    by (simp add: push_end_def take_exit_def split: option.split exit.split)
  ultimately show ?thesis
    by (simp add: push_status_def status_waiting_def status_running_def status_ended_def note_approval_flags Let_def
        split: option.split bool.split)
qed

fun is_detach :: "view_op \<Rightarrow> bool" where
  "is_detach (Detach handed ledger) \<longleftrightarrow> True"
| "is_detach _ \<longleftrightarrow> False"

text \<open>What the flags of a state say of its history.\<close>

definition flags_ok :: "view_op list \<Rightarrow> viewer \<Rightarrow> bool" where
  "flags_ok ops v \<longleftrightarrow> (vw_detached v \<longrightarrow> list_ex is_detach ops) \<and> (Close \<in> set ops \<longrightarrow> vw_closing v)
     \<and> (Release \<in> set ops \<longrightarrow> vw_released v) \<and> (Ack \<in> set ops \<longrightarrow> vw_acked v \<or> vw_released v)"

lemma flags_step: "flags_ok ops v \<Longrightarrow> flags_ok (ops @ [op]) (view_step op v)"
proof (cases "op \<in> {Ack, Close, Release}")
  case True
  then show "flags_ok ops v \<Longrightarrow> ?thesis" by (auto simp: flags_ok_def flag_steps split: if_splits)
next
  case False
  assume ok: "flags_ok ops v"
  have d: "vw_detached (view_step op v) \<Longrightarrow> is_detach op \<or> vw_detached v"
    using False by (cases op) (auto simp: view_step_def guarded_def status_detached split: if_splits)
  show ?thesis
    using view_fair [OF False, of v] ok d False by (auto simp: flags_ok_def fair_def view_step_def)
qed

lemma flags_run: "flags_ok ops (fold view_step ops (viewer_start now))"
proof (induction ops rule: rev_induct)
  case Nil
  then show ?case by (simp add: flags_ok_def viewer_start_def)
next
  case (snoc op ops)
  then show ?case by (simp add: flags_step)
qed

lemma calls_need: "view_calls op v \<noteq> [] \<Longrightarrow> \<not> vw_closing v \<and> \<not> vw_released v \<and> (is_detach op \<or> vw_detached v)"
  using attached_no_calls(1) [of v] attached_no_calls(2) [of v] attached_no_calls(3) [of v]
  by (cases op) (fastforce simp: view_calls_def guarded_def close_viewer_def split: if_splits)+

text \<open>
  C28. A push is made only after the viewer has gone, and never after the turn was stopped, drained or
  released; the end of a turn is not pushed once its last frame has reached the viewer.
\<close>

theorem viewer_push_only_gone:
  assumes "calls_slot s op (fold view_step ops (viewer_start now))"
  shows "list_ex is_detach (ops @ [op]) \<and> Close \<notin> set ops \<and> Release \<notin> set ops \<and> (if s = EndSlot then Ack \<notin> set ops else True)"
proof -
  define v where "v = fold view_step ops (viewer_start now)"
  have "view_calls op v \<noteq> []" using assms by (auto simp: calls_slot_def v_def)
  from calls_need [OF this] calls_slot_free [of s op v] assms flags_run [of ops now] show ?thesis
    unfolding v_def [symmetric] by (auto simp: flags_ok_def)
qed

definition done_write :: status_write where
  "done_write = \<lparr>st_status = ''completed'', st_approval = None, st_requested = False, st_output = None, st_error = []\<rparr>"

lemma fallback_scalar: "list_all scalar PUSH_FALLBACK_REPLY" "PUSH_FALLBACK_REPLY \<noteq> []"
  by (simp_all add: PUSH_FALLBACK_REPLY_def uni_def scalar_def)

theorem viewer_push_only_gone_witness:
  "list_ex is_detach [Status Some False False 1 done_write, Detach False False]"
proof -
  have "calls_slot EndSlot (Detach False False) (fold view_step [Status Some False False 1 done_write] (viewer_start 0))"
    by (simp add: calls_slot_def view_calls_def view_step_def guarded_def push_detach_def push_pending_def push_end_def take_exit_def
        push_publish_def call_exit_def push_status_def status_ended_def end_of_def push_preview_def done_write_def viewer_start_def
        fallback_scalar)
  from viewer_push_only_gone [OF this] show ?thesis by simp
qed

section \<open>The registry stays small\<close>

datatype registry_op = Register run_key bool time time | Transition nat view_op | Forget nat | Stop run_key nat
  | Interrupt nat | Unload

fun registry_step :: "registry_op \<Rightarrow> pushes \<Rightarrow> pushes" where
  "registry_step (Register k configured now now') r = register k configured now now' r"
| "registry_step (Transition h op) r = (if pu_closed r then r else alter_obj h (view_step op) r)"
| "registry_step (Forget h) r = push_release h r"
| "registry_step (Stop k http) r = stop_run k http r"
| "registry_step (Interrupt adapter) r = interrupt_runs adapter r"
| "registry_step Unload r = close_all r"

definition registry_ok :: "pushes \<Rightarrow> bool" where
  "registry_ok r \<longleftrightarrow> length (pu_runs r) \<le> PUSH_MAX_STATES \<and> distinct (map fst (pu_runs r))"

lemma alter_obj_runs [simp]: "pu_runs (alter_obj h f r) = pu_runs r" "pu_closed (alter_obj h f r) = pu_closed r"
  by (simp_all add: alter_obj_def)

lemma distinct_map_filter_pairs: "distinct (map fst xs) \<Longrightarrow> distinct (map fst (filter p xs))"
  by (simp add: distinct_map_filter)

lemma release_distinct: "distinct (map fst (pu_runs r)) \<Longrightarrow> distinct (map fst (pu_runs (push_release h r)))"
  by (simp add: release_runs distinct_map_filter_pairs)

lemma drop_over_ok: "distinct (map fst (pu_runs r)) \<Longrightarrow> registry_ok (drop_over r)"
proof (induction r rule: drop_over.induct)
  case (1 r)
  show ?case
  proof (cases "PUSH_MAX_STATES < length (pu_runs r)")
    case True
    with 1 release_distinct show ?thesis by (simp add: drop_over.simps [of r])
  next
    case False
    with 1 show ?thesis by (simp add: drop_over.simps [of r] registry_ok_def)
  qed
qed

lemma push_prune_ok: "distinct (map fst (pu_runs r)) \<Longrightarrow> registry_ok (push_prune now r)"
proof -
  assume d: "distinct (map fst (pu_runs r))"
  have "distinct (map fst (pu_runs (fold push_release hs r)))" for hs
    using d by (induction hs arbitrary: r) (simp_all add: release_distinct)
  then show ?thesis by (simp add: push_prune_def drop_over_ok)
qed

lemma view_run_distinct: "distinct (map fst runs) \<Longrightarrow> distinct (map fst (put_run k h runs))"
proof -
  have "map fst (map (\<lambda>(k', x). (k', if k' = k then h else x)) runs) = map fst runs" by (induction runs) auto
  then show "distinct (map fst runs) \<Longrightarrow> ?thesis"
    by (cases "k \<in> fst ` set runs") (simp_all add: put_run_def del: map_map)
qed

lemma fold_alter_runs:
  "pu_runs (fold (\<lambda>(k, h) r. if c k h r then alter_obj h f r else r) xs r) = pu_runs r"
  "pu_runs (fold (\<lambda>(k, h). alter_obj h f) xs r) = pu_runs r"
  by (induction xs arbitrary: r) auto

lemma registry_step_ok: "registry_ok r \<Longrightarrow> registry_ok (registry_step op r)"
proof (cases op)
  case (Register k configured now now')
  then show "registry_ok r \<Longrightarrow> ?thesis"
    by (auto simp: register_def view_run_distinct registry_ok_def [of r] intro!: push_prune_ok)
next
  case (Forget h)
  then show "registry_ok r \<Longrightarrow> ?thesis"
    by (auto simp: registry_ok_def release_runs distinct_map_filter_pairs intro: order_trans [OF length_filter_le])
qed (auto simp: registry_ok_def stop_run_def interrupt_runs_def close_all_def fold_alter_runs split: option.split)

interpretation vr: guarded_store registry_step registry_ok
  by unfold_locales (rule registry_step_ok)

text \<open>
  Making room always ends, and over every history of turns, statuses, stops and unloads at most 64 states
  are registered, one for a run.
\<close>

theorem viewer_registry_bounded: "registry_ok (fold registry_step ops pushes_start)"
  by (rule vr.run_inv) (simp add: registry_ok_def pushes_start_def)

end
