(* ===== verification/Run_Activity.thy ===== *)
theory Run_Activity
  imports Utf8_Text
begin

text \<open>
  The activity unit of \<open>compat/compat.py\<close>: the registry of live and recent runs of one adapter, the hooks
  that feed it, and the snapshot of a session. Entries are objects: a hook keeps the entry it has tracked
  also when the registry has let go of it, so the registry holds addresses into \<open>av_objs\<close>. The clock, the
  session database and the core's own tables answer through arguments; Python's order of a set is one too.
\<close>

definition ACTIVITY_PREVIEW_CAP :: nat where "ACTIVITY_PREVIEW_CAP = 8192"
definition ACTIVITY_ACTIVE_CAP :: nat where "ACTIVITY_ACTIVE_CAP = 8"
definition ACTIVITY_RECENT_CAP :: nat where "ACTIVITY_RECENT_CAP = 32"
definition ACTIVITY_RECENT_SHOW :: nat where "ACTIVITY_RECENT_SHOW = 4"
definition ACTIVITY_RECENT_TTL :: time where "ACTIVITY_RECENT_TTL = 600"
definition ACTIVITY_TERMINAL :: "string list" where
  "ACTIVITY_TERMINAL = [''completed'', ''failed'', ''cancelled'', ''interrupted'']"

section \<open>The preview of a message\<close>

text \<open>A message is a text, a list of parts (the text of a part, if it has one), or something else.\<close>

datatype message = MsgText utext | MsgParts "utext option list" | MsgOther

record preview =
  pv_text :: utext
  pv_truncated :: bool

fun newline_joined :: "utext list \<Rightarrow> utext" where
  "newline_joined [] = []"
| "newline_joined [p] = p"
| "newline_joined (p # ps) = p @ 10 # newline_joined ps"

definition text_of :: "message \<Rightarrow> utext option" where
  "text_of m = (case m of
     MsgText t \<Rightarrow> Some t
   | MsgParts ps \<Rightarrow> (let t = newline_joined (map the (filter (\<lambda>p. p \<noteq> None) ps)) in
       Some (if None \<in> set ps then (if t = [] then [] else t @ [10]) @ uni ''['' @ [0x9644, 0x4EF6] @ uni '']'' else t))
   | MsgOther \<Rightarrow> None)"

text \<open>The outer \<^const>\<open>None\<close> is an exception (a lone surrogate), the inner one no preview.\<close>

definition activity_preview :: "message \<Rightarrow> preview option option" where
  "activity_preview m = (case text_of m of
     None \<Rightarrow> Some None
   | Some t \<Rightarrow> (case encode t of
       None \<Rightarrow> None
     | Some raw \<Rightarrow> Some (Some (if length raw \<le> ACTIVITY_PREVIEW_CAP then \<lparr>pv_text = t, pv_truncated = False\<rparr>
         else \<lparr>pv_text = trim (take ACTIVITY_PREVIEW_CAP raw), pv_truncated = True\<rparr>))))"

section \<open>The registry\<close>

datatype akey = RunKey string | ObsKey string

record entry =
  ae_key :: akey
  ae_sessions :: "string list"
  ae_scope :: "string option"
  ae_source :: "string option"
  ae_status :: string
  ae_started :: time
  ae_ended_at :: "time option"
  ae_user :: "preview option"
  ae_after :: "int option"
  ae_reason :: "string option"

text \<open>\<open>ended\<close> is set together with \<open>ended_at\<close>. The observation id of a run is the run id.\<close>

definition ended :: "entry \<Rightarrow> bool" where
  "ended e \<longleftrightarrow> ae_ended_at e \<noteq> None"

fun key_id :: "akey \<Rightarrow> string" where
  "key_id (RunKey r) = r"
| "key_id (ObsKey x) = x"

record activity =
  av_objs :: "entry list"
  av_runs :: "(string \<times> nat) list"
  av_obs :: "(string \<times> nat) list"
  av_seen :: "string list"
  av_by :: "string \<Rightarrow> akey list"
  av_recent :: "string \<Rightarrow> entry list"
  av_revision :: nat
  av_blind :: "string option"
  av_closed :: bool

definition activity_start :: activity where
  "activity_start = \<lparr>av_objs = [], av_runs = [], av_obs = [], av_seen = [], av_by = (\<lambda>_. []), av_recent = (\<lambda>_. []),
     av_revision = 0, av_blind = None, av_closed = False\<rparr>"

definition new_entry :: "akey \<Rightarrow> string \<Rightarrow> time \<Rightarrow> entry" where
  "new_entry k status now = \<lparr>ae_key = k, ae_sessions = [], ae_scope = None, ae_source = None, ae_status = status,
     ae_started = now, ae_ended_at = None, ae_user = None, ae_after = None, ae_reason = None\<rparr>"

definition alter_entry :: "nat \<Rightarrow> (entry \<Rightarrow> entry) \<Rightarrow> activity \<Rightarrow> activity" where
  "alter_entry h f r = (if h < length (av_objs r) then r\<lparr>av_objs := (av_objs r)[h := f (av_objs r ! h)]\<rparr> else r)"

definition bump :: "activity \<Rightarrow> activity" where
  "bump r = r\<lparr>av_revision := av_revision r + 1\<rparr>"

definition activity_fault :: "string \<Rightarrow> activity \<Rightarrow> activity" where
  "activity_fault reason r = r\<lparr>av_blind := Some (''fault:'' @ reason)\<rparr>"

definition add_key :: "akey \<Rightarrow> akey list \<Rightarrow> akey list" where
  "add_key k ks = (if k \<in> set ks then ks else ks @ [k])"

definition activity_index :: "nat \<Rightarrow> string option \<Rightarrow> activity \<Rightarrow> activity" where
  "activity_index h sid r = (case sid of
     None \<Rightarrow> r
   | Some s \<Rightarrow> if s \<in> set (ae_sessions (av_objs r ! h)) then r
       else (alter_entry h (\<lambda>e. e\<lparr>ae_sessions := ae_sessions e @ [s]\<rparr>) r)
              \<lparr>av_by := (av_by r)(s := add_key (ae_key (av_objs r ! h)) (av_by r s))\<rparr>)"

text \<open>\<open>while bucket and (too old or too many): bucket.pop()\<close>; the newest entry is at the front.\<close>

function prune_bucket :: "time \<Rightarrow> entry list \<Rightarrow> entry list" where
  "prune_bucket deadline b = (if b \<noteq> [] \<and> (ACTIVITY_RECENT_CAP < length b
       \<or> (case ae_ended_at (last b) of None \<Rightarrow> False | Some t \<Rightarrow> t < deadline))
     then prune_bucket deadline (butlast b) else b)"
  by pat_completeness auto
termination
  by (relation "measure (\<lambda>(d, b). length b)") auto

declare prune_bucket.simps [simp del]

definition prune_recent :: "time \<Rightarrow> activity \<Rightarrow> activity" where
  "prune_recent now r = r\<lparr>av_recent := (\<lambda>s. prune_bucket (now - ACTIVITY_RECENT_TTL) (av_recent r s))\<rparr>"

definition forget_key :: "akey \<Rightarrow> activity \<Rightarrow> activity" where
  "forget_key k r = (case k of
     RunKey x \<Rightarrow> r\<lparr>av_runs := filter (\<lambda>(y, h). y \<noteq> x) (av_runs r)\<rparr>
   | ObsKey x \<Rightarrow> r\<lparr>av_obs := filter (\<lambda>(y, h). y \<noteq> x) (av_obs r)\<rparr>)"

text \<open>The clock is read for the end and again to prune.\<close>

definition activity_finish :: "nat \<Rightarrow> string \<Rightarrow> string option \<Rightarrow> time \<Rightarrow> time \<Rightarrow> activity \<Rightarrow> activity" where
  "activity_finish h status reason now now' r =
     (if av_closed r \<or> ended (av_objs r ! h) then r
      else let r1 = forget_key (ae_key (av_objs r ! h))
                      (alter_entry h (\<lambda>e. e\<lparr>ae_status := status, ae_ended_at := Some now, ae_reason := reason\<rparr>) r);
               e = av_objs r1 ! h
           in bump (prune_recent now' (r1\<lparr>
                av_by := (\<lambda>s. if s \<in> set (ae_sessions e) then filter (\<lambda>k. k \<noteq> ae_key e) (av_by r1 s) else av_by r1 s),
                av_recent := (\<lambda>s. if s \<in> set (ae_sessions e) then e # av_recent r1 s else av_recent r1 s)\<rparr>)))"

definition put_addr :: "string \<Rightarrow> nat \<Rightarrow> (string \<times> nat) list \<Rightarrow> (string \<times> nat) list" where
  "put_addr k h kvs = (if k \<in> fst ` set kvs then map (\<lambda>(k', x). (k', if k' = k then h else x)) kvs else kvs @ [(k, h)])"

definition add_entry :: "entry \<Rightarrow> activity \<Rightarrow> nat \<times> activity" where
  "add_entry e r = (let h = length (av_objs r); r1 = r\<lparr>av_objs := av_objs r @ [e]\<rparr> in
     (h, case ae_key e of
           RunKey x \<Rightarrow> r1\<lparr>av_runs := put_addr x h (av_runs r), av_seen := List.insert x (av_seen r)\<rparr>
         | ObsKey x \<Rightarrow> r1\<lparr>av_obs := put_addr x h (av_obs r)\<rparr>))"

definition lookup_key :: "akey \<Rightarrow> activity \<Rightarrow> nat option" where
  "lookup_key k r = (case k of RunKey x \<Rightarrow> map_of (av_runs r) x | ObsKey x \<Rightarrow> map_of (av_obs r) x)"

text \<open>\<open>_activity_track\<close>: the entry of a run (queued, or with the given status) or of a synchronous chat (running).\<close>

definition activity_track :: "akey \<Rightarrow> string option \<Rightarrow> string option \<Rightarrow> string option \<Rightarrow> string option \<Rightarrow> time \<Rightarrow> activity
    \<Rightarrow> nat option \<times> activity" where
  "activity_track k session scope source status now r =
     (if av_closed r then (None, r)
      else let (h, r1) = (case lookup_key k r of
                 Some h \<Rightarrow> (h, r)
               | None \<Rightarrow> (let (h, r') = add_entry (new_entry k (case k of
                     RunKey x \<Rightarrow> (case status of None \<Rightarrow> ''queued'' | Some s \<Rightarrow> s) | ObsKey x \<Rightarrow> ''running'') now) r in (h, bump r')));
               r2 = (if scope = None then r1 else alter_entry h (\<lambda>e. e\<lparr>ae_scope := scope\<rparr>) r1);
               r3 = (if source = None then r2 else alter_entry h (\<lambda>e. if ae_user e = None then e\<lparr>ae_source := source\<rparr> else e) r2)
           in (Some h, activity_index h session r3))"

text \<open>
  The second half of the three tracking hooks: the preview and the last row id, once they have been read.
  \<open>source\<close> is set by the hooks of streamed and API runs. A preview that raises ends in the fault handler of
  its hook, or, for a stream, in the caller; both leave the entry without it.
\<close>

definition activity_fill :: "nat \<Rightarrow> string option \<Rightarrow> preview option \<Rightarrow> int option \<Rightarrow> activity \<Rightarrow> activity" where
  "activity_fill h source user after r =
     (if ended (av_objs r ! h) then r
      else bump (alter_entry h (\<lambda>e. e\<lparr>ae_source := (if source = None then ae_source e else source), ae_user := user,
              ae_after := (if ae_after e = None then after else ae_after e)\<rparr>) r))"

text \<open>\<open>_activity_status_hook\<close>; the session and creation time of the run's status row, and its owner, as the core has them.\<close>

definition status_hook :: "string \<Rightarrow> string \<Rightarrow> string option \<Rightarrow> time option \<Rightarrow> string option \<Rightarrow> time \<Rightarrow> time \<Rightarrow> time \<Rightarrow> activity \<Rightarrow> activity" where
  "status_hook rid status sid created owner now now1 now2 r =
     (if av_closed r then r
      else case map_of (av_runs r) rid of
        None \<Rightarrow>
          if status \<in> set ACTIVITY_TERMINAL then r\<lparr>av_seen := List.insert rid (av_seen r)\<rparr>
          else let e = (new_entry (RunKey rid) status now)\<lparr>ae_started := (case created of None \<Rightarrow> now | Some t \<Rightarrow> t)\<rparr>
               in if sid = None then (snd (add_entry e r))\<lparr>av_blind := Some ''unattributed-run''\<rparr>
                  else let (h, r1) = add_entry (e\<lparr>ae_scope := owner, ae_source := Some ''run_status''\<rparr>) r
                       in bump (activity_index h sid r1)
      | Some h \<Rightarrow>
          let r1 = bump (activity_index h sid (alter_entry h (\<lambda>e. e\<lparr>ae_status := status\<rparr>) r))
          in if status \<in> set ACTIVITY_TERMINAL then activity_finish h status None now1 now2 r1 else r1)"

definition activity_coverage :: "string list \<Rightarrow> activity \<Rightarrow> activity" where
  "activity_coverage live r =
     (if av_closed r \<or> av_blind r \<noteq> None then r
      else if list_ex (\<lambda>x. x \<notin> fst ` set (av_runs r) \<and> x \<notin> set (av_seen r)) live
      then r\<lparr>av_blind := Some ''unregistered-live-run''\<rparr> else r)"

definition activity_settle :: "string \<Rightarrow> string \<Rightarrow> time \<Rightarrow> time \<Rightarrow> activity \<Rightarrow> activity" where
  "activity_settle rid reason now now' r = (case map_of (av_runs r) rid of
     None \<Rightarrow> r
   | Some h \<Rightarrow> if ended (av_objs r ! h) then r else activity_finish h ''unknown'' (Some reason) now now' r)"

text \<open>A session turn handed to a live owner outside the process.\<close>

definition handed_off :: "activity \<Rightarrow> activity" where
  "handed_off r = (if av_closed r \<or> av_blind r \<noteq> None then r else r\<lparr>av_blind := Some ''session-live-owner-handoff''\<rparr>)"

section \<open>The snapshot\<close>

record row =
  rw_observation :: string
  rw_run :: "string option"
  rw_status :: string
  rw_started :: time
  rw_source :: string
  rw_ended :: "time option"
  rw_reason :: "string option"
  rw_user :: "(preview \<times> int option) option"

record snapshot =
  sn_active :: "row list"
  sn_recent :: "row list"
  sn_overflow :: bool
  sn_revision :: nat

text \<open>What the request and the core say: who owns a run, the scope, the session an agent is on now, live runs, set orders.\<close>

record view =
  vi_owns :: "string \<Rightarrow> bool"
  vi_scope :: "string option"
  vi_agent :: "string \<Rightarrow> string option"
  vi_live :: "string list"
  vi_keys :: "akey list \<Rightarrow> akey list"
  vi_sids :: "string list \<Rightarrow> string list"

fun run_of :: "akey \<Rightarrow> string option" where
  "run_of (RunKey r) = Some r"
| "run_of (ObsKey x) = None"

definition project :: "view \<Rightarrow> bool \<Rightarrow> entry \<Rightarrow> row" where
  "project v terminal e =
     (let owned = (case run_of (ae_key e) of Some r \<Rightarrow> vi_owns v r | None \<Rightarrow> ae_scope e = vi_scope v)
      in \<lparr>rw_observation = key_id (ae_key e), rw_run = run_of (ae_key e), rw_status = ae_status e, rw_started = ae_started e,
          rw_source = (case ae_source e of None \<Rightarrow> ''run_status'' | Some s \<Rightarrow> s),
          rw_ended = (if terminal then ae_ended_at e else None),
          rw_reason = (if terminal then ae_reason e else None),
          rw_user = (if owned then map_option (\<lambda>u. (u, ae_after e)) (ae_user e) else None)\<rparr>)"

text \<open>The entries found by the index, in the order of the set.\<close>

definition indexed :: "view \<Rightarrow> string \<Rightarrow> string \<Rightarrow> activity \<Rightarrow> nat list" where
  "indexed v sid resolved r = filter (\<lambda>h. \<not> ended (av_objs r ! h))
     (map the (filter (\<lambda>x. x \<noteq> None) (map (\<lambda>k. lookup_key k r) (vi_keys v (remdups (av_by r sid @ av_by r resolved))))))"

text \<open>The runs whose agent has moved to a wanted session: found, and indexed there.\<close>

fun rotated :: "view \<Rightarrow> string list \<Rightarrow> (string \<times> nat) list \<Rightarrow> nat list \<Rightarrow> activity \<Rightarrow> nat list \<times> activity" where
  "rotated v wanted [] hs r = (hs, r)"
| "rotated v wanted ((x, h) # runs) hs r =
     (if ended (av_objs r ! h) \<or> h \<in> set hs then rotated v wanted runs hs r
      else case vi_agent v x of
        Some s \<Rightarrow> if s \<in> set wanted then rotated v wanted runs (hs @ [h]) (activity_index h (Some s) r) else rotated v wanted runs hs r
      | None \<Rightarrow> rotated v wanted runs hs r)"

text \<open>One row for each observation id, the first in the order.\<close>

fun first_seen :: "string list \<Rightarrow> entry list \<Rightarrow> entry list" where
  "first_seen seen [] = []"
| "first_seen seen (e # es) = (if key_id (ae_key e) \<in> set seen then first_seen seen es
     else e # first_seen (key_id (ae_key e) # seen) es)"

text \<open>The snapshot after the reads of the session database; \<^const>\<open>None\<close> is the answer 503.\<close>

definition activity_snapshot :: "view \<Rightarrow> string \<Rightarrow> string \<Rightarrow> time \<Rightarrow> activity \<Rightarrow> snapshot option \<times> activity" where
  "activity_snapshot v sid resolved now r0 =
     (let r = activity_coverage (vi_live v) r0 in
      if av_blind r \<noteq> None then (None, r)
      else let (hs, r1) = rotated v [sid, resolved] (av_runs r) (indexed v sid resolved r) r;
               found = map (\<lambda>h. av_objs r1 ! h) hs;
               buckets = concat (map (av_recent r1) (vi_sids v (remdups (sid # resolved # concat (map ae_sessions found)))));
               active = first_seen [] (sort_key ae_started found);
               shown = map (\<lambda>e. key_id (ae_key e)) active;
               old = (\<lambda>e. case ae_ended_at e of None \<Rightarrow> 0 | Some t \<Rightarrow> t);
               recent = first_seen shown (filter (\<lambda>e. now - ACTIVITY_RECENT_TTL \<le> old e) (sort_key (\<lambda>e. - old e) buckets))
           in (Some \<lparr>sn_active = map (project v False) (take ACTIVITY_ACTIVE_CAP active),
                sn_recent = map (project v True) (take ACTIVITY_RECENT_SHOW recent),
                sn_overflow = ACTIVITY_ACTIVE_CAP < length active, sn_revision = av_revision r1\<rparr>, r1))"

text \<open>The request: refused when the unit is closed or blind; the reads of the database fail as the first argument says.\<close>

definition answer_snapshot :: "bool \<Rightarrow> view \<Rightarrow> string \<Rightarrow> string \<Rightarrow> time \<Rightarrow> activity \<Rightarrow> snapshot option \<times> activity" where
  "answer_snapshot reads v sid resolved now r =
     (if av_closed r \<or> av_blind r \<noteq> None \<or> \<not> reads then (None, r) else activity_snapshot v sid resolved now r)"

end
