(* ===== verification/Activity_Properties.thy ===== *)
theory Activity_Properties
  imports Run_Activity
begin

text \<open>
  What the activity snapshot promises: a session with a registered live run never reads as idle, rows are
  bounded, ordered and shown once, and a message is previewed only to the owner of its run.
\<close>

section \<open>The registry\<close>

definition live_at :: "activity \<Rightarrow> nat \<Rightarrow> bool" where
  "live_at r h \<longleftrightarrow> h < length (av_objs r) \<and> \<not> ended (av_objs r ! h)"

definition activity_ok :: "activity \<Rightarrow> bool" where
  "activity_ok r \<longleftrightarrow> (\<forall>k h. lookup_key k r = Some h \<longleftrightarrow> live_at r h \<and> ae_key (av_objs r ! h) = k)
     \<and> (\<forall>h s. live_at r h \<longrightarrow> s \<in> set (ae_sessions (av_objs r ! h)) \<longrightarrow> ae_key (av_objs r ! h) \<in> set (av_by r s))
     \<and> (\<forall>s. length (av_recent r s) \<le> ACTIVITY_RECENT_CAP \<and> list_all ended (av_recent r s))"

lemma activity_okD:
  assumes "activity_ok r"
  shows "lookup_key k r = Some h \<longleftrightarrow> live_at r h \<and> ae_key (av_objs r ! h) = k"
    "live_at r h \<Longrightarrow> s \<in> set (ae_sessions (av_objs r ! h)) \<Longrightarrow> ae_key (av_objs r ! h) \<in> set (av_by r s)"
    "length (av_recent r s) \<le> ACTIVITY_RECENT_CAP" "list_all ended (av_recent r s)"
  using assms unfolding activity_ok_def by blast+

lemma alter_simps [simp]:
  "av_runs (alter_entry h f r) = av_runs r" "av_obs (alter_entry h f r) = av_obs r" "av_by (alter_entry h f r) = av_by r"
  "av_recent (alter_entry h f r) = av_recent r" "av_closed (alter_entry h f r) = av_closed r"
  "av_blind (alter_entry h f r) = av_blind r" "length (av_objs (alter_entry h f r)) = length (av_objs r)"
  "lookup_key k (alter_entry h f r) = lookup_key k r"
  by (simp_all add: alter_entry_def lookup_key_def split: akey.split)

lemma alter_at: "h < length (av_objs r) \<Longrightarrow> av_objs (alter_entry h f r) ! i = (if i = h then f (av_objs r ! h) else av_objs r ! i)"
  by (simp add: alter_entry_def nth_list_update)

lemma bump_simps [simp]:
  "av_objs (bump r) = av_objs r" "av_by (bump r) = av_by r" "av_recent (bump r) = av_recent r" "lookup_key k (bump r) = lookup_key k r"
  by (simp_all add: bump_def lookup_key_def split: akey.split)

lemma bump_ok [simp]: "activity_ok (bump r) = activity_ok r"
  by (simp add: activity_ok_def live_at_def)

lemma alter_ok:
  assumes "activity_ok r" "\<And>e. ae_key (f e) = ae_key e \<and> ended (f e) = ended e \<and> ae_sessions (f e) = ae_sessions e"
  shows "activity_ok (alter_entry h f r)"
proof (cases "h < length (av_objs r)")
  case True
  have "live_at (alter_entry h f r) i = live_at r i" "ae_key (av_objs (alter_entry h f r) ! i) = ae_key (av_objs r ! i)"
    "ae_sessions (av_objs (alter_entry h f r) ! i) = ae_sessions (av_objs r ! i)" for i
    using assms(2) by (simp_all add: live_at_def alter_at [OF True])
  then show ?thesis using assms(1) by (simp add: activity_ok_def)
next
  case False
  then show ?thesis using assms(1) by (simp add: alter_entry_def)
qed

lemma index_ok: "activity_ok r \<Longrightarrow> h < length (av_objs r) \<Longrightarrow> activity_ok (activity_index h sid r)"
proof (cases sid)
  case (Some s)
  assume ok: "activity_ok r" and h: "h < length (av_objs r)"
  define f where "f = (\<lambda>e :: entry. e\<lparr>ae_sessions := ae_sessions e @ [s]\<rparr>)"
  define r1 where "r1 = (alter_entry h f r)\<lparr>av_by := (av_by r)(s := add_key (ae_key (av_objs r ! h)) (av_by r s))\<rparr>"
  have at: "av_objs r1 ! i = (if i = h then f (av_objs r ! h) else av_objs r ! i)" "length (av_objs r1) = length (av_objs r)" for i
    by (simp_all add: r1_def alter_at [OF h])
  have same: "live_at r1 i = live_at r i" "ae_key (av_objs r1 ! i) = ae_key (av_objs r ! i)" "lookup_key k r1 = lookup_key k r"
    "av_recent r1 = av_recent r" for i k
    by (simp_all add: live_at_def at f_def ended_def) (simp_all add: r1_def lookup_key_def split: akey.split)
  have by_: "set (av_by r1 t) = (if t = s then insert (ae_key (av_objs r ! h)) (set (av_by r s)) else set (av_by r t))" for t
    by (simp add: r1_def add_key_def insert_absorb)
  have "ae_key (av_objs r1 ! i) \<in> set (av_by r1 t)" if "live_at r1 i" "t \<in> set (ae_sessions (av_objs r1 ! i))" for i t
    using that activity_okD(2) [OF ok, of i t] unfolding same by_ by (auto simp: at f_def split: if_splits)
  then have "activity_ok r1"
    using activity_okD(1,3,4) [OF ok] by (simp add: activity_ok_def same)
  moreover have "activity_index h sid r = (if s \<in> set (ae_sessions (av_objs r ! h)) then r else r1)"
    using Some by (simp add: activity_index_def r1_def f_def)
  ultimately show ?thesis using ok by simp
qed (simp add: activity_index_def)

lemma index_simps [simp]:
  "length (av_objs (activity_index h sid r)) = length (av_objs r)" "av_closed (activity_index h sid r) = av_closed r"
  "av_blind (activity_index h sid r) = av_blind r" "av_runs (activity_index h sid r) = av_runs r"
  by (simp_all add: activity_index_def split: option.split)

lemma map_of_const: "map_of (map (\<lambda>(k', z). (k', if k' = x then h else z)) kvs) y
    = (if y = x \<and> x \<in> fst ` set kvs then Some h else map_of kvs y)"
proof (induction kvs)
  case (Cons p kvs)
  obtain k z where p: "p = (k, z)" by (cases p)
  show ?case
  proof (cases "k = y")
    case True
    then show ?thesis by (cases "y = x") (simp_all add: p)
  next
    case False
    then have "y = x \<longrightarrow> k \<noteq> x" by blast
    with Cons False show ?thesis by (auto simp: p)
  qed
qed simp

lemma put_addr_lookup: "map_of (put_addr x h kvs) y = (if y = x then Some h else map_of kvs y)"
proof (cases "x \<in> fst ` set kvs")
  case True
  then show ?thesis by (simp add: put_addr_def map_of_const)
next
  case False
  then have "map_of kvs x = None" by (simp add: map_of_eq_None_iff)
  with False show ?thesis by (simp add: put_addr_def map_add_def split: option.split)
qed

lemma add_entry_ok:
  assumes ok: "activity_ok r" and free: "lookup_key (ae_key e) r = None" and e: "\<not> ended e" "ae_sessions e = []"
  shows "activity_ok (snd (add_entry e r))"
proof -
  define r1 where "r1 = snd (add_entry e r)"
  have objs: "av_objs r1 = av_objs r @ [e]" and other: "av_by r1 = av_by r" "av_recent r1 = av_recent r"
    by (simp_all add: r1_def add_entry_def Let_def split: akey.split)
  have look: "lookup_key k r1 = (if k = ae_key e then Some (length (av_objs r)) else lookup_key k r)" for k
    by (cases k; cases "ae_key e") (simp_all add: r1_def add_entry_def lookup_key_def put_addr_lookup Let_def)
  have at: "live_at r1 i \<longleftrightarrow> i = length (av_objs r) \<or> live_at r i" for i
    using e(1) by (auto simp: live_at_def objs nth_append)
  have "lookup_key k r1 = Some h \<longleftrightarrow> live_at r1 h \<and> ae_key (av_objs r1 ! h) = k" for k h
  proof (cases "h = length (av_objs r)")
    case True
    have "\<not> live_at r h" using True by (simp add: live_at_def)
    with True activity_okD(1) [OF ok, of k h] show ?thesis by (auto simp: look at objs)
  next
    case False
    have "live_at r h \<Longrightarrow> ae_key (av_objs r ! h) \<noteq> ae_key e" using activity_okD(1) [OF ok, of "ae_key e" h] free by auto
    moreover have "live_at r h \<Longrightarrow> av_objs r1 ! h = av_objs r ! h" by (simp add: objs live_at_def nth_append)
    ultimately show ?thesis using False activity_okD(1) [OF ok, of k h] by (auto simp: look at)
  qed
  moreover have "ae_key (av_objs r1 ! h) \<in> set (av_by r1 s)" if "live_at r1 h" "s \<in> set (ae_sessions (av_objs r1 ! h))" for h s
    using that e(2) activity_okD(2) [OF ok, of h s] by (auto simp: at other objs live_at_def nth_append)
  ultimately show ?thesis
    using activity_okD(3,4) [OF ok] unfolding r1_def [symmetric] by (simp add: activity_ok_def other)
qed

lemma add_entry_addr: "fst (add_entry e r) = length (av_objs r)" "length (av_objs (snd (add_entry e r))) = Suc (length (av_objs r))"
  by (simp_all add: add_entry_def Let_def split: akey.split)

lemma new_entry_fresh: "\<not> ended (new_entry k status now)" "ae_sessions (new_entry k status now) = []" "ae_key (new_entry k status now) = k"
  by (simp_all add: new_entry_def ended_def)

lemma track_ok: "activity_ok r \<Longrightarrow> activity_ok (snd (activity_track k session scope source status now r))"
proof (cases "av_closed r")
  case False
  assume ok: "activity_ok r"
  define st where "st = (case k of RunKey x \<Rightarrow> (case status of None \<Rightarrow> ''queued'' | Some s \<Rightarrow> s) | ObsKey x \<Rightarrow> ''running'')"
  obtain h r1 where r1: "(case lookup_key k r of Some h \<Rightarrow> (h, r)
      | None \<Rightarrow> (let (h, r') = add_entry (new_entry k st now) r in (h, bump r'))) = (h, r1)" by fastforce
  have r1_ok: "activity_ok r1 \<and> h < length (av_objs r1)"
  proof (cases "lookup_key k r")
    case None
    obtain h' r' where a: "add_entry (new_entry k st now) r = (h', r')" by fastforce
    with None r1 have "h = h'" "r1 = bump r'" by simp_all
    with add_entry_ok [OF ok, of "new_entry k st now"] add_entry_addr [of "new_entry k st now" r] None a show ?thesis
      by (simp add: new_entry_fresh)
  next
    case (Some x)
    with r1 ok activity_okD(1) [OF ok, of k x] show ?thesis by (simp add: live_at_def)
  qed
  define r2 where "r2 = (if scope = None then r1 else alter_entry h (\<lambda>e. e\<lparr>ae_scope := scope\<rparr>) r1)"
  define r3 where "r3 = (if source = None then r2 else alter_entry h (\<lambda>e. if ae_user e = None then e\<lparr>ae_source := source\<rparr> else e) r2)"
  have r2_ok: "activity_ok r2 \<and> h < length (av_objs r2)"
    using r1_ok by (auto simp: r2_def ended_def intro!: alter_ok)
  then have "activity_ok r3 \<and> h < length (av_objs r3)"
    by (auto simp: r3_def ended_def split: if_splits intro!: alter_ok)
  moreover have "snd (activity_track k session scope source status now r) = activity_index h session r3"
    unfolding activity_track_def if_not_P [OF False] st_def [symmetric] r1
    unfolding Let_def prod.case snd_conv r3_def r2_def by (rule refl)
  ultimately show ?thesis by (simp add: index_ok)
qed (simp add: activity_track_def)

lemma fill_ok: "activity_ok r \<Longrightarrow> activity_ok (activity_fill h source user after r)"
  by (auto simp: activity_fill_def ended_def intro!: alter_ok)

section \<open>Finishing\<close>

lemma prune_bucket_sub: "set (prune_bucket d b) \<subseteq> set b \<and> length (prune_bucket d b) \<le> ACTIVITY_RECENT_CAP"
proof (induction d b rule: prune_bucket.induct)
  case (1 d b)
  show ?case
  proof (cases "b \<noteq> [] \<and> (ACTIVITY_RECENT_CAP < length b \<or> (case ae_ended_at (last b) of None \<Rightarrow> False | Some t \<Rightarrow> t < d))")
    case True
    then have p: "prune_bucket d b = prune_bucket d (butlast b)" by (subst prune_bucket.simps) simp
    with 1 [OF True] show ?thesis by (auto dest: in_set_butlastD)
  next
    case False
    then have p: "prune_bucket d b = b" by (subst prune_bucket.simps) (simp only: if_False)
    with False show ?thesis by auto
  qed
qed

lemma forget_lookup: "lookup_key k (forget_key k' r) = (if k = k' then None else lookup_key k r)"
proof -
  have "map_of (filter (\<lambda>(y, h). y \<noteq> x) kvs) y = (if y = x then None else map_of kvs y)" for x y and kvs :: "(string \<times> nat) list"
    by (induction kvs) auto
  then show ?thesis by (cases k; cases k') (simp_all add: forget_key_def lookup_key_def)
qed

lemma forget_simps [simp]: "av_objs (forget_key k r) = av_objs r" "av_by (forget_key k r) = av_by r" "av_recent (forget_key k r) = av_recent r"
  by (simp_all add: forget_key_def split: akey.split)

lemma field_lookup [simp]: "lookup_key k (prune_recent now r) = lookup_key k r"
  "lookup_key k (r\<lparr>av_by := a, av_recent := b\<rparr>) = lookup_key k r"
  by (simp_all add: prune_recent_def lookup_key_def split: akey.split)

lemma finish_ok: "activity_ok r \<Longrightarrow> h < length (av_objs r) \<Longrightarrow> activity_ok (activity_finish h status reason now now' r)"
proof (cases "av_closed r \<or> ended (av_objs r ! h)")
  case False
  assume ok: "activity_ok r" and h: "h < length (av_objs r)"
  define f where "f = (\<lambda>e :: entry. e\<lparr>ae_status := status, ae_ended_at := Some now, ae_reason := reason\<rparr>)"
  define k where "k = ae_key (av_objs r ! h)"
  define r1 where "r1 = forget_key k (alter_entry h f r)"
  define e where "e = av_objs r1 ! h"
  define r2 where "r2 = activity_finish h status reason now now' r"
  have e: "e = f (av_objs r ! h)" "ended e" "ae_key e = k"
    by (simp_all add: e_def r1_def alter_at [OF h]) (simp_all add: f_def ended_def k_def)
  have fin: "r2 = bump (prune_recent now' (r1\<lparr>
        av_by := (\<lambda>s. if s \<in> set (ae_sessions e) then filter (\<lambda>k. k \<noteq> ae_key e) (av_by r1 s) else av_by r1 s),
        av_recent := (\<lambda>s. if s \<in> set (ae_sessions e) then e # av_recent r1 s else av_recent r1 s)\<rparr>))"
    unfolding r2_def activity_finish_def if_not_P [OF False] Let_def e_def r1_def k_def f_def by (rule refl)
  have at: "av_objs r2 ! i = (if i = h then e else av_objs r ! i)" "length (av_objs r2) = length (av_objs r)" for i
    unfolding fin by (simp_all add: prune_recent_def r1_def alter_at [OF h] e)
  have live_h: "live_at r h" using False h by (simp add: live_at_def)
  have live: "live_at r2 i \<longleftrightarrow> live_at r i \<and> i \<noteq> h" for i
    using e(2) by (auto simp: live_at_def at)
  have look: "lookup_key k' r2 = (if k' = k then None else lookup_key k' r)" for k'
  proof -
    have "lookup_key k' r2 = lookup_key k' r1" unfolding fin by simp
    then show ?thesis by (simp add: r1_def forget_lookup)
  qed
  have only: "live_at r i \<Longrightarrow> ae_key (av_objs r ! i) = k \<Longrightarrow> i = h" for i
    using activity_okD(1) [OF ok, of k i] activity_okD(1) [OF ok, of k h] live_h by (simp add: k_def)
  have "lookup_key k' r2 = Some i \<longleftrightarrow> live_at r2 i \<and> ae_key (av_objs r2 ! i) = k'" for k' i
    using activity_okD(1) [OF ok, of k' i] only [of i] by (auto simp: look live at k_def)
  moreover have "ae_key (av_objs r2 ! i) \<in> set (av_by r2 s)" if "live_at r2 i" "s \<in> set (ae_sessions (av_objs r2 ! i))" for i s
  proof -
    from that have "live_at r i" "i \<noteq> h" "s \<in> set (ae_sessions (av_objs r ! i))" by (auto simp: live at)
    with activity_okD(2) [OF ok, of i s] only [of i] show ?thesis
      unfolding fin by (simp add: prune_recent_def r1_def at [unfolded fin] alter_at [OF h]) (auto simp: e(3))
  qed
  moreover have "length (av_recent r2 s) \<le> ACTIVITY_RECENT_CAP \<and> list_all ended (av_recent r2 s)" for s
    using prune_bucket_sub [of _ "if s \<in> set (ae_sessions e) then e # av_recent r s else av_recent r s"] activity_okD(4) [OF ok, of s] e(2)
    unfolding fin by (fastforce simp: prune_recent_def r1_def list_all_iff split: if_splits)
  ultimately show ?thesis unfolding r2_def [symmetric] activity_ok_def by blast
qed (simp add: activity_finish_def)

section \<open>The hooks\<close>

lemma seen_ok: "activity_ok (r\<lparr>av_seen := x\<rparr>) = activity_ok r" "activity_ok (r\<lparr>av_blind := y\<rparr>) = activity_ok r"
  by (simp_all add: activity_ok_def live_at_def lookup_key_def cong: akey.case_cong)

lemma status_hook_ok: "activity_ok r \<Longrightarrow> activity_ok (status_hook rid status sid created owner now now1 now2 r)"
proof (cases "av_closed r")
  case False
  assume ok: "activity_ok r"
  show ?thesis
  proof (cases "map_of (av_runs r) rid")
    case None
    then have free: "lookup_key (RunKey rid) r = None" by (simp add: lookup_key_def)
    define e where "e = (new_entry (RunKey rid) status now)\<lparr>ae_started := (case created of None \<Rightarrow> now | Some t \<Rightarrow> t)\<rparr>"
    have fresh: "ae_key e = RunKey rid" "\<not> ended e" "ae_sessions e = []" by (simp_all add: e_def new_entry_def ended_def)
    define e' where "e' = e\<lparr>ae_scope := owner, ae_source := Some ''run_status''\<rparr>"
    have fresh': "ae_key e' = RunKey rid" "\<not> ended e'" "ae_sessions e' = []" using fresh by (simp_all add: e'_def ended_def)
    have a: "activity_ok (snd (add_entry e r))" "activity_ok (snd (add_entry e' r))"
      using add_entry_ok [OF ok, of e] add_entry_ok [OF ok, of e'] free fresh fresh' by simp_all
    obtain h r1 where r1: "add_entry e' r = (h, r1)" by fastforce
    with add_entry_addr [of e' r] have h: "h < length (av_objs r1)" by simp
    have "status_hook rid status sid created owner now now1 now2 r =
        (if status \<in> set ACTIVITY_TERMINAL then r\<lparr>av_seen := List.insert rid (av_seen r)\<rparr>
         else if sid = None then (snd (add_entry e r))\<lparr>av_blind := Some ''unattributed-run''\<rparr>
         else bump (activity_index h sid r1))"
      using False None r1 unfolding e'_def e_def by (simp add: status_hook_def Let_def)
    with a r1 h ok show ?thesis by (simp add: seen_ok index_ok split: if_split)
  next
    case (Some h)
    then have "lookup_key (RunKey rid) r = Some h" by (simp add: lookup_key_def)
    with activity_okD(1) [OF ok] have h: "h < length (av_objs r)" by (simp add: live_at_def)
    define r1 where "r1 = bump (activity_index h sid (alter_entry h (\<lambda>e. e\<lparr>ae_status := status\<rparr>) r))"
    have r1: "activity_ok r1" "h < length (av_objs r1)"
      unfolding r1_def using h by (auto simp: ended_def intro!: index_ok alter_ok ok)
    have "status_hook rid status sid created owner now now1 now2 r
        = (if status \<in> set ACTIVITY_TERMINAL then activity_finish h status None now1 now2 r1 else r1)"
      using False Some unfolding r1_def by (simp add: status_hook_def Let_def)
    with r1 finish_ok [OF r1] show ?thesis by simp
  qed
qed (simp add: status_hook_def)

lemma settle_ok: "activity_ok r \<Longrightarrow> activity_ok (activity_settle rid reason now now' r)"
proof (cases "map_of (av_runs r) rid")
  case (Some h)
  assume ok: "activity_ok r"
  from Some have "lookup_key (RunKey rid) r = Some h" by (simp add: lookup_key_def)
  with activity_okD(1) [OF ok] have h: "h < length (av_objs r)" by (simp add: live_at_def)
  with Some ok finish_ok [OF ok h] show ?thesis by (simp add: activity_settle_def)
qed (simp add: activity_settle_def)

lemma coverage_ok: "activity_ok r \<Longrightarrow> activity_ok (activity_coverage live r)"
  by (simp add: activity_coverage_def seen_ok)

definition same_objs :: "activity \<Rightarrow> activity \<Rightarrow> bool" where
  "same_objs r r' \<longleftrightarrow> length (av_objs r') = length (av_objs r)
     \<and> (\<forall>i. ae_key (av_objs r' ! i) = ae_key (av_objs r ! i) \<and> ended (av_objs r' ! i) = ended (av_objs r ! i)
          \<and> ae_started (av_objs r' ! i) = ae_started (av_objs r ! i))"

definition rotated_ok :: "nat list \<Rightarrow> activity \<Rightarrow> nat list \<times> activity \<Rightarrow> bool" where
  "rotated_ok hs r out \<longleftrightarrow> activity_ok (snd out) \<and> set hs \<subseteq> set (fst out) \<and> (\<forall>h \<in> set (fst out). h \<in> set hs \<or> live_at r h)
     \<and> (distinct hs \<longrightarrow> distinct (fst out)) \<and> same_objs r (snd out)"

lemma index_same: "same_objs r (activity_index h s r)"
  by (auto simp: same_objs_def activity_index_def alter_entry_def nth_list_update ended_def split: option.split)

lemma rotated_more:
  assumes "rotated_ok (hs @ [h]) r1 out" "same_objs r r1" "live_at r h" "h \<notin> set hs"
  shows "rotated_ok hs r out"
proof -
  have "live_at r1 i = live_at r i" for i using assms(2) by (simp add: same_objs_def live_at_def)
  moreover have "same_objs r (snd out)" using assms(1,2) by (simp add: rotated_ok_def same_objs_def)
  ultimately show ?thesis using assms(1,3,4) by (auto simp: rotated_ok_def)
qed

lemma rotated_keeps:
  "activity_ok r \<Longrightarrow> \<forall>(x, h) \<in> set runs. h < length (av_objs r) \<Longrightarrow> rotated_ok hs r (rotated v wanted runs hs r)"
proof (induction v wanted runs hs r rule: rotated.induct)
  case (1 v wanted hs r)
  then show ?case by (simp add: rotated_ok_def same_objs_def)
next
  case (2 v wanted x h runs hs r)
  show ?case
  proof (cases "ended (av_objs r ! h) \<or> h \<in> set hs")
    case True
    with "2.IH"(1) "2.prems" show ?thesis by simp
  next
    case False
    show ?thesis
    proof (cases "vi_agent v x")
      case None
      with False "2.IH"(2) "2.prems" show ?thesis by simp
    next
      case (Some s)
      show ?thesis
      proof (cases "s \<in> set wanted")
        case True
        have "activity_ok (activity_index h (Some s) r)" using "2.prems" by (intro index_ok) auto
        with "2.IH"(3) [OF False Some True] "2.prems"
        have "rotated_ok (hs @ [h]) (activity_index h (Some s) r) (rotated v wanted runs (hs @ [h]) (activity_index h (Some s) r))"
          by simp
        moreover have "live_at r h" using "2.prems" False by (simp add: live_at_def)
        ultimately have "rotated_ok hs r (rotated v wanted runs (hs @ [h]) (activity_index h (Some s) r))"
          using index_same False by (blast intro: rotated_more)
        with False Some True show ?thesis by simp
      next
        case no: False
        with False Some "2.IH"(4) "2.prems" show ?thesis by simp
      qed
    qed
  qed
qed

section \<open>Addresses\<close>

definition addr_ok :: "activity \<Rightarrow> bool" where
  "addr_ok r \<longleftrightarrow> (\<forall>(x, h) \<in> set (av_runs r). h < length (av_objs r))"

lemma addr_simps [simp]:
  "addr_ok (alter_entry h f r) = addr_ok r" "addr_ok (bump r) = addr_ok r" "addr_ok (activity_index h sid r) = addr_ok r"
  "addr_ok (r\<lparr>av_seen := x\<rparr>) = addr_ok r" "addr_ok (r\<lparr>av_blind := y\<rparr>) = addr_ok r" "addr_ok (prune_recent now r) = addr_ok r"
  "addr_ok (r\<lparr>av_by := a, av_recent := b\<rparr>) = addr_ok r"
  by (simp_all add: addr_ok_def bump_def prune_recent_def)

lemma addr_add: "addr_ok r \<Longrightarrow> addr_ok (snd (add_entry e r))"
  by (auto simp: addr_ok_def add_entry_def put_addr_def Let_def split: akey.split if_splits)

lemma addr_added: "add_entry e r = (h, r') \<Longrightarrow> addr_ok r \<Longrightarrow> addr_ok r'"
  using addr_add [of r e] by simp

lemma addr_forget: "addr_ok r \<Longrightarrow> addr_ok (forget_key k r)"
  by (auto simp: addr_ok_def forget_key_def split: akey.split)

lemma addr_finish: "addr_ok r \<Longrightarrow> addr_ok (activity_finish h status reason now now' r)"
  by (simp add: activity_finish_def Let_def addr_forget)

lemma addr_track: "addr_ok r \<Longrightarrow> addr_ok (snd (activity_track k session scope source status now r))"
  by (auto simp: activity_track_def Let_def split: option.split prod.split dest: addr_added)

lemma addr_hook: "addr_ok r \<Longrightarrow> addr_ok (status_hook rid status sid created owner now now1 now2 r)"
  by (auto simp: status_hook_def Let_def addr_finish addr_add split: option.split prod.split dest: addr_added)

lemma addr_rotated: "addr_ok r \<Longrightarrow> addr_ok (snd (rotated v wanted runs hs r))"
  by (induction v wanted runs hs r rule: rotated.induct) (auto split: option.split)

section \<open>Histories\<close>

datatype activity_op =
    Track akey "string option" "string option" "string option" "string option" time
  | Fill nat "string option" "preview option" "int option"
  | StatusWrite string string "string option" "time option" "string option" time time time
  | Settle string string time time
  | Finish nat string time time
  | HandOff | Fault string
  | Snapshot bool view string string time

fun activity_step :: "activity_op \<Rightarrow> activity \<Rightarrow> activity" where
  "activity_step (Track k session scope source status now) r = snd (activity_track k session scope source status now r)"
| "activity_step (Fill h source user after) r = activity_fill h source user after r"
| "activity_step (StatusWrite rid status sid created owner now now1 now2) r = status_hook rid status sid created owner now now1 now2 r"
| "activity_step (Settle rid reason now now') r = activity_settle rid reason now now' r"
| "activity_step (Finish h status now now') r =
     (if h < length (av_objs r) then activity_finish h status (Some ''sync-chat'') now now' r else r)"
| "activity_step HandOff r = handed_off r"
| "activity_step (Fault reason) r = activity_fault reason r"
| "activity_step (Snapshot reads v sid resolved now) r = snd (answer_snapshot reads v sid resolved now r)"

definition activity_inv :: "activity \<Rightarrow> bool" where
  "activity_inv r \<longleftrightarrow> activity_ok r \<and> addr_ok r"

text \<open>A snapshot is given, after the runs were compared with the core's, with what it found.\<close>

lemma snapshot_cases:
  assumes "activity_inv r0"
  obtains (refused) "fst (activity_snapshot v sid resolved now r0) = None"
      "snd (activity_snapshot v sid resolved now r0) = activity_coverage (vi_live v) r0"
  | (given) r hs r1 where "r = activity_coverage (vi_live v) r0" "activity_inv r"
      "rotated v [sid, resolved] (av_runs r) (indexed v sid resolved r) r = (hs, r1)"
      "rotated_ok (indexed v sid resolved r) r (hs, r1)" "activity_inv r1"
      "fst (activity_snapshot v sid resolved now r0) \<noteq> None" "snd (activity_snapshot v sid resolved now r0) = r1"
proof -
  define r where "r = activity_coverage (vi_live v) r0"
  have r: "activity_inv r" using assms unfolding r_def activity_inv_def by (auto simp: coverage_ok) (simp add: activity_coverage_def)
  obtain hs r1 where rot: "rotated v [sid, resolved] (av_runs r) (indexed v sid resolved r) r = (hs, r1)" by fastforce
  have ok: "rotated_ok (indexed v sid resolved r) r (hs, r1)"
    using rotated_keeps [of r "av_runs r" "indexed v sid resolved r" v "[sid, resolved]"] r rot by (simp add: activity_inv_def addr_ok_def)
  have "addr_ok r1" using addr_rotated [of r v "[sid, resolved]" "av_runs r" "indexed v sid resolved r"] r rot by (simp add: activity_inv_def)
  with ok have r1: "activity_inv r1" by (simp add: activity_inv_def rotated_ok_def)
  show ?thesis
  proof (cases "av_blind r = None")
    case True
    then show ?thesis
      by (intro given [OF r_def r rot ok r1]) (simp_all add: activity_snapshot_def r_def [symmetric] rot Let_def)
  next
    case False
    then show ?thesis by (intro refused) (simp_all add: activity_snapshot_def r_def [symmetric] Let_def)
  qed
qed

lemma snapshot_inv: "activity_inv r \<Longrightarrow> activity_inv (snd (answer_snapshot reads v sid resolved now r))"
proof -
  assume r: "activity_inv r"
  then have c: "activity_inv (activity_coverage live r)" for live
    unfolding activity_inv_def by (auto simp: coverage_ok) (simp add: activity_coverage_def)
  from r show ?thesis
    by (cases rule: snapshot_cases [of r v sid resolved now]) (simp_all add: answer_snapshot_def r c)
qed

lemma activity_step_inv: "activity_inv r \<Longrightarrow> activity_inv (activity_step op r)"
proof (cases op)
  case (Snapshot reads v sid resolved now)
  then show "activity_inv r \<Longrightarrow> ?thesis" by (simp add: snapshot_inv)
next
  case (Settle rid reason now now')
  moreover have "addr_ok r \<Longrightarrow> addr_ok (activity_settle rid reason now now' r)"
    by (simp add: activity_settle_def addr_finish split: option.split)
  ultimately show "activity_inv r \<Longrightarrow> ?thesis" by (simp add: activity_inv_def settle_ok)
next
  case (Fill h source user after)
  moreover have "addr_ok r \<Longrightarrow> addr_ok (activity_fill h source user after r)" by (simp add: activity_fill_def)
  ultimately show "activity_inv r \<Longrightarrow> ?thesis" by (simp add: activity_inv_def fill_ok)
qed (simp_all add: activity_inv_def track_ok addr_track status_hook_ok addr_hook finish_ok addr_finish handed_off_def
    activity_fault_def seen_ok)

interpretation av: guarded_store activity_step activity_inv
  by unfold_locales (rule activity_step_inv)

lemma activity_run_inv: "activity_inv (fold activity_step ops activity_start)"
  by (rule av.run_inv) (simp add: activity_inv_def activity_ok_def addr_ok_def activity_start_def lookup_key_def live_at_def split: akey.split)

section \<open>The rows of a snapshot\<close>

abbreviation obs_id :: "entry \<Rightarrow> string" where
  "obs_id e \<equiv> key_id (ae_key e)"

lemma first_seen_ids: "obs_id ` set (first_seen seen es) = obs_id ` set es - set seen"
  by (induction seen es rule: first_seen.induct) auto

lemma first_seen_sub: "set (first_seen seen es) \<subseteq> set es"
  by (induction seen es rule: first_seen.induct) auto

lemma first_seen_distinct: "distinct (map obs_id (first_seen seen es)) \<and> obs_id ` set (first_seen seen es) \<inter> set seen = {}"
proof (induction seen es rule: first_seen.induct)
  case (2 seen e es)
  then show ?case by (auto simp: first_seen_ids)
qed simp

lemma first_seen_sorted: "sorted (map f es) \<Longrightarrow> sorted (map f (first_seen seen es))"
proof (induction seen es rule: first_seen.induct)
  case (2 seen e es)
  have "set (first_seen s es) \<subseteq> set es" for s by (rule first_seen_sub)
  with 2 show ?case by auto
qed simp

definition found_of :: "nat list \<Rightarrow> activity \<Rightarrow> entry list" where
  "found_of hs r1 = first_seen [] (sort_key ae_started (map (\<lambda>h. av_objs r1 ! h) hs))"

definition recent_of :: "view \<Rightarrow> string \<Rightarrow> string \<Rightarrow> time \<Rightarrow> nat list \<Rightarrow> activity \<Rightarrow> entry list" where
  "recent_of v sid resolved now hs r1 =
     (let old = (\<lambda>e. case ae_ended_at e of None \<Rightarrow> 0 | Some t \<Rightarrow> t);
          found = map (\<lambda>h. av_objs r1 ! h) hs
      in first_seen (map obs_id (found_of hs r1)) (filter (\<lambda>e. now - ACTIVITY_RECENT_TTL \<le> old e) (sort_key (\<lambda>e. - old e)
           (concat (map (av_recent r1) (vi_sids v (remdups (sid # resolved # concat (map ae_sessions found)))))))))"

lemma snapshot_rows:
  assumes "activity_inv r0" "fst (answer_snapshot reads v sid resolved now r0) = Some sn"
  obtains hs r1 where "rotated_ok (indexed v sid resolved (activity_coverage (vi_live v) r0)) (activity_coverage (vi_live v) r0) (hs, r1)"
    "activity_inv r1" "sn_active sn = map (project v False) (take ACTIVITY_ACTIVE_CAP (found_of hs r1))"
    "sn_recent sn = map (project v True) (take ACTIVITY_RECENT_SHOW (recent_of v sid resolved now hs r1))"
    "sn_overflow sn = (ACTIVITY_ACTIVE_CAP < length (found_of hs r1))"
proof -
  from assms(2) have given: "fst (activity_snapshot v sid resolved now r0) = Some sn"
    by (simp add: answer_snapshot_def split: if_splits)
  from assms(1) show ?thesis
  proof (cases rule: snapshot_cases [of r0 v sid resolved now])
    case refused
    with given show ?thesis by simp
  next
    case shown: (given r hs r1)
    note r = shown(1)
    have "av_blind r = None" using shown(6) r by (auto simp: activity_snapshot_def Let_def split: if_splits)
    with given shown(3)
    have "sn = \<lparr>sn_active = map (project v False) (take ACTIVITY_ACTIVE_CAP (found_of hs r1)),
        sn_recent = map (project v True) (take ACTIVITY_RECENT_SHOW (recent_of v sid resolved now hs r1)),
        sn_overflow = ACTIVITY_ACTIVE_CAP < length (found_of hs r1), sn_revision = av_revision r1\<rparr>"
      by (simp add: activity_snapshot_def r [symmetric] found_of_def recent_of_def Let_def)
    with that [of hs r1] shown(4,5) r show ?thesis by simp
  qed
qed

lemma coverage_same: "live_at (activity_coverage live r) h = live_at r h" "av_objs (activity_coverage live r) = av_objs r"
  "av_by (activity_coverage live r) = av_by r" "lookup_key k (activity_coverage live r) = lookup_key k r"
  by (simp_all add: activity_coverage_def live_at_def lookup_key_def split: akey.split)

lemma indexed_has:
  assumes "activity_ok r" "\<forall>ks. set (vi_keys v ks) = set ks" "live_at r h"
    "{sid, resolved} \<inter> set (ae_sessions (av_objs r ! h)) \<noteq> {}"
  shows "h \<in> set (indexed v sid resolved r)"
proof -
  define k where "k = ae_key (av_objs r ! h)"
  have "k \<in> set (av_by r sid) \<or> k \<in> set (av_by r resolved)"
    using activity_okD(2) [OF assms(1,3)] assms(4) by (auto simp: k_def)
  then have "k \<in> set (vi_keys v (remdups (av_by r sid @ av_by r resolved)))" using assms(2) by simp
  moreover have "lookup_key k r = Some h" using activity_okD(1) [OF assms(1)] assms(3) by (simp add: k_def)
  ultimately show ?thesis using assms(3) by (force simp: indexed_def live_at_def)
qed

text \<open>
  C29. A session with a registered live run never reads as idle: every run of the requested or the resolved
  session that the hooks have tracked and nothing has ended is among the active rows of a snapshot that is
  given, or the snapshot says that there are more than it shows.
\<close>

theorem activity_never_idle:
  assumes "\<forall>ks. set (vi_keys v ks) = set ks"
    "fst (answer_snapshot reads v sid resolved now (fold activity_step ops activity_start)) = Some sn"
    "live_at (fold activity_step ops activity_start) h"
    "{sid, resolved} \<inter> set (ae_sessions (av_objs (fold activity_step ops activity_start) ! h)) \<noteq> {}"
  shows "obs_id (av_objs (fold activity_step ops activity_start) ! h) \<in> rw_observation ` set (sn_active sn) \<or> sn_overflow sn"
proof -
  define r0 where "r0 = fold activity_step ops activity_start"
  have r0: "activity_inv r0" unfolding r0_def by (rule activity_run_inv)
  define r where "r = activity_coverage (vi_live v) r0"
  have "activity_ok r" using r0 by (simp add: r_def activity_inv_def coverage_ok)
  with assms(1,3,4) have h: "h \<in> set (indexed v sid resolved r)"
    by (intro indexed_has) (simp_all add: r_def coverage_same r0_def)
  from snapshot_rows [OF r0 assms(2) [folded r0_def]] obtain hs r1 where
    rot: "rotated_ok (indexed v sid resolved r) r (hs, r1)"
    and rows: "sn_active sn = map (project v False) (take ACTIVITY_ACTIVE_CAP (found_of hs r1))"
      "sn_overflow sn = (ACTIVITY_ACTIVE_CAP < length (found_of hs r1))" unfolding r_def by blast
  from rot h have "h \<in> set hs" "obs_id (av_objs r1 ! h) = obs_id (av_objs r0 ! h)"
    by (auto simp: rotated_ok_def same_objs_def r_def coverage_same)
  then have "obs_id (av_objs r0 ! h) \<in> obs_id ` (\<lambda>h. av_objs r1 ! h) ` set hs" by (metis imageI)
  then have id: "obs_id (av_objs r0 ! h) \<in> obs_id ` set (found_of hs r1)"
    unfolding found_of_def first_seen_ids by simp
  have "rw_observation (project v False e) = obs_id e" for e by (simp add: project_def Let_def)
  with id rows show ?thesis unfolding r0_def [symmetric]
    by (cases "ACTIVITY_ACTIVE_CAP < length (found_of hs r1)") (auto simp: image_iff)
qed

definition view_all :: view where
  "view_all = \<lparr>vi_owns = (\<lambda>_. True), vi_scope = None, vi_agent = (\<lambda>_. None), vi_live = [''r''], vi_keys = (\<lambda>ks. ks), vi_sids = (\<lambda>ss. ss)\<rparr>"

definition one_run :: activity where
  "one_run = fold activity_step [Track (RunKey ''r'') (Some ''s'') None None None 0] activity_start"

lemma one_run_live: "live_at one_run 0 \<and> ae_sessions (av_objs one_run ! 0) = [''s''] \<and> ae_key (av_objs one_run ! 0) = RunKey ''r''"
  by (simp add: one_run_def activity_start_def activity_track_def lookup_key_def add_entry_def new_entry_def put_addr_def bump_def
      activity_index_def alter_entry_def live_at_def ended_def)

lemma one_run_given: "fst (answer_snapshot True view_all ''s'' ''s'' 1 one_run) \<noteq> None"
proof -
  have "av_blind one_run = None" "av_closed one_run = False" "av_runs one_run = [(''r'', 0)]"
    by (simp_all add: one_run_def activity_start_def activity_track_def lookup_key_def add_entry_def new_entry_def put_addr_def bump_def
        activity_index_def alter_entry_def)
  then show ?thesis
    by (simp add: answer_snapshot_def activity_snapshot_def activity_coverage_def view_all_def Let_def split: prod.split)
qed

theorem activity_never_idle_witness:
  "\<exists>sn. fst (answer_snapshot True view_all ''s'' ''s'' 1 one_run) = Some sn
     \<and> (''r'' \<in> rw_observation ` set (sn_active sn) \<or> sn_overflow sn)"
proof -
  obtain sn where sn: "fst (answer_snapshot True view_all ''s'' ''s'' 1 one_run) = Some sn" using one_run_given by blast
  have v: "\<forall>ks. set (vi_keys view_all ks) = set ks" by (simp add: view_all_def)
  from activity_never_idle [OF v sn [unfolded one_run_def], of 0, folded one_run_def] one_run_live sn show ?thesis by simp
qed

text \<open>
  A snapshot shows at most 8 active rows in the order of their start and at most 4 recent ones that ended
  within ten minutes, no observation twice.
\<close>

theorem activity_snapshot_shape:
  assumes "fst (answer_snapshot reads v sid resolved now (fold activity_step ops activity_start)) = Some sn"
  shows "length (sn_active sn) \<le> 8 \<and> sorted (map rw_started (sn_active sn)) \<and> length (sn_recent sn) \<le> 4
    \<and> distinct (map rw_observation (sn_active sn @ sn_recent sn))
    \<and> (\<forall>x \<in> set (sn_recent sn). \<exists>t. rw_ended x = Some t \<and> now - 600 \<le> t)"
proof -
  from snapshot_rows [OF activity_run_inv assms] obtain hs r1 where
    r1: "activity_inv r1"
    and active: "sn_active sn = map (project v False) (take ACTIVITY_ACTIVE_CAP (found_of hs r1))"
    and recent: "sn_recent sn = map (project v True) (take ACTIVITY_RECENT_SHOW (recent_of v sid resolved now hs r1))" by blast
  have ids: "map rw_observation (map (project v b) es) = map obs_id es" "map rw_started (map (project v b) es) = map ae_started es" for b es
    by (simp_all add: project_def Let_def)
  have s: "sorted (map ae_started (found_of hs r1))" unfolding found_of_def by (rule first_seen_sorted) simp
  have d1: "distinct (map obs_id (found_of hs r1))" unfolding found_of_def using first_seen_distinct by blast
  have d2: "distinct (map obs_id (recent_of v sid resolved now hs r1))"
    "obs_id ` set (recent_of v sid resolved now hs r1) \<inter> obs_id ` set (found_of hs r1) = {}"
    unfolding recent_of_def Let_def using first_seen_distinct [of "map obs_id (found_of hs r1)"] by (blast, simp)
  have "\<exists>t. ae_ended_at e = Some t \<and> now - 600 \<le> t" if "e \<in> set (recent_of v sid resolved now hs r1)" for e
  proof -
    from that obtain s where "e \<in> set (av_recent r1 s)" "now - 600 \<le> (case ae_ended_at e of None \<Rightarrow> 0 | Some t \<Rightarrow> t)"
      unfolding recent_of_def Let_def by (fastforce simp: ACTIVITY_RECENT_TTL_def dest!: subsetD [OF first_seen_sub])
    moreover have "list_all ended (av_recent r1 s)" using r1 activity_okD(4) by (simp add: activity_inv_def)
    ultimately show ?thesis by (auto simp: list_all_iff ended_def)
  qed
  then have within: "\<forall>x \<in> set (sn_recent sn). \<exists>t. rw_ended x = Some t \<and> now - 600 \<le> t"
    unfolding recent by (auto simp: project_def Let_def dest!: in_set_takeD)
  have "distinct (map obs_id (take ACTIVITY_ACTIVE_CAP (found_of hs r1)) @ map obs_id (take ACTIVITY_RECENT_SHOW (recent_of v sid resolved now hs r1)))"
    using d1 d2 by (auto simp: take_map [symmetric] dest!: in_set_takeD)
  then have "distinct (map rw_observation (sn_active sn @ sn_recent sn))" unfolding active recent map_append ids .
  moreover have "sorted (map rw_started (sn_active sn))" unfolding active ids using s by (simp add: take_map [symmetric] sorted_wrt_take)
  ultimately show ?thesis using within unfolding active recent by (simp add: ACTIVITY_ACTIVE_CAP_def ACTIVITY_RECENT_SHOW_def)
qed

theorem activity_snapshot_shape_witness:
  "\<exists>sn. fst (answer_snapshot True view_all ''s'' ''s'' 1 one_run) = Some sn \<and> length (sn_active sn) \<le> 8"
proof -
  obtain sn where sn: "fst (answer_snapshot True view_all ''s'' ''s'' 1 one_run) = Some sn" using one_run_given by blast
  from activity_snapshot_shape [OF sn [unfolded one_run_def]] sn show ?thesis by simp
qed

section \<open>The preview\<close>

text \<open>
  The preview of a message is the longest part of its text, from the front, that takes at most 8 KiB,
  and says exactly when something is left out.
\<close>

theorem activity_preview_longest:
  "text_of m = Some t \<Longrightarrow> list_all scalar t \<Longrightarrow>
   activity_preview m = Some (Some \<lparr>pv_text = fitting ACTIVITY_PREVIEW_CAP t, pv_truncated = (ACTIVITY_PREVIEW_CAP < length (utf8 t))\<rparr>)"
  by (auto simp: activity_preview_def encode_def fitting_all trim_take)

end
