(* ===== verification/Install_Transaction.thy ===== *)
theory Install_Transaction
  imports Prelude
begin

text \<open>
  The \<open>Transaction\<close> of \<open>compat/compat.py\<close>, with which every unit of the plugin binds its wrappers over the
  gateway and takes them back. A place is a class or a dictionary with a name; its own bindings are a map
  from places to objects, and a value of type \<open>'v\<close> is the identity of an object. A class looks a name up in
  itself and then in its ancestors (\<open>inspect.getattr_static\<close>), a dictionary only in itself.
\<close>

type_synonym place = "nat \<times> string"
type_synonym 'v bindings = "place \<Rightarrow> 'v option"

fun inherited :: "'v bindings \<Rightarrow> string \<Rightarrow> nat list \<Rightarrow> 'v option" where
  "inherited own name [] = None"
| "inherited own name (t # ts) = (case own (t, name) of Some v \<Rightarrow> Some v | None \<Rightarrow> inherited own name ts)"

definition static_get :: "(nat \<Rightarrow> nat list) \<Rightarrow> bool \<Rightarrow> 'v bindings \<Rightarrow> place \<Rightarrow> 'v option" where
  "static_get ancestors is_dict own p = (if is_dict then own p else inherited own (snd p) (fst p # ancestors (fst p)))"

record 'v change =
  ch_place :: place
  ch_old :: "'v option"
  ch_value :: 'v
  ch_dict :: bool

text \<open>\<open>set\<close>; \<^const>\<open>None\<close> when the check that is consulted first raises: nothing is bound then.\<close>

definition bind :: "(nat \<Rightarrow> nat list) \<Rightarrow> bool \<Rightarrow> place \<Rightarrow> 'v \<Rightarrow> bool \<Rightarrow> 'v bindings \<times> 'v change list \<Rightarrow> ('v bindings \<times> 'v change list) option" where
  "bind ancestors ok p v is_dict tx = (if \<not> ok then None
     else Some ((fst tx)(p \<mapsto> v),
       snd tx @ [\<lparr>ch_place = p, ch_old = static_get ancestors is_dict (fst tx) p, ch_value = v, ch_dict = is_dict\<rparr>]))"

text \<open>
  One step of \<open>restore\<close>: a place that shows another object by now is left alone; \<^const>\<open>None\<close> when a name is
  deleted from a class that only inherits it.
\<close>

definition restore_one :: "(nat \<Rightarrow> nat list) \<Rightarrow> 'v change \<Rightarrow> 'v bindings \<Rightarrow> 'v bindings option" where
  "restore_one ancestors c own =
     (if static_get ancestors (ch_dict c) own (ch_place c) \<noteq> Some (ch_value c) then Some own
      else case ch_old c of
        None \<Rightarrow> if ch_dict c \<or> own (ch_place c) \<noteq> None then Some (own(ch_place c := None)) else None
      | Some old \<Rightarrow> Some (own(ch_place c \<mapsto> old)))"

fun restore_all :: "(nat \<Rightarrow> nat list) \<Rightarrow> 'v change list \<Rightarrow> 'v bindings \<Rightarrow> 'v bindings option" where
  "restore_all ancestors [] own = Some own"
| "restore_all ancestors (c # cs) own = (case restore_one ancestors c own of None \<Rightarrow> None | Some own' \<Rightarrow> restore_all ancestors cs own')"

text \<open>\<open>restore\<close>, after the cleanups have run: the changes in reverse.\<close>

definition restore :: "(nat \<Rightarrow> nat list) \<Rightarrow> 'v change list \<Rightarrow> 'v bindings \<Rightarrow> 'v bindings option" where
  "restore ancestors changes own = restore_all ancestors (rev changes) own"

section \<open>Restoring undoes\<close>

text \<open>The bindings of an installation, one after the other.\<close>

fun bind_all :: "(nat \<Rightarrow> nat list) \<Rightarrow> (place \<times> 'v \<times> bool) list \<Rightarrow> 'v bindings \<times> 'v change list \<Rightarrow> 'v bindings \<times> 'v change list" where
  "bind_all ancestors [] tx = tx"
| "bind_all ancestors ((p, v, d) # sets) tx = bind_all ancestors sets (the (bind ancestors True p v d tx))"

lemma bind_all_snoc: "bind_all ancestors (sets @ [(p, v, d)]) tx = the (bind ancestors True p v d (bind_all ancestors sets tx))"
  by (induction ancestors sets tx rule: bind_all.induct) simp_all

text \<open>
  No class is bound at a name it only inherits: then the old object is its own, or there was none. (Else the
  inherited object, perhaps a wrapper bound earlier, is written into the class.)
\<close>

definition place_ok :: "(nat \<Rightarrow> nat list) \<Rightarrow> place set \<Rightarrow> 'v bindings \<Rightarrow> place \<Rightarrow> bool \<Rightarrow> bool" where
  "place_ok ancestors bound own p is_dict \<longleftrightarrow> is_dict \<or> own p \<noteq> None \<or>
     (\<forall>t \<in> set (ancestors (fst p)). own (t, snd p) = None \<and> (t, snd p) \<notin> bound)"

definition own_places :: "(nat \<Rightarrow> nat list) \<Rightarrow> (place \<times> 'v \<times> bool) list \<Rightarrow> 'v bindings \<Rightarrow> bool" where
  "own_places ancestors sets own \<longleftrightarrow> (\<forall>(p, v, d) \<in> set sets. place_ok ancestors (fst ` set sets) own p d)"

lemma place_ok_mono: "place_ok ancestors bound own p d \<Longrightarrow> bound' \<subseteq> bound \<Longrightarrow> place_ok ancestors bound' own p d"
  by (auto simp: place_ok_def)

lemma own_places_sub: "own_places ancestors (sets @ [x]) own \<Longrightarrow> own_places ancestors sets own"
proof -
  have sub: "fst ` set sets \<subseteq> fst ` set (sets @ [x])" by auto
  assume "own_places ancestors (sets @ [x]) own"
  then show ?thesis using place_ok_mono [OF _ sub] by (fastforce simp: own_places_def)
qed

lemma static_own: "own p = Some v \<Longrightarrow> static_get ancestors d own p = Some v"
  by (cases p) (simp add: static_get_def)

lemma inherited_none: "(\<And>t. t \<in> set ts \<Longrightarrow> own (t, name) = None) \<Longrightarrow> inherited own name ts = None"
  by (induction ts) auto

lemma bound_places: "(q \<notin> fst ` set sets \<longrightarrow> fst (bind_all ancestors sets (own, cs)) q = own q)
  \<and> (q \<in> fst ` set sets \<longrightarrow> (\<exists>v d. (q, v, d) \<in> set sets \<and> fst (bind_all ancestors sets (own, cs)) q = Some v))"
proof (induction sets rule: rev_induct)
  case (snoc x sets)
  obtain p v d where x: "x = (p, v, d)" by (cases x)
  from snoc show ?case unfolding x by (auto simp: bind_all_snoc bind_def)
qed simp

lemma bind_old:
  assumes "own_places ancestors (sets @ [(p, v, d)]) own"
  shows "static_get ancestors d (fst (bind_all ancestors sets (own, cs))) p = fst (bind_all ancestors sets (own, cs)) p"
proof (cases "d \<or> fst (bind_all ancestors sets (own, cs)) p \<noteq> None")
  case True
  then show ?thesis using static_own [of "fst (bind_all ancestors sets (own, cs))" p] by (auto simp: static_get_def)
next
  case False
  then have "p \<notin> fst ` set sets" using bound_places [where ancestors = ancestors and sets = sets and own = own and cs = cs and q = p] by force
  then have "own p = None" using False bound_places [where ancestors = ancestors and sets = sets and own = own and cs = cs and q = p] by simp
  moreover have "place_ok ancestors (fst ` set (sets @ [(p, v, d)])) own p d"
    using assms unfolding own_places_def by simp
  ultimately have "\<forall>t \<in> set (ancestors (fst p)). own (t, snd p) = None \<and> (t, snd p) \<notin> fst ` set sets"
    using False by (simp add: place_ok_def)
  then have "inherited (fst (bind_all ancestors sets (own, cs))) (snd p) (ancestors (fst p)) = None"
    by (intro inherited_none) (metis bound_places)
  with False show ?thesis by (cases p) (simp add: static_get_def)
qed



end
