(* ===== verification/Runtime_Config.thy ===== *)
theory Runtime_Config
  imports Push_Transport
begin

text \<open>
  \<open>scripts/runtime_config.py\<close>: the selector of the env file, its strict parser, the snapshot resolver and
  the check of URLs; and the defines and properties of a personal build (\<open>scripts/build_app.py\<close>). Texts
  are code points. What the file system answers is an argument: \<open>located\<close> is the absolute path of a
  selector, \<open>files\<close> the content of a file (or the class of the \<open>OSError\<close>), \<open>is_file\<close> whether there is one.
\<close>

section \<open>Errors\<close>

text \<open>The kinds of \<open>ConfigError\<close>; \<open>Undecodable\<close> is the \<open>UnicodeDecodeError\<close> that no handler here catches.\<close>

datatype cfg_error = Conflict | Unbalanced | Duplicate utext | Unreadable string | Selected_missing | File_missing
  | Empty_value utext | Not_configured utext | Malformed_url | Needs_host | Has_userinfo | Has_query | Has_path | Bad_port
  | Undecodable

section \<open>The selector\<close>

type_synonym environ = "utext \<Rightarrow> utext option"

definition SELECTOR_VAR :: utext where "SELECTOR_VAR = uni ''HERMES_ENV_FILE''"
definition LEGACY_SELECTOR_VAR :: utext where "LEGACY_SELECTOR_VAR = uni ''HERMES_WEB_ENV''"
definition API_KEY_NAME :: utext where "API_KEY_NAME = uni ''API_SERVER_KEY''"

text \<open>\<open>(env.get(name) or "").strip()\<close>\<close>

definition env_text :: "environ \<Rightarrow> utext \<Rightarrow> utext" where
  "env_text env name = ustrip (case env name of None \<Rightarrow> [] | Some v \<Rightarrow> v)"

definition select_env_file :: "(utext \<Rightarrow> 'p) \<Rightarrow> (utext \<Rightarrow> 'p) \<Rightarrow> utext \<Rightarrow> environ \<Rightarrow> cfg_error + 'p" where
  "select_env_file located at_home home env =
     (let picks = map located (filter (\<lambda>raw. raw \<noteq> []) (map (env_text env) [SELECTOR_VAR, LEGACY_SELECTOR_VAR]))
      in case picks of
        [] \<Rightarrow> Inr (at_home (case env (uni ''HOME'') of None \<Rightarrow> home | Some h \<Rightarrow> if h = [] then home else h))
      | p # rest \<Rightarrow> if rest \<noteq> [] \<and> hd rest \<noteq> p then Inl Conflict else Inr p)"

section \<open>The parser\<close>

definition DQUOTE :: nat where "DQUOTE = 34"
definition SQUOTE :: nat where "SQUOTE = 39"
definition EQUALS :: nat where "EQUALS = 61"

definition quote_mark :: "nat \<Rightarrow> bool" where
  "quote_mark c \<longleftrightarrow> c = DQUOTE \<or> c = SQUOTE"

definition line_end :: "nat \<Rightarrow> bool" where
  "line_end c \<longleftrightarrow> c \<in> {10, 11, 12, 13, 28, 29, 30, 0x85, 0x2028, 0x2029}"

text \<open>\<open>str.splitlines()\<close>; the first argument is the line so far, reversed.\<close>

fun lines_from :: "utext \<Rightarrow> utext \<Rightarrow> utext list" where
  "lines_from acc [] = (if acc = [] then [] else [rev acc])"
| "lines_from acc (c # s) =
     (if line_end c then rev acc # lines_from [] (if c = 13 \<and> take 1 s = [10] then drop 1 s else s)
      else lines_from (c # acc) s)"

definition splitlines :: "utext \<Rightarrow> utext list" where
  "splitlines s = lines_from [] s"

text \<open>The line before its comment; \<^const>\<open>None\<close> for a quote that stays open.\<close>

fun strip_comment :: "nat option \<Rightarrow> utext \<Rightarrow> utext option" where
  "strip_comment q [] = (if q = None then Some [] else None)"
| "strip_comment (Some q) (c # s) = map_option (Cons c) (strip_comment (if c = q then None else Some q) s)"
| "strip_comment None (c # s) =
     (if quote_mark c then map_option (Cons c) (strip_comment (Some c) s)
      else if c = HASH then Some []
      else map_option (Cons c) (strip_comment None s))"

definition unquote_value :: "utext \<Rightarrow> (utext \<times> bool) option" where
  "unquote_value v0 = (let v = ustrip v0 in
     if 2 \<le> length v \<and> hd v = last v \<and> quote_mark (hd v) then Some (butlast (tl v), True)
     else if v \<noteq> [] \<and> quote_mark (hd v) then None
     else Some (v, False))"

definition name_start :: "nat \<Rightarrow> bool" where
  "name_start c \<longleftrightarrow> ascii_letter c \<or> c = 95"

definition name_char :: "nat \<Rightarrow> bool" where
  "name_char c \<longleftrightarrow> name_start c \<or> (48 \<le> c \<and> c \<le> 57)"

text \<open>\<open>([A-Za-z_][A-Za-z0-9_]*)\s*=(.*)$\<close>\<close>

definition plain_assign :: "utext \<Rightarrow> (utext \<times> utext) option" where
  "plain_assign s = (let rest = dropWhile uspace (dropWhile name_char s) in
     if s \<noteq> [] \<and> name_start (hd s) \<and> rest \<noteq> [] \<and> hd rest = EQUALS then Some (takeWhile name_char s, tl rest) else None)"

text \<open>\<open>_ASSIGN\<close>: the optional \<open>export\<close>, and without it where that reading fails.\<close>

definition assignment :: "utext \<Rightarrow> (utext \<times> utext) option" where
  "assignment s = (let after = drop 6 s in
     case (if take 6 s = uni ''export'' \<and> after \<noteq> [] \<and> uspace (hd after) then plain_assign (dropWhile uspace after) else None) of
       Some r \<Rightarrow> Some r
     | None \<Rightarrow> plain_assign s)"

text \<open>One line: what it defines, \<^const>\<open>None\<close> for nothing.\<close>

definition env_line :: "utext \<Rightarrow> cfg_error + (utext \<times> utext) option" where
  "env_line raw = (let line = ustrip raw in
     if line = [] \<or> hd line = HASH then Inr None
     else case strip_comment None line of
       None \<Rightarrow> Inl Unbalanced
     | Some rest \<Rightarrow> (case assignment rest of
         None \<Rightarrow> Inr None
       | Some (name, tail) \<Rightarrow> (case unquote_value tail of
           None \<Rightarrow> Inl Unbalanced
         | Some (v, quoted) \<Rightarrow> Inr (Some (name, v)))))"

type_synonym settings = "(utext \<times> utext) list"

fun env_lines :: "utext list option \<Rightarrow> utext list \<Rightarrow> settings \<Rightarrow> cfg_error + settings" where
  "env_lines names [] found = Inr found"
| "env_lines names (raw # lines) found = (case env_line raw of
     Inl e \<Rightarrow> Inl e
   | Inr None \<Rightarrow> env_lines names lines found
   | Inr (Some (name, v)) \<Rightarrow>
       if (case names of None \<Rightarrow> False | Some ns \<Rightarrow> name \<notin> set ns) then env_lines names lines found
       else if name \<in> fst ` set found then Inl (Duplicate name)
       else env_lines names lines (found @ [(name, v)]))"

type_synonym 'p files = "'p \<Rightarrow> string + bytes"

definition parse_env_file :: "'p files \<Rightarrow> 'p \<Rightarrow> utext list option \<Rightarrow> cfg_error + settings" where
  "parse_env_file files path names = (case files path of
     Inl cls \<Rightarrow> Inl (Unreadable cls)
   | Inr bs \<Rightarrow> (case decode bs of
       None \<Rightarrow> Inl Undecodable
     | Some text \<Rightarrow> env_lines names (splitlines text) []))"

text \<open>\<open>read_key\<close>: a \<open>ConfigError\<close> is no key, an undecodable file still raises.\<close>

definition read_key :: "'p files \<Rightarrow> 'p \<Rightarrow> utext \<Rightarrow> cfg_error + utext option" where
  "read_key files path name = (case parse_env_file files path (Some [name]) of
     Inl e \<Rightarrow> if e = Undecodable then Inl e else Inr None
   | Inr found \<Rightarrow> Inr (case map_of found name of None \<Rightarrow> None | Some v \<Rightarrow> if v = [] then None else Some v))"

section \<open>The resolver\<close>

record 'p resolver =
  rv_path :: 'p
  rv_exists :: bool
  rv_file :: "settings option"

definition new_resolver :: "(utext \<Rightarrow> 'p) \<Rightarrow> (utext \<Rightarrow> 'p) \<Rightarrow> utext \<Rightarrow> ('p \<Rightarrow> bool) \<Rightarrow> environ \<Rightarrow> 'p option
    \<Rightarrow> cfg_error + 'p resolver" where
  "new_resolver located at_home home is_file env env_file =
     (case (case env_file of Some p \<Rightarrow> Inr p | None \<Rightarrow> select_env_file located at_home home env) of
       Inl e \<Rightarrow> Inl e
     | Inr path \<Rightarrow>
         if is_file path then Inr \<lparr>rv_path = path, rv_exists = True, rv_file = Some []\<rparr>
         else if list_ex (\<lambda>k. env_text env k \<noteq> []) [SELECTOR_VAR, LEGACY_SELECTOR_VAR] then Inl Selected_missing
         else Inr \<lparr>rv_path = path, rv_exists = False, rv_file = None\<rparr>)"

definition cfg_values :: "'p files \<Rightarrow> utext list \<Rightarrow> 'p resolver \<Rightarrow> (cfg_error + settings) \<times> 'p resolver" where
  "cfg_values files names rv = (case rv_file rv of
     None \<Rightarrow> (Inl File_missing, rv)
   | Some kv \<Rightarrow> if kv = [] \<and> rv_exists rv then
         (case parse_env_file files (rv_path rv) (Some names) of
           Inl e \<Rightarrow> (Inl e, rv)
         | Inr kv' \<Rightarrow> (Inr kv', rv\<lparr>rv_file := Some kv'\<rparr>))
       else (Inr kv, rv))"

text \<open>What the settings of the file give, and the default after them.\<close>

definition from_settings :: "utext \<Rightarrow> utext option \<Rightarrow> bool \<Rightarrow> settings \<Rightarrow> cfg_error + utext" where
  "from_settings name dflt required kv =
     (let fallback = (case dflt of
          Some d \<Rightarrow> if required then Inl (Not_configured name) else Inr d
        | None \<Rightarrow> if required then Inl (Not_configured name) else Inr [])
      in case map_of kv name of
        None \<Rightarrow> fallback
      | Some v \<Rightarrow> if ustrip v \<noteq> [] then Inr (ustrip v) else if required then Inl (Empty_value name) else fallback)"

definition resolve :: "'p files \<Rightarrow> environ \<Rightarrow> utext \<Rightarrow> utext option \<Rightarrow> bool \<Rightarrow> utext list option \<Rightarrow> 'p resolver
    \<Rightarrow> (cfg_error + utext) \<times> 'p resolver" where
  "resolve files env name dflt required allowlist rv =
     (let from_env = (if name = API_KEY_NAME then [] else env_text env name)
      in if from_env \<noteq> [] then (Inr from_env, rv)
         else case cfg_values files (case allowlist of None \<Rightarrow> [name] | Some ns \<Rightarrow> ns) rv of
           (Inl e, rv1) \<Rightarrow>
             if e = Undecodable \<or> required \<or> dflt = None then (Inl e, rv1)
             else (from_settings name dflt required [], rv1)
         | (Inr kv, rv1) \<Rightarrow> (from_settings name dflt required kv, rv1))"

definition cfg_source :: "'p files \<Rightarrow> environ \<Rightarrow> utext \<Rightarrow> 'p resolver \<Rightarrow> (cfg_error + string) \<times> 'p resolver" where
  "cfg_source files env name rv =
     (if env_text env name \<noteq> [] then (Inr ''env'', rv)
      else case cfg_values files [name] rv of
        (Inl e, rv1) \<Rightarrow> (if e = Undecodable then Inl e else Inr ''default'', rv1)
      | (Inr kv, rv1) \<Rightarrow>
          (Inr (if ustrip (case map_of kv name of None \<Rightarrow> [] | Some v \<Rightarrow> v) \<noteq> [] then ''file'' else ''default''), rv1))"

definition key_present :: "'p files \<Rightarrow> 'p resolver \<Rightarrow> cfg_error + bool" where
  "key_present files rv = (case read_key files (rv_path rv) API_KEY_NAME of
     Inl e \<Rightarrow> Inl e | Inr k \<Rightarrow> Inr (k \<noteq> None))"

section \<open>URLs\<close>

definition AT_SIGN :: nat where "AT_SIGN = 64"

text \<open>The parts of a netloc: user and password where there is an \<open>@\<close>, the host, the port text.\<close>

definition userinfo_of :: "utext \<Rightarrow> (utext \<times> utext option) option" where
  "userinfo_of netloc = (if AT_SIGN \<in> set netloc
     then let u = rev (tl (from_first (\<lambda>c. c = AT_SIGN) (rev netloc)))
          in Some (till (\<lambda>c. c = COLON) u, if COLON \<in> set u then Some (drop 1 (from_first (\<lambda>c. c = COLON) u)) else None)
     else None)"

definition hostinfo_of :: "utext \<Rightarrow> utext \<times> utext" where
  "hostinfo_of netloc =
     (let h = rev (till (\<lambda>c. c = AT_SIGN) (rev netloc))
      in if 91 \<in> set h
         then let b = drop 1 (from_first (\<lambda>c. c = 91) h); after = drop 1 (from_first (\<lambda>c. c = 93) b)
              in (till (\<lambda>c. c = 93) b, drop 1 (from_first (\<lambda>c. c = COLON) after))
         else (till (\<lambda>c. c = COLON) h, drop 1 (from_first (\<lambda>c. c = COLON) h)))"

definition digits_value :: "utext \<Rightarrow> nat" where
  "digits_value s = foldl (\<lambda>n c. 10 * n + (c - 48)) 0 s"

text \<open>\<open>parts.port\<close>: \<^const>\<open>None\<close> when it raises.\<close>

definition port_of :: "utext \<Rightarrow> nat option option" where
  "port_of netloc = (let p = snd (hostinfo_of netloc) in
     if p = [] then Some None
     else if list_all (\<lambda>c. 48 \<le> c \<and> c \<le> 57) p \<and> digits_value p \<le> 65535 then Some (Some (digits_value p))
     else None)"

definition validate_url :: "(utext \<Rightarrow> bool) \<Rightarrow> bool \<Rightarrow> utext \<Rightarrow> cfg_error + utext" where
  "validate_url special_ok allow_path v = (case urlsplit special_ok v of
     None \<Rightarrow> Inl Malformed_url
   | Some p \<Rightarrow> (case port_of (up_netloc p) of
       None \<Rightarrow> Inl Malformed_url
     | Some port \<Rightarrow>
         if up_scheme p \<notin> {uni ''http'', uni ''https''} \<or> fst (hostinfo_of (up_netloc p)) = [] then Inl Needs_host
         else if (case userinfo_of (up_netloc p) of None \<Rightarrow> False | Some (u, pw) \<Rightarrow> u \<noteq> [] \<or> (pw \<noteq> None \<and> pw \<noteq> Some [])) then Inl Has_userinfo
         else if up_query p \<noteq> [] \<or> up_fragment p \<noteq> [] then Inl Has_query
         else if \<not> allow_path \<and> up_path p \<noteq> [] \<and> up_path p \<noteq> [SLASH] then Inl Has_path
         else if port = Some 0 then Inl Bad_port
         else Inr (if v \<noteq> [] \<and> last v = SLASH then butlast v else v)))"

section \<open>The personal build\<close>

definition URL_DEFINE :: utext where "URL_DEFINE = uni ''HERMES_APP_DEFAULT_URL''"
definition LEGACY_DEFINE :: utext where "LEGACY_DEFINE = uni ''HERMES_APP_LEGACY_URL''"
definition LINK_DEFINE :: utext where "LINK_DEFINE = uni ''HERMES_APP_DEEPLINK_URL''"

text \<open>How a build stops: the message's subject and, where a \<open>ConfigError\<close> is behind it, its kind.\<close>

datatype build_stop = No_config cfg_error | Needs_default cfg_error | Bad_legacy cfg_error | Same_url
  | Needs_link cfg_error | Link_port | Crashed

definition stopped :: "(cfg_error \<Rightarrow> build_stop) \<Rightarrow> cfg_error \<Rightarrow> build_stop" where
  "stopped k e = (if e = Undecodable then Crashed else k e)"

definition dart_define :: "utext \<Rightarrow> utext \<Rightarrow> utext" where
  "dart_define name v = uni ''--dart-define='' @ name @ EQUALS # v"

definition personal_defines :: "(utext \<Rightarrow> bool) \<Rightarrow> 'p files \<Rightarrow> environ \<Rightarrow> cfg_error + 'p resolver \<Rightarrow> build_stop + utext list" where
  "personal_defines special_ok files env made = (case made of
     Inl e \<Rightarrow> Inl (stopped No_config e)
   | Inr rv \<Rightarrow> (case resolve files env URL_DEFINE None True None rv of
       (Inl e, rv1) \<Rightarrow> Inl (stopped Needs_default e)
     | (Inr dflt, rv1) \<Rightarrow> (case validate_url special_ok True dflt of
         Inl e \<Rightarrow> Inl (stopped Needs_default e)
       | Inr _ \<Rightarrow> (case resolve files env LEGACY_DEFINE (Some []) False None rv1 of
           (Inl e, rv2) \<Rightarrow> Inl (stopped Bad_legacy e)
         | (Inr legacy, rv2) \<Rightarrow>
             (case (if legacy = [] then Inr [] else validate_url special_ok True legacy) of
               Inl e \<Rightarrow> Inl (stopped Bad_legacy e)
             | Inr _ \<Rightarrow> if legacy = dflt then Inl Same_url
                 else Inr [dart_define URL_DEFINE dflt, dart_define LEGACY_DEFINE legacy])))))"

text \<open>\<open>parts.path.rstrip("/") or "/"\<close>; the host in lower case.\<close>

definition deeplink_gradle_args :: "(utext \<Rightarrow> bool) \<Rightarrow> (utext \<Rightarrow> utext) \<Rightarrow> 'p files \<Rightarrow> environ \<Rightarrow> cfg_error + 'p resolver
    \<Rightarrow> build_stop + utext list" where
  "deeplink_gradle_args special_ok lower files env made = (case made of
     Inl e \<Rightarrow> Inl (stopped Needs_link e)
   | Inr rv \<Rightarrow> (case resolve files env LINK_DEFINE None True None rv of
       (Inl e, rv1) \<Rightarrow> Inl (stopped Needs_link e)
     | (Inr raw, rv1) \<Rightarrow> (case validate_url special_ok True raw of
         Inl e \<Rightarrow> Inl (stopped Needs_link e)
       | Inr v \<Rightarrow> (case urlsplit special_ok v of
           None \<Rightarrow> Inl Crashed
         | Some p \<Rightarrow> (case port_of (up_netloc p) of
             None \<Rightarrow> Inl Crashed
           | Some port \<Rightarrow>
               if port \<noteq> None \<and> port \<noteq> Some 0 then Inl Link_port
               else let path = rev (dropWhile (\<lambda>c. c = SLASH) (rev (up_path p)))
                    in Inr [uni ''-Pdeeplink.host='' @ lower (fst (hostinfo_of (up_netloc p))),
                            uni ''-Pdeeplink.path='' @ (if path = [] then [SLASH] else path)])))))"

end
