(* ===== verification/Runtime_Properties.thy ===== *)
theory Runtime_Properties
  imports Runtime_Config
begin

text \<open>
  The env file reads back what was written to it, the resolver answers as a fresh one as long as every
  lookup names the same settings, and what follows for a personal build, whose lookups do not.
\<close>

section \<open>Reading what was written\<close>

definition valid_name :: "utext \<Rightarrow> bool" where
  "valid_name n \<longleftrightarrow> n \<noteq> [] \<and> name_start (hd n) \<and> list_all name_char n"

definition quotable :: "nat \<Rightarrow> utext \<Rightarrow> bool" where
  "quotable q v \<longleftrightarrow> list_all (\<lambda>c. \<not> line_end c \<and> c \<noteq> q) v"

definition env_entry :: "nat \<Rightarrow> utext \<times> utext \<Rightarrow> utext" where
  "env_entry q nv = fst nv @ EQUALS # q # snd nv @ [q]"

definition env_text_of :: "nat \<Rightarrow> settings \<Rightarrow> utext" where
  "env_text_of q kvs = concat (map (\<lambda>nv. env_entry q nv @ [10]) kvs)"

definition allowed :: "utext list option \<Rightarrow> settings \<Rightarrow> settings" where
  "allowed names kvs = (case names of None \<Rightarrow> kvs | Some ns \<Rightarrow> filter (\<lambda>nv. fst nv \<in> set ns) kvs)"

lemma lines_until: "list_all (\<lambda>c. \<not> line_end c) s \<Longrightarrow> lines_from acc (s @ 10 # t) = (rev acc @ s) # lines_from [] t"
  by (induction s arbitrary: acc) (simp_all add: line_end_def)

lemma drop_none: "s \<noteq> [] \<Longrightarrow> \<not> P (hd s) \<Longrightarrow> dropWhile P s = s"
  by (cases s) simp_all

lemma ustrip_id: "s \<noteq> [] \<Longrightarrow> \<not> uspace (hd s) \<Longrightarrow> \<not> uspace (last s) \<Longrightarrow> ustrip s = s"
  using drop_none [of s uspace] drop_none [of "rev s" uspace] by (simp add: ustrip_def hd_rev)

lemma name_char_plain: "name_char c \<Longrightarrow> \<not> quote_mark c \<and> c \<noteq> HASH \<and> \<not> line_end c \<and> \<not> uspace c \<and> c \<noteq> EQUALS"
  by (auto simp: name_char_def name_start_def ascii_letter_def quote_mark_def DQUOTE_def SQUOTE_def HASH_def EQUALS_def
      line_end_def uspace_def)

lemma marks: "\<not> name_char EQUALS" "\<not> uspace EQUALS" "\<not> quote_mark EQUALS" "EQUALS \<noteq> HASH" "\<not> line_end EQUALS"
  by (simp_all add: name_char_def name_start_def ascii_letter_def EQUALS_def uspace_def quote_mark_def DQUOTE_def SQUOTE_def HASH_def
      line_end_def)

lemma quote_plain: "quote_mark q \<Longrightarrow> \<not> uspace q \<and> \<not> line_end q \<and> q \<noteq> HASH"
  by (auto simp: quote_mark_def DQUOTE_def SQUOTE_def uspace_def line_end_def HASH_def)

lemma strip_plain:
  "list_all (\<lambda>c. \<not> quote_mark c \<and> c \<noteq> HASH) s \<Longrightarrow> strip_comment None (s @ t) = map_option ((@) s) (strip_comment None t)"
  by (induction s) (cases "strip_comment None t"; simp)+

lemma strip_quoted:
  "list_all (\<lambda>c. c \<noteq> q) v \<Longrightarrow> strip_comment (Some q) (v @ q # t) = map_option (\<lambda>s. v @ q # s) (strip_comment None t)"
  by (induction v) (simp_all add: option.map_comp comp_def)

lemma name_prefix: "list_all P n \<Longrightarrow> \<not> P c \<Longrightarrow> takeWhile P (n @ c # t) = n \<and> dropWhile P (n @ c # t) = c # t"
  by (induction n) simp_all

lemma plain_assign_entry: "valid_name n \<Longrightarrow> plain_assign (n @ EQUALS # t) = Some (n, t)"
  using name_prefix [of name_char n EQUALS t] by (simp add: plain_assign_def valid_name_def marks Let_def)

lemma no_export:
  assumes "valid_name n" "take 6 (n @ EQUALS # t) = uni ''export''" "drop 6 (n @ EQUALS # t) \<noteq> []"
  shows "\<not> uspace (hd (drop 6 (n @ EQUALS # t)))"
proof (cases "length n < 6")
  case True
  then have "EQUALS \<in> set (take 6 (n @ EQUALS # t))" by (simp add: take_Cons')
  with assms(2) show ?thesis by (auto simp: uni_def EQUALS_def)
next
  case False
  show ?thesis
  proof (cases "drop 6 n")
    case Nil
    with False show ?thesis by (simp add: marks)
  next
    case (Cons c cs)
    then have "c \<in> set n" by (metis in_set_dropD list.set_intros(1))
    with assms(1) have "\<not> uspace c" by (auto simp: valid_name_def list_all_iff dest: name_char_plain)
    with Cons show ?thesis using False by simp
  qed
qed

lemma assignment_entry: "valid_name n \<Longrightarrow> assignment (n @ EQUALS # t) = Some (n, t)"
  using no_export [of n t] plain_assign_entry [of n t] by (auto simp: assignment_def Let_def)

lemma env_line_entry:
  assumes "valid_name n" "quote_mark q" "quotable q v"
  shows "env_line (env_entry q (n, v)) = Inr (Some (n, v))"
proof -
  let ?l = "n @ EQUALS # q # v @ [q]"
  have n: "n \<noteq> []" "list_all name_char n" using assms(1) by (auto simp: valid_name_def)
  then obtain c cs where c: "n = c # cs" "name_char c" by (cases n) auto
  have st: "ustrip ?l = ?l"
    using c quote_plain [OF assms(2)] name_char_plain [of c] by (intro ustrip_id) auto
  have sc: "strip_comment None ?l = Some ?l"
  proof -
    have "list_all (\<lambda>c. \<not> quote_mark c \<and> c \<noteq> HASH) (n @ [EQUALS])"
      using n(2) name_char_plain by (auto simp: list_all_iff marks)
    from strip_plain [OF this, of "q # v @ [q]"]
    show ?thesis using assms strip_quoted [of q v "[]"] by (simp add: quotable_def list_all_iff)
  qed
  have uq: "unquote_value (q # v @ [q]) = Some (v, True)"
    using assms(2) quote_plain [OF assms(2)] ustrip_id [of "q # v @ [q]"] by (simp add: unquote_value_def)
  have "hd ?l \<noteq> HASH" using c name_char_plain [of c] by simp
  then show ?thesis
    using st sc uq assignment_entry [OF assms(1), of "q # v @ [q]"] n(1) by (simp add: env_line_def env_entry_def Let_def)
qed

lemma lines_of_entries:
  assumes "quote_mark q" "list_all (\<lambda>nv. valid_name (fst nv) \<and> quotable q (snd nv)) kvs"
  shows "splitlines (env_text_of q kvs) = map (env_entry q) kvs"
  using assms(2)
proof (induction kvs)
  case Nil
  show ?case by (simp add: splitlines_def env_text_of_def)
next
  case (Cons nv kvs)
  have "list_all (\<lambda>c. \<not> line_end c) (env_entry q nv)"
    using Cons.prems quote_plain [OF assms(1)] marks name_char_plain
    by (auto simp: env_entry_def valid_name_def quotable_def list_all_iff)
  from lines_until [OF this, of "[]" "env_text_of q kvs"] Cons show ?case
    by (simp add: splitlines_def env_text_of_def)
qed

lemma env_lines_entries:
  assumes "quote_mark q" "list_all (\<lambda>nv. valid_name (fst nv) \<and> quotable q (snd nv)) kvs"
    "distinct (map fst kvs)" "fst ` set kvs \<inter> fst ` set found = {}"
  shows "env_lines names (map (env_entry q) kvs) found = Inr (found @ allowed names kvs)"
  using assms(2-)
proof (induction kvs arbitrary: found)
  case Nil
  show ?case by (simp add: allowed_def split: option.split)
next
  case (Cons nv kvs)
  obtain n v where nv: "nv = (n, v)" by (cases nv)
  have l: "env_line (env_entry q (n, v)) = Inr (Some (n, v))"
    using Cons.prems(1) nv assms(1) by (simp add: env_line_entry)
  have f1: "fst ` set kvs \<inter> fst ` set found = {}" and f2: "fst ` set kvs \<inter> fst ` set (found @ [(n, v)]) = {}"
    and f3: "n \<notin> fst ` set found"
    using Cons.prems(2,3) nv by auto
  have k: "list_all (\<lambda>nv. valid_name (fst nv) \<and> quotable q (snd nv)) kvs" "distinct (map fst kvs)"
    using Cons.prems by simp_all
  show ?case
    using Cons.IH [OF k f1] Cons.IH [OF k f2] l f3 by (auto simp: nv allowed_def split: option.split)
qed

definition settings_ok :: "nat \<Rightarrow> settings \<Rightarrow> bool" where
  "settings_ok q kvs \<longleftrightarrow> quote_mark q \<and> distinct (map fst kvs)
     \<and> list_all (\<lambda>nv. valid_name (fst nv) \<and> quotable q (snd nv) \<and> list_all scalar (snd nv)) kvs"

lemma name_scalar: "name_char c \<Longrightarrow> scalar c"
  by (auto simp: name_char_def name_start_def ascii_letter_def scalar_def)

lemma quote_scalar: "quote_mark c \<Longrightarrow> scalar c"
  by (auto simp: quote_mark_def DQUOTE_def SQUOTE_def scalar_def)

lemma entries_scalar: "settings_ok q kvs \<Longrightarrow> list_all scalar (env_text_of q kvs)"
  using name_scalar quote_scalar [of q]
  by (auto simp: settings_ok_def env_text_of_def env_entry_def valid_name_def list_all_iff EQUALS_def) (simp_all add: scalar_def)

lemma parse_entries:
  "settings_ok q kvs \<Longrightarrow> files p = Inr (utf8 (env_text_of q kvs)) \<Longrightarrow> parse_env_file files p names = Inr (allowed names kvs)"
  using entries_scalar [of q kvs] lines_of_entries [of q kvs] env_lines_entries [of q kvs "[]" names]
  by (simp add: parse_env_file_def decode_utf8 settings_ok_def list_all_iff)

text \<open>
  Writing settings to an env file as \<open>NAME="value"\<close> lines, with either kind of quote, and parsing it
  gives back exactly the settings that were asked for, in their order: nothing in a value is expanded, cut or
  taken for a comment, and names outside the allowlist are left out.
\<close>

theorem env_file_roundtrip:
  assumes "settings_ok q kvs" "files p = Inr (utf8 (env_text_of q kvs))"
  shows "parse_env_file files p names = Inr (allowed names kvs)"
  using assms by (rule parse_entries)

definition two_urls :: settings where
  "two_urls = [(URL_DEFINE, uni ''https://a.example''), (LEGACY_DEFINE, uni ''https://b.example # not a comment'')]"

lemma two_urls_ok: "settings_ok DQUOTE two_urls"
  by (simp add: settings_ok_def two_urls_def quotable_def line_end_def uni_def scalar_def URL_DEFINE_def LEGACY_DEFINE_def
      valid_name_def name_char_def name_start_def ascii_letter_def quote_mark_def DQUOTE_def)

theorem env_file_roundtrip_witness:
  "parse_env_file (\<lambda>_ :: nat. Inr (utf8 (env_text_of DQUOTE two_urls))) 0 (Some [LEGACY_DEFINE])
    = Inr [(LEGACY_DEFINE, uni ''https://b.example # not a comment'')]"
  using env_file_roundtrip [OF two_urls_ok, of "\<lambda>_ :: nat. Inr (utf8 (env_text_of DQUOTE two_urls))" 0 "Some [LEGACY_DEFINE]"]
  by (simp add: allowed_def two_urls_def URL_DEFINE_def LEGACY_DEFINE_def uni_def)

section \<open>The snapshot\<close>

text \<open>Lookups with one allowlist, each under the environment of its time.\<close>

type_synonym lookup = "environ \<times> utext \<times> utext option \<times> bool"

definition run_lookups :: "'p files \<Rightarrow> utext list \<Rightarrow> lookup list \<Rightarrow> 'p resolver \<Rightarrow> 'p resolver" where
  "run_lookups files ns ops rv =
     fold (\<lambda>(env, name, dflt, required) r. snd (resolve files env name dflt required (Some ns) r)) ops rv"

definition snapshot_of :: "'p files \<Rightarrow> utext list \<Rightarrow> 'p resolver \<Rightarrow> 'p resolver \<Rightarrow> bool" where
  "snapshot_of files ns rv r \<longleftrightarrow> r = rv
     \<or> (\<exists>kv. rv_file rv = Some [] \<and> rv_exists rv \<and> parse_env_file files (rv_path rv) (Some ns) = Inr kv \<and> r = rv\<lparr>rv_file := Some kv\<rparr>)"

lemma snapshot_values:
  assumes "snapshot_of files ns rv r"
  shows "fst (cfg_values files ns r) = fst (cfg_values files ns rv)" "snapshot_of files ns rv (snd (cfg_values files ns r))"
  using assms
  by (auto simp: snapshot_of_def cfg_values_def split: option.splits sum.splits)

lemma resolve_by_values:
  "fst (resolve files env name dflt required (Some ns) r)
     = (let from_env = (if name = API_KEY_NAME then [] else env_text env name) in
        if from_env \<noteq> [] then Inr from_env
        else case fst (cfg_values files ns r) of
          Inl e \<Rightarrow> if e = Undecodable \<or> required \<or> dflt = None then Inl e else from_settings name dflt required []
        | Inr kv \<Rightarrow> from_settings name dflt required kv)"
  "snd (resolve files env name dflt required (Some ns) r) \<in> {r, snd (cfg_values files ns r)}"
  by (auto simp: resolve_def Let_def split: prod.split sum.split)

lemma snapshot_lookups: "snapshot_of files ns rv r \<Longrightarrow> snapshot_of files ns rv (run_lookups files ns ops r)"
proof (induction ops arbitrary: r)
  case (Cons op ops)
  obtain env name dflt required where op: "op = (env, name, dflt, required)" by (cases op)
  have "snapshot_of files ns rv (snd (resolve files env name dflt required (Some ns) r))"
    using resolve_by_values(2) [of files env name dflt required ns r] snapshot_values(2) [OF Cons.prems] Cons.prems by auto
  from Cons.IH [OF this] show ?case by (simp add: op run_lookups_def)
qed (simp add: run_lookups_def)

text \<open>
  Lookups that share one allowlist, as those of the web service do, do not influence each other: after any
  of them, whatever the environments they saw, a lookup answers as it would have on the fresh resolver of the
  same file. And the answer for the API key is the same under every environment.
\<close>

theorem resolver_shared_names:
  "fst (resolve files env name dflt required (Some ns) (run_lookups files ns ops rv))
     = fst (resolve files env name dflt required (Some ns) rv)
   \<and> fst (resolve files env API_KEY_NAME dflt required (Some ns) (run_lookups files ns ops rv))
     = fst (resolve files env' API_KEY_NAME dflt required (Some ns) rv)"
proof -
  have "snapshot_of files ns rv (run_lookups files ns ops rv)"
    by (rule snapshot_lookups) (simp add: snapshot_of_def)
  from snapshot_values(1) [OF this] show ?thesis by (simp add: resolve_by_values(1) Let_def)
qed

section \<open>A personal build\<close>

lemma map_of_filter_fst: "map_of (filter (\<lambda>nv. fst nv = k) kvs) k = map_of kvs k"
  by (induction kvs) auto


definition build_settings :: settings where
  "build_settings = [(URL_DEFINE, uni ''https://a.example''), (LEGACY_DEFINE, uni ''https://b.example'')]"

definition build_resolver :: "nat resolver" where
  "build_resolver = \<lparr>rv_path = 0, rv_exists = True, rv_file = Some []\<rparr>"

lemma build_example:
  "settings_ok DQUOTE build_settings" "map_of build_settings URL_DEFINE = Some (uni ''https://a.example'')"
  "ustrip (uni ''https://a.example'') = uni ''https://a.example''"
  "validate_url (\<lambda>_. False) True (uni ''https://a.example'') = Inr (uni ''https://a.example'')"
  "map_of build_settings LEGACY_DEFINE = Some (uni ''https://b.example'')"
  by (simp_all add: settings_ok_def build_settings_def quotable_def line_end_def uni_def scalar_def URL_DEFINE_def LEGACY_DEFINE_def
      valid_name_def name_char_def name_start_def ascii_letter_def quote_mark_def DQUOTE_def ustrip_def uspace_def)
    (simp add: validate_url_def urlsplit_def clean_url_def split_scheme_def split_netloc_def till_def from_first_def uni_def
      port_of_def hostinfo_of_def userinfo_of_def COLON_def SLASH_def QUERY_def HASH_def AT_SIGN_def scheme_char_def
      ascii_letter_def lower_ascii_def Let_def)


section \<open>What the parser refuses\<close>

text \<open>A quote left open on any line, also one that defines an unrelated name, makes the file unreadable.\<close>

lemma unrelated_quote_fails:
  "env_line raw = Inl Unbalanced \<Longrightarrow> \<exists>e. env_lines names (pre @ raw # post) found = Inl e"
  by (induction names pre found rule: env_lines.induct) (auto split: sum.splits option.splits)

end
