(* ===== verification/Row_Projection.thy ===== *)
theory Row_Projection
  imports Json "HOL-Library.List_Lexorder" "HOL-Library.Char_ord"
begin

text \<open>
  What the app is shown in place of the rows of the gateway: the text it injected into a foreign session as
  the turn of a person (\<open>compat/injected_rows.py\<close>), the turns of its own HTTP clients as turns of a person
  (\<open>compat/api_turn_display.py\<close>), the list of sessions (\<open>compat/session_list.py\<close>) and the facts of the
  status dialog (\<open>compat/status_context.py\<close>). Columns with JSON are shown parsed, \<^const>\<open>None\<close> where they do
  not parse. What methods of the core answer is an argument.
\<close>

section \<open>Injected rows\<close>

definition SOURCE_KIND :: string where "SOURCE_KIND = ''internal_notification''"
definition PROVENANCE_KEY :: string where "PROVENANCE_KEY = ''crosssource_provenance''"
definition MISS_CAP :: nat where "MISS_CAP = 4096"
definition ADMISSION_COLUMNS :: "string list" where
  "ADMISSION_COLUMNS = [''seq'', ''admission_id'', ''request_id'', ''payload_json'']"

text \<open>The compact JSON \<open>["plugin","hermes-app-compat",\<close>.\<close>

definition IDENTITY_PREFIX :: string where
  "IDENTITY_PREFIX = ''['' @ [CHR 0x22] @ ''plugin'' @ [CHR 0x22] @ '','' @ [CHR 0x22] @ ''hermes-app-compat'' @ [CHR 0x22] @ '',''"

fun json_obj :: "json option \<Rightarrow> bool" where
  "json_obj (Some (JObj kvs)) = True"
| "json_obj _ = False"

text \<open>\<open>{**obj, k: v}\<close>: a key that is there keeps its place.\<close>

fun assoc_put :: "string \<Rightarrow> json \<Rightarrow> (string \<times> json) list \<Rightarrow> (string \<times> json) list" where
  "assoc_put k v [] = [(k, v)]"
| "assoc_put k v ((k', v') # kvs) = (if k' = k then (k, v) # kvs else (k', v') # assoc_put k v kvs)"

fun jset :: "string \<Rightarrow> json \<Rightarrow> json \<Rightarrow> json" where
  "jset k v (JObj kvs) = JObj (assoc_put k v kvs)"
| "jset k v x = x"

text \<open>
  \<open>owner_of\<close>; the first argument is the UUID (version 5) of the JSON text of the list, whose last element the
  code turns into a string.
\<close>

definition owner_of :: "(json list \<Rightarrow> string) \<Rightarrow> json \<Rightarrow> string option" where
  "owner_of mint payload =
     (let native = jget ''native_text_v1'' payload;
          source = Option.bind native (jget ''source'');
          event = Option.bind native (jget ''event'')
      in if \<not> json_obj source \<or> \<not> json_obj event \<or> \<not> truthy (jval ''message_id'' (the event)) then None
         else Some (mint (map (\<lambda>k. jval k (the source)) [''platform'', ''profile'', ''scope_id'', ''chat_id'', ''thread_id'']
            @ [jval ''message_id'' (the event)])))"

record admission =
  ad_seq :: int
  ad_id :: string
  ad_request :: string
  ad_payload :: "json option"

record admissions =
  am_owners :: "string \<Rightarrow> (string \<times> string option) option"
  am_misses :: "string list"
  am_seq :: int
  am_columns_ok :: bool

definition admissions_start :: admissions where
  "admissions_start = \<lparr>am_owners = Map.empty, am_misses = [], am_seq = 0, am_columns_ok = False\<rparr>"

text \<open>The owner and the text of a row that is an admission of this plugin.\<close>

definition text_of_payload :: "json \<Rightarrow> string option" where
  "text_of_payload payload = jstr ''text'' payload"

definition admitted :: "(json list \<Rightarrow> string) \<Rightarrow> admission \<Rightarrow> (string \<times> string \<times> string option) option" where
  "admitted mint a = (case (if starts_with IDENTITY_PREFIX (ad_request a) then ad_payload a else None) of
     None \<Rightarrow> None
   | Some payload \<Rightarrow> map_option (\<lambda>o'. (o', ad_id a, text_of_payload payload)) (owner_of mint payload))"

definition take_row :: "(json list \<Rightarrow> string) \<Rightarrow> admission \<Rightarrow> admissions \<Rightarrow> admissions" where
  "take_row mint a am = (let am' = am\<lparr>am_seq := max (am_seq am) (ad_seq a)\<rparr> in
     case admitted mint a of None \<Rightarrow> am'
   | Some (o', hit) \<Rightarrow> am'\<lparr>am_owners := (am_owners am')(o' \<mapsto> hit)\<rparr>)"

text \<open>
  What reading the database does: there is no file, opening it raises, the second query raises (after the
  columns were read), or both answer.
\<close>

datatype db_read = No_file | Unopened | Unread "string list" | Read "string list" "admission list"

text \<open>\<open>_refresh\<close>; the flag says whether it raised.\<close>

definition columns_drifted :: "string list \<Rightarrow> admissions \<Rightarrow> bool" where
  "columns_drifted have am \<longleftrightarrow> \<not> am_columns_ok am \<and> \<not> set ADMISSION_COLUMNS \<subseteq> set have"

fun refresh :: "(json list \<Rightarrow> string) \<Rightarrow> db_read \<Rightarrow> admissions \<Rightarrow> bool \<times> admissions" where
  "refresh mint No_file am = (False, am)"
| "refresh mint Unopened am = (True, am)"
| "refresh mint (Unread have) am =
     (True, if columns_drifted have am then am else am\<lparr>am_columns_ok := True\<rparr>)"
| "refresh mint (Read have rows) am =
     (if columns_drifted have am then (True, am)
      else (False, fold (take_row mint) (sort_key ad_seq (filter (\<lambda>a. am_seq am < ad_seq a) rows)) (am\<lparr>am_columns_ok := True\<rparr>)))"

definition lookup :: "(json list \<Rightarrow> string) \<Rightarrow> db_read \<Rightarrow> string \<Rightarrow> admissions
    \<Rightarrow> (string \<times> string option) option \<times> admissions" where
  "lookup mint db o' am = (case am_owners am o' of
     Some hit \<Rightarrow> (Some hit, am)
   | None \<Rightarrow> if o' \<in> set (am_misses am) then (None, am)
       else let (raised, am1) = refresh mint db am
            in if raised then (None, am1)
               else case am_owners am1 o' of
                 Some hit \<Rightarrow> (Some hit, am1)
               | None \<Rightarrow> let ms = am_misses am1 @ [o']
                    in (None, am1\<lparr>am_misses := drop (length ms - MISS_CAP) ms\<rparr>))"

text \<open>The metadata of a row is an object or its JSON text; \<open>loads\<close> is \<open>json.loads\<close>.\<close>

definition row_owner :: "(string \<Rightarrow> json option) \<Rightarrow> json \<Rightarrow> string option" where
  "row_owner loads row = (let meta = (case jget ''display_metadata'' row of
       Some (JStr s) \<Rightarrow> loads s | m \<Rightarrow> m)
     in case Option.bind meta (jstr ''gateway_input_owner'') of
       None \<Rightarrow> None | Some s \<Rightarrow> if s = [] then None else Some s)"

definition candidate_row :: "json \<Rightarrow> json \<Rightarrow> bool" where
  "candidate_row result row \<longleftrightarrow> jget ''role'' row = Some (JStr ''user'') \<and> jget ''display_kind'' row = Some (JStr SOURCE_KIND)
     \<and> jget ''display_kind'' result = Some (JStr SOURCE_KIND)"

definition person_row :: "string \<Rightarrow> string option \<Rightarrow> json \<Rightarrow> json" where
  "person_row aid text result =
     (let out = jset PROVENANCE_KEY (JObj [(''schema'', JInt 1), (''admission_id'', JStr aid), (''display_kind'', JStr SOURCE_KIND)])
          (jset ''display_kind'' JNull result)
      in case (text, jget ''content'' result) of
        (Some t, Some (JStr c)) \<Rightarrow> if t \<noteq> [] \<and> ends_with t c then jset ''content'' (JStr t) out else out
      | _ \<Rightarrow> out)"

definition project_row :: "(json list \<Rightarrow> string) \<Rightarrow> (string \<Rightarrow> json option) \<Rightarrow> db_read \<Rightarrow> json \<Rightarrow> json \<Rightarrow> admissions
    \<Rightarrow> json \<times> admissions" where
  "project_row mint loads db result row am =
     (if \<not> candidate_row result row then (result, am)
      else case row_owner loads row of
        None \<Rightarrow> (result, am)
      | Some o' \<Rightarrow> (case lookup mint db o' am of
          (None, am1) \<Rightarrow> (result, am1)
        | (Some (aid, text), am1) \<Rightarrow> (person_row aid text result, am1)))"

section \<open>Turns of the app's own clients\<close>

definition BINDING_KEY :: string where "BINDING_KEY = ''hermes_app_person_admission''"

text \<open>\<open>(x or {}).get(k) is not None\<close>\<close>

definition is_person_turn :: "json \<Rightarrow> bool" where
  "is_person_turn payload = (case jget ''api_turn_v1'' payload of
     Some (JObj kvs) \<Rightarrow> (let data = JObj kvs; author = jval ''turn_author'' data in
       jval ''room_dispatch'' (jget_or ''settings'' (JObj []) data) = JNull
       \<and> \<not> (json_obj (Some author) \<and> truthy (jval ''is_bot'' author)))
   | _ \<Rightarrow> False)"

text \<open>The binding that \<open>prepare_api_execution\<close> returns, with the admission the execution runs for.\<close>

definition prepare_turn :: "json \<Rightarrow> string option \<Rightarrow> json \<Rightarrow> json" where
  "prepare_turn payload execution prepared = (if is_person_turn payload then
     (case execution of None \<Rightarrow> prepared | Some aid \<Rightarrow> if aid = [] then prepared else jset BINDING_KEY (JStr aid) prepared)
     else prepared)"

definition display_kind :: "json option \<Rightarrow> bool \<Rightarrow> json \<Rightarrow> string option \<Rightarrow> string option" where
  "display_kind current heartbeat event_id kind =
     (if kind \<noteq> Some SOURCE_KIND \<or> heartbeat then kind
      else let aid = (case current of None \<Rightarrow> JNull | Some c \<Rightarrow> if truthy c then jval BINDING_KEY c else JNull)
           in if truthy aid \<and> event_id = aid then None else kind)"

section \<open>The list of sessions\<close>

definition EXCLUDED :: "string list" where "EXCLUDED = [''cron'']"
definition HTTP_OWNED :: "string list" where "HTTP_OWNED = [''api_server'', ''bot_room'']"

text \<open>The arguments of \<open>list_sessions_rich\<close> that decide which sources are listed.\<close>

record list_args =
  la_positional :: bool
  la_source :: "string option"
  la_sources :: "string list"
  la_exclude :: "string list"

definition list_rich_args :: "bool \<Rightarrow> list_args \<Rightarrow> list_args" where
  "list_rich_args listing args =
     (if listing \<and> \<not> la_positional args \<and> la_source args = None \<and> la_sources args = []
      then args\<lparr>la_exclude := sort (remdups (la_exclude args @ EXCLUDED))\<rparr> else args)"

definition session_response :: "json \<Rightarrow> json \<Rightarrow> json" where
  "session_response session payload = (case jget ''source'' session of
     Some (JStr s) \<Rightarrow> if s = [] \<or> s \<in> set HTTP_OWNED then payload
       else (let p = jset ''foreign_source'' (JBool True) payload
             in case jget ''thread_id'' session of
               Some (JStr t) \<Rightarrow> if t = [] then p else jset ''thread_id'' (JStr t) p
             | _ \<Rightarrow> p)
   | _ \<Rightarrow> payload)"

section \<open>Facts of the status dialog\<close>

text \<open>\<open>type(value) is int and value > 0\<close>\<close>

fun positive :: "json \<Rightarrow> int option" where
  "positive (JInt i) = (if 0 < i then Some i else None)"
| "positive _ = None"

definition first_truthy :: "json list \<Rightarrow> json" where
  "first_truthy vs = (case filter truthy vs of [] \<Rightarrow> last (JNull # vs) | v # _ \<Rightarrow> v)"

fun index_of :: "'a \<Rightarrow> 'a list \<Rightarrow> nat option" where
  "index_of x [] = None"
| "index_of x (y # ys) = (if y = x then Some 0 else map_option Suc (index_of x ys))"

text \<open>
  \<open>last_compression_at\<close>: the end of the parent in the compression lineage, when compression ended it.
\<close>

definition last_compression :: "(string \<Rightarrow> json option) \<Rightarrow> string list \<Rightarrow> string \<Rightarrow> json" where
  "last_compression get_session lineage sid = (case index_of sid lineage of
     Some (Suc n) \<Rightarrow> (case get_session (lineage ! n) of
         Some parent \<Rightarrow> if truthy parent \<and> jget ''end_reason'' parent = Some (JStr ''compression'') then jval ''ended_at'' parent else JNull
       | None \<Rightarrow> JNull)
   | _ \<Rightarrow> JNull)"

text \<open>The answers of the core: the session, its last model route, its routing entry, its lineage, and the
  limit the gateway resolves for a model, with its origin, or nothing when that raises.\<close>

definition read_status_context :: "(string \<Rightarrow> json option) \<Rightarrow> json \<Rightarrow> json \<Rightarrow> string list
    \<Rightarrow> (json \<Rightarrow> json \<Rightarrow> json \<Rightarrow> (string \<times> json) option) \<Rightarrow> string \<Rightarrow> json option" where
  "read_status_context get_session route entry lineage model_context sid = (case get_session sid of
     None \<Rightarrow> None
   | Some row \<Rightarrow> (let override = jget_or ''model_override'' (JObj []) entry;
         model = first_truthy [jval ''model'' override, jval ''model'' route, jval ''model'' row];
         provider = first_truthy [jval ''provider'' override, jval ''billing_provider'' route, jval ''billing_provider'' row];
         limit = (if truthy model then (case model_context model provider (jget_or ''base_url'' (JStr []) override) of
             None \<Rightarrow> None
           | Some (origin, len) \<Rightarrow> if origin = ''default'' then None else positive len) else None);
         number = (\<lambda>n. case n of None \<Rightarrow> JNull | Some i \<Rightarrow> JInt i)
       in Some (JObj [(''model'', if truthy model then model else JNull),
          (''context_used_tokens'', number (positive (jval ''last_prompt_tokens'' entry))),
          (''context_limit_tokens'', number limit),
          (''last_compression_at'', last_compression get_session lineage sid),
          (''compression_threshold_tokens'', JNull)])))"

end
