(* ===== verification/Row_Properties.thy ===== *)
theory Row_Properties
  imports Row_Projection
begin

text \<open>
  The rows the app injected are found by their owner whatever was read before: the cache of
  \<open>injected_rows.Admissions\<close> answers as the table does.
\<close>

section \<open>Histories\<close>

text \<open>
  An admission commits (the sequence numbers count up), a row is read, or a read of the table fails.
\<close>

datatype adm_op = Commit admission | Look string | Look_fails string

type_synonym adm_state = "admission list \<times> admissions"

fun adm_step :: "(json list \<Rightarrow> string) \<Rightarrow> string list \<Rightarrow> adm_op \<Rightarrow> adm_state \<Rightarrow> adm_state" where
  "adm_step mint cols (Commit a) (rows, am) = (rows @ [a\<lparr>ad_seq := 1 + int (length rows)\<rparr>], am)"
| "adm_step mint cols (Look o') (rows, am) = (rows, snd (lookup mint (Read cols rows) o' am))"
| "adm_step mint cols (Look_fails o') (rows, am) = (rows, snd (lookup mint Unopened o' am))"

definition adm_run :: "(json list \<Rightarrow> string) \<Rightarrow> string list \<Rightarrow> adm_op list \<Rightarrow> adm_state" where
  "adm_run mint cols ops = fold (adm_step mint cols) ops ([], admissions_start)"

text \<open>A row was read before the admission it belongs to committed.\<close>

fun read_early :: "(json list \<Rightarrow> string) \<Rightarrow> string \<Rightarrow> adm_op list \<Rightarrow> bool" where
  "read_early mint o' [] = False"
| "read_early mint o' (Commit a # ops) =
     (if map_option fst (admitted mint a) = Some o' then False else read_early mint o' ops)"
| "read_early mint o' (Look p # ops) = (p = o' \<or> read_early mint o' ops)"
| "read_early mint o' (Look_fails p # ops) = read_early mint o' ops"

section \<open>The cache\<close>

lemma admitted_seq [simp]: "admitted mint (a\<lparr>ad_seq := n\<rparr>) = admitted mint a"
  by (simp add: admitted_def split: option.split)

definition cache_ok :: "(json list \<Rightarrow> string) \<Rightarrow> admission list \<Rightarrow> admissions \<Rightarrow> bool" where
  "cache_ok mint rows am \<longleftrightarrow>
     (\<forall>o' hit. am_owners am o' = Some hit \<longrightarrow> (\<exists>a \<in> set rows. admitted mint a = Some (o', hit)))
   \<and> (\<forall>a \<in> set rows. \<forall>o' hit. ad_seq a \<le> am_seq am \<longrightarrow> admitted mint a = Some (o', hit) \<longrightarrow> am_owners am o' \<noteq> None)
   \<and> (\<forall>a \<in> set rows. ad_seq a \<le> int (length rows)) \<and> am_seq am \<le> int (length rows)"

lemma take_row_simps:
  "am_seq (take_row mint a am) = max (am_seq am) (ad_seq a)"
  "am_misses (take_row mint a am) = am_misses am"
  "am_owners (take_row mint a am) = (case admitted mint a of None \<Rightarrow> am_owners am | Some (o', hit) \<Rightarrow> (am_owners am)(o' \<mapsto> hit))"
  by (simp_all add: take_row_def Let_def split: option.split prod.split)

lemma fold_rows:
  "am_misses (fold (take_row mint) as am) = am_misses am"
  "am_seq am \<le> n \<Longrightarrow> \<forall>a \<in> set as. ad_seq a \<le> n \<Longrightarrow> am_seq (fold (take_row mint) as am) \<le> n"
  by (induction as arbitrary: am) (auto simp: take_row_simps split: option.splits prod.splits if_splits)

lemma fold_owner_from:
  "am_owners (fold (take_row mint) as am) o' = Some hit
     \<Longrightarrow> am_owners am o' = Some hit \<or> (\<exists>a \<in> set as. admitted mint a = Some (o', hit))"
proof (induction as arbitrary: am)
  case (Cons a as)
  from Cons.prems Cons.IH [of "take_row mint a am"]
  have "am_owners (take_row mint a am) o' = Some hit \<or> (\<exists>b \<in> set as. admitted mint b = Some (o', hit))" by simp
  moreover have "am_owners (take_row mint a am) o' = Some hit \<Longrightarrow> am_owners am o' = Some hit \<or> admitted mint a = Some (o', hit)"
    by (cases "admitted mint a") (auto simp: take_row_simps split: if_splits)
  ultimately show ?case by auto
qed simp

lemma fold_keeps_owner: "am_owners am o' \<noteq> None \<Longrightarrow> am_owners (fold (take_row mint) as am) o' \<noteq> None"
proof (induction as arbitrary: am)
  case (Cons a as)
  have "am_owners (take_row mint a am) o' \<noteq> None" using Cons.prems by (auto simp: take_row_simps split: option.splits)
  from Cons.IH [OF this] show ?case by simp
qed simp

lemma fold_finds_owner: "a \<in> set as \<Longrightarrow> admitted mint a = Some (o', h) \<Longrightarrow> am_owners (fold (take_row mint) as am) o' \<noteq> None"
proof (induction as arbitrary: am)
  case (Cons b as)
  show ?case
  proof (cases "a = b")
    case True
    with Cons.prems(2) have "am_owners (take_row mint b am) o' \<noteq> None" by (simp add: take_row_simps)
    from fold_keeps_owner [OF this] show ?thesis by simp
  next
    case False
    with Cons show ?thesis by simp
  qed
qed simp

definition refreshed :: "(json list \<Rightarrow> string) \<Rightarrow> admission list \<Rightarrow> admissions \<Rightarrow> admissions" where
  "refreshed mint rows am =
     fold (take_row mint) (sort_key ad_seq (filter (\<lambda>a. am_seq am < ad_seq a) rows)) (am\<lparr>am_columns_ok := True\<rparr>)"

lemma refreshed_ok:
  assumes "cache_ok mint rows am"
  shows "cache_ok mint rows (refreshed mint rows am)" "am_misses (refreshed mint rows am) = am_misses am"
    "a \<in> set rows \<Longrightarrow> admitted mint a = Some (o', hit) \<Longrightarrow> am_owners (refreshed mint rows am) o' \<noteq> None"
proof -
  let ?as = "sort_key ad_seq (filter (\<lambda>a. am_seq am < ad_seq a) rows)" and ?b = "am\<lparr>am_columns_ok := True\<rparr>"
  have found: "am_owners (refreshed mint rows am) p \<noteq> None" if "b \<in> set rows" "admitted mint b = Some (p, h)" for b p h
  proof (cases "ad_seq b \<le> am_seq am")
    case True
    with assms that have "am_owners ?b p \<noteq> None" by (cases h) (auto simp: cache_ok_def)
    then show ?thesis unfolding refreshed_def by (rule fold_keeps_owner)
  next
    case False
    with that(1) have "b \<in> set ?as" by simp
    from fold_finds_owner [OF this that(2)] show ?thesis unfolding refreshed_def .
  qed
  show "am_misses (refreshed mint rows am) = am_misses am" by (simp add: refreshed_def fold_rows(1))
  show "a \<in> set rows \<Longrightarrow> admitted mint a = Some (o', hit) \<Longrightarrow> am_owners (refreshed mint rows am) o' \<noteq> None"
    by (rule found)
  have "am_seq (refreshed mint rows am) \<le> int (length rows)"
    unfolding refreshed_def using assms by (intro fold_rows(2)) (auto simp: cache_ok_def)
  moreover have "\<exists>a \<in> set rows. admitted mint a = Some (p, h)" if "am_owners (refreshed mint rows am) p = Some h" for p h
    using fold_owner_from [OF that [unfolded refreshed_def]] assms by (cases h) (auto simp: cache_ok_def)
  ultimately show "cache_ok mint rows (refreshed mint rows am)"
    using found assms unfolding cache_ok_def by blast
qed

lemma refreshed_none:
  "cache_ok mint rows am \<Longrightarrow> am_owners (refreshed mint rows am) o' = None \<Longrightarrow> a \<in> set rows \<Longrightarrow> admitted mint a = Some (o', i, t) \<Longrightarrow> False"
  using refreshed_ok(3) by blast

lemma cache_ok_misses: "cache_ok mint rows (am\<lparr>am_misses := ms\<rparr>) = cache_ok mint rows am"
  by (simp add: cache_ok_def)

lemma refresh_read:
  "set ADMISSION_COLUMNS \<subseteq> set cols \<Longrightarrow> refresh mint (Read cols rows) am = (False, refreshed mint rows am)"
  by (simp add: columns_drifted_def refreshed_def)

lemma lookup_cases:
  assumes "set ADMISSION_COLUMNS \<subseteq> set cols" "cache_ok mint rows am"
  shows "cache_ok mint rows (snd (lookup mint (Read cols rows) o' am))"
    "set (am_misses (snd (lookup mint (Read cols rows) o' am))) \<subseteq> insert o' (set (am_misses am))"
    "o' \<in> set (am_misses (snd (lookup mint (Read cols rows) o' am))) \<Longrightarrow> o' \<notin> set (am_misses am)
      \<Longrightarrow> \<forall>a \<in> set rows. map_option fst (admitted mint a) \<noteq> Some o'"
  using assms(2) refreshed_ok(1,2) [OF assms(2)] refreshed_none [OF assms(2)]
  by (auto simp: lookup_def refresh_read [OF assms(1)] cache_ok_misses Let_def simp del: refresh.simps dest!: in_set_dropD split: option.splits)

lemma lookup_sound:
  assumes "set ADMISSION_COLUMNS \<subseteq> set cols" "cache_ok mint rows am"
  shows "fst (lookup mint (Read cols rows) o' am) = Some hit \<Longrightarrow> \<exists>a \<in> set rows. admitted mint a = Some (o', hit)"
  using assms(2) refreshed_ok(1) [OF assms(2)]
  by (auto simp: lookup_def refresh_read [OF assms(1)] cache_ok_def Let_def simp del: refresh.simps split: option.splits if_splits)

lemma lookup_complete:
  assumes "set ADMISSION_COLUMNS \<subseteq> set cols" "cache_ok mint rows am" "o' \<notin> set (am_misses am)" "a \<in> set rows"
    "admitted mint a = Some (o', h)"
  shows "fst (lookup mint (Read cols rows) o' am) \<noteq> None"
  using refreshed_ok(3) [OF assms(2,4,5)] assms(3)
  by (auto simp: lookup_def refresh_read [OF assms(1)] Let_def simp del: refresh.simps split: option.split)

lemma lookup_unopened: "snd (lookup mint Unopened o' am) = am"
  by (simp add: lookup_def split: option.split)

section \<open>The history\<close>

lemma run_snoc: "adm_run mint cols (ops @ [op]) = adm_step mint cols op (adm_run mint cols ops)"
  by (simp add: adm_run_def)

lemma early_snoc:
  "read_early mint o' (ops @ [op]) \<longleftrightarrow> read_early mint o' ops
     \<or> (op = Look o' \<and> (\<forall>a \<in> set (fst (adm_run mint cols ops)). map_option fst (admitted mint a) \<noteq> Some o'))"
proof -
  have step: "map_option fst (admitted mint a) \<noteq> Some o' \<or> (\<exists>b \<in> set (fst (fold (adm_step mint cols) ops (rs @ [a], am))).
      map_option fst (admitted mint b) = Some o')" for a rs am ops
  proof -
    have "set rs' \<subseteq> set (fst (fold (adm_step mint cols) ops (rs', am')))" for rs' am'
    proof (induction ops arbitrary: rs' am')
      case (Cons x xs)
      obtain rs2 am2 where st: "adm_step mint cols x (rs', am') = (rs2, am2)" by fastforce
      then have "set rs' \<subseteq> set rs2" by (cases x) auto
      with Cons.IH [of rs2 am2] st show ?case by auto
    qed simp
    from this [of "rs @ [a]" am] show ?thesis by auto
  qed
  have "read_early mint o' (ops @ [op]) \<longleftrightarrow> read_early mint o' ops
     \<or> (op = Look o' \<and> (\<forall>a \<in> set (fst (fold (adm_step mint cols) ops (rs, am))). map_option fst (admitted mint a) \<noteq> Some o'))"
    if "\<forall>a \<in> set rs. map_option fst (admitted mint a) \<noteq> Some o'" for rs am
    using that
  proof (induction ops arbitrary: rs am)
    case Nil
    then show ?case by (cases op) auto
  next
    case (Cons x xs)
    show ?case
    proof (cases x)
      case (Commit a)
      show ?thesis
      proof (cases "map_option fst (admitted mint a) = Some o'")
        case True
        then show ?thesis using step [of "a\<lparr>ad_seq := 1 + int (length rs)\<rparr>" xs rs am] by (auto simp: Commit)
      next
        case False
        with Cons.prems have "\<forall>b \<in> set (rs @ [a\<lparr>ad_seq := 1 + int (length rs)\<rparr>]). map_option fst (admitted mint b) \<noteq> Some o'" by simp
        from Cons.IH [OF this, of am] False show ?thesis by (simp add: Commit)
      qed
    next
      case (Look p)
      with Cons.IH [OF Cons.prems] show ?thesis by auto
    next
      case (Look_fails p)
      with Cons.IH [OF Cons.prems] show ?thesis by auto
    qed
  qed
  from this [of "[]" admissions_start] show ?thesis by (simp add: adm_run_def)
qed

definition history_ok :: "(json list \<Rightarrow> string) \<Rightarrow> adm_op list \<Rightarrow> adm_state \<Rightarrow> bool" where
  "history_ok mint ops st \<longleftrightarrow> cache_ok mint (fst st) (snd st) \<and> (\<forall>o' \<in> set (am_misses (snd st)). read_early mint o' ops)"

lemma cache_ok_commit: "cache_ok mint rows am \<Longrightarrow> cache_ok mint (rows @ [a\<lparr>ad_seq := 1 + int (length rows)\<rparr>]) am"
  by (auto simp: cache_ok_def)

lemma history_run:
  assumes "set ADMISSION_COLUMNS \<subseteq> set cols"
  shows "history_ok mint ops (adm_run mint cols ops)"
proof (induction ops rule: rev_induct)
  case Nil
  show ?case by (simp add: history_ok_def adm_run_def cache_ok_def admissions_start_def)
next
  case (snoc op ops)
  obtain rows am where st: "adm_run mint cols ops = (rows, am)" by (cases "adm_run mint cols ops")
  with snoc have c: "cache_ok mint rows am" and m: "\<forall>o' \<in> set (am_misses am). read_early mint o' ops"
    by (auto simp: history_ok_def)
  have early: "read_early mint o' (ops @ [op]) \<longleftrightarrow> read_early mint o' ops
     \<or> (op = Look o' \<and> (\<forall>a \<in> set rows. map_option fst (admitted mint a) \<noteq> Some o'))" for o'
    using early_snoc [of mint o' ops op cols] st by simp
  show ?case
  proof (cases op)
    case (Commit a)
    with c m early st show ?thesis by (simp add: history_ok_def run_snoc cache_ok_commit)
  next
    case (Look p)
    let ?am = "snd (lookup mint (Read cols rows) p am)"
    have "read_early mint o' (ops @ [op])" if "o' \<in> set (am_misses ?am)" for o'
    proof (cases "o' \<in> set (am_misses am)")
      case True
      with m early show ?thesis by blast
    next
      case False
      with that lookup_cases(2) [OF assms c, of p] have "o' = p" by blast
      with that False lookup_cases(3) [OF assms c, of p] early Look show ?thesis by blast
    qed
    with lookup_cases(1) [OF assms c, of p] Look st show ?thesis by (simp add: history_ok_def run_snoc)
  next
    case (Look_fails p)
    with c m early st show ?thesis by (simp add: history_ok_def run_snoc lookup_unopened)
  qed
qed

lemma jget_put: "jget k (jset k' v (JObj kvs)) = (if k = k' then Some v else jget k (JObj kvs))"
  by (induction kvs) auto

lemma jset_obj: "\<exists>kvs'. jset k v (JObj kvs) = JObj kvs'"
  by simp

lemma jget_jset: "json_obj (Some r) \<Longrightarrow> jget k (jset k' v r) = (if k = k' then Some v else jget k r)"
  by (cases r) (simp_all del: jget.simps jset.simps add: jget_put)

lemma json_obj_jset: "json_obj (Some r) \<Longrightarrow> json_obj (Some (jset k v r))"
  by (cases r) simp_all

definition shown_as_person :: "string option \<Rightarrow> json \<Rightarrow> json \<Rightarrow> bool" where
  "shown_as_person typed result out \<longleftrightarrow> jget ''display_kind'' out = Some JNull
     \<and> (\<forall>t c. typed = Some t \<longrightarrow> t \<noteq> [] \<longrightarrow> jget ''content'' result = Some (JStr c) \<longrightarrow> ends_with t c
          \<longrightarrow> jget ''content'' out = Some (JStr t))
     \<and> (\<forall>k. k \<notin> {''display_kind'', ''content'', PROVENANCE_KEY} \<longrightarrow> jget k out = jget k result)"

lemma person_row_shown: "candidate_row result row \<Longrightarrow> shown_as_person typed result (person_row aid typed result)"
proof -
  assume "candidate_row result row"
  then have o: "json_obj (Some result)" by (cases result) (auto simp: candidate_row_def)
  show ?thesis
    using o by (auto simp: shown_as_person_def person_row_def jget_jset json_obj_jset PROVENANCE_KEY_def Let_def
        split: option.split json.split)
qed

text \<open>
  C32. After any history of commits and reads, failed reads included, the row of a turn is changed only if it is
  an internal notice of a user whose owner is that of an admission of this plugin: it is then shown as the
  turn of a person, with what was typed in place of the decorated typed, and nothing else changed. And it is
  changed whenever there is such an admission, unless the row had been read before the admission committed.
\<close>

theorem injected_row_exact:
  assumes "set ADMISSION_COLUMNS \<subseteq> set cols"
  shows "let (rows, am) = adm_run mint cols ops; out = fst (project_row mint loads (Read cols rows) result row am) in
    (out = result \<or> (candidate_row result row \<and> (\<exists>a \<in> set rows. \<exists>o' aid typed. row_owner loads row = Some o'
        \<and> admitted mint a = Some (o', aid, typed) \<and> shown_as_person typed result out)))
    \<and> (\<forall>a \<in> set rows. \<forall>o' h. candidate_row result row \<longrightarrow> row_owner loads row = Some o' \<longrightarrow> admitted mint a = Some (o', h)
        \<longrightarrow> \<not> read_early mint o' ops \<longrightarrow> jget ''display_kind'' out = Some JNull)"
proof -
  obtain rows am where st: "adm_run mint cols ops = (rows, am)" by (cases "adm_run mint cols ops")
  have h: "cache_ok mint rows am" and m: "\<forall>o' \<in> set (am_misses am). read_early mint o' ops"
    using history_run [OF assms, of mint ops] by (simp_all add: history_ok_def st)
  define out where "out = fst (project_row mint loads (Read cols rows) result row am)"
  have hit: "out = person_row aid typed result \<and> candidate_row result row \<and> row_owner loads row = Some o'"
    if "candidate_row result row" "row_owner loads row = Some o'" "fst (lookup mint (Read cols rows) o' am) = Some (aid, typed)" for o' aid typed
    using that by (auto simp: out_def project_row_def split: prod.split option.split)
  have miss: "out = result" if "\<not> candidate_row result row \<or> row_owner loads row = None
      \<or> (\<exists>o'. row_owner loads row = Some o' \<and> fst (lookup mint (Read cols rows) o' am) = None)"
    using that by (auto simp: out_def project_row_def split: prod.split option.split)
  have first: "out = result \<or> (candidate_row result row \<and> (\<exists>a \<in> set rows. \<exists>o' aid typed. row_owner loads row = Some o'
        \<and> admitted mint a = Some (o', aid, typed) \<and> shown_as_person typed result out))"
  proof (cases "out = result")
    case False
    with miss obtain o' aid typed where o: "candidate_row result row" "row_owner loads row = Some o'"
      "fst (lookup mint (Read cols rows) o' am) = Some (aid, typed)" by fastforce
    from lookup_sound [OF assms h o(3)] hit [OF o] person_row_shown [OF o(1), of typed aid] o show ?thesis by auto
  qed simp
  have second: "jget ''display_kind'' out = Some JNull"
    if "a \<in> set rows" "candidate_row result row" "row_owner loads row = Some o'" "admitted mint a = Some (o', h)"
      "\<not> read_early mint o' ops" for a o' h
  proof -
    have "o' \<notin> set (am_misses am)" using m that(5) by blast
    from lookup_complete [OF assms \<open>cache_ok mint rows am\<close> this that(1,4)]
    obtain aid typed where "fst (lookup mint (Read cols rows) o' am) = Some (aid, typed)" by auto
    from hit [OF that(2,3) this] person_row_shown [OF that(2), of typed aid] show ?thesis
      by (simp add: shown_as_person_def)
  qed
  show ?thesis unfolding st prod.case Let_def out_def [symmetric] using first second by blast
qed

definition our_admission :: admission where
  "our_admission = \<lparr>ad_seq = 0, ad_id = ''adm1'', ad_request = IDENTITY_PREFIX @ ''rest'',
     ad_payload = Some (JObj [(''text'', JStr ''hello''), (''native_text_v1'', JObj [(''source'', JObj []),
       (''event'', JObj [(''message_id'', JStr ''m1'')])])])\<rparr>"

definition our_row :: json where
  "our_row = JObj [(''role'', JStr ''user''), (''display_kind'', JStr SOURCE_KIND), (''content'', JStr ''[owner] hello''),
     (''display_metadata'', JObj [(''gateway_input_owner'', JStr ''o1'')])]"

lemma our_admitted: "admitted (\<lambda>_. ''o1'') our_admission = Some (''o1'', ''adm1'', Some ''hello'')"
  by (simp add: admitted_def our_admission_def owner_of_def jval_def starts_with_def text_of_payload_def jstr_def IDENTITY_PREFIX_def)

lemma our_run: "fst (adm_run (\<lambda>_. ''o1'') ADMISSION_COLUMNS [Commit our_admission]) = [our_admission\<lparr>ad_seq := 1\<rparr>]"
  by (simp add: adm_run_def)

theorem injected_row_exact_witness:
  "jget ''display_kind'' (fst (project_row (\<lambda>_. ''o1'') (\<lambda>_. None) (Read ADMISSION_COLUMNS [our_admission\<lparr>ad_seq := 1\<rparr>]) our_row our_row
     (snd (adm_run (\<lambda>_. ''o1'') ADMISSION_COLUMNS [Commit our_admission])))) = Some JNull"
proof -
  have c: "candidate_row our_row our_row" "row_owner (\<lambda>_. None) our_row = Some ''o1''"
    by (simp_all add: candidate_row_def our_row_def row_owner_def jstr_def)
  have e: "\<not> read_early (\<lambda>_. ''o1'') ''o1'' [Commit our_admission]" by (simp add: our_admitted)
  show ?thesis
    using injected_row_exact [of ADMISSION_COLUMNS "\<lambda>_. ''o1''" "[Commit our_admission]" "\<lambda>_. None" our_row our_row]
      our_run our_admitted c e by (auto simp: split_beta Let_def)
qed

end
