(* ===== verification/Wake_Door.thy ===== *)
theory Wake_Door
  imports Wake_Properties
begin

text \<open>
  The one door a wake batch is dispatched through (\<open>_install_wake\<close> of \<open>compat/compat.py\<close>: the wrapper of
  chat/stream, \<open>_settle\<close> and the refusal of the synchronous chat), with the marks of a launch that the stream
  handler leaves (\<open>_session_stream_target\<close>), over the wake ledger. Any number of requests run through the
  door at once; other operations of the ledger come between their steps.
\<close>

section \<open>One request\<close>

record launch =
  la_handoff :: bool
  la_run :: "string option"
  la_launched :: bool

definition no_launch :: launch where
  "no_launch = \<lparr>la_handoff = False, la_run = None, la_launched = False\<rparr>"

text \<open>\<open>evidence.get("launched") or evidence.get("handoff") or evidence.get("run_id")\<close>\<close>

definition launch_seen :: "launch \<Rightarrow> bool" where
  "launch_seen l \<longleftrightarrow> la_launched l \<or> la_handoff l \<or> (case la_run l of None \<Rightarrow> False | Some r \<Rightarrow> r \<noteq> [])"

text \<open>
  \<open>_settle\<close> after its read of the receipt: \<open>status_of\<close> is the status this process knows of a run.
\<close>

definition settle_launch :: "time \<Rightarrow> string \<Rightarrow> string \<Rightarrow> launch \<Rightarrow> (string \<Rightarrow> string option) \<Rightarrow> wake_ledger \<Rightarrow> wake_ledger" where
  "settle_launch now bid resolved l status_of st =
     (if \<not> launch_seen l then dispatch_failed now bid st
      else case (case la_run l of None \<Rightarrow> None | Some r \<Rightarrow> if r = [] then None else map_option (Pair r) (status_of r)) of
        Some (r, s) \<Rightarrow>
          if s \<in> {''completed'', ''failed'', ''cancelled''} then snd (report now bid resolved ''terminal'' None st)
          else snd (report now bid resolved ''accepted'' (Some r) st)
      | None \<Rightarrow> snd (report now bid resolved ''uncertain'' None st))"

text \<open>The receipt says that the batch is being dispatched; anything else ends \<open>_settle\<close>.\<close>

definition still_dispatching :: "string \<Rightarrow> string \<Rightarrow> wake_ledger \<Rightarrow> bool" where
  "still_dispatching bid resolved st = (case get_by wb_id bid (wl_batches st) of
     None \<Rightarrow> False | Some b \<Rightarrow> wb_session b = resolved \<and> wb_state b = Dispatching)"

section \<open>The door\<close>

text \<open>
  Where a request is: in the stream handler, in the live bot chat (which runs the turn before it answers),
  behind it, between the read and the write of \<open>_settle\<close>, or gone.
\<close>

datatype phase = Streaming | In_bot | Handed_off | Settling | Gone

record door =
  dr_batch :: string
  dr_resolved :: string
  dr_launch :: launch
  dr_phase :: phase

record door_world =
  dw_ledger :: wake_ledger
  dw_doors :: "nat \<Rightarrow> door option"

text \<open>
  The steps. A request fails by an exception, a cancellation or an answer of 400 and above; the run of the
  stream handler starts right before its mark, with no step between. Nothing but \<open>_settle\<close> calls \<open>dispatch_failed\<close>.
\<close>

datatype door_event =
    Enter nat time string string "string option"
  | Bot_start nat
  | Bot_answer nat
  | Name_run nat string
  | Start_run nat
  | Fail nat
  | Settle nat time "string \<Rightarrow> string option"
  | Finish nat
  | Ledger wake_op

definition set_door :: "nat \<Rightarrow> door \<Rightarrow> door_world \<Rightarrow> door_world" where
  "set_door i d w = w\<lparr>dw_doors := (dw_doors w)(i \<mapsto> d)\<rparr>"

definition alter_door :: "nat \<Rightarrow> (door \<Rightarrow> bool) \<Rightarrow> (door \<Rightarrow> door) \<Rightarrow> door_world \<Rightarrow> door_world" where
  "alter_door i P f w = (case dw_doors w i of None \<Rightarrow> w | Some d \<Rightarrow> if P d then set_door i (f d) w else w)"

definition enter_door :: "nat \<Rightarrow> time \<Rightarrow> string \<Rightarrow> string \<Rightarrow> string option \<Rightarrow> door_world \<Rightarrow> door_world" where
  "enter_door i now bid resolved input w =
     (if dw_doors w i \<noteq> None then w
      else let (gate, st) = gate_dispatch now bid resolved input (dw_ledger w); w' = w\<lparr>dw_ledger := st\<rparr>
           in if gate \<noteq> None then w'
              else set_door i \<lparr>dr_batch = bid, dr_resolved = resolved, dr_launch = no_launch, dr_phase = Streaming\<rparr> w')"

definition fail_door :: "nat \<Rightarrow> door_world \<Rightarrow> door_world" where
  "fail_door i w = alter_door i (\<lambda>d. dr_phase d \<in> {Streaming, In_bot, Handed_off})
     (\<lambda>d. d\<lparr>dr_phase := if still_dispatching (dr_batch d) (dr_resolved d) (dw_ledger w) then Settling else Gone\<rparr>) w"

definition settle_door :: "nat \<Rightarrow> time \<Rightarrow> (string \<Rightarrow> string option) \<Rightarrow> door_world \<Rightarrow> door_world" where
  "settle_door i now status_of w = (case dw_doors w i of
     None \<Rightarrow> w
   | Some d \<Rightarrow> if dr_phase d \<noteq> Settling then w
       else set_door i (d\<lparr>dr_phase := Gone\<rparr>)
         (w\<lparr>dw_ledger := settle_launch now (dr_batch d) (dr_resolved d) (dr_launch d) status_of (dw_ledger w)\<rparr>))"

definition may_bot :: "door \<Rightarrow> bool" where
  "may_bot d \<longleftrightarrow> dr_phase d = Streaming \<and> la_run (dr_launch d) = None"

definition may_start :: "door \<Rightarrow> bool" where
  "may_start d \<longleftrightarrow> dr_phase d = Streaming \<and> la_run (dr_launch d) \<noteq> None \<and> \<not> la_launched (dr_launch d)"

fun door_step :: "door_event \<Rightarrow> door_world \<Rightarrow> door_world" where
  "door_step (Enter i now bid resolved input) w = enter_door i now bid resolved input w"
| "door_step (Bot_start i) w = alter_door i may_bot (\<lambda>d. d\<lparr>dr_phase := In_bot\<rparr>) w"
| "door_step (Bot_answer i) w = alter_door i (\<lambda>d. dr_phase d = In_bot)
     (\<lambda>d. d\<lparr>dr_phase := Handed_off, dr_launch := (dr_launch d)\<lparr>la_handoff := True\<rparr>\<rparr>) w"
| "door_step (Name_run i r) w = alter_door i (\<lambda>d. may_bot d \<and> r \<noteq> [])
     (\<lambda>d. d\<lparr>dr_launch := (dr_launch d)\<lparr>la_run := Some r\<rparr>\<rparr>) w"
| "door_step (Start_run i) w = alter_door i may_start
     (\<lambda>d. d\<lparr>dr_launch := (dr_launch d)\<lparr>la_launched := True\<rparr>\<rparr>) w"
| "door_step (Fail i) w = fail_door i w"
| "door_step (Settle i now status_of) w = settle_door i now status_of w"
| "door_step (Finish i) w = alter_door i (\<lambda>d. dr_phase d \<in> {Streaming, Handed_off}) (\<lambda>d. d\<lparr>dr_phase := Gone\<rparr>) w"
| "door_step (Ledger op) w = (case op of DispatchFailed _ _ \<Rightarrow> w | _ \<Rightarrow> w\<lparr>dw_ledger := wake_step op (dw_ledger w)\<rparr>)"

text \<open>\<open>body.get("wake_batch")\<close> on the synchronous lane: a batch is refused before the core sees the request.\<close>

definition chat_refuses :: "json option \<Rightarrow> bool" where
  "chat_refuses body = (case body of Some b \<Rightarrow> is_obj b \<and> truthy_value (jget ''wake_batch'' b) | None \<Rightarrow> False)"

section \<open>What happens in a step\<close>

text \<open>A turn of the batch starts; a request is cut off while the live bot chat runs the turn.\<close>

definition starts_turn :: "string \<Rightarrow> door_event \<Rightarrow> door_world \<Rightarrow> bool" where
  "starts_turn bid s w = (case s of
     Bot_start i \<Rightarrow> (case dw_doors w i of None \<Rightarrow> False | Some d \<Rightarrow> may_bot d \<and> dr_batch d = bid)
   | Start_run i \<Rightarrow> (case dw_doors w i of None \<Rightarrow> False | Some d \<Rightarrow> may_start d \<and> dr_batch d = bid)
   | _ \<Rightarrow> False)"

definition cut_in_bot :: "string \<Rightarrow> door_event \<Rightarrow> door_world \<Rightarrow> bool" where
  "cut_in_bot bid s w = (case s of
     Fail i \<Rightarrow> (case dw_doors w i of None \<Rightarrow> False | Some d \<Rightarrow> dr_phase d = In_bot \<and> dr_batch d = bid)
   | _ \<Rightarrow> False)"

definition door_start :: door_world where
  "door_start = \<lparr>dw_ledger = wake_empty, dw_doors = (\<lambda>_. None)\<rparr>"

section \<open>The ledger under the door\<close>

definition opened :: "string \<Rightarrow> batch list \<Rightarrow> bool" where
  "opened bid bs \<longleftrightarrow> (\<exists>b \<in> set bs. wb_id b = bid \<and> wb_state b \<noteq> Reserved)"

lemma opened_upd: "opened bid bs \<Longrightarrow> (\<And>b. wb_id (f b) = wb_id b \<and> wb_state (f b) \<noteq> Reserved) \<Longrightarrow> opened bid (upd_where P f bs)"
  unfolding opened_def by (auto simp: set_upd_where)

lemma opened_step:
  assumes "wake_wf st" "opened bid (wl_batches st)" "\<And>now i. op \<noteq> DispatchFailed now i"
  shows "opened bid (wl_batches (wake_step op st))"
proof (cases op)
  case (Admit env now bid' resolved keys owner)
  obtain r st' where a: "admit env now bid' resolved keys owner st = (r, st')" by fastforce
  have "wl_batches st' = wl_batches st \<or> (\<exists>b. wl_batches st' = wl_batches st @ [b])"
    by (rule wake_admit_cases [OF assms(1) a]) (auto dest: wf_scanned [OF assms(1)])
  then show ?thesis using a Admit assms(2) by (auto simp: opened_def)
next
  case (Gate now bid' resolved input)
  with gate_dispatch_snd [of now bid' resolved input st] assms(2) show ?thesis by (auto intro!: opened_upd)
next
  case (Report now bid' resolved state run)
  show ?thesis unfolding Report wake_step.simps
    by (rule report_snd [of now bid' resolved state run st]) (auto intro!: opened_upd assms(2))
next
  case (Release t1 t2 bid' resolved)
  show ?thesis unfolding Release wake_step.simps
    by (rule release_snd [of t1 t2 bid' resolved st]) (auto simp: release_write_def intro!: opened_upd assms(2))
qed (use assms(3) in blast)

lemma opened_failed: "opened bid (wl_batches st) \<Longrightarrow> bid \<noteq> i \<Longrightarrow> opened bid (wl_batches (dispatch_failed now i st))"
  unfolding opened_def dispatch_failed_def batch_cas_snd by (auto simp: set_upd_where)

lemma gate_opens_batch:
  assumes "wake_wf st" "fst (gate_dispatch now bid resolved input st) = None"
  shows "\<not> opened bid (wl_batches st)" "opened bid (wl_batches (snd (gate_dispatch now bid resolved input st)))"
proof -
  show "\<not> opened bid (wl_batches st)" using gate_reserved [OF assms] by (auto simp: opened_def)
  have r: "gate_read bid resolved input st = None" using assms(2) by (auto simp: gate_dispatch_def split: option.splits)
  then obtain b where "get_by wb_id bid (wl_batches st) = Some b" by (auto simp: gate_read_def split: option.splits)
  then have b: "b \<in> set (wl_batches st)" "wb_id b = bid" using get_by_SomeD by fastforce+
  then have "wb_state b = Reserved" using gate_reserved [OF assms] by blast
  with b show "opened bid (wl_batches (snd (gate_dispatch now bid resolved input st)))"
    using r by (auto simp: gate_dispatch_def gate_write_def batch_cas_def opened_def set_upd_where intro!: bexI [of _ "b\<lparr>wb_state := Dispatching, wb_updated := now\<rparr>"])
qed

lemma launch_settle_wf: "wake_wf st \<Longrightarrow> wake_wf (settle_launch now i resolved l status_of st)"
  using wf_step [of st "Report now i resolved ''terminal'' None"] wf_step [of st "Report now i resolved ''uncertain'' None"]
    wf_step [of st "Report now i resolved ''accepted'' (Some r)" for r]
  by (auto simp: settle_launch_def wf_dispatch_failed split: option.split)

lemma settle_opened:
  assumes "wake_wf st" "opened bid (wl_batches st)" "bid \<noteq> i \<or> launch_seen l"
  shows "opened bid (wl_batches (settle_launch now i resolved l status_of st))"
  using assms opened_step [OF assms(1,2), of "Report now i resolved ''terminal'' None"]
    opened_step [OF assms(1,2), of "Report now i resolved ''uncertain'' None"]
    opened_step [OF assms(1,2), of "Report now i resolved ''accepted'' (Some r)" for r]
  by (auto simp: settle_launch_def opened_failed split: option.split)

section \<open>One turn per batch\<close>

definition door_wf :: "door \<Rightarrow> bool" where
  "door_wf d \<longleftrightarrow> (dr_phase d = Handed_off \<longrightarrow> la_handoff (dr_launch d)) \<and> la_run (dr_launch d) \<noteq> Some []
     \<and> (la_launched (dr_launch d) \<longrightarrow> la_run (dr_launch d) \<noteq> None)
     \<and> (dr_phase d \<in> {Streaming, In_bot} \<longrightarrow> \<not> la_handoff (dr_launch d))
     \<and> (dr_phase d = In_bot \<longrightarrow> la_run (dr_launch d) = None)"

definition armed :: "door \<Rightarrow> bool" where
  "armed d \<longleftrightarrow> (dr_phase d = Streaming \<and> \<not> la_launched (dr_launch d)) \<or> (dr_phase d = Settling \<and> \<not> launch_seen (dr_launch d))"

definition active :: "string \<Rightarrow> door_world \<Rightarrow> nat \<Rightarrow> bool" where
  "active bid w i \<longleftrightarrow> (\<exists>d. dw_doors w i = Some d \<and> dr_batch d = bid \<and> dr_phase d \<noteq> Gone)"

definition door_inv :: "string \<Rightarrow> nat \<Rightarrow> nat \<Rightarrow> door_world \<Rightarrow> bool" where
  "door_inv bid n c w \<longleftrightarrow> wake_wf (dw_ledger w) \<and> n \<le> c + 1
     \<and> (\<forall>i j. active bid w i \<longrightarrow> active bid w j \<longrightarrow> i = j)
     \<and> ((\<exists>i. active bid w i) \<or> c < n \<longrightarrow> opened bid (wl_batches (dw_ledger w)))
     \<and> (\<forall>i d. dw_doors w i = Some d \<longrightarrow> door_wf d \<and> (dr_batch d = bid \<longrightarrow> armed d \<longrightarrow> n \<le> c))"

lemma door_inv_alter:
  assumes inv: "door_inv bid n c w" and d: "dw_doors w i = Some d" "dr_phase d \<noteq> Gone"
    and f: "dr_batch (f d) = dr_batch d" "door_wf (f d)"
    and n: "dr_batch d \<noteq> bid \<Longrightarrow> n' = n \<and> c' = c"
    and own: "dr_batch d = bid \<Longrightarrow> n' \<le> c' + 1 \<and> (armed (f d) \<longrightarrow> n' \<le> c')"
  shows "door_inv bid n' c' (set_door i (f d) w)"
proof -
  have act: "active bid (set_door i (f d) w) j \<longrightarrow> active bid w j" for j
    using d f by (auto simp: active_def set_door_def)
  have op: "opened bid (wl_batches (dw_ledger w))" if "(\<exists>j. active bid (set_door i (f d) w) j) \<or> c' < n'"
  proof (cases "dr_batch d = bid")
    case True
    then have "active bid w i" using d by (auto simp: active_def)
    with inv show ?thesis by (auto simp: door_inv_def)
  next
    case False
    with that act n inv show ?thesis by (auto simp: door_inv_def)
  qed
  have arm: "n' \<le> c'" if "dw_doors (set_door i (f d) w) j = Some e" "dr_batch e = bid" "armed e" for j e
  proof (cases "j = i")
    case True
    with that f own show ?thesis by (auto simp: set_door_def)
  next
    case False
    with that have e: "dw_doors w j = Some e" by (simp add: set_door_def)
    show ?thesis
    proof (cases "dr_batch d = bid")
      case True
      have "active bid w j" "active bid w i" using e that True d by (auto simp: active_def armed_def)
      with inv False show ?thesis by (auto simp: door_inv_def)
    next
      case other: False
      with e that inv n show ?thesis by (auto simp: door_inv_def)
    qed
  qed
  have le: "n' \<le> c' + 1" using own n inv by (cases "dr_batch d = bid") (auto simp: door_inv_def)
  have wf: "door_wf e" if "dw_doors (set_door i (f d) w) j = Some e" for j e
    using that f(2) inv by (auto simp: set_door_def door_inv_def split: if_splits)
  have led: "dw_ledger (set_door i (f d) w) = dw_ledger w" by (simp add: set_door_def)
  show ?thesis
    unfolding door_inv_def led using inv le act op arm wf unfolding door_inv_def by blast
qed

lemma door_inv_same:
  "door_inv bid n c w \<Longrightarrow> wake_wf st \<Longrightarrow> (opened bid (wl_batches (dw_ledger w)) \<Longrightarrow> opened bid (wl_batches st))
    \<Longrightarrow> door_inv bid n c (w\<lparr>dw_ledger := st\<rparr>)"
  unfolding door_inv_def active_def by simp

lemma door_invD:
  assumes "door_inv bid n c w"
  shows "wake_wf (dw_ledger w)" "n \<le> c + 1" "dw_doors w i = Some d \<Longrightarrow> door_wf d"
    "dw_doors w i = Some d \<Longrightarrow> dr_batch d = bid \<Longrightarrow> armed d \<Longrightarrow> n \<le> c"
    "active bid w i \<Longrightarrow> opened bid (wl_batches (dw_ledger w))" "c < n \<Longrightarrow> opened bid (wl_batches (dw_ledger w))"
  using assms unfolding door_inv_def by blast+

lemma door_inv_enter:
  assumes inv: "door_inv bid n c w"
  shows "door_inv bid n c (enter_door i now b resolved input w)"
proof (cases "dw_doors w i")
  case None
  obtain gate st where g: "gate_dispatch now b resolved input (dw_ledger w) = (gate, st)" by fastforce
  have st: "wake_wf st" "opened bid (wl_batches (dw_ledger w)) \<Longrightarrow> opened bid (wl_batches st)"
    using wf_step [of "dw_ledger w" "Gate now b resolved input"] opened_step [of "dw_ledger w" bid "Gate now b resolved input"]
      door_invD(1) [OF inv] g by simp_all
  from door_inv_same [OF inv st] have same: "door_inv bid n c (w\<lparr>dw_ledger := st\<rparr>)" .
  show ?thesis
  proof (cases gate)
    case (Some e)
    with None g same show ?thesis by (simp add: enter_door_def)
  next
    case pass: None
    let ?d = "\<lparr>dr_batch = b, dr_resolved = resolved, dr_launch = no_launch, dr_phase = Streaming\<rparr>"
    let ?w = "set_door i ?d (w\<lparr>dw_ledger := st\<rparr>)"
    have w: "enter_door i now b resolved input w = ?w" using None g pass by (simp add: enter_door_def)
    have gp: "\<not> opened b (wl_batches (dw_ledger w))" "opened b (wl_batches st)"
      using gate_opens_batch [OF door_invD(1) [OF inv], of now b resolved input] g pass by simp_all
    have act: "active bid ?w j \<longleftrightarrow> active bid w j \<or> (j = i \<and> b = bid)" for j
      using None by (auto simp: active_def set_door_def)
    have none: "\<not> active bid w j" "n \<le> c" if "b = bid" for j
      using that gp(1) door_invD(5) [OF inv, of j] door_invD(6) [OF inv] not_le by blast+
    have dw: "door_wf ?d" by (simp add: door_wf_def no_launch_def launch_seen_def)
    have led: "dw_ledger ?w = st" by (simp add: set_door_def)
    have doors: "door_wf e \<and> (dr_batch e = bid \<longrightarrow> armed e \<longrightarrow> n \<le> c)" if "dw_doors ?w j = Some e" for j e
      using that dw none(2) door_invD(3,4) [OF inv, of j e] by (auto simp: set_door_def split: if_splits)
    have one: "j = k" if "active bid ?w j" "active bid ?w k" for j k
    proof (cases "b = bid")
      case True
      with that act [of j] act [of k] none(1) [OF True, of j] none(1) [OF True, of k] show ?thesis by simp
    next
      case False
      with that act [of j] act [of k] have "active bid w j" "active bid w k" by simp_all
      with inv show ?thesis unfolding door_inv_def by blast
    qed
    have op: "opened bid (wl_batches st)" if "(\<exists>j. active bid ?w j) \<or> c < n"
    proof (cases "b = bid")
      case True
      with gp(2) show ?thesis by simp
    next
      case False
      from that show ?thesis
      proof
        assume "\<exists>j. active bid ?w j"
        then obtain j where "active bid ?w j" ..
        with act [of j] False have "active bid w j" by simp
        with door_invD(5) [OF inv] st(2) show ?thesis by blast
      next
        assume "c < n"
        with door_invD(6) [OF inv] st(2) show ?thesis by blast
      qed
    qed
    show ?thesis unfolding w door_inv_def led using st(1) door_invD(2) [OF inv] doors one op by blast
  qed
qed (use inv in \<open>simp add: enter_door_def\<close>)

lemma door_inv_fail:
  assumes inv: "door_inv bid n c w"
  shows "door_inv bid n (c + (if cut_in_bot bid (Fail i) w then 1 else 0)) (fail_door i w)"
proof (cases "dw_doors w i")
  case None
  with inv show ?thesis by (simp add: fail_door_def alter_door_def cut_in_bot_def)
next
  case (Some d)
  show ?thesis
  proof (cases "dr_phase d \<in> {Streaming, In_bot, Handed_off}")
    case False
    with inv Some show ?thesis by (auto simp: fail_door_def alter_door_def cut_in_bot_def)
  next
    case True
    define f where "f = (\<lambda>d :: door. d\<lparr>dr_phase := if still_dispatching (dr_batch d) (dr_resolved d) (dw_ledger w) then Settling else Gone\<rparr>)"
    have w: "fail_door i w = set_door i (f d) w" using Some True by (simp add: fail_door_def alter_door_def f_def)
    have dwf: "door_wf d" by (rule door_invD(3) [OF inv Some])
    have fw: "dr_batch (f d) = dr_batch d" "door_wf (f d)" "dr_phase (f d) \<in> {Settling, Gone}" "dr_launch (f d) = dr_launch d"
      using dwf by (auto simp: f_def door_wf_def)
    have own: "n \<le> (c + (if cut_in_bot bid (Fail i) w then 1 else 0)) + 1
        \<and> (armed (f d) \<longrightarrow> n \<le> c + (if cut_in_bot bid (Fail i) w then 1 else 0))" if b: "dr_batch d = bid"
    proof (cases "dr_phase d = In_bot")
      case True
      with b Some door_invD(2) [OF inv] show ?thesis by (simp add: cut_in_bot_def)
    next
      case False
      have "n \<le> c" if "armed (f d)"
      proof -
        have "\<not> launch_seen (dr_launch d)" using that fw(3,4) by (auto simp: armed_def)
        then have "armed d" using False True dwf by (auto simp: armed_def door_wf_def launch_seen_def)
        then show ?thesis by (rule door_invD(4) [OF inv Some b])
      qed
      with door_invD(2) [OF inv] show ?thesis by auto
    qed
    show ?thesis unfolding w
      by (rule door_inv_alter [OF inv Some]) (use True fw own Some in \<open>auto simp: cut_in_bot_def\<close>)
  qed
qed

lemma door_inv_settle:
  assumes inv: "door_inv bid n c w"
  shows "door_inv bid n c (settle_door i now status_of w)"
proof (cases "dw_doors w i")
  case None
  with inv show ?thesis by (simp add: settle_door_def)
next
  case (Some d)
  show ?thesis
  proof (cases "dr_phase d = Settling")
    case False
    with inv Some show ?thesis by (simp add: settle_door_def)
  next
    case True
    let ?st = "settle_launch now (dr_batch d) (dr_resolved d) (dr_launch d) status_of (dw_ledger w)"
    let ?w = "set_door i (d\<lparr>dr_phase := Gone\<rparr>) w"
    have w: "settle_door i now status_of w = ?w\<lparr>dw_ledger := ?st\<rparr>"
      using Some True by (simp add: settle_door_def set_door_def)
    have gone: "door_inv bid n c ?w"
      by (rule door_inv_alter [OF inv Some, of "\<lambda>d. d\<lparr>dr_phase := Gone\<rparr>"])
         (use door_invD(2) [OF inv] door_invD(3) [OF inv Some] True in \<open>auto simp: armed_def door_wf_def\<close>)
    have led: "dw_ledger ?w = dw_ledger w" by (simp add: set_door_def)
    have wf: "wake_wf (dw_ledger w)" by (rule door_invD(1) [OF inv])
    show ?thesis
    proof (cases "bid \<noteq> dr_batch d \<or> launch_seen (dr_launch d)")
      case True
      show ?thesis unfolding w
        by (rule door_inv_same [OF gone launch_settle_wf [OF wf]]) (use settle_opened [OF wf _ True] led in simp)
    next
      case False
      then have b: "dr_batch d = bid" and "armed d" using True by (auto simp: armed_def)
      then have n: "n \<le> c" using door_invD(4) [OF inv Some] by blast
      have none: "\<not> active bid ?w j" for j
      proof
        assume a: "active bid ?w j"
        then have "active bid w j" "j \<noteq> i" by (auto simp: active_def set_door_def split: if_splits)
        moreover have "active bid w i" using Some True b by (auto simp: active_def)
        ultimately show False using inv unfolding door_inv_def by blast
      qed
      have act: "active bid (?w\<lparr>dw_ledger := ?st\<rparr>) j = active bid ?w j" for j by (simp add: active_def)
      show ?thesis unfolding w door_inv_def act using none n launch_settle_wf [OF wf] gone unfolding door_inv_def by simp
    qed
  qed
qed

lemma door_inv_change:
  assumes inv: "door_inv bid n c w"
    and f: "\<And>d. dw_doors w i = Some d \<Longrightarrow> P d \<Longrightarrow> door_wf d \<Longrightarrow> dr_phase d \<noteq> Gone \<and> dr_batch (f d) = dr_batch d \<and> door_wf (f d)
      \<and> (armed (f d) \<longrightarrow> armed d)"
  shows "door_inv bid n c (alter_door i P f w)"
proof (cases "\<exists>d. dw_doors w i = Some d \<and> P d")
  case False
  with inv show ?thesis by (auto simp: alter_door_def split: option.split)
next
  case True
  then obtain d where d: "dw_doors w i = Some d" "P d" by blast
  note fd = f [OF d door_invD(3) [OF inv d(1)]]
  have w: "alter_door i P f w = set_door i (f d) w" using d by (simp add: alter_door_def)
  have "n \<le> c + 1 \<and> (armed (f d) \<longrightarrow> n \<le> c)" if "dr_batch d = bid"
    using fd that door_invD(2) [OF inv] door_invD(4) [OF inv d(1)] by blast
  then show ?thesis unfolding w by (intro door_inv_alter [OF inv d(1)]) (use fd in auto)
qed

text \<open>A turn starts: the request was armed before and is not any more.\<close>

lemma door_inv_turn:
  assumes inv: "door_inv bid n c w"
    and f: "\<And>d. P d \<Longrightarrow> door_wf d \<Longrightarrow> armed d \<and> dr_batch (f d) = dr_batch d \<and> door_wf (f d) \<and> \<not> armed (f d)"
  shows "door_inv bid (n + (if case dw_doors w i of None \<Rightarrow> False | Some d \<Rightarrow> P d \<and> dr_batch d = bid then 1 else 0)) c (alter_door i P f w)"
proof (cases "\<exists>d. dw_doors w i = Some d \<and> P d")
  case False
  with inv show ?thesis by (auto simp: alter_door_def split: option.split)
next
  case True
  then obtain d where d: "dw_doors w i = Some d" "P d" by blast
  note fd = f [OF d(2) door_invD(3) [OF inv d(1)]]
  have w: "alter_door i P f w = set_door i (f d) w" using d by (simp add: alter_door_def)
  have "n \<le> c" if "dr_batch d = bid" using fd that door_invD(4) [OF inv d(1)] by blast
  moreover have "dr_phase d \<noteq> Gone" using fd by (auto simp: armed_def)
  ultimately show ?thesis unfolding w using fd d by (intro door_inv_alter [OF inv d(1)]) auto
qed

lemma door_inv_step:
  assumes inv: "door_inv bid n c w"
  shows "door_inv bid (n + (if starts_turn bid s w then 1 else 0)) (c + (if cut_in_bot bid s w then 1 else 0)) (door_step s w)"
proof (cases s)
  case (Enter i now b resolved input)
  with door_inv_enter [OF inv] show ?thesis by (simp add: starts_turn_def cut_in_bot_def)
next
  case (Bot_start i)
  have "door_inv bid (n + (if case dw_doors w i of None \<Rightarrow> False | Some d \<Rightarrow> may_bot d \<and> dr_batch d = bid then 1 else 0)) c (door_step s w)"
    unfolding Bot_start door_step.simps
    by (rule door_inv_turn [OF inv]) (auto simp: may_bot_def armed_def door_wf_def)
  with Bot_start show ?thesis by (simp add: starts_turn_def cut_in_bot_def)
next
  case (Start_run i)
  have "door_inv bid (n + (if case dw_doors w i of None \<Rightarrow> False | Some d \<Rightarrow> may_start d \<and> dr_batch d = bid then 1 else 0)) c (door_step s w)"
    unfolding Start_run door_step.simps
    by (rule door_inv_turn [OF inv]) (auto simp: may_start_def armed_def door_wf_def)
  with Start_run show ?thesis by (simp add: starts_turn_def cut_in_bot_def)
next
  case (Bot_answer i)
  have "door_inv bid n c (door_step s w)" unfolding Bot_answer door_step.simps
    by (rule door_inv_change [OF inv]) (auto simp: armed_def door_wf_def)
  with Bot_answer show ?thesis by (simp add: starts_turn_def cut_in_bot_def)
next
  case (Name_run i r)
  have "door_inv bid n c (door_step s w)" unfolding Name_run door_step.simps
    by (rule door_inv_change [OF inv]) (auto simp: armed_def door_wf_def may_bot_def)
  with Name_run show ?thesis by (simp add: starts_turn_def cut_in_bot_def)
next
  case (Finish i)
  have "door_inv bid n c (door_step s w)" unfolding Finish door_step.simps
    by (rule door_inv_change [OF inv]) (auto simp: armed_def door_wf_def)
  with Finish show ?thesis by (simp add: starts_turn_def cut_in_bot_def)
next
  case (Fail i)
  with door_inv_fail [OF inv, of i] show ?thesis by (simp add: starts_turn_def)
next
  case (Settle i now status_of)
  with door_inv_settle [OF inv] show ?thesis by (simp add: starts_turn_def cut_in_bot_def)
next
  case (Ledger op)
  have "door_inv bid n c (w\<lparr>dw_ledger := wake_step op (dw_ledger w)\<rparr>)" if "\<And>now i. op \<noteq> DispatchFailed now i"
    by (rule door_inv_same [OF inv wf_step [OF door_invD(1) [OF inv]]]) (use opened_step [OF door_invD(1) [OF inv]] that in blast)
  with inv Ledger show ?thesis by (cases op) (simp_all add: starts_turn_def cut_in_bot_def)
qed

lemma door_inv_start: "door_inv bid 0 0 door_start"
  by (simp add: door_inv_def door_start_def wake_wf_empty active_def)

lemma door_inv_run:
  "door_inv bid n c w \<Longrightarrow> n + wins_along door_step (starts_turn bid) ss w \<le> c + wins_along door_step (cut_in_bot bid) ss w + 1"
proof (induction ss arbitrary: n c w)
  case Nil
  from door_invD(2) [OF Nil] show ?case by simp
next
  case (Cons s ss)
  from Cons.IH [OF door_inv_step [OF Cons.prems, of s]] show ?case by simp
qed

text \<open>
  C33. Whatever requests run through the door at once, however their steps and those of other clients of the
  ledger interleave and wherever each of them fails, a wake batch starts at most one turn, and at most one
  more for each request that was cut off while the live bot chat ran its turn: only those go back to the
  ledger as if nothing had been launched.
\<close>

theorem door_one_turn:
  "wins_along door_step (starts_turn bid) ss door_start \<le> 1 + wins_along door_step (cut_in_bot bid) ss door_start"
  using door_inv_run [OF door_inv_start, of bid ss] by simp

text \<open>The second turn after a request was cut off in the live bot chat does happen.\<close>

definition cut_run :: "door_event list" where
  "cut_run = [Ledger (Admit demo_env 100 ''wb_1'' ''s'' [demo_key] None), Enter 0 101 ''wb_1'' ''s'' (Some CANONICAL_INPUT),
     Bot_start 0, Fail 0, Settle 0 102 (\<lambda>_. None), Enter 1 103 ''wb_1'' ''s'' (Some CANONICAL_INPUT), Bot_start 1]"

definition one_batch :: "consumption list \<Rightarrow> wake_state \<Rightarrow> time \<Rightarrow> wake_ledger" where
  "one_batch rows s t = \<lparr>wl_batches = [(new_batch ''wb_1'' ''s'' [demo_key] 100 None)\<lparr>wb_state := s, wb_updated := t\<rparr>], wl_rows = rows\<rparr>"

lemma one_batch_admitted: "\<exists>rows. snd (admit demo_env 100 ''wb_1'' ''s'' [demo_key] None wake_empty) = one_batch rows Reserved 100"
proof -
  obtain q st where a: "admit demo_env 100 ''wb_1'' ''s'' [demo_key] None wake_empty = (Admitted ''wb_1'' [(demo_key, 7)] [] [] q, st)"
    "wl_batches st = [new_batch ''wb_1'' ''s'' [demo_key] 100 None]" using demo_admit_answer [of None] by auto
  have "wb_state (new_batch ''wb_1'' ''s'' [demo_key] 100 None) = Reserved" "wb_updated (new_batch ''wb_1'' ''s'' [demo_key] 100 None) = 100"
    by (simp_all add: new_batch_def)
  with a have "snd (admit demo_env 100 ''wb_1'' ''s'' [demo_key] None wake_empty) = one_batch (wl_rows st) Reserved 100"
    by (cases st) (simp add: one_batch_def)
  then show ?thesis ..
qed

lemma one_batch_gate:
  "gate_dispatch t ''wb_1'' ''s'' (Some CANONICAL_INPUT) (one_batch rows Reserved t0) = (None, one_batch rows Dispatching t)"
  by (simp add: gate_dispatch_def gate_read_def gate_write_def batch_cas_def one_batch_def new_batch_def count_where_def upd_where_def get_by_def)

lemma one_batch_failed: "dispatch_failed t ''wb_1'' (one_batch rows Dispatching t0) = one_batch rows Reserved t"
  by (simp add: dispatch_failed_def batch_cas_def one_batch_def new_batch_def upd_where_def)

lemma one_batch_still: "still_dispatching ''wb_1'' ''s'' (one_batch rows Dispatching t)"
  by (simp add: still_dispatching_def one_batch_def new_batch_def get_by_def)

lemma cut_starts_twice: "wins_along door_step (starts_turn ''wb_1'') cut_run door_start = 2"
proof -
  obtain rows where r: "snd (admit demo_env 100 ''wb_1'' ''s'' [demo_key] None wake_empty) = one_batch rows Reserved 100"
    using one_batch_admitted by blast
  show ?thesis
    by (simp add: cut_run_def door_start_def r one_batch_gate one_batch_failed one_batch_still enter_door_def set_door_def alter_door_def
        fail_door_def settle_door_def starts_turn_def may_bot_def no_launch_def settle_launch_def launch_seen_def)
qed

end
