(* ===== verification/Turn_Rows.thy ===== *)
theory Turn_Rows
  imports Auto_Wake Row_Projection
begin

text \<open>
  Two repairs of message rows: the triggers that keep a replayed tool call from being stored twice
  (\<open>compat/patch_dupguard.py\<close>), and the pass over the history of a turn that merges neighbouring user rows
  but keeps a wake apart from the report before it (\<open>_merge_consecutive_users_wake\<close> and its \<open>_v022\<close>
  variant in \<open>compat/compat.py\<close>).
\<close>

section \<open>The insert triggers\<close>

text \<open>A row of \<open>messages\<close>; \<open>NULL\<close> is \<^const>\<open>None\<close>.\<close>

record msg_row =
  mr_session :: "string option"
  mr_role :: "string option"
  mr_call :: "string option"
  mr_calls :: "string option"
  mr_content :: "string option"

text \<open>Equality of SQL: not true when either side is \<open>NULL\<close>.\<close>

definition sql_eq :: "'a option \<Rightarrow> 'a option \<Rightarrow> bool" where
  "sql_eq a b \<longleftrightarrow> a \<noteq> None \<and> a = b"

definition tool_row :: "msg_row \<Rightarrow> bool" where
  "tool_row r \<longleftrightarrow> mr_role r = Some ''tool'' \<and> mr_call r \<noteq> None \<and> mr_call r \<noteq> Some []"

definition same_tool_row :: "msg_row \<Rightarrow> msg_row \<Rightarrow> bool" where
  "same_tool_row r m \<longleftrightarrow> sql_eq (mr_session m) (mr_session r) \<and> sql_eq (mr_call m) (mr_call r) \<and> mr_role m = Some ''tool''"

definition caller_row :: "msg_row \<Rightarrow> bool" where
  "caller_row r \<longleftrightarrow> mr_role r = Some ''assistant'' \<and> mr_calls r \<noteq> None \<and> (mr_content r = None \<or> mr_content r = Some [])"

definition same_caller :: "msg_row \<Rightarrow> msg_row \<Rightarrow> bool" where
  "same_caller r m \<longleftrightarrow> sql_eq (mr_session m) (mr_session r) \<and> mr_role m = Some ''assistant'' \<and> sql_eq (mr_calls m) (mr_calls r)"

definition replayed :: "msg_row \<Rightarrow> msg_row list \<Rightarrow> bool" where
  "replayed r rows \<longleftrightarrow> (tool_row r \<and> list_ex (same_tool_row r) rows) \<or> (caller_row r \<and> list_ex (same_caller r) rows)"

definition insert_row :: "msg_row \<Rightarrow> msg_row list \<Rightarrow> msg_row list" where
  "insert_row r rows = (if replayed r rows then rows else rows @ [r])"

datatype row_op = Insert_row msg_row | Delete_rows "msg_row \<Rightarrow> bool"

fun row_step :: "row_op \<Rightarrow> msg_row list \<Rightarrow> msg_row list" where
  "row_step (Insert_row r) rows = insert_row r rows"
| "row_step (Delete_rows P) rows = filter (\<lambda>r. \<not> P r) rows"

definition tool_rows_of :: "string \<Rightarrow> string \<Rightarrow> msg_row list \<Rightarrow> nat" where
  "tool_rows_of sid call rows = length (filter (\<lambda>r. mr_role r = Some ''tool'' \<and> mr_session r = Some sid \<and> mr_call r = Some call) rows)"

definition callers_of :: "string \<Rightarrow> string \<Rightarrow> msg_row list \<Rightarrow> nat" where
  "callers_of sid calls rows = length (filter (\<lambda>r. caller_row r \<and> mr_session r = Some sid \<and> mr_calls r = Some calls) rows)"

lemma insert_counts:
  "call \<noteq> [] \<Longrightarrow> tool_rows_of sid call (insert_row r rows) \<le> max 1 (tool_rows_of sid call rows)"
  "callers_of sid calls (insert_row r rows) \<le> max 1 (callers_of sid calls rows)"
proof -
  assume c: "call \<noteq> []"
  show "tool_rows_of sid call (insert_row r rows) \<le> max 1 (tool_rows_of sid call rows)"
  proof (cases "mr_role r = Some ''tool'' \<and> mr_session r = Some sid \<and> mr_call r = Some call \<and> \<not> replayed r rows")
    case True
    then have "\<not> list_ex (same_tool_row r) rows" using c by (auto simp: replayed_def tool_row_def)
    then have "tool_rows_of sid call rows = 0"
      using True by (auto simp: tool_rows_of_def filter_empty_conv list_ex_iff same_tool_row_def sql_eq_def)
    then show ?thesis by (simp add: tool_rows_of_def insert_row_def)
  qed (auto simp: tool_rows_of_def insert_row_def)
next
  show "callers_of sid calls (insert_row r rows) \<le> max 1 (callers_of sid calls rows)"
  proof (cases "caller_row r \<and> mr_session r = Some sid \<and> mr_calls r = Some calls \<and> \<not> replayed r rows")
    case True
    then have "\<not> list_ex (same_caller r) rows" by (auto simp: replayed_def)
    then have "callers_of sid calls rows = 0"
      using True by (auto simp: callers_of_def filter_empty_conv list_ex_iff same_caller_def sql_eq_def caller_row_def)
    then show ?thesis by (simp add: callers_of_def insert_row_def)
  qed (auto simp: callers_of_def insert_row_def)
qed

lemma delete_counts:
  "tool_rows_of sid call (filter P rows) \<le> tool_rows_of sid call rows" "callers_of sid calls (filter P rows) \<le> callers_of sid calls rows"
  by (induction rows) (auto simp: tool_rows_of_def callers_of_def)

text \<open>A row the triggers let through is stored; a row they do not concern always is.\<close>

lemma insert_keeps: "set rows \<subseteq> set (insert_row r rows)" "\<not> tool_row r \<and> \<not> caller_row r \<Longrightarrow> insert_row r rows = rows @ [r]"
  by (auto simp: insert_row_def replayed_def)

text \<open>
  C34. Over any history of inserts and deletions a session never comes to hold two tool rows with one call id,
  nor two empty rows of the assistant with the same calls; what was there before the triggers never becomes more.
\<close>

theorem dupguard_one_row:
  "tool_rows_of sid (c # cs) (fold row_step ops rows) \<le> max 1 (tool_rows_of sid (c # cs) rows)
   \<and> callers_of sid calls (fold row_step ops rows) \<le> max 1 (callers_of sid calls rows)"
proof (induction ops arbitrary: rows)
  case (Cons op ops)
  have "tool_rows_of sid (c # cs) (row_step op rows) \<le> max 1 (tool_rows_of sid (c # cs) rows)"
    "callers_of sid calls (row_step op rows) \<le> max 1 (callers_of sid calls rows)"
    using insert_counts [of "c # cs" sid _ rows] insert_counts(2) [of sid calls _ rows]
      delete_counts(1) [of sid "c # cs" _ rows] delete_counts(2) [of sid calls _ rows]
    by (cases op; fastforce simp: le_max_iff_disj)+
  with Cons.IH [of "row_step op rows"] show ?case by auto
qed simp

section \<open>The merge pass\<close>

text \<open>
  What the pass uses of the core: whether a row starts a turn of its user's, what becomes of a row whose
  cached API content is stale and of one that absorbed another, and the names of its keys.
\<close>

record merge_core =
  mc_own_turn :: "json \<Rightarrow> bool"
  mc_drop_stale :: "json \<Rightarrow> json"
  mc_remember :: "json \<Rightarrow> json \<Rightarrow> json"
  mc_steer_kind :: json
  mc_persisted :: string
  mc_durable_rows :: string
  mc_turn_prefix :: string
  mc_json_prefix :: string

definition jdel :: "string \<Rightarrow> json \<Rightarrow> json" where
  "jdel k v = (case v of JObj kvs \<Rightarrow> JObj (filter (\<lambda>p. fst p \<noteq> k) kvs) | _ \<Rightarrow> v)"

definition content_of :: "json \<Rightarrow> json" where
  "content_of m = (case jget ''content'' m of None \<Rightarrow> JStr [] | Some c \<Rightarrow> c)"

text \<open>\<open>auto_wake.provenance_of\<close> of a message; \<open>loads\<close> reads metadata that is still text.\<close>

definition proven_report :: "(string \<Rightarrow> json option) \<Rightarrow> json \<Rightarrow> bool" where
  "proven_report loads m = (case (jget ''role'' m, jget ''display_kind'' m) of
     (Some (JStr role), Some (JStr kind)) \<Rightarrow>
       provenance_of role (Some kind) (case jget ''display_metadata'' m of Some (JStr s) \<Rightarrow> loads s | x \<Rightarrow> x) \<noteq> None
   | _ \<Rightarrow> False)"

definition wake_pair :: "(string \<Rightarrow> json option) \<Rightarrow> json \<Rightarrow> json \<Rightarrow> bool" where
  "wake_pair loads prev msg \<longleftrightarrow> proven_report loads prev \<and> jget ''content'' msg = Some (JStr CANONICAL_INPUT)"

fun is_text :: "json \<Rightarrow> bool" where
  "is_text (JStr s) = True"
| "is_text _ = False"

definition plain_text :: "merge_core \<Rightarrow> json \<Rightarrow> bool" where
  "plain_text mc c = (case c of JStr s \<Rightarrow> \<not> starts_with (mc_json_prefix mc) s | _ \<Rightarrow> False)"

definition mergeable :: "(json \<Rightarrow> bool) \<Rightarrow> merge_core \<Rightarrow> (string \<Rightarrow> json option) \<Rightarrow> json \<Rightarrow> json \<Rightarrow> bool" where
  "mergeable textual mc loads prev msg \<longleftrightarrow> is_obj prev \<and> jget ''role'' prev = Some (JStr ''user'')
     \<and> is_obj msg \<and> jget ''role'' msg = Some (JStr ''user'')
     \<and> \<not> mc_own_turn mc prev \<and> jval ''display_kind'' prev \<noteq> mc_steer_kind mc
     \<and> textual (content_of prev) \<and> textual (content_of msg) \<and> \<not> wake_pair loads prev msg"

definition text_content :: "json \<Rightarrow> string" where
  "text_content m = (case content_of m of JStr s \<Rightarrow> s | _ \<Rightarrow> [])"

definition join_texts :: "string \<Rightarrow> string \<Rightarrow> string" where
  "join_texts a b = (if a \<noteq> [] \<and> b \<noteq> [] then a @ [CHR 0x0A, CHR 0x0A] @ b else if a \<noteq> [] then a else b)"

definition unpersist :: "merge_core \<Rightarrow> json \<Rightarrow> string \<Rightarrow> json \<Rightarrow> json" where
  "unpersist mc prev merged m = (if merged \<noteq> text_content prev \<or> jget ''api_content'' prev \<noteq> None then jdel (mc_persisted mc) m else m)"

definition absorb :: "merge_core \<Rightarrow> json \<Rightarrow> json \<Rightarrow> json" where
  "absorb mc prev msg = (let merged = join_texts (text_content prev) (text_content msg) in
     mc_remember mc (unpersist mc prev merged (mc_drop_stale mc (jset ''content'' (JStr merged) prev))) msg)"

text \<open>\<open>prev.setdefault("_absorbed_row_ids", [])\<close> with the row of the marker appended once.\<close>

definition add_absorbed :: "json \<Rightarrow> json \<Rightarrow> json" where
  "add_absorbed i m = (let ids = (case jget ''_absorbed_row_ids'' m of Some (JArr xs) \<Rightarrow> xs | _ \<Rightarrow> [])
     in jset ''_absorbed_row_ids'' (JArr (if i \<in> set ids then ids else ids @ [i])) m)"

fun is_row_id :: "json \<Rightarrow> bool" where
  "is_row_id (JInt i) = True"
| "is_row_id _ = False"

text \<open>A marker that absorbs a plain turn becomes that turn.\<close>

definition unmark :: "merge_core \<Rightarrow> json \<Rightarrow> json \<Rightarrow> json" where
  "unmark mc msg m = (if truthy (jval ''display_kind'' m) \<and> \<not> truthy (jval ''display_kind'' msg) then
     (let marker = jval ''_row_id'' m; m1 = jdel ''display_kind'' m;
          m2 = (if jval ''_row_id'' msg = JNull then m1
                else jset ''_row_id'' (jval ''_row_id'' msg) (if is_row_id marker then add_absorbed marker m1 else m1))
      in jdel (mc_persisted mc) m2)
   else m)"

definition count_rows :: "merge_core \<Rightarrow> json \<Rightarrow> json \<Rightarrow> json" where
  "count_rows mc msg m =
     (if (truthy (jval (mc_persisted mc) m) \<or> truthy (jval (mc_durable_rows mc) m)) \<and> truthy (jval (mc_persisted mc) msg)
      then jset (mc_durable_rows mc) (JInt ((case jget_or (mc_durable_rows mc) (JInt 1) m of JInt i \<Rightarrow> i | _ \<Rightarrow> 1) + 1)) m
      else jdel (mc_durable_rows mc) m)"

definition absorb_v022 :: "merge_core \<Rightarrow> json \<Rightarrow> json \<Rightarrow> json" where
  "absorb_v022 mc prev msg = (let merged = join_texts (text_content prev) (text_content msg);
       m1 = jset ''content'' (JStr merged) (count_rows mc msg prev);
       m2 = (if text_content prev = [] then m1 else jset (mc_turn_prefix mc) (JStr (text_content prev)) m1)
     in mc_remember mc (unpersist mc prev merged (unmark mc msg (mc_drop_stale mc m2))) msg)"

text \<open>One pass: the rows so far with the last in front, and the number of repairs.\<close>

fun merge_onto :: "(json \<Rightarrow> json \<Rightarrow> bool) \<Rightarrow> (json \<Rightarrow> json \<Rightarrow> json) \<Rightarrow> json \<Rightarrow> json list \<times> nat \<Rightarrow> json list \<times> nat" where
  "merge_onto ok join msg ([], n) = ([msg], n)"
| "merge_onto ok join msg (prev # rows, n) =
     (if ok prev msg then (join prev msg # rows, n + 1) else (msg # prev # rows, n))"

definition merge_pass :: "(json \<Rightarrow> json \<Rightarrow> bool) \<Rightarrow> (json \<Rightarrow> json \<Rightarrow> json) \<Rightarrow> json list \<Rightarrow> json list \<times> nat" where
  "merge_pass ok join msgs = (let (rows, n) = fold (merge_onto ok join) msgs ([], 0) in (rev rows, n))"

definition merge_users_wake :: "merge_core \<Rightarrow> (string \<Rightarrow> json option) \<Rightarrow> json list \<Rightarrow> json list \<times> nat" where
  "merge_users_wake mc loads = merge_pass (mergeable is_text mc loads) (absorb mc)"

definition merge_users_wake_v022 :: "merge_core \<Rightarrow> (string \<Rightarrow> json option) \<Rightarrow> json list \<Rightarrow> json list \<times> nat" where
  "merge_users_wake_v022 mc loads = merge_pass (mergeable (plain_text mc) mc loads) (absorb_v022 mc)"

section \<open>What the pass keeps\<close>

fun folded :: "(json \<Rightarrow> json \<Rightarrow> bool) \<Rightarrow> (json \<Rightarrow> json \<Rightarrow> json) \<Rightarrow> json \<Rightarrow> json list \<Rightarrow> json option" where
  "folded ok join row [] = Some row"
| "folded ok join row (m # ms) = (if ok row m then folded ok join (join row m) ms else None)"

text \<open>A row made of a run of messages: the first took in the others one by one, each allowed.\<close>

definition made_of :: "(json \<Rightarrow> json \<Rightarrow> bool) \<Rightarrow> (json \<Rightarrow> json \<Rightarrow> json) \<Rightarrow> json list \<Rightarrow> json \<Rightarrow> bool" where
  "made_of ok join ms row = (case ms of [] \<Rightarrow> False | m # ms' \<Rightarrow> folded ok join m ms' = Some row)"

fun merged_as :: "(json \<Rightarrow> json \<Rightarrow> bool) \<Rightarrow> (json \<Rightarrow> json \<Rightarrow> json) \<Rightarrow> json list list \<Rightarrow> json list \<Rightarrow> bool" where
  "merged_as ok join [] rows = (rows = [])"
| "merged_as ok join (ms # segs) [] = False"
| "merged_as ok join (ms # segs) (row # rows) = (made_of ok join ms row \<and> merged_as ok join segs rows
     \<and> (case segs of [] \<Rightarrow> True | next_ms # _ \<Rightarrow> \<not> ok row (hd next_ms)))"

lemma folded_snoc: "folded ok join row ms = Some r \<Longrightarrow> ok r m \<Longrightarrow> folded ok join row (ms @ [m]) = Some (join r m)"
  by (induction ms arbitrary: row) (auto split: if_splits)

lemma merged_last: "merged_as ok join [ms] (rows @ [r]) \<Longrightarrow> ms \<noteq> []"
  by (cases rows) (auto simp: made_of_def)

lemma merged_snoc_join:
  "merged_as ok join (segs @ [ms]) (rows @ [r]) \<Longrightarrow> ok r m \<Longrightarrow> merged_as ok join (segs @ [ms @ [m]]) (rows @ [join r m])"
proof (induction ok join segs rows rule: merged_as.induct)
  case (1 ok join rows)
  then show ?case by (cases rows) (auto simp: made_of_def folded_snoc split: list.splits)
next
  case (2 ok join s segs)
  then show ?case by (cases segs) auto
next
  case (3 ok join s segs row rows)
  then show ?case using merged_last [of ok join ms rows r] by (cases segs) auto
qed

lemma merged_snoc_new:
  "merged_as ok join (segs @ [ms]) (rows @ [r]) \<Longrightarrow> \<not> ok r m \<Longrightarrow> merged_as ok join (segs @ [ms, [m]]) (rows @ [r, m])"
proof (induction ok join segs rows rule: merged_as.induct)
  case (1 ok join rows)
  then show ?case by (cases rows) (auto simp: made_of_def)
next
  case (2 ok join s segs)
  then show ?case by (cases segs) auto
next
  case (3 ok join s segs row rows)
  then show ?case by (cases segs) auto
qed

lemma merged_length: "merged_as ok join segs rows \<Longrightarrow> length segs = length rows"
  by (induction ok join segs rows rule: merged_as.induct) auto

lemma merge_pass_segments:
  "\<exists>segs. concat segs = msgs \<and> merged_as ok join segs (fst (merge_pass ok join msgs))
     \<and> length (fst (merge_pass ok join msgs)) + snd (merge_pass ok join msgs) = length msgs"
proof (induction msgs rule: rev_induct)
  case Nil
  show ?case by (intro exI [of _ "[]"]) (simp add: merge_pass_def)
next
  case (snoc m msgs)
  obtain rows n where p: "fold (merge_onto ok join) msgs ([], 0) = (rows, n)" by fastforce
  with snoc obtain segs where segs: "concat segs = msgs" "merged_as ok join segs (rev rows)" "length rows + n = length msgs"
    by (auto simp: merge_pass_def)
  show ?case
  proof (cases rows)
    case Nil
    with segs merged_length [OF segs(2)] have "segs = []" "msgs = []" "n = 0" by auto
    with p Nil show ?thesis by (intro exI [of _ "[[m]]"]) (simp add: merge_pass_def made_of_def)
  next
    case (Cons r rs)
    with merged_length [OF segs(2)] have "segs \<noteq> []" by auto
    then obtain segs' ms where sg: "segs = segs' @ [ms]" by (metis append_butlast_last_id)
    with segs(2) Cons have m: "merged_as ok join (segs' @ [ms]) (rev rs @ [r])" by simp
    show ?thesis
    proof (cases "ok r m")
      case True
      with p Cons segs sg merged_snoc_join [OF m True] show ?thesis
        by (intro exI [of _ "segs' @ [ms @ [m]]"]) (auto simp: merge_pass_def)
    next
      case False
      with p Cons segs sg merged_snoc_new [OF m False] show ?thesis
        by (intro exI [of _ "segs' @ [ms, [m]]"]) (auto simp: merge_pass_def)
    qed
  qed
qed

text \<open>
  Either pass loses, adds and reorders nothing: its rows are made of consecutive runs of the messages, one
  repair for each message taken in, where a row takes in the next message exactly when both are rows of a user
  with text that starts no turn of its own and the two are not a proven report and the wake after it. A wake so
  stays a row of its own behind its report.
\<close>

theorem merge_keeps_wake_apart:
  "(\<exists>segs. concat segs = msgs \<and> merged_as (mergeable is_text mc loads) (absorb mc) segs (fst (merge_users_wake mc loads msgs))
      \<and> length (fst (merge_users_wake mc loads msgs)) + snd (merge_users_wake mc loads msgs) = length msgs)
   \<and> (\<exists>segs. concat segs = msgs \<and> merged_as (mergeable (plain_text mc) mc loads) (absorb_v022 mc) segs (fst (merge_users_wake_v022 mc loads msgs))
      \<and> length (fst (merge_users_wake_v022 mc loads msgs)) + snd (merge_users_wake_v022 mc loads msgs) = length msgs)
   \<and> \<not> (mergeable textual mc loads report wake \<and> wake_pair loads report wake)"
  using merge_pass_segments [of msgs "mergeable is_text mc loads" "absorb mc"]
    merge_pass_segments [of msgs "mergeable (plain_text mc) mc loads" "absorb_v022 mc"]
  by (auto simp: merge_users_wake_def merge_users_wake_v022_def mergeable_def)

end
