(* ===== verification/Web_Service.thy ===== *)
theory Web_Service
  imports Utf8_Text Url_Text Json
begin

text \<open>
  \<open>web/serve.py\<close>, the front of the app: settings, the key check, the caps on request bodies, what the proxy
  forwards, and the static files with their precompressed companions. What the file system, the gateway and
  the parsers of the standard library answer is an argument; a path is the list of its components.
\<close>

section \<open>Settings and the key\<close>

text \<open>\<open>_pos_int\<close>: the value, and what goes into \<open>CONFIG_ERRORS\<close>; \<open>parse\<close> is \<open>int\<close>.\<close>

definition pos_int :: "(string \<Rightarrow> int option) \<Rightarrow> string \<Rightarrow> string \<Rightarrow> int \<Rightarrow> int \<times> string list" where
  "pos_int parse name raw dflt = (case parse raw of
     None \<Rightarrow> (dflt, [name @ '': not an integer''])
   | Some v \<Rightarrow> if v \<le> 0 then (dflt, [name @ '': must be positive'']) else (v, []))"

text \<open>\<open>key\<close> is what \<open>runtime_config.read_key\<close> gives for this request.\<close>

definition web_authorized :: "string option \<Rightarrow> string \<Rightarrow> bool" where
  "web_authorized key header = (case key of None \<Rightarrow> False
   | Some k \<Rightarrow> k \<noteq> [] \<and> header = ''Bearer '' @ k)"

definition HOP_BY_HOP :: "string list" where
  "HOP_BY_HOP = [''host'', ''connection'', ''keep-alive'', ''proxy-authenticate'', ''proxy-authorization'', ''te'', ''trailers'',
     ''transfer-encoding'', ''upgrade'', ''origin'']"

definition forwarded :: "string list \<Rightarrow> (string \<times> string) list \<Rightarrow> (string \<times> string) list" where
  "forwarded also headers = filter (\<lambda>h. py_lower (fst h) \<notin> set (HOP_BY_HOP @ also)) headers"

section \<open>Request bodies\<close>

text \<open>A body as it arrives: its chunks, and whether reading fails after them.\<close>

record arriving =
  ar_chunks :: "bytes list"
  ar_breaks :: bool

text \<open>\<open>_json_body\<close>: the bytes held so far, until they exceed the cap.\<close>

fun held :: "nat \<Rightarrow> bytes \<Rightarrow> bytes list \<Rightarrow> bytes option" where
  "held cap buf [] = Some buf"
| "held cap buf (c # cs) = (if cap < length (buf @ c) then None else held cap (buf @ c) cs)"

datatype body_error = Too_large | Invalid_json | Not_object

definition error_status :: "body_error \<Rightarrow> nat" where
  "error_status e = (if e = Too_large then 413 else 400)"

definition json_body :: "nat \<Rightarrow> (bytes \<Rightarrow> json option) \<Rightarrow> nat option \<Rightarrow> arriving \<Rightarrow> body_error + json" where
  "json_body cap loads declared body =
     (if (case declared of None \<Rightarrow> False | Some n \<Rightarrow> cap < n) then Inl Too_large
      else if declared = Some 0 then Inl Invalid_json
      else case held cap [] (ar_chunks body) of
        None \<Rightarrow> Inl Too_large
      | Some buf \<Rightarrow> if ar_breaks body then Inl Invalid_json
          else case loads buf of
            None \<Rightarrow> Inl Invalid_json
          | Some v \<Rightarrow> (case v of JObj kvs \<Rightarrow> Inr v | _ \<Rightarrow> Inl Not_object))"

text \<open>
  \<open>_request_body_stream\<close>: the chunks that go on to the gateway, and whether the cap stopped the upload.
\<close>

fun body_stream :: "nat \<Rightarrow> nat \<Rightarrow> bytes list \<Rightarrow> bytes list \<times> bool" where
  "body_stream cap sent [] = ([], False)"
| "body_stream cap sent (c # cs) =
     (if cap < sent + length c then ([], True)
      else let (out, over) = body_stream cap (sent + length c) cs in (c # out, over))"

datatype upstream = Header_timeout | Broken | Answered nat

text \<open>
  The answer of \<open>api_proxy\<close> before the body of the response: the most that goes upstream, and the status; \<^const>\<open>None\<close> when it
  raises. An event stream has no time limit on its headers. \<open>first\<close> says whether the answer of the gateway came
  before the cap was crossed.
\<close>

definition proxy_request :: "nat \<Rightarrow> bool \<Rightarrow> nat option \<Rightarrow> bool \<Rightarrow> bool \<Rightarrow> arriving \<Rightarrow> upstream \<Rightarrow> bytes list option \<times> nat option" where
  "proxy_request cap has_body declared sse first body up =
     (if has_body \<and> (case declared of None \<Rightarrow> False | Some n \<Rightarrow> cap < n) then (None, Some 413)
      else let (out, over) = (if has_body then body_stream cap 0 (ar_chunks body) else ([], False))
           in (Some out,
               if over \<and> \<not> first then Some 413
               else case up of
                 Header_timeout \<Rightarrow> if sse then None else if over then Some 413 else Some 504
               | Broken \<Rightarrow> if over then Some 413 else None
               | Answered s \<Rightarrow> Some s))"

definition proxy_headers :: "bool \<Rightarrow> (string \<times> string) list \<Rightarrow> (string \<times> string) list" where
  "proxy_headers has_body headers = (let hs = forwarded [] headers in
     if has_body then filter (\<lambda>h. py_lower (fst h) \<noteq> ''content-length'') hs else hs)"

definition response_headers :: "(string \<times> string) list \<Rightarrow> (string \<times> string) list" where
  "response_headers headers = forwarded [''content-encoding'', ''content-length''] headers"

text \<open>
  \<open>_stream_response\<close>: a slot is taken for a body declared big, or once what was streamed crosses the line.
\<close>

definition BIG_STREAM_BYTES :: nat where "BIG_STREAM_BYTES = 8 * 1024 * 1024"

fun slot_taken :: "nat \<Rightarrow> bool \<Rightarrow> nat \<Rightarrow> nat list \<Rightarrow> bool" where
  "slot_taken big slot streamed [] = slot"
| "slot_taken big slot streamed (n # ns) =
     slot_taken big (slot \<or> big < streamed + n) (streamed + n) ns"

definition stream_slot :: "nat option \<Rightarrow> nat list \<Rightarrow> bool" where
  "stream_slot said chunks = (let declared = (case said of None \<Rightarrow> False | Some n \<Rightarrow> BIG_STREAM_BYTES < n) in
     case chunks of [] \<Rightarrow> declared | n # ns \<Rightarrow> slot_taken BIG_STREAM_BYTES declared n ns)"

section \<open>Encodings\<close>

text \<open>
  \<open>Accept-Encoding\<close> as name and quality, first mention first; \<open>float_of\<close> is \<open>float\<close> (a NaN as 0, which the
  comparisons cannot tell apart).
\<close>

definition token_quality :: "(string \<Rightarrow> real option) \<Rightarrow> string list \<Rightarrow> real" where
  "token_quality float_of params = fold (\<lambda>p q. let p' = py_strip p in
     if starts_with ''q='' p' then (case float_of (drop 2 p') of None \<Rightarrow> 0 | Some r \<Rightarrow> r) else q) params 1"

definition add_consent :: "(string \<Rightarrow> real option) \<Rightarrow> string \<Rightarrow> (string \<times> real) list \<Rightarrow> (string \<times> real) list" where
  "add_consent float_of token cs = (let parts = split_on (CHR '';'') (py_strip token); name = py_strip (hd parts) in
     if name \<in> {''br'', ''gzip'', ''*''} \<and> name \<notin> fst ` set cs then cs @ [(name, token_quality float_of (tl parts))] else cs)"

definition encoding_consents :: "(string \<Rightarrow> real option) \<Rightarrow> string \<Rightarrow> (string \<times> real) list" where
  "encoding_consents float_of header = fold (add_consent float_of) (split_on (CHR '','') (py_lower header)) []"

definition quality :: "(string \<times> real) list \<Rightarrow> string \<Rightarrow> real" where
  "quality consents enc = (case map_of consents enc of Some q \<Rightarrow> q
   | None \<Rightarrow> (case map_of consents ''*'' of Some q \<Rightarrow> q | None \<Rightarrow> 0))"

type_synonym path = "string list"

definition under :: "path \<Rightarrow> path \<Rightarrow> bool" where
  "under base p \<longleftrightarrow> take (length base) p = base"

text \<open>\<open>_safe_companion\<close>: \<open>companion\<close> is the resolved path of the target with the extension.\<close>

definition safe_companion :: "(path \<Rightarrow> bool) \<Rightarrow> (path \<Rightarrow> string \<Rightarrow> path) \<Rightarrow> path \<Rightarrow> path \<Rightarrow> string \<Rightarrow> path option" where
  "safe_companion is_file companion base target ext = (let c = companion target ext in
     if under base c \<and> is_file c then Some c else None)"

definition ENCODINGS :: "(string \<times> string) list" where
  "ENCODINGS = [(''br'', ''.br''), (''gzip'', ''.gz'')]"

definition better :: "(string \<Rightarrow> path option) \<Rightarrow> (string \<Rightarrow> real) \<Rightarrow> string \<times> string \<Rightarrow> (real \<times> string \<times> path) option
    \<Rightarrow> (real \<times> string \<times> path) option" where
  "better avail q enc best = (case (if 0 < q (fst enc) then avail (snd enc) else None) of
     None \<Rightarrow> best
   | Some c \<Rightarrow> (case best of None \<Rightarrow> Some (q (fst enc), fst enc, c)
       | Some b \<Rightarrow> if fst b < q (fst enc) then Some (q (fst enc), fst enc, c) else best))"

definition pick_encoding :: "(string \<Rightarrow> path option) \<Rightarrow> (string \<Rightarrow> real) \<Rightarrow> (string \<times> path) option" where
  "pick_encoding avail q = map_option snd (fold (better avail q) ENCODINGS None)"

section \<open>Static files\<close>

datatype static_answer = Not_found | Not_modified string
  | Serve path "string option" bool string  \<comment> \<open>the file, its encoding, \<open>Vary\<close>, the validator\<close>

text \<open>
  \<open>static_handler\<close>: \<open>locate\<close> is the resolved path of a request path under the configured base, \<open>base\<close> the resolved root.
\<close>

definition static_handler :: "(path \<Rightarrow> bool) \<Rightarrow> (path \<Rightarrow> string \<Rightarrow> path) \<Rightarrow> (path \<Rightarrow> string) \<Rightarrow> (string \<Rightarrow> real option) \<Rightarrow> (string \<Rightarrow> path)
    \<Rightarrow> path \<Rightarrow> string \<Rightarrow> string \<Rightarrow> string option \<Rightarrow> static_answer" where
  "static_handler is_file companion etag float_of locate base request_path accept if_none_match =
     (let t0 = locate (if request_path = [] then ''index.html'' else request_path);
          target = (if \<not> under base t0 \<or> \<not> is_file t0 then locate ''index.html'' else t0)
      in if \<not> under base target \<or> \<not> is_file target then Not_found
         else if if_none_match = Some (etag target) then Not_modified (etag target)
         else let avail = safe_companion is_file companion base target;
                  vary = (avail ''.gz'' \<noteq> None \<or> avail ''.br'' \<noteq> None)
              in case pick_encoding avail (quality (encoding_consents float_of accept)) of
                None \<Rightarrow> Serve target None vary (etag target)
              | Some (enc, c) \<Rightarrow> Serve c (Some enc) vary (etag target))"

section \<open>What holds of them\<close>

lemma under_iff: "under base p \<longleftrightarrow> (\<exists>rest. p = base @ rest)"
proof
  assume "under base p"
  then show "\<exists>rest. p = base @ rest" by (intro exI [of _ "drop (length base) p"]) (metis append_take_drop_id under_def)
qed (auto simp: under_def)

definition asked :: "string \<Rightarrow> string" where
  "asked request_path = (if request_path = [] then ''index.html'' else request_path)"

definition served_ok :: "(path \<Rightarrow> bool) \<Rightarrow> (path \<Rightarrow> string \<Rightarrow> path) \<Rightarrow> (path \<Rightarrow> string) \<Rightarrow> (string \<Rightarrow> real) \<Rightarrow> path \<Rightarrow> path
    \<Rightarrow> path \<Rightarrow> string option \<Rightarrow> bool \<Rightarrow> bool" where
  "served_ok is_file companion etag q base target p enc vary \<longleftrightarrow>
     under base target \<and> is_file target \<and> under base p \<and> is_file p
     \<and> (case enc of
         None \<Rightarrow> p = target \<and> (\<forall>(e, ext) \<in> set ENCODINGS. 0 < q e \<longrightarrow> safe_companion is_file companion base target ext = None)
       | Some e \<Rightarrow> vary \<and> 0 < q e \<and> (\<exists>ext. (e, ext) \<in> set ENCODINGS \<and> p = companion target ext)
           \<and> (\<forall>(e', ext') \<in> set ENCODINGS. safe_companion is_file companion base target ext' \<noteq> None
                \<longrightarrow> q e' < q e \<or> (q e' = q e \<and> (e = ''br'' \<or> e' = e)) \<or> q e' \<le> 0))"

lemma pick_cases:
  "pick_encoding avail q = (case (if 0 < q ''br'' then avail ''.br'' else None, if 0 < q ''gzip'' then avail ''.gz'' else None) of
     (None, None) \<Rightarrow> None
   | (Some c, None) \<Rightarrow> Some (''br'', c)
   | (None, Some d) \<Rightarrow> Some (''gzip'', d)
   | (Some c, Some d) \<Rightarrow> if q ''br'' < q ''gzip'' then Some (''gzip'', d) else Some (''br'', c))"
  by (simp add: pick_encoding_def ENCODINGS_def better_def split: option.split)

lemma companion_some: "safe_companion is_file companion base target ext = Some c
   \<longleftrightarrow> c = companion target ext \<and> under base c \<and> is_file c"
  by (auto simp: safe_companion_def Let_def)

lemma served_pick:
  assumes "under base target" "is_file target"
  shows "case pick_encoding (safe_companion is_file companion base target) q of
     None \<Rightarrow> served_ok is_file companion etag q base target target None vary
   | Some (enc, c) \<Rightarrow> served_ok is_file companion etag q base target c (Some enc)
       (safe_companion is_file companion base target ''.gz'' \<noteq> None \<or> safe_companion is_file companion base target ''.br'' \<noteq> None)"
proof -
  let ?a = "safe_companion is_file companion base target"
  have t: "under base target \<and> is_file target" using assms by simp
  have c: "under base c \<and> is_file c \<and> c = companion target ext" if "?a ext = Some c" for ext c
    using that unfolding companion_some by blast
  show ?thesis
  proof (cases "?a ''.br''")
    case br: None
    show ?thesis
    proof (cases "?a ''.gz''")
      case None
      show ?thesis unfolding pick_cases using t by (auto simp: served_ok_def ENCODINGS_def br None)
    next
      case (Some d)
      show ?thesis unfolding pick_cases using t c [OF Some] by (auto simp: served_ok_def ENCODINGS_def br Some)
    qed
  next
    case br: (Some b)
    show ?thesis
    proof (cases "?a ''.gz''")
      case None
      show ?thesis unfolding pick_cases using t c [OF br] by (auto simp: served_ok_def ENCODINGS_def br None)
    next
      case (Some d)
      show ?thesis unfolding pick_cases using t c [OF br] c [OF Some] by (auto simp: served_ok_def ENCODINGS_def br Some)
    qed
  qed
qed

definition served :: "static_answer \<Rightarrow> (path \<times> string option \<times> bool \<times> string) option" where
  "served ans = (case ans of Serve p enc vary tag \<Rightarrow> Some (p, enc, vary, tag) | _ \<Rightarrow> None)"

text \<open>
  C35. Whatever is asked for, a file that is served lies under the root by its path components, as the file asked
  for, the page of the app or a companion of one of them; nothing outside is, also where the request walks out
  of the root or resolves to a sibling whose name starts like it. A companion goes out only in an encoding the
  client gave a positive quality, the best there is and Brotli among equals, and the plain file only when
  there is no such companion.
\<close>

theorem static_contained:
  assumes "served (static_handler is_file companion etag float_of locate base request_path accept if_none_match) = Some (p, enc, vary, tag)"
  shows "\<exists>target \<in> {locate (asked request_path), locate ''index.html''}. tag = etag target
    \<and> served_ok is_file companion etag (quality (encoding_consents float_of accept)) base target p enc vary"
proof -
  define t0 where "t0 = locate (asked request_path)"
  define target where "target = (if \<not> under base t0 \<or> \<not> is_file t0 then locate ''index.html'' else t0)"
  note h = assms [unfolded static_handler_def Let_def served_def, folded asked_def, folded t0_def, folded target_def]
  from h have ok: "under base target" "is_file target" by (auto split: if_splits)
  have t: "target \<in> {locate (asked request_path), locate ''index.html''}" by (simp add: target_def t0_def)
  from h ok served_pick [where base = base and target = target and is_file = is_file and companion = companion and etag = etag and vary = vary and q = "quality (encoding_consents float_of accept)"]
  have "tag = etag target \<and> served_ok is_file companion etag (quality (encoding_consents float_of accept)) base target p enc vary"
    by (auto split: if_splits option.splits)
  with t show ?thesis by blast
qed

definition demo_file :: "path \<Rightarrow> bool" where
  "demo_file p \<longleftrightarrow> p \<in> {[''srv'', ''index.html''], [''srv'', ''index.html.br''], [''etc'', ''passwd'']}"

definition demo_companion :: "path \<Rightarrow> string \<Rightarrow> path" where
  "demo_companion p ext = butlast p @ [last p @ ext]"

definition demo_locate :: "string \<Rightarrow> path" where
  "demo_locate s = (if s = ''../etc/passwd'' then [''etc'', ''passwd''] else [''srv'', s])"

lemma demo_consents: "encoding_consents (\<lambda>_. None) ''gzip, br'' = [(''gzip'', 1), (''br'', 1)]"
  by (simp add: encoding_consents_def add_consent_def token_quality_def py_strip_def py_lstrip_def py_rstrip_def py_space_def
      py_lower_def lower_char_def Let_def)

lemma demo_served: "served (static_handler demo_file demo_companion (\<lambda>_. ''tag'') (\<lambda>_. None) demo_locate [''srv''] ''../etc/passwd'' ''gzip, br'' None)
   = Some ([''srv'', ''index.html.br''], Some ''br'', True, ''tag'')"
  by (simp add: served_def static_handler_def demo_consents pick_cases quality_def safe_companion_def under_def demo_file_def
      demo_companion_def demo_locate_def Let_def)

theorem static_contained_witness:
  "served_ok demo_file demo_companion (\<lambda>_. ''tag'') (quality (encoding_consents (\<lambda>_. None) ''gzip, br'')) [''srv'']
     [''srv'', ''index.html''] [''srv'', ''index.html.br''] (Some ''br'') True"
  using static_contained [OF demo_served] by (auto simp: demo_locate_def asked_def served_ok_def under_def)

text \<open>What is held of a body and what goes upstream stays within the cap.\<close>

lemma held_cap: "held cap buf cs = Some b \<Longrightarrow> length buf \<le> cap \<Longrightarrow> length b \<le> cap \<and> b = buf @ concat cs"
  by (induction cap buf cs rule: held.induct) (auto split: if_splits)

lemma body_stream_cap:
  "sent \<le> cap \<Longrightarrow> sent + length (concat (fst (body_stream cap sent cs))) \<le> cap
     \<and> (\<exists>rest. cs = fst (body_stream cap sent cs) @ rest \<and> (snd (body_stream cap sent cs) \<longleftrightarrow> rest \<noteq> []))"
proof (induction cap sent cs rule: body_stream.induct)
  case (2 cap sent c cs)
  show ?case
  proof (cases "cap < sent + length c")
    case False
    with 2 show ?thesis by (auto simp: split_beta add.assoc)
  qed (use 2 in simp)
qed simp

text \<open>
  No upload goes past the cap: of a body only whole chunks from its front are passed on, never more than the
  cap in all, an upload that is cut is answered with 413 unless the gateway had answered before, and one whose
  declared length is over the cap is refused before anything is read. A JSON body is parsed only whole.
\<close>

definition upload_ok :: "nat \<Rightarrow> bool \<Rightarrow> nat option \<Rightarrow> bool \<Rightarrow> arriving \<Rightarrow> bytes list option \<times> nat option \<Rightarrow> bool" where
  "upload_ok cap has_body declared first body ans = (case ans of
     (None, status) \<Rightarrow> status = Some 413 \<and> (\<exists>n. declared = Some n \<and> cap < n)
   | (Some out, status) \<Rightarrow> length (concat out) \<le> cap \<and> (\<exists>rest. (if has_body then ar_chunks body else []) = out @ rest
       \<and> (rest \<noteq> [] \<longrightarrow> \<not> first \<longrightarrow> status = Some 413)))"

theorem proxy_upload_capped:
  "upload_ok cap has_body declared first body (proxy_request cap has_body declared sse first body up)
   \<and> (case json_body cap loads declared body of Inl e \<Rightarrow> True
      | Inr v \<Rightarrow> length (concat (ar_chunks body)) \<le> cap \<and> loads (concat (ar_chunks body)) = Some v)"
proof
  obtain out over where o: "body_stream cap 0 (ar_chunks body) = (out, over)" by fastforce
  from body_stream_cap [of 0 cap "ar_chunks body"] o
  have b: "length (concat out) \<le> cap" "\<exists>rest. ar_chunks body = out @ rest \<and> (over \<longleftrightarrow> rest \<noteq> [])" by simp_all
  show "upload_ok cap has_body declared first body (proxy_request cap has_body declared sse first body up)"
    using b by (auto simp: upload_ok_def proxy_request_def o split: option.splits upstream.splits)
  show "case json_body cap loads declared body of Inl e \<Rightarrow> True
      | Inr v \<Rightarrow> length (concat (ar_chunks body)) \<le> cap \<and> loads (concat (ar_chunks body)) = Some v"
    using held_cap [of cap "[]" "ar_chunks body"]
    by (auto simp: json_body_def split: option.splits json.splits)
qed

end
