(* ===== verification/Web_Archive.thy ===== *)
theory Web_Archive
  imports Web_Service
begin

text \<open>
  What \<open>web/serve.py\<close> keeps on disk: the memory files of the agent, the switches of skills, and the archive of
  uploads that outlives the artifacts of the gateway. A directory is a map from file names to content and time of
  change; what the gateway answers is an argument.
\<close>

record stored =
  fl_bytes :: bytes
  fl_mtime :: time

type_synonym dir = "string \<Rightarrow> stored option"

section \<open>Memory files\<close>

definition MEMORY_FILES :: "(string \<times> nat) list" where
  "MEMORY_FILES = [(''MEMORY.md'', 2200), (''USER.md'', 1375)]"

text \<open>Universal newlines: what \<open>read_text\<close> makes of line ends.\<close>

fun newlines :: "utext \<Rightarrow> utext" where
  "newlines [] = []"
| "newlines (c # s) = (if c = 13 then 10 # newlines (if take 1 s = [10] then drop 1 s else s) else c # newlines s)"

record memory_item =
  mi_name :: string
  mi_chars :: nat
  mi_limit :: nat
  mi_content :: "utext option"
  mi_mtime :: "time option"

definition memory_item :: "dir \<Rightarrow> string \<Rightarrow> memory_item" where
  "memory_item d name = (let limit = (case map_of MEMORY_FILES name of Some n \<Rightarrow> n | None \<Rightarrow> 0);
       none = \<lparr>mi_name = name, mi_chars = 0, mi_limit = limit, mi_content = None, mi_mtime = None\<rparr> in
     case d name of None \<Rightarrow> none
   | Some f \<Rightarrow> (case decode (fl_bytes f) of None \<Rightarrow> none
       | Some s \<Rightarrow> \<lparr>mi_name = name, mi_chars = length (newlines s), mi_limit = limit,
           mi_content = Some (newlines s), mi_mtime = Some (fl_mtime f)\<rparr>))"

definition tmp_name :: "string \<Rightarrow> string \<Rightarrow> string" where
  "tmp_name name pid = name @ ''.tmp-'' @ pid"

datatype mem_answer = Mem_error nat string | Mem_item memory_item | Mem_raised

text \<open>
  \<open>memories_put\<close>, \<open>auth\<close> as \<^const>\<open>web_authorized\<close> says and with the JSON body read: \<open>content\<close> is the string it carries, if any. \<open>fault\<close>
  is an \<open>OSError\<close> of the write or of the rename. A lone surrogate has no UTF-8 form: the write raises after the
  temporary file was opened.
\<close>

definition memories_put :: "bool \<Rightarrow> string \<Rightarrow> time \<Rightarrow> bool \<Rightarrow> string \<Rightarrow> body_error + utext option \<Rightarrow> dir \<Rightarrow> mem_answer \<times> dir" where
  "memories_put auth pid now fault name body d =
     (if \<not> auth then (Mem_error 401 ''invalid or missing API key'', d)
      else if CHR ''/'' \<in> set name \<or> CHR 0x5C \<in> set name \<or> (\<exists>i < length name. take 2 (drop i name) = ''..'') then (Mem_error 400 ''invalid file name'', d)
      else if name \<notin> fst ` set MEMORY_FILES then (Mem_error 404 ''unknown memory file'', d)
      else case body of
        Inl e \<Rightarrow> (Mem_error (error_status e) ''body'', d)
      | Inr None \<Rightarrow> (Mem_error 400 ''content must be a string'', d)
      | Inr (Some content) \<Rightarrow> (case encode content of
          None \<Rightarrow> (Mem_raised, d(tmp_name name pid \<mapsto> \<lparr>fl_bytes = [], fl_mtime = now\<rparr>))
        | Some bs \<Rightarrow> if fault then (Mem_error 500 ''write failed'', d(tmp_name name pid := None))
            else let d' = (d(tmp_name name pid := None))(name \<mapsto> \<lparr>fl_bytes = bs, fl_mtime = now\<rparr>)
                 in (Mem_item (memory_item d' name), d')))"

lemma newlines_plain: "13 \<notin> set s \<Longrightarrow> newlines s = s"
  by (induction s) auto

section \<open>Skills\<close>

datatype skill_answer = Skill_error nat string | Skill_set string bool bool

text \<open>
  \<open>skills_patch\<close>, \<open>auth\<close> as above and with the flag of the body read; \<open>installed\<close> is \<^const>\<open>None\<close> when the libraries cannot be
  loaded, \<open>saves\<close> whether the save goes through.
\<close>

definition skills_patch :: "bool \<Rightarrow> string list option \<Rightarrow> string list \<Rightarrow> bool \<Rightarrow> string \<Rightarrow> body_error + bool option \<Rightarrow> string set
    \<Rightarrow> skill_answer \<times> string set" where
  "skills_patch auth installed essential saves name body disabled =
    (if \<not> auth then (Skill_error 401 ''invalid or missing API key'', disabled) else case body of
     Inl e \<Rightarrow> (Skill_error (error_status e) ''body'', disabled)
   | Inr None \<Rightarrow> (Skill_error 400 ''enabled must be a boolean'', disabled)
   | Inr (Some enabled) \<Rightarrow> (case installed of
       None \<Rightarrow> (Skill_error 503 ''skills backend unavailable'', disabled)
     | Some names \<Rightarrow>
         if name \<notin> set names then (Skill_error 404 ''unknown skill'', disabled)
         else if \<not> enabled \<and> name \<in> set essential then (Skill_error 400 ''essential skills cannot be disabled'', disabled)
         else if \<not> saves then (Skill_error 503 ''save failed'', disabled)
         else (Skill_set name enabled (name \<in> set essential), if enabled then disabled - {name} else insert name disabled)))"

section \<open>The archive\<close>

definition ARCHIVE_MAX_AGE_SECONDS :: time where "ARCHIVE_MAX_AGE_SECONDS = 180 * 24 * 3600"

text \<open>\<open>^[0-9a-f]{32}$\<close> with \<open>match\<close>: a line feed may follow.\<close>

definition low_hex :: "char \<Rightarrow> bool" where
  "low_hex c \<longleftrightarrow> is_digit c \<or> c \<in> set ''abcdef''"

definition artifact_id :: "string \<Rightarrow> bool" where
  "artifact_id s \<longleftrightarrow> list_all low_hex (take 32 s) \<and> 32 \<le> length s \<and> drop 32 s \<in> {[], [CHR 0x0A]}"

record sidecar =
  sc_type :: string
  sc_filename :: utext
  sc_size :: nat

text \<open>The directory: blobs by id and their sidecars (\<open><id>.json\<close>), with the time of change of each.\<close>

record archive =
  ar_blobs :: "string \<Rightarrow> (bytes \<times> time) option"
  ar_sidecars :: "string \<Rightarrow> (sidecar \<times> time) option"

definition archive_gc :: "time \<Rightarrow> archive \<Rightarrow> archive" where
  "archive_gc now a = (let cutoff = now - ARCHIVE_MAX_AGE_SECONDS; young = (\<lambda>e. case e of None \<Rightarrow> None
       | Some (x, t) \<Rightarrow> if t < cutoff then None else Some (x, t)) in
     \<lparr>ar_blobs = young \<circ> ar_blobs a, ar_sidecars = (\<lambda>n. case ar_sidecars a n of None \<Rightarrow> None
        | Some (x, t) \<Rightarrow> if t < cutoff then None else Some (x, t))\<rparr>)"

text \<open>
  The answer of the gateway to the replayed upload: its status, and the id and the file name in its JSON (no id
  where the payload is not an object). \<open>Up_raises\<close>: the request failed, or the id is not a string.
\<close>

datatype up_answer = Up_raises | Up nat string utext

datatype up_result = Up_refused nat | Up_status nat | Up_raised

text \<open>\<open>artifact_upload\<close>: \<open>tee\<close> is the fresh name of the temporary file.\<close>

definition artifact_upload :: "bool \<Rightarrow> nat \<Rightarrow> string \<Rightarrow> time \<Rightarrow> nat option \<Rightarrow> string option \<Rightarrow> arriving \<Rightarrow> up_answer \<Rightarrow> archive \<Rightarrow> up_result \<times> archive" where
  "artifact_upload auth cap tee now declared content_type body up a =
     (if \<not> auth then (Up_refused 401, a)
      else if (case declared of None \<Rightarrow> False | Some n \<Rightarrow> cap < n) then (Up_refused 413, a)
      else case held cap [] (ar_chunks body) of
        None \<Rightarrow> (Up_refused 413, a)
      | Some bs \<Rightarrow> if ar_breaks body then (Up_raised, a)
          else let teed = a\<lparr>ar_blobs := (ar_blobs a)(tee \<mapsto> (bs, now))\<rparr> in
          (case up of
            Up_raises \<Rightarrow> (Up_raised, a)
          | Up status aid filename \<Rightarrow>
              if status \<noteq> 201 then (Up_status status, a)
              else if \<not> artifact_id aid then (Up_status status, teed)
              else (Up_status status, archive_gc now (a\<lparr>ar_blobs := (ar_blobs a)(aid \<mapsto> (bs, now)),
                     ar_sidecars := (ar_sidecars a)(aid \<mapsto> (\<lparr>sc_type = (case content_type of None \<Rightarrow> ''application/octet-stream'' | Some t \<Rightarrow> t),
                       sc_filename = filename, sc_size = length bs\<rparr>, now))\<rparr>))))"

datatype down_result = Down_unauthorized | Down_invalid | Down_gateway bytes | Down_missing
  | Down_file bytes string "utext option"  \<comment> \<open>content, type, file name\<close>

definition artifact_download :: "bool \<Rightarrow> string \<Rightarrow> bytes option \<Rightarrow> archive \<Rightarrow> down_result" where
  "artifact_download auth aid gateway a =
     (if \<not> auth then Down_unauthorized
      else if \<not> artifact_id aid then Down_invalid
      else case gateway of Some bs \<Rightarrow> Down_gateway bs
      | None \<Rightarrow> (case ar_blobs a aid of
          None \<Rightarrow> Down_missing
        | Some (bs, t) \<Rightarrow> (case ar_sidecars a aid of
            None \<Rightarrow> Down_file bs ''application/octet-stream'' None
          | Some (sc, u) \<Rightarrow> Down_file bs (if sc_type sc = [] then ''application/octet-stream'' else sc_type sc)
              (if sc_filename sc = [] then None else Some (sc_filename sc)))))"

section \<open>What is kept\<close>

lemma gc_keeps:
  "ar_blobs a i = Some (x, t) \<Longrightarrow> now - ARCHIVE_MAX_AGE_SECONDS \<le> t \<Longrightarrow> ar_blobs (archive_gc now a) i = Some (x, t)"
  "ar_sidecars a i = Some (s, t) \<Longrightarrow> now - ARCHIVE_MAX_AGE_SECONDS \<le> t \<Longrightarrow> ar_sidecars (archive_gc now a) i = Some (s, t)"
  by (simp_all add: archive_gc_def Let_def)

text \<open>An upload of other artifacts: when, the name of its temporary file and the rest of its inputs.\<close>

record other_upload =
  ou_auth :: bool
  ou_tee :: string
  ou_now :: time
  ou_declared :: "nat option"
  ou_type :: "string option"
  ou_body :: arriving
  ou_up :: up_answer

definition run_uploads :: "nat \<Rightarrow> other_upload list \<Rightarrow> archive \<Rightarrow> archive" where
  "run_uploads cap us a = fold (\<lambda>u a. snd (artifact_upload (ou_auth u) cap (ou_tee u) (ou_now u) (ou_declared u) (ou_type u) (ou_body u) (ou_up u) a)) us a"

definition leaves :: "string \<Rightarrow> time \<Rightarrow> other_upload \<Rightarrow> bool" where
  "leaves aid t u \<longleftrightarrow> ou_tee u \<noteq> aid \<and> ou_now u - ARCHIVE_MAX_AGE_SECONDS \<le> t
     \<and> (case ou_up u of Up status i f \<Rightarrow> i \<noteq> aid | _ \<Rightarrow> True)"

definition holds_upload :: "string \<Rightarrow> bytes \<Rightarrow> sidecar \<Rightarrow> time \<Rightarrow> archive \<Rightarrow> bool" where
  "holds_upload aid bs sc t a \<longleftrightarrow> ar_blobs a aid = Some (bs, t) \<and> ar_sidecars a aid = Some (sc, t)"

lemma holds_gc: "holds_upload aid bs sc t a \<Longrightarrow> now - ARCHIVE_MAX_AGE_SECONDS \<le> t \<Longrightarrow> holds_upload aid bs sc t (archive_gc now a)"
  by (simp add: holds_upload_def gc_keeps)

lemma upload_keeps:
  assumes "leaves aid t u" "holds_upload aid bs sc t a"
  shows "holds_upload aid bs sc t (snd (artifact_upload (ou_auth u) cap (ou_tee u) (ou_now u) (ou_declared u) (ou_type u) (ou_body u) (ou_up u) a))"
proof -
  have age: "ou_now u - ARCHIVE_MAX_AGE_SECONDS \<le> t" and tee: "ou_tee u \<noteq> aid" using assms(1) by (simp_all add: leaves_def)
  have put: "holds_upload aid bs sc t (archive_gc (ou_now u) (a\<lparr>ar_blobs := (ar_blobs a)(i \<mapsto> x), ar_sidecars := (ar_sidecars a)(i \<mapsto> y)\<rparr>))"
    if "i \<noteq> aid" for i x y
    by (rule holds_gc [OF _ age]) (use assms(2) that in \<open>simp add: holds_upload_def\<close>)
  have leaked: "holds_upload aid bs sc t (a\<lparr>ar_blobs := (ar_blobs a)(ou_tee u \<mapsto> x)\<rparr>)" for x
    using assms(2) tee by (simp add: holds_upload_def)
  show ?thesis
    using assms put leaked unfolding artifact_upload_def Let_def leaves_def
    by (auto split: option.split up_answer.split)
qed

lemma uploads_keep:
  "list_all (leaves aid t) us \<Longrightarrow> holds_upload aid bs sc t a \<Longrightarrow> holds_upload aid bs sc t (run_uploads cap us a)"
  by (induction us arbitrary: a) (simp_all add: run_uploads_def upload_keeps)

text \<open>
  C36. An upload the gateway took stays readable: for half a year, whatever else is uploaded, a download the gateway
  cannot serve any more gives back the very bytes, with the type and the name they came with.
\<close>

theorem artifact_archive_roundtrip:
  assumes "artifact_id aid" "artifact_upload auth cap tee t declared (Some ty) body (Up 201 aid filename) a = (Up_status 201, a')"
    "ty \<noteq> []" "filename \<noteq> []" "list_all (leaves aid t) us"
  shows "artifact_download True aid None (run_uploads cap us a') = Down_file (concat (ar_chunks body)) ty (Some filename)"
proof -
  from assms(1,2) obtain bs where h: "held cap [] (ar_chunks body) = Some bs"
    "a' = archive_gc t (a\<lparr>ar_blobs := (ar_blobs a)(aid \<mapsto> (bs, t)),
       ar_sidecars := (ar_sidecars a)(aid \<mapsto> (\<lparr>sc_type = ty, sc_filename = filename, sc_size = length bs\<rparr>, t))\<rparr>)"
    by (auto simp: artifact_upload_def Let_def split: if_splits option.splits)
  have bs: "bs = concat (ar_chunks body)" using held_cap [OF h(1)] by simp
  have "holds_upload aid bs \<lparr>sc_type = ty, sc_filename = filename, sc_size = length bs\<rparr> t a'"
    unfolding h(2) by (rule holds_gc) (simp_all add: holds_upload_def ARCHIVE_MAX_AGE_SECONDS_def)
  from uploads_keep [OF assms(5) this, of cap] show ?thesis
    using assms(1,3,4) by (simp add: artifact_download_def holds_upload_def bs)
qed

definition demo_aid :: string where "demo_aid = replicate 32 (CHR ''a'')"

definition empty_archive :: archive where
  "empty_archive = \<lparr>ar_blobs = Map.empty, ar_sidecars = Map.empty\<rparr>"

definition demo_body :: arriving where
  "demo_body = \<lparr>ar_chunks = [[1, 2], [3]], ar_breaks = False\<rparr>"

definition demo_other :: other_upload where
  "demo_other = \<lparr>ou_auth = True, ou_tee = ''.tee-2'', ou_now = 200, ou_declared = None, ou_type = None, ou_body = demo_body, ou_up = Up 201 ''bad'' []\<rparr>"

lemma demo_id: "artifact_id demo_aid"
  by (simp add: artifact_id_def demo_aid_def low_hex_def list_all_iff)

lemma not_demo: "length s \<noteq> 32 \<Longrightarrow> s \<noteq> demo_aid"
  by (auto simp: demo_aid_def)

lemma demo_upload:
  "fst (artifact_upload True 10 ''.tee-1'' 100 (Some 3) (Some ''image/png'') demo_body (Up 201 demo_aid [97]) empty_archive) = Up_status 201"
  using demo_id by (simp add: artifact_upload_def demo_body_def)

theorem artifact_archive_roundtrip_witness:
  "artifact_download True demo_aid None (run_uploads 10 [demo_other]
     (snd (artifact_upload True 10 ''.tee-1'' 100 (Some 3) (Some ''image/png'') demo_body (Up 201 demo_aid [97]) empty_archive)))
   = Down_file [1, 2, 3] ''image/png'' (Some [97])"
proof -
  have l: "list_all (leaves demo_aid 100) [demo_other]"
    by (simp add: leaves_def demo_other_def not_demo ARCHIVE_MAX_AGE_SECONDS_def)
  have u: "artifact_upload True 10 ''.tee-1'' 100 (Some 3) (Some ''image/png'') demo_body (Up 201 demo_aid [97]) empty_archive
      = (Up_status 201, snd (artifact_upload True 10 ''.tee-1'' 100 (Some 3) (Some ''image/png'') demo_body (Up 201 demo_aid [97]) empty_archive))"
    using demo_upload by (metis prod.collapse)
  from artifact_archive_roundtrip [OF demo_id u _ _ l] show ?thesis by (simp add: demo_body_def)
qed

text \<open>An accepted upload whose answer names no valid id leaves its temporary file in the archive.\<close>

lemma upload_leaks:
  assumes "\<not> artifact_id aid" "held cap [] (ar_chunks body) = Some bs" "\<not> ar_breaks body"
  shows "ar_blobs (snd (artifact_upload True cap tee t None ty body (Up 201 aid filename) a)) tee = Some (bs, t)"
  using assms by (simp add: artifact_upload_def Let_def)

text \<open>
  A memory file holds what was put into it last: the item that a put returns and every later read show the
  text put, its line ends as line feeds, and their number of characters; the other file and the answer to a
  put that fails are as before.
\<close>

definition put_ok :: "string \<Rightarrow> string \<Rightarrow> utext option \<Rightarrow> dir \<Rightarrow> mem_answer \<times> dir \<Rightarrow> bool" where
  "put_ok pid name content d r = (case r of
     (Mem_item item, d') \<Rightarrow> mi_content item = map_option newlines content \<and> mi_chars item = length (newlines (the content))
        \<and> item = memory_item d' name \<and> name \<in> fst ` set MEMORY_FILES \<and> (\<forall>n. n \<noteq> name \<longrightarrow> n \<noteq> tmp_name name pid \<longrightarrow> d' n = d n)
   | (_, d') \<Rightarrow> (\<forall>n. n \<noteq> tmp_name name pid \<longrightarrow> d' n = d n))"

lemma encode_decode: "encode s = Some bs \<Longrightarrow> decode bs = Some s"
  by (auto simp: encode_def decode_utf8 split: if_splits)

lemma tmp_other: "name \<noteq> tmp_name name pid"
proof
  assume "name = tmp_name name pid"
  then have "length name = length (tmp_name name pid)" by simp
  then show False by (simp add: tmp_name_def)
qed

theorem memory_put_get:
  "put_ok pid name (case body of Inr c \<Rightarrow> c | Inl _ \<Rightarrow> None) d (memories_put auth pid now fault name body d)"
  using tmp_other [of name pid]
  by (auto simp: put_ok_def memories_put_def memory_item_def Let_def encode_decode split: option.splits sum.splits)

end
