(* ===== verification/Clarify_Bridge.thy ===== *)
theory Clarify_Bridge
  imports Url_Text Json
begin

text \<open>
  \<open>compat/patch_clarify.py\<close>: the questions of an agent as forms the app answers. The registry of open questions
  and the waiting belong to the core: the calls made to it are listed in their order, and whether a question
  is answered already or the core takes an answer are arguments, as are its matching of labels, the case
  folding and the rendering of a list.
\<close>

section \<open>Answers\<close>

text \<open>\<open>core.SKIPPED\<close>, \<open>core.CANCELLED\<close> or a text.\<close>

datatype clar_value = Skipped | Cancelled | Answer string

record question =
  qu_id :: string      \<comment> \<open>the question in the form\<close>
  qu_clarify :: string \<comment> \<open>the entry in the core\<close>
  qu_choices :: "string list"
  qu_multi :: bool

record clar_text =
  ct_match :: "string \<Rightarrow> string list \<Rightarrow> string option"
  ct_fold :: "string \<Rightarrow> string"
  ct_dumps :: "string list \<Rightarrow> string"

definition OTHER :: string where "OTHER = ''other:''"

definition coerce :: "clar_text \<Rightarrow> question \<Rightarrow> string \<Rightarrow> clar_value option" where
  "coerce ct q raw =
     (if starts_with OTHER raw then Some (Answer (drop 6 raw))
      else if ct_fold ct raw = ''skip'' then Some Skipped
      else if qu_choices q = [] then Some (Answer raw)
      else let labels = map (\<lambda>t. ct_match ct (py_strip t) (qu_choices q)) (if qu_multi q then split_on (CHR '','') raw else [raw])
           in if labels = [] \<or> None \<in> set labels then None
              else Some (Answer (if qu_multi q then ct_dumps ct (map the labels) else the (hd labels))))"

section \<open>A form\<close>

record clar_form =
  cf_adapter :: nat
  cf_session :: string
  cf_run :: string
  cf_questions :: "question list"
  cf_submitted :: bool

datatype core_call = Await_text string | Resolve string clar_value | Wait string

text \<open>An answer of the route: the status and its code.\<close>

datatype clar_reply = Unknown_form | Not_all_answered | Not_a_string | Choice_required | Already_resolved | Expired | Answered

definition reply_status :: "clar_reply \<Rightarrow> nat" where
  "reply_status r = (case r of Unknown_form \<Rightarrow> 404 | Not_all_answered \<Rightarrow> 422 | Not_a_string \<Rightarrow> 422 | Choice_required \<Rightarrow> 409
     | Already_resolved \<Rightarrow> 404 | Expired \<Rightarrow> 404 | Answered \<Rightarrow> 200)"

text \<open>The values for the questions in their order, or the first complaint.\<close>

fun check_answers :: "clar_text \<Rightarrow> (string \<Rightarrow> bool) \<Rightarrow> json \<Rightarrow> question list \<Rightarrow> clar_reply + (question \<times> string \<times> clar_value) list" where
  "check_answers ct is_set answers [] = Inr []"
| "check_answers ct is_set answers (q # qs) = (case jget (qu_id q) answers of
     Some (JStr raw) \<Rightarrow> (case coerce ct q raw of
         None \<Rightarrow> Inl Choice_required
       | Some v \<Rightarrow> if is_set (qu_clarify q) then Inl Already_resolved
           else (case check_answers ct is_set answers qs of Inl e \<Rightarrow> Inl e | Inr vs \<Rightarrow> Inr ((q, raw, v) # vs)))
   | _ \<Rightarrow> Inl Not_a_string)"

definition answer_calls :: "question \<times> string \<times> clar_value \<Rightarrow> core_call list" where
  "answer_calls x = (case x of (q, raw, v) \<Rightarrow>
     (if starts_with OTHER raw then [Await_text (qu_clarify q)] else []) @ [Resolve (qu_clarify q) v])"

text \<open>The values go to the core one by one, until it refuses one.\<close>

fun hand_answers :: "(string \<Rightarrow> bool) \<Rightarrow> (question \<times> string \<times> clar_value) list \<Rightarrow> core_call list \<times> bool" where
  "hand_answers takes [] = ([], True)"
| "hand_answers takes (x # xs) = (if takes (qu_clarify (fst x))
     then (let (calls, ok) = hand_answers takes xs in (answer_calls x @ calls, ok))
     else (answer_calls x, False))"

definition answers_of :: "json \<Rightarrow> json option" where
  "answers_of body = (case jget ''answers'' body of Some (JObj kvs) \<Rightarrow> Some (JObj kvs) | _ \<Rightarrow> None)"

text \<open>\<open>handle\<close> for a form of this process, under its lock.\<close>

definition answer_form :: "clar_text \<Rightarrow> (string \<Rightarrow> bool) \<Rightarrow> (string \<Rightarrow> bool) \<Rightarrow> nat \<Rightarrow> string \<Rightarrow> (string \<Rightarrow> bool) \<Rightarrow> json \<Rightarrow> clar_form
    \<Rightarrow> clar_reply \<times> core_call list \<times> clar_form" where
  "answer_form ct is_set takes adapter sid owns body f =
     (if cf_adapter f \<noteq> adapter \<or> cf_submitted f \<or> cf_session f \<noteq> sid \<or> \<not> owns (cf_run f) then (Unknown_form, [], f)
      else case answers_of body of
        None \<Rightarrow> (Not_all_answered, [], f)
      | Some answers \<Rightarrow>
          if list_ex (\<lambda>q. jget (qu_id q) answers = None) (cf_questions f) then (Not_all_answered, [], f)
          else case check_answers ct is_set answers (cf_questions f) of
            Inl e \<Rightarrow> (e, [], f)
          | Inr vs \<Rightarrow> (case hand_answers takes vs of
              (calls, True) \<Rightarrow> (Answered, calls, f\<lparr>cf_submitted := True\<rparr>)
            | (calls, False) \<Rightarrow> (Expired, calls, f)))"

text \<open>\<open>pending\<close>: the open forms of a session the request may see.\<close>

definition pending_forms :: "nat \<Rightarrow> string \<Rightarrow> (string \<Rightarrow> bool) \<Rightarrow> (string \<times> clar_form) list \<Rightarrow> (string \<times> clar_form) list" where
  "pending_forms adapter sid owns forms = filter (\<lambda>(i, f). cf_adapter f = adapter \<and> cf_session f = sid \<and> \<not> cf_submitted f \<and> owns (cf_run f)) forms"

section \<open>The waiting agent\<close>

text \<open>What the core answers to the waits, in order; \<^const>\<open>None\<close> is a timeout.\<close>

fun collect :: "question list \<Rightarrow> clar_value option list \<Rightarrow> (string \<times> clar_value option) list \<times> string" where
  "collect (q # qs) (Some Cancelled # rs) = ([], ''cancelled'')"
| "collect (q # qs) (Some v # rs) = (let (answers, outcome) = collect qs rs in
     ((qu_id q, if v = Skipped then None else Some v) # answers, outcome))"
| "collect (q # qs) _ = ([], ''timed_out'')"
| "collect [] _ = ([], ''answered'')"

text \<open>\<open>callback\<close>: the form appears with its event, and goes with every entry of it disposed of.\<close>

datatype sink_event = Requested string | Resolved string string

definition callback :: "bool \<Rightarrow> string \<Rightarrow> clar_form \<Rightarrow> clar_value option list \<Rightarrow> (string \<times> clar_form) list
    \<Rightarrow> ((string \<times> clar_value option) list \<times> string) option \<times> sink_event list \<times> core_call list \<times> (string \<times> clar_form) list" where
  "callback closed_down i f responses forms =
     (if closed_down then (None, [], [], forms)
      else let (answers, outcome) = collect (cf_questions f) responses in
        (Some (answers, outcome), [Requested i, Resolved i outcome],
         concat (map (\<lambda>q. [Resolve (qu_clarify q) Cancelled, Wait (qu_clarify q)]) (cf_questions f)),
         filter (\<lambda>x. fst x \<noteq> i) forms))"

text \<open>The status hook: the end of a run cancels the questions of its forms.\<close>

definition RUN_ENDED :: "string list" where "RUN_ENDED = [''completed'', ''failed'', ''cancelled'', ''interrupted'']"

definition run_status_calls :: "nat \<Rightarrow> string \<Rightarrow> string \<Rightarrow> (string \<times> clar_form) list \<Rightarrow> core_call list" where
  "run_status_calls adapter run status forms = (if status \<notin> set RUN_ENDED then []
     else concat (map (\<lambda>(i, f). if cf_adapter f = adapter \<and> cf_run f = run
            then map (\<lambda>q. Resolve (qu_clarify q) Cancelled) (cf_questions f) else []) forms))"

section \<open>Questions of the session authority\<close>

record auth_row =
  au_principal :: string
  au_request :: string
  au_generation :: int
  au_prompts :: "json list"

definition request_owns_admission :: "(string \<Rightarrow> bool) \<Rightarrow> auth_row \<Rightarrow> bool" where
  "request_owns_admission owns r = (if au_principal r = ''api'' then owns (au_request r)
     else starts_with ''automation:'' (au_principal r) \<or> starts_with ''messaging:'' (au_principal r))"

text \<open>The run, its generation, the prompt and whether it is an admission of the API, for each clarify prompt.\<close>

definition authority_prompts :: "(string \<Rightarrow> bool) \<Rightarrow> auth_row list \<Rightarrow> (string \<times> int \<times> json \<times> bool) list" where
  "authority_prompts owns rows = concat (map (\<lambda>r. map (\<lambda>p. (au_request r, au_generation r, p, au_principal r = ''api''))
     (filter (\<lambda>p. jget ''kind'' p = Some (JStr ''clarify'')) (au_prompts r))) (filter (request_owns_admission owns) rows))"

text \<open>
  \<open>answer_authority\<close>: \<open>entry\<close> is the open question of the core, \<open>responds\<close> whether the authority resolved the answer
  of a run in a generation (through the run for an admission of the API, through the session otherwise).
\<close>

definition answer_authority :: "clar_text \<Rightarrow> (string \<Rightarrow> question option) \<Rightarrow> (string \<Rightarrow> int \<Rightarrow> bool \<Rightarrow> clar_value \<Rightarrow> bool) \<Rightarrow> (string \<Rightarrow> bool)
    \<Rightarrow> auth_row list \<Rightarrow> string \<Rightarrow> json \<Rightarrow> clar_reply \<times> core_call list \<times> (string \<times> int \<times> bool \<times> clar_value) option" where
  "answer_authority ct entry responds owns rows cid body =
     (case (filter (\<lambda>(r, g, p, api). jget ''prompt_id'' p = Some (JStr cid)) (authority_prompts owns rows), entry cid) of
       ((run, generation, p, api) # _, Some q) \<Rightarrow>
         (case Option.bind (answers_of body) (jget cid) of
           None \<Rightarrow> (Not_all_answered, [], None)
         | Some JNull \<Rightarrow> (Not_all_answered, [], None)
         | Some (JStr raw) \<Rightarrow> (case coerce ct q raw of
             None \<Rightarrow> (Choice_required, [], None)
           | Some v \<Rightarrow> (if responds run generation api v then Answered else Expired,
               if starts_with OTHER raw then [Await_text cid] else [], Some (run, generation, api, v)))
         | Some _ \<Rightarrow> (Not_a_string, [], None))
     | _ \<Rightarrow> (Unknown_form, [], None))"

section \<open>Answers are whole\<close>

definition resolved_by :: "core_call list \<Rightarrow> (string \<times> clar_value) list" where
  "resolved_by calls = concat (map (\<lambda>c. case c of Resolve i v \<Rightarrow> [(i, v)] | _ \<Rightarrow> []) calls)"

definition valid_for :: "clar_text \<Rightarrow> json \<Rightarrow> question \<Rightarrow> clar_value \<Rightarrow> bool" where
  "valid_for ct answers q v = (case jget (qu_id q) answers of Some (JStr raw) \<Rightarrow> coerce ct q raw = Some v | _ \<Rightarrow> False)"

lemma checked_first:
  assumes "check_answers ct is_set answers (q # qs) = Inr vs"
  obtains raw v vs' where "vs = (q, raw, v) # vs'" "valid_for ct answers q v" "\<not> is_set (qu_clarify q)"
    "check_answers ct is_set answers qs = Inr vs'"
proof -
  from assms obtain raw where r: "jget (qu_id q) answers = Some (JStr raw)" by (auto split: option.splits json.splits)
  with assms obtain v where v: "coerce ct q raw = Some v" by (auto split: option.splits)
  with assms r obtain vs' where "\<not> is_set (qu_clarify q)" "check_answers ct is_set answers qs = Inr vs'" "vs = (q, raw, v) # vs'"
    by (auto split: if_splits sum.splits)
  with r v that show ?thesis by (simp add: valid_for_def)
qed

lemma checked_values:
  "check_answers ct is_set answers qs = Inr vs \<Longrightarrow> map fst vs = qs \<and> list_all2 (valid_for ct answers) qs (map (snd \<circ> snd) vs)
     \<and> list_all (\<lambda>q. \<not> is_set (qu_clarify q)) qs"
proof (induction qs arbitrary: vs)
  case (Cons q qs)
  from Cons.prems obtain raw v vs' where "vs = (q, raw, v) # vs'" "valid_for ct answers q v" "\<not> is_set (qu_clarify q)"
    "check_answers ct is_set answers qs = Inr vs'" by (rule checked_first)
  with Cons.IH [of vs'] show ?case by simp
qed simp

lemma resolved_append: "resolved_by (a @ b) = resolved_by a @ resolved_by b"
  by (simp add: resolved_by_def)

lemma resolved_answer: "resolved_by (answer_calls x) = [(qu_clarify (fst x), snd (snd x))]"
  by (cases x) (simp add: answer_calls_def resolved_by_def)

lemma handed_values:
  "hand_answers takes vs = (calls, ok) \<Longrightarrow>
     (if ok then resolved_by calls = map (\<lambda>x. (qu_clarify (fst x), snd (snd x))) vs \<and> list_all (\<lambda>x. takes (qu_clarify (fst x))) vs
      else \<exists>n < length vs. resolved_by calls = map (\<lambda>x. (qu_clarify (fst x), snd (snd x))) (take (Suc n) vs) \<and> \<not> takes (qu_clarify (fst (vs ! n))))"
proof (induction vs arbitrary: calls ok)
  case Nil
  then show ?case by (auto simp: resolved_by_def)
next
  case (Cons x vs)
  show ?case
  proof (cases "takes (qu_clarify (fst x))")
    case True
    obtain cs o' where h: "hand_answers takes vs = (cs, o')" by fastforce
    with Cons.prems True have c: "calls = answer_calls x @ cs" "ok = o'" by auto
    show ?thesis
    proof (cases o')
      case True
      with Cons.IH [OF h] \<open>takes (qu_clarify (fst x))\<close> c show ?thesis by (simp add: resolved_append resolved_answer)
    next
      case False
      with Cons.IH [OF h] obtain n where n: "n < length vs"
        "resolved_by cs = map (\<lambda>x. (qu_clarify (fst x), snd (snd x))) (take (Suc n) vs)" "\<not> takes (qu_clarify (fst (vs ! n)))" by auto
      have "resolved_by calls = map (\<lambda>x. (qu_clarify (fst x), snd (snd x))) (take (Suc (Suc n)) (x # vs))"
        using n c by (simp add: resolved_append resolved_answer)
      with n c False show ?thesis by (intro iffD2 [OF if_not_P] exI [of _ "Suc n"]) simp_all
    qed
  next
    case False
    with Cons.prems have c: "calls = answer_calls x" "\<not> ok" by auto
    with False show ?thesis by (auto simp: resolved_answer intro!: exI [of _ 0])
  qed
qed

lemma complaints: "check_answers ct is_set answers qs = Inl e \<Longrightarrow> e \<in> {Not_a_string, Choice_required, Already_resolved}"
  by (induction qs arbitrary: e) (auto split: option.splits json.splits sum.splits if_splits)

definition answer_outcome :: "clar_text \<Rightarrow> (string \<Rightarrow> bool) \<Rightarrow> (string \<Rightarrow> bool) \<Rightarrow> json \<Rightarrow> clar_form \<Rightarrow> clar_reply \<times> core_call list \<times> clar_form \<Rightarrow> bool" where
  "answer_outcome ct is_set takes body f r = (case r of
     (Answered, calls, f') \<Rightarrow> \<not> cf_submitted f \<and> f' = f\<lparr>cf_submitted := True\<rparr> \<and> map fst (resolved_by calls) = map qu_clarify (cf_questions f)
       \<and> (\<exists>answers. answers_of body = Some answers \<and> list_all2 (valid_for ct answers) (cf_questions f) (map snd (resolved_by calls)))
       \<and> list_all (\<lambda>q. takes (qu_clarify q) \<and> \<not> is_set (qu_clarify q)) (cf_questions f)
   | (Expired, calls, f') \<Rightarrow> f' = f \<and> (\<exists>q \<in> set (cf_questions f). \<not> takes (qu_clarify q))
   | (_, calls, f') \<Rightarrow> f' = f \<and> calls = [])"


end
