(* ===== verification/App_Platform.thy ===== *)
theory App_Platform
  imports Cron_Properties
begin

text \<open>
  The \<open>app\<close> platform (\<open>compat/app_platform.py\<close>) and the shims of the scheduler that lead a cron job to it
  (\<open>_install_cron_bridge\<close> of \<open>compat/compat.py\<close>): which session ids are targets, the identity a delivery carries, the
  check that the app is the only target of a job, and the sends over the delivery bridge of \<open>Cron_Delivery\<close>.
\<close>

section \<open>Targets\<close>

definition sid_start :: "char \<Rightarrow> bool" where
  "sid_start c \<longleftrightarrow> (let n = (of_char c :: nat) in is_digit c \<or> (65 \<le> n \<and> n \<le> 90) \<or> (97 \<le> n \<and> n \<le> 122))"

definition sid_char :: "char \<Rightarrow> bool" where
  "sid_char c \<longleftrightarrow> sid_start c \<or> c \<in> {CHR ''.'', CHR ''_'', CHR ''-''}"

text \<open>\<open>[A-Za-z0-9][A-Za-z0-9._-]{0,255}\Z\<close>\<close>

definition session_ref :: "string \<Rightarrow> bool" where
  "session_ref s \<longleftrightarrow> s \<noteq> [] \<and> sid_start (hd s) \<and> list_all sid_char (tl s) \<and> length s \<le> 256"

text \<open>\<open>parse_app_session_ref\<close>: the id, never with a thread.\<close>

definition parse_app_session_ref :: "string \<Rightarrow> (string \<times> string option) option" where
  "parse_app_session_ref s = (if session_ref s then Some (s, None) else None)"

datatype ref_check = Ref_ok | Exact_id | No_suffix | No_path | No_control

definition validate_app_session_ref :: "string \<Rightarrow> ref_check" where
  "validate_app_session_ref s =
     (if parse_app_session_ref s \<noteq> None then Ref_ok
      else if s = [] then Exact_id
      else if CHR '':'' \<in> set s then No_suffix
      else if CHR ''/'' \<in> set s \<or> CHR 0x5C \<in> set s then No_path
      else if list_ex (\<lambda>c. (of_char c :: nat) < 0x21 \<or> (of_char c :: nat) = 0x7F) s then No_control
      else Exact_id)"

section \<open>The identity of a delivery\<close>

text \<open>\<open>str(v or "")\<close> for a value of a job; other values than strings are rendered by \<open>dumps\<close>.\<close>

definition job_text :: "(json \<Rightarrow> string) \<Rightarrow> json option \<Rightarrow> string" where
  "job_text dumps v = (case v of None \<Rightarrow> [] | Some x \<Rightarrow> if truthy x then render dumps x else [])"

definition identity_from_job :: "(json \<Rightarrow> string) \<Rightarrow> json \<Rightarrow> json" where
  "identity_from_job dumps job = JObj [(''job_id'', JStr (job_text dumps (jget ''id'' job))),
     (''execution_id'', JStr (job_text dumps (jget ''execution_id'' job))),
     (''name'', JStr (let n = job_text dumps (jget ''name'' job) in if n = [] then job_text dumps (jget ''id'' job) else n))]"

text \<open>
  \<open>_identity_from\<close>: the identity stamped on the route of a live delivery, else the one of the context
  (standalone deliveries), else none.
\<close>

definition identity_from :: "json \<Rightarrow> json \<Rightarrow> json" where
  "identity_from route context = (case jget ''hermes_app_cron_identity'' route of Some (JObj kvs) \<Rightarrow> JObj kvs | _ \<Rightarrow> context)"

text \<open>\<open>route_metadata\<close>: only the route of an app target is stamped.\<close>

definition is_app_target :: "json \<Rightarrow> bool" where
  "is_app_target t \<longleftrightarrow> py_lower (str_field (jget ''platform'' t)) = ''app''"

definition route_metadata :: "(json \<Rightarrow> string) \<Rightarrow> json \<Rightarrow> json \<Rightarrow> json \<Rightarrow> json" where
  "route_metadata dumps target job route = (if is_app_target target then
     (case route of JObj kvs \<Rightarrow> JObj (filter (\<lambda>p. fst p \<noteq> ''hermes_app_cron_identity'') kvs @ [(''hermes_app_cron_identity'', identity_from_job dumps job)])
      | r \<Rightarrow> r) else route)"

section \<open>Sending\<close>

datatype sent = Sent "int option" | Sent_queued string | Not_sent bool string

text \<open>\<open>_to_send_result\<close>; the flag of a failure says that it is permanent.\<close>

definition to_send_result :: "delivery \<Rightarrow> sent" where
  "to_send_result r = (case r of
     Unavailable \<Rightarrow> Not_sent False ''unavailable''
   | Refused e \<Rightarrow> Not_sent True e
   | Known i \<Rightarrow> Sent i
   | Answer (Delivered i) \<Rightarrow> Sent (Some i)
   | Answer (Dedup i) \<Rightarrow> Sent (Some i)
   | Answer (PermanentError e) \<Rightarrow> Not_sent True e
   | Answer (QueuedFor e) \<Rightarrow> Not_sent False e
   | Answer (Error e) \<Rightarrow> Not_sent False e
   | AnswerQueued out key \<Rightarrow> Sent_queued key)"

definition app_send :: "(string \<Rightarrow> string) \<Rightarrow> (json \<Rightarrow> string) \<Rightarrow> call_env \<Rightarrow> string \<Rightarrow> string \<Rightarrow> string \<Rightarrow> json \<Rightarrow> json \<Rightarrow> world \<Rightarrow> sent \<times> world" where
  "app_send sha dumps env home chat content route context w =
     (let (r, w') = deliver sha dumps env home chat content (identity_from route context) False w in (to_send_result r, w'))"

text \<open>\<open>standalone_app_send\<close>: no thread, the identity of the context alone.\<close>

definition standalone_app_send :: "(string \<Rightarrow> string) \<Rightarrow> (json \<Rightarrow> string) \<Rightarrow> call_env \<Rightarrow> string \<Rightarrow> string \<Rightarrow> string \<Rightarrow> string option \<Rightarrow> bool \<Rightarrow> json \<Rightarrow> world
    \<Rightarrow> sent \<times> world" where
  "standalone_app_send sha dumps env home chat message thread media context w =
     (if (case thread of None \<Rightarrow> False | Some t \<Rightarrow> t \<noteq> []) then (Not_sent True ''app targets take no thread suffix'', w)
      else let (r, w') = deliver sha dumps env home chat message context media w in (to_send_result r, w'))"

section \<open>A job's delivery\<close>

datatype refusal = Mixed_targets | Many_sessions | Not_text

text \<open>
  The check before any send: \<^const>\<open>None\<close> lets the job through to the core. \<open>targets\<close> is what the core resolves, \<^const>\<open>None\<close>
  when that raises.
\<close>

definition contains :: "string \<Rightarrow> string \<Rightarrow> bool" where
  "contains p s \<longleftrightarrow> (\<exists>i \<le> length s. starts_with p (drop i s))"

definition preflight :: "(json \<Rightarrow> string) \<Rightarrow> json list option \<Rightarrow> json \<Rightarrow> string \<Rightarrow> refusal option" where
  "preflight dumps targets job content =
     (let ts = (case targets of None \<Rightarrow> [] | Some ts \<Rightarrow> ts); app = filter is_app_target ts in
      if app = [] then None
      else if length ts \<noteq> length app then Some Mixed_targets
      else if card (set (map (\<lambda>t. render dumps (case jget ''chat_id'' t of None \<Rightarrow> JNull | Some v \<Rightarrow> v)) app)) \<noteq> 1 then Some Many_sessions
      else if contains ''MEDIA:'' content \<or> py_lower (py_strip (job_text dumps (jget ''deliver'' job))) = ''all'' then Some Not_text
      else None)"

text \<open>
  \<open>deliver_result\<close> after the core answered with \<open>error\<close>: the receipt that \<open>last_delivery_queued\<close> shows for a job
  with an app target.
\<close>

definition queued_mark :: "string option \<Rightarrow> string \<Rightarrow> bridge \<Rightarrow> (string \<times> string) option" where
  "queued_mark error execution br = (if error \<noteq> None \<or> execution = [] then None
     else case receipt_for execution br of
       None \<Rightarrow> None
     | Some r \<Rightarrow> if rc_status r = Queued then Some (rc_session r, rc_key r) else None)"

text \<open>The bridge writes into the session itself: the app takes part in no mirroring.\<close>

definition target_mirror_eligible :: "json \<Rightarrow> bool \<Rightarrow> bool" where
  "target_mirror_eligible target old = (if is_app_target target then False else old)"

section \<open>What a send promises\<close>

definition reported_sent :: "sent \<Rightarrow> bool" where
  "reported_sent s = (case s of Not_sent p e \<Rightarrow> False | _ \<Rightarrow> True)"

lemma sent_accepted:
  "reported_sent (to_send_result (fst (deliver sha dumps env home session content identity media w)))
     \<Longrightarrow> ce_bound env \<and> refuse_report identity content media = None"
  by (auto simp: deliver_def reported_sent_def to_send_result_def split: if_splits option.splits)

lemma refused_identity: "identity_error identity \<noteq> None \<Longrightarrow> refuse_report identity content media \<noteq> None"
  by (auto simp: refuse_report_def)


definition demo_route :: json where
  "demo_route = JObj [(''hermes_app_cron_identity'', demo_identity)]"

definition demo_busy :: call_env where
  "demo_busy = \<lparr>ce_bound = True, ce_now = 1, ce_attempts = (\<lambda>_. \<lparr>ae_fault = NoDatabase ''x'', ae_target = ''s'', ae_now = 1, ae_row_id = 1\<rparr>),
     ce_hook = None\<rparr>"

lemma demo_from: "identity_from demo_route JNull = demo_identity"
  by (simp add: identity_from_def demo_route_def demo_identity_def)

lemma demo_attempts: "attempt sha dumps RESOLVE_RETRIES (ce_attempts demo_busy) original content identity key db = (Error (''db_unavailable:'' @ ''x''), db)"
  by (simp add: RESOLVE_RETRIES_def demo_busy_def numeral_3_eq_3)

lemma demo_sent: "reported_sent (fst (app_send (\<lambda>s. s) (\<lambda>_. []) demo_busy ''h'' ''s'' ''x'' demo_route JNull (cron_history (\<lambda>s. s) (\<lambda>_. []) demo_db [])))"
proof -
  have b: "ce_bound demo_busy" by (simp add: demo_busy_def)
  show ?thesis
    using b demo_accepted
    by (auto simp: app_send_def demo_from deliver_def demo_attempts reported_sent_def to_send_result_def Let_def split: option.split prod.split)
qed


text \<open>A URL is told that it has a suffix: the check for a colon comes first.\<close>

lemma url_called_suffix: "CHR '':'' \<in> set s \<Longrightarrow> validate_app_session_ref s = No_suffix"
proof -
  assume c: "CHR '':'' \<in> set s"
  have "\<not> sid_char (CHR '':'')" "\<not> sid_start (CHR '':'')" by (simp_all add: sid_char_def sid_start_def is_digit_def Let_def)
  with c have "\<not> session_ref s" by (cases s) (auto simp: session_ref_def list_all_iff)
  with c show ?thesis by (auto simp: validate_app_session_ref_def parse_app_session_ref_def)
qed

end
