(* ===== verification/Artifact_Upload.thy ===== *)
theory Artifact_Upload
  imports Artifact_Quota Utf8_Text Approval_Display
begin

text \<open>
  The upload of artifacts (\<open>_install_upload\<close>, \<open>_upload\<close> and \<open>_upload_target\<close> of \<open>compat/compat.py\<close>): the capped read
  of the body, and the wrappers that account for every artifact the store of the core keeps in the table of
  \<open>compat/artifact_quota.py\<close>. The store answers through arguments: it raises and keeps nothing, or keeps the data
  and gives a receipt. A database call of the quota module may fail instead of doing its transaction.
\<close>

section \<open>The request\<close>

text \<open>\<open>request.content.read(n)\<close>: what has arrived, at most \<open>n\<close> bytes of it; nothing at the end.\<close>

fun read_some :: "nat \<Rightarrow> bytes list \<Rightarrow> bytes \<times> bytes list" where
  "read_some n [] = ([], [])"
| "read_some n (c # cs) = (if c = [] then read_some n cs
     else (take n c, if length c \<le> n then cs else drop n c # cs))"

text \<open>The loop over the body; \<^const>\<open>None\<close> when reading raises, which it does where the pieces end if \<open>breaks\<close>.\<close>

function read_body :: "nat \<Rightarrow> bool \<Rightarrow> bytes \<Rightarrow> bytes list \<Rightarrow> bytes option" where
  "read_body cap breaks got cs = (if cap < length got then Some got
     else case read_some (min 1048576 (cap + 1 - length got)) cs of (c, rest) \<Rightarrow>
       if c = [] then (if breaks then None else Some got) else read_body cap breaks (got @ c) rest)"
  by pat_completeness auto
termination
  by (relation "measure (\<lambda>(cap, breaks, got, cs). cap + 1 - length got)") (auto intro!: diff_less_mono2)

declare read_body.simps [simp del]

datatype store_error = Artifact_too_large string | Artifact_error string | Store_raised

record receipt =
  rc_id :: string
  rc_expires :: time

datatype upload_answer = Up_error nat string | Up_created receipt | Up_raised

text \<open>The answer to what \<open>store\<close> did; the code of an error, empty where there is none.\<close>

definition stored_answer :: "store_error + receipt \<Rightarrow> upload_answer" where
  "stored_answer r = (case r of
     Inr rc \<Rightarrow> Up_created rc
   | Inl (Artifact_too_large _) \<Rightarrow> Up_error 413 ''artifact_too_large''
   | Inl (Artifact_error m) \<Rightarrow> if has_sub ''allowlist'' m then Up_error 415 ''artifact_mime_rejected'' else Up_error 400 ''artifact_rejected''
   | Inl Store_raised \<Rightarrow> Up_raised)"

text \<open>
  The handler: \<open>prelude\<close> is the error of the route's own checks, \<open>opened\<close> the cap of the store or \<^const>\<open>None\<close> when
  opening it fails, \<open>store\<close> what storing the data gives.
\<close>

definition upload :: "nat option \<Rightarrow> string \<Rightarrow> nat option \<Rightarrow> bool \<Rightarrow> bytes list \<Rightarrow> (bytes \<Rightarrow> store_error + receipt) \<Rightarrow> upload_answer" where
  "upload prelude filename opened breaks cs store =
     (case prelude of Some status \<Rightarrow> Up_error status []
      | None \<Rightarrow>
        if py_strip filename = [] then Up_error 400 []
        else (case opened of None \<Rightarrow> Up_error 500 ''artifact_rejected''
        | Some cap \<Rightarrow> (case read_body cap breaks [] cs of
            None \<Rightarrow> Up_error 400 []
          | Some data \<Rightarrow>
              if cap < length data then Up_error 413 ''artifact_too_large''
              else if data = [] then Up_error 400 []
              else stored_answer (store data))))"

text \<open>The handler for the other backend differs in what it awaits: opening the store, and the store's write.\<close>

definition upload_target :: "nat option \<Rightarrow> string \<Rightarrow> nat option \<Rightarrow> bool \<Rightarrow> bytes list \<Rightarrow> (bytes \<Rightarrow> store_error + receipt) \<Rightarrow> upload_answer" where
  "upload_target = upload"

section \<open>Storing under the quota\<close>

text \<open>
  What is on disk: an artifact with the token of the reservation it was stored under, whether the reservation is
  bound to it, and when that reservation ends.
\<close>

record artifact =
  af_root :: string
  af_id :: string
  af_token :: string
  af_principal :: string
  af_size :: int
  af_until :: time
  af_bound :: bool

text \<open>Where a call of \<open>store\<close> is: its data is being stored, is kept, or what it did is being taken back.\<close>

datatype store_stage = Storing | Kept receipt | Failing store_error

record store_call =
  sc_token :: string
  sc_root :: string
  sc_principal :: string
  sc_size :: int
  sc_until :: time
  sc_stage :: store_stage

record upload_world =
  uw_rows :: "reservation list"
  uw_disk :: "artifact list"
  uw_calls :: "store_call list"
  uw_loaded :: "(string \<times> string) list"

definition upload_empty :: upload_world where
  "upload_empty = \<lparr>uw_rows = [], uw_disk = [], uw_calls = [], uw_loaded = []\<rparr>"

text \<open>\<open>store_with_quota\<close> up to the call of the store: an error, or the token; \<open>fails\<close> stands for any other exception.\<close>

definition store_reserve :: "string option \<Rightarrow> string option \<Rightarrow> bool \<Rightarrow> time \<Rightarrow> string \<Rightarrow> string \<Rightarrow> string \<Rightarrow> int \<Rightarrow> real
    \<Rightarrow> upload_world \<Rightarrow> (store_error + string) \<times> upload_world" where
  "store_reserve ep eg fails now fresh sroot who n ttl w =
     (if fails then (Inl (Artifact_error ''artifact quota reservation failed''), w)
      else case q_reserve ep eg now fresh who n ttl (uw_rows w) of
        (Inr tok, t) \<Rightarrow> (Inr tok, w\<lparr>uw_rows := t, uw_calls := uw_calls w @
           [\<lparr>sc_token = tok, sc_root = sroot, sc_principal = who, sc_size = n, sc_until = now + max 3600 (ttl + 60),
             sc_stage = Storing\<rparr>]\<rparr>)
      | (Inl (QuotaExceeded m), t) \<Rightarrow> (Inl (Artifact_too_large m), w\<lparr>uw_rows := t\<rparr>)
      | (Inl _, t) \<Rightarrow> (Inl (Artifact_error ''artifact quota reservation failed''), w\<lparr>uw_rows := t\<rparr>))"

definition call_of :: "string \<Rightarrow> upload_world \<Rightarrow> store_call option" where
  "call_of tok w = get_by sc_token tok (uw_calls w)"

definition set_stage :: "string \<Rightarrow> store_stage \<Rightarrow> upload_world \<Rightarrow> upload_world" where
  "set_stage tok s w = w\<lparr>uw_calls := upd_where (\<lambda>c. sc_token c = tok) (\<lambda>c. c\<lparr>sc_stage := s\<rparr>) (uw_calls w)\<rparr>"

definition end_call :: "string \<Rightarrow> upload_world \<Rightarrow> upload_world" where
  "end_call tok w = w\<lparr>uw_calls := del_where (\<lambda>c. sc_token c = tok) (uw_calls w)\<rparr>"

definition same_file :: "string \<Rightarrow> string \<Rightarrow> artifact \<Rightarrow> bool" where
  "same_file sroot art a \<longleftrightarrow> af_root a = sroot \<and> af_id a = art"

text \<open>The store of the core answers; a file of the same name is replaced.\<close>

definition store_keep :: "string \<Rightarrow> store_error + receipt \<Rightarrow> upload_world \<Rightarrow> upload_world" where
  "store_keep tok core w = (case call_of tok w of
     Some c \<Rightarrow> if sc_stage c \<noteq> Storing then w
       else (case core of
         Inl e \<Rightarrow> set_stage tok (Failing e) w
       | Inr rc \<Rightarrow> set_stage tok (Kept rc) (w\<lparr>uw_disk := del_where (same_file (sc_root c) (rc_id rc)) (uw_disk w) @
           [\<lparr>af_root = sc_root c, af_id = rc_id rc, af_token = tok, af_principal = sc_principal c, af_size = sc_size c,
             af_until = sc_until c, af_bound = False\<rparr>]\<rparr>))
   | None \<Rightarrow> w)"

text \<open>\<open>finalize\<close> and what follows when it raises: the file is removed, the call goes on to cancel.\<close>

definition store_bind :: "bool \<Rightarrow> string \<Rightarrow> upload_world \<Rightarrow> upload_world" where
  "store_bind fails tok w = (case call_of tok w of
     Some c \<Rightarrow> (case sc_stage c of
         Kept rc \<Rightarrow>
           (case (if fails then (Some ReservationLost, uw_rows w)
                  else q_finalize tok (sc_root c) (rc_id rc) (rc_expires rc) (uw_rows w)) of
              (None, t) \<Rightarrow> end_call tok (w\<lparr>uw_rows := t, uw_disk := upd_where (\<lambda>a. af_token a = tok)
                 (\<lambda>a. a\<lparr>af_bound := True, af_until := rc_expires rc\<rparr>) (uw_disk w)\<rparr>)
            | (Some _, t) \<Rightarrow> set_stage tok (Failing (Artifact_error ''artifact quota finalization failed''))
                 (w\<lparr>uw_rows := t, uw_disk := del_where (same_file (sc_root c) (rc_id rc)) (uw_disk w)\<rparr>))
       | _ \<Rightarrow> w)
   | None \<Rightarrow> w)"

text \<open>\<open>cancel\<close>, whose own failure is suppressed, and the exception that leaves the call.\<close>

definition store_cancel :: "bool \<Rightarrow> string \<Rightarrow> upload_world \<Rightarrow> upload_world" where
  "store_cancel fails tok w = (case call_of tok w of
     Some c \<Rightarrow> (case sc_stage c of
         Failing e \<Rightarrow> end_call tok (if fails then w else w\<lparr>uw_rows := q_cancel tok (uw_rows w)\<rparr>)
       | _ \<Rightarrow> w)
   | None \<Rightarrow> w)"

text \<open>\<open>load_with_quota\<close>: the store hands an artifact out once and removes it, then its reservation is released.\<close>

definition load_core :: "string \<Rightarrow> string \<Rightarrow> upload_world \<Rightarrow> upload_world" where
  "load_core sroot art w = (if filter (same_file sroot art) (uw_disk w) = [] then w
     else w\<lparr>uw_disk := del_where (same_file sroot art) (uw_disk w), uw_loaded := uw_loaded w @ [(sroot, art)]\<rparr>)"

definition load_release :: "bool \<Rightarrow> string \<Rightarrow> string \<Rightarrow> upload_world \<Rightarrow> upload_world" where
  "load_release fails sroot art w = (if (sroot, art) \<notin> set (uw_loaded w) then w
     else (if fails then w else w\<lparr>uw_rows := q_release sroot art (uw_rows w)\<rparr>)\<lparr>uw_loaded := removeAll (sroot, art) (uw_loaded w)\<rparr>)"

text \<open>\<open>prune_with_quota\<close>: the store removes what it finds expired, then the rows are.\<close>

definition prune_core :: "string \<Rightarrow> (string \<Rightarrow> bool) \<Rightarrow> upload_world \<Rightarrow> upload_world" where
  "prune_core sroot gone w = w\<lparr>uw_disk := del_where (\<lambda>a. af_root a = sroot \<and> gone (af_id a)) (uw_disk w)\<rparr>"

definition prune_rows :: "time \<Rightarrow> upload_world \<Rightarrow> upload_world" where
  "prune_rows now w = w\<lparr>uw_rows := q_expire now (uw_rows w)\<rparr>"

datatype upload_op =
    Up_reserve bool time string string string int real
  | Up_keep string "store_error + receipt"
  | Up_bind bool string
  | Up_cancel bool string
  | Up_load string string
  | Up_release bool string string
  | Up_prune string "string \<Rightarrow> bool"
  | Up_expire time

fun upload_step :: "string option \<Rightarrow> string option \<Rightarrow> upload_op \<Rightarrow> upload_world \<Rightarrow> upload_world" where
  "upload_step ep eg (Up_reserve fails now fresh sroot who n ttl) w = snd (store_reserve ep eg fails now fresh sroot who n ttl w)"
| "upload_step ep eg (Up_keep tok core) w = store_keep tok core w"
| "upload_step ep eg (Up_bind fails tok) w = store_bind fails tok w"
| "upload_step ep eg (Up_cancel fails tok) w = store_cancel fails tok w"
| "upload_step ep eg (Up_load sroot art) w = load_core sroot art w"
| "upload_step ep eg (Up_release fails sroot art) w = load_release fails sroot art w"
| "upload_step ep eg (Up_prune sroot gone) w = prune_core sroot gone w"
| "upload_step ep eg (Up_expire now) w = prune_rows now w"

section \<open>The body\<close>

lemma read_some_split:
  "0 < n \<Longrightarrow> read_some n cs = (c, rest) \<Longrightarrow>
     c @ concat rest = concat cs \<and> length c \<le> n \<and> (c = [] \<longleftrightarrow> concat cs = [])"
  by (induction n cs rule: read_some.induct) (auto split: if_splits)

text \<open>The pieces make no difference: what is read is the body up to one byte more than the cap.\<close>

lemma read_body_cut:
  "length got \<le> cap + 1 \<Longrightarrow> read_body cap breaks got cs =
     (if breaks \<and> length (got @ concat cs) \<le> cap then None else Some (take (cap + 1) (got @ concat cs)))"
proof (induction cap breaks got cs rule: read_body.induct)
  case (1 cap breaks got cs)
  obtain c rest where rs: "read_some (min 1048576 (cap + 1 - length got)) cs = (c, rest)" by fastforce
  show ?case
  proof (cases "cap < length got")
    case True
    with 1(2) show ?thesis by (simp add: read_body.simps)
  next
    case False
    then have pos: "0 < min 1048576 (cap + 1 - length got)" by simp
    from read_some_split [OF pos rs] have c: "c @ concat rest = concat cs" "length c \<le> cap + 1 - length got"
      "c = [] \<longleftrightarrow> concat cs = []" by auto
    have step: "read_body cap breaks got cs = (if c = [] then (if breaks then None else Some got)
        else read_body cap breaks (got @ c) rest)"
      using False rs by (simp add: read_body.simps [of cap breaks got cs])
    show ?thesis
    proof (cases "c = []")
      case True
      with step c False show ?thesis by (simp del: concat_eq_Nil_conv)
    next
      case some: False
      have "length (got @ c) \<le> cap + 1" using c(2) False by simp
      from 1(1) [OF False rs [symmetric] some this]
      have "read_body cap breaks (got @ c) rest = (if breaks \<and> length ((got @ c) @ concat rest) \<le> cap then None
          else Some (take (cap + 1) ((got @ c) @ concat rest)))" .
      with step some c(1) show ?thesis by (metis append.assoc)
    qed
  qed
qed

text \<open>
  An artifact is created only from the whole body, and from none that is empty, broken off or above the cap; a body
  above the cap is answered with 413 wherever reading it breaks.
\<close>

lemma upload_body_whole:
  "upload None filename (Some cap) breaks cs store = Up_created rc
     \<Longrightarrow> store (concat cs) = Inr rc \<and> concat cs \<noteq> [] \<and> length (concat cs) \<le> cap \<and> \<not> breaks"
  "py_strip filename \<noteq> [] \<Longrightarrow> cap < length (concat cs) \<Longrightarrow>
     upload None filename (Some cap) breaks cs store = Up_error 413 ''artifact_too_large''"
  by (auto simp: upload_def read_body_cut stored_answer_def split: if_splits option.splits sum.splits store_error.splits)

section \<open>The bytes on disk\<close>

text \<open>The names that are minted (the token of a reservation, the id of an artifact), and the latest clock read.\<close>

fun minted_by :: "upload_op \<Rightarrow> string list" where
  "minted_by (Up_reserve fails now fresh sroot who n ttl) = [''token:'' @ fresh]"
| "minted_by (Up_keep tok (Inr rc)) = [''artifact:'' @ rc_id rc]"
| "minted_by _ = []"

definition minted_names :: "upload_op list \<Rightarrow> string list" where
  "minted_names ops = concat (map minted_by ops)"

fun clock_of :: "upload_op \<Rightarrow> time" where
  "clock_of (Up_reserve fails now fresh sroot who n ttl) = now"
| "clock_of (Up_expire now) = now"
| "clock_of _ = 0"

definition latest :: "upload_op list \<Rightarrow> time" where
  "latest ops = foldr max (map clock_of ops) 0"

definition disk_bytes :: "(artifact \<Rightarrow> bool) \<Rightarrow> upload_world \<Rightarrow> int" where
  "disk_bytes P w = sum_list (map af_size (filter P (uw_disk w)))"

text \<open>
  What a call or an artifact needs of the table: the rows of its token are as \<open>fits\<close> says, and there is one unless
  its time is over.
\<close>

definition backed :: "time \<Rightarrow> reservation list \<Rightarrow> string \<Rightarrow> (reservation \<Rightarrow> bool) \<Rightarrow> time \<Rightarrow> bool" where
  "backed T t tok fits until \<longleftrightarrow> (\<forall>r \<in> set t. res_token r = tok \<longrightarrow> fits r)
     \<and> (until \<le> T \<or> (\<exists>r \<in> set t. res_token r = tok))"

definition fits_artifact :: "artifact \<Rightarrow> reservation \<Rightarrow> bool" where
  "fits_artifact a r \<longleftrightarrow> res_size r = af_size a \<and> res_principal r = af_principal a \<and> res_expires r = af_until a
     \<and> (if af_bound a then artifact_of r = Some (af_root a, af_id a) else res_artifact r = None)"

definition fits_call :: "store_call \<Rightarrow> reservation \<Rightarrow> bool" where
  "fits_call c r \<longleftrightarrow> res_size r = sc_size c \<and> res_principal r = sc_principal c \<and> res_expires r = sc_until c \<and> res_artifact r = None"

definition backed_artifact :: "time \<Rightarrow> reservation list \<Rightarrow> artifact \<Rightarrow> bool" where
  "backed_artifact T t a \<longleftrightarrow> backed T t (af_token a) (fits_artifact a) (af_until a)"

definition backed_call :: "time \<Rightarrow> reservation list \<Rightarrow> store_call \<Rightarrow> bool" where
  "backed_call T t c \<longleftrightarrow> (sc_stage c = Storing \<longrightarrow> backed T t (sc_token c) (fits_call c) (sc_until c))"

text \<open>An artifact whose call is still open is the one the call kept.\<close>

definition kept_by :: "artifact \<Rightarrow> store_call \<Rightarrow> bool" where
  "kept_by a c \<longleftrightarrow> af_token a = sc_token c
     \<longrightarrow> \<not> af_bound a \<and> (case sc_stage c of Kept rc \<Rightarrow> same_file (sc_root c) (rc_id rc) a | _ \<Rightarrow> False)"

definition names_seen :: "string set \<Rightarrow> upload_world \<Rightarrow> bool" where
  "names_seen S w \<longleftrightarrow> (\<forall>a \<in> set (uw_disk w). ''token:'' @ af_token a \<in> S \<and> ''artifact:'' @ af_id a \<in> S)
     \<and> (\<forall>c \<in> set (uw_calls w). ''token:'' @ sc_token c \<in> S) \<and> (\<forall>(ro, i) \<in> set (uw_loaded w). ''artifact:'' @ i \<in> S)"

definition upload_inv :: "string option \<Rightarrow> string option \<Rightarrow> string set \<Rightarrow> time \<Rightarrow> upload_world \<Rightarrow> bool" where
  "upload_inv ep eg S T w \<longleftrightarrow> quota_inv ep eg (uw_rows w)
     \<and> distinct (map af_token (uw_disk w)) \<and> distinct (map sc_token (uw_calls w)) \<and> names_seen S w
     \<and> (\<forall>a \<in> set (uw_disk w). backed_artifact T (uw_rows w) a)
     \<and> (\<forall>c \<in> set (uw_calls w). backed_call T (uw_rows w) c)
     \<and> (\<forall>a \<in> set (uw_disk w). \<forall>c \<in> set (uw_calls w). kept_by a c)
     \<and> (\<forall>(ro, i) \<in> set (uw_loaded w). \<forall>a \<in> set (uw_disk w). \<not> same_file ro i a)"

lemma backed_del:
  assumes "backed T t tok fits until" "T \<le> T'"
    and "\<And>r. r \<in> set t \<Longrightarrow> res_token r = tok \<Longrightarrow> fits r \<Longrightarrow> P r \<Longrightarrow> until \<le> T'"
  shows "backed T' (del_where P t) tok fits until"
  using assms unfolding backed_def set_del_where by fastforce

lemma backed_append: "res_token r \<noteq> tok \<Longrightarrow> backed T (t @ [r]) tok fits until = backed T t tok fits until"
  by (auto simp: backed_def)

lemma backed_upd:
  assumes "\<And>r. res_token (f r) = res_token r" "\<And>r. P r \<Longrightarrow> res_token r \<noteq> tok"
  shows "backed T (upd_where P f t) tok fits until = backed T t tok fits until"
proof -
  have "r \<in> set (upd_where P f t) \<and> res_token r = tok \<longleftrightarrow> r \<in> set t \<and> res_token r = tok" for r
    using assms(1) by (auto simp: set_upd_where image_iff dest: assms(2)) 
  then show ?thesis unfolding backed_def by blast
qed

lemma backed_later: "backed T t tok fits until \<Longrightarrow> T \<le> T' \<Longrightarrow> backed T' t tok fits until"
  by (auto simp: backed_def)

lemma upload_invD:
  assumes "upload_inv ep eg S T w"
  shows "quota_inv ep eg (uw_rows w)" "distinct (map af_token (uw_disk w))" "distinct (map sc_token (uw_calls w))" "names_seen S w"
    "\<And>a. a \<in> set (uw_disk w) \<Longrightarrow> backed_artifact T (uw_rows w) a"
    "\<And>c. c \<in> set (uw_calls w) \<Longrightarrow> backed_call T (uw_rows w) c"
    "\<And>a c. a \<in> set (uw_disk w) \<Longrightarrow> c \<in> set (uw_calls w) \<Longrightarrow> kept_by a c"
    "\<And>ro i a. (ro, i) \<in> set (uw_loaded w) \<Longrightarrow> a \<in> set (uw_disk w) \<Longrightarrow> \<not> same_file ro i a"
  using assms unfolding upload_inv_def by fast+

lemma upload_invI:
  assumes "quota_inv ep eg (uw_rows w)" "distinct (map af_token (uw_disk w))" "distinct (map sc_token (uw_calls w))" "names_seen S w"
    "\<And>a. a \<in> set (uw_disk w) \<Longrightarrow> backed_artifact T (uw_rows w) a"
    "\<And>c. c \<in> set (uw_calls w) \<Longrightarrow> backed_call T (uw_rows w) c"
    "\<And>a c. a \<in> set (uw_disk w) \<Longrightarrow> c \<in> set (uw_calls w) \<Longrightarrow> kept_by a c"
    "\<And>ro i a. (ro, i) \<in> set (uw_loaded w) \<Longrightarrow> a \<in> set (uw_disk w) \<Longrightarrow> \<not> same_file ro i a"
  shows "upload_inv ep eg S T w"
  using assms unfolding upload_inv_def by fast

lemma quota_inv_del: "quota_inv ep eg t \<Longrightarrow> quota_inv ep eg (del_where P t)"
  by (simp add: quota_inv_def quota_wf_del_where within_quota_del_where)

lemma quota_inv_reserve: "quota_inv ep eg t \<Longrightarrow> quota_inv ep eg (snd (q_reserve ep eg now fresh p n ttl t))"
  by (simp add: quota_inv_def quota_wf_reserve within_quota_reserve)

lemma quota_inv_finalize: "quota_inv ep eg t \<Longrightarrow> quota_inv ep eg (snd (q_finalize tok sroot art e t))"
  by (simp add: quota_inv_def quota_wf_finalize within_quota_finalize)

text \<open>Less on disk, and fewer calls, is always fine.\<close>

lemma inv_fewer:
  assumes inv: "upload_inv ep eg S T w" and "set (uw_disk v) \<subseteq> set (uw_disk w)" "distinct (map af_token (uw_disk v))"
    and "set (uw_calls v) \<subseteq> set (uw_calls w)" "distinct (map sc_token (uw_calls v))"
    and "uw_rows v = uw_rows w" "set (uw_loaded v) \<subseteq> set (uw_loaded w)"
  shows "upload_inv ep eg S T v"
  using assms unfolding upload_inv_def names_seen_def by (simp add: subset_eq) blast

lemma inv_later: "upload_inv ep eg S T w \<Longrightarrow> S \<subseteq> S' \<Longrightarrow> T \<le> T' \<Longrightarrow> upload_inv ep eg S' T' w"
  unfolding upload_inv_def names_seen_def backed_artifact_def backed_call_def
  by (auto simp: subset_eq intro: backed_later)

text \<open>Rows go: only those nothing needs any more.\<close>

lemma inv_del_rows:
  assumes inv: "upload_inv ep eg S T w" and T: "T \<le> T'"
    and a: "\<And>a r. a \<in> set (uw_disk w) \<Longrightarrow> r \<in> set (uw_rows w) \<Longrightarrow> res_token r = af_token a \<Longrightarrow> fits_artifact a r \<Longrightarrow> P r \<Longrightarrow> af_until a \<le> T'"
    and c: "\<And>c r. c \<in> set (uw_calls w) \<Longrightarrow> sc_stage c = Storing \<Longrightarrow> r \<in> set (uw_rows w) \<Longrightarrow> res_token r = sc_token c \<Longrightarrow> fits_call c r \<Longrightarrow> P r \<Longrightarrow> sc_until c \<le> T'"
  shows "upload_inv ep eg S T' (w\<lparr>uw_rows := del_where P (uw_rows w)\<rparr>)"
proof -
  note D = upload_invD [OF inv]
  have "backed_artifact T' (del_where P (uw_rows w)) x" if "x \<in> set (uw_disk w)" for x
    using backed_del [OF D(5) [OF that, unfolded backed_artifact_def] T] a [OF that] by (simp add: backed_artifact_def)
  moreover have "backed_call T' (del_where P (uw_rows w)) x" if "x \<in> set (uw_calls w)" for x
    using backed_del [OF _ T] D(6) [OF that] c [OF that] by (simp add: backed_call_def)
  ultimately show ?thesis
    using inv quota_inv_del [OF D(1)] by (simp add: upload_inv_def names_seen_def)
qed

lemma inv_expire: "upload_inv ep eg S T w \<Longrightarrow> upload_inv ep eg S (max now T) (w\<lparr>uw_rows := q_expire now (uw_rows w)\<rparr>)"
  unfolding q_expire_def
  by (rule inv_del_rows) (auto simp: fits_artifact_def fits_call_def)

lemma call_ofD: "call_of tok w = Some c \<Longrightarrow> c \<in> set (uw_calls w) \<and> sc_token c = tok"
  unfolding call_of_def by (auto dest: get_by_SomeD)

lemma inv_reserve:
  assumes inv: "upload_inv ep eg S T w" and new: "''token:'' @ fresh \<notin> S"
  shows "upload_inv ep eg (insert (''token:'' @ fresh) S) (max now T) (snd (store_reserve ep eg fails now fresh sroot who n ttl w))"
proof -
  let ?S = "insert (''token:'' @ fresh) S" and ?T = "max now T"
  have same: "upload_inv ep eg ?S ?T w" by (rule inv_later [OF inv]) auto
  show ?thesis
  proof (cases "fails \<or> fst (q_reserve ep eg now fresh who n ttl (uw_rows w)) \<noteq> Inr fresh")
    case True
    then have "store_reserve ep eg fails now fresh sroot who n ttl w = (fst (store_reserve ep eg fails now fresh sroot who n ttl w), w)"
      by (auto simp: store_reserve_def q_reserve_def Let_def split: if_splits)
    with same show ?thesis by (metis snd_conv)
  next
    case False
    define c where "c = \<lparr>sc_token = fresh, sc_root = sroot, sc_principal = who, sc_size = n, sc_until = now + max 3600 (ttl + 60),
      sc_stage = Storing\<rparr>"
    define r where "r = \<lparr>res_token = fresh, res_principal = who, res_size = n, res_root = None, res_artifact = None,
      res_expires = now + max 3600 (ttl + 60)\<rparr>"
    let ?t = "q_expire now (uw_rows w)" and ?w = "w\<lparr>uw_rows := q_expire now (uw_rows w)\<rparr>"
    from False have q: "q_reserve ep eg now fresh who n ttl (uw_rows w) = (Inr fresh, ?t @ [r])" and free: "get_by res_token fresh ?t = None"
      by (auto simp: q_reserve_def Let_def r_def split: if_splits)
    have w': "snd (store_reserve ep eg fails now fresh sroot who n ttl w) = w\<lparr>uw_rows := ?t @ [r], uw_calls := uw_calls w @ [c]\<rparr>"
      using False q by (simp add: store_reserve_def c_def)
    from upload_invD [OF inv_expire [OF inv, of now]]
    have D: "distinct (map af_token (uw_disk w))" "distinct (map sc_token (uw_calls w))" "names_seen S ?w"
      "\<And>a. a \<in> set (uw_disk w) \<Longrightarrow> backed_artifact ?T ?t a" "\<And>c. c \<in> set (uw_calls w) \<Longrightarrow> backed_call ?T ?t c"
      "\<And>a c. a \<in> set (uw_disk w) \<Longrightarrow> c \<in> set (uw_calls w) \<Longrightarrow> kept_by a c"
      "\<And>ro i a. (ro, i) \<in> set (uw_loaded w) \<Longrightarrow> a \<in> set (uw_disk w) \<Longrightarrow> \<not> same_file ro i a"
      by simp_all
    have na: "af_token a \<noteq> fresh" if "a \<in> set (uw_disk w)" for a using D(3) new that by (auto simp: names_seen_def)
    have nc: "sc_token x \<noteq> fresh" if "x \<in> set (uw_calls w)" for x using D(3) new that by (auto simp: names_seen_def)
    have "quota_inv ep eg (?t @ [r])" using quota_inv_reserve [OF upload_invD(1) [OF inv]] q by (metis snd_conv)
    moreover have "backed_artifact ?T (?t @ [r]) a" if "a \<in> set (uw_disk w)" for a
      using D(4) [OF that] na [OF that] by (simp add: backed_artifact_def backed_append r_def)
    moreover have "backed_call ?T (?t @ [r]) x" if "x \<in> set (uw_calls w)" for x
      using D(5) [OF that] nc [OF that] by (simp add: backed_call_def backed_append r_def)
    moreover have "backed_call ?T (?t @ [r]) c"
      using free by (auto simp: backed_call_def backed_def c_def r_def fits_call_def get_by_None)
    moreover have "kept_by a c" if "a \<in> set (uw_disk w)" for a
      using na [OF that] by (simp add: kept_by_def c_def)
    moreover have "names_seen ?S (w\<lparr>uw_rows := ?t @ [r], uw_calls := uw_calls w @ [c]\<rparr>)"
      using D(3) by (auto simp: names_seen_def c_def)
    moreover have "distinct (map sc_token (uw_calls w @ [c]))" using D(2) nc by (auto simp: c_def)
    ultimately show ?thesis
      unfolding w' upload_inv_def using D(1,6,7) by auto
  qed
qed

text \<open>A call goes on to another stage.\<close>

lemma stage_simps:
  "uw_rows (set_stage tok s w) = uw_rows w" "uw_disk (set_stage tok s w) = uw_disk w" "uw_loaded (set_stage tok s w) = uw_loaded w"
  "map sc_token (uw_calls (set_stage tok s w)) = map sc_token (uw_calls w)"
  "uw_rows (end_call tok w) = uw_rows w" "uw_disk (end_call tok w) = uw_disk w" "uw_loaded (end_call tok w) = uw_loaded w"
  "set (uw_calls (end_call tok w)) = {c \<in> set (uw_calls w). sc_token c \<noteq> tok}"
  by (auto simp: set_stage_def end_call_def table_simps)

lemma stage_calls: "set (uw_calls (set_stage tok s w)) = (\<lambda>c. if sc_token c = tok then c\<lparr>sc_stage := s\<rparr> else c) ` set (uw_calls w)"
  by (simp add: set_stage_def table_simps)

lemma inv_stage:
  assumes inv: "upload_inv ep eg S T w" and s: "s \<noteq> Storing"
    and none: "\<And>a. a \<in> set (uw_disk w) \<Longrightarrow> af_token a \<noteq> tok"
  shows "upload_inv ep eg S T (set_stage tok s w)"
proof -
  have k: "kept_by a x" if "a \<in> set (uw_disk w)" "x \<in> set (uw_calls (set_stage tok s w))" for a x
    using that upload_invD(7) [OF inv, of a] none [OF that(1)] by (auto simp: stage_calls kept_by_def split: if_splits)
  have b: "backed_call T (uw_rows w) x" if "x \<in> set (uw_calls (set_stage tok s w))" for x
    using that upload_invD(6) [OF inv] s by (auto simp: stage_calls backed_call_def split: if_splits)
  have n: "names_seen S (set_stage tok s w)"
    using upload_invD(4) [OF inv] by (auto simp: names_seen_def stage_simps stage_calls)
  show ?thesis
    using k b n upload_invD [OF inv] unfolding upload_inv_def by (auto simp: stage_simps)
qed

lemma inv_end: "upload_inv ep eg S T w \<Longrightarrow> upload_inv ep eg S T (end_call tok w)"
  by (rule inv_fewer) (auto simp: stage_simps, auto simp: end_call_def upload_inv_def table_simps)

lemma inv_unkept:
  assumes "upload_inv ep eg S T w"
  shows "upload_inv ep eg S T (w\<lparr>uw_disk := del_where P (uw_disk w)\<rparr>)"
  by (rule inv_fewer [OF assms]) (use upload_invD(2,3) [OF assms] in \<open>auto simp: table_simps\<close>)

text \<open>What the store keeps belongs to its call, and nothing else on disk does.\<close>

lemma kept_after:
  assumes inv: "upload_inv ep eg S T w" and c: "c \<in> set (uw_calls w)" "sc_token c = tok"
    and none: "\<And>b. b \<in> set (uw_disk w) \<Longrightarrow> af_token b \<noteq> tok"
    and a: "af_token a = tok" "\<not> af_bound a" "same_file (sc_root c) (rc_id rc) a"
    and b: "b \<in> set (del_where P (uw_disk w) @ [a])" and x: "x \<in> set (uw_calls (set_stage tok (Kept rc) w))"
  shows "kept_by b x"
proof -
  from x obtain y where y: "y \<in> set (uw_calls w)" and xy: "x = (if sc_token y = tok then y\<lparr>sc_stage := Kept rc\<rparr> else y)"
    unfolding stage_calls by blast
  have yc: "y = c" if "sc_token y = tok" using distinct_key_inj [OF upload_invD(3) [OF inv] y c(1)] that c(2) by simp
  show ?thesis
  proof (cases "b = a")
    case True
    show ?thesis
    proof (cases "sc_token y = tok")
      case True
      with yc xy have "x = c\<lparr>sc_stage := Kept rc\<rparr>" by simp
      with \<open>b = a\<close> a show ?thesis by (simp add: kept_by_def)
    qed (use True xy a in \<open>simp add: kept_by_def\<close>)
  next
    case False
    with b have bd: "b \<in> set (uw_disk w)" by (simp add: table_simps)
    show ?thesis
      using upload_invD(7) [OF inv bd y] none [OF bd] xy by (cases "sc_token y = tok") (simp_all add: kept_by_def)
  qed
qed

lemma inv_keep:
  assumes inv: "upload_inv ep eg S T w" and new: "\<And>rc. core = Inr rc \<Longrightarrow> ''artifact:'' @ rc_id rc \<notin> S"
    and S: "S \<subseteq> S'" "\<And>rc. core = Inr rc \<Longrightarrow> ''artifact:'' @ rc_id rc \<in> S'"
  shows "upload_inv ep eg S' T (store_keep tok core w)"
proof -
  have same: "upload_inv ep eg S' T w" by (rule inv_later [OF inv S(1)]) simp
  show ?thesis
  proof (cases "call_of tok w")
    case None
    with same show ?thesis by (simp add: store_keep_def)
  next
    case (Some c)
    then have c: "c \<in> set (uw_calls w)" "sc_token c = tok" using call_ofD by blast+
    show ?thesis
    proof (cases "sc_stage c = Storing")
      case False
      with Some same show ?thesis by (simp add: store_keep_def)
    next
      case st: True
      have none: "af_token a \<noteq> tok" if "a \<in> set (uw_disk w)" for a
        using upload_invD(7) [OF inv that c(1)] st c(2) by (auto simp: kept_by_def)
      show ?thesis
      proof (cases core)
        case (Inl e)
        with Some st show ?thesis using inv_stage [OF same, of "Failing e" tok] none by (simp add: store_keep_def)
      next
        case (Inr rc)
        define a where "a = \<lparr>af_root = sc_root c, af_id = rc_id rc, af_token = tok, af_principal = sc_principal c, af_size = sc_size c,
             af_until = sc_until c, af_bound = False\<rparr>"
        let ?d = "del_where (same_file (sc_root c) (rc_id rc)) (uw_disk w)"
        have w': "store_keep tok core w = set_stage tok (Kept rc) (w\<lparr>uw_disk := ?d @ [a]\<rparr>)"
          using Some st Inr by (simp add: store_keep_def a_def)
        have backed: "backed_artifact T (uw_rows w) a"
          using upload_invD(6) [OF inv c(1)] st c(2)
          by (simp add: backed_call_def backed_artifact_def backed_def a_def fits_call_def fits_artifact_def)
        have k: "kept_by b x" if "b \<in> set (?d @ [a])" "x \<in> set (uw_calls (set_stage tok (Kept rc) w))" for b x
          by (rule kept_after [OF same c none _ _ _ that(1,2)]) (auto simp: a_def same_file_def)
        have bc: "backed_call T (uw_rows w) x" if "x \<in> set (uw_calls (set_stage tok (Kept rc) w))" for x
          using that upload_invD(6) [OF same] by (auto simp: stage_calls backed_call_def split: if_splits)
        have l: "\<not> same_file ro i a" if "(ro, i) \<in> set (uw_loaded w)" for ro i
          using that new [OF Inr] upload_invD(4) [OF inv] by (auto simp: names_seen_def a_def same_file_def)
        have n: "names_seen S' (w\<lparr>uw_disk := ?d @ [a]\<rparr>)"
          using upload_invD(4) [OF same] S(2) [OF Inr] upload_invD(4) [OF same] c
          by (auto simp: names_seen_def a_def table_simps)
        have calls: "uw_calls (set_stage tok (Kept rc) (w\<lparr>uw_disk := ?d @ [a]\<rparr>)) = uw_calls (set_stage tok (Kept rc) w)"
          by (simp add: set_stage_def)
        have d: "distinct (map af_token (?d @ [a]))"
          using upload_invD(2) [OF inv] none by (auto simp: table_simps a_def)
        have n': "names_seen S' (set_stage tok (Kept rc) (w\<lparr>uw_disk := ?d @ [a]\<rparr>))"
          using n unfolding names_seen_def calls by (auto simp: stage_simps stage_calls)
        let ?w = "set_stage tok (Kept rc) (w\<lparr>uw_disk := ?d @ [a]\<rparr>)"
        have parts: "uw_rows ?w = uw_rows w" "uw_disk ?w = ?d @ [a]" "uw_loaded ?w = uw_loaded w"
          "map sc_token (uw_calls ?w) = map sc_token (uw_calls w)"
          by (simp_all add: stage_simps)
        have ba: "backed_artifact T (uw_rows w) b" if "b \<in> set (?d @ [a])" for b
          using that backed upload_invD(5) [OF same] by (auto simp: table_simps)
        have ls: "\<not> same_file ro i b" if "(ro, i) \<in> set (uw_loaded w)" "b \<in> set (?d @ [a])" for ro i b
          using that l upload_invD(8) [OF same] by (auto simp: table_simps)
        show ?thesis
          unfolding w'
        proof (rule upload_invI)
          show "quota_inv ep eg (uw_rows ?w)" "distinct (map sc_token (uw_calls ?w))" "distinct (map af_token (uw_disk ?w))"
            unfolding parts by (rule upload_invD(1,3) [OF same] d)+
          show "names_seen S' ?w" by (rule n')
          show "backed_artifact T (uw_rows ?w) b" if "b \<in> set (uw_disk ?w)" for b
            using ba that unfolding parts .
          show "backed_call T (uw_rows ?w) x" if "x \<in> set (uw_calls ?w)" for x
            using bc that unfolding parts calls .
          show "kept_by b x" if "b \<in> set (uw_disk ?w)" "x \<in> set (uw_calls ?w)" for b x
            using k that unfolding parts calls .
          show "\<not> same_file ro i b" if "(ro, i) \<in> set (uw_loaded ?w)" "b \<in> set (uw_disk ?w)" for ro i b
            using ls that unfolding parts .
        qed
      qed
    qed
  qed
qed

text \<open>A row is bound to its artifact.\<close>

lemma bound_backed:
  assumes a: "backed_artifact T t a" "af_token a = tok" "\<not> af_bound a" and q: "q_finalize tok ro art e t = (None, t')"
    and f: "same_file ro art a"
  shows "backed_artifact T t' (a\<lparr>af_bound := True, af_until := e\<rparr>)"
proof -
  let ?hit = "\<lambda>r. res_token r = tok \<and> res_artifact r = None"
  from q have t': "t' = upd_where ?hit (\<lambda>r. r\<lparr>res_root := Some ro, res_artifact := Some art, res_expires := e\<rparr>) t"
    and one: "count_where ?hit t = 1"
    by (auto simp: q_finalize_def Let_def split: if_splits)
  have "filter ?hit t \<noteq> []" using one by (auto simp: count_where_def)
  then obtain r where "r \<in> set t" "?hit r" unfolding filter_empty_conv by blast
  have fit: "fits_artifact a x" if "x \<in> set t" "res_token x = tok" for x
    using a that by (auto simp: backed_artifact_def backed_def)
  let ?a = "a\<lparr>af_bound := True, af_until := e\<rparr>" and ?f = "\<lambda>r. r\<lparr>res_root := Some ro, res_artifact := Some art, res_expires := e\<rparr>"
  have fits: "fits_artifact ?a y" if y: "y \<in> set t'" "res_token y = tok" for y
  proof -
    from y(1) obtain x where x: "x \<in> set t" "y = (if ?hit x then ?f x else x)" unfolding t' set_upd_where by blast
    with y(2) have "res_token x = tok" by (simp split: if_splits)
    with fit [OF x(1)] a x(2) have "y = ?f x" "fits_artifact a x" by (simp_all add: fits_artifact_def)
    with f show ?thesis by (simp add: fits_artifact_def artifact_of_def same_file_def)
  qed
  have "?f r \<in> set t'" using \<open>r \<in> set t\<close> \<open>?hit r\<close> unfolding t' by (rule upd_where_hit)
  moreover have "res_token (?f r) = tok" using \<open>?hit r\<close> by simp
  ultimately have "\<exists>y \<in> set t'. res_token y = tok" by blast
  then show ?thesis using fits a(2) unfolding backed_artifact_def backed_def by auto
qed

lemma finalize_other:
  "q_finalize tok ro art e t = (res, t') \<Longrightarrow> tok' \<noteq> tok \<Longrightarrow> backed T t' tok' fits until = backed T t tok' fits until"
  using backed_upd [of "\<lambda>r. r\<lparr>res_root := Some ro, res_artifact := Some art, res_expires := e\<rparr>"
      "\<lambda>r. res_token r = tok \<and> res_artifact r = None" tok' T t fits until]
  by (auto simp: q_finalize_def Let_def split: if_splits)

lemma finalize_failed: "q_finalize tok ro art e t = (Some err, t') \<Longrightarrow> t' = t"
  by (auto simp: q_finalize_def Let_def split: if_splits)

lemma inv_unbound:
  assumes inv: "upload_inv ep eg S T w" and c: "c \<in> set (uw_calls w)" "sc_token c = tok" "sc_stage c = Kept rc"
  shows "upload_inv ep eg S T (set_stage tok (Failing e) (w\<lparr>uw_disk := del_where (same_file (sc_root c) (rc_id rc)) (uw_disk w)\<rparr>))"
proof (rule inv_stage [OF inv_unkept [OF inv]])
  show "af_token a \<noteq> tok" if "a \<in> set (uw_disk (w\<lparr>uw_disk := del_where (same_file (sc_root c) (rc_id rc)) (uw_disk w)\<rparr>))" for a
    using that upload_invD(7) [OF inv _ c(1)] c by (auto simp: table_simps kept_by_def)
qed simp

lemma inv_bound:
  assumes inv: "upload_inv ep eg S T w" and c: "c \<in> set (uw_calls w)" "sc_token c = tok" "sc_stage c = Kept rc"
    and q: "q_finalize tok (sc_root c) (rc_id rc) (rc_expires rc) (uw_rows w) = (None, t')"
  shows "upload_inv ep eg S T (end_call tok (w\<lparr>uw_rows := t', uw_disk := upd_where (\<lambda>a. af_token a = tok)
     (\<lambda>a. a\<lparr>af_bound := True, af_until := rc_expires rc\<rparr>) (uw_disk w)\<rparr>))"
    (is "upload_inv ep eg S T ?w")
proof (rule upload_invI)
  note D = upload_invD [OF inv]
  let ?f = "\<lambda>a. a\<lparr>af_bound := True, af_until := rc_expires rc\<rparr>"
  have disk: "set (uw_disk ?w) = (\<lambda>a. if af_token a = tok then ?f a else a) ` set (uw_disk w)"
    by (simp add: stage_simps set_upd_where)
  have calls: "set (uw_calls ?w) = {c \<in> set (uw_calls w). sc_token c \<noteq> tok}" by (simp add: stage_simps)
  show "quota_inv ep eg (uw_rows ?w)"
    using quota_inv_finalize [OF D(1), of tok "sc_root c" "rc_id rc" "rc_expires rc"] q by (simp add: stage_simps)
  show "distinct (map af_token (uw_disk ?w))" using D(2) by (simp add: stage_simps map_upd_where)
  show "distinct (map sc_token (uw_calls ?w))" using D(3) by (simp add: end_call_def table_simps)
  show "names_seen S ?w" using D(4) unfolding names_seen_def disk calls by (auto simp: stage_simps)
  show "backed_artifact T (uw_rows ?w) a" if "a \<in> set (uw_disk ?w)" for a
  proof -
    from that obtain b where b: "b \<in> set (uw_disk w)" "a = (if af_token b = tok then ?f b else b)" unfolding disk by blast
    show ?thesis
    proof (cases "af_token b = tok")
      case True
      with D(7) [OF b(1) c(1)] c have "\<not> af_bound b" "same_file (sc_root c) (rc_id rc) b" by (simp_all add: kept_by_def)
      from bound_backed [OF D(5) [OF b(1)] True this(1) q this(2)] True b show ?thesis by (simp add: stage_simps)
    next
      case False
      with D(5) [OF b(1)] b finalize_other [OF q False] show ?thesis by (simp add: backed_artifact_def stage_simps)
    qed
  qed
  show "backed_call T (uw_rows ?w) x" if "x \<in> set (uw_calls ?w)" for x
    using that D(6) [of x] finalize_other [OF q] by (simp add: calls backed_call_def stage_simps)
  show "kept_by a x" if "a \<in> set (uw_disk ?w)" "x \<in> set (uw_calls ?w)" for a x
    using that D(7) unfolding disk calls by (auto simp: kept_by_def split: if_splits)
  show "\<not> same_file ro i a" if "(ro, i) \<in> set (uw_loaded ?w)" "a \<in> set (uw_disk ?w)" for ro i a
  proof -
    from that(2) obtain b where b: "b \<in> set (uw_disk w)" "a = (if af_token b = tok then ?f b else b)" unfolding disk by blast
    from that(1) have "(ro, i) \<in> set (uw_loaded w)" by (simp add: stage_simps)
    from D(8) [OF this b(1)] b(2) show ?thesis by (simp add: same_file_def)
  qed
qed

lemma inv_bind:
  assumes inv: "upload_inv ep eg S T w"
  shows "upload_inv ep eg S T (store_bind fails tok w)"
proof (cases "call_of tok w")
  case (Some c)
  then have c: "c \<in> set (uw_calls w)" "sc_token c = tok" using call_ofD by blast+
  show ?thesis
  proof (cases "sc_stage c")
    case (Kept rc)
    obtain res t where q: "(if fails then (Some ReservationLost, uw_rows w)
        else q_finalize tok (sc_root c) (rc_id rc) (rc_expires rc) (uw_rows w)) = (res, t)" by fastforce
    show ?thesis
    proof (cases res)
      case None
      with q have "q_finalize tok (sc_root c) (rc_id rc) (rc_expires rc) (uw_rows w) = (None, t)" by (simp split: if_splits)
      from inv_bound [OF inv c Kept this] Some Kept q None show ?thesis by (simp add: store_bind_def)
    next
      case (Some err)
      with q have "t = uw_rows w" by (auto dest: finalize_failed split: if_splits)
      with inv_unbound [OF inv c Kept] \<open>call_of tok w = Some c\<close> Kept q Some show ?thesis by (simp add: store_bind_def)
    qed
  qed (use Some inv in \<open>simp_all add: store_bind_def\<close>)
qed (use inv in \<open>simp add: store_bind_def\<close>)

lemma inv_cancel:
  assumes inv: "upload_inv ep eg S T w"
  shows "upload_inv ep eg S T (store_cancel fails tok w)"
proof (cases "call_of tok w")
  case (Some c)
  then have c: "c \<in> set (uw_calls w)" "sc_token c = tok" using call_ofD by blast+
  show ?thesis
  proof (cases "sc_stage c")
    case (Failing e)
    have none: "af_token a \<noteq> tok" if "a \<in> set (uw_disk w)" for a
      using upload_invD(7) [OF inv that c(1)] c Failing by (auto simp: kept_by_def)
    have other: "sc_token x \<noteq> tok" if "x \<in> set (uw_calls w)" "sc_stage x = Storing" for x
      using distinct_key_inj [OF upload_invD(3) [OF inv] that(1) c(1)] that c Failing by auto
    have "upload_inv ep eg S T (w\<lparr>uw_rows := q_cancel tok (uw_rows w)\<rparr>)"
      unfolding q_cancel_def by (rule inv_del_rows [OF inv]) (use none other in auto)
    with inv Some Failing show ?thesis by (simp add: store_cancel_def inv_end)
  qed (use Some inv in \<open>simp_all add: store_cancel_def\<close>)
qed (use inv in \<open>simp add: store_cancel_def\<close>)

lemma inv_load: "upload_inv ep eg S T w \<Longrightarrow> upload_inv ep eg S T (load_core sroot art w)"
proof -
  assume inv: "upload_inv ep eg S T w"
  show "upload_inv ep eg S T (load_core sroot art w)"
  proof (cases "filter (same_file sroot art) (uw_disk w) = []")
    case True
    with inv show ?thesis by (simp add: load_core_def)
  next
    case False
    let ?v = "w\<lparr>uw_disk := del_where (same_file sroot art) (uw_disk w)\<rparr>"
    have v: "upload_inv ep eg S T ?v" by (rule inv_unkept [OF inv])
    from False obtain a where "a \<in> set (uw_disk w)" "same_file sroot art a"
      by (auto simp: filter_empty_conv)
    then have seen: "''artifact:'' @ art \<in> S" using upload_invD(4) [OF inv] by (auto simp: names_seen_def same_file_def)
    have l: "load_core sroot art w = ?v\<lparr>uw_loaded := uw_loaded w @ [(sroot, art)]\<rparr>" using False by (simp add: load_core_def)
    show ?thesis
      unfolding l
      by (rule upload_invI) (use upload_invD [OF v] seen in \<open>auto simp: names_seen_def table_simps\<close>)
  qed
qed

lemma inv_release: "upload_inv ep eg S T w \<Longrightarrow> upload_inv ep eg S T (load_release fails sroot art w)"
proof -
  assume inv: "upload_inv ep eg S T w"
  show "upload_inv ep eg S T (load_release fails sroot art w)"
  proof (cases "(sroot, art) \<in> set (uw_loaded w)")
    case False
    with inv show ?thesis by (simp add: load_release_def)
  next
    case True
    let ?v = "if fails then w else w\<lparr>uw_rows := q_release sroot art (uw_rows w)\<rparr>"
    have "upload_inv ep eg S T (w\<lparr>uw_rows := q_release sroot art (uw_rows w)\<rparr>)"
      unfolding q_release_def
      by (rule inv_del_rows [OF inv])
        (use upload_invD(8) [OF inv True] in \<open>auto simp: fits_artifact_def fits_call_def artifact_of_def same_file_def split: if_splits\<close>)
    with inv have v: "upload_inv ep eg S T ?v" by simp
    have "upload_inv ep eg S T (?v\<lparr>uw_loaded := removeAll (sroot, art) (uw_loaded w)\<rparr>)"
      by (rule inv_fewer [OF v]) (use upload_invD(2,3) [OF v] in auto)
    then show ?thesis using True by (simp add: load_release_def split del: if_split)
  qed
qed

lemma inv_step:
  assumes inv: "upload_inv ep eg S T w" and new: "\<forall>s \<in> set (minted_by op). s \<notin> S"
  shows "upload_inv ep eg (S \<union> set (minted_by op)) (max (clock_of op) T) (upload_step ep eg op w)"
proof (cases op)
  case (Up_reserve fails now fresh sroot who n ttl)
  with inv_reserve [OF inv] new show ?thesis by simp
next
  case (Up_keep tok core)
  have "upload_inv ep eg (S \<union> set (minted_by op)) T (store_keep tok core w)"
    by (rule inv_keep [OF inv]) (use new Up_keep in auto)
  from inv_later [OF this subset_refl] Up_keep show ?thesis by simp
next
  case (Up_bind fails tok)
  with inv_later [OF inv_bind [OF inv] subset_refl] show ?thesis by simp
next
  case (Up_cancel fails tok)
  with inv_later [OF inv_cancel [OF inv] subset_refl] show ?thesis by simp
next
  case (Up_load sroot art)
  with inv_later [OF inv_load [OF inv] subset_refl] show ?thesis by simp
next
  case (Up_release fails sroot art)
  with inv_later [OF inv_release [OF inv] subset_refl] show ?thesis by simp
next
  case (Up_prune sroot gone)
  with inv_later [OF inv_unkept [OF inv] subset_refl] show ?thesis by (simp add: prune_core_def)
next
  case (Up_expire now)
  with inv_expire [OF inv] show ?thesis by (simp add: prune_rows_def)
qed

lemma inv_history:
  "distinct (minted_names ops) \<Longrightarrow> upload_inv ep eg (set (minted_names ops)) (latest ops) (fold (upload_step ep eg) ops upload_empty)"
proof (induction ops rule: rev_induct)
  case Nil
  show ?case
    by (rule upload_invI) (use env_limit_pos [of PRINCIPAL_BYTES ep] env_limit_pos [of GLOBAL_BYTES eg] in
        \<open>auto simp: upload_empty_def quota_inv_def quota_wf_def within_quota_def unique_artifacts_def table_simps names_seen_def
           PRINCIPAL_BYTES_def GLOBAL_BYTES_def\<close>)
next
  case (snoc op ops)
  have names: "minted_names (ops @ [op]) = minted_names ops @ minted_by op" by (simp add: minted_names_def)
  have clock: "latest (ops @ [op]) = max (clock_of op) (latest ops)"
  proof -
    have "foldr max xs (max c (0 :: time)) = max c (foldr max xs 0)" for xs c
      by (induction xs) (auto simp: max.left_commute)
    then show ?thesis by (simp add: latest_def)
  qed
  from snoc show ?case
    using inv_step [of ep eg "set (minted_names ops)" "latest ops" _ op] by (auto simp: names clock)
qed

text \<open>Different tokens are different rows.\<close>

lemma covered_sum:
  assumes "distinct (map k xs)" "\<forall>x \<in> set xs. \<exists>r \<in> set t. k' r = k x \<and> sr r = (sx x :: int)" "\<forall>r \<in> set t. 0 \<le> sr r"
  shows "sum_list (map sx xs) \<le> sum_list (map sr t)"
  using assms
proof (induction xs arbitrary: t)
  case Nil
  then have "0 \<le> sum_list (map sr t)" by (intro sum_list_nonneg) auto
  then show ?case by simp
next
  case (Cons x xs)
  then obtain r where r: "r \<in> set t" "k' r = k x" "sr r = sx x" by auto
  have "\<exists>q \<in> set (remove1 r t). k' q = k y \<and> sr q = sx y" if y: "y \<in> set xs" for y
  proof -
    obtain q where q: "q \<in> set t" "k' q = k y" "sr q = sx y" using Cons.prems(2) y by auto
    have "k x \<noteq> k y" using Cons.prems(1) y by (auto simp: image_iff)
    with q r(2) have "q \<in> set (remove1 r t)" by (metis in_set_remove1)
    with q show ?thesis by blast
  qed
  then have rest: "\<forall>y \<in> set xs. \<exists>q \<in> set (remove1 r t). k' q = k y \<and> sr q = sx y" by blast
  have pos: "\<forall>q \<in> set (remove1 r t). 0 \<le> sr q" using Cons.prems(3) set_remove1_subset [of r t] by blast
  have "distinct (map k xs)" using Cons.prems(1) by simp
  from Cons.IH [OF this rest pos] have "sum_list (map sx xs) \<le> sum_list (map sr (remove1 r t))" .
  moreover have "sum_list (map sr t) = sr r + sum_list (map sr (remove1 r t))"
    using r(1) by (rule sum_list_map_remove1)
  ultimately show ?case using r(3) by simp
qed

lemma backed_bytes:
  assumes inv: "upload_inv ep eg S T w"
  shows "disk_bytes (\<lambda>a. T < af_until a) w \<le> bytes_all (uw_rows w)"
    "disk_bytes (\<lambda>a. T < af_until a \<and> af_principal a = p) w \<le> bytes_of p (uw_rows w)"
proof -
  note D = upload_invD [OF inv]
  have row: "\<exists>r \<in> set (uw_rows w). res_token r = af_token a \<and> res_size r = af_size a \<and> res_principal r = af_principal a"
    if "a \<in> set (uw_disk w)" "T < af_until a" for a
    using D(5) [OF that(1)] that(2) by (auto simp: backed_artifact_def backed_def fits_artifact_def)
  have pos: "\<forall>r \<in> set (uw_rows w). 0 \<le> res_size r" using D(1) by (simp add: quota_inv_def quota_wf_def)
  have d: "distinct (map af_token (filter P (uw_disk w)))" for P using D(2) by (simp add: distinct_map_filter)
  show "disk_bytes (\<lambda>a. T < af_until a) w \<le> bytes_all (uw_rows w)"
    unfolding disk_bytes_def bytes_all_def
    by (rule covered_sum [where k = af_token and k' = res_token, OF d]) (use row pos in auto)
  show "disk_bytes (\<lambda>a. T < af_until a \<and> af_principal a = p) w \<le> bytes_of p (uw_rows w)"
    unfolding disk_bytes_def bytes_of_def
    by (rule covered_sum [where k = af_token and k' = res_token, OF d]) (use row pos in fastforce)+
qed

section \<open>Properties\<close>

text \<open>
  C1. However uploads, downloads and prunes interleave, and whatever fails in them (the store, the reservation,
  the binding of the reservation, the cancellation), the artifacts on disk whose time is not over take no
  more bytes than the limit of their principal and of the host, those whose upload is still going on included. The
  tokens and artifact ids that are minted are taken to be fresh.
\<close>

theorem artifact_disk_within_quota:
  assumes "distinct (minted_names ops)"
  shows "disk_bytes (\<lambda>a. latest ops < af_until a \<and> af_principal a = p) (fold (upload_step ep eg) ops upload_empty) \<le> env_limit ep PRINCIPAL_BYTES
    \<and> disk_bytes (\<lambda>a. latest ops < af_until a) (fold (upload_step ep eg) ops upload_empty) \<le> env_limit eg GLOBAL_BYTES"
proof -
  have inv: "upload_inv ep eg (set (minted_names ops)) (latest ops) (fold (upload_step ep eg) ops upload_empty)"
    by (rule inv_history) (rule assms)
  from upload_invD(1) [OF this] have "bytes_of p (uw_rows (fold (upload_step ep eg) ops upload_empty)) \<le> env_limit ep PRINCIPAL_BYTES"
    "bytes_all (uw_rows (fold (upload_step ep eg) ops upload_empty)) \<le> env_limit eg GLOBAL_BYTES"
    by (simp_all add: quota_inv_def within_quota_def)
  with backed_bytes [OF inv] show ?thesis by (meson order_trans)
qed

definition demo_uploads :: "upload_op list" where
  "demo_uploads = [Up_reserve False 10 ''t'' ''/r'' ''p'' 3 60, Up_reserve False 11 ''u'' ''/r'' ''p'' 3 60,
     Up_keep ''t'' (Inr \<lparr>rc_id = ''a'', rc_expires = 99\<rparr>), Up_bind False ''t'']"

theorem artifact_disk_within_quota_witness:
  "disk_bytes (\<lambda>a. latest demo_uploads < af_until a) (fold (upload_step None (Some ''5'')) demo_uploads upload_empty) \<le> 5"
proof -
  have "distinct (minted_names demo_uploads)" by (simp add: demo_uploads_def minted_names_def)
  from artifact_disk_within_quota [OF this, of "''p''" None "Some ''5''"] show ?thesis
    by (simp add: env_limit_def py_str_defs)
qed

end
