(* ===== verification/Media_Archive.thy ===== *)
theory Media_Archive
  imports Utf8_Text Url_Text Json
begin

text \<open>
  The archive of media files (\<open>_install_media_persist\<close> of \<open>compat/compat.py\<close>): which paths a message names, the
  mirror that copies each file once under a name made of its digest, and the download that falls back on the copy. The
  file system, the digest (\<open>sha\<close>) and the guess of a content type are arguments; the two regular expressions are
  written out for ASCII texts.
\<close>

section \<open>The paths of a text\<close>

definition path_char :: "char \<Rightarrow> bool" where
  "path_char c \<longleftrightarrow> c \<notin> {CHR 0x0A, CHR 0x60, CHR 0x22, CHR 0x27, CHR ''<'', CHR ''>''}"

definition alnum :: "char \<Rightarrow> bool" where
  "alnum c \<longleftrightarrow> (let n = (of_char c :: nat) in (48 \<le> n \<and> n \<le> 57) \<or> (65 \<le> n \<and> n \<le> 90) \<or> (97 \<le> n \<and> n \<le> 122))"

text \<open>
  \<open>/[^...]+?\.[A-Za-z0-9]+\<close> with what must follow it: the shortest body whose extension, a whole run of letters and
  digits, is followed so. \<open>acc\<close> holds what was matched so far, reversed.
\<close>

fun to_extension :: "(string \<Rightarrow> bool) \<Rightarrow> string \<Rightarrow> string \<Rightarrow> string option" where
  "to_extension stop acc [] = None"
| "to_extension stop acc (c # s) =
     (let run = takeWhile alnum s in
      if acc \<noteq> [] \<and> c = CHR ''.'' \<and> run \<noteq> [] \<and> stop (drop (length run) s) then Some (rev acc @ c # run)
      else if path_char c then to_extension stop (c # acc) s else None)"

definition path_with_extension :: "(string \<Rightarrow> bool) \<Rightarrow> string \<Rightarrow> string option" where
  "path_with_extension stop s = (case s of c # r \<Rightarrow> if c = CHR ''/'' then map_option ((#) c) (to_extension stop [] r) else None | [] \<Rightarrow> None)"

text \<open>\<open>$|\s\<close>, and the longer condition of the mirror.\<close>

definition at_space :: "string \<Rightarrow> bool" where
  "at_space s \<longleftrightarrow> (case s of [] \<Rightarrow> True | c # _ \<Rightarrow> py_space c)"

definition at_stop :: "string \<Rightarrow> bool" where
  "at_stop s \<longleftrightarrow> (case s of [] \<Rightarrow> True | c # r \<Rightarrow> py_space c \<or> c \<in> set '',;:)]}'' \<or> (c = CHR ''.'' \<and> at_space r))"

text \<open>What follows \<open>MEDIA:\s*\<close>, with the number of characters up to it.\<close>

definition after_tag :: "string \<Rightarrow> (nat \<times> string) option" where
  "after_tag s = (if starts_with ''MEDIA:'' s then
     (let sp = takeWhile py_space (drop 6 s) in Some (6 + length sp, drop (6 + length sp) s)) else None)"

text \<open>A match: the path and the length of the whole match.\<close>

definition spaced_match :: "string \<Rightarrow> (string \<times> nat) option" where
  "spaced_match s = Option.bind (after_tag s) (\<lambda>(n, r). map_option (\<lambda>p. (p, n + length p)) (path_with_extension at_stop r))"

definition quoted_path :: "char \<Rightarrow> string \<Rightarrow> (string \<times> nat) option" where
  "quoted_path q r = (case r of
     a # b # t \<Rightarrow> if a = q \<and> b = CHR ''/'' then
       (let body = takeWhile (\<lambda>c. c \<noteq> q \<and> c \<noteq> CHR 0x0A) t in
        if body \<noteq> [] \<and> starts_with [q] (drop (length body) t) then Some (b # body, length body + 3) else None) else None
   | _ \<Rightarrow> None)"

definition bare_path :: "string \<Rightarrow> (string \<times> nat) option" where
  "bare_path r = (case r of
     b # t \<Rightarrow> if b = CHR ''/'' then
       (let body = takeWhile (\<lambda>c. path_char c \<and> \<not> py_space c) t in
        if body = [] then None else Some (rev (dropWhile (\<lambda>c. c \<in> set ''.,;:)]}'') (rev (b # body))), length body + 1)) else None
   | [] \<Rightarrow> None)"

definition media_match :: "string \<Rightarrow> (string \<times> nat) option" where
  "media_match s = Option.bind (after_tag s) (\<lambda>(n, r).
     map_option (\<lambda>(p, k). (p, n + k))
       (case quoted_path CHR 0x22 r of Some m \<Rightarrow> Some m | None \<Rightarrow>
        (case quoted_path CHR 0x27 r of Some m \<Rightarrow> Some m | None \<Rightarrow>
         (case quoted_path CHR 0x60 r of Some m \<Rightarrow> Some m | None \<Rightarrow> bare_path r))))"

text \<open>\<open>finditer\<close>: start, end and path of the matches, from left to right and apart from one another.\<close>

fun find_iter :: "(string \<Rightarrow> (string \<times> nat) option) \<Rightarrow> nat \<Rightarrow> string \<Rightarrow> (nat \<times> nat \<times> string) list" where
  "find_iter m i [] = []"
| "find_iter m i (c # s) = (case m (c # s) of
     None \<Rightarrow> find_iter m (i + 1) s
   | Some (p, k) \<Rightarrow> (i, i + k, p) # find_iter m (i + max 1 k) (drop (k - 1) s))"

definition media_paths :: "string \<Rightarrow> string list" where
  "media_paths content = (let spaced = find_iter spaced_match 0 content;
       others = filter (\<lambda>(i, _, _). \<not> list_ex (\<lambda>(start, stop, _). start \<le> i \<and> i < stop) spaced) (find_iter media_match 0 content)
     in remdups (map (\<lambda>(_, _, p). p) (spaced @ others)))"

section \<open>The archive\<close>

definition MEDIA_MAX_BYTES :: nat where "MEDIA_MAX_BYTES = 64 * 1024 * 1024"

text \<open>\<open>Path.suffix\<close>: the last component from its last dot on, if that is neither its first nor its last character.\<close>

definition path_name :: "string \<Rightarrow> string" where
  "path_name s = (let parts = filter (\<lambda>p. p \<noteq> [] \<and> p \<noteq> ''.'') (split_on CHR ''/'' s) in if parts = [] then [] else last parts)"

definition path_suffix :: "string \<Rightarrow> string" where
  "path_suffix s = (let n = path_name s; ext = rev (takeWhile (\<lambda>c. c \<noteq> CHR ''.'') (rev n)) in
     if ext = [] \<or> length ext + 1 \<ge> length n then [] else CHR ''.'' # ext)"

text \<open>\<open>mw_open\<close>: the mirrors that have their file and not yet their row, as path and name.\<close>

record media_world =
  mw_map :: "(string \<times> string \<times> time) list"   \<comment> \<open>path, name in the archive, first seen\<close>
  mw_types :: "(string \<times> string) list"
  mw_files :: "string \<Rightarrow> bytes option"
  mw_open :: "(string \<times> string) list"

definition media_empty :: media_world where
  "media_empty = \<lparr>mw_map = [], mw_types = [], mw_files = (\<lambda>_. None), mw_open = []\<rparr>"

text \<open>The data of a source: \<open>said\<close> and \<open>content\<close> as \<open>stat\<close> and \<open>read\<close> find them, \<^const>\<open>None\<close> when they raise.\<close>

definition media_data :: "nat option \<Rightarrow> bytes option \<Rightarrow> bytes option" where
  "media_data said content = (case (said, content) of
     (Some n, Some d) \<Rightarrow> if MEDIA_MAX_BYTES < n then None
       else let data = take (MEDIA_MAX_BYTES + 1) d in if MEDIA_MAX_BYTES < length data then None else Some data
   | _ \<Rightarrow> None)"

definition archive_name :: "(bytes \<Rightarrow> string) \<Rightarrow> string \<Rightarrow> bytes \<Rightarrow> string" where
  "archive_name sha orig d = take 16 (sha d) @ path_suffix orig"

text \<open>
  The body of the loop of \<open>_media_mirror\<close> in two parts. The file is written where there is none; \<open>stale\<close> says that
  another mirror wrote it after this one had looked.
\<close>

definition keep_file :: "(bytes \<Rightarrow> string) \<Rightarrow> bool \<Rightarrow> string \<Rightarrow> bytes \<Rightarrow> media_world \<Rightarrow> media_world" where
  "keep_file sha stale orig d w = (let n = archive_name sha orig d in
     (if stale \<or> mw_files w n = None then w\<lparr>mw_files := (mw_files w)(n \<mapsto> d)\<rparr> else w)\<lparr>mw_open := mw_open w @ [(orig, n)]\<rparr>)"

text \<open>The two \<open>INSERT OR IGNORE\<close>; with \<open>half\<close> the second fails, and the next commit keeps the first.\<close>

definition or_ignore :: "string \<Rightarrow> 'v \<Rightarrow> (string \<times> 'v) list \<Rightarrow> (string \<times> 'v) list" where
  "or_ignore k v t = (if map_of t k = None then t @ [(k, v)] else t)"

definition insert_rows :: "(string \<Rightarrow> string) \<Rightarrow> bool \<Rightarrow> time \<Rightarrow> string \<Rightarrow> string \<Rightarrow> media_world \<Rightarrow> media_world" where
  "insert_rows guess half now orig n w = w\<lparr>mw_map := or_ignore orig (n, now) (mw_map w),
     mw_types := if half then mw_types w else or_ignore orig (guess orig) (mw_types w),
     mw_open := removeAll (orig, n) (mw_open w)\<rparr>"

text \<open>One path mirrored with nothing else going on.\<close>

definition mirror_path :: "(bytes \<Rightarrow> string) \<Rightarrow> (string \<Rightarrow> string) \<Rightarrow> nat option \<Rightarrow> bytes option \<Rightarrow> time \<Rightarrow> string \<Rightarrow> media_world \<Rightarrow> media_world" where
  "mirror_path sha guess said content now orig w =
     (if map_of (mw_map w) orig \<noteq> None then w
      else case media_data said content of
        None \<Rightarrow> w
      | Some d \<Rightarrow> insert_rows guess False now orig (archive_name sha orig d) (keep_file sha False orig d w))"

text \<open>\<open>_media_mirror\<close>, with what each source holds and the clock at its insert.\<close>

definition media_mirror :: "(bytes \<Rightarrow> string) \<Rightarrow> (string \<Rightarrow> string) \<Rightarrow> (string \<Rightarrow> nat option \<times> bytes option \<times> time) \<Rightarrow> string
    \<Rightarrow> media_world \<Rightarrow> media_world" where
  "media_mirror sha guess source content w = (if \<not> (\<exists>i \<in> set [0..<length content]. starts_with ''MEDIA:'' (drop i content)) then w
     else fold (\<lambda>orig. case source orig of (said, data, now) \<Rightarrow> mirror_path sha guess said data now orig) (media_paths content) w)"

text \<open>\<open>_media_restore\<close>; \<open>inside\<close> says that a name resolves to a child of the archive.\<close>

definition media_restore :: "(string \<Rightarrow> bool) \<Rightarrow> (string \<Rightarrow> string) \<Rightarrow> string \<Rightarrow> media_world \<Rightarrow> (bytes \<times> string) option" where
  "media_restore inside guess orig w = (case map_of (mw_map w) orig of
     None \<Rightarrow> None
   | Some (n, _) \<Rightarrow>
       if path_name n \<noteq> n \<or> \<not> inside n then None
       else (case mw_files w n of
         None \<Rightarrow> None
       | Some d \<Rightarrow> if MEDIA_MAX_BYTES < length d then None
           else Some (d, case map_of (mw_types w) orig of Some m \<Rightarrow> m | None \<Rightarrow> guess orig)))"

section \<open>The wrappers\<close>

text \<open>\<open>_media_persist_enabled\<close> of the parsed configuration; whatever raises counts as enabled.\<close>

definition media_persist_enabled :: "json option \<Rightarrow> bool" where
  "media_persist_enabled raw = (case raw of
     Some (JObj kvs) \<Rightarrow> (case jget ''app_compat'' (JObj kvs) of
       Some (JObj app) \<Rightarrow> (case jget ''media_persist'' (JObj app) of
         Some (JObj block) \<Rightarrow> (case jget ''enabled'' (JObj block) of None \<Rightarrow> True | Some v \<Rightarrow> truthy v)
       | _ \<Rightarrow> True)
     | _ \<Rightarrow> True)
   | _ \<Rightarrow> True)"

text \<open>The row wrapper: what is handed to the mirror.\<close>

definition row_mirrors :: "string \<Rightarrow> json option \<Rightarrow> bool \<Rightarrow> string option" where
  "row_mirrors role content enabled = (case content of
     Some (JStr s) \<Rightarrow> if role = ''assistant'' \<and> (\<exists>i \<in> set [0..<length s]. starts_with ''MEDIA:'' (drop i s)) \<and> enabled then Some s else None
   | _ \<Rightarrow> None)"

text \<open>\<open>re.search\<close> of a path that ends with its extension, in a query that may carry what followed the path.\<close>

fun search_path :: "string \<Rightarrow> string option" where
  "search_path [] = None"
| "search_path (c # s) = (case path_with_extension at_space (c # s) of Some p \<Rightarrow> Some p | None \<Rightarrow> search_path s)"

definition wanted_path :: "string \<Rightarrow> string" where
  "wanted_path raw = (let orig = py_strip raw in case search_path orig of Some p \<Rightarrow> p | None \<Rightarrow> orig)"

text \<open>
  \<open>download\<close> after the handler it wraps answered with \<open>status\<close>: pass that on, mirror a text, refuse, or serve a copy.
  \<open>not_allowed\<close> says that an answer of 400 is about the media file; \<open>quoted\<close> is \<open>json.dumps\<close>.
\<close>

datatype download_action = Pass_on | Pass_and_mirror string | Refuse_auth | Serve bytes string

definition media_download :: "nat \<Rightarrow> bool \<Rightarrow> bool \<Rightarrow> bool \<Rightarrow> (string \<Rightarrow> string) \<Rightarrow> string \<Rightarrow> (string \<Rightarrow> (bytes \<times> string) option) \<Rightarrow> download_action" where
  "media_download status enabled authorized not_allowed quoted raw restore =
     (if status \<notin> {200, 400, 404} \<or> \<not> enabled then Pass_on
      else if status = 200 then Pass_and_mirror (''MEDIA:'' @ quoted (wanted_path raw))
      else if \<not> authorized then Refuse_auth
      else if status = 400 \<and> \<not> not_allowed then Pass_on
      else case restore (wanted_path raw) of None \<Rightarrow> Pass_on | Some (d, m) \<Rightarrow> Serve d m)"

section \<open>Histories\<close>

text \<open>Mirrors in flight together: each writes its file, and later its row if it comes so far.\<close>

datatype media_op =
    Md_keep bool string "nat option" "bytes option"
  | Md_insert bool time string string
  | Md_drop string string

fun media_step :: "(bytes \<Rightarrow> string) \<Rightarrow> (string \<Rightarrow> string) \<Rightarrow> media_op \<Rightarrow> media_world \<Rightarrow> media_world" where
  "media_step sha guess (Md_keep stale orig said content) w = (case media_data said content of
     None \<Rightarrow> w | Some d \<Rightarrow> keep_file sha stale orig d w)"
| "media_step sha guess (Md_insert half now orig n) w = (if (orig, n) \<in> set (mw_open w) then insert_rows guess half now orig n w else w)"
| "media_step sha guess (Md_drop orig n) w = w\<lparr>mw_open := removeAll (orig, n) (mw_open w)\<rparr>"

definition media_run :: "(bytes \<Rightarrow> string) \<Rightarrow> (string \<Rightarrow> string) \<Rightarrow> media_op list \<Rightarrow> media_world" where
  "media_run sha guess ops = fold (media_step sha guess) ops media_empty"

text \<open>What was read of which path.\<close>

fun kept_by_op :: "media_op \<Rightarrow> (string \<times> bytes) list" where
  "kept_by_op (Md_keep stale orig said content) = (case media_data said content of None \<Rightarrow> [] | Some d \<Rightarrow> [(orig, d)])"
| "kept_by_op _ = []"

definition media_kept :: "media_op list \<Rightarrow> (string \<times> bytes) list" where
  "media_kept ops = concat (map kept_by_op ops)"

text \<open>No two different contents that were read have one name in the archive (64 bits of SHA-256).\<close>

definition names_apart :: "(bytes \<Rightarrow> string) \<Rightarrow> (string \<times> bytes) set \<Rightarrow> bool" where
  "names_apart sha K \<longleftrightarrow> (\<forall>(o1, d1) \<in> K. \<forall>(o2, d2) \<in> K. archive_name sha o1 d1 = archive_name sha o2 d2 \<longrightarrow> d1 = d2)"

definition media_ok :: "(bytes \<Rightarrow> string) \<Rightarrow> (string \<Rightarrow> string) \<Rightarrow> (string \<times> bytes) set \<Rightarrow> media_world \<Rightarrow> bool" where
  "media_ok sha guess K w \<longleftrightarrow>
     (\<forall>n d. mw_files w n = Some d \<longrightarrow> (\<exists>p. (p, d) \<in> K \<and> n = archive_name sha p d))
     \<and> (\<forall>p n. (p, n) \<in> set (mw_open w) \<longrightarrow> (\<exists>d. (p, d) \<in> K \<and> n = archive_name sha p d \<and> mw_files w n = Some d))
     \<and> (\<forall>p n t. (p, n, t) \<in> set (mw_map w) \<longrightarrow> (\<exists>d. (p, d) \<in> K \<and> n = archive_name sha p d \<and> mw_files w n = Some d))
     \<and> (\<forall>p m. (p, m) \<in> set (mw_types w) \<longrightarrow> m = guess p)"

lemma names_apartD: "names_apart sha K \<Longrightarrow> (p, d) \<in> K \<Longrightarrow> (q, e) \<in> K \<Longrightarrow> archive_name sha p d = archive_name sha q e \<Longrightarrow> d = e"
  unfolding names_apart_def by fast

lemma names_apart_sub: "names_apart sha K \<Longrightarrow> J \<subseteq> K \<Longrightarrow> names_apart sha J"
  unfolding names_apart_def by fast

lemma media_okD:
  assumes "media_ok sha guess K w"
  shows "mw_files w n = Some d \<Longrightarrow> \<exists>p. (p, d) \<in> K \<and> n = archive_name sha p d"
    "(p, n) \<in> set (mw_open w) \<Longrightarrow> \<exists>d. (p, d) \<in> K \<and> n = archive_name sha p d \<and> mw_files w n = Some d"
    "(p, n, t) \<in> set (mw_map w) \<Longrightarrow> \<exists>d. (p, d) \<in> K \<and> n = archive_name sha p d \<and> mw_files w n = Some d"
    "(p, m) \<in> set (mw_types w) \<Longrightarrow> m = guess p"
  using assms unfolding media_ok_def by blast+

lemma media_okI:
  assumes "\<And>n d. mw_files w n = Some d \<Longrightarrow> \<exists>p. (p, d) \<in> K \<and> n = archive_name sha p d"
    "\<And>p n. (p, n) \<in> set (mw_open w) \<Longrightarrow> \<exists>d. (p, d) \<in> K \<and> n = archive_name sha p d \<and> mw_files w n = Some d"
    "\<And>p n t. (p, n, t) \<in> set (mw_map w) \<Longrightarrow> \<exists>d. (p, d) \<in> K \<and> n = archive_name sha p d \<and> mw_files w n = Some d"
    "\<And>p m. (p, m) \<in> set (mw_types w) \<Longrightarrow> m = guess p"
  shows "media_ok sha guess K w"
  using assms unfolding media_ok_def by (intro conjI allI impI)

lemma ok_keep:
  assumes ok: "media_ok sha guess K w" and apart: "names_apart sha (insert (p, d) K)"
  shows "media_ok sha guess (insert (p, d) K) (keep_file sha stale p d w)"
proof -
  let ?K = "insert (p, d) K" and ?n = "archive_name sha p d"
  have there: "mw_files (keep_file sha stale p d w) ?n = Some d"
  proof (cases "stale \<or> mw_files w ?n = None")
    case True
    then show ?thesis by (auto simp: keep_file_def Let_def)
  next
    case False
    then obtain e where e: "mw_files w ?n = Some e" by auto
    from media_okD(1) [OF ok this] obtain q where "(q, e) \<in> K" "?n = archive_name sha q e" by blast
    with names_apartD [OF apart, of p d q e] have "d = e" by blast
    with e False show ?thesis by (simp add: keep_file_def Let_def)
  qed
  have other: "mw_files (keep_file sha stale p d w) n = mw_files w n" if "n \<noteq> ?n" for n
    using that by (simp add: keep_file_def Let_def)
  have stays: "mw_files (keep_file sha stale p d w) n = Some e" if "(q, e) \<in> K" "n = archive_name sha q e" "mw_files w n = Some e" for q n e
  proof (cases "n = ?n")
    case True
    with names_apartD [OF apart, of q e p d] that(1,2) have "e = d" by blast
    with there True show ?thesis by simp
  qed (use other that(3) in simp)
  show ?thesis
  proof (rule media_okI)
    fix n e assume f: "mw_files (keep_file sha stale p d w) n = Some e"
    show "\<exists>q. (q, e) \<in> ?K \<and> n = archive_name sha q e"
    proof (cases "n = ?n")
      case True
      with f there show ?thesis by auto
    next
      case False
      with f other media_okD(1) [OF ok, of n e] show ?thesis by auto
    qed
  next
    fix q n assume "(q, n) \<in> set (mw_open (keep_file sha stale p d w))"
    then have "(q, n) \<in> set (mw_open w) \<or> (q, n) = (p, ?n)" by (auto simp: keep_file_def Let_def)
    then show "\<exists>e. (q, e) \<in> ?K \<and> n = archive_name sha q e \<and> mw_files (keep_file sha stale p d w) n = Some e"
      using media_okD(2) [OF ok, of q n] stays there by blast
  next
    fix q n t assume "(q, n, t) \<in> set (mw_map (keep_file sha stale p d w))"
    then have "(q, n, t) \<in> set (mw_map w)" by (simp add: keep_file_def Let_def split: if_splits)
    then show "\<exists>e. (q, e) \<in> ?K \<and> n = archive_name sha q e \<and> mw_files (keep_file sha stale p d w) n = Some e"
      using media_okD(3) [OF ok, of q n t] stays by blast
  next
    fix q m assume "(q, m) \<in> set (mw_types (keep_file sha stale p d w))"
    then show "m = guess q" using media_okD(4) [OF ok] by (simp add: keep_file_def Let_def split: if_splits)
  qed
qed

lemma or_ignore_set: "set (or_ignore k v t) \<subseteq> insert (k, v) (set t)"
  by (auto simp: or_ignore_def)

lemma or_ignore_keeps: "map_of t k' = Some v' \<Longrightarrow> map_of (or_ignore k v t) k' = Some v'"
  by (simp add: or_ignore_def)

lemma ok_insert:
  assumes ok: "media_ok sha guess K w" and o: "(p, n) \<in> set (mw_open w)"
  shows "media_ok sha guess K (insert_rows guess half now p n w)"
proof -
  have "(q, m) = (p, n) \<or> (\<exists>t. (q, m, t) \<in> set (mw_map w))" if "(q, m, t) \<in> set (or_ignore p (n, now) (mw_map w))" for q m t
    using that or_ignore_set by fastforce
  moreover have "(q, m) = (p, guess p) \<or> (q, m) \<in> set (mw_types w)" if "(q, m) \<in> set (or_ignore p (guess p) (mw_types w))" for q m
    using that or_ignore_set by fastforce
  ultimately show ?thesis
    by (intro media_okI) (use media_okD [OF ok] o in \<open>fastforce simp: insert_rows_def split: if_splits\<close>)+
qed

lemma ok_drop: "media_ok sha guess K w \<Longrightarrow> media_ok sha guess K (w\<lparr>mw_open := removeAll x (mw_open w)\<rparr>)"
  by (rule media_okI) (auto dest: media_okD)

lemma ok_step:
  assumes "media_ok sha guess K w" "names_apart sha (K \<union> set (kept_by_op op))"
  shows "media_ok sha guess (K \<union> set (kept_by_op op)) (media_step sha guess op w)"
  using assms by (cases op) (auto simp: ok_insert ok_drop ok_keep split: option.splits)

lemma ok_run: "names_apart sha (set (media_kept ops)) \<Longrightarrow> media_ok sha guess (set (media_kept ops)) (media_run sha guess ops)"
proof (induction ops rule: rev_induct)
  case Nil
  show ?case by (rule media_okI) (auto simp: media_run_def media_empty_def)
next
  case (snoc op ops)
  have k: "set (media_kept (ops @ [op])) = set (media_kept ops) \<union> set (kept_by_op op)" by (simp add: media_kept_def)
  from snoc names_apart_sub [of sha _ "set (media_kept ops)"] show ?case
    unfolding k by (simp add: media_run_def ok_step)
qed

text \<open>A row of the map, and the way one mirrored path goes through the steps.\<close>

lemma map_stays: "map_of (mw_map w) p = Some v \<Longrightarrow> map_of (mw_map (fold (media_step sha guess) ops w)) p = Some v"
proof (induction ops arbitrary: w)
  case (Cons op ops)
  have "map_of (mw_map (media_step sha guess op w)) p = Some v"
    using Cons.prems by (cases op) (auto simp: keep_file_def insert_rows_def or_ignore_keeps Let_def split: option.splits)
  with Cons.IH show ?case by simp
qed simp

lemma mirror_is_steps:
  "map_of (mw_map w) p = None \<Longrightarrow> media_data said content = Some d \<Longrightarrow>
     mirror_path sha guess said content now p w
       = fold (media_step sha guess) [Md_keep False p said content, Md_insert False now p (archive_name sha p d)] w"
  by (simp add: mirror_path_def keep_file_def Let_def)

section \<open>Properties\<close>



end
