(* ===== verification/Notification_Routes.thy ===== *)
theory Notification_Routes
  imports Notification_Properties App_Platform
begin

text \<open>
  The routes of the notification ledger (\<open>_install_notification_events\<close> of \<open>compat/compat.py\<close>): a page of events, the
  read mark, the claim of a browser, the report of a delivery and the watch of a run. Where a handler makes two
  calls of the ledger, other operations of it may come in between.
\<close>

section \<open>The handlers\<close>

datatype notif_reply =
    Nr_error nat string
  | Nr_page "(event \<times> nat) list" bool int int
  | Nr_read string
  | Nr_claim string string "string option"
  | Nr_delivery string
  | Nr_watched bool string
  | Nr_raised

text \<open>
  What every handler checks first: \<open>auth\<close> is the status of a refusal of \<open>_check_auth\<close>, \<open>scope\<close> the owner, \<^const>\<open>None\<close> where
  resolving it raises.
\<close>

definition route_gate :: "nat option \<Rightarrow> bool \<Rightarrow> string option \<Rightarrow> notif_reply + string" where
  "route_gate auth enabled scope = (case auth of
     Some status \<Rightarrow> Inl (Nr_error status [])
   | None \<Rightarrow> if \<not> enabled then Inl (Nr_error 404 ''notification_events_disabled'')
       else (case scope of None \<Rightarrow> Inl (Nr_error 403 ''gateway_auth_failed'') | Some owner \<Rightarrow> Inr owner))"

text \<open>The JSON body; one that cannot be read counts as empty, one that is no object makes \<open>body.get\<close> raise.\<close>

definition request_body :: "json option \<Rightarrow> json option" where
  "request_body body = (case body of None \<Rightarrow> Some (JObj []) | Some (JObj kvs) \<Rightarrow> Some (JObj kvs) | _ \<Rightarrow> None)"

definition events_get :: "(string \<Rightarrow> string) \<Rightarrow> notif_op list \<Rightarrow> string \<Rightarrow> string \<Rightarrow> notif_store \<Rightarrow> notif_reply \<times> notif_store" where
  "events_get sha between owner cursor st = (case py_int cursor of
     None \<Rightarrow> (Nr_error 400 ''invalid_cursor'', st)
   | Some n \<Rightarrow> (let (items, overflow, next_cursor) = events_after owner (max n 0) PAGE_LIMIT st;
         st' = fold (notif_step sha) between st
       in (Nr_page items overflow next_cursor (head_seq st'), st')))"

definition read_post :: "time \<Rightarrow> string \<Rightarrow> string \<Rightarrow> notif_store \<Rightarrow> notif_reply \<times> notif_store" where
  "read_post now owner eid st = (let r = mark_read now owner eid ''device'' st in
     (case fst r of None \<Rightarrow> Nr_error 404 ''event_not_found'' | Some e \<Rightarrow> Nr_read e, snd r))"

text \<open>\<open>minted\<close> and \<open>token\<close> are the two fresh identifiers.\<close>

definition claim_reply :: "string \<Rightarrow> notif_error + string \<times> string \<Rightarrow> notif_reply" where
  "claim_reply token r = (case r of Inl _ \<Rightarrow> Nr_raised
   | Inr (verdict, assigned) \<Rightarrow> Nr_claim verdict assigned (if verdict = ''claimed'' then Some token else None))"

definition claim_did :: "(json \<Rightarrow> string) \<Rightarrow> string \<Rightarrow> json \<Rightarrow> string" where
  "claim_did dumps minted b = (let said = job_text dumps (jget ''delivery_id'' b) in take 64 (if said = [] then minted else said))"

definition claim_post :: "(string \<Rightarrow> string) \<Rightarrow> (json \<Rightarrow> string) \<Rightarrow> notif_op list \<Rightarrow> time \<Rightarrow> string \<Rightarrow> string \<Rightarrow> string \<Rightarrow> string
    \<Rightarrow> json option \<Rightarrow> notif_store \<Rightarrow> notif_reply \<times> notif_store" where
  "claim_post sha dumps between now minted token owner eid body st = (case request_body body of
     None \<Rightarrow> (Nr_raised, st)
   | Some b \<Rightarrow>
       (case get_event owner eid st of
         None \<Rightarrow> (Nr_error 404 ''event_not_found'', st)
       | Some (e, _) \<Rightarrow>
           if (case ev_read_at e of None \<Rightarrow> False | Some t \<Rightarrow> t \<noteq> 0) then (Nr_error 409 ''already_read'', st)
           else let r = claim_delivery now eid ''initial'' ''browser'' (claim_did dumps minted b)
                      (take 64 (job_text dumps (jget ''device_id'' b))) (Some token) (fold (notif_step sha) between st)
                in (claim_reply token (fst r), snd r)))"

definition short_field :: "(json \<Rightarrow> string) \<Rightarrow> string \<Rightarrow> json \<Rightarrow> string option" where
  "short_field dumps k b = (let s = take 64 (job_text dumps (jget k b)) in if s = [] then None else Some s)"

definition device_report :: "(json \<Rightarrow> string) \<Rightarrow> string \<Rightarrow> string \<Rightarrow> json \<Rightarrow> report" where
  "device_report dumps owner eid b = \<lparr>rp_delivery = job_text dumps (jget ''delivery_id'' b), rp_outcome = job_text dumps (jget ''outcome'' b),
     rp_channel = Some ''browser'', rp_event = Some eid, rp_owner = Some owner, rp_device = short_field dumps ''device_id'' b,
     rp_token = short_field dumps ''show_token'' b\<rparr>"

definition delivery_post :: "(json \<Rightarrow> string) \<Rightarrow> time \<Rightarrow> string \<Rightarrow> string \<Rightarrow> json option \<Rightarrow> notif_store \<Rightarrow> notif_reply \<times> notif_store" where
  "delivery_post dumps now owner eid body st = (case request_body body of
     None \<Rightarrow> (Nr_raised, st)
   | Some b \<Rightarrow> let rp = device_report dumps owner eid b; r = note_delivery now rp st in
       (case fst r of None \<Rightarrow> Nr_error 404 ''delivery_not_found''
          | Some state \<Rightarrow> Nr_delivery (if rp_outcome rp = [] then state else rp_outcome rp), snd r))"

definition watch_post :: "(json \<Rightarrow> string) \<Rightarrow> string \<Rightarrow> json option \<Rightarrow> watch_key list \<Rightarrow> notif_reply \<times> watch_key list" where
  "watch_post dumps owner body ws = (case request_body body of
     None \<Rightarrow> (Nr_raised, ws)
   | Some b \<Rightarrow> let run = take 64 (job_text dumps (jget ''run_id'' b)); on = truthy_value (jget ''watch'' b)
       in (Nr_watched on run, watch (Some owner, run) on ws))"

section \<open>Histories of requests\<close>

datatype notif_route =
    Ledger notif_op
  | Events "notif_op list" string
  | Read time string
  | Claim "notif_op list" time string string string "json option"
  | Report time string "json option"

fun route :: "(string \<Rightarrow> string) \<Rightarrow> (json \<Rightarrow> string) \<Rightarrow> nat option \<times> bool \<times> string option \<Rightarrow> notif_route \<Rightarrow> notif_store
    \<Rightarrow> notif_reply \<times> notif_store" where
  "route sha dumps (auth, enabled, scope) rq st = (case route_gate auth enabled scope of
     Inl r \<Rightarrow> (r, st)
   | Inr owner \<Rightarrow> (case rq of
       Ledger op \<Rightarrow> (Nr_raised, st)
     | Events between cursor \<Rightarrow> events_get sha between owner cursor st
     | Read now eid \<Rightarrow> read_post now owner eid st
     | Claim between now minted token eid body \<Rightarrow> claim_post sha dumps between now minted token owner eid body st
     | Report now eid body \<Rightarrow> delivery_post dumps now owner eid body st))"

fun route_step :: "(string \<Rightarrow> string) \<Rightarrow> (json \<Rightarrow> string) \<Rightarrow> (nat option \<times> bool \<times> string option) \<times> notif_route \<Rightarrow> notif_store \<Rightarrow> notif_store" where
  "route_step sha dumps (_, Ledger op) st = notif_step sha op st"
| "route_step sha dumps (caller, rq) st = snd (route sha dumps caller rq st)"

text \<open>A request that is answered with a show token for an event.\<close>

fun token_handed :: "(string \<Rightarrow> string) \<Rightarrow> (json \<Rightarrow> string) \<Rightarrow> string \<Rightarrow> (nat option \<times> bool \<times> string option) \<times> notif_route \<Rightarrow> notif_store \<Rightarrow> bool" where
  "token_handed sha dumps eid (caller, Claim between now minted token eid' body) st =
     (eid' = eid \<and> (case fst (route sha dumps caller (Claim between now minted token eid' body) st) of
        Nr_claim _ _ (Some _) \<Rightarrow> True | _ \<Rightarrow> False))"
| "token_handed sha dumps eid (caller, rq) st = False"

text \<open>Every request is a number of operations of the ledger.\<close>

lemma no_op: "\<exists>ops. st = fold (notif_step sha) ops st"
  by (intro exI [of _ "[]"]) simp

lemma one_op: "\<exists>ops. notif_step sha op st = fold (notif_step sha) ops st"
  by (intro exI [of _ "[op]"]) simp

lemma more_ops: "\<exists>ops. notif_step sha op (fold (notif_step sha) ops' st) = fold (notif_step sha) ops st"
  by (intro exI [of _ "ops' @ [op]"]) simp

lemma reply_ops:
  "\<exists>ops. snd (events_get sha between owner cursor st) = fold (notif_step sha) ops st"
  "\<exists>ops. snd (read_post now owner eid st) = fold (notif_step sha) ops st"
  "\<exists>ops. snd (claim_post sha dumps between now minted token owner eid body st) = fold (notif_step sha) ops st"
  "\<exists>ops. snd (delivery_post dumps now owner eid body st) = fold (notif_step sha) ops st"
  subgoal by (auto simp: events_get_def Let_def no_op split: option.splits prod.splits)
  subgoal using one_op [of sha "MarkRead now owner eid ''device''" st] by (simp add: read_post_def Let_def)
  subgoal using more_ops [of sha "ClaimDelivery now eid ''initial'' ''browser'' _ _ (Some token)" between st]
    by (simp add: claim_post_def Let_def no_op split: option.split prod.split)
  subgoal using one_op [of sha "NoteDelivery now _" st]
    by (simp add: delivery_post_def Let_def no_op split: option.split)
  done

lemma route_ops: "\<exists>ops. route_step sha dumps rq st = fold (notif_step sha) ops st"
proof -
  obtain auth enabled scope r where rq: "rq = ((auth, enabled, scope), r)" by (metis prod.collapse)
  show ?thesis
    unfolding rq by (cases r) (auto simp: reply_ops one_op no_op split: sum.split)
qed

interpretation notif_routes: guarded_store "route_step sha dumps" notif_wf for sha dumps
  by unfold_locales (metis route_ops nc.run_inv)

lemma taken_before: "notif_wf st \<Longrightarrow> slot_taken k st \<Longrightarrow> slot_taken k (fold (notif_step sha) ops st)"
  by (rule nc.run_sealed)

lemma handed_wins:
  assumes "token_handed sha dumps eid rq st"
  obtains between op where "claim_wins (eid, ''initial'', ''browser'') op (fold (notif_step sha) between st)"
    "route_step sha dumps rq st = notif_step sha op (fold (notif_step sha) between st)"
proof -
  from assms obtain auth enabled scope between now minted token body where rq: "rq = ((auth, enabled, scope), Claim between now minted token eid body)"
    by (cases "(sha, dumps, eid, rq, st)" rule: token_handed.cases) auto
  with assms obtain owner where g: "route_gate auth enabled scope = Inr owner"
    by (auto simp: route_gate_def split: option.splits if_splits)
  let ?st = "fold (notif_step sha) between st"
  from assms rq g obtain b where c: "case claim_reply token (fst (claim_delivery now eid ''initial'' ''browser'' (claim_did dumps minted b)
       (take 64 (job_text dumps (jget ''device_id'' b))) (Some token) ?st)) of Nr_claim _ _ (Some _) \<Rightarrow> True | _ \<Rightarrow> False"
    and s: "route_step sha dumps rq st = snd (claim_delivery now eid ''initial'' ''browser'' (claim_did dumps minted b)
       (take 64 (job_text dumps (jget ''device_id'' b))) (Some token) ?st)"
    by (auto simp: claim_post_def Let_def split: option.splits if_splits)
  show ?thesis
  proof (rule that)
    show "route_step sha dumps rq st = notif_step sha (ClaimDelivery now eid ''initial'' ''browser'' (claim_did dumps minted b)
       (take 64 (job_text dumps (jget ''device_id'' b))) (Some token)) ?st" using s by simp
    show "claim_wins (eid, ''initial'', ''browser'') (ClaimDelivery now eid ''initial'' ''browser'' (claim_did dumps minted b)
       (take 64 (job_text dumps (jget ''device_id'' b))) (Some token)) ?st"
      using c by (auto simp: claim_wins_def claim_reply_def split: sum.splits if_splits)
  qed
qed

definition browser_taken :: "string \<Rightarrow> notif_store \<Rightarrow> bool" where
  "browser_taken eid st \<longleftrightarrow> slot_taken (eid, ''initial'', ''browser'') st"

interpretation show_tokens: claim_once "route_step sha dumps" notif_wf browser_taken "token_handed sha dumps" for sha dumps
proof unfold_locales
  fix rq st eid assume wf: "notif_wf st"
  show "browser_taken eid (route_step sha dumps rq st)" if "browser_taken eid st"
    using route_ops [of sha dumps rq st] that wf unfolding browser_taken_def by (metis nc.run_sealed)
  show "\<not> browser_taken eid st" if "token_handed sha dumps eid rq st"
    using handed_wins [OF that] wf unfolding browser_taken_def by (metis claim_wins_free nc.run_inv nc.run_sealed)
  show "browser_taken eid (route_step sha dumps rq st)" if "token_handed sha dumps eid rq st"
    using handed_wins [OF that] unfolding browser_taken_def by (metis claim_wins_seals)
qed

text \<open>What a report of a browser needs to change anything.\<close>

lemma report_shown:
  "snd (delivery_post dumps now owner eid body st) = st
   \<or> (\<exists>d \<in> set (ns_deliveries st). dl_event d = eid \<and> event_owner st eid = Some owner
        \<and> dl_token d = short_field dumps ''show_token'' (case body of Some b \<Rightarrow> b | None \<Rightarrow> JObj []) \<and> dl_token d \<noteq> None)"
proof (cases "request_body body")
  case None
  then show ?thesis by (simp add: delivery_post_def)
next
  case (Some b)
  then have b: "b = (case body of Some b \<Rightarrow> b | None \<Rightarrow> JObj [])" by (auto simp: request_body_def split: option.splits json.splits)
  let ?rp = "device_report dumps owner eid b"
  have post: "snd (delivery_post dumps now owner eid body st) = snd (note_delivery now ?rp st)"
    using Some by (simp add: delivery_post_def Let_def)
  show ?thesis
  proof (cases "fst (note_delivery now ?rp st)")
    case None
    then have "snd (note_delivery now ?rp st) = st" by (auto simp: note_delivery_def split: option.splits if_splits)
    with post show ?thesis by simp
  next
    case (Some state)
    then obtain d where d: "get_by dl_id (rp_delivery ?rp) (ns_deliveries st) = Some d" "\<not> report_refused ?rp d st"
      by (auto simp: note_delivery_def split: option.splits if_splits)
    then have "dl_event d = eid" "event_owner st eid = Some owner" "dl_token d = short_field dumps ''show_token'' b" "dl_token d \<noteq> None"
      by (auto simp: report_refused_def device_report_def truthy_def split: option.splits)
    with get_by_SomeD [OF d(1)] b show ?thesis by blast
  qed
qed

text \<open>
  C40. Over any history of requests of any callers and of operations of the server, with other operations between the two
  calls of a handler, at most one answer hands out a show token for an event; and a report of a browser changes nothing of
  the ledger unless its sender owns the event and shows the token of the claim.
\<close>

theorem show_token_handed_once:
  "wins_along (route_step sha dumps) (token_handed sha dumps eid) rqs notif_empty \<le> 1
   \<and> (snd (delivery_post dumps now owner eid body st) = st
      \<or> (\<exists>d \<in> set (ns_deliveries st). dl_event d = eid \<and> event_owner st eid = Some owner
           \<and> dl_token d = short_field dumps ''show_token'' (case body of Some b \<Rightarrow> b | None \<Rightarrow> JObj []) \<and> dl_token d \<noteq> None))"
  using show_tokens.at_most_one_win [OF notif_wf_empty] report_shown by blast

end
