(* ===== verification/Wake_Routes.thy ===== *)
theory Wake_Routes
  imports Wake_Ledger App_Platform
begin

text \<open>
  The routes of the wake ledger (\<open>_install_wake\<close> of \<open>compat/compat.py\<close>): what the client of a session may do with a
  batch, and with what codes it is refused. The dispatch itself is in \<open>Wake_Door\<close>.
\<close>

section \<open>The request\<close>

text \<open>\<open>_resolved\<close>: no database, no such session, or the id of the session it resumes as (its own where resolving raises).\<close>

datatype session_lookup = No_database | No_session | Session string "string option"

datatype wake_reply =
    Wk_error nat string
  | Wk_admission wake_admission
  | Wk_view wake_receipt "wake_quota option"
  | Wk_done "wake_receipt option"
  | Wk_raised

text \<open>\<open>guarded\<close> and \<open>_resolved\<close>: \<open>room\<close> is a room grant, \<open>auth\<close> the status of a refusal.\<close>

definition wake_gate :: "bool \<Rightarrow> nat option \<Rightarrow> session_lookup \<Rightarrow> wake_reply + string" where
  "wake_gate room auth found = (if room then Inl (Wk_error 403 ''room_grant_not_allowed'')
     else case auth of Some status \<Rightarrow> Inl (Wk_error status [])
   | None \<Rightarrow> (case found of
       No_database \<Rightarrow> Inl (Wk_error 503 [])
     | No_session \<Rightarrow> Inl (Wk_error 404 ''session_not_found'')
     | Session sid resumed \<Rightarrow> Inr (case resumed of None \<Rightarrow> sid | Some r \<Rightarrow> r)))"

text \<open>\<open>str(body.get(k) or "").strip()\<close>, and the keys of a list.\<close>

definition body_word :: "(json \<Rightarrow> string) \<Rightarrow> string \<Rightarrow> json \<Rightarrow> string" where
  "body_word dumps k b = py_strip (job_text dumps (jget k b))"

definition key_texts :: "(json \<Rightarrow> string) \<Rightarrow> json list \<Rightarrow> string list" where
  "key_texts dumps keys = map (\<lambda>v. job_text dumps (Some v)) keys"

section \<open>The handlers\<close>

text \<open>\<open>reviewed\<close>: the bindings of the ledger are there; \<open>body\<close> is an error of reading it or a JSON object.\<close>

definition admit_route :: "(json \<Rightarrow> string) \<Rightarrow> bool \<Rightarrow> wake_env \<Rightarrow> time \<Rightarrow> string \<Rightarrow> string \<Rightarrow> nat + json \<Rightarrow> wake_ledger \<Rightarrow> wake_reply \<times> wake_ledger" where
  "admit_route dumps reviewed env now bid resolved body st = (case body of
     Inl status \<Rightarrow> (Wk_error status [], st)
   | Inr b \<Rightarrow> (case jget ''delivery_keys'' b of
       Some (JArr keys) \<Rightarrow>
         if \<not> reviewed then (Wk_error 503 ''wake_ledger_unavailable'', st)
         else let r = admit env now bid resolved (key_texts dumps keys) None st
              in (if fst r = AdmitRaises then Wk_raised else Wk_admission (fst r), snd r)
     | _ \<Rightarrow> (Wk_error 400 ''wake_bad_request'', st)))"

definition receipt_route :: "string \<Rightarrow> string \<Rightarrow> time \<Rightarrow> wake_ledger \<Rightarrow> wake_reply" where
  "receipt_route resolved asked now st = (let bid = py_strip asked in
     if bid = [] then Wk_error 400 ''wake_bad_request''
     else (case receipt bid resolved now st of
       (WakeOk (Some v), q) \<Rightarrow> Wk_view v q
     | _ \<Rightarrow> Wk_error 404 ''wake_batch_unknown''))"

text \<open>The answer to a change; an error of \<open>report\<close> is a 400, one of \<open>release\<close> a 404.\<close>

definition change_reply :: "nat \<times> string \<Rightarrow> wake_answer \<Rightarrow> wake_reply" where
  "change_reply err a = (case a of
     WakeConflict _ \<Rightarrow> Wk_error 409 ''wake_transition_conflict''
   | WakeError _ \<Rightarrow> Wk_error (fst err) (snd err)
   | WakeOk v \<Rightarrow> Wk_done v)"

definition REPORT_STATES :: "string list" where
  "REPORT_STATES = [''accepted'', ''terminal'', ''uncertain'']"

definition report_route :: "(json \<Rightarrow> string) \<Rightarrow> time \<Rightarrow> string \<Rightarrow> nat + json \<Rightarrow> wake_ledger \<Rightarrow> wake_reply \<times> wake_ledger" where
  "report_route dumps now resolved body st = (case body of
     Inl status \<Rightarrow> (Wk_error status [], st)
   | Inr b \<Rightarrow> let bid = body_word dumps ''batch_id'' b; state = body_word dumps ''state'' b in
       if bid = [] \<or> state \<notin> set REPORT_STATES then (Wk_error 400 ''wake_bad_request'', st)
       else let r = report now bid resolved state (jstr ''run_id'' b) st in (change_reply (400, ''wake_bad_request'') (fst r), snd r))"

definition release_route :: "(json \<Rightarrow> string) \<Rightarrow> time \<Rightarrow> time \<Rightarrow> string \<Rightarrow> nat + json \<Rightarrow> wake_ledger \<Rightarrow> wake_reply \<times> wake_ledger" where
  "release_route dumps t1 t2 resolved body st = (case body of
     Inl status \<Rightarrow> (Wk_error status [], st)
   | Inr b \<Rightarrow> let bid = body_word dumps ''batch_id'' b in
       if bid = [] then (Wk_error 400 ''wake_bad_request'', st)
       else let r = release t1 t2 bid resolved st in (change_reply (404, ''wake_batch_unknown'') (fst r), snd r))"

section \<open>A history of requests\<close>

datatype wake_request =
    Wr_admit bool wake_env time string
  | Wr_receipt string time
  | Wr_report time
  | Wr_release time time

record wake_call =
  wq_room :: bool
  wq_auth :: "nat option"
  wq_found :: session_lookup
  wq_body :: "nat + json"
  wq_what :: wake_request

definition wake_route :: "(json \<Rightarrow> string) \<Rightarrow> wake_call \<Rightarrow> wake_ledger \<Rightarrow> wake_reply \<times> wake_ledger" where
  "wake_route dumps c st = (case wake_gate (wq_room c) (wq_auth c) (wq_found c) of
     Inl r \<Rightarrow> (r, st)
   | Inr resolved \<Rightarrow> (case wq_what c of
       Wr_admit reviewed env now bid \<Rightarrow> admit_route dumps reviewed env now bid resolved (wq_body c) st
     | Wr_receipt asked now \<Rightarrow> (receipt_route resolved asked now st, st)
     | Wr_report now \<Rightarrow> report_route dumps now resolved (wq_body c) st
     | Wr_release t1 t2 \<Rightarrow> release_route dumps t1 t2 resolved (wq_body c) st))"

text \<open>
  The routes add nothing to the ledger's own operations, and nothing but a granted request of a known session changes it.
\<close>

lemma wake_route_ops: "snd (wake_route dumps c st) = st \<or> (\<exists>op. snd (wake_route dumps c st) = wake_step op st)"
proof (cases "wake_gate (wq_room c) (wq_auth c) (wq_found c)")
  case (Inl r)
  then show ?thesis by (simp add: wake_route_def)
next
  case (Inr resolved)
  have "snd (admit_route dumps rv env now bid resolved body st) = st
      \<or> (\<exists>op. snd (admit_route dumps rv env now bid resolved body st) = wake_step op st)" for rv env now bid body
    unfolding admit_route_def Let_def
    by (auto split: sum.splits option.splits json.splits) (metis wake_step.simps(1))
  moreover have "snd (report_route dumps now resolved body st) = st
      \<or> (\<exists>op. snd (report_route dumps now resolved body st) = wake_step op st)" for now body
    unfolding report_route_def Let_def by (auto split: sum.splits) (metis wake_step.simps(4))
  moreover have "snd (release_route dumps t1 t2 resolved body st) = st
      \<or> (\<exists>op. snd (release_route dumps t1 t2 resolved body st) = wake_step op st)" for t1 t2 body
    unfolding release_route_def Let_def by (auto split: sum.splits) (metis wake_step.simps(5))
  ultimately show ?thesis
    using Inr by (auto simp: wake_route_def split: wake_request.splits)
qed

text \<open>A refusal changes nothing.\<close>

lemma report_refused: "fst (report now bid resolved state run st) = a \<Longrightarrow> (\<And>v. a \<noteq> WakeOk v) \<Longrightarrow> snd (report now bid resolved state run st) = st"
  by (auto simp: report_def report_write_def split: option.splits prod.splits if_splits)

lemma release_refused: "fst (release t1 t2 bid resolved st) = a \<Longrightarrow> (\<And>v. a \<noteq> WakeOk v) \<Longrightarrow> snd (release t1 t2 bid resolved st) = st"
  by (auto simp: release_def Let_def split: option.splits)

lemma wake_route_refused:
  assumes "fst (wake_route dumps c st) = Wk_error status code"
  shows "snd (wake_route dumps c st) = st"
proof (cases "wake_gate (wq_room c) (wq_auth c) (wq_found c)")
  case (Inl r)
  then show ?thesis by (simp add: wake_route_def)
next
  case (Inr resolved)
  with assms show ?thesis
    by (auto simp: wake_route_def admit_route_def report_route_def release_route_def change_reply_def Let_def
        intro: report_refused release_refused
        split: wake_request.splits sum.splits option.splits json.splits if_splits wake_answer.splits)
qed

interpretation wake_routes: guarded_store "\<lambda>c st. snd (wake_route dumps c st)" wake_wf for dumps
  by unfold_locales (metis wake_route_ops wf_step)

text \<open>A request reaches the batches of its own session only.\<close>

lemma admit_keeps: "b \<in> set (wl_batches st) \<Longrightarrow> b \<in> set (wl_batches (snd (admit env now bid resolved keys owner st)))"
proof -
  have one: "wl_batches (ac_ledger (admit_key env resolved now k acc)) = wl_batches (ac_ledger acc)" for k acc
    by (simp add: admit_key_def reject_key_def ignore_key_def split: option.split)
  have "wl_batches (ac_ledger (fold (admit_key env resolved now) ks acc)) = wl_batches (ac_ledger acc)" for ks acc
    by (induction ks arbitrary: acc) (simp_all add: one)
  then show "b \<in> set (wl_batches st) \<Longrightarrow> ?thesis"
    by (auto simp: admit_def Let_def split: option.splits)
qed

lemma report_other:
  "b \<in> set (wl_batches st) \<Longrightarrow> wb_session b \<noteq> resolved \<Longrightarrow> b \<in> set (wl_batches (snd (report now bid resolved state run st)))"
  by (auto simp: report_def report_write_def report_cas_def batch_cas_def upd_where_miss split: option.splits prod.splits if_splits)

lemma release_other:
  assumes "wake_wf st" "b \<in> set (wl_batches st)" "wb_session b \<noteq> resolved"
  shows "b \<in> set (wl_batches (snd (release t1 t2 bid resolved st)))"
proof (cases "release_read bid resolved st")
  case (Some a)
  with assms show ?thesis by (simp add: release_def)
next
  case None
  then obtain c where c: "get_by wb_id bid (wl_batches st) = Some c" "wb_session c = resolved"
    by (auto simp: release_read_def split: option.splits if_splits)
  have "wb_id b \<noteq> bid"
  proof
    assume "wb_id b = bid"
    with get_by_SomeD [OF c(1)] assms(1,2) distinct_key_inj [of wb_id "wl_batches st" b c] have "b = c" by (auto simp: wake_wf_def)
    with c(2) assms(3) show False by simp
  qed
  with None assms show ?thesis by (simp add: release_def Let_def release_write_def upd_where_miss)
qed

lemma wake_route_own_session:
  assumes "wake_wf st" "b \<in> set (wl_batches st)" "wake_gate (wq_room c) (wq_auth c) (wq_found c) \<noteq> Inr (wb_session b)"
  shows "b \<in> set (wl_batches (snd (wake_route dumps c st)))"
proof (cases "wake_gate (wq_room c) (wq_auth c) (wq_found c)")
  case (Inl r)
  with assms show ?thesis by (simp add: wake_route_def)
next
  case (Inr resolved)
  with assms(3) have "wb_session b \<noteq> resolved" by auto
  with Inr assms(1,2) show ?thesis
    by (auto simp: wake_route_def admit_route_def report_route_def release_route_def Let_def admit_keeps report_other release_other
        split: wake_request.splits sum.splits option.splits json.splits)
qed

end
