(* ===== verification/Steer_Routes.thy ===== *)
theory Steer_Routes
  imports Steer_Inbox App_Platform
begin

text \<open>
  The routes of the steer inbox (\<open>_install_steer_inbox\<close> of \<open>compat/compat.py\<close>): posting a steer to a run, listing a run's
  steers and reading one receipt. The ownership check of the core answers through an argument, and so does the
  parser of the body, whose texts are lists of bytes here.
\<close>

section \<open>Posting\<close>

definition STEER_BODY_CAP :: nat where "STEER_BODY_CAP = 64 * 1024"
definition STEER_INPUT_CAP :: nat where "STEER_INPUT_CAP = 8 * 1024"

text \<open>A status row: its status and its session. \<open>St_native\<close> is the core's own handler, with its own answer to a body like this.\<close>

type_synonym status_row = "string \<times> string option"

datatype steer_reply = St_error nat string | St_native | St_receipt payload | St_raised inbox_error

text \<open>
  Whose run it is. A synthetic run has its row and whether it can be steered; \<open>native\<close> is the core's answer, a status or the
  row it found, \<open>auth\<close> the status of a refusal.
\<close>

definition run_owned :: "(status_row option \<times> bool) option \<Rightarrow> nat option \<Rightarrow> nat + status_row option \<Rightarrow> steer_reply + status_row option" where
  "run_owned synthetic auth native = (case synthetic of
     None \<Rightarrow> (case native of Inl status \<Rightarrow> Inl (St_error status []) | Inr row \<Rightarrow> Inr row)
   | Some (row, steerable) \<Rightarrow> (case auth of
       Some status \<Rightarrow> Inl (St_error status [])
     | None \<Rightarrow> if \<not> steerable then Inl (St_error 409 ''run_not_accepting_steer'') else Inr row))"

text \<open>The limits on the body, before and after it is read, and its object.\<close>

definition declared_length :: "string option \<Rightarrow> int" where
  "declared_length header = (case header of None \<Rightarrow> 0
   | Some s \<Rightarrow> if s = [] then 0 else (case py_int s of Some n \<Rightarrow> n | None \<Rightarrow> int STEER_BODY_CAP + 1))"

definition steer_body :: "(string \<Rightarrow> json option) \<Rightarrow> string option \<Rightarrow> string \<Rightarrow> steer_reply + json" where
  "steer_body loads header raw =
     (if int STEER_BODY_CAP < declared_length header \<or> STEER_BODY_CAP < length raw then Inl (St_error 413 ''steer_body_too_large'')
      else if raw = [] then Inl St_native
      else case loads raw of
        Some (JObj kvs) \<Rightarrow> Inr (JObj kvs)
      | _ \<Rightarrow> Inl St_native)"

text \<open>The first of the three keys that holds a string, and the id of the request; \<open>minted\<close> for a client without one.\<close>

fun first_text :: "string list \<Rightarrow> json \<Rightarrow> string option" where
  "first_text [] b = None"
| "first_text (k # ks) b = (case jstr k b of Some s \<Rightarrow> Some s | None \<Rightarrow> first_text ks b)"

definition steer_input :: "json \<Rightarrow> string option" where
  "steer_input b = (case first_text [''input'', ''message'', ''text''] b of
     None \<Rightarrow> None
   | Some s \<Rightarrow> let t = py_strip s in if t = [] \<or> STEER_INPUT_CAP < length t then None else Some t)"

definition request_key :: "(json \<Rightarrow> string) \<Rightarrow> string \<Rightarrow> json \<Rightarrow> string option" where
  "request_key dumps minted b = (case jval ''client_request_id'' b of
     JNull \<Rightarrow> Some minted
   | v \<Rightarrow> let key = render dumps v in if 64 < length key then None else Some key)"

text \<open>A \<open>session_id\<close> or \<open>server_epoch\<close> that is a string and not empty must be that of the run and of the server.\<close>

definition names_other :: "string option \<Rightarrow> string \<Rightarrow> bool" where
  "names_other said here \<longleftrightarrow> (case said of None \<Rightarrow> False | Some s \<Rightarrow> s \<noteq> [] \<and> s \<noteq> here)"

definition row_session :: "status_row option \<Rightarrow> string" where
  "row_session row = (case row of Some (_, Some s) \<Rightarrow> s | _ \<Rightarrow> [])"

definition verdict_reply :: "answer \<Rightarrow> steer_reply" where
  "verdict_reply a = (case a of
     Inl e \<Rightarrow> St_raised e
   | Inr (v, payload) \<Rightarrow>
       if v \<in> {''accepted'', ''duplicate''} then St_receipt payload
       else (case map_of [(''conflict'', (409, ''steer_identity_conflict'')), (''not_ready'', (409, ''run_not_ready'')),
           (''closed'', (409, ''run_closed'')), (''stale'', (409, ''steer_stale_target'')),
           (''queue_full'', (429, ''steer_queue_full'')), (''expired'', (410, ''steer_expired''))] v of
         Some (status, code) \<Rightarrow> St_error status code
       | None \<Rightarrow> St_error 409 ''run_closed''))"

text \<open>What the route reads again after the body: the adapter, the row and the agent of the run, and its binding.\<close>

record live_run =
  lv_adapter :: adapter
  lv_view :: adapter_view
  lv_row :: "status_row option"
  lv_agent :: "agent option"
  lv_binding :: binding

definition steer_request_of :: "string \<Rightarrow> string option \<Rightarrow> live_run \<Rightarrow> status_row option \<Rightarrow> (json \<Rightarrow> string) \<Rightarrow> json \<Rightarrow> string \<Rightarrow> string \<Rightarrow> steer_request" where
  "steer_request_of rid owner lv row dumps b t key =
     \<lparr>rq_owner = owner, rq_run = rid, rq_status = map_option fst row, rq_agent = lv_agent lv,
      rq_session = (let said = job_text dumps (jget ''session_id'' b); sid = (if said = [] then row_session row else said)
        in if sid = [] then None else Some sid),
      rq_input = t, rq_key = key, rq_epoch = jstr ''server_epoch'' b\<rparr>"

definition current_row :: "live_run \<Rightarrow> status_row option \<Rightarrow> status_row option" where
  "current_row lv found = (let row = (case lv_row lv of None \<Rightarrow> found | Some r \<Rightarrow> Some r)
     in if row = None \<and> lv_agent lv \<noteq> None then Some (''running'', None) else row)"

text \<open>
  The last checks and the admission. \<open>owner\<close> is \<^const>\<open>None\<close> where resolving the scope raises. The inbox learns of the agent
  before the request is admitted.
\<close>

definition steer_take :: "(string \<Rightarrow> string) \<Rightarrow> (json \<Rightarrow> string) \<Rightarrow> time \<Rightarrow> string \<Rightarrow> status_row option \<Rightarrow> live_run \<Rightarrow> string option option
    \<Rightarrow> json \<Rightarrow> string \<Rightarrow> string \<Rightarrow> inbox \<times> steer_world \<Rightarrow> steer_reply \<times> inbox \<times> steer_world" where
  "steer_take sha dumps now rid row lv owner b t key s =
     (if row_session row \<noteq> [] \<and> names_other (jstr ''session_id'' b) (row_session row) then (St_error 409 ''steer_stale_target'', s)
      else if names_other (jstr ''server_epoch'' b) (case ib_epoch (fst s) of None \<Rightarrow> [] | Some e \<Rightarrow> e)
      then (St_error 409 ''steer_epoch_stale'', s)
      else (case owner of None \<Rightarrow> (St_error 403 ''gateway_auth_failed'', s)
      | Some ow \<Rightarrow>
          let r = admit_request sha now (ib_epoch (fst s)) (lv_view lv) (lv_binding lv) (steer_request_of rid ow lv row dumps b t key) (snd s)
          in (verdict_reply (fst r), bind_agent (lv_adapter lv) rid (lv_agent lv) (fst s), snd r)))"

definition steer_post :: "(string \<Rightarrow> string) \<Rightarrow> (json \<Rightarrow> string) \<Rightarrow> (string \<Rightarrow> json option) \<Rightarrow> time \<Rightarrow> string \<Rightarrow> bool \<Rightarrow> string
    \<Rightarrow> steer_reply + status_row option \<Rightarrow> string option \<Rightarrow> string \<Rightarrow> live_run \<Rightarrow> string option option
    \<Rightarrow> inbox \<times> steer_world \<Rightarrow> steer_reply \<times> inbox \<times> steer_world" where
  "steer_post sha dumps loads now minted enabled rid owned header raw lv owner s =
     (if \<not> enabled then (St_error 503 ''steer_disabled'', s)
      else case owned of Inl r \<Rightarrow> (r, s)
      | Inr found \<Rightarrow> (case steer_body loads header raw of Inl r \<Rightarrow> (r, s)
      | Inr b \<Rightarrow> (case steer_input b of None \<Rightarrow> (St_error 400 ''invalid_steer_input'', s)
      | Some t \<Rightarrow> (case request_key dumps minted b of None \<Rightarrow> (St_error 400 ''invalid_client_request_id'', s)
      | Some key \<Rightarrow> steer_take sha dumps now rid (current_row lv found) lv owner b t key s))))"

section \<open>Reading\<close>

text \<open>
  Both readers: a run that the core no longer knows is still answered from the store, to its owner. The scope is
  \<^const>\<open>None\<close> where resolving it raises, and may be no owner at all.
\<close>

definition read_gate :: "string option option \<Rightarrow> string \<Rightarrow> nat + status_row option \<Rightarrow> steer_store \<Rightarrow> steer_reply + (string \<times> status_row option)" where
  "read_gate scope rid owned st = (case scope of
     Some (Some owner) \<Rightarrow> (case owned of
       Inr row \<Rightarrow> Inr (owner, row)
     | Inl status \<Rightarrow> if status = 404 \<and> durable_run (Some owner) rid st then Inr (owner, None) else Inl (St_error status []))
   | _ \<Rightarrow> Inl (St_error 403 ''gateway_auth_failed''))"

definition steers_get :: "string option \<Rightarrow> nat \<Rightarrow> string option option \<Rightarrow> string \<Rightarrow> nat + status_row option \<Rightarrow> string \<Rightarrow> steer_store
    \<Rightarrow> steer_reply + steer_listing" where
  "steers_get epoch limit scope rid owned cursor st = (case read_gate scope rid owned st of
     Inl r \<Rightarrow> Inl r
   | Inr (owner, row) \<Rightarrow> (case py_int cursor of
       None \<Rightarrow> Inl (St_error 400 ''invalid_cursor'')
     | Some n \<Rightarrow> if n < 0 then Inl (St_error 400 ''invalid_cursor'')
         else Inr (listing epoch rid (Some owner) (map_option fst row) n limit st)))"

definition receipt_get :: "string option \<Rightarrow> string option option \<Rightarrow> string \<Rightarrow> nat + status_row option \<Rightarrow> string \<Rightarrow> steer_store
    \<Rightarrow> steer_reply + steer_receipt" where
  "receipt_get epoch scope rid owned sid st = (case read_gate scope rid owned st of
     Inl r \<Rightarrow> Inl r
   | Inr (owner, row) \<Rightarrow> (case receipt epoch (Some owner) rid sid st of
       None \<Rightarrow> Inl (St_error 404 ''steer_receipt_not_found'')
     | Some v \<Rightarrow> Inr v))"

section \<open>What the routes let through\<close>

lemma steer_input_bounds: "steer_input b = Some t \<Longrightarrow> t \<noteq> [] \<and> length t \<le> STEER_INPUT_CAP \<and> py_strip t = t"
  by (auto simp: steer_input_def Let_def py_strip_idem split: option.splits if_splits)

lemma steer_body_object: "steer_body loads header raw = Inr b \<Longrightarrow> length raw \<le> STEER_BODY_CAP \<and> loads raw = Some b"
  by (auto simp: steer_body_def split: if_splits option.splits json.splits)

text \<open>
  Nothing of the inbox changes unless the switch is on, the run is the caller's, the body within its limit and the text a stripped
  one of 1 to 8192 bytes; the text the core may be handed is that one.
\<close>

lemma steer_post_changes:
  assumes ch: "snd (steer_post sha dumps loads now minted enabled rid owned header raw lv owner s) \<noteq> s"
  shows "\<exists>b t key ow row. enabled \<and> \<not> isl owned \<and> length raw \<le> STEER_BODY_CAP \<and> loads raw = Some b \<and> steer_input b = Some t
    \<and> request_key dumps minted b = Some key \<and> owner = Some ow
    \<and> snd (snd (steer_post sha dumps loads now minted enabled rid owned header raw lv owner s))
       = snd (admit_request sha now (ib_epoch (fst s)) (lv_view lv) (lv_binding lv) (steer_request_of rid ow lv row dumps b t key) (snd s))"
proof -

  from ch have e: "enabled" by (cases enabled) (auto simp: steer_post_def)
  from ch obtain found where o: "owned = Inr found" by (cases owned) (auto simp: steer_post_def e)
  from ch obtain b where b: "steer_body loads header raw = Inr b" by (cases "steer_body loads header raw") (auto simp: steer_post_def e o)
  from ch obtain t where t: "steer_input b = Some t" by (cases "steer_input b") (auto simp: steer_post_def e o b)
  from ch obtain key where k: "request_key dumps minted b = Some key" by (cases "request_key dumps minted b") (auto simp: steer_post_def e o b t)
  let ?row = "current_row lv found"
  have p: "steer_post sha dumps loads now minted enabled rid owned header raw lv owner s = steer_take sha dumps now rid ?row lv owner b t key s"
    by (simp add: steer_post_def e o b t k)
  with ch have "snd (steer_take sha dumps now rid ?row lv owner b t key s) \<noteq> s" by simp
  then obtain ow where "owner = Some ow" "snd (snd (steer_take sha dumps now rid ?row lv owner b t key s))
       = snd (admit_request sha now (ib_epoch (fst s)) (lv_view lv) (lv_binding lv) (steer_request_of rid ow lv ?row dumps b t key) (snd s))"
    unfolding steer_take_def by (cases owner) (auto simp: Let_def split: if_splits)
  with p e o steer_body_object [OF b] t k show ?thesis by (intro exI [of _ b] exI [of _ t] exI [of _ key] exI [of _ ow] exI [of _ ?row]) simp
qed

text \<open>After the run is gone its receipts are answered to the owner the store has, and to nobody else.\<close>

lemma gone_run_read:
  "receipt_get epoch (Some (Some owner)) rid (Inl 404) sid st = Inr v \<Longrightarrow>
     get_run owner rid st \<noteq> None \<and> get_steer owner rid sid st \<noteq> None"
  by (auto simp: receipt_get_def read_gate_def durable_run_def receipt_def present_def split: option.splits if_splits)

end
