(* ===== verification/Keyset.thy ===== *)
theory Keyset
  imports Session_DB "HOL-Library.Product_Lexorder"
begin

text \<open>
  Keyset pagination, the way \<open>self_wake.reconcile\<close>, \<open>chain_human_checkpoint\<close> and other readers
  page through a table: order by a key, keep the rows beyond the last key seen, take a page, move
  the key to the last row of the page. \<open>sweep\<close> is the loop; with enough pages it reads exactly the
  rows beyond the first key, in order and once.
\<close>

definition page :: "('r \<Rightarrow> 'k::linorder) \<Rightarrow> nat \<Rightarrow> 'k \<Rightarrow> 'r list \<Rightarrow> 'r list" where
  "page key limit seek rows = take limit (filter (\<lambda>r. seek < key r) (sort_key key rows))"

text \<open>Stops at an empty page; \<open>n\<close> bounds the number of pages.\<close>

fun sweep :: "('r \<Rightarrow> 'k::linorder) \<Rightarrow> nat \<Rightarrow> nat \<Rightarrow> 'k \<Rightarrow> 'r list \<Rightarrow> 'r list" where
  "sweep key limit 0 seek rows = []"
| "sweep key limit (Suc n) seek rows = (let p = page key limit seek rows in
     if p = [] then [] else p @ sweep key limit n (key (last p)) rows)"

abbreviation msg_key :: "message \<Rightarrow> time \<times> int" where
  "msg_key m \<equiv> (msg_time m, msg_id m)"

lemma msg_key_after: "(ts, mid) < msg_key m \<longleftrightarrow> ts < msg_time m \<or> (msg_time m = ts \<and> mid < msg_id m)"
  by (auto simp: less_prod_simp)

lemma beyond_page:
  fixes key :: "'r \<Rightarrow> 'k::linorder"
  assumes s: "sorted_wrt (\<lambda>a b. key a < key b) xs" and n: "0 < n" "xs \<noteq> []"
  shows "filter (\<lambda>r. key (last (take n xs)) < key r) xs = drop n xs"
proof -
  let ?p = "take n xs"
  have ne: "?p \<noteq> []" using n by simp
  have xs: "xs = ?p @ drop n xs" by simp
  have sp: "sorted_wrt (\<lambda>a b. key a < key b) (?p @ drop n xs)" using s by simp
  have "filter (\<lambda>r. key (last ?p) < key r) ?p = []"
  proof (rule filter_False)
    show "\<forall>r \<in> set ?p. \<not> key (last ?p) < key r"
    proof
      fix r assume r: "r \<in> set ?p"
      have "sorted_wrt (\<lambda>a b. key a < key b) (butlast ?p @ [last ?p])" using sp ne by (simp add: sorted_wrt_append)
      moreover have "r \<in> set (butlast ?p) \<or> r = last ?p"
        using r ne by (metis append_butlast_last_id rotate1.simps(2) set_ConsD set_rotate1)
      ultimately show "\<not> key (last ?p) < key r" by (auto simp: sorted_wrt_append)
    qed
  qed
  moreover have "filter (\<lambda>r. key (last ?p) < key r) (drop n xs) = drop n xs"
    using sp [unfolded sorted_wrt_append] last_in_set [OF ne] by (intro filter_True) auto
  ultimately show ?thesis using xs filter_append by (metis append_self_conv2)
qed

lemma sorted_beyond:
  fixes key :: "'r \<Rightarrow> 'k::linorder"
  assumes "distinct (map key rows)"
  shows "sorted_wrt (\<lambda>a b. key a < key b) (filter (\<lambda>r. seek < key r) (sort_key key rows))"
proof -
  have "distinct (map key (sort_key key rows))" using assms by (simp add: distinct_map)
  then have "sorted_wrt (<) (map key (sort_key key rows))" by (simp add: strict_sorted_iff)
  then show ?thesis by (simp add: sorted_wrt_map sorted_wrt_filter)
qed

lemma sweep_complete:
  fixes key :: "'r \<Rightarrow> 'k::linorder"
  assumes d: "distinct (map key rows)" and lim: "0 < limit"
  shows "length (filter (\<lambda>r. seek < key r) rows) < n \<Longrightarrow>
    sweep key limit n seek rows = filter (\<lambda>r. seek < key r) (sort_key key rows)"
proof (induction n arbitrary: seek)
  case (Suc n)
  let ?xs = "filter (\<lambda>r. seek < key r) (sort_key key rows)"
  have len: "length (filter (\<lambda>r. s < key r) (sort_key key rows)) = length (filter (\<lambda>r. s < key r) rows)" for s
    by (simp add: filter_sort)
  show ?case
  proof (cases "?xs = []")
    case True
    then show ?thesis by (simp add: page_def)
  next
    case False
    let ?p = "take limit ?xs"
    have "filter (\<lambda>r. key (last ?p) < key r) ?xs = drop limit ?xs"
      by (rule beyond_page [OF sorted_beyond [OF d] lim False])
    moreover have "last ?p \<in> set ?xs" using False lim by (metis gr_implies_not0 last_in_set in_set_takeD take_eq_Nil)
    then have "seek < key (last ?p)" by simp
    then have "filter (\<lambda>r. key (last ?p) < key r) ?xs = filter (\<lambda>r. key (last ?p) < key r) (sort_key key rows)"
      by (simp add: filter_filter conj_commute) (rule filter_cong; auto)
    ultimately have rest: "filter (\<lambda>r. key (last ?p) < key r) (sort_key key rows) = drop limit ?xs" by simp
    have "length (filter (\<lambda>r. key (last ?p) < key r) rows) = length ?xs - limit"
      using len [of "key (last ?p)"] rest by simp
    moreover have "0 < length ?xs" using False by blast
    moreover have "length ?xs < Suc n" using Suc.prems by (simp only: len)
    ultimately have "length (filter (\<lambda>r. key (last ?p) < key r) rows) < n" using lim by linarith
    from Suc.IH [OF this] rest False lim show ?thesis
      by (simp add: Let_def page_def)
  qed
qed simp

end
