(* ===== verification/Self_Wake_Reconcile.thy ===== *)
theory Self_Wake_Reconcile
  imports Cron_Delivery Keyset
begin

text \<open>
  \<open>self_wake.reconcile\<close>: the crash-gap sweep. It pages through the cron reports of the session
  database behind a persisted seek and gives an intent to every report the bridge never finalized.
  The session database is one snapshot for the sweep; a delivery key is text.
\<close>

definition RECONCILE_MAX_PAGES :: nat where "RECONCILE_MAX_PAGES = 25"

fun sql_text :: "sqlv \<Rightarrow> string option" where
  "sql_text (SText s) = Some s"
| "sql_text _ = None"

text \<open>The rows of the query, before the seek.\<close>

definition gap_rows :: "(json \<Rightarrow> string) \<Rightarrow> time \<Rightarrow> session_db \<Rightarrow> message list" where
  "gap_rows dumps cutoff sdb = filter (\<lambda>m. msg_role m = ''user'' \<and> msg_kind m = Some DISPLAY_KIND
     \<and> sql_is_one (cron_field dumps ''schema'' m) \<and> cutoff < msg_time m) (db_messages sdb)"

record gap_count =
  gc_added :: nat
  gc_free :: nat

definition backfill_receipt :: "string \<Rightarrow> string \<Rightarrow> message \<Rightarrow> string option \<Rightarrow> time \<Rightarrow> bridge_receipt" where
  "backfill_receipt key home m digest now = \<lparr>rc_key = key, rc_home = home, rc_execution = ''reconciled'',
     rc_status = Arrived, rc_row = Some (msg_id m), rc_error = None, rc_digest = digest,
     rc_session = msg_session m, rc_created = now, rc_updated = now\<rparr>"

definition off_era :: "bridge_receipt \<Rightarrow> bool" where
  "off_era r \<longleftrightarrow> \<not> (rc_status r = Arrived \<and> rc_error r = Some ''intent-failed'')"

definition reconcile_row :: "(json \<Rightarrow> string) \<Rightarrow> mode \<Rightarrow> string \<Rightarrow> int \<Rightarrow> time \<Rightarrow> time \<Rightarrow> message \<Rightarrow> gap_count \<times> bridge
    \<Rightarrow> gap_count \<times> bridge" where
  "reconcile_row dumps md home gen cutoff now m acc = (case acc of (n, br) \<Rightarrow>
     case sql_text (cron_field dumps ''delivery_key'' m) of
       None \<Rightarrow> (n, br)
     | Some key \<Rightarrow>
         if key = [] \<or> get_by in_key key (br_intents br) \<noteq> None then (n, br)
         else let intent = new_intent key home (msg_session m) (Some (msg_id m)) gen cutoff ''reconciled'' md now;
                  br1 = br\<lparr>br_intents := br_intents br @ [intent]\<rparr>
           in (case get_by rc_key key (br_receipts br) of
                Some r \<Rightarrow> if off_era r then (n, br) else (n\<lparr>gc_free := gc_free n + 1\<rparr>, br1)
              | None \<Rightarrow> (n\<lparr>gc_added := gc_added n + 1\<rparr>, br1\<lparr>br_receipts := br_receipts br1 @
                  [backfill_receipt key home m (sql_text (cron_field dumps ''digest'' m)) now]\<rparr>)))"

text \<open>Pages until a short one or the page bound; the seek moves with every page that has rows.\<close>

fun reconcile_pages :: "(message \<Rightarrow> gap_count \<times> bridge \<Rightarrow> gap_count \<times> bridge) \<Rightarrow> nat \<Rightarrow> nat \<Rightarrow> time \<times> int \<Rightarrow> message list
    \<Rightarrow> gap_count \<times> bridge \<Rightarrow> (time \<times> int) \<times> gap_count \<times> bridge" where
  "reconcile_pages row limit 0 seek gaps acc = (seek, acc)"
| "reconcile_pages row limit (Suc n) seek gaps acc = (let rows = page msg_key limit seek gaps;
       acc' = fold row rows acc;
       seek' = (if rows = [] then seek else msg_key (last rows))
     in if length rows < limit then (seek', acc') else reconcile_pages row limit n seek' gaps acc')"

definition reconcile :: "(json \<Rightarrow> string) \<Rightarrow> json option \<Rightarrow> string \<Rightarrow> time \<Rightarrow> session_db \<Rightarrow> nat \<Rightarrow> bridge
    \<Rightarrow> gap_count option \<times> bridge" where
  "reconcile dumps cfg home now sdb limit br = (case settings cfg of (md, _, _) \<Rightarrow>
     if md = Off then (None, br)
     else case generation_cutoff now br of ((gen, cutoff), br1) \<Rightarrow>
       (case reconcile_pages (reconcile_row dumps md home gen cutoff now) limit RECONCILE_MAX_PAGES
            (reconcile_seek gen cutoff br1) (gap_rows dumps cutoff sdb) (\<lparr>gc_added = 0, gc_free = 0\<rparr>, br1) of
          ((ts, mid), n, br2) \<Rightarrow> (Some n, br2\<lparr>br_seek := Some (gen, ts, mid)\<rparr>)))"

section \<open>What a sweep covers\<close>

text \<open>The bridge knows the report: it has an intent, or a receipt of another era.\<close>

definition known :: "string \<Rightarrow> bridge \<Rightarrow> bool" where
  "known key br \<longleftrightarrow> key \<in> in_key ` set (br_intents br)
     \<or> (\<exists>r. get_by rc_key key (br_receipts br) = Some r \<and> off_era r)"

definition covered :: "(json \<Rightarrow> string) \<Rightarrow> message \<Rightarrow> bridge \<Rightarrow> bool" where
  "covered dumps m br \<longleftrightarrow> (case sql_text (cron_field dumps ''delivery_key'' m) of None \<Rightarrow> True
     | Some key \<Rightarrow> key = [] \<or> known key br)"

lemma known_mono:
  "set (br_intents br) \<subseteq> set (br_intents br') \<Longrightarrow>
   (\<And>r. get_by rc_key k (br_receipts br) = Some r \<Longrightarrow> get_by rc_key k (br_receipts br') = Some r) \<Longrightarrow>
   known k br \<Longrightarrow> known k br'"
  unfolding known_def by blast

lemma reconcile_row_known: "known k (snd acc) \<Longrightarrow> known k (snd (reconcile_row dumps md home gen cutoff now m acc))"
proof -
  assume k: "known k (snd acc)"
  obtain n br where acc: "acc = (n, br)" by fastforce
  show ?thesis
    using k unfolding acc reconcile_row_def
    by (auto simp: Let_def table_simps elim!: known_mono [rotated 2] split: option.splits if_splits)
qed

lemma reconcile_row_covers: "covered dumps m (snd (reconcile_row dumps md home gen cutoff now m acc))"
proof -
  obtain n br where acc: "acc = (n, br)" by fastforce
  have i: "get_by in_key k (br_intents br) = Some x \<Longrightarrow> k \<in> in_key ` set (br_intents br)" for k x
    by (auto dest: get_by_SomeD)
  show ?thesis
    unfolding acc reconcile_row_def covered_def
    by (auto simp: Let_def known_def new_intent_def i split: option.splits if_splits)
qed

lemma fold_row_known:
  "known k (snd acc) \<Longrightarrow> known k (snd (fold (reconcile_row dumps md home gen cutoff now) rows acc))"
proof (induction rows arbitrary: acc)
  case (Cons x rows)
  show ?case using Cons.IH [OF reconcile_row_known [OF Cons.prems]] by simp
qed simp

lemma covered_known_mono: "(\<And>k. known k br \<Longrightarrow> known k br') \<Longrightarrow> covered dumps m br \<Longrightarrow> covered dumps m br'"
  by (auto simp: covered_def split: option.splits)

lemma fold_row_covers:
  "m \<in> set rows \<Longrightarrow> covered dumps m (snd (fold (reconcile_row dumps md home gen cutoff now) rows acc))"
proof (induction rows arbitrary: acc)
  case (Cons x rows)
  show ?case
  proof (cases "m = x")
    case True
    show ?thesis unfolding True
      using covered_known_mono [OF fold_row_known reconcile_row_covers] by simp
  next
    case False
    with Cons show ?thesis by simp
  qed
qed simp

lemma reconcile_pages_known:
  "known k (snd acc) \<Longrightarrow>
   known k (snd (snd (reconcile_pages (reconcile_row dumps md home gen cutoff now) limit n seek gaps acc)))"
proof (induction n arbitrary: seek acc)
  case (Suc n)
  then show ?case using fold_row_known [of k acc] by (auto simp: Let_def)
qed simp

lemma reconcile_pages_cover:
  assumes d: "distinct (map msg_key gaps)" and lim: "0 < limit"
  shows "length (filter (\<lambda>m. seek < msg_key m) gaps) < n * limit \<Longrightarrow> m \<in> set gaps \<Longrightarrow> seek < msg_key m \<Longrightarrow>
    covered dumps m (snd (snd (reconcile_pages (reconcile_row dumps md home gen cutoff now) limit n seek gaps acc)))"
proof (induction n arbitrary: seek acc)
  case (Suc n)
  let ?xs = "filter (\<lambda>m. seek < msg_key m) (sort_key msg_key gaps)"
  let ?p = "page msg_key limit seek gaps"
  let ?row = "reconcile_row dumps md home gen cutoff now"
  have p: "?p = take limit ?xs" by (simp add: page_def)
  have m: "m \<in> set ?xs" using Suc.prems by simp
  show ?case
  proof (cases "m \<in> set ?p")
    case True
    have "covered dumps m (snd (fold ?row ?p acc))" using True by (rule fold_row_covers)
    then show ?thesis
      using covered_known_mono [OF reconcile_pages_known] by (auto simp: Let_def)
  next
    case False
    then have drop: "m \<in> set (drop limit ?xs)"
      using m unfolding p by (metis UnE append_take_drop_id set_append)
    then have long: "limit < length ?xs" by (metis drop_all linorder_not_le list.set(1) empty_iff)
    then have ne: "?xs \<noteq> []" by (metis list.size(3) not_less_zero)
    from long have len: "length ?p = limit" "?p \<noteq> []" using lim by (auto simp: p)
    have rest: "filter (\<lambda>r. msg_key (last ?p) < msg_key r) ?xs = drop limit ?xs"
      unfolding p by (rule beyond_page [OF sorted_beyond [OF d] lim ne])
    have "m \<in> set (filter (\<lambda>r. msg_key (last ?p) < msg_key r) ?xs)" using drop by (simp only: rest)
    then have after: "msg_key (last ?p) < msg_key m" by (simp only: set_filter mem_Collect_eq)
    have "last ?p \<in> set ?xs" using last_in_set [OF len(2)] unfolding p by (rule in_set_takeD)
    then have "seek < msg_key (last ?p)" by (simp only: set_filter mem_Collect_eq)
    then have tr: "seek < msg_key r" if "msg_key (last ?p) < msg_key r" for r using that by (rule less_trans)
    have "filter (\<lambda>r. msg_key (last ?p) < msg_key r) gaps
        = filter (\<lambda>r. msg_key (last ?p) < msg_key r) (filter (\<lambda>m. seek < msg_key m) gaps)"
      unfolding filter_filter by (rule filter_cong) (use tr in blast)+
    then have "length (filter (\<lambda>r. msg_key (last ?p) < msg_key r) gaps) = length (drop limit ?xs)"
      using rest by (metis (no_types, lifting) filter_sort length_sort)
    also have "\<dots> < n * limit" using Suc.prems(1) long by (simp add: filter_sort)
    finally have "length (filter (\<lambda>r. msg_key (last ?p) < msg_key r) gaps) < n * limit" .
    from Suc.IH [OF this Suc.prems(2) after] len show ?thesis by (simp add: Let_def)
  qed
qed simp

lemma reconcile_pages_inv:
  "(\<And>m acc. P acc \<Longrightarrow> P (row m acc)) \<Longrightarrow> P acc \<Longrightarrow> P (snd (reconcile_pages row limit n seek gaps acc))"
proof (induction n arbitrary: seek acc)
  case (Suc n)
  have f: "P acc \<Longrightarrow> P (fold row rows acc)" for rows acc
    using Suc.prems(1) by (induction rows arbitrary: acc) auto
  show ?case using Suc.IH [OF Suc.prems(1)] f Suc.prems(2) by (auto simp: Let_def)
qed simp

text \<open>Against the bridge before the sweep: its receipts stand, and no off-era report got an intent.\<close>

definition honours :: "bridge \<Rightarrow> bridge \<Rightarrow> bool" where
  "honours br0 br \<longleftrightarrow> (\<forall>k r. get_by rc_key k (br_receipts br0) = Some r \<longrightarrow> get_by rc_key k (br_receipts br) = Some r)
     \<and> (\<forall>k \<in> in_key ` set (br_intents br). k \<in> in_key ` set (br_intents br0)
          \<or> (\<forall>r. get_by rc_key k (br_receipts br0) = Some r \<longrightarrow> \<not> off_era r))"

lemma honours_row: "honours br0 (snd acc) \<Longrightarrow> honours br0 (snd (reconcile_row dumps md home gen cutoff now m acc))"
proof -
  assume r: "honours br0 (snd acc)"
  obtain n br where acc: "acc = (n, br)" by fastforce
  show ?thesis
    using r unfolding acc reconcile_row_def honours_def
    by (auto simp: Let_def table_simps new_intent_def split: option.splits if_splits)
qed

section \<open>Property\<close>



end
