(* ===== verification/Self_Wake_Chain.thy ===== *)
theory Self_Wake_Chain
  imports Cron_Bridge Keyset "HOL-Library.List_Lexorder" "HOL-Library.Char_ord"
begin

text \<open>
  The chain fuse of \<open>compat/self_wake.py\<close>: the tables \<open>selfwake_chain\<close> and \<open>selfwake_audit\<close> of the
  wake ledger, the gate, the counters, the human checkpoint that reopens a chain, the admin reset,
  the root session a chain is counted on, and the loopback endpoint of the gateway. The
  configuration and every reading of the clock are arguments; a read of the session database that
  raises is \<^const>\<open>None\<close>.
\<close>

section \<open>Tables\<close>

record chain =
  ch_session :: string
  ch_fires :: nat
  ch_last :: "time option"
  ch_fused :: bool
  ch_fails :: nat
  ch_updated :: "time option"

record audit_row =
  au_at :: time
  au_original :: "string option"
  au_resolved :: "string option"
  au_trigger :: string
  au_keys :: "string list"
  au_rows :: "int option list"
  au_batch :: "string option"
  au_run :: "string option"
  au_phase :: string
  au_from :: "string option"
  au_to :: "string option"
  au_reason :: "string option"
  au_quota :: "nat option"
  au_chain :: "nat option"
  au_latency :: "time option"

record chain_db =
  cd_chains :: "chain list"
  cd_audit :: "audit_row list"

text \<open>An audit row with only its mandatory columns; callers set the others.\<close>

definition audit_entry :: "time \<Rightarrow> string \<Rightarrow> audit_row" where
  "audit_entry now phase = \<lparr>au_at = now, au_original = None, au_resolved = None, au_trigger = ''self'', au_keys = [],
     au_rows = [], au_batch = None, au_run = None, au_phase = phase, au_from = None, au_to = None, au_reason = None,
     au_quota = None, au_chain = None, au_latency = None\<rparr>"

text \<open>Keys are stored as prefixes of twelve characters.\<close>

definition audit :: "audit_row \<Rightarrow> chain_db \<Rightarrow> chain_db" where
  "audit e db = db\<lparr>cd_audit := cd_audit db @ [e\<lparr>au_keys := map (take 12) (au_keys e)\<rparr>]\<rparr>"

section \<open>The gate\<close>

definition off_reason :: "string option \<Rightarrow> string" where
  "off_reason why = ''selfwake off ('' @ (case why of Some (c # cs) \<Rightarrow> c # cs | _ \<Rightarrow> ''disabled'') @ '')''"

definition chain_row :: "string \<Rightarrow> chain_db \<Rightarrow> nat \<times> time option \<times> bool" where
  "chain_row lin db = (case get_by ch_session lin (cd_chains db) of
     Some r \<Rightarrow> (ch_fires r, ch_last r, ch_fused r) | None \<Rightarrow> (0, None, False))"

text \<open>Allowed, the reason when not, the fires so far, and how long a cooldown still lasts.\<close>

definition chain_gate :: "json option \<Rightarrow> time \<Rightarrow> string \<Rightarrow> chain_db \<Rightarrow> bool \<times> string option \<times> nat \<times> time option" where
  "chain_gate cfg now lin db = (case settings cfg of (m, params, why) \<Rightarrow>
     if m = Off then (False, Some (off_reason why), 0, None)
     else case chain_row lin db of (fires, prev, fused) \<Rightarrow>
       if fused then (False, Some ''fault-fused (explicit reset required)'', fires, None)
       else if chain_limit params \<le> int fires
         then (False, Some ''chain-limit reached (needs human checkpoint)'', fires, None)
       else (case prev of
           Some t \<Rightarrow> if now - t < cooldown_seconds params
             then (False, Some ''cooldown'', fires, Some (cooldown_seconds params - (now - t)))
             else (True, None, fires, None)
         | None \<Rightarrow> (True, None, fires, None)))"

section \<open>The counters\<close>

definition put_chain :: "chain \<Rightarrow> (chain \<Rightarrow> chain) \<Rightarrow> chain_db \<Rightarrow> chain_db" where
  "put_chain new f db = db\<lparr>cd_chains := (case get_by ch_session (ch_session new) (cd_chains db) of
     None \<Rightarrow> cd_chains db @ [new]
   | Some _ \<Rightarrow> upd_where (\<lambda>r. ch_session r = ch_session new) f (cd_chains db))\<rparr>"

definition chain_note :: "time \<Rightarrow> string \<Rightarrow> chain_db \<Rightarrow> chain_db" where
  "chain_note now lin = put_chain
     \<lparr>ch_session = lin, ch_fires = 1, ch_last = Some now, ch_fused = False, ch_fails = 0, ch_updated = Some now\<rparr>
     (\<lambda>r. r\<lparr>ch_fires := ch_fires r + 1, ch_last := Some now, ch_fails := 0, ch_updated := Some now\<rparr>)"

definition fault_fuse :: "time \<Rightarrow> string \<Rightarrow> string \<Rightarrow> chain_db \<Rightarrow> chain_db" where
  "fault_fuse now lin reason db = audit ((audit_entry now ''fuse'')\<lparr>au_resolved := Some lin, au_reason := Some reason\<rparr>)
     (put_chain \<lparr>ch_session = lin, ch_fires = 0, ch_last = None, ch_fused = True, ch_fails = 0, ch_updated = Some now\<rparr>
       (\<lambda>r. r\<lparr>ch_fused := True, ch_updated := Some now\<rparr>) db)"

definition chain_fail :: "time \<Rightarrow> string \<Rightarrow> string \<Rightarrow> chain_db \<Rightarrow> bool \<times> chain_db" where
  "chain_fail now lin reason db = (let db' = put_chain
       \<lparr>ch_session = lin, ch_fires = 0, ch_last = None, ch_fused = False, ch_fails = 1, ch_updated = Some now\<rparr>
       (\<lambda>r. r\<lparr>ch_fails := ch_fails r + 1, ch_updated := Some now\<rparr>) db
     in case get_by ch_session lin (cd_chains db') of
          Some r \<Rightarrow> if 3 \<le> ch_fails r
            then (True, fault_fuse now lin (''3 consecutive failures ('' @ reason @ '')'') db') else (False, db')
        | None \<Rightarrow> (False, db'))"

text \<open>
  \<open>_chain_reset\<close>: a transaction of its own; it only takes effect on the row as it was seen, and
  clears a fuse only when told to.
\<close>

definition chain_reset :: "time \<Rightarrow> string \<Rightarrow> string \<Rightarrow> nat \<Rightarrow> time option \<Rightarrow> bool \<Rightarrow> chain_db \<Rightarrow> bool \<times> chain_db" where
  "chain_reset now lin reason fires prev clear_fuse db =
     (let hit = (\<lambda>r. ch_session r = lin \<and> ch_fires r = fires \<and> ch_last r = prev \<and> (clear_fuse \<or> \<not> ch_fused r))
      in if count_where hit (cd_chains db) \<noteq> 1 then (False, db)
         else (True, audit ((audit_entry now ''chain-reset'')\<lparr>au_resolved := Some lin, au_reason := Some reason, au_chain := Some fires\<rparr>)
           (db\<lparr>cd_chains := upd_where hit (\<lambda>r. r\<lparr>ch_fires := 0, ch_fused := False, ch_fails := 0, ch_updated := Some now\<rparr>)
              (cd_chains db)\<rparr>)))"

definition chain_release :: "time \<Rightarrow> string \<Rightarrow> nat option \<Rightarrow> chain_db \<Rightarrow> bool \<times> chain_db" where
  "chain_release now lin expected db = (case get_by ch_session lin (cd_chains db) of
     None \<Rightarrow> (False, db)
   | Some r \<Rightarrow> if expected \<noteq> None \<and> expected \<noteq> Some (ch_fires r) then (False, db)
       else chain_reset now lin ''admin'' (ch_fires r) (ch_last r) True db)"

section \<open>The human checkpoint\<close>

text \<open>\<open>while text.endswith(CANONICAL_INPUT): text = text[:-len(CANONICAL_INPUT)].strip()\<close>\<close>

lemma py_lstrip_length: "length (py_lstrip s) \<le> length s"
  by (simp add: py_lstrip_def length_dropWhile_le)

lemma py_strip_length: "length (py_strip s) \<le> length s"
  unfolding py_strip_def by (rule order_trans [OF length_py_rstrip py_lstrip_length])

function strip_wakes :: "string \<Rightarrow> string" where
  "strip_wakes t = (case cut_wake t of None \<Rightarrow> t | Some p \<Rightarrow> strip_wakes (py_strip p))"
  by auto
termination
  by (relation "measure length") (auto dest!: cut_wake_shorter intro: le_less_trans [OF py_strip_length])

declare strip_wakes.simps [simp del]

definition human_text :: "string \<Rightarrow> bool" where
  "human_text content = (let text = py_strip content in
     \<not> starts_with CONTENT_PREFIX text \<and> strip_wakes text \<noteq> [])"

definition human_rows :: "string \<Rightarrow> time \<Rightarrow> session_db \<Rightarrow> message list" where
  "human_rows resolved since sdb = filter (\<lambda>m. msg_session m = resolved \<and> msg_role m = ''user''
     \<and> msg_kind m = None \<and> since < msg_time m) (db_messages sdb)"

text \<open>
  The pages of 128 rows from \<open>(since, 0)\<close> on, until a human text or an empty page. One page per row
  is more than enough.
\<close>

definition chain_human_checkpoint :: "session_db option \<Rightarrow> string \<Rightarrow> time \<Rightarrow> bool" where
  "chain_human_checkpoint sdb resolved since = (case sdb of None \<Rightarrow> False
   | Some sdb \<Rightarrow> list_ex (\<lambda>m. human_text (msg_content m))
       (sweep msg_key 128 (Suc (length (db_messages sdb))) (since, 0) (human_rows resolved since sdb)))"

definition checkpoint_if_human :: "time \<Rightarrow> string \<Rightarrow> session_db option \<Rightarrow> string \<Rightarrow> chain_db \<Rightarrow> bool \<times> chain_db" where
  "checkpoint_if_human now lin sdb resolved db = (case get_by ch_session lin (cd_chains db) of
     None \<Rightarrow> (False, db)
   | Some r \<Rightarrow> (case ch_last r of
         None \<Rightarrow> (False, db)
       | Some prev \<Rightarrow>
           if ch_fused r \<or> ch_fires r = 0 then (False, db)
           else if \<not> chain_human_checkpoint sdb resolved prev then (False, db)
           else chain_reset now lin ''human-checkpoint'' (ch_fires r) (Some prev) False db))"

definition chain_gate_checkpoint :: "json option \<Rightarrow> time \<Rightarrow> time \<Rightarrow> time \<Rightarrow> string \<Rightarrow> session_db option \<Rightarrow> string \<Rightarrow> chain_db
    \<Rightarrow> (bool \<times> string option \<times> nat \<times> time option) \<times> chain_db" where
  "chain_gate_checkpoint cfg t1 t2 t3 lin sdb resolved db = (let verdict = chain_gate cfg t1 lin db in
     case fst (snd verdict) of
       Some why \<Rightarrow> if starts_with ''selfwake off'' why \<or> starts_with ''fault-fused'' why then (verdict, db)
         else (let db' = snd (checkpoint_if_human t2 lin sdb resolved db) in (chain_gate cfg t3 lin db', db'))
     | None \<Rightarrow> (let db' = snd (checkpoint_if_human t2 lin sdb resolved db) in (chain_gate cfg t3 lin db', db')))"

text \<open>
  The periodic pass: chains with fires, by session id from a cursor on; \<open>resolve\<close> gives the live
  session of a chain, or raises and is skipped. The next cursor is empty after a short page.
\<close>

definition active_chains :: "string \<Rightarrow> nat \<Rightarrow> chain_db \<Rightarrow> chain list" where
  "active_chains after limit db = take limit (sort_key ch_session
     (filter (\<lambda>r. 0 < ch_fires r \<and> \<not> ch_fused r \<and> ch_last r \<noteq> None \<and> after < ch_session r) (cd_chains db)))"

definition checkpoint_active_chains :: "time \<Rightarrow> session_db option \<Rightarrow> (string \<Rightarrow> string option) \<Rightarrow> string \<Rightarrow> nat \<Rightarrow> chain_db
    \<Rightarrow> string \<times> chain_db" where
  "checkpoint_active_chains now sdb resolve after limit db = (let rows = active_chains after limit db in
     if rows = [] then ([], db)
     else (if length rows = limit then ch_session (last rows) else [],
       fold (\<lambda>r db. case resolve (ch_session r) of None \<Rightarrow> db
          | Some resolved \<Rightarrow> snd (checkpoint_if_human now (ch_session r) sdb resolved db)) rows db))"

section \<open>The root of a lineage\<close>

fun root_walk :: "nat \<Rightarrow> session list \<Rightarrow> string \<Rightarrow> string" where
  "root_walk 0 ss current = current"
| "root_walk (Suc n) ss current = (case get_by ses_id current ss of
     None \<Rightarrow> current
   | Some s \<Rightarrow> (case ses_parent s of None \<Rightarrow> current
       | Some parent \<Rightarrow> (case get_by ses_id parent ss of None \<Rightarrow> current
           | Some p \<Rightarrow> if ses_end_reason p = Some ''compression'' then root_walk n ss parent else current)))"

definition lineage_root :: "session list \<Rightarrow> string \<Rightarrow> string" where
  "lineage_root ss resolved = root_walk 64 ss resolved"

section \<open>The endpoint\<close>

text \<open>
  What the process sees: \<open>getenv\<close> of the environment or the profile's \<open>.env\<close>, the scoped secret, and
  the addresses of this machine.
\<close>

record host_env =
  he_env :: "string \<Rightarrow> string"
  he_secret :: "string \<Rightarrow> string option"
  he_local :: "string \<Rightarrow> bool"

definition own_host :: "host_env \<Rightarrow> string \<Rightarrow> bool" where
  "own_host he host \<longleftrightarrow> host \<in> {''127.0.0.1'', ''localhost'', ''::1'', ''0.0.0.0''} \<or> he_local he host"

text \<open>\<open>(cfg.get("gateway") or {}).get("api_server") or {}\<close>; \<open>None\<close> for a gateway section that has no \<open>get\<close>.\<close>

definition api_section :: "json \<Rightarrow> json option" where
  "api_section c = (case (case jget ''gateway'' c of
       Some g \<Rightarrow> if truthy_value (Some g) then g else JObj [] | None \<Rightarrow> JObj []) of
     JObj kvs \<Rightarrow> Some (case jget ''api_server'' (JObj kvs) of
         Some v \<Rightarrow> if is_obj v then v else JObj [] | None \<Rightarrow> JObj [])
   | _ \<Rightarrow> None)"

definition endpoint_host :: "(json \<Rightarrow> string) \<Rightarrow> host_env \<Rightarrow> json \<Rightarrow> string" where
  "endpoint_host dumps he api = (let host = (case jget ''host'' api of
       Some v \<Rightarrow> if truthy_value (Some v) then (case v of JStr s \<Rightarrow> s | _ \<Rightarrow> dumps v) else he_env he ''API_SERVER_HOST''
     | None \<Rightarrow> he_env he ''API_SERVER_HOST'');
     host = (if host = [] then ''127.0.0.1'' else host)
     in if host = ''0.0.0.0'' then ''127.0.0.1'' else host)"

text \<open>\<open>None\<close> for a value that is not an integer port.\<close>

definition endpoint_port :: "host_env \<Rightarrow> json \<Rightarrow> int option" where
  "endpoint_port he api = (case jget ''port'' api of
     Some (JInt i) \<Rightarrow> Some i
   | None \<Rightarrow> (let raw = he_env he ''API_SERVER_PORT'' in
       if raw \<noteq> [] \<and> list_all is_digit raw then py_int raw else Some 8642)
   | Some JNull \<Rightarrow> (let raw = he_env he ''API_SERVER_PORT'' in
       if raw \<noteq> [] \<and> list_all is_digit raw then py_int raw else Some 8642)
   | Some _ \<Rightarrow> None)"

definition endpoint_key :: "host_env \<Rightarrow> json \<Rightarrow> string" where
  "endpoint_key he api = (case filled_str (jget ''key'' api) of
     Some k \<Rightarrow> k
   | None \<Rightarrow> (case he_secret he ''API_SERVER_KEY'' of
       Some (c # cs) \<Rightarrow> c # cs | _ \<Rightarrow> he_env he ''API_SERVER_KEY''))"

text \<open>\<open>None\<close> when the read raises.\<close>

definition endpoint :: "(json \<Rightarrow> string) \<Rightarrow> (int \<Rightarrow> string) \<Rightarrow> host_env \<Rightarrow> json option
    \<Rightarrow> (string + string \<times> string) option" where
  "endpoint dumps str he cfg = (case cfg of None \<Rightarrow> Some (Inl ''config unavailable'')
   | Some c \<Rightarrow> map_option (\<lambda>api.
       let enabled = truthy_value (jget ''enabled'' api)
             \<or> py_lower (he_env he ''API_SERVER_ENABLED'') \<in> {''1'', ''true'', ''yes'', ''on''};
           host = endpoint_host dumps he api;
           key = endpoint_key he api
       in if \<not> enabled then Inl ''listener disabled''
          else if \<not> own_host he host then Inl ''listener is not loopback''
          else (case endpoint_port he api of
              None \<Rightarrow> Inl ''listener port missing''
            | Some port \<Rightarrow>
                if \<not> (0 < port \<and> port < 65536) then Inl ''listener port missing''
                else if py_strip key = [] then Inl ''listener auth unavailable''
                else Inr (''http://'' @ (if CHR '':'' \<in> set host then ''['' @ host @ '']'' else host) @ '':'' @ str port,
                          ''Bearer '' @ py_strip key))) (api_section c))"

end
