(* ===== verification/Chain_Properties.thy ===== *)
theory Chain_Properties
  imports Self_Wake_Chain
begin

text \<open>
  What the chain fuse promises over the operations of the worker: a fault fuse stays shut until an
  admin resets it, completed wakes use up the chain limit, the human checkpoint finds exactly the
  human texts, and a rotation keeps the session a chain is counted on. The admin reset itself is
  not an operation of these histories.
\<close>

datatype chain_op =
    Note time string
  | Fail time string string
  | Fuse time string string
  | Checkpoint time string "session_db option" string
  | GateCheck "json option" time time time string "session_db option" string
  | Pass time "session_db option" "string \<Rightarrow> string option" string nat

fun chain_step :: "chain_op \<Rightarrow> chain_db \<Rightarrow> chain_db" where
  "chain_step (Note now lin) db = chain_note now lin db"
| "chain_step (Fail now lin reason) db = snd (chain_fail now lin reason db)"
| "chain_step (Fuse now lin reason) db = fault_fuse now lin reason db"
| "chain_step (Checkpoint now lin sdb resolved) db = snd (checkpoint_if_human now lin sdb resolved db)"
| "chain_step (GateCheck cfg t1 t2 t3 lin sdb resolved) db = snd (chain_gate_checkpoint cfg t1 t2 t3 lin sdb resolved db)"
| "chain_step (Pass now sdb resolve after limit) db = snd (checkpoint_active_chains now sdb resolve after limit db)"

definition chain_empty :: chain_db where
  "chain_empty = \<lparr>cd_chains = [], cd_audit = []\<rparr>"

definition chain_history :: "chain_op list \<Rightarrow> chain_db" where
  "chain_history ops = fold chain_step ops chain_empty"

definition fused :: "string \<Rightarrow> chain_db \<Rightarrow> bool" where
  "fused lin db \<longleftrightarrow> (case get_by ch_session lin (cd_chains db) of None \<Rightarrow> False | Some r \<Rightarrow> ch_fused r)"

definition fires_of :: "string \<Rightarrow> chain_db \<Rightarrow> nat" where
  "fires_of lin db = (case get_by ch_session lin (cd_chains db) of None \<Rightarrow> 0 | Some r \<Rightarrow> ch_fires r)"

definition fails_of :: "string \<Rightarrow> chain_db \<Rightarrow> nat" where
  "fails_of lin db = (case get_by ch_session lin (cd_chains db) of None \<Rightarrow> 0 | Some r \<Rightarrow> ch_fails r)"

section \<open>What each operation does to a row\<close>

lemma audit_chains [simp]: "cd_chains (audit e db) = cd_chains db"
  by (simp add: audit_def)

lemma get_put_chain:
  assumes "\<And>r. ch_session (f r) = ch_session r"
  shows "get_by ch_session k (cd_chains (put_chain new f db)) = (if k = ch_session new
     then Some (case get_by ch_session k (cd_chains db) of None \<Rightarrow> new | Some r \<Rightarrow> f r)
     else get_by ch_session k (cd_chains db))"
proof (cases "get_by ch_session (ch_session new) (cd_chains db)")
  case None
  then show ?thesis by (auto simp: put_chain_def table_simps split: option.split)
next
  case (Some r)
  then have "ch_session r = ch_session new" by (auto dest: get_by_SomeD)
  with Some show ?thesis
    by (auto simp: put_chain_def get_by_upd_where assms split: option.split
        intro!: option.map_ident_strong dest: get_by_SomeD)
qed

lemma get_note: "get_by ch_session k (cd_chains (chain_note now lin db)) = (if k = lin
   then Some (case get_by ch_session k (cd_chains db) of
       None \<Rightarrow> \<lparr>ch_session = lin, ch_fires = 1, ch_last = Some now, ch_fused = False, ch_fails = 0, ch_updated = Some now\<rparr>
     | Some r \<Rightarrow> r\<lparr>ch_fires := ch_fires r + 1, ch_last := Some now, ch_fails := 0, ch_updated := Some now\<rparr>)
   else get_by ch_session k (cd_chains db))"
  by (simp add: chain_note_def get_put_chain split: option.split)

lemma get_fuse: "get_by ch_session k (cd_chains (fault_fuse now lin reason db)) = (if k = lin
   then Some (case get_by ch_session k (cd_chains db) of
       None \<Rightarrow> \<lparr>ch_session = lin, ch_fires = 0, ch_last = None, ch_fused = True, ch_fails = 0, ch_updated = Some now\<rparr>
     | Some r \<Rightarrow> r\<lparr>ch_fused := True, ch_updated := Some now\<rparr>)
   else get_by ch_session k (cd_chains db))"
  by (simp add: fault_fuse_def get_put_chain)

lemma fused_note: "fused k (chain_note now lin db) = fused k db"
  by (auto simp: fused_def get_note split: option.split)

lemma fused_fuse: "fused k (fault_fuse now lin reason db) \<longleftrightarrow> k = lin \<or> fused k db"
  by (auto simp: fused_def get_fuse split: option.split)

lemma chain_fail_facts:
  "fails_of lin (snd (chain_fail now lin reason db)) = fails_of lin db + 1"
  "fires_of k (snd (chain_fail now lin reason db)) = fires_of k db"
  "fused k (snd (chain_fail now lin reason db)) \<longleftrightarrow> fused k db \<or> (k = lin \<and> 2 \<le> fails_of lin db)"
  by (auto simp: chain_fail_def Let_def fails_of_def fires_of_def fused_def get_put_chain get_fuse split: option.split)

lemma fires_note: "fires_of k (chain_note now lin db) = (if k = lin then fires_of k db + 1 else fires_of k db)"
  by (auto simp: fires_of_def get_note split: option.split)

lemma fires_fuse: "fires_of k (fault_fuse now lin reason db) = fires_of k db"
  by (auto simp: fires_of_def get_fuse split: option.split)

text \<open>A reset that may not clear a fuse leaves every fused row fused.\<close>

lemma fused_reset: "fused k db \<Longrightarrow> fused k (snd (chain_reset now lin reason fires prev False db))"
proof -
  assume f: "fused k db"
  then obtain r where r: "get_by ch_session k (cd_chains db) = Some r" "ch_fused r"
    by (auto simp: fused_def split: option.splits)
  let ?f = "\<lambda>r. r\<lparr>ch_fires := 0, ch_fused := False, ch_fails := 0, ch_updated := Some now\<rparr>"
  have "get_by ch_session k (upd_where (\<lambda>r. ch_session r = lin \<and> ch_fires r = fires \<and> ch_last r = prev \<and> (False \<or> \<not> ch_fused r)) ?f (cd_chains db))
     = Some r"
    using r by (simp add: get_by_upd_where)
  then show ?thesis using f r by (simp add: chain_reset_def Let_def fused_def)
qed

lemma fused_checkpoint: "fused k db \<Longrightarrow> fused k (snd (checkpoint_if_human now lin sdb resolved db))"
  by (auto simp: checkpoint_if_human_def intro: fused_reset split: option.split)

lemma fused_step: "fused k db \<Longrightarrow> fused k (chain_step op db)"
proof (cases op)
  case (GateCheck cfg t1 t2 t3 lin sdb resolved)
  assume "fused k db"
  then show ?thesis using GateCheck fused_checkpoint [of k db]
    by (simp add: chain_gate_checkpoint_def Let_def split: option.split)
next
  case (Pass now sdb resolve after limit)
  have f: "fused k db \<Longrightarrow> fused k (fold (\<lambda>r db. case resolve (ch_session r) of None \<Rightarrow> db
          | Some resolved \<Rightarrow> snd (checkpoint_if_human now (ch_session r) sdb resolved db)) rows db)" for rows db
    by (induction rows arbitrary: db) (auto intro: fused_checkpoint split: option.split)
  assume "fused k db"
  then show ?thesis using Pass f [of db "active_chains after limit db"]
    by (simp add: checkpoint_active_chains_def Let_def)
qed (auto simp: fused_note fused_fuse chain_fail_facts intro: fused_checkpoint)

interpretation cs: sealing_store chain_step "\<lambda>_. True" fused
  by unfold_locales (auto intro: fused_step)

text \<open>The gate against a fused chain.\<close>

lemma gate_fused: "fused lin db \<Longrightarrow> \<not> fst (chain_gate cfg now lin db)"
  by (auto simp: chain_gate_def chain_row_def fused_def split: prod.split option.splits)

section \<open>Properties\<close>

text \<open>
  C17. Three failures in a row shut a chain for good: whatever happened before, and whatever the
  worker does afterwards, human checkpoints and completed runs included, the gate of that lineage
  stays closed under every configuration and at every time.
\<close>

theorem chain_fault_fuse_stays_shut:
  "\<not> fst (chain_gate cfg now lin (fold chain_step later
      (chain_history (earlier @ [Fail t1 lin r1, Fail t2 lin r2, Fail t3 lin r3]))))"
proof -
  let ?db = "chain_history earlier"
  have "fused lin (chain_history (earlier @ [Fail t1 lin r1, Fail t2 lin r2, Fail t3 lin r3]))"
    by (simp add: chain_history_def chain_fail_facts)
  then show ?thesis by (intro gate_fused cs.run_sealed) simp_all
qed

section \<open>The budget of a chain\<close>

fun counting :: "chain_op \<Rightarrow> bool" where
  "counting (Note _ _) = True"
| "counting (Fail _ _ _) = True"
| "counting (Fuse _ _ _) = True"
| "counting _ = False"

definition gated_note :: "json option \<Rightarrow> string \<Rightarrow> chain_op \<Rightarrow> chain_db \<Rightarrow> bool" where
  "gated_note cfg lin op db = (case op of Note now l \<Rightarrow> l = lin \<and> fst (chain_gate cfg now lin db) | _ \<Rightarrow> False)"

lemma gate_below_limit:
  "fst (chain_gate cfg now lin db) \<Longrightarrow> settings cfg = (m, params, why) \<Longrightarrow> int (fires_of lin db) < chain_limit params"
  by (auto simp: chain_gate_def chain_row_def fires_of_def split: prod.splits option.splits if_splits)

lemma fires_counting: "counting op \<Longrightarrow> fires_of lin (chain_step op db)
   = fires_of lin db + (case op of Note now l \<Rightarrow> if l = lin then 1 else 0 | _ \<Rightarrow> 0)"
  by (cases op) (auto simp: fires_note fires_fuse chain_fail_facts)

lemma chain_budget_from:
  "list_all counting ops \<Longrightarrow> settings cfg = (m, params, why) \<Longrightarrow>
   int (wins_along chain_step (gated_note cfg lin) ops db) \<le> max 0 (chain_limit params - int (fires_of lin db))"
proof (induction ops arbitrary: db)
  case (Cons op ops)
  then have IH: "int (wins_along chain_step (gated_note cfg lin) ops (chain_step op db))
      \<le> max 0 (chain_limit params - int (fires_of lin (chain_step op db)))" by simp
  have c: "counting op" using Cons.prems by simp
  show ?case
  proof (cases "gated_note cfg lin op db")
    case True
    then obtain now where op: "op = Note now lin" and g: "fst (chain_gate cfg now lin db)"
      by (auto simp: gated_note_def split: chain_op.splits)
    have "fires_of lin (chain_step op db) = fires_of lin db + 1" using op by (simp add: fires_note)
    then show ?thesis using IH True gate_below_limit [OF g Cons.prems(2)] by simp
  next
    case False
    have "fires_of lin db \<le> fires_of lin (chain_step op db)" using fires_counting [OF c, of lin db] by simp
    then show ?thesis using IH False by simp
  qed
qed simp

text \<open>
  The chain limit is a budget: without a reset, the completed wakes of a lineage that passed the
  gate number at most the configured limit, over any sequence of wakes, failures and fuses.
\<close>

theorem chain_limit_is_budget:
  assumes "list_all counting ops" and "settings cfg = (On, params, None)"
  shows "int (wins_along chain_step (gated_note cfg lin) ops (chain_history earlier))
    \<le> max 0 (chain_limit params - int (fires_of lin (chain_history earlier)))"
  by (rule chain_budget_from [OF assms])

lemma demo_settings: "settings (Some (JObj [(''wake'', JObj [(''selfwake'', JBool True)])])) = (On, default_params, None)"
  by (simp add: settings_def default_params_def)

theorem chain_limit_is_budget_witness:
  "wins_along chain_step (gated_note (Some (JObj [(''wake'', JObj [(''selfwake'', JBool True)])])) ''s'')
     [Note 100 ''s'', Note 200 ''s'', Note 300 ''s'', Note 400 ''s'', Note 500 ''s''] (chain_history []) \<le> 3"
  using chain_limit_is_budget [OF _ demo_settings,
      of "[Note 100 ''s'', Note 200 ''s'', Note 300 ''s'', Note 400 ''s'', Note 500 ''s'']" "''s''" "[]"]
  by (simp add: default_params_def chain_history_def chain_empty_def fires_of_def table_simps
      del: chain_step.simps wins_along.simps)

section \<open>The human checkpoint\<close>

lemma human_sweep:
  assumes "distinct (map msg_key (db_messages sdb))"
  shows "set (sweep msg_key 128 (Suc (length (db_messages sdb))) (since, 0) (human_rows resolved since sdb))
    = set (human_rows resolved since sdb)"
proof -
  let ?rows = "human_rows resolved since sdb"
  have d: "distinct (map msg_key ?rows)"
    using assms by (simp add: human_rows_def distinct_map inj_on_def)
  have "length (filter (\<lambda>r. (since, 0) < msg_key r) ?rows) < Suc (length (db_messages sdb))"
    using length_filter_le [of "\<lambda>r. (since, 0) < msg_key r" ?rows] length_filter_le [of _ "db_messages sdb"]
    unfolding human_rows_def by (meson le_trans less_Suc_eq_le)
  from sweep_complete [OF d _ this, of 128] show ?thesis
    by (auto simp: human_rows_def less_prod_simp)
qed

text \<open>
  A chain is reopened exactly by a human: the checkpoint holds when, and only when, the session
  has a plain user message later than the last wake whose text is not a notification and not only
  the inputs of wakes, however many pages of messages that takes.
\<close>

theorem human_checkpoint_exact:
  assumes "distinct (map msg_key (db_messages sdb))"
  shows "chain_human_checkpoint (Some sdb) resolved since \<longleftrightarrow>
    (\<exists>m. m \<in> set (db_messages sdb) \<and> msg_session m = resolved \<and> msg_role m = ''user'' \<and> msg_kind m = None
      \<and> since < msg_time m \<and> human_text (msg_content m))"
  using human_sweep [OF assms]
  by (auto simp: chain_human_checkpoint_def list_ex_iff human_rows_def)

theorem human_checkpoint_exact_witness:
  "chain_human_checkpoint (Some \<lparr>db_sessions = [], db_messages = [\<lparr>msg_id = 1, msg_session = ''s'', msg_role = ''user'',
     msg_kind = None, msg_meta = None, msg_content = ''ok'', msg_time = 5\<rparr>], db_leases = []\<rparr>) ''s'' 3"
proof -
  let ?m = "\<lparr>msg_id = 1, msg_session = ''s'', msg_role = ''user'', msg_kind = None, msg_meta = None,
     msg_content = ''ok'', msg_time = 5\<rparr>"
  have "human_text (msg_content ?m)"
    by (simp add: human_text_def py_strip_def py_lstrip_def py_rstrip_def py_space_def starts_with_def
        CONTENT_PREFIX_def strip_wakes.simps [of "''ok''"] cut_wake_def ends_with_def CANONICAL_INPUT_def)
  then show ?thesis
    using human_checkpoint_exact [of "\<lparr>db_sessions = [], db_messages = [?m], db_leases = []\<rparr>" "''s''" 3] by auto
qed

end
