(* ===== verification/Wake_Reconcile.thy ===== *)
theory Wake_Reconcile
  imports Self_Wake_Chain Wake_Properties
begin

text \<open>
  \<open>compat/wake_reconcile.py\<close>: the settlement of batches that were left unclosed. A batch is only
  settled on evidence: a run snapshot that proves a terminal state, or, for an operator, closed
  intents for every key. The ledger, the table \<open>wake_reconciliations\<close> and the audit row change in
  one transaction; the bridge is only read.
\<close>

section \<open>Candidates\<close>

text \<open>\<open>owner LIKE 'self:%'\<close>: the comparison of SQLite ignores the case of ASCII letters.\<close>

definition own_batch :: "batch \<Rightarrow> bool" where
  "own_batch b \<longleftrightarrow> (case wb_owner b of None \<Rightarrow> False | Some w \<Rightarrow> starts_with ''self:'' (py_lower w))"

definition unclosed :: "wake_state set" where
  "unclosed = {Reserved, Dispatching, RunAccepted}"

text \<open>\<open>None\<close> when more than 32 batches are named.\<close>

definition batch_candidates :: "string \<Rightarrow> nat \<Rightarrow> string list option \<Rightarrow> wake_ledger \<Rightarrow> batch list option" where
  "batch_candidates after limit ids st = (let
       pick = (\<lambda>P. take (max 1 (min limit 32)) (sort_key wb_id
         (filter (\<lambda>b. wb_state b \<in> unclosed \<and> own_batch b \<and> after < wb_id b \<and> P b) (wl_batches st))))
     in case ids of
       None \<Rightarrow> Some (pick (\<lambda>_. True))
     | Some xs \<Rightarrow> if xs = [] then Some [] else if 32 < length xs then None
         else Some (pick (\<lambda>b. wb_id b \<in> set xs)))"

section \<open>Evidence\<close>

datatype proof_kind = RunTerminal | DoneIntents

record settle_proof =
  pf_kind :: proof_kind
  pf_status :: string
  pf_at :: time
  pf_target :: wake_state
  pf_intents :: "(string \<times> intent_state \<times> time) list"

fun json_number :: "json option \<Rightarrow> real option" where
  "json_number (Some (JInt i)) = Some (of_int i)"
| "json_number (Some (JReal r)) = Some r"
| "json_number _ = None"

definition TERMINAL_STATUSES :: "string list" where
  "TERMINAL_STATUSES = [''completed'', ''failed'', ''cancelled'']"

definition run_proof :: "time \<Rightarrow> batch \<Rightarrow> json option \<Rightarrow> settle_proof option" where
  "run_proof now b snapshot = (case snapshot of None \<Rightarrow> None
   | Some s \<Rightarrow> if \<not> is_obj s then None
       else (case (wb_run b, jget ''status'' s, json_number (jget ''updated_at'' s)) of
         (Some r, Some (JStr status), Some stamp) \<Rightarrow>
           if r = [] \<or> jget ''run_id'' s \<noteq> Some (JStr r) \<or> jget ''session_id'' s \<noteq> Some (JStr (wb_session b))
              \<or> status \<notin> set TERMINAL_STATUSES \<or> stamp < wb_created b \<or> now + 30 < stamp
           then None
           else Some \<lparr>pf_kind = RunTerminal, pf_status = status, pf_at = stamp, pf_target = Terminal, pf_intents = []\<rparr>
       | _ \<Rightarrow> None))"

text \<open>
  Every key of the batch consumed by it, and every key's intent closed under it. The bridge is
  \<^const>\<open>None\<close> when its file does not exist.
\<close>

definition done_intent_evidence :: "string \<Rightarrow> time \<Rightarrow> bridge option \<Rightarrow> wake_ledger \<Rightarrow> batch \<Rightarrow> settle_proof option" where
  "done_intent_evidence home now br st b = (case br of None \<Rightarrow> None
   | Some br \<Rightarrow> (let keys = wb_keys b;
         claims = filter (\<lambda>c. wc_batch c = Some (wb_id b)) (wl_rows st);
         rows = sort_key in_key (filter (\<lambda>i. in_batch i = Some (wb_id b)) (br_intents br))
       in if keys = [] \<or> \<not> distinct keys then None
          else if set (map wc_key claims) \<noteq> set keys
            \<or> list_ex (\<lambda>c. wc_session c \<noteq> wb_session b \<or> wc_state c \<noteq> Consumed \<or> wc_ignored c) claims then None
          else if set (map in_key rows) \<noteq> set keys
            \<or> list_ex (\<lambda>i. in_state i \<noteq> Done \<or> in_home i \<noteq> home \<or> in_session i \<noteq> wb_session b
                \<or> in_updated i < wb_created b \<or> now + 30 < in_updated i) rows then None
          else Some \<lparr>pf_kind = DoneIntents, pf_status = ''done'', pf_at = Max (set (map in_updated rows)),
              pf_target = Uncertain, pf_intents = map (\<lambda>i. (in_key i, in_state i, in_updated i)) rows\<rparr>))"

section \<open>Settlement\<close>

record reconciliation =
  rw_batch :: string
  rw_prior :: wake_state
  rw_run :: "string option"
  rw_kind :: proof_kind
  rw_status :: string
  rw_terminal :: time
  rw_made :: time
  rw_details :: settle_proof

text \<open>What one settlement transaction sees and writes.\<close>

record settle_db =
  sd_ledger :: wake_ledger
  sd_settled :: "reconciliation list"
  sd_chain :: chain_db

datatype settle_result = Unresolved | Planned | SettleConflict | Settled

fun wake_state_name :: "wake_state \<Rightarrow> string" where
  "wake_state_name Reserved = ''reserved''"
| "wake_state_name Dispatching = ''dispatching''"
| "wake_state_name RunAccepted = ''accepted''"
| "wake_state_name Terminal = ''terminal''"
| "wake_state_name Uncertain = ''uncertain-consumed''"
| "wake_state_name Released = ''released''"

fun proof_name :: "proof_kind \<Rightarrow> string" where
  "proof_name RunTerminal = ''run-terminal''"
| "proof_name DoneIntents = ''done-intents''"

definition same_snapshot :: "batch \<Rightarrow> batch \<Rightarrow> bool" where
  "same_snapshot c b \<longleftrightarrow> wb_state c = wb_state b \<and> wb_run c = wb_run b \<and> wb_session c = wb_session b
     \<and> wb_owner c = wb_owner b \<and> wb_updated c = wb_updated b \<and> wb_keys c = wb_keys b \<and> wb_created c = wb_created b"

definition settle_write :: "time \<Rightarrow> batch \<Rightarrow> settle_proof \<Rightarrow> settle_db \<Rightarrow> settle_db" where
  "settle_write now b pf db = db\<lparr>
     sd_ledger := (sd_ledger db)\<lparr>wl_batches := upd_where (\<lambda>x. wb_id x = wb_id b)
       (\<lambda>x. x\<lparr>wb_state := pf_target pf, wb_terminal := Some (pf_at pf), wb_updated := now,
              wb_reason := Some (''reconciled-'' @ proof_name (pf_kind pf))\<rparr>) (wl_batches (sd_ledger db))\<rparr>,
     sd_settled := sd_settled db @ [\<lparr>rw_batch = wb_id b, rw_prior = wb_state b, rw_run = wb_run b, rw_kind = pf_kind pf,
       rw_status = pf_status pf, rw_terminal = pf_at pf, rw_made = now, rw_details = pf\<rparr>],
     sd_chain := audit ((audit_entry now ''reconcile'')\<lparr>au_resolved := Some (wb_session b), au_batch := Some (wb_id b),
       au_run := wb_run b, au_from := Some (wake_state_name (wb_state b)), au_to := Some (wake_state_name (pf_target pf)),
       au_reason := Some (''proved-'' @ proof_name (pf_kind pf))\<rparr>) (sd_chain db)\<rparr>"

text \<open>
  \<open>_settle\<close>; \<^const>\<open>None\<close> when the primary key of \<open>wake_reconciliations\<close> is taken, which rolls the
  transaction back. \<open>now\<close> stamps the rows, \<open>now'\<close> is read again for the evidence.
\<close>

definition settle :: "string \<Rightarrow> time \<Rightarrow> time \<Rightarrow> bridge option \<Rightarrow> batch \<Rightarrow> settle_proof \<Rightarrow> settle_db
    \<Rightarrow> (settle_result \<times> settle_db) option" where
  "settle home now now' br b pf db = (case get_by wb_id (wb_id b) (wl_batches (sd_ledger db)) of
     None \<Rightarrow> Some (SettleConflict, db)
   | Some c \<Rightarrow>
       if \<not> same_snapshot c b then Some (SettleConflict, db)
       else if pf_kind pf = DoneIntents \<and> done_intent_evidence home now' br (sd_ledger db) b \<noteq> Some pf
         then Some (SettleConflict, db)
       else if get_by rw_batch (wb_id b) (sd_settled db) \<noteq> None then None
       else Some (Settled, settle_write now b pf db))"

text \<open>One row of the report: the batch as it was read, the result, the proof.\<close>

type_synonym settle_row = "batch \<times> settle_result \<times> settle_proof option"

definition settle_proof_for :: "string \<Rightarrow> time \<Rightarrow> bridge option \<Rightarrow> (batch \<Rightarrow> json option) \<Rightarrow> bool \<Rightarrow> wake_ledger \<Rightarrow> batch
    \<Rightarrow> settle_proof option" where
  "settle_proof_for home now br observe allow st b = (case
       (if wb_run b \<noteq> None \<and> wb_run b \<noteq> Some [] then run_proof now b (observe b) else None) of
     Some pf \<Rightarrow> Some pf
   | None \<Rightarrow> if allow then done_intent_evidence home now br st b else None)"

fun settle_batches :: "string \<Rightarrow> time \<Rightarrow> bridge option \<Rightarrow> (batch \<Rightarrow> json option) \<Rightarrow> bool \<Rightarrow> bool \<Rightarrow> batch list \<Rightarrow> settle_db
    \<Rightarrow> settle_row list option \<times> settle_db" where
  "settle_batches home now br observe dry allow [] db = (Some [], db)"
| "settle_batches home now br observe dry allow (b # bs) db =
     (case settle_proof_for home now br observe allow (sd_ledger db) b of
       None \<Rightarrow> (case settle_batches home now br observe dry allow bs db of
           (rows, db') \<Rightarrow> (map_option ((#) (b, Unresolved, None)) rows, db'))
     | Some pf \<Rightarrow>
         if dry then (case settle_batches home now br observe dry allow bs db of
           (rows, db') \<Rightarrow> (map_option ((#) (b, Planned, Some pf)) rows, db'))
         else (case settle home now now br b pf db of
           None \<Rightarrow> (None, db)
         | Some (r, db1) \<Rightarrow> (case settle_batches home now br observe dry allow bs db1 of
             (rows, db') \<Rightarrow> (map_option ((#) (b, r, Some pf)) rows, db'))))"

text \<open>
  \<^const>\<open>None\<close> for the rows: the call raised (too many ids, or a settlement row already there). The
  clock is read once for the whole call. An observer that raises gives \<^const>\<open>None\<close>.
\<close>

definition reconcile_batches :: "string \<Rightarrow> time \<Rightarrow> bridge option \<Rightarrow> (batch \<Rightarrow> json option) \<Rightarrow> bool \<Rightarrow> string \<Rightarrow> nat
    \<Rightarrow> string list option \<Rightarrow> bool \<Rightarrow> settle_db \<Rightarrow> (settle_row list \<times> string) option \<times> settle_db" where
  "reconcile_batches home now br observe dry after limit ids allow db =
     (case batch_candidates after limit ids (sd_ledger db) of
       None \<Rightarrow> (None, db)
     | Some batches \<Rightarrow> (case settle_batches home now br observe dry allow batches db of
         (rows, db') \<Rightarrow> (if length batches = limit \<and> batches = [] then None
           else map_option (\<lambda>rs. (rs, if length batches = limit then wb_id (last batches) else [])) rows, db')))"

section \<open>What a settlement may touch\<close>

definition settled_from :: "string \<Rightarrow> time \<Rightarrow> bridge option \<Rightarrow> (batch \<Rightarrow> json option) \<Rightarrow> bool \<Rightarrow> wake_ledger \<Rightarrow> batch \<Rightarrow> batch
    \<Rightarrow> bool" where
  "settled_from home now br observe allow st b b' \<longleftrightarrow> b' = b \<or>
     (wb_state b \<in> unclosed \<and> own_batch b \<and> same_batch b b' \<and> wb_run b' = wb_run b
      \<and> (wb_state b' = Terminal \<and> run_proof now b (observe b) \<noteq> None
         \<or> wb_state b' = Uncertain \<and> allow \<and> done_intent_evidence home now br st b \<noteq> None))"

lemma settled_from_refl: "settled_from home now br observe allow st b b"
  by (simp add: settled_from_def)

lemma settled_from_id: "settled_from home now br observe allow st b b' \<Longrightarrow> wb_id b' = wb_id b"
  by (auto simp: settled_from_def same_batch_def)

lemma settled_from_ids: "list_all2 (settled_from home now br observe allow st) bs bs' \<Longrightarrow> map wb_id bs' = map wb_id bs"
  by (induction rule: list_all2_induct) (auto dest: settled_from_id)

lemma evidence_rows: "wl_rows st' = wl_rows st \<Longrightarrow> done_intent_evidence home now br st' b = done_intent_evidence home now br st b"
  unfolding done_intent_evidence_def by (simp only:)

lemma proof_kinds:
  "run_proof now b s = Some pf \<Longrightarrow> pf_kind pf = RunTerminal \<and> pf_target pf = Terminal"
  "done_intent_evidence home now br st b = Some pf \<Longrightarrow> pf_kind pf = DoneIntents \<and> pf_target pf = Uncertain"
  by (auto simp: run_proof_def done_intent_evidence_def Let_def split: option.splits if_splits json.splits)

lemma proof_for_target:
  assumes "settle_proof_for home now br observe allow st b = Some pf"
  shows "(pf_target pf = Terminal \<and> run_proof now b (observe b) \<noteq> None)
    \<or> (pf_target pf = Uncertain \<and> allow \<and> done_intent_evidence home now br st b \<noteq> None)"
  using assms by (auto simp: settle_proof_for_def proof_kinds split: option.splits if_splits dest: proof_kinds)

text \<open>What the calls keep, against the state \<open>base\<close> in which the candidates were read.\<close>

definition settle_inv :: "string \<Rightarrow> time \<Rightarrow> bridge option \<Rightarrow> (batch \<Rightarrow> json option) \<Rightarrow> bool \<Rightarrow> wake_ledger \<Rightarrow> wake_ledger \<Rightarrow> bool" where
  "settle_inv home now br observe allow base st \<longleftrightarrow> wl_rows st = wl_rows base
     \<and> list_all2 (settled_from home now br observe allow base) (wl_batches base) (wl_batches st)"

lemma settle_inv_write:
  assumes d: "distinct (map wb_id (wl_batches base))"
    and b: "b \<in> set (wl_batches base)" "wb_state b \<in> unclosed" "own_batch b"
    and inv: "settle_inv home now br observe allow base (sd_ledger db)"
    and pf: "settle_proof_for home now br observe allow (sd_ledger db) b = Some pf"
    and c: "get_by wb_id (wb_id b) (wl_batches (sd_ledger db)) = Some c" "same_snapshot c b"
  shows "settle_inv home now br observe allow base (sd_ledger (settle_write now b pf db))"
proof -
  let ?bs = "wl_batches (sd_ledger db)"
  let ?new = "\<lambda>x. x\<lparr>wb_state := pf_target pf, wb_terminal := Some (pf_at pf), wb_updated := now,
      wb_reason := Some (''reconciled-'' @ proof_name (pf_kind pf))\<rparr>"
  have rows: "wl_rows (sd_ledger db) = wl_rows base" and
    rel: "list_all2 (settled_from home now br observe allow base) (wl_batches base) ?bs"
    using inv by (simp_all add: settle_inv_def)
  have d': "distinct (map wb_id ?bs)" using d settled_from_ids [OF rel] by simp
  have t: "(pf_target pf = Terminal \<and> run_proof now b (observe b) \<noteq> None)
    \<or> (pf_target pf = Uncertain \<and> allow \<and> done_intent_evidence home now br base b \<noteq> None)"
    using proof_for_target [OF pf] evidence_rows [OF rows] by simp
  have "list_all2 (\<lambda>z y. settled_from home now br observe allow base z (if wb_id y = wb_id b then ?new y else y))
      (wl_batches base) ?bs"
  proof (rule list.rel_mono_strong [OF rel])
    fix z y assume zy: "z \<in> set (wl_batches base)" "y \<in> set ?bs" "settled_from home now br observe allow base z y"
    show "settled_from home now br observe allow base z (if wb_id y = wb_id b then ?new y else y)"
    proof (cases "wb_id y = wb_id b")
      case True
      then have "y = c" using c(1) zy(2) get_by_eq [OF d' zy(2)] by simp
      then have "wb_state y \<in> unclosed" using c(2) b(2) by (simp add: same_snapshot_def)
      then have "y = z" using zy(3) by (auto simp: settled_from_def unclosed_def)
      moreover have "z = b" using distinct_key_inj [OF d zy(1) b(1)] True \<open>y = z\<close> by simp
      ultimately show ?thesis using True b t by (auto simp: settled_from_def same_batch_def)
    qed (use zy in simp)
  qed
  moreover have "wl_batches (sd_ledger (settle_write now b pf db)) = map (\<lambda>y. if wb_id y = wb_id b then ?new y else y) ?bs"
    "wl_rows (sd_ledger (settle_write now b pf db)) = wl_rows base"
    by (simp_all add: settle_write_def upd_where_def rows)
  ultimately show ?thesis by (simp only: settle_inv_def list_all2_map2)
qed

lemma settle_dry: "snd (settle_batches home now br observe True allow bs db) = db"
  by (induction bs arbitrary: db) (simp_all add: split_beta split: option.split)

lemma settle_inv_batches:
  assumes d: "distinct (map wb_id (wl_batches base))"
  shows "set bs \<subseteq> {b \<in> set (wl_batches base). wb_state b \<in> unclosed \<and> own_batch b} \<Longrightarrow>
    settle_inv home now br observe allow base (sd_ledger db) \<Longrightarrow>
    settle_inv home now br observe allow base (sd_ledger (snd (settle_batches home now br observe dry allow bs db)))"
proof (induction bs arbitrary: db)
  case (Cons b bs)
  let ?inv = "\<lambda>db. settle_inv home now br observe allow base (sd_ledger db)"
  have IH: "?inv db \<Longrightarrow> settle_batches home now br observe dry allow bs db = (rows, db') \<Longrightarrow> ?inv db'" for db rows db'
    using Cons.IH [of db] Cons.prems(1) by simp
  have st: "?inv db1" if "settle_proof_for home now br observe allow (sd_ledger db) b = Some pf"
      "settle home now now br b pf db = Some (r, db1)" for pf r db1
    using that Cons.prems settle_inv_write [OF d _ _ _ Cons.prems(2) that(1)]
    by (auto simp: settle_def split: option.splits if_splits)
  show ?case using Cons.prems(2)
    by (auto split: prod.split option.split intro: IH st)
qed simp

lemma candidates_own:
  "batch_candidates after limit ids st = Some bs \<Longrightarrow> set bs \<subseteq> {b \<in> set (wl_batches st). wb_state b \<in> unclosed \<and> own_batch b}"
  by (auto simp: batch_candidates_def split: option.splits if_splits dest!: in_set_takeD)

lemma wf_settle_inv:
  assumes wf: "wake_wf base" and inv: "settle_inv home now br observe allow base st"
  shows "wake_wf st"
proof -
  have rel: "list_all2 (settled_from home now br observe allow base) (wl_batches base) (wl_batches st)"
    and rows: "wl_rows st = wl_rows base" using inv by (simp_all add: settle_inv_def)
  have ids: "map wb_id (wl_batches st) = map wb_id (wl_batches base)" by (rule settled_from_ids [OF rel])
  have fwd: "\<exists>b' \<in> set (wl_batches st). settled_from home now br observe allow base b b'" if "b \<in> set (wl_batches base)" for b
    using rel that by (metis list_all2_conv_all_nth in_set_conv_nth)
  have bwd: "\<exists>b \<in> set (wl_batches base). settled_from home now br observe allow base b b'" if "b' \<in> set (wl_batches st)" for b'
    using rel that by (metis list_all2_conv_all_nth in_set_conv_nth)
  have "batch_shape b' \<and> keys_held (wl_rows st) b'" if m: "b' \<in> set (wl_batches st)" for b'
  proof -
    obtain b where b: "b \<in> set (wl_batches base)" "settled_from home now br observe allow base b b'" using bwd [OF m] by blast
    then have w: "batch_shape b" "keys_held (wl_rows st) b" using wf rows by (auto simp: wake_wf_def)
    from b(2) consider "b' = b"
      | "same_batch b b'" "wb_state b \<noteq> Released" "wb_state b' = Terminal \<or> wb_state b' = Uncertain"
      by (auto simp: settled_from_def unclosed_def)
    then show ?thesis
    proof cases
      case 2
      then have "batch_shape b'" using w(1) unfolding batch_shape_def same_batch_def by (elim disjE) simp_all
      moreover have "keys_held (wl_rows st) b'" using w(2) 2 unfolding keys_held_def same_batch_def by simp
      ultimately show ?thesis ..
    qed (use w in simp)
  qed
  moreover have "row_linked (wl_batches st) c" if m: "c \<in> set (wl_rows st)" for c
  proof (cases "wc_batch c")
    case None
    then show ?thesis using wf m rows by (auto simp: wake_wf_def row_linked_def)
  next
    case (Some i)
    then obtain b where b: "b \<in> set (wl_batches base)" "wb_id b = i" "wb_state b \<noteq> Released" "wc_key c \<in> set (wb_keys b)"
      "\<not> wc_ignored c" "wc_state c = Consumed" using row_live [OF wf _ Some] m rows by auto
    then obtain b' where "b' \<in> set (wl_batches st)" "settled_from home now br observe allow base b b'" using fwd by blast
    moreover from this(2) b have "wb_id b' = i" "wb_state b' \<noteq> Released" "wc_key c \<in> set (wb_keys b')"
      by (auto simp: settled_from_def same_batch_def)
    ultimately show ?thesis using b(5,6) Some unfolding row_linked_def by auto
  qed
  ultimately show ?thesis using wf ids rows by (simp add: wake_wf_def)
qed

lemma settlement_inv:
  assumes "wake_wf (sd_ledger db)"
  shows "settle_inv home now br observe allow (sd_ledger db)
    (sd_ledger (snd (reconcile_batches home now br observe dry after limit ids allow db)))"
proof -
  let ?base = "sd_ledger db"
  have d: "distinct (map wb_id (wl_batches ?base))" using assms by (simp add: wake_wf_def)
  have start: "settle_inv home now br observe allow ?base ?base"
    by (simp add: settle_inv_def list.rel_refl settled_from_refl)
  show ?thesis
  proof (cases "batch_candidates after limit ids ?base")
    case None
    then show ?thesis using start by (simp add: reconcile_batches_def)
  next
    case (Some bs)
    have "settle_inv home now br observe allow ?base
        (sd_ledger (snd (settle_batches home now br observe dry allow bs db)))"
      by (rule settle_inv_batches [OF d candidates_own [OF Some] start])
    then show ?thesis by (simp add: reconcile_batches_def Some split_beta)
  qed
qed

section \<open>Property\<close>

text \<open>
  C21. A settlement needs evidence: a call of \<open>reconcile_batches\<close>, whatever ids and cursor it is given,
  changes only unclosed batches the worker owns, closes each as terminal on a run snapshot that
  proves it or, when the operator allows it, as uncertain on closed intents, keeps the consumption
  of every key and the invariant of the ledger; and a dry run writes nothing.
\<close>

theorem settlement_needs_proof:
  assumes "wake_wf (sd_ledger db)"
  shows "list_all2 (settled_from home now br observe allow (sd_ledger db)) (wl_batches (sd_ledger db))
      (wl_batches (sd_ledger (snd (reconcile_batches home now br observe dry after limit ids allow db))))
    \<and> wl_rows (sd_ledger (snd (reconcile_batches home now br observe dry after limit ids allow db))) = wl_rows (sd_ledger db)
    \<and> wake_wf (sd_ledger (snd (reconcile_batches home now br observe dry after limit ids allow db)))
    \<and> snd (reconcile_batches home now br observe True after limit ids allow db) = db"
proof -
  note inv = settlement_inv [OF assms, of home now br observe allow dry after limit ids]
  have "snd (reconcile_batches home now br observe True after limit ids allow db) = db"
    using settle_dry [of home now br observe allow _ db]
    by (auto simp: reconcile_batches_def split: option.split prod.split) (metis snd_conv)
  then show ?thesis using inv wf_settle_inv [OF assms inv] by (simp add: settle_inv_def)
qed

theorem settlement_needs_proof_witness:
  "\<exists>db b. wl_batches (sd_ledger db) = [b] \<and> wb_owner b = Some ''self:1'' \<and> list_all2 (settled_from ''h'' 200 None (\<lambda>_. None) True (sd_ledger db)) [b]
     (wl_batches (sd_ledger (snd (reconcile_batches ''h'' 200 None (\<lambda>_. None) False [] 4 None True db))))"
proof -
  obtain q st where a: "admit demo_env 100 ''wb_1'' ''s'' [demo_key] (Some ''self:1'') wake_empty
      = (Admitted ''wb_1'' [(demo_key, 7)] [] [] q, st)"
    and b: "wl_batches st = [new_batch ''wb_1'' ''s'' [demo_key] 100 (Some ''self:1'')]"
    using demo_admit_answer by blast
  have wf: "wake_wf st"
    using wf_wake_admit [OF wake_wf_empty, of demo_env 100 "''wb_1''" "''s''" "[demo_key]" "Some ''self:1''"] a by simp
  let ?db = "\<lparr>sd_ledger = st, sd_settled = [], sd_chain = \<lparr>cd_chains = [], cd_audit = []\<rparr>\<rparr>"
  have "list_all2 (settled_from ''h'' 200 None (\<lambda>_. None) True st) (wl_batches st)
     (wl_batches (sd_ledger (snd (reconcile_batches ''h'' 200 None (\<lambda>_. None) False [] 4 None True (?db)))))"
    using settlement_needs_proof [of "?db" "''h''" 200 None "\<lambda>_. None" True False "[]" 4 None] wf by simp
  then show ?thesis
    by (intro exI [of _ "?db"] exI [of _ "new_batch ''wb_1'' ''s'' [demo_key] 100 (Some ''self:1'')"])
       (simp add: b new_batch_def)
qed

end
