(* ===== verification/Monad_Rules.thy ===== *)
theory Monad_Rules
  imports Prelude "HOL-Library.State_Monad"
begin

text \<open>
  Hoare triples for the state monad in which the asynchronous worker is written. \<open>triple P m Q\<close>: from
  a state with \<open>P\<close>, the program \<open>m\<close> ends in a state and with a result related by \<open>Q\<close>. Programs are
  total functions, so the triple is total correctness. The rules that introduce triples are in
  \<open>triple_intros\<close>; \<open>keeps I m\<close> is the special case of an invariant.
\<close>

named_theorems triple_intros

definition triple :: "('s \<Rightarrow> bool) \<Rightarrow> ('s, 'a) state \<Rightarrow> ('a \<Rightarrow> 's \<Rightarrow> bool) \<Rightarrow> bool" where
  "triple P m Q \<longleftrightarrow> (\<forall>s. P s \<longrightarrow> (case run_state m s of (a, t) \<Rightarrow> Q a t))"

abbreviation keeps :: "('s \<Rightarrow> bool) \<Rightarrow> ('s, 'a) state \<Rightarrow> bool" where
  "keeps I m \<equiv> triple I m (\<lambda>_. I)"

lemma tripleI: "(\<And>s a t. P s \<Longrightarrow> run_state m s = (a, t) \<Longrightarrow> Q a t) \<Longrightarrow> triple P m Q"
  by (auto simp: triple_def)

lemma tripleD: "triple P m Q \<Longrightarrow> P s \<Longrightarrow> run_state m s = (a, t) \<Longrightarrow> Q a t"
  by (auto simp: triple_def)

lemma tripleD_snd: "triple P m Q \<Longrightarrow> P s \<Longrightarrow> Q (fst (run_state m s)) (snd (run_state m s))"
  by (auto simp: triple_def split: prod.splits)

lemma triple_bind: "triple P m R \<Longrightarrow> (\<And>a. triple (R a) (f a) Q) \<Longrightarrow> triple P (State_Monad.bind m f) Q"
  by (fastforce simp: triple_def split: prod.splits)

lemma triple_return: "(\<And>s. P s \<Longrightarrow> Q a s) \<Longrightarrow> triple P (State_Monad.return a) Q"
  by (simp add: triple_def)

lemma triple_get: "(\<And>s. P s \<Longrightarrow> Q s s) \<Longrightarrow> triple P State_Monad.get Q"
  by (simp add: triple_def)

lemma triple_State: "(\<And>s. P s \<Longrightarrow> Q (fst (f s)) (snd (f s))) \<Longrightarrow> triple P (State f) Q"
  by (simp add: triple_def split_beta)

lemma triple_weaken: "triple P m Q \<Longrightarrow> (\<And>s. P' s \<Longrightarrow> P s) \<Longrightarrow> (\<And>a s. Q a s \<Longrightarrow> Q' a s) \<Longrightarrow> triple P' m Q'"
  by (fastforce simp: triple_def split: prod.splits)

lemma triple_post: "triple P m Q \<Longrightarrow> (\<And>a s. Q a s \<Longrightarrow> Q' a s) \<Longrightarrow> triple P m Q'"
  by (rule triple_weaken)

lemma triple_pre: "(\<And>s. P s \<Longrightarrow> \<exists>R. R s \<and> triple R m Q) \<Longrightarrow> triple P m Q"
  by (force simp: triple_def split: prod.splits)

lemma triple_conj: "triple P m Q \<Longrightarrow> triple P m R \<Longrightarrow> triple P m (\<lambda>a s. Q a s \<and> R a s)"
  by (auto simp: triple_def split: prod.splits)

lemma triple_if: "(b \<Longrightarrow> triple P m Q) \<Longrightarrow> (\<not> b \<Longrightarrow> triple P n Q) \<Longrightarrow> triple P (if b then m else n) Q"
  by simp

lemma triple_option:
  "(x = None \<Longrightarrow> triple P m Q) \<Longrightarrow> (\<And>y. x = Some y \<Longrightarrow> triple P (f y) Q) \<Longrightarrow> triple P (case x of None \<Rightarrow> m | Some y \<Rightarrow> f y) Q"
  by (cases x) auto

lemma triple_prod: "(\<And>a b. x = (a, b) \<Longrightarrow> triple P (f a b) Q) \<Longrightarrow> triple P (case x of (a, b) \<Rightarrow> f a b) Q"
  by (cases x) auto

lemma triple_let: "(\<And>y. y = x \<Longrightarrow> triple P (f y) Q) \<Longrightarrow> triple P (let y = x in f y) Q"
  by (simp add: Let_def)

lemma keeps_bind: "keeps I m \<Longrightarrow> (\<And>a. triple I (f a) Q) \<Longrightarrow> triple I (State_Monad.bind m f) Q"
  by (rule triple_bind)

lemmas keeps_rules = triple_if triple_option triple_prod triple_let

text \<open>A write: the state is replaced by a function of it.\<close>

definition modify :: "('s \<Rightarrow> 's) \<Rightarrow> ('s, unit) state" where
  "modify f = State (\<lambda>s. ((), f s))"

lemma run_modify [simp]: "run_state (modify f) s = ((), f s)"
  by (simp add: modify_def)

lemma triple_modify: "(\<And>s. P s \<Longrightarrow> Q () (f s)) \<Longrightarrow> triple P (modify f) Q"
  by (simp add: triple_def)

text \<open>A loop over a list with an early exit: the body answers whether to go on.\<close>

fun each_until :: "('a \<Rightarrow> ('s, bool) state) \<Rightarrow> 'a list \<Rightarrow> ('s, bool) state" where
  "each_until f [] = State_Monad.return True"
| "each_until f (x # xs) = do { go \<leftarrow> f x; if go then each_until f xs else State_Monad.return False }"

fun each :: "('a \<Rightarrow> ('s, unit) state) \<Rightarrow> 'a list \<Rightarrow> ('s, unit) state" where
  "each f [] = State_Monad.return ()"
| "each f (x # xs) = do { f x; each f xs }"

lemma keeps_each: "(\<And>x. x \<in> set xs \<Longrightarrow> keeps I (f x)) \<Longrightarrow> keeps I (each f xs)"
  by (induction xs) (auto intro!: triple_return triple_bind)

section \<open>Programs that may raise\<close>

text \<open>\<^const>\<open>None\<close> is an exception on its way out; \<open>attempt_then\<close> goes on only without one.\<close>

definition attempt_then :: "('s, 'a option) state \<Rightarrow> ('a \<Rightarrow> ('s, 'b option) state) \<Rightarrow> ('s, 'b option) state" where
  "attempt_then m f = do { r \<leftarrow> m; case r of None \<Rightarrow> State_Monad.return None | Some a \<Rightarrow> f a }"

lemma triple_attempt:
  "triple P m R \<Longrightarrow> (\<And>s. R None s \<Longrightarrow> Q None s) \<Longrightarrow> (\<And>a. triple (R (Some a)) (f a) Q) \<Longrightarrow> triple P (attempt_then m f) Q"
  unfolding attempt_then_def
  by (rule triple_bind, assumption) (rename_tac r, case_tac r; auto intro: triple_return)

abbreviation completed :: "('s, unit option) state" where
  "completed \<equiv> State_Monad.return (Some ())"

end
