(* ===== verification/Self_Wake_Worker.thy ===== *)
theory Self_Wake_Worker
  imports Self_Wake_Reconcile Wake_Reconcile Monad_Rules
begin

text \<open>
  The worker of \<open>compat/self_wake.py\<close> (\<open>SelfWakeWorker\<close>): the due intents, the claim of a group of
  reports, the one POST per batch with the stream it answers, the settlement of what was not seen,
  and one pass of the sweep. A method is a program of the state monad over the worker's stores.
  Every suspension reads the next moment of the future: the clock, what the other processes did to
  the ledger since the last one, and what the outside answers. The intents have no other writer
  during a pass; an error of SQLite in the worker's own writes is not modelled.
\<close>

section \<open>The outside\<close>

datatype stream_end = StreamClosed | StreamBroken string | StreamCancelled

datatype reply = PostRefused int | PostBroken string | PostStream "string list" stream_end

text \<open>
  \<open>mo_fault\<close>: opening the session database raises this; \<open>mo_get\<close>: the body of a run status request
  answered with 200.
\<close>

record moment =
  mo_now :: time
  mo_others :: "wake_op list"
  mo_env :: wake_env
  mo_fault :: "string option"
  mo_resolve :: "string \<Rightarrow> string option"
  mo_cfg :: "json option"
  mo_host :: host_env
  mo_fresh :: string
  mo_jitter :: real
  mo_get :: "string \<Rightarrow> json option"
  mo_post :: reply

record runtime =
  rt_home :: string
  rt_future :: "nat \<Rightarrow> moment"
  rt_str :: "int \<Rightarrow> string"
  rt_dumps :: "json \<Rightarrow> string"
  rt_json :: "string \<Rightarrow> json option"

text \<open>The stores and the fields of the worker; \<open>wk_posts\<close> lists the batches it has posted.\<close>

record worker =
  wk_tick :: nat
  wk_bridge :: bridge
  wk_ledger :: wake_ledger
  wk_chain :: chain_db
  wk_settled :: "reconciliation list"
  wk_throttle :: "string \<Rightarrow> time option"
  wk_busy :: bool
  wk_mode :: "mode option"
  wk_next :: time
  wk_batch_cursor :: string
  wk_check_cursor :: string
  wk_posts :: "string list"

type_synonym 'a job = "(worker, 'a) state"

abbreviation ret :: "'a \<Rightarrow> 'a job" where
  "ret \<equiv> State_Monad.return"

definition await :: "runtime \<Rightarrow> moment job" where
  "await rt = State (\<lambda>w. (rt_future rt (wk_tick w), w\<lparr>wk_tick := Suc (wk_tick w),
     wk_ledger := fold wake_step (mo_others (rt_future rt (wk_tick w))) (wk_ledger w)\<rparr>))"

definition read_ledger :: "runtime \<Rightarrow> (wake_ledger \<Rightarrow> 'a) \<Rightarrow> 'a job" where
  "read_ledger rt f = do { _ \<leftarrow> await rt; w \<leftarrow> State_Monad.get; ret (f (wk_ledger w)) }"

definition RETRY_BUSY_S :: time where "RETRY_BUSY_S = 5"
definition RETRY_JITTER_S :: time where "RETRY_JITTER_S = 2"
definition RETRY_MAX_AGE_S :: time where "RETRY_MAX_AGE_S = 24 * 60 * 60"
definition RETRY_MAX_ATTEMPTS :: nat where "RETRY_MAX_ATTEMPTS = 128"
definition RECONCILE_INTERVAL_S :: time where "RECONCILE_INTERVAL_S = 60"
definition BATCH_MAX_DELIVERY_IDS :: nat where "BATCH_MAX_DELIVERY_IDS = 10"

section \<open>Intents and audit\<close>

definition due_intents :: "time \<Rightarrow> bridge \<Rightarrow> intent list" where
  "due_intents now br = take 32 (sort_key in_created
     (filter (\<lambda>i. in_state i \<in> {Pending, Watching} \<and> in_next i \<le> now) (br_intents br)))"

definition disable_intents :: "time \<Rightarrow> bridge \<Rightarrow> bridge" where
  "disable_intents now br = br\<lparr>br_intents := upd_where (\<lambda>i. in_state i \<in> {Pending, Shadow})
     (\<lambda>i. i\<lparr>in_state := Void, in_detail := Some ''disabled'', in_updated := now\<rparr>) (br_intents br)\<rparr>"

definition disable_sweep :: "runtime \<Rightarrow> unit job" where
  "disable_sweep rt = do { m \<leftarrow> await rt; modify (\<lambda>w. w\<lparr>wk_bridge := disable_intents (mo_now m) (wk_bridge w)\<rparr>) }"

text \<open>One \<open>UPDATE\<close> per item; without a new time the item keeps the one it was read with.\<close>

definition put_item :: "time \<Rightarrow> intent_state \<Rightarrow> string option \<Rightarrow> string option \<Rightarrow> string option \<Rightarrow> time option \<Rightarrow> intent
    \<Rightarrow> intent list \<Rightarrow> intent list" where
  "put_item now st batch owner detail next i = upd_where (\<lambda>r. in_key r = in_key i)
     (\<lambda>r. r\<lparr>in_state := st, in_batch := coalesce batch (in_batch r), in_owner := coalesce owner (in_owner r),
            in_detail := detail, in_next := (case next of Some t \<Rightarrow> t | None \<Rightarrow> in_next i),
            in_attempts := in_attempts r + 1, in_updated := now\<rparr>)"

definition set_items :: "runtime \<Rightarrow> intent list \<Rightarrow> intent_state \<Rightarrow> string option \<Rightarrow> string option \<Rightarrow> string option
    \<Rightarrow> time option \<Rightarrow> unit job" where
  "set_items rt items st batch owner detail next = do {
     m \<leftarrow> await rt;
     modify (\<lambda>w. w\<lparr>wk_bridge := (wk_bridge w)\<lparr>br_intents :=
       fold (put_item (mo_now m) st batch owner detail next) items (br_intents (wk_bridge w))\<rparr>\<rparr>) }"

text \<open>\<open>next_at = time.time() + delay\<close>\<close>

definition set_later :: "runtime \<Rightarrow> intent list \<Rightarrow> intent_state \<Rightarrow> string option \<Rightarrow> string \<Rightarrow> time \<Rightarrow> unit job" where
  "set_later rt items st batch detail delay = do {
     m \<leftarrow> await rt; set_items rt items st batch None (Some detail) (Some (mo_now m + delay)) }"

definition close_items :: "runtime \<Rightarrow> intent list \<Rightarrow> intent_state \<Rightarrow> string \<Rightarrow> unit job" where
  "close_items rt items st detail = set_items rt items st None None (Some detail) None"

definition audit_now :: "runtime \<Rightarrow> (audit_row \<Rightarrow> audit_row) \<Rightarrow> string \<Rightarrow> unit job" where
  "audit_now rt e phase = do {
     m \<leftarrow> await rt; modify (\<lambda>w. w\<lparr>wk_chain := audit (e (audit_entry (mo_now m) phase)) (wk_chain w)\<rparr>) }"

text \<open>At most one audit row per tag in five minutes.\<close>

definition throttled_audit :: "runtime \<Rightarrow> string \<Rightarrow> (audit_row \<Rightarrow> audit_row) \<Rightarrow> string \<Rightarrow> unit job" where
  "throttled_audit rt tag e phase = do {
     w \<leftarrow> State_Monad.get; m \<leftarrow> await rt;
     if (case wk_throttle w tag of Some prev \<Rightarrow> mo_now m - prev < 300 | None \<Rightarrow> False) then ret ()
     else do { m \<leftarrow> await rt; modify (\<lambda>w. w\<lparr>wk_throttle := (wk_throttle w)(tag := Some (mo_now m))\<rparr>); audit_now rt e phase } }"

definition conflict_detail :: string where
  "conflict_detail = ''ledger-settlement-conflict''"

definition conflicted :: "intent list \<Rightarrow> bool" where
  "conflicted items = list_ex (\<lambda>i. in_detail i = Some conflict_detail) items"

definition quarantine :: "runtime \<Rightarrow> intent list \<Rightarrow> string \<Rightarrow> string \<Rightarrow> string option \<Rightarrow> unit job" where
  "quarantine rt items resolved bid run = do {
     set_later rt items Watching (Some bid) conflict_detail 300;
     throttled_audit rt (''settlement:'' @ bid) (\<lambda>e. e\<lparr>au_resolved := Some resolved, au_batch := Some bid, au_run := run,
       au_reason := Some conflict_detail\<rparr>) ''decision'' }"

section \<open>The batch in the ledger\<close>

definition batch_state :: "runtime \<Rightarrow> string \<Rightarrow> wake_state option job" where
  "batch_state rt bid = read_ledger rt (\<lambda>st. map_option wb_state (get_by wb_id bid (wl_batches st)))"

definition batch_of :: "runtime \<Rightarrow> string option \<Rightarrow> batch option job" where
  "batch_of rt bid = (case bid of None \<Rightarrow> ret None | Some b \<Rightarrow> if b = [] then ret None
     else read_ledger rt (\<lambda>st. get_by wb_id b (wl_batches st)))"

definition batch_run :: "string \<Rightarrow> wake_ledger \<Rightarrow> string" where
  "batch_run bid st = (case Option.bind (get_by wb_id bid (wl_batches st)) wb_run of Some r \<Rightarrow> r | None \<Rightarrow> [])"

definition state_name :: "wake_state option \<Rightarrow> string" where
  "state_name s = (case s of None \<Rightarrow> ''gone'' | Some x \<Rightarrow> wake_state_name x)"

text \<open>After a report that was refused: has another observer made the same close?\<close>

definition already_closed :: "string \<Rightarrow> string option \<Rightarrow> wake_answer \<Rightarrow> bool" where
  "already_closed state run view = (case view of
     WakeOk (Some v) \<Rightarrow> (if state = ''terminal'' then wr_state v = Terminal
       else if state = ''uncertain'' then wr_state v \<in> {Terminal, Uncertain}
       else wr_state v = RunAccepted) \<and> (state = ''accepted'' \<longrightarrow> wr_run v = run)
   | _ \<Rightarrow> False)"

definition record_batch :: "runtime \<Rightarrow> intent list \<Rightarrow> string \<Rightarrow> string \<Rightarrow> string \<Rightarrow> string option \<Rightarrow> bool job" where
  "record_batch rt items resolved bid state run = do {
     m \<leftarrow> await rt; w \<leftarrow> State_Monad.get;
     modify (\<lambda>w. w\<lparr>wk_ledger := snd (report (mo_now m) bid resolved state run (wk_ledger w))\<rparr>);
     case fst (report (mo_now m) bid resolved state run (wk_ledger w)) of
       WakeOk _ \<Rightarrow> ret True
     | _ \<Rightarrow> do { m2 \<leftarrow> await rt; w2 \<leftarrow> State_Monad.get;
         if already_closed state run (fst (receipt bid resolved (mo_now m2) (wk_ledger w2))) then ret True
         else do { quarantine rt items resolved bid run; ret False } } }"

section \<open>The chain\<close>

definition lineage_now :: "runtime \<Rightarrow> string \<Rightarrow> string job" where
  "lineage_now rt resolved = do { m \<leftarrow> await rt; ret (lineage_root (db_sessions (we_db (mo_env m))) resolved) }"

definition fail_note :: "runtime \<Rightarrow> string \<Rightarrow> string \<Rightarrow> unit job" where
  "fail_note rt resolved reason = do {
     m \<leftarrow> await rt;
     if mo_fault m \<noteq> None then ret ()
     else do { lin \<leftarrow> lineage_now rt resolved; m \<leftarrow> await rt;
       modify (\<lambda>w. w\<lparr>wk_chain := snd (chain_fail (mo_now m) lin reason (wk_chain w))\<rparr>) } }"

definition note_completed :: "runtime \<Rightarrow> string \<Rightarrow> unit job" where
  "note_completed rt resolved = do {
     m \<leftarrow> await rt;
     if mo_fault m \<noteq> None then ret ()
     else do { lin \<leftarrow> lineage_now rt resolved; m \<leftarrow> await rt;
       modify (\<lambda>w. w\<lparr>wk_chain := chain_note (mo_now m) lin (wk_chain w)\<rparr>) } }"

section \<open>What the run store says\<close>

text \<open>
  \<open>_run_snapshot_once\<close>: \<^const>\<open>None\<close> outside when the endpoint lookup raises, inside when there is no
  endpoint or no answer.
\<close>

definition endpoint_now :: "runtime \<Rightarrow> (string + string \<times> string) option job" where
  "endpoint_now rt = do { m \<leftarrow> await rt; ret (endpoint (rt_dumps rt) (rt_str rt) (mo_host m) (mo_cfg m)) }"

definition run_snapshot_once :: "runtime \<Rightarrow> string \<Rightarrow> json option option job" where
  "run_snapshot_once rt run = attempt_then (endpoint_now rt) (\<lambda>e. case e of
     Inl _ \<Rightarrow> ret (Some None)
   | Inr _ \<Rightarrow> do { m \<leftarrow> await rt; ret (Some (mo_get m run)) })"

definition terminal_status :: "json option \<Rightarrow> string option" where
  "terminal_status payload = (case payload of
     Some p \<Rightarrow> if \<not> is_obj p then None else (case jget ''status'' p of
       Some (JStr s) \<Rightarrow> if s \<in> set TERMINAL_STATUSES then Some s else None | _ \<Rightarrow> None)
   | None \<Rightarrow> None)"

definition run_terminal_once :: "runtime \<Rightarrow> string \<Rightarrow> string option option job" where
  "run_terminal_once rt run = attempt_then (run_snapshot_once rt run) (\<lambda>p. ret (Some (terminal_status p)))"

text \<open>Up to twelve requests; a payload that is not an object ends the loop like any error.\<close>

fun poll_loop :: "runtime \<Rightarrow> nat \<Rightarrow> string \<Rightarrow> string \<Rightarrow> string option job" where
  "poll_loop rt 0 bid resolved = ret None"
| "poll_loop rt (Suc n) bid resolved = do {
     run \<leftarrow> read_ledger rt (batch_run bid); m \<leftarrow> await rt;
     case mo_get m run of
       None \<Rightarrow> ret None
     | Some p \<Rightarrow> if \<not> is_obj p then ret None else (case terminal_status (Some p) of
         Some status \<Rightarrow> do { ok \<leftarrow> record_batch rt [] resolved bid ''terminal'' None; ret (if ok then Some status else None) }
       | None \<Rightarrow> poll_loop rt n bid resolved) }"

definition poll_run :: "runtime \<Rightarrow> string \<Rightarrow> string \<Rightarrow> string option option job" where
  "poll_run rt bid resolved = attempt_then (endpoint_now rt) (\<lambda>e. case e of
     Inl _ \<Rightarrow> ret (Some None)
   | Inr _ \<Rightarrow> do { s \<leftarrow> poll_loop rt 12 bid resolved; ret (Some s) })"

section \<open>Settlement of what was not seen\<close>

definition run_text :: "json option \<Rightarrow> string option" where
  "run_text run = (case run of Some (JStr s) \<Rightarrow> Some s | _ \<Rightarrow> None)"

definition audit_close :: "runtime \<Rightarrow> string \<Rightarrow> string \<Rightarrow> json option \<Rightarrow> string \<Rightarrow> string \<Rightarrow> unit job" where
  "audit_close rt resolved bid run to reason = audit_now rt (\<lambda>e. e\<lparr>au_resolved := Some resolved, au_batch := Some bid,
     au_run := run_text run, au_to := Some to, au_reason := Some reason\<rparr>) ''terminal''"

text \<open>The ledger settles first, then the intents close.\<close>

definition settle_unseen :: "runtime \<Rightarrow> intent list \<Rightarrow> string \<Rightarrow> string \<Rightarrow> json option \<Rightarrow> unit option job" where
  "settle_unseen rt items resolved bid run = do {
     st \<leftarrow> batch_state rt bid;
     if st = Some Terminal \<or> st = Some Uncertain then do { close_items rt items Done (state_name st); completed }
     else if st = Some Reserved then
       (if truthy_value run \<or> conflicted items
        then do { quarantine rt items resolved bid (run_text run); completed }
        else do { set_later rt items Pending None ''retry-after-close'' 15; completed })
     else attempt_then (if st = Some RunAccepted \<and> truthy_value run
           then run_terminal_once rt (case run_text run of Some r \<Rightarrow> r | None \<Rightarrow> rt_dumps rt (the run)) else ret (Some None))
         (\<lambda>seen. case seen of
           Some status \<Rightarrow> do { ok \<leftarrow> record_batch rt items resolved bid ''terminal'' (run_text run);
             if \<not> ok then completed
             else do { close_items rt items Done status;
               audit_close rt resolved bid run ''terminal'' ''stream-unseen-status''; completed } }
         | None \<Rightarrow> do { ok \<leftarrow> record_batch rt items resolved bid ''uncertain'' (run_text run);
             if \<not> ok then completed
             else do { close_items rt items Done ''uncertain-consumed'';
               fail_note rt resolved ''stream-unseen-terminal'';
               audit_close rt resolved bid run ''uncertain'' ''stream-unseen-terminal''; completed } }) }"

section \<open>The stream\<close>

definition chomp :: "string \<Rightarrow> string" where
  "chomp s = rev (dropWhile (\<lambda>c. c = CHR 0x0A \<or> c = CHR 0x0D) (rev s))"

definition event_name :: "string \<Rightarrow> string option" where
  "event_name line = (if starts_with ''event: '' line then Some (drop 7 line) else None)"

definition data_text :: "string \<Rightarrow> string option" where
  "data_text line = (if starts_with ''data: '' line then Some (drop 6 line) else None)"

definition terminal_events :: "string list" where
  "terminal_events = [''run.completed'', ''run.failed'', ''run.cancelled'']"

text \<open>How the reading of a stream ends.\<close>

datatype read_end = ReadTerminal string | ReadEnd | ReadStopped | ReadError string | ReadCancelled

text \<open>
  \<open>ev\<close> is the last event, \<open>run\<close> the last run id, \<open>started\<close> whether the acceptance has been recorded. The
  heartbeat is due at every line.
\<close>

fun read_stream :: "runtime \<Rightarrow> intent list \<Rightarrow> string \<Rightarrow> string \<Rightarrow> stream_end \<Rightarrow> string list \<Rightarrow> string option \<Rightarrow> json option
    \<Rightarrow> bool \<Rightarrow> (read_end \<times> json option) job" where
  "read_stream rt items resolved bid fin [] ev run started = ret (case fin of
     StreamClosed \<Rightarrow> ReadEnd | StreamBroken e \<Rightarrow> ReadError e | StreamCancelled \<Rightarrow> ReadCancelled, run)"
| "read_stream rt items resolved bid fin (raw # lines) ev run started = do {
     throttled_audit rt ''sweep-heartbeat'' (\<lambda>e. e\<lparr>au_reason := Some ''worker-alive''\<rparr>) ''sweep'';
     case event_name (chomp raw) of
       Some name \<Rightarrow> do {
         (if name = ''approval.request'' then throttled_audit rt (''approval:'' @ bid)
            (\<lambda>e. e\<lparr>au_resolved := Some resolved, au_batch := Some bid, au_run := run_text run,
              au_reason := Some ''manual-approval-pending''\<rparr>) ''waiting_for_approval'' else ret ());
         if name \<in> set terminal_events then ret (ReadTerminal name, run)
         else read_stream rt items resolved bid fin lines (Some name) run started }
     | None \<Rightarrow> (case (if ev = Some ''run.started'' then data_text (chomp raw) else None) of
         None \<Rightarrow> read_stream rt items resolved bid fin lines ev run started
       | Some text \<Rightarrow> (let payload = (case rt_json rt text of Some p \<Rightarrow> p | None \<Rightarrow> JObj []) in
           if \<not> is_obj payload then ret (ReadError ''AttributeError'', run)
           else (let run' = jget ''run_id'' payload in
             if truthy_value run' \<and> \<not> started
             then do { ok \<leftarrow> record_batch rt items resolved bid ''accepted'' (run_text run');
               if ok then read_stream rt items resolved bid fin lines ev run' True else ret (ReadStopped, run') }
             else read_stream rt items resolved bid fin lines ev run' started))) }"

section \<open>The dispatch\<close>

definition end_seen :: "runtime \<Rightarrow> intent list \<Rightarrow> string \<Rightarrow> string \<Rightarrow> time \<Rightarrow> string \<Rightarrow> json option \<Rightarrow> unit option job" where
  "end_seen rt items resolved bid t0 term run = do {
     ok \<leftarrow> record_batch rt items resolved bid ''terminal'' (run_text run);
     if \<not> ok then completed
     else do {
       close_items rt items Done term;
       (if term = ''run.completed'' then note_completed rt resolved else fail_note rt resolved term);
       m \<leftarrow> await rt;
       audit_now rt (\<lambda>e. e\<lparr>au_resolved := Some resolved, au_batch := Some bid, au_run := run_text run,
         au_to := Some ''terminal'', au_reason := Some term, au_latency := Some (mo_now m - t0)\<rparr>) ''terminal'';
       completed } }"

definition transport_error :: "runtime \<Rightarrow> intent list \<Rightarrow> string \<Rightarrow> string \<Rightarrow> string \<Rightarrow> json option \<Rightarrow> unit option job" where
  "transport_error rt items resolved bid exc run = do {
     throttled_audit rt (''dispatch-err:'' @ exc) (\<lambda>e. e\<lparr>au_resolved := Some resolved, au_batch := Some bid,
       au_reason := Some (''transport:'' @ exc)\<rparr>) ''decision'';
     settle_unseen rt items resolved bid run }"

text \<open>A settlement inside the \<open>try\<close>: what it raises is settled once more as a transport error.\<close>

definition settle_guarded :: "runtime \<Rightarrow> intent list \<Rightarrow> string \<Rightarrow> string \<Rightarrow> json option \<Rightarrow> unit option job" where
  "settle_guarded rt items resolved bid run = do {
     r \<leftarrow> settle_unseen rt items resolved bid run;
     case r of Some _ \<Rightarrow> completed | None \<Rightarrow> transport_error rt items resolved bid ''AttributeError'' run }"

text \<open>
  One POST at most. A cancellation settles and is raised again: it is \<^const>\<open>None\<close>, like any other
  exception on its way out.
\<close>

definition dispatch :: "runtime \<Rightarrow> intent list \<Rightarrow> string \<Rightarrow> string \<Rightarrow> unit option job" where
  "dispatch rt items resolved bid =
     (if conflicted items then do { quarantine rt items resolved bid None; completed }
      else attempt_then (endpoint_now rt) (\<lambda>e. case e of
        Inl why \<Rightarrow> do {
          throttled_audit rt (''endpoint:'' @ why) (\<lambda>e. e\<lparr>au_resolved := Some resolved, au_to := Some ''unavailable'',
            au_reason := Some why, au_batch := Some bid\<rparr>) ''decision'';
          set_later rt items Pending None (''unavailable:'' @ why) 30; completed }
      | Inr _ \<Rightarrow> do {
          t \<leftarrow> await rt;
          modify (\<lambda>w. w\<lparr>wk_posts := wk_posts w @ [bid]\<rparr>);
          m \<leftarrow> await rt;
          case mo_post m of
            PostRefused code \<Rightarrow> do {
              st \<leftarrow> batch_state rt bid;
              if st = Some Reserved then do { set_later rt items Pending None (''retry:'' @ rt_str rt code) 15; completed }
              else settle_guarded rt items resolved bid None }
          | PostBroken exc \<Rightarrow> transport_error rt items resolved bid exc None
          | PostStream lines fin \<Rightarrow> do {
              out \<leftarrow> read_stream rt items resolved bid fin lines None None False;
              case fst out of
                ReadTerminal term \<Rightarrow> end_seen rt items resolved bid (mo_now t) term (snd out)
              | ReadEnd \<Rightarrow> settle_guarded rt items resolved bid (snd out)
              | ReadStopped \<Rightarrow> completed
              | ReadError exc \<Rightarrow> transport_error rt items resolved bid exc (snd out)
              | ReadCancelled \<Rightarrow> do { _ \<leftarrow> settle_unseen rt items resolved bid (snd out); ret None } } }))"

section \<open>One group of reports\<close>

text \<open>Whose consumption is each report? What is ours or nobody's is linked, the App's is foreign.\<close>

fun sort_claims :: "runtime \<Rightarrow> intent list \<Rightarrow> (intent list \<times> intent list) job" where
  "sort_claims rt [] = ret ([], [])"
| "sort_claims rt (i # items) = do {
     verdict \<leftarrow> read_ledger rt (ledger_state_for (in_key i));
     case verdict of
       None \<Rightarrow> do { (linked, foreign) \<leftarrow> sort_claims rt items; ret (i # linked, foreign) }
     | Some (st, bid) \<Rightarrow> do {
         b \<leftarrow> batch_of rt bid;
         if st = Ignored then do { close_items rt [i] Done ''ignored''; sort_claims rt items }
         else case b of
           None \<Rightarrow> do { (linked, foreign) \<leftarrow> sort_claims rt items; ret (linked, i # foreign) }
         | Some b \<Rightarrow>
             if starts_with ''self:'' (case wb_owner b of Some w \<Rightarrow> w | None \<Rightarrow> [])
             then do { (linked, foreign) \<leftarrow> sort_claims rt items; ret (i # linked, foreign) }
             else if wb_state b = Released then do { set_later rt [i] Pending None ''app-released'' 5; sort_claims rt items }
             else do { (linked, foreign) \<leftarrow> sort_claims rt items; ret (linked, i # foreign) } } }"

definition own_batch_id :: "intent list \<Rightarrow> string option" where
  "own_batch_id linked = Option.bind (find (\<lambda>i. in_batch i \<noteq> None \<and> in_batch i \<noteq> Some []) linked) in_batch"

text \<open>A batch that is already ours is dispatched if it is still reserved, else settled; never admitted again.\<close>

definition settle_crashed :: "runtime \<Rightarrow> string \<Rightarrow> intent list \<Rightarrow> string \<Rightarrow> string \<Rightarrow> unit option job" where
  "settle_crashed rt session linked resolved bid = do {
     ok \<leftarrow> record_batch rt linked resolved bid ''uncertain'' None;
     if \<not> ok then completed
     else do {
       close_items rt linked Done ''uncertain-consumed'';
       fail_note rt resolved ''crash-recovery-settled'';
       audit_now rt (\<lambda>e. e\<lparr>au_original := Some session, au_resolved := Some resolved, au_batch := Some bid,
         au_to := Some ''uncertain'', au_reason := Some ''crash-recovery-settled''\<rparr>) ''terminal'';
       completed } }"

definition follow_batch :: "runtime \<Rightarrow> string \<Rightarrow> intent list \<Rightarrow> string \<Rightarrow> string \<Rightarrow> unit option job" where
  "follow_batch rt session linked resolved bid = do {
     st \<leftarrow> batch_state rt bid;
     if st = Some Reserved then dispatch rt linked resolved bid
     else if st = Some Dispatching then settle_crashed rt session linked resolved bid
     else if st = Some RunAccepted then
       attempt_then (poll_run rt bid resolved) (\<lambda>seen. case seen of
         None \<Rightarrow> settle_crashed rt session linked resolved bid
       | Some status \<Rightarrow> do {
           close_items rt linked Done (''observed:'' @ status);
           (if status = ''completed'' then note_completed rt resolved else fail_note rt resolved (''run-'' @ status));
           completed })
     else do { close_items rt linked Done (''batch-'' @ state_name st); completed } }"

definition own_claim :: "runtime \<Rightarrow> string \<Rightarrow> intent list \<Rightarrow> string \<Rightarrow> string \<Rightarrow> unit option job" where
  "own_claim rt session linked resolved bid =
     (if conflicted linked then do {
        st \<leftarrow> batch_state rt bid;
        if st = Some Terminal \<or> st = Some Uncertain then do { close_items rt linked Done (state_name st); completed }
        else if st \<noteq> Some Dispatching \<and> st \<noteq> Some RunAccepted
          then do { quarantine rt linked resolved bid None; completed }
        else follow_batch rt session linked resolved bid }
      else follow_batch rt session linked resolved bid)"

text \<open>Unclaimed intents that were busy or over quota for too long are given up.\<close>

definition exhausted :: "time \<Rightarrow> intent \<Rightarrow> string option" where
  "exhausted now i = (case in_detail i of
     Some d \<Rightarrow> if d \<noteq> ''busy'' \<and> d \<noteq> ''quota'' then None
       else if RETRY_MAX_AGE_S \<le> now - in_created i then Some (d @ ''-age-exhausted'')
       else if RETRY_MAX_ATTEMPTS \<le> in_attempts i then Some (d @ ''-attempts-exhausted'') else None
   | None \<Rightarrow> None)"

fun give_up :: "runtime \<Rightarrow> string \<Rightarrow> string \<Rightarrow> time \<Rightarrow> intent list \<Rightarrow> intent list job" where
  "give_up rt session resolved now [] = ret []"
| "give_up rt session resolved now (i # items) = (case exhausted now i of
     None \<Rightarrow> do { rest \<leftarrow> give_up rt session resolved now items; ret (i # rest) }
   | Some why \<Rightarrow> do {
       close_items rt [i] Void why;
       audit_now rt (\<lambda>e. e\<lparr>au_original := Some session, au_resolved := Some resolved, au_keys := [in_key i],
         au_from := Some ''pending'', au_to := Some ''void'', au_reason := Some why\<rparr>) ''decision'';
       give_up rt session resolved now items })"

fun reject_name :: "reject \<Rightarrow> string" where
  "reject_name (AlreadyConsumed _) = ''already_consumed''"
| "reject_name UnknownProvenance = ''unknown_provenance''"
| "reject_name CausalSuspect = ''causal_suspect''"
| "reject_name BatchOverflow = ''batch_overflow''"

fun consumed_by :: "reject \<Rightarrow> string list" where
  "consumed_by (AlreadyConsumed (Some b)) = (if b = [] then [] else [b])"
| "consumed_by _ = []"

fun join_comma :: "string list \<Rightarrow> string" where
  "join_comma [] = []"
| "join_comma [x] = x"
| "join_comma (x # xs) = x @ '','' @ join_comma xs"

text \<open>
  The verdict of an admission. A reservation of ours that lost its association is adopted; \<open>fires\<close> is
  the count of the chain before this wake.
\<close>

definition audit_decision :: "runtime \<Rightarrow> string \<Rightarrow> string \<Rightarrow> string list \<Rightarrow> string \<Rightarrow> audit_row \<Rightarrow> audit_row" where
  "audit_decision rt session resolved keys reason e = e\<lparr>au_original := Some session, au_resolved := Some resolved,
     au_keys := keys, au_reason := Some reason\<rparr>"

definition claim_empty :: "runtime \<Rightarrow> string \<Rightarrow> intent list \<Rightarrow> string \<Rightarrow> string list \<Rightarrow> (string \<times> reject) list
    \<Rightarrow> unit option job" where
  "claim_empty rt session linked resolved keys rejected = do {
     let reasons = map (\<lambda>r. reject_name (snd r)) rejected;
     let consumed = remdups (concat (map (\<lambda>r. consumed_by (snd r)) rejected));
     let only_consumed = list_all (\<lambda>r. r = ''already_consumed'') reasons;
     adopted \<leftarrow> (case consumed of
         [b] \<Rightarrow> if only_consumed then do { row \<leftarrow> batch_of rt (Some b);
             ret (case row of None \<Rightarrow> None | Some r \<Rightarrow>
               if starts_with ''self:'' (case wb_owner r of Some w \<Rightarrow> w | None \<Rightarrow> []) \<and> wb_state r = Reserved
               then Some b else None) } else ret None
       | _ \<Rightarrow> ret None);
     case adopted of
       Some b \<Rightarrow> do {
         set_items rt linked Watching (Some b) None (Some ''adopted-own-reservation'') None;
         audit_now rt (\<lambda>e. (audit_decision rt session resolved keys ''adopted-own-reservation'' e)\<lparr>au_batch := Some b\<rparr>)
           ''decision'';
         dispatch rt linked resolved b }
     | None \<Rightarrow>
         if reasons \<noteq> [] \<and> only_consumed then do { close_items rt linked Done ''app-consumed''; completed }
         else do {
           let text = join_comma (sort (remdups reasons));
           throttled_audit rt (''empty:'' @ resolved @ '':'' @ text)
             (audit_decision rt session resolved keys (if text = [] then ''empty'' else text)) ''decision'';
           set_later rt linked Pending None (take 80 text) (if ''causal_suspect'' \<in> set reasons then 300 else 60);
           completed } }"

definition claim_verdict :: "runtime \<Rightarrow> string \<Rightarrow> intent list \<Rightarrow> string \<Rightarrow> string list \<Rightarrow> nat \<Rightarrow> string \<Rightarrow> wake_admission
    \<Rightarrow> unit option job" where
  "claim_verdict rt session linked resolved keys fires owner verdict = (case verdict of
     Admitted bid _ _ _ quota \<Rightarrow> do {
       set_items rt linked Watching (Some bid) (Some owner) (Some ''dispatching'') None;
       audit_now rt (\<lambda>e. (audit_decision rt session resolved keys ''admitted'' e)\<lparr>au_rows := map in_row linked,
         au_batch := Some bid, au_to := Some ''reserved'', au_chain := Some (fires + 1),
         au_quota := Some (q_session_used quota)\<rparr>) ''dispatch'';
       dispatch rt linked resolved bid }
   | AdmitBusy \<Rightarrow> do {
       throttled_audit rt (''busy:'' @ resolved) (audit_decision rt session resolved keys ''busy'') ''decision'';
       m \<leftarrow> await rt;
       set_later rt linked Pending None ''busy'' (RETRY_BUSY_S + mo_jitter m * RETRY_JITTER_S); completed }
   | QuotaExceeded _ \<Rightarrow> do {
       throttled_audit rt (''quota:'' @ resolved) (audit_decision rt session resolved keys ''quota_exceeded'') ''decision'';
       set_later rt linked Pending None ''quota'' 300; completed }
   | AdmitEmpty _ rejected _ \<Rightarrow> claim_empty rt session linked resolved keys rejected
   | AdmitError err \<Rightarrow> do {
       close_items rt linked Void (''admit:'' @ err);
       audit_now rt (audit_decision rt session resolved keys (''admit-error:'' @ err)) ''decision''; completed }
   | AdmitRaises \<Rightarrow> ret None)"

definition admit_now :: "runtime \<Rightarrow> string \<Rightarrow> intent list \<Rightarrow> string \<Rightarrow> string list \<Rightarrow> nat \<Rightarrow> unit option job" where
  "admit_now rt session linked resolved keys fires = do {
     t \<leftarrow> await rt;
     m \<leftarrow> await rt; w \<leftarrow> State_Monad.get;
     let out = admit (mo_env m) (mo_now m) (''wb_'' @ mo_fresh m) resolved keys (Some (''self:'' @ mo_fresh t)) (wk_ledger w);
     modify (\<lambda>w. w\<lparr>wk_ledger := snd out\<rparr>);
     claim_verdict rt session linked resolved keys fires (''self:'' @ mo_fresh t) (fst out) }"

definition fresh_claim :: "runtime \<Rightarrow> string \<Rightarrow> intent list \<Rightarrow> string \<Rightarrow> unit option job" where
  "fresh_claim rt session linked resolved = do {
     let keys = take BATCH_MAX_DELIVERY_IDS (map in_key linked);
     lin \<leftarrow> lineage_now rt resolved;
     m1 \<leftarrow> await rt; m2 \<leftarrow> await rt; m3 \<leftarrow> await rt; w \<leftarrow> State_Monad.get;
     let gate = chain_gate_checkpoint (mo_cfg m1) (mo_now m1) (mo_now m2) (mo_now m3) lin (Some (we_db (mo_env m2))) resolved
       (wk_chain w);
     modify (\<lambda>w. w\<lparr>wk_chain := snd gate\<rparr>);
     case fst gate of (allowed, deny, fires, retry) \<Rightarrow>
       if \<not> allowed then do {
         let why = (case deny of Some d \<Rightarrow> d | None \<Rightarrow> []);
         throttled_audit rt (''fuse:'' @ lin) (\<lambda>e. (audit_decision rt session resolved keys why e)\<lparr>au_chain := Some fires\<rparr>)
           ''decision'';
         set_later rt linked Pending None why (case retry of Some r \<Rightarrow> if r = 0 then 300 else r | None \<Rightarrow> 300);
         completed }
       else admit_now rt session linked resolved keys fires }"

definition process :: "runtime \<Rightarrow> string \<Rightarrow> intent list \<Rightarrow> time \<Rightarrow> unit option job" where
  "process rt session items now = do {
     m \<leftarrow> await rt;
     case mo_fault m of
       Some exc \<Rightarrow> do { set_items rt items Pending None None (Some (''db:'' @ exc)) (Some (now + 30)); completed }
     | None \<Rightarrow> do {
         m \<leftarrow> await rt;
         let resolved = (case mo_resolve m session of Some r \<Rightarrow> r | None \<Rightarrow> session);
         (linked, foreign) \<leftarrow> sort_claims rt items;
         (if foreign = [] then ret () else do {
            close_items rt foreign Done ''app-consumed'';
            audit_now rt (audit_decision rt session resolved (map in_key foreign) ''app-consumed'') ''yield'' });
         if linked = [] then completed
         else case own_batch_id linked of
           Some bid \<Rightarrow> own_claim rt session linked resolved bid
         | None \<Rightarrow> do {
             eligible \<leftarrow> give_up rt session resolved now linked;
             if eligible = [] then completed else fresh_claim rt session eligible resolved } } }"

section \<open>One pass\<close>

definition reconcile_now :: "runtime \<Rightarrow> unit job" where
  "reconcile_now rt = do {
     m \<leftarrow> await rt;
     if mo_fault m \<noteq> None then ret ()
     else modify (\<lambda>w. w\<lparr>wk_bridge :=
       snd (reconcile (rt_dumps rt) (mo_cfg m) (rt_home rt) (mo_now m) (we_db (mo_env m)) 200 (wk_bridge w))\<rparr>) }"

text \<open>
  The settlement of historical batches: one page of four, a status request for those with closed
  intents, and a settlement on the snapshots alone.
\<close>

fun run_snapshots :: "runtime \<Rightarrow> batch list \<Rightarrow> (string \<times> json option) list option job" where
  "run_snapshots rt [] = ret (Some [])"
| "run_snapshots rt (b # bs) = do {
     m \<leftarrow> await rt; w \<leftarrow> State_Monad.get;
     case (done_intent_evidence (rt_home rt) (mo_now m) (Some (wk_bridge w)) (wk_ledger w) b, wb_run b) of
       (Some _, Some (c # cs)) \<Rightarrow> attempt_then (run_snapshot_once rt (c # cs)) (\<lambda>s.
         attempt_then (run_snapshots rt bs) (\<lambda>rest. ret (Some ((wb_id b, s) # rest))))
     | _ \<Rightarrow> run_snapshots rt bs }"

definition settle_history :: "runtime \<Rightarrow> batch list \<Rightarrow> (string \<times> json option) list \<Rightarrow> unit option job" where
  "settle_history rt batches snaps = do {
     m \<leftarrow> await rt; w \<leftarrow> State_Monad.get;
     let out = reconcile_batches (rt_home rt) (mo_now m) (Some (wk_bridge w))
       (\<lambda>b. Option.bind (map_of snaps (wb_id b)) (\<lambda>s. s)) False [] 4 (Some (map fst snaps)) False
       \<lparr>sd_ledger = wk_ledger w, sd_settled = wk_settled w, sd_chain = wk_chain w\<rparr>;
     modify (\<lambda>w. w\<lparr>wk_ledger := sd_ledger (snd out), wk_settled := sd_settled (snd out), wk_chain := sd_chain (snd out)\<rparr>);
     if fst out = None then ret None
     else do {
       modify (\<lambda>w. w\<lparr>wk_batch_cursor := (if length batches = 4 then wb_id (last batches) else [])\<rparr>); completed } }"

definition reconcile_batches_now :: "runtime \<Rightarrow> unit option job" where
  "reconcile_batches_now rt = do {
     _ \<leftarrow> await rt; w \<leftarrow> State_Monad.get;
     let batches = (case batch_candidates (wk_batch_cursor w) 4 None (wk_ledger w) of Some p \<Rightarrow> p | None \<Rightarrow> []);
     attempt_then (run_snapshots rt batches) (settle_history rt batches) }"

definition checkpoint_now :: "runtime \<Rightarrow> unit option job" where
  "checkpoint_now rt = do {
     m \<leftarrow> await rt; w \<leftarrow> State_Monad.get;
     if mo_fault m \<noteq> None \<and> active_chains (wk_check_cursor w) 32 (wk_chain w) \<noteq> [] then ret None
     else do {
       let out = checkpoint_active_chains (mo_now m) (Some (we_db (mo_env m))) (mo_resolve m) (wk_check_cursor w) 32 (wk_chain w);
       modify (\<lambda>w. w\<lparr>wk_check_cursor := fst out, wk_chain := snd out\<rparr>);
       completed } }"

definition work_due :: "runtime \<Rightarrow> time \<Rightarrow> unit option job" where
  "work_due rt now = do {
     w \<leftarrow> State_Monad.get;
     case due_intents now (wk_bridge w) of
       [] \<Rightarrow> completed
     | r # rows \<Rightarrow> process rt (in_session r) (take BATCH_MAX_DELIVERY_IDS (filter (\<lambda>i. in_session i = in_session r) (r # rows))) now }"

definition tick_on :: "runtime \<Rightarrow> time \<Rightarrow> unit option job" where
  "tick_on rt now = do {
     throttled_audit rt ''sweep-heartbeat'' (\<lambda>e. e\<lparr>au_reason := Some ''worker-alive''\<rparr>) ''sweep'';
     attempt_then (checkpoint_now rt) (\<lambda>_. do {
       w \<leftarrow> State_Monad.get;
       attempt_then (if wk_next w \<le> now
           then do { reconcile_now rt; attempt_then (reconcile_batches_now rt) (\<lambda>_. do {
             modify (\<lambda>w. w\<lparr>wk_next := now + RECONCILE_INTERVAL_S\<rparr>); completed }) }
           else completed)
         (\<lambda>_. work_due rt now) }) }"

definition tick_mode :: "runtime \<Rightarrow> mode \<Rightarrow> mode option \<Rightarrow> unit option job" where
  "tick_mode rt md prev =
     (if md = Off then do { (if prev = Some On \<or> prev = Some ShadowMode then disable_sweep rt else ret ()); completed }
      else do {
        (if prev = Some Off then do { m \<leftarrow> await rt; modify (\<lambda>w. w\<lparr>wk_bridge := snd (bump_generation (mo_now m) (wk_bridge w))\<rparr>) }
         else ret ());
        m \<leftarrow> await rt; w \<leftarrow> State_Monad.get;
        if md = ShadowMode then
          (if wk_next w \<le> mo_now m then do { reconcile_now rt; modify (\<lambda>w. w\<lparr>wk_next := mo_now m + RECONCILE_INTERVAL_S\<rparr>); completed }
           else completed)
        else tick_on rt (mo_now m) })"

definition tick :: "runtime \<Rightarrow> unit option job" where
  "tick rt = do {
     w \<leftarrow> State_Monad.get;
     if wk_busy w then completed
     else do {
       m \<leftarrow> await rt;
       modify (\<lambda>w. w\<lparr>wk_busy := True, wk_mode := Some (fst (settings (mo_cfg m)))\<rparr>);
       r \<leftarrow> tick_mode rt (fst (settings (mo_cfg m))) (wk_mode w);
       modify (\<lambda>w. w\<lparr>wk_busy := False\<rparr>);
       ret r } }"

end
