(* ===== verification/Worker_Rules.thy ===== *)
theory Worker_Rules
  imports Self_Wake_Worker
begin

text \<open>
  What every program of the worker keeps. The interfaces \<open>ledger_watch\<close> and \<open>post_watch\<close> say what a
  property of the ledger and of the sent requests has to survive: the operations of the others, the
  worker's reports and admissions, its settlements, and a POST for a batch it may post. Inside them
  each program is shown once to keep such a property.
\<close>

lemma triple_list:
  "(x = [] \<Longrightarrow> triple P m Q) \<Longrightarrow> (\<And>y ys. x = y # ys \<Longrightarrow> triple P (f y ys) Q) \<Longrightarrow> triple P (case x of [] \<Rightarrow> m | y # ys \<Rightarrow> f y ys) Q"
  by (cases x) auto

lemma triple_answer:
  "(\<And>v. x = WakeOk v \<Longrightarrow> triple P (f v) Q) \<Longrightarrow> (\<And>e. x = WakeError e \<Longrightarrow> triple P (g e) Q) \<Longrightarrow>
   (\<And>s. x = WakeConflict s \<Longrightarrow> triple P (h s) Q) \<Longrightarrow>
   triple P (case x of WakeOk v \<Rightarrow> f v | WakeError e \<Rightarrow> g e | WakeConflict s \<Rightarrow> h s) Q"
  by (cases x) auto

lemma triple_sum:
  "(\<And>a. x = Inl a \<Longrightarrow> triple P (f a) Q) \<Longrightarrow> (\<And>b. x = Inr b \<Longrightarrow> triple P (g b) Q) \<Longrightarrow> triple P (case x of Inl a \<Rightarrow> f a | Inr b \<Rightarrow> g b) Q"
  by (cases x) auto

lemma triple_reply:
  "(\<And>c. x = PostRefused c \<Longrightarrow> triple P (f c) Q) \<Longrightarrow> (\<And>e. x = PostBroken e \<Longrightarrow> triple P (g e) Q) \<Longrightarrow>
   (\<And>ls fin. x = PostStream ls fin \<Longrightarrow> triple P (h ls fin) Q) \<Longrightarrow>
   triple P (case x of PostRefused c \<Rightarrow> f c | PostBroken e \<Rightarrow> g e | PostStream ls fin \<Rightarrow> h ls fin) Q"
  by (cases x) auto

lemma triple_read_end:
  "(\<And>t. x = ReadTerminal t \<Longrightarrow> triple P (f t) Q) \<Longrightarrow> (x = ReadEnd \<Longrightarrow> triple P m1 Q) \<Longrightarrow> (x = ReadStopped \<Longrightarrow> triple P m2 Q) \<Longrightarrow>
   (\<And>e. x = ReadError e \<Longrightarrow> triple P (g e) Q) \<Longrightarrow> (x = ReadCancelled \<Longrightarrow> triple P m3 Q) \<Longrightarrow>
   triple P (case x of ReadTerminal t \<Rightarrow> f t | ReadEnd \<Rightarrow> m1 | ReadStopped \<Rightarrow> m2 | ReadError e \<Rightarrow> g e | ReadCancelled \<Rightarrow> m3) Q"
  by (cases x) auto

lemma triple_admission:
  "(\<And>e. x = AdmitError e \<Longrightarrow> triple P (f1 e) Q) \<Longrightarrow> (x = AdmitBusy \<Longrightarrow> triple P m2 Q) \<Longrightarrow> (\<And>q. x = QuotaExceeded q \<Longrightarrow> triple P (f3 q) Q) \<Longrightarrow>
   (\<And>i r q. x = AdmitEmpty i r q \<Longrightarrow> triple P (f4 i r q) Q) \<Longrightarrow> (\<And>b a i r q. x = Admitted b a i r q \<Longrightarrow> triple P (f5 b a i r q) Q) \<Longrightarrow>
   (x = AdmitRaises \<Longrightarrow> triple P m6 Q) \<Longrightarrow>
   triple P (case x of AdmitError e \<Rightarrow> f1 e | AdmitBusy \<Rightarrow> m2 | QuotaExceeded q \<Rightarrow> f3 q | AdmitEmpty i r q \<Rightarrow> f4 i r q
     | Admitted b a i r q \<Rightarrow> f5 b a i r q | AdmitRaises \<Rightarrow> m6) Q"
  by (cases x) auto

lemmas worker_cases = triple_if triple_option triple_prod triple_let triple_list triple_answer triple_sum triple_reply
  triple_read_end triple_admission

lemma keeps_attempt:
  "keeps I m \<Longrightarrow> (\<And>a. keeps I (f a)) \<Longrightarrow> keeps I (attempt_then m f)"
  by (rule triple_attempt)

lemma keeps_ret: "keeps I (State_Monad.return a)"
  by (rule triple_return)

lemma keeps_get: "keeps I State_Monad.get"
  by (rule triple_get)

lemmas keeps_struct = keeps_bind keeps_ret keeps_get keeps_attempt worker_cases

section \<open>Programs that do not post\<close>

locale ledger_watch =
  fixes rt :: runtime and J :: "wake_ledger \<Rightarrow> string list \<Rightarrow> bool"
  assumes others: "J l p \<Longrightarrow> J (fold wake_step (mo_others (rt_future rt n)) l) p"
    and reports: "J l p \<Longrightarrow> J (snd (report t bid resolved state run l)) p"
begin

abbreviation I :: "worker \<Rightarrow> bool" where
  "I w \<equiv> J (wk_ledger w) (wk_posts w)"

lemma await: "keeps I (await rt)"
  unfolding await_def by (rule triple_State) (simp add: others)

lemma modify_quiet: "(\<And>w. wk_ledger (f w) = wk_ledger w \<and> wk_posts (f w) = wk_posts w) \<Longrightarrow> keeps I (modify f)"
  by (rule triple_modify) simp

lemma write_report: "keeps I (modify (\<lambda>w. w\<lparr>wk_ledger := snd (report t bid resolved state run (wk_ledger w))\<rparr>))"
  by (rule triple_modify) (simp add: reports)

lemma read_ledger: "keeps I (read_ledger rt f)"
  unfolding read_ledger_def by (intro keeps_struct await)

lemma set_items: "keeps I (set_items rt items st batch owner detail next)"
  unfolding set_items_def by (intro keeps_struct await modify_quiet) simp

lemma set_later: "keeps I (set_later rt items st batch detail delay)"
  unfolding set_later_def by (intro keeps_struct await set_items)

lemma close_items: "keeps I (close_items rt items st detail)"
  unfolding close_items_def by (rule set_items)

lemma audit_now: "keeps I (audit_now rt e phase)"
  unfolding audit_now_def by (intro keeps_struct await modify_quiet) simp

lemma throttled_audit: "keeps I (throttled_audit rt tag e phase)"
  unfolding throttled_audit_def by (intro keeps_struct await modify_quiet audit_now) simp

lemma quarantine: "keeps I (quarantine rt items resolved bid run)"
  unfolding quarantine_def by (intro keeps_struct set_later throttled_audit)

lemma batch_state: "keeps I (batch_state rt bid)"
  unfolding batch_state_def by (rule read_ledger)

lemma batch_of: "keeps I (batch_of rt bid)"
  unfolding batch_of_def by (intro keeps_struct read_ledger)

lemma record_batch: "keeps I (record_batch rt items resolved bid state run)"
  unfolding record_batch_def by (intro keeps_struct await write_report quarantine)

lemma lineage_now: "keeps I (lineage_now rt resolved)"
  unfolding lineage_now_def by (intro keeps_struct await)

lemma fail_note: "keeps I (fail_note rt resolved reason)"
  unfolding fail_note_def by (intro keeps_struct await lineage_now modify_quiet) simp

lemma note_completed: "keeps I (note_completed rt resolved)"
  unfolding note_completed_def by (intro keeps_struct await lineage_now modify_quiet) simp

lemma endpoint_now: "keeps I (endpoint_now rt)"
  unfolding endpoint_now_def by (intro keeps_struct await)

lemma run_snapshot_once: "keeps I (run_snapshot_once rt run)"
  unfolding run_snapshot_once_def by (intro keeps_struct await endpoint_now)

lemma run_terminal_once: "keeps I (run_terminal_once rt run)"
  unfolding run_terminal_once_def by (intro keeps_struct run_snapshot_once)

lemma poll_loop: "keeps I (poll_loop rt n bid resolved)"
  by (induction n) (simp_all only: poll_loop.simps, (intro keeps_struct read_ledger await record_batch | assumption)+)

lemma poll_run: "keeps I (poll_run rt bid resolved)"
  unfolding poll_run_def by (intro keeps_struct endpoint_now poll_loop)

lemma audit_close: "keeps I (audit_close rt resolved bid run to reason)"
  unfolding audit_close_def by (rule audit_now)

lemmas quiet = await read_ledger set_items set_later close_items audit_now throttled_audit quarantine batch_state
  batch_of record_batch lineage_now fail_note note_completed endpoint_now run_snapshot_once run_terminal_once
  poll_run audit_close

lemma settle_unseen: "keeps I (settle_unseen rt items resolved bid run)"
  unfolding settle_unseen_def by (intro keeps_struct quiet)

lemma transport_error: "keeps I (transport_error rt items resolved bid exc run)"
  unfolding transport_error_def by (intro keeps_struct quiet settle_unseen)

lemma settle_guarded: "keeps I (settle_guarded rt items resolved bid run)"
  unfolding settle_guarded_def by (intro keeps_struct settle_unseen transport_error)

lemma end_seen: "keeps I (end_seen rt items resolved bid t0 term run)"
  unfolding end_seen_def by (intro keeps_struct quiet)

lemma read_stream: "keeps I (read_stream rt items resolved bid fin lines ev run started)"
proof (induction lines arbitrary: ev run started)
  case Nil
  show ?case by (simp add: keeps_ret)
next
  case (Cons raw lines)
  show ?case by (simp only: read_stream.simps) (intro keeps_struct quiet Cons.IH)
qed

lemma settle_crashed: "keeps I (settle_crashed rt session linked resolved bid)"
  unfolding settle_crashed_def by (intro keeps_struct quiet)

lemma sort_claims: "keeps I (sort_claims rt items)"
  by (induction items) (simp_all only: sort_claims.simps, (intro keeps_struct quiet | assumption)+)

lemma give_up: "keeps I (give_up rt session resolved now items)"
  by (induction items) (simp_all only: give_up.simps, (intro keeps_struct quiet | assumption)+)

lemma reconcile_now: "keeps I (reconcile_now rt)"
  unfolding reconcile_now_def by (intro keeps_struct await modify_quiet) simp

lemma checkpoint_now: "keeps I (checkpoint_now rt)"
  unfolding checkpoint_now_def by (intro keeps_struct await modify_quiet) simp

lemma run_snapshots: "keeps I (run_snapshots rt bs)"
  by (induction bs) (simp_all only: run_snapshots.simps, (intro keeps_struct quiet | assumption)+)

lemma disable_sweep: "keeps I (disable_sweep rt)"
  unfolding disable_sweep_def by (intro keeps_struct await modify_quiet) simp

end

section \<open>Programs that may post\<close>

lemma triple_ctx: "(C \<Longrightarrow> triple P m Q) \<Longrightarrow> triple (\<lambda>s. P s \<and> C) m Q"
  by (auto simp: triple_def)

lemma bind_learn:
  "triple I m (\<lambda>a s. I s \<and> C a) \<Longrightarrow> (\<And>a. C a \<Longrightarrow> triple I (f a) Q) \<Longrightarrow> triple I (State_Monad.bind m f) Q"
  by (rule triple_bind, assumption) (rule triple_ctx)

locale post_watch = ledger_watch +
  fixes ok :: "string \<Rightarrow> bool"
  assumes admits: "J l p \<Longrightarrow> J (snd (admit env t (''wb_'' @ f) resolved keys (Some (''self:'' @ k)) l)) p"
    and admitted: "J l p \<Longrightarrow> fst (admit env t (''wb_'' @ f) resolved keys (Some (''self:'' @ k)) l) = Admitted b a i r q \<Longrightarrow> ok b"
    and reserved: "J l p \<Longrightarrow> get_by wb_id b (wl_batches l) = Some x \<Longrightarrow> wb_state x = Reserved \<Longrightarrow> ok b"
    and posts: "J l p \<Longrightarrow> ok b \<Longrightarrow> J l (p @ [b])"
    and settles: "J l p \<Longrightarrow> J (sd_ledger (snd (reconcile_batches home now br observe False after limit ids False
        \<lparr>sd_ledger = l, sd_settled = ss, sd_chain = c\<rparr>))) p"
begin

lemma write_post: "ok bid \<Longrightarrow> keeps I (modify (\<lambda>w. w\<lparr>wk_posts := wk_posts w @ [bid]\<rparr>))"
  by (rule triple_modify) (simp add: posts)

lemma dispatch: "ok bid \<Longrightarrow> keeps I (dispatch rt items resolved bid)"
  unfolding dispatch_def
  by (intro keeps_struct quiet write_post settle_unseen settle_guarded transport_error end_seen read_stream)

lemma batch_state_learn: "triple I (batch_state rt bid) (\<lambda>st w. I w \<and> (st = Some Reserved \<longrightarrow> ok bid))"
  unfolding batch_state_def read_ledger_def
  by (rule keeps_bind, rule await, rule triple_bind [where R = "\<lambda>v s. I s \<and> v = s"], rule triple_get, simp,
      rule triple_return) (auto intro: reserved)

lemma batch_of_learn: "triple I (batch_of rt (Some bid))
    (\<lambda>row w. I w \<and> (\<forall>r. row = Some r \<longrightarrow> wb_state r = Reserved \<longrightarrow> ok bid))"
proof (cases "bid = []")
  case True
  then show ?thesis by (simp add: batch_of_def triple_def)
next
  case False
  then show ?thesis unfolding batch_of_def read_ledger_def
    by simp (rule keeps_bind, rule await, rule triple_bind [where R = "\<lambda>v s. I s \<and> v = s"], rule triple_get, simp,
      rule triple_return, auto intro: reserved)
qed

lemma follow_batch: "keeps I (follow_batch rt session linked resolved bid)"
  unfolding follow_batch_def
  by (rule bind_learn [OF batch_state_learn])
     (intro keeps_struct quiet settle_crashed dispatch; simp)

lemma own_claim: "keeps I (own_claim rt session linked resolved bid)"
  unfolding own_claim_def by (intro keeps_struct quiet follow_batch)

lemma adopt_learn: "triple I (case consumed of
         [b] \<Rightarrow> if only then do { row \<leftarrow> batch_of rt (Some b);
             ret (case row of None \<Rightarrow> None | Some r \<Rightarrow> if P r \<and> wb_state r = Reserved then Some b else None) } else ret None
       | _ \<Rightarrow> ret None) (\<lambda>a w. I w \<and> (\<forall>b. a = Some b \<longrightarrow> ok b))"
proof -
  have "triple I (do { row \<leftarrow> batch_of rt (Some b);
      ret (case row of None \<Rightarrow> None | Some r \<Rightarrow> if P r \<and> wb_state r = Reserved then Some b else None) })
     (\<lambda>a w. I w \<and> (\<forall>b. a = Some b \<longrightarrow> ok b))" for b
    by (rule bind_learn [OF batch_of_learn]) (rule triple_return, auto split: option.splits if_splits)
  then show ?thesis by (auto intro: triple_return split: list.split)
qed

lemma claim_empty: "keeps I (claim_empty rt session linked resolved keys rejected)"
  unfolding claim_empty_def Let_def
  by (rule bind_learn [OF adopt_learn]) (intro keeps_struct quiet dispatch; simp)

lemma claim_verdict: "(\<And>b a i r q. verdict = Admitted b a i r q \<Longrightarrow> ok b) \<Longrightarrow>
    keeps I (claim_verdict rt session linked resolved keys fires owner verdict)"
  unfolding claim_verdict_def by (intro keeps_struct quiet dispatch claim_empty; simp)

text \<open>A write that depends on the state just read.\<close>

lemma bind_read:
  assumes "\<And>w. I w \<Longrightarrow> triple (\<lambda>s. s = w) (f w) Q"
  shows "triple I (State_Monad.bind State_Monad.get f) Q"
  using assms by (auto simp: triple_def)

lemma bind_write:
  assumes "I (g w)" and "triple I m Q"
  shows "triple (\<lambda>s. s = w) (State_Monad.bind (modify g) (\<lambda>_. m)) Q"
  using assms by (auto simp: triple_def)

lemma admit_now: "keeps I (admit_now rt session linked resolved keys fires)"
  unfolding admit_now_def Let_def
  by (rule keeps_bind [OF await], rule keeps_bind [OF await], rule bind_read, rule bind_write)
     (auto intro: admits admitted claim_verdict simp del: append.simps)

lemma fresh_claim: "keeps I (fresh_claim rt session linked resolved)"
  unfolding fresh_claim_def
  by (intro keeps_struct quiet modify_quiet admit_now) simp

lemma process: "keeps I (process rt session items now)"
  unfolding process_def by (intro keeps_struct quiet sort_claims own_claim give_up fresh_claim)

lemma settle_history: "keeps I (settle_history rt batches snaps)"
  unfolding settle_history_def Let_def
  by (rule keeps_bind [OF await], rule bind_read, rule bind_write, simp add: settles)
     (intro triple_if keeps_struct modify_quiet, simp)

lemma reconcile_batches_now: "keeps I (reconcile_batches_now rt)"
  unfolding reconcile_batches_now_def by (intro keeps_struct await run_snapshots settle_history)

lemma work_due: "keeps I (work_due rt now)"
  unfolding work_due_def by (intro keeps_struct process)

lemma tick_on: "keeps I (tick_on rt now)"
  unfolding tick_on_def
  by (intro keeps_struct quiet checkpoint_now reconcile_now reconcile_batches_now modify_quiet work_due) simp

lemma tick_mode: "keeps I (tick_mode rt md prev)"
  unfolding tick_mode_def
  by (intro keeps_struct quiet disable_sweep reconcile_now modify_quiet tick_on) simp_all

lemma tick: "keeps I (tick rt)"
  unfolding tick_def by (intro keeps_struct quiet modify_quiet tick_mode) simp_all

end

end
