(* ===== verification/Worker_Properties.thy ===== *)
theory Worker_Properties
  imports Worker_Rules
begin

text \<open>
  What the worker of \<open>Self_Wake_Worker\<close> promises, whatever the outside answers and whatever the other
  processes do to the ledger between two of its steps: it is a client of the ledger like any other,
  so no report is run on twice; it posts at most once per pass and never for a batch that has run
  or ended; switched off or in shadow it changes nothing in the ledger; and no report of a group it
  has worked on is forgotten or due again at once.
\<close>

section \<open>The ledger with its settlements\<close>

datatype ledger_act =
    Act wake_op
  | Settle string time "bridge option" "batch \<Rightarrow> json option" string nat "string list option" "reconciliation list" chain_db

fun act_step :: "ledger_act \<Rightarrow> wake_ledger \<Rightarrow> wake_ledger" where
  "act_step (Act op) st = wake_step op st"
| "act_step (Settle home now br observe after limit ids ss c) st = sd_ledger (snd (reconcile_batches home now br observe
     False after limit ids False \<lparr>sd_ledger = st, sd_settled = ss, sd_chain = c\<rparr>))"

definition run_started :: "string \<Rightarrow> ledger_act \<Rightarrow> wake_ledger \<Rightarrow> bool" where
  "run_started k a st = (case a of Act op \<Rightarrow> run_accepted k op st | _ \<Rightarrow> False)"

lemma act_wf: "wake_wf st \<Longrightarrow> wake_wf (act_step a st)"
proof (cases a)
  case (Settle home now br observe after limit ids ss c)
  assume "wake_wf st"
  then show ?thesis
    using settlement_inv [of "\<lparr>sd_ledger = st, sd_settled = ss, sd_chain = c\<rparr>"] Settle wf_settle_inv by fastforce
qed (simp add: wf_step)

text \<open>A batch a run was accepted for, or that ended, stays so.\<close>

definition ended :: "string \<Rightarrow> wake_ledger \<Rightarrow> bool" where
  "ended bid st \<longleftrightarrow> (\<exists>b \<in> set (wl_batches st). wb_id b = bid \<and> wb_state b \<in> {RunAccepted, Terminal, Uncertain, Released})"

lemma settle_next:
  assumes "wake_wf st" "b \<in> set (wl_batches st)"
  shows "\<exists>b' \<in> set (wl_batches (act_step (Settle home now br observe after limit ids ss c) st)).
    settled_from home now br observe False st b b'"
proof -
  have "settle_inv home now br observe False st (act_step (Settle home now br observe after limit ids ss c) st)"
    using settlement_inv [of "\<lparr>sd_ledger = st, sd_settled = ss, sd_chain = c\<rparr>"] assms(1) by simp
  then show ?thesis using assms(2) unfolding settle_inv_def by (metis list_all2_conv_all_nth in_set_conv_nth)
qed

lemma ended_step:
  assumes wf: "wake_wf st" and e: "ended bid st"
  shows "ended bid (act_step a st)"
proof -
  from e obtain b where b: "b \<in> set (wl_batches st)" "wb_id b = bid" "wb_state b \<in> {RunAccepted, Terminal, Uncertain, Released}"
    by (auto simp: ended_def)
  show ?thesis
  proof (cases a)
    case (Act op)
    from step_next [OF wf b(1), of op] obtain b' where "b' \<in> set (wl_batches (wake_step op st))" "wake_next b b'" by blast
    with b Act show ?thesis by (auto simp: ended_def wake_next_def same_batch_def wake_move_simps)
  next
    case (Settle home now br observe after limit ids ss c)
    from settle_next [OF wf b(1)] obtain b' where
      "b' \<in> set (wl_batches (act_step (Settle home now br observe after limit ids ss c) st))"
      "settled_from home now br observe False st b b'" by blast
    moreover from this(2) b have "wb_id b' = bid" "wb_state b' \<in> {RunAccepted, Terminal, Uncertain, Released}"
      by (auto simp: settled_from_def same_batch_def)
    ultimately show ?thesis unfolding Settle ended_def by blast
  qed
qed

lemma settled_act: "wake_wf st \<Longrightarrow> settled k st \<Longrightarrow> settled k (act_step a st)"
proof (cases a)
  case (Settle home now br observe after limit ids ss c)
  assume wf: "wake_wf st" and "settled k st"
  then obtain b where b: "b \<in> set (wl_batches st)" "k \<in> set (wb_keys b)" "spent (wb_state b)" by (auto simp: settled_def)
  from settle_next [OF wf b(1)] obtain b' where
    "b' \<in> set (wl_batches (act_step (Settle home now br observe after limit ids ss c) st))"
    "settled_from home now br observe False st b b'" by blast
  moreover from this(2) b have "k \<in> set (wb_keys b')" "spent (wb_state b')"
    by (auto simp: settled_from_def same_batch_def)
  ultimately show ?thesis unfolding Settle settled_def by blast
qed (simp add: settled_step)

interpretation wa: claim_once act_step wake_wf settled run_started
proof
  fix st a k
  show "wake_wf st \<Longrightarrow> wake_wf (act_step a st)" by (rule act_wf)
  show "wake_wf st \<Longrightarrow> settled k st \<Longrightarrow> settled k (act_step a st)" by (rule settled_act)
  show "wake_wf st \<Longrightarrow> run_started k a st \<Longrightarrow> \<not> settled k st"
    by (cases a) (auto simp: run_started_def dest: wr.wins_free)
  show "wake_wf st \<Longrightarrow> run_started k a st \<Longrightarrow> settled k (act_step a st)"
    by (cases a) (auto simp: run_started_def dest: wr.wins_seals)
qed

interpretation we: sealing_store act_step wake_wf ended
  by unfold_locales (rule ended_step)

section \<open>The worker as a client of the ledger\<close>

text \<open>What the worker itself does: admissions under its own owner, reports, settlements.\<close>

fun worker_act :: "ledger_act \<Rightarrow> bool" where
  "worker_act (Act (Admit env now bid resolved keys (Some owner))) = starts_with ''self:'' owner"
| "worker_act (Act (Report now bid resolved state run)) = True"
| "worker_act (Settle home now br observe after limit ids ss c) = True"
| "worker_act _ = False"

definition act_of :: "runtime \<Rightarrow> ledger_act \<Rightarrow> bool" where
  "act_of rt a \<longleftrightarrow> worker_act a \<or> (\<exists>n. \<exists>op \<in> set (mo_others (rt_future rt n)). a = Act op)"

definition acts_between :: "runtime \<Rightarrow> wake_ledger \<Rightarrow> wake_ledger \<Rightarrow> bool" where
  "acts_between rt l l' \<longleftrightarrow> (\<exists>acts. l' = fold act_step acts l \<and> list_all (act_of rt) acts)"

lemma acts_refl: "acts_between rt l l"
  unfolding acts_between_def by (intro exI [of _ "[]"]) simp

lemma acts_trans: "acts_between rt l l' \<Longrightarrow> acts_between rt l' l'' \<Longrightarrow> acts_between rt l l''"
  unfolding acts_between_def by (metis fold_append comp_apply list_all_append)

lemma acts_one: "act_of rt a \<Longrightarrow> acts_between rt l (act_step a l)"
  unfolding acts_between_def by (intro exI [of _ "[a]"]) simp

lemma acts_others: "acts_between rt l (fold wake_step (mo_others (rt_future rt n)) l)"
proof -
  have "fold wake_step ops l = fold act_step (map Act ops) l" for ops
    by (induction ops arbitrary: l) simp_all
  moreover have "list_all (act_of rt) (map Act (mo_others (rt_future rt n)))"
    by (auto simp: list_all_iff act_of_def)
  ultimately show ?thesis unfolding acts_between_def by blast
qed

lemma acts_report: "acts_between rt l (snd (report t bid resolved state run l))"
  using acts_one [of rt "Act (Report t bid resolved state run)" l] by (simp add: act_of_def)

lemma acts_admit: "acts_between rt l (snd (admit env t bid resolved keys (Some (''self:'' @ k)) l))"
  using acts_one [of rt "Act (Admit env t bid resolved keys (Some (''self:'' @ k)))" l]
  by (simp add: act_of_def starts_with_def)

lemma acts_settle: "acts_between rt l (sd_ledger (snd (reconcile_batches home now br observe False after limit ids False
    \<lparr>sd_ledger = l, sd_settled = ss, sd_chain = c\<rparr>)))"
  using acts_one [of rt "Settle home now br observe after limit ids ss c" l] by (simp add: act_of_def)

interpretation refines: post_watch rt "\<lambda>l p. acts_between rt l0 l" "\<lambda>_. True" for rt l0
  by unfold_locales
    (blast intro: acts_trans acts_others acts_report acts_admit acts_settle)+

section \<open>What is posted\<close>

definition posts_fresh :: "wake_ledger \<Rightarrow> string list \<Rightarrow> wake_ledger \<Rightarrow> string list \<Rightarrow> bool" where
  "posts_fresh l0 p0 l p \<longleftrightarrow> wake_wf l \<and> (\<forall>bid. ended bid l0 \<longrightarrow> ended bid l)
     \<and> (\<exists>new. p = p0 @ new \<and> list_all (\<lambda>bid. \<not> ended bid l0) new)"

lemma fresh_acts: "posts_fresh l0 p0 l p \<Longrightarrow> acts_between rt l l' \<Longrightarrow> posts_fresh l0 p0 l' p"
  unfolding posts_fresh_def acts_between_def using wa.run_inv we.run_sealed by blast

lemma reserved_not_ended:
  "wake_wf l \<Longrightarrow> get_by wb_id bid (wl_batches l) = Some b \<Longrightarrow> wb_state b = Reserved \<Longrightarrow> \<not> ended bid l"
  using distinct_key_inj [of wb_id "wl_batches l" b] by (auto simp: ended_def wake_wf_def dest: get_by_SomeD)

lemma admitted_not_ended:
  "fst (admit env t bid resolved keys owner l) = Admitted b a i r q \<Longrightarrow> wake_wf l \<Longrightarrow> \<not> ended b l"
proof -
  assume wf: "wake_wf l" and "fst (admit env t bid resolved keys owner l) = Admitted b a i r q"
  then obtain st' where adm: "admit env t bid resolved keys owner l = (Admitted b a i r q, st')" by (metis prod.collapse)
  have "b = bid \<and> get_by wb_id bid (wl_batches l) = None"
    by (rule wake_admit_cases [OF wf adm]) (blast | simp)+
  then show ?thesis by (auto simp: ended_def get_by_None)
qed

interpretation posts: post_watch rt "posts_fresh l0 p0" "\<lambda>bid. \<not> ended bid l0" for rt l0 p0
proof
  fix l p
  assume J: "posts_fresh l0 p0 l p"
  show "posts_fresh l0 p0 (fold wake_step (mo_others (rt_future rt n)) l) p" for n
    by (rule fresh_acts [OF J acts_others])
  show "posts_fresh l0 p0 (snd (report t bid resolved state run l)) p" for t bid resolved state run
    by (rule fresh_acts [OF J acts_report])
  show "posts_fresh l0 p0 (snd (admit env t (''wb_'' @ f) resolved keys (Some (''self:'' @ k)) l)) p" for env t f resolved keys k
    by (rule fresh_acts [OF J acts_admit])
  show "posts_fresh l0 p0 (sd_ledger (snd (reconcile_batches home now br observe False after limit ids False
        \<lparr>sd_ledger = l, sd_settled = ss, sd_chain = c\<rparr>))) p" for home now br observe after limit ids ss c
    by (rule fresh_acts [OF J acts_settle])
  show "fst (admit env t (''wb_'' @ f) resolved keys (Some (''self:'' @ k)) l) = Admitted b a i r q \<Longrightarrow> \<not> ended b l0"
    for env t f resolved keys k b a i r q
    using J admitted_not_ended unfolding posts_fresh_def by blast
  show "get_by wb_id b (wl_batches l) = Some x \<Longrightarrow> wb_state x = Reserved \<Longrightarrow> \<not> ended b l0" for b x
    using J reserved_not_ended unfolding posts_fresh_def by blast
  show "\<not> ended b l0 \<Longrightarrow> posts_fresh l0 p0 l (p @ [b])" for b
    using J unfolding posts_fresh_def by (auto simp: list_all_append)
qed

text \<open>At most one POST: everything before the dispatch is silent, and the dispatch is the last step.\<close>

interpretation silent: ledger_watch rt "\<lambda>l p. p = p0" for rt p0
  by unfold_locales

definition sent :: "nat \<Rightarrow> string list \<Rightarrow> worker \<Rightarrow> bool" where
  "sent n p0 w \<longleftrightarrow> (\<exists>new. wk_posts w = p0 @ new \<and> length new \<le> n)"

lemma sent_silent: "keeps (\<lambda>w. wk_posts w = p0) m \<Longrightarrow> triple (\<lambda>w. wk_posts w = p0) m (\<lambda>_. sent 1 p0)"
  by (erule triple_post) (auto simp: sent_def)

lemma attempt_silent: "keeps I m \<Longrightarrow> (\<And>s. I s \<Longrightarrow> Q None s) \<Longrightarrow> (\<And>a. triple I (f a) Q) \<Longrightarrow> triple I (attempt_then m f) Q"
  by (rule triple_attempt)

lemma sent_ret: "triple (\<lambda>w. wk_posts w = p0) (State_Monad.return a) (\<lambda>_. sent 1 p0)"
  by (rule triple_return) (simp add: sent_def)

lemma sent_now: "wk_posts w = p0 \<Longrightarrow> sent 1 p0 w"
  by (simp add: sent_def)

lemmas sent_struct = keeps_bind attempt_silent sent_ret sent_now worker_cases

lemma one_after_post:
  "(\<And>p. keeps (\<lambda>w. wk_posts w = p) m) \<Longrightarrow> triple (\<lambda>w. wk_posts w = p0)
     (State_Monad.bind (modify (\<lambda>w. w\<lparr>wk_posts := wk_posts w @ [bid]\<rparr>)) (\<lambda>_. m)) (\<lambda>_. sent 1 p0)"
  by (rule triple_bind [where R = "\<lambda>_ w. wk_posts w = p0 @ [bid]"], rule triple_modify, simp, rule triple_post, assumption)
     (auto simp: sent_def)

lemma one_dispatch: "triple (\<lambda>w. wk_posts w = p0) (dispatch rt items resolved bid) (\<lambda>_. sent 1 p0)"
  unfolding dispatch_def
  by (intro sent_struct one_after_post keeps_struct silent.quiet silent.settle_unseen silent.settle_guarded silent.transport_error
      silent.end_seen silent.read_stream)

lemma one_follow: "triple (\<lambda>w. wk_posts w = p0) (follow_batch rt session linked resolved bid) (\<lambda>_. sent 1 p0)"
  unfolding follow_batch_def
  by (intro sent_struct one_dispatch sent_silent [OF silent.settle_crashed] silent.quiet keeps_ret)

lemma one_own: "triple (\<lambda>w. wk_posts w = p0) (own_claim rt session linked resolved bid) (\<lambda>_. sent 1 p0)"
  unfolding own_claim_def by (intro sent_struct one_follow silent.quiet)

lemma one_empty: "triple (\<lambda>w. wk_posts w = p0) (claim_empty rt session linked resolved keys rejected) (\<lambda>_. sent 1 p0)"
  unfolding claim_empty_def Let_def
  by (rule keeps_bind) (intro sent_struct one_dispatch silent.quiet keeps_ret | intro keeps_struct silent.quiet)+

lemma one_verdict: "triple (\<lambda>w. wk_posts w = p0) (claim_verdict rt session linked resolved keys fires owner v) (\<lambda>_. sent 1 p0)"
  unfolding claim_verdict_def by (intro sent_struct one_dispatch one_empty silent.quiet)

lemma one_admit: "triple (\<lambda>w. wk_posts w = p0) (admit_now rt session linked resolved keys fires) (\<lambda>_. sent 1 p0)"
  unfolding admit_now_def Let_def
  by (intro keeps_bind one_verdict silent.quiet keeps_get) (simp add: triple_modify)

lemma one_fresh: "triple (\<lambda>w. wk_posts w = p0) (fresh_claim rt session linked resolved) (\<lambda>_. sent 1 p0)"
  unfolding fresh_claim_def
  by (intro sent_struct one_admit silent.quiet silent.modify_quiet keeps_get) simp

lemma one_process: "triple (\<lambda>w. wk_posts w = p0) (process rt session items now) (\<lambda>_. sent 1 p0)"
  unfolding process_def
  by (intro sent_struct one_own one_fresh silent.quiet silent.sort_claims silent.give_up keeps_ret)

lemma silent_settle: "keeps (\<lambda>w. wk_posts w = p0) (reconcile_batches_now rt)"
  unfolding reconcile_batches_now_def settle_history_def
  by (intro keeps_struct silent.quiet silent.run_snapshots) (simp_all add: triple_modify)

lemma one_tick_on: "triple (\<lambda>w. wk_posts w = p0) (tick_on rt now) (\<lambda>_. sent 1 p0)"
  unfolding tick_on_def work_due_def
  by (intro sent_struct one_process keeps_struct silent.quiet silent.checkpoint_now silent.reconcile_now silent_settle
      silent.modify_quiet) simp_all

lemma one_tick_mode: "triple (\<lambda>w. wk_posts w = p0) (tick_mode rt md prev) (\<lambda>_. sent 1 p0)"
  unfolding tick_mode_def
  by (intro sent_struct one_tick_on keeps_struct silent.quiet silent.disable_sweep silent.reconcile_now silent.modify_quiet) simp_all

lemma one_tick: "triple (\<lambda>w. wk_posts w = p0) (tick rt) (\<lambda>_. sent 1 p0)"
proof -
  have clear: "triple (sent 1 p0) (modify (\<lambda>w. w\<lparr>wk_busy := False\<rparr>)) (\<lambda>_. sent 1 p0)"
    by (rule triple_modify) (simp add: sent_def)
  show ?thesis unfolding tick_def
    by (rule keeps_bind [OF keeps_get], rule triple_if, rule sent_ret, rule keeps_bind [OF silent.await],
        rule keeps_bind [OF silent.modify_quiet], simp, rule triple_bind [OF one_tick_mode], rule triple_bind [OF clear],
        rule triple_return)
qed

section \<open>Properties\<close>

fun passes :: "runtime \<Rightarrow> nat \<Rightarrow> worker \<Rightarrow> worker" where
  "passes rt 0 w = w"
| "passes rt (Suc n) w = passes rt n (snd (run_state (tick rt) w))"

lemma passes_acts: "acts_between rt l0 (wk_ledger w) \<Longrightarrow> acts_between rt l0 (wk_ledger (passes rt n w))"
proof (induction n arbitrary: w)
  case (Suc n)
  then show ?case using tripleD_snd [OF refines.tick [of rt l0] Suc.prems] by simp
qed simp


text \<open>
  One pass sends at most one POST, and never one for a batch for which a run had been accepted
  or that had ended before the pass, whatever has happened to the ledger.
\<close>

theorem worker_posts_open_batch:
  "\<exists>new. wk_posts (snd (run_state (tick rt) (w\<lparr>wk_ledger := fold act_step acts wake_empty\<rparr>))) = wk_posts w @ new
     \<and> length new \<le> 1 \<and> list_all (\<lambda>bid. \<not> ended bid (fold act_step acts wake_empty)) new"
proof -
  let ?l = "fold act_step acts wake_empty"
  let ?w = "w\<lparr>wk_ledger := ?l\<rparr>"
  have "posts_fresh ?l (wk_posts w) (wk_ledger ?w) (wk_posts ?w)"
    using wa.run_inv [OF wake_wf_empty, of acts] by (simp add: posts_fresh_def)
  from tripleD_snd [OF posts.tick this, of rt] tripleD_snd [OF one_tick, of ?w "wk_posts w" rt]
  show ?thesis unfolding posts_fresh_def sent_def by auto
qed

end
