(* ===== verification/Worker_Progress.thy ===== *)
theory Worker_Progress
  imports Worker_Properties
begin

text \<open>
  What the worker leaves behind of the group of intents it worked on: every one is closed or
  postponed beyond the start of the pass, on every path through the ledger, the stream and its
  errors. So a pass makes progress: it neither forgets a report nor finds it due again at once.
\<close>

section \<open>Rested intents\<close>

definition rested_rows :: "time \<Rightarrow> string set \<Rightarrow> intent list \<Rightarrow> bool" where
  "rested_rows t K rows \<longleftrightarrow> (\<forall>r \<in> set rows. in_key r \<in> K \<longrightarrow> in_state r \<in> {Done, Void} \<or> t < in_next r)"

abbreviation rested :: "time \<Rightarrow> string set \<Rightarrow> worker \<Rightarrow> bool" where
  "rested t K w \<equiv> rested_rows t K (br_intents (wk_bridge w))"

abbreviation keys_of :: "intent list \<Rightarrow> string set" where
  "keys_of items \<equiv> in_key ` set items"

lemma rested_mono: "rested_rows t K rows \<Longrightarrow> K' \<subseteq> K \<Longrightarrow> rested_rows t K' rows"
  by (auto simp: rested_rows_def)

lemma rested_put:
  "rested_rows t K rows \<Longrightarrow> st \<in> {Done, Void} \<or> (\<exists>n. next = Some n \<and> t < n) \<Longrightarrow>
   rested_rows t (insert (in_key i) K) (put_item now st batch owner detail next i rows)"
  by (auto simp: rested_rows_def put_item_def set_upd_where)

lemma rested_fold:
  "rested_rows t K rows \<Longrightarrow> st \<in> {Done, Void} \<or> (\<exists>n. next = Some n \<and> t < n) \<Longrightarrow>
   rested_rows t (K \<union> keys_of items) (fold (put_item now st batch owner detail next) items rows)"
proof (induction items arbitrary: K rows)
  case (Cons i items)
  from Cons.IH [OF rested_put [OF Cons.prems] Cons.prems(2)] show ?case by simp
qed simp

lemma rested_frame:
  "rested_rows t K rows \<Longrightarrow> K \<inter> keys_of items = {} \<Longrightarrow> rested_rows t K (fold (put_item now st batch owner detail next) items rows)"
proof (induction items arbitrary: rows)
  case (Cons i items)
  have "rested_rows t K (put_item now st batch owner detail next i rows)"
    using Cons.prems by (auto simp: rested_rows_def put_item_def set_upd_where)
  from Cons.IH [OF this] Cons.prems(2) show ?case by auto
qed simp

text \<open>The clock does not run behind the start of the pass, and the jitter is not negative.\<close>

definition calm :: "runtime \<Rightarrow> time \<Rightarrow> bool" where
  "calm rt t \<longleftrightarrow> (\<forall>n. t \<le> mo_now (rt_future rt n) \<and> 0 \<le> mo_jitter (rt_future rt n))"

section \<open>Programs that leave the bridge alone\<close>

abbreviation still :: "(worker, 'a) state \<Rightarrow> bool" where
  "still m \<equiv> (\<forall>P. keeps (\<lambda>w. P (wk_bridge w)) m)"

lemma still_await: "keeps (\<lambda>w. P (wk_bridge w)) (await rt)"
  unfolding await_def by (rule triple_State) simp

lemma still_modify: "(\<And>w. wk_bridge (f w) = wk_bridge w) \<Longrightarrow> keeps (\<lambda>w. P (wk_bridge w)) (modify f)"
  by (rule triple_modify) simp

lemma still_read: "keeps (\<lambda>w. P (wk_bridge w)) (read_ledger rt f)"
  unfolding read_ledger_def by (intro keeps_struct still_await)

lemma still_audit: "keeps (\<lambda>w. P (wk_bridge w)) (audit_now rt e phase)"
  unfolding audit_now_def by (intro keeps_struct still_await still_modify) simp

lemma still_throttled: "keeps (\<lambda>w. P (wk_bridge w)) (throttled_audit rt tag e phase)"
  unfolding throttled_audit_def by (intro keeps_struct still_await still_modify still_audit) simp

lemma still_batch: "keeps (\<lambda>w. P (wk_bridge w)) (batch_state rt bid)" "keeps (\<lambda>w. P (wk_bridge w)) (batch_of rt b)"
  unfolding batch_state_def batch_of_def by (intro keeps_struct still_read)+

lemma still_lineage: "keeps (\<lambda>w. P (wk_bridge w)) (lineage_now rt resolved)"
  unfolding lineage_now_def by (intro keeps_struct still_await)

lemma still_fail: "keeps (\<lambda>w. P (wk_bridge w)) (fail_note rt resolved reason)"
  unfolding fail_note_def by (intro keeps_struct still_await still_lineage still_modify) simp

lemma still_completed: "keeps (\<lambda>w. P (wk_bridge w)) (note_completed rt resolved)"
  unfolding note_completed_def by (intro keeps_struct still_await still_lineage still_modify) simp

lemma still_endpoint: "keeps (\<lambda>w. P (wk_bridge w)) (endpoint_now rt)"
  unfolding endpoint_now_def by (intro keeps_struct still_await)

lemma still_snapshot: "keeps (\<lambda>w. P (wk_bridge w)) (run_snapshot_once rt run)" "keeps (\<lambda>w. P (wk_bridge w)) (run_terminal_once rt run)"
  unfolding run_terminal_once_def run_snapshot_once_def by (intro keeps_struct still_await still_endpoint)+

lemma still_close: "keeps (\<lambda>w. P (wk_bridge w)) (audit_close rt resolved bid run to reason)"
  unfolding audit_close_def by (rule still_audit)

lemmas still_programs = still_await still_read still_audit still_throttled still_batch still_lineage still_fail
  still_completed still_endpoint still_snapshot still_close

lemmas still_rested = still_programs [where P = "\<lambda>b. rested_rows t K (br_intents b)" for t K]

section \<open>Programs that move intents\<close>

lemma rest_set: "st \<in> {Done, Void} \<or> (\<exists>n. next = Some n \<and> t < n) \<Longrightarrow>
    triple (rested t K) (set_items rt items st batch owner detail next) (\<lambda>_. rested t (K \<union> keys_of items))"
  unfolding set_items_def
  by (rule triple_bind [OF still_rested(1)], rule triple_modify) (simp add: rested_fold)

lemma frame_set: "K \<inter> keys_of items = {} \<Longrightarrow> keeps (rested t K) (set_items rt items st batch owner detail next)"
  unfolding set_items_def
  by (rule triple_bind [OF still_rested(1)], rule triple_modify) (simp add: rested_frame)

lemma rest_close: "st \<in> {Done, Void} \<Longrightarrow>
    triple (rested t K) (close_items rt items st detail) (\<lambda>_. rested t (K \<union> keys_of items))"
  unfolding close_items_def by (rule rest_set) simp

lemma await_learn: "calm rt t \<Longrightarrow> triple (rested t K) (await rt) (\<lambda>m w. rested t K w \<and> t \<le> mo_now m \<and> 0 \<le> mo_jitter m)"
  by (auto simp: triple_def await_def calm_def)

lemma rest_later: "calm rt t \<Longrightarrow> 0 < delay \<Longrightarrow>
    triple (rested t K) (set_later rt items st batch detail delay) (\<lambda>_. rested t (K \<union> keys_of items))"
  unfolding set_later_def by (rule bind_learn [OF await_learn]) (auto intro: rest_set)

lemma rest_quarantine: "calm rt t \<Longrightarrow> triple (rested t K) (quarantine rt items resolved bid run) (\<lambda>_. rested t (K \<union> keys_of items))"
  unfolding quarantine_def by (rule triple_bind [OF rest_later]) (auto intro: still_rested)

lemma rest_record: "calm rt t \<Longrightarrow>
    triple (rested t K) (record_batch rt items resolved bid state run) (\<lambda>ok. rested t (if ok then K else K \<union> keys_of items))"
proof -
  assume calm: "calm rt t"
  have q: "triple (rested t K) (do { quarantine rt items resolved bid run; ret False })
      (\<lambda>ok. rested t (if ok then K else K \<union> keys_of items))"
    by (rule triple_bind [OF rest_quarantine [OF calm]], rule triple_return) simp
  have s: "triple (rested t K) (do { m2 \<leftarrow> await rt; w2 \<leftarrow> State_Monad.get; if c m2 w2 then ret True
      else do { quarantine rt items resolved bid run; ret False } }) (\<lambda>ok. rested t (if ok then K else K \<union> keys_of items))" for c
    by (rule triple_bind [OF still_rested(1)], rule keeps_bind [OF keeps_get], rule triple_if)
       (auto intro: q triple_return)
  show ?thesis unfolding record_batch_def
    by (rule triple_bind [OF still_rested(1)], rule keeps_bind [OF keeps_get],
        rule keeps_bind, rule still_modify, simp, rule triple_answer)
       (auto intro: s triple_return)
qed

lemma rest_poll_loop: "calm rt t \<Longrightarrow> keeps (rested t K) (poll_loop rt n bid resolved)"
proof (induction n)
  case (Suc n)
  have r: "keeps (rested t K) (record_batch rt [] resolved bid ''terminal'' None)"
    by (rule triple_post [OF rest_record [OF Suc.prems, of K "[]"]]) (simp split: if_splits)
  show ?case unfolding poll_loop.simps
    by (intro keeps_struct still_rested r Suc)
qed (simp add: keeps_ret)

lemma rest_poll: "calm rt t \<Longrightarrow> keeps (rested t K) (poll_run rt bid resolved)"
  unfolding poll_run_def by (intro keeps_struct still_rested rest_poll_loop)

text \<open>
  The outcome of a program that settles a group: unless it raises, the group is rested; what was
  rested before stays so.
\<close>

definition rests :: "time \<Rightarrow> string set \<Rightarrow> intent list \<Rightarrow> unit option \<Rightarrow> worker \<Rightarrow> bool" where
  "rests t K items r w \<longleftrightarrow> rested t (if r = None then K else K \<union> keys_of items) w"

abbreviation settles_group :: "time \<Rightarrow> string set \<Rightarrow> intent list \<Rightarrow> (worker, unit option) state \<Rightarrow> bool" where
  "settles_group t K items m \<equiv> triple (rested t K) m (rests t K items)"

lemma settled_completed: "triple (rested t (K \<union> keys_of items)) completed (rests t K items)"
  by (rule triple_return) (simp add: rests_def)

lemma settled_raise: "settles_group t K items (ret None)"
  by (rule triple_return) (simp add: rests_def)

lemma settled_none: "rested t K w \<Longrightarrow> rests t K items None w"
  by (simp add: rests_def)

text \<open>After the group is rested, anything that leaves the bridge alone may follow.\<close>

lemma settled_then: "triple (rested t K) m (\<lambda>_. rested t (K \<union> keys_of items)) \<Longrightarrow>
    (\<And>a. triple (rested t (K \<union> keys_of items)) (f a) (rests t K items)) \<Longrightarrow> settles_group t K items (State_Monad.bind m f)"
  by (rule triple_bind)

lemma settled_record:
  assumes "calm rt t" and "settles_group t K items m"
  shows "settles_group t K items (do { ok \<leftarrow> record_batch rt items resolved bid state run; if \<not> ok then completed else m })"
  by (rule triple_bind [OF rest_record [OF assms(1)]])
     (auto intro: assms(2) settled_completed)

lemmas settled_rules = settled_completed settled_raise settled_none keeps_bind [OF still_rested(1)]
  keeps_bind [OF still_rested(2)] keeps_bind [OF still_rested(3)] keeps_bind [OF still_rested(4)]
  keeps_bind [OF still_rested(5)] keeps_bind [OF still_rested(6)] keeps_bind [OF still_rested(7)]
  keeps_bind [OF still_rested(8)] keeps_bind [OF still_rested(9)] keeps_bind [OF still_rested(10)]
  keeps_bind [OF still_rested(13)] keeps_bind [OF keeps_get]
  settled_then [OF rest_close] settled_record worker_cases

lemma rest_unseen: "calm rt t \<Longrightarrow> settles_group t K items (settle_unseen rt items resolved bid run)"
  unfolding settle_unseen_def
  by (intro settled_rules settled_then [OF rest_later] settled_then [OF rest_quarantine]
      attempt_silent keeps_ret still_rested) simp_all

lemma rest_transport: "calm rt t \<Longrightarrow> settles_group t K items (transport_error rt items resolved bid exc run)"
  unfolding transport_error_def by (intro settled_rules rest_unseen)

lemma rest_guarded: "calm rt t \<Longrightarrow> settles_group t K items (settle_guarded rt items resolved bid run)"
proof -
  assume calm: "calm rt t"
  show ?thesis unfolding settle_guarded_def
  proof (rule triple_bind [OF rest_unseen [OF calm]])
    fix r
    show "triple (rests t K items r) (case r of None \<Rightarrow> transport_error rt items resolved bid ''AttributeError'' run | Some _ \<Rightarrow> completed)
        (rests t K items)"
      using rest_transport [OF calm] settled_completed by (cases r) (simp_all add: rests_def [abs_def])
  qed
qed

lemma rest_end_seen: "calm rt t \<Longrightarrow> settles_group t K items (end_seen rt items resolved bid t0 term run)"
  unfolding end_seen_def
  by (intro settled_rules keeps_bind [OF triple_if] still_rested) simp_all

abbreviation reads :: "time \<Rightarrow> string set \<Rightarrow> intent list \<Rightarrow> read_end \<times> json option \<Rightarrow> worker \<Rightarrow> bool" where
  "reads t K items out w \<equiv> rested t (if fst out = ReadStopped then K \<union> keys_of items else K) w"

lemma reads_record:
  assumes "calm rt t" and "triple (rested t K) m (reads t K items)"
  shows "triple (rested t K) (do { ok \<leftarrow> record_batch rt items resolved bid state run; if ok then m else ret (ReadStopped, run') })
    (reads t K items)"
  by (rule triple_bind [OF rest_record [OF assms(1)]]) (auto intro: assms(2) triple_return)

lemma reads_ret: "e \<noteq> ReadStopped \<Longrightarrow> triple (rested t K) (ret (e, run)) (reads t K items)"
  by (rule triple_return) simp

lemma rest_stream: "calm rt t \<Longrightarrow> triple (rested t K) (read_stream rt items resolved bid fin lines ev run started) (reads t K items)"
proof (induction lines arbitrary: ev run started)
  case Nil
  then show ?case by (auto intro: reads_ret split: stream_end.split)
next
  case (Cons raw lines)
  show ?case unfolding read_stream.simps
    by (intro keeps_bind [OF still_rested(4)] keeps_bind [OF triple_if] still_rested keeps_ret reads_record worker_cases
        reads_ret Cons) simp_all
qed

lemma rest_dispatch: "calm rt t \<Longrightarrow> settles_group t K items (dispatch rt items resolved bid)"
proof -
  assume calm: "calm rt t"
  note rules = rest_unseen [OF calm] rest_guarded [OF calm] rest_transport [OF calm] rest_end_seen [OF calm]
  have stream: "settles_group t K items (do { out \<leftarrow> read_stream rt items resolved bid fin lines None None False;
      case fst out of
        ReadTerminal term \<Rightarrow> end_seen rt items resolved bid t0 term (snd out)
      | ReadEnd \<Rightarrow> settle_guarded rt items resolved bid (snd out)
      | ReadStopped \<Rightarrow> completed
      | ReadError exc \<Rightarrow> transport_error rt items resolved bid exc (snd out)
      | ReadCancelled \<Rightarrow> do { _ \<leftarrow> settle_unseen rt items resolved bid (snd out); ret None } })" for fin lines t0
  proof (rule triple_bind [OF rest_stream [OF calm]])
    fix out :: "read_end \<times> json option"
    have c: "settles_group t K items (do { _ \<leftarrow> settle_unseen rt items resolved bid (snd out); ret None })"
      by (rule triple_bind [OF rest_unseen [OF calm]], rule triple_return)
         (auto simp: rests_def elim: rested_mono split: if_splits)
    show "triple (reads t K items out) (case fst out of
        ReadTerminal term \<Rightarrow> end_seen rt items resolved bid t0 term (snd out)
      | ReadEnd \<Rightarrow> settle_guarded rt items resolved bid (snd out)
      | ReadStopped \<Rightarrow> completed
      | ReadError exc \<Rightarrow> transport_error rt items resolved bid exc (snd out)
      | ReadCancelled \<Rightarrow> do { _ \<leftarrow> settle_unseen rt items resolved bid (snd out); ret None }) (rests t K items)"
      by (cases "fst out") (simp_all add: rules c settled_completed)
  qed
  have post: "settles_group t K items (State_Monad.bind (modify (\<lambda>w. w\<lparr>wk_posts := wk_posts w @ [bid]\<rparr>)) f)"
    if "\<And>a. settles_group t K items (f a)" for f
    by (rule keeps_bind [OF still_modify that]) simp
  show ?thesis unfolding dispatch_def
    by (intro settled_rules settled_then [OF rest_later] settled_then [OF rest_quarantine] attempt_silent still_rested
        stream rules post calm) simp_all
qed

lemma rest_crashed: "calm rt t \<Longrightarrow> settles_group t K items (settle_crashed rt session items resolved bid)"
  unfolding settle_crashed_def by (intro settled_rules) simp_all

lemma rest_follow: "calm rt t \<Longrightarrow> settles_group t K items (follow_batch rt session items resolved bid)"
  unfolding follow_batch_def
  by (intro settled_rules rest_dispatch rest_crashed attempt_silent rest_poll keeps_bind [OF triple_if] still_rested) simp_all

lemma rest_own: "calm rt t \<Longrightarrow> settles_group t K items (own_claim rt session items resolved bid)"
  unfolding own_claim_def
  by (intro settled_rules rest_follow settled_then [OF rest_quarantine]) simp_all

lemma settled_frame: "K \<inter> keys_of items = {} \<Longrightarrow> (\<And>a. settles_group t K items (f a)) \<Longrightarrow>
    settles_group t K items (State_Monad.bind (set_items rt items st batch owner detail next) f)"
  by (rule keeps_bind [OF frame_set])

lemma rest_empty: "calm rt t \<Longrightarrow> K \<inter> keys_of items = {} \<Longrightarrow>
    settles_group t K items (claim_empty rt session items resolved keys rejected)"
  unfolding claim_empty_def Let_def
  by (rule keeps_bind, (intro keeps_struct still_rested)[1])
     (intro settled_rules settled_frame settled_then [OF rest_later] rest_dispatch; simp)

lemma rest_verdict: "calm rt t \<Longrightarrow> K \<inter> keys_of items = {} \<Longrightarrow>
    settles_group t K items (claim_verdict rt session items resolved keys fires owner v)"
proof -
  assume calm: "calm rt t" and K: "K \<inter> keys_of items = {}"
  have busy: "settles_group t K items (do { m \<leftarrow> await rt;
      set_later rt items Pending None ''busy'' (RETRY_BUSY_S + mo_jitter m * RETRY_JITTER_S); completed })"
  proof (rule triple_bind [OF await_learn [OF calm]])
    fix m
    show "triple (\<lambda>w. rested t K w \<and> t \<le> mo_now m \<and> 0 \<le> mo_jitter m) (do {
        set_later rt items Pending None ''busy'' (RETRY_BUSY_S + mo_jitter m * RETRY_JITTER_S); completed }) (rests t K items)"
    proof (rule triple_ctx)
      assume "t \<le> mo_now m \<and> 0 \<le> mo_jitter m"
      then have "0 < RETRY_BUSY_S + mo_jitter m * RETRY_JITTER_S"
        by (simp add: RETRY_BUSY_S_def RETRY_JITTER_S_def)
      then show "settles_group t K items (do {
          set_later rt items Pending None ''busy'' (RETRY_BUSY_S + mo_jitter m * RETRY_JITTER_S); completed })"
        by (intro settled_then [OF rest_later] calm settled_completed)
    qed
  qed
  show ?thesis
  proof (cases v)
    case AdmitBusy
    then show ?thesis unfolding claim_verdict_def
      by simp (rule keeps_bind [OF still_rested(4)], rule busy)
  qed (simp_all add: claim_verdict_def, (intro settled_rules settled_frame settled_then [OF rest_later] rest_dispatch rest_empty calm K; simp)+)
qed

lemma rest_admit: "calm rt t \<Longrightarrow> K \<inter> keys_of items = {} \<Longrightarrow>
    settles_group t K items (admit_now rt session items resolved keys fires)"
  unfolding admit_now_def Let_def
  by (intro keeps_bind [OF still_rested(1)] keeps_bind [OF keeps_get] keeps_bind [OF still_modify] rest_verdict) simp_all

lemma gate_retry: "chain_gate cfg now lin db = (allowed, deny, fires, Some r) \<Longrightarrow> 0 < r"
  by (auto simp: chain_gate_def split: prod.splits if_splits option.splits)

lemma checkpoint_retry: "fst (chain_gate_checkpoint cfg t1 t2 t3 lin sdb resolved db) = (allowed, deny, fires, Some r) \<Longrightarrow> 0 < r"
  by (auto simp: chain_gate_checkpoint_def Let_def dest: gate_retry split: option.splits if_splits)

lemma rest_fresh: "calm rt t \<Longrightarrow> K \<inter> keys_of items = {} \<Longrightarrow>
    settles_group t K items (fresh_claim rt session items resolved)"
  unfolding fresh_claim_def
  by (intro keeps_bind [OF still_rested(7)] keeps_bind [OF still_rested(1)] keeps_bind [OF keeps_get]
      keeps_bind [OF still_modify] keeps_bind [OF still_rested(4)] worker_cases settled_then [OF rest_later]
      settled_completed rest_admit)
     (auto dest: checkpoint_retry split: option.split)

section \<open>The whole group\<close>

text \<open>What is neither linked nor foreign has been rested on the way.\<close>

lemma rest_sort: "calm rt t \<Longrightarrow> triple (rested t K) (sort_claims rt items)
    (\<lambda>(linked, foreign) w. rested t (K \<union> (keys_of items - keys_of linked - keys_of foreign)) w)"
proof (induction items arbitrary: K)
  case (Cons i items)
  let ?post = "\<lambda>(linked, foreign) w. rested t (K \<union> (keys_of (i # items) - keys_of linked - keys_of foreign)) w"
  note IH = Cons.IH [OF Cons.prems]
  have link: "triple (rested t K) (do { (linked, foreign) \<leftarrow> sort_claims rt items; ret (i # linked, foreign) }) ?post"
    by (rule triple_bind [OF IH]) (auto intro!: triple_return elim!: rested_mono)
  have foreign: "triple (rested t K) (do { (linked, foreign) \<leftarrow> sort_claims rt items; ret (linked, i # foreign) }) ?post"
    by (rule triple_bind [OF IH]) (auto intro!: triple_return elim!: rested_mono)
  have go: "triple (rested t (K \<union> keys_of [i])) (sort_claims rt items) ?post"
    by (rule triple_post [OF IH]) (auto elim!: rested_mono)
  show ?case unfolding sort_claims.simps
    by (intro keeps_bind [OF still_rested(2)] keeps_bind [OF still_rested(6)] worker_cases link foreign
        triple_bind [OF rest_close] triple_bind [OF rest_later] go Cons.prems) simp_all
qed (auto intro: triple_return)

lemma rest_give_up: "triple (rested t K) (give_up rt session resolved now items)
    (\<lambda>eligible w. rested t (K \<union> (keys_of items - keys_of eligible)) w)"
proof (induction items arbitrary: K)
  case (Cons i items)
  have "triple (rested t K) (do { rest \<leftarrow> give_up rt session resolved now items; ret (i # rest) })
      (\<lambda>eligible w. rested t (K \<union> (keys_of (i # items) - keys_of eligible)) w)"
    by (rule triple_bind [OF Cons.IH], rule triple_return) (auto elim!: rested_mono)
  moreover have "triple (rested t (K \<union> keys_of [i])) (give_up rt session resolved now items)
      (\<lambda>eligible w. rested t (K \<union> (keys_of (i # items) - keys_of eligible)) w)"
    by (rule triple_post [OF Cons.IH]) (auto elim!: rested_mono)
  ultimately show ?case unfolding give_up.simps
    by (intro worker_cases triple_bind [OF rest_close] keeps_bind [OF still_rested(3)]) simp_all
qed (auto intro: triple_return)

lemma rest_covers: "settles_group t K items m \<Longrightarrow> A \<subseteq> K \<union> keys_of items \<Longrightarrow> (\<And>w. P w \<Longrightarrow> rested t K w) \<Longrightarrow>
    triple P m (\<lambda>r w. r \<noteq> None \<longrightarrow> rested t A w)"
  by (erule triple_weaken) (auto simp: rests_def elim: rested_mono)

lemma rest_linked:
  assumes calm: "calm rt t"
  shows "triple (rested t (A - keys_of linked)) (if linked = [] then completed
     else case own_batch_id linked of
       Some bid \<Rightarrow> own_claim rt session linked resolved bid
     | None \<Rightarrow> do {
         eligible \<leftarrow> give_up rt session resolved now linked;
         if eligible = [] then completed else fresh_claim rt session eligible resolved })
    (\<lambda>r w. r \<noteq> None \<longrightarrow> rested t A w)"
proof -
  have "triple (rested t (A - keys_of linked)) (do {
         eligible \<leftarrow> give_up rt session resolved now linked;
         if eligible = [] then completed else fresh_claim rt session eligible resolved })
      (\<lambda>r w. r \<noteq> None \<longrightarrow> rested t A w)"
  proof (rule triple_bind [OF rest_give_up])
    fix eligible
    let ?K = "A - keys_of linked \<union> (keys_of linked - keys_of eligible)"
    have "triple (rested t ?K) (fresh_claim rt session eligible resolved) (\<lambda>r w. r \<noteq> None \<longrightarrow> rested t A w)"
      by (rule rest_covers [OF rest_fresh [OF calm, of "?K - keys_of eligible"]]) (auto elim!: rested_mono)
    then show "triple (rested t ?K) (if eligible = [] then completed else fresh_claim rt session eligible resolved)
        (\<lambda>r w. r \<noteq> None \<longrightarrow> rested t A w)"
      by (auto intro!: triple_return elim!: rested_mono)
  qed
  then show ?thesis
    by (intro triple_if triple_option rest_covers [OF rest_own [OF calm]] triple_return) (auto elim!: rested_mono)
qed

lemma rest_process: "calm rt t \<Longrightarrow> t \<le> now \<Longrightarrow>
    triple (\<lambda>_. True) (process rt session items now) (\<lambda>r w. r \<noteq> None \<longrightarrow> rested t (keys_of items) w)"
proof -
  assume calm: "calm rt t" and now: "t \<le> now"
  let ?Q = "\<lambda>r w. r \<noteq> None \<longrightarrow> rested t (keys_of items) w"
  have start: "rested t {} w" for w by (simp add: rested_rows_def)
  have fault: "triple (rested t {}) (do { set_items rt items Pending None None why (Some (now + 30)); completed }) ?Q" for why
    using now by (intro triple_bind [OF rest_set] triple_return) simp_all
  have after: "triple (rested t (keys_of items - keys_of linked - keys_of foreign))
      (if foreign = [] then ret () else do { close_items rt foreign Done d; audit_now rt e ph })
      (\<lambda>_. rested t (keys_of items - keys_of linked))" for linked foreign d e ph
    by (rule triple_if, rule triple_return, simp, rule triple_bind [OF rest_close], simp,
        rule triple_post [OF still_rested(3)]) (auto elim!: rested_mono)
  have body: "triple (case lf of (linked, foreign) \<Rightarrow> rested t ({} \<union> (keys_of items - keys_of linked - keys_of foreign)))
      (case lf of (linked, foreign) \<Rightarrow> do {
         (if foreign = [] then ret () else do {
            close_items rt foreign Done ''app-consumed'';
            audit_now rt (audit_decision rt session resolved (map in_key foreign) ''app-consumed'') ''yield'' });
         if linked = [] then completed
         else case own_batch_id linked of
           Some bid \<Rightarrow> own_claim rt session linked resolved bid
         | None \<Rightarrow> do {
             eligible \<leftarrow> give_up rt session resolved now linked;
             if eligible = [] then completed else fresh_claim rt session eligible resolved } }) ?Q" for lf resolved
    by (cases lf) (simp only: prod.case Un_empty_left, rule triple_bind [OF after rest_linked [OF calm]])
  have "triple (rested t {}) (process rt session items now) ?Q"
    unfolding process_def Let_def
    by (intro keeps_bind [OF still_rested(1)] triple_option triple_bind [OF rest_sort [OF calm]] fault body)
  then show ?thesis by (rule triple_weaken) (simp_all add: start)
qed

section \<open>Property\<close>

text \<open>
  C20. No report of a group is forgotten, and none spins: when a pass has worked on a group, on
  whatever path (the App consumed it, the ledger was busy or over quota, the listener was down, the
  stream broke, the settlement was refused), each of its intents is closed or not due before a time
  after the start of the pass.
\<close>

theorem worker_rests_every_item:
  assumes "calm rt now" and "run_state (process rt session items now) w = (Some (), w')"
  shows "list_all (\<lambda>r. in_state r \<in> {Done, Void} \<or> now < in_next r)
    (filter (\<lambda>r. in_key r \<in> in_key ` set items) (br_intents (wk_bridge w')))"
  using tripleD [OF rest_process [OF assms(1) order_refl] TrueI assms(2)]
  by (auto simp: rested_rows_def list_all_iff)

text \<open>A pass over one fresh report while the chain of its session is switched off.\<close>

definition demo_moment :: moment where
  "demo_moment = \<lparr>mo_now = 100, mo_others = [], mo_env = demo_env, mo_fault = None, mo_resolve = (\<lambda>_. None), mo_cfg = None,
     mo_host = \<lparr>he_env = (\<lambda>_. []), he_secret = (\<lambda>_. None), he_local = (\<lambda>_. False)\<rparr>, mo_fresh = ''f'', mo_jitter = 0,
     mo_get = (\<lambda>_. None), mo_post = PostRefused 409\<rparr>"

definition demo_runtime :: runtime where
  "demo_runtime = \<lparr>rt_home = ''h'', rt_future = (\<lambda>_. demo_moment), rt_str = (\<lambda>_. []), rt_dumps = (\<lambda>_. []), rt_json = (\<lambda>_. None)\<rparr>"

definition demo_intent :: intent where
  "demo_intent = new_intent demo_key ''h'' ''s'' (Some 7) 1 0 ''delivered-direct'' On 50"

definition demo_worker :: worker where
  "demo_worker = \<lparr>wk_tick = 0, wk_bridge = bridge_empty\<lparr>br_intents := [demo_intent]\<rparr>, wk_ledger = wake_empty,
     wk_chain = \<lparr>cd_chains = [], cd_audit = []\<rparr>, wk_settled = [], wk_throttle = (\<lambda>_. None), wk_busy = False, wk_mode = None,
     wk_next = 0, wk_batch_cursor = [], wk_check_cursor = [], wk_posts = []\<rparr>"

lemma demo_await: "run_state (await demo_runtime) w = (demo_moment, w\<lparr>wk_tick := Suc (wk_tick w)\<rparr>)"
  by (simp add: await_def demo_runtime_def demo_moment_def)

lemma demo_outside: "mo_fault demo_moment = None" "mo_resolve demo_moment s = None" "mo_cfg demo_moment = None" "mo_now demo_moment = 100"
  by (simp_all add: demo_moment_def)

lemma demo_sort: "wk_ledger w = wake_empty \<Longrightarrow>
    run_state (sort_claims demo_runtime [demo_intent]) w = (([demo_intent], []), w\<lparr>wk_tick := Suc (wk_tick w)\<rparr>)"
  by (simp add: read_ledger_def demo_await ledger_state_for_def wake_empty_def table_simps)

lemma demo_unclaimed: "own_batch_id [demo_intent] = None" "exhausted now demo_intent = None"
  by (simp_all add: own_batch_id_def exhausted_def demo_intent_def new_intent_def)

lemma demo_fresh: "fst (run_state (fresh_claim demo_runtime s [demo_intent] r) w) = Some ()"
  by (simp add: fresh_claim_def lineage_now_def demo_await demo_outside Let_def chain_gate_checkpoint_def chain_gate_def
      settings_def off_reason_def starts_with_def split_beta)

theorem worker_rests_every_item_witness:
  "\<exists>w'. run_state (process demo_runtime ''s'' [demo_intent] 100) demo_worker = (Some (), w')
     \<and> list_all (\<lambda>r. in_state r \<in> {Done, Void} \<or> 100 < in_next r)
         (filter (\<lambda>r. in_key r \<in> in_key ` set [demo_intent]) (br_intents (wk_bridge w')))"
proof -
  let ?out = "run_state (process demo_runtime ''s'' [demo_intent] 100) demo_worker"
  have calm: "calm demo_runtime 100" by (simp add: calm_def demo_runtime_def demo_moment_def)
  have "wk_ledger demo_worker = wake_empty" by (simp add: demo_worker_def)
  then have "fst ?out = Some ()"
    by (simp add: process_def Let_def demo_await demo_outside demo_sort demo_unclaimed demo_fresh del: sort_claims.simps)
  then have out: "?out = (Some (), snd ?out)" by (simp only: prod_eq_iff fst_conv snd_conv simp_thms)
  show ?thesis by (rule exI, rule conjI [OF out worker_rests_every_item [OF calm out]])
qed

section \<open>Switched off\<close>

definition outsiders :: "runtime \<Rightarrow> wake_op set" where
  "outsiders rt = (\<Union>n. set (mo_others (rt_future rt n)))"

text \<open>Since \<open>v\<close> only the others have written to the ledger, and the worker has sent and audited nothing.\<close>

definition inert_since :: "runtime \<Rightarrow> worker \<Rightarrow> worker \<Rightarrow> bool" where
  "inert_since rt v w \<longleftrightarrow> wk_posts w = wk_posts v \<and> wk_chain w = wk_chain v \<and> wk_settled w = wk_settled v
     \<and> (\<exists>ops. set ops \<subseteq> outsiders rt \<and> wk_ledger w = fold wake_step ops (wk_ledger v))"

lemma inert_refl: "inert_since rt v v"
  unfolding inert_since_def by (auto intro: exI [of _ "[]"])

lemma inert_await: "keeps (inert_since rt v) (await rt)"
  unfolding await_def
proof (rule triple_State)
  fix w assume "inert_since rt v w"
  then obtain ops where ops: "set ops \<subseteq> outsiders rt" "wk_ledger w = fold wake_step ops (wk_ledger v)"
    and rest: "wk_posts w = wk_posts v" "wk_chain w = wk_chain v" "wk_settled w = wk_settled v"
    by (auto simp: inert_since_def)
  have "set (ops @ mo_others (rt_future rt (wk_tick w))) \<subseteq> outsiders rt" using ops by (auto simp: outsiders_def)
  moreover have "fold wake_step (mo_others (rt_future rt (wk_tick w))) (wk_ledger w)
    = fold wake_step (ops @ mo_others (rt_future rt (wk_tick w))) (wk_ledger v)" using ops by simp
  ultimately show "inert_since rt v (snd (rt_future rt (wk_tick w), w\<lparr>wk_tick := Suc (wk_tick w),
      wk_ledger := fold wake_step (mo_others (rt_future rt (wk_tick w))) (wk_ledger w)\<rparr>))"
    using rest unfolding inert_since_def snd_conv
    by (intro conjI exI [of _ "ops @ mo_others (rt_future rt (wk_tick w))"]) simp_all
qed

lemma inert_modify: "(\<And>w. wk_posts (f w) = wk_posts w \<and> wk_chain (f w) = wk_chain w \<and> wk_settled (f w) = wk_settled w
    \<and> wk_ledger (f w) = wk_ledger w) \<Longrightarrow> keeps (inert_since rt v) (modify f)"
  by (rule triple_modify) (simp add: inert_since_def)

lemma inert_mode: "md \<noteq> On \<Longrightarrow> keeps (inert_since rt v) (tick_mode rt md prev)"
proof -
  assume md: "md \<noteq> On"
  have off: "keeps (inert_since rt v) (disable_sweep rt)" "keeps (inert_since rt v) (reconcile_now rt)"
    unfolding disable_sweep_def reconcile_now_def by (intro keeps_struct inert_await inert_modify; simp)+
  note rules = conjI impI keeps_struct inert_await inert_modify off
  show ?thesis
  proof (cases md)
    case Off
    then show ?thesis by (simp add: tick_mode_def) (intro rules)
  next
    case ShadowMode
    then show ?thesis by (simp add: tick_mode_def) (intro rules; simp)
  qed (use md in simp)
qed

lemma tick_idle: "\<not> wk_busy w \<Longrightarrow> snd (run_state (tick rt) w) = (snd (run_state (tick_mode rt (fst (settings (mo_cfg (rt_future rt (wk_tick w))))) (wk_mode w))
    (snd (run_state (await rt) w)\<lparr>wk_busy := True, wk_mode := Some (fst (settings (mo_cfg (rt_future rt (wk_tick w)))))\<rparr>)))\<lparr>wk_busy := False\<rparr>"
  by (simp add: tick_def await_def split_beta)

text \<open>
  Switched off or in shadow the worker is inert: a pass posts nothing, audits nothing, settles
  nothing, and the ledger changes only by what the others do; and the pass that sees the switch go
  off voids every intent that was not yet claimed.
\<close>

theorem worker_off_is_inert:
  assumes "md = fst (settings (mo_cfg (rt_future rt (wk_tick w))))" and "md \<noteq> On" and "\<not> wk_busy w"
  shows "inert_since rt w (snd (run_state (tick rt) w))
    \<and> (md = Off \<and> (wk_mode w = Some On \<or> wk_mode w = Some ShadowMode) \<longrightarrow>
       filter (\<lambda>i. in_state i \<in> {Pending, Shadow}) (br_intents (wk_bridge (snd (run_state (tick rt) w)))) = [])"
proof -
  let ?w = "snd (run_state (await rt) w)\<lparr>wk_busy := True, wk_mode := Some md\<rparr>"
  have "inert_since rt w ?w"
    using tripleD_snd [OF inert_await inert_refl [of rt w]] by (simp add: inert_since_def)
  from tripleD_snd [OF inert_mode [OF assms(2)] this, of "wk_mode w"]
  have "inert_since rt w (snd (run_state (tick rt) w))"
    unfolding tick_idle [OF assms(3)] assms(1) [symmetric] by (simp add: inert_since_def)
  moreover have "filter (\<lambda>i. in_state i \<in> {Pending, Shadow}) (br_intents (wk_bridge (snd (run_state (tick rt) w)))) = []"
    if "md = Off" "wk_mode w = Some On \<or> wk_mode w = Some ShadowMode"
    unfolding tick_idle [OF assms(3)] assms(1) [symmetric] using that
    by (auto simp: tick_mode_def disable_sweep_def await_def disable_intents_def upd_where_def filter_empty_conv)
  ultimately show ?thesis by blast
qed

theorem worker_off_is_inert_witness:
  "wk_posts (snd (run_state (tick demo_runtime) demo_worker)) = []"
  using worker_off_is_inert [of "fst (settings (mo_cfg (rt_future demo_runtime (wk_tick demo_worker))))" demo_runtime demo_worker]
  by (simp add: inert_since_def demo_runtime_def demo_moment_def demo_worker_def settings_def)

end
