(* ===== verification/Spec2Isabelle.thy ===== *)
theory Spec2Isabelle
  imports Artifact_Quota Notification_Properties Steer_Injection Approval_Properties
    Wake_Properties Cron_Properties Ledger_Retention Cross_Drain Cross_Tasks Cross_Routes
    Bridge_Ticket_Properties Bridge_Link_Properties Push_Link Approval_Push Viewer_Push
    Activity_Properties Install_Transaction Runtime_Properties Row_Properties
    Wake_Door Turn_Rows Web_Archive Clarify_Bridge App_Platform
    Artifact_Upload Media_Archive Notification_Routes Wake_Routes Steer_Routes
    Self_Wake_Reconcile Chain_Properties Worker_Progress
begin

text \<open>
  Verification development for the Python side of the Hermes app repository: the \<open>compat\<close> plugin that
  runs inside a Hermes gateway, its durable ledgers, its background workers and its bridges. Paths below
  are relative to \<open>src/\<close>.

  \<^bold>\<open>The program.\<close> The plugin adds to a gateway that is not part of this repository. A phone app posts runs,
  steers and approvals; cron jobs and other processes write reports into the session database. Five SQLite
  files carry what must survive a crash: the notification ledger, the steer inbox, the wake ledger, the
  cron bridge and the spool of cross-source messages. They interact as follows.
  \<^item> A finished cron job calls the cron bridge, which writes its report into the session database with a
    provenance and keeps it in a spool until that is committed.
  \<^item> The self-wake worker sweeps the session database for such reports, records an intent for each, and
    asks the wake ledger to admit a batch of due reports as a new run of their session. The wake ledger
    verifies the provenance, keeps each report to one accepted run and limits the rate; the worker's chain
    fuse stops wakes that fail or that follow one another without a human text.
  \<^item> A running turn takes steers from the steer inbox at tool boundaries and asks the user for approvals
    through the approval registry; what happens is pushed through the notification ledger.
  \<^item> Sessions that belong to another platform are reached through the cross-source bridge (a spool, an
    injection into the core, a live follow of the turn) and through the WebSocket bridge (tickets, a policy
    for the requests of the app, replayed subscriptions).
  \<^item> Retention moves old terminal rows of the ledgers into archives.

  \<^bold>\<open>The theories\<close>, by component, in the order they build on one another. A definition carries the name of
  the function or constant it models, except where that name is taken in HOL.
  \<^item> \<open>Prelude\<close>: tables, clock readings, \<open>wins_along\<close> (how many steps of a history fall under a test), generic
    lemmas. \<open>Json\<close>: JSON values as Python reads them. \<open>Url_Text\<close>: percent encoding and queries.
    \<open>Keyset\<close>: pages of a query by a growing key, their completeness.
  \<^item> \<open>Artifact_Quota\<close>: \<open>compat/artifact_quota.py\<close>.
  \<^item> \<open>Notification_Store\<close>, \<open>Notification_Events\<close>, \<open>Notification_Properties\<close>:
    \<open>compat/notification_store.py\<close> (events, delivery slots, cursors) and \<open>compat/notification_events.py\<close>
    (what is pushed when); at most one push per slot also when deliveries interleave.
  \<^item> \<open>Steer_Store\<close>, \<open>Steer_Properties\<close>: \<open>compat/steer_store.py\<close>. \<open>Steer_Inbox\<close>, \<open>Steer_Injection\<close>,
    \<open>Steer_Inbox_Properties\<close>: \<open>compat/steer_inbox.py\<close>, the requests, the injection at a tool boundary, the
    confirmation of the flushed row and the recovery.
  \<^item> \<open>Approval_Display\<close>, \<open>Approval_Inbox\<close>, \<open>Approval_Properties\<close>: \<open>compat/approval_inbox.py\<close>.
  \<^item> \<open>Session_DB\<close>: the tables of the gateway the plugin reads with its own SQL. \<open>Auto_Wake\<close>,
    \<open>Auto_Wake_Store\<close>: \<open>compat/auto_wake.py\<close>, \<open>compat/auto_wake_store.py\<close>. \<open>Wake_Ledger\<close> has the ledger's
    invariant, \<open>Wake_Properties\<close> its promises over histories.
  \<^item> \<open>Cron_Bridge\<close>, \<open>Cron_Delivery\<close>, \<open>Cron_Properties\<close>: \<open>compat/cron_delivery_store.py\<close>.
  \<^item> \<open>Ledger_Retention\<close>: \<open>compat/ledger_retention.py\<close>: what a pass files and what it deletes,
    in the notification ledger, the wake ledger and the cron bridge.
  \<^item> \<open>Self_Wake_Chain\<close>, \<open>Chain_Properties\<close>, \<open>Self_Wake_Reconcile\<close>, \<open>Self_Wake_Worker\<close>,
    \<open>Worker_Properties\<close>, \<open>Worker_Progress\<close>: \<open>compat/self_wake.py\<close>: the fuse, the sweep, and the worker as a
    program in the state monad. \<open>Monad_Rules\<close> and \<open>Worker_Rules\<close> hold the Hoare rules and the interfaces
    of what every program of the worker keeps. \<open>Wake_Reconcile\<close>: \<open>compat/wake_reconcile.py\<close>.
  \<^item> \<open>Cross_Outbox\<close>, \<open>Cross_Bridge\<close>, \<open>Cross_Properties\<close>, \<open>Cross_Drain\<close>, \<open>Cross_Tasks\<close>,
    \<open>Synthetic_Runs\<close>, \<open>Turn_Follow\<close>, \<open>Follow_Properties\<close>, \<open>Cross_Routes\<close>: \<open>compat/crosssource.py\<close>.
    \<open>Cross_Tasks\<close> cuts a delivery where the code awaits and runs any number of them interleaved.
  \<^item> \<open>Bridge_Tickets\<close>, \<open>Bridge_Ticket_Properties\<close>, \<open>Bridge_Link\<close>, \<open>Bridge_Link_Properties\<close>:
    \<open>compat/wsbridge.py\<close>.
  \<^item> \<open>Utf8_Text\<close>: texts as code points, UTF-8 and the cut at a number of bytes. \<open>Push_Transport\<close>,
    \<open>Push_Link\<close>: \<open>compat/ntfy_notify.py\<close> and the links of pushes. \<open>Approval_Push\<close>:
    \<open>compat/approval_push.py\<close>.
  \<^item> Units of \<open>compat/compat.py\<close>: \<open>Viewer_Push\<close> (a push when the viewer of a turn has gone), \<open>Run_Activity\<close> and
    \<open>Activity_Properties\<close> (the activity snapshot), \<open>Install_Transaction\<close> (binding wrappers over the gateway and
    taking them back), \<open>Wake_Door\<close> (the door a wake batch is dispatched through: one turn per batch),
    \<open>Artifact_Upload\<close> (uploads under the quota: what is on disk is accounted for), \<open>Media_Archive\<close> (the copies of
    media files and what a download restores), and the routes of three ledgers, \<open>Notification_Routes\<close>,
    \<open>Wake_Routes\<close> and \<open>Steer_Routes\<close>: each handler with its refusals, over the ledger's own operations.
  \<^item> \<open>Turn_Rows\<close>: the triggers of \<open>compat/patch_dupguard.py\<close> and the merge of neighbouring user rows.
    \<open>Row_Projection\<close>, \<open>Row_Properties\<close>: \<open>compat/injected_rows.py\<close>, \<open>compat/api_turn_display.py\<close>,
    \<open>compat/session_list.py\<close>, \<open>compat/status_context.py\<close>: what the app is shown of the rows of the gateway.
  \<^item> \<open>Clarify_Bridge\<close>: \<open>compat/patch_clarify.py\<close>, questions as forms. \<open>App_Platform\<close>:
    \<open>compat/app_platform.py\<close> and the shims of the scheduler, the send of a cron report to the app.
  \<^item> \<open>Web_Service\<close>, \<open>Web_Archive\<close>: \<open>web/serve.py\<close>, the front of the app: body caps, proxied requests, static
    files, memory files, the archive of uploads. \<open>Runtime_Config\<close>, \<open>Runtime_Properties\<close>:
    \<open>scripts/runtime_config.py\<close> and the settings of \<open>scripts/build_app.py\<close>, the env file and its resolver.

  \<^bold>\<open>How the code is modelled.\<close>
  \<^item> A table is a list of rows in rowid order, a row a record with a field for each column. A transaction is
    one step: a constraint that fails or an exception that rolls back leaves the state as it was. A lock held
    over a block makes the block one step; where the code lets go of a lock or awaits between two parts, the
    parts are separate steps, or a function argument stands for what other tasks do in between.
  \<^item> Clock readings and floats are reals. Each call of the clock is an argument of its own, and no theorem
    takes the clock to be monotone unless it says so. Python integers are \<open>int\<close> or, where the code checks the
    sign, \<open>nat\<close>.
  \<^item> Texts are lists of characters, one for each byte of the UTF-8 form. Where the code counts or cuts
    characters, lower-cases or strips, the model is exact for ASCII texts. The texts of pushes and previews,
    which the code cuts by bytes, are lists of code points (\<open>utext\<close>) with their encoding written out.
  \<^item> Objects the code shares by reference (the state of a turn that a closure keeps, the entry of a run)
    live in a list of objects and are named by their position in it.
  \<^item> JSON columns are JSON values: reading a column that the code wrote gives what was written. The texts
    \<open>json.dumps\<close> makes, SHA-256 digests and random identifiers are arguments.
  \<^item> The gateway core (its session database methods, its run API, its plugin injection), HTTP, ntfy and the
    gateway sockets answer through arguments, with every answer and every documented exception possible.
  \<^item> An exception of the code is a value of an error type or \<^const>\<open>None\<close>.

  \<^bold>\<open>The lemmas.\<close> Every component has an invariant or a history lemma from which its properties follow:
  over a history of operations from the empty state (\<^const>\<open>fold\<close> of a step function, with any order of
  operations and any arguments) for the stores, over Hoare triples for the worker, over interleavings of
  small steps for the deliveries. Properties that span components are the refinement of the wake ledger by
  the worker, the cron report that the wake reader accepts, and the push of approvals and steers through the
  notification ledger.

  \<^bold>\<open>Bounds and fuel.\<close> Following a chain of parent sessions takes as many steps as there are sessions and one
  more: a chain that is longer has a cycle. The other bounds are those of the code: 64 steps to a root, 3
  attempts to resolve a session, 25 pages of a sweep, 12 polls of a run, 3 attempts of an injection. Loops
  that evict entries end because the measure of each round falls (\<open>termination\<close> proofs).

  \<^bold>\<open>Not modelled.\<close>
  \<^item> \<open>compat/compat.py\<close> beyond the units named above: it finds out which gateway it runs in by fingerprints
    of its source, wraps methods of the core and advertises its capabilities; most of what those wrappers do is
    what the core does. Of the routes that are not modelled, the approval routes pass on what the registry in
    \<open>Approval_Inbox\<close> decides, and history, timing, skills and the session stream reshape answers of the core.
  \<^item> Creating and migrating the SQLite files, pragmas, file modes; log lines, except that the ticket
    redaction is modelled.
  \<^item> Network, threads and processes: the ntfy worker thread and the pool of the media mirror, the sockets of the
    WebSocket bridge, the time limits of the proxy (they appear as outcomes) and the draining of event streams
    after a browser has left, \<open>web/launch.py\<close>.
  \<^item> Build, packaging, font and probe scripts and the operator tools, which call the ledgers modelled here; the
    Dart and Kotlin user interface.
\<close>

end
